(* ===== verification/Prelude.thy ===== *)
theory Prelude
  imports Main "HOL-Library.Word" "HOL-Library.Finite_Map"
begin

text \<open>
  Shared vocabulary of the development: the machine types of the Go code, results that carry an
  error, big-endian byte encodings with their injectivity, the replay of a log, and the generic
  lemmas on lists and finite maps that the component theories use.

  Fixed-size byte arrays are words of the same width (\<open>[16]byte\<close> is a 128-bit word, \<open>[32]byte\<close> a
  256-bit word); \<open>be_bytes\<close> gives back the array's bytes, and \<open>be_bytes_less_iff\<close> shows that the
  order of the words is the order \<open>bytes.Compare\<close> gives the arrays. Go maps are finite maps.
\<close>

section \<open>Machine types\<close>

type_synonym byte = "8 word"
type_synonym bytes = "byte list"
type_synonym u8 = "8 word"
type_synonym u16 = "16 word"
type_synonym u32 = "32 word"
type_synonym u64 = "64 word"
type_synonym hash32 = "256 word"
type_synonym 'k go_set = "'k fset"
type_synonym ('k, 'v) go_map = "('k, 'v) fmap"

named_theorems byte_simps \<open>lengths and injectivity of byte encodings\<close>
named_theorems result_simps \<open>inversion of computations that return an error or a value\<close>

section \<open>Results\<close>

text \<open>A Go function that returns \<open>(T, error)\<close> has the type \<open>'e + 'a\<close>; \<open>Inl\<close> is the error.\<close>

definition bind_res :: "'e + 'a \<Rightarrow> ('a \<Rightarrow> 'e + 'b) \<Rightarrow> 'e + 'b" where
  "bind_res r f = (case r of Inl e \<Rightarrow> Inl e | Inr x \<Rightarrow> f x)"

lemma bind_res_simps [simp]:
  "bind_res (Inl e) f = Inl e"
  "bind_res (Inr x) f = f x"
  by (simp_all add: bind_res_def)

lemma bind_res_Inr [result_simps]:
  "bind_res r f = Inr y \<longleftrightarrow> (\<exists>x. r = Inr x \<and> f x = Inr y)"
  by (cases r) simp_all

lemma bind_res_Inl [result_simps]:
  "bind_res r f = Inl e \<longleftrightarrow> r = Inl e \<or> (\<exists>x. r = Inr x \<and> f x = Inl e)"
  by (cases r) simp_all

lemma if_Inl_eq_Inr [result_simps]:
  "(if b then Inl e else r) = Inr x \<longleftrightarrow> \<not> b \<and> r = Inr x"
  by simp

lemma if_Inr_eq_Inr [result_simps]:
  "(if b then Inr x else Inl e) = Inr y \<longleftrightarrow> b \<and> x = y"
  by auto

definition is_ok :: "'e + 'a \<Rightarrow> bool" where
  "is_ok r = (case r of Inl _ \<Rightarrow> False | Inr _ \<Rightarrow> True)"

lemma is_ok_simps [simp]: "\<not> is_ok (Inl e)" "is_ok (Inr x)"
  by (simp_all add: is_ok_def)

lemma is_ok_iff: "is_ok r \<longleftrightarrow> (\<exists>x. r = Inr x)"
  by (cases r) simp_all

text \<open>Replaying a log applies its entries in order and stops at the first error.\<close>

fun replay :: "('s \<Rightarrow> 'e \<Rightarrow> 'r + 's) \<Rightarrow> 's \<Rightarrow> 'e list \<Rightarrow> 'r + 's" where
  "replay f s [] = Inr s"
| "replay f s (e # es) = (case f s e of Inl r \<Rightarrow> Inl r | Inr s' \<Rightarrow> replay f s' es)"

lemma replay_append:
  "replay f s (xs @ ys) = bind_res (replay f s xs) (\<lambda>s'. replay f s' ys)"
  by (induction xs arbitrary: s) (auto split: sum.splits)

lemma replay_snoc [result_simps]:
  "replay f s (xs @ [x]) = Inr t \<longleftrightarrow> (\<exists>u. replay f s xs = Inr u \<and> f u x = Inr t)"
proof (cases "replay f s xs")
  case (Inr u)
  then show ?thesis by (cases "f u x") (simp_all add: replay_append)
qed (simp add: replay_append)

lemma replay_invariant:
  assumes "\<And>s e s'. P s \<Longrightarrow> f s e = Inr s' \<Longrightarrow> P s'"
    and "P s" and "replay f s es = Inr t"
  shows "P t"
  using assms(2,3)
proof (induction es arbitrary: s)
  case Nil
  then show ?case by simp
next
  case (Cons e es)
  then obtain s' where "f s e = Inr s'" and "replay f s' es = Inr t"
    by (auto split: sum.splits)
  with Cons assms(1) show ?case by blast
qed

section \<open>Lists\<close>

lemma sort_key_Nil_iff [simp]: "sort_key f xs = [] \<longleftrightarrow> xs = []"
  by (metis length_0_conv length_sort)

lemma sorted_le_last: "sorted xs \<Longrightarrow> x \<in> set xs \<Longrightarrow> x \<le> last xs"
  by (cases xs rule: rev_cases) (auto simp: sorted_append)

text \<open>Rows that are numbered from 1 in the order they were inserted.\<close>

lemma sort_key_numbered:
  assumes "map (unat \<circ> f) rows = [1..<Suc n]"
  shows "sort_key (f :: 'r \<Rightarrow> u64) rows = rows"
proof -
  have "sorted (map (unat \<circ> f) rows)" unfolding assms by (rule sorted_upt)
  then have "sorted (map f rows)" by (simp add: sorted_map word_le_nat_alt)
  then show ?thesis by (rule sort_key_id_if_sorted)
qed

lemma numbered_snoc:
  assumes "map (unat \<circ> f) rows = [1..<Suc (length rows)]" and "unat (f x) = Suc (length rows)"
  shows "map (unat \<circ> f) (rows @ [x]) = [1..<Suc (length (rows @ [x]))]"
  using assms by simp

section \<open>Big-endian bytes\<close>

fun be :: "nat \<Rightarrow> nat \<Rightarrow> bytes" where
  "be 0 x = []"
| "be (Suc n) x = be n (x div 256) @ [word_of_nat (x mod 256)]"

fun of_be :: "bytes \<Rightarrow> nat" where
  "of_be bs = foldl (\<lambda>a b. a * 256 + unat b) 0 bs"

declare of_be.simps [simp del]

lemma length_be [simp, byte_simps]: "length (be n x) = n"
  by (induction n arbitrary: x) auto

lemma of_be_Nil [simp]: "of_be [] = 0"
  by (simp add: of_be.simps)

lemma of_be_snoc [simp]: "of_be (bs @ [b]) = of_be bs * 256 + unat b"
  by (simp add: of_be.simps)

lemma unat_byte_lt: "unat (b :: byte) < 256"
  using unsigned_less [of b] by simp

lemma unat_u16_lt: "unat (w :: u16) < 65536"
  using unsigned_less [of w] by simp

lemma unat_u32_lt: "unat (w :: u32) < 4294967296"
  using unsigned_less [of w] by simp

lemma unat_u64_lt: "unat (w :: u64) < 18446744073709551616"
  using unsigned_less [of w] by simp

lemma of_be_be: "of_be (be n x) = x mod 256 ^ n"
proof (induction n arbitrary: x)
  case 0
  then show ?case by simp
next
  case (Suc n)
  have "x mod 256 ^ Suc n = 256 * (x div 256 mod 256 ^ n) + x mod 256"
    using mod_mult2_eq [of x 256 "256 ^ n"] by simp
  then show ?case
    by (simp add: Suc.IH unat_of_nat)
qed

lemma be_of_be: "be (length bs) (of_be bs) = bs"
proof (induction bs rule: rev_induct)
  case Nil
  then show ?case by simp
next
  case (snoc b bs)
  have "(of_be bs * 256 + unat b) div 256 = of_be bs"
    using unat_byte_lt [of b] by simp
  with snoc show ?case
    using unat_byte_lt [of b] by simp
qed

lemma of_be_lt: "of_be bs < 256 ^ length bs"
proof (induction bs rule: rev_induct)
  case Nil
  then show ?case by simp
next
  case (snoc b bs)
  then have "of_be bs * 256 + unat b < (of_be bs + 1) * 256"
    using unat_byte_lt [of b] by simp
  also have "\<dots> \<le> 256 ^ length bs * 256"
    using snoc by (intro mult_right_mono) auto
  finally show ?case by simp
qed

lemma be_inj: "be n x = be n y \<Longrightarrow> x < 256 ^ n \<Longrightarrow> y < 256 ^ n \<Longrightarrow> x = y"
  by (metis mod_less of_be_be)

lemma of_be_inj: "of_be xs = of_be ys \<Longrightarrow> length xs = length ys \<Longrightarrow> xs = ys"
  by (metis be_of_be)

lemma pow256: "8 dvd n \<Longrightarrow> (256::nat) ^ (n div 8) = 2 ^ n"
  by (auto simp: power_mult elim!: dvdE)

definition be_bytes :: "'a::len word \<Rightarrow> bytes" where
  "be_bytes w = be (LENGTH('a) div 8) (unat w)"

lemma length_be_bytes [simp, byte_simps]: "length (be_bytes (w :: 'a::len word)) = LENGTH('a) div 8"
  by (simp add: be_bytes_def)

lemma be_bytes_inj [byte_simps]:
  assumes "8 dvd LENGTH('a)"
  shows "be_bytes (v :: 'a::len word) = be_bytes w \<longleftrightarrow> v = w"
proof
  assume eq: "be_bytes v = be_bytes w"
  from pow256 [OF assms] show "v = w"
    using eq be_inj [of "LENGTH('a) div 8" "unat v" "unat w"] unsigned_less [of v] unsigned_less [of w]
    by (simp add: be_bytes_def word_unat_eq_iff)
qed simp

lemma ucast_u8_u16_inj [simp]: "(ucast (a :: u8) :: u16) = ucast b \<longleftrightarrow> a = b"
proof
  have "unat (ucast x :: u16) = unat x" for x :: u8
    using unat_byte_lt [of x] by (simp add: unsigned_ucast_eq take_bit_eq_mod)
  moreover assume "(ucast a :: u16) = ucast b"
  ultimately show "a = b" by (metis word_unat_eq_iff)
qed simp

text \<open>\<open>bytes.Compare\<close> on arrays of one size is the order of the words.\<close>

fun bytes_less :: "bytes \<Rightarrow> bytes \<Rightarrow> bool" where
  "bytes_less (x # xs) (y # ys) = (x < y \<or> x = y \<and> bytes_less xs ys)"
| "bytes_less [] (y # ys) = True"
| "bytes_less xs [] = False"

lemma of_be_Cons: "of_be (b # bs) = unat b * 256 ^ length bs + of_be bs"
proof (induction bs rule: rev_induct)
  case Nil
  then show ?case by (simp add: of_be.simps)
next
  case (snoc c bs)
  have "of_be ((b # bs) @ [c]) = of_be (b # bs) * 256 + unat c"
    by (rule of_be_snoc)
  with snoc show ?case by (simp add: algebra_simps)
qed

lemma bytes_less_of_be: "length xs = length ys \<Longrightarrow> bytes_less xs ys \<longleftrightarrow> of_be xs < of_be ys"
proof (induction xs ys rule: bytes_less.induct)
  case (1 x xs y ys)
  let ?m = "256 ^ length xs :: nat"
  have len: "length ys = length xs" using "1.prems" by simp
  have lt: "of_be xs < ?m" "of_be ys < ?m"
    using of_be_lt [of xs] of_be_lt [of ys] len by simp_all
  have step: "a * ?m + of_be us < b * ?m + of_be vs"
    if "a < b" "of_be us < ?m" for a b us vs
  proof -
    have "a * ?m + of_be us < (a + 1) * ?m" using that by simp
    also have "\<dots> \<le> b * ?m" using that by (intro mult_right_mono) auto
    finally show ?thesis by simp
  qed
  consider "x < y" | "x = y" | "y < x" by (meson linorder_neqE)
  then show ?case
  proof cases
    case 1
    then show ?thesis using step [of "unat x" "unat y" xs ys] lt len
      by (simp add: of_be_Cons word_less_nat_alt)
  next
    case 2
    then show ?thesis using "1.IH" "1.prems" len by (simp add: of_be_Cons)
  next
    case 3
    then show ?thesis using step [of "unat y" "unat x" ys xs] lt len
      by (auto simp: of_be_Cons word_less_nat_alt)
  qed
qed auto

lemma be_bytes_less_iff:
  assumes "8 dvd LENGTH('a)"
  shows "bytes_less (be_bytes v) (be_bytes w) \<longleftrightarrow> (v :: 'a::len word) < w"
proof -
  from pow256 [OF assms] have "of_be (be_bytes u) = unat u" for u :: "'a word"
    using unsigned_less [of u] by (simp add: be_bytes_def of_be_be)
  then show ?thesis
    by (simp add: bytes_less_of_be word_less_nat_alt)
qed

end
