(* ===== verification/Sync_Errors.thy ===== *)
theory Sync_Errors
  imports Prelude
begin

text \<open>
  The errors of the sync protocol (\<open>errors.go\<close>, \<open>password_ake.go\<close>). An error value is the list of
  the sentinel errors it wraps: \<open>fmt.Errorf\<close> with one \<open>%w\<close> keeps one sentinel, with two it keeps
  both, and the message text is not modelled. \<open>errors_Is\<close> is Go's \<open>errors.Is\<close> for these values,
  so \<open>errors_Is e ErrIntegrity\<close> is what a caller asks before it raises the alarm.
\<close>

datatype sentinel =
    ErrIntegrity
  | ErrMalformedID | ErrZeroID | ErrUnsupportedSuite | ErrSuiteBelowMinimum | ErrFieldTooLarge
  | ErrPlaintextTooLarge | ErrProtocolUnsupported
  | ErrMalformedEnvelope | ErrBadPadding | ErrBadSignature | ErrUnsupportedSigAlg
  | ErrDuplicateLeaf | ErrChainBroken | ErrMembershipRegressed | ErrRollback | ErrFork
  | ErrDeviceLog | ErrSupersededKey | ErrSuccessionRequired | ErrMembership | ErrNotAuthorized
  | ErrRevokedDevice | ErrRotationRequired | ErrUnverifiedMember | ErrVaultDeleted
  | ErrRootMismatch | ErrCommitAuthor | ErrRecordVersion | ErrEpochMismatch
  | ErrMembershipMismatch | ErrPurge
  | ErrAuthFailed | ErrMalformedMessage
  | IoEOF | IoUnexpectedEOF
  | ErrForeign string \<comment> \<open>an error of code outside the package, named by its caller\<close>

type_synonym go_error = "sentinel list"
type_synonym 'a result = "go_error + 'a"

text \<open>The errors declared with the type \<open>integrityError\<close>, whose \<open>Is\<close> matches the umbrella.\<close>

definition integrity_errors :: "sentinel list" where
  "integrity_errors =
    [ErrMalformedEnvelope, ErrBadPadding, ErrBadSignature, ErrUnsupportedSigAlg, ErrDuplicateLeaf,
     ErrChainBroken, ErrMembershipRegressed, ErrRollback, ErrFork, ErrDeviceLog, ErrSupersededKey,
     ErrSuccessionRequired, ErrMembership, ErrNotAuthorized, ErrRevokedDevice, ErrRotationRequired,
     ErrUnverifiedMember, ErrVaultDeleted, ErrRootMismatch, ErrCommitAuthor, ErrRecordVersion,
     ErrEpochMismatch, ErrMembershipMismatch, ErrPurge]"

definition integrityError_Is :: "sentinel \<Rightarrow> sentinel \<Rightarrow> bool" where
  "integrityError_Is e target \<longleftrightarrow> e \<in> set integrity_errors \<and> target = ErrIntegrity"

definition errors_Is :: "go_error \<Rightarrow> sentinel \<Rightarrow> bool" where
  "errors_Is err target \<longleftrightarrow> (\<exists>e \<in> set err. e = target \<or> integrityError_Is e target)"

lemma errors_Is_code [code]:
  "errors_Is err target = list_ex (\<lambda>e. e = target \<or> integrityError_Is e target) err"
  by (auto simp: errors_Is_def list_ex_iff)

abbreviation is_integrity :: "go_error \<Rightarrow> bool" where
  "is_integrity err \<equiv> errors_Is err ErrIntegrity"

lemma is_integrity_iff: "is_integrity err \<longleftrightarrow> (\<exists>e \<in> set err. e = ErrIntegrity \<or> e \<in> set integrity_errors)"
  by (simp add: errors_Is_def integrityError_Is_def)

lemma is_integrity_Cons [simp]:
  "is_integrity (e # es) \<longleftrightarrow> e = ErrIntegrity \<or> e \<in> set integrity_errors \<or> is_integrity es"
  by (auto simp: is_integrity_iff)

lemma is_integrity_Nil [simp]: "\<not> is_integrity []"
  by (simp add: is_integrity_iff)

lemma in_integrity_errors [simp]:
  "ErrMalformedEnvelope \<in> set integrity_errors" "ErrBadPadding \<in> set integrity_errors"
  "ErrBadSignature \<in> set integrity_errors" "ErrUnsupportedSigAlg \<in> set integrity_errors"
  "ErrDuplicateLeaf \<in> set integrity_errors" "ErrChainBroken \<in> set integrity_errors"
  "ErrMembershipRegressed \<in> set integrity_errors" "ErrRollback \<in> set integrity_errors"
  "ErrFork \<in> set integrity_errors" "ErrDeviceLog \<in> set integrity_errors"
  "ErrSupersededKey \<in> set integrity_errors" "ErrSuccessionRequired \<in> set integrity_errors"
  "ErrMembership \<in> set integrity_errors" "ErrNotAuthorized \<in> set integrity_errors"
  "ErrRevokedDevice \<in> set integrity_errors" "ErrRotationRequired \<in> set integrity_errors"
  "ErrUnverifiedMember \<in> set integrity_errors" "ErrVaultDeleted \<in> set integrity_errors"
  "ErrRootMismatch \<in> set integrity_errors" "ErrCommitAuthor \<in> set integrity_errors"
  "ErrRecordVersion \<in> set integrity_errors" "ErrEpochMismatch \<in> set integrity_errors"
  "ErrMembershipMismatch \<in> set integrity_errors" "ErrPurge \<in> set integrity_errors"
  by (simp_all add: integrity_errors_def)

lemma local_not_integrity [simp]:
  "ErrMalformedID \<notin> set integrity_errors" "ErrZeroID \<notin> set integrity_errors"
  "ErrUnsupportedSuite \<notin> set integrity_errors" "ErrSuiteBelowMinimum \<notin> set integrity_errors"
  "ErrFieldTooLarge \<notin> set integrity_errors" "ErrPlaintextTooLarge \<notin> set integrity_errors"
  "ErrProtocolUnsupported \<notin> set integrity_errors" "ErrAuthFailed \<notin> set integrity_errors"
  "ErrMalformedMessage \<notin> set integrity_errors"
  by (simp_all add: integrity_errors_def)

end
