(* ===== verification/Padding.thy ===== *)
theory Padding
  imports Sync_Errors
begin

text \<open>
  Record padding (\<open>padding.go\<close>). Lengths are natural numbers: every value is below \<open>2 ^ 33\<close>, far
  inside Go's 64-bit \<open>int\<close>, and \<open>bits.Len\<close> is the length of the binary numeral. The lemmas bound
  the overhead of the scheme, show that padding and unpadding are inverse, and pin down what
  \<open>Unpad\<close> accepts.
\<close>

unbundle bit_operations_syntax

definition MinPaddedSize :: nat where "MinPaddedSize = 256"
definition MaxPlaintextSize :: nat where "MaxPlaintextSize = 32 * 2 ^ 20"
definition lengthPrefix :: nat where "lengthPrefix = 4"

fun bits_Len :: "nat \<Rightarrow> nat" where
  "bits_Len n = (if n = 0 then 0 else Suc (bits_Len (n div 2)))"

declare bits_Len.simps [simp del]

definition padme :: "nat \<Rightarrow> nat" where
  "padme n =
    (if n < 2 then n
     else (let e = bits_Len n - 1; s = bits_Len e; mask = push_bit (e - s) 1 - 1 :: int in
       nat ((int n + mask) AND NOT mask)))"

definition PaddedSize :: "nat \<Rightarrow> nat" where
  "PaddedSize n = max MinPaddedSize (padme (lengthPrefix + n))"

text \<open>\<open>make\<close> gives zeros, \<open>PutUint32\<close> and \<open>copy\<close> overwrite the front.\<close>

definition Pad :: "bytes \<Rightarrow> bytes result" where
  "Pad plaintext =
    (if length plaintext > MaxPlaintextSize then Inl [ErrPlaintextTooLarge]
     else (let size = PaddedSize (length plaintext);
               filled = be_bytes (word_of_nat (length plaintext) :: u32) @ plaintext in
       Inr (filled @ replicate (size - length filled) 0)))"

definition Unpad :: "bytes \<Rightarrow> bytes result" where
  "Unpad padded =
    (if length padded < MinPaddedSize then Inl [ErrBadPadding]
     else (let n = of_be (take 4 padded) in
       if n > length padded - lengthPrefix \<or> length padded \<noteq> PaddedSize n then Inl [ErrBadPadding]
       else (let end = lengthPrefix + n in
         if list_ex (\<lambda>b. b \<noteq> 0) (drop end padded) then Inl [ErrBadPadding]
         else Inr (take n (drop lengthPrefix padded)))))"

section \<open>The scheme\<close>

lemma bits_Len_0 [simp]: "bits_Len 0 = 0"
  by (simp add: bits_Len.simps)

lemma bits_Len_pos: "0 < n \<Longrightarrow> bits_Len n = Suc (bits_Len (n div 2))"
  by (subst bits_Len.simps) simp

lemma bits_Len_bounds: "0 < n \<Longrightarrow> 2 ^ (bits_Len n - 1) \<le> n \<and> n < 2 ^ bits_Len n"
proof (induction n rule: less_induct)
  case (less n)
  show ?case
  proof (cases "n div 2 = 0")
    case True
    with less.prems have "n = 1" by simp
    then show ?thesis by (simp add: bits_Len_pos)
  next
    case False
    define k where "k = bits_Len (n div 2) - 1"
    from False have k: "bits_Len (n div 2) = Suc k"
      by (simp add: k_def bits_Len_pos [of "n div 2"])
    have "2 ^ k \<le> n div 2 \<and> n div 2 < 2 ^ Suc k"
      using less.IH [of "n div 2"] False less.prems k by simp
    then have "2 * 2 ^ k \<le> n \<and> n < 2 * 2 ^ Suc k"
      by linarith
    then show ?thesis
      using less.prems k by (simp add: bits_Len_pos [of n])
  qed
qed

lemma and_not_mask: "(a :: int) AND NOT (2 ^ k - 1) = a div 2 ^ k * 2 ^ k"
proof -
  have "a AND NOT (mask k) = push_bit k (drop_bit k a)"
    by (rule bit_eqI) (auto simp: bit_simps)
  then show ?thesis
    by (simp add: mask_eq_exp_minus_1 push_bit_eq_mult drop_bit_eq_div)
qed

lemma padme_round:
  assumes "2 \<le> n"
  shows "padme n = (let k = 2 ^ (bits_Len n - 1 - bits_Len (bits_Len n - 1)) in (n + (k - 1)) div k * k)"
proof -
  define j where "j = bits_Len n - 1 - bits_Len (bits_Len n - 1)"
  have pred: "int (2 ^ j - 1) = 2 ^ j - 1"
    by (simp add: of_nat_diff)
  have "padme n = nat ((int n + (2 ^ j - 1)) div 2 ^ j * 2 ^ j)"
    using assms by (simp add: padme_def j_def push_bit_eq_mult and_not_mask Let_def)
  also have "int n + (2 ^ j - 1) = int (n + (2 ^ j - 1))"
    by (simp only: of_nat_add pred)
  also have "int a div 2 ^ j * 2 ^ j = int (a div 2 ^ j * 2 ^ j)" for a
    by (simp add: zdiv_int)
  finally show ?thesis by (simp only: nat_int j_def Let_def)
qed

lemma round_up_bounds:
  fixes n m :: nat
  assumes "0 < m"
  shows "n \<le> (n + (m - 1)) div m * m \<and> (n + (m - 1)) div m * m \<le> n + (m - 1)"
proof -
  have "n + (m - 1) = (n + (m - 1)) div m * m + (n + (m - 1)) mod m"
    by simp
  moreover have "(n + (m - 1)) mod m < m"
    using assms by simp
  ultimately show ?thesis by linarith
qed

lemma padme_ge: "n \<le> padme n"
proof (cases "n < 2")
  case False
  then show ?thesis
    using round_up_bounds [of "2 ^ (bits_Len n - 1 - bits_Len (bits_Len n - 1))" n]
    by (simp add: padme_round Let_def)
qed (simp add: padme_def)

lemma PaddedSize_ge: "lengthPrefix + n \<le> PaddedSize n" "MinPaddedSize \<le> PaddedSize n"
  using padme_ge [of "lengthPrefix + n"] by (auto simp: PaddedSize_def)

text \<open>The overhead is below one eighth: with \<open>s \<ge> 3\<close> it is less than \<open>n / 2 ^ s\<close>, and the sizes
  with \<open>s < 3\<close> are those below 16.\<close>

lemma padme_small: "n < 16 \<Longrightarrow> 0 < n \<Longrightarrow> 8 * (padme n - n) < n"
proof -
  assume n: "n < 16" "0 < n"
  have "list_all (\<lambda>n. 8 * (padme n - n) < n) [1..<16]"
    by code_simp
  moreover have "n \<in> set [1..<16]" using n by simp
  ultimately show ?thesis by (simp only: list_all_iff)
qed

lemma padme_overhead: "0 < n \<Longrightarrow> 8 * (padme n - n) < n"
proof (cases "n < 16")
  case False
  define e where "e = bits_Len n - 1"
  define s where "s = bits_Len e"
  have "16 < (2::nat) ^ Suc (bits_Len n)"
    using False bits_Len_bounds [of n] by simp
  have e: "2 ^ e \<le> n" and "n < 2 ^ Suc e"
    using bits_Len_bounds [of n] False by (simp_all add: e_def bits_Len_pos [of n])
  then have "4 \<le> e"
    using False power_increasing [of "Suc e" 4 "2::nat"] by (cases "4 \<le> e") auto
  then have "e < 2 ^ s" "2 ^ (s - 1) \<le> e"
    using bits_Len_bounds [of e] by (simp_all add: s_def)
  then have "3 \<le> s"
    using \<open>4 \<le> e\<close> power_increasing [of s 2 "2::nat"] by (cases "3 \<le> s") auto
  have "s \<le> e"
    using \<open>2 ^ (s - 1) \<le> e\<close> less_exp [of "s - 1"] by linarith
  have "padme n \<le> n + (2 ^ (e - s) - 1)"
    using round_up_bounds [of "2 ^ (e - s)" n] False by (simp add: padme_round Let_def e_def s_def)
  then have "8 * (padme n - n) \<le> 8 * (2 ^ (e - s) - 1)"
    by simp
  also have "\<dots> < 2 ^ 3 * 2 ^ (e - s)" by simp
  also have "\<dots> \<le> 2 ^ s * 2 ^ (e - s)"
    using \<open>3 \<le> s\<close> by (intro mult_right_mono power_increasing) auto
  also have "\<dots> = 2 ^ e"
    using \<open>s \<le> e\<close> by (simp flip: power_add)
  finally show ?thesis using e by linarith
qed (rule padme_small)

section \<open>Padding and unpadding\<close>

definition pad_bytes :: "bytes \<Rightarrow> bytes" where
  "pad_bytes p = be 4 (length p) @ p @ replicate (PaddedSize (length p) - (4 + length p)) 0"

lemma length_pad_bytes: "length (pad_bytes p) = PaddedSize (length p)"
  using PaddedSize_ge(1) [of "length p"] by (simp add: pad_bytes_def lengthPrefix_def)

lemma Pad_eq:
  "Pad p = (if length p > MaxPlaintextSize then Inl [ErrPlaintextTooLarge] else Inr (pad_bytes p))"
  by (simp add: Pad_def pad_bytes_def be_bytes_def unat_of_nat Let_def MaxPlaintextSize_def)

lemma all_zero_replicate: "\<not> list_ex (\<lambda>b. b \<noteq> 0) bs \<longleftrightarrow> bs = replicate (length bs) 0"
  by (induction bs) auto

lemma Unpad_iff: "Unpad b = Inr p \<longleftrightarrow> length p < 2 ^ 32 \<and> b = pad_bytes p"
proof
  assume up: "Unpad b = Inr p"
  define n where "n = of_be (take 4 b)"
  from up have b: "MinPaddedSize \<le> length b" "n \<le> length b - 4" "length b = PaddedSize n"
    "\<not> list_ex (\<lambda>x. x \<noteq> 0) (drop (4 + n) b)" "p = take n (drop 4 b)"
    by (auto simp: Unpad_def Let_def lengthPrefix_def n_def split: if_splits)
  have len: "length (take 4 b) = 4" "length p = n"
    using b by (auto simp: MinPaddedSize_def)
  have "b = take 4 b @ p @ drop (4 + n) b"
    using b(5) by (metis append_take_drop_id drop_drop add.commute)
  moreover have "take 4 b = be 4 n"
    using be_of_be [of "take 4 b"] len by (simp add: n_def)
  moreover have "drop (4 + n) b = replicate (length b - (4 + n)) 0"
    using b(4) all_zero_replicate [of "drop (4 + n) b"] by simp
  moreover have "n < 2 ^ 32"
    using of_be_lt [of "take 4 b"] len by (simp add: n_def)
  ultimately show "length p < 2 ^ 32 \<and> b = pad_bytes p"
    using len b(3) by (simp add: pad_bytes_def)
next
  assume "length p < 2 ^ 32 \<and> b = pad_bytes p"
  then have p: "length p < 2 ^ 32" and b: "b = pad_bytes p" by auto
  have "of_be (be 4 (length p)) = length p"
    using p by (simp add: of_be_be)
  then have n: "of_be (take 4 b) = length p"
    by (simp add: b pad_bytes_def)
  have "drop (4 + length p) b = replicate (PaddedSize (length p) - (4 + length p)) 0"
    by (simp add: b pad_bytes_def)
  then have "\<not> list_ex (\<lambda>x. x \<noteq> 0) (drop (4 + length p) b)"
    by (simp add: all_zero_replicate)
  moreover have "take (length p) (drop 4 b) = p"
    by (simp add: b pad_bytes_def)
  ultimately show "Unpad b = Inr p"
    using PaddedSize_ge [of "length p"] length_pad_bytes [of p] n
    by (simp add: Unpad_def Let_def lengthPrefix_def b [symmetric])
qed

section \<open>Properties\<close>

text \<open>Padding hides sizes at a bounded cost and loses nothing: every size is rounded up, to at
  least the minimum, by less than one eighth above it.\<close>

theorem PaddedSize_bounds:
  "lengthPrefix + n \<le> PaddedSize n \<and> MinPaddedSize \<le> PaddedSize n \<and>
   (PaddedSize n = MinPaddedSize \<or> 8 * (PaddedSize n - (lengthPrefix + n)) < lengthPrefix + n)"
proof -
  have "8 * (padme (lengthPrefix + n) - (lengthPrefix + n)) < lengthPrefix + n"
    by (rule padme_overhead) (simp add: lengthPrefix_def)
  then show ?thesis
    using PaddedSize_ge [of n] by (auto simp: PaddedSize_def max_def)
qed

text \<open>For a plaintext within the size limit, padding and unpadding are inverse in both
  directions: \<open>Pad\<close> succeeds, \<open>Unpad\<close> gives the plaintext back from its output, and no other byte
  string unpads to it.\<close>

theorem Pad_Unpad_inverse:
  assumes "length p \<le> MaxPlaintextSize"
  shows "(Pad p = Inr b \<longleftrightarrow> Unpad b = Inr p) \<and> is_ok (Pad p)"
proof -
  have "length p < 2 ^ 32"
    using assms by (simp add: MaxPlaintextSize_def)
  with assms show ?thesis
    by (auto simp: Pad_eq Unpad_iff)
qed

theorem Pad_Unpad_inverse_witness:
  "(Pad [1, 2, 3] = Inr (pad_bytes [1, 2, 3]) \<longleftrightarrow> Unpad (pad_bytes [1, 2, 3]) = Inr [1, 2, 3]) \<and>
   is_ok (Pad [1, 2, 3]) \<and> Pad [1, 2, 3] = Inr (pad_bytes [1, 2, 3])"
proof -
  have "length [1, 2, 3 :: byte] \<le> MaxPlaintextSize"
    by (simp add: MaxPlaintextSize_def)
  from Pad_Unpad_inverse [OF this, of "pad_bytes [1, 2, 3]"] this show ?thesis
    by (simp add: Pad_eq)
qed

text \<open>\<open>Unpad\<close> has no size limit of its own: it accepts a padded plaintext one byte longer than
  the longest \<open>Pad\<close> accepts, so it does not accept only the output of \<open>Pad\<close>.\<close>

theorem Unpad_accepts_oversized:
  "\<exists>b p. Unpad b = Inr p \<and> Pad p = Inl [ErrPlaintextTooLarge]"
proof -
  let ?p = "replicate (MaxPlaintextSize + 1) (0 :: byte)"
  have "Unpad (pad_bytes ?p) = Inr ?p"
    by (simp add: Unpad_iff MaxPlaintextSize_def del: replicate_Suc replicate_add)
  moreover have "Pad ?p = Inl [ErrPlaintextTooLarge]"
    by (simp add: Pad_eq del: replicate_Suc)
  ultimately show ?thesis by blast
qed

end
