(* ===== verification/Canon.thy ===== *)
theory Canon
  imports Sync_Errors
begin

text \<open>
  The canonical encoding \<open>xqs-canon v1\<close> (\<open>canon.go\<close>), identifiers (\<open>ids.go\<close>) and the labelled
  messages (\<open>labels.go\<close>) of the sync protocol. The lemmas reduce every chain of appends to the
  list of its fields (\<open>canon_state\<close>, \<open>canon_result\<close>) and show that the encoding is injective, so
  that two signed structures with one encoding agree on their label and on every field.

  SHA-256, SHA-512 and Ed25519 verification are parameters, the fields of \<open>crypto\<close>; nothing is
  assumed of them here. A theorem that needs collision freedom asks for it on the byte strings the
  two computations really hash.
\<close>

section \<open>Primitives that are parameters\<close>

record crypto =
  sha256 :: "bytes \<Rightarrow> hash32"
  sha512 :: "bytes \<Rightarrow> bytes"
  ed25519_Verify :: "bytes \<Rightarrow> bytes \<Rightarrow> bytes \<Rightarrow> bool" \<comment> \<open>public key, message, signature\<close>

text \<open>A Go string is a byte sequence; the bytes of a literal are its characters.\<close>

definition str_bytes :: "string \<Rightarrow> bytes" where
  "str_bytes s = map (\<lambda>c. word_of_nat (of_char c)) s"

lemma length_str_bytes [simp]: "length (str_bytes s) = length s"
  by (simp add: str_bytes_def)

lemma char_byte_inj: "(word_of_nat (of_char c) :: byte) = word_of_nat (of_char d) \<Longrightarrow> c = d"
proof -
  assume "(word_of_nat (of_char c) :: byte) = word_of_nat (of_char d)"
  then have "unat (word_of_nat (of_char c) :: byte) = unat (word_of_nat (of_char d) :: byte)"
    by simp
  then have "(of_char c :: nat) mod 256 = of_char d mod 256"
    by (simp add: unat_of_nat)
  then show "c = d"
    by (metis char_of_mod_256 char_of_char of_char_mod_256)
qed

lemma str_bytes_inj [simp]: "str_bytes s = str_bytes t \<longleftrightarrow> s = t"
  by (auto simp: str_bytes_def intro: char_byte_inj dest!: map_injective intro!: injI)

section \<open>The encoder\<close>

record canon =
  c_buf :: bytes
  c_err :: "go_error option"

definition MaxUint32 :: nat where "MaxUint32 = 4294967295"

definition canon_Bytes :: "bytes \<Rightarrow> canon \<Rightarrow> canon" where
  "canon_Bytes b c =
    (if c_err c \<noteq> None then c
     else if length b > MaxUint32 then c\<lparr>c_err := Some [ErrFieldTooLarge]\<rparr>
     else c\<lparr>c_buf := c_buf c @ be_bytes (word_of_nat (length b) :: u32) @ b\<rparr>)"

definition canon_String :: "string \<Rightarrow> canon \<Rightarrow> canon" where
  "canon_String s = canon_Bytes (str_bytes s)"

definition NewCanon :: "string \<Rightarrow> canon" where
  "NewCanon label = canon_String label \<lparr>c_buf = [], c_err = None\<rparr>"

type_synonym ID = "128 word"

definition canon_ID :: "ID \<Rightarrow> canon \<Rightarrow> canon" where
  "canon_ID i = canon_Bytes (be_bytes i)"

definition canon_Hash :: "hash32 \<Rightarrow> canon \<Rightarrow> canon" where
  "canon_Hash h = canon_Bytes (be_bytes h)"

definition canon_U16 :: "u16 \<Rightarrow> canon \<Rightarrow> canon" where
  "canon_U16 v = canon_Bytes (be_bytes v)"

definition canon_U32 :: "u32 \<Rightarrow> canon \<Rightarrow> canon" where
  "canon_U32 v = canon_Bytes (be_bytes v)"

definition canon_U64 :: "u64 \<Rightarrow> canon \<Rightarrow> canon" where
  "canon_U64 v = canon_Bytes (be_bytes v)"

definition bool_byte :: "bool \<Rightarrow> bytes" where
  "bool_byte v = (if v then [1] else [0])"

definition canon_Bool :: "bool \<Rightarrow> canon \<Rightarrow> canon" where
  "canon_Bool v = canon_Bytes (bool_byte v)"

definition canon_IDs :: "ID list \<Rightarrow> canon \<Rightarrow> canon" where
  "canon_IDs ids c = fold canon_ID ids (canon_U64 (word_of_nat (length ids)) c)"

text \<open>A chain of appends, in the order the source writes it.\<close>

definition canon_chain :: "(canon \<Rightarrow> canon) list \<Rightarrow> canon \<Rightarrow> canon" where
  "canon_chain fs c = fold (\<lambda>f x. f x) fs c"

definition canon_Encoded :: "canon \<Rightarrow> bytes result" where
  "canon_Encoded c = (case c_err c of Some e \<Rightarrow> Inl e | None \<Rightarrow> Inr (c_buf c))"

definition canon_Sum :: "crypto \<Rightarrow> canon \<Rightarrow> hash32 result" where
  "canon_Sum cr c = (case c_err c of Some e \<Rightarrow> Inl e | None \<Rightarrow> Inr (sha256 cr (c_buf c)))"

section \<open>The encoding as a list of fields\<close>

definition fits :: "bytes \<Rightarrow> bool" where
  "fits f \<longleftrightarrow> length f \<le> MaxUint32"

definition encode_fields :: "bytes list \<Rightarrow> bytes" where
  "encode_fields fs = concat (map (\<lambda>f. be 4 (length f) @ f) fs)"

definition canon_result :: "bytes list \<Rightarrow> bytes result" where
  "canon_result fs = (if list_all fits fs then Inr (encode_fields fs) else Inl [ErrFieldTooLarge])"

definition canon_digest :: "crypto \<Rightarrow> bytes list \<Rightarrow> hash32 result" where
  "canon_digest cr fs =
    (if list_all fits fs then Inr (sha256 cr (encode_fields fs)) else Inl [ErrFieldTooLarge])"

definition canon_state :: "bytes list \<Rightarrow> canon" where
  "canon_state fs = foldl (\<lambda>c f. canon_Bytes f c) \<lparr>c_buf = [], c_err = None\<rparr> fs"

named_theorems canon_unfold \<open>appenders of the encoder as appends of byte fields\<close>

lemmas appender_defs [canon_unfold] =
  canon_String_def canon_ID_def canon_Hash_def canon_U16_def canon_U32_def canon_U64_def
  canon_Bool_def

lemma canon_Bytes_state [canon_unfold]: "canon_Bytes f (canon_state fs) = canon_state (fs @ [f])"
  by (simp add: canon_state_def)

lemma NewCanon_state [canon_unfold]: "NewCanon label = canon_state [str_bytes label]"
  by (simp add: NewCanon_def canon_String_def canon_state_def)

lemma fold_canon_Bytes: "fold (\<lambda>x. canon_Bytes (g x)) xs (canon_state fs) = canon_state (fs @ map g xs)"
  by (induction xs arbitrary: fs) (simp_all add: canon_Bytes_state)

lemma canon_IDs_state [canon_unfold]:
  "canon_IDs ids (canon_state fs) =
    canon_state (fs @ be_bytes (word_of_nat (length ids) :: u64) # map be_bytes ids)"
  by (simp add: canon_IDs_def canon_U64_def canon_ID_def [abs_def] canon_Bytes_state fold_canon_Bytes)

lemma canon_chain_simps [canon_unfold]:
  "canon_chain [] c = c" "canon_chain (f # fs) c = canon_chain fs (f c)"
  by (simp_all add: canon_chain_def)

lemma encode_fields_simps [simp]:
  "encode_fields [] = []" "encode_fields (f # fs) = be 4 (length f) @ f @ encode_fields fs"
  "encode_fields (fs @ gs) = encode_fields fs @ encode_fields gs"
  by (simp_all add: encode_fields_def)

lemma length_word_u32: "fits f \<Longrightarrow> be_bytes (word_of_nat (length f) :: u32) = be 4 (length f)"
  by (simp add: be_bytes_def fits_def MaxUint32_def unat_of_nat)

lemma canon_state_eq:
  "c_err (canon_state fs) = (if list_all fits fs then None else Some [ErrFieldTooLarge]) \<and>
   (list_all fits fs \<longrightarrow> c_buf (canon_state fs) = encode_fields fs)"
proof (induction fs rule: rev_induct)
  case Nil
  then show ?case by (simp add: canon_state_def)
next
  case (snoc f fs)
  then show ?case
    by (simp add: canon_Bytes_state [symmetric] canon_Bytes_def length_word_u32)
       (auto simp: fits_def)
qed

lemma canon_Encoded_state [canon_unfold]: "canon_Encoded (canon_state fs) = canon_result fs"
  using canon_state_eq [of fs] by (simp add: canon_Encoded_def canon_result_def)

lemma canon_Sum_state [canon_unfold]: "canon_Sum cr (canon_state fs) = canon_digest cr fs"
  using canon_state_eq [of fs] by (simp add: canon_Sum_def canon_digest_def)

lemma fits_be_bytes [simp]: "LENGTH('a::len) \<le> 1024 \<Longrightarrow> fits (be_bytes (w :: 'a word))"
  by (simp add: fits_def MaxUint32_def)

lemma fits_bool_byte [simp]: "fits (bool_byte b)"
  by (simp add: fits_def MaxUint32_def bool_byte_def)

lemma length_bool_byte [simp]: "length (bool_byte b) = 1"
  by (simp add: bool_byte_def)

lemma bool_byte_inj [simp]: "bool_byte a = bool_byte b \<longleftrightarrow> a = b"
  by (simp add: bool_byte_def)

lemma encode_fields_inj:
  assumes "encode_fields fs = encode_fields gs" and "list_all fits fs" and "list_all fits gs"
  shows "fs = gs"
  using assms
proof (induction fs arbitrary: gs)
  case Nil
  then show ?case by (cases gs) (auto dest: arg_cong [where f = length])
next
  case (Cons f fs)
  show ?case
  proof (cases gs)
    case Nil
    with Cons.prems(1) show ?thesis by (auto dest: arg_cong [where f = length])
  next
    case (Cons g gs')
    have "be 4 (length f) = be 4 (length g)"
      using Cons.prems(1) Cons by (simp add: append_eq_append_conv)
    then have "length f = length g"
      using Cons.prems(2,3) Cons be_inj [of 4 "length f" "length g"]
      by (simp add: fits_def MaxUint32_def)
    with Cons Cons.prems Cons.IH [of gs'] show ?thesis by simp
  qed
qed

lemma canon_result_inj: "canon_result fs = Inr m \<Longrightarrow> canon_result gs = Inr m \<Longrightarrow> fs = gs"
  by (auto simp: canon_result_def split: if_splits intro: encode_fields_inj)

lemma canon_result_Inr [result_simps]:
  "canon_result fs = Inr m \<longleftrightarrow> list_all fits fs \<and> m = encode_fields fs"
  by (auto simp: canon_result_def)

lemma canon_digest_Inr [result_simps]:
  "canon_digest cr fs = Inr h \<longleftrightarrow> list_all fits fs \<and> h = sha256 cr (encode_fields fs)"
  by (auto simp: canon_digest_def)

section \<open>Identifiers (ids.go)\<close>

definition IDSize :: nat where "IDSize = 16"

definition ID_IsZero :: "ID \<Rightarrow> bool" where
  "ID_IsZero i \<longleftrightarrow> i = 0"

definition id_of_bytes :: "bytes \<Rightarrow> ID" where
  "id_of_bytes raw = word_of_nat (of_be raw)"

text \<open>\<open>r\<close> is what the reader still holds; \<open>io.ReadFull\<close> fails when it holds too little.\<close>

definition NewID :: "bytes \<Rightarrow> (ID \<times> bytes) result" where
  "NewID r =
    (if r = [] then Inl [IoEOF]
     else if length r < IDSize then Inl [IoUnexpectedEOF]
     else (let i = id_of_bytes (take IDSize r) in
       if ID_IsZero i then Inl [ErrZeroID] else Inr (i, drop IDSize r)))"

text \<open>\<open>hex.EncodeToString\<close> and \<open>hex.DecodeString\<close>, which reads both cases.\<close>

definition hex_digit :: "nat \<Rightarrow> char" where
  "hex_digit n = ''0123456789abcdef'' ! n"

definition hex_byte :: "byte \<Rightarrow> string" where
  "hex_byte b = [hex_digit (unat b div 16), hex_digit (unat b mod 16)]"

definition hex_encode :: "bytes \<Rightarrow> string" where
  "hex_encode bs = concat (map hex_byte bs)"

definition from_hex :: "char \<Rightarrow> nat option" where
  "from_hex c =
    (let n = of_char c :: nat in
     if 48 \<le> n \<and> n \<le> 57 then Some (n - 48)
     else if 97 \<le> n \<and> n \<le> 102 then Some (n - 87)
     else if 65 \<le> n \<and> n \<le> 70 then Some (n - 55)
     else None)"

fun hex_decode :: "string \<Rightarrow> bytes option" where
  "hex_decode [] = Some []"
| "hex_decode [c] = None"
| "hex_decode (c # d # cs) =
    (case from_hex c of None \<Rightarrow> None | Some x \<Rightarrow>
     (case from_hex d of None \<Rightarrow> None | Some y \<Rightarrow>
      (case hex_decode cs of None \<Rightarrow> None | Some bs \<Rightarrow> Some (word_of_nat (16 * x + y) # bs))))"

definition ID_String :: "ID \<Rightarrow> string" where
  "ID_String i = hex_encode (be_bytes i)"

definition ParseID :: "string \<Rightarrow> ID result" where
  "ParseID s =
    (case hex_decode s of
       None \<Rightarrow> Inl [ErrMalformedID]
     | Some raw \<Rightarrow>
         if length raw \<noteq> IDSize then Inl [ErrMalformedID]
         else (let i = id_of_bytes raw in
           if ID_IsZero i \<or> ID_String i \<noteq> s then Inl [ErrMalformedID] else Inr i))"

lemma from_hex_digit: "n < 16 \<Longrightarrow> from_hex (hex_digit n) = Some n"
proof -
  assume "n < 16"
  then have "n \<in> set [0..<16]" by simp
  moreover have "list_all (\<lambda>n. from_hex (hex_digit n) = Some n) [0..<16]"
    by code_simp
  ultimately show ?thesis by (simp only: list_all_iff)
qed

lemma hex_decode_encode: "hex_decode (hex_encode bs) = Some bs"
proof (induction bs)
  case Nil
  then show ?case by (simp add: hex_encode_def)
next
  case (Cons b bs)
  have "unat b div 16 < 16" using unat_byte_lt [of b] by simp
  with Cons show ?case
    by (simp add: hex_encode_def hex_byte_def from_hex_digit)
qed

lemma id_of_be_bytes [simp]: "id_of_bytes (be_bytes i) = i"
proof -
  have "unat i < 256 ^ 16" using unsigned_less [of i] by simp
  then show ?thesis
    by (simp add: id_of_bytes_def be_bytes_def of_be_be del: power_numeral)
qed

lemma ID_String_inj: "ID_String i = ID_String j \<Longrightarrow> i = j"
  by (metis ID_String_def hex_decode_encode option.inject id_of_be_bytes)

section \<open>Labels and labelled messages (labels.go)\<close>

definition LabelBundle :: string where "LabelBundle = ''xqs-sync/v1/bundle''"
definition LabelVKWrap :: string where "LabelVKWrap = ''xqs-sync/v1/vk-wrap''"
definition LabelVKWrapDigest :: string where "LabelVKWrapDigest = ''xqs-sync/v1/vk-wrap-digest''"
definition LabelDEKWrap :: string where "LabelDEKWrap = ''xqs-sync/v1/dek-wrap''"
definition LabelBody :: string where "LabelBody = ''xqs-sync/v1/body''"
definition LabelRecordSig :: string where "LabelRecordSig = ''xqs-sync/v1/record-sig''"
definition LabelEnvelope :: string where "LabelEnvelope = ''xqs-sync/v1/envelope''"
definition LabelHeadSig :: string where "LabelHeadSig = ''xqs-sync/v1/head-sig''"
definition LabelHeadHash :: string where "LabelHeadHash = ''xqs-sync/v1/head-hash''"
definition LabelMemberSig :: string where "LabelMemberSig = ''xqs-sync/v1/member-sig''"
definition LabelMemberHash :: string where "LabelMemberHash = ''xqs-sync/v1/member-hash''"
definition LabelDeviceSig :: string where "LabelDeviceSig = ''xqs-sync/v1/device-sig''"
definition LabelDeviceHash :: string where "LabelDeviceHash = ''xqs-sync/v1/device-hash''"
definition LabelServerTLS :: string where "LabelServerTLS = ''xqs-sync/v1/server-tls''"
definition LabelMerkleLeaf :: string where "LabelMerkleLeaf = ''xqs-sync/v1/merkle-leaf''"
definition LabelMerkleNode :: string where "LabelMerkleNode = ''xqs-sync/v1/merkle-node''"
definition LabelEncryptionDigest :: string where
  "LabelEncryptionDigest = ''xqs-sync/v1/encryption-digest''"
definition LabelIdentityDigest :: string where
  "LabelIdentityDigest = ''xqs-sync/v1/identity-digest''"
definition LabelDeviceAuth :: string where "LabelDeviceAuth = ''xqs-sync/v1/device-auth''"
definition LabelRekey :: string where "LabelRekey = ''xqs-sync/v1/rekey''"
definition LabelHelloContext :: string where "LabelHelloContext = ''xqs-sync/v1/hello-context''"

lemmas label_defs =
  LabelBundle_def LabelVKWrap_def LabelVKWrapDigest_def LabelDEKWrap_def LabelBody_def
  LabelRecordSig_def LabelEnvelope_def LabelHeadSig_def LabelHeadHash_def LabelMemberSig_def
  LabelMemberHash_def LabelDeviceSig_def LabelDeviceHash_def LabelServerTLS_def LabelMerkleLeaf_def
  LabelMerkleNode_def LabelEncryptionDigest_def LabelIdentityDigest_def LabelDeviceAuth_def
  LabelRekey_def LabelHelloContext_def

definition protocol_labels :: "string list" where
  "protocol_labels =
    [LabelBundle, LabelVKWrap, LabelVKWrapDigest, LabelDEKWrap, LabelBody, LabelRecordSig,
     LabelEnvelope, LabelHeadSig, LabelHeadHash, LabelMemberSig, LabelMemberHash, LabelDeviceSig,
     LabelDeviceHash, LabelServerTLS, LabelMerkleLeaf, LabelMerkleNode, LabelEncryptionDigest,
     LabelIdentityDigest, LabelDeviceAuth, LabelRekey, LabelHelloContext]"

lemma distinct_protocol_labels: "distinct protocol_labels"
  by (simp add: protocol_labels_def label_defs)

lemma fits_labels [simp]:
  "fits (str_bytes LabelBundle)"
  "fits (str_bytes LabelVKWrap)"
  "fits (str_bytes LabelVKWrapDigest)"
  "fits (str_bytes LabelDEKWrap)"
  "fits (str_bytes LabelBody)"
  "fits (str_bytes LabelRecordSig)"
  "fits (str_bytes LabelEnvelope)"
  "fits (str_bytes LabelHeadSig)"
  "fits (str_bytes LabelHeadHash)"
  "fits (str_bytes LabelMemberSig)"
  "fits (str_bytes LabelMemberHash)"
  "fits (str_bytes LabelDeviceSig)"
  "fits (str_bytes LabelDeviceHash)"
  "fits (str_bytes LabelServerTLS)"
  "fits (str_bytes LabelMerkleLeaf)"
  "fits (str_bytes LabelMerkleNode)"
  "fits (str_bytes LabelEncryptionDigest)"
  "fits (str_bytes LabelIdentityDigest)"
  "fits (str_bytes LabelDeviceAuth)"
  "fits (str_bytes LabelRekey)"
  "fits (str_bytes LabelHelloContext)"
  by (simp_all add: label_defs fits_def MaxUint32_def)

type_synonym SuiteID = u16
type_synonym SigAlg = u16

definition BodyAAD :: "ID \<Rightarrow> ID \<Rightarrow> u64 \<Rightarrow> u32 \<Rightarrow> SuiteID \<Rightarrow> bytes result" where
  "BodyAAD vault record version epoch suite =
    canon_Encoded (canon_chain
      [canon_ID vault, canon_ID record, canon_U64 version, canon_U32 epoch, canon_U16 suite]
      (NewCanon LabelBody))"

definition DEKWrapAAD :: "ID \<Rightarrow> ID \<Rightarrow> u64 \<Rightarrow> u32 \<Rightarrow> bytes result" where
  "DEKWrapAAD vault record version epoch =
    canon_Encoded (canon_chain
      [canon_ID vault, canon_ID record, canon_U64 version, canon_U32 epoch]
      (NewCanon LabelDEKWrap))"

definition VKWrapInfo :: "ID \<Rightarrow> u32 \<Rightarrow> ID \<Rightarrow> bytes result" where
  "VKWrapInfo vault epoch member =
    canon_Encoded (canon_chain [canon_ID vault, canon_U32 epoch, canon_ID member]
      (NewCanon LabelVKWrap))"

definition BundleAAD :: "ID \<Rightarrow> SuiteID \<Rightarrow> bytes result" where
  "BundleAAD account suite =
    canon_Encoded (canon_chain [canon_ID account, canon_U16 suite] (NewCanon LabelBundle))"

definition IdentityDigest :: "crypto \<Rightarrow> bytes \<Rightarrow> hash32 result" where
  "IdentityDigest cr identityKey =
    canon_Sum cr (canon_chain [canon_Bytes identityKey] (NewCanon LabelIdentityDigest))"

definition DeviceAuthMessage :: "ID \<Rightarrow> ID \<Rightarrow> bytes \<Rightarrow> bytes result" where
  "DeviceAuthMessage account device nonce =
    canon_Encoded (canon_chain [canon_ID account, canon_ID device, canon_Bytes nonce]
      (NewCanon LabelDeviceAuth))"

definition ServerTLSMessage :: "bytes \<Rightarrow> bytes result" where
  "ServerTLSMessage spki =
    canon_Encoded (canon_chain [canon_Bytes spki] (NewCanon LabelServerTLS))"

definition RekeyMessage :: "ID \<Rightarrow> bytes \<Rightarrow> bytes \<Rightarrow> bytes result" where
  "RekeyMessage account record bundle =
    canon_Encoded (canon_chain [canon_ID account, canon_Bytes record, canon_Bytes bundle]
      (NewCanon LabelRekey))"

lemmas message_defs =
  BodyAAD_def DEKWrapAAD_def VKWrapInfo_def BundleAAD_def DeviceAuthMessage_def
  ServerTLSMessage_def RekeyMessage_def

lemma message_fields:
  "BodyAAD v r n ep su = canon_result [str_bytes LabelBody, be_bytes v, be_bytes r, be_bytes n, be_bytes ep, be_bytes su]"
  "DEKWrapAAD v r n ep = canon_result [str_bytes LabelDEKWrap, be_bytes v, be_bytes r, be_bytes n, be_bytes ep]"
  "VKWrapInfo v ep m = canon_result [str_bytes LabelVKWrap, be_bytes v, be_bytes ep, be_bytes m]"
  "BundleAAD a su = canon_result [str_bytes LabelBundle, be_bytes a, be_bytes su]"
  "DeviceAuthMessage a d k = canon_result [str_bytes LabelDeviceAuth, be_bytes a, be_bytes d, k]"
  "ServerTLSMessage k = canon_result [str_bytes LabelServerTLS, k]"
  "RekeyMessage a k b = canon_result [str_bytes LabelRekey, be_bytes a, k, b]"
  "IdentityDigest cr k = canon_digest cr [str_bytes LabelIdentityDigest, k]"
  by (simp_all add: message_defs IdentityDigest_def canon_unfold)

section \<open>Properties\<close>

text \<open>The canonical encoding is injective: two chains of appended fields, each started with a
  label, that encode without error to the same bytes have the same label and the same fields. So
  bytes signed for one purpose never verify for another, and no boundary between fields moves.\<close>

theorem canon_encoding_injective:
  assumes "canon_Encoded (canon_chain (map canon_Bytes fs) (NewCanon l)) = Inr m"
    and "canon_Encoded (canon_chain (map canon_Bytes gs) (NewCanon k)) = Inr m"
  shows "l = k \<and> fs = gs"
proof -
  have chain: "canon_chain (map canon_Bytes xs) (canon_state ys) = canon_state (ys @ xs)" for xs ys
    by (induction xs arbitrary: ys) (simp_all add: canon_unfold)
  from assms show ?thesis
    by (simp add: chain canon_unfold) (metis canon_result_inj list.inject str_bytes_inj)
qed

theorem canon_encoding_injective_witness:
  "canon_Encoded (canon_chain (map canon_Bytes [[1,2],[3]]) (NewCanon LabelBody)) \<noteq>
   canon_Encoded (canon_chain (map canon_Bytes [[1],[2,3]]) (NewCanon LabelBody)) \<and>
   is_ok (canon_Encoded (canon_chain (map canon_Bytes [[1,2],[3]]) (NewCanon LabelBody)))"
proof -
  obtain m where m: "canon_Encoded (canon_chain (map canon_Bytes [[1,2],[3]]) (NewCanon LabelBody)) = Inr m"
    by (simp add: canon_unfold canon_result_def fits_def MaxUint32_def LabelBody_def)
  show ?thesis
    using canon_encoding_injective [OF m, of "[[1],[2,3]]" LabelBody] m by auto
qed

text \<open>Parsing an identifier accepts exactly the strings that rendering a non-zero identifier
  gives: one spelling per identifier, upper-case hex and the reserved zero refused.\<close>

theorem ParseID_iff: "ParseID s = Inr i \<longleftrightarrow> \<not> ID_IsZero i \<and> s = ID_String i"
proof
  assume "ParseID s = Inr i"
  then show "\<not> ID_IsZero i \<and> s = ID_String i"
    by (auto simp: ParseID_def Let_def split: option.splits if_splits)
next
  assume "\<not> ID_IsZero i \<and> s = ID_String i"
  then show "ParseID s = Inr i"
    by (simp add: ParseID_def ID_String_def hex_decode_encode IDSize_def)
qed

end
