(* ===== verification/Suite.thy ===== *)
theory Suite
  imports Canon
begin

text \<open>
  Suites (\<open>suite.go\<close>), signature verification (\<open>signature.go\<close>), account fingerprints
  (\<open>fingerprint.go\<close>), protocol versions and schema access (\<open>version.go\<close>). The main result is that
  negotiation picks the greatest version both sides can speak, and fails only when there is none.
\<close>

section \<open>Suites\<close>

record Argon2Params =
  MemoryKiB :: u32
  Iterations :: u32
  Threads :: u8
  KeyLen :: u32

record SuiteParams =
  sp_ID :: SuiteID
  sp_Argon2 :: Argon2Params
  WrappedDEKSize :: nat
  AEADOverhead :: nat
  SigningKeySize :: nat
  EncryptionKeySize :: nat
  VKWrapSize :: nat

definition Suite1 :: SuiteID where "Suite1 = 1"
definition CurrentSuite :: SuiteID where "CurrentSuite = Suite1"
definition MinAcceptedSuite :: SuiteID where "MinAcceptedSuite = Suite1"

definition suite1_params :: SuiteParams where
  "suite1_params =
    \<lparr>sp_ID = Suite1,
     sp_Argon2 = \<lparr>MemoryKiB = 256 * 1024, Iterations = 3, Threads = 4, KeyLen = 32\<rparr>,
     WrappedDEKSize = 72, AEADOverhead = 40, SigningKeySize = 32, EncryptionKeySize = 1216,
     VKWrapSize = 1168\<rparr>"

definition suites :: "(SuiteID, SuiteParams) go_map" where
  "suites = fmupd Suite1 suite1_params fmempty"

definition LookupSuite :: "SuiteID \<Rightarrow> SuiteID \<Rightarrow> SuiteParams result" where
  "LookupSuite i minimum =
    (if i < minimum then Inl [ErrSuiteBelowMinimum]
     else (case fmlookup suites i of
         None \<Rightarrow> Inl [ErrUnsupportedSuite]
       | Some p \<Rightarrow> Inr p))"

text \<open>This build knows one suite, so a successful lookup returns its parameters.\<close>

lemma LookupSuite_Inr [result_simps]:
  "LookupSuite i MinAcceptedSuite = Inr p \<longleftrightarrow> i = Suite1 \<and> p = suite1_params"
  by (auto simp: LookupSuite_def suites_def MinAcceptedSuite_def split: if_splits option.splits)

lemma LookupSuite_Suite1 [simp]: "LookupSuite Suite1 MinAcceptedSuite = Inr suite1_params"
  by (simp add: LookupSuite_Inr)

lemma suite1_sizes [simp]:
  "WrappedDEKSize suite1_params = 72" "AEADOverhead suite1_params = 40"
  "SigningKeySize suite1_params = 32" "EncryptionKeySize suite1_params = 1216"
  "VKWrapSize suite1_params = 1168"
  by (simp_all add: suite1_params_def)

section \<open>Signatures\<close>

definition SigEd25519 :: SigAlg where "SigEd25519 = 1"
definition ed25519_PublicKeySize :: nat where "ed25519_PublicKeySize = 32"
definition ed25519_SignatureSize :: nat where "ed25519_SignatureSize = 64"

text \<open>A Go function that returns only an error has the type \<open>go_error option\<close>; \<open>None\<close> is \<open>nil\<close>.\<close>

definition VerifySignature :: "crypto \<Rightarrow> SigAlg \<Rightarrow> bytes \<Rightarrow> bytes \<Rightarrow> bytes \<Rightarrow> go_error option" where
  "VerifySignature cr alg publicKey message signature =
    (if alg \<noteq> SigEd25519 then Some [ErrUnsupportedSigAlg]
     else if length publicKey \<noteq> ed25519_PublicKeySize \<or> length signature \<noteq> ed25519_SignatureSize
       then Some [ErrBadSignature]
     else if \<not> ed25519_Verify cr publicKey message signature then Some [ErrBadSignature]
     else None)"

lemma VerifySignature_None [result_simps]:
  "VerifySignature cr alg k m s = None \<longleftrightarrow>
    alg = SigEd25519 \<and> length k = 32 \<and> length s = 64 \<and> ed25519_Verify cr k m s"
  by (auto simp: VerifySignature_def ed25519_PublicKeySize_def ed25519_SignatureSize_def)

lemma VerifySignature_integrity: "VerifySignature cr alg k m s = Some e \<Longrightarrow> is_integrity e"
  by (auto simp: VerifySignature_def split: if_splits)

section \<open>Account fingerprints\<close>

definition dec5 :: "nat \<Rightarrow> string" where
  "dec5 n = map (\<lambda>d. ''0123456789'' ! (n div d mod 10)) [10000, 1000, 100, 10, 1]"

fun join_space :: "string list \<Rightarrow> string" where
  "join_space [] = []"
| "join_space [s] = s"
| "join_space (s # ss) = s @ '' '' @ join_space ss"

definition AccountFingerprint :: "crypto \<Rightarrow> bytes \<Rightarrow> string" where
  "AccountFingerprint cr identityKey =
    (let sum = sha512 cr identityKey in
     join_space (map (\<lambda>i. dec5 (of_be (replicate 3 0 @ take 5 (drop (i * 5) sum)) mod 100000)) [0..<12]))"

lemma dec5_nth_mod: "dec5 n ! 4 = ''0123456789'' ! (n mod 10)"
  by (simp add: dec5_def)

lemma length_dec5 [simp]: "length (dec5 n) = 5"
  by (simp add: dec5_def)

lemma length_join_space:
  "ss \<noteq> [] \<Longrightarrow> list_all (\<lambda>s. length s = k) ss \<Longrightarrow> length (join_space ss) + 1 = length ss * (k + 1)"
  by (induction ss rule: join_space.induct) auto

lemma AccountFingerprint_length: "length (AccountFingerprint cr k) = 71"
  unfolding AccountFingerprint_def Let_def
  using length_join_space [of "map f [0..<12]" 5 for f] by (simp add: list_all_iff)

section \<open>Protocol versions\<close>

datatype ProtocolVersion = ProtocolVersion (Major: u16) (Minor: u16) (Patch: u16)

definition CurrentProtocol :: ProtocolVersion where
  "CurrentProtocol = ProtocolVersion 1 0 0"

definition cmp_Compare :: "'a::linorder \<Rightarrow> 'a \<Rightarrow> int" where
  "cmp_Compare a b = (if a < b then -1 else if a > b then 1 else 0)"

definition ProtocolVersion_Compare :: "ProtocolVersion \<Rightarrow> ProtocolVersion \<Rightarrow> int" where
  "ProtocolVersion_Compare v w =
    (let c = cmp_Compare (Major v) (Major w) in
     if c \<noteq> 0 then c
     else (let c = cmp_Compare (Minor v) (Minor w) in
       if c \<noteq> 0 then c else cmp_Compare (Patch v) (Patch w)))"

instantiation ProtocolVersion :: linorder
begin

definition less_eq_ProtocolVersion :: "ProtocolVersion \<Rightarrow> ProtocolVersion \<Rightarrow> bool" where
  "v \<le> w \<longleftrightarrow> ProtocolVersion_Compare v w \<le> 0"

definition less_ProtocolVersion :: "ProtocolVersion \<Rightarrow> ProtocolVersion \<Rightarrow> bool" where
  "v < w \<longleftrightarrow> ProtocolVersion_Compare v w < 0"

instance
  by standard
    (auto simp: less_eq_ProtocolVersion_def less_ProtocolVersion_def ProtocolVersion_Compare_def
      cmp_Compare_def Let_def not_less intro: ProtocolVersion.expand split: if_splits)

end

definition NegotiateProtocol ::
    "ProtocolVersion \<Rightarrow> ProtocolVersion \<Rightarrow> ProtocolVersion \<Rightarrow> ProtocolVersion result" where
  "NegotiateProtocol client serverMin serverMax =
    (if ProtocolVersion_Compare serverMin serverMax > 0 then Inl [ErrProtocolUnsupported]
     else (let chosen = (if ProtocolVersion_Compare client serverMax > 0 then serverMax else client) in
       if Major chosen \<noteq> Major client \<or> ProtocolVersion_Compare chosen serverMin < 0
       then Inl [ErrProtocolUnsupported]
       else Inr chosen))"

datatype SchemaAccess = SchemaWritable | SchemaReadOnly | SchemaOpaque

definition RecordAccess :: "(string, u16) go_map \<Rightarrow> string \<Rightarrow> u16 \<Rightarrow> SchemaAccess" where
  "RecordAccess known recordType schema =
    (case fmlookup known recordType of
       None \<Rightarrow> SchemaOpaque
     | Some current \<Rightarrow> if schema > current then SchemaReadOnly else SchemaWritable)"

definition HelloContext ::
    "crypto \<Rightarrow> bytes \<Rightarrow> ProtocolVersion \<Rightarrow> ProtocolVersion \<Rightarrow> SuiteID list \<Rightarrow> bytes result" where
  "HelloContext cr identityKey serverMin serverMax ss =
    bind_res (canon_Sum cr (fold canon_U16 ss
      (canon_chain
        [canon_Bytes identityKey,
         canon_U16 (Major serverMin), canon_U16 (Minor serverMin), canon_U16 (Patch serverMin),
         canon_U16 (Major serverMax), canon_U16 (Minor serverMax), canon_U16 (Patch serverMax),
         canon_U64 (word_of_nat (length ss))]
        (NewCanon LabelHelloContext))))
      (\<lambda>h. Inr (be_bytes h))"

lemma Compare_order [simp]:
  "ProtocolVersion_Compare v w < 0 \<longleftrightarrow> v < w"
  "ProtocolVersion_Compare v w > 0 \<longleftrightarrow> w < v"
  by (auto simp: less_ProtocolVersion_def ProtocolVersion_Compare_def cmp_Compare_def Let_def
      split: if_splits)

lemma Major_mono: "v \<le> w \<Longrightarrow> Major v \<le> Major w"
  by (auto simp: less_eq_ProtocolVersion_def ProtocolVersion_Compare_def cmp_Compare_def Let_def
      split: if_splits)

lemma NegotiateProtocol_Inr [result_simps]:
  "NegotiateProtocol client lo hi = Inr v \<longleftrightarrow>
    lo \<le> hi \<and> v = min client hi \<and> Major v = Major client \<and> lo \<le> v"
  by (auto simp: NegotiateProtocol_def Let_def min_def not_less not_le split: if_splits)

definition speakable :: "ProtocolVersion \<Rightarrow> ProtocolVersion \<Rightarrow> ProtocolVersion \<Rightarrow> ProtocolVersion \<Rightarrow> bool" where
  "speakable client lo hi v \<longleftrightarrow> v \<le> client \<and> Major v = Major client \<and> lo \<le> v \<and> v \<le> hi"

lemma speakable_min:
  assumes "speakable client lo hi w"
  shows "NegotiateProtocol client lo hi = Inr (min client hi)"
proof -
  have le: "w \<le> min client hi" and lohi: "lo \<le> hi"
    using assms by (auto simp: speakable_def)
  have "Major w \<le> Major (min client hi)" "Major (min client hi) \<le> Major client"
    using le Major_mono by auto
  then show ?thesis
    using assms le lohi by (auto simp: NegotiateProtocol_Inr speakable_def)
qed

section \<open>Properties\<close>

text \<open>Negotiation is exact: it returns the greatest version the client can speak (its own
  major, not newer than itself) inside the server's range, and it refuses, with
  \<open>ErrProtocolUnsupported\<close>, only when there is no such version.\<close>

theorem NegotiateProtocol_exact:
  "case NegotiateProtocol client lo hi of
     Inr v \<Rightarrow> speakable client lo hi v \<and> Collect (speakable client lo hi) \<subseteq> {..v}
   | Inl e \<Rightarrow> e = [ErrProtocolUnsupported] \<and> Collect (speakable client lo hi) = {}"
proof (cases "NegotiateProtocol client lo hi")
  case (Inr v)
  have "lo \<le> hi \<and> v = min client hi \<and> Major v = Major client \<and> lo \<le> v"
    using Inr unfolding NegotiateProtocol_Inr .
  then show ?thesis unfolding Inr by (auto simp: speakable_def)
next
  case (Inl e)
  then have "e = [ErrProtocolUnsupported]"
    by (auto simp: NegotiateProtocol_def Let_def split: if_splits)
  moreover have "\<not> speakable client lo hi w" for w
    using speakable_min [of client lo hi w] Inl by auto
  ultimately show ?thesis using Inl by auto
qed

end
