(* ===== verification/Hash_Log.thy ===== *)
theory Hash_Log
  imports Prelude
begin

text \<open>
  The interface of a hash-linked log, which the vault head chain, the device log and the membership
  log share: an entry is accepted only when it names the tip it extends, and the new tip is the
  hash of bytes that determine the entry. Proved once here: two accepted histories with one tip are
  one history. Collision freedom is asked only of the bytes the two histories hash.
\<close>

locale hash_log =
  fixes apply_entry :: "'s \<Rightarrow> 'e \<Rightarrow> 'r + 's"
    and tip :: "'s \<Rightarrow> 'h"
    and prev :: "'e \<Rightarrow> 'h"
    and preimage :: "'e \<Rightarrow> bytes"
    and genesis :: "bytes set"
    and digest :: "bytes \<Rightarrow> 'h"
    and core :: "'e \<Rightarrow> 'c"
    and wf :: "'e \<Rightarrow> bool"
  assumes apply_prev: "apply_entry s e = Inr s' \<Longrightarrow> prev e = tip s"
    and apply_tip: "apply_entry s e = Inr s' \<Longrightarrow> tip s' = digest (preimage e)"
    and apply_wf: "apply_entry s e = Inr s' \<Longrightarrow> wf e"
    and preimage_inj: "wf e \<Longrightarrow> wf f \<Longrightarrow> preimage e = preimage f \<Longrightarrow> core e = core f \<and> prev e = prev f"
    and preimage_not_genesis: "wf e \<Longrightarrow> preimage e \<notin> genesis"
begin

lemma replay_wf: "replay apply_entry s es = Inr t \<Longrightarrow> e \<in> set es \<Longrightarrow> wf e"
proof (induction es arbitrary: s)
  case Nil
  then show ?case by simp
next
  case (Cons x es)
  then obtain s' where "apply_entry s x = Inr s'" "replay apply_entry s' es = Inr t"
    by (auto split: sum.splits)
  with Cons show ?case by (auto intro: apply_wf)
qed

lemma binding:
  assumes "tip s = digest g" and "g \<in> genesis"
    and "replay apply_entry s es = Inr t" and "replay apply_entry s fs = Inr u"
    and "tip t = tip u"
    and "inj_on digest (insert g (preimage ` (set es \<union> set fs)))"
  shows "map core es = map core fs"
  using assms(3-6)
proof (induction es arbitrary: fs t u rule: rev_induct)
  case Nil
  show ?case
  proof (cases fs rule: rev_cases)
    case (snoc fs' f)
    with Nil.prems obtain v where v: "apply_entry v f = Inr u"
      by (auto simp: replay_snoc)
    have "digest (preimage f) = digest g"
      using apply_tip [OF v] Nil.prems assms(1) by simp
    then have "preimage f = g"
      using inj_onD [OF Nil.prems(4), of "preimage f" g] snoc by simp
    with preimage_not_genesis [OF apply_wf [OF v]] assms(2) show ?thesis by simp
  qed simp
next
  case (snoc e es)
  from snoc.prems(1) obtain v where v: "replay apply_entry s es = Inr v" "apply_entry v e = Inr t"
    by (auto simp: replay_snoc)
  show ?case
  proof (cases fs rule: rev_cases)
    case Nil
    then have "digest (preimage e) = digest g"
      using apply_tip [OF v(2)] snoc.prems assms(1) by simp
    then have "preimage e = g"
      using inj_onD [OF snoc.prems(4), of "preimage e" g] by simp
    with preimage_not_genesis [OF apply_wf [OF v(2)]] assms(2) show ?thesis by simp
  next
    case fs: (snoc fs' f)
    with snoc.prems(2) obtain w where w: "replay apply_entry s fs' = Inr w" "apply_entry w f = Inr u"
      by (auto simp: replay_snoc)
    have "digest (preimage e) = digest (preimage f)"
      using apply_tip [OF v(2)] apply_tip [OF w(2)] snoc.prems(3) by simp
    then have "preimage e = preimage f"
      using inj_onD [OF snoc.prems(4), of "preimage e" "preimage f"] fs by simp
    then have ef: "core e = core f" "prev e = prev f"
      using preimage_inj [OF apply_wf [OF v(2)] apply_wf [OF w(2)]] by simp_all
    then have "tip v = tip w"
      using apply_prev [OF v(2)] apply_prev [OF w(2)] by simp
    moreover have "inj_on digest (insert g (preimage ` (set es \<union> set fs')))"
      using snoc.prems(4) by (rule inj_on_subset) (auto simp: fs)
    ultimately have "map core es = map core fs'"
      using snoc.IH [OF v(1) w(1)] by simp
    with ef fs show ?thesis by simp
  qed
qed

end

text \<open>Logs replayed from a start state keep what every accepted entry keeps.\<close>

locale log_invariant =
  fixes apply_entry :: "'s \<Rightarrow> 'e \<Rightarrow> 'r + 's"
    and inv :: "'s \<Rightarrow> bool"
  assumes inv_step: "inv s \<Longrightarrow> apply_entry s e = Inr s' \<Longrightarrow> inv s'"
begin

lemma inv_replay: "inv s \<Longrightarrow> replay apply_entry s es = Inr t \<Longrightarrow> inv t"
  by (rule replay_invariant [where P = inv]) (auto intro: inv_step)

end

text \<open>A relation between the states before and after that is reflexive, transitive and kept by every
  accepted entry relates the two ends of every replay.\<close>

locale log_monotone =
  fixes apply_entry :: "'s \<Rightarrow> 'e \<Rightarrow> 'r + 's"
    and le :: "'s \<Rightarrow> 's \<Rightarrow> bool"
  assumes le_refl: "le s s"
    and le_trans: "le s t \<Longrightarrow> le t u \<Longrightarrow> le s u"
    and le_step: "apply_entry s e = Inr s' \<Longrightarrow> le s s'"
begin

lemma le_replay: "replay apply_entry s es = Inr t \<Longrightarrow> le s t"
proof (induction es arbitrary: s)
  case Nil
  then show ?case by (simp add: le_refl)
next
  case (Cons e es)
  then obtain s' where "apply_entry s e = Inr s'" "replay apply_entry s' es = Inr t"
    by (auto split: sum.splits)
  with Cons.IH show ?case by (blast intro: le_step le_trans)
qed

end

end
