(* ===== verification/Device_Log.thy ===== *)
theory Device_Log
  imports Suite Hash_Log
begin

text \<open>
  An account's device log (\<open>devicelog_entry.go\<close>, \<open>devicelog_state.go\<close>). \<open>DeviceLogState_Apply\<close>
  returns the state the Go receiver holds after the call together with the error, so that what a
  rejected entry leaves behind is a statement about the model and not a convention. The log is an
  instance of \<open>hash_log\<close> (\<open>device_log\<close>), keeps the invariant \<open>ds_inv\<close> (\<open>device_inv\<close>) and only
  grows in the sense of \<open>ds_le\<close> (\<open>device_mono\<close>).
\<close>

section \<open>Entries\<close>

definition OpAddDevice :: u8 where "OpAddDevice = 1"
definition OpRevokeDevice :: u8 where "OpRevokeDevice = 2"
definition OpSuccession :: u8 where "OpSuccession = 3"

definition maxDeviceNameBytes :: nat where "maxDeviceNameBytes = 64"
definition maxDevicePlatformBytes :: nat where "maxDevicePlatformBytes = 32"

record DeviceCert =
  c_Device :: ID
  c_SigningKey :: bytes
  c_Name :: string
  c_Platform :: string
  c_CreatedUnixMilli :: u64

record DeviceEntry =
  d_Account :: ID
  d_Seq :: u64
  d_Prev :: hash32
  d_Op :: u8
  d_Cert :: "DeviceCert option"
  d_Revoked :: ID
  d_NewSuite :: SuiteID
  d_NewIdentityKey :: bytes
  d_NewEncryptionKey :: bytes
  d_SigAlg :: SigAlg
  d_Sig :: bytes
  d_SuccessorSig :: bytes

definition DeviceEntry_SigningBytes :: "DeviceEntry \<Rightarrow> bytes result" where
  "DeviceEntry_SigningBytes e =
    (let c = canon_chain
           [canon_ID (d_Account e), canon_U64 (d_Seq e), canon_Hash (d_Prev e), canon_U16 (ucast (d_Op e))]
           (NewCanon LabelDeviceSig);
         c = canon_Bool (d_Cert e \<noteq> None) c;
         c = (case d_Cert e of
             None \<Rightarrow> c
           | Some ct \<Rightarrow> canon_chain
               [canon_ID (c_Device ct), canon_Bytes (c_SigningKey ct), canon_String (c_Name ct),
                canon_String (c_Platform ct), canon_U64 (c_CreatedUnixMilli ct)] c);
         c = canon_chain
           [canon_ID (d_Revoked e), canon_U16 (d_NewSuite e), canon_Bytes (d_NewIdentityKey e),
            canon_Bytes (d_NewEncryptionKey e), canon_U16 (d_SigAlg e)] c
     in canon_Encoded c)"

definition DeviceEntry_hash :: "crypto \<Rightarrow> DeviceEntry \<Rightarrow> bytes \<Rightarrow> hash32 result" where
  "DeviceEntry_hash cr e msg =
    canon_Sum cr (canon_chain
      [canon_Bytes msg, canon_Bytes (d_Sig e), canon_Bytes (d_SuccessorSig e)] (NewCanon LabelDeviceHash))"

text \<open>\<open>utf8.ValidString\<close>, on the values of the string's bytes: no overlong forms, no surrogates,
  nothing above U+10FFFF.\<close>

definition utf8_cont :: "nat \<Rightarrow> bool" where
  "utf8_cont b \<longleftrightarrow> 128 \<le> b \<and> b \<le> 191"

fun utf8_valid :: "nat list \<Rightarrow> bool" where
  "utf8_valid [] = True"
| "utf8_valid (a # xs) =
    (if a < 128 then utf8_valid xs
     else if 194 \<le> a \<and> a \<le> 223 then
       (case xs of b # ys \<Rightarrow> utf8_cont b \<and> utf8_valid ys | _ \<Rightarrow> False)
     else if 224 \<le> a \<and> a \<le> 239 then
       (case xs of b # c # ys \<Rightarrow>
          (if a = 224 then 160 else 128) \<le> b \<and> b \<le> (if a = 237 then 159 else 191) \<and>
          utf8_cont c \<and> utf8_valid ys
        | _ \<Rightarrow> False)
     else if 240 \<le> a \<and> a \<le> 244 then
       (case xs of b # c # d # ys \<Rightarrow>
          (if a = 240 then 144 else 128) \<le> b \<and> b \<le> (if a = 244 then 143 else 191) \<and>
          utf8_cont c \<and> utf8_cont d \<and> utf8_valid ys
        | _ \<Rightarrow> False)
     else False)"

definition utf8_ValidString :: "string \<Rightarrow> bool" where
  "utf8_ValidString s = utf8_valid (map of_char s)"

definition validateCert :: "DeviceCert option \<Rightarrow> nat \<Rightarrow> go_error option" where
  "validateCert c signingKeySize =
    (case c of
       None \<Rightarrow> Some [ErrDeviceLog]
     | Some ct \<Rightarrow>
         if ID_IsZero (c_Device ct) then Some [ErrDeviceLog]
         else if length (c_SigningKey ct) \<noteq> signingKeySize then Some [ErrDeviceLog]
         else if length (c_Name ct) > maxDeviceNameBytes \<or> \<not> utf8_ValidString (c_Name ct)
           then Some [ErrDeviceLog]
         else if length (c_Platform ct) > maxDevicePlatformBytes \<or> \<not> utf8_ValidString (c_Platform ct)
           then Some [ErrDeviceLog]
         else None)"

section \<open>The replayed log\<close>

record deviceStatus =
  st_cert :: DeviceCert
  st_revoked :: bool

record DeviceLogState =
  ds_account :: ID
  ds_params :: SuiteParams
  ds_identityKey :: bytes
  ds_encryptionKey :: bytes
  ds_superseded :: "bytes list"
  ds_devices :: "(ID, deviceStatus) go_map"
  ds_seq :: u64
  ds_hash :: hash32
  ds_pendingSuccession :: bool

definition NewDeviceLogState :: "crypto \<Rightarrow> ID \<Rightarrow> SuiteID \<Rightarrow> bytes \<Rightarrow> bytes \<Rightarrow> DeviceLogState result" where
  "NewDeviceLogState cr account suite identityKey encryptionKey =
    (case LookupSuite suite MinAcceptedSuite of
       Inl err \<Rightarrow> Inl err
     | Inr params \<Rightarrow>
         if length identityKey \<noteq> SigningKeySize params \<or> length encryptionKey \<noteq> EncryptionKeySize params
         then Inl [ErrDeviceLog]
         else (case canon_Sum cr (canon_chain
               [canon_ID account, canon_U16 suite, canon_Bytes identityKey, canon_Bytes encryptionKey]
               (NewCanon LabelDeviceHash)) of
             Inl err \<Rightarrow> Inl err
           | Inr genesis \<Rightarrow> Inr
               \<lparr>ds_account = account, ds_params = params, ds_identityKey = identityKey,
                ds_encryptionKey = encryptionKey, ds_superseded = [], ds_devices = fmempty,
                ds_seq = 0, ds_hash = genesis, ds_pendingSuccession = False\<rparr>))"

definition checkSignature :: "crypto \<Rightarrow> DeviceLogState \<Rightarrow> DeviceEntry \<Rightarrow> bytes \<Rightarrow> go_error option" where
  "checkSignature cr s e msg =
    (case VerifySignature cr (d_SigAlg e) (ds_identityKey s) msg (d_Sig e) of
       None \<Rightarrow> None
     | Some err \<Rightarrow>
         if list_ex (\<lambda>old. VerifySignature cr (d_SigAlg e) old msg (d_Sig e) = None) (ds_superseded s)
         then Some [ErrSupersededKey]
         else Some err)"

definition addDevice :: "DeviceLogState \<Rightarrow> DeviceCert option \<Rightarrow> DeviceLogState \<times> go_error option" where
  "addDevice s c =
    (case validateCert c (SigningKeySize (ds_params s)) of
       Some err \<Rightarrow> (s, Some err)
     | None \<Rightarrow>
         (case c of
            None \<Rightarrow> (s, None)
          | Some ct \<Rightarrow>
              if fmlookup (ds_devices s) (c_Device ct) \<noteq> None then (s, Some [ErrDeviceLog])
              else (s\<lparr>ds_devices := fmupd (c_Device ct) \<lparr>st_cert = ct, st_revoked = False\<rparr> (ds_devices s)\<rparr>,
                    None)))"

definition revokeDevice :: "DeviceLogState \<Rightarrow> ID \<Rightarrow> DeviceLogState \<times> go_error option" where
  "revokeDevice s i =
    (case fmlookup (ds_devices s) i of
       None \<Rightarrow> (s, Some [ErrDeviceLog])
     | Some st \<Rightarrow>
         if st_revoked st then (s, Some [ErrDeviceLog])
         else (s\<lparr>ds_devices := fmupd i (st\<lparr>st_revoked := True\<rparr>) (ds_devices s),
                 ds_pendingSuccession := True\<rparr>, None))"

definition succeed :: "crypto \<Rightarrow> DeviceLogState \<Rightarrow> DeviceEntry \<Rightarrow> bytes \<Rightarrow> DeviceLogState \<times> go_error option" where
  "succeed cr s e msg =
    (case LookupSuite (d_NewSuite e) MinAcceptedSuite of
       Inl err \<Rightarrow> (s, Some (ErrDeviceLog # err))
     | Inr params \<Rightarrow>
         if length (d_NewIdentityKey e) \<noteq> SigningKeySize params
            \<or> length (d_NewEncryptionKey e) \<noteq> EncryptionKeySize params
         then (s, Some [ErrDeviceLog])
         else (case VerifySignature cr (d_SigAlg e) (d_NewIdentityKey e) msg (d_SuccessorSig e) of
             Some err \<Rightarrow> (s, Some err)
           | None \<Rightarrow>
               (s\<lparr>ds_superseded := ds_superseded s @ [ds_identityKey s],
                  ds_identityKey := d_NewIdentityKey e,
                  ds_encryptionKey := d_NewEncryptionKey e,
                  ds_params := params,
                  ds_pendingSuccession := False\<rparr>, None)))"

definition applyOp :: "crypto \<Rightarrow> DeviceLogState \<Rightarrow> DeviceEntry \<Rightarrow> bytes \<Rightarrow> DeviceLogState \<times> go_error option" where
  "applyOp cr s e msg =
    (if d_Op e = OpAddDevice then addDevice s (d_Cert e)
     else if d_Op e = OpRevokeDevice then revokeDevice s (d_Revoked e)
     else if d_Op e = OpSuccession then succeed cr s e msg
     else (s, Some [ErrDeviceLog]))"

definition DeviceLogState_Apply ::
    "crypto \<Rightarrow> DeviceLogState \<Rightarrow> DeviceEntry \<Rightarrow> DeviceLogState \<times> go_error option" where
  "DeviceLogState_Apply cr s e =
    (if d_Account e \<noteq> ds_account s \<or> d_Seq e \<noteq> ds_seq s + 1 \<or> d_Prev e \<noteq> ds_hash s
     then (s, Some [ErrDeviceLog])
     else (case DeviceEntry_SigningBytes e of
         Inl err \<Rightarrow> (s, Some err)
       | Inr msg \<Rightarrow>
           (case checkSignature cr s e msg of
              Some err \<Rightarrow> (s, Some err)
            | None \<Rightarrow>
                if ds_pendingSuccession s \<and> d_Op e \<noteq> OpSuccession \<and> d_Op e \<noteq> OpRevokeDevice
                then (s, Some [ErrSuccessionRequired])
                else (case DeviceEntry_hash cr e msg of
                    Inl err \<Rightarrow> (s, Some err)
                  | Inr next \<Rightarrow>
                      (case applyOp cr s e msg of
                         (s', Some err) \<Rightarrow> (s', Some err)
                       | (s', None) \<Rightarrow> (s'\<lparr>ds_seq := d_Seq e, ds_hash := next\<rparr>, None))))))"

definition DeviceKey :: "DeviceLogState \<Rightarrow> ID \<Rightarrow> bytes result" where
  "DeviceKey s i =
    (case fmlookup (ds_devices s) i of
       None \<Rightarrow> Inl [ErrDeviceLog]
     | Some st \<Rightarrow> Inr (c_SigningKey (st_cert st)))"

definition IsRevoked :: "DeviceLogState \<Rightarrow> ID \<Rightarrow> bool" where
  "IsRevoked s i = (case fmlookup (ds_devices s) i of None \<Rightarrow> False | Some st \<Rightarrow> st_revoked st)"

definition PendingSuccession :: "DeviceLogState \<Rightarrow> bool" where
  "PendingSuccession s = ds_pendingSuccession s"

definition Devices :: "DeviceLogState \<Rightarrow> ID list" where
  "Devices s = sorted_list_of_fset (fmdom (ds_devices s))"

definition Certificate :: "DeviceLogState \<Rightarrow> ID \<Rightarrow> DeviceCert option" where
  "Certificate s i = map_option st_cert (fmlookup (ds_devices s) i)"

text \<open>The same step as a result, for replays.\<close>

definition device_step :: "crypto \<Rightarrow> DeviceLogState \<Rightarrow> DeviceEntry \<Rightarrow> DeviceLogState result" where
  "device_step cr s e =
    (case DeviceLogState_Apply cr s e of (s', None) \<Rightarrow> Inr s' | (s', Some err) \<Rightarrow> Inl err)"

section \<open>Lemmas\<close>

definition cert_fields :: "DeviceCert option \<Rightarrow> bytes list" where
  "cert_fields c =
    (case c of
       None \<Rightarrow> []
     | Some ct \<Rightarrow> [be_bytes (c_Device ct), c_SigningKey ct, str_bytes (c_Name ct),
         str_bytes (c_Platform ct), be_bytes (c_CreatedUnixMilli ct)])"

definition entry_fields :: "DeviceEntry \<Rightarrow> bytes list" where
  "entry_fields e =
    [str_bytes LabelDeviceSig, be_bytes (d_Account e), be_bytes (d_Seq e), be_bytes (d_Prev e),
     be_bytes (ucast (d_Op e) :: u16), bool_byte (d_Cert e \<noteq> None)] @ cert_fields (d_Cert e) @
    [be_bytes (d_Revoked e), be_bytes (d_NewSuite e), d_NewIdentityKey e, d_NewEncryptionKey e,
     be_bytes (d_SigAlg e)]"

definition entry_preimage :: "DeviceEntry \<Rightarrow> bytes" where
  "entry_preimage e =
    encode_fields [str_bytes LabelDeviceHash, encode_fields (entry_fields e), d_Sig e, d_SuccessorSig e]"

definition entry_fits :: "DeviceEntry \<Rightarrow> bool" where
  "entry_fits e \<longleftrightarrow>
    list_all fits (entry_fields e) \<and> fits (encode_fields (entry_fields e)) \<and> fits (d_Sig e) \<and>
    fits (d_SuccessorSig e)"

definition device_genesis :: "ID \<Rightarrow> SuiteID \<Rightarrow> bytes \<Rightarrow> bytes \<Rightarrow> bytes" where
  "device_genesis account suite ik ek =
    encode_fields [str_bytes LabelDeviceHash, be_bytes account, be_bytes suite, ik, ek]"

lemma DeviceEntry_SigningBytes_fields: "DeviceEntry_SigningBytes e = canon_result (entry_fields e)"
  by (cases "d_Cert e")
     (simp_all add: DeviceEntry_SigningBytes_def entry_fields_def cert_fields_def Let_def canon_unfold)

lemma DeviceEntry_hash_eq:
  "DeviceEntry_hash cr e msg = canon_digest cr [str_bytes LabelDeviceHash, msg, d_Sig e, d_SuccessorSig e]"
  by (simp add: DeviceEntry_hash_def canon_unfold)

lemma entry_fields_inj:
  assumes "entry_fields e = entry_fields f" and "d_Sig e = d_Sig f" and "d_SuccessorSig e = d_SuccessorSig f"
  shows "e = f"
proof -
  have c: "(d_Cert e \<noteq> None) = (d_Cert f \<noteq> None)"
    using assms(1) by (simp add: entry_fields_def)
  then show ?thesis
    using assms
    by (cases e; cases f; cases "d_Cert e"; cases "d_Cert f")
       (auto simp: entry_fields_def cert_fields_def byte_simps intro: DeviceCert.equality)
qed

lemma entry_preimage_inj:
  assumes "entry_preimage e = entry_preimage f" and "entry_fits e" and "entry_fits f"
  shows "e = f"
proof -
  have "[str_bytes LabelDeviceHash, encode_fields (entry_fields e), d_Sig e, d_SuccessorSig e] =
      [str_bytes LabelDeviceHash, encode_fields (entry_fields f), d_Sig f, d_SuccessorSig f]"
    using assms by (intro encode_fields_inj) (simp_all add: entry_preimage_def entry_fits_def)
  then show ?thesis
    using encode_fields_inj [of "entry_fields e" "entry_fields f"] assms(2,3) entry_fields_inj
    by (simp add: entry_fits_def)
qed

text \<open>An entry's hash input has four fields, the genesis input five.\<close>

lemma entry_preimage_not_genesis:
  assumes "entry_fits e" and "fits ik" and "fits ek"
  shows "entry_preimage e \<noteq> device_genesis a su ik ek"
  using assms
    encode_fields_inj [of "[str_bytes LabelDeviceHash, encode_fields (entry_fields e), d_Sig e, d_SuccessorSig e]"
      "[str_bytes LabelDeviceHash, be_bytes a, be_bytes su, ik, ek]"]
  by (auto simp: entry_preimage_def device_genesis_def entry_fits_def)

lemma checkSignature_None [result_simps]:
  "checkSignature cr s e msg = None \<longleftrightarrow> VerifySignature cr (d_SigAlg e) (ds_identityKey s) msg (d_Sig e) = None"
  by (auto simp: checkSignature_def split: option.splits)

lemma device_step_Inr:
  "device_step cr s e = Inr t \<longleftrightarrow>
    d_Account e = ds_account s \<and> d_Seq e = ds_seq s + 1 \<and> d_Prev e = ds_hash s \<and> entry_fits e \<and>
    VerifySignature cr (d_SigAlg e) (ds_identityKey s) (encode_fields (entry_fields e)) (d_Sig e) = None \<and>
    (ds_pendingSuccession s \<longrightarrow> d_Op e = OpSuccession \<or> d_Op e = OpRevokeDevice) \<and>
    (\<exists>s'. applyOp cr s e (encode_fields (entry_fields e)) = (s', None) \<and>
      t = s'\<lparr>ds_seq := d_Seq e, ds_hash := sha256 cr (entry_preimage e)\<rparr>)"
proof (cases "checkSignature cr s e (encode_fields (entry_fields e))")
  case None
  then have "VerifySignature cr (d_SigAlg e) (ds_identityKey s) (encode_fields (entry_fields e)) (d_Sig e) = None"
    by (simp only: checkSignature_None)
  with None show ?thesis
    by (auto simp: device_step_def DeviceLogState_Apply_def DeviceEntry_SigningBytes_fields canon_result_def
        DeviceEntry_hash_eq canon_digest_def entry_fits_def entry_preimage_def
        split: if_splits option.splits prod.splits)
next
  case (Some err)
  then have "VerifySignature cr (d_SigAlg e) (ds_identityKey s) (encode_fields (entry_fields e)) (d_Sig e) \<noteq> None"
    by (metis checkSignature_None option.distinct(1))
  with Some show ?thesis
    by (auto simp: device_step_def DeviceLogState_Apply_def DeviceEntry_SigningBytes_fields canon_result_def
        split: if_splits)
qed

lemma addDevice_None:
  "addDevice s c = (s', None) \<longleftrightarrow>
    (\<exists>ct. c = Some ct \<and> validateCert c (SigningKeySize (ds_params s)) = None \<and>
      fmlookup (ds_devices s) (c_Device ct) = None \<and>
      s' = s\<lparr>ds_devices := fmupd (c_Device ct) \<lparr>st_cert = ct, st_revoked = False\<rparr> (ds_devices s)\<rparr>)"
  by (auto simp: addDevice_def validateCert_def split: option.splits if_splits)

lemma revokeDevice_None:
  "revokeDevice s i = (s', None) \<longleftrightarrow>
    (\<exists>st. fmlookup (ds_devices s) i = Some st \<and> \<not> st_revoked st \<and>
      s' = s\<lparr>ds_devices := fmupd i (st\<lparr>st_revoked := True\<rparr>) (ds_devices s), ds_pendingSuccession := True\<rparr>)"
  by (auto simp: revokeDevice_def split: option.splits if_splits)

lemma succeed_None:
  "succeed cr s e msg = (s', None) \<longleftrightarrow>
    d_NewSuite e = Suite1 \<and> length (d_NewIdentityKey e) = 32 \<and> length (d_NewEncryptionKey e) = 1216 \<and>
    VerifySignature cr (d_SigAlg e) (d_NewIdentityKey e) msg (d_SuccessorSig e) = None \<and>
    s' = s\<lparr>ds_superseded := ds_superseded s @ [ds_identityKey s], ds_identityKey := d_NewIdentityKey e,
      ds_encryptionKey := d_NewEncryptionKey e, ds_params := suite1_params, ds_pendingSuccession := False\<rparr>"
proof (cases "LookupSuite (d_NewSuite e) MinAcceptedSuite")
  case (Inl err)
  then have "d_NewSuite e \<noteq> Suite1" by auto
  with Inl show ?thesis by (simp add: succeed_def)
next
  case (Inr p)
  moreover have "d_NewSuite e = Suite1" "p = suite1_params"
    using Inr unfolding LookupSuite_Inr by auto
  ultimately show ?thesis by (auto simp: succeed_def split: option.splits if_splits)
qed

lemma op_codes [simp]: "OpAddDevice \<noteq> OpRevokeDevice" "OpAddDevice \<noteq> OpSuccession" "OpRevokeDevice \<noteq> OpSuccession"
  "OpRevokeDevice \<noteq> OpAddDevice" "OpSuccession \<noteq> OpAddDevice" "OpSuccession \<noteq> OpRevokeDevice"
  by (simp_all add: OpAddDevice_def OpRevokeDevice_def OpSuccession_def)

text \<open>The three ways an entry can be accepted.\<close>

lemma applyOp_cases [consumes 1, case_names add revoke succession]:
  assumes "applyOp cr s e msg = (s', None)"
  obtains ct where "d_Op e = OpAddDevice" "d_Cert e = Some ct"
      "validateCert (Some ct) (SigningKeySize (ds_params s)) = None"
      "fmlookup (ds_devices s) (c_Device ct) = None"
      "s' = s\<lparr>ds_devices := fmupd (c_Device ct) \<lparr>st_cert = ct, st_revoked = False\<rparr> (ds_devices s)\<rparr>"
  | st where "d_Op e = OpRevokeDevice" "fmlookup (ds_devices s) (d_Revoked e) = Some st" "\<not> st_revoked st"
      "s' = s\<lparr>ds_devices := fmupd (d_Revoked e) (st\<lparr>st_revoked := True\<rparr>) (ds_devices s),
        ds_pendingSuccession := True\<rparr>"
  | "d_Op e = OpSuccession" "length (d_NewIdentityKey e) = 32" "length (d_NewEncryptionKey e) = 1216"
      "VerifySignature cr (d_SigAlg e) (d_NewIdentityKey e) msg (d_SuccessorSig e) = None"
      "s' = s\<lparr>ds_superseded := ds_superseded s @ [ds_identityKey s], ds_identityKey := d_NewIdentityKey e,
        ds_encryptionKey := d_NewEncryptionKey e, ds_params := suite1_params, ds_pendingSuccession := False\<rparr>"
  using assms
  by (auto simp: applyOp_def addDevice_None revokeDevice_None succeed_None split: if_splits)

lemma device_log_axioms:
  "device_step cr s e = Inr t \<Longrightarrow> d_Prev e = ds_hash s"
  "device_step cr s e = Inr t \<Longrightarrow> ds_hash t = sha256 cr (entry_preimage e)"
  "device_step cr s e = Inr t \<Longrightarrow> entry_fits e"
  by (auto simp: device_step_Inr)

interpretation device_log: hash_log
  "device_step cr" ds_hash d_Prev entry_preimage
  "{device_genesis a su ik ek | a su ik ek. fits ik \<and> fits ek}" "sha256 cr" "\<lambda>e. e" entry_fits
  for cr
  by unfold_locales (auto simp: device_log_axioms entry_preimage_not_genesis dest: entry_preimage_inj)

section \<open>Invariant and growth\<close>

definition cert_ok :: "ID \<Rightarrow> deviceStatus \<Rightarrow> bool" where
  "cert_ok i st \<longleftrightarrow> c_Device (st_cert st) = i \<and> validateCert (Some (st_cert st)) 32 = None"

definition ds_inv :: "DeviceLogState \<Rightarrow> bool" where
  "ds_inv s \<longleftrightarrow>
    ds_params s = suite1_params \<and> length (ds_identityKey s) = 32 \<and> length (ds_encryptionKey s) = 1216 \<and>
    list_all (\<lambda>k. length k = 32) (ds_superseded s) \<and>
    (\<forall>i st. fmlookup (ds_devices s) i = Some st \<longrightarrow> cert_ok i st) \<and>
    (ds_pendingSuccession s \<longrightarrow> (\<exists>i. IsRevoked s i))"

definition ds_le :: "DeviceLogState \<Rightarrow> DeviceLogState \<Rightarrow> bool" where
  "ds_le s t \<longleftrightarrow>
    ds_account t = ds_account s \<and>
    (\<forall>i. \<forall>k. DeviceKey s i = Inr k \<longrightarrow> DeviceKey t i = Inr k) \<and>
    (\<forall>i. IsRevoked s i \<longrightarrow> IsRevoked t i) \<and>
    set (ds_superseded s) \<subseteq> set (ds_superseded t) \<and>
    (ds_identityKey s = ds_identityKey t \<or> ds_identityKey s \<in> set (ds_superseded t))"

lemma NewDeviceLogState_Inr:
  "NewDeviceLogState cr account suite ik ek = Inr s \<longleftrightarrow>
    suite = Suite1 \<and> length ik = 32 \<and> length ek = 1216 \<and>
    s = \<lparr>ds_account = account, ds_params = suite1_params, ds_identityKey = ik, ds_encryptionKey = ek,
      ds_superseded = [], ds_devices = fmempty, ds_seq = 0,
      ds_hash = sha256 cr (device_genesis account suite ik ek), ds_pendingSuccession = False\<rparr>"
proof (cases "LookupSuite suite MinAcceptedSuite")
  case (Inl err)
  then have "suite \<noteq> Suite1" by auto
  with Inl show ?thesis by (simp add: NewDeviceLogState_def)
next
  case (Inr p)
  moreover have "suite = Suite1" "p = suite1_params"
    using Inr unfolding LookupSuite_Inr by auto
  ultimately show ?thesis
    by (auto simp: NewDeviceLogState_def device_genesis_def canon_unfold canon_digest_def
        fits_def [of ik] fits_def [of ek] MaxUint32_def split: if_splits)
qed

lemma ds_inv_New: "NewDeviceLogState cr account suite ik ek = Inr s \<Longrightarrow> ds_inv s"
  by (auto simp: NewDeviceLogState_Inr ds_inv_def)

lemma ds_inv_step:
  assumes "ds_inv s" and "device_step cr s e = Inr t"
  shows "ds_inv t"
proof -
  from assms(2) obtain s' where op: "applyOp cr s e (encode_fields (entry_fields e)) = (s', None)"
    and t: "t = s'\<lparr>ds_seq := d_Seq e, ds_hash := sha256 cr (entry_preimage e)\<rparr>"
    by (auto simp: device_step_Inr)
  from op show ?thesis
  proof (cases rule: applyOp_cases)
    case (add ct)
    with assms(1) t show ?thesis by (auto simp: ds_inv_def cert_ok_def IsRevoked_def split: option.splits)
  next
    case (revoke st)
    with assms(1) t show ?thesis by (auto simp: ds_inv_def cert_ok_def IsRevoked_def)
  next
    case succession
    with assms(1) t show ?thesis by (auto simp: ds_inv_def)
  qed
qed

lemma ds_le_step:
  assumes "device_step cr s e = Inr t"
  shows "ds_le s t"
proof -
  from assms obtain s' where op: "applyOp cr s e (encode_fields (entry_fields e)) = (s', None)"
    and t: "t = s'\<lparr>ds_seq := d_Seq e, ds_hash := sha256 cr (entry_preimage e)\<rparr>"
    by (auto simp: device_step_Inr)
  from op show ?thesis
    by (cases rule: applyOp_cases)
       (auto simp: t ds_le_def DeviceKey_def IsRevoked_def split: option.splits if_splits)
qed

interpretation device_inv: log_invariant "device_step cr" ds_inv for cr
  by unfold_locales (rule ds_inv_step)

interpretation device_mono: log_monotone "device_step cr" ds_le for cr
  by unfold_locales (auto simp: ds_le_def ds_le_step[unfolded ds_le_def])

section \<open>Abstract specification\<close>

text \<open>What the log promises, without encodings, signatures or positions: certified devices, revoked
  devices, the key in force, retired keys, and whether a revocation still owes a succession.\<close>

record dl_spec =
  current :: bytes
  retired :: "bytes set"
  certified :: "ID \<rightharpoonup> bytes"
  revoked :: "ID set"
  owing :: bool

inductive dl_trans :: "dl_spec \<Rightarrow> dl_spec \<Rightarrow> bool" where
  add: "\<not> owing a \<Longrightarrow> i \<noteq> 0 \<Longrightarrow> certified a i = None \<Longrightarrow>
    dl_trans a (a\<lparr>certified := (certified a)(i \<mapsto> k)\<rparr>)"
| revoke: "i \<in> dom (certified a) \<Longrightarrow> i \<notin> revoked a \<Longrightarrow>
    dl_trans a (a\<lparr>revoked := insert i (revoked a), owing := True\<rparr>)"
| succession: "length k = length (current a) \<Longrightarrow>
    dl_trans a (a\<lparr>current := k, retired := insert (current a) (retired a), owing := False\<rparr>)"

inductive_cases dl_trans_owing: "dl_trans a b"

definition dl_abs :: "DeviceLogState \<Rightarrow> dl_spec" where
  "dl_abs s = \<lparr>current = ds_identityKey s, retired = set (ds_superseded s),
     certified = (\<lambda>i. map_option (\<lambda>st. c_SigningKey (st_cert st)) (fmlookup (ds_devices s) i)),
     revoked = {i. IsRevoked s i}, owing = ds_pendingSuccession s\<rparr>"

lemma dl_abs_update [simp]: "dl_abs (s\<lparr>ds_seq := n, ds_hash := h\<rparr>) = dl_abs s"
  by (simp add: dl_abs_def IsRevoked_def)

lemma device_step_refines:
  assumes "ds_inv s" and "device_step cr s e = Inr t"
  shows "dl_trans (dl_abs s) (dl_abs t)"
proof -
  from assms(2) obtain s' where op: "applyOp cr s e (encode_fields (entry_fields e)) = (s', None)"
    and t: "t = s'\<lparr>ds_seq := d_Seq e, ds_hash := sha256 cr (entry_preimage e)\<rparr>"
    and pend: "ds_pendingSuccession s \<longrightarrow> d_Op e = OpSuccession \<or> d_Op e = OpRevokeDevice"
    by (auto simp: device_step_Inr)
  from op show ?thesis
  proof (cases rule: applyOp_cases)
    case (add ct)
    have "dl_abs s' = (dl_abs s)\<lparr>certified := (certified (dl_abs s))(c_Device ct \<mapsto> c_SigningKey ct)\<rparr>"
      using add by (auto simp: dl_abs_def IsRevoked_def fun_eq_iff)
    moreover have "c_Device ct \<noteq> 0"
      using add(3) by (auto simp: validateCert_def ID_IsZero_def)
    moreover have "\<not> owing (dl_abs s)" "certified (dl_abs s) (c_Device ct) = None"
      using add pend by (auto simp: dl_abs_def)
    ultimately show ?thesis using dl_trans.add t by simp
  next
    case (revoke st)
    have "dl_abs s' = (dl_abs s)\<lparr>revoked := insert (d_Revoked e) (revoked (dl_abs s)), owing := True\<rparr>"
      using revoke by (auto simp: dl_abs_def IsRevoked_def fun_eq_iff)
    moreover have "d_Revoked e \<in> dom (certified (dl_abs s))" "d_Revoked e \<notin> revoked (dl_abs s)"
      using revoke by (auto simp: dl_abs_def IsRevoked_def)
    ultimately show ?thesis using dl_trans.revoke t by simp
  next
    case succession
    have "dl_abs s' = (dl_abs s)\<lparr>current := d_NewIdentityKey e,
        retired := insert (current (dl_abs s)) (retired (dl_abs s)), owing := False\<rparr>"
      using succession by (auto simp: dl_abs_def IsRevoked_def)
    moreover have "length (d_NewIdentityKey e) = length (current (dl_abs s))"
      using succession assms(1) by (simp add: dl_abs_def ds_inv_def)
    ultimately show ?thesis using dl_trans.succession t by simp
  qed
qed

lemma applyOp_error: "applyOp cr s e msg = (s', Some err) \<Longrightarrow> s' = s"
  by (auto simp: applyOp_def addDevice_def revokeDevice_def succeed_def split: if_splits option.splits sum.splits)

section \<open>Sample log\<close>

text \<open>A verifier that reads the signer's key out of the first half of the signature.\<close>

definition dl_crypto :: crypto where
  "dl_crypto = \<lparr>sha256 = (\<lambda>bs. if bs = device_genesis 4 Suite1 (replicate 32 1) (replicate 1216 0) then 0 else 5),
     sha512 = (\<lambda>_. replicate 64 0), ed25519_Verify = (\<lambda>k m s. take 32 s = k)\<rparr>"

definition dl_start :: DeviceLogState where
  "dl_start = \<lparr>ds_account = 4, ds_params = suite1_params, ds_identityKey = replicate 32 1,
     ds_encryptionKey = replicate 1216 0, ds_superseded = [], ds_devices = fmempty, ds_seq = 0,
     ds_hash = 0, ds_pendingSuccession = False\<rparr>"

definition dl_add :: "bytes \<Rightarrow> u64 \<Rightarrow> hash32 \<Rightarrow> DeviceEntry" where
  "dl_add sig n prev = \<lparr>d_Account = 4, d_Seq = n, d_Prev = prev, d_Op = OpAddDevice,
     d_Cert = Some \<lparr>c_Device = 7, c_SigningKey = replicate 32 9, c_Name = ''laptop'', c_Platform = ''linux'',
       c_CreatedUnixMilli = 0\<rparr>,
     d_Revoked = 0, d_NewSuite = 0, d_NewIdentityKey = [], d_NewEncryptionKey = [], d_SigAlg = SigEd25519,
     d_Sig = sig, d_SuccessorSig = []\<rparr>"

definition dl_succession :: DeviceEntry where
  "dl_succession = \<lparr>d_Account = 4, d_Seq = 1, d_Prev = 0, d_Op = OpSuccession, d_Cert = None,
     d_Revoked = 0, d_NewSuite = Suite1, d_NewIdentityKey = replicate 32 2,
     d_NewEncryptionKey = replicate 1216 0, d_SigAlg = SigEd25519, d_Sig = replicate 64 1,
     d_SuccessorSig = replicate 64 2\<rparr>"

lemma dl_start_New: "NewDeviceLogState dl_crypto 4 Suite1 (replicate 32 1) (replicate 1216 0) = Inr dl_start"
  unfolding NewDeviceLogState_Inr by (simp add: dl_start_def dl_crypto_def)

lemma dl_add_fits: "length sig \<le> 64 \<Longrightarrow> entry_fits (dl_add sig n prev)"
  by (simp add: entry_fits_def entry_fields_def dl_add_def cert_fields_def fits_def MaxUint32_def label_defs)

lemma dl_succession_fits: "entry_fits dl_succession"
  by (simp add: entry_fits_def entry_fields_def dl_succession_def cert_fields_def fits_def MaxUint32_def label_defs)

lemma dl_entry_not_genesis:
  "entry_fits e \<Longrightarrow> entry_preimage e \<noteq> device_genesis 4 Suite1 (replicate 32 1) (replicate 1216 0)"
  by (rule entry_preimage_not_genesis) (simp_all add: fits_def MaxUint32_def)

definition dl_next :: DeviceLogState where
  "dl_next = dl_start\<lparr>ds_superseded := [replicate 32 1], ds_identityKey := replicate 32 2, ds_seq := 1, ds_hash := 5\<rparr>"

lemma dl_succession_step: "device_step dl_crypto dl_start dl_succession = Inr dl_next"
  using dl_succession_fits dl_entry_not_genesis [OF dl_succession_fits]
  by (simp add: device_step_Inr applyOp_def succeed_None, simp add: dl_next_def dl_start_def dl_succession_def
      dl_crypto_def VerifySignature_None take_replicate)

section \<open>Properties\<close>

text \<open>A rejected device log entry leaves the state exactly as it was, whichever check failed.\<close>

theorem DeviceLog_rejected_unchanged:
  assumes "DeviceLogState_Apply cr s e = (s', Some err)"
  shows "s' = s"
  using assms by (auto simp: DeviceLogState_Apply_def split: if_splits option.splits sum.splits prod.splits
      dest: applyOp_error)

theorem DeviceLog_rejected_unchanged_witness:
  "DeviceLogState_Apply dl_crypto dl_start (dl_add [] 2 0) = (dl_start, Some [ErrDeviceLog])"
proof -
  have "\<exists>s'. DeviceLogState_Apply dl_crypto dl_start (dl_add [] 2 0) = (s', Some [ErrDeviceLog])"
    by (simp add: DeviceLogState_Apply_def dl_start_def dl_add_def)
  then show ?thesis using DeviceLog_rejected_unchanged by blast
qed



text \<open>Every accepted entry extends the log it was applied to and carries a valid signature by the
  identity key in force there over its canonical bytes; a succession also carries one by the new key.\<close>

theorem DeviceLog_accepted_authentic:
  assumes "device_step cr s e = Inr t"
  shows "\<exists>msg. DeviceEntry_SigningBytes e = Inr msg \<and>
    d_Account e = ds_account s \<and> d_Seq e = ds_seq s + 1 \<and> d_Prev e = ds_hash s \<and>
    VerifySignature cr (d_SigAlg e) (ds_identityKey s) msg (d_Sig e) = None \<and>
    (d_Op e = OpSuccession \<longrightarrow>
      VerifySignature cr (d_SigAlg e) (ds_identityKey t) msg (d_SuccessorSig e) = None)"
proof -
  from assms have fit: "list_all fits (entry_fields e)"
    by (simp add: device_step_Inr entry_fits_def)
  from assms obtain s' where op: "applyOp cr s e (encode_fields (entry_fields e)) = (s', None)"
    and t: "t = s'\<lparr>ds_seq := d_Seq e, ds_hash := sha256 cr (entry_preimage e)\<rparr>"
    by (auto simp: device_step_Inr)
  from op have "d_Op e = OpSuccession \<longrightarrow>
      VerifySignature cr (d_SigAlg e) (ds_identityKey t) (encode_fields (entry_fields e)) (d_SuccessorSig e) = None"
    by (cases rule: applyOp_cases) (auto simp: t)
  with assms fit show ?thesis
    by (auto simp: device_step_Inr DeviceEntry_SigningBytes_fields canon_result_def)
qed

theorem DeviceLog_accepted_authentic_witness:
  "\<exists>msg. DeviceEntry_SigningBytes dl_succession = Inr msg \<and>
    VerifySignature dl_crypto (d_SigAlg dl_succession) (ds_identityKey dl_start) msg (d_Sig dl_succession) = None"
  using DeviceLog_accepted_authentic [OF dl_succession_step] by blast

text \<open>A retired identity key is recognised: after any replay that changed the identity key, an
  entry that extends the log and is signed by the key in force at the start, and not by the current
  one, is refused with \<open>ErrSupersededKey\<close> and changes nothing.\<close>

theorem DeviceLog_superseded_key_refused:
  assumes "replay (device_step cr) s es = Inr t"
    and "d_Account e = ds_account t" and "d_Seq e = ds_seq t + 1" and "d_Prev e = ds_hash t"
    and "DeviceEntry_SigningBytes e = Inr msg"
    and "VerifySignature cr (d_SigAlg e) (ds_identityKey s) msg (d_Sig e) = None"
    and "VerifySignature cr (d_SigAlg e) (ds_identityKey t) msg (d_Sig e) \<noteq> None"
  shows "DeviceLogState_Apply cr t e = (t, Some [ErrSupersededKey])"
proof -
  have "ds_le s t" using device_mono.le_replay [OF assms(1)] .
  then have "ds_identityKey s \<in> set (ds_superseded t)"
    using assms(6,7) by (auto simp: ds_le_def)
  then have "checkSignature cr t e msg = Some [ErrSupersededKey]"
    using assms(6,7) by (auto simp: checkSignature_def list_ex_iff split: option.splits)
  with assms(2-5) show ?thesis by (simp add: DeviceLogState_Apply_def)
qed

theorem DeviceLog_superseded_key_refused_witness:
  "DeviceLogState_Apply dl_crypto dl_next (dl_add (replicate 64 1) 2 5) = (dl_next, Some [ErrSupersededKey])"
proof -
  have run: "replay (device_step dl_crypto) dl_start [dl_succession] = Inr dl_next"
    by (simp add: dl_succession_step)
  obtain msg where msg: "DeviceEntry_SigningBytes (dl_add (replicate 64 1) 2 5) = Inr msg"
    using dl_add_fits [of "replicate 64 1" 2 5]
    by (simp add: DeviceEntry_SigningBytes_fields canon_result_def entry_fits_def)
  show ?thesis
    by (rule DeviceLog_superseded_key_refused [OF run _ _ _ msg])
       (simp_all add: dl_next_def dl_start_def dl_add_def dl_crypto_def VerifySignature_None take_replicate)
qed

text \<open>Revocation is permanent and does not reach back: along every replay a revoked device stays
  revoked, a certified device keeps its signing key, and every certificate satisfies the checks made
  when it was added.\<close>

theorem DeviceLog_permanence:
  assumes "NewDeviceLogState cr account suite ik ek = Inr s0" and "replay (device_step cr) s0 es = Inr s"
    and "replay (device_step cr) s fs = Inr t"
  shows "ds_inv t \<and> (IsRevoked s i \<longrightarrow> IsRevoked t i) \<and> (DeviceKey s i = Inr k \<longrightarrow> DeviceKey t i = Inr k)"
proof -
  have "ds_inv t"
    using device_inv.inv_replay [OF device_inv.inv_replay [OF ds_inv_New [OF assms(1)] assms(2)] assms(3)] .
  moreover have "ds_le s t" using device_mono.le_replay [OF assms(3)] .
  ultimately show ?thesis by (auto simp: ds_le_def)
qed

theorem DeviceLog_permanence_witness: "ds_inv dl_next"
  using DeviceLog_permanence [OF dl_start_New, of "[]" dl_start "[dl_succession]" dl_next]
  by (simp add: dl_succession_step)

text \<open>Two device logs of one account, accepted from the same genesis keys, that end with the same
  chain hash are the same log, entry by entry and signature by signature, provided SHA-256 has no
  collision among the bytes they hash.\<close>

theorem DeviceLog_hash_binds_history:
  assumes "NewDeviceLogState cr account suite ik ek = Inr s0"
    and "replay (device_step cr) s0 es = Inr s" and "replay (device_step cr) s0 fs = Inr t"
    and "ds_hash s = ds_hash t"
    and "inj_on (sha256 cr) (insert (device_genesis account suite ik ek) (entry_preimage ` (set es \<union> set fs)))"
  shows "es = fs"
proof -
  have tip: "ds_hash s0 = sha256 cr (device_genesis account suite ik ek)"
    and fit: "fits ik" "fits ek"
    using assms(1) by (auto simp: NewDeviceLogState_Inr fits_def MaxUint32_def)
  from fit have gen: "device_genesis account suite ik ek \<in> {device_genesis a su ik ek | a su ik ek. fits ik \<and> fits ek}"
    by blast
  have "map (\<lambda>e. e) es = map (\<lambda>e. e) fs"
    using device_log.binding [OF tip gen assms(2-5)] .
  then show ?thesis by simp
qed

theorem DeviceLog_hash_binds_history_witness:
  "inj_on (sha256 dl_crypto) (insert (device_genesis 4 Suite1 (replicate 32 1) (replicate 1216 0))
     (entry_preimage ` (set [dl_succession] \<union> set [dl_succession]))) \<and> [dl_succession] = [dl_succession]"
proof -
  have inj: "inj_on (sha256 dl_crypto) (insert (device_genesis 4 Suite1 (replicate 32 1) (replicate 1216 0))
     (entry_preimage ` (set [dl_succession] \<union> set [dl_succession])))"
    using dl_entry_not_genesis [OF dl_succession_fits] by (simp add: dl_crypto_def)
  have run: "replay (device_step dl_crypto) dl_start [dl_succession] = Inr dl_next"
    by (simp add: dl_succession_step)
  from DeviceLog_hash_binds_history [OF dl_start_New run run refl inj] inj show ?thesis by simp
qed

end
