(* ===== verification/Envelope.thy ===== *)
theory Envelope
  imports Suite Padding "HOL-Library.Multiset"
begin

text \<open>
  Record envelopes (\<open>envelope.go\<close>) and the Merkle root of a vault state (\<open>merkle.go\<close>).
  A Merkle computation is related to the binary tree it hashes (\<open>mtree\<close>), whose fringe is the list
  of leaves; that is what makes the root bind the leaves although odd nodes are promoted and lists
  of different lengths give trees of different shapes.
\<close>

section \<open>Envelopes\<close>

record Envelope =
  e_Vault :: ID
  e_Record :: ID
  e_Version :: u64
  e_Epoch :: u32
  e_Suite :: SuiteID
  e_Deleted :: bool
  e_WrappedDEK :: bytes
  e_Body :: bytes
  e_Author :: ID
  e_SigAlg :: SigAlg
  e_Sig :: bytes

definition validateContent :: "Envelope \<Rightarrow> SuiteParams \<Rightarrow> go_error option" where
  "validateContent e p =
    (if e_Deleted e then
       (if length (e_WrappedDEK e) \<noteq> 0 \<or> length (e_Body e) \<noteq> 0 then Some [ErrMalformedEnvelope]
        else None)
     else if length (e_WrappedDEK e) \<noteq> WrappedDEKSize p then Some [ErrMalformedEnvelope]
     else (let minBody = MinPaddedSize + AEADOverhead p;
               maxBody = PaddedSize MaxPlaintextSize + AEADOverhead p in
       if length (e_Body e) < minBody \<or> length (e_Body e) > maxBody then Some [ErrMalformedEnvelope]
       else None))"

definition Envelope_Validate :: "Envelope \<Rightarrow> go_error option" where
  "Envelope_Validate e =
    (if ID_IsZero (e_Vault e) \<or> ID_IsZero (e_Record e) \<or> ID_IsZero (e_Author e)
       then Some [ErrMalformedEnvelope]
     else if e_Version e = 0 then Some [ErrMalformedEnvelope]
     else if e_SigAlg e \<noteq> SigEd25519 then Some [ErrUnsupportedSigAlg]
     else if length (e_Sig e) \<noteq> ed25519_SignatureSize then Some [ErrMalformedEnvelope]
     else (case LookupSuite (e_Suite e) MinAcceptedSuite of
         Inl err \<Rightarrow> Some (ErrMalformedEnvelope # err)
       | Inr params \<Rightarrow> validateContent e params))"

definition Envelope_SigningBytes :: "Envelope \<Rightarrow> bytes result" where
  "Envelope_SigningBytes e =
    canon_Encoded (canon_chain
      [canon_ID (e_Vault e), canon_ID (e_Record e), canon_U64 (e_Version e), canon_U32 (e_Epoch e),
       canon_U16 (e_Suite e), canon_Bool (e_Deleted e), canon_Bytes (e_WrappedDEK e),
       canon_Bytes (e_Body e), canon_ID (e_Author e), canon_U16 (e_SigAlg e)]
      (NewCanon LabelRecordSig))"

definition Envelope_Digest :: "crypto \<Rightarrow> Envelope \<Rightarrow> hash32 result" where
  "Envelope_Digest cr e =
    (case Envelope_SigningBytes e of
       Inl err \<Rightarrow> Inl err
     | Inr msg \<Rightarrow>
         canon_Sum cr (canon_chain [canon_Bytes msg, canon_Bytes (e_Sig e)] (NewCanon LabelEnvelope)))"

definition Envelope_Verify :: "crypto \<Rightarrow> Envelope \<Rightarrow> bytes \<Rightarrow> go_error option" where
  "Envelope_Verify cr e publicKey =
    (case Envelope_Validate e of
       Some err \<Rightarrow> Some err
     | None \<Rightarrow>
         (case Envelope_SigningBytes e of
            Inl err \<Rightarrow> Some err
          | Inr msg \<Rightarrow> VerifySignature cr (e_SigAlg e) publicKey msg (e_Sig e)))"

section \<open>Merkle root\<close>

record Leaf =
  l_Record :: ID
  l_Version :: u64
  l_Digest :: hash32
  l_Deleted :: bool

definition LeafOf :: "crypto \<Rightarrow> Envelope \<Rightarrow> Leaf result" where
  "LeafOf cr e =
    (case Envelope_Digest cr e of
       Inl err \<Rightarrow> Inl err
     | Inr d \<Rightarrow> Inr \<lparr>l_Record = e_Record e, l_Version = e_Version e, l_Digest = d, l_Deleted = e_Deleted e\<rparr>)"

fun merkleLevel :: "crypto \<Rightarrow> hash32 list \<Rightarrow> hash32 list result" where
  "merkleLevel cr [] = Inr []"
| "merkleLevel cr [h] = Inr [h]"
| "merkleLevel cr (h # k # hs) =
    (case canon_Sum cr (canon_chain [canon_Hash h, canon_Hash k] (NewCanon LabelMerkleNode)) of
       Inl err \<Rightarrow> Inl err
     | Inr x \<Rightarrow> (case merkleLevel cr hs of Inl err \<Rightarrow> Inl err | Inr xs \<Rightarrow> Inr (x # xs)))"

lemma length_merkleLevel: "merkleLevel cr hs = Inr xs \<Longrightarrow> length xs = (length hs + 1) div 2"
  by (induction cr hs arbitrary: xs rule: merkleLevel.induct) (auto split: sum.splits)

text \<open>The loop that halves the level until one hash is left.\<close>

function merkle_loop :: "crypto \<Rightarrow> hash32 list \<Rightarrow> hash32 result" where
  "merkle_loop cr level =
    (if length level > 1 then
       (case merkleLevel cr level of Inl err \<Rightarrow> Inl err | Inr next \<Rightarrow> merkle_loop cr next)
     else Inr (hd level))"
  by pat_completeness auto
termination
  by (relation "measure (\<lambda>(cr, level). length level)") (auto dest: length_merkleLevel)

declare merkle_loop.simps [simp del]

fun adjacent_dup :: "Leaf list \<Rightarrow> bool" where
  "adjacent_dup (a # b # ls) = (l_Record b = l_Record a \<or> adjacent_dup (b # ls))"
| "adjacent_dup _ = False"

fun leaf_level :: "crypto \<Rightarrow> Leaf list \<Rightarrow> hash32 list result" where
  "leaf_level cr [] = Inr []"
| "leaf_level cr (l # ls) =
    (case canon_Sum cr (canon_chain
        [canon_ID (l_Record l), canon_U64 (l_Version l), canon_Hash (l_Digest l)]
        (NewCanon LabelMerkleLeaf)) of
       Inl err \<Rightarrow> Inl err
     | Inr h \<Rightarrow> (case leaf_level cr ls of Inl err \<Rightarrow> Inl err | Inr hs \<Rightarrow> Inr (h # hs)))"

definition MerkleRoot :: "crypto \<Rightarrow> Leaf list \<Rightarrow> hash32 result" where
  "MerkleRoot cr leaves =
    (let sorted_leaves = sort_key l_Record leaves in
     if adjacent_dup sorted_leaves then Inl [ErrDuplicateLeaf]
     else if length sorted_leaves = 0 then canon_Sum cr (NewCanon LabelMerkleNode)
     else (case leaf_level cr sorted_leaves of
         Inl err \<Rightarrow> Inl err
       | Inr level \<Rightarrow> merkle_loop cr level))"

section \<open>Envelope lemmas\<close>

definition envelope_fields :: "Envelope \<Rightarrow> bytes list" where
  "envelope_fields e =
    [str_bytes LabelRecordSig, be_bytes (e_Vault e), be_bytes (e_Record e), be_bytes (e_Version e),
     be_bytes (e_Epoch e), be_bytes (e_Suite e), bool_byte (e_Deleted e), e_WrappedDEK e, e_Body e,
     be_bytes (e_Author e), be_bytes (e_SigAlg e)]"

lemma Envelope_SigningBytes_fields: "Envelope_SigningBytes e = canon_result (envelope_fields e)"
  by (simp add: Envelope_SigningBytes_def envelope_fields_def canon_unfold)

lemma Envelope_Digest_fields:
  "Envelope_Digest cr e =
    bind_res (Envelope_SigningBytes e) (\<lambda>msg. canon_digest cr [str_bytes LabelEnvelope, msg, e_Sig e])"
  by (simp add: Envelope_Digest_def bind_res_def canon_unfold split: sum.splits)

lemma envelope_fields_inj:
  "envelope_fields d = envelope_fields e \<Longrightarrow> d\<lparr>e_Sig := s\<rparr> = e\<lparr>e_Sig := s\<rparr>"
  by (cases d; cases e) (simp add: envelope_fields_def byte_simps)

lemma Envelope_Verify_None:
  "Envelope_Verify cr e k = None \<longleftrightarrow>
    Envelope_Validate e = None \<and> (\<exists>m. Envelope_SigningBytes e = Inr m \<and>
      VerifySignature cr (e_SigAlg e) k m (e_Sig e) = None)"
  by (auto simp: Envelope_Verify_def split: option.splits sum.splits)

lemma Envelope_Validate_version: "Envelope_Validate e = None \<Longrightarrow> e_Version e \<noteq> 0"
  by (auto simp: Envelope_Validate_def split: if_splits)

lemma Envelope_Validate_integrity: "Envelope_Validate e = Some err \<Longrightarrow> is_integrity err"
  by (auto simp: Envelope_Validate_def validateContent_def Let_def split: if_splits sum.splits)

text \<open>A validated envelope is small enough to be encoded, so a validated envelope that is refused is
  refused with an integrity error.\<close>

lemma Envelope_Validate_fits:
  assumes "Envelope_Validate e = None"
  shows "list_all fits (envelope_fields e)" and "fits (e_Sig e)"
proof -
  have max: "PaddedSize MaxPlaintextSize < 2 ^ 31"
  proof -
    have "8 * (padme (lengthPrefix + MaxPlaintextSize) - (lengthPrefix + MaxPlaintextSize)) < lengthPrefix + MaxPlaintextSize"
      by (rule padme_overhead) (simp add: lengthPrefix_def)
    then show ?thesis
      by (simp add: PaddedSize_def MaxPlaintextSize_def lengthPrefix_def MinPaddedSize_def)
  qed
  have "length (e_WrappedDEK e) \<le> 72 \<and> length (e_Body e) < 2 ^ 31 + 40"
    using assms max
    by (auto simp: Envelope_Validate_def validateContent_def Let_def LookupSuite_Inr
        split: if_splits sum.splits)
  then show "list_all fits (envelope_fields e)"
    by (simp add: envelope_fields_def) (simp add: fits_def MaxUint32_def)
  show "fits (e_Sig e)"
    using assms by (auto simp: Envelope_Validate_def fits_def MaxUint32_def ed25519_SignatureSize_def
        split: if_splits)
qed

lemma Envelope_Verify_integrity: "Envelope_Verify cr e k = Some err \<Longrightarrow> is_integrity err"
  using Envelope_Validate_integrity [of e] VerifySignature_integrity Envelope_Validate_fits(1) [of e]
  by (auto simp: Envelope_Verify_def Envelope_SigningBytes_fields canon_result_def
      split: option.splits if_splits)

section \<open>The tree behind the root\<close>

text \<open>What a leaf hash covers: not the deletion mark, which the digest covers already.\<close>

definition leaf_key :: "Leaf \<Rightarrow> ID \<times> u64 \<times> hash32" where
  "leaf_key l = (l_Record l, l_Version l, l_Digest l)"

definition leaf_fields :: "ID \<times> u64 \<times> hash32 \<Rightarrow> bytes list" where
  "leaf_fields k = (case k of (r, v, d) \<Rightarrow> [str_bytes LabelMerkleLeaf, be_bytes r, be_bytes v, be_bytes d])"

definition node_fields :: "hash32 \<Rightarrow> hash32 \<Rightarrow> bytes list" where
  "node_fields h k = [str_bytes LabelMerkleNode, be_bytes h, be_bytes k]"

datatype mtree = MLeaf "ID \<times> u64 \<times> hash32" | MNode mtree mtree

fun mhash :: "crypto \<Rightarrow> mtree \<Rightarrow> hash32" where
  "mhash cr (MLeaf k) = sha256 cr (encode_fields (leaf_fields k))"
| "mhash cr (MNode a b) = sha256 cr (encode_fields (node_fields (mhash cr a) (mhash cr b)))"

fun fringe :: "mtree \<Rightarrow> (ID \<times> u64 \<times> hash32) list" where
  "fringe (MLeaf k) = [k]"
| "fringe (MNode a b) = fringe a @ fringe b"

text \<open>The byte strings the hash of a tree hashes.\<close>

fun preimages :: "crypto \<Rightarrow> mtree \<Rightarrow> bytes set" where
  "preimages cr (MLeaf k) = {encode_fields (leaf_fields k)}"
| "preimages cr (MNode a b) =
    insert (encode_fields (node_fields (mhash cr a) (mhash cr b))) (preimages cr a \<union> preimages cr b)"

fun pair_up :: "mtree list \<Rightarrow> mtree list" where
  "pair_up [] = []"
| "pair_up [t] = [t]"
| "pair_up (t # u # ts) = MNode t u # pair_up ts"

lemma length_pair_up [simp]: "length (pair_up ts) = (length ts + 1) div 2"
  by (induction ts rule: pair_up.induct) auto

function build :: "mtree list \<Rightarrow> mtree" where
  "build ts = (if length ts > 1 then build (pair_up ts) else hd ts)"
  by pat_completeness auto
termination
  by (relation "measure length") auto

declare build.simps [simp del]

lemma leaf_fields_fit [simp]: "list_all fits (leaf_fields k)"
  by (cases k) (simp add: leaf_fields_def)

lemma node_fields_fit [simp]: "list_all fits (node_fields h k)"
  by (simp add: node_fields_def)

lemma merkleLevel_trees: "merkleLevel cr (map (mhash cr) ts) = Inr (map (mhash cr) (pair_up ts))"
proof (induction ts rule: pair_up.induct)
  case (3 t u ts)
  have "canon_Sum cr (canon_chain [canon_Hash h, canon_Hash k] (NewCanon LabelMerkleNode)) =
      Inr (sha256 cr (encode_fields (node_fields h k)))" for h k
    using node_fields_fit [of h k] by (simp add: canon_unfold canon_digest_def node_fields_def)
  with 3 show ?case by simp
qed simp_all

lemma merkle_loop_trees: "ts \<noteq> [] \<Longrightarrow> merkle_loop cr (map (mhash cr) ts) = Inr (mhash cr (build ts))"
proof (induction ts rule: build.induct)
  case (1 ts)
  show ?case
  proof (cases "length ts > 1")
    case True
    then have "pair_up ts \<noteq> []" by (cases ts rule: pair_up.cases) auto
    with True 1 show ?thesis
      by (simp add: merkle_loop.simps [of cr "map (mhash cr) ts"] merkleLevel_trees build.simps [of ts])
  next
    case False
    with 1 obtain t where "ts = [t]" by (cases ts rule: pair_up.cases) auto
    then show ?thesis by (simp add: merkle_loop.simps build.simps)
  qed
qed

lemma leaf_level_trees: "leaf_level cr ls = Inr (map (\<lambda>l. mhash cr (MLeaf (leaf_key l))) ls)"
proof (induction ls)
  case (Cons l ls)
  have "canon_Sum cr (canon_chain [canon_ID (l_Record l), canon_U64 (l_Version l), canon_Hash (l_Digest l)]
      (NewCanon LabelMerkleLeaf)) = Inr (sha256 cr (encode_fields (leaf_fields (leaf_key l))))"
    using leaf_fields_fit [of "leaf_key l"]
    by (simp add: canon_unfold canon_digest_def leaf_fields_def leaf_key_def)
  with Cons show ?case by simp
qed simp

lemma fringe_pair_up: "concat (map fringe (pair_up ts)) = concat (map fringe ts)"
  by (induction ts rule: pair_up.induct) auto

lemma fringe_build: "ts \<noteq> [] \<Longrightarrow> fringe (build ts) = concat (map fringe ts)"
proof (induction ts rule: build.induct)
  case (1 ts)
  show ?case
  proof (cases "length ts > 1")
    case True
    then have "pair_up ts \<noteq> []" by (cases ts rule: pair_up.cases) auto
    with True 1 show ?thesis by (simp add: build.simps [of ts] fringe_pair_up)
  next
    case False
    with 1 obtain t where "ts = [t]" by (cases ts rule: pair_up.cases) auto
    then show ?thesis by (simp add: build.simps)
  qed
qed

lemma leaf_node_fields: "encode_fields (leaf_fields k) \<noteq> encode_fields (node_fields a b)"
proof
  assume "encode_fields (leaf_fields k) = encode_fields (node_fields a b)"
  then have "leaf_fields k = node_fields a b"
    by (rule encode_fields_inj) simp_all
  then show False by (cases k) (simp add: leaf_fields_def node_fields_def)
qed

lemma leaf_fields_inj: "encode_fields (leaf_fields k) = encode_fields (leaf_fields k') \<Longrightarrow> k = k'"
  by (drule encode_fields_inj) (auto simp: leaf_fields_def byte_simps split: prod.splits)

lemma node_fields_inj:
  "encode_fields (node_fields a b) = encode_fields (node_fields c d) \<Longrightarrow> a = c \<and> b = d"
  by (drule encode_fields_inj) (auto simp: node_fields_def byte_simps)

fun root_fields :: "crypto \<Rightarrow> mtree \<Rightarrow> bytes list" where
  "root_fields cr (MLeaf k) = leaf_fields k"
| "root_fields cr (MNode a b) = node_fields (mhash cr a) (mhash cr b)"

lemma root_fields:
  "encode_fields (root_fields cr t) \<in> preimages cr t"
  "mhash cr t = sha256 cr (encode_fields (root_fields cr t))"
  "list_all fits (root_fields cr t)"
  "length (root_fields cr t) \<noteq> 1"
  by (cases t; simp; simp add: leaf_fields_def node_fields_def split: prod.splits)+

lemma mhash_inj:
  assumes "mhash cr t = mhash cr u" and "inj_on (sha256 cr) (preimages cr t \<union> preimages cr u)"
  shows "t = u"
  using assms
proof (induction t arbitrary: u)
  case (MLeaf k)
  show ?case
  proof (cases u)
    case (MLeaf k')
    then have "encode_fields (leaf_fields k) = encode_fields (leaf_fields k')"
      using MLeaf.prems(1) by (intro inj_onD [OF MLeaf.prems(2)]) auto
    then show ?thesis using leaf_fields_inj MLeaf by simp
  next
    case (MNode a b)
    then have "encode_fields (leaf_fields k) = encode_fields (node_fields (mhash cr a) (mhash cr b))"
      using MLeaf.prems(1) by (intro inj_onD [OF MLeaf.prems(2)]) auto
    then show ?thesis using leaf_node_fields by simp
  qed
next
  case (MNode a b)
  show ?case
  proof (cases u)
    case (MLeaf k)
    then have "encode_fields (leaf_fields k) = encode_fields (node_fields (mhash cr a) (mhash cr b))"
      using MNode.prems(1) by (intro inj_onD [OF MNode.prems(2)]) auto
    then show ?thesis using leaf_node_fields by simp
  next
    case u: (MNode c d)
    have "encode_fields (node_fields (mhash cr a) (mhash cr b)) =
        encode_fields (node_fields (mhash cr c) (mhash cr d))"
      using MNode.prems(1) u by (intro inj_onD [OF MNode.prems(2)]) auto
    then have "mhash cr a = mhash cr c \<and> mhash cr b = mhash cr d"
      by (rule node_fields_inj)
    moreover have "inj_on (sha256 cr) (preimages cr a \<union> preimages cr c)"
      "inj_on (sha256 cr) (preimages cr b \<union> preimages cr d)"
      using MNode.prems(2) by (rule inj_on_subset, auto simp: u)+
    ultimately show ?thesis using MNode.IH(1) [of c] MNode.IH(2) [of d] u by simp
  qed
qed

section \<open>The root commits to the leaves\<close>

definition merkle_preimages :: "crypto \<Rightarrow> Leaf list \<Rightarrow> bytes set" where
  "merkle_preimages cr leaves =
    (if leaves = [] then {encode_fields [str_bytes LabelMerkleNode]}
     else preimages cr (build (map (\<lambda>l. MLeaf (leaf_key l)) (sort_key l_Record leaves))))"

lemma adjacent_dup_sorted:
  "sorted (map l_Record ls) \<Longrightarrow> adjacent_dup ls \<longleftrightarrow> \<not> distinct (map l_Record ls)"
proof (induction ls rule: adjacent_dup.induct)
  case (1 a b ls)
  then show ?case
    by (auto simp: image_iff)
qed auto

lemma distinct_sort_key: "distinct (map f (sort_key g xs)) \<longleftrightarrow> distinct (map f xs)"
  by (rule mset_eq_imp_distinct_iff) simp

lemma MerkleRoot_eq:
  "MerkleRoot cr leaves =
    (if \<not> distinct (map l_Record leaves) then Inl [ErrDuplicateLeaf]
     else if leaves = [] then Inr (sha256 cr (encode_fields [str_bytes LabelMerkleNode]))
     else Inr (mhash cr (build (map (\<lambda>l. MLeaf (leaf_key l)) (sort_key l_Record leaves)))))"
proof -
  have len: "length (sort_key l_Record leaves) = 0 \<longleftrightarrow> leaves = []" by simp
  have "merkle_loop cr (map (\<lambda>l. mhash cr (MLeaf (leaf_key l))) (sort_key l_Record leaves)) =
      Inr (mhash cr (build (map (\<lambda>l. MLeaf (leaf_key l)) (sort_key l_Record leaves))))"
    if "leaves \<noteq> []"
    using merkle_loop_trees [of "map (\<lambda>l. MLeaf (leaf_key l)) (sort_key l_Record leaves)" cr] that len
    by (simp add: comp_def)
  with len show ?thesis
    by (simp add: MerkleRoot_def Let_def adjacent_dup_sorted distinct_sort_key leaf_level_trees
        canon_unfold canon_digest_def)
qed

lemma MerkleRoot_perm:
  assumes "mset ls = mset ms"
  shows "MerkleRoot cr ls = MerkleRoot cr ms"
proof (cases "distinct (map l_Record ls)")
  case True
  have "sort_key l_Record ls = sort_key l_Record ms"
    using assms True by (intro sort_key_inj_key_eq) (auto simp: distinct_map)
  moreover have "distinct (map l_Record ms)" "ls = [] \<longleftrightarrow> ms = []"
    using True assms mset_eq_imp_distinct_iff [of "map l_Record ls" "map l_Record ms"] by auto
  ultimately show ?thesis using True by (simp add: MerkleRoot_eq)
next
  case False
  then show ?thesis
    using assms mset_eq_imp_distinct_iff [of "map l_Record ls" "map l_Record ms"]
    by (simp add: MerkleRoot_eq)
qed

lemma MerkleRoot_Inr:
  "MerkleRoot cr ls = Inr r \<Longrightarrow> distinct (map l_Record ls)"
  by (auto simp: MerkleRoot_eq split: if_splits)

lemma fringe_leaves:
  "leaves \<noteq> [] \<Longrightarrow>
    fringe (build (map (\<lambda>l. MLeaf (leaf_key l)) (sort_key l_Record leaves))) =
    map leaf_key (sort_key l_Record leaves)"
proof -
  assume "leaves \<noteq> []"
  then have "map (\<lambda>l. MLeaf (leaf_key l)) (sort_key l_Record leaves) \<noteq> []"
    by simp
  moreover have "concat (map (\<lambda>l. [leaf_key l]) xs) = map leaf_key xs" for xs
    by (induction xs) auto
  ultimately show ?thesis by (simp add: fringe_build comp_def)
qed

lemma empty_preimage_distinct:
  assumes "list_all fits fs" and "length fs \<noteq> 1"
  shows "encode_fields [str_bytes LabelMerkleNode] \<noteq> encode_fields fs"
proof
  assume "encode_fields [str_bytes LabelMerkleNode] = encode_fields fs"
  from encode_fields_inj [OF this _ assms(1)] assms(2) show False by auto
qed

lemma empty_root_distinct:
  assumes "mhash cr t = sha256 cr (encode_fields [str_bytes LabelMerkleNode])"
  shows "\<not> inj_on (sha256 cr) (insert (encode_fields [str_bytes LabelMerkleNode]) (preimages cr t))"
proof
  assume inj: "inj_on (sha256 cr) (insert (encode_fields [str_bytes LabelMerkleNode]) (preimages cr t))"
  define fs where "fs = root_fields cr t"
  have fs: "encode_fields fs \<in> preimages cr t" "mhash cr t = sha256 cr (encode_fields fs)"
    "list_all fits fs" "length fs \<noteq> 1"
    unfolding fs_def by (rule root_fields)+
  have "encode_fields [str_bytes LabelMerkleNode] = encode_fields fs"
    using fs(1,2) assms by (intro inj_onD [OF inj]) auto
  with empty_preimage_distinct [OF fs(3,4)] show False by simp
qed

lemma merkle_binding:
  assumes "MerkleRoot cr ls = Inr r" and "MerkleRoot cr ms = Inr r"
    and inj: "inj_on (sha256 cr) (merkle_preimages cr ls \<union> merkle_preimages cr ms)"
  shows "map leaf_key (sort_key l_Record ls) = map leaf_key (sort_key l_Record ms)"
proof (cases "ls = [] \<or> ms = []")
  case True
  have "ls = [] \<longleftrightarrow> ms = []"
    using assms True empty_root_distinct
    by (auto simp: MerkleRoot_eq merkle_preimages_def Un_commute insert_is_Un [symmetric] split: if_splits)
  with True show ?thesis by auto
next
  case False
  define t where "t = build (map (\<lambda>l. MLeaf (leaf_key l)) (sort_key l_Record ls))"
  define u where "u = build (map (\<lambda>l. MLeaf (leaf_key l)) (sort_key l_Record ms))"
  have "mhash cr t = mhash cr u"
    using assms(1,2) False by (simp add: MerkleRoot_eq t_def u_def split: if_splits)
  then have "t = u"
    using inj False by (intro mhash_inj) (simp_all add: merkle_preimages_def t_def u_def)
  then have "fringe t = fringe u" by simp
  with False show ?thesis by (simp add: t_def u_def fringe_leaves)
qed

section \<open>Properties\<close>

text \<open>The Merkle root depends on the set of leaves a device holds and not on their order.\<close>

theorem MerkleRoot_order_irrelevant:
  assumes "mset ls = mset ms"
  shows "MerkleRoot cr ls = MerkleRoot cr ms"
  using assms by (rule MerkleRoot_perm)

definition toy_sha :: "bytes \<Rightarrow> hash32" where
  "toy_sha bs =
    (if bs = encode_fields (leaf_fields (1, 1, 7)) then 1
     else if bs = encode_fields (leaf_fields (2, 1, 9)) then 2 else 3)"

definition toy_crypto :: crypto where
  "toy_crypto = \<lparr>sha256 = toy_sha, sha512 = (\<lambda>_. replicate 64 0), ed25519_Verify = (\<lambda>_ _ _. True)\<rparr>"

definition toy_leaf :: "ID \<Rightarrow> hash32 \<Rightarrow> Leaf" where
  "toy_leaf r d = \<lparr>l_Record = r, l_Version = 1, l_Digest = d, l_Deleted = False\<rparr>"

theorem MerkleRoot_order_irrelevant_witness:
  "MerkleRoot toy_crypto [toy_leaf 1 7, toy_leaf 2 9] = MerkleRoot toy_crypto [toy_leaf 2 9, toy_leaf 1 7]"
  by (rule MerkleRoot_order_irrelevant) simp

text \<open>The Merkle root commits to the whole state: two lists of leaves with one root hold the
  same records at the same versions with the same digests, provided SHA-256 has no collision among
  the byte strings the two computations hash.\<close>

theorem MerkleRoot_binding:
  assumes "MerkleRoot cr ls = Inr r" and "MerkleRoot cr ms = Inr r"
    and "inj_on (sha256 cr) (merkle_preimages cr ls \<union> merkle_preimages cr ms)"
  shows "mset (map leaf_key ls) = mset (map leaf_key ms)"
proof -
  have "mset (map leaf_key (sort_key l_Record ls)) = mset (map leaf_key (sort_key l_Record ms))"
    using merkle_binding [OF assms] by simp
  then show ?thesis by simp
qed

lemma toy_no_collision:
  "inj_on (sha256 toy_crypto) (merkle_preimages toy_crypto [toy_leaf 1 7, toy_leaf 2 9] \<union>
     merkle_preimages toy_crypto [toy_leaf 2 9, toy_leaf 1 7])"
proof -
  have "encode_fields (leaf_fields (1, 1, 7)) \<noteq> encode_fields (leaf_fields (2, 1, 9))"
    using leaf_fields_inj by fastforce
  then show ?thesis
    using leaf_node_fields leaf_node_fields [symmetric]
    by (simp add: merkle_preimages_def toy_leaf_def toy_crypto_def toy_sha_def leaf_key_def
        build.simps inj_on_def word_le_nat_alt del: encode_fields_simps)
qed

theorem MerkleRoot_binding_witness:
  "inj_on (sha256 toy_crypto) (merkle_preimages toy_crypto [toy_leaf 1 7, toy_leaf 2 9] \<union>
     merkle_preimages toy_crypto [toy_leaf 2 9, toy_leaf 1 7]) \<and>
   mset (map leaf_key [toy_leaf 1 7, toy_leaf 2 9]) = mset (map leaf_key [toy_leaf 2 9, toy_leaf 1 7])"
proof -
  obtain r where r: "MerkleRoot toy_crypto [toy_leaf 1 7, toy_leaf 2 9] = Inr r"
    by (simp add: MerkleRoot_eq toy_leaf_def)
  then have "MerkleRoot toy_crypto [toy_leaf 2 9, toy_leaf 1 7] = Inr r"
    by (subst MerkleRoot_perm [of _ "[toy_leaf 1 7, toy_leaf 2 9]"]) simp_all
  with r toy_no_collision show ?thesis
    using MerkleRoot_binding by blast
qed

text \<open>A state that holds one record twice has no root: it is refused with \<open>ErrDuplicateLeaf\<close>,
  and that is the only refusal.\<close>

theorem MerkleRoot_duplicate:
  "MerkleRoot cr ls = Inl e \<longleftrightarrow> e = [ErrDuplicateLeaf] \<and> \<not> distinct (map l_Record ls)"
  by (auto simp: MerkleRoot_eq)

end
