(* ===== verification/Head_Chain.thy ===== *)
theory Head_Chain
  imports Suite Hash_Log
begin

text \<open>
  Vault heads and the chain cursor a client keeps between syncs (\<open>head.go\<close>). The chain is a
  hash-linked log whose entries are whole heads, signature included: the interpretation
  \<open>head_log\<close> of the interface \<open>hash_log\<close> gives that a verified cursor determines the history
  behind it.
\<close>

record Head =
  h_Vault :: ID
  h_Seq :: u64
  h_PrevHash :: hash32
  h_MerkleRoot :: hash32
  h_CurrentEpoch :: u32
  h_MembershipSeq :: u64
  h_MembershipHead :: hash32
  h_Commit :: ID
  h_Author :: ID
  h_ClientTimeUnixMilli :: u64
  h_SigAlg :: SigAlg
  h_Sig :: bytes

definition Head_SigningBytes :: "Head \<Rightarrow> bytes result" where
  "Head_SigningBytes h =
    canon_Encoded (canon_chain
      [canon_ID (h_Vault h), canon_U64 (h_Seq h), canon_Hash (h_PrevHash h),
       canon_Hash (h_MerkleRoot h), canon_U32 (h_CurrentEpoch h), canon_U64 (h_MembershipSeq h),
       canon_Hash (h_MembershipHead h), canon_ID (h_Commit h), canon_ID (h_Author h),
       canon_U64 (h_ClientTimeUnixMilli h), canon_U16 (h_SigAlg h)]
      (NewCanon LabelHeadSig))"

definition Head_Hash :: "crypto \<Rightarrow> Head \<Rightarrow> hash32 result" where
  "Head_Hash cr h =
    (case Head_SigningBytes h of
       Inl err \<Rightarrow> Inl err
     | Inr msg \<Rightarrow>
         canon_Sum cr (canon_chain [canon_Bytes msg, canon_Bytes (h_Sig h)] (NewCanon LabelHeadHash)))"

definition Head_Verify :: "crypto \<Rightarrow> Head \<Rightarrow> bytes \<Rightarrow> go_error option" where
  "Head_Verify cr h publicKey =
    (case Head_SigningBytes h of
       Inl err \<Rightarrow> Some err
     | Inr msg \<Rightarrow> VerifySignature cr (h_SigAlg h) publicKey msg (h_Sig h))"

record ChainCursor =
  cur_Seq :: u64
  cur_Hash :: hash32
  cur_MembershipSeq :: u64

definition GenesisCursor :: "crypto \<Rightarrow> ID \<Rightarrow> ChainCursor result" where
  "GenesisCursor cr vault =
    (case canon_Sum cr (canon_chain [canon_ID vault] (NewCanon LabelHeadHash)) of
       Inl err \<Rightarrow> Inl err
     | Inr h \<Rightarrow> Inr \<lparr>cur_Seq = 0, cur_Hash = h, cur_MembershipSeq = 0\<rparr>)"

definition VerifyLink :: "ChainCursor \<Rightarrow> Head \<Rightarrow> go_error option" where
  "VerifyLink cur next =
    (if h_Seq next \<noteq> cur_Seq cur + 1 then Some [ErrChainBroken]
     else if h_PrevHash next \<noteq> cur_Hash cur then Some [ErrChainBroken]
     else if h_MembershipSeq next < cur_MembershipSeq cur then Some [ErrMembershipRegressed]
     else None)"

definition Advance :: "crypto \<Rightarrow> ChainCursor \<Rightarrow> Head \<Rightarrow> ChainCursor result" where
  "Advance cr c next =
    (case VerifyLink c next of
       Some err \<Rightarrow> Inl err
     | None \<Rightarrow>
         (case Head_Hash cr next of
            Inl err \<Rightarrow> Inl err
          | Inr h \<Rightarrow> Inr \<lparr>cur_Seq = h_Seq next, cur_Hash = h, cur_MembershipSeq = h_MembershipSeq next\<rparr>))"

fun AdvanceAll :: "crypto \<Rightarrow> ChainCursor \<Rightarrow> Head list \<Rightarrow> ChainCursor result" where
  "AdvanceAll cr c [] = Inr c"
| "AdvanceAll cr c (h # hs) =
    (case Advance cr c h of Inl err \<Rightarrow> Inl err | Inr c' \<Rightarrow> AdvanceAll cr c' hs)"

definition CheckObserved :: "ChainCursor \<Rightarrow> u64 \<Rightarrow> hash32 \<Rightarrow> go_error option" where
  "CheckObserved cur seq hash =
    (if seq < cur_Seq cur then Some [ErrRollback]
     else if seq = cur_Seq cur \<and> hash \<noteq> cur_Hash cur then Some [ErrFork]
     else None)"

section \<open>Lemmas\<close>

definition head_fields :: "Head \<Rightarrow> bytes list" where
  "head_fields h =
    [str_bytes LabelHeadSig, be_bytes (h_Vault h), be_bytes (h_Seq h), be_bytes (h_PrevHash h),
     be_bytes (h_MerkleRoot h), be_bytes (h_CurrentEpoch h), be_bytes (h_MembershipSeq h),
     be_bytes (h_MembershipHead h), be_bytes (h_Commit h), be_bytes (h_Author h),
     be_bytes (h_ClientTimeUnixMilli h), be_bytes (h_SigAlg h)]"

definition head_preimage :: "Head \<Rightarrow> bytes" where
  "head_preimage h = encode_fields [str_bytes LabelHeadHash, encode_fields (head_fields h), h_Sig h]"

definition head_fits :: "Head \<Rightarrow> bool" where
  "head_fits h \<longleftrightarrow> fits (encode_fields (head_fields h)) \<and> fits (h_Sig h)"

definition genesis_preimage :: "ID \<Rightarrow> bytes" where
  "genesis_preimage vault = encode_fields [str_bytes LabelHeadHash, be_bytes vault]"

lemma head_fields_fit [simp]: "list_all fits (head_fields h)"
  by (simp add: head_fields_def)

lemma Head_SigningBytes_eq: "Head_SigningBytes h = Inr (encode_fields (head_fields h))"
  using head_fields_fit [of h]
  by (simp add: Head_SigningBytes_def canon_unfold canon_result_def head_fields_def)

lemma Head_Hash_eq:
  "Head_Hash cr h = (if head_fits h then Inr (sha256 cr (head_preimage h)) else Inl [ErrFieldTooLarge])"
  by (simp add: Head_Hash_def Head_SigningBytes_eq canon_unfold canon_digest_def head_preimage_def head_fits_def)

lemma GenesisCursor_eq:
  "GenesisCursor cr vault = Inr \<lparr>cur_Seq = 0, cur_Hash = sha256 cr (genesis_preimage vault), cur_MembershipSeq = 0\<rparr>"
  by (simp add: GenesisCursor_def canon_unfold canon_digest_def genesis_preimage_def)

lemma VerifyLink_None [result_simps]:
  "VerifyLink c h = None \<longleftrightarrow>
    h_Seq h = cur_Seq c + 1 \<and> h_PrevHash h = cur_Hash c \<and> cur_MembershipSeq c \<le> h_MembershipSeq h"
  by (auto simp: VerifyLink_def)

lemma VerifyLink_integrity: "VerifyLink c h = Some e \<Longrightarrow> is_integrity e"
  by (auto simp: VerifyLink_def split: if_splits)

lemma Advance_Inr [result_simps]:
  "Advance cr c h = Inr c' \<longleftrightarrow>
    VerifyLink c h = None \<and> head_fits h \<and>
    c' = \<lparr>cur_Seq = h_Seq h, cur_Hash = sha256 cr (head_preimage h), cur_MembershipSeq = h_MembershipSeq h\<rparr>"
  by (auto simp: Advance_def Head_Hash_eq split: option.splits)

lemma AdvanceAll_replay: "AdvanceAll cr c hs = replay (Advance cr) c hs"
  by (induction cr c hs rule: AdvanceAll.induct) (auto split: sum.splits)

lemma head_fields_inj: "head_fields h = head_fields k \<Longrightarrow> h_Sig h = h_Sig k \<Longrightarrow> h = k"
  by (cases h; cases k) (simp add: head_fields_def byte_simps)

lemma head_preimage_inj:
  assumes "head_preimage h = head_preimage k" and "head_fits h" and "head_fits k"
  shows "h = k"
proof -
  have "[str_bytes LabelHeadHash, encode_fields (head_fields h), h_Sig h] =
      [str_bytes LabelHeadHash, encode_fields (head_fields k), h_Sig k]"
    using assms by (intro encode_fields_inj) (simp_all add: head_preimage_def head_fits_def)
  then show ?thesis
    using encode_fields_inj [of "head_fields h" "head_fields k"] head_fields_inj by simp
qed

lemma head_preimage_not_genesis: "head_fits h \<Longrightarrow> head_preimage h \<noteq> genesis_preimage v"
  using encode_fields_inj [of "[str_bytes LabelHeadHash, encode_fields (head_fields h), h_Sig h]"
      "[str_bytes LabelHeadHash, be_bytes v]"]
  by (auto simp: head_preimage_def genesis_preimage_def head_fits_def)

interpretation head_log: hash_log
  "Advance cr" cur_Hash h_PrevHash head_preimage "range genesis_preimage" "sha256 cr" "\<lambda>h. h" head_fits
  for cr
proof unfold_locales
  fix h k :: Head
  assume "head_fits h" "head_fits k" "head_preimage h = head_preimage k"
  then show "h = k \<and> h_PrevHash h = h_PrevHash k"
    using head_preimage_inj by blast
qed (auto simp: Advance_Inr VerifyLink_None head_preimage_not_genesis)

lemma AdvanceAll_cursor:
  "AdvanceAll cr c hs = Inr d \<Longrightarrow>
    cur_Seq d = cur_Seq c + word_of_nat (length hs) \<and> cur_MembershipSeq c \<le> cur_MembershipSeq d"
proof (induction cr c hs rule: AdvanceAll.induct)
  case (2 cr c h hs)
  then obtain c' where c': "Advance cr c h = Inr c'" "AdvanceAll cr c' hs = Inr d"
    by (auto split: sum.splits)
  then have "cur_Seq d = cur_Seq c' + word_of_nat (length hs)" "cur_MembershipSeq c' \<le> cur_MembershipSeq d"
    using 2 by auto
  with c'(1) show ?case by (auto simp: Advance_Inr VerifyLink_None)
qed simp

lemma chain_binding:
  assumes "GenesisCursor cr vault = Inr g"
    and "AdvanceAll cr g hs = Inr c" and "AdvanceAll cr g ks = Inr d" and "cur_Hash c = cur_Hash d"
    and "inj_on (sha256 cr) (insert (genesis_preimage vault) (head_preimage ` (set hs \<union> set ks)))"
  shows "hs = ks"
proof -
  have tip: "cur_Hash g = sha256 cr (genesis_preimage vault)"
    using assms(1) by (auto simp: GenesisCursor_eq)
  have "map (\<lambda>h. h) hs = map (\<lambda>h. h) ks"
    using head_log.binding [OF tip rangeI assms(2,3) [unfolded AdvanceAll_replay] assms(4,5)] .
  then show ?thesis by simp
qed

section \<open>Properties\<close>

text \<open>A verified cursor determines the whole history behind it: if two devices walk heads from
  the vault's genesis and the head one of them reports passes the other's check at the same
  position, both walked the same heads, signatures included - a server that forks the history is
  seen. SHA-256 must have no collision among the bytes the two walks hash.\<close>

theorem observed_head_same_history:
  assumes "GenesisCursor cr vault = Inr g"
    and "AdvanceAll cr g hs = Inr c" and "AdvanceAll cr g ks = Inr d"
    and "cur_Seq d = cur_Seq c" and "CheckObserved c (cur_Seq d) (cur_Hash d) = None"
    and "inj_on (sha256 cr) (insert (genesis_preimage vault) (head_preimage ` (set hs \<union> set ks)))"
  shows "hs = ks"
proof -
  have "cur_Hash c = cur_Hash d"
    using assms(4,5) by (auto simp: CheckObserved_def split: if_splits)
  with assms show ?thesis by (intro chain_binding)
qed

definition chain_crypto :: crypto where
  "chain_crypto = \<lparr>sha256 = (\<lambda>bs. if bs = genesis_preimage 5 then 1 else 2),
     sha512 = (\<lambda>_. replicate 64 0), ed25519_Verify = (\<lambda>_ _ _. True)\<rparr>"

definition sample_head :: Head where
  "sample_head = \<lparr>h_Vault = 5, h_Seq = 1, h_PrevHash = 1,
     h_MerkleRoot = 0, h_CurrentEpoch = 0, h_MembershipSeq = 1, h_MembershipHead = 0, h_Commit = 8,
     h_Author = 6, h_ClientTimeUnixMilli = 0, h_SigAlg = 1, h_Sig = replicate 64 0\<rparr>"

lemma sample_head_fits: "head_fits sample_head"
  by (simp add: head_fits_def fits_def head_fields_def label_defs MaxUint32_def sample_head_def)

lemma sample_walk:
  "GenesisCursor chain_crypto 5 = Inr \<lparr>cur_Seq = 0, cur_Hash = 1, cur_MembershipSeq = 0\<rparr>"
  "AdvanceAll chain_crypto \<lparr>cur_Seq = 0, cur_Hash = 1, cur_MembershipSeq = 0\<rparr> [sample_head] =
     Inr \<lparr>cur_Seq = 1, cur_Hash = 2, cur_MembershipSeq = 1\<rparr>"
  using sample_head_fits head_preimage_not_genesis [OF sample_head_fits, of 5]
  by (simp_all add: GenesisCursor_eq chain_crypto_def Advance_def Head_Hash_eq VerifyLink_def sample_head_def)

theorem observed_head_same_history_witness:
  "CheckObserved \<lparr>cur_Seq = 1, cur_Hash = 2, cur_MembershipSeq = 1\<rparr> 1 2 = None \<and>
   inj_on (sha256 chain_crypto) (insert (genesis_preimage 5) (head_preimage ` (set [sample_head] \<union> set [sample_head]))) \<and>
   [sample_head] = [sample_head]"
proof -
  have inj: "inj_on (sha256 chain_crypto) (insert (genesis_preimage 5) (head_preimage ` (set [sample_head] \<union> set [sample_head])))"
    using head_preimage_not_genesis [OF sample_head_fits, of 5] by (simp add: chain_crypto_def)
  have ok: "CheckObserved \<lparr>cur_Seq = 1, cur_Hash = 2, cur_MembershipSeq = 1\<rparr> 1 2 = None"
    by (simp add: CheckObserved_def)
  show ?thesis
    using observed_head_same_history [OF sample_walk(1) sample_walk(2) sample_walk(2) refl _ inj] ok inj by simp
qed

text \<open>Walking heads moves the cursor forward one position per head and never back in the
  membership log.\<close>

theorem AdvanceAll_progress:
  assumes "AdvanceAll cr c hs = Inr d"
  shows "cur_Seq d = cur_Seq c + word_of_nat (length hs) \<and> cur_MembershipSeq c \<le> cur_MembershipSeq d"
  using assms by (rule AdvanceAll_cursor)

theorem AdvanceAll_progress_witness:
  "AdvanceAll chain_crypto \<lparr>cur_Seq = 0, cur_Hash = 1, cur_MembershipSeq = 0\<rparr> [sample_head] =
     Inr \<lparr>cur_Seq = 1, cur_Hash = 2, cur_MembershipSeq = 1\<rparr> \<and> (1 :: u64) = 0 + word_of_nat (length [sample_head])"
  using sample_walk(2) AdvanceAll_progress [OF sample_walk(2)] by simp

end
