(* ===== verification/Retention.thy ===== *)
theory Retention
  imports Sync_Errors
begin

text \<open>
  Retention windows and epoch retirement (\<open>retention.go\<close>). Times are 64-bit millisecond counts kept
  at their width; \<open>elapsed_nat\<close> and \<open>unat_windowMillis\<close> show that no subtraction or product of
  this file wraps around, so the predicates mean what they say over the natural numbers.
\<close>

definition DefaultRetentionDays :: u16 where "DefaultRetentionDays = 30"
definition MaxRetentionDays :: u16 where "MaxRetentionDays = 365"

record Rotation =
  r_Epoch :: u32
  r_StartedUnixMilli :: u64
  r_Shred :: bool

definition dayMillis :: u64 where "dayMillis = 24 * 60 * 60 * 1000"

definition windowMillis :: "u16 \<Rightarrow> u64" where
  "windowMillis days = ucast days * dayMillis"

definition elapsed :: "u64 \<Rightarrow> u64 \<Rightarrow> u64 \<Rightarrow> bool" where
  "elapsed start now d \<longleftrightarrow> now \<ge> start \<and> now - start \<ge> d"

text \<open>The loop of \<open>EpochRetired\<close>, with its variable \<open>succeeded\<close>.\<close>

fun retired_loop :: "u32 \<Rightarrow> u16 \<Rightarrow> u64 \<Rightarrow> Rotation list \<Rightarrow> bool \<Rightarrow> bool" where
  "retired_loop epoch days now [] succeeded = succeeded"
| "retired_loop epoch days now (r # rs) succeeded =
    (if r_Epoch r \<le> epoch then retired_loop epoch days now rs succeeded
     else if r_Shred r then True
     else if r_Epoch r = epoch + 1
       then retired_loop epoch days now rs (elapsed (r_StartedUnixMilli r) now (windowMillis days))
     else retired_loop epoch days now rs succeeded)"

definition EpochRetired :: "u32 \<Rightarrow> Rotation list \<Rightarrow> (u32 \<Rightarrow> bool) \<Rightarrow> u16 \<Rightarrow> u64 \<Rightarrow> bool" where
  "EpochRetired epoch rotations inUse retentionDays nowUnixMilli =
    (if inUse epoch then False else retired_loop epoch retentionDays nowUnixMilli rotations False)"

definition RetiredEpochs :: "Rotation list \<Rightarrow> (u32 \<Rightarrow> bool) \<Rightarrow> u16 \<Rightarrow> u64 \<Rightarrow> u32 list" where
  "RetiredEpochs rotations inUse retentionDays nowUnixMilli =
    map r_Epoch (filter (\<lambda>r. EpochRetired (r_Epoch r) rotations inUse retentionDays nowUnixMilli) rotations)"

definition PurgeDue :: "u64 \<Rightarrow> u16 \<Rightarrow> u64 \<Rightarrow> bool" where
  "PurgeDue deletedUnixMilli retentionDays nowUnixMilli =
    elapsed deletedUnixMilli nowUnixMilli (windowMillis retentionDays)"

definition RotationDue :: "u64 \<Rightarrow> bool \<Rightarrow> u16 \<Rightarrow> u64 \<Rightarrow> bool" where
  "RotationDue lastRotationUnixMilli changedSince retentionDays nowUnixMilli =
    (if \<not> changedSince \<or> retentionDays = 0 then False
     else elapsed lastRotationUnixMilli nowUnixMilli (windowMillis retentionDays div 2))"

section \<open>No wrap-around\<close>

lemma unat_windowMillis: "unat (windowMillis days) = unat days * 86400000"
proof -
  have "unat days < 2 ^ 16" using unsigned_less [of days] by simp
  then have lt: "unat days * 86400000 < 2 ^ 64" by simp
  have "unat (ucast days :: u64) = unat days"
    using \<open>unat days < 2 ^ 16\<close> by (simp add: unsigned_ucast_eq take_bit_eq_mod)
  moreover have "unat dayMillis = 86400000" by (simp add: dayMillis_def)
  ultimately show ?thesis
    using lt by (simp add: windowMillis_def unat_word_ariths)
qed

lemma elapsed_nat: "elapsed start now d \<longleftrightarrow> unat start + unat d \<le> unat now"
proof (cases "start \<le> now")
  case True
  then have "unat (now - start) = unat now - unat start" by (rule unat_sub)
  with True show ?thesis by (auto simp: elapsed_def word_le_nat_alt)
qed (auto simp: elapsed_def word_le_nat_alt)

section \<open>Retirement\<close>

definition successor_elapsed :: "u32 \<Rightarrow> u16 \<Rightarrow> u64 \<Rightarrow> Rotation \<Rightarrow> bool" where
  "successor_elapsed epoch days now r \<longleftrightarrow>
    unat (r_Epoch r) = unat epoch + 1 \<and> unat (r_StartedUnixMilli r) + unat days * 86400000 \<le> unat now"

lemma succ_epoch:
  assumes "(epoch :: u32) < e"
  shows "e = epoch + 1 \<longleftrightarrow> unat e = unat epoch + 1"
proof -
  have "unat epoch + 1 < 2 ^ 32"
    using assms unat_u32_lt [of e] by (simp add: word_less_nat_alt)
  then have "unat (epoch + 1) = unat epoch + 1"
    by (simp add: unat_word_ariths)
  then show ?thesis by (simp add: word_unat_eq_iff)
qed

lemma retired_loop_eq:
  "distinct (map r_Epoch rs) \<Longrightarrow>
   retired_loop epoch days now rs succ \<longleftrightarrow>
    list_ex (\<lambda>r. epoch < r_Epoch r \<and> r_Shred r) rs \<or>
    (if list_ex (\<lambda>r. unat (r_Epoch r) = unat epoch + 1) rs
     then list_ex (successor_elapsed epoch days now) rs else succ)"
proof (induction epoch days now rs succ rule: retired_loop.induct)
  case (2 epoch days now r rs succ)
  have uniq: "\<not> list_ex (\<lambda>q. unat (r_Epoch q) = unat epoch + 1) rs" if "unat (r_Epoch r) = unat epoch + 1"
    using "2.prems" that by (auto simp: list_ex_iff image_iff word_unat_eq_iff)
  then have none: "\<not> list_ex (successor_elapsed epoch days now) rs" if "unat (r_Epoch r) = unat epoch + 1"
    using that by (auto simp: list_ex_iff successor_elapsed_def)
  show ?case
  proof (cases "r_Epoch r \<le> epoch")
    case True
    then have "unat (r_Epoch r) \<noteq> unat epoch + 1" by (simp add: word_le_nat_alt)
    with True 2 show ?thesis by (auto simp: successor_elapsed_def)
  next
    case False
    then have "epoch < r_Epoch r" by simp
    note succ_epoch [OF this]
    with False 2 uniq none show ?thesis
      by (auto simp: successor_elapsed_def elapsed_nat unat_windowMillis)
  qed
qed simp

lemma EpochRetired_eq:
  assumes "distinct (map r_Epoch rs)"
  shows "EpochRetired epoch rs inUse days now \<longleftrightarrow>
    \<not> inUse epoch \<and>
    (list_ex (\<lambda>r. epoch < r_Epoch r \<and> r_Shred r) rs \<or> list_ex (successor_elapsed epoch days now) rs)"
proof -
  have "list_ex (successor_elapsed epoch days now) rs \<Longrightarrow> list_ex (\<lambda>r. unat (r_Epoch r) = unat epoch + 1) rs"
    by (auto simp: list_ex_iff successor_elapsed_def)
  then show ?thesis using assms by (auto simp: EpochRetired_def retired_loop_eq)
qed

lemma RetiredEpochs_set:
  "set (RetiredEpochs rs inUse days now) = {e \<in> r_Epoch ` set rs. EpochRetired e rs inUse days now}"
  by (auto simp: RetiredEpochs_def)

section \<open>Properties\<close>

text \<open>An epoch retires exactly when no current version uses it and either a later rotation was a
  shred or the full retention window has passed since the rotation to the next epoch, in exact
  arithmetic: no clock value makes the 64-bit computation wrap and retire a key early.\<close>

theorem EpochRetired_exact:
  assumes "distinct (map r_Epoch rs)"
  shows "EpochRetired epoch rs inUse days now \<longleftrightarrow>
    \<not> inUse epoch \<and>
    ((\<exists>r \<in> set rs. epoch < r_Epoch r \<and> r_Shred r) \<or>
     (\<exists>r \<in> set rs. unat (r_Epoch r) = unat epoch + 1 \<and>
        unat (r_StartedUnixMilli r) + unat days * 86400000 \<le> unat now))"
  using EpochRetired_eq [OF assms] by (simp add: list_ex_iff successor_elapsed_def)

theorem EpochRetired_exact_witness:
  "EpochRetired 0 [\<lparr>r_Epoch = 0, r_StartedUnixMilli = 5, r_Shred = False\<rparr>,
       \<lparr>r_Epoch = 1, r_StartedUnixMilli = 10, r_Shred = False\<rparr>] (\<lambda>_. False) 1 86400010 \<and>
   \<not> EpochRetired 1 [\<lparr>r_Epoch = 0, r_StartedUnixMilli = 5, r_Shred = False\<rparr>,
       \<lparr>r_Epoch = 1, r_StartedUnixMilli = 10, r_Shred = False\<rparr>] (\<lambda>_. False) 1 86400010"
proof -
  have "distinct (map r_Epoch [\<lparr>r_Epoch = 0, r_StartedUnixMilli = 5, r_Shred = False\<rparr>,
       \<lparr>r_Epoch = 1, r_StartedUnixMilli = 10, r_Shred = False\<rparr>])" by simp
  from EpochRetired_exact [OF this] show ?thesis by simp
qed

end
