(* ===== verification/Membership.thy ===== *)
theory Membership
  imports Suite Hash_Log Retention
begin

text \<open>
  A vault's membership log (\<open>membership_op.go\<close>, \<open>membership_rules.go\<close>, \<open>membership_state.go\<close>).
  Roles and operation kinds are open 8-bit integers in the code and stay so here, so the branches
  for unknown kinds and out-of-range roles are real. \<open>MembershipState_Apply\<close> works on a copy and
  replaces the receiver's state only at the end; Go's maps are values here, so the copy is the
  value itself. Reading the last of an empty list of rotations, which panics in Go, is the error
  \<open>ErrForeign ''panic''\<close>; the invariant shows it unreachable.
\<close>

section \<open>Operations\<close>

type_synonym Role = u8

definition RoleNone :: Role where "RoleNone = 0"
definition RoleViewer :: Role where "RoleViewer = 1"
definition RoleEditor :: Role where "RoleEditor = 2"
definition RoleAdmin :: Role where "RoleAdmin = 3"
definition RoleOwner :: Role where "RoleOwner = 4"

lemmas role_defs = RoleNone_def RoleViewer_def RoleEditor_def RoleAdmin_def RoleOwner_def

definition CanWrite :: "Role \<Rightarrow> bool" where "CanWrite r \<longleftrightarrow> r \<ge> RoleEditor"
definition CanManage :: "Role \<Rightarrow> bool" where "CanManage r \<longleftrightarrow> r \<ge> RoleAdmin"

definition MemberCreate :: u8 where "MemberCreate = 1"
definition MemberAdd :: u8 where "MemberAdd = 2"
definition MemberChangeRole :: u8 where "MemberChangeRole = 3"
definition MemberRemove :: u8 where "MemberRemove = 4"
definition MemberRotateEpoch :: u8 where "MemberRotateEpoch = 5"
definition MemberRewrap :: u8 where "MemberRewrap = 6"
definition MemberSetPolicy :: u8 where "MemberSetPolicy = 7"
definition MemberTransferOwnership :: u8 where "MemberTransferOwnership = 8"
definition MemberDeleteVault :: u8 where "MemberDeleteVault = 9"

lemmas kind_defs =
  MemberCreate_def MemberAdd_def MemberChangeRole_def MemberRemove_def MemberRotateEpoch_def
  MemberRewrap_def MemberSetPolicy_def MemberTransferOwnership_def MemberDeleteVault_def

record KeyWrap =
  w_Member :: ID
  w_Digest :: hash32
  w_Recipient :: hash32
  w_Ciphertext :: bytes

definition EncryptionDigest :: "crypto \<Rightarrow> bytes \<Rightarrow> hash32 result" where
  "EncryptionDigest cr key = canon_Sum cr (canon_chain [canon_Bytes key] (NewCanon LabelEncryptionDigest))"

definition wrapDigest :: "crypto \<Rightarrow> bytes \<Rightarrow> hash32 result" where
  "wrapDigest cr ciphertext = canon_Sum cr (canon_chain [canon_Bytes ciphertext] (NewCanon LabelVKWrapDigest))"

definition NewKeyWrap :: "crypto \<Rightarrow> ID \<Rightarrow> bytes \<Rightarrow> bytes \<Rightarrow> KeyWrap result" where
  "NewKeyWrap cr member recipientKey ciphertext =
    (if length ciphertext = 0 then Inl [ErrMembership]
     else (case wrapDigest cr ciphertext of
         Inl err \<Rightarrow> Inl err
       | Inr d \<Rightarrow>
           (case EncryptionDigest cr recipientKey of
              Inl err \<Rightarrow> Inl err
            | Inr r \<Rightarrow> Inr \<lparr>w_Member = member, w_Digest = d, w_Recipient = r, w_Ciphertext = ciphertext\<rparr>)))"

definition Pruned :: "KeyWrap \<Rightarrow> bool" where
  "Pruned w \<longleftrightarrow> length (w_Ciphertext w) = 0"

definition Strip :: "KeyWrap \<Rightarrow> KeyWrap" where
  "Strip w = \<lparr>w_Member = w_Member w, w_Digest = w_Digest w, w_Recipient = w_Recipient w, w_Ciphertext = []\<rparr>"

record MemberOp =
  o_Vault :: ID
  o_Seq :: u64
  o_Prev :: hash32
  o_Kind :: u8
  o_Author :: ID
  o_AuthorDevice :: ID
  o_Subject :: ID
  o_Role :: Role
  o_Verified :: bool
  o_Fingerprint :: hash32
  o_Suite :: SuiteID
  o_Epoch :: u32
  o_Wraps :: "KeyWrap list"
  o_RevokedDevices :: "ID list"
  o_RetentionDays :: u16
  o_RequireVerified :: bool
  o_Shred :: bool
  o_TimeUnixMilli :: u64
  o_SigAlg :: SigAlg
  o_Sig :: bytes

definition canon_wrap :: "KeyWrap \<Rightarrow> canon \<Rightarrow> canon" where
  "canon_wrap w = canon_chain [canon_ID (w_Member w), canon_Hash (w_Digest w), canon_Hash (w_Recipient w)]"

definition MemberOp_SigningBytes :: "MemberOp \<Rightarrow> bytes result" where
  "MemberOp_SigningBytes op =
    (let c = canon_chain
           [canon_ID (o_Vault op), canon_U64 (o_Seq op), canon_Hash (o_Prev op),
            canon_U16 (ucast (o_Kind op)), canon_ID (o_Author op), canon_ID (o_AuthorDevice op),
            canon_ID (o_Subject op), canon_U16 (ucast (o_Role op)), canon_Bool (o_Verified op),
            canon_Hash (o_Fingerprint op), canon_U16 (o_Suite op), canon_U32 (o_Epoch op)]
           (NewCanon LabelMemberSig);
         c = canon_U64 (word_of_nat (length (o_Wraps op))) c;
         c = fold canon_wrap (o_Wraps op) c;
         c = canon_chain
           [canon_IDs (o_RevokedDevices op), canon_U16 (o_RetentionDays op),
            canon_Bool (o_RequireVerified op), canon_Bool (o_Shred op),
            canon_U64 (o_TimeUnixMilli op), canon_U16 (o_SigAlg op)] c
     in canon_Encoded c)"

definition MemberOp_hash :: "crypto \<Rightarrow> MemberOp \<Rightarrow> bytes \<Rightarrow> hash32 result" where
  "MemberOp_hash cr op msg =
    canon_Sum cr (canon_chain [canon_Bytes msg, canon_Bytes (o_Sig op)] (NewCanon LabelMemberHash))"

section \<open>State\<close>

record MembershipState =
  ms_vault :: ID
  ms_seq :: u64
  ms_hash :: hash32
  ms_members :: "(ID, Role) go_map"
  ms_owner :: ID
  ms_creator :: ID
  ms_fingerprints :: "(ID, hash32) go_map"
  ms_epoch :: u32
  ms_revoked :: "ID go_set"
  ms_retentionDays :: u16
  ms_requireVerified :: bool
  ms_deleted :: bool
  ms_pendingRotation :: bool
  ms_rotations :: "Rotation list"
  ms_shredSeq :: u64
  ms_params :: SuiteParams

text \<open>The zero value of \<open>SuiteParams\<close>.\<close>

definition zero_params :: SuiteParams where
  "zero_params =
    \<lparr>sp_ID = 0, sp_Argon2 = \<lparr>MemoryKiB = 0, Iterations = 0, Threads = 0, KeyLen = 0\<rparr>,
     WrappedDEKSize = 0, AEADOverhead = 0, SigningKeySize = 0, EncryptionKeySize = 0, VKWrapSize = 0\<rparr>"

definition NewMembershipState :: "crypto \<Rightarrow> ID \<Rightarrow> MembershipState result" where
  "NewMembershipState cr vault =
    (case canon_Sum cr (canon_chain [canon_ID vault] (NewCanon LabelMemberHash)) of
       Inl err \<Rightarrow> Inl err
     | Inr genesis \<Rightarrow> Inr
         \<lparr>ms_vault = vault, ms_seq = 0, ms_hash = genesis, ms_members = fmempty, ms_owner = 0,
          ms_creator = 0, ms_fingerprints = fmempty, ms_epoch = 0, ms_revoked = {||},
          ms_retentionDays = 0, ms_requireVerified = False, ms_deleted = False,
          ms_pendingRotation = False, ms_rotations = [], ms_shredSeq = 0, ms_params = zero_params\<rparr>)"

text \<open>A missing key reads as the zero role.\<close>

definition MembershipState_Role :: "MembershipState \<Rightarrow> ID \<Rightarrow> Role" where
  "MembershipState_Role s account = (case fmlookup (ms_members s) account of None \<Rightarrow> RoleNone | Some r \<Rightarrow> r)"

definition MemberFingerprint :: "MembershipState \<Rightarrow> ID \<Rightarrow> hash32 \<times> bool" where
  "MemberFingerprint s account =
    (case fmlookup (ms_fingerprints s) account of
       None \<Rightarrow> (0, False)
     | Some fp \<Rightarrow> (fp, MembershipState_Role s account \<noteq> RoleNone))"

definition IsDeviceRevoked :: "MembershipState \<Rightarrow> ID \<Rightarrow> bool" where
  "IsDeviceRevoked s device \<longleftrightarrow> device |\<in>| ms_revoked s"

definition Members :: "MembershipState \<Rightarrow> ID list" where
  "Members s = sorted_list_of_fset (fmdom (ms_members s))"

section \<open>Rules\<close>

definition requireManage :: "MembershipState \<Rightarrow> MemberOp \<Rightarrow> go_error option" where
  "requireManage s op =
    (if \<not> CanManage (MembershipState_Role s (o_Author op)) then Some [ErrNotAuthorized] else None)"

definition requireOwner :: "MembershipState \<Rightarrow> MemberOp \<Rightarrow> go_error option" where
  "requireOwner s op =
    (if MembershipState_Role s (o_Author op) \<noteq> RoleOwner then Some [ErrNotAuthorized] else None)"

definition checkWrapContent :: "crypto \<Rightarrow> MembershipState \<Rightarrow> KeyWrap \<Rightarrow> go_error option" where
  "checkWrapContent cr s w =
    (if Pruned w then None
     else if length (w_Ciphertext w) \<noteq> VKWrapSize (ms_params s) then Some [ErrMembership]
     else (case wrapDigest cr (w_Ciphertext w) of
         Inl err \<Rightarrow> Some err
       | Inr d \<Rightarrow> if d \<noteq> w_Digest w then Some [ErrMembership] else None))"

fun wrap_loop :: "crypto \<Rightarrow> MembershipState \<Rightarrow> KeyWrap list \<Rightarrow> ID go_set \<Rightarrow> go_error option" where
  "wrap_loop cr s [] wanted = None"
| "wrap_loop cr s (w # ws) wanted =
    (if w_Member w |\<notin>| wanted then Some [ErrMembership]
     else (case checkWrapContent cr s w of
         Some err \<Rightarrow> Some err
       | None \<Rightarrow> wrap_loop cr s ws (wanted |-| {|w_Member w|})))"

definition checkWraps :: "crypto \<Rightarrow> MembershipState \<Rightarrow> KeyWrap list \<Rightarrow> ID list \<Rightarrow> go_error option" where
  "checkWraps cr s wraps want =
    (if length wraps \<noteq> length want then Some [ErrMembership]
     else wrap_loop cr s wraps (fset_of_list want))"

definition CheckNextEpoch :: "u32 \<Rightarrow> go_error option" where
  "CheckNextEpoch current = (if current = word_of_nat 4294967295 then Some [ErrMembership] else None)"

definition validRetention :: "u16 \<Rightarrow> go_error option" where
  "validRetention days = (if days > MaxRetentionDays then Some [ErrMembership] else None)"

definition assignableRole :: "Role \<Rightarrow> bool" where
  "assignableRole r \<longleftrightarrow> r \<ge> RoleViewer \<and> r \<le> RoleAdmin"

text \<open>Each rule runs on the copy; on an error the copy is dropped, so a rule returns the error or the
  changed copy.\<close>

definition applyCreate :: "crypto \<Rightarrow> MembershipState \<Rightarrow> MemberOp \<Rightarrow> MembershipState result" where
  "applyCreate cr s op =
    (if o_Epoch op \<noteq> 0 then Inl [ErrMembership]
     else (case validRetention (o_RetentionDays op) of
         Some err \<Rightarrow> Inl err
       | None \<Rightarrow>
           (case checkWraps cr s (o_Wraps op) [o_Author op] of
              Some err \<Rightarrow> Inl err
            | None \<Rightarrow> Inr (s\<lparr>ms_members := fmupd (o_Author op) RoleOwner (ms_members s),
                ms_owner := o_Author op, ms_creator := o_Author op,
                ms_retentionDays := o_RetentionDays op,
                ms_requireVerified := o_RequireVerified op,
                ms_rotations := ms_rotations s @
                  [\<lparr>r_Epoch = 0, r_StartedUnixMilli = o_TimeUnixMilli op, r_Shred = False\<rparr>]\<rparr>))))"

definition applyAdd :: "crypto \<Rightarrow> MembershipState \<Rightarrow> MemberOp \<Rightarrow> MembershipState result" where
  "applyAdd cr s op =
    (case requireManage s op of
       Some err \<Rightarrow> Inl err
     | None \<Rightarrow>
         if ID_IsZero (o_Subject op) \<or> MembershipState_Role s (o_Subject op) \<noteq> RoleNone
            \<or> \<not> assignableRole (o_Role op)
         then Inl [ErrMembership]
         else if ms_requireVerified s \<and> \<not> o_Verified op then Inl [ErrUnverifiedMember]
         else if o_Fingerprint op = 0 then Inl [ErrMembership]
         else if o_Epoch op \<noteq> ms_epoch s then Inl [ErrMembership]
         else (case checkWraps cr s (o_Wraps op) [o_Subject op] of
             Some err \<Rightarrow> Inl err
           | None \<Rightarrow> Inr (s\<lparr>ms_members := fmupd (o_Subject op) (o_Role op) (ms_members s),
               ms_fingerprints := fmupd (o_Subject op) (o_Fingerprint op) (ms_fingerprints s)\<rparr>)))"

definition applyChangeRole :: "MembershipState \<Rightarrow> MemberOp \<Rightarrow> MembershipState result" where
  "applyChangeRole s op =
    (case requireManage s op of
       Some err \<Rightarrow> Inl err
     | None \<Rightarrow>
         (let current = MembershipState_Role s (o_Subject op) in
          if current = RoleNone \<or> current = RoleOwner \<or> \<not> assignableRole (o_Role op)
          then Inl [ErrMembership]
          else Inr (s\<lparr>ms_members := fmupd (o_Subject op) (o_Role op) (ms_members s)\<rparr>)))"

definition applyRemove :: "MembershipState \<Rightarrow> MemberOp \<Rightarrow> MembershipState result" where
  "applyRemove s op =
    (let current = MembershipState_Role s (o_Subject op) in
     if current = RoleNone \<or> current = RoleOwner then Inl [ErrMembership]
     else (case (if o_Author op \<noteq> o_Subject op then requireManage s op else None) of
         Some err \<Rightarrow> Inl err
       | None \<Rightarrow> Inr (s\<lparr>ms_members := fmdrop (o_Subject op) (ms_members s), ms_pendingRotation := True\<rparr>)))"

definition applyRotate :: "crypto \<Rightarrow> MembershipState \<Rightarrow> MemberOp \<Rightarrow> MembershipState result" where
  "applyRotate cr s op =
    (case requireManage s op of
       Some err \<Rightarrow> Inl err
     | None \<Rightarrow>
         (case CheckNextEpoch (ms_epoch s) of
            Some err \<Rightarrow> Inl err
          | None \<Rightarrow>
              if o_Epoch op \<noteq> ms_epoch s + 1 then Inl [ErrMembership]
              else if ms_rotations s = [] then Inl [ErrForeign ''panic'']
              else if o_TimeUnixMilli op < r_StartedUnixMilli (last (ms_rotations s)) then Inl [ErrMembership]
              else (case checkWraps cr s (o_Wraps op) (Members s) of
                  Some err \<Rightarrow> Inl err
                | None \<Rightarrow> Inr (s\<lparr>ms_revoked := ms_revoked s |\<union>| fset_of_list (o_RevokedDevices op),
                    ms_epoch := o_Epoch op,
                    ms_rotations := ms_rotations s @
                      [\<lparr>r_Epoch = o_Epoch op, r_StartedUnixMilli = o_TimeUnixMilli op, r_Shred = o_Shred op\<rparr>],
                    ms_shredSeq := (if o_Shred op then o_Seq op else ms_shredSeq s),
                    ms_pendingRotation := False\<rparr>))))"

definition applyRewrap :: "crypto \<Rightarrow> MembershipState \<Rightarrow> MemberOp \<Rightarrow> MembershipState result" where
  "applyRewrap cr s op =
    (case requireManage s op of
       Some err \<Rightarrow> Inl err
     | None \<Rightarrow>
         if MembershipState_Role s (o_Subject op) = RoleNone \<or> o_Epoch op \<noteq> ms_epoch s then Inl [ErrMembership]
         else (case checkWraps cr s (o_Wraps op) [o_Subject op] of
             Some err \<Rightarrow> Inl err
           | None \<Rightarrow> Inr s))"

definition applySetPolicy :: "MembershipState \<Rightarrow> MemberOp \<Rightarrow> MembershipState result" where
  "applySetPolicy s op =
    (case requireOwner s op of
       Some err \<Rightarrow> Inl err
     | None \<Rightarrow>
         (case validRetention (o_RetentionDays op) of
            Some err \<Rightarrow> Inl err
          | None \<Rightarrow> Inr (s\<lparr>ms_retentionDays := o_RetentionDays op, ms_requireVerified := o_RequireVerified op\<rparr>)))"

definition applyTransfer :: "MembershipState \<Rightarrow> MemberOp \<Rightarrow> MembershipState result" where
  "applyTransfer s op =
    (case requireOwner s op of
       Some err \<Rightarrow> Inl err
     | None \<Rightarrow>
         (let current = MembershipState_Role s (o_Subject op) in
          if current = RoleNone \<or> current = RoleOwner then Inl [ErrMembership]
          else Inr (s\<lparr>ms_members := fmupd (o_Subject op) RoleOwner (fmupd (o_Author op) RoleAdmin (ms_members s)),
              ms_owner := o_Subject op\<rparr>)))"

definition applyDelete :: "MembershipState \<Rightarrow> MemberOp \<Rightarrow> MembershipState result" where
  "applyDelete s op =
    (case requireOwner s op of Some err \<Rightarrow> Inl err | None \<Rightarrow> Inr (s\<lparr>ms_deleted := True\<rparr>))"

definition applyKind :: "crypto \<Rightarrow> MembershipState \<Rightarrow> MemberOp \<Rightarrow> MembershipState result" where
  "applyKind cr s op =
    (if o_Shred op \<and> o_Kind op \<noteq> MemberRotateEpoch then Inl [ErrMembership]
     else if o_Kind op = MemberCreate then applyCreate cr s op
     else if o_Kind op = MemberAdd then applyAdd cr s op
     else if o_Kind op = MemberChangeRole then applyChangeRole s op
     else if o_Kind op = MemberRemove then applyRemove s op
     else if o_Kind op = MemberRotateEpoch then applyRotate cr s op
     else if o_Kind op = MemberRewrap then applyRewrap cr s op
     else if o_Kind op = MemberSetPolicy then applySetPolicy s op
     else if o_Kind op = MemberTransferOwnership then applyTransfer s op
     else if o_Kind op = MemberDeleteVault then applyDelete s op
     else Inl [ErrMembership])"

definition preconditions :: "MembershipState \<Rightarrow> MemberOp \<Rightarrow> SuiteParams result" where
  "preconditions s op =
    (if ms_deleted s then Inl [ErrVaultDeleted]
     else if ms_pendingRotation s \<and> o_Kind op \<noteq> MemberRotateEpoch then Inl [ErrRotationRequired]
     else if (ms_seq s = 0) \<noteq> (o_Kind op = MemberCreate) then Inl [ErrMembership]
     else (case LookupSuite (o_Suite op) MinAcceptedSuite of
         Inl err \<Rightarrow> Inl [ErrMembership]
       | Inr params \<Rightarrow> Inr params))"

type_synonym SignatureCheck = "ID \<Rightarrow> ID \<Rightarrow> SigAlg \<Rightarrow> bytes \<Rightarrow> bytes \<Rightarrow> go_error option"

definition MembershipState_Apply ::
    "crypto \<Rightarrow> SignatureCheck \<Rightarrow> MembershipState \<Rightarrow> MemberOp \<Rightarrow> MembershipState \<times> go_error option" where
  "MembershipState_Apply cr check s op =
    (if o_Vault op \<noteq> ms_vault s \<or> o_Seq op \<noteq> ms_seq s + 1 \<or> o_Prev op \<noteq> ms_hash s
     then (s, Some [ErrMembership])
     else (case MemberOp_SigningBytes op of
         Inl err \<Rightarrow> (s, Some err)
       | Inr msg \<Rightarrow>
           if o_AuthorDevice op |\<in>| ms_revoked s then (s, Some [ErrRevokedDevice])
           else (case check (o_Author op) (o_AuthorDevice op) (o_SigAlg op) msg (o_Sig op) of
               Some err \<Rightarrow> (s, Some err)
             | None \<Rightarrow>
                 (case preconditions s op of
                    Inl err \<Rightarrow> (s, Some err)
                  | Inr params \<Rightarrow>
                      (case applyKind cr (s\<lparr>ms_params := params\<rparr>) op of
                         Inl err \<Rightarrow> (s, Some err)
                       | Inr next \<Rightarrow>
                           (case MemberOp_hash cr op msg of
                              Inl err \<Rightarrow> (s, Some err)
                            | Inr h \<Rightarrow> (next\<lparr>ms_seq := o_Seq op, ms_hash := h\<rparr>, None)))))))"

definition member_step :: "crypto \<Rightarrow> SignatureCheck \<Rightarrow> MembershipState \<Rightarrow> MemberOp \<Rightarrow> MembershipState result" where
  "member_step cr check s op =
    (case MembershipState_Apply cr check s op of (s', None) \<Rightarrow> Inr s' | (s', Some err) \<Rightarrow> Inl err)"

section \<open>Encoding lemmas\<close>

definition wrap_fields :: "KeyWrap \<Rightarrow> bytes list" where
  "wrap_fields w = [be_bytes (w_Member w), be_bytes (w_Digest w), be_bytes (w_Recipient w)]"

definition op_head :: "MemberOp \<Rightarrow> bytes list" where
  "op_head op =
    [str_bytes LabelMemberSig, be_bytes (o_Vault op), be_bytes (o_Seq op), be_bytes (o_Prev op),
     be_bytes (ucast (o_Kind op) :: u16), be_bytes (o_Author op), be_bytes (o_AuthorDevice op),
     be_bytes (o_Subject op), be_bytes (ucast (o_Role op) :: u16), bool_byte (o_Verified op),
     be_bytes (o_Fingerprint op), be_bytes (o_Suite op), be_bytes (o_Epoch op),
     be_bytes (word_of_nat (length (o_Wraps op)) :: u64)]"

definition op_tail :: "MemberOp \<Rightarrow> bytes list" where
  "op_tail op =
    [be_bytes (o_RetentionDays op), bool_byte (o_RequireVerified op), bool_byte (o_Shred op),
     be_bytes (o_TimeUnixMilli op), be_bytes (o_SigAlg op)]"

definition op_fields :: "MemberOp \<Rightarrow> bytes list" where
  "op_fields op =
    op_head op @ concat (map wrap_fields (o_Wraps op)) @
    be_bytes (word_of_nat (length (o_RevokedDevices op)) :: u64) #
    map be_bytes (o_RevokedDevices op) @ op_tail op"

definition op_preimage :: "MemberOp \<Rightarrow> bytes" where
  "op_preimage op = encode_fields [str_bytes LabelMemberHash, encode_fields (op_fields op), o_Sig op]"

definition op_fits :: "MemberOp \<Rightarrow> bool" where
  "op_fits op \<longleftrightarrow> list_all fits (op_fields op) \<and> fits (encode_fields (op_fields op)) \<and> fits (o_Sig op)"

definition member_genesis :: "ID \<Rightarrow> bytes" where
  "member_genesis vault = encode_fields [str_bytes LabelMemberHash, be_bytes vault]"

text \<open>What an operation's signature covers: everything but the ciphertexts of its wraps.\<close>

definition op_core :: "MemberOp \<Rightarrow> MemberOp" where
  "op_core op = op\<lparr>o_Wraps := map Strip (o_Wraps op)\<rparr>"

lemma fold_canon_wrap:
  "fold canon_wrap ws (canon_state fs) = canon_state (fs @ concat (map wrap_fields ws))"
  by (induction ws arbitrary: fs) (simp_all add: canon_wrap_def wrap_fields_def canon_unfold)

lemma MemberOp_SigningBytes_fields: "MemberOp_SigningBytes op = canon_result (op_fields op)"
  by (simp add: MemberOp_SigningBytes_def op_fields_def op_head_def op_tail_def Let_def canon_unfold
      fold_canon_wrap)

lemma MemberOp_hash_eq:
  "MemberOp_hash cr op msg = canon_digest cr [str_bytes LabelMemberHash, msg, o_Sig op]"
  by (simp add: MemberOp_hash_def canon_unfold)

lemma length_encode_fields: "4 * length fs \<le> length (encode_fields fs)"
  by (induction fs) auto

lemma length_wrap_fields: "length (concat (map wrap_fields ws)) = 3 * length ws"
  by (induction ws) (auto simp: wrap_fields_def)

lemma op_fits_lengths:
  assumes "op_fits op"
  shows "length (o_Wraps op) < 2 ^ 64" and "length (o_RevokedDevices op) < 2 ^ 64"
proof -
  have "length (op_fields op) \<le> length (encode_fields (op_fields op))"
    using length_encode_fields [of "op_fields op"] by linarith
  also have "\<dots> \<le> 4294967295"
    using assms by (simp add: op_fits_def fits_def MaxUint32_def)
  finally show "length (o_Wraps op) < 2 ^ 64" "length (o_RevokedDevices op) < 2 ^ 64"
    by (simp_all add: op_fields_def length_wrap_fields)
qed

lemma word_of_nat_u64_inj:
  "(word_of_nat m :: u64) = word_of_nat n \<Longrightarrow> m < 2 ^ 64 \<Longrightarrow> n < 2 ^ 64 \<Longrightarrow> m = n"
  by (drule arg_cong [where f = unat]) (simp add: unat_of_nat)

lemma wrap_fields_inj:
  "concat (map wrap_fields vs) = concat (map wrap_fields ws) \<Longrightarrow> length vs = length ws \<Longrightarrow>
    map Strip vs = map Strip ws"
proof (induction vs arbitrary: ws)
  case (Cons v vs)
  then obtain w ws' where ws: "ws = w # ws'" by (cases ws) auto
  with Cons show ?case by (auto simp: wrap_fields_def Strip_def byte_simps)
qed simp

lemma map_be_bytes_inj: "map be_bytes (is :: ID list) = map be_bytes js \<longleftrightarrow> is = js"
  by (simp add: inj_map_eq_map inj_def byte_simps)

lemma op_head_inj:
  assumes "op_head p = op_head q" and "op_fits p" and "op_fits q"
  shows "length (o_Wraps p) = length (o_Wraps q)" and "o_Vault p = o_Vault q" and "o_Seq p = o_Seq q"
    and "o_Prev p = o_Prev q" and "o_Kind p = o_Kind q" and "o_Author p = o_Author q"
    and "o_AuthorDevice p = o_AuthorDevice q" and "o_Subject p = o_Subject q" and "o_Role p = o_Role q"
    and "o_Verified p = o_Verified q" and "o_Fingerprint p = o_Fingerprint q" and "o_Suite p = o_Suite q"
    and "o_Epoch p = o_Epoch q"
  using assms(1) word_of_nat_u64_inj [OF _ op_fits_lengths(1) [OF assms(2)] op_fits_lengths(1) [OF assms(3)]]
  unfolding op_head_def by (simp_all add: be_bytes_inj)

lemma op_tail_inj:
  assumes "op_tail p = op_tail q"
  shows "o_RetentionDays p = o_RetentionDays q" and "o_RequireVerified p = o_RequireVerified q"
    and "o_Shred p = o_Shred q" and "o_TimeUnixMilli p = o_TimeUnixMilli q" and "o_SigAlg p = o_SigAlg q"
  using assms by (simp_all add: op_tail_def byte_simps)

lemma op_fields_inj:
  assumes eq: "op_fields p = op_fields q" and "o_Sig p = o_Sig q"
    and fits: "op_fits p" "op_fits q"
  shows "op_core p = op_core q"
proof -
  have len: "length (op_head r) = 14" "length (op_tail r) = 5" for r
    by (simp_all add: op_head_def op_tail_def)
  have hd: "op_head p = op_head q"
    using arg_cong [OF eq, of "take 14"] len by (simp add: op_fields_def)
  note head = op_head_inj [OF hd fits]
  let ?r = "\<lambda>op. be_bytes (word_of_nat (length (o_RevokedDevices op)) :: u64) #
    map be_bytes (o_RevokedDevices op) @ op_tail op"
  have "concat (map wrap_fields (o_Wraps p)) @ ?r p = concat (map wrap_fields (o_Wraps q)) @ ?r q"
    using eq hd unfolding op_fields_def by (metis same_append_eq)
  then have w: "concat (map wrap_fields (o_Wraps p)) = concat (map wrap_fields (o_Wraps q))" and r: "?r p = ?r q"
    using append_eq_append_conv [of "concat (map wrap_fields (o_Wraps p))" "concat (map wrap_fields (o_Wraps q))"]
    by (metis head(1) length_wrap_fields)+
  have lr: "length (o_RevokedDevices p) = length (o_RevokedDevices q)"
    using arg_cong [OF r, of length] len by simp
  with r have "map be_bytes (o_RevokedDevices p) = map be_bytes (o_RevokedDevices q) \<and> op_tail p = op_tail q"
    by (metis append_eq_append_conv length_map list.inject)
  then have "o_RevokedDevices p = o_RevokedDevices q" and tl: "op_tail p = op_tail q"
    by (simp_all only: map_be_bytes_inj)
  with head(2-) op_tail_inj [OF tl] wrap_fields_inj [OF w head(1)] assms(2) show ?thesis
    unfolding op_core_def by (intro MemberOp.equality) simp_all
qed

lemma op_preimage_inj:
  assumes "op_preimage p = op_preimage q" and "op_fits p" and "op_fits q"
  shows "op_core p = op_core q"
proof -
  have "[str_bytes LabelMemberHash, encode_fields (op_fields p), o_Sig p] =
      [str_bytes LabelMemberHash, encode_fields (op_fields q), o_Sig q]"
    using assms by (intro encode_fields_inj) (simp_all add: op_preimage_def op_fits_def)
  then have eq: "encode_fields (op_fields p) = encode_fields (op_fields q)" and sig: "o_Sig p = o_Sig q"
    by (simp_all only: list.inject)
  have "op_fields p = op_fields q"
    using eq assms(2,3) unfolding op_fits_def by (intro encode_fields_inj) blast+
  then show ?thesis
    using sig assms(2,3) by (rule op_fields_inj)
qed

lemma op_preimage_not_genesis: "op_fits op \<Longrightarrow> op_preimage op \<noteq> member_genesis v"
  using encode_fields_inj [of "[str_bytes LabelMemberHash, encode_fields (op_fields op), o_Sig op]"
      "[str_bytes LabelMemberHash, be_bytes v]"]
  by (auto simp: op_preimage_def member_genesis_def op_fits_def)

lemma NewMembershipState_Inr:
  "NewMembershipState cr vault = Inr s \<longleftrightarrow>
    s = \<lparr>ms_vault = vault, ms_seq = 0, ms_hash = sha256 cr (member_genesis vault), ms_members = fmempty,
      ms_owner = 0, ms_creator = 0, ms_fingerprints = fmempty, ms_epoch = 0, ms_revoked = {||},
      ms_retentionDays = 0, ms_requireVerified = False, ms_deleted = False,
      ms_pendingRotation = False, ms_rotations = [], ms_shredSeq = 0, ms_params = zero_params\<rparr>"
  by (auto simp: NewMembershipState_def canon_unfold canon_digest_def member_genesis_def)

section \<open>What an accepted operation does\<close>

lemma preconditions_Inr:
  "preconditions s op = Inr p \<longleftrightarrow>
    \<not> ms_deleted s \<and> (ms_pendingRotation s \<longrightarrow> o_Kind op = MemberRotateEpoch) \<and>
    (ms_seq s = 0 \<longleftrightarrow> o_Kind op = MemberCreate) \<and> o_Suite op = Suite1 \<and> p = suite1_params"
proof (cases "LookupSuite (o_Suite op) MinAcceptedSuite")
  case (Inl err)
  then have "o_Suite op \<noteq> Suite1" by auto
  with Inl show ?thesis by (simp add: preconditions_def)
next
  case (Inr q)
  moreover have "o_Suite op = Suite1" "q = suite1_params"
    using Inr unfolding LookupSuite_Inr by auto
  ultimately show ?thesis by (auto simp: preconditions_def)
qed

lemma member_step_Inr:
  "member_step cr check s op = Inr t \<longleftrightarrow>
    o_Vault op = ms_vault s \<and> o_Seq op = ms_seq s + 1 \<and> o_Prev op = ms_hash s \<and> op_fits op \<and>
    o_AuthorDevice op |\<notin>| ms_revoked s \<and>
    check (o_Author op) (o_AuthorDevice op) (o_SigAlg op) (encode_fields (op_fields op)) (o_Sig op) = None \<and>
    \<not> ms_deleted s \<and> (ms_pendingRotation s \<longrightarrow> o_Kind op = MemberRotateEpoch) \<and>
    (ms_seq s = 0 \<longleftrightarrow> o_Kind op = MemberCreate) \<and> o_Suite op = Suite1 \<and>
    (\<exists>n. applyKind cr (s\<lparr>ms_params := suite1_params\<rparr>) op = Inr n \<and>
      t = n\<lparr>ms_seq := o_Seq op, ms_hash := sha256 cr (op_preimage op)\<rparr>)"
proof (cases "preconditions s op")
  case (Inl err)
  then have "\<not> (\<not> ms_deleted s \<and> (ms_pendingRotation s \<longrightarrow> o_Kind op = MemberRotateEpoch) \<and>
      (ms_seq s = 0 \<longleftrightarrow> o_Kind op = MemberCreate) \<and> o_Suite op = Suite1)"
    using preconditions_Inr [of s op suite1_params] by auto
  with Inl show ?thesis
    by (auto simp: member_step_def MembershipState_Apply_def split: option.splits sum.splits)
next
  case (Inr p)
  with preconditions_Inr [of s op p] show ?thesis
    by (auto simp: member_step_def MembershipState_Apply_def MemberOp_SigningBytes_fields canon_result_def
        MemberOp_hash_eq canon_digest_def op_fits_def op_preimage_def split: option.splits sum.splits if_splits)
qed

lemma kind_distinct [simp]:
  "MemberCreate \<noteq> MemberAdd" "MemberCreate \<noteq> MemberChangeRole" "MemberCreate \<noteq> MemberRemove"
  "MemberCreate \<noteq> MemberRotateEpoch" "MemberCreate \<noteq> MemberRewrap" "MemberCreate \<noteq> MemberSetPolicy"
  "MemberCreate \<noteq> MemberTransferOwnership" "MemberCreate \<noteq> MemberDeleteVault" "MemberAdd \<noteq> MemberChangeRole"
  "MemberAdd \<noteq> MemberRemove" "MemberAdd \<noteq> MemberRotateEpoch" "MemberAdd \<noteq> MemberRewrap"
  "MemberAdd \<noteq> MemberSetPolicy" "MemberAdd \<noteq> MemberTransferOwnership" "MemberAdd \<noteq> MemberDeleteVault"
  "MemberChangeRole \<noteq> MemberRemove" "MemberChangeRole \<noteq> MemberRotateEpoch" "MemberChangeRole \<noteq> MemberRewrap"
  "MemberChangeRole \<noteq> MemberSetPolicy" "MemberChangeRole \<noteq> MemberTransferOwnership" "MemberChangeRole \<noteq> MemberDeleteVault"
  "MemberRemove \<noteq> MemberRotateEpoch" "MemberRemove \<noteq> MemberRewrap" "MemberRemove \<noteq> MemberSetPolicy"
  "MemberRemove \<noteq> MemberTransferOwnership" "MemberRemove \<noteq> MemberDeleteVault" "MemberRotateEpoch \<noteq> MemberRewrap"
  "MemberRotateEpoch \<noteq> MemberSetPolicy" "MemberRotateEpoch \<noteq> MemberTransferOwnership" "MemberRotateEpoch \<noteq> MemberDeleteVault"
  "MemberRewrap \<noteq> MemberSetPolicy" "MemberRewrap \<noteq> MemberTransferOwnership" "MemberRewrap \<noteq> MemberDeleteVault"
  "MemberSetPolicy \<noteq> MemberTransferOwnership" "MemberSetPolicy \<noteq> MemberDeleteVault" "MemberTransferOwnership \<noteq> MemberDeleteVault"
  by (simp_all add: kind_defs)

lemmas kind_distinct_sym [simp] = kind_distinct [symmetric]

lemma applyCreate_Inr:
  "applyCreate cr s op = Inr n \<longleftrightarrow>
    o_Epoch op = 0 \<and> o_RetentionDays op \<le> MaxRetentionDays \<and> checkWraps cr s (o_Wraps op) [o_Author op] = None \<and>
    n = s\<lparr>ms_members := fmupd (o_Author op) RoleOwner (ms_members s), ms_owner := o_Author op,
        ms_creator := o_Author op, ms_retentionDays := o_RetentionDays op,
        ms_requireVerified := o_RequireVerified op,
        ms_rotations := ms_rotations s @
          [\<lparr>r_Epoch = 0, r_StartedUnixMilli = o_TimeUnixMilli op, r_Shred = False\<rparr>]\<rparr>"
  by (auto simp: applyCreate_def validRetention_def split: option.splits if_splits)

lemma applyAdd_Inr:
  "applyAdd cr s op = Inr n \<longleftrightarrow>
    CanManage (MembershipState_Role s (o_Author op)) \<and> o_Subject op \<noteq> 0 \<and>
    MembershipState_Role s (o_Subject op) = RoleNone \<and> assignableRole (o_Role op) \<and>
    (ms_requireVerified s \<longrightarrow> o_Verified op) \<and> o_Fingerprint op \<noteq> 0 \<and> o_Epoch op = ms_epoch s \<and>
    checkWraps cr s (o_Wraps op) [o_Subject op] = None \<and>
    n = s\<lparr>ms_members := fmupd (o_Subject op) (o_Role op) (ms_members s),
      ms_fingerprints := fmupd (o_Subject op) (o_Fingerprint op) (ms_fingerprints s)\<rparr>"
  by (auto simp: applyAdd_def requireManage_def ID_IsZero_def split: option.splits if_splits)

lemma applyChangeRole_Inr:
  "applyChangeRole s op = Inr n \<longleftrightarrow>
    CanManage (MembershipState_Role s (o_Author op)) \<and> MembershipState_Role s (o_Subject op) \<noteq> RoleNone \<and>
    MembershipState_Role s (o_Subject op) \<noteq> RoleOwner \<and> assignableRole (o_Role op) \<and>
    n = s\<lparr>ms_members := fmupd (o_Subject op) (o_Role op) (ms_members s)\<rparr>"
  by (auto simp: applyChangeRole_def requireManage_def Let_def)

lemma applyRemove_Inr:
  "applyRemove s op = Inr n \<longleftrightarrow>
    MembershipState_Role s (o_Subject op) \<noteq> RoleNone \<and> MembershipState_Role s (o_Subject op) \<noteq> RoleOwner \<and>
    (o_Author op = o_Subject op \<or> CanManage (MembershipState_Role s (o_Author op))) \<and>
    n = s\<lparr>ms_members := fmdrop (o_Subject op) (ms_members s), ms_pendingRotation := True\<rparr>"
  by (auto simp: applyRemove_def requireManage_def Let_def)

lemma applyRotate_Inr:
  "applyRotate cr s op = Inr n \<longleftrightarrow>
    CanManage (MembershipState_Role s (o_Author op)) \<and> CheckNextEpoch (ms_epoch s) = None \<and>
    o_Epoch op = ms_epoch s + 1 \<and> ms_rotations s \<noteq> [] \<and>
    r_StartedUnixMilli (last (ms_rotations s)) \<le> o_TimeUnixMilli op \<and>
    checkWraps cr s (o_Wraps op) (Members s) = None \<and>
    n = s\<lparr>ms_revoked := ms_revoked s |\<union>| fset_of_list (o_RevokedDevices op), ms_epoch := o_Epoch op,
        ms_rotations := ms_rotations s @
          [\<lparr>r_Epoch = o_Epoch op, r_StartedUnixMilli = o_TimeUnixMilli op, r_Shred = o_Shred op\<rparr>],
        ms_shredSeq := (if o_Shred op then o_Seq op else ms_shredSeq s), ms_pendingRotation := False\<rparr>"
  by (auto simp: applyRotate_def requireManage_def not_less split: option.splits)

lemma applyRewrap_Inr:
  "applyRewrap cr s op = Inr n \<longleftrightarrow>
    CanManage (MembershipState_Role s (o_Author op)) \<and> MembershipState_Role s (o_Subject op) \<noteq> RoleNone \<and>
    o_Epoch op = ms_epoch s \<and> checkWraps cr s (o_Wraps op) [o_Subject op] = None \<and> n = s"
  by (auto simp: applyRewrap_def requireManage_def split: option.splits)

lemma applySetPolicy_Inr:
  "applySetPolicy s op = Inr n \<longleftrightarrow>
    MembershipState_Role s (o_Author op) = RoleOwner \<and> o_RetentionDays op \<le> MaxRetentionDays \<and>
    n = s\<lparr>ms_retentionDays := o_RetentionDays op, ms_requireVerified := o_RequireVerified op\<rparr>"
  by (auto simp: applySetPolicy_def requireOwner_def validRetention_def)

lemma applyTransfer_Inr:
  "applyTransfer s op = Inr n \<longleftrightarrow>
    MembershipState_Role s (o_Author op) = RoleOwner \<and> MembershipState_Role s (o_Subject op) \<noteq> RoleNone \<and>
    MembershipState_Role s (o_Subject op) \<noteq> RoleOwner \<and>
    n = s\<lparr>ms_members := fmupd (o_Subject op) RoleOwner (fmupd (o_Author op) RoleAdmin (ms_members s)),
        ms_owner := o_Subject op\<rparr>"
  by (auto simp: applyTransfer_def requireOwner_def Let_def)

lemma applyDelete_Inr:
  "applyDelete s op = Inr n \<longleftrightarrow>
    MembershipState_Role s (o_Author op) = RoleOwner \<and> n = s\<lparr>ms_deleted := True\<rparr>"
  by (auto simp: applyDelete_def requireOwner_def)

lemmas rule_Inr =
  applyCreate_Inr applyAdd_Inr applyChangeRole_Inr applyRemove_Inr applyRotate_Inr applyRewrap_Inr
  applySetPolicy_Inr applyTransfer_Inr applyDelete_Inr

lemma applyKind_Inr:
  "applyKind cr s op = Inr n \<Longrightarrow>
    (o_Shred op \<longrightarrow> o_Kind op = MemberRotateEpoch) \<and>
    (o_Kind op = MemberCreate \<and> applyCreate cr s op = Inr n \<or>
     o_Kind op = MemberAdd \<and> applyAdd cr s op = Inr n \<or>
     o_Kind op = MemberChangeRole \<and> applyChangeRole s op = Inr n \<or>
     o_Kind op = MemberRemove \<and> applyRemove s op = Inr n \<or>
     o_Kind op = MemberRotateEpoch \<and> applyRotate cr s op = Inr n \<or>
     o_Kind op = MemberRewrap \<and> applyRewrap cr s op = Inr n \<or>
     o_Kind op = MemberSetPolicy \<and> applySetPolicy s op = Inr n \<or>
     o_Kind op = MemberTransferOwnership \<and> applyTransfer s op = Inr n \<or>
     o_Kind op = MemberDeleteVault \<and> applyDelete s op = Inr n)"
  unfolding applyKind_def by (simp split: if_split_asm)

lemma applyKind_cases
  [consumes 1, case_names create add change remove rotate rewrap policy transfer delete]:
  assumes "applyKind cr s op = Inr n"
  obtains "o_Kind op = MemberCreate" "o_Epoch op = 0" "o_RetentionDays op \<le> MaxRetentionDays"
      "checkWraps cr s (o_Wraps op) [o_Author op] = None"
      "n = s\<lparr>ms_members := fmupd (o_Author op) RoleOwner (ms_members s), ms_owner := o_Author op,
        ms_creator := o_Author op, ms_retentionDays := o_RetentionDays op,
        ms_requireVerified := o_RequireVerified op,
        ms_rotations := ms_rotations s @
          [\<lparr>r_Epoch = 0, r_StartedUnixMilli = o_TimeUnixMilli op, r_Shred = False\<rparr>]\<rparr>"
  | "o_Kind op = MemberAdd" "CanManage (MembershipState_Role s (o_Author op))" "o_Subject op \<noteq> 0"
      "MembershipState_Role s (o_Subject op) = RoleNone" "assignableRole (o_Role op)"
      "ms_requireVerified s \<longrightarrow> o_Verified op" "o_Fingerprint op \<noteq> 0" "o_Epoch op = ms_epoch s"
      "checkWraps cr s (o_Wraps op) [o_Subject op] = None"
      "n = s\<lparr>ms_members := fmupd (o_Subject op) (o_Role op) (ms_members s),
        ms_fingerprints := fmupd (o_Subject op) (o_Fingerprint op) (ms_fingerprints s)\<rparr>"
  | "o_Kind op = MemberChangeRole" "CanManage (MembershipState_Role s (o_Author op))"
      "MembershipState_Role s (o_Subject op) \<noteq> RoleNone" "MembershipState_Role s (o_Subject op) \<noteq> RoleOwner"
      "assignableRole (o_Role op)"
      "n = s\<lparr>ms_members := fmupd (o_Subject op) (o_Role op) (ms_members s)\<rparr>"
  | "o_Kind op = MemberRemove" "MembershipState_Role s (o_Subject op) \<noteq> RoleNone"
      "MembershipState_Role s (o_Subject op) \<noteq> RoleOwner"
      "o_Author op = o_Subject op \<or> CanManage (MembershipState_Role s (o_Author op))"
      "n = s\<lparr>ms_members := fmdrop (o_Subject op) (ms_members s), ms_pendingRotation := True\<rparr>"
  | "o_Kind op = MemberRotateEpoch" "CanManage (MembershipState_Role s (o_Author op))"
      "CheckNextEpoch (ms_epoch s) = None" "o_Epoch op = ms_epoch s + 1" "ms_rotations s \<noteq> []"
      "r_StartedUnixMilli (last (ms_rotations s)) \<le> o_TimeUnixMilli op"
      "checkWraps cr s (o_Wraps op) (Members s) = None"
      "n = s\<lparr>ms_revoked := ms_revoked s |\<union>| fset_of_list (o_RevokedDevices op), ms_epoch := o_Epoch op,
        ms_rotations := ms_rotations s @
          [\<lparr>r_Epoch = o_Epoch op, r_StartedUnixMilli = o_TimeUnixMilli op, r_Shred = o_Shred op\<rparr>],
        ms_shredSeq := (if o_Shred op then o_Seq op else ms_shredSeq s), ms_pendingRotation := False\<rparr>"
  | "o_Kind op = MemberRewrap" "CanManage (MembershipState_Role s (o_Author op))"
      "MembershipState_Role s (o_Subject op) \<noteq> RoleNone" "o_Epoch op = ms_epoch s"
      "checkWraps cr s (o_Wraps op) [o_Subject op] = None" "n = s"
  | "o_Kind op = MemberSetPolicy" "MembershipState_Role s (o_Author op) = RoleOwner"
      "o_RetentionDays op \<le> MaxRetentionDays"
      "n = s\<lparr>ms_retentionDays := o_RetentionDays op, ms_requireVerified := o_RequireVerified op\<rparr>"
  | "o_Kind op = MemberTransferOwnership" "MembershipState_Role s (o_Author op) = RoleOwner"
      "MembershipState_Role s (o_Subject op) \<noteq> RoleNone" "MembershipState_Role s (o_Subject op) \<noteq> RoleOwner"
      "n = s\<lparr>ms_members := fmupd (o_Subject op) RoleOwner (fmupd (o_Author op) RoleAdmin (ms_members s)),
        ms_owner := o_Subject op\<rparr>"
  | "o_Kind op = MemberDeleteVault" "MembershipState_Role s (o_Author op) = RoleOwner"
      "n = s\<lparr>ms_deleted := True\<rparr>"
proof -
  note disj = conjunct2 [OF applyKind_Inr [OF assms]]
  show thesis
    using disj
  proof (elim disjE, goal_cases)
    case 1
    then show thesis using that(1) unfolding applyCreate_Inr by blast
  next
    case 2
    then show thesis using that(2) unfolding applyAdd_Inr by blast
  next
    case 3
    then show thesis using that(3) unfolding applyChangeRole_Inr by blast
  next
    case 4
    then show thesis using that(4) unfolding applyRemove_Inr by blast
  next
    case 5
    then show thesis using that(5) unfolding applyRotate_Inr by blast
  next
    case 6
    then show thesis using that(6) unfolding applyRewrap_Inr by blast
  next
    case 7
    then show thesis using that(7) unfolding applySetPolicy_Inr by blast
  next
    case 8
    then show thesis using that(8) unfolding applyTransfer_Inr by blast
  next
    case 9
    then show thesis using that(9) unfolding applyDelete_Inr by blast
  qed
qed

end
