(* ===== verification/Membership_Log.thy ===== *)
theory Membership_Log
  imports Membership
begin

text \<open>
  What a replayed membership log guarantees: the invariant of reachable states (one owner, known
  roles, consecutive epochs, a fingerprint for every added member), who may author what, that a
  removal forces a rotation for exactly the members left, that deletion and device revocation are
  final, and that the chain hash binds the history up to the wrap ciphertexts a server may strip.
  The invariant is proved for logs shorter than \<open>2^64\<close> entries, where the 64-bit sequence number
  does not wrap around.
\<close>

section \<open>Wraps\<close>

lemma wrap_loop_None:
  "wrap_loop cr s ws wanted = None \<longleftrightarrow>
    distinct (map w_Member ws) \<and> w_Member ` set ws \<subseteq> fset wanted \<and>
    list_all (\<lambda>w. checkWrapContent cr s w = None) ws"
proof (induction cr s ws wanted rule: wrap_loop.induct)
  case (2 cr s w ws wanted)
  then show ?case by (auto split: option.splits)
qed simp

lemma checkWraps_None:
  assumes "distinct want"
  shows "checkWraps cr s ws want = None \<longleftrightarrow>
    distinct (map w_Member ws) \<and> w_Member ` set ws = set want \<and>
    list_all (\<lambda>w. checkWrapContent cr s w = None) ws"
proof -
  have "length ws = length want \<and> distinct (map w_Member ws) \<and> w_Member ` set ws \<subseteq> set want \<longleftrightarrow>
      distinct (map w_Member ws) \<and> w_Member ` set ws = set want"
    using assms distinct_card [of want] distinct_card [of "map w_Member ws"] card_subset_eq [of "set want" "w_Member ` set ws"]
    by auto
  then show ?thesis
    by (auto simp: checkWraps_def wrap_loop_None fset_of_list.rep_eq)
qed

lemma Members_props [simp]: "distinct (Members s)" "set (Members s) = fset (fmdom (ms_members s))"
  by (simp_all add: Members_def sorted_list_of_fset.rep_eq)

section \<open>The hash-linked log\<close>

interpretation member_log: hash_log
  "member_step cr check" ms_hash o_Prev op_preimage "range member_genesis" "sha256 cr" op_core op_fits
  for cr check
proof unfold_locales
  fix p q assume "op_fits p" "op_fits q" "op_preimage p = op_preimage q"
  then have "op_core p = op_core q" using op_preimage_inj by blast
  then show "op_core p = op_core q \<and> o_Prev p = o_Prev q"
    by (metis (no_types, lifting) MemberOp.select_convs(3) MemberOp.surjective MemberOp.update_convs(13) op_core_def)
qed (auto simp: member_step_Inr dest: op_preimage_not_genesis)

section \<open>The invariant of a replayed log\<close>

definition fresh :: "MembershipState \<Rightarrow> bool" where
  "fresh s \<longleftrightarrow> ms_members s = fmempty \<and> ms_rotations s = [] \<and> ms_epoch s = 0 \<and> \<not> ms_pendingRotation s \<and>
    \<not> ms_deleted s"

definition roles_ok :: "MembershipState \<Rightarrow> bool" where
  "roles_ok s \<longleftrightarrow> fmlookup (ms_members s) (ms_owner s) = Some RoleOwner \<and>
    (\<forall>i r. fmlookup (ms_members s) i = Some r \<longrightarrow>
      RoleViewer \<le> r \<and> r \<le> RoleOwner \<and> (r = RoleOwner \<longleftrightarrow> i = ms_owner s))"

definition epochs_ok :: "MembershipState \<Rightarrow> bool" where
  "epochs_ok s \<longleftrightarrow>
    map (unat \<circ> r_Epoch) (ms_rotations s) = [0..<Suc (unat (ms_epoch s))] \<and>
    sorted (map r_StartedUnixMilli (ms_rotations s))"

definition prints_ok :: "MembershipState \<Rightarrow> bool" where
  "prints_ok s \<longleftrightarrow> (\<forall>i. i |\<in>| fmdom (ms_members s) \<longrightarrow> i \<noteq> ms_creator s \<longrightarrow>
    (\<exists>fp. fmlookup (ms_fingerprints s) i = Some fp \<and> fp \<noteq> 0))"

definition ms_inv :: "MembershipState \<Rightarrow> bool" where
  "ms_inv s \<longleftrightarrow> (if ms_seq s = 0 then fresh s
    else roles_ok s \<and> epochs_ok s \<and> prints_ok s \<and> ms_retentionDays s \<le> MaxRetentionDays)"

lemma role_order [simp]:
  "RoleNone \<noteq> RoleOwner" "RoleOwner \<noteq> RoleNone" "RoleAdmin \<noteq> RoleOwner" "RoleNone \<noteq> RoleAdmin" "RoleViewer \<le> RoleOwner"
  "RoleViewer \<le> RoleAdmin" "RoleAdmin \<le> RoleOwner" "CanManage RoleOwner" "CanWrite RoleOwner"
  "\<not> CanManage RoleNone" "\<not> CanWrite RoleNone" "\<not> RoleViewer \<le> RoleNone"
  by (simp_all add: role_defs CanManage_def CanWrite_def)

lemma assignable_below_owner:
  assumes "assignableRole r"
  shows "RoleViewer \<le> r" "r \<le> RoleOwner" "r \<noteq> RoleOwner"
proof -
  show "RoleViewer \<le> r" using assms by (simp add: assignableRole_def)
  have "r \<le> RoleAdmin" using assms by (simp add: assignableRole_def)
  moreover have "RoleAdmin < RoleOwner" by (simp add: role_defs)
  ultimately show "r \<le> RoleOwner" "r \<noteq> RoleOwner" by auto
qed

lemma Role_lookup:
  "MembershipState_Role s i \<noteq> RoleNone \<Longrightarrow> fmlookup (ms_members s) i = Some (MembershipState_Role s i)"
  by (simp add: MembershipState_Role_def split: option.splits)

lemma roles_ok_None:
  assumes "roles_ok s" and "MembershipState_Role s i = RoleNone"
  shows "fmlookup (ms_members s) i = None" and "i \<noteq> ms_owner s"
proof -
  show "fmlookup (ms_members s) i = None"
    using assms by (fastforce simp: roles_ok_def MembershipState_Role_def split: option.splits)
  then show "i \<noteq> ms_owner s" using assms(1) by (auto simp: roles_ok_def)
qed

lemma roles_ok_owner: "roles_ok s \<Longrightarrow> MembershipState_Role s i = RoleOwner \<longleftrightarrow> i = ms_owner s"
  by (fastforce simp: roles_ok_def MembershipState_Role_def split: option.splits)

lemma u32_suc:
  assumes "CheckNextEpoch e = None"
  shows "unat (e + 1) = Suc (unat e)"
proof -
  have "e \<noteq> word_of_nat 4294967295" using assms by (simp add: CheckNextEpoch_def split: if_splits)
  then have "unat e \<noteq> 4294967295" by (auto simp: word_unat_eq_iff)
  with unat_u32_lt [of e] show ?thesis by (simp add: unat_word_ariths)
qed

lemma roles_ok_applyKind:
  assumes "applyKind cr s op = Inr t" and "o_Kind op = MemberCreate \<Longrightarrow> ms_members s = fmempty"
    and "o_Kind op \<noteq> MemberCreate \<Longrightarrow> roles_ok s"
  shows "roles_ok t"
  using assms(1)
proof (cases rule: applyKind_cases)
  case create
  with assms(2) show ?thesis by (auto simp: roles_ok_def)
next
  case add
  then have ok: "roles_ok s" using assms(3) by simp
  from add roles_ok_None [OF ok] assignable_below_owner [of "o_Role op"] ok show ?thesis
    by (auto simp: roles_ok_def)
next
  case change
  then have ok: "roles_ok s" using assms(3) by simp
  from change roles_ok_owner [OF ok] assignable_below_owner [of "o_Role op"] ok show ?thesis
    by (auto simp: roles_ok_def)
next
  case remove
  then have ok: "roles_ok s" using assms(3) by simp
  from remove roles_ok_owner [OF ok] ok show ?thesis by (auto simp: roles_ok_def)
next
  case transfer
  then have ok: "roles_ok s" using assms(3) by simp
  from transfer roles_ok_owner [OF ok] ok show ?thesis by (auto simp: roles_ok_def)
qed (use assms(3) in \<open>auto simp: roles_ok_def\<close>)

lemma epochs_ok_applyKind:
  assumes "applyKind cr s op = Inr t" and "o_Kind op = MemberCreate \<Longrightarrow> ms_rotations s = [] \<and> ms_epoch s = 0"
    and "o_Kind op \<noteq> MemberCreate \<Longrightarrow> epochs_ok s"
  shows "epochs_ok t"
  using assms(1)
proof (cases rule: applyKind_cases)
  case create
  with assms(2) show ?thesis by (auto simp: epochs_ok_def)
next
  case rotate
  then have ok: "epochs_ok s" using assms(3) by simp
  have "r_StartedUnixMilli r \<le> r_StartedUnixMilli (last (ms_rotations s))" if "r \<in> set (ms_rotations s)" for r
    using ok that rotate(5) sorted_le_last [of "map r_StartedUnixMilli (ms_rotations s)" "r_StartedUnixMilli r"]
    by (simp add: epochs_ok_def last_map)
  with rotate ok u32_suc [OF rotate(3)] show ?thesis
    by (auto simp: epochs_ok_def sorted_append last_map intro: order_trans)
qed (use assms(3) in \<open>auto simp: epochs_ok_def\<close>)

lemma prints_ok_applyKind:
  assumes "applyKind cr s op = Inr t" and "o_Kind op = MemberCreate \<Longrightarrow> ms_members s = fmempty"
    and "o_Kind op \<noteq> MemberCreate \<Longrightarrow> prints_ok s" and "o_Kind op \<noteq> MemberCreate \<Longrightarrow> roles_ok s"
  shows "prints_ok t"
  using assms(1)
proof (cases rule: applyKind_cases)
  case create
  with assms(2) show ?thesis by (auto simp: prints_ok_def)
next
  case change
  with assms(3) Role_lookup [OF change(3)] show ?thesis by (auto simp: prints_ok_def fmdomI)
next
  case transfer
  have "o_Author op |\<in>| fmdom (ms_members s)" "o_Subject op |\<in>| fmdom (ms_members s)"
    using transfer(2,3) Role_lookup [of s "o_Author op"] Role_lookup [of s "o_Subject op"] by (simp_all add: fmdomI)
  with transfer assms(3) show ?thesis by (auto simp: prints_ok_def)
qed (use assms(3) in \<open>auto simp: prints_ok_def\<close>)

lemma retention_applyKind:
  assumes "applyKind cr s op = Inr t"
    and "o_Kind op \<noteq> MemberCreate \<Longrightarrow> ms_retentionDays s \<le> MaxRetentionDays"
  shows "ms_retentionDays t \<le> MaxRetentionDays"
  using assms(1) by (cases rule: applyKind_cases) (use assms(2) in auto)

lemma applyKind_fixed:
  assumes "applyKind cr s op = Inr t"
  shows "ms_vault t = ms_vault s" and "ms_params t = ms_params s" and "ms_revoked s |\<subseteq>| ms_revoked t"
    and "ms_deleted t \<longleftrightarrow> ms_deleted s \<or> o_Kind op = MemberDeleteVault"
    and "ms_pendingRotation t \<longleftrightarrow> o_Kind op = MemberRemove \<or> ms_pendingRotation s \<and> o_Kind op \<noteq> MemberRotateEpoch"
  using assms by (cases rule: applyKind_cases; auto simp: kind_defs)+

lemma inv_parts_update [simp]:
  "roles_ok (s\<lparr>ms_params := p\<rparr>) = roles_ok s" "roles_ok (s\<lparr>ms_seq := n, ms_hash := h\<rparr>) = roles_ok s"
  "epochs_ok (s\<lparr>ms_params := p\<rparr>) = epochs_ok s" "epochs_ok (s\<lparr>ms_seq := n, ms_hash := h\<rparr>) = epochs_ok s"
  "prints_ok (s\<lparr>ms_params := p\<rparr>) = prints_ok s" "prints_ok (s\<lparr>ms_seq := n, ms_hash := h\<rparr>) = prints_ok s"
  by (simp_all add: roles_ok_def epochs_ok_def prints_ok_def)

lemma ms_inv_step:
  assumes "ms_inv s" and "Suc (unat (ms_seq s)) < 2 ^ 64" and "member_step cr check s op = Inr t"
  shows "ms_inv t"
proof -
  let ?s = "s\<lparr>ms_params := suite1_params\<rparr>"
  from assms(3) obtain n where n: "applyKind cr ?s op = Inr n"
    and t: "t = n\<lparr>ms_seq := o_Seq op, ms_hash := sha256 cr (op_preimage op)\<rparr>"
    and seq: "o_Seq op = ms_seq s + 1" and first: "ms_seq s = 0 \<longleftrightarrow> o_Kind op = MemberCreate"
    unfolding member_step_Inr by blast
  have "unat (ms_seq s + 1) = Suc (unat (ms_seq s))"
    using assms(2) by (simp add: unat_word_ariths)
  then have nz: "ms_seq t \<noteq> 0"
    by (auto simp: t seq)
  from assms(1) have old: "fresh s" if "o_Kind op = MemberCreate"
    using that first by (simp add: ms_inv_def)
  from assms(1) have live: "roles_ok s" "epochs_ok s" "prints_ok s" "ms_retentionDays s \<le> MaxRetentionDays"
    if "o_Kind op \<noteq> MemberCreate"
    using that first by (simp_all add: ms_inv_def)
  have "roles_ok n"
    by (rule roles_ok_applyKind [OF n]) (simp_all add: live old [unfolded fresh_def])
  moreover have "epochs_ok n"
    by (rule epochs_ok_applyKind [OF n]) (simp_all add: live old [unfolded fresh_def])
  moreover have "prints_ok n"
    by (rule prints_ok_applyKind [OF n]) (simp_all add: live old [unfolded fresh_def])
  moreover have "ms_retentionDays n \<le> MaxRetentionDays"
    by (rule retention_applyKind [OF n]) (simp add: live)
  ultimately show ?thesis using nz by (simp add: ms_inv_def t)
qed

lemma seq_step: "member_step cr check s op = Inr t \<Longrightarrow> ms_seq t = ms_seq s + 1"
  by (auto simp: member_step_Inr)

lemma reachable_seq:
  assumes "NewMembershipState cr v = Inr s0" and "replay (member_step cr check) s0 ops = Inr s"
  shows "ms_seq s = word_of_nat (length ops)"
  using assms(2)
proof (induction ops arbitrary: s rule: rev_induct)
  case Nil
  with assms(1) show ?case by (auto simp: NewMembershipState_Inr)
next
  case (snoc op ops)
  then show ?case by (auto simp: replay_snoc dest!: seq_step)
qed

lemma reachable_inv:
  assumes "NewMembershipState cr v = Inr s0" and "replay (member_step cr check) s0 ops = Inr s"
    and "length ops < 2 ^ 64"
  shows "ms_inv s"
  using assms(2,3)
proof (induction ops arbitrary: s rule: rev_induct)
  case Nil
  with assms(1) show ?case by (auto simp: NewMembershipState_Inr ms_inv_def fresh_def)
next
  case (snoc op ops)
  then obtain u where u: "replay (member_step cr check) s0 ops = Inr u" "member_step cr check u op = Inr s"
    by (auto simp: replay_snoc)
  have "unat (ms_seq u) = length ops"
    using reachable_seq [OF assms(1) u(1)] snoc.prems(2) by (simp add: unat_of_nat)
  with snoc.prems(2) have "Suc (unat (ms_seq u)) < 2 ^ 64" by simp
  moreover have "ms_inv u" using snoc.IH [OF u(1)] snoc.prems(2) by simp
  ultimately show ?case using ms_inv_step u(2) by blast
qed

lemma reachable_live:
  assumes "NewMembershipState cr v = Inr s0" and "replay (member_step cr check) s0 ops = Inr s"
    and "length ops < 2 ^ 64" and "ops \<noteq> []"
  shows "roles_ok s" and "epochs_ok s" and "prints_ok s" and "ms_retentionDays s \<le> MaxRetentionDays"
proof -
  have "unat (ms_seq s) = length ops"
    using reachable_seq [OF assms(1,2)] assms(3) by (simp add: unat_of_nat)
  with assms(4) have "ms_seq s \<noteq> 0" by auto
  with reachable_inv [OF assms(1-3)]
  show "roles_ok s" "epochs_ok s" "prints_ok s" "ms_retentionDays s \<le> MaxRetentionDays"
    by (simp_all add: ms_inv_def)
qed

section \<open>Monotone facts\<close>

definition ms_le :: "MembershipState \<Rightarrow> MembershipState \<Rightarrow> bool" where
  "ms_le s t \<longleftrightarrow> ms_vault t = ms_vault s \<and> ms_revoked s |\<subseteq>| ms_revoked t \<and> (ms_deleted s \<longrightarrow> s = t)"

lemma ms_le_step: "member_step cr check s op = Inr t \<Longrightarrow> ms_le s t"
  unfolding member_step_Inr ms_le_def using applyKind_fixed(1,3) [of cr "s\<lparr>ms_params := suite1_params\<rparr>" op]
  by auto

interpretation member_mono: log_monotone "member_step cr check" ms_le for cr check
  by unfold_locales (auto simp: ms_le_def ms_le_step [unfolded ms_le_def])

section \<open>Stripped wraps\<close>

lemma Strip_simps [simp]:
  "w_Member (Strip w) = w_Member w" "w_Digest (Strip w) = w_Digest w" "w_Recipient (Strip w) = w_Recipient w"
  "Pruned (Strip w)"
  by (simp_all add: Strip_def Pruned_def)

lemma op_core_select [simp]:
  "o_Vault (op_core op) = o_Vault op" "o_Seq (op_core op) = o_Seq op" "o_Prev (op_core op) = o_Prev op"
  "o_Kind (op_core op) = o_Kind op" "o_Author (op_core op) = o_Author op"
  "o_AuthorDevice (op_core op) = o_AuthorDevice op" "o_Subject (op_core op) = o_Subject op"
  "o_Role (op_core op) = o_Role op" "o_Verified (op_core op) = o_Verified op"
  "o_Fingerprint (op_core op) = o_Fingerprint op" "o_Suite (op_core op) = o_Suite op"
  "o_Epoch (op_core op) = o_Epoch op" "o_Wraps (op_core op) = map Strip (o_Wraps op)"
  "o_RevokedDevices (op_core op) = o_RevokedDevices op" "o_RetentionDays (op_core op) = o_RetentionDays op"
  "o_RequireVerified (op_core op) = o_RequireVerified op" "o_Shred (op_core op) = o_Shred op"
  "o_TimeUnixMilli (op_core op) = o_TimeUnixMilli op" "o_SigAlg (op_core op) = o_SigAlg op"
  "o_Sig (op_core op) = o_Sig op"
  by (simp_all add: op_core_def)

lemma op_fields_core [simp]: "op_fields (op_core op) = op_fields op"
  by (simp add: op_fields_def op_head_def op_tail_def comp_def wrap_fields_def [abs_def])

lemma checkWrapContent_Strip: "checkWrapContent cr s (Strip w) = None"
  by (simp add: checkWrapContent_def)

lemma wrap_loop_Strip: "wrap_loop cr s ws wanted = None \<Longrightarrow> wrap_loop cr s (map Strip ws) wanted = None"
  unfolding wrap_loop_None by (simp add: comp_def image_image list_all_iff checkWrapContent_Strip)

lemma checkWraps_Strip: "checkWraps cr s ws want = None \<Longrightarrow> checkWraps cr s (map Strip ws) want = None"
  by (simp add: checkWraps_def wrap_loop_Strip split: if_splits)

lemma rules_core:
  "applyCreate cr s op = Inr t \<Longrightarrow> applyCreate cr s (op_core op) = Inr t"
  "applyAdd cr s op = Inr t \<Longrightarrow> applyAdd cr s (op_core op) = Inr t"
  "applyRotate cr s op = Inr t \<Longrightarrow> applyRotate cr s (op_core op) = Inr t"
  "applyRewrap cr s op = Inr t \<Longrightarrow> applyRewrap cr s (op_core op) = Inr t"
  unfolding rule_Inr by (simp_all add: checkWraps_Strip)

lemma rules_core_eq:
  "applyChangeRole s (op_core op) = applyChangeRole s op" "applyRemove s (op_core op) = applyRemove s op"
  "applySetPolicy s (op_core op) = applySetPolicy s op" "applyTransfer s (op_core op) = applyTransfer s op"
  "applyDelete s (op_core op) = applyDelete s op"
  unfolding applyChangeRole_def applyRemove_def applySetPolicy_def applyTransfer_def applyDelete_def
    requireManage_def requireOwner_def op_core_select
  by (rule refl)+

lemma applyKind_core: "applyKind cr s op = Inr t \<Longrightarrow> applyKind cr s (op_core op) = Inr t"
  unfolding applyKind_def op_core_select rules_core_eq by (simp add: rules_core [of cr s op t] split: if_split_asm)

lemma member_step_core:
  assumes "member_step cr check s op = Inr t"
  shows "member_step cr check s (op_core op) = Inr t"
proof -
  have same: "op_fits (op_core op) = op_fits op" "op_preimage (op_core op) = op_preimage op"
    by (simp_all add: op_fits_def op_preimage_def)
  from assms show ?thesis
    unfolding member_step_Inr op_core_select op_fields_core same using applyKind_core by blast
qed

section \<open>Sample log\<close>

text \<open>A vault created by account 4, which adds account 9 as an editor, removes it and rotates.\<close>

definition ml_crypto :: crypto where
  "ml_crypto = \<lparr>sha256 = (\<lambda>bs. if bs = member_genesis 1 then 0 else 5),
     sha512 = (\<lambda>_. replicate 64 0), ed25519_Verify = (\<lambda>_ _ _. True)\<rparr>"

definition ml_check :: SignatureCheck where
  "ml_check account device alg message sig = (if sig = [1] then None else Some [ErrBadSignature])"

definition ml_wrap :: "ID \<Rightarrow> KeyWrap" where
  "ml_wrap i = \<lparr>w_Member = i, w_Digest = 0, w_Recipient = 0, w_Ciphertext = []\<rparr>"

definition ml_op :: "u8 \<Rightarrow> u64 \<Rightarrow> hash32 \<Rightarrow> ID \<Rightarrow> Role \<Rightarrow> u32 \<Rightarrow> KeyWrap list \<Rightarrow> MemberOp" where
  "ml_op kind n prev subject role epoch wraps =
    \<lparr>o_Vault = 1, o_Seq = n, o_Prev = prev, o_Kind = kind, o_Author = 4, o_AuthorDevice = 7,
     o_Subject = subject, o_Role = role, o_Verified = True, o_Fingerprint = 3, o_Suite = Suite1,
     o_Epoch = epoch, o_Wraps = wraps, o_RevokedDevices = [], o_RetentionDays = 30,
     o_RequireVerified = False, o_Shred = False, o_TimeUnixMilli = word_of_nat (unat n), o_SigAlg = SigEd25519, o_Sig = [1]\<rparr>"

definition ml_create :: MemberOp where "ml_create = ml_op MemberCreate 1 0 0 0 0 [ml_wrap 4]"
definition ml_add :: MemberOp where "ml_add = ml_op MemberAdd 2 5 9 RoleEditor 0 [ml_wrap 9]"
definition ml_remove :: MemberOp where "ml_remove = ml_op MemberRemove 3 5 9 0 0 []"
definition ml_rotate :: MemberOp where "ml_rotate = ml_op MemberRotateEpoch 4 5 0 0 1 [ml_wrap 4]"

lemmas ml_op_defs = ml_create_def ml_add_def ml_remove_def ml_rotate_def ml_op_def

definition ml_s0 :: MembershipState where
  "ml_s0 = \<lparr>ms_vault = 1, ms_seq = 0, ms_hash = 0, ms_members = fmempty, ms_owner = 0, ms_creator = 0,
     ms_fingerprints = fmempty, ms_epoch = 0, ms_revoked = {||}, ms_retentionDays = 0,
     ms_requireVerified = False, ms_deleted = False, ms_pendingRotation = False, ms_rotations = [],
     ms_shredSeq = 0, ms_params = zero_params\<rparr>"

definition ml_s1 :: MembershipState where
  "ml_s1 = ml_s0\<lparr>ms_seq := 1, ms_hash := 5, ms_members := fmupd 4 RoleOwner fmempty, ms_owner := 4,
     ms_creator := 4, ms_retentionDays := 30, ms_params := suite1_params,
     ms_rotations := [\<lparr>r_Epoch = 0, r_StartedUnixMilli = 1, r_Shred = False\<rparr>]\<rparr>"

definition ml_s2 :: MembershipState where
  "ml_s2 = ml_s1\<lparr>ms_seq := 2, ms_members := fmupd 9 RoleEditor (fmupd 4 RoleOwner fmempty),
     ms_fingerprints := fmupd 9 3 fmempty\<rparr>"

definition ml_s3 :: MembershipState where
  "ml_s3 = ml_s2\<lparr>ms_seq := 3, ms_members := fmdrop 9 (fmupd 9 RoleEditor (fmupd 4 RoleOwner fmempty)),
     ms_pendingRotation := True\<rparr>"

definition ml_s4 :: MembershipState where
  "ml_s4 = ml_s3\<lparr>ms_seq := 4, ms_epoch := 1, ms_pendingRotation := False,
     ms_rotations := [\<lparr>r_Epoch = 0, r_StartedUnixMilli = 1, r_Shred = False\<rparr>,
       \<lparr>r_Epoch = 1, r_StartedUnixMilli = 4, r_Shred = False\<rparr>]\<rparr>"

lemmas ml_state_defs = ml_s0_def ml_s1_def ml_s2_def ml_s3_def ml_s4_def

lemma ml_s0_New: "NewMembershipState ml_crypto 1 = Inr ml_s0"
  unfolding NewMembershipState_Inr by (simp add: ml_s0_def ml_crypto_def)

lemma ml_fits: "length ws \<le> 1 \<Longrightarrow> op_fits (ml_op k n p i r e ws)"
  by (cases ws) (simp_all add: op_fits_def op_fields_def op_head_def op_tail_def wrap_fields_def ml_op_def
      fits_def MaxUint32_def label_defs)

lemma ml_op_hash: "op_fits op \<Longrightarrow> sha256 ml_crypto (op_preimage op) = 5"
  using op_preimage_not_genesis [of op 1] by (simp add: ml_crypto_def)

lemma ml_wrap_content [simp]: "checkWrapContent cr s (ml_wrap i) = None"
  by (simp add: ml_wrap_def checkWrapContent_def Pruned_def)

lemma ml_wraps [simp]: "checkWraps cr s [ml_wrap i] [i] = None"
  by (simp add: checkWraps_def) (simp add: ml_wrap_def)

lemma ml_step:
  assumes "op_fits op" and "o_Vault op = ms_vault s" and "o_Seq op = ms_seq s + 1" and "o_Prev op = ms_hash s"
    and "o_AuthorDevice op |\<notin>| ms_revoked s" and "o_Sig op = [1]" and "\<not> ms_deleted s"
    and "ms_pendingRotation s \<longrightarrow> o_Kind op = MemberRotateEpoch"
    and "ms_seq s = 0 \<longleftrightarrow> o_Kind op = MemberCreate" and "o_Suite op = Suite1"
    and "applyKind ml_crypto (s\<lparr>ms_params := suite1_params\<rparr>) op = Inr n"
    and "t = n\<lparr>ms_seq := o_Seq op, ms_hash := 5\<rparr>"
  shows "member_step ml_crypto ml_check s op = Inr t"
  using assms ml_op_hash [OF assms(1)] by (auto simp: member_step_Inr ml_check_def)

lemma ml_create_step: "member_step ml_crypto ml_check ml_s0 ml_create = Inr ml_s1"
  by (rule ml_step, unfold ml_create_def, rule ml_fits)
     (simp_all add: ml_op_def ml_s0_def applyKind_def applyCreate_Inr MaxRetentionDays_def, simp add: ml_state_defs)

lemma ml_add_step: "member_step ml_crypto ml_check ml_s1 ml_add = Inr ml_s2"
  by (rule ml_step, unfold ml_add_def, rule ml_fits)
     (simp_all add: ml_op_def ml_state_defs applyKind_def applyAdd_Inr MembershipState_Role_def assignableRole_def
       role_defs CanManage_def, simp)

lemma ml_remove_step: "member_step ml_crypto ml_check ml_s2 ml_remove = Inr ml_s3"
  by (rule ml_step, unfold ml_remove_def, rule ml_fits)
     (simp_all add: ml_op_def ml_state_defs applyKind_def applyRemove_Inr MembershipState_Role_def
       role_defs CanManage_def, simp)

lemma ml_rotate_step: "member_step ml_crypto ml_check ml_s3 ml_rotate = Inr ml_s4"
proof -
  have wraps: "checkWraps ml_crypto (ml_s3\<lparr>ms_params := suite1_params\<rparr>) [ml_wrap 4]
      (Members (ml_s3\<lparr>ms_params := suite1_params\<rparr>)) = None"
    by (subst checkWraps_None) (simp_all, auto simp: ml_wrap_def ml_state_defs split: if_splits)
  show ?thesis
    by (rule ml_step, unfold ml_rotate_def, rule ml_fits)
       (simp_all add: ml_op_def applyKind_def applyRotate_Inr wraps,
        simp_all add: ml_state_defs MembershipState_Role_def role_defs CanManage_def CheckNextEpoch_def, simp)
qed

lemma ml_run:
  "replay (member_step ml_crypto ml_check) ml_s0 [ml_create, ml_add] = Inr ml_s2"
  "replay (member_step ml_crypto ml_check) ml_s0 [ml_create, ml_add, ml_remove, ml_rotate] = Inr ml_s4"
  by (simp_all add: ml_create_step ml_add_step ml_remove_step ml_rotate_step)

section \<open>Properties\<close>

text \<open>C11. In every non-empty membership log exactly one account holds the owner role, and it is the
  recorded owner; everyone else on the member list has a role from viewer to admin, and every member
  but the creator was added with a fingerprint that is not zero.\<close>

theorem Membership_one_owner:
  assumes "NewMembershipState cr v = Inr s0" and "replay (member_step cr check) s0 ops = Inr s"
    and "length ops < 2 ^ 64" and "ops \<noteq> []"
  shows "(MembershipState_Role s i = RoleOwner \<longleftrightarrow> i = ms_owner s) \<and>
    (i \<in> set (Members s) \<longleftrightarrow> MembershipState_Role s i \<noteq> RoleNone) \<and>
    MembershipState_Role s i \<le> RoleOwner \<and>
    (i \<in> set (Members s) \<and> i \<noteq> ms_creator s \<longrightarrow> (\<exists>fp. MemberFingerprint s i = (fp, True) \<and> fp \<noteq> 0))"
proof -
  note ok = reachable_live [OF assms]
  have mem: "i \<in> set (Members s) \<longleftrightarrow> MembershipState_Role s i \<noteq> RoleNone"
    using roles_ok_None(1) [OF ok(1), of i] Role_lookup [of s i]
    by (auto simp: fmlookup_dom_iff)
  moreover have "MembershipState_Role s i \<le> RoleOwner"
    using ok(1) by (auto simp: roles_ok_def MembershipState_Role_def role_defs split: option.splits)
  moreover have "\<exists>fp. MemberFingerprint s i = (fp, True) \<and> fp \<noteq> 0"
    if "i \<in> set (Members s)" "i \<noteq> ms_creator s"
  proof -
    from that ok(3) obtain fp where "fmlookup (ms_fingerprints s) i = Some fp" "fp \<noteq> 0"
      by (auto simp: prints_ok_def)
    with that mem show ?thesis by (simp add: MemberFingerprint_def)
  qed
  ultimately show ?thesis using roles_ok_owner [OF ok(1)] by blast
qed

theorem Membership_one_owner_witness:
  "(MembershipState_Role ml_s4 4 = RoleOwner \<longleftrightarrow> 4 = ms_owner ml_s4) \<and> ms_owner ml_s4 = 4"
  using Membership_one_owner [OF ml_s0_New ml_run(2), of 4] by (simp add: ml_state_defs)

text \<open>The epochs of a non-empty log are consecutive from zero to the current one, one rotation
  each, with start times that never go back; the 32-bit epoch counter never wraps around.\<close>

theorem Membership_epochs_consecutive:
  assumes "NewMembershipState cr v = Inr s0" and "replay (member_step cr check) s0 ops = Inr s"
    and "length ops < 2 ^ 64" and "ops \<noteq> []"
  shows "map (unat \<circ> r_Epoch) (ms_rotations s) = [0..<Suc (unat (ms_epoch s))] \<and>
    sorted (map r_StartedUnixMilli (ms_rotations s)) \<and> ms_retentionDays s \<le> MaxRetentionDays"
  using reachable_live(2,4) [OF assms] by (simp add: epochs_ok_def)

theorem Membership_epochs_consecutive_witness:
  "map (unat \<circ> r_Epoch) (ms_rotations ml_s4) = [0..<Suc (unat (ms_epoch ml_s4))]"
  using Membership_epochs_consecutive [OF ml_s0_New ml_run(2)] by simp



text \<open>Roles change only by the rules: when an accepted operation changes an account's role, it is the
  creation of the vault by that account, an addition or a role change of a non-owner to a role below
  owner, a removal of a non-owner, or the owner handing ownership over. So nobody but the owner
  itself can take the owner role away, and nobody else can become owner.\<close>

theorem Membership_role_changes:
  assumes "NewMembershipState cr v = Inr s0" and "replay (member_step cr check) s0 ops = Inr s"
    and "length ops < 2 ^ 64" and "member_step cr check s op = Inr t"
    and "MembershipState_Role t i \<noteq> MembershipState_Role s i"
  shows "o_Kind op = MemberCreate \<and> i = o_Author op \<and> MembershipState_Role t i = RoleOwner \<or>
    o_Kind op = MemberAdd \<and> i = o_Subject op \<and> MembershipState_Role s i = RoleNone \<and>
      MembershipState_Role t i < RoleOwner \<or>
    o_Kind op = MemberChangeRole \<and> i = o_Subject op \<and> i \<noteq> ms_owner s \<and> MembershipState_Role t i < RoleOwner \<or>
    o_Kind op = MemberRemove \<and> i = o_Subject op \<and> i \<noteq> ms_owner s \<and> MembershipState_Role t i = RoleNone \<or>
    o_Kind op = MemberTransferOwnership \<and> o_Author op = ms_owner s \<and>
      (i = ms_owner s \<and> MembershipState_Role t i = RoleAdmin \<or>
       i = o_Subject op \<and> MembershipState_Role t i = RoleOwner)"
proof -
  let ?s = "s\<lparr>ms_params := suite1_params\<rparr>"
  from assms(4) obtain n where n: "applyKind cr ?s op = Inr n"
    and t: "t = n\<lparr>ms_seq := o_Seq op, ms_hash := sha256 cr (op_preimage op)\<rparr>"
    and seq: "ms_seq s = 0 \<longleftrightarrow> o_Kind op = MemberCreate"
    unfolding member_step_Inr by blast
  have role: "MembershipState_Role ?s j = MembershipState_Role s j" "MembershipState_Role t j = MembershipState_Role n j" for j
    by (simp_all add: MembershipState_Role_def t)
  have own: "MembershipState_Role s j = RoleOwner \<longleftrightarrow> j = ms_owner s" if "o_Kind op \<noteq> MemberCreate" for j
    using reachable_inv [OF assms(1-3)] that seq roles_ok_owner [of s j] by (simp add: ms_inv_def)
  have below: "assignableRole r \<Longrightarrow> r < RoleOwner" for r
    using assignable_below_owner [of r] by simp
  note diff = assms(5) [unfolded role(2)]
  have mem: "ms_members t = ms_members n" by (simp add: t)
  from n show ?thesis
  proof (cases rule: applyKind_cases)
    case add
    with diff below [of "o_Role op"] role(1) [of "o_Subject op"] show ?thesis
      by (auto simp: mem MembershipState_Role_def split: if_splits)
  next
    case change
    with diff below [of "o_Role op"] role(1) own show ?thesis
      by (auto simp: mem MembershipState_Role_def split: if_splits)
  next
    case remove
    with diff role(1) own show ?thesis
      by (auto simp: mem MembershipState_Role_def split: if_splits)
  next
    case transfer
    with diff role(1) own show ?thesis
      by (auto simp: mem MembershipState_Role_def split: if_splits)
  qed (use diff in \<open>auto simp: mem MembershipState_Role_def split: if_splits\<close>)
qed

theorem Membership_role_changes_witness:
  "o_Kind ml_remove = MemberRemove \<and> 9 = o_Subject ml_remove \<and> 9 \<noteq> ms_owner ml_s2 \<and>
    MembershipState_Role ml_s3 9 = RoleNone"
proof -
  have "MembershipState_Role ml_s3 9 \<noteq> MembershipState_Role ml_s2 9"
    by (simp add: MembershipState_Role_def ml_state_defs role_defs)
  from Membership_role_changes [OF ml_s0_New ml_run(1) _ ml_remove_step this] show ?thesis
    by (simp add: ml_op_defs)
qed

text \<open>A removed member is locked out of what follows: after an accepted removal the only operation
  the log accepts is an epoch rotation to the next epoch, whose key wraps name exactly the members
  left, once each and not the removed account; every wrap that carries a ciphertext has the size of
  the suite and the digest it claims.\<close>

theorem Membership_removal_forces_rotation:
  assumes "member_step cr check s op = Inr t" and "o_Kind op = MemberRemove"
    and "member_step cr check t op' = Inr u"
  shows "o_Kind op' = MemberRotateEpoch \<and> unat (ms_epoch u) = unat (ms_epoch s) + 1 \<and>
    distinct (map w_Member (o_Wraps op')) \<and> w_Member ` set (o_Wraps op') = set (Members u) \<and>
    o_Subject op \<notin> set (Members u) \<and>
    (\<forall>w \<in> set (o_Wraps op'). \<not> Pruned w \<longrightarrow>
      length (w_Ciphertext w) = VKWrapSize suite1_params \<and> wrapDigest cr (w_Ciphertext w) = Inr (w_Digest w))"
proof -
  let ?t = "t\<lparr>ms_params := suite1_params\<rparr>"
  from assms(1,2) have t: "ms_pendingRotation t" "ms_epoch t = ms_epoch s" "o_Subject op |\<notin>| fmdom (ms_members t)"
    by (auto simp: member_step_Inr applyKind_def applyRemove_Inr split: if_splits)
  with assms(3) obtain n where kind: "o_Kind op' = MemberRotateEpoch" and "applyKind cr ?t op' = Inr n"
    and u: "u = n\<lparr>ms_seq := o_Seq op', ms_hash := sha256 cr (op_preimage op')\<rparr>"
    unfolding member_step_Inr by blast
  then have rot: "applyRotate cr ?t op' = Inr n" by (simp add: applyKind_def)
  then have wraps: "checkWraps cr ?t (o_Wraps op') (Members ?t) = None" and "CheckNextEpoch (ms_epoch t) = None"
    and n: "ms_epoch n = ms_epoch t + 1" "ms_members n = ms_members t"
    unfolding applyRotate_Inr by simp_all
  then have epoch: "unat (ms_epoch u) = unat (ms_epoch s) + 1"
    using u32_suc t(2) by (simp add: u)
  have mem: "set (Members u) = set (Members ?t)" by (simp add: u n)
  from wraps have "distinct (map w_Member (o_Wraps op'))" "w_Member ` set (o_Wraps op') = set (Members u)"
    "list_all (\<lambda>w. checkWrapContent cr ?t w = None) (o_Wraps op')"
    unfolding checkWraps_None [OF Members_props(1)] mem by simp_all
  moreover have "length (w_Ciphertext w) = VKWrapSize suite1_params \<and> wrapDigest cr (w_Ciphertext w) = Inr (w_Digest w)"
    if "checkWrapContent cr ?t w = None" "\<not> Pruned w" for w
    using that by (auto simp: checkWrapContent_def split: if_splits sum.splits)
  ultimately show ?thesis using kind epoch t(3) mem by (auto simp: list_all_iff)
qed

theorem Membership_removal_forces_rotation_witness:
  "o_Kind ml_rotate = MemberRotateEpoch \<and> unat (ms_epoch ml_s4) = unat (ms_epoch ml_s2) + 1 \<and>
    o_Subject ml_remove \<notin> set (Members ml_s4)"
  using Membership_removal_forces_rotation [OF ml_remove_step _ ml_rotate_step]
  by (simp add: ml_remove_def ml_op_def)

text \<open>Deletion and device revocation are final: once a vault is deleted no operation is accepted,
  and a device revoked in some state is refused as the author of every operation in every later
  state.\<close>

theorem Membership_revocation_final:
  assumes "replay (member_step cr check) s ops = Inr t"
    and "ms_deleted s \<or> IsDeviceRevoked s (o_AuthorDevice op)"
  shows "\<exists>err. MembershipState_Apply cr check t op = (t, Some err)"
proof -
  from member_mono.le_replay [OF assms(1)] assms(2)
  have "ms_deleted t \<or> o_AuthorDevice op |\<in>| ms_revoked t"
    by (auto simp: ms_le_def IsDeviceRevoked_def)
  then have "\<not> (\<exists>u. member_step cr check t op = Inr u)"
    unfolding member_step_Inr by blast
  moreover have "s' = t" if "MembershipState_Apply cr check t op = (s', Some err)" for s' err
    using that by (auto simp: MembershipState_Apply_def split: if_splits sum.splits option.splits)
  ultimately show ?thesis
    by (cases "MembershipState_Apply cr check t op") (auto simp: member_step_def split: option.splits)
qed

theorem Membership_revocation_final_witness:
  "\<exists>err. MembershipState_Apply ml_crypto ml_check (ml_s2\<lparr>ms_deleted := True\<rparr>) ml_remove =
    (ml_s2\<lparr>ms_deleted := True\<rparr>, Some err)"
  by (rule Membership_revocation_final [of _ _ "ml_s2\<lparr>ms_deleted := True\<rparr>" "[]"]) simp_all

text \<open>Two membership logs of one vault that end with the same chain hash are the same log, up to the
  ciphertexts of the key wraps, which the hash does not cover; SHA-256 must not collide on the bytes
  the two logs hash.\<close>

theorem Membership_hash_binds_history:
  assumes "NewMembershipState cr v = Inr s0"
    and "replay (member_step cr check) s0 ops = Inr s" and "replay (member_step cr check) s0 ops' = Inr t"
    and "ms_hash s = ms_hash t"
    and "inj_on (sha256 cr) (insert (member_genesis v) (op_preimage ` (set ops \<union> set ops')))"
  shows "map op_core ops = map op_core ops'"
proof -
  have "ms_hash s0 = sha256 cr (member_genesis v)"
    using assms(1) by (auto simp: NewMembershipState_Inr)
  from member_log.binding [OF this rangeI assms(2-5)] show ?thesis .
qed

theorem Membership_hash_binds_history_witness:
  "map op_core [ml_create] = map op_core [ml_create] \<and>
    inj_on (sha256 ml_crypto) (insert (member_genesis 1) (op_preimage ` (set [ml_create] \<union> set [ml_create])))"
proof -
  have fit: "op_fits ml_create" by (simp add: ml_create_def ml_fits)
  have inj: "inj_on (sha256 ml_crypto) (insert (member_genesis 1) (op_preimage ` (set [ml_create] \<union> set [ml_create])))"
    using op_preimage_not_genesis [OF fit, of 1] by (simp add: ml_crypto_def)
  have run: "replay (member_step ml_crypto ml_check) ml_s0 [ml_create] = Inr ml_s1"
    by (simp add: ml_create_step)
  from Membership_hash_binds_history [OF ml_s0_New run run refl inj] inj show ?thesis by simp
qed

text \<open>A server may strip the ciphertexts of key wraps of any accepted log: the stripped log replays
  to the same state, so the same members, epoch and chain hash.\<close>

theorem Membership_strip_replays:
  assumes "replay (member_step cr check) s ops = Inr t"
  shows "replay (member_step cr check) s (map op_core ops) = Inr t \<and>
    map MemberOp_SigningBytes (map op_core ops) = map MemberOp_SigningBytes ops"
proof
  show "replay (member_step cr check) s (map op_core ops) = Inr t"
    using assms
  proof (induction ops arbitrary: s)
    case (Cons op ops)
    then obtain u where "member_step cr check s op = Inr u" "replay (member_step cr check) u ops = Inr t"
      by (auto split: sum.splits)
    with Cons.IH show ?case by (simp add: member_step_core)
  qed simp
qed (simp add: MemberOp_SigningBytes_fields)

theorem Membership_strip_replays_witness:
  "replay (member_step ml_crypto ml_check) ml_s0 (map op_core [ml_create, ml_add, ml_remove, ml_rotate]) = Inr ml_s4"
  using Membership_strip_replays [OF ml_run(2)] by blast

end
