(* ===== verification/Vault_State.thy ===== *)
theory Vault_State
  imports Envelope Head_Chain Membership_Log
begin

text \<open>
  Commits and the verified state of a vault (\<open>vault_state.go\<close>). \<open>ApplyCommit\<close> works on a copy of
  the leaves and returns the new state, so a refused commit leaves nothing behind by construction.
  Go gives a map's values in no particular order; \<open>VaultState_Leaves\<close> lists them by record id, and
  \<open>MerkleRoot_perm\<close> shows that the root is the same for every order. The resolver of devices is a
  parameter, as in the code.
\<close>

section \<open>Model\<close>

record Commit =
  cm_Head :: Head
  cm_Records :: "Envelope list"
  cm_Purged :: "ID list"

type_synonym DeviceResolver = "ID \<Rightarrow> (ID \<times> bytes) result"

record VaultState =
  vs_vault :: ID
  vs_cursor :: ChainCursor
  vs_leaves :: "(ID, Leaf) go_map"

definition NewVaultState :: "crypto \<Rightarrow> ID \<Rightarrow> VaultState result" where
  "NewVaultState cr vault =
    (case GenesisCursor cr vault of
       Inl err \<Rightarrow> Inl err
     | Inr cur \<Rightarrow> Inr \<lparr>vs_vault = vault, vs_cursor = cur, vs_leaves = fmempty\<rparr>)"

definition VaultState_Version :: "VaultState \<Rightarrow> ID \<Rightarrow> u64 \<times> bool" where
  "VaultState_Version s record_id =
    (case fmlookup (vs_leaves s) record_id of None \<Rightarrow> (0, False) | Some l \<Rightarrow> (l_Version l, True))"

definition VaultState_Leaves :: "VaultState \<Rightarrow> Leaf list" where
  "VaultState_Leaves s =
    map (\<lambda>i. the (fmlookup (vs_leaves s) i)) (sorted_list_of_fset (fmdom (vs_leaves s)))"

definition VaultState_Len :: "VaultState \<Rightarrow> nat" where
  "VaultState_Len s = fcard (fmdom (vs_leaves s))"

definition authorizeAuthor ::
    "crypto \<Rightarrow> Head \<Rightarrow> MembershipState \<Rightarrow> DeviceResolver \<Rightarrow> (ID \<times> bytes) result" where
  "authorizeAuthor cr h m resolve =
    (case resolve (h_Author h) of
       Inl err \<Rightarrow> Inl err
     | Inr (account, key) \<Rightarrow>
         if IsDeviceRevoked m (h_Author h) then Inl [ErrRevokedDevice]
         else if \<not> CanWrite (MembershipState_Role m account) then Inl [ErrNotAuthorized]
         else (case Head_Verify cr h key of
             Some err \<Rightarrow> Inl err
           | None \<Rightarrow> Inr (account, key)))"

text \<open>The version of a record in a map of leaves; a missing leaf reads as version 0.\<close>

definition leaf_version :: "(ID, Leaf) go_map \<Rightarrow> ID \<Rightarrow> u64" where
  "leaf_version m i = (case fmlookup m i of None \<Rightarrow> 0 | Some l \<Rightarrow> l_Version l)"

fun records_loop ::
    "crypto \<Rightarrow> ID \<Rightarrow> ID \<Rightarrow> bytes \<Rightarrow> u32 \<Rightarrow> Envelope list \<Rightarrow> ID go_set \<Rightarrow> (ID, Leaf) go_map \<Rightarrow> (ID, Leaf) go_map result" where
  "records_loop cr vault author key epoch [] seen leaves = Inr leaves"
| "records_loop cr vault author key epoch (e # es) seen leaves =
    (if e_Vault e \<noteq> vault \<or> e_Author e \<noteq> author then Inl [ErrCommitAuthor]
     else (case Envelope_Verify cr e key of
         Some err \<Rightarrow> Inl err
       | None \<Rightarrow>
           if e_Record e |\<in>| seen \<or> e_Version e \<noteq> leaf_version leaves (e_Record e) + 1 then Inl [ErrRecordVersion]
           else if e_Epoch e \<noteq> epoch then Inl [ErrEpochMismatch]
           else (case LeafOf cr e of
               Inl err \<Rightarrow> Inl err
             | Inr leaf \<Rightarrow> records_loop cr vault author key epoch es (finsert (e_Record e) seen)
                 (fmupd (e_Record e) leaf leaves))))"

definition applyRecords ::
    "crypto \<Rightarrow> VaultState \<Rightarrow> Envelope list \<Rightarrow> ID \<Rightarrow> bytes \<Rightarrow> u32 \<Rightarrow> VaultState result" where
  "applyRecords cr s records author key epoch =
    (case records_loop cr (vs_vault s) author key epoch records {||} (vs_leaves s) of
       Inl err \<Rightarrow> Inl err
     | Inr leaves \<Rightarrow> Inr (s\<lparr>vs_leaves := leaves\<rparr>))"

fun purge_loop :: "ID go_set \<Rightarrow> ID list \<Rightarrow> (ID, Leaf) go_map \<Rightarrow> (ID, Leaf) go_map result" where
  "purge_loop written [] leaves = Inr leaves"
| "purge_loop written (i # is) leaves =
    (case fmlookup leaves i of
       None \<Rightarrow> Inl [ErrPurge]
     | Some leaf \<Rightarrow>
         if i |\<in>| written \<or> \<not> l_Deleted leaf then Inl [ErrPurge]
         else purge_loop written is (fmdrop i leaves))"

definition applyPurges :: "VaultState \<Rightarrow> ID list \<Rightarrow> Envelope list \<Rightarrow> VaultState result" where
  "applyPurges s purged records =
    (case purge_loop (fset_of_list (map e_Record records)) purged (vs_leaves s) of
       Inl err \<Rightarrow> Inl err
     | Inr leaves \<Rightarrow> Inr (s\<lparr>vs_leaves := leaves\<rparr>))"

definition ApplyCommit ::
    "crypto \<Rightarrow> VaultState \<Rightarrow> Commit \<Rightarrow> MembershipState \<Rightarrow> DeviceResolver \<Rightarrow> VaultState result" where
  "ApplyCommit cr s c m resolve =
    (let h = cm_Head c in
     if h_Vault h \<noteq> vs_vault s then Inl [ErrChainBroken]
     else (case VerifyLink (vs_cursor s) h of
         Some err \<Rightarrow> Inl err
       | None \<Rightarrow>
           if h_MembershipSeq h \<noteq> ms_seq m \<or> h_MembershipHead h \<noteq> ms_hash m then Inl [ErrMembershipMismatch]
           else (case authorizeAuthor cr h m resolve of
               Inl err \<Rightarrow> Inl err
             | Inr (account, key) \<Rightarrow>
                 if length (cm_Purged c) > 0 \<and> \<not> CanManage (MembershipState_Role m account)
                 then Inl [ErrNotAuthorized]
                 else if h_CurrentEpoch h \<noteq> ms_epoch m then Inl [ErrEpochMismatch]
                 else bind_res (applyRecords cr s (cm_Records c) (h_Author h) key (ms_epoch m)) (\<lambda>next.
                   bind_res (applyPurges next (cm_Purged c) (cm_Records c)) (\<lambda>next.
                   bind_res (MerkleRoot cr (VaultState_Leaves next)) (\<lambda>root.
                     if root \<noteq> h_MerkleRoot h then Inl [ErrRootMismatch]
                     else bind_res (Advance cr (vs_cursor s) h) (\<lambda>cur.
                       Inr (next\<lparr>vs_cursor := cur\<rparr>))))))))"

fun leaves_loop :: "Leaf list \<Rightarrow> (ID, Leaf) go_map \<Rightarrow> (ID, Leaf) go_map result" where
  "leaves_loop [] m = Inr m"
| "leaves_loop (l # ls) m =
    (if l_Record l |\<in>| fmdom m then Inl [ErrRootMismatch] else leaves_loop ls (fmupd (l_Record l) l m))"

definition RestoreVaultStateFromLeaves ::
    "crypto \<Rightarrow> ID \<Rightarrow> Head option \<Rightarrow> Leaf list \<Rightarrow> VaultState result" where
  "RestoreVaultStateFromLeaves cr vault head_opt leaves =
    bind_res (NewVaultState cr vault) (\<lambda>s.
      case head_opt of
        None \<Rightarrow> if length leaves \<noteq> 0 then Inl [ErrRootMismatch] else Inr s
      | Some h \<Rightarrow>
          if h_Vault h \<noteq> vault then Inl [ErrChainBroken]
          else bind_res (leaves_loop leaves (vs_leaves s)) (\<lambda>m.
            let s = s\<lparr>vs_leaves := m\<rparr> in
            if MerkleRoot cr (VaultState_Leaves s) \<noteq> Inr (h_MerkleRoot h) then Inl [ErrRootMismatch]
            else bind_res (Head_Hash cr h) (\<lambda>hash.
              Inr (s\<lparr>vs_cursor := \<lparr>cur_Seq = h_Seq h, cur_Hash = hash, cur_MembershipSeq = h_MembershipSeq h\<rparr>\<rparr>))))"

fun record_leaves :: "crypto \<Rightarrow> ID \<Rightarrow> Envelope list \<Rightarrow> Leaf list result" where
  "record_leaves cr vault [] = Inr []"
| "record_leaves cr vault (e # es) =
    (if e_Vault e \<noteq> vault then Inl [ErrRootMismatch]
     else bind_res (LeafOf cr e) (\<lambda>leaf. bind_res (record_leaves cr vault es) (\<lambda>ls. Inr (leaf # ls))))"

definition RestoreVaultState :: "crypto \<Rightarrow> ID \<Rightarrow> Head option \<Rightarrow> Envelope list \<Rightarrow> VaultState result" where
  "RestoreVaultState cr vault head_opt records =
    (if (case head_opt of None \<Rightarrow> False | Some h \<Rightarrow> h_Vault h \<noteq> vault) then Inl [ErrChainBroken]
     else bind_res (record_leaves cr vault records) (RestoreVaultStateFromLeaves cr vault head_opt))"

text \<open>A commit with the membership state and the device resolver it is checked against.\<close>

type_synonym commit_step_in = "Commit \<times> MembershipState \<times> DeviceResolver"

definition commit_step :: "crypto \<Rightarrow> VaultState \<Rightarrow> commit_step_in \<Rightarrow> VaultState result" where
  "commit_step cr s x = (case x of (c, m, resolve) \<Rightarrow> ApplyCommit cr s c m resolve)"

section \<open>Lemmas\<close>

lemma records_loop_Inr:
  assumes "records_loop cr vault author key epoch es seen m = Inr m'"
  shows "distinct (map e_Record es) \<and>
    (\<forall>e \<in> set es. e_Record e |\<notin>| seen \<and> e_Vault e = vault \<and> e_Author e = author \<and>
      Envelope_Verify cr e key = None \<and> e_Epoch e = epoch \<and> e_Version e = leaf_version m (e_Record e) + 1 \<and>
      (\<exists>l. LeafOf cr e = Inr l \<and> fmlookup m' (e_Record e) = Some l)) \<and>
    (\<forall>r. r \<notin> e_Record ` set es \<longrightarrow> fmlookup m' r = fmlookup m r)"
  using assms
proof (induction cr vault author key epoch es seen m rule: records_loop.induct)
  case (2 cr vault author key epoch e es seen m)
  from "2.prems" obtain l where l: "LeafOf cr e = Inr l" "Envelope_Verify cr e key = None"
    "e_Vault e = vault" "e_Author e = author" "e_Record e |\<notin>| seen"
    "e_Version e = leaf_version m (e_Record e) + 1" "e_Epoch e = epoch"
    "records_loop cr vault author key epoch es (finsert (e_Record e) seen) (fmupd (e_Record e) l m) = Inr m'"
    by (simp split: if_split_asm option.split_asm sum.split_asm)
  have IH: "distinct (map e_Record es)"
    "\<forall>f \<in> set es. e_Record f |\<notin>| finsert (e_Record e) seen \<and> e_Vault f = vault \<and> e_Author f = author \<and>
      Envelope_Verify cr f key = None \<and> e_Epoch f = epoch \<and>
      e_Version f = leaf_version (fmupd (e_Record e) l m) (e_Record f) + 1 \<and>
      (\<exists>l. LeafOf cr f = Inr l \<and> fmlookup m' (e_Record f) = Some l)"
    "\<forall>r. r \<notin> e_Record ` set es \<longrightarrow> fmlookup m' r = fmlookup (fmupd (e_Record e) l m) r"
    using "2.IH" [OF _ l(2) _ _ l(1,8)] l(3-7) by simp_all
  have new: "e_Record e \<notin> e_Record ` set es" using IH(2) by auto
  moreover have "fmlookup m' (e_Record e) = Some l" using IH(3) new by simp
  moreover have "\<forall>f \<in> set es. leaf_version (fmupd (e_Record e) l m) (e_Record f) = leaf_version m (e_Record f)"
    using new by (auto simp: leaf_version_def image_iff)
  ultimately show ?case using IH l by simp
qed simp

lemma purge_loop_Inr:
  assumes "purge_loop written is m = Inr m'"
  shows "distinct is \<and> (\<forall>i \<in> set is. i |\<notin>| written \<and> (\<exists>l. fmlookup m i = Some l \<and> l_Deleted l)) \<and>
    (\<forall>r. fmlookup m' r = (if r \<in> set is then None else fmlookup m r))"
  using assms
proof (induction written "is" m rule: purge_loop.induct)
  case (2 written i "is" m)
  then obtain l where l: "fmlookup m i = Some l" "i |\<notin>| written" "l_Deleted l"
    "purge_loop written is (fmdrop i m) = Inr m'"
    by (auto split: option.splits if_splits)
  with 2 have IH: "distinct is" "\<forall>j \<in> set is. j |\<notin>| written \<and> (\<exists>l. fmlookup (fmdrop i m) j = Some l \<and> l_Deleted l)"
    "\<forall>r. fmlookup m' r = (if r \<in> set is then None else fmlookup (fmdrop i m) r)"
    by auto
  from IH(2) have "i \<notin> set is" by auto
  with IH l show ?case by (auto split: if_splits)
qed simp

lemma authorizeAuthor_Inr:
  "authorizeAuthor cr h m resolve = Inr (account, key) \<longleftrightarrow>
    resolve (h_Author h) = Inr (account, key) \<and> \<not> IsDeviceRevoked m (h_Author h) \<and>
    CanWrite (MembershipState_Role m account) \<and> Head_Verify cr h key = None"
  by (auto simp: authorizeAuthor_def split: sum.splits option.splits if_splits)

text \<open>Everything an accepted commit passed, and the state it gives.\<close>

lemma ApplyCommit_Inr:
  "ApplyCommit cr s c m resolve = Inr t \<longleftrightarrow>
    (\<exists>account key leaves1 leaves2.
      h_Vault (cm_Head c) = vs_vault s \<and> VerifyLink (vs_cursor s) (cm_Head c) = None \<and>
      h_MembershipSeq (cm_Head c) = ms_seq m \<and> h_MembershipHead (cm_Head c) = ms_hash m \<and>
      authorizeAuthor cr (cm_Head c) m resolve = Inr (account, key) \<and>
      (cm_Purged c \<noteq> [] \<longrightarrow> CanManage (MembershipState_Role m account)) \<and>
      h_CurrentEpoch (cm_Head c) = ms_epoch m \<and>
      records_loop cr (vs_vault s) (h_Author (cm_Head c)) key (ms_epoch m) (cm_Records c) {||} (vs_leaves s) = Inr leaves1 \<and>
      purge_loop (fset_of_list (map e_Record (cm_Records c))) (cm_Purged c) leaves1 = Inr leaves2 \<and>
      MerkleRoot cr (VaultState_Leaves t) = Inr (h_MerkleRoot (cm_Head c)) \<and>
      Advance cr (vs_cursor s) (cm_Head c) = Inr (vs_cursor t) \<and>
      t = \<lparr>vs_vault = vs_vault s, vs_cursor = vs_cursor t, vs_leaves = leaves2\<rparr>)"
  by (cases s; cases t)
     (auto simp: ApplyCommit_def Let_def applyRecords_def applyPurges_def bind_res_Inr
        VaultState_Leaves_def split: sum.splits option.splits if_splits)

definition vs_ok :: "VaultState \<Rightarrow> bool" where
  "vs_ok s \<longleftrightarrow> (\<forall>r l. fmlookup (vs_leaves s) r = Some l \<longrightarrow> l_Record l = r \<and> l_Version l \<noteq> 0)"

lemma LeafOf_Inr:
  "LeafOf cr e = Inr l \<Longrightarrow> l_Record l = e_Record e \<and> l_Version l = e_Version e \<and> l_Deleted l = e_Deleted e \<and>
    Envelope_Digest cr e = Inr (l_Digest l)"
  by (auto simp: LeafOf_def split: sum.splits)

text \<open>The effect of an accepted commit, record by record.\<close>

lemma ApplyCommit_effect:
  assumes "ApplyCommit cr s c m resolve = Inr t"
  shows "distinct (map e_Record (cm_Records c))" and "distinct (cm_Purged c)"
    and "e \<in> set (cm_Records c) \<Longrightarrow> e_Record e \<notin> set (cm_Purged c) \<and>
      unat (e_Version e) = unat (leaf_version (vs_leaves s) (e_Record e)) + 1 \<and>
      (\<exists>l. LeafOf cr e = Inr l \<and> fmlookup (vs_leaves t) (e_Record e) = Some l)"
    and "i \<in> set (cm_Purged c) \<Longrightarrow> fmlookup (vs_leaves t) i = None \<and>
      (\<exists>l. fmlookup (vs_leaves s) i = Some l \<and> l_Deleted l)"
    and "r \<notin> e_Record ` set (cm_Records c) \<Longrightarrow> r \<notin> set (cm_Purged c) \<Longrightarrow>
      fmlookup (vs_leaves t) r = fmlookup (vs_leaves s) r"
proof -
  from assms obtain account key l1 l2 where
    rec: "records_loop cr (vs_vault s) (h_Author (cm_Head c)) key (ms_epoch m) (cm_Records c) {||} (vs_leaves s) = Inr l1"
    and pur: "purge_loop (fset_of_list (map e_Record (cm_Records c))) (cm_Purged c) l1 = Inr l2"
    and t: "vs_leaves t = l2"
    unfolding ApplyCommit_Inr by (metis VaultState.select_convs(3))
  note R = records_loop_Inr [OF rec] and P = purge_loop_Inr [OF pur]
  show "distinct (map e_Record (cm_Records c))" "distinct (cm_Purged c)" using R P by blast+
  have disj: "i \<notin> e_Record ` set (cm_Records c)" if "i \<in> set (cm_Purged c)" for i
    using P that by (auto simp: fset_of_list.rep_eq)
  show "e_Record e \<notin> set (cm_Purged c) \<and> unat (e_Version e) = unat (leaf_version (vs_leaves s) (e_Record e)) + 1 \<and>
      (\<exists>l. LeafOf cr e = Inr l \<and> fmlookup (vs_leaves t) (e_Record e) = Some l)" if e: "e \<in> set (cm_Records c)"
  proof -
    have ver: "e_Version e = leaf_version (vs_leaves s) (e_Record e) + 1" and "Envelope_Verify cr e key = None"
      using R e by blast+
    then have "e_Version e \<noteq> 0"
      unfolding Envelope_Verify_None using Envelope_Validate_version by blast
    with ver have "unat (e_Version e) = unat (leaf_version (vs_leaves s) (e_Record e)) + 1"
      using unatSuc [of "leaf_version (vs_leaves s) (e_Record e)"] by (simp add: add.commute)
    moreover have "e_Record e \<notin> set (cm_Purged c)" using disj e by blast
    ultimately show ?thesis using R P t e by auto
  qed
  show "fmlookup (vs_leaves t) i = None \<and> (\<exists>l. fmlookup (vs_leaves s) i = Some l \<and> l_Deleted l)"
    if i: "i \<in> set (cm_Purged c)"
    using R P t i disj [OF i] by auto
  show "fmlookup (vs_leaves t) r = fmlookup (vs_leaves s) r"
    if "r \<notin> e_Record ` set (cm_Records c)" "r \<notin> set (cm_Purged c)"
    using R P t that by auto
qed

lemma vs_ok_step:
  assumes "vs_ok s" and "commit_step cr s x = Inr t"
  shows "vs_ok t"
proof -
  obtain c m resolve where x: "x = (c, m, resolve)" by (cases x)
  with assms(2) have c: "ApplyCommit cr s c m resolve = Inr t" by (simp add: commit_step_def)
  have "l_Record l = r \<and> l_Version l \<noteq> 0" if l: "fmlookup (vs_leaves t) r = Some l" for r l
  proof (cases "r \<in> e_Record ` set (cm_Records c)")
    case True
    then obtain e where e: "e \<in> set (cm_Records c)" "r = e_Record e" by blast
    with ApplyCommit_effect(3) [OF c e(1)] l LeafOf_Inr [of cr e l] show ?thesis
      by (metis Suc_eq_plus1 nat.distinct(1) option.inject sum.inject(2) unat_0)
  next
    case False
    moreover have "r \<notin> set (cm_Purged c)" using ApplyCommit_effect(4) [OF c, of r] l by auto
    ultimately show ?thesis using ApplyCommit_effect(5) [OF c] l assms(1) by (simp add: vs_ok_def)
  qed
  then show ?thesis by (simp add: vs_ok_def)
qed

interpretation vault_inv: log_invariant "commit_step cr" vs_ok for cr
  by unfold_locales (rule vs_ok_step)

section \<open>Leaves and snapshots\<close>

text \<open>Every leaf is stored under its own record.\<close>

definition keyed :: "VaultState \<Rightarrow> bool" where
  "keyed s \<longleftrightarrow> (\<forall>r l. fmlookup (vs_leaves s) r = Some l \<longrightarrow> l_Record l = r)"

lemma vs_ok_keyed: "vs_ok s \<Longrightarrow> keyed s"
  by (simp add: vs_ok_def keyed_def)

lemma Leaves_records: "keyed s \<Longrightarrow> map l_Record (VaultState_Leaves s) = sorted_list_of_fset (fmdom (vs_leaves s))"
  unfolding VaultState_Leaves_def map_map
  by (rule map_idI) (auto simp: keyed_def sorted_list_of_fset.rep_eq fmlookup_dom_iff)

lemma Leaves_distinct: "keyed s \<Longrightarrow> distinct (map l_Record (VaultState_Leaves s))"
  by (simp add: Leaves_records sorted_list_of_fset.rep_eq)

lemma Leaves_set: "l \<in> set (VaultState_Leaves s) \<longleftrightarrow> (\<exists>r. fmlookup (vs_leaves s) r = Some l)"
proof
  show "\<exists>r. fmlookup (vs_leaves s) r = Some l" if "l \<in> set (VaultState_Leaves s)"
    using that by (auto simp: VaultState_Leaves_def sorted_list_of_fset.rep_eq fmlookup_dom_iff)
  show "l \<in> set (VaultState_Leaves s)" if "\<exists>r. fmlookup (vs_leaves s) r = Some l"
    using that by (force simp: VaultState_Leaves_def sorted_list_of_fset.rep_eq intro: fmdomI)
qed

lemma Leaves_lookup:
  "keyed s \<Longrightarrow> fmlookup (vs_leaves s) r = Some l \<longleftrightarrow> l \<in> set (VaultState_Leaves s) \<and> l_Record l = r"
  by (auto simp: Leaves_set keyed_def)

lemma leaves_loop_lookup:
  assumes "distinct (map l_Record ls)" and "l_Record ` set ls \<inter> fset (fmdom m) = {}"
  shows "\<exists>m'. leaves_loop ls m = Inr m' \<and>
    (\<forall>r l. fmlookup m' r = Some l \<longleftrightarrow> l \<in> set ls \<and> l_Record l = r \<or> fmlookup m r = Some l)"
  using assms
proof (induction ls arbitrary: m)
  case (Cons k ls)
  then have "\<exists>m'. leaves_loop ls (fmupd (l_Record k) k m) = Inr m' \<and>
    (\<forall>r l. fmlookup m' r = Some l \<longleftrightarrow> l \<in> set ls \<and> l_Record l = r \<or> fmlookup (fmupd (l_Record k) k m) r = Some l)"
    by (intro Cons.IH) auto
  moreover have "l_Record k |\<notin>| fmdom m" using Cons.prems by auto
  ultimately show ?case by (auto dest: fmdomI split: if_splits)
qed simp

lemma leaves_loop_distinct:
  "leaves_loop ls m = Inr m' \<Longrightarrow> distinct (map l_Record ls) \<and> l_Record ` set ls \<inter> fset (fmdom m) = {}"
  by (induction ls m rule: leaves_loop.induct) (auto split: if_splits)

lemma leaves_loop_iff:
  "leaves_loop ls fmempty = Inr (vs_leaves s) \<longleftrightarrow> keyed s \<and> mset ls = mset (VaultState_Leaves s)"
proof
  assume loop: "leaves_loop ls fmempty = Inr (vs_leaves s)"
  then have dist: "distinct (map l_Record ls)" by (auto dest: leaves_loop_distinct)
  then have look: "fmlookup (vs_leaves s) r = Some l \<longleftrightarrow> l \<in> set ls \<and> l_Record l = r" for r l
    using leaves_loop_lookup [of ls fmempty] loop by auto
  then have k: "keyed s" by (auto simp: keyed_def)
  moreover have "set ls = set (VaultState_Leaves s)" using look by (auto simp: Leaves_set)
  moreover have "distinct ls" "distinct (VaultState_Leaves s)"
    using dist Leaves_distinct [OF k] by (simp_all add: distinct_map)
  ultimately show "keyed s \<and> mset ls = mset (VaultState_Leaves s)"
    by (simp add: set_eq_iff_mset_eq_distinct)
next
  assume s: "keyed s \<and> mset ls = mset (VaultState_Leaves s)"
  then have "distinct (map l_Record ls)"
    using Leaves_distinct [of s] mset_eq_imp_distinct_iff [of "map l_Record ls" "map l_Record (VaultState_Leaves s)"]
    by auto
  then obtain m where m: "leaves_loop ls fmempty = Inr m"
    "\<And>r l. fmlookup m r = Some l \<longleftrightarrow> l \<in> set ls \<and> l_Record l = r"
    using leaves_loop_lookup [of ls fmempty] by auto
  have "set ls = set (VaultState_Leaves s)" using s mset_eq_setD by blast
  then have "fmlookup m r = fmlookup (vs_leaves s) r" for r
    using m(2) [of r] Leaves_lookup [of s r] s by (metis not_Some_eq)
  then have "m = vs_leaves s" by (rule fmap_ext)
  with m(1) show "leaves_loop ls fmempty = Inr (vs_leaves s)" by simp
qed

lemma NewVaultState_Inr:
  "NewVaultState cr v = Inr s \<longleftrightarrow>
    s = \<lparr>vs_vault = v, vs_cursor = \<lparr>cur_Seq = 0, cur_Hash = sha256 cr (genesis_preimage v), cur_MembershipSeq = 0\<rparr>,
      vs_leaves = fmempty\<rparr>"
  by (auto simp: NewVaultState_def GenesisCursor_eq)

text \<open>A restored state holds exactly the leaves it was given, under a head with their root.\<close>

lemma RestoreFromLeaves_Inr:
  "RestoreVaultStateFromLeaves cr v (Some h) ls = Inr s \<longleftrightarrow>
    h_Vault h = v \<and> keyed s \<and> mset (VaultState_Leaves s) = mset ls \<and>
    MerkleRoot cr ls = Inr (h_MerkleRoot h) \<and> head_fits h \<and> vs_vault s = v \<and>
    vs_cursor s = \<lparr>cur_Seq = h_Seq h, cur_Hash = sha256 cr (head_preimage h), cur_MembershipSeq = h_MembershipSeq h\<rparr>"
  (is "?L \<longleftrightarrow> ?R")
proof -
  let ?new = "\<lambda>m. \<lparr>vs_vault = v, vs_cursor = \<lparr>cur_Seq = h_Seq h, cur_Hash = sha256 cr (head_preimage h),
    cur_MembershipSeq = h_MembershipSeq h\<rparr>, vs_leaves = m\<rparr>"
  obtain s0 where s0: "NewVaultState cr v = Inr s0" "vs_leaves s0 = fmempty" "vs_vault s0 = v"
    by (simp add: NewVaultState_Inr)
  have lv: "VaultState_Leaves (s0\<lparr>vs_leaves := m\<rparr>) = VaultState_Leaves (?new m)" for m
    by (simp add: VaultState_Leaves_def)
  have "?L \<longleftrightarrow> (\<exists>m. h_Vault h = v \<and> leaves_loop ls fmempty = Inr m \<and>
      MerkleRoot cr (VaultState_Leaves (?new m)) = Inr (h_MerkleRoot h) \<and> head_fits h \<and> s = ?new m)"
    using s0 unfolding RestoreVaultStateFromLeaves_def lv [symmetric]
    by (cases s0) (auto simp: bind_res_Inr Let_def Head_Hash_eq)
  also have "\<dots> \<longleftrightarrow> h_Vault h = v \<and> leaves_loop ls fmempty = Inr (vs_leaves s) \<and>
      MerkleRoot cr (VaultState_Leaves s) = Inr (h_MerkleRoot h) \<and> head_fits h \<and> s = ?new (vs_leaves s)"
    by (metis VaultState.select_convs(3))
  also have "\<dots> \<longleftrightarrow> ?R"
    unfolding leaves_loop_iff using MerkleRoot_perm [of ls "VaultState_Leaves s" cr] by (cases s) auto
  finally show ?thesis .
qed

lemma commit_step_cursor:
  "commit_step cr s x = Inr t \<Longrightarrow>
    vs_vault t = vs_vault s \<and> h_Vault (cm_Head (fst x)) = vs_vault s \<and>
    Advance cr (vs_cursor s) (cm_Head (fst x)) = Inr (vs_cursor t) \<and>
    MerkleRoot cr (VaultState_Leaves t) = Inr (h_MerkleRoot (cm_Head (fst x)))"
  unfolding commit_step_def by (cases x) (auto simp: ApplyCommit_Inr dest: arg_cong [where f = vs_vault])

lemma replay_cursor:
  "replay (commit_step cr) s xs = Inr t \<Longrightarrow>
    vs_vault t = vs_vault s \<and> AdvanceAll cr (vs_cursor s) (map (cm_Head \<circ> fst) xs) = Inr (vs_cursor t)"
proof (induction xs arbitrary: s)
  case (Cons x xs)
  then obtain u where "commit_step cr s x = Inr u" "replay (commit_step cr) u xs = Inr t"
    by (auto split: sum.splits)
  with Cons.IH [of u] commit_step_cursor [of cr s x u] show ?case by simp
qed simp

lemma vs_ok_reachable:
  "NewVaultState cr v = Inr s0 \<Longrightarrow> replay (commit_step cr) s0 xs = Inr s \<Longrightarrow> vs_ok s"
  by (rule vault_inv.inv_replay) (auto simp: NewVaultState_Inr vs_ok_def)

lemma MerkleRoot_keys:
  assumes "map leaf_key ls = map leaf_key ks"
  shows "MerkleRoot cr ls = MerkleRoot cr ks"
proof -
  have rec: "map l_Record ls = map l_Record ks"
    using arg_cong [OF assms, of "map fst"] by (simp add: leaf_key_def comp_def)
  have "map leaf_key (insort_key l_Record x xs) = insort_key fst (leaf_key x) (map leaf_key xs)" for x xs
    by (induction xs) (simp_all add: leaf_key_def)
  then have sort: "map leaf_key (sort_key l_Record xs) = sort_key fst (map leaf_key xs)" for xs
    by (induction xs) simp_all
  have "map (\<lambda>l. MLeaf (leaf_key l)) (sort_key l_Record xs) = map MLeaf (sort_key fst (map leaf_key xs))" for xs
    unfolding sort [symmetric] by simp
  moreover have "ls = [] \<longleftrightarrow> ks = []" using map_eq_imp_length_eq [OF assms] by auto
  ultimately show ?thesis unfolding MerkleRoot_eq rec by (simp add: assms)
qed

section \<open>Sample commit\<close>

text \<open>The vault of the sample membership log receives a first commit that deletes record 8.\<close>

definition vc_crypto :: crypto where
  "vc_crypto = \<lparr>sha256 = (\<lambda>bs. if bs = genesis_preimage 1 then 1
       else if bs = encode_fields (leaf_fields (8, 1, 2)) then 3 else 2),
     sha512 = (\<lambda>_. replicate 64 0), ed25519_Verify = (\<lambda>k m s. take 32 s = k)\<rparr>"

definition vc_env :: Envelope where
  "vc_env = \<lparr>e_Vault = 1, e_Record = 8, e_Version = 1, e_Epoch = 1, e_Suite = Suite1, e_Deleted = True,
     e_WrappedDEK = [], e_Body = [], e_Author = 7, e_SigAlg = SigEd25519, e_Sig = replicate 64 0\<rparr>"

definition vc_commit :: Commit where
  "vc_commit = \<lparr>cm_Head = \<lparr>h_Vault = 1, h_Seq = 1, h_PrevHash = 1, h_MerkleRoot = 3, h_CurrentEpoch = 1,
       h_MembershipSeq = 4, h_MembershipHead = 5, h_Commit = 8, h_Author = 7, h_ClientTimeUnixMilli = 0,
       h_SigAlg = SigEd25519, h_Sig = replicate 64 0\<rparr>,
     cm_Records = [vc_env], cm_Purged = []\<rparr>"

definition vc_resolve :: DeviceResolver where
  "vc_resolve device = (if device = 7 then Inr (4, replicate 32 0) else Inl [ErrForeign ''unknown device''])"

definition vc_leaf :: Leaf where
  "vc_leaf = \<lparr>l_Record = 8, l_Version = 1, l_Digest = 2, l_Deleted = True\<rparr>"

definition vc_s0 :: VaultState where
  "vc_s0 = \<lparr>vs_vault = 1, vs_cursor = \<lparr>cur_Seq = 0, cur_Hash = 1, cur_MembershipSeq = 0\<rparr>, vs_leaves = fmempty\<rparr>"

definition vc_s1 :: VaultState where
  "vc_s1 = \<lparr>vs_vault = 1, vs_cursor = \<lparr>cur_Seq = 1, cur_Hash = 2, cur_MembershipSeq = 4\<rparr>,
     vs_leaves = fmupd 8 vc_leaf fmempty\<rparr>"

lemma vc_fields_distinct:
  assumes "list_all fits fs" and "length fs = 3"
  shows "encode_fields fs \<noteq> genesis_preimage 1" and "encode_fields fs \<noteq> encode_fields (leaf_fields k)"
proof -
  show "encode_fields fs \<noteq> genesis_preimage 1"
    using encode_fields_inj [of fs "[str_bytes LabelHeadHash, be_bytes (1 :: ID)]"] assms
    by (auto simp: genesis_preimage_def)
  show "encode_fields fs \<noteq> encode_fields (leaf_fields k)"
    using encode_fields_inj [of fs "leaf_fields k"] assms by (auto simp: leaf_fields_def split: prod.splits)
qed

lemma vc_leaf_not_genesis: "encode_fields (leaf_fields k) \<noteq> genesis_preimage 1"
  using encode_fields_inj [of "leaf_fields k" "[str_bytes LabelHeadHash, be_bytes (1 :: ID)]"]
  by (auto simp: genesis_preimage_def leaf_fields_def split: prod.splits)

lemma vc_sha3: "list_all fits fs \<Longrightarrow> length fs = 3 \<Longrightarrow> sha256 vc_crypto (encode_fields fs) = 2"
  using vc_fields_distinct [of fs] by (simp add: vc_crypto_def)

lemma vc_head_fits: "head_fits (cm_Head vc_commit)"
  by (simp add: head_fits_def fits_def head_fields_def label_defs MaxUint32_def vc_commit_def)

lemma vc_head_hash: "sha256 vc_crypto (head_preimage (cm_Head vc_commit)) = 2"
  using vc_head_fits unfolding head_preimage_def by (intro vc_sha3) (simp_all add: head_fits_def)

lemma vc_env_valid: "Envelope_Validate vc_env = None"
  by (simp add: Envelope_Validate_def validateContent_def vc_env_def ID_IsZero_def ed25519_SignatureSize_def)

lemma vc_env_bytes: "Envelope_SigningBytes vc_env = Inr (encode_fields (envelope_fields vc_env))"
  using Envelope_Validate_fits(1) [OF vc_env_valid] by (simp add: Envelope_SigningBytes_fields canon_result_def)

lemma vc_env_verify: "Envelope_Verify vc_crypto vc_env (replicate 32 0) = None"
  unfolding Envelope_Verify_None using vc_env_valid vc_env_bytes
  by (simp add: VerifySignature_None) (simp add: vc_env_def vc_crypto_def take_replicate)

lemma vc_env_leaf: "LeafOf vc_crypto vc_env = Inr vc_leaf"
proof -
  have "fits (encode_fields (envelope_fields vc_env))"
    by (simp add: fits_def envelope_fields_def vc_env_def label_defs MaxUint32_def)
  moreover have "fits (e_Sig vc_env)" using Envelope_Validate_fits(2) [OF vc_env_valid] .
  ultimately have "Envelope_Digest vc_crypto vc_env = Inr 2"
    using vc_sha3 [of "[str_bytes LabelEnvelope, encode_fields (envelope_fields vc_env), e_Sig vc_env]"]
    by (simp add: Envelope_Digest_fields vc_env_bytes canon_digest_def)
  then show ?thesis by (simp add: LeafOf_def vc_leaf_def vc_env_def)
qed

lemma vc_root: "MerkleRoot vc_crypto (VaultState_Leaves vc_s1) = Inr 3"
proof -
  have "VaultState_Leaves vc_s1 = [vc_leaf]"
    by (simp add: VaultState_Leaves_def vc_s1_def sorted_list_of_fset.rep_eq)
  then show ?thesis
    using vc_leaf_not_genesis [of "(8, 1, 2)"]
    by (simp add: MerkleRoot_eq build.simps leaf_key_def vc_leaf_def) (simp add: vc_crypto_def)
qed

lemma vc_step: "ApplyCommit vc_crypto vc_s0 vc_commit ml_s4 vc_resolve = Inr vc_s1"
proof -
  have auth: "authorizeAuthor vc_crypto (cm_Head vc_commit) ml_s4 vc_resolve = Inr (4, replicate 32 0)"
    unfolding authorizeAuthor_Inr
    by (simp add: Head_Verify_def Head_SigningBytes_eq VerifySignature_None)
       (simp add: vc_commit_def vc_resolve_def vc_crypto_def take_replicate IsDeviceRevoked_def
         MembershipState_Role_def ml_state_defs)
  have rec: "records_loop vc_crypto 1 7 (replicate 32 0) 1 [vc_env] {||} fmempty = Inr (fmupd 8 vc_leaf fmempty)"
    using vc_env_verify vc_env_leaf by (simp add: leaf_version_def vc_env_def)
  have link: "VerifyLink (vs_cursor vc_s0) (cm_Head vc_commit) = None"
    by (simp add: VerifyLink_def vc_s0_def vc_commit_def)
  then have adv: "Advance vc_crypto (vs_cursor vc_s0) (cm_Head vc_commit) = Inr (vs_cursor vc_s1)"
    using vc_head_fits vc_head_hash by (simp add: Advance_Inr vc_s1_def) (simp add: vc_commit_def)
  show ?thesis
    unfolding ApplyCommit_Inr
    by (intro exI [of _ 4] exI [of _ "replicate 32 0"] exI [of _ "fmupd 8 vc_leaf fmempty"])
       (use auth rec link adv vc_root in \<open>simp add: vc_commit_def ml_state_defs vc_s0_def vc_s1_def\<close>)
qed

lemma vc_s0_New: "NewVaultState vc_crypto 1 = Inr vc_s0"
  by (simp add: NewVaultState_Inr vc_s0_def vc_crypto_def)

lemma vc_run: "replay (commit_step vc_crypto) vc_s0 [(vc_commit, ml_s4, vc_resolve)] = Inr vc_s1"
  by (simp add: commit_step_def vc_step)

section \<open>Properties\<close>

text \<open>C7. An accepted commit is authorised: its head extends the chain by one and names the membership
  state it was checked against; its author device resolves to an account that may write, is not
  revoked and signed the head; every record is signed by that same device under the current epoch;
  and a commit that purges comes from a vault manager.\<close>

theorem ApplyCommit_authorised:
  assumes "ApplyCommit cr s c m resolve = Inr t"
  shows "\<exists>account key. resolve (h_Author (cm_Head c)) = Inr (account, key) \<and>
    CanWrite (MembershipState_Role m account) \<and> \<not> IsDeviceRevoked m (h_Author (cm_Head c)) \<and>
    Head_Verify cr (cm_Head c) key = None \<and>
    h_MembershipSeq (cm_Head c) = ms_seq m \<and> h_MembershipHead (cm_Head c) = ms_hash m \<and>
    h_CurrentEpoch (cm_Head c) = ms_epoch m \<and>
    (cm_Purged c \<noteq> [] \<longrightarrow> CanManage (MembershipState_Role m account)) \<and>
    (\<forall>e \<in> set (cm_Records c). e_Vault e = vs_vault s \<and> e_Author e = h_Author (cm_Head c) \<and>
      e_Epoch e = ms_epoch m \<and> Envelope_Verify cr e key = None) \<and>
    Advance cr (vs_cursor s) (cm_Head c) = Inr (vs_cursor t)"
  using assms unfolding ApplyCommit_Inr authorizeAuthor_Inr by (blast dest: records_loop_Inr)

theorem ApplyCommit_authorised_witness:
  "\<exists>account key. vc_resolve (h_Author (cm_Head vc_commit)) = Inr (account, key) \<and>
    CanWrite (MembershipState_Role ml_s4 account)"
  using ApplyCommit_authorised [OF vc_step] by blast



text \<open>C12. A snapshot reproduces the replay: the state a device built commit by commit is exactly what
  \<open>RestoreVaultStateFromLeaves\<close> gives from the last head and the leaves in any order.\<close>

theorem snapshot_equals_replay:
  assumes "NewVaultState cr v = Inr s0" and "replay (commit_step cr) s0 (xs @ [(c, m, resolve)]) = Inr t"
    and "mset ls = mset (VaultState_Leaves t)"
  shows "RestoreVaultStateFromLeaves cr v (Some (cm_Head c)) ls = Inr t"
proof -
  obtain u where u: "replay (commit_step cr) s0 xs = Inr u" "commit_step cr u (c, m, resolve) = Inr t"
    using assms(2) by (auto simp: replay_snoc)
  have v: "vs_vault u = v" "vs_vault t = v"
    using replay_cursor [OF u(1)] replay_cursor [OF assms(2)] assms(1) by (auto simp: NewVaultState_Inr)
  have step: "h_Vault (cm_Head c) = v" "Advance cr (vs_cursor u) (cm_Head c) = Inr (vs_cursor t)"
    "MerkleRoot cr (VaultState_Leaves t) = Inr (h_MerkleRoot (cm_Head c))"
    using commit_step_cursor [OF u(2)] v by simp_all
  have leaves: "VaultState_Leaves (s0\<lparr>vs_leaves := vs_leaves t\<rparr>) = VaultState_Leaves t"
    by (simp add: VaultState_Leaves_def)
  have "leaves_loop ls fmempty = Inr (vs_leaves t)"
    using leaves_loop_iff [of ls t] vs_ok_keyed [OF vs_ok_reachable [OF assms(1,2)]] assms(3) by simp
  moreover have "vs_leaves s0 = fmempty" "vs_vault s0 = v"
    using assms(1) by (auto simp: NewVaultState_Inr)
  ultimately show ?thesis
    using assms(1) step v leaves unfolding RestoreVaultStateFromLeaves_def
    by (cases t) (auto simp: Advance_Inr Head_Hash_eq Let_def)
qed

theorem snapshot_equals_replay_witness:
  "RestoreVaultStateFromLeaves vc_crypto 1 (Some (cm_Head vc_commit)) (VaultState_Leaves vc_s1) = Inr vc_s1"
  using snapshot_equals_replay [OF vc_s0_New, of "[]" vc_commit ml_s4 vc_resolve] vc_run by simp

text \<open>C3. Devices that agree on a position agree on the vault: if two devices replay commits of one vault
  from its start - each with the membership states and device keys it resolved itself - and end at
  the same chain hash, they applied the same heads and hold the same records at the same versions
  with the same digests. SHA-256 must not collide on the bytes hashed for the two chains and for
  the two final roots.\<close>

theorem replicas_converge:
  assumes "NewVaultState cr v = Inr s0"
    and "replay (commit_step cr) s0 xs = Inr s" and "replay (commit_step cr) s0 ys = Inr t"
    and "cur_Hash (vs_cursor s) = cur_Hash (vs_cursor t)"
    and "inj_on (sha256 cr) (insert (genesis_preimage v) (head_preimage ` (cm_Head \<circ> fst) ` (set xs \<union> set ys)) \<union>
      merkle_preimages cr (VaultState_Leaves s) \<union> merkle_preimages cr (VaultState_Leaves t))"
  shows "map (cm_Head \<circ> fst) xs = map (cm_Head \<circ> fst) ys \<and> vs_cursor s = vs_cursor t \<and>
    map_option leaf_key (fmlookup (vs_leaves s) r) = map_option leaf_key (fmlookup (vs_leaves t) r)"
proof -
  have g: "GenesisCursor cr v = Inr (vs_cursor s0)"
    using assms(1) by (auto simp: NewVaultState_Inr GenesisCursor_eq)
  note adv = replay_cursor [OF assms(2), THEN conjunct2] replay_cursor [OF assms(3), THEN conjunct2]
  have inj: "inj_on (sha256 cr) (insert (genesis_preimage v)
      (head_preimage ` (set (map (cm_Head \<circ> fst) xs) \<union> set (map (cm_Head \<circ> fst) ys))))"
    "inj_on (sha256 cr) (merkle_preimages cr (VaultState_Leaves s) \<union> merkle_preimages cr (VaultState_Leaves t))"
    using assms(5) by (rule inj_on_subset, force)+
  have heads: "map (cm_Head \<circ> fst) xs = map (cm_Head \<circ> fst) ys"
    using chain_binding [OF g adv assms(4) inj(1)] .
  then have cursor: "vs_cursor s = vs_cursor t" using adv by simp
  have keys: "leaf_key ` set (VaultState_Leaves s) = leaf_key ` set (VaultState_Leaves t)"
  proof (cases xs rule: rev_cases)
    case Nil
    then have "ys = []" using map_eq_imp_length_eq [OF heads] by simp
    with Nil assms(2,3) show ?thesis by simp
  next
    case xs: (snoc xs' x)
    then obtain ys' y where ys: "ys = ys' @ [y]"
      using map_eq_imp_length_eq [OF heads] by (cases ys rule: rev_cases) auto
    have "cm_Head (fst x) = cm_Head (fst y)" using heads by (simp add: xs ys)
    then have "MerkleRoot cr (VaultState_Leaves s) = Inr (h_MerkleRoot (cm_Head (fst x)))"
      "MerkleRoot cr (VaultState_Leaves t) = Inr (h_MerkleRoot (cm_Head (fst x)))"
      using assms(2,3) by (auto simp: xs ys replay_snoc dest!: commit_step_cursor)
    from arg_cong [OF merkle_binding [OF this inj(2)], of set] show ?thesis by simp
  qed
  have ok: "keyed s" "keyed t" using vs_ok_keyed vs_ok_reachable [OF assms(1)] assms(2,3) by blast+
  have half: "map_option leaf_key (fmlookup (vs_leaves b) r) = Some k"
    if "leaf_key ` set (VaultState_Leaves a) \<subseteq> leaf_key ` set (VaultState_Leaves b)" "keyed a" "keyed b"
      "map_option leaf_key (fmlookup (vs_leaves a) r) = Some k" for a b k
    using that Leaves_lookup [OF that(2), of r] Leaves_lookup [OF that(3), of r]
    by (force simp: leaf_key_def)
  have "map_option leaf_key (fmlookup (vs_leaves s) r) = map_option leaf_key (fmlookup (vs_leaves t) r)"
    using half [of s t] half [of t s] keys ok
    by (cases "map_option leaf_key (fmlookup (vs_leaves s) r)";
        cases "map_option leaf_key (fmlookup (vs_leaves t) r)") auto
  with heads cursor show ?thesis by blast
qed

theorem replicas_converge_witness:
  "vs_cursor vc_s1 = vs_cursor vc_s1 \<and>
    inj_on (sha256 vc_crypto) (insert (genesis_preimage 1) (head_preimage ` (cm_Head \<circ> fst) `
      (set [(vc_commit, ml_s4, vc_resolve)] \<union> set [(vc_commit, ml_s4, vc_resolve)])) \<union>
      merkle_preimages vc_crypto (VaultState_Leaves vc_s1) \<union> merkle_preimages vc_crypto (VaultState_Leaves vc_s1))"
proof -
  have "VaultState_Leaves vc_s1 = [vc_leaf]"
    by (simp add: VaultState_Leaves_def vc_s1_def sorted_list_of_fset.rep_eq)
  then have pre: "merkle_preimages vc_crypto (VaultState_Leaves vc_s1) = {encode_fields (leaf_fields (8, 1, 2))}"
    by (simp add: merkle_preimages_def build.simps leaf_key_def vc_leaf_def)
  have sha: "sha256 vc_crypto (genesis_preimage 1) = 1" "sha256 vc_crypto (encode_fields (leaf_fields (8, 1, 2))) = 3"
    using vc_leaf_not_genesis [of "(8, 1, 2)"] by (simp_all add: vc_crypto_def)
  have inj: "inj_on (sha256 vc_crypto) (insert (genesis_preimage 1) (head_preimage ` (cm_Head \<circ> fst) `
      (set [(vc_commit, ml_s4, vc_resolve)] \<union> set [(vc_commit, ml_s4, vc_resolve)])) \<union>
      merkle_preimages vc_crypto (VaultState_Leaves vc_s1) \<union> merkle_preimages vc_crypto (VaultState_Leaves vc_s1))"
    unfolding pre using sha vc_head_hash by (auto simp: inj_on_def)
  from replicas_converge [OF vc_s0_New vc_run vc_run refl inj] inj show ?thesis by blast
qed

text \<open>The Merkle root does not bind the deletion mark of a stored leaf: leaves that agree on record,
  version and digest restore under the same head whatever their marks say. A holder of leaves has to
  protect the marks itself; only envelopes, whose digest covers the mark, are bound to the root.\<close>

theorem restore_ignores_deletion_mark:
  assumes "RestoreVaultStateFromLeaves cr v (Some h) ls = Inr s" and "map leaf_key ks = map leaf_key ls"
  shows "\<exists>t. RestoreVaultStateFromLeaves cr v (Some h) ks = Inr t \<and> vs_cursor t = vs_cursor s \<and>
    mset (VaultState_Leaves t) = mset ks"
proof -
  note r = assms(1) [unfolded RestoreFromLeaves_Inr]
  have "MerkleRoot cr ks = Inr (h_MerkleRoot h)"
    using MerkleRoot_keys [OF assms(2), of cr] r by simp
  moreover from MerkleRoot_Inr [OF this] have "distinct (map l_Record ks)" .
  then obtain m where m: "leaves_loop ks fmempty = Inr m" using leaves_loop_lookup [of ks fmempty] by auto
  then have "keyed (s\<lparr>vs_leaves := m\<rparr>)" "mset ks = mset (VaultState_Leaves (s\<lparr>vs_leaves := m\<rparr>))"
    using leaves_loop_iff [of ks "s\<lparr>vs_leaves := m\<rparr>"] by simp_all
  ultimately have "RestoreVaultStateFromLeaves cr v (Some h) ks = Inr (s\<lparr>vs_leaves := m\<rparr>)"
    unfolding RestoreFromLeaves_Inr using r by simp
  with \<open>mset ks = _\<close> show ?thesis by (intro exI [of _ "s\<lparr>vs_leaves := m\<rparr>"]) simp
qed

theorem restore_ignores_deletion_mark_witness:
  "\<exists>t. RestoreVaultStateFromLeaves vc_crypto 1 (Some (cm_Head vc_commit)) [vc_leaf\<lparr>l_Deleted := False\<rparr>] = Inr t"
proof -
  have "VaultState_Leaves vc_s1 = [vc_leaf]"
    by (simp add: VaultState_Leaves_def vc_s1_def sorted_list_of_fset.rep_eq)
  then have "RestoreVaultStateFromLeaves vc_crypto 1 (Some (cm_Head vc_commit)) [vc_leaf] = Inr vc_s1"
    unfolding RestoreFromLeaves_Inr using vc_root vc_head_fits vc_head_hash
    by (simp add: keyed_def) (simp add: vc_s1_def vc_commit_def vc_leaf_def)
  from restore_ignores_deletion_mark [OF this, of "[vc_leaf\<lparr>l_Deleted := False\<rparr>]"] show ?thesis
    by (auto simp: leaf_key_def)
qed

end
