(* ===== verification/Merge.thy ===== *)
theory Merge
  imports Prelude "HOL-Library.Char_ord" "HOL-Library.List_Lexorder"
begin

text \<open>
  Three-way merge of records (\<open>merge.go\<close>, \<open>merge_array.go\<close>). A decoded JSON value is a \<open>json\<close>;
  numbers stay the text \<open>json.Number\<close> keeps. The marker \<open>Absent\<close> is \<open>None\<close>, \<open>reflect.DeepEqual\<close> is
  equality. A string is the list of its bytes, ordered as Go orders strings. The merger's growing
  list of conflicts is returned, and the lists of a loop's turns are appended in order.

  The recursion goes down both sides at once, so it is a \<open>function\<close> with the sum of the two sizes as
  its measure.
\<close>

section \<open>Model\<close>

datatype json = JNull | JBool bool | JNum string | JStr string | JArr "json list" | JObj "(string, json) fmap"

type_synonym FieldClass = u8

definition FieldOrdinary :: FieldClass where "FieldOrdinary = 0"
definition FieldCredential :: FieldClass where "FieldCredential = 1"

type_synonym FieldPolicy = "string list \<Rightarrow> FieldClass"

record Conflict =
  cf_Path :: "string list"
  cf_Local :: "json option"
  cf_Remote :: "json option"

record MergeResult =
  mr_Value :: "(string, json) fmap"
  mr_Conflicts :: "Conflict list"

definition childPath :: "string list \<Rightarrow> string \<Rightarrow> string list" where
  "childPath path segment = path @ [segment]"

definition asObjects :: "json option \<Rightarrow> json option \<Rightarrow> json option \<Rightarrow>
    ((string, json) fmap \<times> (string, json) fmap \<times> (string, json) fmap) option" where
  "asObjects base local remote =
    (case (local, remote) of
       (Some (JObj l), Some (JObj r)) \<Rightarrow>
         (case base of
            None \<Rightarrow> Some (l, r, fmempty)
          | Some (JObj b) \<Rightarrow> Some (l, r, b)
          | Some _ \<Rightarrow> None)
     | _ \<Rightarrow> None)"

definition merge_resolve :: "FieldPolicy \<Rightarrow> string list \<Rightarrow> json option \<Rightarrow> json option \<Rightarrow> json option \<times> Conflict list" where
  "merge_resolve policy path local remote =
    (if policy path = FieldCredential
     then (remote, [\<lparr>cf_Path = path, cf_Local = local, cf_Remote = remote\<rparr>])
     else (local, []))"

record idList =
  il_order :: "string list"
  il_byID :: "(string, json) fmap"

fun id_loop :: "json list \<Rightarrow> idList \<Rightarrow> idList option" where
  "id_loop [] acc = Some acc"
| "id_loop (el # els) acc =
    (case el of
       JObj obj \<Rightarrow>
         (case fmlookup obj ''id'' of
            Some (JStr i) \<Rightarrow>
              if i = [] \<or> i |\<in>| fmdom (il_byID acc) then None
              else id_loop els \<lparr>il_order = il_order acc @ [i], il_byID = fmupd i (JObj obj) (il_byID acc)\<rparr>
          | _ \<Rightarrow> None)
     | _ \<Rightarrow> None)"

definition asIDList :: "json option \<Rightarrow> idList option" where
  "asIDList v =
    (case v of
       Some (JArr arr) \<Rightarrow> id_loop arr \<lparr>il_order = [], il_byID = fmempty\<rparr>
     | _ \<Rightarrow> None)"

definition idList_get :: "idList \<Rightarrow> string \<Rightarrow> json option" where
  "idList_get l i = fmlookup (il_byID l) i"

text \<open>The guards of \<open>idArray\<close>: the lists of both sides, and of the base or an empty one.\<close>

definition idLists :: "json option \<Rightarrow> json option \<Rightarrow> json option \<Rightarrow> (idList \<times> idList \<times> idList) option" where
  "idLists base local remote =
    (case (asIDList local, asIDList remote) of
       (Some l, Some r) \<Rightarrow>
         (case asIDList base of
            Some b \<Rightarrow> Some (l, r, b)
          | None \<Rightarrow> if base \<noteq> None then None else Some (l, r, \<lparr>il_order = [], il_byID = fmempty\<rparr>))
     | _ \<Rightarrow> None)"

fun append_missing :: "string list \<Rightarrow> string list \<Rightarrow> string list" where
  "append_missing order [] = order"
| "append_missing order (i # is) = append_missing (if i \<in> set order then order else order @ [i]) is"

definition id_order :: "idList \<Rightarrow> idList \<Rightarrow> idList \<Rightarrow> string list" where
  "id_order l r b = append_missing (append_missing (il_order l) (il_order r)) (il_order b)"

definition id_segment :: "string \<Rightarrow> string" where
  "id_segment i = ''[id='' @ i @ '']''"

definition object_keys :: "(string, json) fmap \<Rightarrow> (string, json) fmap \<Rightarrow> (string, json) fmap \<Rightarrow> string list" where
  "object_keys b l r = sorted_list_of_fset (fmdom b |\<union>| fmdom l |\<union>| fmdom r)"

text \<open>The object under construction: absent values are left out.\<close>

definition put_present :: "(string, json) fmap \<Rightarrow> string \<times> json option \<times> Conflict list \<Rightarrow> (string, json) fmap" where
  "put_present out kv = (case kv of (key, None, _) \<Rightarrow> out | (key, Some v, _) \<Rightarrow> fmupd key v out)"

definition size_opt :: "json option \<Rightarrow> nat" where
  "size_opt v = (case v of None \<Rightarrow> 0 | Some x \<Rightarrow> Suc (size x))"

lemma size_member: "fmlookup m k = Some v \<Longrightarrow> size v < size (JObj m)"
proof -
  assume "fmlookup m k = Some v"
  then have mem: "(k, v) \<in> fset (fset_of_fmap m)" by (simp add: fset_of_fmap.rep_eq set_of_map_def)
  have "size v \<le> (\<Sum>x \<in> fset (fset_of_fmap m). Suc (case x of (a, b) \<Rightarrow> size b))"
    using member_le_sum [OF mem, of "\<lambda>x. Suc (case x of (a, b) \<Rightarrow> size b)"] by simp
  then show ?thesis by (simp add: size_fmap_def size_fset_def)
qed

lemma size_opt_member: "size_opt (fmlookup m k) < size_opt (Some (JObj m))"
  using size_member [of m k] by (auto simp: size_opt_def split: option.splits)

lemma id_loop_elements:
  "id_loop els acc = Some l \<Longrightarrow> fmlookup (il_byID l) i = Some v \<Longrightarrow>
    v \<in> set els \<or> fmlookup (il_byID acc) i = Some v"
  by (induction els acc rule: id_loop.induct) (fastforce split: json.splits option.splits if_splits)+

lemma size_opt_id:
  assumes "asIDList v = Some l"
  shows "size_opt (idList_get l i) < size_opt v"
proof -
  obtain arr where v: "v = Some (JArr arr)" and loop: "id_loop arr \<lparr>il_order = [], il_byID = fmempty\<rparr> = Some l"
    using assms by (auto simp: asIDList_def split: option.splits json.splits)
  show ?thesis
  proof (cases "idList_get l i")
    case (Some x)
    then have "x \<in> set arr" using id_loop_elements [OF loop, of i x] by (simp add: idList_get_def)
    then have "size x < size (JArr arr)" by (simp add: less_Suc_eq_le size_list_estimation')
    with Some v show ?thesis by (simp add: size_opt_def)
  qed (simp add: v size_opt_def)
qed

lemma asObjects_Some:
  "asObjects base local remote = Some (l, r, b) \<Longrightarrow> local = Some (JObj l) \<and> remote = Some (JObj r)"
  by (auto simp: asObjects_def split: option.splits json.splits)

lemma idLists_Some:
  "idLists base local remote = Some (l, r, b) \<Longrightarrow> asIDList local = Some l \<and> asIDList remote = Some r"
  by (auto simp: idLists_def split: option.splits if_splits)

function merge_value ::
    "FieldPolicy \<Rightarrow> string list \<Rightarrow> json option \<Rightarrow> json option \<Rightarrow> json option \<Rightarrow> json option \<times> Conflict list" where
  "merge_value policy path base local remote =
    (if local = remote then (local, [])
     else if local = base then (remote, [])
     else if remote = base then (local, [])
     else if local = None then (remote, [])
     else if remote = None then (local, [])
     else (case asObjects base local remote of
         Some (lo, ro, bo) \<Rightarrow>
           (let vs = map (\<lambda>key. (key, merge_value policy (childPath path key)
                  (fmlookup bo key) (fmlookup lo key) (fmlookup ro key))) (object_keys bo lo ro)
            in (Some (JObj (foldl put_present fmempty vs)), concat (map (snd \<circ> snd) vs)))
       | None \<Rightarrow>
           (case idLists base local remote of
              Some (l, r, b) \<Rightarrow>
                (let vs = map (\<lambda>i. merge_value policy (childPath path (id_segment i))
                       (idList_get b i) (idList_get l i) (idList_get r i)) (id_order l r b)
                 in (Some (JArr (List.map_filter fst vs)), concat (map snd vs)))
            | None \<Rightarrow> merge_resolve policy path local remote)))"
  by pat_completeness auto
termination
  by (relation "measure (\<lambda>(policy, path, base, local, remote). size_opt local + size_opt remote)")
     (auto dest!: asObjects_Some idLists_Some intro!: add_strict_mono size_opt_member size_opt_id)

declare merge_value.simps [simp del]

definition merge_object ::
    "FieldPolicy \<Rightarrow> string list \<Rightarrow> (string, json) fmap \<Rightarrow> (string, json) fmap \<Rightarrow> (string, json) fmap \<Rightarrow>
      (string, json) fmap \<times> Conflict list" where
  "merge_object policy path base local remote =
    (let vs = map (\<lambda>key. (key, merge_value policy (childPath path key)
           (fmlookup base key) (fmlookup local key) (fmlookup remote key))) (object_keys base local remote)
     in (foldl put_present fmempty vs, concat (map (snd \<circ> snd) vs)))"

definition idArray ::
    "FieldPolicy \<Rightarrow> string list \<Rightarrow> json option \<Rightarrow> json option \<Rightarrow> json option \<Rightarrow> (json list \<times> Conflict list) option" where
  "idArray policy path base local remote =
    (case idLists base local remote of
       None \<Rightarrow> None
     | Some (l, r, b) \<Rightarrow>
         (let vs = map (\<lambda>i. merge_value policy (childPath path (id_segment i))
                (idList_get b i) (idList_get l i) (idList_get r i)) (id_order l r b)
          in Some (List.map_filter fst vs, concat (map snd vs))))"

definition MergeObjects ::
    "(string, json) fmap \<Rightarrow> (string, json) fmap \<Rightarrow> (string, json) fmap \<Rightarrow> FieldPolicy \<Rightarrow> MergeResult" where
  "MergeObjects base local remote policy =
    (case merge_object policy [] base local remote of
       (v, conflicts) \<Rightarrow> \<lparr>mr_Value = v, mr_Conflicts = conflicts\<rparr>)"

section \<open>Lemmas\<close>

text \<open>The recursion in the shape of the code, with \<open>object\<close> and \<open>idArray\<close> as calls.\<close>

lemma merge_value_eq:
  "merge_value policy path base local remote =
    (if local = remote then (local, [])
     else if local = base then (remote, [])
     else if remote = base then (local, [])
     else if local = None then (remote, [])
     else if remote = None then (local, [])
     else (case asObjects base local remote of
         Some (lo, ro, bo) \<Rightarrow> (case merge_object policy path bo lo ro of (v, cs) \<Rightarrow> (Some (JObj v), cs))
       | None \<Rightarrow>
           (case idArray policy path base local remote of
              Some (vs, cs) \<Rightarrow> (Some (JArr vs), cs)
            | None \<Rightarrow> merge_resolve policy path local remote)))"
  unfolding merge_value.simps [of policy path base local remote] merge_object_def idArray_def
  by (simp add: Let_def split: option.splits prod.splits)

lemma foldl_put_present:
  "distinct (map fst vs) \<Longrightarrow>
    fmlookup (foldl put_present out vs) k =
      (case map_of vs k of Some (Some v, _) \<Rightarrow> Some v | _ \<Rightarrow> fmlookup out k)"
proof (induction vs arbitrary: out)
  case (Cons kv vs)
  obtain key v cs where kv: "kv = (key, v, cs)" by (cases kv)
  have "map_of vs key = None" using Cons.prems kv by (simp add: map_of_eq_None_iff)
  with Cons kv show ?case by (cases v) (auto simp: put_present_def split: option.splits prod.splits)
qed simp

lemma object_keys_props [simp]:
  "distinct (object_keys b l r)" "set (object_keys b l r) = fset (fmdom b |\<union>| fmdom l |\<union>| fmdom r)"
  by (simp_all add: object_keys_def sorted_list_of_fset.rep_eq)

lemma merge_value_same [simp]: "merge_value policy path base x x = (x, [])"
  by (simp add: merge_value.simps)

text \<open>Every field of a merged object is the merge of that field, also for keys no side has.\<close>

lemma merge_object_lookup:
  "fmlookup (fst (merge_object policy path b l r)) k =
    fst (merge_value policy (childPath path k) (fmlookup b k) (fmlookup l k) (fmlookup r k))"
proof -
  define f where "f key = merge_value policy (childPath path key) (fmlookup b key) (fmlookup l key) (fmlookup r key)" for key
  have map: "map_of (map (\<lambda>key. (key, f key)) ks) k = (if k \<in> set ks then Some (f k) else None)" for ks
    by (induction ks) auto
  have none: "f k = (None, [])" if "k \<notin> set (object_keys b l r)"
  proof -
    have "fmlookup b k = None" "fmlookup l k = None" "fmlookup r k = None"
      using that by (auto simp: fmdom_notD)
    then show ?thesis by (simp add: f_def)
  qed
  have "fmlookup (fst (merge_object policy path b l r)) k =
      (case map_of (map (\<lambda>key. (key, f key)) (object_keys b l r)) k of Some (Some v, _) \<Rightarrow> Some v | _ \<Rightarrow> None)"
    unfolding merge_object_def Let_def f_def [symmetric]
    by (simp add: foldl_put_present comp_def split: option.splits)
  with none show ?thesis unfolding map f_def [symmetric]
    by (cases "f k") (auto split: option.splits)
qed

lemma merge_object_conflicts:
  "snd (merge_object policy path b l r) =
    concat (map (\<lambda>key. snd (merge_value policy (childPath path key)
      (fmlookup b key) (fmlookup l key) (fmlookup r key))) (object_keys b l r))"
  by (simp add: merge_object_def Let_def comp_def)

lemma MergeObjects_fields:
  "mr_Value (MergeObjects b l r policy) = fst (merge_object policy [] b l r)"
  "mr_Conflicts (MergeObjects b l r policy) = snd (merge_object policy [] b l r)"
  by (simp_all add: MergeObjects_def split: prod.splits)

lemma merge_object_ext:
  "(\<And>k. fst (merge_value policy (childPath path k) (fmlookup b k) (fmlookup l k) (fmlookup r k)) = fmlookup m k) \<Longrightarrow>
    fst (merge_object policy path b l r) = m"
  by (rule fmap_ext) (simp add: merge_object_lookup)

lemma merge_one_side:
  "merge_value policy path x x y = (y, [])" "merge_value policy path x y x = (y, [])"
  by (simp_all add: merge_value.simps)

text \<open>An edit beats a deletion, whichever side made it.\<close>

lemma merge_edit_beats_delete:
  "y \<noteq> base \<Longrightarrow> base \<noteq> None \<Longrightarrow> y \<noteq> None \<Longrightarrow> merge_value policy path base None y = (y, [])"
  "y \<noteq> base \<Longrightarrow> base \<noteq> None \<Longrightarrow> y \<noteq> None \<Longrightarrow> merge_value policy path base y None = (y, [])"
  by (auto simp: merge_value.simps)

text \<open>Every conflict is a credential field on which the two sides differ, and its path extends the
  path of the value merged.\<close>

definition conflict_ok :: "FieldPolicy \<Rightarrow> string list \<Rightarrow> Conflict \<Rightarrow> bool" where
  "conflict_ok policy path c \<longleftrightarrow> policy (cf_Path c) = FieldCredential \<and> cf_Local c \<noteq> cf_Remote c \<and>
    cf_Local c \<noteq> None \<and> cf_Remote c \<noteq> None \<and> (\<exists>rest. cf_Path c = path @ rest)"

lemma conflict_ok_child: "conflict_ok policy (childPath path k) c \<Longrightarrow> conflict_ok policy path c"
  by (auto simp: conflict_ok_def childPath_def)

lemma merge_value_conflicts:
  "c \<in> set (snd (merge_value policy path base local remote)) \<Longrightarrow> conflict_ok policy path c"
proof (induction policy path base local remote rule: merge_value.induct)
  case (1 policy path base local remote)
  show ?case
  proof (cases "local = remote \<or> local = base \<or> remote = base \<or> local = None \<or> remote = None")
    case True
    with "1.prems" show ?thesis by (auto simp: merge_value.simps [of policy path base local remote] split: if_splits)
  next
    case neq: False
    show ?thesis
    proof (cases "asObjects base local remote")
      case (Some t)
      obtain lo ro bo where t: "t = (lo, ro, bo)" by (cases t)
      have "snd (merge_value policy path base local remote) = snd (merge_object policy path bo lo ro)"
        using neq Some t by (auto simp: merge_value_eq [of policy path base local remote] split: prod.splits)
      with "1.prems" obtain key where key: "key \<in> set (object_keys bo lo ro)"
        "c \<in> set (snd (merge_value policy (childPath path key) (fmlookup bo key) (fmlookup lo key) (fmlookup ro key)))"
        by (auto simp: merge_object_conflicts)
      then have "conflict_ok policy (childPath path key) c"
        using "1.IH"(2) neq Some t by (metis (no_types, lifting))
      then show ?thesis by (rule conflict_ok_child)
    next
      case none: None
      show ?thesis
      proof (cases "idLists base local remote")
        case (Some t)
        obtain l r b where t: "t = (l, r, b)" by (cases t)
        have "snd (merge_value policy path base local remote) = concat (map (\<lambda>i. snd (merge_value policy
            (childPath path (id_segment i)) (idList_get b i) (idList_get l i) (idList_get r i))) (id_order l r b))"
          using neq none Some t
          by (auto simp: merge_value_eq [of policy path base local remote] idArray_def Let_def comp_def)
        with "1.prems" obtain i where i: "i \<in> set (id_order l r b)"
          "c \<in> set (snd (merge_value policy (childPath path (id_segment i)) (idList_get b i) (idList_get l i) (idList_get r i)))"
          by auto
        then have "conflict_ok policy (childPath path (id_segment i)) c"
          using "1.IH"(1) neq none Some t by (metis (no_types, lifting))
        then show ?thesis by (rule conflict_ok_child)
      next
        case None
        with none neq "1.prems" show ?thesis
          by (auto simp: merge_value.simps [of policy path base local remote] merge_resolve_def conflict_ok_def
              split: if_splits)
      qed
    qed
  qed
qed

lemma MergeObjects_conflict_ok:
  "c \<in> set (mr_Conflicts (MergeObjects b l r policy)) \<Longrightarrow> conflict_ok policy [] c"
  using merge_value_conflicts conflict_ok_child by (fastforce simp: MergeObjects_fields merge_object_conflicts)

section \<open>Id lists\<close>

definition idList_ok :: "idList \<Rightarrow> bool" where
  "idList_ok l \<longleftrightarrow> distinct (il_order l) \<and> set (il_order l) = fset (fmdom (il_byID l)) \<and>
    (\<forall>i v. fmlookup (il_byID l) i = Some v \<longrightarrow> i \<noteq> [] \<and> (\<exists>obj. v = JObj obj \<and> fmlookup obj ''id'' = Some (JStr i)))"

lemma id_loop_ok: "id_loop els acc = Some l \<Longrightarrow> idList_ok acc \<Longrightarrow> idList_ok l"
proof (induction els acc rule: id_loop.induct)
  case (2 el els acc)
  from "2.prems"(1) obtain obj i where el: "el = JObj obj" "fmlookup obj ''id'' = Some (JStr i)" "i \<noteq> []"
    "i |\<notin>| fmdom (il_byID acc)"
    "id_loop els \<lparr>il_order = il_order acc @ [i], il_byID = fmupd i (JObj obj) (il_byID acc)\<rparr> = Some l"
    by (auto split: json.splits option.splits if_splits)
  moreover have "idList_ok \<lparr>il_order = il_order acc @ [i], il_byID = fmupd i (JObj obj) (il_byID acc)\<rparr>"
    using "2.prems"(2) el by (auto simp: idList_ok_def)
  ultimately show ?case using "2.IH" by auto
qed simp

lemma asIDList_ok: "asIDList v = Some l \<Longrightarrow> idList_ok l"
proof -
  have "idList_ok \<lparr>il_order = [], il_byID = fmempty\<rparr>" by (simp add: idList_ok_def)
  then show "idList_ok l" if "asIDList v = Some l"
    using that id_loop_ok by (auto simp: asIDList_def split: option.splits json.splits)
qed

lemma id_loop_complete:
  assumes "distinct is" and "\<forall>i \<in> set is. i \<noteq> [] \<and> i |\<notin>| fmdom (il_byID acc)"
    and "list_all2 (\<lambda>i v. \<exists>obj. v = JObj obj \<and> fmlookup obj ''id'' = Some (JStr i)) is els"
  shows "\<exists>l. id_loop els acc = Some l \<and> il_order l = il_order acc @ is"
  using assms(3,1,2)
proof (induction "is" els arbitrary: acc rule: list_all2_induct)
  case (Cons i "is" v els)
  then obtain obj where v: "v = JObj obj" "fmlookup obj ''id'' = Some (JStr i)" by blast
  let ?acc = "\<lparr>il_order = il_order acc @ [i], il_byID = fmupd i (JObj obj) (il_byID acc)\<rparr>"
  have "\<exists>l. id_loop els ?acc = Some l \<and> il_order l = il_order ?acc @ is"
    using Cons.prems by (intro Cons.IH) auto
  with Cons.prems v show ?case by simp
qed simp

lemma append_missing_props:
  "distinct order \<Longrightarrow> distinct (append_missing order is) \<and> set (append_missing order is) = set order \<union> set is \<and>
    (\<exists>rest. append_missing order is = order @ rest)"
proof (induction order "is" rule: append_missing.induct)
  case (2 order i "is")
  then show ?case by (fastforce split: if_splits)
qed simp

lemma id_order_props:
  assumes "idList_ok l"
  shows "distinct (id_order l r b)"
    and "set (id_order l r b) = set (il_order l) \<union> set (il_order r) \<union> set (il_order b)"
    and "\<exists>rest. id_order l r b = il_order l @ rest"
proof -
  let ?lr = "append_missing (il_order l) (il_order r)"
  have lr: "distinct ?lr \<and> set ?lr = set (il_order l) \<union> set (il_order r) \<and> (\<exists>rest. ?lr = il_order l @ rest)"
    using assms by (intro append_missing_props) (simp add: idList_ok_def)
  with append_missing_props [of ?lr "il_order b"]
  show "distinct (id_order l r b)" "set (id_order l r b) = set (il_order l) \<union> set (il_order r) \<union> set (il_order b)"
    "\<exists>rest. id_order l r b = il_order l @ rest"
    by (auto simp: id_order_def)
qed

text \<open>A value whose sides are objects with one id merges to an object with that id.\<close>

definition has_id :: "string \<Rightarrow> json option \<Rightarrow> bool" where
  "has_id i v \<longleftrightarrow> v = None \<or> (\<exists>obj. v = Some (JObj obj) \<and> fmlookup obj ''id'' = Some (JStr i))"

lemma merge_keeps_id:
  assumes "has_id i b" and "has_id i l" and "has_id i r"
  shows "has_id i (fst (merge_value policy path b l r))"
proof (cases "l = r \<or> l = b \<or> r = b \<or> l = None \<or> r = None")
  case True
  with assms show ?thesis by (auto simp: merge_value.simps [of policy path b l r])
next
  case False
  then obtain lo ro where lr: "l = Some (JObj lo)" "r = Some (JObj ro)"
    "fmlookup lo ''id'' = Some (JStr i)" "fmlookup ro ''id'' = Some (JStr i)"
    using assms by (auto simp: has_id_def)
  obtain bo where bo: "asObjects b l r = Some (lo, ro, bo)"
    using assms(1) lr by (auto simp: has_id_def asObjects_def)
  have "fst (merge_value policy path b l r) = Some (JObj (fst (merge_object policy path bo lo ro)))"
    using False bo by (auto simp: merge_value_eq [of policy path b l r] split: prod.splits)
  then show ?thesis using lr(3,4) by (auto simp: has_id_def merge_object_lookup)
qed

section \<open>Sample records\<close>

text \<open>A host record whose password changed on both sides, whose name changed locally, whose port was
  deleted locally and edited remotely, and whose users gained one entry on each side.\<close>

definition user :: "string \<Rightarrow> string \<Rightarrow> json" where
  "user i n = JObj (fmupd ''id'' (JStr i) (fmupd ''name'' (JStr n) fmempty))"

definition rec_of :: "(string \<times> json) list \<Rightarrow> (string, json) fmap" where
  "rec_of kvs = fmap_of_list kvs"

definition m_base :: "(string, json) fmap" where
  "m_base = rec_of [(''name'', JStr ''a''), (''password'', JStr ''p''), (''port'', JNum ''22''),
     (''users'', JArr [user ''u1'' ''x''])]"

definition m_local :: "(string, json) fmap" where
  "m_local = rec_of [(''name'', JStr ''b''), (''password'', JStr ''q''),
     (''users'', JArr [user ''u1'' ''x'', user ''u2'' ''y''])]"

definition m_remote :: "(string, json) fmap" where
  "m_remote = rec_of [(''name'', JStr ''a''), (''password'', JStr ''r''), (''port'', JNum ''2222''),
     (''users'', JArr [user ''u3'' ''z'', user ''u1'' ''x''])]"

definition m_policy :: FieldPolicy where
  "m_policy path = (if path = [''password''] then FieldCredential else FieldOrdinary)"

section \<open>Properties\<close>

text \<open>Merging is field by field, and a field only one side changed keeps that change: where the
  local value is the base value the result is the remote one, where the remote value is the base
  value the result is the local one, and where both sides agree the result is what they agree on -
  deletions included.\<close>

theorem MergeObjects_one_sided:
  "(fmlookup l k = fmlookup b k \<longrightarrow> fmlookup (mr_Value (MergeObjects b l r policy)) k = fmlookup r k) \<and>
   (fmlookup r k = fmlookup b k \<longrightarrow> fmlookup (mr_Value (MergeObjects b l r policy)) k = fmlookup l k) \<and>
   (fmlookup l k = fmlookup r k \<longrightarrow> fmlookup (mr_Value (MergeObjects b l r policy)) k = fmlookup l k)"
  by (simp add: MergeObjects_fields merge_object_lookup merge_one_side)

theorem MergeObjects_one_sided_witness:
  "fmlookup (mr_Value (MergeObjects m_base m_local m_remote m_policy)) ''name'' = Some (JStr ''b'')"
  using MergeObjects_one_sided [of m_local "''name''" m_base m_remote m_policy]
  by (simp add: m_base_def m_local_def m_remote_def rec_of_def fmlookup_of_list)

text \<open>Merging with an unchanged side is the identity and reports nothing: a device that changed
  nothing takes the remote record, a device whose edits meet an unchanged record keeps its own, and
  two equal records merge to themselves.\<close>

theorem MergeObjects_identities:
  "MergeObjects b b r policy = \<lparr>mr_Value = r, mr_Conflicts = []\<rparr> \<and>
   MergeObjects b l b policy = \<lparr>mr_Value = l, mr_Conflicts = []\<rparr> \<and>
   MergeObjects b l l policy = \<lparr>mr_Value = l, mr_Conflicts = []\<rparr>"
proof -
  have "merge_object policy [] b b r = (r, [])" "merge_object policy [] b l b = (l, [])"
    "merge_object policy [] b l l = (l, [])"
    by (rule prod_eqI; simp add: merge_object_conflicts merge_one_side merge_object_ext)+
  then show ?thesis by (simp add: MergeObjects_def)
qed

text \<open>An edit beats a deletion: a field one side removed and the other side changed has the changed
  value in the result.\<close>

theorem MergeObjects_edit_beats_delete:
  assumes "fmlookup b k \<noteq> None" and "v \<noteq> fmlookup b k" and "v \<noteq> None"
    and "fmlookup l k = None \<and> fmlookup r k = v \<or> fmlookup l k = v \<and> fmlookup r k = None"
  shows "fmlookup (mr_Value (MergeObjects b l r policy)) k = v"
  using assms merge_edit_beats_delete [of v "fmlookup b k"]
  by (auto simp: MergeObjects_fields merge_object_lookup)

theorem MergeObjects_edit_beats_delete_witness:
  "fmlookup (mr_Value (MergeObjects m_base m_local m_remote m_policy)) ''port'' = Some (JNum ''2222'')"
  by (rule MergeObjects_edit_beats_delete)
     (simp_all add: m_base_def m_local_def m_remote_def rec_of_def fmlookup_of_list)

text \<open>Only credentials are put before a person: every conflict a merge reports is on a path the policy
  classifies as a credential, with two present and different values; a policy without credential
  fields never reports one.\<close>

theorem MergeObjects_conflicts:
  "(\<forall>c \<in> set (mr_Conflicts (MergeObjects b l r policy)).
      policy (cf_Path c) = FieldCredential \<and> cf_Local c \<noteq> cf_Remote c \<and> cf_Local c \<noteq> None \<and> cf_Remote c \<noteq> None) \<and>
   ((\<forall>path. policy path \<noteq> FieldCredential) \<longrightarrow> mr_Conflicts (MergeObjects b l r policy) = [])"
proof -
  note ok = MergeObjects_conflict_ok [of _ b l r policy]
  then have "mr_Conflicts (MergeObjects b l r policy) = []" if "\<forall>path. policy path \<noteq> FieldCredential"
    using that by (cases "mr_Conflicts (MergeObjects b l r policy)") (auto simp: conflict_ok_def)
  with ok show ?thesis by (auto simp: conflict_ok_def)
qed

theorem MergeObjects_conflicts_witness:
  "mr_Conflicts (MergeObjects m_base m_local m_remote (\<lambda>_. FieldOrdinary)) = []"
  using MergeObjects_conflicts [of m_base m_local m_remote "\<lambda>_. FieldOrdinary"]
  by (simp add: FieldOrdinary_def FieldCredential_def)

text \<open>Merging two id-keyed arrays gives an id-keyed array again: the local entries keep their order,
  remote-only entries follow, no id appears twice, and every entry carries the id it was merged
  under, so the next merge matches entries by id as well.\<close>

theorem idArray_closed:
  assumes "idArray policy path base local remote = Some (vs, cs)"
  shows "\<exists>m. asIDList (Some (JArr vs)) = Some m \<and>
    (\<exists>l r b. idLists base local remote = Some (l, r, b) \<and>
      il_order m = filter (\<lambda>i. fst (merge_value policy (childPath path (id_segment i))
        (idList_get b i) (idList_get l i) (idList_get r i)) \<noteq> None) (id_order l r b))"
proof -
  obtain l r b where lrb: "idLists base local remote = Some (l, r, b)"
    using assms by (auto simp: idArray_def split: option.splits)
  define f where "f i = fst (merge_value policy (childPath path (id_segment i))
    (idList_get b i) (idList_get l i) (idList_get r i))" for i
  have vs: "vs = List.map_filter f (id_order l r b)"
    using assms lrb by (auto simp: idArray_def Let_def List.map_filter_def comp_def filter_map f_def [abs_def])
  have ok: "idList_ok l" "idList_ok r" "idList_ok b"
    using lrb asIDList_ok by (auto simp: idLists_def idList_ok_def split: option.splits if_splits)
  have id: "has_id i (f i)" for i
    unfolding f_def using ok by (intro merge_keeps_id) (auto simp: has_id_def idList_get_def idList_ok_def
      split: option.splits, (metis option.exhaust)+)
  have nonempty: "i \<noteq> []" if "i \<in> set (id_order l r b)" for i
    using that ok unfolding id_order_props(2) [OF ok(1)] by (auto simp: idList_ok_def fmlookup_dom_iff)
  have obj: "\<exists>obj. the (f i) = JObj obj \<and> fmlookup obj ''id'' = Some (JStr i)" if "f i \<noteq> None" for i
    using id [of i] that by (auto simp: has_id_def)
  let ?is = "filter (\<lambda>i. f i \<noteq> None) (id_order l r b)"
  have "list_all2 (\<lambda>i v. \<exists>obj. v = JObj obj \<and> fmlookup obj ''id'' = Some (JStr i)) ?is (map (the \<circ> f) ?is)"
    unfolding list.rel_map by (rule list.rel_refl_strong) (use obj in simp)
  moreover have "vs = map (the \<circ> f) ?is" by (simp add: vs List.map_filter_def)
  ultimately obtain m where "asIDList (Some (JArr vs)) = Some m" "il_order m = ?is"
    using id_loop_complete [of ?is "\<lparr>il_order = [], il_byID = fmempty\<rparr>" vs] id_order_props(1) [OF ok(1)] nonempty
    by (auto simp: asIDList_def)
  with lrb show ?thesis unfolding f_def by blast
qed

theorem idArray_closed_witness:
  "\<exists>vs cs m. idArray m_policy [] None (Some (JArr [user ''u1'' ''x''])) (Some (JArr [user ''u2'' ''y''])) = Some (vs, cs) \<and>
    asIDList (Some (JArr vs)) = Some m"
proof -
  obtain vs cs where "idArray m_policy [] None (Some (JArr [user ''u1'' ''x''])) (Some (JArr [user ''u2'' ''y''])) = Some (vs, cs)"
    by (simp add: idArray_def idLists_def asIDList_def user_def Let_def)
  with idArray_closed [OF this] show ?thesis by blast
qed

end
