(* ===== verification/Plugin_Trust.thy ===== *)
theory Plugin_Trust
  imports Prelude
begin

text \<open>
  The plugin trust anchor: which changes of the plugin settings lower the bar a plugin has to clear
  (\<open>plugin_trust_change.go\<close>) and the revocation of a removed plugin's grants
  (\<open>PluginSettings.RevokePluginGrants\<close> of \<open>app_settings.go\<close>). A nil map and an empty one read the
  same, and reading a missing key gives false; both are \<open>fmempty\<close> here. Go ranges over a map in no
  particular order; the loops only ask whether some entry qualifies, so the model asks the same of
  the sorted keys.
\<close>

type_synonym grants = "(string, bool) go_map"

record PluginSettings =
  TrustedPublisherKeys :: "string list"
  RequireSignedPlugins :: bool
  SecretAccessGranted :: grants
  AuthProviderAccessGranted :: grants
  TunnelProviderAccessGranted :: grants
  MultiSessionAccessGranted :: grants
  ArbitraryNetworkAccessGranted :: grants
  Disabled :: grants
  AllowUnsandboxedFallback :: bool

definition zero_plugins :: PluginSettings where
  "zero_plugins = \<lparr>TrustedPublisherKeys = [], RequireSignedPlugins = False, SecretAccessGranted = fmempty,
     AuthProviderAccessGranted = fmempty, TunnelProviderAccessGranted = fmempty,
     MultiSessionAccessGranted = fmempty, ArbitraryNetworkAccessGranted = fmempty, Disabled = fmempty,
     AllowUnsandboxedFallback = False\<rparr>"

definition DefaultPluginSettings :: PluginSettings where
  "DefaultPluginSettings = zero_plugins\<lparr>RequireSignedPlugins := True\<rparr>"

definition granted :: "grants \<Rightarrow> string \<Rightarrow> bool" where
  "granted m i = (fmlookup m i = Some True)"

definition hasNewTrustedKey :: "string list \<Rightarrow> string list \<Rightarrow> bool" where
  "hasNewTrustedKey old next = list_ex (\<lambda>key. key \<notin> set old) next"

definition grant_pairs :: "PluginSettings \<Rightarrow> PluginSettings \<Rightarrow> (grants \<times> grants) list" where
  "grant_pairs old next =
    [(SecretAccessGranted old, SecretAccessGranted next),
     (AuthProviderAccessGranted old, AuthProviderAccessGranted next),
     (TunnelProviderAccessGranted old, TunnelProviderAccessGranted next),
     (MultiSessionAccessGranted old, MultiSessionAccessGranted next),
     (ArbitraryNetworkAccessGranted old, ArbitraryNetworkAccessGranted next)]"

definition grantsWidened :: "PluginSettings \<Rightarrow> PluginSettings \<Rightarrow> bool" where
  "grantsWidened old next =
    list_ex (\<lambda>(before, after). \<exists>i |\<in>| fmdom after. granted after i \<and> \<not> granted before i) (grant_pairs old next)"

definition PluginTrustWeakened :: "PluginSettings \<Rightarrow> PluginSettings \<Rightarrow> bool" where
  "PluginTrustWeakened old next =
    (if RequireSignedPlugins old \<and> \<not> RequireSignedPlugins next then True
     else if \<not> AllowUnsandboxedFallback old \<and> AllowUnsandboxedFallback next then True
     else if hasNewTrustedKey (TrustedPublisherKeys old) (TrustedPublisherKeys next) then True
     else grantsWidened old next)"

text \<open>The receiver is a pointer and may be nil.\<close>

definition RevokePluginGrants :: "PluginSettings option \<Rightarrow> string \<Rightarrow> PluginSettings option \<times> string list" where
  "RevokePluginGrants p pluginID =
    (case p of
       None \<Rightarrow> (None, [])
     | Some p \<Rightarrow>
         if pluginID = [] then (Some p, [])
         else
           (Some (p\<lparr>SecretAccessGranted := fmdrop pluginID (SecretAccessGranted p),
               AuthProviderAccessGranted := fmdrop pluginID (AuthProviderAccessGranted p),
               TunnelProviderAccessGranted := fmdrop pluginID (TunnelProviderAccessGranted p),
               MultiSessionAccessGranted := fmdrop pluginID (MultiSessionAccessGranted p),
               ArbitraryNetworkAccessGranted := fmdrop pluginID (ArbitraryNetworkAccessGranted p),
               Disabled := fmdrop pluginID (Disabled p)\<rparr>),
            map fst (filter (\<lambda>(name, m). granted m pluginID)
              [(''secret'', SecretAccessGranted p), (''authProvider'', AuthProviderAccessGranted p),
               (''tunnelProvider'', TunnelProviderAccessGranted p), (''multiSession'', MultiSessionAccessGranted p),
               (''arbitraryNetwork'', ArbitraryNetworkAccessGranted p)])))"

section \<open>Strength\<close>

text \<open>\<open>next\<close> asks at least as much of a plugin as \<open>old\<close> does: the negation of weakening, spelled out.\<close>

definition plugins_le :: "PluginSettings \<Rightarrow> PluginSettings \<Rightarrow> bool" where
  "plugins_le old next \<longleftrightarrow>
    (RequireSignedPlugins old \<longrightarrow> RequireSignedPlugins next) \<and>
    (AllowUnsandboxedFallback next \<longrightarrow> AllowUnsandboxedFallback old) \<and>
    set (TrustedPublisherKeys next) \<subseteq> set (TrustedPublisherKeys old) \<and>
    (\<forall>(before, after) \<in> set (grant_pairs old next). \<forall>i. granted after i \<longrightarrow> granted before i)"

lemma grants_pair_widened:
  "(\<exists>i |\<in>| fmdom after. granted after i \<and> \<not> granted before i) \<longleftrightarrow> \<not> (\<forall>i. granted after i \<longrightarrow> granted before i)"
  by (auto simp: granted_def intro: fmdomI)

lemma grantsWidened_iff:
  "grantsWidened old next \<longleftrightarrow>
    \<not> (\<forall>(before, after) \<in> set (grant_pairs old next). \<forall>i. granted after i \<longrightarrow> granted before i)"
  unfolding grantsWidened_def list_ex_iff case_prod_beta grants_pair_widened by blast

lemma PluginTrustWeakened_iff: "PluginTrustWeakened old next \<longleftrightarrow> \<not> plugins_le old next"
proof -
  have "hasNewTrustedKey ks ms \<longleftrightarrow> \<not> set ms \<subseteq> set ks" for ks ms
    by (auto simp: hasNewTrustedKey_def list_ex_iff)
  then show ?thesis
    unfolding PluginTrustWeakened_def plugins_le_def grantsWidened_iff by (simp split: if_split) blast
qed

lemma plugins_le_refl: "plugins_le p p"
  by (auto simp: plugins_le_def grant_pairs_def)

lemma plugins_le_trans: "plugins_le p q \<Longrightarrow> plugins_le q r \<Longrightarrow> plugins_le p r"
  unfolding plugins_le_def grant_pairs_def by (simp, blast)

lemma granted_fmdrop: "granted (fmdrop i m) j \<longleftrightarrow> j \<noteq> i \<and> granted m j"
  by (simp add: granted_def)

section \<open>Properties\<close>

text \<open>Removing a plugin takes its consent with it: after the revocation no grant of that plugin is
  left, other plugins keep theirs, exactly the grants that were on are reported, and nothing became
  easier for any plugin, so no password is asked for it.\<close>

theorem RevokePluginGrants_revokes:
  assumes "pluginID \<noteq> []"
  shows "\<exists>q names. RevokePluginGrants (Some p) pluginID = (Some q, names) \<and> \<not> PluginTrustWeakened p q \<and>
    (\<forall>(before, after) \<in> set (grant_pairs p q). \<not> granted after pluginID \<and>
      (\<forall>i. i \<noteq> pluginID \<longrightarrow> (granted after i \<longleftrightarrow> granted before i))) \<and>
    (names = [] \<longleftrightarrow> (\<forall>(before, after) \<in> set (grant_pairs p q). \<not> granted before pluginID))"
  using assms
  by (auto simp: RevokePluginGrants_def PluginTrustWeakened_iff plugins_le_def grant_pairs_def granted_fmdrop)

theorem RevokePluginGrants_revokes_witness:
  "\<exists>q names. RevokePluginGrants (Some (DefaultPluginSettings\<lparr>SecretAccessGranted := fmupd ''vpn'' True fmempty\<rparr>)) ''vpn'' = (Some q, names) \<and>
    \<not> PluginTrustWeakened (DefaultPluginSettings\<lparr>SecretAccessGranted := fmupd ''vpn'' True fmempty\<rparr>) q"
  using RevokePluginGrants_revokes [of "''vpn''" "DefaultPluginSettings\<lparr>SecretAccessGranted := fmupd ''vpn'' True fmempty\<rparr>"]
  by blast

end
