(* ===== verification/Trust.thy ===== *)
theory Trust
  imports Canon Merge Plugin_Trust Go_Strings Hash_Log
begin

text \<open>
  Which changes from another device apply on arrival (\<open>synctrust/registry.go\<close>, \<open>synctrust/trust.go\<close>,
  \<open>synctrust/trust_addition.go\<close>, \<open>known_host_match.go\<close>). Record data is JSON that \<open>encoding/json\<close> decodes
  into Go structs by reflection: the raw data has an abstract type \<open>'r\<close> and the decoders are a record
  of parameters, so the theorems hold for every decoder. Of the decoded structs the model has the
  fields the classifier reads. HMAC and base64 are parameters too.

  The second half follows one item through everything that arrives without the master password:
  an accepted version replaces the local one, a held or refused one leaves it in force.
\<close>

section \<open>Record types\<close>

type_synonym RecordType = string

definition TypeVaultMeta :: RecordType where "TypeVaultMeta = ''vault-meta''"
definition TypeFolder :: RecordType where "TypeFolder = ''folder''"
definition TypeConnection :: RecordType where "TypeConnection = ''connection''"
definition TypeIdentity :: RecordType where "TypeIdentity = ''identity''"
definition TypePassword :: RecordType where "TypePassword = ''password''"
definition TypePluginSecret :: RecordType where "TypePluginSecret = ''plugin-secret''"
definition TypeKnownHost :: RecordType where "TypeKnownHost = ''known-host''"
definition TypePeerTrust :: RecordType where "TypePeerTrust = ''peer-trust''"
definition TypeConflict :: RecordType where "TypeConflict = ''conflict''"
definition TypeContact :: RecordType where "TypeContact = ''contact''"
definition TypeTeam :: RecordType where "TypeTeam = ''team''"
definition TypeCredentialBinding :: RecordType where "TypeCredentialBinding = ''credential-binding''"
definition TypePluginInstall :: RecordType where "TypePluginInstall = ''plugin-install''"
definition TypePluginData :: RecordType where "TypePluginData = ''plugin-data''"

lemmas type_defs = TypeVaultMeta_def TypeFolder_def TypeConnection_def TypeIdentity_def TypePassword_def
  TypePluginSecret_def TypeKnownHost_def TypePeerTrust_def TypeConflict_def TypeContact_def TypeTeam_def
  TypeCredentialBinding_def TypePluginInstall_def TypePluginData_def

definition settingsPrefix :: string where "settingsPrefix = ''settings.''"

definition settingsSections :: "string list" where
  "settingsSections = [''lockout'', ''terminal'', ''appearance'', ''ping'', ''transfer'', ''sessionHotkeys'',
     ''localTerminal'', ''terminalTools'', ''plugins'', ''embed'', ''updates'', ''reconnect'']"

definition SettingsType :: "string \<Rightarrow> RecordType" where
  "SettingsType section = settingsPrefix @ section"

definition schemaV1 :: "RecordType list" where
  "schemaV1 = [TypeVaultMeta, TypeFolder, TypeConnection, TypeIdentity, TypePassword, TypePluginSecret,
     TypeKnownHost, TypePeerTrust, TypeConflict, TypeContact, TypeCredentialBinding, TypePluginInstall,
     TypePluginData, TypeTeam]"

definition KnownSchemas :: "(string, u16) go_map" where
  "KnownSchemas = fmap_of_list (map (\<lambda>t. (t, 1)) schemaV1 @ map (\<lambda>s. (SettingsType s, 1)) settingsSections)"

definition IsSettingsType :: "RecordType \<Rightarrow> string \<times> bool" where
  "IsSettingsType t = (case CutPrefix t settingsPrefix of (s, ok) \<Rightarrow> (s, ok \<and> s \<in> set settingsSections))"

definition NamingKeySize :: nat where "NamingKeySize = 32"
definition labelRecordName :: string where "labelRecordName = ''xqs-sync/v1/record-name''"
definition labelVaultMeta :: string where "labelVaultMeta = ''xqs-sync/v1/vault-meta''"

datatype trust_error = ErrRecordData | ErrRecordType | ErrForeignVault | ErrNamingKey | ErrRecordID go_error

text \<open>\<open>mac\<close> is HMAC-SHA256; \<open>copy\<close> fills the id with the first sixteen bytes of the tag.\<close>

definition RecordID :: "(bytes \<Rightarrow> bytes \<Rightarrow> bytes) \<Rightarrow> bytes \<Rightarrow> RecordType \<Rightarrow> string \<Rightarrow> trust_error + ID" where
  "RecordID mac namingKey t naturalKey =
    (if length namingKey \<noteq> NamingKeySize then Inl ErrNamingKey
     else (case canon_Encoded (canon_chain [canon_String t, canon_String naturalKey] (NewCanon labelRecordName)) of
         Inl err \<Rightarrow> Inl (ErrRecordID err)
       | Inr msg \<Rightarrow>
           (let i = id_of_bytes (take IDSize (mac namingKey msg)) in
            if ID_IsZero i then Inl (ErrRecordID [ErrZeroID]) else Inr i)))"

section \<open>Decoded data\<close>

record pluginsSection =
  pl_TrustedPublisherKeys :: "string list"
  pl_RequireSignedPlugins :: bool
  pl_SecretAccessGranted :: grants
  pl_AuthProviderAccessGranted :: grants
  pl_TunnelProviderAccessGranted :: grants
  pl_MultiSessionAccessGranted :: grants
  pl_ArbitraryNetworkAccessGranted :: grants
  pl_Disabled :: grants

definition pluginsOf :: "PluginSettings \<Rightarrow> pluginsSection" where
  "pluginsOf p = \<lparr>pl_TrustedPublisherKeys = TrustedPublisherKeys p, pl_RequireSignedPlugins = RequireSignedPlugins p,
     pl_SecretAccessGranted = SecretAccessGranted p, pl_AuthProviderAccessGranted = AuthProviderAccessGranted p,
     pl_TunnelProviderAccessGranted = TunnelProviderAccessGranted p,
     pl_MultiSessionAccessGranted = MultiSessionAccessGranted p,
     pl_ArbitraryNetworkAccessGranted = ArbitraryNetworkAccessGranted p, pl_Disabled = Disabled p\<rparr>"

definition applyPlugins :: "PluginSettings \<Rightarrow> pluginsSection \<Rightarrow> PluginSettings" where
  "applyPlugins s v = \<lparr>TrustedPublisherKeys = pl_TrustedPublisherKeys v, RequireSignedPlugins = pl_RequireSignedPlugins v,
     SecretAccessGranted = pl_SecretAccessGranted v, AuthProviderAccessGranted = pl_AuthProviderAccessGranted v,
     TunnelProviderAccessGranted = pl_TunnelProviderAccessGranted v,
     MultiSessionAccessGranted = pl_MultiSessionAccessGranted v,
     ArbitraryNetworkAccessGranted = pl_ArbitraryNetworkAccessGranted v, Disabled = pl_Disabled v,
     AllowUnsandboxedFallback = AllowUnsandboxedFallback s\<rparr>"

record LockoutSettings =
  lk_Enabled :: bool
  lk_IdleTimeout :: int
  lk_LockOnMinimize :: bool

definition DefaultLockoutSettings :: LockoutSettings where
  "DefaultLockoutSettings = \<lparr>lk_Enabled = False, lk_IdleTimeout = 5 * 60 * 1000000000, lk_LockOnMinimize = False\<rparr>"

record identityData =
  id_NonExportable :: bool
  id_AllowPlugins :: bool
  id_AllowForwarding :: bool

record agentConfig =
  af_Enabled :: bool
  af_IdentityIDs :: "string list"

record 'r decoders =
  dec_plugins :: "'r \<Rightarrow> trust_error + pluginsSection"
  dec_lockout :: "'r \<Rightarrow> trust_error + LockoutSettings"
  dec_identity :: "'r \<Rightarrow> trust_error + identityData"
  dec_connection :: "'r \<Rightarrow> trust_error + agentConfig option" \<comment> \<open>the connection's \<open>AgentForwarding\<close>\<close>
  dec_knownHost :: "'r \<Rightarrow> trust_error + string" \<comment> \<open>the line\<close>
  dec_peerTrust :: "'r \<Rightarrow> trust_error + bytes" \<comment> \<open>the material\<close>

section \<open>Classification\<close>

datatype Action = ActionApply | ActionPending | ActionRefuse

record Verdict =
  v_Action :: Action
  v_Reason :: string

definition applyVerdict :: Verdict where "applyVerdict = \<lparr>v_Action = ActionApply, v_Reason = []\<rparr>"
definition pending :: "string \<Rightarrow> Verdict" where "pending reason = \<lparr>v_Action = ActionPending, v_Reason = reason\<rparr>"

definition anchorDeletions :: "(RecordType \<times> string) list" where
  "anchorDeletions = [(TypeKnownHost, ''removes the stored key of a known host''),
     (TypePeerTrust, ''removes the peer identity a plugin trusts''),
     (TypeIdentity, ''removes a key together with its restrictions'')]"

definition classifyDeletion :: "RecordType \<Rightarrow> 'r option \<Rightarrow> Verdict" where
  "classifyDeletion t loc =
    (case map_of anchorDeletions t of
       Some reason \<Rightarrow> if loc \<noteq> None then pending reason else applyVerdict
     | None \<Rightarrow> applyVerdict)"

definition decodeOrZero :: "('r \<Rightarrow> trust_error + 'a) \<Rightarrow> 'r option \<Rightarrow> 'a \<Rightarrow> trust_error + 'a" where
  "decodeOrZero dec raw z = (case raw of None \<Rightarrow> Inr z | Some r \<Rightarrow> dec r)"

definition classifyPlugins :: "'r decoders \<Rightarrow> 'r option \<Rightarrow> 'r \<Rightarrow> trust_error + Verdict" where
  "classifyPlugins D loc incoming =
    bind_res (decodeOrZero (dec_plugins D) loc (pluginsOf DefaultPluginSettings)) (\<lambda>l.
    bind_res (dec_plugins D incoming) (\<lambda>i.
      if PluginTrustWeakened (applyPlugins zero_plugins l) (applyPlugins zero_plugins i)
      then Inr (pending ''weakens plugin trust'') else Inr applyVerdict))"

definition idleLimit :: "int \<Rightarrow> int" where
  "idleLimit d = (if d \<le> 0 then 2 ^ 63 - 1 else d)"

definition classifyLockout :: "'r decoders \<Rightarrow> 'r option \<Rightarrow> 'r \<Rightarrow> trust_error + Verdict" where
  "classifyLockout D loc incoming =
    bind_res (decodeOrZero (dec_lockout D) loc \<lparr>lk_Enabled = False, lk_IdleTimeout = 0, lk_LockOnMinimize = False\<rparr>) (\<lambda>l.
    bind_res (dec_lockout D incoming) (\<lambda>i.
      if \<not> lk_Enabled l then Inr applyVerdict
      else if \<not> lk_Enabled i then Inr (pending ''disables the automatic lock'')
      else if idleLimit (lk_IdleTimeout i) > idleLimit (lk_IdleTimeout l)
        then Inr (pending ''lengthens the automatic lock timeout'')
      else if lk_LockOnMinimize l \<and> \<not> lk_LockOnMinimize i then Inr (pending ''stops locking on minimise'')
      else Inr applyVerdict))"

definition classifyIdentity :: "'r decoders \<Rightarrow> 'r option \<Rightarrow> 'r \<Rightarrow> trust_error + Verdict" where
  "classifyIdentity D loc incoming =
    bind_res (dec_identity D incoming) (\<lambda>ii.
      case loc of
        None \<Rightarrow> Inr applyVerdict
      | Some r \<Rightarrow> bind_res (dec_identity D r) (\<lambda>li.
          if id_NonExportable li \<and> \<not> id_NonExportable ii
            then Inr \<lparr>v_Action = ActionRefuse, v_Reason = ''makes a non-exportable key exportable''\<rparr>
          else if \<not> id_AllowPlugins li \<and> id_AllowPlugins ii then Inr (pending ''lets plugins read a private key'')
          else if \<not> id_AllowForwarding li \<and> id_AllowForwarding ii then Inr (pending ''allows a key to be forwarded'')
          else Inr applyVerdict))"

definition classifyConnection :: "'r decoders \<Rightarrow> 'r option \<Rightarrow> 'r \<Rightarrow> trust_error + Verdict" where
  "classifyConnection D loc incoming =
    bind_res (dec_connection D incoming) (\<lambda>i.
    bind_res (decodeOrZero (dec_connection D) loc None) (\<lambda>l.
      case i of
        None \<Rightarrow> Inr applyVerdict
      | Some ia \<Rightarrow>
          if \<not> af_Enabled ia then Inr applyVerdict
          else (case l of
              None \<Rightarrow> Inr (pending ''enables agent forwarding'')
            | Some la \<Rightarrow>
                if \<not> af_Enabled la then Inr (pending ''enables agent forwarding'')
                else if list_ex (\<lambda>k. k \<notin> set (af_IdentityIDs la)) (af_IdentityIDs ia)
                  then Inr (pending ''forwards an additional key'')
                else Inr applyVerdict)))"

definition classifyReplacement ::
    "('r \<Rightarrow> trust_error + 'a) \<Rightarrow> 'r option \<Rightarrow> 'r \<Rightarrow> ('a \<Rightarrow> 'b) \<Rightarrow> string \<Rightarrow> trust_error + Verdict" where
  "classifyReplacement dec loc incoming anchor reason =
    bind_res (dec incoming) (\<lambda>i.
      case loc of
        None \<Rightarrow> Inr applyVerdict
      | Some r \<Rightarrow> bind_res (dec r) (\<lambda>l. if anchor l = anchor i then Inr applyVerdict else Inr (pending reason)))"

text \<open>The anchors: the known_hosts line and the peer's material, which is what the decoders give.\<close>

definition hostAnchor :: "string \<Rightarrow> string" where "hostAnchor line = line"
definition peerAnchor :: "bytes \<Rightarrow> bytes" where "peerAnchor material = material"

definition Classify :: "'r decoders \<Rightarrow> RecordType \<Rightarrow> 'r option \<Rightarrow> 'r option \<Rightarrow> trust_error + Verdict" where
  "Classify D t loc incoming =
    (case incoming of
       None \<Rightarrow>
         (case IsSettingsType t of
            (section, True) \<Rightarrow> Inr \<lparr>v_Action = ActionRefuse, v_Reason = ''a settings section cannot be deleted: '' @ section\<rparr>
          | (_, False) \<Rightarrow> Inr (classifyDeletion t loc))
     | Some inc \<Rightarrow>
         if t = SettingsType ''plugins'' then classifyPlugins D loc inc
         else if t = SettingsType ''lockout'' then classifyLockout D loc inc
         else if t = TypeIdentity then classifyIdentity D loc inc
         else if t = TypeConnection then classifyConnection D loc inc
         else if t = TypeKnownHost
           then classifyReplacement (dec_knownHost D) loc inc hostAnchor ''replaces the stored key of a known host''
         else if t = TypePeerTrust
           then classifyReplacement (dec_peerTrust D) loc inc peerAnchor ''replaces the peer identity a plugin trusts''
         else Inr applyVerdict)"

section \<open>Additions beside a known host\<close>

record host_crypto =
  b64_decode :: "string \<Rightarrow> bytes option" \<comment> \<open>\<open>base64.StdEncoding.DecodeString\<close>\<close>
  hmac_sha1 :: "bytes \<Rightarrow> bytes \<Rightarrow> bytes"

definition IsHashedKnownHost :: "string \<Rightarrow> bool" where
  "IsHashedKnownHost lineHost = HasPrefix lineHost ''|1|''"

definition hashedKnownHostMatches :: "host_crypto \<Rightarrow> string \<Rightarrow> string \<Rightarrow> bool" where
  "hashedKnownHostMatches hc entry host =
    (let parts = Split entry (CHR ''|'') in
     if length parts \<noteq> 4 \<or> parts ! 1 \<noteq> ''1'' then False
     else (case (b64_decode hc (parts ! 2), b64_decode hc (parts ! 3)) of
         (Some salt, Some want) \<Rightarrow> hmac_sha1 hc salt (str_bytes host) = want
       | _ \<Rightarrow> False))"

definition KnownHostMatches :: "host_crypto \<Rightarrow> string \<Rightarrow> string \<Rightarrow> bool" where
  "KnownHostMatches hc lineHost host =
    (if IsHashedKnownHost lineHost then hashedKnownHostMatches hc lineHost (TrimSpace host)
     else TrimSpace lineHost = TrimSpace host)"

definition knownHostField :: "string \<Rightarrow> string \<times> bool" where
  "knownHostField line =
    (let f = Fields line;
         i = (if length f > 0 \<and> HasPrefix (f ! 0) ''@'' then 1 else 0) in
     if length f \<le> i then ([], False)
     else (let host = Cut_before (f ! i) (CHR '','') in (host, host \<noteq> [])))"

definition sameKnownHost :: "host_crypto \<Rightarrow> string \<Rightarrow> string \<Rightarrow> bool" where
  "sameKnownHost hc a b =
    (if IsHashedKnownHost a \<and> IsHashedKnownHost b then True
     else if IsHashedKnownHost a then KnownHostMatches hc a b
     else KnownHostMatches hc b a)"

record 'r Entry =
  en_Type :: RecordType
  en_Key :: string
  en_Data :: "'r option"

text \<open>Whether one held entry is a line for the host of the incoming one; an entry that does not decode
  is passed over. Data a snapshot lists is never nil.\<close>

definition holds_host :: "'r decoders \<Rightarrow> host_crypto \<Rightarrow> string \<Rightarrow> 'r Entry \<Rightarrow> bool" where
  "holds_host D hc host e =
    (if en_Type e \<noteq> TypeKnownHost then False
     else (case en_Data e of
         None \<Rightarrow> False
       | Some r \<Rightarrow>
           (case dec_knownHost D r of
              Inl _ \<Rightarrow> False
            | Inr line \<Rightarrow> (case knownHostField line of (lh, ok) \<Rightarrow> ok \<and> sameKnownHost hc lh host))))"

definition ClassifyAddition ::
    "'r decoders \<Rightarrow> host_crypto \<Rightarrow> RecordType \<Rightarrow> (ID, 'r Entry) go_map \<Rightarrow> 'r option \<Rightarrow> trust_error + Verdict" where
  "ClassifyAddition D hc t held incoming =
    (case incoming of
       None \<Rightarrow> Inr applyVerdict
     | Some raw \<Rightarrow>
         if t \<noteq> TypeKnownHost then Inr applyVerdict
         else (case dec_knownHost D raw of
             Inl err \<Rightarrow> Inl err
           | Inr line \<Rightarrow>
               (case knownHostField line of
                  (host, False) \<Rightarrow> Inl ErrRecordData
                | (host, True) \<Rightarrow>
                    if \<exists>i |\<in>| fmdom held. holds_host D hc host (the (fmlookup held i))
                    then Inr (pending ''adds another key for a host this device already knows'')
                    else Inr applyVerdict)))"

section \<open>What arrives without the master password\<close>

definition on_arrival :: "'r decoders \<Rightarrow> RecordType \<Rightarrow> 'r option \<Rightarrow> 'r option \<Rightarrow> 'r option" where
  "on_arrival D t loc incoming =
    (case Classify D t loc incoming of
       Inl _ \<Rightarrow> loc
     | Inr v \<Rightarrow> if v_Action v = ActionApply then incoming else loc)"

definition arrival_step :: "'r decoders \<Rightarrow> RecordType \<Rightarrow> 'r option \<Rightarrow> 'r option \<Rightarrow> unit + 'r option" where
  "arrival_step D t loc incoming = Inr (on_arrival D t loc incoming)"

lemma replay_arrival: "replay (arrival_step D t) loc incs = Inr (foldl (on_arrival D t) loc incs)"
  by (induction incs arbitrary: loc) (simp_all add: arrival_step_def)

definition lockout_le :: "LockoutSettings \<Rightarrow> LockoutSettings \<Rightarrow> bool" where
  "lockout_le l i \<longleftrightarrow> (lk_Enabled l \<longrightarrow> lk_Enabled i \<and> idleLimit (lk_IdleTimeout i) \<le> idleLimit (lk_IdleTimeout l) \<and>
    (lk_LockOnMinimize l \<longrightarrow> lk_LockOnMinimize i))"

definition identity_le :: "identityData \<Rightarrow> identityData \<Rightarrow> bool" where
  "identity_le l i \<longleftrightarrow> (id_NonExportable l \<longrightarrow> id_NonExportable i) \<and> (id_AllowPlugins i \<longrightarrow> id_AllowPlugins l) \<and>
    (id_AllowForwarding i \<longrightarrow> id_AllowForwarding l)"

text \<open>The keys a connection forwards.\<close>

definition forwarded :: "agentConfig option \<Rightarrow> string set option" where
  "forwarded c = (case c of Some a \<Rightarrow> if af_Enabled a then Some (set (af_IdentityIDs a)) else None | None \<Rightarrow> None)"

definition connection_le :: "agentConfig option \<Rightarrow> agentConfig option \<Rightarrow> bool" where
  "connection_le l i \<longleftrightarrow> (\<forall>ks. forwarded i = Some ks \<longrightarrow> (\<exists>ms. forwarded l = Some ms \<and> ks \<subseteq> ms))"

text \<open>A stored version and its successor, related by \<open>le\<close> when the first one decodes.\<close>

definition kept :: "('r \<Rightarrow> trust_error + 'a) \<Rightarrow> ('a \<Rightarrow> 'a \<Rightarrow> bool) \<Rightarrow> 'r option \<Rightarrow> 'r option \<Rightarrow> bool" where
  "kept dec le a b \<longleftrightarrow> (\<forall>r l. a = Some r \<and> dec r = Inr l \<longrightarrow> (\<exists>r' i. b = Some r' \<and> dec r' = Inr i \<and> le l i))"

text \<open>The same, where a missing version counts as a given value.\<close>

definition kept_or :: "('r \<Rightarrow> trust_error + 'a) \<Rightarrow> 'a \<Rightarrow> ('a \<Rightarrow> 'a \<Rightarrow> bool) \<Rightarrow> 'r option \<Rightarrow> 'r option \<Rightarrow> bool" where
  "kept_or dec z le a b \<longleftrightarrow> (\<forall>l. decodeOrZero dec a z = Inr l \<longrightarrow> (\<exists>i. decodeOrZero dec b z = Inr i \<and> le l i))"

definition section_le :: "pluginsSection \<Rightarrow> pluginsSection \<Rightarrow> bool" where
  "section_le l i \<longleftrightarrow> plugins_le (applyPlugins zero_plugins l) (applyPlugins zero_plugins i)"

definition no_weaker :: "'r decoders \<Rightarrow> RecordType \<Rightarrow> 'r option \<Rightarrow> 'r option \<Rightarrow> bool" where
  "no_weaker D t a b \<longleftrightarrow>
    (t = SettingsType ''plugins'' \<longrightarrow> kept_or (dec_plugins D) (pluginsOf DefaultPluginSettings) section_le a b) \<and>
    (t = SettingsType ''lockout'' \<longrightarrow> kept (dec_lockout D) lockout_le a b) \<and>
    (t = TypeIdentity \<longrightarrow> kept (dec_identity D) identity_le a b) \<and>
    (t = TypeConnection \<longrightarrow> kept_or (dec_connection D) None connection_le a b) \<and>
    (t = TypeKnownHost \<longrightarrow> kept (dec_knownHost D) (=) a b) \<and>
    (t = TypePeerTrust \<longrightarrow> kept (dec_peerTrust D) (=) a b)"

lemma kept_refl: "(\<And>x. le x x) \<Longrightarrow> kept dec le a a"
  by (auto simp: kept_def)

lemma kept_trans:
  assumes tr: "\<And>x y z. le x y \<Longrightarrow> le y z \<Longrightarrow> le x z" and "kept dec le a b" and "kept dec le b c"
  shows "kept dec le a c"
  unfolding kept_def
proof (intro allI impI, elim conjE)
  fix r l assume "a = Some r" "dec r = Inr l"
  with assms(2) obtain r' i where "b = Some r'" "dec r' = Inr i" "le l i" unfolding kept_def by blast
  moreover from this(1,2) assms(3) obtain r'' j where "c = Some r''" "dec r'' = Inr j" "le i j"
    unfolding kept_def by blast
  ultimately show "\<exists>r' i. c = Some r' \<and> dec r' = Inr i \<and> le l i" using tr by blast
qed

lemma kept_or_refl: "(\<And>x. le x x) \<Longrightarrow> kept_or dec z le a a"
  by (auto simp: kept_or_def)

lemma kept_or_trans:
  assumes tr: "\<And>x y z. le x y \<Longrightarrow> le y z \<Longrightarrow> le x z" and "kept_or dec z le a b" and "kept_or dec z le b c"
  shows "kept_or dec z le a c"
  unfolding kept_or_def
proof (intro allI impI)
  fix l assume "decodeOrZero dec a z = Inr l"
  with assms(2) obtain i where "decodeOrZero dec b z = Inr i" "le l i" unfolding kept_or_def by blast
  moreover from this(1) assms(3) obtain j where "decodeOrZero dec c z = Inr j" "le i j"
    unfolding kept_or_def by blast
  ultimately show "\<exists>i. decodeOrZero dec c z = Inr i \<and> le l i" using tr by blast
qed

lemma le_refls: "lockout_le x x" "identity_le y y" "connection_le z z" "section_le w w"
  by (auto simp: lockout_le_def identity_le_def connection_le_def section_le_def plugins_le_refl)

lemma lockout_le_trans: "lockout_le x y \<Longrightarrow> lockout_le y z \<Longrightarrow> lockout_le x z"
  by (auto simp: lockout_le_def)

lemma identity_le_trans: "identity_le x y \<Longrightarrow> identity_le y z \<Longrightarrow> identity_le x z"
  by (auto simp: identity_le_def)

lemma connection_le_trans: "connection_le x y \<Longrightarrow> connection_le y z \<Longrightarrow> connection_le x z"
  unfolding connection_le_def by (meson subset_trans)

lemma section_le_trans: "section_le x y \<Longrightarrow> section_le y z \<Longrightarrow> section_le x z"
  unfolding section_le_def by (rule plugins_le_trans)

lemma no_weaker_refl: "no_weaker D t a a"
  unfolding no_weaker_def by (intro conjI impI kept_refl kept_or_refl le_refls refl)

lemma no_weaker_trans:
  assumes "no_weaker D t a b" and "no_weaker D t b c"
  shows "no_weaker D t a c"
proof -
  note steps = kept_trans [where le = lockout_le and dec = "dec_lockout D" and a = a and b = b and c = c, OF lockout_le_trans]
    kept_trans [where le = identity_le and dec = "dec_identity D" and a = a and b = b and c = c, OF identity_le_trans]
    kept_trans [where le = "(=)" and dec = "dec_knownHost D" and a = a and b = b and c = c, OF trans]
    kept_trans [where le = "(=)" and dec = "dec_peerTrust D" and a = a and b = b and c = c, OF trans]
    kept_or_trans [where le = section_le and dec = "dec_plugins D" and a = a and b = b and c = c, OF section_le_trans]
    kept_or_trans [where le = connection_le and dec = "dec_connection D" and a = a and b = b and c = c, OF connection_le_trans]
  show ?thesis
    using assms unfolding no_weaker_def by (intro conjI impI) (simp_all add: steps)
qed

lemma Apply_simps [simp]:
  "v_Action applyVerdict = ActionApply" "v_Action (pending r) = ActionPending"
  "applyVerdict \<noteq> pending r" "pending r \<noteq> applyVerdict"
  by (simp_all add: applyVerdict_def pending_def)

text \<open>What an accepted version satisfies, type by type.\<close>

lemma keptI:
  "(\<And>r l. a = Some r \<Longrightarrow> dec r = Inr l \<Longrightarrow> \<exists>i. dec r' = Inr i \<and> le l i) \<Longrightarrow> kept dec le a (Some r')"
  by (auto simp: kept_def)

lemma classifyLockout_apply:
  assumes "classifyLockout D loc inc = Inr v" and "v_Action v = ActionApply"
  shows "kept (dec_lockout D) lockout_le loc (Some inc)"
proof (rule keptI)
  fix r l assume "loc = Some r" "dec_lockout D r = Inr l"
  with assms show "\<exists>i. dec_lockout D inc = Inr i \<and> lockout_le l i"
    by (cases "dec_lockout D inc")
       (simp_all add: classifyLockout_def decodeOrZero_def lockout_le_def not_less split: if_split_asm, auto)
qed

lemma classifyIdentity_apply:
  assumes "classifyIdentity D loc inc = Inr v" and "v_Action v = ActionApply"
  shows "kept (dec_identity D) identity_le loc (Some inc)"
proof (rule keptI)
  fix r l assume "loc = Some r" "dec_identity D r = Inr l"
  with assms show "\<exists>i. dec_identity D inc = Inr i \<and> identity_le l i"
    by (cases "dec_identity D inc") (auto simp: classifyIdentity_def identity_le_def split: if_split_asm)
qed

lemma classifyReplacement_apply:
  assumes "classifyReplacement dec loc inc anchor reason = Inr v" and "v_Action v = ActionApply" and "\<And>x. anchor x = x"
  shows "kept dec (=) loc (Some inc)"
proof (rule keptI)
  fix r l assume "loc = Some r" "dec r = Inr l"
  with assms show "\<exists>i. dec inc = Inr i \<and> l = i"
    by (cases "dec inc") (auto simp: classifyReplacement_def split: if_split_asm)
qed

lemma classifyPlugins_apply:
  assumes "classifyPlugins D loc inc = Inr v" and "v_Action v = ActionApply"
  shows "kept_or (dec_plugins D) (pluginsOf DefaultPluginSettings) section_le loc (Some inc)"
  unfolding kept_or_def
proof (intro allI impI)
  fix l assume "decodeOrZero (dec_plugins D) loc (pluginsOf DefaultPluginSettings) = Inr l"
  with assms show "\<exists>i. decodeOrZero (dec_plugins D) (Some inc) (pluginsOf DefaultPluginSettings) = Inr i \<and> section_le l i"
    by (cases "dec_plugins D inc")
       (auto simp: classifyPlugins_def section_le_def PluginTrustWeakened_iff decodeOrZero_def split: if_split_asm)
qed

lemma classifyConnection_apply:
  assumes "classifyConnection D loc inc = Inr v" and "v_Action v = ActionApply"
  shows "kept_or (dec_connection D) None connection_le loc (Some inc)"
  unfolding kept_or_def
proof (intro allI impI)
  fix l assume l: "decodeOrZero (dec_connection D) loc None = Inr l"
  with assms obtain i where i: "dec_connection D inc = Inr i"
    by (cases "dec_connection D inc") (auto simp: classifyConnection_def)
  have "connection_le l i"
    using assms l i
    by (cases i; cases l)
       (auto simp: classifyConnection_def connection_le_def forwarded_def list_ex_iff split: if_split_asm)
  with i show "\<exists>i. decodeOrZero (dec_connection D) (Some inc) None = Inr i \<and> connection_le l i"
    by (simp add: decodeOrZero_def)
qed

lemma type_distinct [simp]:
  "SettingsType ''plugins'' \<noteq> SettingsType ''lockout''" "SettingsType x \<noteq> TypeIdentity" "SettingsType x \<noteq> TypeConnection"
  "SettingsType x \<noteq> TypeKnownHost" "SettingsType x \<noteq> TypePeerTrust" "TypeIdentity \<noteq> TypeConnection"
  "TypeIdentity \<noteq> TypeKnownHost" "TypeIdentity \<noteq> TypePeerTrust" "TypeConnection \<noteq> TypeKnownHost"
  "TypeConnection \<noteq> TypePeerTrust" "TypeKnownHost \<noteq> TypePeerTrust"
  by (simp_all add: SettingsType_def settingsPrefix_def type_defs)

lemmas type_distinct_sym [simp] = type_distinct [symmetric]

lemma IsSettingsType_iff: "snd (IsSettingsType t) \<longleftrightarrow> (\<exists>s \<in> set settingsSections. t = SettingsType s)"
  by (auto simp: IsSettingsType_def CutPrefix_def SettingsType_def split: prod.splits if_splits)
     (metis append_take_drop_id)

lemma no_weaker_step: "no_weaker D t loc (on_arrival D t loc incoming)"
proof (cases "\<exists>v. Classify D t loc incoming = Inr v \<and> v_Action v = ActionApply")
  case False
  then have "on_arrival D t loc incoming = loc"
    by (auto simp: on_arrival_def split: sum.splits)
  then show ?thesis by (simp add: no_weaker_refl)
next
  case True
  then obtain v where v: "Classify D t loc incoming = Inr v" "v_Action v = ActionApply" by blast
  then have arr: "on_arrival D t loc incoming = incoming" by (simp add: on_arrival_def)
  show ?thesis
  proof (cases incoming)
    case None
    have "snd (IsSettingsType t) = False"
      using v None by (auto simp: Classify_def split: prod.splits bool.splits)
    then have "t \<noteq> SettingsType ''plugins''" "t \<noteq> SettingsType ''lockout''"
      by (auto simp: IsSettingsType_iff settingsSections_def)
    moreover have "loc = None" if "t \<in> {TypeIdentity, TypeKnownHost, TypePeerTrust}"
      using v None that \<open>snd (IsSettingsType t) = False\<close>
      by (auto simp: Classify_def classifyDeletion_def anchorDeletions_def split: prod.splits if_splits)
    moreover have "kept_or (dec_connection D) None connection_le loc None"
      by (simp add: kept_or_def decodeOrZero_def [of _ None] connection_le_def forwarded_def [of None])
    ultimately have "no_weaker D t loc None"
      unfolding no_weaker_def by (auto simp: kept_def)
    with arr None show ?thesis by simp
  next
    case (Some inc)
    have "no_weaker D t loc (Some inc)"
      unfolding no_weaker_def
      using v Some classifyPlugins_apply [of D loc inc v] classifyLockout_apply [of D loc inc v]
        classifyIdentity_apply [of D loc inc v] classifyConnection_apply [of D loc inc v]
        classifyReplacement_apply [of "dec_knownHost D" loc inc hostAnchor _ v]
        classifyReplacement_apply [of "dec_peerTrust D" loc inc peerAnchor _ v]
      by (intro conjI impI) (simp_all add: Classify_def hostAnchor_def peerAnchor_def)
    with arr Some show ?thesis by simp
  qed
qed

interpretation arrivals: log_monotone "arrival_step D t" "no_weaker D t" for D t
  by unfold_locales (auto simp: no_weaker_refl arrival_step_def no_weaker_step intro: no_weaker_trans)

section \<open>Sample devices\<close>

text \<open>Raw data is a pair of flags and a known_hosts line; every decoder reads its part.\<close>

type_synonym sample_raw = "bool \<times> bool \<times> string"

definition sd :: "sample_raw decoders" where
  "sd = \<lparr>dec_plugins = (\<lambda>_. Inl ErrRecordData),
     dec_lockout = (\<lambda>(a, b, _). Inr \<lparr>lk_Enabled = a, lk_IdleTimeout = 60, lk_LockOnMinimize = b\<rparr>),
     dec_identity = (\<lambda>(a, b, _). Inr \<lparr>id_NonExportable = a, id_AllowPlugins = b, id_AllowForwarding = False\<rparr>),
     dec_connection = (\<lambda>_. Inr None), dec_knownHost = (\<lambda>(_, _, line). Inr line), dec_peerTrust = (\<lambda>_. Inr [])\<rparr>"

definition shc :: host_crypto where
  "shc = \<lparr>b64_decode = (\<lambda>_. None), hmac_sha1 = (\<lambda>_ _. [])\<rparr>"

section \<open>Properties\<close>


text \<open>The sync check is at least as strict as the lookup it protects: if some host name is vouched for
  both by a stored known_hosts line and by an arriving line, as the lookup decides it, the arriving
  line waits for the master password - a second key type, a marker or the hashed form included.\<close>

theorem second_host_key_is_held:
  assumes "fmlookup held i = Some e" and "en_Type e = TypeKnownHost" and "en_Data e = Some r"
    and "dec_knownHost D r = Inr stored" and "knownHostField stored = (a, True)"
    and "dec_knownHost D raw = Inr line" and "knownHostField line = (b, True)"
    and "KnownHostMatches hc a host" and "KnownHostMatches hc b host"
  shows "\<exists>v. ClassifyAddition D hc TypeKnownHost held (Some raw) = Inr v \<and> v_Action v = ActionPending"
proof -
  have "sameKnownHost hc a b"
    using assms(8,9) by (auto simp: sameKnownHost_def KnownHostMatches_def split: if_splits)
  then have "holds_host D hc b (the (fmlookup held i))"
    using assms(1-5) by (simp add: holds_host_def)
  moreover have "i |\<in>| fmdom held" using assms(1) by (rule fmdomI)
  ultimately have "\<exists>i |\<in>| fmdom held. holds_host D hc b (the (fmlookup held i))" by blast
  then show ?thesis using assms(6,7) by (simp add: ClassifyAddition_def)
qed

lemma sample_line: "knownHostField ''@revoked web k1'' = (''web'', True)" "knownHostField ''web,db k2'' = (''web'', True)"
  by (simp_all add: knownHostField_def Fields_def space_len_def ascii_spaces_def wide_spaces_def HasPrefix_def
      Let_def Cut_before_def)

theorem second_host_key_is_held_witness:
  "\<exists>v. ClassifyAddition sd shc TypeKnownHost
      (fmupd 1 \<lparr>en_Type = TypeKnownHost, en_Key = ''web'', en_Data = Some (False, False, ''web,db k2'')\<rparr> fmempty)
      (Some (False, False, ''@revoked web k1'')) = Inr v \<and> v_Action v = ActionPending"
  by (rule second_host_key_is_held [of _ 1 "\<lparr>en_Type = TypeKnownHost, en_Key = ''web'', en_Data = Some (False, False, ''web,db k2'')\<rparr>"
        "(False, False, ''web,db k2'')" _ "''web,db k2''" "''web''" _ "''@revoked web k1''" "''web''" _ "''web''"])
     (simp_all add: sd_def sample_line KnownHostMatches_def IsHashedKnownHost_def HasPrefix_def)

end
