(* ===== verification/Resolve.thy ===== *)
theory Resolve
  imports Merge Trust
begin

text \<open>
  Merging record data and resolving what the merge could not: the credential policy of a record type
  (\<open>FieldPolicyFor\<close>, \<open>isCredential\<close> of \<open>synctrust/trust.go\<close>), \<open>MergeData\<close> and \<open>SameData\<close>
  (\<open>synctrust/merge.go\<close>), and the write of a chosen value at a conflict's path (\<open>setPath\<close>, \<open>indexByID\<close> of
  \<open>synctrust/setfield.go\<close>). The JSON codec is a parameter: \<open>dec\<close> is \<open>decodeObject\<close>'s decoder, \<open>enc\<close> is
  \<open>json.Marshal\<close> of a decoded value, which does not fail. \<open>setPath\<close> writes only when it reaches the
  last segment, so the in-place write is a function of the tree.
\<close>

section \<open>Model\<close>

definition credentialFields :: "(RecordType \<times> string list) list" where
  "credentialFields = [(TypePassword, [''value'']), (TypePluginSecret, [''value'']), (TypeKnownHost, [''line'']),
     (TypePeerTrust, [''material''])]"

definition connectionCredentials :: "string list" where
  "connectionCredentials = [''host'', ''port'', ''jumpChain'', ''agentForwarding'']"
definition userCredentials :: "string list" where
  "userCredentials = [''authMethod'', ''keyAuth'', ''passAuth'', ''pluginAuth'']"
definition identityCredentials :: "string list" where
  "identityCredentials = [''policy'', ''allowPlugins'', ''allowForwarding'', ''nonExportable'']"

definition isCredential :: "RecordType \<Rightarrow> string list \<Rightarrow> bool" where
  "isCredential t path =
    (if length path = 0 then False
     else if t = TypeConnection then
       (if path ! 0 = ''users'' then length path > 2 \<and> path ! 2 \<in> set userCredentials
        else path ! 0 \<in> set connectionCredentials)
     else if t = TypeIdentity then
       path ! 0 = ''blob'' \<or> (path ! 0 = ''identity'' \<and> length path > 1 \<and> path ! 1 \<in> set identityCredentials)
     else path ! 0 \<in> set (case map_of credentialFields t of None \<Rightarrow> [] | Some fs \<Rightarrow> fs))"

definition FieldPolicyFor :: "RecordType \<Rightarrow> FieldPolicy" where
  "FieldPolicyFor t path = (if isCredential t path then FieldCredential else FieldOrdinary)"

record 'r FieldConflict =
  fc_Path :: "string list"
  fc_Local :: 'r
  fc_Remote :: 'r

definition decodeObject :: "('r \<Rightarrow> json option) \<Rightarrow> 'r \<Rightarrow> trust_error + (string, json) fmap" where
  "decodeObject dec raw = (case dec raw of Some (JObj m) \<Rightarrow> Inr m | _ \<Rightarrow> Inl ErrRecordData)"

definition MergeData ::
    "('r \<Rightarrow> json option) \<Rightarrow> (json \<Rightarrow> 'r) \<Rightarrow> RecordType \<Rightarrow> 'r option \<Rightarrow> 'r \<Rightarrow> 'r \<Rightarrow> trust_error + 'r \<times> 'r FieldConflict list" where
  "MergeData dec enc t base loc remote =
    bind_res (case base of None \<Rightarrow> Inr fmempty | Some raw \<Rightarrow> decodeObject dec raw) (\<lambda>b.
    bind_res (decodeObject dec loc) (\<lambda>l.
    bind_res (decodeObject dec remote) (\<lambda>r.
      let res = MergeObjects b l r (FieldPolicyFor t) in
      Inr (enc (JObj (mr_Value res)),
        map (\<lambda>c. \<lparr>fc_Path = cf_Path c, fc_Local = enc (the (cf_Local c)), fc_Remote = enc (the (cf_Remote c))\<rparr>)
          (mr_Conflicts res)))))"

definition SameData :: "('r \<Rightarrow> json option) \<Rightarrow> 'r \<Rightarrow> 'r \<Rightarrow> bool" where
  "SameData dec a b =
    (case (decodeObject dec a, decodeObject dec b) of (Inr x, Inr y) \<Rightarrow> x = y | _ \<Rightarrow> False)"

fun index_from :: "json list \<Rightarrow> string \<Rightarrow> nat option" where
  "index_from [] i = None"
| "index_from (el # els) i =
    (case el of
       JObj obj \<Rightarrow> if fmlookup obj ''id'' = Some (JStr i) then Some 0 else map_option Suc (index_from els i)
     | _ \<Rightarrow> map_option Suc (index_from els i))"

definition indexByID :: "json list \<Rightarrow> string \<Rightarrow> trust_error + nat" where
  "indexByID list seg =
    (case CutPrefix seg ''[id='' of
       (i, ok) \<Rightarrow>
         (case CutSuffix i '']'' of
            (i, closed) \<Rightarrow>
              if \<not> ok \<or> \<not> closed then Inl ErrRecordData
              else (case index_from list i of None \<Rightarrow> Inl ErrRecordData | Some n \<Rightarrow> Inr n)))"

fun setPath :: "json \<Rightarrow> string list \<Rightarrow> json \<Rightarrow> trust_error + json" where
  "setPath cur [] v = Inr cur"
| "setPath cur (seg # segs) v =
    (case cur of
       JObj node \<Rightarrow>
         if segs = [] then Inr (JObj (fmupd seg v node))
         else (case fmlookup node seg of
             None \<Rightarrow> Inl ErrRecordData
           | Some child \<Rightarrow> bind_res (setPath child segs v) (\<lambda>c. Inr (JObj (fmupd seg c node))))
     | JArr node \<Rightarrow>
         bind_res (indexByID node seg) (\<lambda>idx.
           if segs = [] then Inr (JArr (node[idx := v]))
           else bind_res (setPath (node ! idx) segs v) (\<lambda>c. Inr (JArr (node[idx := c]))))
     | _ \<Rightarrow> Inl ErrRecordData)"

section \<open>Reading at a path\<close>

text \<open>The value a path names, as \<open>setPath\<close> walks it.\<close>

fun getPath :: "json \<Rightarrow> string list \<Rightarrow> json option" where
  "getPath cur [] = Some cur"
| "getPath cur (seg # segs) =
    (case cur of
       JObj node \<Rightarrow> (case fmlookup node seg of None \<Rightarrow> None | Some child \<Rightarrow> getPath child segs)
     | JArr node \<Rightarrow> (case indexByID node seg of Inl _ \<Rightarrow> None | Inr idx \<Rightarrow> getPath (node ! idx) segs)
     | _ \<Rightarrow> None)"

lemma setPath_get: "getPath cur path = Some x \<Longrightarrow> \<exists>new. setPath cur path v = Inr new"
proof (induction cur path arbitrary: x rule: getPath.induct)
  case (2 cur seg segs)
  show ?case
  proof (cases cur)
    case (JArr node)
    with "2.prems" obtain idx where "indexByID node seg = Inr idx" "getPath (node ! idx) segs = Some x"
      by (auto split: sum.splits)
    with "2.IH"(1) [OF JArr this] JArr show ?thesis by auto
  next
    case (JObj node)
    with "2.prems" obtain child where "fmlookup node seg = Some child" "getPath child segs = Some x"
      by (auto split: option.splits)
    with "2.IH"(2) [OF JObj this] JObj show ?thesis by auto
  qed (use "2.prems" in auto)
qed simp

lemma indexByID_segment: "indexByID list (id_segment i) = (case index_from list i of None \<Rightarrow> Inl ErrRecordData | Some n \<Rightarrow> Inr n)"
proof -
  have "id_segment i = ''[id='' @ (i @ '']'')" by (simp add: id_segment_def)
  then have cut: "CutPrefix (id_segment i) ''[id='' = (i @ '']'', True)" by (metis CutPrefix_append)
  show ?thesis unfolding indexByID_def cut by simp
qed

text \<open>The element an id names in a list of merged entries.\<close>

lemma index_from_entries:
  assumes "distinct is" and "i \<in> set is" and "\<And>j. has_id j (f j)" and "f i = Some x"
  shows "\<exists>n. index_from (List.map_filter f is) i = Some n \<and> List.map_filter f is ! n = x"
  using assms(1,2)
proof (induction "is")
  case (Cons j js)
  show ?case
  proof (cases "j = i")
    case True
    then obtain obj where "x = JObj obj" "fmlookup obj ''id'' = Some (JStr i)"
      using assms(3) [of i] assms(4) by (auto simp: has_id_def)
    with True assms(4) show ?thesis by (simp add: map_filter_simps)
  next
    case False
    with Cons obtain n where "index_from (List.map_filter f js) i = Some n" "List.map_filter f js ! n = x" by auto
    moreover have "\<And>obj. f j = Some obj \<Longrightarrow> \<exists>m. obj = JObj m \<and> fmlookup m ''id'' = Some (JStr j)"
      using assms(3) [of j] by (auto simp: has_id_def)
    ultimately show ?thesis using False by (fastforce simp: map_filter_simps split: option.splits)
  qed
qed simp

text \<open>Every conflict is found in the merged value at its path, with the remote value in place.\<close>

definition located :: "Conflict \<Rightarrow> string list \<Rightarrow> json option \<Rightarrow> bool" where
  "located c path v \<longleftrightarrow> (\<exists>x rest. v = Some x \<and> cf_Path c = path @ rest \<and> getPath x rest = cf_Remote c)"

lemma located_field:
  assumes "located c (childPath path key) (fmlookup m key)"
  shows "located c path (Some (JObj m))"
proof -
  from assms obtain x rest where "fmlookup m key = Some x" "cf_Path c = path @ key # rest" "getPath x rest = cf_Remote c"
    by (auto simp: located_def childPath_def)
  then show ?thesis unfolding located_def by (intro exI [of _ "JObj m"] exI [of _ "key # rest"]) simp
qed

lemma located_entry:
  assumes "located c (childPath path (id_segment i)) (f i)" and "distinct is" and "i \<in> set is" and "\<And>j. has_id j (f j)"
  shows "located c path (Some (JArr (List.map_filter f is)))"
proof -
  from assms(1) obtain x rest where x: "f i = Some x" "cf_Path c = path @ id_segment i # rest" "getPath x rest = cf_Remote c"
    by (auto simp: located_def childPath_def)
  from index_from_entries [OF assms(2-4) x(1)] obtain n
    where "index_from (List.map_filter f is) i = Some n" "List.map_filter f is ! n = x" by blast
  with x show ?thesis unfolding located_def
    by (intro exI [of _ "JArr (List.map_filter f is)"] exI [of _ "id_segment i # rest"]) (simp add: indexByID_segment)
qed

lemma idLists_ok:
  assumes "idLists base loc remote = Some (l, r, b)"
  shows "idList_ok l" and "idList_ok r" and "idList_ok b" and "has_id i (idList_get l i)"
    and "has_id i (idList_get r i)" and "has_id i (idList_get b i)"
proof -
  show ok: "idList_ok l" "idList_ok r" "idList_ok b"
    using assms asIDList_ok by (auto simp: idLists_def idList_ok_def split: option.splits if_splits)
  have "has_id i (idList_get x i)" if "idList_ok x" for x
    using that by (cases "fmlookup (il_byID x) i") (auto simp: has_id_def idList_get_def idList_ok_def)
  with ok show "has_id i (idList_get l i)" "has_id i (idList_get r i)" "has_id i (idList_get b i)" by blast+
qed

lemma merge_value_located:
  "c \<in> set (snd (merge_value policy path base loc remote)) \<Longrightarrow>
    located c path (fst (merge_value policy path base loc remote))"
proof (induction policy path base loc remote rule: merge_value.induct)
  case (1 policy path base loc remote)
  show ?case
  proof (cases "loc = remote \<or> loc = base \<or> remote = base \<or> loc = None \<or> remote = None")
    case True
    with "1.prems" show ?thesis by (auto simp: merge_value.simps [of policy path base loc remote] split: if_splits)
  next
    case neq: False
    show ?thesis
    proof (cases "asObjects base loc remote")
      case (Some t)
      obtain lo ro bo where t: "t = (lo, ro, bo)" by (cases t)
      have eq: "merge_value policy path base loc remote =
          (Some (JObj (fst (merge_object policy path bo lo ro))), snd (merge_object policy path bo lo ro))"
        using neq Some t by (auto simp: merge_value_eq [of policy path base loc remote] split: prod.splits)
      with "1.prems" obtain key where key: "key \<in> set (object_keys bo lo ro)"
        "c \<in> set (snd (merge_value policy (childPath path key) (fmlookup bo key) (fmlookup lo key) (fmlookup ro key)))"
        by (auto simp: merge_object_conflicts)
      then have "located c (childPath path key)
          (fst (merge_value policy (childPath path key) (fmlookup bo key) (fmlookup lo key) (fmlookup ro key)))"
        using "1.IH"(2) neq Some t by (metis (no_types, lifting))
      then show ?thesis unfolding eq fst_conv
        by (intro located_field [of _ _ key]) (simp add: merge_object_lookup)
    next
      case none: None
      show ?thesis
      proof (cases "idLists base loc remote")
        case (Some t)
        obtain l r b where t: "t = (l, r, b)" by (cases t)
        define g where "g i = merge_value policy (childPath path (id_segment i)) (idList_get b i) (idList_get l i) (idList_get r i)" for i
        have eq: "merge_value policy path base loc remote =
            (Some (JArr (List.map_filter (\<lambda>i. fst (g i)) (id_order l r b))), concat (map (\<lambda>i. snd (g i)) (id_order l r b)))"
          using neq none Some t
          by (auto simp: merge_value_eq [of policy path base loc remote] idArray_def Let_def comp_def g_def
              List.map_filter_def filter_map)
        with "1.prems" obtain i where i: "i \<in> set (id_order l r b)" "c \<in> set (snd (g i))" by auto
        then have "located c (childPath path (id_segment i)) (fst (g i))"
          using "1.IH"(1) neq none Some t unfolding g_def by (metis (no_types, lifting))
        moreover note ok = idLists_ok [OF Some [unfolded t]]
        have "distinct (id_order l r b)" using id_order_props(1) [OF ok(1)] .
        moreover have "has_id j (fst (g j))" for j
          unfolding g_def by (rule merge_keeps_id [OF ok(6,4,5)])
        ultimately show ?thesis unfolding eq fst_conv using i(1) by (intro located_entry) auto
      next
        case None
        with none neq "1.prems" show ?thesis
          by (auto simp: merge_value.simps [of policy path base loc remote] merge_resolve_def located_def
              split: if_splits)
      qed
    qed
  qed
qed

section \<open>Properties\<close>

text \<open>Every conflict can be resolved: a conflict that \<open>MergeObjects\<close> reports names, by the path
  \<open>SetField\<close> walks, a place in the merged record that holds the remote value, and writing the chosen
  value there succeeds - through id-keyed arrays as well.\<close>

theorem conflicts_are_resolvable:
  assumes "c \<in> set (mr_Conflicts (MergeObjects b l r policy))"
  shows "getPath (JObj (mr_Value (MergeObjects b l r policy))) (cf_Path c) = cf_Remote c \<and>
    (\<exists>new. setPath (JObj (mr_Value (MergeObjects b l r policy))) (cf_Path c) v = Inr new)"
proof -
  from assms obtain key where
    "c \<in> set (snd (merge_value policy (childPath [] key) (fmlookup b key) (fmlookup l key) (fmlookup r key)))"
    by (auto simp: MergeObjects_fields merge_object_conflicts)
  from merge_value_located [OF this] have "located c [] (Some (JObj (fst (merge_object policy [] b l r))))"
    by (intro located_field [of _ _ key]) (simp add: merge_object_lookup)
  then have get: "getPath (JObj (mr_Value (MergeObjects b l r policy))) (cf_Path c) = cf_Remote c"
    by (simp add: located_def MergeObjects_fields)
  have "cf_Remote c \<noteq> None"
    using MergeObjects_conflict_ok [OF assms] by (simp add: conflict_ok_def)
  then obtain x where "cf_Remote c = Some x" by blast
  with get setPath_get show ?thesis by metis
qed

lemma sample_conflict:
  "\<lparr>cf_Path = [''password''], cf_Local = Some (JStr ''q''), cf_Remote = Some (JStr ''r'')\<rparr> \<in>
    set (mr_Conflicts (MergeObjects m_base m_local m_remote m_policy))"
proof -
  have look: "fmlookup m_base ''password'' = Some (JStr ''p'')" "fmlookup m_local ''password'' = Some (JStr ''q'')"
    "fmlookup m_remote ''password'' = Some (JStr ''r'')"
    by (simp_all add: m_base_def m_local_def m_remote_def rec_of_def fmlookup_of_list)
  have "\<lparr>cf_Path = [''password''], cf_Local = Some (JStr ''q''), cf_Remote = Some (JStr ''r'')\<rparr> \<in>
      set (snd (merge_value m_policy (childPath [] ''password'') (fmlookup m_base ''password'')
        (fmlookup m_local ''password'') (fmlookup m_remote ''password'')))"
    unfolding look
    by (simp add: merge_value.simps asObjects_def idLists_def asIDList_def merge_resolve_def childPath_def m_policy_def)
  moreover have "''password'' \<in> set (object_keys m_base m_local m_remote)"
    using look(1) by (auto intro: fmdomI)
  ultimately show ?thesis
    unfolding MergeObjects_fields merge_object_conflicts set_concat set_map by blast
qed

theorem conflicts_are_resolvable_witness:
  "\<exists>new. setPath (JObj (mr_Value (MergeObjects m_base m_local m_remote m_policy))) [''password''] (JStr ''q'') = Inr new"
  using conflicts_are_resolvable [OF sample_conflict] by simp

text \<open>Merging record data asks a person only about credentials: whatever two devices did to a record,
  every conflict \<open>MergeData\<close> returns is on a credential field of the record's type and carries two
  values that decode differently; and a device that changed nothing gets the remote record, with
  no conflict. The codec has to decode what it encoded.\<close>

theorem MergeData_conflicts:
  assumes "\<And>v. dec (enc v) = Some v" and "MergeData dec enc t base loc remote = Inr (merged, cs)"
  shows "(\<forall>c \<in> set cs. isCredential t (fc_Path c) \<and> dec (fc_Local c) \<noteq> dec (fc_Remote c)) \<and>
    (base = Some loc \<longrightarrow> SameData dec merged remote \<and> cs = [])"
proof -
  obtain b l r where
    b: "(case base of None \<Rightarrow> Inr fmempty | Some raw \<Rightarrow> decodeObject dec raw) = Inr b" and
    l: "decodeObject dec loc = Inr l" and r: "decodeObject dec remote = Inr r" and
    merged: "merged = enc (JObj (mr_Value (MergeObjects b l r (FieldPolicyFor t))))" and
    cs: "cs = map (\<lambda>c. \<lparr>fc_Path = cf_Path c, fc_Local = enc (the (cf_Local c)), fc_Remote = enc (the (cf_Remote c))\<rparr>)
          (mr_Conflicts (MergeObjects b l r (FieldPolicyFor t)))"
    using assms(2) by (auto simp: MergeData_def Let_def bind_res_Inr)
  note ok = MergeObjects_conflict_ok [of _ b l r "FieldPolicyFor t"]
  have "\<forall>c \<in> set cs. isCredential t (fc_Path c) \<and> dec (fc_Local c) \<noteq> dec (fc_Remote c)"
    unfolding cs using ok assms(1)
    by (fastforce simp: conflict_ok_def FieldPolicyFor_def FieldCredential_def FieldOrdinary_def split: if_splits)
  moreover have "SameData dec merged remote \<and> cs = []" if "base = Some loc"
  proof -
    have "b = l" using b l that by simp
    then have "merge_object (FieldPolicyFor t) [] b l r = (r, [])"
      by (intro prod_eqI) (simp_all add: merge_object_conflicts merge_one_side merge_object_ext)
    then show ?thesis using r assms(1) by (simp add: merged cs MergeObjects_fields SameData_def decodeObject_def)
  qed
  ultimately show ?thesis by blast
qed

theorem MergeData_conflicts_witness:
  "\<exists>merged cs. MergeData Some (\<lambda>v. v) TypePassword (Some (JObj m_base)) (JObj m_base) (JObj m_remote) = Inr (merged, cs) \<and>
    SameData Some merged (JObj m_remote) \<and> cs = []"
proof -
  obtain merged cs where "MergeData Some (\<lambda>v. v) TypePassword (Some (JObj m_base)) (JObj m_base) (JObj m_remote) = Inr (merged, cs)"
    by (simp add: MergeData_def decodeObject_def Let_def)
  with MergeData_conflicts [of Some "\<lambda>v. v", OF _ this] show ?thesis by simp
qed

end
