(* ===== verification/Throttle.thy ===== *)
theory Throttle
  imports Prelude
begin

text \<open>
  The throttle of master password and recovery key attempts (\<open>unlock_throttle.go\<close>,
  \<open>recovery_throttle.go\<close>). Durations are nanoseconds in a signed 64-bit integer, written as \<open>int\<close>
  with the wrap-around \<open>i64\<close> where the code can overflow: the shift of the delay and the count of
  failures. Instants are \<open>int\<close> nanoseconds, the zero \<open>time.Time\<close> is 0, and \<open>Time.Sub\<close> saturates. The
  clock's reading is an argument of the operation that reads it; the mutex makes each operation one
  step. A nil throttle is \<open>None\<close>.
\<close>

section \<open>Model\<close>

definition i64 :: "int \<Rightarrow> int" where
  "i64 x = signed_take_bit 63 x"

definition Second :: int where "Second = 1000000000"
definition Minute :: int where "Minute = 60 * Second"

definition time_Sub :: "int \<Rightarrow> int \<Rightarrow> int" where
  "time_Sub t u = max (- (2 ^ 63)) (min (2 ^ 63 - 1) (t - u))"

definition UnlockFreeAttempts :: int where "UnlockFreeAttempts = 3"
definition UnlockBaseDelay :: int where "UnlockBaseDelay = Second"
definition UnlockMaxDelay :: int where "UnlockMaxDelay = 30 * Second"

definition RecoveryFreeAttempts :: int where "RecoveryFreeAttempts = 1"
definition RecoveryBaseDelay :: int where "RecoveryBaseDelay = 5 * Second"
definition RecoveryMaxDelay :: int where "RecoveryMaxDelay = 5 * Minute"

record ThrottlePolicy =
  FreeAttempts :: int
  BaseDelay :: int
  MaxDelay :: int

definition DefaultUnlockPolicy :: ThrottlePolicy where
  "DefaultUnlockPolicy = \<lparr>FreeAttempts = UnlockFreeAttempts, BaseDelay = UnlockBaseDelay, MaxDelay = UnlockMaxDelay\<rparr>"

definition RecoveryPolicy :: ThrottlePolicy where
  "RecoveryPolicy = \<lparr>FreeAttempts = RecoveryFreeAttempts, BaseDelay = RecoveryBaseDelay, MaxDelay = RecoveryMaxDelay\<rparr>"

definition zero_policy :: ThrottlePolicy where
  "zero_policy = \<lparr>FreeAttempts = 0, BaseDelay = 0, MaxDelay = 0\<rparr>"

record UnlockThrottle =
  th_failures :: int
  th_nextAllowed :: int
  th_policy :: ThrottlePolicy

definition NewUnlockThrottle :: UnlockThrottle where
  "NewUnlockThrottle = \<lparr>th_failures = 0, th_nextAllowed = 0, th_policy = zero_policy\<rparr>"

definition NewThrottleWithPolicy :: "ThrottlePolicy \<Rightarrow> UnlockThrottle" where
  "NewThrottleWithPolicy p = \<lparr>th_failures = 0, th_nextAllowed = 0, th_policy = p\<rparr>"

definition NewRecoveryThrottle :: UnlockThrottle where
  "NewRecoveryThrottle = NewThrottleWithPolicy RecoveryPolicy"

definition pol :: "UnlockThrottle \<Rightarrow> ThrottlePolicy" where
  "pol t = (if FreeAttempts (th_policy t) = 0 \<and> BaseDelay (th_policy t) = 0 \<and> MaxDelay (th_policy t) = 0
            then DefaultUnlockPolicy else th_policy t)"

definition unlockDelayFor :: "int \<Rightarrow> ThrottlePolicy \<Rightarrow> int" where
  "unlockDelayFor fails p =
    (let steps = i64 (fails - FreeAttempts p) in
     if steps < 0 then 0
     else if steps > 32 then MaxDelay p
     else (let delay = i64 (BaseDelay p * 2 ^ nat steps) in
       if delay > MaxDelay p \<or> delay \<le> 0 then MaxDelay p else delay))"

definition Check :: "UnlockThrottle option \<Rightarrow> int \<Rightarrow> int \<times> bool" where
  "Check t clock =
    (case t of
       None \<Rightarrow> (0, True)
     | Some t \<Rightarrow>
         (let remaining = time_Sub (th_nextAllowed t) clock in
          if remaining > 0 then (remaining, False) else (0, True)))"

definition RecordFailure :: "UnlockThrottle option \<Rightarrow> int \<Rightarrow> UnlockThrottle option" where
  "RecordFailure t clock =
    (case t of
       None \<Rightarrow> None
     | Some t \<Rightarrow>
         (let p = pol t; t = t\<lparr>th_failures := i64 (th_failures t + 1)\<rparr> in
          if th_failures t < FreeAttempts p then Some t
          else Some (t\<lparr>th_nextAllowed := clock + unlockDelayFor (th_failures t) p\<rparr>)))"

definition RecordSuccess :: "UnlockThrottle option \<Rightarrow> UnlockThrottle option" where
  "RecordSuccess t = (case t of None \<Rightarrow> None | Some t \<Rightarrow> Some (t\<lparr>th_failures := 0, th_nextAllowed := 0\<rparr>))"

definition Failures :: "UnlockThrottle option \<Rightarrow> int" where
  "Failures t = (case t of None \<Rightarrow> 0 | Some t \<Rightarrow> th_failures t)"

text \<open>A run of wrong attempts: each is made at the given instant and, when the throttle lets it through,
  counted. The result is \<open>None\<close> when some attempt was refused.\<close>

fun wrong_attempts :: "UnlockThrottle \<Rightarrow> int list \<Rightarrow> UnlockThrottle option" where
  "wrong_attempts t [] = Some t"
| "wrong_attempts t (now # rest) =
    (if snd (Check (Some t) now)
     then (case RecordFailure (Some t) now of Some t' \<Rightarrow> wrong_attempts t' rest | None \<Rightarrow> None)
     else None)"

section \<open>Lemmas\<close>

lemma i64_id: "- (2 ^ 63) \<le> x \<Longrightarrow> x < 2 ^ 63 \<Longrightarrow> i64 x = x"
  by (simp add: i64_def signed_take_bit_int_eq_self)

lemma time_Sub_pos: "time_Sub t u > 0 \<longleftrightarrow> t > u"
  by (auto simp: time_Sub_def)

lemma snd_Check: "snd (Check (Some t) now) \<longleftrightarrow> th_nextAllowed t \<le> now"
  by (auto simp: Check_def Let_def time_Sub_pos split: if_splits)

text \<open>What the schedule means without machine arithmetic.\<close>

definition delay_spec :: "ThrottlePolicy \<Rightarrow> int \<Rightarrow> int" where
  "delay_spec p fails =
    (if fails < FreeAttempts p then 0 else min (MaxDelay p) (BaseDelay p * 2 ^ nat (fails - FreeAttempts p)))"

definition policies :: "ThrottlePolicy list" where
  "policies = [DefaultUnlockPolicy, RecoveryPolicy]"

lemma delay_steps_32:
  assumes "p \<in> set policies" and "n \<in> set [0..<33]"
  shows "(let delay = i64 (BaseDelay p * 2 ^ n) in if delay > MaxDelay p \<or> delay \<le> 0 then MaxDelay p else delay) =
    min (MaxDelay p) (BaseDelay p * 2 ^ n)"
  using assms
  by (auto simp: policies_def upt_rec DefaultUnlockPolicy_def RecoveryPolicy_def UnlockBaseDelay_def UnlockMaxDelay_def
      RecoveryBaseDelay_def RecoveryMaxDelay_def Second_def Minute_def i64_def Let_def signed_take_bit_eq_if_positive
      signed_take_bit_eq_if_negative)

lemma pow2_mono_33: "33 \<le> n \<Longrightarrow> (2::int) ^ 33 \<le> 2 ^ n"
  by (rule power_increasing) simp_all

lemma unlockDelayFor_spec:
  assumes "p \<in> set policies" and "0 \<le> f" and "f < 2 ^ 63"
  shows "unlockDelayFor f p = delay_spec p f"
proof -
  have free: "FreeAttempts p = 3 \<or> FreeAttempts p = 1"
    using assms(1) by (auto simp: policies_def DefaultUnlockPolicy_def RecoveryPolicy_def UnlockFreeAttempts_def RecoveryFreeAttempts_def)
  then have id: "i64 (f - FreeAttempts p) = f - FreeAttempts p"
    using assms(2,3) by (intro i64_id) auto
  consider "f < FreeAttempts p" | "0 \<le> f - FreeAttempts p" "f - FreeAttempts p \<le> 32" | "f - FreeAttempts p > 32" by linarith
  then show ?thesis
  proof cases
    case 2
    then have "nat (f - FreeAttempts p) \<in> set [0..<33]" by auto
    from delay_steps_32 [OF assms(1) this] show ?thesis using 2 by (simp add: unlockDelayFor_def id delay_spec_def)
  next
    case 3
    have pos: "Second \<le> BaseDelay p" "MaxDelay p \<le> 300 * Second"
      using assms(1) by (auto simp: policies_def DefaultUnlockPolicy_def RecoveryPolicy_def UnlockBaseDelay_def
          UnlockMaxDelay_def RecoveryBaseDelay_def RecoveryMaxDelay_def Second_def Minute_def)
    have "(2::int) ^ 33 \<le> 2 ^ nat (f - FreeAttempts p)" using 3 by (intro pow2_mono_33) simp
    then have "Second * 2 ^ 33 \<le> BaseDelay p * 2 ^ nat (f - FreeAttempts p)"
      using pos(1) by (intro mult_mono) (auto simp: Second_def)
    then have "MaxDelay p \<le> BaseDelay p * 2 ^ nat (f - FreeAttempts p)" using pos(2) by (simp add: Second_def)
    with 3 show ?thesis by (simp add: unlockDelayFor_def id delay_spec_def min_def)
  qed (simp add: unlockDelayFor_def id delay_spec_def)
qed

lemma delay_spec_mono:
  assumes "p \<in> set policies" and "f \<le> g"
  shows "delay_spec p f \<le> delay_spec p g" and "0 \<le> delay_spec p f" and "delay_spec p f \<le> MaxDelay p"
proof -
  have pos: "0 < BaseDelay p" "0 < MaxDelay p"
    using assms(1) by (auto simp: policies_def DefaultUnlockPolicy_def RecoveryPolicy_def UnlockBaseDelay_def
        UnlockMaxDelay_def RecoveryBaseDelay_def RecoveryMaxDelay_def Second_def Minute_def)
  have "BaseDelay p * 2 ^ nat (f - FreeAttempts p) \<le> BaseDelay p * 2 ^ nat (g - FreeAttempts p)"
    using assms(2) pos by (intro mult_left_mono power_increasing) auto
  then have "min (MaxDelay p) (BaseDelay p * 2 ^ nat (f - FreeAttempts p)) \<le>
      min (MaxDelay p) (BaseDelay p * 2 ^ nat (g - FreeAttempts p))" by linarith
  moreover have "0 \<le> BaseDelay p * 2 ^ n" for n using pos by simp
  ultimately show "delay_spec p f \<le> delay_spec p g" using assms(2) pos by (simp add: delay_spec_def)
  show "0 \<le> delay_spec p f" "delay_spec p f \<le> MaxDelay p"
    using pos by (auto simp: delay_spec_def min_def)
qed

lemma RecordFailure_eq:
  assumes "pol t \<in> set policies" and "0 \<le> th_failures t" and "th_failures t + 1 < 2 ^ 63"
  shows "RecordFailure (Some t) now =
    (if th_failures t + 1 < FreeAttempts (pol t) then Some (t\<lparr>th_failures := th_failures t + 1\<rparr>)
     else Some (t\<lparr>th_failures := th_failures t + 1, th_nextAllowed := now + delay_spec (pol t) (th_failures t + 1)\<rparr>))"
  using assms by (simp add: RecordFailure_def Let_def i64_id unlockDelayFor_spec)

lemma pol_update [simp]: "pol (t\<lparr>th_failures := n\<rparr>) = pol t" "pol (t\<lparr>th_nextAllowed := x\<rparr>) = pol t"
  by (simp_all add: pol_def)

text \<open>Attempts that all went through are spaced by the schedule: the next one comes no earlier than the
  wait after the failures before it.\<close>

lemma wrong_attempts_spaced:
  assumes "wrong_attempts t ats = Some t'" and "pol t \<in> set policies" and "0 \<le> th_failures t"
    and "th_failures t + int (length ats) < 2 ^ 63" and "Suc i < length ats"
  shows "ats ! i + delay_spec (pol t) (th_failures t + int i + 1) \<le> ats ! Suc i \<or>
    th_failures t + int i + 1 < FreeAttempts (pol t)"
  using assms
proof (induction ats arbitrary: t i)
  case (Cons now ats)
  define u where "u = the (RecordFailure (Some t) now)"
  have rf: "RecordFailure (Some t) now = Some u" unfolding u_def by (simp add: RecordFailure_def Let_def)
  have u: "pol u = pol t" "th_failures u = th_failures t + 1"
    "th_failures t + 1 < FreeAttempts (pol t) \<or> th_nextAllowed u = now + delay_spec (pol t) (th_failures t + 1)"
    using Cons.prems RecordFailure_eq [of t now] unfolding rf by (auto split: if_splits)
  have run: "wrong_attempts u ats = Some t'"
    using Cons.prems(1) rf by (simp split: if_splits)
  show ?case
  proof (cases i)
    case 0
    with Cons.prems(5) obtain next_time rest where ats: "ats = next_time # rest" by (cases ats) auto
    then have "th_nextAllowed u \<le> next_time" using run by (simp add: snd_Check split: if_splits)
    with u(3) ats 0 show ?thesis by auto
  next
    case (Suc j)
    have "ats ! j + delay_spec (pol u) (th_failures u + int j + 1) \<le> ats ! Suc j \<or>
        th_failures u + int j + 1 < FreeAttempts (pol u)"
      using Cons.prems u run Suc by (intro Cons.IH) auto
    then show ?thesis using u(1,2) Suc by (simp add: add.assoc add.commute)
  qed
qed simp

section \<open>Properties\<close>

text \<open>The schedule is what it says for both credentials: no wait while free attempts are left, then
  the base delay doubled per further failure and capped at the maximum. The 64-bit shift never turns
  into a shorter or a negative wait, however many failures there were, and the wait never shrinks.\<close>

theorem unlockDelayFor_exact:
  assumes "p \<in> {DefaultUnlockPolicy, RecoveryPolicy}" and "0 \<le> f" and "f \<le> g" and "g < 2 ^ 63"
  shows "unlockDelayFor f p =
      (if f < FreeAttempts p then 0 else min (MaxDelay p) (BaseDelay p * 2 ^ nat (f - FreeAttempts p))) \<and>
    unlockDelayFor f p \<le> unlockDelayFor g p"
proof -
  have p: "p \<in> set policies" using assms(1) by (simp add: policies_def)
  with assms have "unlockDelayFor f p = delay_spec p f" "unlockDelayFor g p = delay_spec p g"
    by (simp_all add: unlockDelayFor_spec)
  then show ?thesis using delay_spec_mono(1) [OF p assms(3)] by (simp add: delay_spec_def)
qed

theorem unlockDelayFor_exact_witness:
  "unlockDelayFor 33 RecoveryPolicy = RecoveryMaxDelay \<and> unlockDelayFor 5 DefaultUnlockPolicy = 4 * Second"
  using unlockDelayFor_exact [of RecoveryPolicy 33 33] unlockDelayFor_exact [of DefaultUnlockPolicy 5 5]
  by (simp add: RecoveryPolicy_def DefaultUnlockPolicy_def UnlockFreeAttempts_def RecoveryFreeAttempts_def
      UnlockBaseDelay_def UnlockMaxDelay_def RecoveryBaseDelay_def RecoveryMaxDelay_def Second_def Minute_def)

text \<open>Guessing is slowed down: among wrong master password attempts that all went through from a fresh
  throttle, the attempt after the \<open>k\<close>-th failure, \<open>k\<close> at least three, starts no earlier than the
  scheduled wait after that failure - also when the clock is set back in between.\<close>

theorem guesses_are_spaced:
  assumes "wrong_attempts NewUnlockThrottle ats = Some t" and "int (length ats) < 2 ^ 63"
    and "3 \<le> k" and "k < length ats"
  shows "ats ! (k - 1) + min UnlockMaxDelay (UnlockBaseDelay * 2 ^ (k - 3)) \<le> ats ! k"
proof -
  have pol: "pol NewUnlockThrottle = DefaultUnlockPolicy"
    by (simp add: pol_def NewUnlockThrottle_def zero_policy_def)
  have "ats ! (k - 1) + delay_spec (pol NewUnlockThrottle) (th_failures NewUnlockThrottle + int (k - 1) + 1) \<le> ats ! Suc (k - 1) \<or>
    th_failures NewUnlockThrottle + int (k - 1) + 1 < FreeAttempts (pol NewUnlockThrottle)"
    using assms by (intro wrong_attempts_spaced [of _ _ t]) (simp_all add: pol policies_def, simp_all add: NewUnlockThrottle_def)
  moreover have "int (k - 1) + 1 = int k" "nat (int k - 3) = k - 3" using assms(3) by simp_all
  ultimately show ?thesis using assms(3) unfolding pol
    by (simp add: NewUnlockThrottle_def delay_spec_def DefaultUnlockPolicy_def UnlockFreeAttempts_def)
qed

theorem guesses_are_spaced_witness:
  "(\<exists>t. wrong_attempts NewUnlockThrottle [0, 0, 0, 2 * Second, 4 * Second] = Some t) \<and>
    [0, 0, 0, 2 * Second, 4 * Second] ! 3 + min UnlockMaxDelay (UnlockBaseDelay * 2 ^ (4 - 3)) \<le> [0, 0, 0, 2 * Second, 4 * Second] ! 4"
proof -
  obtain t where t: "wrong_attempts NewUnlockThrottle [0, 0, 0, 2 * Second, 4 * Second] = Some t"
    by (simp add: NewUnlockThrottle_def snd_Check RecordFailure_def Let_def pol_def zero_policy_def DefaultUnlockPolicy_def
        unlockDelayFor_def UnlockFreeAttempts_def UnlockBaseDelay_def UnlockMaxDelay_def Second_def i64_id)
  from guesses_are_spaced [OF t, of 4] t show ?thesis by simp
qed

end
