(* ===== verification/Login_Limiter.thy ===== *)
theory Login_Limiter
  imports Prelude "HOL-Library.Product_Lexorder"
begin

text \<open>
  The server's throttle of password guessing (\<open>syncserver/usecase/limiter.go\<close>). Times are 64-bit
  millisecond counts at their width, so the subtractions wrap around as in the code when a clock goes
  back; the theorems that need a monotone clock say so. The counters of failures are Go \<open>int\<close>s written
  as \<open>int\<close>: they would take \<open>2^63\<close> attempts to wrap around. The mutex makes each operation one step.
\<close>

section \<open>Model\<close>

definition freeFailures :: int where "freeFailures = 3"
definition baseBackoff :: u64 where "baseBackoff = 1000"
definition maxBackoff :: u64 where "maxBackoff = 5 * 60000"
definition userHourlyBudget :: int where "userHourlyBudget = 30"
definition userSlowSpacing :: u64 where "userSlowSpacing = 2 * 60000"
definition hourMillis :: u64 where "hourMillis = 60 * 60000"
definition maxTrackedPairs :: nat where "maxTrackedPairs = 100000"

record pairState =
  ps_failures :: int
  ps_until :: u64

record userState =
  us_windowStart :: u64
  us_failures :: int
  us_last :: u64

record limiter =
  lm_pairs :: "(string \<times> string, pairState) go_map"
  lm_users :: "(string, userState) go_map"

definition newLimiter :: limiter where
  "newLimiter = \<lparr>lm_pairs = fmempty, lm_users = fmempty\<rparr>"

definition limiter_check :: "limiter \<Rightarrow> string \<Rightarrow> string \<Rightarrow> u64 \<Rightarrow> u64" where
  "limiter_check l username ip now =
    (let user_wait =
       (case fmlookup (lm_users l) username of
          None \<Rightarrow> 0
        | Some u \<Rightarrow>
            if now - us_windowStart u \<ge> hourMillis \<or> us_failures u < userHourlyBudget then 0
            else if now - us_last u < userSlowSpacing then userSlowSpacing - (now - us_last u)
            else 0)
     in (case fmlookup (lm_pairs l) (username, ip) of
           Some p \<Rightarrow> if ps_until p > now then ps_until p - now else user_wait
         | None \<Rightarrow> user_wait))"

text \<open>\<open>sweep\<close> deletes entries while it ranges over the maps; what is deleted depends on the entry alone.\<close>

definition limiter_sweep :: "limiter \<Rightarrow> u64 \<Rightarrow> limiter" where
  "limiter_sweep l now =
    \<lparr>lm_pairs = fmfilter (\<lambda>k. \<not> ps_until (the (fmlookup (lm_pairs l) k)) \<le> now) (lm_pairs l),
     lm_users = fmfilter (\<lambda>k. let u = the (fmlookup (lm_users l) k) in
       \<not> (now - us_windowStart u \<ge> hourMillis \<or> us_failures u < userHourlyBudget)) (lm_users l)\<rparr>"

definition charge_pair :: "pairState option \<Rightarrow> u64 \<Rightarrow> pairState" where
  "charge_pair p now =
    (let p = (case p of None \<Rightarrow> \<lparr>ps_failures = 0, ps_until = 0\<rparr> | Some p \<Rightarrow> p);
         p = p\<lparr>ps_failures := ps_failures p + 1\<rparr> in
     if ps_failures p \<ge> freeFailures then
       (let backoff = push_bit (nat (min (ps_failures p - freeFailures) 20)) baseBackoff in
        p\<lparr>ps_until := now + min backoff maxBackoff\<rparr>)
     else p)"

definition charge_user :: "userState option \<Rightarrow> u64 \<Rightarrow> userState" where
  "charge_user u now =
    (let fresh = \<lparr>us_windowStart = now, us_failures = 0, us_last = 0\<rparr>;
         u = (case u of None \<Rightarrow> fresh | Some u \<Rightarrow> if now - us_windowStart u \<ge> hourMillis then fresh else u) in
     u\<lparr>us_failures := us_failures u + 1, us_last := now\<rparr>)"

definition limiter_fail :: "limiter \<Rightarrow> string \<Rightarrow> string \<Rightarrow> u64 \<Rightarrow> limiter" where
  "limiter_fail l username ip now =
    (let l = (if fcard (fmdom (lm_pairs l)) \<ge> maxTrackedPairs \<or> fcard (fmdom (lm_users l)) \<ge> maxTrackedPairs
              then limiter_sweep l now else l) in
     \<lparr>lm_pairs = fmupd (username, ip) (charge_pair (fmlookup (lm_pairs l) (username, ip)) now) (lm_pairs l),
      lm_users = fmupd username (charge_user (fmlookup (lm_users l) username) now) (lm_users l)\<rparr>)"

definition limiter_succeed :: "limiter \<Rightarrow> string \<Rightarrow> string \<Rightarrow> limiter" where
  "limiter_succeed l username ip =
    \<lparr>lm_pairs = fmdrop (username, ip) (lm_pairs l),
     lm_users = (case fmlookup (lm_users l) username of
        Some u \<Rightarrow> if us_failures u > 0 then fmupd username (u\<lparr>us_failures := us_failures u - 1\<rparr>) (lm_users l)
                  else lm_users l
      | None \<Rightarrow> lm_users l)\<rparr>"

text \<open>What the login handlers do to the limiter, with the instants the attempts arrive at.\<close>

datatype login_event = Fail string string u64 | Succeed string string

fun login_step :: "limiter \<Rightarrow> login_event \<Rightarrow> limiter" where
  "login_step l (Fail u ip now) = limiter_fail l u ip now"
| "login_step l (Succeed u ip) = limiter_succeed l u ip"

fun event_time :: "login_event \<Rightarrow> nat option" where
  "event_time (Fail u ip now) = Some (unat now)"
| "event_time (Succeed u ip) = None"

section \<open>Lemmas\<close>

lemmas limit_defs = freeFailures_def baseBackoff_def maxBackoff_def userHourlyBudget_def userSlowSpacing_def
  hourMillis_def

text \<open>Every entry's waiting time ends within the maximal backoff of the last event.\<close>

definition lim_ok :: "nat \<Rightarrow> limiter \<Rightarrow> bool" where
  "lim_ok T l \<longleftrightarrow>
    (\<forall>k p. fmlookup (lm_pairs l) k = Some p \<longrightarrow> unat (ps_until p) \<le> T + 300000) \<and>
    (\<forall>k u. fmlookup (lm_users l) k = Some u \<longrightarrow> unat (us_windowStart u) \<le> T \<and> unat (us_last u) \<le> T)"

lemma lim_ok_mono: "lim_ok T l \<Longrightarrow> T \<le> T' \<Longrightarrow> lim_ok T' l"
  unfolding lim_ok_def by (meson add_le_mono1 order_trans)

lemma lim_ok_sweep: "lim_ok T l \<Longrightarrow> lim_ok T (limiter_sweep l now)"
  by (auto simp: lim_ok_def limiter_sweep_def split: if_splits)

lemma until_bound:
  assumes "unat (now :: u64) < 2 ^ 63"
  shows "unat (now + min backoff maxBackoff) \<le> unat now + 300000"
proof -
  have m: "unat (min backoff maxBackoff) \<le> 300000"
    using min.cobounded2 [of backoff maxBackoff] by (simp add: word_le_nat_alt maxBackoff_def)
  then have "unat (now + min backoff maxBackoff) = unat now + unat (min backoff maxBackoff)"
    using assms by (simp add: unat_word_ariths)
  with m show ?thesis by simp
qed

lemma charge_pair_bound:
  assumes "unat now < 2 ^ 63" and "case p of None \<Rightarrow> True | Some q \<Rightarrow> unat (ps_until q) \<le> unat now + 300000"
  shows "unat (ps_until (charge_pair p now)) \<le> unat now + 300000"
  using assms(2) until_bound [OF assms(1)] by (auto simp: charge_pair_def Let_def split: option.splits)

lemma charge_user_bound:
  assumes "case u of None \<Rightarrow> True | Some q \<Rightarrow> unat (us_windowStart q) \<le> unat now"
  shows "unat (us_windowStart (charge_user u now)) \<le> unat now" and "us_last (charge_user u now) = now"
  using assms by (auto simp: charge_user_def Let_def split: option.splits)

lemma lim_ok_fail:
  assumes "lim_ok T l" and "T \<le> unat now" and "unat now < 2 ^ 63"
  shows "lim_ok (unat now) (limiter_fail l u ip now)"
proof -
  define m where "m = (if fcard (fmdom (lm_pairs l)) \<ge> maxTrackedPairs \<or> fcard (fmdom (lm_users l)) \<ge> maxTrackedPairs
    then limiter_sweep l now else l)"
  have m: "lim_ok (unat now) m"
    unfolding m_def using lim_ok_mono [OF assms(1,2)] lim_ok_sweep by simp
  have pair: "unat (ps_until (charge_pair (fmlookup (lm_pairs m) (u, ip)) now)) \<le> unat now + 300000"
    using m by (intro charge_pair_bound [OF assms(3)]) (auto simp: lim_ok_def split: option.splits)
  have user: "unat (us_windowStart (charge_user (fmlookup (lm_users m) u) now)) \<le> unat now"
    "us_last (charge_user (fmlookup (lm_users m) u) now) = now"
    using m by (intro charge_user_bound; auto simp: lim_ok_def split: option.splits)+
  show ?thesis
    using m pair user unfolding limiter_fail_def m_def [symmetric] Let_def by (auto simp: lim_ok_def)
qed

lemma lim_ok_succeed: "lim_ok T l \<Longrightarrow> lim_ok T (limiter_succeed l u ip)"
  by (auto simp: lim_ok_def limiter_succeed_def split: option.splits if_splits)

text \<open>A log of events with a clock that does not go back.\<close>

fun ordered :: "nat \<Rightarrow> login_event list \<Rightarrow> bool" where
  "ordered T [] = True"
| "ordered T (e # es) =
    (case event_time e of None \<Rightarrow> ordered T es | Some t \<Rightarrow> T \<le> t \<and> t < 2 ^ 63 \<and> ordered t es)"

fun final_time :: "nat \<Rightarrow> login_event list \<Rightarrow> nat" where
  "final_time T [] = T"
| "final_time T (e # es) = final_time (case event_time e of None \<Rightarrow> T | Some t \<Rightarrow> t) es"

lemma lim_ok_run: "lim_ok T l \<Longrightarrow> ordered T es \<Longrightarrow> lim_ok (final_time T es) (foldl login_step l es)"
proof (induction es arbitrary: T l)
  case (Cons e es)
  show ?case
  proof (cases e)
    case (Fail u ip now)
    with Cons.prems have "lim_ok (unat now) (limiter_fail l u ip now)" "ordered (unat now) es"
      by (auto intro: lim_ok_fail)
    with Cons.IH Fail show ?thesis by simp
  next
    case (Succeed u ip)
    with Cons lim_ok_succeed show ?thesis by simp
  qed
qed simp

lemma check_bound:
  assumes "lim_ok T l" and "T \<le> unat now"
  shows "unat (limiter_check l u ip now) \<le> 300000"
proof -
  have pair: "unat (ps_until p - now) \<le> 300000" if "fmlookup (lm_pairs l) (u, ip) = Some p" "now < ps_until p" for p
  proof -
    have "unat (ps_until p) \<le> T + 300000" using assms(1) that by (auto simp: lim_ok_def)
    moreover have "unat (ps_until p - now) = unat (ps_until p) - unat now" using that by (intro unat_sub) simp
    ultimately show ?thesis using assms(2) by simp
  qed
  have user: "unat (userSlowSpacing - x) \<le> 300000" if "x < userSlowSpacing" for x
  proof -
    have "unat (userSlowSpacing - x) = unat userSlowSpacing - unat x" using that by (intro unat_sub) simp
    then show ?thesis by (simp add: userSlowSpacing_def)
  qed
  show ?thesis
    unfolding limiter_check_def Let_def using pair user by (auto split: option.splits)
qed

lemma check_zero:
  assumes "lim_ok T l" and "T + 300000 \<le> unat now"
  shows "limiter_check l u ip now = 0"
proof -
  have "\<not> now < ps_until p" if "fmlookup (lm_pairs l) (u, ip) = Some p" for p
    using assms that by (force simp: lim_ok_def word_less_nat_alt)
  moreover have "\<not> now - us_last x < userSlowSpacing" if "fmlookup (lm_users l) u = Some x" for x
  proof -
    have "unat (us_last x) \<le> T" using assms(1) that by (auto simp: lim_ok_def)
    then have "us_last x \<le> now" "unat now - unat (us_last x) \<ge> 300000"
      using assms(2) by (simp_all add: word_le_nat_alt)
    then have "unat (now - us_last x) \<ge> 300000" by (simp add: unat_sub)
    then show ?thesis by (simp add: word_less_nat_alt userSlowSpacing_def)
  qed
  ultimately show ?thesis unfolding limiter_check_def Let_def by (auto split: option.splits)
qed

text \<open>What \<open>charge_pair\<close> makes of the failures so far.\<close>

lemma backoff_value:
  assumes "3 \<le> n"
  shows "unat (min (push_bit (nat (min (n - freeFailures) 20)) baseBackoff) maxBackoff) = min 300000 (1000 * 2 ^ nat (n - 3))"
proof -
  define k where "k = nat (min (n - freeFailures) 20)"
  have k: "k \<le> 20" "k = min (nat (n - 3)) 20" using assms by (auto simp: k_def freeFailures_def min_def)
  have "(2::nat) ^ k \<le> 2 ^ 20" using k(1) by (intro power_increasing) auto
  then have lt: "1000 * 2 ^ k < (2::nat) ^ 64" by simp
  have "push_bit k baseBackoff = word_of_nat (1000 * 2 ^ k)" by (simp add: push_bit_eq_mult baseBackoff_def)
  with lt have p: "unat (push_bit k baseBackoff) = 1000 * 2 ^ k" by (simp only: unat_of_nat) simp
  have m: "unat (min a b) = min (unat a) (unat b)" for a b :: u64 by (simp add: min_def word_le_nat_alt)
  have "min 300000 (1000 * 2 ^ k) = min 300000 (1000 * 2 ^ nat (n - 3) :: nat)"
  proof (cases "nat (n - 3) \<le> 20")
    case False
    then have "(2::nat) ^ 20 \<le> 2 ^ nat (n - 3)" by (intro power_increasing) auto
    with False k(2) show ?thesis by (simp add: min_def)
  qed (simp add: k(2))
  then show ?thesis unfolding k_def [symmetric] by (simp add: m p maxBackoff_def min.commute)
qed

section \<open>Properties\<close>

text \<open>Nobody is locked out by someone else's guessing: after any history of failed and successful
  logins under a clock that does not go back, every account's wait from every address is at most five
  minutes, and whoever waits five minutes after the last failed attempt may try at once.\<close>

theorem login_never_locked_out:
  assumes "ordered 0 es" and "final_time 0 es \<le> unat now"
  shows "unat (limiter_check (foldl login_step newLimiter es) username ip now) \<le> 300000 \<and>
    (final_time 0 es + 300000 \<le> unat now \<longrightarrow>
      limiter_check (foldl login_step newLimiter es) username ip now = 0)"
proof -
  have "lim_ok 0 newLimiter" by (simp add: lim_ok_def newLimiter_def)
  then have "lim_ok (final_time 0 es) (foldl login_step newLimiter es)" using assms(1) by (rule lim_ok_run)
  with assms(2) check_bound check_zero show ?thesis by blast
qed

theorem login_never_locked_out_witness:
  "unat (limiter_check (foldl login_step newLimiter [Fail ''eve'' ''1'' 10, Fail ''eve'' ''1'' 20, Fail ''eve'' ''1'' 30]) ''eve'' ''1'' 40) \<le> 300000"
  using login_never_locked_out [of "[Fail ''eve'' ''1'' 10, Fail ''eve'' ''1'' 20, Fail ''eve'' ''1'' 30]" 40 "''eve''" "''1''"]
  by simp

text \<open>Guessing from one address is slowed down: from the third charged failure on, the address has to
  wait one second, doubled per further failure up to five minutes, before the account lets it try
  again.\<close>

theorem login_backoff:
  assumes "fcard (fmdom (lm_pairs l)) < maxTrackedPairs" and "fcard (fmdom (lm_users l)) < maxTrackedPairs"
    and "fmlookup (lm_pairs l) (username, ip) = Some p" and "2 \<le> ps_failures p" and "unat now < 2 ^ 63"
  shows "unat (limiter_check (limiter_fail l username ip now) username ip now) =
    min 300000 (1000 * 2 ^ nat (ps_failures p - 2))"
proof -
  define b where "b = min (push_bit (nat (min (ps_failures p + 1 - freeFailures) 20)) baseBackoff) maxBackoff"
  have b: "unat b = min 300000 (1000 * 2 ^ nat (ps_failures p - 2))"
    using backoff_value [of "ps_failures p + 1"] assms(4) unfolding b_def by simp
  then have pos: "0 < unat b" "unat b \<le> 300000" by simp_all
  have charged: "ps_until (charge_pair (Some p) now) = now + b"
    using assms(4) by (simp add: charge_pair_def Let_def b_def freeFailures_def)
  have "unat (now + b) = unat now + unat b" using assms(5) pos by (simp add: unat_word_ariths)
  then have "now < now + b" using pos by (simp add: word_less_nat_alt)
  then have "limiter_check (limiter_fail l username ip now) username ip now = b"
    using assms(1-3) charged by (simp add: limiter_check_def limiter_fail_def Let_def)
  with b show ?thesis by simp
qed

theorem login_backoff_witness:
  "unat (limiter_check (limiter_fail \<lparr>lm_pairs = fmupd (''eve'', ''1'') \<lparr>ps_failures = 4, ps_until = 0\<rparr> fmempty, lm_users = fmempty\<rparr>
      ''eve'' ''1'' 50) ''eve'' ''1'' 50) = 4000"
  using login_backoff [of "\<lparr>lm_pairs = fmupd (''eve'', ''1'') \<lparr>ps_failures = 4, ps_until = 0\<rparr> fmempty, lm_users = fmempty\<rparr>"
      "''eve''" "''1''" "\<lparr>ps_failures = 4, ps_until = 0\<rparr>" 50]
  by (simp add: maxTrackedPairs_def fcard.rep_eq)

text \<open>Making room forgets nothing that still slows somebody: at the instant of a sweep and at every
  later one, the wait of every account and address is the same with and without it.\<close>

theorem sweep_keeps_waits:
  assumes "lim_ok T l" and "T \<le> unat now" and "now \<le> later"
  shows "limiter_check (limiter_sweep l now) username ip later = limiter_check l username ip later"
proof -
  have pair: "fmlookup (lm_pairs (limiter_sweep l now)) k =
      (case fmlookup (lm_pairs l) k of Some p \<Rightarrow> if ps_until p \<le> now then None else Some p | None \<Rightarrow> None)" for k
    by (simp add: limiter_sweep_def split: option.splits)
  have user: "fmlookup (lm_users (limiter_sweep l now)) k =
      (case fmlookup (lm_users l) k of
         Some u \<Rightarrow> if now - us_windowStart u \<ge> hourMillis \<or> us_failures u < userHourlyBudget then None else Some u
       | None \<Rightarrow> None)" for k
    by (simp add: limiter_sweep_def Let_def split: option.splits)
  have expired: "hourMillis \<le> later - us_windowStart u"
    if "fmlookup (lm_users l) username = Some u" "hourMillis \<le> now - us_windowStart u" for u
  proof -
    have "us_windowStart u \<le> now" using assms(1,2) that(1) by (fastforce simp: lim_ok_def word_le_nat_alt)
    with assms(3) have "unat (now - us_windowStart u) \<le> unat (later - us_windowStart u)"
      by (simp add: unat_sub word_le_nat_alt)
    with that(2) show ?thesis by (simp add: word_le_nat_alt)
  qed
  show ?thesis
    unfolding limiter_check_def Let_def pair user using assms(3) expired by (auto split: option.splits)
qed

theorem sweep_keeps_waits_witness:
  "limiter_check (limiter_sweep newLimiter 5) ''eve'' ''1'' 9 = limiter_check newLimiter ''eve'' ''1'' 9"
  by (rule sweep_keeps_waits [of 0]) (simp_all add: lim_ok_def newLimiter_def)

end
