(* ===== verification/Transfer_Conflict.thy ===== *)
theory Transfer_Conflict
  imports Prelude
begin

text \<open>
  What happens when the target of a file transfer exists (\<open>transfer_conflict.go\<close>). Actions and outcomes
  are open integers in the code; an unknown action takes the \<open>default\<close> branch. Instants are \<open>int\<close>s. The
  search for a free name is a loop without a bound: it is a \<open>partial_function\<close> whose value is \<open>None\<close> when
  it does not end, and the last theorem shows that it ends in every directory with finitely many names.
  The loop's counter is a natural number.
\<close>

section \<open>Model\<close>

type_synonym ConflictAction = int

definition ConflictAsk :: ConflictAction where "ConflictAsk = 0"
definition ConflictOverwrite :: ConflictAction where "ConflictOverwrite = 1"
definition ConflictOverwriteIfNewer :: ConflictAction where "ConflictOverwriteIfNewer = 2"
definition ConflictOverwriteIfDifferentSize :: ConflictAction where "ConflictOverwriteIfDifferentSize = 3"
definition ConflictOverwriteIfNewerOrDifferentSize :: ConflictAction where "ConflictOverwriteIfNewerOrDifferentSize = 4"
definition ConflictRename :: ConflictAction where "ConflictRename = 5"
definition ConflictSkip :: ConflictAction where "ConflictSkip = 6"

lemmas action_defs = ConflictAsk_def ConflictOverwrite_def ConflictOverwriteIfNewer_def
  ConflictOverwriteIfDifferentSize_def ConflictOverwriteIfNewerOrDifferentSize_def ConflictRename_def ConflictSkip_def

definition conflictActionNames :: "(ConflictAction \<times> string) list" where
  "conflictActionNames =
    [(ConflictAsk, ''ask''), (ConflictOverwrite, ''overwrite''), (ConflictOverwriteIfNewer, ''overwrite_if_newer''),
     (ConflictOverwriteIfDifferentSize, ''overwrite_if_different_size''),
     (ConflictOverwriteIfNewerOrDifferentSize, ''overwrite_if_newer_or_different_size''),
     (ConflictRename, ''rename''), (ConflictSkip, ''skip'')]"

text \<open>\<open>%d\<close> of a natural number.\<close>

fun itoa :: "nat \<Rightarrow> string" where
  "itoa n = (if n < 10 then [char_of (48 + n)] else itoa (n div 10) @ [char_of (48 + n mod 10)])"

declare itoa.simps [simp del]

definition itoa_int :: "int \<Rightarrow> string" where
  "itoa_int i = (if i < 0 then ''-'' @ itoa (nat (- i)) else itoa (nat i))"

definition ConflictAction_String :: "ConflictAction \<Rightarrow> string" where
  "ConflictAction_String a =
    (case map_of conflictActionNames a of
       Some s \<Rightarrow> s
     | None \<Rightarrow> ''conflictAction('' @ itoa_int a @ '')'')"

definition ParseConflictAction :: "string \<Rightarrow> ConflictAction \<times> bool" where
  "ParseConflictAction s =
    (if s = [] then (ConflictAsk, True)
     else (case find (\<lambda>(action, name). name = s) conflictActionNames of
         Some (action, name) \<Rightarrow> (action, True)
       | None \<Rightarrow> (ConflictAsk, False)))"

record FileStat =
  fs_Exists :: bool
  fs_IsDir :: bool
  fs_Size :: int
  fs_ModTime :: int

type_synonym ConflictOutcome = int

definition OutcomeWrite :: ConflictOutcome where "OutcomeWrite = 0"
definition OutcomeSkip :: ConflictOutcome where "OutcomeSkip = 1"
definition OutcomeRename :: ConflictOutcome where "OutcomeRename = 2"

lemmas outcome_defs = OutcomeWrite_def OutcomeSkip_def OutcomeRename_def

definition writeIf :: "bool \<Rightarrow> ConflictOutcome" where
  "writeIf cond = (if cond then OutcomeWrite else OutcomeSkip)"

definition ResolveConflict :: "ConflictAction \<Rightarrow> FileStat \<Rightarrow> FileStat \<Rightarrow> ConflictOutcome" where
  "ResolveConflict action src tgt =
    (if \<not> fs_Exists tgt then OutcomeWrite
     else if action = ConflictOverwrite then OutcomeWrite
     else if action = ConflictRename then OutcomeRename
     else if action = ConflictSkip then OutcomeSkip
     else if action = ConflictOverwriteIfNewer then writeIf (fs_ModTime src > fs_ModTime tgt)
     else if action = ConflictOverwriteIfDifferentSize then writeIf (fs_Size src \<noteq> fs_Size tgt)
     else if action = ConflictOverwriteIfNewerOrDifferentSize
       then writeIf (fs_ModTime src > fs_ModTime tgt \<or> fs_Size src \<noteq> fs_Size tgt)
     else OutcomeSkip)"

text \<open>The index of the last dot, if there is one.\<close>

definition LastIndex :: "string \<Rightarrow> char \<Rightarrow> int" where
  "LastIndex s c = (if c \<in> set s then int (length s - 1 - length (takeWhile (\<lambda>x. x \<noteq> c) (rev s))) else - 1)"

definition splitExt :: "string \<Rightarrow> string \<times> string" where
  "splitExt name =
    (let idx = LastIndex name (CHR ''.'') in
     if idx \<le> 0 then (name, []) else (take (nat idx) name, drop (nat idx) name))"

definition candidate :: "string \<Rightarrow> string \<Rightarrow> nat \<Rightarrow> string" where
  "candidate stem ext i = stem @ '' ('' @ itoa i @ '')'' @ ext"

partial_function (option) name_loop :: "(string \<Rightarrow> bool) \<Rightarrow> string \<Rightarrow> string \<Rightarrow> nat \<Rightarrow> string option" where
  "name_loop taken stem ext i =
    (if \<not> taken (candidate stem ext i) then Some (candidate stem ext i) else name_loop taken stem ext (Suc i))"

declare name_loop.simps [code]

definition NextAvailableName :: "string \<Rightarrow> (string \<Rightarrow> bool) \<Rightarrow> string option" where
  "NextAvailableName base taken =
    (if \<not> taken base then Some base
     else (case splitExt base of (stem, ext) \<Rightarrow> name_loop taken stem ext 1))"

section \<open>Lemmas\<close>

definition atoi :: "string \<Rightarrow> nat" where
  "atoi s = foldl (\<lambda>a c. a * 10 + (of_char c - 48)) 0 s"

lemma atoi_itoa: "atoi (itoa n) = n"
proof (induction n rule: itoa.induct)
  case (1 n)
  then show ?case by (subst itoa.simps) (simp add: atoi_def)
qed

lemma candidate_inj: "candidate stem ext i = candidate stem ext j \<Longrightarrow> i = j"
  unfolding candidate_def by (metis append_same_eq atoi_itoa same_append_eq)

lemma name_loop_first:
  "\<not> taken (candidate stem ext (i + n)) \<Longrightarrow> (\<And>m. m < n \<Longrightarrow> taken (candidate stem ext (i + m))) \<Longrightarrow>
    name_loop taken stem ext i = Some (candidate stem ext (i + n))"
proof (induction n arbitrary: i)
  case 0
  then show ?case by (simp add: name_loop.simps)
next
  case (Suc n)
  have "taken (candidate stem ext i)" using Suc.prems(2) [of 0] by simp
  moreover have "name_loop taken stem ext (Suc i) = Some (candidate stem ext (Suc i + n))"
    using Suc.prems(2) [of "Suc _"] Suc.prems(1) by (intro Suc.IH) auto
  ultimately show ?case by (simp add: name_loop.simps [of taken stem ext i])
qed

lemma name_loop_terminates:
  assumes "finite {x. taken x}"
  obtains n where "\<not> taken (candidate stem ext (i + n))" "\<And>m. m < n \<Longrightarrow> taken (candidate stem ext (i + m))"
proof -
  have "inj (\<lambda>n. candidate stem ext (i + n))" by (rule injI) (drule candidate_inj, simp)
  then have "infinite (range (\<lambda>n. candidate stem ext (i + n)))" by (simp add: finite_image_iff)
  with assms have "\<not> range (\<lambda>n. candidate stem ext (i + n)) \<subseteq> {x. taken x}" using finite_subset by blast
  then have ex: "\<exists>n. \<not> taken (candidate stem ext (i + n))" by blast
  show thesis
    by (rule that [OF LeastI_ex [OF ex]]) (use not_less_Least in blast)
qed

section \<open>Properties\<close>

text \<open>An existing target is overwritten only when the chosen action says so: the outcome is a write over
  it exactly for an unconditional overwrite, or for a conditional one whose condition holds; asking,
  skipping and every unknown action leave it untouched, and a rename never writes over it.\<close>

theorem ResolveConflict_overwrites:
  assumes "fs_Exists tgt"
  shows "ResolveConflict action src tgt = OutcomeWrite \<longleftrightarrow>
    action = ConflictOverwrite \<or>
    action = ConflictOverwriteIfNewer \<and> fs_ModTime src > fs_ModTime tgt \<or>
    action = ConflictOverwriteIfDifferentSize \<and> fs_Size src \<noteq> fs_Size tgt \<or>
    action = ConflictOverwriteIfNewerOrDifferentSize \<and> (fs_ModTime src > fs_ModTime tgt \<or> fs_Size src \<noteq> fs_Size tgt)"
  using assms by (auto simp: ResolveConflict_def writeIf_def action_defs outcome_defs)

theorem ResolveConflict_overwrites_witness:
  "ResolveConflict 99 \<lparr>fs_Exists = True, fs_IsDir = False, fs_Size = 1, fs_ModTime = 2\<rparr>
    \<lparr>fs_Exists = True, fs_IsDir = False, fs_Size = 1, fs_ModTime = 1\<rparr> \<noteq> OutcomeWrite"
  using ResolveConflict_overwrites [of "\<lparr>fs_Exists = True, fs_IsDir = False, fs_Size = 1, fs_ModTime = 1\<rparr>" 99
      "\<lparr>fs_Exists = True, fs_IsDir = False, fs_Size = 1, fs_ModTime = 2\<rparr>"]
  by (simp add: action_defs)

text \<open>The wire names of the actions are unambiguous: parsing what \<open>String\<close> prints for a known action
  gives that action back.\<close>

theorem ConflictAction_roundtrip:
  assumes "a \<in> {ConflictAsk .. ConflictSkip}"
  shows "ParseConflictAction (ConflictAction_String a) = (a, True)"
proof -
  from assms have "a \<in> set [0, 1, 2, 3, 4, 5, 6 :: int]" by (auto simp: action_defs)
  then show ?thesis
    by (auto simp: ParseConflictAction_def ConflictAction_String_def conflictActionNames_def action_defs)
qed

theorem ConflictAction_roundtrip_witness: "ParseConflictAction (ConflictAction_String 5) = (5, True)"
  by (rule ConflictAction_roundtrip) (simp add: action_defs)

text \<open>The search for a free name ends: in a directory with finitely many names \<open>NextAvailableName\<close>
  returns, and what it returns is free - the given name when that is free, otherwise the first
  numbered variant that is.\<close>

theorem NextAvailableName_returns_free:
  assumes "finite {x. taken x}"
  shows "\<exists>name. NextAvailableName base taken = Some name \<and> \<not> taken name \<and> (\<not> taken base \<longrightarrow> name = base)"
proof (cases "taken base")
  case True
  obtain stem ext where se: "splitExt base = (stem, ext)" by (cases "splitExt base")
  obtain n where "\<not> taken (candidate stem ext (1 + n))" "\<And>m. m < n \<Longrightarrow> taken (candidate stem ext (1 + m))"
    using name_loop_terminates [OF assms, where i = 1] by blast
  with name_loop_first [of taken stem ext 1 n] True se show ?thesis by (auto simp: NextAvailableName_def)
qed (simp add: NextAvailableName_def)

theorem NextAvailableName_returns_free_witness:
  "\<exists>name. NextAvailableName ''a.txt'' (\<lambda>x. x \<in> {''a.txt'', ''a (1).txt''}) = Some name \<and>
    name \<notin> {''a.txt'', ''a (1).txt''}"
  using NextAvailableName_returns_free [of "\<lambda>x. x \<in> {''a.txt'', ''a (1).txt''}" "''a.txt''"] by auto

end
