(* ===== verification/Credentials.thy ===== *)
theory Credentials
  imports Prelude
begin

text \<open>
  Credentials of team connections: which credential a connection may use on this device
  (\<open>credential_binding.go\<close>) and how a personal credential a member picks becomes that member's binding
  (\<open>credential_adopt.go\<close>). Of the vault's types the model has the fields these functions read and
  write. A pointer that may be nil is an option. The functions that change the vault data or the
  connection through pointers return them; their arguments are not nil.
\<close>

section \<open>Model\<close>

datatype cred_error = ErrBindingMissing | ErrBindingSuspended | ErrCredentialOutsideVault | ErrInvalidConnectionConfig

definition AuthMethodKey :: string where "AuthMethodKey = ''key''"
definition AuthMethodPassword :: string where "AuthMethodPassword = ''password''"

record CredentialBinding =
  cb_VaultID :: string
  cb_ConnectionID :: string
  cb_UserID :: string
  cb_IdentityID :: string
  cb_PasswordID :: string
  cb_SuspendedBy :: string

definition zero_binding :: CredentialBinding where
  "zero_binding = \<lparr>cb_VaultID = [], cb_ConnectionID = [], cb_UserID = [], cb_IdentityID = [], cb_PasswordID = [], cb_SuspendedBy = []\<rparr>"

record ConnectionUser =
  cu_ID :: string
  cu_Auth :: string
  cu_KeyAuth :: "string list option" \<comment> \<open>\<open>KeyAuthConfig.IdentityIDs\<close>\<close>
  cu_PassAuth :: "string option" \<comment> \<open>\<open>PasswordAuthConfig.VaultRef\<close>\<close>
  cu_CredentialSource :: string

record Connection =
  co_ID :: string
  co_VaultID :: string
  co_Users :: "ConnectionUser list"

text \<open>Identities and passwords carry the vault they live in; \<open>vd_Bindings\<close> is \<open>Sync.Bindings\<close>.\<close>

record VaultData =
  vd_Identities :: "(string, string) go_map"
  vd_Passwords :: "(string, string) go_map"
  vd_Bindings :: "CredentialBinding list option"

definition CredentialSourcePersonal :: string where "CredentialSourcePersonal = ''personal''"

definition CredentialBinding_Key :: "CredentialBinding \<Rightarrow> string" where
  "CredentialBinding_Key b = cb_VaultID b @ ''/'' @ cb_ConnectionID b @ ''/'' @ cb_UserID b"

definition CheckCredentialScope ::
    "VaultData \<Rightarrow> string \<Rightarrow> string list option \<Rightarrow> string option \<Rightarrow> cred_error option" where
  "CheckCredentialScope d vault keys pw =
    (if vault = [] then None
     else if (case keys of None \<Rightarrow> False
         | Some ids \<Rightarrow> list_ex (\<lambda>i. case fmlookup (vd_Identities d) i of None \<Rightarrow> False | Some v \<Rightarrow> v \<noteq> vault) ids)
       then Some ErrCredentialOutsideVault
     else (case pw of
         None \<Rightarrow> None
       | Some ref \<Rightarrow>
           if ref \<noteq> [] \<and> (case fmlookup (vd_Passwords d) ref of None \<Rightarrow> False | Some v \<Rightarrow> v \<noteq> vault)
           then Some ErrCredentialOutsideVault else None))"

text \<open>The loop over the bindings has no \<open>break\<close>: the last one with the key is used.\<close>

definition find_binding :: "CredentialBinding list option \<Rightarrow> string \<Rightarrow> CredentialBinding option" where
  "find_binding bs key =
    (case bs of None \<Rightarrow> None | Some bs \<Rightarrow> foldl (\<lambda>acc b. if CredentialBinding_Key b = key then Some b else acc) None bs)"

definition ResolveCredentials ::
    "VaultData \<Rightarrow> Connection \<Rightarrow> ConnectionUser \<Rightarrow> ConnectionUser \<times> cred_error option" where
  "ResolveCredentials d conn user =
    (if cu_CredentialSource user \<noteq> CredentialSourcePersonal
     then (user, CheckCredentialScope d (co_VaultID conn) (cu_KeyAuth user) (cu_PassAuth user))
     else
       (let key = CredentialBinding_Key (zero_binding\<lparr>cb_VaultID := co_VaultID conn, cb_ConnectionID := co_ID conn, cb_UserID := cu_ID user\<rparr>) in
        case find_binding (vd_Bindings d) key of
          None \<Rightarrow> (user, Some ErrBindingMissing)
        | Some b \<Rightarrow>
            if cb_SuspendedBy b \<noteq> [] then (user, Some ErrBindingSuspended)
            else if cu_Auth user \<noteq> AuthMethodKey \<and> cu_Auth user \<noteq> AuthMethodPassword
              then (user, Some ErrInvalidConnectionConfig)
            else
              (let user = user\<lparr>cu_KeyAuth := None, cu_PassAuth := None\<rparr> in
               if cb_IdentityID b \<noteq> [] then
                 (case fmlookup (vd_Identities d) (cb_IdentityID b) of
                    Some v \<Rightarrow> if v \<noteq> [] then (user, Some ErrBindingMissing)
                      else (user\<lparr>cu_Auth := AuthMethodKey, cu_KeyAuth := Some [cb_IdentityID b]\<rparr>, None)
                  | None \<Rightarrow> (user, Some ErrBindingMissing))
               else if cb_PasswordID b \<noteq> [] then
                 (case fmlookup (vd_Passwords d) (cb_PasswordID b) of
                    Some v \<Rightarrow> if v \<noteq> [] then (user, Some ErrBindingMissing)
                      else (user\<lparr>cu_Auth := AuthMethodPassword, cu_PassAuth := Some (cb_PasswordID b)\<rparr>, None)
                  | None \<Rightarrow> (user, Some ErrBindingMissing))
               else (user, Some ErrBindingMissing))))"

definition namesIdentity :: "ConnectionUser option \<Rightarrow> string \<Rightarrow> bool" where
  "namesIdentity u i = (case u of None \<Rightarrow> False
    | Some u \<Rightarrow> (case cu_KeyAuth u of None \<Rightarrow> False | Some ids \<Rightarrow> i \<in> set ids))"

definition namesPassword :: "ConnectionUser option \<Rightarrow> string \<Rightarrow> bool" where
  "namesPassword u i = (case u of None \<Rightarrow> False | Some u \<Rightarrow> cu_PassAuth u = Some i)"

definition storedUser :: "Connection option \<Rightarrow> string \<Rightarrow> ConnectionUser option" where
  "storedUser stored i =
    (case stored of None \<Rightarrow> None | Some c \<Rightarrow> find (\<lambda>u. cu_ID u = i) (co_Users c))"

definition introducedPersonalCredential ::
    "VaultData \<Rightarrow> ConnectionUser \<Rightarrow> ConnectionUser option \<Rightarrow> CredentialBinding option" where
  "introducedPersonalCredential d u before =
    (if cu_Auth u = AuthMethodKey then
       (case cu_KeyAuth u of
          None \<Rightarrow> None
        | Some ids \<Rightarrow>
            (case find (\<lambda>i. fmlookup (vd_Identities d) i = Some [] \<and> \<not> namesIdentity before i) ids of
               None \<Rightarrow> None
             | Some i \<Rightarrow> Some (zero_binding\<lparr>cb_IdentityID := i\<rparr>)))
     else if cu_Auth u = AuthMethodPassword then
       (case cu_PassAuth u of
          None \<Rightarrow> None
        | Some ref \<Rightarrow>
            if ref \<noteq> [] \<and> fmlookup (vd_Passwords d) ref = Some [] \<and> \<not> namesPassword before ref
            then Some (zero_binding\<lparr>cb_PasswordID := ref\<rparr>) else None)
     else None)"

definition putBinding :: "VaultData \<Rightarrow> CredentialBinding \<Rightarrow> VaultData" where
  "putBinding d b =
    (let bs = (case vd_Bindings d of None \<Rightarrow> [] | Some bs \<Rightarrow> bs);
         b = b\<lparr>cb_SuspendedBy := []\<rparr> in
     d\<lparr>vd_Bindings := Some (filter (\<lambda>x. CredentialBinding_Key x \<noteq> CredentialBinding_Key b) bs @ [b])\<rparr>)"

text \<open>One turn of the loop over the connection's users.\<close>

definition adopt_user ::
    "Connection \<Rightarrow> Connection option \<Rightarrow> VaultData \<Rightarrow> ConnectionUser \<Rightarrow> VaultData \<times> ConnectionUser" where
  "adopt_user c stored d u =
    (if cu_CredentialSource u = CredentialSourcePersonal then (d, u)
     else (case introducedPersonalCredential d u (storedUser stored (cu_ID u)) of
         None \<Rightarrow> (d, u)
       | Some b \<Rightarrow>
           (putBinding d (b\<lparr>cb_VaultID := co_VaultID c, cb_ConnectionID := co_ID c, cb_UserID := cu_ID u\<rparr>),
            u\<lparr>cu_KeyAuth := None, cu_PassAuth := None, cu_CredentialSource := CredentialSourcePersonal\<rparr>)))"

fun adopt_users ::
    "Connection \<Rightarrow> Connection option \<Rightarrow> VaultData \<Rightarrow> ConnectionUser list \<Rightarrow> VaultData \<times> ConnectionUser list" where
  "adopt_users c stored d [] = (d, [])"
| "adopt_users c stored d (u # us) =
    (case adopt_user c stored d u of (d', u') \<Rightarrow>
      (case adopt_users c stored d' us of (d'', us') \<Rightarrow> (d'', u' # us')))"

definition AdoptPersonalCredentials :: "VaultData \<Rightarrow> Connection \<Rightarrow> Connection option \<Rightarrow> VaultData \<times> Connection" where
  "AdoptPersonalCredentials d c stored =
    (if co_VaultID c = [] \<or> co_ID c = [] then (d, c)
     else (case adopt_users c stored d (co_Users c) of (d', us) \<Rightarrow> (d', c\<lparr>co_Users := us\<rparr>)))"

section \<open>Lemmas\<close>

definition user_key :: "Connection \<Rightarrow> string \<Rightarrow> string" where
  "user_key c i = co_VaultID c @ ''/'' @ co_ID c @ ''/'' @ i"

lemma user_key_inj [simp]: "user_key c i = user_key c j \<longleftrightarrow> i = j"
  by (simp add: user_key_def)

lemma find_last:
  "foldl (\<lambda>acc b. if CredentialBinding_Key b = key then Some b else acc) acc bs =
    (case filter (\<lambda>b. CredentialBinding_Key b = key) bs of [] \<Rightarrow> acc | xs \<Rightarrow> Some (last xs))"
  by (induction bs arbitrary: acc) (auto split: list.splits)

lemma find_binding_eq:
  "find_binding bs key =
    (case bs of None \<Rightarrow> None
     | Some bs \<Rightarrow> (case filter (\<lambda>b. CredentialBinding_Key b = key) bs of [] \<Rightarrow> None | xs \<Rightarrow> Some (last xs)))"
  by (simp add: find_binding_def find_last split: option.splits)

lemma find_binding_Some:
  assumes "find_binding bs key = Some b"
  shows "\<exists>xs. bs = Some xs \<and> b \<in> set xs \<and> CredentialBinding_Key b = key"
proof -
  from assms obtain xs where xs: "bs = Some xs" "filter (\<lambda>b. CredentialBinding_Key b = key) xs \<noteq> []"
    "b = last (filter (\<lambda>b. CredentialBinding_Key b = key) xs)"
    by (auto simp: find_binding_eq split: option.splits list.splits)
  have "b \<in> set (filter (\<lambda>b. CredentialBinding_Key b = key) xs)" unfolding xs(3) by (rule last_in_set [OF xs(2)])
  with xs(1) show ?thesis by auto
qed

lemma find_putBinding:
  "find_binding (vd_Bindings (putBinding d b)) key =
    (if CredentialBinding_Key b = key then Some (b\<lparr>cb_SuspendedBy := []\<rparr>) else find_binding (vd_Bindings d) key)"
proof -
  have key: "CredentialBinding_Key (b\<lparr>cb_SuspendedBy := []\<rparr>) = CredentialBinding_Key b"
    by (simp add: CredentialBinding_Key_def)
  have "filter (\<lambda>x. CredentialBinding_Key x = key) (filter (\<lambda>x. CredentialBinding_Key x \<noteq> CredentialBinding_Key b) bs) =
      filter (\<lambda>x. CredentialBinding_Key x = key) bs" if "CredentialBinding_Key b \<noteq> key" for bs
    using that by (induction bs) auto
  then show ?thesis
    by (auto simp: find_binding_eq putBinding_def Let_def key split: option.splits)
qed

lemma putBinding_items [simp]:
  "vd_Identities (putBinding d b) = vd_Identities d" "vd_Passwords (putBinding d b) = vd_Passwords d"
  by (simp_all add: putBinding_def Let_def)

lemma adopt_user_items:
  "adopt_user c stored d u = (d', u') \<Longrightarrow>
    vd_Identities d' = vd_Identities d \<and> vd_Passwords d' = vd_Passwords d \<and> cu_ID u' = cu_ID u"
  by (auto simp: adopt_user_def split: if_splits option.splits)

lemma introduced_items:
  assumes "vd_Identities d' = vd_Identities d" and "vd_Passwords d' = vd_Passwords d"
  shows "introducedPersonalCredential d' u before = introducedPersonalCredential d u before"
  unfolding introducedPersonalCredential_def assms by (rule refl)

lemma adopt_user_binding:
  assumes "adopt_user c stored d u = (d', u')" and "key \<noteq> user_key c (cu_ID u)"
  shows "find_binding (vd_Bindings d') key = find_binding (vd_Bindings d) key"
  using assms by (auto simp: adopt_user_def find_putBinding CredentialBinding_Key_def user_key_def split: if_splits option.splits)

lemma adopt_users_items:
  "adopt_users c stored d us = (d', us') \<Longrightarrow>
    vd_Identities d' = vd_Identities d \<and> vd_Passwords d' = vd_Passwords d \<and> map cu_ID us' = map cu_ID us \<and>
    (\<forall>key. key \<notin> user_key c ` cu_ID ` set us \<longrightarrow> find_binding (vd_Bindings d') key = find_binding (vd_Bindings d) key)"
proof (induction us arbitrary: d us')
  case (Cons u us)
  obtain d1 u1 where step: "adopt_user c stored d u = (d1, u1)" by (cases "adopt_user c stored d u")
  obtain us1 where rest: "adopt_users c stored d1 us = (d', us1)" "us' = u1 # us1"
    using Cons.prems step by (auto split: prod.splits)
  show ?case
    using Cons.IH [OF rest(1)] adopt_user_items [OF step] adopt_user_binding [OF step] rest(2) by auto
qed simp

text \<open>What adoption does to each user, and the binding it leaves for it.\<close>

lemma adopt_users_nth:
  assumes "adopt_users c stored d us = (d', us')" and "distinct (map cu_ID us)" and "i < length us"
    and "cu_CredentialSource (us ! i) \<noteq> CredentialSourcePersonal"
    and "introducedPersonalCredential d (us ! i) (storedUser stored (cu_ID (us ! i))) = Some b"
  shows "us' ! i = (us ! i)\<lparr>cu_KeyAuth := None, cu_PassAuth := None, cu_CredentialSource := CredentialSourcePersonal\<rparr> \<and>
    find_binding (vd_Bindings d') (user_key c (cu_ID (us ! i))) =
      Some (b\<lparr>cb_VaultID := co_VaultID c, cb_ConnectionID := co_ID c, cb_UserID := cu_ID (us ! i), cb_SuspendedBy := []\<rparr>)"
  using assms
proof (induction us arbitrary: d us' i)
  case (Cons u us)
  obtain d1 u1 where step: "adopt_user c stored d u = (d1, u1)" by (cases "adopt_user c stored d u")
  obtain us1 where rest: "adopt_users c stored d1 us = (d', us1)" "us' = u1 # us1"
    using Cons.prems(1) step by (auto split: prod.splits)
  show ?case
  proof (cases i)
    case 0
    have "user_key c (cu_ID u) \<notin> user_key c ` cu_ID ` set us" using Cons.prems(2) by (auto simp: image_iff)
    then have "find_binding (vd_Bindings d') (user_key c (cu_ID u)) = find_binding (vd_Bindings d1) (user_key c (cu_ID u))"
      using adopt_users_items [OF rest(1)] by blast
    moreover have "find_binding (vd_Bindings d1) (user_key c (cu_ID u)) =
        Some (b\<lparr>cb_VaultID := co_VaultID c, cb_ConnectionID := co_ID c, cb_UserID := cu_ID u, cb_SuspendedBy := []\<rparr>)"
      using step Cons.prems(4,5) 0
      by (auto simp: adopt_user_def find_putBinding CredentialBinding_Key_def user_key_def)
    moreover have "u1 = u\<lparr>cu_KeyAuth := None, cu_PassAuth := None, cu_CredentialSource := CredentialSourcePersonal\<rparr>"
      using step Cons.prems(4,5) 0 by (simp add: adopt_user_def)
    ultimately show ?thesis using 0 rest(2) by simp
  next
    case (Suc j)
    have "introducedPersonalCredential d1 (us ! j) (storedUser stored (cu_ID (us ! j))) = Some b"
      using Cons.prems(5) Suc introduced_items [of d1 d] adopt_user_items [OF step] by simp
    then show ?thesis using Cons.IH [OF rest(1), of j] Cons.prems Suc rest(2) by simp
  qed
qed simp

lemma introduced_credential:
  assumes "introducedPersonalCredential d u before = Some b" and "fmlookup (vd_Identities d) [] = None"
  shows "cu_Auth u = AuthMethodKey \<and> b = zero_binding\<lparr>cb_IdentityID := cb_IdentityID b\<rparr> \<and> cb_IdentityID b \<noteq> [] \<and>
      fmlookup (vd_Identities d) (cb_IdentityID b) = Some [] \<and> \<not> namesIdentity before (cb_IdentityID b) \<or>
    cu_Auth u = AuthMethodPassword \<and> b = zero_binding\<lparr>cb_PasswordID := cb_PasswordID b\<rparr> \<and> cb_PasswordID b \<noteq> [] \<and>
      fmlookup (vd_Passwords d) (cb_PasswordID b) = Some [] \<and> \<not> namesPassword before (cb_PasswordID b)"
  using assms
  by (auto simp: introducedPersonalCredential_def find_Some_iff zero_binding_def split: if_splits option.splits)

text \<open>The credential a user authenticates with, in the vault it lives in.\<close>

definition credential_in :: "VaultData \<Rightarrow> string \<Rightarrow> ConnectionUser \<Rightarrow> bool" where
  "credential_in d vault u \<longleftrightarrow>
    (\<forall>ids i v. cu_KeyAuth u = Some ids \<longrightarrow> i \<in> set ids \<longrightarrow> fmlookup (vd_Identities d) i = Some v \<longrightarrow> v = vault) \<and>
    (\<forall>ref v. cu_PassAuth u = Some ref \<longrightarrow> ref \<noteq> [] \<longrightarrow> fmlookup (vd_Passwords d) ref = Some v \<longrightarrow> v = vault)"

lemma CheckCredentialScope_iff:
  assumes "vault \<noteq> []"
  shows "CheckCredentialScope d vault (cu_KeyAuth u) (cu_PassAuth u) = None \<longleftrightarrow> credential_in d vault u"
  using assms
  by (auto simp: CheckCredentialScope_def credential_in_def list_ex_iff split: option.splits)

text \<open>A personal source resolves to exactly the personal credential its binding in force names.\<close>

lemma ResolveCredentials_personal:
  assumes "cu_CredentialSource u = CredentialSourcePersonal" and "ResolveCredentials d c u = (u', None)"
  shows "\<exists>b. find_binding (vd_Bindings d) (user_key c (cu_ID u)) = Some b \<and> cb_SuspendedBy b = [] \<and>
    (cu_Auth u' = AuthMethodKey \<and> cu_KeyAuth u' = Some [cb_IdentityID b] \<and> cu_PassAuth u' = None \<and>
        fmlookup (vd_Identities d) (cb_IdentityID b) = Some [] \<or>
     cu_Auth u' = AuthMethodPassword \<and> cu_KeyAuth u' = None \<and> cu_PassAuth u' = Some (cb_PasswordID b) \<and>
        fmlookup (vd_Passwords d) (cb_PasswordID b) = Some [])"
  using assms
  by (auto simp: ResolveCredentials_def Let_def zero_binding_def CredentialBinding_Key_def user_key_def
      split: option.split_asm if_split_asm)

lemma personal_resolves:
  assumes "cu_CredentialSource u = CredentialSourcePersonal"
    and "find_binding (vd_Bindings d) (user_key c (cu_ID u)) = Some b" and "cb_SuspendedBy b = []"
    and "cu_Auth u = AuthMethodKey \<and> cb_IdentityID b \<noteq> [] \<and> fmlookup (vd_Identities d) (cb_IdentityID b) = Some [] \<or>
      cu_Auth u = AuthMethodPassword \<and> cb_IdentityID b = [] \<and> cb_PasswordID b \<noteq> [] \<and>
      fmlookup (vd_Passwords d) (cb_PasswordID b) = Some []"
  shows "ResolveCredentials d c u =
    (if cb_IdentityID b \<noteq> [] then u\<lparr>cu_KeyAuth := Some [cb_IdentityID b], cu_PassAuth := None\<rparr>
     else u\<lparr>cu_KeyAuth := None, cu_PassAuth := Some (cb_PasswordID b)\<rparr>, None)"
  using assms
  by (auto simp: ResolveCredentials_def Let_def zero_binding_def CredentialBinding_Key_def user_key_def)

section \<open>Properties\<close>

text \<open>A vault with one personal and one team key, and a team connection whose user names the personal key.\<close>

definition cr_vault :: VaultData where
  "cr_vault = \<lparr>vd_Identities = fmap_of_list [(''mine'', []), (''ours'', ''team'')],
     vd_Passwords = fmap_of_list [(''secret'', [])], vd_Bindings = None\<rparr>"

definition cr_user :: ConnectionUser where
  "cr_user = \<lparr>cu_ID = ''u'', cu_Auth = ''key'', cu_KeyAuth = Some [''ours'', ''mine''], cu_PassAuth = None, cu_CredentialSource = []\<rparr>"

definition cr_conn :: Connection where
  "cr_conn = \<lparr>co_ID = ''c'', co_VaultID = ''team'', co_Users = [cr_user]\<rparr>"

definition cr_team_user :: ConnectionUser where
  "cr_team_user = cr_user\<lparr>cu_KeyAuth := Some [''ours'']\<rparr>"

lemmas cr_defs = cr_vault_def cr_user_def cr_conn_def cr_team_user_def AuthMethodKey_def AuthMethodPassword_def
  CredentialSourcePersonal_def

text \<open>Which credential a team connection may use. When the credentials of a user of a team connection
  resolve, either the user is inline, is returned unchanged, and every key and password it names that
  this device holds lives in the connection's own vault; or the user is personal-source, this device has a
  binding of exactly this user that is not suspended, and the resolved user names the one credential of
  the binding, which is held in the personal vault. A team record, which every member can write, cannot make a
  device use a credential of another vault.\<close>

theorem ResolveCredentials_scope:
  assumes "co_VaultID c \<noteq> []" and "ResolveCredentials d c u = (u', None)"
  shows "if cu_CredentialSource u \<noteq> CredentialSourcePersonal then u' = u \<and> credential_in d (co_VaultID c) u'
    else credential_in d [] u' \<and>
      (\<exists>b. find_binding (vd_Bindings d) (user_key c (cu_ID u)) = Some b \<and> cb_SuspendedBy b = [] \<and>
        (cu_KeyAuth u' = Some [cb_IdentityID b] \<and> cu_PassAuth u' = None \<and> cb_IdentityID b |\<in>| fmdom (vd_Identities d) \<or>
         cu_KeyAuth u' = None \<and> cu_PassAuth u' = Some (cb_PasswordID b) \<and> cb_PasswordID b |\<in>| fmdom (vd_Passwords d)))"
proof (cases "cu_CredentialSource u = CredentialSourcePersonal")
  case True
  from ResolveCredentials_personal [OF this assms(2)] True show ?thesis
    by (auto simp: credential_in_def intro: fmdomI)
next
  case False
  with assms CheckCredentialScope_iff [OF assms(1), of d u] show ?thesis by (auto simp: ResolveCredentials_def)
qed

theorem ResolveCredentials_scope_witness: "credential_in cr_vault ''team'' cr_team_user"
proof -
  have "ResolveCredentials cr_vault cr_conn cr_team_user = (cr_team_user, None)"
    by (simp add: cr_defs ResolveCredentials_def CheckCredentialScope_def)
  from ResolveCredentials_scope [OF _ this] show ?thesis by (simp add: cr_defs)
qed

text \<open>Saving a team connection turns a personal credential the member just picked into that member's own
  binding. For every user of the saved connection that names a personal credential the stored record did
  not name, the shared user afterwards names no credential and is personal-source, and it resolves on
  this device, with the same method as before, to exactly the credential that was picked. This holds
  for each user of the connection, whatever the other users are (the user ids are distinct), and whatever
  bindings the device had.\<close>

theorem adopted_credential_resolves:
  assumes "co_VaultID c \<noteq> []" and "co_ID c \<noteq> []" and "distinct (map cu_ID (co_Users c))"
    and "fmlookup (vd_Identities d) [] = None" and "i < length (co_Users c)" and "co_Users c ! i = u"
    and "cu_CredentialSource u \<noteq> CredentialSourcePersonal"
    and "introducedPersonalCredential d u (storedUser stored (cu_ID u)) = Some b"
    and "AdoptPersonalCredentials d c stored = (d', c')" and "co_Users c' ! i = u'"
  shows "u' = u\<lparr>cu_KeyAuth := None, cu_PassAuth := None, cu_CredentialSource := CredentialSourcePersonal\<rparr> \<and>
    ResolveCredentials d' c' u' =
      (if cu_Auth u = AuthMethodKey then u'\<lparr>cu_KeyAuth := Some [cb_IdentityID b]\<rparr>
       else u'\<lparr>cu_PassAuth := Some (cb_PasswordID b)\<rparr>, None)"
proof -
  from assms(1,2,9) have us: "adopt_users c stored d (co_Users c) = (d', co_Users c')"
    and c': "c' = c\<lparr>co_Users := co_Users c'\<rparr>"
    by (auto simp: AdoptPersonalCredentials_def split: prod.splits)
  have key: "user_key c' = user_key c" by (subst c') (simp add: user_key_def fun_eq_iff)
  note step = adopt_users_nth [OF us assms(3,5), unfolded assms(6,10), OF assms(7,8)]
  then have u': "u' = u\<lparr>cu_KeyAuth := None, cu_PassAuth := None, cu_CredentialSource := CredentialSourcePersonal\<rparr>" ..
  let ?b = "b\<lparr>cb_VaultID := co_VaultID c, cb_ConnectionID := co_ID c, cb_UserID := cu_ID u, cb_SuspendedBy := []\<rparr>"
  from step have bind: "find_binding (vd_Bindings d') (user_key c' (cu_ID u')) = Some ?b" unfolding key u' by simp
  have items: "vd_Identities d' = vd_Identities d" "vd_Passwords d' = vd_Passwords d"
    using adopt_users_items [OF us] by auto
  have cred: "cu_Auth u' = AuthMethodKey \<and> cb_IdentityID ?b \<noteq> [] \<and> fmlookup (vd_Identities d') (cb_IdentityID ?b) = Some [] \<or>
      cu_Auth u' = AuthMethodPassword \<and> cb_IdentityID ?b = [] \<and> cb_PasswordID ?b \<noteq> [] \<and>
      fmlookup (vd_Passwords d') (cb_PasswordID ?b) = Some []"
    using introduced_credential [OF assms(8,4)] unfolding items u'
    by (elim disjE conjE) (simp_all, metis CredentialBinding.select_convs(4) CredentialBinding.update_convs(5) zero_binding_def)
  have "cu_CredentialSource u' = CredentialSourcePersonal" "AuthMethodKey \<noteq> AuthMethodPassword"
    by (simp_all add: u' AuthMethodKey_def AuthMethodPassword_def)
  with personal_resolves [OF this(1) bind _ cred] cred show ?thesis by (auto simp: u')
qed

theorem adopted_credential_resolves_witness:
  "\<exists>d' c'. AdoptPersonalCredentials cr_vault cr_conn None = (d', c') \<and>
    cu_KeyAuth (co_Users c' ! 0) = None \<and>
    ResolveCredentials d' c' (co_Users c' ! 0) = ((co_Users c' ! 0)\<lparr>cu_KeyAuth := Some [''mine'']\<rparr>, None)"
proof -
  obtain d' c' where a: "AdoptPersonalCredentials cr_vault cr_conn None = (d', c')" by fastforce
  have b: "introducedPersonalCredential cr_vault cr_user (storedUser None (cu_ID cr_user)) =
      Some (zero_binding\<lparr>cb_IdentityID := ''mine''\<rparr>)"
    by (simp add: cr_defs introducedPersonalCredential_def storedUser_def namesIdentity_def)
  have "co_Users c' ! 0 =
        cr_user\<lparr>cu_KeyAuth := None, cu_PassAuth := None, cu_CredentialSource := CredentialSourcePersonal\<rparr> \<and>
      ResolveCredentials d' c' (co_Users c' ! 0) =
      (if cu_Auth cr_user = AuthMethodKey then (co_Users c' ! 0)\<lparr>cu_KeyAuth := Some [cb_IdentityID (zero_binding\<lparr>cb_IdentityID := ''mine''\<rparr>)]\<rparr>
       else (co_Users c' ! 0)\<lparr>cu_PassAuth := Some (cb_PasswordID (zero_binding\<lparr>cb_IdentityID := ''mine''\<rparr>))\<rparr>, None)"
    by (rule adopted_credential_resolves [OF _ _ _ _ _ _ _ b a, of 0]) (simp_all add: cr_defs)
  with a show ?thesis by (auto simp: cr_defs)
qed

end
