(* ===== verification/Wire.thy ===== *)
theory Wire
  imports Membership Device_Log Envelope Head_Chain
begin

text \<open>
  The wire form of log entries, envelopes and heads and its conversion to and from the domain
  (\<open>syncwire/decode.go\<close>, \<open>logs.go\<close>, \<open>records.go\<close>). The server stores exactly these forms. A wire message is the
  Go struct; its JSON text is \<open>encoding/json\<close>'s and is not modelled, and a nil slice is an empty list. The only
  error is \<open>syncwire.ErrMalformed\<close>, kept with the cause it wraps.
\<close>

section \<open>Identifiers and hashes\<close>

datatype wire_error = WireMalformed go_error

definition parseID :: "string \<Rightarrow> wire_error + ID" where
  "parseID s = (case ParseID s of Inl err \<Rightarrow> Inl (WireMalformed err) | Inr i \<Rightarrow> Inr i)"

definition parseOptionalID :: "string \<Rightarrow> wire_error + ID" where
  "parseOptionalID s = (if s = [] then Inr 0 else parseID s)"

definition optionalID :: "ID \<Rightarrow> string" where
  "optionalID i = (if ID_IsZero i then [] else ID_String i)"

definition parseHash :: "bytes \<Rightarrow> wire_error + hash32" where
  "parseHash b = (if length b \<noteq> 32 then Inl (WireMalformed []) else Inr (word_of_nat (of_be b)))"

fun parseIDs :: "string list \<Rightarrow> wire_error + ID list" where
  "parseIDs [] = Inr []"
| "parseIDs (s # ss) = bind_res (parseID s) (\<lambda>i. bind_res (parseIDs ss) (\<lambda>is. Inr (i # is)))"

definition idStrings :: "ID list \<Rightarrow> string list" where
  "idStrings ids = map ID_String ids"

section \<open>Device log entries\<close>

record WDeviceCert =
  wc_Device :: string
  wc_SigningKey :: bytes
  wc_Name :: string
  wc_Platform :: string
  wc_CreatedUnixMilli :: u64

record WDeviceEntry =
  we_Account :: string
  we_Seq :: u64
  we_Prev :: bytes
  we_Op :: u8
  we_Cert :: "WDeviceCert option"
  we_Revoked :: string
  we_NewSuite :: u16
  we_NewIdentityKey :: bytes
  we_NewEncryptionKey :: bytes
  we_SigAlg :: u16
  we_Sig :: bytes
  we_SuccessorSig :: bytes

definition DeviceEntryFrom :: "DeviceEntry \<Rightarrow> WDeviceEntry" where
  "DeviceEntryFrom e =
    \<lparr>we_Account = ID_String (d_Account e), we_Seq = d_Seq e, we_Prev = be_bytes (d_Prev e), we_Op = d_Op e,
     we_Cert = (case d_Cert e of None \<Rightarrow> None
       | Some c \<Rightarrow> Some \<lparr>wc_Device = ID_String (c_Device c), wc_SigningKey = c_SigningKey c, wc_Name = c_Name c,
           wc_Platform = c_Platform c, wc_CreatedUnixMilli = c_CreatedUnixMilli c\<rparr>),
     we_Revoked = optionalID (d_Revoked e), we_NewSuite = d_NewSuite e,
     we_NewIdentityKey = d_NewIdentityKey e, we_NewEncryptionKey = d_NewEncryptionKey e,
     we_SigAlg = d_SigAlg e, we_Sig = d_Sig e, we_SuccessorSig = d_SuccessorSig e\<rparr>"

definition DeviceEntry_ToDomain :: "WDeviceEntry \<Rightarrow> wire_error + DeviceEntry" where
  "DeviceEntry_ToDomain d =
    bind_res (parseID (we_Account d)) (\<lambda>account.
    bind_res (parseHash (we_Prev d)) (\<lambda>prev.
    bind_res (parseOptionalID (we_Revoked d)) (\<lambda>revoked.
      let e = \<lparr>d_Account = account, d_Seq = we_Seq d, d_Prev = prev, d_Op = we_Op d, d_Cert = None,
            d_Revoked = revoked, d_NewSuite = we_NewSuite d, d_NewIdentityKey = we_NewIdentityKey d,
            d_NewEncryptionKey = we_NewEncryptionKey d, d_SigAlg = we_SigAlg d, d_Sig = we_Sig d,
            d_SuccessorSig = we_SuccessorSig d\<rparr> in
      case we_Cert d of
        None \<Rightarrow> Inr e
      | Some c \<Rightarrow> bind_res (parseID (wc_Device c)) (\<lambda>device.
          Inr (e\<lparr>d_Cert := Some \<lparr>c_Device = device, c_SigningKey = wc_SigningKey c, c_Name = wc_Name c,
            c_Platform = wc_Platform c, c_CreatedUnixMilli = wc_CreatedUnixMilli c\<rparr>\<rparr>)))))"

section \<open>Membership operations\<close>

record WKeyWrap =
  ww_Member :: string
  ww_Digest :: bytes
  ww_Recipient :: bytes
  ww_Ciphertext :: bytes

record WMemberOp =
  wo_Vault :: string
  wo_Seq :: u64
  wo_Prev :: bytes
  wo_Kind :: u8
  wo_Author :: string
  wo_AuthorDevice :: string
  wo_Subject :: string
  wo_Role :: u8
  wo_Verified :: bool
  wo_Fingerprint :: bytes
  wo_Suite :: u16
  wo_Epoch :: u32
  wo_Wraps :: "WKeyWrap list"
  wo_RevokedDevices :: "string list"
  wo_RetentionDays :: u16
  wo_RequireVerified :: bool
  wo_Shred :: bool
  wo_TimeUnixMilli :: u64
  wo_SigAlg :: u16
  wo_Sig :: bytes

definition KeyWrapFrom :: "KeyWrap \<Rightarrow> WKeyWrap" where
  "KeyWrapFrom w = \<lparr>ww_Member = ID_String (w_Member w), ww_Digest = be_bytes (w_Digest w),
     ww_Recipient = be_bytes (w_Recipient w), ww_Ciphertext = w_Ciphertext w\<rparr>"

definition MemberOpFrom :: "MemberOp \<Rightarrow> WMemberOp" where
  "MemberOpFrom op =
    \<lparr>wo_Vault = ID_String (o_Vault op), wo_Seq = o_Seq op, wo_Prev = be_bytes (o_Prev op), wo_Kind = o_Kind op,
     wo_Author = ID_String (o_Author op), wo_AuthorDevice = ID_String (o_AuthorDevice op),
     wo_Subject = optionalID (o_Subject op), wo_Role = o_Role op, wo_Verified = o_Verified op,
     wo_Fingerprint = be_bytes (o_Fingerprint op), wo_Suite = o_Suite op, wo_Epoch = o_Epoch op,
     wo_Wraps = map KeyWrapFrom (o_Wraps op), wo_RevokedDevices = idStrings (o_RevokedDevices op),
     wo_RetentionDays = o_RetentionDays op, wo_RequireVerified = o_RequireVerified op, wo_Shred = o_Shred op,
     wo_TimeUnixMilli = o_TimeUnixMilli op, wo_SigAlg = o_SigAlg op, wo_Sig = o_Sig op\<rparr>"

fun parseWraps :: "WKeyWrap list \<Rightarrow> wire_error + KeyWrap list" where
  "parseWraps [] = Inr []"
| "parseWraps (w # ws) =
    bind_res (parseID (ww_Member w)) (\<lambda>member.
    bind_res (parseHash (ww_Digest w)) (\<lambda>digest.
    bind_res (parseHash (ww_Recipient w)) (\<lambda>recipient.
    bind_res (parseWraps ws) (\<lambda>out.
      Inr (\<lparr>w_Member = member, w_Digest = digest, w_Recipient = recipient, w_Ciphertext = ww_Ciphertext w\<rparr> # out)))))"

definition MemberOp_ToDomain :: "WMemberOp \<Rightarrow> wire_error + MemberOp" where
  "MemberOp_ToDomain d =
    bind_res (parseID (wo_Vault d)) (\<lambda>vault.
    bind_res (parseID (wo_Author d)) (\<lambda>author.
    bind_res (parseID (wo_AuthorDevice d)) (\<lambda>device.
    bind_res (parseOptionalID (wo_Subject d)) (\<lambda>subject.
    bind_res (parseHash (wo_Prev d)) (\<lambda>prev.
    bind_res (parseHash (wo_Fingerprint d)) (\<lambda>fingerprint.
    bind_res (parseIDs (wo_RevokedDevices d)) (\<lambda>revoked.
    bind_res (parseWraps (wo_Wraps d)) (\<lambda>wraps.
      Inr \<lparr>o_Vault = vault, o_Seq = wo_Seq d, o_Prev = prev, o_Kind = wo_Kind d, o_Author = author,
        o_AuthorDevice = device, o_Subject = subject, o_Role = wo_Role d, o_Verified = wo_Verified d,
        o_Fingerprint = fingerprint, o_Suite = wo_Suite d, o_Epoch = wo_Epoch d, o_Wraps = wraps,
        o_RevokedDevices = revoked, o_RetentionDays = wo_RetentionDays d,
        o_RequireVerified = wo_RequireVerified d, o_Shred = wo_Shred d, o_TimeUnixMilli = wo_TimeUnixMilli d,
        o_SigAlg = wo_SigAlg d, o_Sig = wo_Sig d\<rparr>))))))))"

section \<open>Envelopes and heads\<close>

record WEnvelope =
  wv_Vault :: string
  wv_Record :: string
  wv_Version :: u64
  wv_Epoch :: u32
  wv_Suite :: u16
  wv_Deleted :: bool
  wv_WrappedDEK :: bytes
  wv_Body :: bytes
  wv_Author :: string
  wv_SigAlg :: u16
  wv_Sig :: bytes

definition EnvelopeFrom :: "Envelope \<Rightarrow> WEnvelope" where
  "EnvelopeFrom e =
    \<lparr>wv_Vault = ID_String (e_Vault e), wv_Record = ID_String (e_Record e), wv_Version = e_Version e,
     wv_Epoch = e_Epoch e, wv_Suite = e_Suite e, wv_Deleted = e_Deleted e, wv_WrappedDEK = e_WrappedDEK e,
     wv_Body = e_Body e, wv_Author = ID_String (e_Author e), wv_SigAlg = e_SigAlg e, wv_Sig = e_Sig e\<rparr>"

definition Envelope_ToDomain :: "WEnvelope \<Rightarrow> wire_error + Envelope" where
  "Envelope_ToDomain d =
    bind_res (parseID (wv_Vault d)) (\<lambda>vault.
    bind_res (parseID (wv_Record d)) (\<lambda>record_id.
    bind_res (parseID (wv_Author d)) (\<lambda>author.
      Inr \<lparr>e_Vault = vault, e_Record = record_id, e_Version = wv_Version d, e_Epoch = wv_Epoch d, e_Suite = wv_Suite d,
        e_Deleted = wv_Deleted d, e_WrappedDEK = wv_WrappedDEK d, e_Body = wv_Body d, e_Author = author,
        e_SigAlg = wv_SigAlg d, e_Sig = wv_Sig d\<rparr>)))"

record WHead =
  wh_Vault :: string
  wh_Seq :: u64
  wh_PrevHash :: bytes
  wh_MerkleRoot :: bytes
  wh_CurrentEpoch :: u32
  wh_MembershipSeq :: u64
  wh_MembershipHead :: bytes
  wh_Commit :: string
  wh_Author :: string
  wh_ClientTimeUnixMilli :: u64
  wh_SigAlg :: u16
  wh_Sig :: bytes

definition HeadFrom :: "Head \<Rightarrow> WHead" where
  "HeadFrom h =
    \<lparr>wh_Vault = ID_String (h_Vault h), wh_Seq = h_Seq h, wh_PrevHash = be_bytes (h_PrevHash h),
     wh_MerkleRoot = be_bytes (h_MerkleRoot h), wh_CurrentEpoch = h_CurrentEpoch h,
     wh_MembershipSeq = h_MembershipSeq h, wh_MembershipHead = be_bytes (h_MembershipHead h),
     wh_Commit = ID_String (h_Commit h), wh_Author = ID_String (h_Author h),
     wh_ClientTimeUnixMilli = h_ClientTimeUnixMilli h, wh_SigAlg = h_SigAlg h, wh_Sig = h_Sig h\<rparr>"

definition Head_ToDomain :: "WHead \<Rightarrow> wire_error + Head" where
  "Head_ToDomain d =
    bind_res (parseID (wh_Vault d)) (\<lambda>vault.
    bind_res (parseID (wh_Commit d)) (\<lambda>commit.
    bind_res (parseID (wh_Author d)) (\<lambda>author.
    bind_res (parseHash (wh_PrevHash d)) (\<lambda>prev.
    bind_res (parseHash (wh_MerkleRoot d)) (\<lambda>root.
    bind_res (parseHash (wh_MembershipHead d)) (\<lambda>mhead.
      Inr \<lparr>h_Vault = vault, h_Seq = wh_Seq d, h_PrevHash = prev, h_MerkleRoot = root,
        h_CurrentEpoch = wh_CurrentEpoch d, h_MembershipSeq = wh_MembershipSeq d, h_MembershipHead = mhead,
        h_Commit = commit, h_Author = author, h_ClientTimeUnixMilli = wh_ClientTimeUnixMilli d,
        h_SigAlg = wh_SigAlg d, h_Sig = wh_Sig d\<rparr>))))))"

section \<open>Lemmas\<close>

lemma parseID_iff: "parseID s = Inr i \<longleftrightarrow> \<not> ID_IsZero i \<and> s = ID_String i"
  using ParseID_iff [of s i] by (cases "ParseID s") (auto simp: parseID_def)

lemma parseOptionalID_iff: "parseOptionalID s = Inr i \<longleftrightarrow> s = optionalID i"
proof -
  have "[] \<noteq> ID_String j" for j
  proof -
    have "length (be_bytes j) = 16" by simp
    then have "be_bytes j \<noteq> []" by force
    then show ?thesis by (auto simp: ID_String_def hex_encode_def hex_byte_def)
  qed
  then show ?thesis by (auto simp: parseOptionalID_def optionalID_def parseID_iff ID_IsZero_def)
qed

lemma hash_of_bytes: "length b = 32 \<Longrightarrow> be_bytes (word_of_nat (of_be b) :: hash32) = b"
  using of_be_lt [of b] be_of_be [of b] by (simp add: be_bytes_def unat_of_nat)

lemma parseHash_iff: "parseHash b = Inr h \<longleftrightarrow> b = be_bytes h"
proof -
  have "be_bytes g = be_bytes h \<longleftrightarrow> g = h" for g :: hash32 by (rule be_bytes_inj) simp
  then show ?thesis using hash_of_bytes by (auto simp: parseHash_def)
qed

lemma parseIDs_iff: "parseIDs ss = Inr is \<longleftrightarrow> (\<forall>i \<in> set is. \<not> ID_IsZero i) \<and> ss = idStrings is"
proof (induction ss arbitrary: "is")
  case (Cons s ss)
  then show ?case by (cases "is") (auto simp: bind_res_Inr parseID_iff idStrings_def)
qed (auto simp: idStrings_def)

lemmas wire_parsers = bind_res_Inr parseID_iff parseOptionalID_iff parseHash_iff parseIDs_iff

lemma parseWraps_iff: "parseWraps ws = Inr us \<longleftrightarrow> (\<forall>w \<in> set us. \<not> ID_IsZero (w_Member w)) \<and> ws = map KeyWrapFrom us"
proof (induction ws arbitrary: us)
  case (Cons w ws)
  show ?case
  proof (cases us)
    case us: (Cons u us')
    show ?thesis
      unfolding us parseWraps.simps wire_parsers Cons.IH by (cases w; cases u) (auto simp: KeyWrapFrom_def)
  qed (simp add: bind_res_Inr)
qed auto

text \<open>What a message must satisfy to have a wire form that is read back: the identifiers it cannot do without
  are not zero.\<close>

definition wire_entry :: "DeviceEntry \<Rightarrow> bool" where
  "wire_entry e \<longleftrightarrow> \<not> ID_IsZero (d_Account e) \<and> (\<forall>c. d_Cert e = Some c \<longrightarrow> \<not> ID_IsZero (c_Device c))"

definition wire_op :: "MemberOp \<Rightarrow> bool" where
  "wire_op op \<longleftrightarrow> \<not> ID_IsZero (o_Vault op) \<and> \<not> ID_IsZero (o_Author op) \<and> \<not> ID_IsZero (o_AuthorDevice op) \<and>
    (\<forall>i \<in> set (o_RevokedDevices op). \<not> ID_IsZero i) \<and> (\<forall>w \<in> set (o_Wraps op). \<not> ID_IsZero (w_Member w))"

definition wire_envelope :: "Envelope \<Rightarrow> bool" where
  "wire_envelope e \<longleftrightarrow> \<not> ID_IsZero (e_Vault e) \<and> \<not> ID_IsZero (e_Record e) \<and> \<not> ID_IsZero (e_Author e)"

definition wire_head :: "Head \<Rightarrow> bool" where
  "wire_head h \<longleftrightarrow> \<not> ID_IsZero (h_Vault h) \<and> \<not> ID_IsZero (h_Commit h) \<and> \<not> ID_IsZero (h_Author h)"

lemma DeviceEntry_wire: "DeviceEntry_ToDomain d = Inr e \<longleftrightarrow> wire_entry e \<and> d = DeviceEntryFrom e"
proof (cases "we_Cert d")
  case None
  then show ?thesis unfolding DeviceEntry_ToDomain_def wire_parsers Let_def
    by (cases d; cases e) (auto simp: DeviceEntryFrom_def wire_entry_def split: option.splits)
next
  case (Some c)
  then show ?thesis unfolding DeviceEntry_ToDomain_def wire_parsers Let_def
    by (cases c; cases d; cases e; cases "d_Cert e"; cases "the (d_Cert e)")
       (auto simp: DeviceEntryFrom_def wire_entry_def wire_parsers)
qed

lemma MemberOp_wire: "MemberOp_ToDomain d = Inr op \<longleftrightarrow> wire_op op \<and> d = MemberOpFrom op"
  unfolding MemberOp_ToDomain_def wire_parsers parseWraps_iff
  by (cases d; cases op) (auto simp: MemberOpFrom_def wire_op_def)

lemma Envelope_wire: "Envelope_ToDomain d = Inr e \<longleftrightarrow> wire_envelope e \<and> d = EnvelopeFrom e"
  unfolding Envelope_ToDomain_def wire_parsers by (cases d; cases e) (auto simp: EnvelopeFrom_def wire_envelope_def)

lemma Head_wire: "Head_ToDomain d = Inr h \<longleftrightarrow> wire_head h \<and> d = HeadFrom h"
  unfolding Head_ToDomain_def wire_parsers by (cases d; cases h) (auto simp: HeadFrom_def wire_head_def)

section \<open>Properties\<close>

text \<open>The wire form is exact: a message converts to a value of the domain if and only if it is the wire form
  of that value and the identifiers it needs are not zero. So no two messages convert to one value, and
  whatever was read from the wire is written back as it was, byte for byte of every field - the
  server serves exactly what it verified.\<close>

theorem wire_forms_exact:
  "(MemberOp_ToDomain wo = Inr op \<longleftrightarrow> wire_op op \<and> wo = MemberOpFrom op) \<and>
   (DeviceEntry_ToDomain we = Inr e \<longleftrightarrow> wire_entry e \<and> we = DeviceEntryFrom e) \<and>
   (Envelope_ToDomain wv = Inr v \<longleftrightarrow> wire_envelope v \<and> wv = EnvelopeFrom v) \<and>
   (Head_ToDomain wh = Inr h \<longleftrightarrow> wire_head h \<and> wh = HeadFrom h)"
  using MemberOp_wire DeviceEntry_wire Envelope_wire Head_wire by blast

end
