(* ===== verification/Write_Queue.thy ===== *)
theory Write_Queue
  imports Prelude
begin

text \<open>
  The queue that admits writers to the server's database one at a time (\<open>store/writequeue.go\<close>). The
  fields of the struct are \<open>wq_held\<close> and \<open>wq_waiters\<close>; a waiter's channel is named by the writer that waits on
  it, and \<open>wq_pc\<close> says where in \<open>acquire\<close> and \<open>release\<close> each writer is: outside, in the \<open>select\<close>, in the \<open>select\<close>
  with its channel closed, or holding the turn. A step is one critical section of \<open>q.mu\<close>, or the receive
  from the closed channel; the context of a writer in the \<open>select\<close> may end at any time, also after its
  channel was closed, and then either branch of the \<open>select\<close> may run.
\<close>

section \<open>Model\<close>

datatype phase = Out | Waiting | Granted | Holding

record 'w writeQueue =
  wq_held :: bool
  wq_waiters :: "'w list"
  wq_pc :: "'w \<Rightarrow> phase"

definition wq_new :: "'w writeQueue" where
  "wq_new = \<lparr>wq_held = False, wq_waiters = [], wq_pc = (\<lambda>_. Out)\<rparr>"

definition handOffLocked :: "'w writeQueue \<Rightarrow> 'w writeQueue" where
  "handOffLocked q =
    (case wq_waiters q of
       [] \<Rightarrow> q\<lparr>wq_held := False\<rparr>
     | next # rest \<Rightarrow> q\<lparr>wq_waiters := rest, wq_pc := (wq_pc q)(next := Granted)\<rparr>)"

text \<open>\<open>acquire\<close> up to the \<open>select\<close>; \<open>take_turn\<close> and \<open>give_up\<close> are its two branches.\<close>

definition acquire :: "'w \<Rightarrow> 'w writeQueue \<Rightarrow> 'w writeQueue" where
  "acquire w q =
    (if \<not> wq_held q then q\<lparr>wq_held := True, wq_pc := (wq_pc q)(w := Holding)\<rparr>
     else q\<lparr>wq_waiters := wq_waiters q @ [w], wq_pc := (wq_pc q)(w := Waiting)\<rparr>)"

definition take_turn :: "'w \<Rightarrow> 'w writeQueue \<Rightarrow> 'w writeQueue" where
  "take_turn w q = q\<lparr>wq_pc := (wq_pc q)(w := Holding)\<rparr>"

definition give_up :: "'w \<Rightarrow> 'w writeQueue \<Rightarrow> 'w writeQueue" where
  "give_up w q =
    (let q' = q\<lparr>wq_pc := (wq_pc q)(w := Out)\<rparr> in
     if w \<in> set (wq_waiters q) then q'\<lparr>wq_waiters := remove1 w (wq_waiters q)\<rparr>
     else handOffLocked q')"

definition release :: "'w \<Rightarrow> 'w writeQueue \<Rightarrow> 'w writeQueue" where
  "release w q = handOffLocked (q\<lparr>wq_pc := (wq_pc q)(w := Out)\<rparr>)"

datatype 'w wq_event = Acquire 'w | TakeTurn 'w | GiveUp 'w | Release 'w

inductive wq_step :: "'w writeQueue \<Rightarrow> 'w wq_event \<Rightarrow> 'w writeQueue \<Rightarrow> bool" where
  acquire: "wq_pc q w = Out \<Longrightarrow> wq_step q (Acquire w) (acquire w q)"
| take_turn: "wq_pc q w = Granted \<Longrightarrow> wq_step q (TakeTurn w) (take_turn w q)"
| give_up: "wq_pc q w = Waiting \<or> wq_pc q w = Granted \<Longrightarrow> wq_step q (GiveUp w) (give_up w q)"
| release: "wq_pc q w = Holding \<Longrightarrow> wq_step q (Release w) (release w q)"

text \<open>A run with the number of times the turn was handed on in it.\<close>

fun hands_off :: "'w writeQueue \<Rightarrow> 'w wq_event \<Rightarrow> bool" where
  "hands_off q (GiveUp w) = (wq_pc q w = Granted)"
| "hands_off q (Release w) = True"
| "hands_off q _ = False"

inductive wq_run :: "'w writeQueue \<Rightarrow> 'w wq_event list \<Rightarrow> nat \<Rightarrow> 'w writeQueue \<Rightarrow> bool" where
  start: "wq_run q [] 0 q"
| extend: "wq_run q es n r \<Longrightarrow> wq_step r e s \<Longrightarrow> wq_run q (es @ [e]) (n + (if hands_off r e then 1 else 0)) s"

inductive_cases wq_stepE: "wq_step q e r"
inductive_simps wq_step_simps [simp]:
  "wq_step q (Acquire w) r" "wq_step q (TakeTurn w) r" "wq_step q (GiveUp w) r" "wq_step q (Release w) r"

section \<open>Invariant\<close>

text \<open>The writers the turn belongs to.\<close>

definition owns :: "'w writeQueue \<Rightarrow> 'w \<Rightarrow> bool" where
  "owns q w \<longleftrightarrow> wq_pc q w = Granted \<or> wq_pc q w = Holding"

definition wq_inv :: "'w writeQueue \<Rightarrow> bool" where
  "wq_inv q \<longleftrightarrow> distinct (wq_waiters q) \<and> (\<forall>w. w \<in> set (wq_waiters q) \<longleftrightarrow> wq_pc q w = Waiting) \<and>
    (wq_held q \<longleftrightarrow> (\<exists>w. owns q w)) \<and> (\<forall>v w. owns q v \<longrightarrow> owns q w \<longrightarrow> v = w) \<and> (\<not> wq_held q \<longrightarrow> wq_waiters q = [])"

lemmas wq_defs = acquire_def take_turn_def give_up_def release_def handOffLocked_def Let_def

text \<open>Handing on the turn of its only owner.\<close>

lemma hand_off_inv:
  assumes "wq_inv q" and "owns q w"
  shows "wq_inv (handOffLocked (q\<lparr>wq_pc := (wq_pc q)(w := Out)\<rparr>))"
  using assms by (cases "wq_waiters q") (auto simp: wq_inv_def handOffLocked_def owns_def)

lemma wq_inv_step: "wq_step q e r \<Longrightarrow> wq_inv q \<Longrightarrow> wq_inv r"
proof (induction rule: wq_step.induct)
  case (acquire q w)
  show ?case
  proof (cases "wq_held q")
    case True
    have "owns (acquire w q) = owns q" using True acquire.hyps by (auto simp: fun_eq_iff owns_def acquire_def)
    with True acquire show ?thesis by (auto simp: wq_inv_def acquire_def)
  next
    case False
    have "owns (acquire w q) = (\<lambda>v. v = w)"
      using False acquire by (auto simp: fun_eq_iff wq_inv_def owns_def acquire_def)
    with False acquire show ?thesis by (auto simp: wq_inv_def acquire_def)
  qed
next
  case (take_turn q w)
  have "owns (take_turn w q) = owns q" using take_turn.hyps by (auto simp: fun_eq_iff owns_def take_turn_def)
  with take_turn show ?case by (auto simp: wq_inv_def take_turn_def)
next
  case (give_up q w)
  show ?case
  proof (cases "w \<in> set (wq_waiters q)")
    case True
    then have "owns (give_up w q) = owns q"
      using give_up by (auto simp: fun_eq_iff wq_inv_def owns_def give_up_def Let_def)
    with True give_up show ?thesis by (auto simp: wq_inv_def give_up_def Let_def)
  next
    case False
    then have "owns q w" using give_up by (auto simp: wq_inv_def owns_def)
    with False hand_off_inv [OF give_up.prems] show ?thesis by (simp add: give_up_def Let_def)
  qed
next
  case (release q w)
  then show ?case using hand_off_inv [of q w] by (simp add: release_def owns_def)
qed

lemma wq_inv_run: "wq_run q es n r \<Longrightarrow> wq_inv q \<Longrightarrow> wq_inv r"
  by (induction rule: wq_run.induct) (auto intro: wq_inv_step)

lemma wq_inv_new: "wq_inv wq_new"
  by (simp add: wq_inv_def wq_new_def owns_def)

section \<open>Order\<close>

text \<open>How many writers are in front of a waiting one.\<close>

fun ahead :: "'w list \<Rightarrow> 'w \<Rightarrow> nat" where
  "ahead [] w = 0"
| "ahead (x # xs) w = (if x = w then 0 else Suc (ahead xs w))"

lemma ahead_append: "w \<in> set xs \<Longrightarrow> ahead (xs @ ys) w = ahead xs w"
  by (induction xs) auto

lemma ahead_remove1: "w \<in> set xs \<Longrightarrow> v \<noteq> w \<Longrightarrow> ahead (remove1 v xs) w \<le> ahead xs w"
  by (induction xs) auto

text \<open>A step moves a writer that keeps waiting forward, and a hand-off moves it forward by one.\<close>

lemma ahead_step:
  assumes "wq_step q e r" and "wq_inv q" and "wq_pc q w = Waiting" and "wq_pc r w = Waiting"
  shows "ahead (wq_waiters r) w + (if hands_off q e then 1 else 0) \<le> ahead (wq_waiters q) w"
proof -
  have w: "w \<in> set (wq_waiters q)" using assms(2,3) by (simp add: wq_inv_def)
  have hand: "ahead (wq_waiters (handOffLocked q')) w + 1 \<le> ahead (wq_waiters q) w"
    if "wq_waiters q' = wq_waiters q" "wq_pc (handOffLocked q') w = Waiting" for q'
    using that w by (cases "wq_waiters q") (auto simp: handOffLocked_def split: if_splits)
  from assms(1) show ?thesis
  proof (cases rule: wq_step.cases)
    case (give_up v)
    show ?thesis
    proof (cases "v \<in> set (wq_waiters q)")
      case True
      then have "wq_pc q v = Waiting" using assms(2) by (simp add: wq_inv_def)
      moreover have "v \<noteq> w" using give_up True assms(4) by (auto simp: give_up_def Let_def)
      ultimately show ?thesis using give_up True ahead_remove1 [OF w] by (simp add: give_up_def Let_def)
    next
      case False
      with give_up hand [of "q\<lparr>wq_pc := (wq_pc q)(v := Out)\<rparr>"] assms(4) show ?thesis
        by (simp add: give_up_def Let_def)
    qed
  next
    case (release v)
    then show ?thesis using hand assms(4) by (simp add: release_def)
  qed (use w in \<open>auto simp: acquire_def take_turn_def ahead_append\<close>)
qed

text \<open>Only joining the queue starts a wait.\<close>

lemma wait_starts: "wq_step q e r \<Longrightarrow> wq_pc r w = Waiting \<Longrightarrow> e \<noteq> Acquire w \<Longrightarrow> wq_pc q w = Waiting"
  by (induction rule: wq_step.induct) (auto simp: wq_defs split: if_splits list.splits)

lemma ahead_run:
  assumes "wq_run q es n r" and "wq_inv q" and "Acquire w \<notin> set es" and "wq_pc r w = Waiting"
  shows "wq_pc q w = Waiting \<and> ahead (wq_waiters r) w + n \<le> ahead (wq_waiters q) w"
  using assms
proof (induction rule: wq_run.induct)
  case (extend q es n r e s)
  have r: "wq_pc r w = Waiting" using wait_starts [OF extend.hyps(2) extend.prems(3)] extend.prems(2) by auto
  have "ahead (wq_waiters s) w + (if hands_off r e then 1 else 0) \<le> ahead (wq_waiters r) w"
    using ahead_step [OF extend.hyps(2) wq_inv_run [OF extend.hyps(1) extend.prems(1)] r extend.prems(3)] .
  with extend.IH [OF extend.prems(1) _ r] extend.prems(2) show ?case by auto
qed simp

section \<open>Properties\<close>

text \<open>At most one writer has the turn, and the turn is never lost: in every state the queue reaches, whatever
  contexts end when, at most one writer holds the turn or has been handed it, the queue counts as held
  exactly when one does, and nobody waits while it is free.\<close>

theorem write_queue_exclusive:
  assumes "wq_run wq_new es n q"
  shows "(wq_pc q v = Holding \<longrightarrow> wq_pc q w = Holding \<or> wq_pc q w = Granted \<longrightarrow> v = w) \<and>
    (wq_held q \<longleftrightarrow> (\<exists>w. wq_pc q w = Holding \<or> wq_pc q w = Granted)) \<and>
    (wq_pc q w = Waiting \<longrightarrow> (\<exists>v. wq_pc q v = Holding \<or> wq_pc q v = Granted))"
proof -
  have "wq_inv q" using wq_inv_run [OF assms wq_inv_new] .
  then have inv: "w \<in> set (wq_waiters q) \<longleftrightarrow> wq_pc q w = Waiting" "wq_held q \<longleftrightarrow> (\<exists>w. owns q w)"
    "owns q v \<Longrightarrow> owns q w \<Longrightarrow> v = w" "\<not> wq_held q \<Longrightarrow> wq_waiters q = []" for v w
    unfolding wq_inv_def by blast+
  show ?thesis using inv unfolding owns_def by (metis empty_iff list.set(1))
qed

theorem write_queue_exclusive_witness:
  "\<exists>q. wq_run wq_new [Acquire (1::nat), Acquire 2, Release 1, GiveUp 2] 2 q \<and> \<not> wq_held q"
proof -
  let ?a = "acquire (1::nat) wq_new" and ?c = "\<lambda>q. give_up (2::nat) (release 1 (acquire 2 q))"
  have "wq_run wq_new ([] @ [Acquire (1::nat)]) (0 + 0) ?a"
    using wq_run.extend [OF wq_run.start, of wq_new "Acquire 1" ?a] by (simp add: wq_new_def)
  from wq_run.extend [OF this, of "Acquire 2" "acquire 2 ?a"]
  have "wq_run wq_new [Acquire (1::nat), Acquire 2] 0 (acquire 2 ?a)"
    by (simp add: wq_new_def acquire_def)
  from wq_run.extend [OF this, of "Release 1" "release 1 (acquire 2 ?a)"]
  have "wq_run wq_new [Acquire (1::nat), Acquire 2, Release 1] 1 (release 1 (acquire 2 ?a))"
    by (simp add: wq_new_def acquire_def)
  from wq_run.extend [OF this, of "GiveUp 2" "?c ?a"]
  have run: "wq_run wq_new [Acquire (1::nat), Acquire 2, Release 1, GiveUp 2] 2 (?c ?a)"
    by (simp add: wq_new_def wq_defs numeral_2_eq_2)
  have "\<not> (\<exists>w. wq_pc (?c ?a) w = Holding \<or> wq_pc (?c ?a) w = Granted)" by (simp add: wq_new_def wq_defs)
  with write_queue_exclusive [OF run] run show ?thesis by blast
qed

text \<open>C40. The turn goes to the writer that has waited longest: in any continuation in which a waiting writer does not
  give up, every hand-off brings it one place forward and nobody passes it, so once the turn was handed on
  once more than there were writers in front of it, it no longer waits.\<close>

theorem write_queue_fair:
  assumes "wq_run wq_new es k q" and "wq_pc q w = Waiting"
    and "wq_run q fs n r" and "Acquire w \<notin> set fs"
  shows "(wq_pc r w = Waiting \<longrightarrow> ahead (wq_waiters r) w + n \<le> ahead (wq_waiters q) w) \<and>
    (ahead (wq_waiters q) w < n \<longrightarrow> wq_pc r w \<noteq> Waiting)"
  using ahead_run [OF assms(3) wq_inv_run [OF assms(1) wq_inv_new] assms(4)] by fastforce

theorem write_queue_fair_witness:
  "wq_pc (release (1::nat) (acquire 2 (acquire 1 wq_new))) 2 \<noteq> Waiting"
proof -
  let ?a = "acquire (1::nat) wq_new" let ?q = "acquire 2 ?a"
  have "wq_run wq_new ([] @ [Acquire (1::nat)]) (0 + 0) ?a"
    using wq_run.extend [OF wq_run.start, of wq_new "Acquire 1" ?a] by (simp add: wq_new_def)
  from wq_run.extend [OF this, of "Acquire 2" ?q]
  have q: "wq_run wq_new [Acquire (1::nat), Acquire 2] 0 ?q" "wq_pc ?q 2 = Waiting"
    by (simp_all add: wq_new_def acquire_def)
  have r: "wq_run ?q [Release 1] 1 (release 1 ?q)"
    using wq_run.extend [OF wq_run.start, of ?q "Release 1" "release 1 ?q"] by (simp add: wq_new_def acquire_def)
  from write_queue_fair [OF q r] show ?thesis by (simp add: wq_new_def acquire_def)
qed

end
