(* ===== verification/Server_Store.thy ===== *)
theory Server_Store
  imports Vault_State Device_Log Go_Strings "HOL-Library.List_Lexorder"
begin

text \<open>
  The sync server's database (\<open>syncserver/store\<close>) behind the interface the use cases call
  (\<open>usecase/ports.go\<close>). A table is the list of its rows in the order they were inserted, and every method is its SQL
  statement on that list: a query filters, \<open>ORDER BY\<close> is a stable sort, an insert checks the primary
  key, the unique columns and the foreign keys, and a delete of an account or a vault cascades as the schema says. The
  rows of the logs and of the commits hold values of the domain: they are stored in the wire form, which
  theory \<open>Wire\<close> shows to be exact.

  A statement with a \<open>uint64\<close> argument of \<open>2 ^ 63\<close> or more is refused by \<open>database/sql\<close>; this is \<open>sql_ints\<close>. Failures
  of the disk are not modelled: any failing statement makes \<open>WithTx\<close> roll everything back, which is what
  the model does with the failures it has.
\<close>

section \<open>Errors and rows\<close>

datatype uc_error =
    ErrMalformed | ErrUnauthorized | ErrForbidden | ErrNotFound | ErrFrozen | ErrQuotaExceeded | ErrTooLarge
  | ErrRateLimited u64 | ErrConflict u64 | ErrPurgeNotDue | ErrHistoryPruned | ErrInviteNotFound
  | Cause sentinel \<comment> \<open>an error of the domain the error wraps\<close>
  | ErrConstraint \<comment> \<open>a statement the database refused\<close>

type_synonym uc_err = "uc_error list"
type_synonym 'a uc_result = "uc_err + 'a"

definition lift_res :: "'a result \<Rightarrow> 'a uc_result" where
  "lift_res r = (case r of Inl err \<Rightarrow> Inl (map Cause err) | Inr x \<Rightarrow> Inr x)"

definition malformed :: "go_error \<Rightarrow> uc_err" where
  "malformed cause = ErrMalformed # map Cause cause"

record Account =
  a_ID :: ID
  a_Username :: string
  a_OPAQUERecord :: bytes
  a_Bundle :: bytes
  a_IdentityKey :: bytes
  a_EncryptionKey :: bytes
  a_Created :: u64
  a_Frozen :: bool

record Device =
  dv_ID :: ID
  dv_Account :: ID
  dv_SigningKey :: bytes
  dv_Revoked :: bool

type_synonym TokenKind = string

definition TokenAccount :: TokenKind where "TokenAccount = ''account''"
definition TokenAccess :: TokenKind where "TokenAccess = ''access''"

record Token =
  tk_Hash :: bytes
  tk_Account :: ID
  tk_Device :: ID
  tk_Kind :: TokenKind
  tk_Expires :: u64

record Vault =
  va_ID :: ID
  va_Owner :: ID
  va_Seq :: u64
  va_MembershipSeq :: u64
  va_Bytes :: u64
  va_Personal :: bool
  va_Deleted :: bool
  va_PrunedSeq :: u64

record StoredCommit =
  sc_Seq :: u64
  sc_Commit :: Commit

record InviteInfo =
  in_ID :: string
  in_Expires :: u64
  in_Used :: bool

record ServerStats =
  ss_Accounts :: nat
  ss_Frozen :: nat
  ss_Vaults :: nat
  ss_Commits :: nat
  ss_Bytes :: nat

text \<open>The rows that are not themselves values of the use cases.\<close>

record invite_row =
  iv_Hash :: bytes
  iv_Expires :: u64
  iv_UsedBy :: "ID option"

record entry_row =
  er_Account :: ID
  er_Seq :: u64
  er_Entry :: DeviceEntry

record op_row =
  or_Vault :: ID
  or_Seq :: u64
  or_Op :: MemberOp

record member_row =
  mr_Vault :: ID
  mr_Account :: ID
  mr_Role :: Role

record commit_row =
  cr_Vault :: ID
  cr_Seq :: u64
  cr_CommitID :: ID
  cr_Head :: Head
  cr_Purged :: "ID list"
  cr_Received :: u64

record version_row =
  rv_Vault :: ID
  rv_Record :: ID
  rv_Version :: u64
  rv_Seq :: u64
  rv_Epoch :: u32
  rv_Size :: nat
  rv_Envelope :: Envelope
  rv_Digest :: hash32
  rv_Deleted :: bool

record schemaV2 =
  t_accounts :: "Account list"
  t_invites :: "invite_row list"
  t_device_entries :: "entry_row list"
  t_devices :: "Device list"
  t_tokens :: "Token list"
  t_vaults :: "Vault list"
  t_member_ops :: "op_row list"
  t_members :: "member_row list"
  t_participants :: "(ID \<times> ID) list"
  t_commits :: "commit_row list"
  t_versions :: "version_row list"

type_synonym db = schemaV2

definition empty_db :: db where
  "empty_db = \<lparr>t_accounts = [], t_invites = [], t_device_entries = [], t_devices = [], t_tokens = [], t_vaults = [],
     t_member_ops = [], t_members = [], t_participants = [], t_commits = [], t_versions = []\<rparr>"

section \<open>Statements\<close>

definition sql_ints :: "u64 list \<Rightarrow> 'a uc_result \<Rightarrow> 'a uc_result" where
  "sql_ints xs r = (if list_all (\<lambda>x. x < 2 ^ 63) xs then r else Inl [ErrConstraint])"

definition insert_row :: "bool \<Rightarrow> 'r \<Rightarrow> 'r list \<Rightarrow> 'r list uc_result" where
  "insert_row refused row rows = (if refused then Inl [ErrConstraint] else Inr (rows @ [row]))"

text \<open>\<open>changed\<close>: an update or delete together with whether it touched a row.\<close>

definition update_where :: "('r \<Rightarrow> bool) \<Rightarrow> ('r \<Rightarrow> 'r) \<Rightarrow> 'r list \<Rightarrow> 'r list" where
  "update_where P f rows = map (\<lambda>r. if P r then f r else r) rows"

definition changed :: "('r \<Rightarrow> bool) \<Rightarrow> 'r list \<Rightarrow> bool" where
  "changed P rows = list_ex P rows"

definition account_exists :: "db \<Rightarrow> ID \<Rightarrow> bool" where
  "account_exists d i = list_ex (\<lambda>a. a_ID a = i) (t_accounts d)"

definition vault_exists :: "db \<Rightarrow> ID \<Rightarrow> bool" where
  "vault_exists d i = list_ex (\<lambda>v. va_ID v = i) (t_vaults d)"

subsection \<open>Accounts and invites\<close>

definition InsertAccount :: "db \<Rightarrow> Account \<Rightarrow> db uc_result" where
  "InsertAccount d a = sql_ints [a_Created a]
    (bind_res (insert_row (list_ex (\<lambda>b. a_ID b = a_ID a \<or> a_Username b = a_Username a) (t_accounts d)) a (t_accounts d))
      (\<lambda>rows. Inr (d\<lparr>t_accounts := rows\<rparr>)))"

definition AccountByUsername :: "db \<Rightarrow> string \<Rightarrow> Account option" where
  "AccountByUsername d username = find (\<lambda>a. a_Username a = username) (t_accounts d)"

definition AccountByID :: "db \<Rightarrow> ID \<Rightarrow> Account option" where
  "AccountByID d i = find (\<lambda>a. a_ID a = i) (t_accounts d)"

definition SetFrozen :: "db \<Rightarrow> string \<Rightarrow> bool \<Rightarrow> db \<times> bool" where
  "SetFrozen d username frozen =
    (d\<lparr>t_accounts := update_where (\<lambda>a. a_Username a = username) (\<lambda>a. a\<lparr>a_Frozen := frozen\<rparr>) (t_accounts d)\<rparr>,
     changed (\<lambda>a. a_Username a = username) (t_accounts d))"

text \<open>The device entries, devices and tokens of a deleted account go with it (\<open>ON DELETE CASCADE\<close>).\<close>

definition DeleteAccount :: "db \<Rightarrow> string \<Rightarrow> db \<times> bool" where
  "DeleteAccount d username =
    (let gone = map a_ID (filter (\<lambda>a. a_Username a = username) (t_accounts d)) in
     (d\<lparr>t_accounts := filter (\<lambda>a. a_Username a \<noteq> username) (t_accounts d),
        t_device_entries := filter (\<lambda>e. er_Account e \<notin> set gone) (t_device_entries d),
        t_devices := filter (\<lambda>v. dv_Account v \<notin> set gone) (t_devices d),
        t_tokens := filter (\<lambda>k. tk_Account k \<notin> set gone) (t_tokens d)\<rparr>,
      changed (\<lambda>a. a_Username a = username) (t_accounts d)))"

definition ListAccounts :: "db \<Rightarrow> Account list" where
  "ListAccounts d = sort_key (\<lambda>a. str_bytes (a_Username a)) (t_accounts d)"

definition InsertInvite :: "db \<Rightarrow> bytes \<Rightarrow> u64 \<Rightarrow> db uc_result" where
  "InsertInvite d h expires = sql_ints [expires]
    (bind_res (insert_row (list_ex (\<lambda>v. iv_Hash v = h) (t_invites d))
        \<lparr>iv_Hash = h, iv_Expires = expires, iv_UsedBy = None\<rparr> (t_invites d))
      (\<lambda>rows. Inr (d\<lparr>t_invites := rows\<rparr>)))"

definition usable :: "bytes \<Rightarrow> u64 \<Rightarrow> invite_row \<Rightarrow> bool" where
  "usable h now v \<longleftrightarrow> iv_Hash v = h \<and> iv_UsedBy v = None \<and> iv_Expires v > now"

definition InviteUsable :: "db \<Rightarrow> bytes \<Rightarrow> u64 \<Rightarrow> bool uc_result" where
  "InviteUsable d h now = sql_ints [now] (Inr (list_ex (usable h now) (t_invites d)))"

definition ConsumeInvite :: "db \<Rightarrow> bytes \<Rightarrow> u64 \<Rightarrow> ID \<Rightarrow> (db \<times> bool) uc_result" where
  "ConsumeInvite d h now account = sql_ints [now]
    (Inr (d\<lparr>t_invites := update_where (usable h now) (\<lambda>v. v\<lparr>iv_UsedBy := Some account\<rparr>) (t_invites d)\<rparr>,
      changed (usable h now) (t_invites d)))"

definition UpdateAccountCredentials :: "db \<Rightarrow> ID \<Rightarrow> bytes \<Rightarrow> bytes \<Rightarrow> db uc_result" where
  "UpdateAccountCredentials d account rec bundle =
    (if \<not> changed (\<lambda>a. a_ID a = account) (t_accounts d) then Inl [ErrNotFound]
     else Inr (d\<lparr>t_accounts := update_where (\<lambda>a. a_ID a = account)
        (\<lambda>a. a\<lparr>a_OPAQUERecord := rec, a_Bundle := bundle\<rparr>) (t_accounts d)\<rparr>))"

subsection \<open>Device logs, devices and tokens\<close>

definition DeviceEntries :: "db \<Rightarrow> ID \<Rightarrow> DeviceEntry list" where
  "DeviceEntries d account =
    map er_Entry (sort_key er_Seq (filter (\<lambda>e. er_Account e = account) (t_device_entries d)))"

fun AppendDeviceEntries :: "db \<Rightarrow> ID \<Rightarrow> DeviceEntry list \<Rightarrow> db uc_result" where
  "AppendDeviceEntries d account [] = Inr d"
| "AppendDeviceEntries d account (e # es) = sql_ints [d_Seq e]
    (bind_res (insert_row (\<not> account_exists d account \<or>
          list_ex (\<lambda>r. er_Account r = account \<and> er_Seq r = d_Seq e) (t_device_entries d))
        \<lparr>er_Account = account, er_Seq = d_Seq e, er_Entry = e\<rparr> (t_device_entries d))
      (\<lambda>rows. AppendDeviceEntries (d\<lparr>t_device_entries := rows\<rparr>) account es))"

definition InsertDevice :: "db \<Rightarrow> Device \<Rightarrow> (db \<times> bool) uc_result" where
  "InsertDevice d v =
    (if list_ex (\<lambda>r. dv_ID r = dv_ID v) (t_devices d) then Inr (d, False)
     else if \<not> account_exists d (dv_Account v) then Inl [ErrConstraint]
     else Inr (d\<lparr>t_devices := t_devices d @ [v]\<rparr>, True))"

definition RevokeDevice :: "db \<Rightarrow> ID \<Rightarrow> ID \<Rightarrow> db \<times> bool" where
  "RevokeDevice d account device =
    (d\<lparr>t_devices := update_where (\<lambda>r. dv_ID r = device \<and> dv_Account r = account) (\<lambda>r. r\<lparr>dv_Revoked := True\<rparr>) (t_devices d)\<rparr>,
     changed (\<lambda>r. dv_ID r = device \<and> dv_Account r = account) (t_devices d))"

definition DeviceByID :: "db \<Rightarrow> ID \<Rightarrow> Device option" where
  "DeviceByID d i = find (\<lambda>r. dv_ID r = i) (t_devices d)"

text \<open>A zero device is stored as \<open>NULL\<close> and read back as zero; \<open>NULL\<close> equals no device.\<close>

definition InsertToken :: "db \<Rightarrow> Token \<Rightarrow> db uc_result" where
  "InsertToken d k = sql_ints [tk_Expires k]
    (bind_res (insert_row (\<not> account_exists d (tk_Account k) \<or> list_ex (\<lambda>r. tk_Hash r = tk_Hash k) (t_tokens d)) k (t_tokens d))
      (\<lambda>rows. Inr (d\<lparr>t_tokens := rows\<rparr>)))"

definition TokenByHash :: "db \<Rightarrow> bytes \<Rightarrow> Token option" where
  "TokenByHash d h = find (\<lambda>r. tk_Hash r = h) (t_tokens d)"

definition DeleteTokensForDevice :: "db \<Rightarrow> ID \<Rightarrow> db" where
  "DeleteTokensForDevice d device =
    d\<lparr>t_tokens := filter (\<lambda>r. \<not> (\<not> ID_IsZero (tk_Device r) \<and> tk_Device r = device)) (t_tokens d)\<rparr>"

definition DeleteTokensForAccountExcept :: "db \<Rightarrow> ID \<Rightarrow> ID \<Rightarrow> db" where
  "DeleteTokensForAccountExcept d account keep =
    d\<lparr>t_tokens := filter (\<lambda>r. \<not> (tk_Account r = account \<and> (ID_IsZero (tk_Device r) \<or> tk_Device r \<noteq> keep))) (t_tokens d)\<rparr>"

definition DeleteExpiredTokens :: "db \<Rightarrow> u64 \<Rightarrow> db uc_result" where
  "DeleteExpiredTokens d now = sql_ints [now] (Inr (d\<lparr>t_tokens := filter (\<lambda>r. \<not> tk_Expires r \<le> now) (t_tokens d)\<rparr>))"

subsection \<open>Vaults and membership\<close>

definition InsertVault :: "db \<Rightarrow> Vault \<Rightarrow> db uc_result" where
  "InsertVault d v = sql_ints [va_Seq v, va_MembershipSeq v, va_Bytes v, va_PrunedSeq v]
    (bind_res (insert_row (vault_exists d (va_ID v)) v (t_vaults d)) (\<lambda>rows. Inr (d\<lparr>t_vaults := rows\<rparr>)))"

definition VaultByID :: "db \<Rightarrow> ID \<Rightarrow> Vault option" where
  "VaultByID d i = find (\<lambda>v. va_ID v = i) (t_vaults d)"

definition UpdateVaultHead :: "db \<Rightarrow> ID \<Rightarrow> u64 \<Rightarrow> u64 \<Rightarrow> db uc_result" where
  "UpdateVaultHead d i seq bytes = sql_ints [seq, bytes]
    (Inr (d\<lparr>t_vaults := update_where (\<lambda>v. va_ID v = i) (\<lambda>v. v\<lparr>va_Seq := seq, va_Bytes := bytes\<rparr>) (t_vaults d)\<rparr>))"

definition SetVaultMembershipSeq :: "db \<Rightarrow> ID \<Rightarrow> u64 \<Rightarrow> db uc_result" where
  "SetVaultMembershipSeq d i seq = sql_ints [seq]
    (Inr (d\<lparr>t_vaults := update_where (\<lambda>v. va_ID v = i) (\<lambda>v. v\<lparr>va_MembershipSeq := seq\<rparr>) (t_vaults d)\<rparr>))"

definition MemberOps :: "db \<Rightarrow> ID \<Rightarrow> MemberOp list" where
  "MemberOps d vault = map or_Op (sort_key or_Seq (filter (\<lambda>r. or_Vault r = vault) (t_member_ops d)))"

definition add_participant :: "ID \<Rightarrow> ID \<Rightarrow> (ID \<times> ID) list \<Rightarrow> (ID \<times> ID) list" where
  "add_participant vault a rows = (if ID_IsZero a \<or> (vault, a) \<in> set rows then rows else rows @ [(vault, a)])"

fun AppendMemberOps :: "db \<Rightarrow> ID \<Rightarrow> MemberOp list \<Rightarrow> db uc_result" where
  "AppendMemberOps d vault [] = Inr d"
| "AppendMemberOps d vault (op # ops) = sql_ints [o_Seq op]
    (bind_res (insert_row (\<not> vault_exists d vault \<or>
          list_ex (\<lambda>r. or_Vault r = vault \<and> or_Seq r = o_Seq op) (t_member_ops d))
        \<lparr>or_Vault = vault, or_Seq = o_Seq op, or_Op = op\<rparr> (t_member_ops d))
      (\<lambda>rows. AppendMemberOps
        (d\<lparr>t_member_ops := rows,
           t_participants := add_participant vault (o_Subject op) (add_participant vault (o_Author op) (t_participants d))\<rparr>)
        vault ops))"

text \<open>The roles are written in the order of the accounts; Go's map has no order and the table's is never asked.\<close>

definition ReplaceMembers :: "db \<Rightarrow> ID \<Rightarrow> (ID, Role) go_map \<Rightarrow> db uc_result" where
  "ReplaceMembers d vault role_map =
    (if role_map \<noteq> fmempty \<and> \<not> vault_exists d vault then Inl [ErrConstraint]
     else Inr (d\<lparr>t_members := filter (\<lambda>r. mr_Vault r \<noteq> vault) (t_members d) @
        map (\<lambda>a. \<lparr>mr_Vault = vault, mr_Account = a, mr_Role = the (fmlookup role_map a)\<rparr>)
          (sorted_list_of_fset (fmdom role_map))\<rparr>))"

definition MemberRole :: "db \<Rightarrow> ID \<Rightarrow> ID \<Rightarrow> Role" where
  "MemberRole d vault account =
    (case find (\<lambda>r. mr_Vault r = vault \<and> mr_Account r = account) (t_members d) of
       None \<Rightarrow> RoleNone | Some r \<Rightarrow> mr_Role r)"

definition VaultsOf :: "db \<Rightarrow> ID \<Rightarrow> Vault list" where
  "VaultsOf d account =
    sort_key va_ID (filter (\<lambda>v. \<not> va_Deleted v \<and>
      list_ex (\<lambda>r. mr_Vault r = va_ID v \<and> mr_Account r = account) (t_members d)) (t_vaults d))"

definition SharesVault :: "db \<Rightarrow> ID \<Rightarrow> ID \<Rightarrow> bool" where
  "SharesVault d a b =
    list_ex (\<lambda>r. mr_Account r = a \<and> (mr_Vault r, b) \<in> set (t_participants d)) (t_members d)"

definition MemberCount :: "db \<Rightarrow> ID \<Rightarrow> nat" where
  "MemberCount d vault = length (filter (\<lambda>r. mr_Vault r = vault) (t_members d))"

definition DeleteVault :: "db \<Rightarrow> ID \<Rightarrow> db" where
  "DeleteVault d vault =
    d\<lparr>t_vaults := filter (\<lambda>v. va_ID v \<noteq> vault) (t_vaults d),
      t_member_ops := filter (\<lambda>r. or_Vault r \<noteq> vault) (t_member_ops d),
      t_members := filter (\<lambda>r. mr_Vault r \<noteq> vault) (t_members d),
      t_participants := filter (\<lambda>(v, a). v \<noteq> vault) (t_participants d),
      t_commits := filter (\<lambda>r. cr_Vault r \<noteq> vault) (t_commits d),
      t_versions := filter (\<lambda>r. rv_Vault r \<noteq> vault) (t_versions d)\<rparr>"

subsection \<open>Commits\<close>

definition CommitSeqByID :: "db \<Rightarrow> ID \<Rightarrow> ID \<Rightarrow> u64 option" where
  "CommitSeqByID d vault commit_id =
    map_option cr_Seq (find (\<lambda>r. cr_Vault r = vault \<and> cr_CommitID r = commit_id) (t_commits d))"

definition envelope_size :: "Envelope \<Rightarrow> nat" where
  "envelope_size e = length (e_WrappedDEK e) + length (e_Body e)"

fun insert_versions :: "crypto \<Rightarrow> db \<Rightarrow> ID \<Rightarrow> u64 \<Rightarrow> Envelope list \<Rightarrow> db uc_result" where
  "insert_versions cr d vault seq [] = Inr d"
| "insert_versions cr d vault seq (e # es) =
    bind_res (lift_res (Envelope_Digest cr e)) (\<lambda>digest.
    sql_ints [e_Version e, seq]
    (bind_res (insert_row (\<not> vault_exists d vault \<or>
          list_ex (\<lambda>r. rv_Vault r = vault \<and> rv_Record r = e_Record e \<and> rv_Version r = e_Version e) (t_versions d))
        \<lparr>rv_Vault = vault, rv_Record = e_Record e, rv_Version = e_Version e, rv_Seq = seq, rv_Epoch = e_Epoch e,
          rv_Size = envelope_size e, rv_Envelope = e, rv_Digest = digest, rv_Deleted = e_Deleted e\<rparr> (t_versions d))
      (\<lambda>rows. insert_versions cr (d\<lparr>t_versions := rows\<rparr>) vault seq es)))"

definition InsertCommit :: "crypto \<Rightarrow> db \<Rightarrow> ID \<Rightarrow> u64 \<Rightarrow> Commit \<Rightarrow> u64 \<Rightarrow> db uc_result" where
  "InsertCommit cr d vault seq c received = sql_ints [seq, received]
    (bind_res (insert_row (\<not> vault_exists d vault \<or>
          list_ex (\<lambda>r. cr_Vault r = vault \<and> (cr_Seq r = seq \<or> cr_CommitID r = h_Commit (cm_Head c))) (t_commits d))
        \<lparr>cr_Vault = vault, cr_Seq = seq, cr_CommitID = h_Commit (cm_Head c), cr_Head = cm_Head c,
          cr_Purged = cm_Purged c, cr_Received = received\<rparr> (t_commits d))
      (\<lambda>rows. insert_versions cr (d\<lparr>t_commits := rows\<rparr>) vault seq (cm_Records c)))"

text \<open>The versions of a record from the newest on, until the next would pass the budget, oldest first.\<close>

fun versions_loop :: "nat \<Rightarrow> bool \<Rightarrow> nat \<Rightarrow> version_row list \<Rightarrow> version_row list" where
  "versions_loop maxBytes started used [] = []"
| "versions_loop maxBytes started used (r # rs) =
    (if started \<and> used + rv_Size r > maxBytes then []
     else r # versions_loop maxBytes True (used + rv_Size r) rs)"

definition RecordVersions :: "db \<Rightarrow> ID \<Rightarrow> ID \<Rightarrow> nat \<Rightarrow> Envelope list" where
  "RecordVersions d vault rec maxBytes =
    rev (map rv_Envelope (versions_loop maxBytes False 0
      (rev (sort_key rv_Version (filter (\<lambda>r. rv_Vault r = vault \<and> rv_Record r = rec) (t_versions d))))))"

definition commit_at :: "db \<Rightarrow> ID \<Rightarrow> u64 \<Rightarrow> commit_row option" where
  "commit_at d vault seq = find (\<lambda>c. cr_Vault c = vault \<and> cr_Seq c = seq) (t_commits d)"

definition VersionLanded :: "db \<Rightarrow> ID \<Rightarrow> ID \<Rightarrow> (u64 \<times> u64) option" where
  "VersionLanded d vault rec =
    (case rev (sort_key rv_Version (filter (\<lambda>r. rv_Vault r = vault \<and> rv_Record r = rec \<and>
        commit_at d vault (rv_Seq r) \<noteq> None) (t_versions d))) of
       [] \<Rightarrow> None
     | r # _ \<Rightarrow> map_option (\<lambda>c. (cr_Received c, h_MembershipSeq (cr_Head c))) (commit_at d vault (rv_Seq r)))"

text \<open>The loop over the rows of a page: it stops in front of the row that would be one too many or would pass
  the budget, but never in front of the first.\<close>

fun page_loop :: "nat \<Rightarrow> nat \<Rightarrow> ('r \<Rightarrow> nat) \<Rightarrow> nat \<Rightarrow> nat \<Rightarrow> 'r list \<Rightarrow> 'r list \<times> bool" where
  "page_loop limit maxBytes sz n used [] = ([], False)"
| "page_loop limit maxBytes sz n used (r # rs) =
    (if n = limit \<or> (n > 0 \<and> used + sz r > maxBytes) then ([], True)
     else (case page_loop limit maxBytes sz (Suc n) (used + sz r) rs of (out, more_rows) \<Rightarrow> (r # out, more_rows)))"

definition recordsAt :: "db \<Rightarrow> ID \<Rightarrow> u64 \<Rightarrow> Envelope list" where
  "recordsAt d vault seq =
    map rv_Envelope (sort_key rv_Record (filter (\<lambda>r. rv_Vault r = vault \<and> rv_Seq r = seq) (t_versions d)))"

definition commit_size :: "db \<Rightarrow> commit_row \<Rightarrow> nat" where
  "commit_size d c = sum_list (map rv_Size (filter (\<lambda>r. rv_Vault r = cr_Vault c \<and> rv_Seq r = cr_Seq c) (t_versions d)))"

definition commitHeads :: "db \<Rightarrow> ID \<Rightarrow> u64 \<Rightarrow> nat \<Rightarrow> nat \<Rightarrow> commit_row list \<times> bool" where
  "commitHeads d vault since limit maxBytes =
    page_loop limit maxBytes (commit_size d) 0 0
      (take (limit + 1) (sort_key cr_Seq (filter (\<lambda>c. cr_Vault c = vault \<and> cr_Seq c > since) (t_commits d))))"

definition Commits :: "db \<Rightarrow> ID \<Rightarrow> u64 \<Rightarrow> nat \<Rightarrow> nat \<Rightarrow> (StoredCommit list \<times> bool) uc_result" where
  "Commits d vault since limit maxBytes = sql_ints [since]
    (case commitHeads d vault since limit maxBytes of (cs, more_rows) \<Rightarrow>
      Inr (map (\<lambda>c. \<lparr>sc_Seq = cr_Seq c,
          sc_Commit = \<lparr>cm_Head = cr_Head c, cm_Records = recordsAt d vault (cr_Seq c), cm_Purged = cr_Purged c\<rparr>\<rparr>) cs, more_rows))"

definition currentVersion :: "db \<Rightarrow> version_row \<Rightarrow> bool" where
  "currentVersion d r =
    list_all (\<lambda>q. rv_Vault q = rv_Vault r \<and> rv_Record q = rv_Record r \<longrightarrow> rv_Version q \<le> rv_Version r) (t_versions d)"

text \<open>The start of a page is the bytes of an id, or no bytes for the first page.\<close>

definition CurrentRecordsPage :: "db \<Rightarrow> ID \<Rightarrow> ID option \<Rightarrow> nat \<Rightarrow> nat \<Rightarrow> Envelope list \<times> bool" where
  "CurrentRecordsPage d vault after limit maxBytes =
    (case page_loop limit maxBytes rv_Size 0 0
        (take (limit + 1) (sort_key rv_Record (filter (\<lambda>r. rv_Vault r = vault \<and>
          (case after of None \<Rightarrow> True | Some i \<Rightarrow> rv_Record r > i) \<and> currentVersion d r) (t_versions d)))) of
       (rows, more_rows) \<Rightarrow> (map rv_Envelope rows, more_rows))"

definition CurrentLeaves :: "db \<Rightarrow> ID \<Rightarrow> Leaf list" where
  "CurrentLeaves d vault =
    map (\<lambda>r. \<lparr>l_Record = rv_Record r, l_Version = rv_Version r, l_Digest = rv_Digest r, l_Deleted = rv_Deleted r\<rparr>)
      (filter (\<lambda>r. rv_Vault r = vault \<and> currentVersion d r) (t_versions d))"

definition EpochsInUse :: "db \<Rightarrow> ID \<Rightarrow> u32 list" where
  "EpochsInUse d vault =
    remdups (map rv_Epoch (filter (\<lambda>r. rv_Vault r = vault \<and> \<not> rv_Deleted r \<and> currentVersion d r) (t_versions d)))"

definition LatestHead :: "db \<Rightarrow> ID \<Rightarrow> Head option" where
  "LatestHead d vault =
    (case rev (sort_key cr_Seq (filter (\<lambda>c. cr_Vault c = vault) (t_commits d))) of [] \<Rightarrow> None | c # _ \<Rightarrow> Some (cr_Head c))"

definition Heads :: "db \<Rightarrow> ID \<Rightarrow> u64 \<Rightarrow> u64 \<Rightarrow> nat \<Rightarrow> Head list uc_result" where
  "Heads d vault since until limit = sql_ints [since, until]
    (Inr (take limit (map cr_Head
      (sort_key cr_Seq (filter (\<lambda>c. cr_Vault c = vault \<and> cr_Seq c > since \<and> cr_Seq c \<le> until) (t_commits d))))))"

subsection \<open>Pruning\<close>

definition AllVaults :: "db \<Rightarrow> ID list" where
  "AllVaults d = sort (map va_ID (filter (\<lambda>v. \<not> va_Deleted v) (t_vaults d)))"

definition deleteVersions :: "(version_row \<Rightarrow> bool) \<Rightarrow> db \<Rightarrow> db \<times> u64" where
  "deleteVersions P d =
    (let seq = fold max (map rv_Seq (filter P (t_versions d))) 0 in
     if seq = 0 then (d, 0) else (d\<lparr>t_versions := filter (\<lambda>r. \<not> P r) (t_versions d)\<rparr>, seq))"

fun delete_records :: "db \<Rightarrow> ID \<Rightarrow> ID list \<Rightarrow> u64 \<Rightarrow> db \<times> u64" where
  "delete_records d vault [] newest = (d, newest)"
| "delete_records d vault (r # rs) newest =
    (case deleteVersions (\<lambda>v. rv_Vault v = vault \<and> rv_Record v = r) d of (d', seq) \<Rightarrow>
      delete_records d' vault rs (max newest seq))"

definition DeleteRecords :: "db \<Rightarrow> ID \<Rightarrow> ID list \<Rightarrow> db \<times> u64" where
  "DeleteRecords d vault records = delete_records d vault records 0"

definition supersededAt :: "db \<Rightarrow> ID \<Rightarrow> u64 \<Rightarrow> version_row \<Rightarrow> bool" where
  "supersededAt d vault cutoff r \<longleftrightarrow> rv_Vault r = vault \<and>
    list_ex (\<lambda>nx. rv_Vault nx = rv_Vault r \<and> rv_Record nx = rv_Record r \<and> unat (rv_Version nx) = unat (rv_Version r) + 1 \<and>
      (case commit_at d vault (rv_Seq nx) of None \<Rightarrow> False | Some c \<Rightarrow> cr_Received c < cutoff)) (t_versions d)"

definition DeleteSuperseded :: "db \<Rightarrow> ID \<Rightarrow> u64 \<Rightarrow> (db \<times> u64) uc_result" where
  "DeleteSuperseded d vault cutoff = sql_ints [cutoff] (Inr (deleteVersions (supersededAt d vault cutoff) d))"

definition DeleteEpochVersions :: "db \<Rightarrow> ID \<Rightarrow> u32 list \<Rightarrow> db \<times> u64" where
  "DeleteEpochVersions d vault epochs =
    (if epochs = [] then (d, 0)
     else deleteVersions (\<lambda>r. rv_Vault r = vault \<and> rv_Epoch r \<in> set epochs \<and> \<not> currentVersion d r) d)"

fun ReplaceMemberOps :: "db \<Rightarrow> ID \<Rightarrow> MemberOp list \<Rightarrow> db uc_result" where
  "ReplaceMemberOps d vault [] = Inr d"
| "ReplaceMemberOps d vault (op # ops) = sql_ints [o_Seq op]
    (ReplaceMemberOps (d\<lparr>t_member_ops := update_where (\<lambda>r. or_Vault r = vault \<and> or_Seq r = o_Seq op)
        (\<lambda>r. r\<lparr>or_Op := op\<rparr>) (t_member_ops d)\<rparr>) vault ops)"

definition RaisePrunedSeq :: "db \<Rightarrow> ID \<Rightarrow> u64 \<Rightarrow> db uc_result" where
  "RaisePrunedSeq d vault seq = sql_ints [seq]
    (Inr (d\<lparr>t_vaults := update_where (\<lambda>v. va_ID v = vault) (\<lambda>v. v\<lparr>va_PrunedSeq := max (va_PrunedSeq v) seq\<rparr>) (t_vaults d)\<rparr>))"

definition RecomputeBytes :: "db \<Rightarrow> ID \<Rightarrow> db" where
  "RecomputeBytes d vault =
    d\<lparr>t_vaults := update_where (\<lambda>v. va_ID v = vault)
      (\<lambda>v. v\<lparr>va_Bytes := word_of_nat (sum_list (map rv_Size (filter (\<lambda>r. rv_Vault r = vault) (t_versions d))))\<rparr>) (t_vaults d)\<rparr>"

subsection \<open>Operator queries\<close>

definition ListInvites :: "db \<Rightarrow> InviteInfo list" where
  "ListInvites d = map (\<lambda>v. \<lparr>in_ID = hex_encode (iv_Hash v), in_Expires = iv_Expires v, in_Used = iv_UsedBy v \<noteq> None\<rparr>)
    (sort_key iv_Expires (t_invites d))"

definition invite_matches :: "string \<Rightarrow> invite_row \<Rightarrow> bool" where
  "invite_matches prefix v \<longleftrightarrow> iv_UsedBy v = None \<and> take (length prefix) (hex_encode (iv_Hash v)) = ToLower prefix"

definition DeleteUnusedInvite :: "db \<Rightarrow> string \<Rightarrow> db \<times> nat" where
  "DeleteUnusedInvite d prefix =
    (d\<lparr>t_invites := filter (\<lambda>v. \<not> invite_matches prefix v) (t_invites d)\<rparr>,
     length (filter (invite_matches prefix) (t_invites d)))"

definition Stats :: "db \<Rightarrow> ServerStats" where
  "Stats d = \<lparr>ss_Accounts = length (t_accounts d), ss_Frozen = length (filter a_Frozen (t_accounts d)),
     ss_Vaults = length (filter (\<lambda>v. \<not> va_Deleted v) (t_vaults d)), ss_Commits = length (t_commits d),
     ss_Bytes = sum_list (map (\<lambda>v. unat (va_Bytes v)) (filter (\<lambda>v. \<not> va_Deleted v) (t_vaults d)))\<rparr>"

subsection \<open>Transactions\<close>

text \<open>\<open>WithTx\<close>: everything the function wrote is kept when it succeeds and nothing when it fails.\<close>

definition WithTx :: "(db \<Rightarrow> (db \<times> 'a) uc_result) \<Rightarrow> db \<Rightarrow> db \<times> 'a uc_result" where
  "WithTx fn d = (case fn d of Inl err \<Rightarrow> (d, Inl err) | Inr (d', x) \<Rightarrow> (d', Inr x))"

end
