(* ===== verification/Server_Vaults.thy ===== *)
theory Server_Vaults
  imports Server_Store
begin

text \<open>
  The server's use cases on vaults (\<open>usecase/vaults.go\<close>, \<open>commits.go\<close>, \<open>retention.go\<close>, and the configuration of
  \<open>service.go\<close>): membership operations, commits, pulls, snapshots, history and pruning. Every check a client makes is
  the domain's own: \<open>replayMembership\<close> and \<open>verifyCommit\<close> run the models of theories \<open>Membership\<close> and
  \<open>Vault_State\<close> on the rows of the store. A use case returns the database it leaves, its result and the event it
  publishes. The clock is read anew at each place the code reads it, so a use case that reads it several
  times has several arguments for it. On an error only the error is returned.
\<close>

section \<open>Configuration and callers\<close>

record Config =
  cfg_PersonalQuota :: u64
  cfg_TeamQuota :: u64
  cfg_MaxRecords :: int

definition New :: "Config \<Rightarrow> Config" where
  "New cfg =
    (let cfg = (if cfg_PersonalQuota cfg = 0 then cfg\<lparr>cfg_PersonalQuota := 256 * 2 ^ 20\<rparr> else cfg);
         cfg = (if cfg_TeamQuota cfg = 0 then cfg\<lparr>cfg_TeamQuota := 2 ^ 30\<rparr> else cfg) in
     if cfg_MaxRecords cfg = 0 then cfg\<lparr>cfg_MaxRecords := 100000\<rparr> else cfg)"

record Principal =
  p_Account :: ID
  p_Device :: ID
  p_Kind :: TokenKind

record Event =
  ev_Vault :: ID
  ev_Seq :: u64
  ev_MembershipSeq :: u64
  ev_Account :: ID
  ev_DeviceLogSeq :: u64

definition zero_event :: Event where
  "zero_event = \<lparr>ev_Vault = 0, ev_Seq = 0, ev_MembershipSeq = 0, ev_Account = 0, ev_DeviceLogSeq = 0\<rparr>"

type_synonym notice = "(ID list \<times> Event) option"

definition maxOpsPerAppend :: nat where "maxOpsPerAppend = 16"
definition maxRecordsPerCommit :: nat where "maxRecordsPerCommit = 1000"
definition maxChangesPage :: int where "maxChangesPage = 200"
definition maxHeadsPage :: nat where "maxHeadsPage = 1000"
definition changesPageBytes :: nat where "changesPageBytes = 16 * 2 ^ 20"
definition snapshotPageRecords :: nat where "snapshotPageRecords = 1000"
definition snapshotPageBytes :: nat where "snapshotPageBytes = 8 * 2 ^ 20"
definition versionsBytes :: nat where "versionsBytes = 16 * 2 ^ 20"

section \<open>Membership\<close>

definition requireAccess :: "Principal \<Rightarrow> uc_err option" where
  "requireAccess p = (if p_Kind p \<noteq> TokenAccess \<or> ID_IsZero (p_Device p) then Some [ErrUnauthorized] else None)"

definition requireMember :: "db \<Rightarrow> ID \<Rightarrow> ID \<Rightarrow> (Vault \<times> Role) uc_result" where
  "requireMember d vault account =
    (case VaultByID d vault of
       None \<Rightarrow> Inl [ErrNotFound]
     | Some v \<Rightarrow>
         if va_Deleted v then Inl [ErrNotFound]
         else (let role = MemberRole d vault account in
           if role = RoleNone then Inl [ErrNotFound] else Inr (v, role)))"

definition signatureCheck :: "crypto \<Rightarrow> db \<Rightarrow> SignatureCheck" where
  "signatureCheck cr d account device alg msg sig =
    (case DeviceByID d device of
       None \<Rightarrow> Some [ErrBadSignature]
     | Some v \<Rightarrow>
         if dv_Account v \<noteq> account then Some [ErrBadSignature]
         else VerifySignature cr alg (dv_SigningKey v) msg sig)"

definition deviceResolver :: "db \<Rightarrow> DeviceResolver" where
  "deviceResolver d device =
    (case DeviceByID d device of None \<Rightarrow> Inl [ErrDeviceLog] | Some v \<Rightarrow> Inr (dv_Account v, dv_SigningKey v))"

definition replayMembership :: "crypto \<Rightarrow> db \<Rightarrow> ID \<Rightarrow> MembershipState uc_result" where
  "replayMembership cr d vault =
    bind_res (lift_res (NewMembershipState cr vault)) (\<lambda>m.
      lift_res (replay (member_step cr (signatureCheck cr d)) m (MemberOps d vault)))"

definition refusal :: "go_error \<Rightarrow> uc_err" where
  "refusal err =
    (if errors_Is err ErrNotAuthorized \<or> errors_Is err ErrRevokedDevice then ErrForbidden # map Cause err
     else malformed err)"

definition refuse_res :: "'a result \<Rightarrow> 'a uc_result" where
  "refuse_res r = (case r of Inl err \<Rightarrow> Inl (refusal err) | Inr x \<Rightarrow> Inr x)"

definition refuseUnless :: "bool \<Rightarrow> uc_err option" where
  "refuseUnless pass = (if pass then None else Some [ErrForbidden])"

definition roles :: "MembershipState \<Rightarrow> (ID, Role) go_map" where
  "roles m = (if ms_deleted m then fmempty else fmap_of_list (map (\<lambda>i. (i, MembershipState_Role m i)) (Members m)))"

definition Service_CreateVault :: "crypto \<Rightarrow> Principal \<Rightarrow> MemberOp \<Rightarrow> db \<Rightarrow> db \<times> unit uc_result" where
  "Service_CreateVault cr p create d =
    (case requireAccess p of
       Some err \<Rightarrow> (d, Inl err)
     | None \<Rightarrow>
         if o_Kind create \<noteq> MemberCreate \<or> o_Author create \<noteq> p_Account p \<or> o_AuthorDevice create \<noteq> p_Device p
         then (d, Inl [ErrMalformed])
         else WithTx (\<lambda>d.
           if VaultByID d (o_Vault create) \<noteq> None then Inl [ErrForbidden]
           else bind_res (lift_res (NewMembershipState cr (o_Vault create))) (\<lambda>m.
             bind_res (refuse_res (member_step cr (signatureCheck cr d) m create)) (\<lambda>m.
             bind_res (InsertVault d \<lparr>va_ID = o_Vault create, va_Owner = p_Account p, va_Seq = 0, va_MembershipSeq = 1,
                 va_Bytes = 0, va_Personal = False, va_Deleted = False, va_PrunedSeq = 0\<rparr>) (\<lambda>d.
             bind_res (AppendMemberOps d (o_Vault create) [create]) (\<lambda>d.
             bind_res (ReplaceMembers d (o_Vault create) (roles m)) (\<lambda>d. Inr (d, ()))))))) d)"

fun checkAddedKeys :: "crypto \<Rightarrow> db \<Rightarrow> MemberOp list \<Rightarrow> unit uc_result" where
  "checkAddedKeys cr d [] = Inr ()"
| "checkAddedKeys cr d (op # ops) =
    (if o_Kind op \<noteq> MemberAdd then checkAddedKeys cr d ops
     else (case AccountByID d (o_Subject op) of
         None \<Rightarrow> Inl (malformed [])
       | Some a \<Rightarrow>
           (case IdentityDigest cr (a_IdentityKey a) of
              Inl _ \<Rightarrow> Inl (malformed [])
            | Inr digest \<Rightarrow> if digest \<noteq> o_Fingerprint op then Inl (malformed []) else checkAddedKeys cr d ops)))"

definition leaving :: "MemberOp list \<Rightarrow> ID \<Rightarrow> bool" where
  "leaving ops author = list_ex (\<lambda>op. o_Kind op = MemberRemove \<and> o_Subject op = author) ops"

text \<open>The first occurrence of each id, in order.\<close>

fun union_loop :: "ID list \<Rightarrow> ID set \<Rightarrow> ID list" where
  "union_loop [] seen = []"
| "union_loop (i # is) seen = (if i \<in> seen then union_loop is seen else i # union_loop is (insert i seen))"

definition unionIDs :: "ID list \<Rightarrow> ID list \<Rightarrow> ID list" where
  "unionIDs a b = union_loop (a @ b) {}"

section \<open>Retention\<close>

definition usecase_dayMillis :: u64 where "usecase_dayMillis = 24 * 60 * 60 * 1000"

definition retiredEpochs :: "db \<Rightarrow> ID \<Rightarrow> MembershipState \<Rightarrow> u64 \<Rightarrow> u32 list" where
  "retiredEpochs d vault m now =
    RetiredEpochs (ms_rotations m) (\<lambda>e. e \<in> set (EpochsInUse d vault)) (ms_retentionDays m) now"

definition stripRetiredWraps :: "db \<Rightarrow> ID \<Rightarrow> u32 list \<Rightarrow> db uc_result" where
  "stripRetiredWraps d vault gone =
    (if gone = [] then Inr d
     else ReplaceMemberOps d vault
       (map (\<lambda>op. op\<lparr>o_Wraps := map Strip (o_Wraps op)\<rparr>)
         (filter (\<lambda>op. o_Epoch op \<in> set gone) (MemberOps d vault))))"

definition pruneVault :: "db \<Rightarrow> ID \<Rightarrow> MembershipState \<Rightarrow> u64 \<Rightarrow> db uc_result" where
  "pruneVault d vault m now =
    (let window = ucast (ms_retentionDays m) * usecase_dayMillis in
     bind_res (if now \<ge> window then DeleteSuperseded d vault (now - window + 1) else Inr (d, 0)) (\<lambda>(d, newest).
     let gone = retiredEpochs d vault m now in
     case DeleteEpochVersions d vault gone of (d, seq) \<Rightarrow>
       bind_res (stripRetiredWraps d vault gone) (\<lambda>d.
       bind_res (if max newest seq > 0 then RaisePrunedSeq d vault (max newest seq) else Inr d) (\<lambda>d.
         Inr (RecomputeBytes d vault)))))"

definition usecase_applyPurges :: "db \<Rightarrow> ID \<Rightarrow> ID list \<Rightarrow> db uc_result" where
  "usecase_applyPurges d vault purged =
    (case DeleteRecords d vault purged of (d, seq) \<Rightarrow> if seq = 0 then Inr d else RaisePrunedSeq d vault seq)"

text \<open>The pass over the vaults: each in its own transaction, until one fails.\<close>

fun prune_loop :: "crypto \<Rightarrow> ID list \<Rightarrow> u64 \<Rightarrow> db \<Rightarrow> db \<times> unit uc_result" where
  "prune_loop cr [] now d = (d, Inr ())"
| "prune_loop cr (v # vs) now d =
    (case WithTx (\<lambda>d. bind_res (replayMembership cr d v) (\<lambda>m. bind_res (pruneVault d v m now) (\<lambda>d. Inr (d, ())))) d of
       (d, Inl err) \<Rightarrow> (d, Inl err)
     | (d, Inr _) \<Rightarrow> prune_loop cr vs now d)"

definition Service_PruneAll :: "crypto \<Rightarrow> u64 \<Rightarrow> db \<Rightarrow> db \<times> unit uc_result" where
  "Service_PruneAll cr now d = prune_loop cr (AllVaults d) now d"

section \<open>Appending membership operations\<close>

definition append_membership ::
    "crypto \<Rightarrow> Principal \<Rightarrow> ID \<Rightarrow> MemberOp list \<Rightarrow> u64 \<Rightarrow> db \<Rightarrow> (db \<times> ID list \<times> u64) uc_result" where
  "append_membership cr p vault ops now d =
    bind_res (requireMember d vault (p_Account p)) (\<lambda>_.
    bind_res (replayMembership cr d vault) (\<lambda>m0.
    bind_res (refuse_res (replay (member_step cr (signatureCheck cr d)) m0 ops)) (\<lambda>m.
      if ms_pendingRotation m \<and> \<not> leaving ops (p_Account p) then Inl (malformed [])
      else bind_res (checkAddedKeys cr d ops) (\<lambda>_.
        bind_res (AppendMemberOps d vault ops) (\<lambda>d.
        bind_res (SetVaultMembershipSeq d vault (ms_seq m)) (\<lambda>d.
        bind_res (ReplaceMembers d vault (roles m)) (\<lambda>d.
        bind_res (pruneVault d vault m now) (\<lambda>d.
          Inr (d, unionIDs (Members m0) (Members m), ms_seq m)))))))))"

definition Service_AppendMembership ::
    "crypto \<Rightarrow> Principal \<Rightarrow> ID \<Rightarrow> MemberOp list \<Rightarrow> u64 \<Rightarrow> db \<Rightarrow> db \<times> unit uc_result \<times> notice" where
  "Service_AppendMembership cr p vault ops now d =
    (case requireAccess p of
       Some err \<Rightarrow> (d, Inl err, None)
     | None \<Rightarrow>
         if ops = [] \<or> length ops > maxOpsPerAppend then (d, Inl [ErrMalformed], None)
         else if list_ex (\<lambda>op. o_Author op \<noteq> p_Account p \<or> o_AuthorDevice op \<noteq> p_Device p \<or> o_Vault op \<noteq> vault) ops
           then (d, Inl [ErrForbidden], None)
         else (case WithTx (append_membership cr p vault ops now) d of
             (d, Inl err) \<Rightarrow> (d, Inl err, None)
           | (d, Inr (notify, seq)) \<Rightarrow>
               (d, Inr (), Some (notify, zero_event\<lparr>ev_Vault := vault, ev_MembershipSeq := seq\<rparr>))))"

definition Service_Membership :: "Principal \<Rightarrow> ID \<Rightarrow> u64 \<Rightarrow> db \<Rightarrow> MemberOp list uc_result" where
  "Service_Membership p vault since d =
    bind_res (requireMember d vault (p_Account p)) (\<lambda>_. Inr (filter (\<lambda>op. o_Seq op > since) (MemberOps d vault)))"

definition Service_Vaults :: "Principal \<Rightarrow> db \<Rightarrow> Vault list" where
  "Service_Vaults p d = VaultsOf d (p_Account p)"

section \<open>Commits\<close>

definition checkQuota :: "Config \<Rightarrow> Vault \<Rightarrow> Envelope list \<Rightarrow> u64 uc_result" where
  "checkQuota cfg v records =
    (let used = foldl (\<lambda>t e. t + word_of_nat (length (e_WrappedDEK e) + length (e_Body e))) (va_Bytes v) records;
         limit = (if va_Personal v then cfg_PersonalQuota cfg else cfg_TeamQuota cfg) in
     if used > limit then Inl [ErrQuotaExceeded] else Inr used)"

definition currentState :: "crypto \<Rightarrow> db \<Rightarrow> ID \<Rightarrow> VaultState uc_result" where
  "currentState cr d vault = lift_res (RestoreVaultStateFromLeaves cr vault (LatestHead d vault) (CurrentLeaves d vault))"

definition verifyCommit :: "crypto \<Rightarrow> db \<Rightarrow> ID \<Rightarrow> Commit \<Rightarrow> (MembershipState \<times> VaultState) uc_result" where
  "verifyCommit cr d vault c =
    bind_res (replayMembership cr d vault) (\<lambda>m.
    bind_res (currentState cr d vault) (\<lambda>state.
    bind_res (refuse_res (ApplyCommit cr state c m (deviceResolver d))) (\<lambda>next. Inr (m, next))))"

fun checkPurgesDue :: "db \<Rightarrow> ID \<Rightarrow> MembershipState \<Rightarrow> ID list \<Rightarrow> u64 \<Rightarrow> unit uc_result" where
  "checkPurgesDue d vault m [] now = Inr ()"
| "checkPurgesDue d vault m (i # is) now =
    (case VersionLanded d vault i of
       None \<Rightarrow> Inl (malformed [])
     | Some (received, membershipSeq) \<Rightarrow>
         if membershipSeq < ms_shredSeq m then checkPurgesDue d vault m is now
         else if now < received \<or> now - received < ucast (ms_retentionDays m) * usecase_dayMillis
           then Inl [ErrPurgeNotDue]
         else checkPurgesDue d vault m is now)"

text \<open>The transaction of a commit; the result has the members to tell unless the commit was stored before. The three
  readings of the clock are those of \<open>checkPurgesDue\<close>, \<open>InsertCommit\<close> and \<open>pruneVault\<close>.\<close>

definition commit_tx ::
    "crypto \<Rightarrow> Config \<Rightarrow> Principal \<Rightarrow> ID \<Rightarrow> u64 \<Rightarrow> Commit \<Rightarrow> u64 \<times> u64 \<times> u64 \<Rightarrow> db \<Rightarrow> (db \<times> u64 \<times> ID list option) uc_result" where
  "commit_tx cr cfg p vault expectSeq c clk d =
    (case clk of (t_due, t_received, t_prune) \<Rightarrow>
      bind_res (requireMember d vault (p_Account p)) (\<lambda>(v, _).
        case CommitSeqByID d vault (h_Commit (cm_Head c)) of
          Some prior \<Rightarrow> Inr (d, prior, None)
        | None \<Rightarrow>
            if expectSeq \<noteq> va_Seq v then Inl [ErrConflict (va_Seq v)]
            else bind_res (checkQuota cfg v (cm_Records c)) (\<lambda>bytes.
              bind_res (verifyCommit cr d vault c) (\<lambda>(m, next).
                if int (VaultState_Len next) > cfg_MaxRecords cfg then Inl [ErrQuotaExceeded]
                else bind_res (checkPurgesDue d vault m (cm_Purged c) t_due) (\<lambda>_.
                  let seq = va_Seq v + 1 in
                  bind_res (InsertCommit cr d vault seq c t_received) (\<lambda>d.
                  bind_res (UpdateVaultHead d vault seq bytes) (\<lambda>d.
                  bind_res (usecase_applyPurges d vault (cm_Purged c)) (\<lambda>d.
                  bind_res (pruneVault d vault m t_prune) (\<lambda>d.
                    Inr (d, seq, Some (Members m)))))))))))"

definition Service_Commit ::
    "crypto \<Rightarrow> Config \<Rightarrow> Principal \<Rightarrow> ID \<Rightarrow> u64 \<Rightarrow> Commit \<Rightarrow> u64 \<times> u64 \<times> u64 \<Rightarrow> db \<Rightarrow> db \<times> u64 uc_result \<times> notice" where
  "Service_Commit cr cfg p vault expectSeq c clk d =
    (case requireAccess p of
       Some err \<Rightarrow> (d, Inl err, None)
     | None \<Rightarrow>
         if h_Author (cm_Head c) \<noteq> p_Device p then (d, Inl [ErrForbidden], None)
         else if length (cm_Records c) + length (cm_Purged c) > maxRecordsPerCommit then (d, Inl [ErrTooLarge], None)
         else (case WithTx (commit_tx cr cfg p vault expectSeq c clk) d of
             (d, Inl err) \<Rightarrow> (d, Inl err, None)
           | (d, Inr (seq, members)) \<Rightarrow>
               (d, Inr seq, map_option (\<lambda>ms. (ms, zero_event\<lparr>ev_Vault := vault, ev_Seq := seq\<rparr>)) members)))"

section \<open>Reading\<close>

definition Service_Changes :: "Principal \<Rightarrow> ID \<Rightarrow> u64 \<Rightarrow> int \<Rightarrow> db \<Rightarrow> (StoredCommit list \<times> bool) uc_result" where
  "Service_Changes p vault since limit d =
    (let limit = max 1 (min limit maxChangesPage) in
     bind_res (requireMember d vault (p_Account p)) (\<lambda>(v, _).
       if since < va_PrunedSeq v then Inl [ErrHistoryPruned]
       else Commits d vault since (nat limit) changesPageBytes))"

definition Service_Heads :: "Principal \<Rightarrow> ID \<Rightarrow> u64 \<Rightarrow> u64 \<Rightarrow> db \<Rightarrow> Head list uc_result" where
  "Service_Heads p vault since until d =
    bind_res (requireMember d vault (p_Account p)) (\<lambda>_. Heads d vault since until maxHeadsPage)"

record SnapshotPage =
  sp_Head :: "Head option"
  sp_Records :: "Envelope list"
  sp_More :: bool

definition Service_Snapshot :: "Principal \<Rightarrow> ID \<Rightarrow> ID option \<Rightarrow> db \<Rightarrow> SnapshotPage uc_result" where
  "Service_Snapshot p vault after d =
    bind_res (requireMember d vault (p_Account p)) (\<lambda>_.
      case CurrentRecordsPage d vault after snapshotPageRecords snapshotPageBytes of (recs, more_recs) \<Rightarrow>
        Inr \<lparr>sp_Head = LatestHead d vault, sp_Records = recs, sp_More = more_recs\<rparr>)"

definition Service_Versions :: "Principal \<Rightarrow> ID \<Rightarrow> ID \<Rightarrow> db \<Rightarrow> Envelope list uc_result" where
  "Service_Versions p vault rec d =
    (case requireAccess p of
       Some err \<Rightarrow> Inl err
     | None \<Rightarrow> bind_res (requireMember d vault (p_Account p)) (\<lambda>_. Inr (RecordVersions d vault rec versionsBytes)))"

end
