(* ===== verification/Server_Accounts.thy ===== *)
theory Server_Accounts
  imports Server_Vaults Login_Limiter
begin

text \<open>
  The server's use cases on accounts, logins, devices and tokens (\<open>usecase/accounts.go\<close>, \<open>logins.go\<close>, \<open>devices.go\<close>,
  \<open>devicelog.go\<close>, \<open>password.go\<close>, \<open>admin.go\<close>, and the tokens and device logs of \<open>service.go\<close>). The state in memory is
  the record \<open>Service\<close>; its mutexes make each access one step. Parameters: the server half of the password
  protocol (\<open>ake\<close>, the interface \<open>PasswordAKEServer\<close>), HMAC, \<open>strings.ToUpper\<close>, and the random bytes a request
  draws (\<open>None\<close> when the source fails).
\<close>

section \<open>State and parameters\<close>

record ake =
  ake_RegistrationResponse :: "bytes \<Rightarrow> ID \<Rightarrow> bytes result"
  ake_ValidateRecord :: "bytes \<Rightarrow> go_error option"
  ake_LoginStart :: "bytes \<Rightarrow> bytes \<Rightarrow> ID \<Rightarrow> (bytes \<times> bytes) result"
  ake_LoginStartUnknown :: "bytes \<Rightarrow> ID \<Rightarrow> bytes result"
  ake_LoginFinish :: "bytes \<Rightarrow> bytes \<Rightarrow> go_error option"

record challenge =
  ch_account :: ID
  ch_device :: ID
  ch_expires :: u64

record pendingLogin =
  lg_account :: ID
  lg_username :: string
  lg_ip :: string
  lg_known :: bool
  lg_mac :: bytes
  lg_expires :: u64

record Service =
  sv_logins :: "(string, pendingLogin) go_map"
  sv_limits :: limiter
  sv_challenges :: "(string, challenge) go_map"

definition accountTokenTTL :: u64 where "accountTokenTTL = 10 * 60000"
definition accessTokenTTL :: u64 where "accessTokenTTL = 15 * 60000"
definition tokenBytes :: nat where "tokenBytes = 32"
definition challengeTTL :: u64 where "challengeTTL = 60000"
definition challengeBytes :: nat where "challengeBytes = 32"
definition pendingLoginTTL :: u64 where "pendingLoginTTL = 2 * 60000"
definition inviteBytes :: nat where "inviteBytes = 16"
definition maxBundleSize :: nat where "maxBundleSize = 4096"
definition maxPasswordRequest :: nat where "maxPasswordRequest = 1024"
definition inviteIDLength :: nat where "inviteIDLength = 12"

definition randomBytes :: "bytes option \<Rightarrow> nat \<Rightarrow> bytes uc_result" where
  "randomBytes rnd n =
    (case rnd of None \<Rightarrow> Inl [Cause (ErrForeign ''randomness'')]
     | Some b \<Rightarrow> if length b < n then Inl [Cause (ErrForeign ''randomness'')] else Inr (take n b))"

text \<open>\<open>base64.RawURLEncoding\<close> and \<open>base32.StdEncoding\<close> without padding: the bits in groups of six or five, the last one
  filled with zeros.\<close>

definition byte_bits :: "byte \<Rightarrow> bool list" where
  "byte_bits b = map (bit b) (rev [0..<8])"

function group_bits :: "nat \<Rightarrow> bool list \<Rightarrow> nat list" where
  "group_bits k bits =
    (if bits = [] \<or> k = 0 then []
     else foldl (\<lambda>a x. 2 * a + of_bool x) 0 (take k (bits @ replicate k False)) # group_bits k (drop k bits))"
  by pat_completeness auto
termination by (relation "measure (\<lambda>(k, bits). length bits)") auto

declare group_bits.simps [simp del]

definition base64url :: "bytes \<Rightarrow> string" where
  "base64url b = map (\<lambda>i. ''ABCDEFGHIJKLMNOPQRSTUVWXYZabcdefghijklmnopqrstuvwxyz0123456789-_'' ! i)
    (group_bits 6 (concat (map byte_bits b)))"

definition base32 :: "bytes \<Rightarrow> string" where
  "base32 b = map (\<lambda>i. ''ABCDEFGHIJKLMNOPQRSTUVWXYZ234567'' ! i) (group_bits 5 (concat (map byte_bits b)))"

definition hashToken :: "crypto \<Rightarrow> string \<Rightarrow> bytes" where
  "hashToken cr token = be_bytes (sha256 cr (str_bytes token))"

definition issueToken ::
    "crypto \<Rightarrow> bytes option \<Rightarrow> u64 \<Rightarrow> db \<Rightarrow> ID \<Rightarrow> ID \<Rightarrow> TokenKind \<Rightarrow> u64 \<Rightarrow> (db \<times> string \<times> u64) uc_result" where
  "issueToken cr rnd now d account device kind ttl =
    bind_res (randomBytes rnd tokenBytes) (\<lambda>raw.
      let token = base64url raw; expires = now + ttl in
      bind_res (InsertToken d \<lparr>tk_Hash = hashToken cr token, tk_Account = account, tk_Device = device, tk_Kind = kind,
          tk_Expires = expires\<rparr>) (\<lambda>d. Inr (d, token, expires)))"

definition replayDeviceLog :: "crypto \<Rightarrow> Account \<Rightarrow> DeviceEntry list \<Rightarrow> DeviceLogState uc_result" where
  "replayDeviceLog cr a entries =
    bind_res (lift_res (NewDeviceLogState cr (a_ID a) Suite1 (a_IdentityKey a) (a_EncryptionKey a))) (\<lambda>log.
      lift_res (replay (device_step cr) log entries))"

section \<open>Devices\<close>

definition Service_Authenticate :: "crypto \<Rightarrow> string \<Rightarrow> TokenKind list \<Rightarrow> u64 \<Rightarrow> db \<Rightarrow> Principal uc_result" where
  "Service_Authenticate cr token kinds now d =
    (case TokenByHash d (hashToken cr token) of
       None \<Rightarrow> Inl [ErrUnauthorized]
     | Some tok \<Rightarrow>
         if tk_Expires tok \<le> now \<or> tk_Kind tok \<notin> set kinds then Inl [ErrUnauthorized]
         else (case AccountByID d (tk_Account tok) of
             None \<Rightarrow> Inl [ErrUnauthorized]
           | Some acct \<Rightarrow>
               if a_Frozen acct then Inl [ErrFrozen]
               else if tk_Kind tok = TokenAccess \<and>
                   (case DeviceByID d (tk_Device tok) of None \<Rightarrow> True | Some v \<Rightarrow> dv_Revoked v) then Inl [ErrUnauthorized]
               else Inr \<lparr>p_Account = tk_Account tok, p_Device = tk_Device tok, p_Kind = tk_Kind tok\<rparr>))"

definition activeDevice :: "db \<Rightarrow> ID \<Rightarrow> ID \<Rightarrow> Device uc_result" where
  "activeDevice d account device =
    (case AccountByID d account of
       None \<Rightarrow> Inl [ErrUnauthorized]
     | Some acct \<Rightarrow>
         if a_Frozen acct then Inl [ErrUnauthorized]
         else (case DeviceByID d device of
             None \<Rightarrow> Inl [ErrUnauthorized]
           | Some v \<Rightarrow> if dv_Revoked v \<or> dv_Account v \<noteq> account then Inl [ErrUnauthorized] else Inr v))"

text \<open>The expired challenges are swept at one instant, and the new one is dated by a second reading of the clock.\<close>

definition Service_DeviceChallenge ::
    "ID \<Rightarrow> ID \<Rightarrow> bytes option \<Rightarrow> u64 \<times> u64 \<Rightarrow> db \<Rightarrow> Service \<Rightarrow> Service \<times> bytes uc_result" where
  "Service_DeviceChallenge account device rnd clk d s =
    (case activeDevice d account device of
       Inl err \<Rightarrow> (s, Inl err)
     | Inr _ \<Rightarrow>
         (case randomBytes rnd challengeBytes of
            Inl err \<Rightarrow> (s, Inl err)
          | Inr nonce \<Rightarrow>
              (s\<lparr>sv_challenges := fmupd (hex_encode nonce)
                  \<lparr>ch_account = account, ch_device = device, ch_expires = snd clk + challengeTTL\<rparr>
                  (fmfilter (\<lambda>k. \<not> ch_expires (the (fmlookup (sv_challenges s) k)) \<le> fst clk) (sv_challenges s))\<rparr>,
               Inr nonce)))"

definition takeChallenge :: "ID \<Rightarrow> ID \<Rightarrow> bytes \<Rightarrow> u64 \<Rightarrow> Service \<Rightarrow> Service \<times> bool" where
  "takeChallenge account device nonce now s =
    (let key = hex_encode nonce in
     (s\<lparr>sv_challenges := fmdrop key (sv_challenges s)\<rparr>,
      case fmlookup (sv_challenges s) key of
        None \<Rightarrow> False
      | Some c \<Rightarrow> ch_account c = account \<and> ch_device c = device \<and> ch_expires c > now))"

definition Service_DeviceVerify ::
    "crypto \<Rightarrow> ID \<Rightarrow> ID \<Rightarrow> bytes \<Rightarrow> bytes \<Rightarrow> bytes option \<Rightarrow> u64 \<times> u64 \<Rightarrow> db \<Rightarrow> Service \<Rightarrow> db \<times> Service \<times> (string \<times> u64) uc_result" where
  "Service_DeviceVerify cr account device nonce sig rnd clk d s =
    (case takeChallenge account device nonce (fst clk) s of (s, taken) \<Rightarrow>
       if \<not> taken then (d, s, Inl [ErrUnauthorized])
       else (case DeviceAuthMessage account device nonce of
           Inl err \<Rightarrow> (d, s, Inl (map Cause err))
         | Inr msg \<Rightarrow>
             (case WithTx (\<lambda>d. bind_res (activeDevice d account device) (\<lambda>v.
                 if VerifySignature cr SigEd25519 (dv_SigningKey v) msg sig \<noteq> None then Inl [ErrUnauthorized]
                 else issueToken cr rnd (snd clk) d account device TokenAccess accessTokenTTL)) d of
                (d, r) \<Rightarrow> (d, s, r))))"

section \<open>Device logs\<close>

definition Service_DeviceLog :: "Principal \<Rightarrow> ID \<Rightarrow> u64 \<Rightarrow> db \<Rightarrow> DeviceEntry list uc_result" where
  "Service_DeviceLog p account since d =
    (if p_Account p \<noteq> account \<and> \<not> SharesVault d (p_Account p) account then Inl [ErrNotFound]
     else Inr (filter (\<lambda>e. d_Seq e > since) (DeviceEntries d account)))"

definition usecase_insertDevice :: "db \<Rightarrow> Device \<Rightarrow> db uc_result" where
  "usecase_insertDevice d v =
    bind_res (InsertDevice d v) (\<lambda>(d, inserted). if \<not> inserted then Inl [ErrForbidden] else Inr d)"

text \<open>A certification without a certificate, which would be a nil dereference, was refused by the log.\<close>

fun syncDevices :: "db \<Rightarrow> ID \<Rightarrow> DeviceEntry list \<Rightarrow> db uc_result" where
  "syncDevices d account [] = Inr d"
| "syncDevices d account (e # es) =
    (if d_Op e = OpAddDevice then
       (case d_Cert e of
          None \<Rightarrow> Inl [Cause (ErrForeign ''panic'')]
        | Some c \<Rightarrow> bind_res (usecase_insertDevice d
            \<lparr>dv_ID = c_Device c, dv_Account = account, dv_SigningKey = c_SigningKey c, dv_Revoked = False\<rparr>)
            (\<lambda>d. syncDevices d account es))
     else if d_Op e = OpRevokeDevice then
       (case RevokeDevice d account (d_Revoked e) of (d, touched) \<Rightarrow>
          if \<not> touched then Inl (malformed [])
          else syncDevices (DeleteTokensForDevice d (d_Revoked e)) account es)
     else syncDevices d account es)"

definition append_device_log :: "crypto \<Rightarrow> Principal \<Rightarrow> DeviceEntry list \<Rightarrow> db \<Rightarrow> (db \<times> u64) uc_result" where
  "append_device_log cr p entries d =
    (case AccountByID d (p_Account p) of
       None \<Rightarrow> Inl [ErrUnauthorized]
     | Some acct \<Rightarrow>
         bind_res (replayDeviceLog cr acct (DeviceEntries d (a_ID acct))) (\<lambda>log.
         bind_res (case replay (device_step cr) log entries of Inl err \<Rightarrow> Inl (malformed err) | Inr l \<Rightarrow> Inr l) (\<lambda>log.
           if PendingSuccession log then Inl (malformed [])
           else bind_res (AppendDeviceEntries d (a_ID acct) entries) (\<lambda>d.
             bind_res (syncDevices d (a_ID acct) entries) (\<lambda>d. Inr (d, ds_seq log))))))"

definition Service_AppendDeviceLog :: "crypto \<Rightarrow> Principal \<Rightarrow> DeviceEntry list \<Rightarrow> db \<Rightarrow> db \<times> unit uc_result \<times> notice" where
  "Service_AppendDeviceLog cr p entries d =
    (if entries = [] \<or> length entries > 16 then (d, Inl [ErrMalformed], None)
     else (case WithTx (append_device_log cr p entries) d of
         (d, Inl err) \<Rightarrow> (d, Inl err, None)
       | (d, Inr seq) \<Rightarrow> (d, Inr (), Some ([p_Account p], zero_event\<lparr>ev_Account := p_Account p, ev_DeviceLogSeq := seq\<rparr>))))"

record GenesisKeys =
  gk_Suite :: SuiteID
  gk_IdentityKey :: bytes
  gk_EncryptionKey :: bytes

definition Service_AccountKeys :: "Principal \<Rightarrow> ID \<Rightarrow> db \<Rightarrow> GenesisKeys uc_result" where
  "Service_AccountKeys p account d =
    (if p_Account p \<noteq> account \<and> \<not> SharesVault d (p_Account p) account then Inl [ErrNotFound]
     else (case AccountByID d account of
         None \<Rightarrow> Inl [ErrNotFound]
       | Some a \<Rightarrow> Inr \<lparr>gk_Suite = Suite1, gk_IdentityKey = a_IdentityKey a, gk_EncryptionKey = a_EncryptionKey a\<rparr>))"

record LookupResult =
  lr_Account :: ID
  lr_IdentityKey :: bytes
  lr_EncryptionKey :: bytes
  lr_DeviceLogSeq :: u64
  lr_GenesisEncryptionKey :: bytes
  lr_Entries :: "DeviceEntry list"

definition Service_Lookup :: "crypto \<Rightarrow> string \<Rightarrow> db \<Rightarrow> LookupResult uc_result" where
  "Service_Lookup cr username d =
    (case AccountByUsername d username of
       None \<Rightarrow> Inl [ErrNotFound]
     | Some acct \<Rightarrow>
         if a_Frozen acct then Inl [ErrNotFound]
         else (let entries = DeviceEntries d (a_ID acct) in
           bind_res (replayDeviceLog cr acct entries) (\<lambda>log.
             Inr \<lparr>lr_Account = a_ID acct, lr_IdentityKey = a_IdentityKey acct, lr_EncryptionKey = ds_encryptionKey log,
               lr_DeviceLogSeq = ds_seq log, lr_GenesisEncryptionKey = a_EncryptionKey acct, lr_Entries = entries\<rparr>)))"

section \<open>Logins\<close>

definition logins_put :: "(string, pendingLogin) go_map \<Rightarrow> string \<Rightarrow> pendingLogin \<Rightarrow> u64 \<Rightarrow> (string, pendingLogin) go_map" where
  "logins_put m i l now = fmupd i l (fmfilter (\<lambda>k. \<not> lg_expires (the (fmlookup m k)) \<le> now) m)"

definition logins_take ::
    "(string, pendingLogin) go_map \<Rightarrow> string \<Rightarrow> u64 \<Rightarrow> (string, pendingLogin) go_map \<times> pendingLogin option" where
  "logins_take m i now =
    (fmdrop i m, case fmlookup m i of None \<Rightarrow> None | Some l \<Rightarrow> if lg_expires l > now then Some l else None)"

definition fakeAccountID :: "(bytes \<Rightarrow> bytes \<Rightarrow> bytes) \<Rightarrow> bytes \<Rightarrow> string \<Rightarrow> ID" where
  "fakeAccountID hmac secret username =
    id_of_bytes (take 16 (hmac secret (str_bytes (''fake-account'' @ [CHR 0x00] @ username))))"

text \<open>The readings of the clock: the limiter's check, its charge, the expiry of the pending login, the sweep of the
  pending logins.\<close>

definition Service_LoginStart ::
    "ake \<Rightarrow> (bytes \<Rightarrow> bytes \<Rightarrow> bytes) \<Rightarrow> bytes \<Rightarrow> string \<Rightarrow> string \<Rightarrow> bytes \<Rightarrow> bytes option \<Rightarrow> u64 \<times> u64 \<times> u64 \<times> u64 \<Rightarrow>
      db \<Rightarrow> Service \<Rightarrow> Service \<times> (string \<times> ID \<times> bytes) uc_result" where
  "Service_LoginStart ak hmac secret username ip ke1 rnd clk d s =
    (case clk of (t_check, t_fail, t_expiry, t_put) \<Rightarrow>
       (let wait = limiter_check (sv_limits s) username ip t_check in
        if wait > 0 then (s, Inl [ErrRateLimited wait])
        else
          (let s = s\<lparr>sv_limits := limiter_fail (sv_limits s) username ip t_fail\<rparr>;
               base = \<lparr>lg_account = 0, lg_username = username, lg_ip = ip, lg_known = False, lg_mac = [],
                 lg_expires = t_expiry + pendingLoginTTL\<rparr>;
               answer =
                 (case AccountByUsername d username of
                    Some acct \<Rightarrow>
                      if \<not> a_Frozen acct then
                        map_sum id (\<lambda>(ke2, mac). (ke2, base\<lparr>lg_account := a_ID acct, lg_known := True, lg_mac := mac\<rparr>))
                          (ake_LoginStart ak ke1 (a_OPAQUERecord acct) (a_ID acct))
                      else (let fake = fakeAccountID hmac secret username in
                        map_sum id (\<lambda>ke2. (ke2, base\<lparr>lg_account := fake\<rparr>)) (ake_LoginStartUnknown ak ke1 fake))
                  | None \<Rightarrow> (let fake = fakeAccountID hmac secret username in
                      map_sum id (\<lambda>ke2. (ke2, base\<lparr>lg_account := fake\<rparr>)) (ake_LoginStartUnknown ak ke1 fake))) in
           case answer of
             Inl err \<Rightarrow> (s, Inl (malformed err))
           | Inr (ke2, login) \<Rightarrow>
               (case randomBytes rnd 16 of
                  Inl err \<Rightarrow> (s, Inl err)
                | Inr raw \<Rightarrow>
                    (s\<lparr>sv_logins := logins_put (sv_logins s) (hex_encode raw) login t_put\<rparr>,
                     Inr (hex_encode raw, lg_account login, ke2))))))"

record LoginResult =
  re_AccountToken :: string
  re_Bundle :: bytes
  re_IdentityKey :: bytes
  re_EncryptionKey :: bytes

definition Service_LoginFinish ::
    "crypto \<Rightarrow> ake \<Rightarrow> string \<Rightarrow> string \<Rightarrow> bytes \<Rightarrow> bytes option \<Rightarrow> u64 \<times> u64 \<Rightarrow> db \<Rightarrow> Service \<Rightarrow> db \<times> Service \<times> LoginResult uc_result" where
  "Service_LoginFinish cr ak loginID ip ke3 rnd clk d s =
    (case logins_take (sv_logins s) loginID (fst clk) of (m, taken) \<Rightarrow>
       let s = s\<lparr>sv_logins := m\<rparr> in
       case taken of
         None \<Rightarrow> (d, s, Inl [ErrUnauthorized])
       | Some login \<Rightarrow>
           if lg_ip login \<noteq> ip then (d, s, Inl [ErrUnauthorized])
           else if \<not> lg_known login \<or> ake_LoginFinish ak ke3 (lg_mac login) \<noteq> None then (d, s, Inl [ErrUnauthorized])
           else
             (let s = s\<lparr>sv_limits := limiter_succeed (sv_limits s) (lg_username login) ip\<rparr> in
              case WithTx (\<lambda>d. case AccountByID d (lg_account login) of
                  None \<Rightarrow> Inl [ErrUnauthorized]
                | Some acct \<Rightarrow>
                    if a_Frozen acct then Inl [ErrUnauthorized]
                    else bind_res (issueToken cr rnd (snd clk) d (a_ID acct) 0 TokenAccount accountTokenTTL) (\<lambda>(d, token, _).
                      Inr (d, \<lparr>re_AccountToken = token, re_Bundle = a_Bundle acct, re_IdentityKey = a_IdentityKey acct,
                        re_EncryptionKey = a_EncryptionKey acct\<rparr>))) d of
                (d, r) \<Rightarrow> (d, s, r)))"

section \<open>Accounts\<close>

definition inviteHash :: "crypto \<Rightarrow> (string \<Rightarrow> string) \<Rightarrow> string \<Rightarrow> bytes" where
  "inviteHash cr ToUpper code = be_bytes (sha256 cr (str_bytes (ToUpper (TrimSpace code))))"

definition username_char :: "char \<Rightarrow> bool" where
  "username_char c \<longleftrightarrow> c \<in> set ''abcdefghijklmnopqrstuvwxyz0123456789._-''"

definition validUsername :: "string \<Rightarrow> bool" where
  "validUsername name \<longleftrightarrow> 3 \<le> length name \<and> length name \<le> 64 \<and> list_all username_char name"

definition Service_CreateInvite ::
    "crypto \<Rightarrow> (string \<Rightarrow> string) \<Rightarrow> u64 \<Rightarrow> bytes option \<Rightarrow> u64 \<Rightarrow> db \<Rightarrow> db \<times> string uc_result" where
  "Service_CreateInvite cr ToUpper ttl rnd now d =
    (case randomBytes rnd inviteBytes of
       Inl err \<Rightarrow> (d, Inl err)
     | Inr raw \<Rightarrow>
         (let code = base32 raw in
          WithTx (\<lambda>d. bind_res (InsertInvite d (inviteHash cr ToUpper code) (now + ttl)) (\<lambda>d. Inr (d, code))) d))"

definition checkIdentifiersFree :: "db \<Rightarrow> string \<Rightarrow> ID \<Rightarrow> uc_err option" where
  "checkIdentifiersFree d username account =
    (if AccountByUsername d username \<noteq> None then Some [ErrForbidden]
     else if AccountByID d account \<noteq> None then Some [ErrForbidden]
     else None)"

definition Service_RegisterStart ::
    "crypto \<Rightarrow> ake \<Rightarrow> (string \<Rightarrow> string) \<Rightarrow> string \<Rightarrow> string \<Rightarrow> ID \<Rightarrow> bytes \<Rightarrow> u64 \<Rightarrow> db \<Rightarrow> bytes uc_result" where
  "Service_RegisterStart cr ak ToUpper invite username account request now d =
    (if \<not> validUsername username \<or> ID_IsZero account then Inl [ErrMalformed]
     else bind_res (InviteUsable d (inviteHash cr ToUpper invite) now) (\<lambda>ok.
       if \<not> ok then Inl [ErrForbidden]
       else (case checkIdentifiersFree d username account of
           Some err \<Rightarrow> Inl err
         | None \<Rightarrow>
             (case ake_RegistrationResponse ak request account of
                Inl err \<Rightarrow> Inl (malformed err)
              | Inr resp \<Rightarrow> Inr resp))))"

record Registration =
  rg_Invite :: string
  rg_Username :: string
  rg_Account :: ID
  rg_Record :: bytes
  rg_IdentityKey :: bytes
  rg_EncryptionKey :: bytes
  rg_Bundle :: bytes
  rg_Device :: DeviceEntry
  rg_Vault :: MemberOp

definition verifyGenesis :: "crypto \<Rightarrow> Account \<Rightarrow> DeviceEntry \<Rightarrow> MemberOp \<Rightarrow> (Device \<times> (ID, Role) go_map) result" where
  "verifyGenesis cr a entry create =
    (case d_Cert entry of
       None \<Rightarrow> Inl []
     | Some cert \<Rightarrow>
         if d_Op entry \<noteq> OpAddDevice \<or> d_Seq entry \<noteq> 1 then Inl []
         else bind_res (NewDeviceLogState cr (a_ID a) Suite1 (a_IdentityKey a) (a_EncryptionKey a)) (\<lambda>log.
           bind_res (device_step cr log entry) (\<lambda>log.
             let device = \<lparr>dv_ID = c_Device cert, dv_Account = a_ID a, dv_SigningKey = c_SigningKey cert, dv_Revoked = False\<rparr> in
             if o_Kind create \<noteq> MemberCreate \<or> o_Author create \<noteq> a_ID a \<or> o_AuthorDevice create \<noteq> dv_ID device then Inl []
             else bind_res (NewMembershipState cr (o_Vault create)) (\<lambda>m.
               bind_res (member_step cr (\<lambda>account dev alg msg sig.
                   case DeviceKey log dev of
                     Inl _ \<Rightarrow> Some [ErrBadSignature]
                   | Inr key \<Rightarrow> if account \<noteq> a_ID a then Some [ErrBadSignature] else VerifySignature cr alg key msg sig) m create)
                 (\<lambda>_. Inr (device, fmap_of_list [(a_ID a, RoleOwner)]))))))"

definition storeRegistration :: "db \<Rightarrow> Account \<Rightarrow> Device \<Rightarrow> Registration \<Rightarrow> (ID, Role) go_map \<Rightarrow> db uc_result" where
  "storeRegistration d a v r members =
    bind_res (InsertAccount d a) (\<lambda>d.
    bind_res (AppendDeviceEntries d (a_ID a) [rg_Device r]) (\<lambda>d.
    bind_res (usecase_insertDevice d v) (\<lambda>d.
    bind_res (InsertVault d \<lparr>va_ID = o_Vault (rg_Vault r), va_Owner = a_ID a, va_Seq = 0, va_MembershipSeq = 1, va_Bytes = 0,
        va_Personal = True, va_Deleted = False, va_PrunedSeq = 0\<rparr>) (\<lambda>d.
    bind_res (AppendMemberOps d (o_Vault (rg_Vault r)) [rg_Vault r]) (\<lambda>d.
      ReplaceMembers d (o_Vault (rg_Vault r)) members)))))"

definition register_tx ::
    "crypto \<Rightarrow> (string \<Rightarrow> string) \<Rightarrow> Registration \<Rightarrow> Account \<Rightarrow> Device \<Rightarrow> (ID, Role) go_map \<Rightarrow> u64 \<Rightarrow> db \<Rightarrow> (db \<times> unit) uc_result" where
  "register_tx cr ToUpper r account device members now d =
    (case checkIdentifiersFree d (rg_Username r) (rg_Account r) of
       Some err \<Rightarrow> Inl err
     | None \<Rightarrow>
         if VaultByID d (o_Vault (rg_Vault r)) \<noteq> None then Inl [ErrForbidden]
         else bind_res (ConsumeInvite d (inviteHash cr ToUpper (rg_Invite r)) now (rg_Account r)) (\<lambda>(d, consumed).
           if \<not> consumed then Inl [ErrForbidden]
           else bind_res (storeRegistration d account device r members) (\<lambda>d. Inr (d, ()))))"

definition Service_RegisterFinish ::
    "crypto \<Rightarrow> ake \<Rightarrow> (string \<Rightarrow> string) \<Rightarrow> Registration \<Rightarrow> u64 \<times> u64 \<Rightarrow> db \<Rightarrow> db \<times> unit uc_result" where
  "Service_RegisterFinish cr ak ToUpper r clk d =
    (if \<not> validUsername (rg_Username r) \<or> rg_Bundle r = [] \<or> length (rg_Bundle r) > maxBundleSize then (d, Inl [ErrMalformed])
     else (case ake_ValidateRecord ak (rg_Record r) of
         Some err \<Rightarrow> (d, Inl (malformed err))
       | None \<Rightarrow>
           (let account = \<lparr>a_ID = rg_Account r, a_Username = rg_Username r, a_OPAQUERecord = rg_Record r, a_Bundle = rg_Bundle r,
                  a_IdentityKey = rg_IdentityKey r, a_EncryptionKey = rg_EncryptionKey r, a_Created = fst clk, a_Frozen = False\<rparr> in
            case verifyGenesis cr account (rg_Device r) (rg_Vault r) of
              Inl err \<Rightarrow> (d, Inl (malformed err))
            | Inr (device, members) \<Rightarrow> WithTx (register_tx cr ToUpper r account device members (snd clk)) d)))"

definition Service_SetFrozen :: "string \<Rightarrow> bool \<Rightarrow> db \<Rightarrow> db \<times> unit uc_result" where
  "Service_SetFrozen username frozen d =
    WithTx (\<lambda>d. case SetFrozen d username frozen of (d, touched) \<Rightarrow> if \<not> touched then Inl [ErrNotFound] else Inr (d, ())) d"

fun delete_sole :: "db \<Rightarrow> Vault list \<Rightarrow> db" where
  "delete_sole d [] = d"
| "delete_sole d (v # vs) = delete_sole (if MemberCount d (va_ID v) \<le> 1 then DeleteVault d (va_ID v) else d) vs"

definition deleteSoleVaults :: "db \<Rightarrow> ID \<Rightarrow> db" where
  "deleteSoleVaults d account = delete_sole d (VaultsOf d account)"

definition Service_DeleteAccount :: "string \<Rightarrow> db \<Rightarrow> db \<times> unit uc_result" where
  "Service_DeleteAccount username d =
    WithTx (\<lambda>d. case AccountByUsername d username of
        None \<Rightarrow> Inl [ErrNotFound]
      | Some a \<Rightarrow>
          (case DeleteAccount (deleteSoleVaults d (a_ID a)) username of (d, deleted) \<Rightarrow>
            if \<not> deleted then Inl [ErrNotFound] else Inr (d, ()))) d"

definition Service_ListAccounts :: "db \<Rightarrow> Account list" where
  "Service_ListAccounts d = ListAccounts d"

section \<open>Passwords\<close>

definition activeAccount :: "db \<Rightarrow> ID \<Rightarrow> Account uc_result" where
  "activeAccount d i =
    (case AccountByID d i of
       None \<Rightarrow> Inl [ErrUnauthorized]
     | Some acct \<Rightarrow> if a_Frozen acct then Inl [ErrFrozen] else Inr acct)"

definition Service_PasswordStart :: "ake \<Rightarrow> Principal \<Rightarrow> bytes \<Rightarrow> db \<Rightarrow> bytes uc_result" where
  "Service_PasswordStart ak p request d =
    (if request = [] \<or> length request > maxPasswordRequest then Inl [ErrMalformed]
     else bind_res (activeAccount d (p_Account p)) (\<lambda>_. lift_res (ake_RegistrationResponse ak request (p_Account p))))"

definition Service_PasswordFinish ::
    "crypto \<Rightarrow> ake \<Rightarrow> Principal \<Rightarrow> bytes \<Rightarrow> bytes \<Rightarrow> bytes \<Rightarrow> db \<Rightarrow> db \<times> unit uc_result" where
  "Service_PasswordFinish cr ak p rec bundle sig d =
    (if bundle = [] \<or> length bundle > maxBundleSize then (d, Inl [ErrMalformed])
     else (case ake_ValidateRecord ak rec of
         Some err \<Rightarrow> (d, Inl (malformed err))
       | None \<Rightarrow> WithTx (\<lambda>d.
           bind_res (activeAccount d (p_Account p)) (\<lambda>acct.
           bind_res (replayDeviceLog cr acct (DeviceEntries d (a_ID acct))) (\<lambda>log.
           bind_res (lift_res (RekeyMessage (a_ID acct) rec bundle)) (\<lambda>msg.
             if VerifySignature cr SigEd25519 (ds_identityKey log) msg sig \<noteq> None then Inl [ErrUnauthorized]
             else bind_res (UpdateAccountCredentials d (a_ID acct) rec bundle) (\<lambda>d.
               Inr (DeleteTokensForAccountExcept d (a_ID acct) (p_Device p), ())))))) d))"

section \<open>Operator\<close>

definition Service_ListInvites :: "db \<Rightarrow> InviteInfo list" where
  "Service_ListInvites d = map (\<lambda>v. v\<lparr>in_ID := take (min inviteIDLength (length (in_ID v))) (in_ID v)\<rparr>) (ListInvites d)"

definition inviteID :: "string \<Rightarrow> bool" where
  "inviteID i \<longleftrightarrow> length i = 12 \<and> list_all (\<lambda>c. c \<in> set ''0123456789abcdef'') i"

definition Service_RevokeInvite :: "string \<Rightarrow> db \<Rightarrow> db \<times> unit uc_result" where
  "Service_RevokeInvite i d =
    (if \<not> inviteID i then (d, Inl [ErrInviteNotFound])
     else WithTx (\<lambda>d. case DeleteUnusedInvite d i of (d, n) \<Rightarrow> if n \<noteq> 1 then Inl [ErrInviteNotFound] else Inr (d, ())) d)"

definition Service_Stats :: "db \<Rightarrow> ServerStats" where
  "Service_Stats d = Stats d"

end
