(* ===== verification/Server_Rows.thy ===== *)
theory Server_Rows
  imports Server_Accounts
begin

text \<open>
  The rows of one vault. \<open>ops_of\<close>, \<open>commits_of\<close>, \<open>vers_of\<close> and \<open>members_of\<close> are the parts of the tables a vault owns, and
  every query on a vault is a function of them; so what a use case does to one vault is a statement about four lists,
  and the other vaults are untouched because their lists are. The lemmas say what each statement of a use
  case does to these lists: appending operations and versions, purging, pruning and stripping.
\<close>

section \<open>Views\<close>

definition ops_of :: "db \<Rightarrow> ID \<Rightarrow> op_row list" where
  "ops_of d v = filter (\<lambda>r. or_Vault r = v) (t_member_ops d)"

definition commits_of :: "db \<Rightarrow> ID \<Rightarrow> commit_row list" where
  "commits_of d v = filter (\<lambda>r. cr_Vault r = v) (t_commits d)"

definition vers_of :: "db \<Rightarrow> ID \<Rightarrow> version_row list" where
  "vers_of d v = filter (\<lambda>r. rv_Vault r = v) (t_versions d)"

definition members_of :: "db \<Rightarrow> ID \<Rightarrow> member_row list" where
  "members_of d v = filter (\<lambda>r. mr_Vault r = v) (t_members d)"

lemmas view_defs = ops_of_def commits_of_def vers_of_def members_of_def

definition row_leaf :: "version_row \<Rightarrow> Leaf" where
  "row_leaf r = \<lparr>l_Record = rv_Record r, l_Version = rv_Version r, l_Digest = rv_Digest r, l_Deleted = rv_Deleted r\<rparr>"

text \<open>The newest row of its record among rows of one vault.\<close>

definition newest :: "version_row list \<Rightarrow> version_row \<Rightarrow> bool" where
  "newest rows r \<longleftrightarrow> r \<in> set rows \<and> (\<forall>q \<in> set rows. rv_Record q = rv_Record r \<longrightarrow> rv_Version q \<le> rv_Version r)"

lemma currentVersion_newest:
  "r \<in> set (t_versions d) \<Longrightarrow> currentVersion d r \<longleftrightarrow> newest (vers_of d (rv_Vault r)) r"
  by (auto simp: currentVersion_def newest_def vers_of_def list_all_iff)

lemma vers_of_current:
  "filter (\<lambda>r. rv_Vault r = v \<and> currentVersion d r) (t_versions d) = filter (newest (vers_of d v)) (vers_of d v)"
  by (auto simp: vers_of_def currentVersion_newest intro!: filter_cong)

lemma CurrentLeaves_view: "CurrentLeaves d v = map row_leaf (filter (newest (vers_of d v)) (vers_of d v))"
proof -
  have "CurrentLeaves d v = map row_leaf (filter (\<lambda>r. rv_Vault r = v \<and> currentVersion d r) (t_versions d))"
    by (simp add: CurrentLeaves_def row_leaf_def)
  then show ?thesis by (simp add: vers_of_current)
qed

lemma MemberRole_view:
  "MemberRole d v a = (case find (\<lambda>r. mr_Account r = a) (members_of d v) of None \<Rightarrow> RoleNone | Some r \<Rightarrow> mr_Role r)"
proof -
  have "find (\<lambda>r. mr_Vault r = v \<and> mr_Account r = a) rows = find (\<lambda>r. mr_Account r = a) (filter (\<lambda>r. mr_Vault r = v) rows)"
    for rows by (induction rows) auto
  then show ?thesis unfolding MemberRole_def members_of_def by (rule arg_cong)
qed

section \<open>Well-formed rows\<close>

text \<open>The operations of a vault are numbered from one, in the order they were stored.\<close>

definition ops_ok :: "op_row list \<Rightarrow> bool" where
  "ops_ok rows \<longleftrightarrow> map (unat \<circ> or_Seq) rows = [1..<Suc (length rows)] \<and> (\<forall>r \<in> set rows. o_Seq (or_Op r) = or_Seq r)"

definition commits_ok :: "commit_row list \<Rightarrow> bool" where
  "commits_ok rows \<longleftrightarrow> map (unat \<circ> cr_Seq) rows = [1..<Suc (length rows)]"

text \<open>No two rows have one key, and every row has the number of a commit.\<close>

definition vers_ok :: "version_row list \<Rightarrow> bool" where
  "vers_ok rows \<longleftrightarrow> distinct (map (\<lambda>r. (rv_Record r, rv_Version r)) rows) \<and> (\<forall>r \<in> set rows. rv_Seq r \<noteq> 0)"

text \<open>The columns of a row are those of the leaf of its envelope.\<close>

definition faithful_row :: "crypto \<Rightarrow> ID \<Rightarrow> version_row \<Rightarrow> bool" where
  "faithful_row cr v r \<longleftrightarrow> e_Vault (rv_Envelope r) = v \<and> LeafOf cr (rv_Envelope r) = Inr (row_leaf r)"

text \<open>The leaves of a verified state are those of the newest rows.\<close>

definition holds :: "version_row list \<Rightarrow> (ID, Leaf) go_map \<Rightarrow> bool" where
  "holds rows leaves \<longleftrightarrow> (\<forall>r l. fmlookup leaves r = Some l \<longleftrightarrow> (\<exists>q. newest rows q \<and> rv_Record q = r \<and> row_leaf q = l))"

lemma MemberOps_view: "ops_ok (ops_of d v) \<Longrightarrow> MemberOps d v = map or_Op (ops_of d v)"
  unfolding MemberOps_def ops_ok_def ops_of_def [symmetric] by (simp add: sort_key_numbered del: upt_Suc)

lemma LatestHead_view:
  "commits_ok (commits_of d v) \<Longrightarrow>
    LatestHead d v = (if commits_of d v = [] then None else Some (cr_Head (last (commits_of d v))))"
  unfolding LatestHead_def commits_ok_def commits_of_def [symmetric]
  by (simp add: sort_key_numbered del: upt_Suc)
     (cases "commits_of d v" rule: rev_cases; simp)

lemma newest_unique:
  assumes "vers_ok rows" and "newest rows q" and "newest rows r" and "rv_Record q = rv_Record r"
  shows "q = r"
proof -
  have "rv_Version q = rv_Version r" using assms by (auto simp: newest_def intro: order.antisym)
  with assms show ?thesis by (auto simp: vers_ok_def newest_def distinct_map inj_on_def)
qed

lemma newest_exists:
  assumes "r \<in> set rows"
  shows "\<exists>q. newest rows q \<and> rv_Record q = rv_Record r \<and> rv_Version r \<le> rv_Version q"
proof -
  let ?S = "{q \<in> set rows. rv_Record q = rv_Record r}"
  have "finite (rv_Version ` ?S)" "rv_Version ` ?S \<noteq> {}" using assms by auto
  from Max_in [OF this] obtain q where q: "q \<in> ?S" "rv_Version q = Max (rv_Version ` ?S)" by auto
  have "rv_Version p \<le> rv_Version q" if "p \<in> ?S" for p
    unfolding q(2) using that by (intro Max_ge) auto
  with q(1) assms show ?thesis by (auto simp: newest_def)
qed

lemma holds_mset:
  assumes "vers_ok rows" and "holds rows (vs_leaves s)"
  shows "keyed s" and "mset (map row_leaf (filter (newest rows) rows)) = mset (VaultState_Leaves s)"
proof -
  let ?rs = "filter (newest rows) rows"
  show keyed: "keyed s" using assms(2) by (auto simp: keyed_def holds_def row_leaf_def)
  have "distinct rows" using assms(1) by (simp add: vers_ok_def distinct_map)
  moreover have "inj_on row_leaf (set ?rs)"
    using newest_unique [OF assms(1)] by (intro inj_onI) (auto simp: row_leaf_def)
  ultimately have "distinct (map row_leaf ?rs)" by (simp add: distinct_map)
  moreover have "distinct (VaultState_Leaves s)" using Leaves_distinct [OF keyed] by (simp add: distinct_map)
  moreover have "set (map row_leaf ?rs) = set (VaultState_Leaves s)"
    using assms(2) by (auto simp: Leaves_set holds_def newest_def)
  ultimately show "mset (map row_leaf ?rs) = mset (VaultState_Leaves s)"
    by (intro iffD1 [OF set_eq_iff_mset_eq_distinct])
qed

section \<open>Versions: inserting, purging, pruning\<close>

lemma holds_version:
  assumes "holds rows leaves" and "q \<in> set rows"
  shows "rv_Version q \<le> leaf_version leaves (rv_Record q)"
proof -
  obtain p where "newest rows p" "rv_Record p = rv_Record q" "rv_Version q \<le> rv_Version p"
    using newest_exists [OF assms(2)] by blast
  with assms(1) have "fmlookup leaves (rv_Record q) = Some (row_leaf p)" unfolding holds_def by blast
  with \<open>rv_Version q \<le> rv_Version p\<close> show ?thesis by (simp add: leaf_version_def row_leaf_def)
qed

text \<open>The next version of a record becomes its newest row.\<close>

lemma holds_insert:
  assumes "holds rows leaves" and "vers_ok rows" and "rv_Seq n \<noteq> 0"
    and "unat (rv_Version n) = unat (leaf_version leaves (rv_Record n)) + 1"
  shows "holds (rows @ [n]) (fmupd (rv_Record n) (row_leaf n) leaves)" and "vers_ok (rows @ [n])"
proof -
  have lt: "rv_Version q < rv_Version n" if "q \<in> set rows" "rv_Record q = rv_Record n" for q
    using holds_version [OF assms(1) that(1)] assms(4) that(2) by (simp add: word_less_nat_alt word_le_nat_alt)
  then have "(rv_Record n, rv_Version n) \<notin> (\<lambda>r. (rv_Record r, rv_Version r)) ` set rows" by force
  then show "vers_ok (rows @ [n])" using assms(2,3) by (auto simp: vers_ok_def)
  have new: "newest (rows @ [n]) q \<longleftrightarrow> (if rv_Record q = rv_Record n then q = n else newest rows q)" for q
    using lt by (auto simp: newest_def dest: leD less_imp_le)
  show "holds (rows @ [n]) (fmupd (rv_Record n) (row_leaf n) leaves)"
    using assms(1) unfolding holds_def new by (auto; metis)
qed

lemma holds_purge:
  assumes "holds rows leaves" and "\<And>r. fmlookup leaves' r = (if r \<in> P then None else fmlookup leaves r)"
  shows "holds (filter (\<lambda>q. rv_Record q \<notin> P) rows) leaves'"
proof -
  have "newest (filter (\<lambda>q. rv_Record q \<notin> P) rows) q \<longleftrightarrow> rv_Record q \<notin> P \<and> newest rows q" for q
    by (auto simp: newest_def)
  with assms show ?thesis by (auto simp: holds_def)
qed

text \<open>Deleting rows that are not the newest of their record leaves the newest as they are.\<close>

lemma newest_prune:
  assumes "\<And>q. q \<in> set rows \<Longrightarrow> P q \<Longrightarrow> \<not> newest rows q"
  shows "newest (filter (\<lambda>q. \<not> P q) rows) q \<longleftrightarrow> newest rows q"
proof
  assume q: "newest (filter (\<lambda>q. \<not> P q) rows) q"
  then have "q \<in> set rows" by (simp add: newest_def)
  then obtain p where p: "newest rows p" "rv_Record p = rv_Record q" "rv_Version q \<le> rv_Version p"
    using newest_exists by blast
  then have "p \<in> set rows" "\<not> P p" using assms [of p] by (auto simp: newest_def)
  then have "p \<in> set (filter (\<lambda>q. \<not> P q) rows)" by simp
  then have "rv_Version p = rv_Version q" using q p by (auto simp: newest_def intro: order.antisym)
  with p q show "newest rows q" by (auto simp: newest_def)
next
  assume "newest rows q"
  moreover from this have "q \<in> set rows" by (simp add: newest_def)
  ultimately show "newest (filter (\<lambda>q. \<not> P q) rows) q" using assms [of q] by (auto simp: newest_def)
qed

lemma holds_prune:
  "(\<And>q. q \<in> set rows \<Longrightarrow> P q \<Longrightarrow> \<not> newest rows q) \<Longrightarrow> holds (filter (\<lambda>q. \<not> P q) rows) leaves \<longleftrightarrow> holds rows leaves"
  unfolding holds_def by (subst newest_prune) auto

lemma vers_ok_filter: "vers_ok rows \<Longrightarrow> vers_ok (filter P rows)"
  by (auto simp: vers_ok_def distinct_map_filter)

section \<open>Statements on versions\<close>

lemma sql_ints_Inr [result_simps]: "sql_ints xs r = Inr y \<longleftrightarrow> (\<forall>x \<in> set xs. x < 2 ^ 63) \<and> r = Inr y"
  by (auto simp: sql_ints_def list_all_iff)

lemma insert_row_Inr [result_simps]: "insert_row b r rows = Inr y \<longleftrightarrow> \<not> b \<and> y = rows @ [r]"
  by (auto simp: insert_row_def)

lemma lift_res_Inr [result_simps]: "lift_res r = Inr x \<longleftrightarrow> r = Inr x"
  by (auto simp: lift_res_def split: sum.splits)

lemma refuse_res_Inr [result_simps]: "refuse_res r = Inr x \<longleftrightarrow> r = Inr x"
  by (auto simp: refuse_res_def split: sum.splits)

lemma vers_of_append: "vers_of (d\<lparr>t_versions := t_versions d @ rows\<rparr>) v = vers_of d v @ filter (\<lambda>r. rv_Vault r = v) rows"
  by (simp add: vers_of_def)

lemma insert_versions_holds:
  assumes "insert_versions cr d v seq es = Inr d'" and "records_loop cr v author key epoch es seen leaves = Inr leaves'"
    and "holds (vers_of d v) leaves" and "vers_ok (vers_of d v)" and "seq \<noteq> 0"
  shows "\<exists>rows. d' = d\<lparr>t_versions := t_versions d @ rows\<rparr> \<and> (\<forall>r \<in> set rows. rv_Vault r = v \<and> faithful_row cr v r) \<and>
    holds (vers_of d' v) leaves' \<and> vers_ok (vers_of d' v)"
  using assms(1-4)
proof (induction es arbitrary: d seen leaves)
  case Nil
  then show ?case by (intro exI [of _ "[]"]) auto
next
  case (Cons e es)
  from Cons.prems(2) obtain l where l: "LeafOf cr e = Inr l" "Envelope_Verify cr e key = None"
    "e_Version e = leaf_version leaves (e_Record e) + 1"
    "records_loop cr v author key epoch es (finsert (e_Record e) seen) (fmupd (e_Record e) l leaves) = Inr leaves'" "e_Vault e = v"
    by (simp split: if_split_asm option.split_asm sum.split_asm)
  obtain g where g: "Envelope_Digest cr e = Inr g" using LeafOf_Inr [OF l(1)] by auto
  define n where "n = \<lparr>rv_Vault = v, rv_Record = e_Record e, rv_Version = e_Version e, rv_Seq = seq, rv_Epoch = e_Epoch e,
      rv_Size = envelope_size e, rv_Envelope = e, rv_Digest = g, rv_Deleted = e_Deleted e\<rparr>"
  let ?d = "d\<lparr>t_versions := t_versions d @ [n]\<rparr>"
  have rest: "insert_versions cr ?d v seq es = Inr d'"
    using Cons.prems(1) g by (auto simp: result_simps n_def)
  have leaf: "row_leaf n = l" using LeafOf_Inr [OF l(1)] g by (cases l) (simp add: n_def row_leaf_def)
  then have faithful: "faithful_row cr v n" using l(1,5) by (simp add: faithful_row_def n_def)
  note leaf
  moreover have "unat (rv_Version n) = unat (leaf_version leaves (rv_Record n)) + 1"
  proof -
    have "e_Version e \<noteq> 0" using l(2) unfolding Envelope_Verify_None using Envelope_Validate_version by blast
    with l(3) show ?thesis
      using unatSuc [of "leaf_version leaves (e_Record e)"] by (simp add: n_def add.commute)
  qed
  moreover have "vers_of ?d v = vers_of d v @ [n]" by (simp add: vers_of_append n_def)
  ultimately have "holds (vers_of ?d v) (fmupd (e_Record e) l leaves)" "vers_ok (vers_of ?d v)"
    using holds_insert [OF Cons.prems(3,4), of n] assms(5) by (simp_all add: n_def)
  from Cons.IH [OF rest l(4) this] obtain rows where
    "d' = ?d\<lparr>t_versions := t_versions ?d @ rows\<rparr>" "\<forall>r \<in> set rows. rv_Vault r = v \<and> faithful_row cr v r"
    "holds (vers_of d' v) leaves'" "vers_ok (vers_of d' v)" by blast
  then show ?case using faithful by (intro exI [of _ "n # rows"]) (auto simp: n_def)
qed

lemma fold_max_zero: "fold max xs (a :: u64) = 0 \<longleftrightarrow> a = 0 \<and> (\<forall>x \<in> set xs. x = 0)"
  by (induction xs arbitrary: a) (auto simp: max_def split: if_splits)

lemma deleteVersions_view:
  assumes "\<And>r. r \<in> set (t_versions d) \<Longrightarrow> P r \<Longrightarrow> rv_Seq r \<noteq> 0"
  shows "fst (deleteVersions P d) = d\<lparr>t_versions := filter (\<lambda>r. \<not> P r) (t_versions d)\<rparr>"
proof (cases "fold max (map rv_Seq (filter P (t_versions d))) 0 = 0")
  case True
  then have "filter P (t_versions d) = []" using assms by (auto simp: fold_max_zero filter_empty_conv)
  then have "filter (\<lambda>r. \<not> P r) (t_versions d) = t_versions d" by (auto simp: filter_id_conv filter_empty_conv)
  then show ?thesis using True by (simp add: deleteVersions_def)
qed (simp add: deleteVersions_def Let_def)

lemma seq_nonzero: "vers_ok (vers_of d v) \<Longrightarrow> r \<in> set (t_versions d) \<Longrightarrow> rv_Vault r = v \<Longrightarrow> rv_Seq r \<noteq> 0"
  by (auto simp: vers_ok_def vers_of_def)

lemma delete_records_view:
  "vers_ok (vers_of d v) \<Longrightarrow> fst (delete_records d v rs k) =
    d\<lparr>t_versions := filter (\<lambda>r. \<not> (rv_Vault r = v \<and> rv_Record r \<in> set rs)) (t_versions d)\<rparr>"
proof (induction rs arbitrary: d k)
  case (Cons x rs)
  let ?d = "d\<lparr>t_versions := filter (\<lambda>r. \<not> (rv_Vault r = v \<and> rv_Record r = x)) (t_versions d)\<rparr>"
  have step: "fst (deleteVersions (\<lambda>r. rv_Vault r = v \<and> rv_Record r = x) d) = ?d"
    using deleteVersions_view [of d "\<lambda>r. rv_Vault r = v \<and> rv_Record r = x"] seq_nonzero [OF Cons.prems] by auto
  have "vers_of ?d v = filter (\<lambda>r. rv_Record r \<noteq> x) (vers_of d v)" by (auto simp: vers_of_def intro: filter_cong)
  then have "vers_ok (vers_of ?d v)" using Cons.prems by (simp add: vers_ok_filter)
  from Cons.IH [OF this] show ?case
    using step by (auto simp: split_beta intro!: arg_cong [of _ _ "\<lambda>x. t_versions_update (\<lambda>_. x) d"] filter_cong)
qed simp

end
