(* ===== verification/Server_Frame.thy ===== *)
theory Server_Frame
  imports Server_Rows
begin

text \<open>
  What a request may do to a vault without disturbing it. \<open>kept d d' i\<close> relates two databases that show the same
  vault \<open>i\<close>: the same members and commits, the same newest versions, and the same operations but for wraps that were
  stripped. The relation is a preorder; every write to another table or another vault, and every kind of pruning, is an
  instance of it. The invariant of the store is kept along it.
\<close>

section \<open>Replaying under a wider check and from stripped operations\<close>

definition check_le :: "SignatureCheck \<Rightarrow> SignatureCheck \<Rightarrow> bool" where
  "check_le c c' \<longleftrightarrow> (\<forall>account device alg msg sig. c account device alg msg sig = None \<longrightarrow> c' account device alg msg sig = None)"

definition kept_op :: "MemberOp \<Rightarrow> MemberOp \<Rightarrow> bool" where
  "kept_op p q \<longleftrightarrow> q = p \<or> q = op_core p"

lemma op_core_idem [simp]: "op_core (op_core op) = op_core op"
  by (simp add: op_core_def Strip_def comp_def)

lemma kept_op_trans: "kept_op p q \<Longrightarrow> kept_op q r \<Longrightarrow> kept_op p r"
  by (auto simp: kept_op_def)

lemma member_step_check:
  "(\<And>alg msg sig. c (o_Author op) (o_AuthorDevice op) alg msg sig = None \<Longrightarrow> c' (o_Author op) (o_AuthorDevice op) alg msg sig = None) \<Longrightarrow>
    member_step cr c s op = Inr t \<Longrightarrow> member_step cr c' s op = Inr t"
  unfolding member_step_Inr by (elim conjE, intro conjI) simp_all

lemma member_step_mono:
  "check_le c c' \<Longrightarrow> member_step cr c s op = Inr t \<Longrightarrow> member_step cr c' s op = Inr t"
  unfolding check_le_def by (rule member_step_check [of c op c']) simp_all

lemma member_step_kept:
  "check_le c c' \<Longrightarrow> kept_op p q \<Longrightarrow> member_step cr c s p = Inr t \<Longrightarrow> member_step cr c' s q = Inr t"
  using member_step_mono member_step_core by (auto simp: kept_op_def)

lemma replay_kept:
  assumes "check_le c c'" and "list_all2 kept_op ps qs" and "replay (member_step cr c) s ps = Inr t"
  shows "replay (member_step cr c') s qs = Inr t"
  using assms(2,3)
proof (induction ps qs arbitrary: s rule: list_all2_induct)
  case (Cons p ps q qs)
  then obtain u where "member_step cr c s p = Inr u" "replay (member_step cr c) u ps = Inr t"
    by (auto split: sum.splits)
  with member_step_kept [OF assms(1) Cons(1)] Cons.IH show ?case by simp
qed simp

section \<open>Devices\<close>

text \<open>Every device is still there with its account and its key.\<close>

definition devs_le :: "db \<Rightarrow> db \<Rightarrow> bool" where
  "devs_le d d' \<longleftrightarrow> (\<forall>i v. DeviceByID d i = Some v \<longrightarrow>
    (\<exists>v'. DeviceByID d' i = Some v' \<and> dv_Account v' = dv_Account v \<and> dv_SigningKey v' = dv_SigningKey v))"

lemma devs_le_same: "t_devices d' = t_devices d \<Longrightarrow> devs_le d d'"
  by (simp add: devs_le_def DeviceByID_def)

lemma devs_le_trans:
  assumes "devs_le d d'" and "devs_le d' d''"
  shows "devs_le d d''"
  unfolding devs_le_def
proof (intro allI impI)
  fix i v assume "DeviceByID d i = Some v"
  with assms(1) obtain v' where "DeviceByID d' i = Some v'" "dv_Account v' = dv_Account v" "dv_SigningKey v' = dv_SigningKey v"
    unfolding devs_le_def by blast
  with assms(2) show "\<exists>v''. DeviceByID d'' i = Some v'' \<and> dv_Account v'' = dv_Account v \<and> dv_SigningKey v'' = dv_SigningKey v"
    unfolding devs_le_def by metis
qed

lemma check_le_devs: "devs_le d d' \<Longrightarrow> check_le (signatureCheck cr d) (signatureCheck cr d')"
  unfolding check_le_def
proof (intro allI impI)
  fix account device alg msg sig
  assume le: "devs_le d d'" and ok: "signatureCheck cr d account device alg msg sig = None"
  then obtain v where v: "DeviceByID d device = Some v" "dv_Account v = account" "VerifySignature cr alg (dv_SigningKey v) msg sig = None"
    by (auto simp: signatureCheck_def split: option.splits if_splits)
  with le obtain v' where "DeviceByID d' device = Some v'" "dv_Account v' = account" "dv_SigningKey v' = dv_SigningKey v"
    unfolding devs_le_def by metis
  with v show "signatureCheck cr d' account device alg msg sig = None" by (simp add: signatureCheck_def)
qed

section \<open>The relation\<close>

definition kept_row :: "op_row \<Rightarrow> op_row \<Rightarrow> bool" where
  "kept_row r r' \<longleftrightarrow> or_Seq r' = or_Seq r \<and> kept_op (or_Op r) (or_Op r')"

definition current :: "version_row list \<Rightarrow> version_row list" where
  "current rows = filter (newest rows) rows"

definition kept :: "db \<Rightarrow> db \<Rightarrow> ID \<Rightarrow> bool" where
  "kept d d' i \<longleftrightarrow> members_of d' i = members_of d i \<and> commits_of d' i = commits_of d i \<and>
    list_all2 kept_row (ops_of d i) (ops_of d' i) \<and>
    (vers_ok (vers_of d i) \<longrightarrow> vers_ok (vers_of d' i) \<and> set (vers_of d' i) \<subseteq> set (vers_of d i) \<and>
      current (vers_of d' i) = current (vers_of d i))"

lemma kept_row_refl: "kept_row r r"
  by (simp add: kept_row_def kept_op_def)

lemma kept_row_trans: "kept_row p q \<Longrightarrow> kept_row q r \<Longrightarrow> kept_row p r"
  by (auto simp: kept_row_def dest: kept_op_trans)

lemma kept_same:
  "ops_of d' i = ops_of d i \<Longrightarrow> members_of d' i = members_of d i \<Longrightarrow> commits_of d' i = commits_of d i \<Longrightarrow>
    vers_of d' i = vers_of d i \<Longrightarrow> kept d d' i"
  by (simp add: kept_def list.rel_refl kept_row_refl)

lemma vault_kept_refl [simp]: "kept d d i"
  by (simp add: kept_same)

lemma vault_kept_trans: "kept d d' i \<Longrightarrow> kept d' d'' i \<Longrightarrow> kept d d'' i"
proof -
  assume 1: "kept d d' i" and 2: "kept d' d'' i"
  have "list_all2 kept_row (ops_of d i) (ops_of d' i)" "list_all2 kept_row (ops_of d' i) (ops_of d'' i)"
    using 1 2 by (simp_all add: kept_def)
  with kept_row_trans have "list_all2 kept_row (ops_of d i) (ops_of d'' i)" by (rule list_all2_trans)
  moreover have "members_of d'' i = members_of d i" "commits_of d'' i = commits_of d i"
    using 1 2 by (simp_all add: kept_def)
  moreover have "vers_ok (vers_of d'' i) \<and> set (vers_of d'' i) \<subseteq> set (vers_of d i) \<and> current (vers_of d'' i) = current (vers_of d i)"
    if "vers_ok (vers_of d i)"
  proof -
    have 3: "vers_ok (vers_of d' i)" "set (vers_of d' i) \<subseteq> set (vers_of d i)" "current (vers_of d' i) = current (vers_of d i)"
      using 1 that by (simp_all add: kept_def)
    then have "vers_ok (vers_of d'' i)" "set (vers_of d'' i) \<subseteq> set (vers_of d' i)" "current (vers_of d'' i) = current (vers_of d' i)"
      using 2 by (simp_all add: kept_def)
    with 3 show ?thesis by simp
  qed
  ultimately show ?thesis unfolding kept_def by blast
qed

text \<open>The columns of a vault's row that its content depends on.\<close>

definition vault_key :: "Vault \<Rightarrow> ID \<times> u64 \<times> u64 \<times> bool" where
  "vault_key v = (va_ID v, va_Seq v, va_MembershipSeq v, va_Deleted v)"

definition all_kept :: "db \<Rightarrow> db \<Rightarrow> bool" where
  "all_kept d d' \<longleftrightarrow> devs_le d d' \<and> map vault_key (t_vaults d') = map vault_key (t_vaults d) \<and> (\<forall>i. kept d d' i)"

lemma all_kept_refl [simp]: "all_kept d d"
  by (simp add: all_kept_def devs_le_same)

lemma all_kept_trans: "all_kept d d' \<Longrightarrow> all_kept d' d'' \<Longrightarrow> all_kept d d''"
  unfolding all_kept_def using devs_le_trans vault_kept_trans by metis

text \<open>Writes to the accounts, invites, device logs and tokens, and to the devices of any account.\<close>

lemma all_kept_same:
  assumes "t_vaults d' = t_vaults d" and "t_member_ops d' = t_member_ops d" and "t_members d' = t_members d"
    and "t_commits d' = t_commits d" and "t_versions d' = t_versions d" and "devs_le d d'"
  shows "all_kept d d'"
  using assms by (simp add: all_kept_def kept_same view_defs)

section \<open>Pruning\<close>

lemma current_prune:
  assumes "\<And>q. q \<in> set rows \<Longrightarrow> P q \<Longrightarrow> \<not> newest rows q"
  shows "current (filter (\<lambda>q. \<not> P q) rows) = current rows"
proof -
  have "newest (filter (\<lambda>q. \<not> P q) rows) q \<longleftrightarrow> newest rows q" for q
    using assms by (rule newest_prune)
  then show ?thesis
    unfolding current_def filter_filter by (intro filter_cong refl) (use assms in blast)
qed

lemma vers_of_filter:
  "vers_of (d\<lparr>t_versions := filter (\<lambda>r. \<not> P r) (t_versions d)\<rparr>) i = filter (\<lambda>r. \<not> P r) (vers_of d i)"
  by (simp add: vers_of_def filter_filter conj_commute)

lemma deleteVersions_kept:
  assumes "\<And>r. r \<in> set (t_versions d) \<Longrightarrow> P r \<Longrightarrow> vers_ok (vers_of d (rv_Vault r)) \<Longrightarrow> \<not> newest (vers_of d (rv_Vault r)) r"
  shows "all_kept d (fst (deleteVersions P d))"
proof (cases "fst (deleteVersions P d) = d")
  case False
  then have eq: "fst (deleteVersions P d) = d\<lparr>t_versions := filter (\<lambda>r. \<not> P r) (t_versions d)\<rparr>" (is "_ = ?d")
    by (auto simp: deleteVersions_def Let_def split: if_splits)
  have "kept d ?d i" for i
  proof -
    have "current (filter (\<lambda>r. \<not> P r) (vers_of d i)) = current (vers_of d i)" if "vers_ok (vers_of d i)"
      using assms that by (intro current_prune) (auto simp: vers_of_def)
    then show ?thesis
      unfolding kept_def vers_of_filter 
      by (auto simp: ops_of_def commits_of_def members_of_def vers_ok_filter list.rel_refl kept_row_refl)
  qed
  then show ?thesis unfolding eq by (simp add: all_kept_def devs_le_same)
qed simp

text \<open>A row with a successor is not the newest.\<close>

lemma supersededAt_old: "supersededAt d v t r \<Longrightarrow> \<not> newest (vers_of d (rv_Vault r)) r"
  by (force simp: supersededAt_def newest_def vers_of_def list_ex_iff word_le_nat_alt)

lemma DeleteSuperseded_kept: "DeleteSuperseded d v t = Inr (d', n) \<Longrightarrow> all_kept d d'"
  using deleteVersions_kept [of d "supersededAt d v t"] supersededAt_old [of d v t]
  by (auto simp: DeleteSuperseded_def result_simps)

lemma DeleteEpochVersions_kept: "DeleteEpochVersions d v es = (d', n) \<Longrightarrow> all_kept d d'"
  using deleteVersions_kept [of d "\<lambda>r. rv_Vault r = v \<and> rv_Epoch r \<in> set es \<and> \<not> currentVersion d r"]
  by (auto simp: DeleteEpochVersions_def currentVersion_newest split: if_splits)

lemma update_where_op_kept:
  assumes "\<And>r. r \<in> set (t_member_ops d) \<Longrightarrow> P r \<Longrightarrow> op = op_core (or_Op r)"
  shows "all_kept d (d\<lparr>t_member_ops := update_where P (\<lambda>r. r\<lparr>or_Op := op\<rparr>) (t_member_ops d)\<rparr>)" (is "all_kept d ?d")
proof -
  have "ops_of ?d i = map (\<lambda>r. if P r then r\<lparr>or_Op := op\<rparr> else r) (ops_of d i)" for i
    unfolding ops_of_def update_where_def by (simp add: filter_map comp_def if_distrib [of or_Vault] cong: if_cong)
  moreover have "kept_row r (if P r then r\<lparr>or_Op := op\<rparr> else r)" if "r \<in> set (ops_of d i)" for r i
    using assms [of r] that by (auto simp: kept_row_def kept_op_def ops_of_def)
  ultimately have "list_all2 kept_row (ops_of d i) (ops_of ?d i)" for i
    by (simp add: list.rel_map list_all2_same)
  then show ?thesis
    by (simp add: all_kept_def devs_le_same kept_def commits_of_def members_of_def vers_of_def)
qed

lemma ReplaceMemberOps_kept:
  assumes "ReplaceMemberOps d v ops = Inr d'"
    and "\<forall>op \<in> set ops. \<forall>r \<in> set (t_member_ops d). or_Vault r = v \<and> or_Seq r = o_Seq op \<longrightarrow> op = op_core (or_Op r)"
  shows "all_kept d d'"
  using assms
proof (induction ops arbitrary: d)
  case (Cons op ops)
  let ?P = "\<lambda>r. or_Vault r = v \<and> or_Seq r = o_Seq op"
  let ?d = "d\<lparr>t_member_ops := update_where ?P (\<lambda>r. r\<lparr>or_Op := op\<rparr>) (t_member_ops d)\<rparr>"
  have "all_kept d ?d" using Cons.prems(2) by (intro update_where_op_kept) auto
  moreover have "all_kept ?d d'"
  proof (rule Cons.IH)
    show "ReplaceMemberOps ?d v ops = Inr d'" using Cons.prems(1) by (simp add: result_simps)
    show "\<forall>p \<in> set ops. \<forall>r \<in> set (t_member_ops ?d). or_Vault r = v \<and> or_Seq r = o_Seq p \<longrightarrow> p = op_core (or_Op r)"
    proof (intro ballI impI)
      fix p r assume p: "p \<in> set ops" and r: "r \<in> set (t_member_ops ?d)" "or_Vault r = v \<and> or_Seq r = o_Seq p"
      from r(1) obtain q where q: "q \<in> set (t_member_ops d)" "r = (if ?P q then q\<lparr>or_Op := op\<rparr> else q)"
        unfolding update_where_def by fastforce
      have "or_Vault q = or_Vault r" "or_Seq q = or_Seq r" using q(2) by simp_all
      then have "p = op_core (or_Op q)" using bspec [OF bspec [OF Cons.prems(2), of p] q(1)] p r(2) by simp
      moreover have "?P q \<Longrightarrow> op = op_core (or_Op q)" using bspec [OF bspec [OF Cons.prems(2), of op] q(1)] by simp
      ultimately show "p = op_core (or_Op r)" using q(2) by (cases "?P q") simp_all
    qed
  qed
  ultimately show ?case by (rule all_kept_trans)
qed simp

lemma ops_ok_unique:
  assumes "ops_ok rows" and "r \<in> set rows" and "q \<in> set rows" and "or_Seq r = or_Seq q"
  shows "r = q"
proof -
  have "distinct (map (unat \<circ> or_Seq) rows)" using assms(1) by (simp add: ops_ok_def del: upt_Suc)
  with assms(2-) show ?thesis by (auto simp: distinct_map inj_on_def)
qed

lemma stripRetiredWraps_kept:
  assumes "ops_ok (ops_of d v)" and "stripRetiredWraps d v gone = Inr d'"
  shows "all_kept d d'"
proof (cases "gone = []")
  case False
  let ?ops = "map op_core (filter (\<lambda>op. o_Epoch op \<in> set gone) (MemberOps d v))"
  have "op = op_core (or_Op r)" if "op \<in> set ?ops" "r \<in> set (t_member_ops d)" "or_Vault r = v" "or_Seq r = o_Seq op" for op r
  proof -
    from that(1) obtain q where q: "q \<in> set (ops_of d v)" "op = op_core (or_Op q)"
      by (auto simp: MemberOps_view [OF assms(1)])
    moreover have "o_Seq (or_Op q) = or_Seq q" using assms(1) q(1) by (simp add: ops_ok_def)
    moreover have "r \<in> set (ops_of d v)" using that by (simp add: ops_of_def)
    ultimately have "r = q" using ops_ok_unique [OF assms(1)] that(4) by simp
    with q(2) show ?thesis by simp
  qed
  moreover have "ReplaceMemberOps d v ?ops = Inr d'"
    using assms(2) False by (simp add: stripRetiredWraps_def op_core_def [abs_def])
  ultimately show ?thesis by (intro ReplaceMemberOps_kept) auto
qed (use assms(2) in \<open>simp add: stripRetiredWraps_def\<close>)

lemma update_vaults_kept:
  assumes "\<And>v. vault_key (f v) = vault_key v"
  shows "all_kept d (d\<lparr>t_vaults := update_where P f (t_vaults d)\<rparr>)"
  using assms by (simp add: all_kept_def devs_le_same kept_same view_defs update_where_def comp_def if_distrib cong: if_cong)

lemma RaisePrunedSeq_kept: "RaisePrunedSeq d v n = Inr d' \<Longrightarrow> all_kept d d'"
  using update_vaults_kept [of "\<lambda>v. v\<lparr>va_PrunedSeq := max (va_PrunedSeq v) n\<rparr>"]
  by (auto simp: RaisePrunedSeq_def result_simps vault_key_def)

lemma RecomputeBytes_kept: "all_kept d (RecomputeBytes d v)"
  unfolding RecomputeBytes_def by (rule update_vaults_kept) (simp add: vault_key_def)

lemma kept_ops_ok: "kept d d' i \<Longrightarrow> ops_ok (ops_of d i) \<Longrightarrow> ops_ok (ops_of d' i)"
proof -
  assume k: "kept d d' i" and ok: "ops_ok (ops_of d i)"
  then have l: "list_all2 kept_row (ops_of d i) (ops_of d' i)" by (simp add: kept_def)
  then have "map (unat \<circ> or_Seq) (ops_of d' i) = map (unat \<circ> or_Seq) (ops_of d i)"
    by (induction rule: list_all2_induct) (simp_all add: kept_row_def)
  moreover have "\<forall>r \<in> set (ops_of d' i). o_Seq (or_Op r) = or_Seq r"
    using l ok [unfolded ops_ok_def, THEN conjunct2]
    by (induction rule: list_all2_induct) (auto simp: kept_row_def kept_op_def)
  ultimately show ?thesis using ok l by (simp add: ops_ok_def list_all2_lengthD del: upt_Suc)
qed

text \<open>The statements of \<open>pruneVault\<close>.\<close>

lemma pruneVault_Inr:
  assumes "pruneVault d v m now = Inr d'"
  obtains w d1 n1 d2 n2 d3 d4 where
    "(if now \<ge> w then DeleteSuperseded d v (now - w + 1) else Inr (d, 0)) = Inr (d1, n1)"
    "DeleteEpochVersions d1 v (retiredEpochs d1 v m now) = (d2, n2)" "stripRetiredWraps d2 v (retiredEpochs d1 v m now) = Inr d3"
    "(if max n1 n2 > 0 then RaisePrunedSeq d3 v (max n1 n2) else Inr d3) = Inr d4" "d' = RecomputeBytes d4 v"
proof -
  let ?w = "ucast (ms_retentionDays m) * usecase_dayMillis"
  from assms obtain d1 n1 where
    1: "(if now \<ge> ?w then DeleteSuperseded d v (now - ?w + 1) else Inr (d, 0)) = Inr (d1, n1)"
    by (auto simp: pruneVault_def Let_def bind_res_Inr)
  obtain d2 n2 where 2: "DeleteEpochVersions d1 v (retiredEpochs d1 v m now) = (d2, n2)" by (rule prod.exhaust)
  from assms 1 2 obtain d3 d4 where
    3: "stripRetiredWraps d2 v (retiredEpochs d1 v m now) = Inr d3"
    and 4: "(if max n1 n2 > 0 then RaisePrunedSeq d3 v (max n1 n2) else Inr d3) = Inr d4"
    and 5: "d' = RecomputeBytes d4 v"
    by (auto simp: pruneVault_def Let_def bind_res_Inr simp del: max_less_iff_conj)
  from that [OF 1 2 3 4 5] show thesis .
qed

lemma pruneVault_kept:
  assumes "ops_ok (ops_of d v)" and "pruneVault d v m now = Inr d'"
  shows "all_kept d d'"
proof -
  from assms(2) obtain w d1 n1 d2 n2 d3 d4 where
    1: "(if now \<ge> w then DeleteSuperseded d v (now - w + 1) else Inr (d, 0)) = Inr (d1, n1)"
    and 2: "DeleteEpochVersions d1 v (retiredEpochs d1 v m now) = (d2, n2)" and 3: "stripRetiredWraps d2 v (retiredEpochs d1 v m now) = Inr d3"
    and 4: "(if max n1 n2 > 0 then RaisePrunedSeq d3 v (max n1 n2) else Inr d3) = Inr d4" and 5: "d' = RecomputeBytes d4 v"
    by (rule pruneVault_Inr)
  have k1: "all_kept d d1" using 1 DeleteSuperseded_kept by (auto split: if_splits)
  have k2: "all_kept d d2" using k1 DeleteEpochVersions_kept [OF 2] by (rule all_kept_trans)
  have "ops_ok (ops_of d2 v)" using kept_ops_ok assms(1) k2 by (auto simp: all_kept_def)
  from stripRetiredWraps_kept [OF this 3] k2 have k3: "all_kept d d3" using all_kept_trans by blast
  moreover have "all_kept d3 d4" using 4 RaisePrunedSeq_kept by (auto split: if_splits)
  ultimately show ?thesis unfolding 5 using RecomputeBytes_kept all_kept_trans by blast
qed

end
