(* ===== verification/Server_Invariant.thy ===== *)
theory Server_Invariant
  imports Server_Frame
begin

text \<open>
  The invariant of the sync server's database: every stored vault verifies. Its membership log replays, the table of
  roles is the one the log gives, its heads are a chain from the genesis on, and the newest stored versions are the
  leaves under the last head. The theory shows that every use case that writes keeps it, and states what follows for
  the databases a server can reach.
\<close>

section \<open>Vaults that verify\<close>

definition role_table :: "MembershipState \<Rightarrow> ID \<Rightarrow> Role" where
  "role_table m a = (if ms_deleted m then RoleNone else MembershipState_Role m a)"

definition vault_verifies :: "crypto \<Rightarrow> db \<Rightarrow> Vault \<Rightarrow> MembershipState \<Rightarrow> VaultState \<Rightarrow> bool" where
  "vault_verifies cr d v m s \<longleftrightarrow>
    replayMembership cr d (va_ID v) = Inr m \<and> ms_seq m = va_MembershipSeq v \<and>
    (\<forall>a. MemberRole d (va_ID v) a = role_table m a) \<and>
    currentState cr d (va_ID v) = Inr s \<and> vs_vault s = va_ID v \<and> cur_Seq (vs_cursor s) = va_Seq v \<and>
    AdvanceAll cr \<lparr>cur_Seq = 0, cur_Hash = sha256 cr (genesis_preimage (va_ID v)), cur_MembershipSeq = 0\<rparr>
      (map cr_Head (commits_of d (va_ID v))) = Inr (vs_cursor s)"

text \<open>The rows behind it: numbered from one without a gap, and within the range of the database's integers.\<close>

definition vault_rows :: "crypto \<Rightarrow> db \<Rightarrow> Vault \<Rightarrow> VaultState \<Rightarrow> bool" where
  "vault_rows cr d v s \<longleftrightarrow>
    ops_ok (ops_of d (va_ID v)) \<and> length (ops_of d (va_ID v)) = unat (va_MembershipSeq v) \<and> va_MembershipSeq v < 2 ^ 63 \<and>
    commits_ok (commits_of d (va_ID v)) \<and> length (commits_of d (va_ID v)) = unat (va_Seq v) \<and> va_Seq v < 2 ^ 63 \<and>
    vers_ok (vers_of d (va_ID v)) \<and> holds (vers_of d (va_ID v)) (vs_leaves s) \<and>
    (\<forall>r \<in> set (vers_of d (va_ID v)). faithful_row cr (va_ID v) r) \<and> \<not> va_Deleted v"

definition vault_ok :: "crypto \<Rightarrow> db \<Rightarrow> Vault \<Rightarrow> bool" where
  "vault_ok cr d v \<longleftrightarrow> (\<exists>m s. vault_verifies cr d v m s \<and> vault_rows cr d v s)"

text \<open>No rows without their vault.\<close>

definition no_orphans :: "db \<Rightarrow> bool" where
  "no_orphans d \<longleftrightarrow> (\<forall>i. i \<notin> va_ID ` set (t_vaults d) \<longrightarrow>
    ops_of d i = [] \<and> commits_of d i = [] \<and> vers_of d i = [] \<and> members_of d i = [])"

definition server_ok :: "crypto \<Rightarrow> db \<Rightarrow> bool" where
  "server_ok cr d \<longleftrightarrow> distinct (map va_ID (t_vaults d)) \<and> no_orphans d \<and> (\<forall>v \<in> set (t_vaults d). vault_ok cr d v)"

section \<open>The invariant along kept vaults\<close>

lemma kept_no_rows:
  assumes "kept d d' i" and "ops_of d i = [] \<and> commits_of d i = [] \<and> vers_of d i = [] \<and> members_of d i = []"
  shows "ops_of d' i = [] \<and> commits_of d' i = [] \<and> vers_of d' i = [] \<and> members_of d' i = []"
  using assms by (auto simp: kept_def vers_ok_def)

lemma replayMembership_kept:
  assumes "devs_le d d'" and "kept d d' i" and "ops_ok (ops_of d i)" and "replayMembership cr d i = Inr m"
  shows "replayMembership cr d' i = Inr m"
proof -
  from assms(4) obtain m0 where m0: "NewMembershipState cr i = Inr m0"
    "replay (member_step cr (signatureCheck cr d)) m0 (MemberOps d i) = Inr m"
    by (auto simp: replayMembership_def result_simps)
  have "list_all2 kept_row (ops_of d i) (ops_of d' i)" using assms(2) by (simp add: kept_def)
  then have "list_all2 kept_op (MemberOps d i) (MemberOps d' i)"
    unfolding MemberOps_view [OF assms(3)] MemberOps_view [OF kept_ops_ok [OF assms(2,3)]]
    by (auto simp: list.rel_map kept_row_def elim: list.rel_mono_strong)
  from replay_kept [OF check_le_devs [OF assms(1)] this m0(2)] m0(1) show ?thesis
    by (simp add: replayMembership_def result_simps)
qed

lemma CurrentLeaves_current: "CurrentLeaves d i = map row_leaf (current (vers_of d i))"
  by (simp add: CurrentLeaves_view current_def)

lemma holds_current: "holds rows leaves \<longleftrightarrow>
    (\<forall>r l. fmlookup leaves r = Some l \<longleftrightarrow> (\<exists>q \<in> set (current rows). rv_Record q = r \<and> row_leaf q = l))"
  unfolding holds_def current_def by (auto simp: newest_def)

lemma vault_ok_kept:
  assumes "vault_ok cr d v" and "devs_le d d'" and "kept d d' (va_ID v)" and "vault_key v' = vault_key v"
  shows "vault_ok cr d' v'"
proof -
  from assms(1) obtain m s where v: "vault_verifies cr d v m s" and r: "vault_rows cr d v s" by (auto simp: vault_ok_def)
  have k: "va_ID v' = va_ID v" "va_Seq v' = va_Seq v" "va_MembershipSeq v' = va_MembershipSeq v" "va_Deleted v' = va_Deleted v"
    using assms(4) by (simp_all add: vault_key_def)
  have vers: "vers_ok (vers_of d' (va_ID v))" "set (vers_of d' (va_ID v)) \<subseteq> set (vers_of d (va_ID v))"
    "current (vers_of d' (va_ID v)) = current (vers_of d (va_ID v))"
    and same: "members_of d' (va_ID v) = members_of d (va_ID v)" "commits_of d' (va_ID v) = commits_of d (va_ID v)"
    and len: "length (ops_of d' (va_ID v)) = length (ops_of d (va_ID v))"
    using assms(3) r by (auto simp: kept_def vault_rows_def dest: list_all2_lengthD)
  have "currentState cr d' (va_ID v) = currentState cr d (va_ID v)"
    using r same(2) vers(3) by (simp add: currentState_def LatestHead_view CurrentLeaves_current vault_rows_def)
  moreover have "replayMembership cr d' (va_ID v) = Inr m"
    using replayMembership_kept [OF assms(2,3)] v r by (simp add: vault_verifies_def vault_rows_def)
  ultimately have "vault_verifies cr d' v' m s"
    using v same unfolding vault_verifies_def k MemberRole_view by simp
  moreover have "vault_rows cr d' v' s"
    using r same len vers kept_ops_ok [OF assms(3)] unfolding vault_rows_def k holds_current by auto
  ultimately show ?thesis by (auto simp: vault_ok_def)
qed

text \<open>A request that touches one vault: the others are kept, and that one is shown to verify.\<close>

lemma server_ok_touch:
  assumes "server_ok cr d" and "devs_le d d'" and "\<And>i. i \<noteq> w \<Longrightarrow> kept d d' i"
    and "distinct (map va_ID (t_vaults d'))" and "set (map va_ID (t_vaults d)) \<subseteq> set (map va_ID (t_vaults d'))"
    and "w \<in> set (map va_ID (t_vaults d'))"
    and "\<And>v'. v' \<in> set (t_vaults d') \<Longrightarrow> va_ID v' \<noteq> w \<Longrightarrow> \<exists>v \<in> set (t_vaults d). vault_key v = vault_key v'"
    and "\<And>v'. v' \<in> set (t_vaults d') \<Longrightarrow> va_ID v' = w \<Longrightarrow> vault_ok cr d' v'"
  shows "server_ok cr d'"
proof -
  have "vault_ok cr d' v'" if v': "v' \<in> set (t_vaults d')" for v'
  proof (cases "va_ID v' = w")
    case False
    then obtain v where v: "v \<in> set (t_vaults d)" "vault_key v' = vault_key v" using assms(7) [OF v'] by metis
    moreover have "va_ID v = va_ID v'" using v(2) by (simp add: vault_key_def)
    ultimately show ?thesis
      using vault_ok_kept [OF _ assms(2)] assms(1) assms(3) False by (auto simp: server_ok_def)
  qed (use assms(8) v' in blast)
  moreover have "no_orphans d'"
    unfolding no_orphans_def
  proof (intro allI impI)
    fix i assume i: "i \<notin> va_ID ` set (t_vaults d')"
    then have "i \<noteq> w" "i \<notin> va_ID ` set (t_vaults d)" using assms(5,6) by auto
    then show "ops_of d' i = [] \<and> commits_of d' i = [] \<and> vers_of d' i = [] \<and> members_of d' i = []"
      using kept_no_rows [OF assms(3)] assms(1) by (simp add: server_ok_def no_orphans_def)
  qed
  ultimately show ?thesis using assms(4) by (simp add: server_ok_def)
qed

lemma server_ok_kept:
  assumes "server_ok cr d" and "all_kept d d'"
  shows "server_ok cr d'"
proof -
  have keys: "map vault_key (t_vaults d') = map vault_key (t_vaults d)" using assms(2) by (simp add: all_kept_def)
  have ids: "map va_ID (t_vaults d') = map va_ID (t_vaults d)"
    using arg_cong [OF keys, of "map fst"] by (simp add: vault_key_def comp_def)
  have "vault_ok cr d' v'" if "v' \<in> set (t_vaults d')" for v'
  proof -
    have "vault_key v' \<in> set (map vault_key (t_vaults d))" using that unfolding keys [symmetric] by simp
    then obtain v where v: "v \<in> set (t_vaults d)" "vault_key v' = vault_key v" by auto
    then show ?thesis
      using vault_ok_kept [of cr d v d' v'] assms by (auto simp: server_ok_def all_kept_def)
  qed
  moreover have "no_orphans d'"
    unfolding no_orphans_def
  proof (intro allI impI)
    fix i assume "i \<notin> va_ID ` set (t_vaults d')"
    then have "i \<notin> va_ID ` set (t_vaults d)" using arg_cong [OF ids, of set] by simp
    moreover have "kept d d' i" using assms(2) by (simp add: all_kept_def)
    ultimately show "ops_of d' i = [] \<and> commits_of d' i = [] \<and> vers_of d' i = [] \<and> members_of d' i = []"
      using kept_no_rows [of d d' i] assms(1) by (simp add: server_ok_def no_orphans_def)
  qed
  ultimately show ?thesis using assms(1) ids by (simp add: server_ok_def)
qed

section \<open>Membership operations\<close>

lemma AppendMemberOps_Inr:
  "AppendMemberOps d v ops = Inr d' \<Longrightarrow>
    d' = d\<lparr>t_member_ops := t_member_ops d @ map (\<lambda>op. \<lparr>or_Vault = v, or_Seq = o_Seq op, or_Op = op\<rparr>) ops,
      t_participants := t_participants d'\<rparr> \<and> (\<forall>op \<in> set ops. o_Seq op < 2 ^ 63)"
proof (induction ops arbitrary: d)
  case (Cons op ops)
  from Cons.prems obtain d1 where d1: "AppendMemberOps d1 v ops = Inr d'" "o_Seq op < 2 ^ 63"
    "d1 = d\<lparr>t_member_ops := t_member_ops d @ [\<lparr>or_Vault = v, or_Seq = o_Seq op, or_Op = op\<rparr>], t_participants := t_participants d1\<rparr>"
    by (auto simp: result_simps)
  have eq: "d' = d1\<lparr>t_member_ops := t_member_ops d1 @ map (\<lambda>op. \<lparr>or_Vault = v, or_Seq = o_Seq op, or_Op = op\<rparr>) ops,
      t_participants := t_participants d'\<rparr>" and lt: "\<forall>op \<in> set ops. o_Seq op < 2 ^ 63"
    using Cons.IH [OF d1(1)] by simp_all
  show ?case using eq lt d1(2) by (subst (asm) d1(3), subst (asm) d1(3)) simp
qed simp

lemma replay_numbers:
  assumes "replay (member_step cr check) m ops = Inr m'" and "\<forall>op \<in> set ops. o_Seq op < 2 ^ 63" and "ms_seq m < 2 ^ 63"
  shows "map (unat \<circ> o_Seq) ops = [Suc (unat (ms_seq m))..<Suc (unat (ms_seq m) + length ops)] \<and>
    unat (ms_seq m') = unat (ms_seq m) + length ops"
  using assms
proof (induction ops arbitrary: m)
  case (Cons op ops)
  then obtain u where u: "member_step cr check m op = Inr u" "replay (member_step cr check) u ops = Inr m'"
    by (auto split: sum.splits)
  have seq: "ms_seq u = ms_seq m + 1" "o_Seq op = ms_seq m + 1"
    using u(1) seq_step [OF u(1)] by (auto simp: member_step_Inr)
  have lt: "unat (ms_seq m) < 2 ^ 63" using Cons.prems(3) by (simp add: word_less_nat_alt)
  then have n: "unat (ms_seq m + 1) = Suc (unat (ms_seq m))" by (simp add: unat_word_ariths)
  have "ms_seq u < 2 ^ 63" using Cons.prems(2) seq by simp
  from Cons.IH [OF u(2) _ this] Cons.prems(2) seq n show ?case
    by (simp add: upt_conv_Cons del: upt_Suc)
qed simp

lemma fmlookup_roles:
  "fmlookup (roles m) a = (if ms_deleted m then None else map_option (\<lambda>_. MembershipState_Role m a) (fmlookup (ms_members m) a))"
proof -
  have "map_of (map (\<lambda>i. (i, MembershipState_Role m i)) xs) a = (if a \<in> set xs then Some (MembershipState_Role m a) else None)" for xs
    by (induction xs) auto
  then show ?thesis
    by (auto simp: roles_def fmap_of_list.rep_eq fmlookup_dom_iff dest: fmdomI split: option.splits)
qed

lemma ReplaceMembers_Inr:
  assumes "ReplaceMembers d v (roles m) = Inr d'"
  shows "d' = d\<lparr>t_members := t_members d'\<rparr>" and "i \<noteq> v \<Longrightarrow> members_of d' i = members_of d i"
    and "MemberRole d' v a = role_table m a"
proof -
  let ?as = "sorted_list_of_fset (fmdom (roles m))"
  let ?row = "\<lambda>a. \<lparr>mr_Vault = v, mr_Account = a, mr_Role = the (fmlookup (roles m) a)\<rparr>"
  have d': "d' = d\<lparr>t_members := filter (\<lambda>r. mr_Vault r \<noteq> v) (t_members d) @ map ?row ?as\<rparr>"
    using assms by (simp add: ReplaceMembers_def split: if_splits)
  show "d' = d\<lparr>t_members := t_members d'\<rparr>" by (simp add: d')
  show "members_of d' i = members_of d i" if "i \<noteq> v"
    using that by (auto simp: d' members_of_def filter_map comp_def intro: filter_cong)
  have "members_of d' v = map ?row ?as"
    by (simp add: d' members_of_def filter_map comp_def)
  moreover have "find (\<lambda>r. mr_Account r = a) (map ?row xs) = (if a \<in> set xs then Some (?row a) else None)" for xs
    by (induction xs) auto
  moreover have "set ?as = fset (fmdom (roles m))" by (simp add: sorted_list_of_fset.rep_eq)
  ultimately have "MemberRole d' v a = (case fmlookup (roles m) a of None \<Rightarrow> RoleNone | Some r \<Rightarrow> r)"
    by (auto simp: MemberRole_view fmlookup_dom_iff dest: fmdomI split: option.splits)
  then show "MemberRole d' v a = role_table m a"
    by (auto simp: fmlookup_roles role_table_def MembershipState_Role_def split: option.splits)
qed

end
