(* ===== verification/Server_Steps.thy ===== *)
theory Server_Steps
  imports Server_Invariant
begin

text \<open>
  Every request that writes to a vault keeps the invariant of theory \<open>Server_Invariant\<close>: creating a vault,
  appending membership operations and committing; and so do the requests that write elsewhere, as instances of
  \<open>all_kept\<close>.
\<close>

lemma VaultByID_Some: "VaultByID d i = Some v \<Longrightarrow> v \<in> set (t_vaults d) \<and> va_ID v = i"
  by (auto simp: VaultByID_def find_Some_iff)

lemma VaultByID_None: "VaultByID d i = None \<longleftrightarrow> i \<notin> va_ID ` set (t_vaults d)"
  by (auto simp: VaultByID_def find_None_iff)

lemma server_ok_vault:
  assumes "server_ok cr d" and "VaultByID d i = Some v"
  obtains m s where "vault_verifies cr d v m s" and "vault_rows cr d v s"
  using assms(1) VaultByID_Some [OF assms(2)] that by (auto simp: server_ok_def vault_ok_def)

lemma requireMember_Inr:
  "requireMember d i a = Inr (v, r) \<longleftrightarrow> VaultByID d i = Some v \<and> \<not> va_Deleted v \<and> MemberRole d i a = r \<and> r \<noteq> RoleNone"
  by (auto simp: requireMember_def Let_def split: option.splits)

section \<open>New vaults\<close>

lemma new_vault_ok:
  assumes ok: "server_ok cr d" and new: "VaultByID d (va_ID v) = None"
    and v: "va_Seq v = 0" "va_MembershipSeq v = 1" "\<not> va_Deleted v"
    and m: "NewMembershipState cr (va_ID v) = Inr m0" "member_step cr (signatureCheck cr d) m0 create = Inr m"
    and 1: "InsertVault d v = Inr d1" and 2: "AppendMemberOps d1 (va_ID v) [create] = Inr d2"
    and 3: "ReplaceMembers d2 (va_ID v) (roles m) = Inr d3"
  shows "server_ok cr d3"
proof -
  let ?w = "va_ID v" let ?row = "\<lparr>or_Vault = va_ID v, or_Seq = o_Seq create, or_Op = create\<rparr>"
  have d1: "d1 = d\<lparr>t_vaults := t_vaults d @ [v]\<rparr>" using 1 by (auto simp: InsertVault_def result_simps)
  have d2: "d2 = d1\<lparr>t_member_ops := t_member_ops d1 @ [?row], t_participants := t_participants d2\<rparr>"
    using AppendMemberOps_Inr [OF 2] by simp
  have d3: "d3 = d2\<lparr>t_members := t_members d3\<rparr>" using ReplaceMembers_Inr(1) [OF 3] .
  have tab: "t_vaults d3 = t_vaults d @ [v]" "t_member_ops d3 = t_member_ops d @ [?row]" "t_commits d3 = t_commits d"
    "t_versions d3 = t_versions d" "t_devices d3 = t_devices d" "t_members d2 = t_members d"
    by (subst d3, subst d2, simp add: d1)+ (subst d2, simp add: d1)
  have empty: "ops_of d ?w = []" "commits_of d ?w = []" "vers_of d ?w = []"
    using ok new by (auto simp: server_ok_def no_orphans_def VaultByID_None)
  have ops: "ops_of d3 i = ops_of d i @ (if i = ?w then [?row] else [])" for i by (simp add: ops_of_def tab)
  have com: "commits_of d3 i = commits_of d i" and ver: "vers_of d3 i = vers_of d i" for i
    by (simp_all add: commits_of_def vers_of_def tab)
  have mem: "members_of d3 i = members_of d i" if "i \<noteq> ?w" for i
    using ReplaceMembers_Inr(2) [OF 3 that] by (simp add: members_of_def tab(6))
  have kept: "kept d d3 i" if "i \<noteq> ?w" for i using that ops com ver mem by (intro kept_same) simp_all
  have seq: "o_Seq create = 1" "ms_seq m = 1" using m by (auto simp: member_step_Inr NewMembershipState_Inr)
  have ops_ok: "ops_ok (ops_of d3 ?w)" by (simp add: ops empty ops_ok_def seq)
  have "signatureCheck cr d3 = signatureCheck cr d" by (simp add: signatureCheck_def DeviceByID_def tab fun_eq_iff)
  then have rep: "replayMembership cr d3 ?w = Inr m"
    using m by (simp add: replayMembership_def result_simps MemberOps_view [OF ops_ok] ops empty)
  obtain s where s: "NewVaultState cr ?w = Inr s" by (simp add: NewVaultState_Inr)
  then have cur: "currentState cr d3 ?w = Inr s"
    by (simp add: currentState_def LatestHead_view com empty commits_ok_def CurrentLeaves_view ver
        RestoreVaultStateFromLeaves_def result_simps)
  have "vault_verifies cr d3 v m s"
    using rep cur s ReplaceMembers_Inr(3) [OF 3] v seq
    by (simp add: vault_verifies_def com empty NewVaultState_Inr)
  moreover have "vault_rows cr d3 v s"
    using ops_ok v s by (simp add: vault_rows_def ops com ver empty commits_ok_def vers_ok_def holds_def newest_def NewVaultState_Inr)
  ultimately have "vault_ok cr d3 v" by (auto simp: vault_ok_def)
  show ?thesis
  proof (rule server_ok_touch [OF ok, where w = ?w])
    show "devs_le d d3" by (simp add: devs_le_same tab)
    show "distinct (map va_ID (t_vaults d3))" using ok new by (simp add: tab server_ok_def VaultByID_None)
    show "vault_ok cr d3 v'" if "v' \<in> set (t_vaults d3)" "va_ID v' = ?w" for v'
      using that \<open>vault_ok cr d3 v\<close> new imageI [of v' "set (t_vaults d)" va_ID] by (auto simp: tab VaultByID_None)
    show "\<exists>u \<in> set (t_vaults d). vault_key u = vault_key v'" if "v' \<in> set (t_vaults d3)" "va_ID v' \<noteq> ?w" for v'
      using that by (auto simp: tab)
  qed (use kept in \<open>auto simp: tab\<close>)
qed

section \<open>Appending operations\<close>

lemma append_ops_ok:
  assumes ok: "server_ok cr d" and v: "VaultByID d w = Some v"
    and m: "replayMembership cr d w = Inr m0" "replay (member_step cr (signatureCheck cr d)) m0 ops = Inr m"
    and 1: "AppendMemberOps d w ops = Inr d1" and 2: "SetVaultMembershipSeq d1 w (ms_seq m) = Inr d2"
    and 3: "ReplaceMembers d2 w (roles m) = Inr d3"
  shows "server_ok cr d3"
proof -
  let ?rows = "map (\<lambda>op. \<lparr>or_Vault = w, or_Seq = o_Seq op, or_Op = op\<rparr>) ops"
  let ?upd = "\<lambda>v. if va_ID v = w then v\<lparr>va_MembershipSeq := ms_seq m\<rparr> else v"
  have w: "va_ID v = w" "v \<in> set (t_vaults d)" using VaultByID_Some [OF v] by simp_all
  obtain m1 s where vv: "vault_verifies cr d v m1 s" and vr: "vault_rows cr d v s" using server_ok_vault [OF ok v] .
  have m0: "ms_seq m0 = va_MembershipSeq v" using vv m(1) w by (simp add: vault_verifies_def)
  have d1: "d1 = d\<lparr>t_member_ops := t_member_ops d @ ?rows, t_participants := t_participants d1\<rparr>"
    and lt: "\<forall>op \<in> set ops. o_Seq op < 2 ^ 63" using AppendMemberOps_Inr [OF 1] by simp_all
  have d2: "d2 = d1\<lparr>t_vaults := map ?upd (t_vaults d1)\<rparr>" and lm: "ms_seq m < 2 ^ 63"
    using 2 by (auto simp: SetVaultMembershipSeq_def result_simps update_where_def)
  have d3: "d3 = d2\<lparr>t_members := t_members d3\<rparr>" using ReplaceMembers_Inr(1) [OF 3] .
  have tab: "t_vaults d3 = map ?upd (t_vaults d)" "t_member_ops d3 = t_member_ops d @ ?rows" "t_commits d3 = t_commits d"
    "t_versions d3 = t_versions d" "t_devices d3 = t_devices d" "t_members d2 = t_members d"
    by (subst d3, subst d2, subst d1, simp; subst d1, simp)+ (subst d2, subst d1, simp)
  have ops: "ops_of d3 i = ops_of d i @ (if i = w then ?rows else [])" for i
    by (auto simp: ops_of_def tab filter_map comp_def)
  have com: "commits_of d3 i = commits_of d i" and ver: "vers_of d3 i = vers_of d i" for i
    by (simp_all add: commits_of_def vers_of_def tab)
  have mem: "members_of d3 i = members_of d i" if "i \<noteq> w" for i
    using ReplaceMembers_Inr(2) [OF 3 that] by (simp add: members_of_def tab(6))
  have kept: "kept d d3 i" if "i \<noteq> w" for i using that ops com ver mem by (intro kept_same) simp_all
  have len: "length (ops_of d w) = unat (ms_seq m0)" and old: "ops_ok (ops_of d w)"
    using vr m0 w by (simp_all add: vault_rows_def)
  have num: "map (unat \<circ> o_Seq) ops = [Suc (unat (ms_seq m0))..<Suc (unat (ms_seq m0) + length ops)]"
    "unat (ms_seq m) = unat (ms_seq m0) + length ops"
    using replay_numbers [OF m(2) lt] m0 vr by (simp_all add: vault_rows_def)
  have ops_ok: "ops_ok (ops_of d3 w)"
    using old num(1) len upt_add_eq_append [of "Suc 0" "Suc (unat (ms_seq m0))" "length ops"]
    by (auto simp: ops_ok_def ops comp_def simp del: upt_Suc)
  have "signatureCheck cr d3 = signatureCheck cr d" by (simp add: signatureCheck_def DeviceByID_def tab fun_eq_iff)
  then have rep: "replayMembership cr d3 w = Inr m"
    using m by (auto simp: replayMembership_def result_simps MemberOps_view [OF ops_ok] MemberOps_view [OF old] ops
        comp_def replay_append)
  have cur: "currentState cr d3 w = currentState cr d w"
    using vr w by (simp add: currentState_def LatestHead_view vault_rows_def com CurrentLeaves_view ver)
  let ?v = "v\<lparr>va_MembershipSeq := ms_seq m\<rparr>"
  have "vault_verifies cr d3 ?v m s"
    using vv rep cur w ReplaceMembers_Inr(3) [OF 3] by (simp add: vault_verifies_def com)
  moreover have "vault_rows cr d3 ?v s"
    using vr w ops_ok num(2) len lm by (simp add: vault_rows_def com ver) (simp add: ops)
  ultimately have "vault_ok cr d3 ?v" by (auto simp: vault_ok_def)
  have uniq: "u = v" if "u \<in> set (t_vaults d)" "va_ID u = w" for u
    using ok that w by (auto simp: server_ok_def distinct_map inj_on_def)
  show ?thesis
  proof (rule server_ok_touch [OF ok, where w = w])
    show "devs_le d d3" by (simp add: devs_le_same tab)
    show "distinct (map va_ID (t_vaults d3))"
      using ok by (simp add: tab server_ok_def comp_def if_distrib [of va_ID] cong: if_cong)
    show "vault_ok cr d3 v'" if "v' \<in> set (t_vaults d3)" "va_ID v' = w" for v'
      using that \<open>vault_ok cr d3 ?v\<close> uniq by (auto simp: tab split: if_splits)
    show "\<exists>u \<in> set (t_vaults d). vault_key u = vault_key v'" if "v' \<in> set (t_vaults d3)" "va_ID v' \<noteq> w" for v'
      using that by (auto simp: tab split: if_splits)
    show "set (map va_ID (t_vaults d)) \<subseteq> set (map va_ID (t_vaults d3))" "w \<in> set (map va_ID (t_vaults d3))"
      using w by (force simp: tab)+
  qed (use kept in auto)
qed

section \<open>Commits\<close>

lemma commit_current:
  assumes "ApplyCommit cr s c m resolve = Inr t" and "vs_vault s = w"
    and "commits_ok (commits_of d w)" and "commits_of d w \<noteq> []" and "cr_Head (last (commits_of d w)) = cm_Head c"
    and "vers_ok (vers_of d w)" and "holds (vers_of d w) (vs_leaves t)"
  shows "currentState cr d w = Inr t"
proof -
  have c: "h_Vault (cm_Head c) = w" "MerkleRoot cr (VaultState_Leaves t) = Inr (h_MerkleRoot (cm_Head c))"
    "Advance cr (vs_cursor s) (cm_Head c) = Inr (vs_cursor t)" "vs_vault t = w"
    using commit_step_cursor [of cr s "(c, m, resolve)" t] assms(1,2) by (simp_all add: commit_step_def)
  note leaves = holds_mset [OF assms(6,7)]
  have "MerkleRoot cr (CurrentLeaves d w) = Inr (h_MerkleRoot (cm_Head c))"
    using c(2) MerkleRoot_perm [OF leaves(2), of cr] by (simp add: CurrentLeaves_view)
  then have "RestoreVaultStateFromLeaves cr w (Some (cm_Head c)) (CurrentLeaves d w) = Inr t"
    unfolding RestoreFromLeaves_Inr using c leaves by (simp add: CurrentLeaves_view Advance_Inr)
  then show ?thesis using assms(3-5) by (simp add: currentState_def LatestHead_view lift_res_def)
qed

lemma seq_suc: "n < 2 ^ 63 \<Longrightarrow> unat (n + 1 :: u64) = Suc (unat n)"
  by (simp add: word_less_nat_alt unat_word_ariths)

lemma commits_ok_snoc:
  "commits_ok rows \<Longrightarrow> length rows = unat n \<Longrightarrow> n < 2 ^ 63 \<Longrightarrow> cr_Seq r = n + 1 \<Longrightarrow> commits_ok (rows @ [r])"
  unfolding commits_ok_def by (rule numbered_snoc) (simp_all add: seq_suc del: upt_Suc)

text \<open>What the statements of a commit do to the tables.\<close>

lemma commit_tables:
  assumes c: "ApplyCommit cr s c m resolve = Inr t" and s: "vs_vault s = w" "holds (vers_of d w) (vs_leaves s)"
    "vers_ok (vers_of d w)" and seq: "seq \<noteq> 0"
    and 1: "InsertCommit cr d w seq c received = Inr d1" and 2: "UpdateVaultHead d1 w seq bytes = Inr d2"
    and 3: "DeleteRecords d2 w (cm_Purged c) = (d3, n)"
  obtains row where "cr_Vault row = w" "cr_Seq row = seq" "cr_Head row = cm_Head c" "cr_CommitID row = h_Commit (cm_Head c)"
    and "t_commits d3 = t_commits d @ [row]" and "seq < 2 ^ 63"
    and "t_vaults d3 = map (\<lambda>v. if va_ID v = w then v\<lparr>va_Seq := seq, va_Bytes := bytes\<rparr> else v) (t_vaults d)"
    and "t_member_ops d3 = t_member_ops d" and "t_members d3 = t_members d" and "t_devices d3 = t_devices d"
    and "\<And>i. i \<noteq> w \<Longrightarrow> vers_of d3 i = vers_of d i"
    and "holds (vers_of d3 w) (vs_leaves t)" and "vers_ok (vers_of d3 w)"
    and "\<And>r. r \<in> set (vers_of d3 w) \<Longrightarrow> r \<in> set (vers_of d w) \<or> faithful_row cr w r"
proof -
  from c obtain account key l1 l2 where
    rec: "records_loop cr w (h_Author (cm_Head c)) key (ms_epoch m) (cm_Records c) {||} (vs_leaves s) = Inr l1"
    and pur: "purge_loop (fset_of_list (map e_Record (cm_Records c))) (cm_Purged c) l1 = Inr (vs_leaves t)"
    unfolding ApplyCommit_Inr using s(1) by (metis VaultState.select_convs(3))
  define row where "row = \<lparr>cr_Vault = w, cr_Seq = seq, cr_CommitID = h_Commit (cm_Head c), cr_Head = cm_Head c,
    cr_Purged = cm_Purged c, cr_Received = received\<rparr>"
  let ?d = "d\<lparr>t_commits := t_commits d @ [row]\<rparr>"
  have ins: "insert_versions cr ?d w seq (cm_Records c) = Inr d1" and lt: "seq < 2 ^ 63"
    using 1 by (auto simp: InsertCommit_def result_simps row_def)
  have same: "vers_of ?d i = vers_of d i" for i by (simp add: vers_of_def)
  obtain rows where d1: "d1 = ?d\<lparr>t_versions := t_versions ?d @ rows\<rparr>"
    and rows: "\<forall>r \<in> set rows. rv_Vault r = w \<and> faithful_row cr w r" and h1: "holds (vers_of d1 w) l1" "vers_ok (vers_of d1 w)"
    using insert_versions_holds [OF ins rec] s(2,3) seq by (auto simp: same)
  let ?upd = "\<lambda>v. if va_ID v = w then v\<lparr>va_Seq := seq, va_Bytes := bytes\<rparr> else v"
  have d2: "d2 = d1\<lparr>t_vaults := map ?upd (t_vaults d1)\<rparr>" using 2 by (auto simp: UpdateVaultHead_def result_simps update_where_def)
  have v2: "vers_of d2 i = vers_of d1 i" for i by (simp add: vers_of_def d2)
  have d3: "d3 = d2\<lparr>t_versions := filter (\<lambda>r. \<not> (rv_Vault r = w \<and> rv_Record r \<in> set (cm_Purged c))) (t_versions d2)\<rparr>"
    using delete_records_view [of d2 w "cm_Purged c" 0] 3 h1(2) v2 by (simp add: DeleteRecords_def)
  have v3: "vers_of d3 w = filter (\<lambda>q. rv_Record q \<notin> set (cm_Purged c)) (vers_of d1 w)"
    unfolding d3 vers_of_filter v2 by (intro filter_cong) (auto simp: vers_of_def)
  have other: "vers_of d3 i = vers_of d i" if "i \<noteq> w" for i
  proof -
    have "vers_of d3 i = vers_of d1 i"
      unfolding d3 vers_of_filter v2 by (rule filter_True) (use that in \<open>auto simp: vers_of_def\<close>)
    then show ?thesis using rows that by (auto simp: d1 vers_of_def filter_empty_conv)
  qed
  have "holds (vers_of d3 w) (vs_leaves t)"
    unfolding v3 using h1(1) purge_loop_Inr [OF pur] by (intro holds_purge) auto
  moreover have "vers_ok (vers_of d3 w)" unfolding v3 using h1(2) by (rule vers_ok_filter)
  moreover have "r \<in> set (vers_of d w) \<or> faithful_row cr w r" if "r \<in> set (vers_of d3 w)" for r
    using that rows unfolding v3 by (auto simp: d1 vers_of_def)
  moreover have "t_commits d3 = t_commits d @ [row]" "t_vaults d3 = map ?upd (t_vaults d)"
    "t_member_ops d3 = t_member_ops d" "t_members d3 = t_members d" "t_devices d3 = t_devices d"
    by (simp_all add: d3 d2 d1)
  ultimately show thesis using that [of row] lt other by (simp add: row_def)
qed

lemma commit_rows:
  assumes ok: "server_ok cr d" and v: "VaultByID d w = Some v" and vc: "verifyCommit cr d w c = Inr (m, t)"
    and 1: "InsertCommit cr d w (va_Seq v + 1) c received = Inr d1" and 2: "UpdateVaultHead d1 w (va_Seq v + 1) bytes = Inr d2"
    and 3: "DeleteRecords d2 w (cm_Purged c) = (d3, n)"
  obtains s row where "vault_verifies cr d v m s" and "vault_rows cr d v s" and "ApplyCommit cr s c m (deviceResolver d) = Inr t"
    and "cr_Vault row = w" "cr_Seq row = va_Seq v + 1" "cr_Head row = cm_Head c" "cr_CommitID row = h_Commit (cm_Head c)"
    and "t_commits d3 = t_commits d @ [row]" and "va_Seq v + 1 < 2 ^ 63"
    and "t_vaults d3 = map (\<lambda>u. if va_ID u = w then u\<lparr>va_Seq := va_Seq v + 1, va_Bytes := bytes\<rparr> else u) (t_vaults d)"
    and "t_member_ops d3 = t_member_ops d" "t_members d3 = t_members d" "t_devices d3 = t_devices d"
    and "\<And>i. i \<noteq> w \<Longrightarrow> vers_of d3 i = vers_of d i"
    and "holds (vers_of d3 w) (vs_leaves t)" "vers_ok (vers_of d3 w)"
      "\<And>r. r \<in> set (vers_of d3 w) \<Longrightarrow> r \<in> set (vers_of d w) \<or> faithful_row cr w r"
proof -
  have w: "va_ID v = w" using VaultByID_Some [OF v] by simp
  obtain m1 s where vv: "vault_verifies cr d v m1 s" and vr: "vault_rows cr d v s" using server_ok_vault [OF ok v] .
  have app: "ApplyCommit cr s c m (deviceResolver d) = Inr t" and m: "m1 = m"
    using vc vv w by (auto simp: verifyCommit_def result_simps vault_verifies_def)
  have vs: "vs_vault s = w" using vv w by (simp add: vault_verifies_def)
  have "unat (va_Seq v + 1) = Suc (unat (va_Seq v))" using vr by (simp add: vault_rows_def seq_suc)
  then have nz: "va_Seq v + 1 \<noteq> 0" by auto
  have hs: "holds (vers_of d w) (vs_leaves s)" "vers_ok (vers_of d w)" using vr w by (simp_all add: vault_rows_def)
  show thesis
    by (rule commit_tables [OF app vs hs nz 1 2 3], rule that [OF vv [unfolded m] vr app]) blast+
qed

lemma commit_rows_ok:
  assumes ok: "server_ok cr d" and v: "VaultByID d w = Some v" and vc: "verifyCommit cr d w c = Inr (m, t)"
    and 1: "InsertCommit cr d w (va_Seq v + 1) c received = Inr d1" and 2: "UpdateVaultHead d1 w (va_Seq v + 1) bytes = Inr d2"
    and 3: "DeleteRecords d2 w (cm_Purged c) = (d3, n)"
  shows "server_ok cr d3"
proof -
  have w: "va_ID v = w" "v \<in> set (t_vaults d)" using VaultByID_Some [OF v] by simp_all
  obtain s row where vv: "vault_verifies cr d v m s" and vr: "vault_rows cr d v s"
    and app: "ApplyCommit cr s c m (deviceResolver d) = Inr t"
    and row: "cr_Vault row = w" "cr_Seq row = va_Seq v + 1" "cr_Head row = cm_Head c" "cr_CommitID row = h_Commit (cm_Head c)"
    and com1: "t_commits d3 = t_commits d @ [row]" and lt: "va_Seq v + 1 < 2 ^ 63"
    and vt: "t_vaults d3 = map (\<lambda>u. if va_ID u = w then u\<lparr>va_Seq := va_Seq v + 1, va_Bytes := bytes\<rparr> else u) (t_vaults d)"
    and tab: "t_member_ops d3 = t_member_ops d" "t_members d3 = t_members d" "t_devices d3 = t_devices d"
    and other: "\<And>i. i \<noteq> w \<Longrightarrow> vers_of d3 i = vers_of d i"
    and vers: "holds (vers_of d3 w) (vs_leaves t)" "vers_ok (vers_of d3 w)"
      "\<And>r. r \<in> set (vers_of d3 w) \<Longrightarrow> r \<in> set (vers_of d w) \<or> faithful_row cr w r"
    by (rule commit_rows [OF ok v vc 1 2 3]) blast
  have m: "replayMembership cr d w = Inr m" using vv w by (simp add: vault_verifies_def)
  have vs: "vs_vault s = w" "cur_Seq (vs_cursor s) = va_Seq v" using vv w by (simp_all add: vault_verifies_def)
  have suc: "unat (va_Seq v + 1) = Suc (unat (va_Seq v))" using vr by (simp add: vault_rows_def seq_suc)
  have ops: "ops_of d3 i = ops_of d i" and mem: "members_of d3 i = members_of d i" for i
    by (simp_all add: ops_of_def members_of_def tab)
  have com: "commits_of d3 i = commits_of d i @ (if i = w then [row] else [])" for i by (simp add: commits_of_def com1 row)
  have kept: "kept d d3 i" if "i \<noteq> w" for i using that ops com mem other by (intro kept_same) simp_all
  have old: "commits_ok (commits_of d w)" "length (commits_of d w) = unat (va_Seq v)" "va_Seq v < 2 ^ 63"
    using vr w by (simp_all add: vault_rows_def)
  have com_ok: "commits_ok (commits_of d3 w)" using commits_ok_snoc [OF old row(2)] by (simp add: com)
  have "currentState cr d3 w = Inr t"
    using commit_current [OF app vs(1) com_ok] vers row(3) by (simp add: com)
  moreover have "replayMembership cr d3 w = Inr m"
    using m by (simp add: replayMembership_def MemberOps_def tab signatureCheck_def [abs_def] DeviceByID_def)
  moreover have cur: "vs_vault t = w" "Advance cr (vs_cursor s) (cm_Head c) = Inr (vs_cursor t)"
    using commit_step_cursor [of cr s "(c, m, deviceResolver d)" t] app vs(1) by (simp_all add: commit_step_def)
  moreover have "cur_Seq (vs_cursor t) = va_Seq v + 1" using cur(2) vs(2) by (auto simp: Advance_Inr VerifyLink_None)
  moreover have "AdvanceAll cr \<lparr>cur_Seq = 0, cur_Hash = sha256 cr (genesis_preimage w), cur_MembershipSeq = 0\<rparr>
      (map cr_Head (commits_of d3 w)) = Inr (vs_cursor t)"
    using vv w row(3) cur(2) by (simp add: vault_verifies_def com AdvanceAll_replay replay_append)
  ultimately have "vault_verifies cr d3 (v\<lparr>va_Seq := va_Seq v + 1, va_Bytes := bytes\<rparr>) m t"
    using vv w by (simp add: vault_verifies_def MemberRole_view mem)
  moreover have "vault_rows cr d3 (v\<lparr>va_Seq := va_Seq v + 1, va_Bytes := bytes\<rparr>) t"
    using vr w com_ok old suc lt vers by (auto simp: vault_rows_def ops com)
  ultimately have new: "vault_ok cr d3 (v\<lparr>va_Seq := va_Seq v + 1, va_Bytes := bytes\<rparr>)" by (auto simp: vault_ok_def)
  have uniq: "u = v" if "u \<in> set (t_vaults d)" "va_ID u = w" for u
    using ok that w by (auto simp: server_ok_def distinct_map inj_on_def)
  show ?thesis
  proof (rule server_ok_touch [OF ok, where w = w])
    show "devs_le d d3" by (simp add: devs_le_same tab)
    show "distinct (map va_ID (t_vaults d3))"
      using ok by (simp add: vt server_ok_def comp_def if_distrib [of va_ID] cong: if_cong)
    show "vault_ok cr d3 v'" if "v' \<in> set (t_vaults d3)" "va_ID v' = w" for v'
      using that new uniq by (auto simp: vt split: if_splits)
    show "\<exists>u \<in> set (t_vaults d). vault_key u = vault_key v'" if "v' \<in> set (t_vaults d3)" "va_ID v' \<noteq> w" for v'
      using that by (auto simp: vt split: if_splits)
    show "set (map va_ID (t_vaults d)) \<subseteq> set (map va_ID (t_vaults d3))" "w \<in> set (map va_ID (t_vaults d3))"
      using w by (force simp: vt)+
  qed (use kept in auto)
qed

end
