(* ===== verification/Server_Reachable.thy ===== *)
theory Server_Reachable
  imports Server_Steps
begin

text \<open>
  The databases a server can reach. \<open>server_step\<close> has one rule for each use case that writes to the database, with
  every argument, clock reading and random byte left open, except the operator's removal of an account; starting from the
  empty database, \<open>server_run\<close> is any sequence of them, accepted or refused. The properties of reachable databases
  follow by rule induction.
\<close>

section \<open>Transactions that keep an invariant\<close>

text \<open>What a use case owes the store: its transaction, when it succeeds, leaves the invariant in force. A transaction
  that fails leaves the database as it was, so the invariant holds after every \<open>WithTx\<close>.\<close>

locale keeping_tx =
  fixes inv :: "db \<Rightarrow> bool" and fn :: "db \<Rightarrow> (db \<times> 'a) uc_result"
  assumes fn_keeps: "inv d \<Longrightarrow> fn d = Inr (d', x) \<Longrightarrow> inv d'"
begin

lemma WithTx_keeps: "inv d \<Longrightarrow> inv (fst (WithTx fn d))"
  using fn_keeps by (auto simp: WithTx_def split: sum.splits)

lemma WithTx_refused: "WithTx fn d = (d', Inl err) \<Longrightarrow> d' = d"
  by (auto simp: WithTx_def split: sum.splits)

end

section \<open>Requests on vaults\<close>

lemma server_ok_ops: "server_ok cr d \<Longrightarrow> ops_ok (ops_of d w)"
  by (cases "w \<in> va_ID ` set (t_vaults d)")
     (auto simp: server_ok_def vault_ok_def vault_rows_def no_orphans_def ops_ok_def)

lemma server_ok_prune: "server_ok cr d \<Longrightarrow> pruneVault d w m now = Inr d' \<Longrightarrow> server_ok cr d'"
  using server_ok_kept pruneVault_kept server_ok_ops by metis

lemma CreateVault_keeps: "server_ok cr d \<Longrightarrow> server_ok cr (fst (Service_CreateVault cr p create d))"
proof -
  assume ok: "server_ok cr d"
  let ?v = "\<lparr>va_ID = o_Vault create, va_Owner = p_Account p, va_Seq = 0, va_MembershipSeq = 1,
     va_Bytes = 0, va_Personal = False, va_Deleted = False, va_PrunedSeq = 0\<rparr>"
  let ?fn = "\<lambda>d. if VaultByID d (o_Vault create) \<noteq> None then Inl [ErrForbidden]
    else bind_res (lift_res (NewMembershipState cr (o_Vault create))) (\<lambda>m.
      bind_res (refuse_res (member_step cr (signatureCheck cr d) m create)) (\<lambda>m.
      bind_res (InsertVault d ?v) (\<lambda>d.
      bind_res (AppendMemberOps d (o_Vault create) [create]) (\<lambda>d.
      bind_res (ReplaceMembers d (o_Vault create) (roles m)) (\<lambda>d. Inr (d, ()))))))"
  have "server_ok cr d'" if fn: "?fn d = Inr (d', x)" for d' x
  proof -
    from fn obtain m0 m d1 d2 where "VaultByID d (o_Vault create) = None" "NewMembershipState cr (o_Vault create) = Inr m0"
      "member_step cr (signatureCheck cr d) m0 create = Inr m" "InsertVault d ?v = Inr d1"
      "AppendMemberOps d1 (o_Vault create) [create] = Inr d2" "ReplaceMembers d2 (o_Vault create) (roles m) = Inr d'"
      by (auto simp: result_simps split: if_split_asm)
    then show ?thesis by (intro new_vault_ok [OF ok, of ?v]) simp_all
  qed
  then show ?thesis using ok unfolding Service_CreateVault_def
    by (auto simp: WithTx_def split: option.splits sum.splits)
qed

lemma append_membership_keeps:
  assumes "server_ok cr d" and "append_membership cr p w ops now d = Inr (d', x)"
  shows "server_ok cr d'"
proof -
  from assms(2) obtain v r m0 m d1 d2 d3 where v: "requireMember d w (p_Account p) = Inr (v, r)"
    and m: "replayMembership cr d w = Inr m0" "replay (member_step cr (signatureCheck cr d)) m0 ops = Inr m"
    and s: "AppendMemberOps d w ops = Inr d1" "SetVaultMembershipSeq d1 w (ms_seq m) = Inr d2"
      "ReplaceMembers d2 w (roles m) = Inr d3" and prune: "pruneVault d3 w m now = Inr d'"
    by (auto simp: append_membership_def result_simps)
  have ok: "server_ok cr d3" using append_ops_ok [OF assms(1) _ m s] v by (simp add: requireMember_Inr)
  from server_ok_prune [OF ok prune] show ?thesis .
qed

text \<open>A commit that was not stored before: everything it passed, and the statements it ran.\<close>

lemma commit_tx_new:
  assumes "server_ok cr d" and "commit_tx cr cfg p w expectSeq c (t1, t2, t3) d = Inr (d', x)"
    and "CommitSeqByID d w (h_Commit (cm_Head c)) = None"
  obtains v r bytes m t d1 d2 e n where "requireMember d w (p_Account p) = Inr (v, r)" "expectSeq = va_Seq v"
    "checkQuota cfg v (cm_Records c) = Inr bytes" "verifyCommit cr d w c = Inr (m, t)" "int (VaultState_Len t) \<le> cfg_MaxRecords cfg"
    "checkPurgesDue d w m (cm_Purged c) t1 = Inr ()" "InsertCommit cr d w (va_Seq v + 1) c t2 = Inr d1"
    "UpdateVaultHead d1 w (va_Seq v + 1) bytes = Inr d2" "DeleteRecords d2 w (cm_Purged c) = (e, n)"
    "server_ok cr e" "all_kept e d'" "x = (va_Seq v + 1, Some (Members m))"
proof -
  from assms(2) obtain v r where v: "requireMember d w (p_Account p) = Inr (v, r)"
    by (auto simp: commit_tx_def result_simps)
  with assms(2,3) obtain bytes m t d1 d2 d3 where
    q: "expectSeq = va_Seq v" "checkQuota cfg v (cm_Records c) = Inr bytes" and vc: "verifyCommit cr d w c = Inr (m, t)"
    and lim: "int (VaultState_Len t) \<le> cfg_MaxRecords cfg" "checkPurgesDue d w m (cm_Purged c) t1 = Inr ()"
    and s: "InsertCommit cr d w (va_Seq v + 1) c t2 = Inr d1" "UpdateVaultHead d1 w (va_Seq v + 1) bytes = Inr d2"
    and purge: "usecase_applyPurges d2 w (cm_Purged c) = Inr d3" and prune: "pruneVault d3 w m t3 = Inr d'"
    and x: "x = (va_Seq v + 1, Some (Members m))"
    by (auto simp: commit_tx_def result_simps Let_def not_less)
  obtain e n where e: "DeleteRecords d2 w (cm_Purged c) = (e, n)" by (rule prod.exhaust)
  have w: "VaultByID d w = Some v" using v by (simp add: requireMember_Inr)
  have ok: "server_ok cr e" using commit_rows_ok [OF assms(1) w vc s e] .
  have k: "all_kept e d3" using purge e RaisePrunedSeq_kept by (auto simp: usecase_applyPurges_def split: if_splits)
  have "all_kept d3 d'" using pruneVault_kept [OF server_ok_ops [OF server_ok_kept [OF ok k]] prune] .
  with that [OF v q vc lim s e ok _ x] all_kept_trans [OF k] show thesis by blast
qed

lemma commit_tx_keeps:
  assumes "server_ok cr d" and "commit_tx cr cfg p w expectSeq c clk d = Inr (d', x)"
  shows "server_ok cr d'"
proof (cases "CommitSeqByID d w (h_Commit (cm_Head c))")
  case None
  obtain t1 t2 t3 where clk: "clk = (t1, t2, t3)" by (cases clk) auto
  from commit_tx_new [OF assms(1) assms(2) [unfolded clk] None] server_ok_kept show ?thesis by metis
next
  case (Some n)
  with assms show ?thesis by (cases clk) (auto simp: commit_tx_def result_simps)
qed

lemma PruneAll_keeps: "server_ok cr d \<Longrightarrow> server_ok cr (fst (prune_loop cr vs now d))"
proof (induction vs arbitrary: d)
  case (Cons v vs)
  let ?fn = "\<lambda>d. bind_res (replayMembership cr d v) (\<lambda>m. bind_res (pruneVault d v m now) (\<lambda>d. Inr (d, ())))"
  have "server_ok cr d'" if "?fn d = Inr (d', x)" for d' x
    using that server_ok_prune [OF Cons.prems] by (auto simp: result_simps)
  with Cons show ?case by (auto simp: WithTx_def split: sum.splits)
qed simp

section \<open>Requests on accounts and devices\<close>

lemma AppendDeviceEntries_Inr:
  "AppendDeviceEntries d a es = Inr d' \<Longrightarrow> d' = d\<lparr>t_device_entries := t_device_entries d'\<rparr>"
  by (induction es arbitrary: d) (force simp: result_simps)+

lemma find_append: "find P (xs @ ys) = (case find P xs of None \<Rightarrow> find P ys | Some x \<Rightarrow> Some x)"
  by (induction xs) auto

lemma InsertDevice_kept: "InsertDevice d v = Inr (d', b) \<Longrightarrow> all_kept d d'"
proof -
  assume "InsertDevice d v = Inr (d', b)"
  then have "d' = d \<or> d' = d\<lparr>t_devices := t_devices d @ [v]\<rparr>" by (auto simp: InsertDevice_def split: if_splits)
  moreover have "all_kept d (d\<lparr>t_devices := t_devices d @ [v]\<rparr>)"
    by (rule all_kept_same) (simp_all add: devs_le_def DeviceByID_def find_append)
  ultimately show ?thesis by auto
qed

lemma find_update:
  "(\<And>r. P (f r) = P r) \<Longrightarrow> find P (update_where Q f rows) = map_option (\<lambda>r. if Q r then f r else r) (find P rows)"
  by (induction rows) (auto simp: update_where_def)

lemma RevokeDevice_kept: "all_kept d (fst (RevokeDevice d a i))"
  by (rule all_kept_same) (auto simp: RevokeDevice_def devs_le_def DeviceByID_def find_update)

lemma DeleteTokens_kept: "all_kept d (DeleteTokensForDevice d i)"
  by (rule all_kept_same) (simp_all add: DeleteTokensForDevice_def devs_le_same)

lemma syncDevices_kept: "syncDevices d a es = Inr d' \<Longrightarrow> all_kept d d'"
proof (induction es arbitrary: d)
  case (Cons e es)
  consider (add) "d_Op e = OpAddDevice" | (revoke) "d_Op e = OpRevokeDevice" "d_Op e \<noteq> OpAddDevice"
    | (other) "d_Op e \<noteq> OpAddDevice" "d_Op e \<noteq> OpRevokeDevice" by blast
  then show ?case
  proof cases
    case add
    with Cons.prems obtain v d1 where d1: "InsertDevice d v = Inr (d1, True)" "syncDevices d1 a es = Inr d'"
      by (auto simp: usecase_insertDevice_def result_simps split: option.splits)
    from InsertDevice_kept [OF d1(1)] Cons.IH [OF d1(2)] show ?thesis by (rule all_kept_trans)
  next
    case revoke
    let ?d = "fst (RevokeDevice d a (d_Revoked e))"
    have "syncDevices (DeleteTokensForDevice ?d (d_Revoked e)) a es = Inr d'"
      using Cons.prems revoke by (auto simp: split_beta split: if_splits)
    from Cons.IH [OF this] show ?thesis using RevokeDevice_kept DeleteTokens_kept all_kept_trans by meson
  qed (use Cons in simp)
qed simp

lemma append_device_log_Inr:
  assumes "append_device_log cr p es d = Inr (d', x)"
  obtains a log0 log d1 where "AccountByID d (p_Account p) = Some a" "replayDeviceLog cr a (DeviceEntries d (a_ID a)) = Inr log0"
    "replay (device_step cr) log0 es = Inr log" "\<not> PendingSuccession log" "AppendDeviceEntries d (a_ID a) es = Inr d1"
    "syncDevices d1 (a_ID a) es = Inr d'" "x = ds_seq log"
proof -
  from assms obtain a where a: "AccountByID d (p_Account p) = Some a" by (auto simp: append_device_log_def split: option.split_asm)
  with assms obtain log0 where "replayDeviceLog cr a (DeviceEntries d (a_ID a)) = Inr log0"
    by (auto simp: append_device_log_def bind_res_Inr)
  with a assms obtain log where "replay (device_step cr) log0 es = Inr log"
    by (auto simp: append_device_log_def bind_res_Inr split: sum.split_asm)
  with a \<open>replayDeviceLog _ _ _ = _\<close> assms that show thesis by (auto simp: append_device_log_def result_simps)
qed

lemma append_device_log_keeps:
  assumes "server_ok cr d" and "append_device_log cr p es d = Inr (d', x)"
  shows "server_ok cr d'"
proof -
  from assms(2) obtain a log0 log d1 where "AccountByID d (p_Account p) = Some a" "replayDeviceLog cr a (DeviceEntries d (a_ID a)) = Inr log0"
    "replay (device_step cr) log0 es = Inr log" "\<not> PendingSuccession log" and 1: "AppendDeviceEntries d (a_ID a) es = Inr d1"
    and 2: "syncDevices d1 (a_ID a) es = Inr d'" and "x = ds_seq log"
    by (rule append_device_log_Inr)
  have "all_kept d d1" by (subst AppendDeviceEntries_Inr [OF 1], rule all_kept_same) (simp_all add: devs_le_same)
  from all_kept_trans [OF this syncDevices_kept [OF 2]] assms(1) show ?thesis using server_ok_kept by blast
qed

text \<open>A first device and a personal vault: the vault's creation was checked against the log of that device.\<close>

lemma verifyGenesis_Inr:
  assumes "verifyGenesis cr a entry create = Inr (v, members)"
  obtains m0 m where "dv_Account v = a_ID a" "o_Author create = a_ID a" "o_AuthorDevice create = dv_ID v"
    "NewMembershipState cr (o_Vault create) = Inr m0" "members = roles m"
    "\<And>d. DeviceByID d (dv_ID v) = Some v \<Longrightarrow> member_step cr (signatureCheck cr d) m0 create = Inr m"
proof -
  let ?check = "\<lambda>log account dev alg msg sig. case DeviceKey log dev of Inl _ \<Rightarrow> Some [ErrBadSignature]
    | Inr key \<Rightarrow> if account \<noteq> a_ID a then Some [ErrBadSignature] else VerifySignature cr alg key msg sig"
  from assms obtain cert log0 log m0 m where cert: "d_Cert entry = Some cert" "d_Op entry = OpAddDevice"
    and log: "NewDeviceLogState cr (a_ID a) Suite1 (a_IdentityKey a) (a_EncryptionKey a) = Inr log0" "device_step cr log0 entry = Inr log"
    and v: "v = \<lparr>dv_ID = c_Device cert, dv_Account = a_ID a, dv_SigningKey = c_SigningKey cert, dv_Revoked = False\<rparr>"
    and create: "o_Kind create = MemberCreate" "o_Author create = a_ID a" "o_AuthorDevice create = c_Device cert"
    and m: "NewMembershipState cr (o_Vault create) = Inr m0" "member_step cr (?check log) m0 create = Inr m"
    and mem: "members = fmap_of_list [(a_ID a, RoleOwner)]"
    by (auto simp: verifyGenesis_def result_simps Let_def split: option.split_asm if_split_asm)
  have key: "DeviceKey log (c_Device cert) = Inr (c_SigningKey cert)"
    using log(2) cert unfolding device_step_Inr by (auto elim!: applyOp_cases simp: DeviceKey_def)
  have "member_step cr (signatureCheck cr d) m0 create = Inr m" if "DeviceByID d (dv_ID v) = Some v" for d
  proof -
    have "signatureCheck cr d (o_Author create) (o_AuthorDevice create) alg msg sig =
        ?check log (o_Author create) (o_AuthorDevice create) alg msg sig" for alg msg sig
      using that create key v by (simp add: signatureCheck_def)
    then show ?thesis using m(2) by (intro member_step_check [OF _ m(2)]) simp
  qed
  moreover have "members = roles m"
  proof (rule fmap_ext)
    obtain n where n: "applyKind cr (m0\<lparr>ms_params := suite1_params\<rparr>) create = Inr n" "ms_members m = ms_members n" "ms_deleted m = ms_deleted n"
      using m(2) by (auto simp: member_step_Inr)
    have "ms_members n = fmupd (a_ID a) RoleOwner fmempty" "\<not> ms_deleted n"
      using n(1) create m(1) by (auto elim!: applyKind_cases simp: NewMembershipState_Inr)
    then show "fmlookup members x = fmlookup (roles m) x" for x
      using n by (auto simp: mem fmlookup_roles fmap_of_list.rep_eq MembershipState_Role_def)
  qed
  ultimately show thesis using that m create v by simp
qed

lemma InsertAccount_kept: "InsertAccount d a = Inr d' \<Longrightarrow> all_kept d d'"
  by (auto simp: InsertAccount_def result_simps devs_le_same intro!: all_kept_same)

lemma ConsumeInvite_kept: "ConsumeInvite d h now a = Inr (d', b) \<Longrightarrow> all_kept d d'"
  by (auto simp: ConsumeInvite_def result_simps devs_le_same intro!: all_kept_same)

lemma all_kept_no_vault: "all_kept d d' \<Longrightarrow> VaultByID d i = None \<Longrightarrow> VaultByID d' i = None"
proof -
  assume "all_kept d d'" and none: "VaultByID d i = None"
  then have "fst ` set (map vault_key (t_vaults d')) = fst ` set (map vault_key (t_vaults d))" by (simp only: all_kept_def)
  then show ?thesis using none by (simp add: VaultByID_None image_image vault_key_def)
qed

lemma storeRegistration_keeps:
  assumes ok: "server_ok cr d" and gen: "verifyGenesis cr a (rg_Device r) (rg_Vault r) = Inr (v, members)"
    and new: "VaultByID d (o_Vault (rg_Vault r)) = None" and store: "storeRegistration d a v r members = Inr d'"
  shows "server_ok cr d'"
proof -
  from gen obtain m0 m where "dv_Account v = a_ID a" "o_Author (rg_Vault r) = a_ID a" "o_AuthorDevice (rg_Vault r) = dv_ID v"
    and m: "NewMembershipState cr (o_Vault (rg_Vault r)) = Inr m0" "members = roles m"
    "\<And>d. DeviceByID d (dv_ID v) = Some v \<Longrightarrow> member_step cr (signatureCheck cr d) m0 (rg_Vault r) = Inr m"
    by (rule verifyGenesis_Inr) blast
  let ?vault = "\<lparr>va_ID = o_Vault (rg_Vault r), va_Owner = a_ID a, va_Seq = 0, va_MembershipSeq = 1, va_Bytes = 0,
        va_Personal = True, va_Deleted = False, va_PrunedSeq = 0\<rparr>"
  from store obtain d1 d2 d3 d4 d5 where 1: "InsertAccount d a = Inr d1" and 2: "AppendDeviceEntries d1 (a_ID a) [rg_Device r] = Inr d2"
    and 3: "InsertDevice d2 v = Inr (d3, True)" and 4: "InsertVault d3 ?vault = Inr d4"
    and 5: "AppendMemberOps d4 (o_Vault (rg_Vault r)) [rg_Vault r] = Inr d5"
    and 6: "ReplaceMembers d5 (o_Vault (rg_Vault r)) members = Inr d'"
    by (auto simp: storeRegistration_def usecase_insertDevice_def bind_res_Inr split: if_split_asm simp del: AppendDeviceEntries.simps AppendMemberOps.simps)
  have "all_kept d1 d2" by (subst AppendDeviceEntries_Inr [OF 2], rule all_kept_same) (simp_all add: devs_le_same)
  then have kept: "all_kept d d3"
    using InsertAccount_kept [OF 1] InsertDevice_kept [OF 3] all_kept_trans by blast
  have "find (\<lambda>r. dv_ID r = dv_ID v) (t_devices d2) = None" "t_devices d3 = t_devices d2 @ [v]"
    using 3 by (auto simp: InsertDevice_def find_None_iff list_ex_iff split: if_splits)
  then have "DeviceByID d3 (dv_ID v) = Some v" by (simp add: DeviceByID_def find_append)
  from m(3) [OF this] show ?thesis
    using new_vault_ok [OF server_ok_kept [OF ok kept], of ?vault m0 "rg_Vault r" m d4 d5 d'] all_kept_no_vault [OF kept new] m(1,2) 4 5 6
    by simp
qed

lemma register_tx_Inr:
  assumes "register_tx cr ToUpper r a v members now d = Inr (d', x)"
  obtains d1 where "VaultByID d (o_Vault (rg_Vault r)) = None" "ConsumeInvite d (inviteHash cr ToUpper (rg_Invite r)) now (rg_Account r) = Inr (d1, True)"
    "storeRegistration d1 a v r members = Inr d'"
  using assms that by (auto simp: register_tx_def result_simps split: option.split_asm if_split_asm)

lemma RegisterFinish_cases:
  obtains err where "Service_RegisterFinish cr ak ToUpper r clk d = (d, Inl err)"
  | a v members where "verifyGenesis cr a (rg_Device r) (rg_Vault r) = Inr (v, members)"
      "Service_RegisterFinish cr ak ToUpper r clk d = WithTx (register_tx cr ToUpper r a v members (snd clk)) d"
proof (cases "validUsername (rg_Username r) \<and> rg_Bundle r \<noteq> [] \<and> length (rg_Bundle r) \<le> maxBundleSize \<and> ake_ValidateRecord ak (rg_Record r) = None")
  case False
  then have "\<exists>err. Service_RegisterFinish cr ak ToUpper r clk d = (d, Inl err)"
    by (auto simp: Service_RegisterFinish_def split: option.splits)
  then show thesis using that(1) by blast
next
  case True
  let ?a = "\<lparr>a_ID = rg_Account r, a_Username = rg_Username r, a_OPAQUERecord = rg_Record r, a_Bundle = rg_Bundle r,
    a_IdentityKey = rg_IdentityKey r, a_EncryptionKey = rg_EncryptionKey r, a_Created = fst clk, a_Frozen = False\<rparr>"
  show thesis
  proof (cases "verifyGenesis cr ?a (rg_Device r) (rg_Vault r)")
    case (Inl err)
    with True show thesis using that(1) by (simp add: Service_RegisterFinish_def)
  next
    case (Inr x)
    obtain v members where "x = (v, members)" by (cases x)
    with True Inr show thesis using that(2) [of ?a v members] by (simp add: Service_RegisterFinish_def)
  qed
qed

lemma RegisterFinish_keeps:
  assumes ok: "server_ok cr d"
  shows "server_ok cr (fst (Service_RegisterFinish cr ak ToUpper r clk d))"
proof (cases rule: RegisterFinish_cases [of cr ak ToUpper r clk d])
  case (2 a v members)
  have "server_ok cr d'" if "register_tx cr ToUpper r a v members (snd clk) d = Inr (d', x)" for d' x
    using that
  proof (rule register_tx_Inr)
    fix d1 assume new: "VaultByID d (o_Vault (rg_Vault r)) = None" and store: "storeRegistration d1 a v r members = Inr d'"
      and inv: "ConsumeInvite d (inviteHash cr ToUpper (rg_Invite r)) (snd clk) (rg_Account r) = Inr (d1, True)"
    note k = ConsumeInvite_kept [OF inv]
    from storeRegistration_keeps [OF server_ok_kept [OF ok k] 2(1) all_kept_no_vault [OF k new] store] show ?thesis .
  qed
  then show ?thesis using ok unfolding 2(2) by (auto simp: WithTx_def split: sum.splits)
qed (use ok in simp)

text \<open>Requests that write to the accounts and tokens only, and to the invites only.\<close>

definition small_write :: "db \<Rightarrow> db \<Rightarrow> bool" where
  "small_write d d' \<longleftrightarrow> d' = d\<lparr>t_accounts := t_accounts d', t_tokens := t_tokens d'\<rparr>"

definition invite_write :: "db \<Rightarrow> db \<Rightarrow> bool" where
  "invite_write d d' \<longleftrightarrow> d' = d\<lparr>t_invites := t_invites d'\<rparr>"

lemma small_write_kept: "small_write d d' \<Longrightarrow> all_kept d d'"
  unfolding small_write_def by (erule ssubst, rule all_kept_same) (simp_all add: devs_le_same)

lemma invite_write_kept: "invite_write d d' \<Longrightarrow> all_kept d d'"
  unfolding invite_write_def by (erule ssubst, rule all_kept_same) (simp_all add: devs_le_same)

lemma issueToken_small: "issueToken cr rnd now d a i k ttl = Inr (d', x) \<Longrightarrow> small_write d d'"
  by (auto simp: issueToken_def InsertToken_def result_simps Let_def small_write_def)

lemma WithTx_small:
  "(\<And>d' x. fn d = Inr (d', x) \<Longrightarrow> small_write d d') \<Longrightarrow> small_write d (fst (WithTx fn d))"
  by (auto simp: WithTx_def small_write_def split: sum.splits)

lemma CreateInvite_write: "invite_write d (fst (Service_CreateInvite cr ToUpper ttl rnd now d))"
  by (auto simp: Service_CreateInvite_def Let_def WithTx_def InsertInvite_def result_simps invite_write_def split: sum.splits)

lemma RevokeInvite_write: "invite_write d (fst (Service_RevokeInvite i d))"
  by (auto simp: Service_RevokeInvite_def WithTx_def DeleteUnusedInvite_def invite_write_def split: sum.splits if_splits)

lemma SetFrozen_small: "small_write d (fst (Service_SetFrozen username frozen d))"
  unfolding Service_SetFrozen_def by (intro WithTx_small) (auto simp: SetFrozen_def small_write_def split: if_splits)

lemma PasswordFinish_small: "small_write d (fst (Service_PasswordFinish cr ak p rec bundle sig d))"
proof (cases "bundle = [] \<or> length bundle > maxBundleSize \<or> ake_ValidateRecord ak rec \<noteq> None")
  case True
  then show ?thesis by (auto simp: Service_PasswordFinish_def small_write_def split: option.splits)
next
  case False
  then show ?thesis unfolding Service_PasswordFinish_def
    by (simp, intro WithTx_small)
       (auto simp: result_simps UpdateAccountCredentials_def DeleteTokensForAccountExcept_def small_write_def split: if_splits)
qed

lemma LoginFinish_small: "small_write d (fst (Service_LoginFinish cr ak loginID ip ke3 rnd clk d s))"
proof -
  have "small_write d d'" if "AccountByID d i = Some acct"
    "bind_res (issueToken cr rnd (snd clk) d (a_ID acct) 0 TokenAccount accountTokenTTL) (\<lambda>(d, token, _). Inr (d, f token)) = Inr (d', x)"
    for i acct f d' x
    using that(2) by (auto simp: result_simps dest: issueToken_small)
  then show ?thesis unfolding Service_LoginFinish_def
    by (auto simp: Let_def WithTx_def small_write_def split: prod.splits option.splits sum.splits)
qed

lemma DeviceVerify_small: "small_write d (fst (Service_DeviceVerify cr account device nonce sig rnd clk d s))"
  unfolding Service_DeviceVerify_def
  by (auto simp: WithTx_def result_simps small_write_def [of d d] split: prod.splits sum.splits if_splits dest: issueToken_small)

section \<open>Reachable databases\<close>

inductive server_step :: "crypto \<Rightarrow> db \<Rightarrow> db \<Rightarrow> bool" for cr where
  create_vault: "server_step cr d (fst (Service_CreateVault cr p create d))"
| append_membership: "server_step cr d (fst (Service_AppendMembership cr p w ops now d))"
| commit: "server_step cr d (fst (Service_Commit cr cfg p w expectSeq c clk d))"
| prune: "server_step cr d (fst (Service_PruneAll cr now d))"
| append_device_log: "server_step cr d (fst (Service_AppendDeviceLog cr p es d))"
| register: "server_step cr d (fst (Service_RegisterFinish cr ak ToUpper r clk d))"
| login: "server_step cr d (fst (Service_LoginFinish cr ak loginID ip ke3 rnd clk d s))"
| device_verify: "server_step cr d (fst (Service_DeviceVerify cr account device nonce sig rnd clk d s))"
| password: "server_step cr d (fst (Service_PasswordFinish cr ak p rec bundle sig d))"
| create_invite: "server_step cr d (fst (Service_CreateInvite cr ToUpper ttl rnd now d))"
| revoke_invite: "server_step cr d (fst (Service_RevokeInvite i d))"
| set_frozen: "server_step cr d (fst (Service_SetFrozen username frozen d))"

inductive server_run :: "crypto \<Rightarrow> db \<Rightarrow> bool" for cr where
  start: "server_run cr empty_db"
| request: "server_run cr d \<Longrightarrow> server_step cr d d' \<Longrightarrow> server_run cr d'"

lemma server_ok_empty: "server_ok cr empty_db"
  by (simp add: server_ok_def no_orphans_def empty_db_def view_defs)

interpretation commit_keeps: keeping_tx "server_ok cr" "commit_tx cr cfg p w expectSeq c clk" for cr cfg p w expectSeq c clk
  by unfold_locales (rule commit_tx_keeps)

interpretation append_keeps: keeping_tx "server_ok cr" "append_membership cr p w ops now" for cr p w ops now
  by unfold_locales (rule append_membership_keeps)

interpretation device_log_keeps: keeping_tx "server_ok cr" "append_device_log cr p es" for cr p es
  by unfold_locales (rule append_device_log_keeps)

lemma service_fst:
  "fst (Service_AppendMembership cr p w ops now d) = d \<or>
    fst (Service_AppendMembership cr p w ops now d) = fst (WithTx (append_membership cr p w ops now) d)"
  "fst (Service_Commit cr cfg p w expectSeq c clk d) = d \<or>
    fst (Service_Commit cr cfg p w expectSeq c clk d) = fst (WithTx (commit_tx cr cfg p w expectSeq c clk) d)"
  "fst (Service_AppendDeviceLog cr p es d) = d \<or>
    fst (Service_AppendDeviceLog cr p es d) = fst (WithTx (append_device_log cr p es) d)"
  by (auto simp: Service_AppendMembership_def Service_Commit_def Service_AppendDeviceLog_def split: option.splits prod.splits sum.splits)

lemma server_step_ok: "server_step cr d d' \<Longrightarrow> server_ok cr d \<Longrightarrow> server_ok cr d'"
proof (induction rule: server_step.induct)
  case (append_membership d p w ops now)
  then show ?case using service_fst(1) [of cr p w ops now d] append_keeps.WithTx_keeps [of cr d p w ops now] by auto
next
  case (commit d cfg p w expectSeq c clk)
  then show ?case using service_fst(2) [of cr cfg p w expectSeq c clk d] commit_keeps.WithTx_keeps [of cr d cfg p w expectSeq c clk] by auto
next
  case (append_device_log d p es)
  then show ?case using service_fst(3) [of cr p es d] device_log_keeps.WithTx_keeps [of cr d p es] by auto
next
  case (prune d now)
  then show ?case by (simp add: Service_PruneAll_def PruneAll_keeps)
qed (auto intro: CreateVault_keeps RegisterFinish_keeps server_ok_kept small_write_kept LoginFinish_small DeviceVerify_small
    PasswordFinish_small SetFrozen_small invite_write_kept CreateInvite_write RevokeInvite_write)

lemma server_run_ok: "server_run cr d \<Longrightarrow> server_ok cr d"
  by (induction rule: server_run.induct) (auto intro: server_ok_empty server_step_ok)

end
