(* ===== verification/Server_Sample.thy ===== *)
theory Server_Sample
  imports Server_Reachable
begin

text \<open>
  A sample run of the server, for the witnesses of the properties: an operator creates an invite, account 4 registers
  with device 7 and its personal vault 1, and the device commits a tombstone of record 8. The hash is constant and
  every signature of the right size verifies.
\<close>

definition sv_crypto :: crypto where
  "sv_crypto = \<lparr>sha256 = (\<lambda>_. 0), sha512 = (\<lambda>_. replicate 64 0), ed25519_Verify = (\<lambda>_ _ _. True)\<rparr>"

definition sv_ake :: ake where
  "sv_ake = \<lparr>ake_RegistrationResponse = (\<lambda>_ _. Inr []), ake_ValidateRecord = (\<lambda>_. None), ake_LoginStart = (\<lambda>_ _ _. Inr ([], [])),
     ake_LoginStartUnknown = (\<lambda>_ _. Inr []), ake_LoginFinish = (\<lambda>_ _. None)\<rparr>"

definition sv_entry :: DeviceEntry where "sv_entry = dl_add (replicate 64 0) 1 0"

definition sv_create :: MemberOp where "sv_create = ml_create\<lparr>o_Sig := replicate 64 0\<rparr>"

definition sv_reg :: Registration where
  "sv_reg = \<lparr>rg_Invite = ''AAAA'', rg_Username = ''anna'', rg_Account = 4, rg_Record = [], rg_IdentityKey = replicate 32 1,
     rg_EncryptionKey = replicate 1216 0, rg_Bundle = [0], rg_Device = sv_entry, rg_Vault = sv_create\<rparr>"

definition sv_account :: Account where
  "sv_account = \<lparr>a_ID = 4, a_Username = ''anna'', a_OPAQUERecord = [], a_Bundle = [0], a_IdentityKey = replicate 32 1,
     a_EncryptionKey = replicate 1216 0, a_Created = 0, a_Frozen = False\<rparr>"

definition sv_device :: Device where
  "sv_device = \<lparr>dv_ID = 7, dv_Account = 4, dv_SigningKey = replicate 32 9, dv_Revoked = False\<rparr>"

definition sv_vault :: Vault where
  "sv_vault = \<lparr>va_ID = 1, va_Owner = 4, va_Seq = 0, va_MembershipSeq = 1, va_Bytes = 0, va_Personal = True, va_Deleted = False, va_PrunedSeq = 0\<rparr>"

definition sv_m :: MembershipState where
  "sv_m = ml_s1\<lparr>ms_hash := 0\<rparr>"

text \<open>The database after the invite, after the registration.\<close>

definition sv_d1 :: db where
  "sv_d1 = empty_db\<lparr>t_invites := [\<lparr>iv_Hash = be_bytes (0 :: hash32), iv_Expires = 1000, iv_UsedBy = None\<rparr>]\<rparr>"

definition sv_d2 :: db where
  "sv_d2 = empty_db\<lparr>t_accounts := [sv_account], t_invites := [\<lparr>iv_Hash = be_bytes (0 :: hash32), iv_Expires = 1000, iv_UsedBy = Some 4\<rparr>],
     t_device_entries := [\<lparr>er_Account = 4, er_Seq = 1, er_Entry = sv_entry\<rparr>], t_devices := [sv_device], t_vaults := [sv_vault],
     t_member_ops := [\<lparr>or_Vault = 1, or_Seq = 1, or_Op = sv_create\<rparr>],
     t_members := [\<lparr>mr_Vault = 1, mr_Account = 4, mr_Role = RoleOwner\<rparr>], t_participants := [(1, 4)]\<rparr>"

lemma sv_invite: "fst (Service_CreateInvite sv_crypto (\<lambda>s. s) 1000 (Some (replicate 16 0)) 0 empty_db) = sv_d1"
  by (simp add: Service_CreateInvite_def randomBytes_def inviteBytes_def Let_def WithTx_def InsertInvite_def sql_ints_def
      insert_row_def empty_db_def inviteHash_def sv_crypto_def sv_d1_def)

lemma sv_step:
  assumes "op_fits op" and "o_Vault op = ms_vault s" and "o_Seq op = ms_seq s + 1" and "o_Prev op = ms_hash s"
    and "o_AuthorDevice op |\<notin>| ms_revoked s" and "check (o_Author op) (o_AuthorDevice op) (o_SigAlg op) (encode_fields (op_fields op)) (o_Sig op) = None"
    and "\<not> ms_deleted s" and "ms_pendingRotation s \<longrightarrow> o_Kind op = MemberRotateEpoch"
    and "ms_seq s = 0 \<longleftrightarrow> o_Kind op = MemberCreate" and "o_Suite op = Suite1"
    and "applyKind sv_crypto (s\<lparr>ms_params := suite1_params\<rparr>) op = Inr n" and "t = n\<lparr>ms_seq := o_Seq op, ms_hash := 0\<rparr>"
  shows "member_step sv_crypto check s op = Inr t"
  using assms by (auto simp: member_step_Inr sv_crypto_def)

lemma sv_create_fits: "op_fits sv_create"
  by (simp add: op_fits_def op_fields_def op_head_def op_tail_def wrap_fields_def sv_create_def ml_op_defs fits_def MaxUint32_def
      label_defs del: word_of_nat_eq_0_iff)

lemma sv_s0_New: "NewMembershipState sv_crypto 1 = Inr ml_s0"
  unfolding NewMembershipState_Inr by (simp add: ml_s0_def sv_crypto_def)

lemma sv_create_step:
  assumes "\<And>msg. check 4 7 SigEd25519 msg (replicate 64 0) = None"
  shows "member_step sv_crypto check ml_s0 sv_create = Inr sv_m"
  by (rule sv_step, rule sv_create_fits)
     (simp_all add: sv_create_def ml_op_defs ml_s0_def applyKind_def applyCreate_Inr MaxRetentionDays_def assms,
      simp add: sv_m_def ml_state_defs)

lemma sv_utf8: "utf8_ValidString ''linux''" "utf8_ValidString ''laptop''"
  by code_simp+

lemma sv_log: "\<exists>log0 log. NewDeviceLogState sv_crypto 4 Suite1 (replicate 32 1) (replicate 1216 0) = Inr log0 \<and>
    device_step sv_crypto log0 sv_entry = Inr log \<and> DeviceKey log 7 = Inr (replicate 32 9)"
proof -
  obtain log0 where log0: "NewDeviceLogState sv_crypto 4 Suite1 (replicate 32 1) (replicate 1216 0) = Inr log0"
    unfolding NewDeviceLogState_Inr by simp
  have "entry_fits sv_entry" unfolding sv_entry_def by (rule dl_add_fits) simp
  then have "\<exists>log. device_step sv_crypto log0 sv_entry = Inr log \<and> DeviceKey log 7 = Inr (replicate 32 9)"
    using log0 unfolding NewDeviceLogState_Inr device_step_Inr
    by (simp add: VerifySignature_None applyOp_def addDevice_None)
       (simp add: sv_entry_def dl_add_def sv_crypto_def DeviceKey_def validateCert_def ID_IsZero_def
         maxDeviceNameBytes_def maxDevicePlatformBytes_def suite1_params_def sv_utf8)
  with log0 show ?thesis by blast
qed

lemma sv_genesis: "verifyGenesis sv_crypto sv_account sv_entry sv_create = Inr (sv_device, roles sv_m)"
proof -
  obtain log0 log where log: "NewDeviceLogState sv_crypto 4 Suite1 (replicate 32 1) (replicate 1216 0) = Inr log0"
    "device_step sv_crypto log0 sv_entry = Inr log" "DeviceKey log 7 = Inr (replicate 32 9)" using sv_log by blast
  let ?check = "\<lambda>account dev alg msg sig. case DeviceKey log dev of Inl _ \<Rightarrow> Some [ErrBadSignature]
    | Inr key \<Rightarrow> if account \<noteq> 4 then Some [ErrBadSignature] else VerifySignature sv_crypto alg key msg sig"
  have step: "member_step sv_crypto ?check ml_s0 sv_create = Inr sv_m"
    by (rule sv_create_step) (simp add: log(3) VerifySignature_None, simp add: sv_crypto_def)
  have "fmap_of_list [(4, RoleOwner)] = roles sv_m"
    by (rule fmap_ext) (simp add: fmlookup_roles fmap_of_list.rep_eq sv_m_def ml_state_defs MembershipState_Role_def)
  moreover have "d_Cert sv_entry = Some \<lparr>c_Device = 7, c_SigningKey = replicate 32 9, c_Name = ''laptop'', c_Platform = ''linux'', c_CreatedUnixMilli = 0\<rparr>"
    "d_Op sv_entry = OpAddDevice" "d_Seq sv_entry = 1" by (simp_all add: sv_entry_def dl_add_def)
  moreover have "o_Kind sv_create = MemberCreate" "o_Author sv_create = 4" "o_AuthorDevice sv_create = 7" "o_Vault sv_create = 1"
    by (simp_all add: sv_create_def ml_op_defs)
  moreover have acc: "a_ID sv_account = 4" "a_IdentityKey sv_account = replicate 32 1" "a_EncryptionKey sv_account = replicate 1216 0"
    by (simp_all add: sv_account_def)
  ultimately show ?thesis
    unfolding verifyGenesis_def acc using log(1,2) step sv_s0_New by (simp add: sv_device_def Let_def)
qed

lemma sv_roles: "sorted_list_of_fset (fmdom (roles sv_m)) = [4]" "fmlookup (roles sv_m) 4 = Some RoleOwner"
proof -
  have "fmdom (roles sv_m) = {|4|}"
    by (rule fset_eqI) (auto simp: fmlookup_dom_iff fmlookup_roles sv_m_def ml_state_defs split: if_splits)
  then show "sorted_list_of_fset (fmdom (roles sv_m)) = [4]" by (simp add: sorted_list_of_fset.rep_eq)
  show "fmlookup (roles sv_m) 4 = Some RoleOwner" by (simp add: fmlookup_roles sv_m_def ml_state_defs MembershipState_Role_def)
qed

lemma sv_store: "storeRegistration (empty_db\<lparr>t_invites := t_invites sv_d2\<rparr>) sv_account sv_device sv_reg (roles sv_m) = Inr sv_d2"
proof -
  have "o_Vault sv_create = 1" "o_Seq sv_create = 1" "o_Author sv_create = 4" "o_Subject sv_create = 0" "d_Seq sv_entry = 1"
    by (simp_all add: sv_create_def ml_op_defs sv_entry_def dl_add_def)
  then show ?thesis
    by (simp add: storeRegistration_def InsertAccount_def sql_ints_def insert_row_def empty_db_def sv_account_def sv_reg_def
        account_exists_def usecase_insertDevice_def InsertDevice_def sv_device_def InsertVault_def vault_exists_def
        add_participant_def ID_IsZero_def ReplaceMembers_def sv_roles)
       (simp add: sv_d2_def empty_db_def sv_account_def sv_device_def sv_vault_def)
qed

lemma sv_register: "Service_RegisterFinish sv_crypto sv_ake (\<lambda>s. s) sv_reg (0, 0) sv_d1 = (sv_d2, Inr ())"
proof -
  have v: "validUsername ''anna''" by code_simp
  have h: "inviteHash sv_crypto (\<lambda>s. s) x = be_bytes (0 :: hash32)" for x by (simp add: inviteHash_def sv_crypto_def)
  have consume: "ConsumeInvite sv_d1 (be_bytes (0 :: hash32)) 0 4 = Inr (empty_db\<lparr>t_invites := t_invites sv_d2\<rparr>, True)"
    by (simp add: ConsumeInvite_def sql_ints_def sv_d1_def sv_d2_def usable_def update_where_def changed_def)
  have acct: "\<lparr>a_ID = rg_Account sv_reg, a_Username = rg_Username sv_reg, a_OPAQUERecord = rg_Record sv_reg, a_Bundle = rg_Bundle sv_reg,
    a_IdentityKey = rg_IdentityKey sv_reg, a_EncryptionKey = rg_EncryptionKey sv_reg, a_Created = 0, a_Frozen = False\<rparr> = sv_account"
    by (simp add: sv_reg_def sv_account_def)
  have reg: "rg_Account sv_reg = 4" "rg_Username sv_reg = ''anna''" "rg_Bundle sv_reg = [0]" "rg_Device sv_reg = sv_entry" "rg_Vault sv_reg = sv_create"
    by (simp_all add: sv_reg_def)
  have free: "checkIdentifiersFree sv_d1 ''anna'' 4 = None" "VaultByID sv_d1 i = None" for i
    by (simp_all add: checkIdentifiersFree_def AccountByUsername_def AccountByID_def VaultByID_def sv_d1_def empty_db_def)
  show ?thesis
    unfolding Service_RegisterFinish_def register_tx_def fst_conv snd_conv acct h
    using v sv_genesis free consume sv_store
    by (simp add: reg sv_ake_def maxBundleSize_def Let_def WithTx_def)
qed

lemma sv_run2: "server_run sv_crypto sv_d2"
proof -
  have "server_run sv_crypto sv_d1"
    unfolding sv_invite [symmetric] by (rule server_run.request [OF server_run.start server_step.create_invite])
  from server_run.request [OF this server_step.register [of sv_crypto sv_d1 sv_ake "\<lambda>s. s" sv_reg "(0, 0)"]]
  show ?thesis by (simp add: sv_register)
qed

section \<open>A commit\<close>

definition sv_env :: Envelope where "sv_env = vc_env\<lparr>e_Epoch := 0\<rparr>"

definition sv_commit :: Commit where
  "sv_commit = \<lparr>cm_Head = \<lparr>h_Vault = 1, h_Seq = 1, h_PrevHash = 0, h_MerkleRoot = 0, h_CurrentEpoch = 0,
       h_MembershipSeq = 1, h_MembershipHead = 0, h_Commit = 8, h_Author = 7, h_ClientTimeUnixMilli = 0,
       h_SigAlg = SigEd25519, h_Sig = replicate 64 0\<rparr>,
     cm_Records = [sv_env], cm_Purged = []\<rparr>"

definition sv_principal :: Principal where
  "sv_principal = \<lparr>p_Account = 4, p_Device = 7, p_Kind = TokenAccess\<rparr>"

definition sv_cfg :: Config where
  "sv_cfg = New \<lparr>cfg_PersonalQuota = 0, cfg_TeamQuota = 0, cfg_MaxRecords = 0\<rparr>"

definition sv_leaf :: Leaf where "sv_leaf = \<lparr>l_Record = 8, l_Version = 1, l_Digest = 0, l_Deleted = True\<rparr>"

definition sv_s0 :: VaultState where
  "sv_s0 = \<lparr>vs_vault = 1, vs_cursor = \<lparr>cur_Seq = 0, cur_Hash = 0, cur_MembershipSeq = 0\<rparr>, vs_leaves = fmempty\<rparr>"

definition sv_s1 :: VaultState where
  "sv_s1 = \<lparr>vs_vault = 1, vs_cursor = \<lparr>cur_Seq = 1, cur_Hash = 0, cur_MembershipSeq = 1\<rparr>, vs_leaves = fmupd 8 sv_leaf fmempty\<rparr>"

definition sv_d3 :: db where
  "sv_d3 = sv_d2\<lparr>t_vaults := [sv_vault\<lparr>va_Seq := 1\<rparr>],
     t_commits := [\<lparr>cr_Vault = 1, cr_Seq = 1, cr_CommitID = 8, cr_Head = cm_Head sv_commit, cr_Purged = [], cr_Received = 0\<rparr>],
     t_versions := [\<lparr>rv_Vault = 1, rv_Record = 8, rv_Version = 1, rv_Seq = 1, rv_Epoch = 0, rv_Size = 0, rv_Envelope = sv_env,
       rv_Digest = 0, rv_Deleted = True\<rparr>]\<rparr>"

lemma sv_env_facts: "Envelope_Verify sv_crypto sv_env (replicate 32 9) = None" "LeafOf sv_crypto sv_env = Inr sv_leaf"
  "Envelope_Digest sv_crypto sv_env = Inr 0"
proof -
  have valid: "Envelope_Validate sv_env = None"
    by (simp add: Envelope_Validate_def validateContent_def sv_env_def vc_env_def ID_IsZero_def ed25519_SignatureSize_def)
  then have bytes: "Envelope_SigningBytes sv_env = Inr (encode_fields (envelope_fields sv_env))"
    using Envelope_Validate_fits(1) [OF valid] by (simp add: Envelope_SigningBytes_fields canon_result_def)
  then show "Envelope_Verify sv_crypto sv_env (replicate 32 9) = None"
    unfolding Envelope_Verify_None using valid by (simp add: VerifySignature_None) (simp add: sv_env_def vc_env_def sv_crypto_def)
  have "fits (encode_fields (envelope_fields sv_env))"
    by (simp add: fits_def envelope_fields_def sv_env_def vc_env_def label_defs MaxUint32_def)
  with bytes show d: "Envelope_Digest sv_crypto sv_env = Inr 0"
    using Envelope_Validate_fits(2) [OF valid] by (simp add: Envelope_Digest_fields canon_digest_def label_defs fits_def MaxUint32_def sv_crypto_def)
  then show "LeafOf sv_crypto sv_env = Inr sv_leaf" by (simp add: LeafOf_def sv_leaf_def sv_env_def vc_env_def)
qed

lemma sv_head_fits: "head_fits (cm_Head sv_commit)"
  by (simp add: head_fits_def fits_def head_fields_def label_defs MaxUint32_def sv_commit_def)

lemma sv_leaves: "VaultState_Leaves sv_s1 = [sv_leaf]" "MerkleRoot sv_crypto [sv_leaf] = Inr 0"
  by (simp add: VaultState_Leaves_def sv_s1_def sorted_list_of_fset.rep_eq)
     (simp add: MerkleRoot_eq build.simps leaf_key_def sv_leaf_def, simp add: sv_crypto_def)

lemma sv_apply: "ApplyCommit sv_crypto sv_s0 sv_commit sv_m (deviceResolver sv_d2) = Inr sv_s1"
proof -
  have auth: "authorizeAuthor sv_crypto (cm_Head sv_commit) sv_m (deviceResolver sv_d2) = Inr (4, replicate 32 9)"
    unfolding authorizeAuthor_Inr
    by (simp add: Head_Verify_def Head_SigningBytes_eq VerifySignature_None deviceResolver_def DeviceByID_def)
       (simp add: sv_commit_def sv_d2_def sv_device_def sv_crypto_def IsDeviceRevoked_def MembershipState_Role_def sv_m_def ml_state_defs)
  have rec: "records_loop sv_crypto 1 7 (replicate 32 9) 0 [sv_env] {||} fmempty = Inr (fmupd 8 sv_leaf fmempty)"
    using sv_env_facts by (simp add: leaf_version_def) (simp add: sv_env_def vc_env_def)
  have adv: "Advance sv_crypto (vs_cursor sv_s0) (cm_Head sv_commit) = Inr (vs_cursor sv_s1)"
    using sv_head_fits by (simp add: Advance_Inr VerifyLink_None sv_s0_def sv_s1_def) (simp add: sv_commit_def sv_crypto_def)
  show ?thesis
    unfolding ApplyCommit_Inr
    by (intro exI [of _ 4] exI [of _ "replicate 32 9"] exI [of _ "fmupd 8 sv_leaf fmempty"])
       (use auth rec adv sv_leaves in \<open>simp add: sv_commit_def sv_m_def ml_state_defs sv_s0_def sv_s1_def VerifyLink_None\<close>)
qed

lemma sv_vault2: "VaultByID sv_d2 1 = Some sv_vault" "MemberRole sv_d2 1 4 = RoleOwner" "VaultByID sv_d3 1 = Some (sv_vault\<lparr>va_Seq := 1\<rparr>)"
  by (simp_all add: VaultByID_def MemberRole_def sv_d3_def sv_d2_def sv_vault_def)

lemma sv_replay: "replayMembership sv_crypto sv_d2 1 = Inr sv_m"
proof -
  have "MemberOps sv_d2 1 = [sv_create]" by (simp add: MemberOps_def sv_d2_def)
  moreover have "member_step sv_crypto (signatureCheck sv_crypto sv_d2) ml_s0 sv_create = Inr sv_m"
    by (rule sv_create_step)
       (simp add: signatureCheck_def DeviceByID_def sv_d2_def sv_device_def VerifySignature_None, simp add: sv_crypto_def)
  ultimately show ?thesis by (simp add: replayMembership_def sv_s0_New lift_res_def)
qed

lemma sv_current: "currentState sv_crypto sv_d2 1 = Inr sv_s0"
  by (simp add: currentState_def LatestHead_def CurrentLeaves_def RestoreVaultStateFromLeaves_def lift_res_def
      NewVaultState_def GenesisCursor_eq sv_d2_def empty_db_def sv_s0_def)
     (simp add: sv_crypto_def)

lemma sv_commit_fields: "h_Commit (cm_Head sv_commit) = 8" "cm_Records sv_commit = [sv_env]" "cm_Purged sv_commit = []"
  "h_Author (cm_Head sv_commit) = 7" "e_Record sv_env = 8" "e_Version sv_env = 1" "e_Epoch sv_env = 0" "e_Deleted sv_env"
  "e_WrappedDEK sv_env = []" "e_Body sv_env = []"
  by (simp_all add: sv_commit_def sv_env_def vc_env_def)

lemma sv_prune: "pruneVault sv_d3 1 sv_m 0 = Inr sv_d3"
proof -
  have "retiredEpochs sv_d3 1 sv_m 0 = []"
    by (simp add: retiredEpochs_def RetiredEpochs_def EpochRetired_def sv_m_def ml_state_defs)
  moreover have "ms_retentionDays sv_m = 30" by (simp add: sv_m_def ml_state_defs)
  ultimately show ?thesis
    by (simp add: pruneVault_def Let_def usecase_dayMillis_def DeleteEpochVersions_def stripRetiredWraps_def RecomputeBytes_def
        update_where_def sv_d3_def sv_d2_def sv_vault_def)
qed

lemma sv_commit_ok:
  "Service_Commit sv_crypto sv_cfg sv_principal 1 0 sv_commit (0, 0, 0) sv_d2 =
    (sv_d3, Inr 1, Some ([4], zero_event\<lparr>ev_Vault := 1, ev_Seq := 1\<rparr>))"
proof -
  have quota: "checkQuota sv_cfg sv_vault [sv_env] = Inr 0"
    by (simp add: checkQuota_def sv_cfg_def New_def sv_vault_def sv_commit_fields)
  have verify: "verifyCommit sv_crypto sv_d2 1 sv_commit = Inr (sv_m, sv_s1)"
    using sv_apply by (simp add: verifyCommit_def sv_replay sv_current refuse_res_def)
  have len: "VaultState_Len sv_s1 = 1" "cfg_MaxRecords sv_cfg = 100000"
    by (simp_all add: VaultState_Len_def fcard.rep_eq sv_s1_def sv_cfg_def New_def Let_def)
  have mem: "Members sv_m = [4]" by (simp add: Members_def sv_m_def ml_state_defs sorted_list_of_fset.rep_eq)
  have store: "InsertCommit sv_crypto sv_d2 1 1 sv_commit 0 = Inr (sv_d3\<lparr>t_vaults := t_vaults sv_d2\<rparr>)"
    using sv_env_facts(3)
    by (simp add: InsertCommit_def sql_ints_def insert_row_def vault_exists_def sv_commit_fields lift_res_def envelope_size_def)
       (simp add: sv_d3_def sv_d2_def sv_vault_def empty_db_def)
  have upd: "UpdateVaultHead (sv_d3\<lparr>t_vaults := t_vaults sv_d2\<rparr>) 1 1 0 = Inr sv_d3"
    by (simp add: UpdateVaultHead_def sql_ints_def update_where_def sv_d2_def sv_d3_def sv_vault_def)
  have none: "CommitSeqByID sv_d2 1 8 = None" by (simp add: CommitSeqByID_def sv_d2_def empty_db_def)
  have v: "va_Seq sv_vault = 0" "\<not> va_Deleted sv_vault" by (simp_all add: sv_vault_def)
  have purge: "usecase_applyPurges sv_d3 1 [] = Inr sv_d3" by (simp add: usecase_applyPurges_def DeleteRecords_def)
  have "commit_tx sv_crypto sv_cfg sv_principal 1 0 sv_commit (0, 0, 0) sv_d2 = Inr (sv_d3, 1, Some [4])"
    using quota verify store upd purge sv_prune
    by (simp add: commit_tx_def requireMember_def sv_vault2 v sv_principal_def sv_commit_fields none len mem)
  then show ?thesis
    by (simp add: Service_Commit_def requireAccess_def WithTx_def sv_commit_fields maxRecordsPerCommit_def)
       (simp add: sv_principal_def ID_IsZero_def)
qed

lemma sv_run3: "server_run sv_crypto sv_d3"
  using server_run.request [OF sv_run2 server_step.commit [of sv_crypto sv_d2 sv_cfg sv_principal 1 0 sv_commit "(0, 0, 0)"]]
  by (simp add: sv_commit_ok)

section \<open>Revoking the device\<close>

definition sv_revoke :: DeviceEntry where
  "sv_revoke = sv_entry\<lparr>d_Seq := 2, d_Op := OpRevokeDevice, d_Cert := None, d_Revoked := 7\<rparr>"

definition sv_succession :: DeviceEntry where
  "sv_succession = dl_succession\<lparr>d_Seq := 3\<rparr>"

definition sv_log0 :: DeviceLogState where
  "sv_log0 = dl_start"

definition sv_log1 :: DeviceLogState where
  "sv_log1 = dl_start\<lparr>ds_devices := fmupd 7 \<lparr>st_cert = the (d_Cert sv_entry), st_revoked = False\<rparr> fmempty, ds_seq := 1\<rparr>"

definition sv_log2 :: DeviceLogState where
  "sv_log2 = sv_log1\<lparr>ds_devices := fmupd 7 \<lparr>st_cert = the (d_Cert sv_entry), st_revoked = True\<rparr> (ds_devices sv_log1), ds_pendingSuccession := True, ds_seq := 2\<rparr>"

definition sv_log3 :: DeviceLogState where
  "sv_log3 = sv_log2\<lparr>ds_superseded := [replicate 32 1], ds_identityKey := replicate 32 2, ds_pendingSuccession := False, ds_seq := 3\<rparr>"

definition sv_d4 :: db where
  "sv_d4 = sv_d2\<lparr>t_device_entries := t_device_entries sv_d2 @
      [\<lparr>er_Account = 4, er_Seq = 2, er_Entry = sv_revoke\<rparr>, \<lparr>er_Account = 4, er_Seq = 3, er_Entry = sv_succession\<rparr>],
     t_devices := [sv_device\<lparr>dv_Revoked := True\<rparr>]\<rparr>"

lemma sv_fits: "entry_fits sv_entry" "entry_fits sv_revoke" "entry_fits sv_succession"
  by (simp_all add: entry_fits_def entry_fields_def sv_revoke_def sv_succession_def sv_entry_def dl_add_def dl_succession_def
      cert_fields_def fits_def MaxUint32_def label_defs)

lemma sv_sig: "VerifySignature sv_crypto SigEd25519 k msg s = None \<longleftrightarrow> length k = 32 \<and> length s = 64"
  by (simp add: VerifySignature_None sv_crypto_def)

lemma sv_log_steps: "NewDeviceLogState sv_crypto 4 Suite1 (replicate 32 1) (replicate 1216 0) = Inr sv_log0"
  "device_step sv_crypto sv_log0 sv_entry = Inr sv_log1" "device_step sv_crypto sv_log1 sv_revoke = Inr sv_log2"
  "device_step sv_crypto sv_log2 sv_succession = Inr sv_log3"
proof -
  show "NewDeviceLogState sv_crypto 4 Suite1 (replicate 32 1) (replicate 1216 0) = Inr sv_log0"
    unfolding NewDeviceLogState_Inr by (simp add: sv_log0_def dl_start_def sv_crypto_def)
  have sha: "sha256 sv_crypto x = 0" for x by (simp add: sv_crypto_def)
  have cert: "d_Cert sv_entry = Some \<lparr>c_Device = 7, c_SigningKey = replicate 32 9, c_Name = ''laptop'', c_Platform = ''linux'', c_CreatedUnixMilli = 0\<rparr>"
    by (simp add: sv_entry_def dl_add_def)
  show "device_step sv_crypto sv_log0 sv_entry = Inr sv_log1"
    unfolding device_step_Inr sha using sv_fits(1)
    by (simp add: applyOp_def addDevice_None sv_log0_def sv_log1_def dl_start_def cert validateCert_def ID_IsZero_def
        maxDeviceNameBytes_def maxDevicePlatformBytes_def suite1_params_def sv_utf8)
       (simp add: sv_entry_def dl_add_def sv_sig)
  show "device_step sv_crypto sv_log1 sv_revoke = Inr sv_log2"
    unfolding device_step_Inr sha using sv_fits(2)
    by (simp add: applyOp_def revokeDevice_None sv_log1_def sv_log2_def dl_start_def)
       (simp add: sv_revoke_def sv_entry_def dl_add_def sv_sig)
  show "device_step sv_crypto sv_log2 sv_succession = Inr sv_log3"
    unfolding device_step_Inr sha using sv_fits(3)
    by (simp add: applyOp_def succeed_None sv_log1_def sv_log2_def sv_log3_def dl_start_def)
       (simp add: sv_succession_def dl_succession_def sv_sig)
qed

lemma sv_revocation:
  "Service_AppendDeviceLog sv_crypto sv_principal [sv_revoke, sv_succession] sv_d2 =
    (sv_d4, Inr (), Some ([4], zero_event\<lparr>ev_Account := 4, ev_DeviceLogSeq := 3\<rparr>))"
proof -
  have acct: "AccountByID sv_d2 4 = Some sv_account" "a_ID sv_account = 4" "a_IdentityKey sv_account = replicate 32 1"
    "a_EncryptionKey sv_account = replicate 1216 0"
    by (simp_all add: AccountByID_def sv_d2_def sv_account_def)
  have ents: "DeviceEntries sv_d2 4 = [sv_entry]" by (simp add: DeviceEntries_def sv_d2_def)
  have rep: "replayDeviceLog sv_crypto sv_account (DeviceEntries sv_d2 4) = Inr sv_log1"
    by (simp add: replayDeviceLog_def acct ents sv_log_steps lift_res_def)
  have seqs: "d_Seq sv_revoke = 2" "d_Seq sv_succession = 3" "d_Op sv_revoke = OpRevokeDevice" "d_Op sv_succession = OpSuccession" "d_Revoked sv_revoke = 7"
    by (simp_all add: sv_revoke_def sv_succession_def sv_entry_def dl_add_def dl_succession_def)
  have "AppendDeviceEntries sv_d2 4 [sv_revoke, sv_succession] = Inr (sv_d4\<lparr>t_devices := [sv_device]\<rparr>)"
    by (simp add: sql_ints_def insert_row_def account_exists_def seqs sv_d2_def sv_account_def sv_d4_def)
  moreover have "syncDevices (sv_d4\<lparr>t_devices := [sv_device]\<rparr>) 4 [sv_revoke, sv_succession] = Inr sv_d4"
    by (simp add: seqs RevokeDevice_def update_where_def changed_def sv_device_def DeleteTokensForDevice_def sv_d4_def sv_d2_def empty_db_def)
  moreover have "\<not> PendingSuccession sv_log3" "ds_seq sv_log3 = 3"
    by (simp_all add: PendingSuccession_def sv_log3_def)
  ultimately have "append_device_log sv_crypto sv_principal [sv_revoke, sv_succession] sv_d2 = Inr (sv_d4, 3)"
    using rep by (simp add: append_device_log_def sv_principal_def acct sv_log_steps)
  then show ?thesis by (simp add: Service_AppendDeviceLog_def WithTx_def sv_principal_def)
qed

end
