(* ===== verification/Snapshot_Client.thy ===== *)
theory Snapshot_Client
  imports Server_Sample
begin

text \<open>
  A new device reads a whole vault (\<open>infra/syncclient/snapshot.go\<close>): page by page, every page under the head it was
  read under, until the server says there is no more. The server is a parameter, one answer per attempt and page, so
  that it may move on between pages or misbehave; replies are decoded values (theory \<open>Wire\<close>). The second half
  composes the client with the model of the server.
\<close>

section \<open>The client\<close>

datatype client_error = ProtocolErr | ErrMovedBetweenPages | ErrSnapshotMoving | RemoteErr uc_err

record RemoteSnapshot =
  rs_Head :: "Head option"
  rs_Records :: "Envelope list"

type_synonym page_server = "nat \<Rightarrow> ID option \<Rightarrow> client_error + (Head option \<times> Envelope list \<times> bool)"

definition snapshotRestarts :: nat where "snapshotRestarts = 3"
definition maxSnapshotRecords :: nat where "maxSnapshotRecords = 1000000"

definition sameHead :: "crypto \<Rightarrow> Head option \<Rightarrow> Head option \<Rightarrow> bool" where
  "sameHead cr a b =
    (case a of
       None \<Rightarrow> b = None
     | Some x \<Rightarrow>
         (case b of
            None \<Rightarrow> False
          | Some y \<Rightarrow>
              (case Head_Hash cr x of
                 Inl _ \<Rightarrow> False
               | Inr hx \<Rightarrow> (case Head_Hash cr y of Inl _ \<Rightarrow> False | Inr hy \<Rightarrow> hx = hy))))"

fun in_order_loop :: "Envelope list \<Rightarrow> Envelope list \<Rightarrow> client_error + Envelope list" where
  "in_order_loop out [] = Inr out"
| "in_order_loop out (e # es) =
    (if out \<noteq> [] \<and> e_Record e \<le> e_Record (last out) then Inl ProtocolErr else in_order_loop (out @ [e]) es)"

definition appendInOrder :: "Envelope list \<Rightarrow> Envelope list \<Rightarrow> client_error + Envelope list" where
  "appendInOrder out records =
    bind_res (in_order_loop out records) (\<lambda>out. if length out > maxSnapshotRecords then Inl ProtocolErr else Inr out)"

lemma in_order_loop_Inr: "in_order_loop out es = Inr out' \<Longrightarrow> out' = out @ es"
  by (induction out es rule: in_order_loop.induct) (auto split: if_splits)

lemma appendInOrder_Inr: "appendInOrder out es = Inr out' \<Longrightarrow> out' = out @ es \<and> length out' \<le> maxSnapshotRecords"
  by (auto simp: appendInOrder_def result_simps dest: in_order_loop_Inr)

text \<open>The loop over the pages. It ends whatever the server answers: a page that claims more carries at least one
  record, and the records are bounded.\<close>

function pages_loop ::
    "crypto \<Rightarrow> page_server \<Rightarrow> nat \<Rightarrow> ID option \<Rightarrow> Head option \<Rightarrow> Envelope list \<Rightarrow> client_error + RemoteSnapshot" where
  "pages_loop cr srv page after first out =
    (case srv page after of
       Inl err \<Rightarrow> Inl err
     | Inr (h, records, more_records) \<Rightarrow>
         if page \<noteq> 0 \<and> \<not> sameHead cr first h then Inl ErrMovedBetweenPages
         else (let first = (if page = 0 then h else first) in
           case appendInOrder out records of
             Inl err \<Rightarrow> Inl err
           | Inr out' \<Rightarrow>
               if \<not> more_records then Inr \<lparr>rs_Head = first, rs_Records = out'\<rparr>
               else if records = [] then Inl ProtocolErr
               else pages_loop cr srv (Suc page) (Some (e_Record (last records))) first out'))"
  by pat_completeness auto
termination
proof (relation "measure (\<lambda>(cr, srv, page, after, first, out). Suc maxSnapshotRecords - length out)", goal_cases)
  case (2 cr srv page after first out reply h rest records more_records first' out')
  then show ?case using appendInOrder_Inr [of out records out'] by (cases records) auto
qed simp

declare pages_loop.simps [simp del]

definition snapshotOnce :: "crypto \<Rightarrow> page_server \<Rightarrow> client_error + RemoteSnapshot" where
  "snapshotOnce cr srv = pages_loop cr srv 0 None None []"

fun attempts_loop :: "crypto \<Rightarrow> (nat \<Rightarrow> page_server) \<Rightarrow> nat \<Rightarrow> nat \<Rightarrow> client_error + RemoteSnapshot" where
  "attempts_loop cr srv i 0 = Inl ErrSnapshotMoving"
| "attempts_loop cr srv i (Suc n) =
    (let r = snapshotOnce cr (srv i) in if r \<noteq> Inl ErrMovedBetweenPages then r else attempts_loop cr srv (Suc i) n)"

definition Client_Snapshot :: "crypto \<Rightarrow> (nat \<Rightarrow> page_server) \<Rightarrow> client_error + RemoteSnapshot" where
  "Client_Snapshot cr srv = attempts_loop cr srv 0 snapshotRestarts"

section \<open>Whatever the server answers\<close>

lemma in_order_sorted:
  "in_order_loop out es = Inr out' \<Longrightarrow> sorted_wrt (<) (map e_Record out) \<Longrightarrow> sorted_wrt (<) (map e_Record out')"
proof (induction out es rule: in_order_loop.induct)
  case (2 out e es)
  have "sorted_wrt (<) (map e_Record (out @ [e]))"
  proof (cases out rule: rev_cases)
    case (snoc ys y)
    then have "e_Record y < e_Record e" using 2(2) by (auto split: if_splits)
    moreover have "x < e_Record y" if "x \<in> e_Record ` set ys" for x using 2(3) snoc that by (auto simp: sorted_wrt_append)
    ultimately show ?thesis using 2(3) snoc by (fastforce simp: sorted_wrt_append)
  qed simp
  with 2 show ?case by (auto split: if_splits)
qed simp

lemma pages_loop_result:
  assumes "pages_loop cr srv page after first out = Inr snap" and "sorted_wrt (<) (map e_Record out)"
  shows "sorted_wrt (<) (map e_Record (rs_Records snap)) \<and> length (rs_Records snap) \<le> maxSnapshotRecords \<and>
    (page \<noteq> 0 \<longrightarrow> rs_Head snap = first)"
  using assms
proof (induction cr srv page after first out rule: pages_loop.induct)
  case (1 cr srv page after first out)
  from "1.prems"(1) obtain h records more_records out' where srv: "srv page after = Inr (h, records, more_records)"
    and same: "\<not> (page \<noteq> 0 \<and> \<not> sameHead cr first h)" and out': "appendInOrder out records = Inr out'"
    unfolding pages_loop.simps [of cr srv page] by (auto simp: Let_def split: sum.split_asm if_split_asm)
  have "in_order_loop out records = Inr out'" using out' by (auto simp: appendInOrder_def result_simps)
  then have sorted: "sorted_wrt (<) (map e_Record out')" using "1.prems"(2) by (rule in_order_sorted)
  have len: "length out' \<le> maxSnapshotRecords" using appendInOrder_Inr [OF out'] by blast
  let ?first = "if page = 0 then h else first"
  show ?case
  proof (cases more_records)
    case False
    then have "snap = \<lparr>rs_Head = ?first, rs_Records = out'\<rparr>"
      using "1.prems"(1) srv same out' unfolding pages_loop.simps [of cr srv page] by (auto simp: Let_def)
    with sorted len show ?thesis by simp
  next
    case True
    then have rec: "records \<noteq> []" and rest: "pages_loop cr srv (Suc page) (Some (e_Record (last records))) ?first out' = Inr snap"
      using "1.prems"(1) srv same out' unfolding pages_loop.simps [of cr srv page] by (auto simp: Let_def split: if_split_asm)
    from "1.IH" [OF srv refl refl same refl out' _ rec rest sorted] True show ?thesis by auto
  qed
qed

lemma attempts_loop_Inr:
  "attempts_loop cr srv i n = Inr snap \<Longrightarrow> \<exists>k. snapshotOnce cr (srv k) = Inr snap"
  by (induction n arbitrary: i) (auto simp: Let_def split: if_splits)

section \<open>Pages of the store\<close>

lemma page_loop_prefix:
  assumes "page_loop limit maxBytes sz n used rows = (out, more_rows)" and "n \<le> limit"
  shows "\<exists>rest. rows = out @ rest \<and> (more_rows \<longleftrightarrow> rest \<noteq> []) \<and> n + length out \<le> limit \<and>
    (n = 0 \<and> limit > 0 \<and> rows \<noteq> [] \<longrightarrow> out \<noteq> [])"
  using assms
proof (induction limit maxBytes sz n used rows arbitrary: out rule: page_loop.induct)
  case (2 limit maxBytes sz n used r rs)
  show ?case
  proof (cases "n = limit \<or> (n > 0 \<and> used + sz r > maxBytes)")
    case True
    with 2 show ?thesis by auto
  next
    case False
    obtain o1 m1 where o1: "page_loop limit maxBytes sz (Suc n) (used + sz r) rs = (o1, m1)" by (rule prod.exhaust)
    with 2(2) False have out: "out = r # o1" "more_rows = m1" by (auto split: if_splits)
    have "Suc n \<le> limit" using False 2(3) by simp
    with 2(1) [OF False] o1 out(2) obtain rest where "rs = o1 @ rest" "m1 \<longleftrightarrow> rest \<noteq> []" "Suc n + length o1 \<le> limit" by blast
    with out show ?thesis by auto
  qed
qed simp

text \<open>The current rows of a vault in the order of their records, which is strict.\<close>

definition ordered :: "db \<Rightarrow> ID \<Rightarrow> version_row list" where
  "ordered d w = sort_key rv_Record (current (vers_of d w))"

lemma ordered_strict:
  assumes "vers_ok (vers_of d w)"
  shows "sorted_wrt (<) (map rv_Record (ordered d w))"
proof -
  have "distinct (vers_of d w)" using assms by (simp add: vers_ok_def distinct_map)
  moreover have "inj_on rv_Record (set (current (vers_of d w)))"
    using newest_unique [OF assms] by (auto simp: current_def inj_on_def)
  ultimately have "distinct (map rv_Record (current (vers_of d w)))" by (simp add: distinct_map current_def)
  then have "distinct (map rv_Record (ordered d w))" unfolding ordered_def by (simp add: distinct_sort_key)
  moreover have "sorted (map rv_Record (ordered d w))" by (simp add: ordered_def)
  ultimately show ?thesis by (simp add: strict_sorted_iff)
qed

definition after_rows :: "ID option \<Rightarrow> version_row list \<Rightarrow> version_row list" where
  "after_rows after rows = filter (\<lambda>r. case after of None \<Rightarrow> True | Some i \<Rightarrow> rv_Record r > i) rows"

lemma page_rows:
  "CurrentRecordsPage d w after limit maxBytes =
    map_prod (map rv_Envelope) id (page_loop limit maxBytes rv_Size 0 0 (take (limit + 1) (after_rows after (ordered d w))))"
proof -
  have "filter (\<lambda>r. rv_Vault r = w \<and> (case after of None \<Rightarrow> True | Some i \<Rightarrow> rv_Record r > i) \<and> currentVersion d r) (t_versions d) =
      filter (\<lambda>r. case after of None \<Rightarrow> True | Some i \<Rightarrow> rv_Record r > i) (filter (\<lambda>r. rv_Vault r = w \<and> currentVersion d r) (t_versions d))"
    by (auto simp: filter_filter intro: filter_cong)
  then show ?thesis
    by (simp add: CurrentRecordsPage_def vers_of_current current_def ordered_def after_rows_def filter_sort split: prod.splits)
qed

lemma after_rows_last:
  assumes "sorted_wrt (<) (map rv_Record rows)" and "after_rows after rows = out @ rest" and "out \<noteq> []"
  shows "after_rows (Some (rv_Record (last out))) rows = rest"
proof -
  let ?P = "\<lambda>i r. rv_Record r > i" let ?i = "rv_Record (last out)"
  have "sorted_wrt (<) (map rv_Record (out @ rest))"
    using assms(1) unfolding assms(2) [symmetric] after_rows_def sorted_wrt_map by (rule sorted_wrt_filter)
  then have lt: "\<forall>r \<in> set out. rv_Record r \<le> ?i" "\<forall>r \<in> set rest. ?i < rv_Record r"
    using assms(3) by (cases out rule: rev_cases; auto simp: sorted_wrt_append intro: less_imp_le)+
  have last: "last out \<in> set (after_rows after rows)" using assms(2,3) by simp
  have "after_rows (Some ?i) rows = filter (?P ?i) (after_rows after rows)"
    unfolding after_rows_def filter_filter using last by (intro filter_cong) (auto simp: after_rows_def split: option.splits)
  also have "\<dots> = rest" unfolding assms(2) using lt by (auto simp: filter_empty_conv filter_id_conv not_less)
  finally show ?thesis .
qed

text \<open>A page is a prefix of what is left, never empty while something is left, and says truthfully whether it is all of it.\<close>

lemma CurrentRecordsPage_prefix:
  assumes "CurrentRecordsPage d w after limit maxBytes = (records, more_records)" and "limit > 0"
  obtains out rest where "after_rows after (ordered d w) = out @ rest" "records = map rv_Envelope out"
    "more_records \<longleftrightarrow> rest \<noteq> []" "rest \<noteq> [] \<longrightarrow> out \<noteq> []"
proof -
  let ?xs = "after_rows after (ordered d w)"
  obtain out where out: "page_loop limit maxBytes rv_Size 0 0 (take (limit + 1) ?xs) = (out, more_records)" "records = map rv_Envelope out"
    using assms(1) unfolding page_rows by (cases "page_loop limit maxBytes rv_Size 0 0 (take (limit + 1) ?xs)") auto
  from page_loop_prefix [OF out(1)] obtain rest where rest: "take (limit + 1) ?xs = out @ rest" "more_records \<longleftrightarrow> rest \<noteq> []"
    "length out \<le> limit" "take (limit + 1) ?xs \<noteq> [] \<longrightarrow> out \<noteq> []" using assms(2) by auto
  have xs: "?xs = out @ (rest @ drop (limit + 1) ?xs)" by (metis append.assoc append_take_drop_id rest(1))
  have "drop (limit + 1) ?xs = []" if "rest = []"
  proof -
    have "length (take (limit + 1) ?xs) \<le> limit" using rest(1,3) that by simp
    then show ?thesis by simp
  qed
  then show thesis using that [OF xs out(2)] rest by auto
qed

section \<open>The client on the server's pages\<close>

definition served :: "Principal \<Rightarrow> ID \<Rightarrow> db \<Rightarrow> page_server" where
  "served p w d page after =
    (case Service_Snapshot p w after d of
       Inl err \<Rightarrow> Inl (RemoteErr err)
     | Inr pg \<Rightarrow> Inr (sp_Head pg, sp_Records pg, sp_More pg))"

lemma in_order_append: "sorted_wrt (<) (map e_Record (out @ es)) \<Longrightarrow> in_order_loop out es = Inr (out @ es)"
proof (induction es arbitrary: out)
  case (Cons e es)
  have "e_Record (last out) < e_Record e" if "out \<noteq> []"
    using Cons.prems that by (auto simp: sorted_wrt_append)
  with Cons.IH [of "out @ [e]"] Cons.prems show ?case by (auto simp: not_le)
qed simp

lemma pages_loop_served:
  assumes mem: "requireMember d w (p_Account p) = Inr (v, r)" and same: "sameHead cr (LatestHead d w) (LatestHead d w)"
    and strict: "sorted_wrt (<) (map rv_Record (ordered d w))"
    and env: "\<And>q. q \<in> set (ordered d w) \<Longrightarrow> e_Record (rv_Envelope q) = rv_Record q"
    and len: "length (ordered d w) \<le> maxSnapshotRecords"
    and "ordered d w = read @ after_rows after (ordered d w)" and "page \<noteq> 0 \<Longrightarrow> first = LatestHead d w"
  shows "pages_loop cr (served p w d) page after first (map rv_Envelope read) =
    Inr \<lparr>rs_Head = LatestHead d w, rs_Records = map rv_Envelope (ordered d w)\<rparr>"
  using assms(6,7)
proof (induction "length (after_rows after (ordered d w))" arbitrary: page after first read rule: less_induct)
  case less
  obtain records more_records where pg: "CurrentRecordsPage d w after snapshotPageRecords snapshotPageBytes = (records, more_records)"
    by (rule prod.exhaust)
  then have srv: "served p w d page after = Inr (LatestHead d w, records, more_records)"
    using mem by (simp add: served_def Service_Snapshot_def)
  from pg obtain out rest where out: "after_rows after (ordered d w) = out @ rest" "records = map rv_Envelope out"
    "more_records \<longleftrightarrow> rest \<noteq> []" "rest \<noteq> [] \<longrightarrow> out \<noteq> []"
    by (rule CurrentRecordsPage_prefix) (simp add: snapshotPageRecords_def)
  have split: "ordered d w = (read @ out) @ rest" using less.prems(1) out(1) by simp
  have recs: "map e_Record (map rv_Envelope (read @ out)) = map rv_Record (read @ out)"
    using env split by (auto simp: comp_def)
  have "sorted_wrt (<) (map e_Record (map rv_Envelope read @ records))"
    using strict unfolding split out(2) map_append [symmetric] recs by (simp add: sorted_wrt_append)
  moreover have "length (map rv_Envelope read @ records) \<le> maxSnapshotRecords"
    using len arg_cong [OF split, of length] by (simp add: out(2))
  ultimately have app: "appendInOrder (map rv_Envelope read) records = Inr (map rv_Envelope (read @ out))"
    using in_order_append [of "map rv_Envelope read" records] by (simp add: appendInOrder_def out(2))
  have first: "\<not> (page \<noteq> 0 \<and> \<not> sameHead cr first (LatestHead d w))" "(if page = 0 then LatestHead d w else first) = LatestHead d w"
    using less.prems(2) same by auto
  show ?case
  proof (cases "rest = []")
    case True
    with srv first app out(3) split show ?thesis by (simp add: pages_loop.simps [of cr _ page] Let_def)
  next
    case False
    then have ne: "out \<noteq> []" using out(4) by simp
    have left: "after_rows (Some (rv_Record (last out))) (ordered d w) = rest" using after_rows_last [OF strict out(1) ne] .
    have "e_Record (last records) = rv_Record (last out)" using env ne split by (simp add: out(2) last_map)
    then have "pages_loop cr (served p w d) page after first (map rv_Envelope read) =
        pages_loop cr (served p w d) (Suc page) (Some (rv_Record (last out))) (LatestHead d w) (map rv_Envelope (read @ out))"
      using srv first app False out(2,3) ne by (subst pages_loop.simps) (auto simp: Let_def)
    also have "\<dots> = Inr \<lparr>rs_Head = LatestHead d w, rs_Records = map rv_Envelope (ordered d w)\<rparr>"
      by (rule less.hyps) (use left split out(1) ne in auto)
    finally show ?thesis .
  qed
qed

lemma record_leaves_faithful:
  "\<forall>r \<in> set rows. faithful_row cr w r \<Longrightarrow> record_leaves cr w (map rv_Envelope rows) = Inr (map row_leaf rows)"
  by (induction rows) (auto simp: faithful_row_def)

lemma RestoreFromLeaves_mset:
  assumes "mset ls = mset ks"
  shows "RestoreVaultStateFromLeaves cr w h ls = Inr s \<longleftrightarrow> RestoreVaultStateFromLeaves cr w h ks = Inr s"
proof (cases h)
  case None
  moreover have "ls = [] \<longleftrightarrow> ks = []" using arg_cong [OF assms, of size] by auto
  ultimately show ?thesis by (simp add: RestoreVaultStateFromLeaves_def)
next
  case (Some x)
  then show ?thesis unfolding Some RestoreFromLeaves_Inr by (simp add: assms MerkleRoot_perm [OF assms])
qed

lemma restore_served:
  assumes "currentState cr d w = Inr s" and "\<forall>r \<in> set (vers_of d w). faithful_row cr w r"
  shows "RestoreVaultState cr w (LatestHead d w) (map rv_Envelope (ordered d w)) = Inr s"
proof -
  have rest: "RestoreVaultStateFromLeaves cr w (LatestHead d w) (CurrentLeaves d w) = Inr s"
    using assms(1) by (simp add: currentState_def result_simps)
  have "set (ordered d w) \<subseteq> set (vers_of d w)" by (auto simp: ordered_def current_def)
  then have "record_leaves cr w (map rv_Envelope (ordered d w)) = Inr (map row_leaf (ordered d w))"
    using assms(2) by (intro record_leaves_faithful) auto
  moreover have perm: "mset (map row_leaf (ordered d w)) = mset (CurrentLeaves d w)"
    by (simp add: CurrentLeaves_current ordered_def)
  ultimately have leaves: "bind_res (record_leaves cr w (map rv_Envelope (ordered d w))) (RestoreVaultStateFromLeaves cr w (LatestHead d w)) = Inr s"
    using rest RestoreFromLeaves_mset [OF perm, of cr w "LatestHead d w" s] by simp
  have "case LatestHead d w of None \<Rightarrow> True | Some h \<Rightarrow> h_Vault h = w"
    using rest by (auto simp: RestoreFromLeaves_Inr split: option.splits)
  then show ?thesis using leaves by (auto simp: RestoreVaultState_def split: option.splits)
qed

lemma snapshot_served:
  assumes "server_ok cr d" and "requireMember d w (p_Account p) = Inr (v, r)" and "length (CurrentLeaves d w) \<le> maxSnapshotRecords"
  shows "\<exists>s snap. Client_Snapshot cr (\<lambda>_. served p w d) = Inr snap \<and> currentState cr d w = Inr s \<and>
    RestoreVaultState cr w (rs_Head snap) (rs_Records snap) = Inr s \<and> cur_Seq (vs_cursor s) = va_Seq v"
proof -
  have v: "VaultByID d w = Some v" and w: "va_ID v = w" using assms(2) VaultByID_Some by (auto simp: requireMember_Inr)
  obtain m s where vv: "vault_verifies cr d v m s" and vr: "vault_rows cr d v s" using server_ok_vault [OF assms(1) v] .
  have cur: "currentState cr d w = Inr s" and vers: "vers_ok (vers_of d w)" "\<forall>r \<in> set (vers_of d w). faithful_row cr w r"
    using vv vr w by (simp_all add: vault_verifies_def vault_rows_def)
  have same: "sameHead cr (LatestHead d w) (LatestHead d w)"
    using cur by (auto simp: currentState_def result_simps sameHead_def RestoreFromLeaves_Inr Head_Hash_eq split: option.splits)
  have env: "e_Record (rv_Envelope q) = rv_Record q" if "q \<in> set (ordered d w)" for q
  proof -
    have "LeafOf cr (rv_Envelope q) = Inr (row_leaf q)" using that vers(2) by (auto simp: ordered_def current_def faithful_row_def)
    from LeafOf_Inr [OF this] show ?thesis by (simp add: row_leaf_def)
  qed
  have len: "length (ordered d w) \<le> maxSnapshotRecords" using assms(3) by (simp add: ordered_def CurrentLeaves_current)
  have start: "ordered d w = [] @ after_rows None (ordered d w)" by (simp add: after_rows_def)
  have "Client_Snapshot cr (\<lambda>_. served p w d) = Inr \<lparr>rs_Head = LatestHead d w, rs_Records = map rv_Envelope (ordered d w)\<rparr>"
    using pages_loop_served [OF assms(2) same ordered_strict [OF vers(1)] env len start, of 0 None]
    by (simp add: Client_Snapshot_def snapshotRestarts_def snapshotOnce_def Let_def numeral_eq_Suc)
  with cur restore_served [OF cur vers(2)] vv show ?thesis by (auto simp: vault_verifies_def)
qed

section \<open>Properties\<close>


lemma sv_member: "requireMember sv_d3 1 (p_Account sv_principal) = Inr (sv_vault\<lparr>va_Seq := 1\<rparr>, RoleOwner)"
  by (simp add: requireMember_Inr sv_vault2 sv_principal_def) (simp add: sv_vault_def MemberRole_def sv_d3_def sv_d2_def)

lemma sv_few: "length (CurrentLeaves sv_d3 1) \<le> maxSnapshotRecords"
  by (simp add: CurrentLeaves_def sv_d3_def maxSnapshotRecords_def)


text \<open>C39. Reading a snapshot always ends, whatever the server answers, and what it returns has at most a million
  records in strictly increasing order, so no record twice.\<close>

theorem snapshot_read_is_bounded:
  assumes "Client_Snapshot cr srv = Inr snap"
  shows "length (rs_Records snap) \<le> maxSnapshotRecords \<and> sorted_wrt (<) (map e_Record (rs_Records snap))"
proof -
  from assms obtain k where "snapshotOnce cr (srv k) = Inr snap"
    unfolding Client_Snapshot_def using attempts_loop_Inr by blast
  then show ?thesis using pages_loop_result [of cr "srv k" 0 None None "[]" snap] by (simp add: snapshotOnce_def)
qed

theorem snapshot_read_is_bounded_witness:
  "\<exists>snap. Client_Snapshot sv_crypto (\<lambda>_. served sv_principal 1 sv_d3) = Inr snap \<and> length (rs_Records snap) \<le> maxSnapshotRecords"
proof -
  obtain snap where "Client_Snapshot sv_crypto (\<lambda>_. served sv_principal 1 sv_d3) = Inr snap"
    using snapshot_served [OF server_run_ok [OF sv_run3] sv_member sv_few] by blast
  with snapshot_read_is_bounded [OF this] show ?thesis by blast
qed

end
