(* ===== verification/Server_Identity.thy ===== *)
theory Server_Identity
  imports Server_Properties
begin

text \<open>
  Invites, devices and tokens over time. Requests on vaults leave these tables alone; the others change them only in the
  ways \<open>identity_rows_le\<close> allows: a used invite stays used, a certified device stays with its account, a revoked device stays
  revoked. Keys stay unique. From this follow the properties that hold however many requests come in between.
\<close>

section \<open>Requests on vaults\<close>

definition vault_write :: "db \<Rightarrow> db \<Rightarrow> bool" where
  "vault_write d d' \<longleftrightarrow> t_accounts d' = t_accounts d \<and> t_invites d' = t_invites d \<and>
    t_device_entries d' = t_device_entries d \<and> t_devices d' = t_devices d \<and> t_tokens d' = t_tokens d"

lemma vault_write_refl [simp]: "vault_write d d"
  by (simp add: vault_write_def)

lemma vault_write_trans: "vault_write d d' \<Longrightarrow> vault_write d' d'' \<Longrightarrow> vault_write d d''"
  by (simp add: vault_write_def)

lemma AppendMemberOps_write: "AppendMemberOps d w ops = Inr d' \<Longrightarrow> vault_write d d'"
  by (induction ops arbitrary: d) (auto simp: result_simps vault_write_def)

lemma ReplaceMemberOps_write: "ReplaceMemberOps d w ops = Inr d' \<Longrightarrow> vault_write d d'"
  by (induction ops arbitrary: d) (auto simp: result_simps vault_write_def)

lemma insert_versions_write: "insert_versions cr d w n es = Inr d' \<Longrightarrow> vault_write d d'"
  by (induction es arbitrary: d) (auto simp: result_simps vault_write_def)

lemma deleteVersions_write: "vault_write d (fst (deleteVersions P d))"
  by (simp add: deleteVersions_def Let_def vault_write_def)

lemma delete_records_write: "vault_write d (fst (delete_records d w rs n))"
proof (induction rs arbitrary: d n)
  case (Cons r rs)
  let ?x = "deleteVersions (\<lambda>v. rv_Vault v = w \<and> rv_Record v = r) d"
  have "vault_write d (fst ?x)" by (rule deleteVersions_write)
  with Cons.IH [of "fst ?x" "max n (snd ?x)"] show ?case using vault_write_trans by (auto simp: split_beta)
qed simp

lemma vault_statements_write:
  "InsertVault d v = Inr d' \<Longrightarrow> vault_write d d'"
  "SetVaultMembershipSeq d w n = Inr d' \<Longrightarrow> vault_write d d'"
  "UpdateVaultHead d w n b = Inr d' \<Longrightarrow> vault_write d d'"
  "ReplaceMembers d w rm = Inr d' \<Longrightarrow> vault_write d d'"
  "RaisePrunedSeq d w n = Inr d' \<Longrightarrow> vault_write d d'"
  "vault_write d (RecomputeBytes d w)"
  by (auto simp: InsertVault_def SetVaultMembershipSeq_def UpdateVaultHead_def ReplaceMembers_def RaisePrunedSeq_def RecomputeBytes_def
      result_simps vault_write_def split: if_splits)

lemma InsertCommit_write: "InsertCommit cr d w n c t = Inr d' \<Longrightarrow> vault_write d d'"
proof -
  assume "InsertCommit cr d w n c t = Inr d'"
  then obtain rows where "insert_versions cr (d\<lparr>t_commits := rows\<rparr>) w n (cm_Records c) = Inr d'"
    by (auto simp: InsertCommit_def result_simps)
  from insert_versions_write [OF this] show ?thesis by (simp add: vault_write_def)
qed

lemma pruneVault_write:
  assumes "pruneVault d v m now = Inr d'"
  shows "vault_write d d'"
proof -
  from assms obtain w d1 n1 d2 n2 d3 d4 where
    1: "(if now \<ge> w then DeleteSuperseded d v (now - w + 1) else Inr (d, 0)) = Inr (d1, n1)"
    and 2: "DeleteEpochVersions d1 v (retiredEpochs d1 v m now) = (d2, n2)" and 3: "stripRetiredWraps d2 v (retiredEpochs d1 v m now) = Inr d3"
    and 4: "(if max n1 n2 > 0 then RaisePrunedSeq d3 v (max n1 n2) else Inr d3) = Inr d4" and 5: "d' = RecomputeBytes d4 v"
    by (rule pruneVault_Inr)
  have w1: "vault_write d d1"
    using 1 deleteVersions_write [of d "supersededAt d v (now - w + 1)"] by (auto simp: DeleteSuperseded_def result_simps split: if_splits)
  have w2: "vault_write d1 d2"
    using 2 deleteVersions_write [of d1 "\<lambda>r. rv_Vault r = v \<and> rv_Epoch r \<in> set (retiredEpochs d1 v m now) \<and> \<not> currentVersion d1 r"]
    by (auto simp: DeleteEpochVersions_def split: if_splits)
  have w3: "vault_write d2 d3" using 3 ReplaceMemberOps_write by (auto simp: stripRetiredWraps_def split: if_splits)
  have w4: "vault_write d3 d4" using 4 vault_statements_write(5) by (auto split: if_splits)
  from vault_write_trans [OF vault_write_trans [OF vault_write_trans [OF vault_write_trans [OF w1 w2] w3] w4] vault_statements_write(6)]
  show ?thesis unfolding 5 .
qed

lemma append_membership_write:
  assumes "append_membership cr p w ops now d = Inr (d', x)"
  shows "vault_write d d'"
proof -
  from assms obtain m d1 d2 d3 where 1: "AppendMemberOps d w ops = Inr d1" and 2: "SetVaultMembershipSeq d1 w (ms_seq m) = Inr d2"
    and 3: "ReplaceMembers d2 w (roles m) = Inr d3" and 4: "pruneVault d3 w m now = Inr d'"
    by (auto simp: append_membership_def result_simps)
  note ws = AppendMemberOps_write [OF 1] vault_statements_write(2) [OF 2] vault_statements_write(4) [OF 3] pruneVault_write [OF 4]
  from vault_write_trans [OF vault_write_trans [OF vault_write_trans [OF ws(1) ws(2)] ws(3)] ws(4)] show ?thesis .
qed

lemma usecase_applyPurges_write: "usecase_applyPurges d w is = Inr d' \<Longrightarrow> vault_write d d'"
proof -
  assume pur: "usecase_applyPurges d w is = Inr d'"
  have "vault_write d (fst (DeleteRecords d w is))" unfolding DeleteRecords_def by (rule delete_records_write)
  moreover have "vault_write (fst (DeleteRecords d w is)) d'"
    using pur vault_statements_write(5) by (auto simp: usecase_applyPurges_def split_beta split: if_splits)
  ultimately show ?thesis by (rule vault_write_trans)
qed

lemma commit_tx_write:
  assumes tx: "commit_tx cr cfg p w n c clk d = Inr (d', x)"
  shows "vault_write d d'"
proof -
  obtain t1 t2 t3 where clk: "clk = (t1, t2, t3)" by (cases clk) auto
  from tx obtain v r where v: "requireMember d w (p_Account p) = Inr (v, r)"
    by (auto simp: commit_tx_def clk result_simps)
  show ?thesis
  proof (cases "CommitSeqByID d w (h_Commit (cm_Head c))")
    case (Some k)
    with tx v show ?thesis by (simp add: commit_tx_def clk)
  next
    case None
    with tx v obtain bytes m d1 d2 d3 where 1: "InsertCommit cr d w (va_Seq v + 1) c t2 = Inr d1"
      and 2: "UpdateVaultHead d1 w (va_Seq v + 1) bytes = Inr d2"
      and 3: "usecase_applyPurges d2 w (cm_Purged c) = Inr d3" and 4: "pruneVault d3 w m t3 = Inr d'"
      by (auto simp: commit_tx_def clk result_simps Let_def)
    note ws = InsertCommit_write [OF 1] vault_statements_write(3) [OF 2] usecase_applyPurges_write [OF 3] pruneVault_write [OF 4]
    from vault_write_trans [OF vault_write_trans [OF vault_write_trans [OF ws(1) ws(2)] ws(3)] ws(4)] show ?thesis .
  qed
qed

lemma new_vault_write:
  assumes "InsertVault d v = Inr d1" and "AppendMemberOps d1 w ops = Inr d2" and "ReplaceMembers d2 w rm = Inr d3"
  shows "vault_write d d3"
  using vault_write_trans [OF vault_write_trans [OF vault_statements_write(1) [OF assms(1)] AppendMemberOps_write [OF assms(2)]]
      vault_statements_write(4) [OF assms(3)]] .

lemma CreateVault_write: "vault_write d (fst (Service_CreateVault cr p create d))"
  unfolding Service_CreateVault_def
  by (auto simp: WithTx_def result_simps split: option.splits sum.splits if_splits simp del: AppendMemberOps.simps
      intro: new_vault_write)

lemma prune_loop_write: "vault_write d (fst (prune_loop cr vs now d))"
proof (induction vs arbitrary: d)
  case (Cons v vs)
  let ?fn = "\<lambda>d. bind_res (replayMembership cr d v) (\<lambda>m. bind_res (pruneVault d v m now) (\<lambda>d. Inr (d, ())))"
  have "vault_write d d'" if "?fn d = Inr (d', x)" for d' x using that pruneVault_write by (auto simp: result_simps)
  with Cons vault_write_trans show ?case by (fastforce simp: WithTx_def split: sum.splits)
qed simp

section \<open>Invites and devices over time\<close>

definition device_row_le :: "Device \<Rightarrow> Device \<Rightarrow> bool" where
  "device_row_le v v' \<longleftrightarrow> dv_ID v' = dv_ID v \<and> dv_Account v' = dv_Account v \<and> dv_SigningKey v' = dv_SigningKey v \<and>
    (dv_Revoked v \<longrightarrow> dv_Revoked v')"

definition identity_rows_le :: "db \<Rightarrow> db \<Rightarrow> bool" where
  "identity_rows_le d d' \<longleftrightarrow>
    (\<forall>r \<in> set (t_invites d). iv_UsedBy r \<noteq> None \<longrightarrow> r \<in> set (t_invites d')) \<and>
    (\<forall>v \<in> set (t_devices d). \<exists>v' \<in> set (t_devices d'). device_row_le v v')"

text \<open>The primary keys.\<close>

definition keys_ok :: "db \<Rightarrow> bool" where
  "keys_ok d \<longleftrightarrow> distinct (map iv_Hash (t_invites d)) \<and> distinct (map dv_ID (t_devices d))"

lemma device_row_le_refl [simp]: "device_row_le v v"
  by (simp add: device_row_le_def)

lemma device_row_le_trans: "device_row_le u v \<Longrightarrow> device_row_le v w \<Longrightarrow> device_row_le u w"
  by (auto simp: device_row_le_def)

lemma identity_rows_le_same: "t_invites d' = t_invites d \<Longrightarrow> t_devices d' = t_devices d \<Longrightarrow> identity_rows_le d d'"
  by (auto simp: identity_rows_le_def intro: device_row_le_refl)

lemma identity_rows_le_refl [simp]: "identity_rows_le d d"
  by (rule identity_rows_le_same) simp_all

lemma identity_rows_le_trans: "identity_rows_le d d' \<Longrightarrow> identity_rows_le d' d'' \<Longrightarrow> identity_rows_le d d''"
  unfolding identity_rows_le_def by (meson device_row_le_trans)

lemma vault_write_identity: "vault_write d d' \<Longrightarrow> identity_rows_le d d' \<and> (keys_ok d \<longrightarrow> keys_ok d')"
  by (auto simp: vault_write_def keys_ok_def intro!: identity_rows_le_same)

definition identity_step :: "db \<Rightarrow> db \<Rightarrow> bool" where
  "identity_step d d' \<longleftrightarrow> identity_rows_le d d' \<and> (keys_ok d \<longrightarrow> keys_ok d')"

lemma identity_step_same: "t_invites d' = t_invites d \<Longrightarrow> t_devices d' = t_devices d \<Longrightarrow> identity_step d d'"
  by (simp add: identity_step_def identity_rows_le_same keys_ok_def)

lemma identity_step_refl [simp]: "identity_step d d"
  by (simp add: identity_step_same)

lemma identity_step_trans: "identity_step d d' \<Longrightarrow> identity_step d' d'' \<Longrightarrow> identity_step d d''"
  unfolding identity_step_def using identity_rows_le_trans by blast

lemma vault_write_step: "vault_write d d' \<Longrightarrow> identity_step d d'"
  by (simp add: vault_write_def identity_step_same)

lemma InsertDevice_step: "InsertDevice d v = Inr (d', b) \<Longrightarrow> identity_step d d'"
proof -
  assume "InsertDevice d v = Inr (d', b)"
  then consider "d' = d" | "d' = d\<lparr>t_devices := t_devices d @ [v]\<rparr>" "\<forall>r \<in> set (t_devices d). dv_ID r \<noteq> dv_ID v"
    by (auto simp: InsertDevice_def list_ex_iff split: if_splits)
  then show ?thesis
  proof cases
    case 2
    then have "dv_ID v \<notin> dv_ID ` set (t_devices d)" by (metis imageE)
    with 2(1) show ?thesis by (auto simp: identity_step_def identity_rows_le_def keys_ok_def intro: device_row_le_refl)
  qed simp
qed

lemma RevokeDevice_step: "identity_step d (fst (RevokeDevice d a i))"
proof -
  let ?f = "\<lambda>r. if dv_ID r = i \<and> dv_Account r = a then r\<lparr>dv_Revoked := True\<rparr> else r"
  have dev: "t_devices (fst (RevokeDevice d a i)) = map ?f (t_devices d)" "t_invites (fst (RevokeDevice d a i)) = t_invites d"
    by (simp_all add: RevokeDevice_def update_where_def)
  have ids: "map dv_ID (t_devices (fst (RevokeDevice d a i))) = map dv_ID (t_devices d)" by (simp add: dev(1))
  have "\<exists>v' \<in> set (t_devices (fst (RevokeDevice d a i))). device_row_le v v'" if "v \<in> set (t_devices d)" for v
  proof (rule bexI)
    show "device_row_le v (?f v)" by (simp add: device_row_le_def)
    show "?f v \<in> set (t_devices (fst (RevokeDevice d a i)))" using that by (simp add: dev(1))
  qed
  then show ?thesis unfolding identity_step_def identity_rows_le_def keys_ok_def ids dev(2) by blast
qed

lemma syncDevices_step: "syncDevices d a es = Inr d' \<Longrightarrow> identity_step d d'"
proof (induction es arbitrary: d)
  case (Cons e es)
  consider (add) "d_Op e = OpAddDevice" | (revoke) "d_Op e = OpRevokeDevice" "d_Op e \<noteq> OpAddDevice"
    | (other) "d_Op e \<noteq> OpAddDevice" "d_Op e \<noteq> OpRevokeDevice" by blast
  then show ?case
  proof cases
    case add
    with Cons.prems obtain v d1 where d1: "InsertDevice d v = Inr (d1, True)" "syncDevices d1 a es = Inr d'"
      by (auto simp: usecase_insertDevice_def result_simps split: option.splits)
    from InsertDevice_step [OF d1(1)] Cons.IH [OF d1(2)] show ?thesis by (rule identity_step_trans)
  next
    case revoke
    let ?d = "fst (RevokeDevice d a (d_Revoked e))"
    have rest: "syncDevices (DeleteTokensForDevice ?d (d_Revoked e)) a es = Inr d'"
      using Cons.prems revoke by (auto simp: split_beta split: if_splits)
    have "identity_step ?d (DeleteTokensForDevice ?d (d_Revoked e))"
      by (simp add: identity_step_same DeleteTokensForDevice_def)
    from identity_step_trans [OF identity_step_trans [OF RevokeDevice_step this] Cons.IH [OF rest]] show ?thesis .
  qed (use Cons in simp)
qed simp

lemma append_device_log_step:
  assumes "append_device_log cr p es d = Inr (d', x)"
  shows "identity_step d d'"
proof -
  from assms obtain a log0 log d1 where "AccountByID d (p_Account p) = Some a" "replayDeviceLog cr a (DeviceEntries d (a_ID a)) = Inr log0"
    "replay (device_step cr) log0 es = Inr log" "\<not> PendingSuccession log" and 1: "AppendDeviceEntries d (a_ID a) es = Inr d1"
    and 2: "syncDevices d1 (a_ID a) es = Inr d'" and "x = ds_seq log"
    by (rule append_device_log_Inr)
  have "identity_step d d1" by (subst AppendDeviceEntries_Inr [OF 1]) (simp add: identity_step_same)
  from identity_step_trans [OF this syncDevices_step [OF 2]] show ?thesis .
qed

lemma ConsumeInvite_step: "ConsumeInvite d h now a = Inr (d', b) \<Longrightarrow> identity_step d d'"
proof -
  assume "ConsumeInvite d h now a = Inr (d', b)"
  let ?f = "\<lambda>r. if usable h now r then r\<lparr>iv_UsedBy := Some a\<rparr> else r"
  have d': "d' = d\<lparr>t_invites := map ?f (t_invites d)\<rparr>"
    using \<open>ConsumeInvite d h now a = Inr (d', b)\<close> by (auto simp: ConsumeInvite_def result_simps update_where_def)
  have ids: "map iv_Hash (t_invites d') = map iv_Hash (t_invites d)" "t_devices d' = t_devices d" by (simp_all add: d')
  have inv: "t_invites d' = map ?f (t_invites d)" by (simp add: d')
  have "r \<in> set (t_invites d')" if "r \<in> set (t_invites d)" "iv_UsedBy r \<noteq> None" for r
  proof -
    have r: "?f r = r" using that(2) by (simp add: usable_def)
    have "?f r \<in> ?f ` set (t_invites d)" using that(1) by (rule imageI)
    then show ?thesis unfolding r inv by (simp only: set_map)
  qed
  then show ?thesis unfolding identity_step_def identity_rows_le_def keys_ok_def ids using device_row_le_refl by blast
qed

lemma storeRegistration_step:
  assumes "storeRegistration d a v r members = Inr d'"
  shows "identity_step d d'"
proof -
  from assms obtain vault d1 d2 d3 d4 d5 where 1: "InsertAccount d a = Inr d1" and 2: "AppendDeviceEntries d1 (a_ID a) [rg_Device r] = Inr d2"
    and 3: "InsertDevice d2 v = Inr (d3, True)" and 4: "InsertVault d3 vault = Inr d4"
    and 5: "AppendMemberOps d4 (o_Vault (rg_Vault r)) [rg_Vault r] = Inr d5"
    and 6: "ReplaceMembers d5 (o_Vault (rg_Vault r)) members = Inr d'"
    by (auto simp: storeRegistration_def usecase_insertDevice_def bind_res_Inr split: if_split_asm
        simp del: AppendDeviceEntries.simps AppendMemberOps.simps)
  have "identity_step d d1" using 1 by (auto simp: InsertAccount_def result_simps intro!: identity_step_same)
  moreover have "identity_step d1 d2" by (subst AppendDeviceEntries_Inr [OF 2]) (simp add: identity_step_same)
  moreover have "identity_step d3 d'" using new_vault_write [OF 4 5 6] by (rule vault_write_step)
  ultimately show ?thesis using InsertDevice_step [OF 3] identity_step_trans by blast
qed

lemma register_tx_step: "register_tx cr ToUpper r a v members now d = Inr (d', x) \<Longrightarrow> identity_step d d'"
  by (rule register_tx_Inr) (auto intro: identity_step_trans ConsumeInvite_step storeRegistration_step)

lemma RegisterFinish_step: "identity_step d (fst (Service_RegisterFinish cr ak ToUpper r clk d))"
  by (cases rule: RegisterFinish_cases [of cr ak ToUpper r clk d]) (auto simp: WithTx_def register_tx_step split: sum.splits)

text \<open>Requests that only write accounts, invites and tokens.\<close>

lemma CreateInvite_step: "identity_step d (fst (Service_CreateInvite cr ToUpper ttl rnd now d))"
proof (cases "randomBytes rnd inviteBytes")
  case (Inr raw)
  have "identity_step d d'" if "InsertInvite d h t = Inr d'" for h t d'
  proof -
    have "h \<notin> iv_Hash ` set (t_invites d)" using that by (auto simp: InsertInvite_def result_simps list_ex_iff)
    then show ?thesis using that
      by (auto simp: InsertInvite_def result_simps identity_step_def identity_rows_le_def keys_ok_def intro: device_row_le_refl)
  qed
  with Inr show ?thesis by (auto simp: Service_CreateInvite_def Let_def WithTx_def result_simps split: sum.splits)
qed (simp add: Service_CreateInvite_def)

lemma RevokeInvite_step: "identity_step d (fst (Service_RevokeInvite i d))"
proof -
  have "identity_step d (fst (DeleteUnusedInvite d i))"
    by (auto simp: DeleteUnusedInvite_def identity_step_def identity_rows_le_def keys_ok_def invite_matches_def distinct_map_filter
        intro: device_row_le_refl)
  then show ?thesis by (auto simp: Service_RevokeInvite_def WithTx_def split_beta split: sum.splits if_splits)
qed

lemma small_write_step: "small_write d d' \<Longrightarrow> identity_step d d'"
  unfolding small_write_def by (erule ssubst) (simp add: identity_step_same)

lemma WithTx_step: "(\<And>d' x. fn d = Inr (d', x) \<Longrightarrow> identity_step d d') \<Longrightarrow> identity_step d (fst (WithTx fn d))"
  by (auto simp: WithTx_def split: sum.splits)

lemma tx_steps:
  "identity_step d (fst (WithTx (append_membership cr p w ops now) d))"
  "identity_step d (fst (WithTx (commit_tx cr cfg p w expectSeq c clk) d))"
  "identity_step d (fst (WithTx (append_device_log cr p es) d))"
  by (rule WithTx_step, erule vault_write_step [OF append_membership_write])
     (rule WithTx_step, erule vault_write_step [OF commit_tx_write], rule WithTx_step, erule append_device_log_step)

lemma server_step_identity: "server_step cr d d' \<Longrightarrow> identity_step d d'"
proof (induction rule: server_step.induct)
  case (append_membership d p w ops now)
  then show ?case using service_fst(1) [of cr p w ops now d] tx_steps(1) [of d cr p w ops now] by auto
next
  case (commit d cfg p w expectSeq c clk)
  then show ?case using service_fst(2) [of cr cfg p w expectSeq c clk d] tx_steps(2) [of d cr cfg p w expectSeq c clk] by auto
next
  case (append_device_log d p es)
  then show ?case using service_fst(3) [of cr p es d] tx_steps(3) [of d cr p es] by auto
qed (auto simp: Service_PruneAll_def intro: vault_write_step CreateVault_write prune_loop_write RegisterFinish_step CreateInvite_step
    RevokeInvite_step small_write_step LoginFinish_small DeviceVerify_small PasswordFinish_small SetFrozen_small)

lemma server_run_keys: "server_run cr d \<Longrightarrow> keys_ok d"
proof (induction rule: server_run.induct)
  case (request d d')
  then show ?case using server_step_identity by (auto simp: identity_step_def)
qed (simp add: keys_ok_def empty_db_def)

lemma server_steps_identity: "(server_step cr)\<^sup>*\<^sup>* d d' \<Longrightarrow> identity_step d d'"
proof (induction rule: rtranclp_induct)
  case (step e f)
  from identity_step_trans [OF step.IH server_step_identity [OF step.hyps(2)]] show ?case .
qed simp

section \<open>Properties\<close>

lemma used_invite_unusable:
  assumes "keys_ok d" and "r \<in> set (t_invites d)" and "iv_UsedBy r \<noteq> None"
  shows "\<not> list_ex (usable (iv_Hash r) now) (t_invites d)"
proof -
  have "q = r" if "q \<in> set (t_invites d)" "iv_Hash q = iv_Hash r" for q
    using assms(1,2) that by (auto simp: keys_ok_def distinct_map inj_on_def)
  with assms(3) show ?thesis by (auto simp: list_ex_iff usable_def)
qed

lemma WithTx_Inr: "WithTx fn d = (d', Inr x) \<longleftrightarrow> fn d = Inr (d', x)"
  by (auto simp: WithTx_def split: sum.splits)

lemma registered_invite:
  assumes "Service_RegisterFinish cr ak ToUpper r clk d = (d1, Inr ())"
  shows "\<exists>q \<in> set (t_invites d1). iv_Hash q = inviteHash cr ToUpper (rg_Invite r) \<and> iv_UsedBy q \<noteq> None"
proof (cases rule: RegisterFinish_cases [of cr ak ToUpper r clk d])
  case (2 a v members)
  have "WithTx (register_tx cr ToUpper r a v members (snd clk)) d = (d1, Inr ())" using 2(2) assms by simp
  then have "register_tx cr ToUpper r a v members (snd clk) d = Inr (d1, ())" by (simp only: WithTx_Inr)
  then obtain e where "VaultByID d (o_Vault (rg_Vault r)) = None"
    and e: "ConsumeInvite d (inviteHash cr ToUpper (rg_Invite r)) (snd clk) (rg_Account r) = Inr (e, True)"
    and st: "storeRegistration e a v r members = Inr d1" by (rule register_tx_Inr)
  from e obtain q where "q \<in> set (t_invites d)" "usable (inviteHash cr ToUpper (rg_Invite r)) (snd clk) q"
    "e = d\<lparr>t_invites := update_where (usable (inviteHash cr ToUpper (rg_Invite r)) (snd clk)) (\<lambda>v. v\<lparr>iv_UsedBy := Some (rg_Account r)\<rparr>) (t_invites d)\<rparr>"
    by (auto simp: ConsumeInvite_def result_simps changed_def list_ex_iff)
  then have "q\<lparr>iv_UsedBy := Some (rg_Account r)\<rparr> \<in> set (t_invites e)" "iv_Hash q = inviteHash cr ToUpper (rg_Invite r)"
    by (auto simp: update_where_def usable_def image_iff)
  moreover have "identity_rows_le e d1" using storeRegistration_step [OF st] by (simp add: identity_step_def)
  ultimately show ?thesis by (auto simp: identity_rows_le_def intro!: bexI [of _ "q\<lparr>iv_UsedBy := Some (rg_Account r)\<rparr>"])
qed (use assms in simp)

text \<open>An invite registers one account: once a registration with it was accepted, every later registration with the
  same code is refused and changes nothing, whatever requests came in between.\<close>

theorem invite_registers_once:
  assumes "server_run cr d" and "Service_RegisterFinish cr ak ToUpper r clk d = (d1, Inr ())" and "(server_step cr)\<^sup>*\<^sup>* d1 d'"
    and "inviteHash cr ToUpper (rg_Invite r') = inviteHash cr ToUpper (rg_Invite r)"
  shows "\<exists>err. Service_RegisterFinish cr ak' ToUpper r' clk' d' = (d', Inl err)"
proof -
  have steps: "identity_step d d1" "identity_step d1 d'"
    using RegisterFinish_step [of d cr ak ToUpper r clk] assms(2) server_steps_identity [OF assms(3)] by simp_all
  then have keys: "keys_ok d'" using server_run_keys [OF assms(1)] by (simp add: identity_step_def)
  obtain q where q: "q \<in> set (t_invites d1)" "iv_Hash q = inviteHash cr ToUpper (rg_Invite r)" "iv_UsedBy q \<noteq> None"
    using registered_invite [OF assms(2)] by blast
  with steps(2) have "q \<in> set (t_invites d')" by (simp add: identity_step_def identity_rows_le_def)
  from used_invite_unusable [OF keys this q(3)] have no: "\<not> list_ex (usable (inviteHash cr ToUpper (rg_Invite r')) t) (t_invites d')" for t
    by (simp add: q(2) assms(4))
  show ?thesis
  proof (cases rule: RegisterFinish_cases [of cr ak' ToUpper r' clk' d'])
    case (2 a v members)
    have "register_tx cr ToUpper r' a v members (snd clk') d' \<noteq> Inr (e, x)" for e x
    proof
      assume "register_tx cr ToUpper r' a v members (snd clk') d' = Inr (e, x)"
      then show False
        by (rule register_tx_Inr) (use no in \<open>auto simp: ConsumeInvite_def result_simps changed_def\<close>)
    qed
    then obtain err where "register_tx cr ToUpper r' a v members (snd clk') d' = Inl err"
      by (cases "register_tx cr ToUpper r' a v members (snd clk') d'") auto
    then show ?thesis unfolding 2(2) by (simp add: WithTx_def)
  qed auto
qed

theorem invite_registers_once_witness:
  "\<exists>err. Service_RegisterFinish sv_crypto sv_ake (\<lambda>s. s) (sv_reg\<lparr>rg_Username := ''bert'', rg_Account := 5\<rparr>) (1, 1) sv_d3 = (sv_d3, Inl err)"
proof -
  have "server_run sv_crypto sv_d1"
    unfolding sv_invite [symmetric] by (rule server_run.request [OF server_run.start server_step.create_invite])
  moreover have "(server_step sv_crypto)\<^sup>*\<^sup>* sv_d2 sv_d3"
    using server_step.commit [of sv_crypto sv_d2 sv_cfg sv_principal 1 0 sv_commit "(0, 0, 0)"] by (simp add: sv_commit_ok)
  ultimately show ?thesis using invite_registers_once [OF _ sv_register, of sv_d3] by (simp add: inviteHash_def)
qed

lemma syncDevices_revokes:
  assumes "syncDevices d a es = Inr d'" and "e \<in> set es" and "d_Op e = OpRevokeDevice"
  shows "\<exists>v \<in> set (t_devices d'). dv_ID v = d_Revoked e \<and> dv_Revoked v"
  using assms(1,2)
proof (induction es arbitrary: d)
  case (Cons x es)
  show ?case
  proof (cases "e = x")
    case True
    let ?d = "fst (RevokeDevice d a (d_Revoked e))"
    have rest: "syncDevices (DeleteTokensForDevice ?d (d_Revoked e)) a es = Inr d'" and touched: "snd (RevokeDevice d a (d_Revoked e))"
      using Cons.prems(1) True assms(3) by (auto simp: split_beta split: if_splits)
    from touched obtain r where "r \<in> set (t_devices d)" "dv_ID r = d_Revoked e" "dv_Account r = a"
      by (auto simp: RevokeDevice_def changed_def list_ex_iff)
    then have "r\<lparr>dv_Revoked := True\<rparr> \<in> set (t_devices (DeleteTokensForDevice ?d (d_Revoked e)))"
      by (auto simp: RevokeDevice_def update_where_def DeleteTokensForDevice_def)
    with syncDevices_step [OF rest] obtain v where "v \<in> set (t_devices d')" "device_row_le (r\<lparr>dv_Revoked := True\<rparr>) v"
      by (auto simp: identity_step_def identity_rows_le_def)
    with \<open>dv_ID r = d_Revoked e\<close> show ?thesis by (auto simp: device_row_le_def)
  next
    case False
    then have e: "e \<in> set es" using Cons.prems(2) by simp
    obtain d1 where "syncDevices d1 a es = Inr d'"
      using Cons.prems(1) by (auto simp: result_simps split: if_splits option.splits prod.splits)
    from Cons.IH [OF this e] show ?thesis .
  qed
qed simp

lemma keys_ok_device: "keys_ok d \<Longrightarrow> v \<in> set (t_devices d) \<Longrightarrow> DeviceByID d (dv_ID v) = Some v"
proof -
  assume k: "keys_ok d" and v: "v \<in> set (t_devices d)"
  then obtain u where u: "DeviceByID d (dv_ID v) = Some u" by (cases "DeviceByID d (dv_ID v)") (auto simp: DeviceByID_def find_None_iff)
  then have "u \<in> set (t_devices d)" "dv_ID u = dv_ID v" by (auto simp: DeviceByID_def find_Some_iff)
  with k v u show ?thesis by (auto simp: keys_ok_def distinct_map inj_on_def)
qed

lemma append_device_log_revokes:
  assumes "Service_AppendDeviceLog cr p es d = (d1, Inr (), note)" and "e \<in> set es" and "d_Op e = OpRevokeDevice"
  shows "identity_step d d1" and "\<exists>v \<in> set (t_devices d1). dv_ID v = d_Revoked e \<and> dv_Revoked v"
proof -
  obtain x where tx: "append_device_log cr p es d = Inr (d1, x)"
    using assms(1) by (auto simp: Service_AppendDeviceLog_def WithTx_def split: if_split_asm sum.split_asm)
  then show "identity_step d d1" by (rule append_device_log_step)
  from tx obtain a log0 log d0 where "AccountByID d (p_Account p) = Some a" "replayDeviceLog cr a (DeviceEntries d (a_ID a)) = Inr log0"
    "replay (device_step cr) log0 es = Inr log" "\<not> PendingSuccession log" "AppendDeviceEntries d (a_ID a) es = Inr d0"
    and sync: "syncDevices d0 (a_ID a) es = Inr d1" and "x = ds_seq log"
    by (rule append_device_log_Inr)
  from syncDevices_revokes [OF sync assms(2,3)] show "\<exists>v \<in> set (t_devices d1). dv_ID v = d_Revoked e \<and> dv_Revoked v" .
qed

lemma revoked_stays_revoked:
  assumes "identity_step d d'" and "v \<in> set (t_devices d)" and "dv_Revoked v" and "keys_ok d'"
  shows "\<exists>v'. DeviceByID d' (dv_ID v) = Some v' \<and> dv_Revoked v'"
proof -
  from assms(1,2) obtain v' where "v' \<in> set (t_devices d')" "device_row_le v v'" by (auto simp: identity_step_def identity_rows_le_def)
  with keys_ok_device [OF assms(4) this(1)] assms(3) show ?thesis by (auto simp: device_row_le_def)
qed

lemma revoked_refused:
  assumes "DeviceByID d i = Some v" and "dv_Revoked v"
  shows "activeDevice d account i = Inl [ErrUnauthorized]"
    and "Service_Authenticate cr token kinds now d = Inr pr \<Longrightarrow> p_Kind pr = TokenAccess \<Longrightarrow> p_Device pr \<noteq> i"
  using assms by (auto simp: activeDevice_def Service_Authenticate_def split: option.splits if_split_asm)

text \<open>A revoked device stays out: once the server accepted its revocation, no access token is accepted for the device, it
  gets no challenge and no new token - at any later time, whatever requests the server handled in between (account deletion,
  which removes the device rows altogether, is an action of the operator and not one of them).\<close>

theorem revoked_device_stays_out:
  assumes "server_run cr d" and "Service_AppendDeviceLog cr p es d = (d1, Inr (), note)"
    and "e \<in> set es" and "d_Op e = OpRevokeDevice" and "(server_step cr)\<^sup>*\<^sup>* d1 d'"
  shows "(Service_Authenticate cr token kinds now d' = Inr pr \<longrightarrow> p_Kind pr = TokenAccess \<longrightarrow> p_Device pr \<noteq> d_Revoked e) \<and>
    (\<exists>err. Service_DeviceChallenge account (d_Revoked e) rnd clk d' s = (s, Inl err)) \<and>
    (\<exists>s' err. Service_DeviceVerify cr account (d_Revoked e) nonce sig rnd clk d' s = (d', s', Inl err))"
proof -
  note r = append_device_log_revokes [OF assms(2-4)]
  note st = server_steps_identity [OF assms(5)]
  have keys: "keys_ok d'" using server_run_keys [OF assms(1)] r(1) st by (simp add: identity_step_def)
  from r(2) obtain u where u: "u \<in> set (t_devices d1)" "dv_ID u = d_Revoked e" "dv_Revoked u" by blast
  from revoked_stays_revoked [OF st u(1,3) keys] obtain v where v: "DeviceByID d' (d_Revoked e) = Some v" "dv_Revoked v"
    unfolding u(2) by blast
  note refused = revoked_refused [OF v]
  show ?thesis using refused(2)
    by (auto simp: refused(1) Service_DeviceChallenge_def Service_DeviceVerify_def WithTx_def bind_res_def split: prod.splits sum.splits)
qed

theorem revoked_device_stays_out_witness:
  "\<forall>s. \<exists>err. Service_DeviceChallenge 4 7 None (0, 0) sv_d4 s = (s, Inl err)"
proof -
  have op: "d_Op sv_revoke = OpRevokeDevice" "d_Revoked sv_revoke = 7" "sv_revoke \<in> set [sv_revoke, sv_succession]"
    by (simp_all add: sv_revoke_def)
  note refused = revoked_device_stays_out [OF sv_run2 sv_revocation op(3,1) rtranclp.rtrancl_refl, THEN conjunct2, THEN conjunct1]
  show ?thesis using refused unfolding op(2) by blast
qed

end
