(* ===== verification/Server_Deletion.thy ===== *)
theory Server_Deletion
  imports Server_Identity
begin

text \<open>
  What deleting an account does to the vaults it shared. The devices of the account go with it, and every operation of
  a membership log is checked again against the device table on each replay: a log that holds an operation of the
  deleted account no longer replays, so its vault takes no further membership operation and no new commit, and the
  janitor's pass stops at it.
\<close>

definition orphaned :: "db \<Rightarrow> ID \<Rightarrow> ID \<Rightarrow> bool" where
  "orphaned d a w \<longleftrightarrow> (\<forall>v \<in> set (t_devices d). dv_Account v \<noteq> a) \<and> (\<exists>r \<in> set (ops_of d w). o_Author (or_Op r) = a)"

lemma orphaned_replay:
  assumes "orphaned d a w"
  obtains err where "replayMembership cr d w = Inl err"
proof -
  from assms obtain op where op: "op \<in> set (MemberOps d w)" "o_Author op = a"
    by (auto simp: orphaned_def MemberOps_def ops_of_def)
  have "DeviceByID d i = Some v \<Longrightarrow> dv_Account v \<noteq> a" for i v
    using assms by (auto simp: orphaned_def DeviceByID_def find_Some_iff)
  then have unsigned: "signatureCheck cr d a i alg msg sig \<noteq> None" for i alg msg sig
    by (auto simp: signatureCheck_def split: option.splits)
  have "replay (member_step cr (signatureCheck cr d)) m ops \<noteq> Inr t" if "op \<in> set ops" for m t ops
    using that
  proof (induction ops arbitrary: m)
    case (Cons o1 ops)
    have "member_step cr (signatureCheck cr d) m op \<noteq> Inr u" for u
      using unsigned [of "o_AuthorDevice op"] by (simp add: member_step_Inr op(2) del: not_None_eq)
    with Cons show ?case by (auto split: sum.splits)
  qed simp
  with op(1) have "replayMembership cr d w \<noteq> Inr t" for t by (auto simp: replayMembership_def bind_res_Inr lift_res_Inr)
  with that show thesis by (cases "replayMembership cr d w") auto
qed

lemma kept_orphaned:
  assumes "kept d d' w" and "t_devices d' = t_devices d" and "orphaned d a w"
  shows "orphaned d' a w"
proof -
  from assms(1) have l: "list_all2 kept_row (ops_of d w) (ops_of d' w)" by (simp add: kept_def)
  from assms(3) obtain i where i: "i < length (ops_of d w)" "o_Author (or_Op (ops_of d w ! i)) = a"
    by (auto simp: orphaned_def in_set_conv_nth)
  with l have "kept_row (ops_of d w ! i) (ops_of d' w ! i)" "i < length (ops_of d' w)"
    by (simp_all add: list_all2_nthD list_all2_lengthD [symmetric])
  with i(2) have "ops_of d' w ! i \<in> set (ops_of d' w)" "o_Author (or_Op (ops_of d' w ! i)) = a"
    by (auto simp: kept_row_def kept_op_def op_core_def)
  with assms(2,3) show ?thesis unfolding orphaned_def by auto
qed

lemma orphaned_prune_loop:
  assumes "orphaned d a w" and "w \<in> set vs" and "\<forall>v. ops_ok (ops_of d v)"
  shows "\<exists>d' err. prune_loop cr vs now d = (d', Inl err)"
  using assms
proof (induction vs arbitrary: d)
  case (Cons v vs)
  show ?case
  proof (cases "bind_res (replayMembership cr d v) (\<lambda>m. bind_res (pruneVault d v m now) (\<lambda>d. Inr (d, ())))")
    case (Inl err)
    then show ?thesis by (simp add: WithTx_def)
  next
    case (Inr x)
    then obtain m d1 where m: "replayMembership cr d v = Inr m" and d1: "pruneVault d v m now = Inr d1" "x = (d1, ())"
      by (auto simp: bind_res_Inr)
    have k: "kept d d1 i" for i using pruneVault_kept [OF _ d1(1)] Cons.prems(3) by (simp add: all_kept_def)
    obtain err where "replayMembership cr d w = Inl err" using Cons.prems(1) by (rule orphaned_replay)
    with m have "v \<noteq> w" by auto
    then have in_vs: "w \<in> set vs" using Cons.prems(2) by simp
    have "t_devices d1 = t_devices d" using pruneVault_write [OF d1(1)] by (simp add: vault_write_def)
    from kept_orphaned [OF k this Cons.prems(1)] have orphan: "orphaned d1 a w" .
    have ok: "\<forall>i. ops_ok (ops_of d1 i)"
    proof
      fix i
      from kept_ops_ok [OF k, of i] Cons.prems(3) show "ops_ok (ops_of d1 i)" by simp
    qed
    from Cons.IH [OF orphan in_vs ok] obtain d2 err where "prune_loop cr vs now d1 = (d2, Inl err)" by blast
    then show ?thesis by (simp add: WithTx_def Inr d1(2))
  qed
qed simp

lemma delete_sole_accounts: "t_accounts (delete_sole d vs) = t_accounts d"
  by (induction vs arbitrary: d) (auto simp: DeleteVault_def)

lemma delete_sole_ops: "ops_of (delete_sole d vs) w = ops_of d w \<or> ops_of (delete_sole d vs) w = []"
proof (induction vs arbitrary: d)
  case (Cons v vs)
  have "ops_of (DeleteVault d i) w = ops_of d w \<or> ops_of (DeleteVault d i) w = []" for i
    by (cases "i = w") (auto simp: DeleteVault_def ops_of_def filter_empty_conv intro!: filter_cong)
  from this [of "va_ID v"] Cons [of "DeleteVault d (va_ID v)"] Cons [of d] show ?case by auto
qed simp

lemma DeleteAccount_rows:
  assumes "Service_DeleteAccount username d = (d', Inr ())" and "AccountByUsername d username = Some a"
  shows "\<forall>v \<in> set (t_devices d'). dv_Account v \<noteq> a_ID a" and "ops_of d' w = ops_of d w \<or> ops_of d' w = []"
proof -
  let ?d = "deleteSoleVaults d (a_ID a)"
  have d': "d' = fst (DeleteAccount ?d username)"
    using assms by (auto simp: Service_DeleteAccount_def WithTx_def split: prod.splits if_splits)
  have "a \<in> set (t_accounts ?d)" "a_Username a = username"
    using assms(2) by (auto simp: AccountByUsername_def find_Some_iff deleteSoleVaults_def delete_sole_accounts)
  then show "\<forall>v \<in> set (t_devices d'). dv_Account v \<noteq> a_ID a" by (auto simp: d' DeleteAccount_def Let_def)
  show "ops_of d' w = ops_of d w \<or> ops_of d' w = []"
    using delete_sole_ops [of d "VaultsOf d (a_ID a)" w] by (simp add: d' DeleteAccount_def Let_def deleteSoleVaults_def ops_of_def)
qed

text \<open>C22. Deleting an account blocks the vaults it wrote the membership of: in a vault that stays and whose log holds an operation of the
  deleted account, no member can append a membership operation - not even to remove the account - and no new commit is
  accepted, and every pass of the janitor fails. (\<open>ops_ok\<close> holds in every reachable state; the comment on \<open>DeleteAccount\<close>
  says that such a vault stays and that its admins remove the member.)\<close>

theorem deleted_author_blocks_vault:
  assumes "Service_DeleteAccount username d = (d', Inr ())" and "AccountByUsername d username = Some a"
    and "\<forall>v. ops_ok (ops_of d v)" and "op \<in> set (MemberOps d' w)" and "o_Author op = a_ID a"
  shows "(\<exists>err. Service_AppendMembership cr p w ops now d' = (d', Inl err, None)) \<and>
    (CommitSeqByID d' w (h_Commit (cm_Head c)) = None \<longrightarrow> (\<exists>err. Service_Commit cr cfg p w expectSeq c clk d' = (d', Inl err, None))) \<and>
    (w \<in> set (AllVaults d') \<longrightarrow> (\<exists>d'' err. Service_PruneAll cr now d' = (d'', Inl err)))"
proof -
  have orphan: "orphaned d' (a_ID a) w"
    using DeleteAccount_rows(1) [OF assms(1,2)] assms(4,5) by (auto simp: orphaned_def MemberOps_def ops_of_def)
  then obtain err where replay: "replayMembership cr d' w = Inl err" by (rule orphaned_replay)
  have ok: "\<forall>v. ops_ok (ops_of d' v)"
  proof
    fix v
    show "ops_ok (ops_of d' v)" using DeleteAccount_rows(2) [OF assms(1,2), of v] assms(3) [rule_format, of v] by (auto simp: ops_ok_def simp del: upt_Suc)
  qed
  have "\<exists>err. append_membership cr p w ops now d' = Inl err"
    by (cases "requireMember d' w (p_Account p)") (simp_all add: append_membership_def replay)
  moreover have "\<exists>err. commit_tx cr cfg p w expectSeq c clk d' = Inl err" if "CommitSeqByID d' w (h_Commit (cm_Head c)) = None"
    using that by (cases "requireMember d' w (p_Account p)"; cases clk)
      (auto simp: commit_tx_def verifyCommit_def replay bind_res_def split: sum.split)
  ultimately show ?thesis
    using orphaned_prune_loop [OF orphan _ ok, of "AllVaults d'" cr now]
    by (auto simp: Service_AppendMembership_def Service_Commit_def Service_PruneAll_def WithTx_def split: option.split)
qed

text \<open>A vault that account 4 created and shares with account 9, and the database after the deletion of account 4.\<close>

definition sd_add :: MemberOp where
  "sd_add = ml_add\<lparr>o_Sig := replicate 64 0, o_Prev := 0\<rparr>"

definition sd_shared :: db where
  "sd_shared = empty_db\<lparr>t_accounts := [sv_account, sv_account\<lparr>a_ID := 9, a_Username := ''bert''\<rparr>],
     t_devices := [sv_device, sv_device\<lparr>dv_ID := 8, dv_Account := 9\<rparr>],
     t_vaults := [sv_vault\<lparr>va_MembershipSeq := 2, va_Personal := False\<rparr>],
     t_member_ops := [\<lparr>or_Vault = 1, or_Seq = 1, or_Op = sv_create\<rparr>, \<lparr>or_Vault = 1, or_Seq = 2, or_Op = sd_add\<rparr>],
     t_members := [\<lparr>mr_Vault = 1, mr_Account = 4, mr_Role = RoleOwner\<rparr>, \<lparr>mr_Vault = 1, mr_Account = 9, mr_Role = RoleEditor\<rparr>],
     t_participants := [(1, 4), (1, 9)]\<rparr>"

definition sd_left :: db where
  "sd_left = sd_shared\<lparr>t_accounts := [sv_account\<lparr>a_ID := 9, a_Username := ''bert''\<rparr>],
     t_devices := [sv_device\<lparr>dv_ID := 8, dv_Account := 9\<rparr>]\<rparr>"

lemma sd_ops: "MemberOps sd_shared 1 = [sv_create, sd_add]" "MemberOps sd_left 1 = [sv_create, sd_add]"
  by (simp_all add: MemberOps_def sd_shared_def sd_left_def)

lemma sd_replay: "\<exists>m. replayMembership sv_crypto sd_shared 1 = Inr m"
proof -
  let ?check = "signatureCheck sv_crypto sd_shared"
  have check: "?check 4 7 SigEd25519 msg (replicate 64 0) = None" for msg
    by (simp add: signatureCheck_def DeviceByID_def sd_shared_def sv_device_def sv_sig)
  have "op_fits sd_add"
    by (simp add: op_fits_def op_fields_def op_head_def op_tail_def wrap_fields_def sd_add_def ml_op_defs fits_def MaxUint32_def
        label_defs del: word_of_nat_eq_0_iff)
  then have "\<exists>m. member_step sv_crypto ?check sv_m sd_add = Inr m"
    unfolding member_step_Inr
    by (simp add: sd_add_def ml_op_defs sv_m_def ml_state_defs applyKind_def applyAdd_Inr MembershipState_Role_def
        assignableRole_def role_defs CanManage_def check del: word_of_nat_eq_0_iff)
  then show ?thesis
    by (auto simp: replayMembership_def lift_res_def sd_ops sv_s0_New sv_create_step [of ?check, OF check])
qed

lemma sd_deletion: "Service_DeleteAccount ''anna'' sd_shared = (sd_left, Inr ())" "AccountByUsername sd_shared ''anna'' = Some sv_account"
  by (simp_all add: Service_DeleteAccount_def WithTx_def AccountByUsername_def deleteSoleVaults_def VaultsOf_def MemberCount_def
      DeleteAccount_def Let_def changed_def sd_shared_def sd_left_def sv_account_def sv_vault_def sv_device_def empty_db_def)

theorem deleted_author_blocks_vault_witness:
  "(\<exists>m. replayMembership sv_crypto sd_shared 1 = Inr m) \<and>
    (\<exists>err. Service_AppendMembership sv_crypto \<lparr>p_Account = 9, p_Device = 8, p_Kind = TokenAccess\<rparr> 1 [sd_add] 0 sd_left = (sd_left, Inl err, None)) \<and>
    (\<exists>d' err. Service_PruneAll sv_crypto 0 sd_left = (d', Inl err))"
proof -
  have ok: "\<forall>v. ops_ok (ops_of sd_shared v)"
    by (auto simp: ops_ok_def ops_of_def sd_shared_def sv_create_def sd_add_def ml_op_defs upt_rec)
  have op: "sv_create \<in> set (MemberOps sd_left 1)" "o_Author sv_create = a_ID sv_account"
    by (simp_all add: sd_ops sv_create_def ml_op_defs sv_account_def)
  have "1 \<in> set (AllVaults sd_left)" by (simp add: AllVaults_def sd_left_def sd_shared_def sv_vault_def)
  with deleted_author_blocks_vault [OF sd_deletion ok op, of sv_crypto "\<lparr>p_Account = 9, p_Device = 8, p_Kind = TokenAccess\<rparr>" "[sd_add]" 0]
  show ?thesis using sd_replay by blast
qed

end
