(* ===== verification/Sync_State.thy ===== *)
theory Sync_State
  imports Vault_State Device_Log
begin

text \<open>
  The sync state a device keeps between rounds (\<open>infra/syncstate\<close>, the interface \<open>StateStore\<close> of
  \<open>domain/synctrust/state.go\<close>): per vault the last verified head and the current version of every record, the verified
  logs, the outbox and the quarantine. A table whose rows are replaced by their primary key is a finite map; the two
  log tables are lists of rows. Rows hold values of the domain: they are stored in the wire form, which theory \<open>Wire\<close>
  shows to be exact. Every method is one transaction: on an error the state is the one before. As on the
  server, \<open>database/sql\<close> refuses a \<open>uint64\<close> argument of \<open>2 ^ 63\<close> or more.
\<close>

section \<open>Errors of the sync engine\<close>

datatype sync_error =
    ErrRemoteMalformed | ErrRemoteUnauthorized | ErrRemoteForbidden | ErrRemoteNotFound | ErrRemoteTooLarge
  | ErrRemoteUnsupported | ErrRemoteFrozen | ErrRemoteQuota | ErrRemoteInternal | ErrHistoryPruned | ErrPurgeNotDue
  | ErrRemoteProtocol | ErrServerIdentity
  | ErrSyncIntegrity \<comment> \<open>\<open>synctrust.ErrIntegrity\<close>\<close>
  | ErrKeysRotated
  | ConflictError u64
  | RateLimitedError int
  | NetError | ContextCanceled | ContextDeadlineExceeded
  | ErrStaleHead | ErrLogGap | ErrOutboxBusy | ErrForeignRecord
  | ErrSyncDeviceRevoked | ErrLogRolledBack | ErrMemberKey | ErrNoNamingKey | ErrSyncBusy | ErrRoundAgain
  | ErrHeldNotFound | ErrHeldStale | ErrSkip | ErrTrashNotFound | ErrRestoreWeakens | ErrTeamNotJoined
  | ErrOpen | ErrNoVaultKey | ErrSyncAccount | ErrNotATeam | ErrInviteKeyChanged | ErrContactMismatch
  | Domain sentinel \<comment> \<open>an error of \<open>vaultsync\<close> the error wraps\<close>
  | ErrSql \<comment> \<open>a statement the database refused\<close>
  | ErrOther string

type_synonym sync_err = "sync_error list"
type_synonym 'a sync_result = "sync_err + 'a"

definition dom_res :: "'a result \<Rightarrow> 'a sync_result" where
  "dom_res r = (case r of Inl err \<Rightarrow> Inl (map Domain err) | Inr x \<Rightarrow> Inr x)"

lemma dom_res_Inr [result_simps]: "dom_res r = Inr x \<longleftrightarrow> r = Inr x"
  by (simp add: dom_res_def split: sum.splits)

lemma dom_res_simps [simp]: "dom_res (Inr x) = Inr x" "dom_res (Inl err) = Inl (map Domain err)"
  by (simp_all add: dom_res_def)

section \<open>Tables\<close>

record StoredVault =
  sto_Head :: "Head option"
  sto_Records :: "Envelope list"
  sto_LandedAt :: "(ID, u64) go_map"

record QuarantineItem =
  qi_Envelope :: Envelope
  qi_Reason :: string
  qi_AtUnixMilli :: int
  qi_Pending :: bool

record 'e log_row =
  lg_owner :: ID
  lg_seq :: u64
  lg_item :: 'e

record state_db =
  tb_heads :: "(ID, Head) go_map"
  tb_records :: "(ID, (ID, Envelope \<times> u64) go_map) go_map" \<comment> \<open>the records of a vault, with the time of the head that carried each\<close>
  tb_device_entries :: "DeviceEntry log_row list"
  tb_member_ops :: "MemberOp log_row list"
  tb_outbox :: "(ID, Commit) go_map"
  tb_quarantine :: "(ID, (ID, QuarantineItem) go_map) go_map"

definition empty_state :: state_db where
  "empty_state = \<lparr>tb_heads = fmempty, tb_records = fmempty, tb_device_entries = [], tb_member_ops = [],
     tb_outbox = fmempty, tb_quarantine = fmempty\<rparr>"

text \<open>The rows of one vault, and their values in the order of their keys.\<close>

definition rows_of :: "(ID, (ID, 'v) go_map) go_map \<Rightarrow> ID \<Rightarrow> (ID, 'v) go_map" where
  "rows_of t v = (case fmlookup t v of None \<Rightarrow> fmempty | Some m \<Rightarrow> m)"

definition in_order :: "(ID, 'v) go_map \<Rightarrow> 'v list" where
  "in_order m = map (\<lambda>i. the (fmlookup m i)) (sorted_list_of_fset (fmdom m))"

definition sql_args :: "u64 list \<Rightarrow> 'a sync_result \<Rightarrow> 'a sync_result" where
  "sql_args xs r = (if list_all (\<lambda>x. x < 2 ^ 63) xs then r else Inl [ErrSql])"

lemma sql_args_Inr [result_simps]: "sql_args xs r = Inr x \<longleftrightarrow> list_all (\<lambda>x. x < 2 ^ 63) xs \<and> r = Inr x"
  by (simp add: sql_args_def)

lemma rows_of_upd [simp]: "rows_of (fmupd v m t) w = (if w = v then m else rows_of t w)"
  by (simp add: rows_of_def)

lemma in_order_set: "set (in_order m) = {x. \<exists>i. fmlookup m i = Some x}"
proof -
  have "x \<in> set (in_order m)" if "fmlookup m i = Some x" for i x
  proof -
    from that have "i \<in> fset (fmdom m)" by (simp add: fmlookup_dom_iff)
    moreover from that have "the (fmlookup m i) = x" by simp
    ultimately show ?thesis by (force simp: in_order_def sorted_list_of_fset.rep_eq)
  qed
  then show ?thesis by (auto simp: in_order_def sorted_list_of_fset.rep_eq fmlookup_dom_iff)
qed

section \<open>Vaults\<close>

definition landedAt :: "state_db \<Rightarrow> ID \<Rightarrow> (ID, u64) go_map" where
  "landedAt d v = fmmap snd (rows_of (tb_records d) v)"

definition LoadVault :: "state_db \<Rightarrow> ID \<Rightarrow> StoredVault" where
  "LoadVault d v =
    (case fmlookup (tb_heads d) v of
       None \<Rightarrow> \<lparr>sto_Head = None, sto_Records = [], sto_LandedAt = fmempty\<rparr>
     | Some h \<Rightarrow> \<lparr>sto_Head = Some h, sto_Records = map fst (in_order (rows_of (tb_records d) v)), sto_LandedAt = landedAt d v\<rparr>)"

definition putRecord :: "Head \<Rightarrow> Envelope \<Rightarrow> (ID, Envelope \<times> u64) go_map \<Rightarrow> (ID, Envelope \<times> u64) go_map sync_result" where
  "putRecord h e rows =
    (if e_Vault e \<noteq> h_Vault h then Inl [ErrForeignRecord]
     else sql_args [h_ClientTimeUnixMilli h] (Inr (fmupd (e_Record e) (e, h_ClientTimeUnixMilli h) rows)))"

fun put_records :: "Head \<Rightarrow> Envelope list \<Rightarrow> (ID, Envelope \<times> u64) go_map \<Rightarrow> (ID, Envelope \<times> u64) go_map sync_result" where
  "put_records h [] rows = Inr rows"
| "put_records h (e # es) rows = bind_res (putRecord h e rows) (put_records h es)"

definition AdvanceVault :: "Head \<Rightarrow> Envelope list \<Rightarrow> ID list \<Rightarrow> state_db \<Rightarrow> state_db sync_result" where
  "AdvanceVault h touched purged d =
    (if (case fmlookup (tb_heads d) (h_Vault h) of None \<Rightarrow> False | Some cur \<Rightarrow> h_Seq h \<le> h_Seq cur) then Inl [ErrStaleHead]
     else bind_res (put_records h touched (rows_of (tb_records d) (h_Vault h))) (\<lambda>rows.
       sql_args [h_Seq h] (Inr (d\<lparr>tb_records := fmupd (h_Vault h) (fmfilter (\<lambda>i. i \<notin> set purged) rows) (tb_records d),
         tb_heads := fmupd (h_Vault h) h (tb_heads d)\<rparr>))))"

definition ForgetVault :: "ID \<Rightarrow> state_db \<Rightarrow> state_db" where
  "ForgetVault v d = d\<lparr>tb_heads := fmdrop v (tb_heads d), tb_records := fmdrop v (tb_records d),
     tb_member_ops := filter (\<lambda>r. lg_owner r \<noteq> v) (tb_member_ops d),
     tb_outbox := fmdrop v (tb_outbox d), tb_quarantine := fmdrop v (tb_quarantine d)\<rparr>"

definition ForgetAll :: "state_db \<Rightarrow> state_db" where
  "ForgetAll d = d\<lparr>tb_heads := fmempty, tb_records := fmempty, tb_member_ops := [], tb_outbox := fmempty,
     tb_quarantine := fmempty, tb_device_entries := []\<rparr>"

section \<open>Logs\<close>

definition log_of :: "'e log_row list \<Rightarrow> ID \<Rightarrow> 'e list" where
  "log_of rows i = map lg_item (sort_key lg_seq (filter (\<lambda>r. lg_owner r = i) rows))"

definition last_seq :: "'e log_row list \<Rightarrow> ID \<Rightarrow> u64" where
  "last_seq rows i = fold max (map lg_seq (filter (\<lambda>r. lg_owner r = i) rows)) 0"

fun append_rows :: "('e \<Rightarrow> ID) \<Rightarrow> ('e \<Rightarrow> u64) \<Rightarrow> ID \<Rightarrow> u64 \<Rightarrow> 'e list \<Rightarrow> 'e log_row list \<Rightarrow> 'e log_row list sync_result" where
  "append_rows owner sq i prev [] rows = Inr rows"
| "append_rows owner sq i prev (e # es) rows =
    (if owner e \<noteq> i \<or> sq e \<noteq> prev + 1 then Inl [ErrLogGap]
     else sql_args [sq e] (append_rows owner sq i (sq e) es (rows @ [\<lparr>lg_owner = i, lg_seq = sq e, lg_item = e\<rparr>])))"

definition appendLog :: "('e \<Rightarrow> ID) \<Rightarrow> ('e \<Rightarrow> u64) \<Rightarrow> 'e list \<Rightarrow> 'e log_row list \<Rightarrow> 'e log_row list sync_result" where
  "appendLog owner sq es rows =
    (case es of
       [] \<Rightarrow> Inr rows
     | e # _ \<Rightarrow> append_rows owner sq (owner e) (last_seq rows (owner e)) es rows)"

definition StateStore_DeviceLog :: "state_db \<Rightarrow> ID \<Rightarrow> DeviceEntry list" where
  "StateStore_DeviceLog d account = log_of (tb_device_entries d) account"

definition AppendDeviceLog :: "DeviceEntry list \<Rightarrow> state_db \<Rightarrow> state_db sync_result" where
  "AppendDeviceLog es d =
    bind_res (appendLog d_Account d_Seq es (tb_device_entries d)) (\<lambda>rows. Inr (d\<lparr>tb_device_entries := rows\<rparr>))"

definition StateStore_Membership :: "state_db \<Rightarrow> ID \<Rightarrow> MemberOp list" where
  "StateStore_Membership d v = log_of (tb_member_ops d) v"

definition AppendMembership :: "MemberOp list \<Rightarrow> state_db \<Rightarrow> state_db sync_result" where
  "AppendMembership ops d =
    bind_res (appendLog o_Vault o_Seq ops (tb_member_ops d)) (\<lambda>rows. Inr (d\<lparr>tb_member_ops := rows\<rparr>))"

section \<open>Outbox and quarantine\<close>

definition PutOutbox :: "Commit \<Rightarrow> state_db \<Rightarrow> state_db sync_result" where
  "PutOutbox c d =
    (if fmlookup (tb_outbox d) (h_Vault (cm_Head c)) \<noteq> None then Inl [ErrOutboxBusy]
     else Inr (d\<lparr>tb_outbox := fmupd (h_Vault (cm_Head c)) c (tb_outbox d)\<rparr>))"

definition Outbox :: "state_db \<Rightarrow> ID \<Rightarrow> Commit option" where
  "Outbox d v = fmlookup (tb_outbox d) v"

definition ClearOutbox :: "ID \<Rightarrow> ID \<Rightarrow> state_db \<Rightarrow> state_db" where
  "ClearOutbox v commit_id d =
    d\<lparr>tb_outbox := fmfilter (\<lambda>w. \<not> (w = v \<and> h_Commit (cm_Head (the (fmlookup (tb_outbox d) w))) = commit_id)) (tb_outbox d)\<rparr>"

definition Quarantine :: "QuarantineItem \<Rightarrow> state_db \<Rightarrow> state_db" where
  "Quarantine q d =
    (let e = qi_Envelope q in
     d\<lparr>tb_quarantine := fmupd (e_Vault e) (fmupd (e_Record e) q (rows_of (tb_quarantine d) (e_Vault e))) (tb_quarantine d)\<rparr>)"

definition Quarantined :: "state_db \<Rightarrow> ID \<Rightarrow> QuarantineItem list" where
  "Quarantined d v = in_order (rows_of (tb_quarantine d) v)"

definition Release :: "ID \<Rightarrow> ID \<Rightarrow> state_db \<Rightarrow> state_db" where
  "Release v i d = d\<lparr>tb_quarantine := fmupd v (fmdrop i (rows_of (tb_quarantine d) v)) (tb_quarantine d)\<rparr>"

section \<open>Well-formed states\<close>

text \<open>Every row is filed under its own vault and record, and a vault without a head has no records.\<close>

definition db_ok :: "state_db \<Rightarrow> bool" where
  "db_ok d \<longleftrightarrow>
    (\<forall>v h. fmlookup (tb_heads d) v = Some h \<longrightarrow> h_Vault h = v) \<and>
    (\<forall>v. fmlookup (tb_heads d) v = None \<longrightarrow> rows_of (tb_records d) v = fmempty) \<and>
    (\<forall>v r e t. fmlookup (rows_of (tb_records d) v) r = Some (e, t) \<longrightarrow> e_Record e = r \<and> e_Vault e = v)"

lemma db_ok_empty [simp]: "db_ok empty_state"
  by (simp add: db_ok_def empty_state_def rows_of_def)

lemma db_okD: "db_ok d \<Longrightarrow> fmlookup (rows_of (tb_records d) v) r = Some (e, t) \<Longrightarrow> e_Record e = r \<and> e_Vault e = v"
  unfolding db_ok_def by blast

lemma put_records_Cons:
  "put_records h (e # es) rows = Inr rows' \<longleftrightarrow> e_Vault e = h_Vault h \<and> h_ClientTimeUnixMilli h < 2 ^ 63 \<and>
    put_records h es (fmupd (e_Record e) (e, h_ClientTimeUnixMilli h) rows) = Inr rows'"
  by (auto simp: putRecord_def result_simps)

lemma put_records_vault: "put_records h es rows = Inr rows' \<Longrightarrow> e \<in> set es \<Longrightarrow> e_Vault e = h_Vault h"
  by (induction es arbitrary: rows) (auto simp: put_records_Cons simp del: put_records.simps(2))

lemma put_records_other: "put_records h es rows = Inr rows' \<Longrightarrow> i \<notin> e_Record ` set es \<Longrightarrow> fmlookup rows' i = fmlookup rows i"
  by (induction es arbitrary: rows) (auto simp: put_records_Cons simp del: put_records.simps(2))

lemma put_records_new:
  assumes "put_records h es rows = Inr rows'" and "distinct (map e_Record es)" and "e \<in> set es"
  shows "fmlookup rows' (e_Record e) = Some (e, h_ClientTimeUnixMilli h)"
  using assms
proof (induction es arbitrary: rows)
  case (Cons k es)
  then have loop: "put_records h es (fmupd (e_Record k) (k, h_ClientTimeUnixMilli h) rows) = Inr rows'"
    unfolding put_records_Cons by blast
  show ?case
  proof (cases "e = k")
    case True
    with put_records_other [OF loop, of "e_Record k"] Cons.prems(2) show ?thesis by simp
  next
    case False
    with Cons.IH [OF loop] Cons.prems show ?thesis by simp
  qed
qed simp

lemma put_records_origin:
  "put_records h es rows = Inr rows' \<Longrightarrow> fmlookup rows' i = Some (x, t) \<Longrightarrow>
    fmlookup rows i = Some (x, t) \<or> x \<in> set es \<and> e_Record x = i"
proof (induction es arbitrary: rows)
  case (Cons k es)
  then have "put_records h es (fmupd (e_Record k) (k, h_ClientTimeUnixMilli h) rows) = Inr rows'"
    unfolding put_records_Cons by blast
  from Cons.IH [OF this Cons.prems(2)] show ?case by (auto split: if_split_asm)
qed simp

lemma AdvanceVault_Inr:
  assumes "AdvanceVault h es ps d = Inr d'"
  obtains rows where "put_records h es (rows_of (tb_records d) (h_Vault h)) = Inr rows"
    "\<And>cur. fmlookup (tb_heads d) (h_Vault h) = Some cur \<Longrightarrow> h_Seq cur < h_Seq h" "h_Seq h < 2 ^ 63"
    "d' = d\<lparr>tb_records := fmupd (h_Vault h) (fmfilter (\<lambda>i. i \<notin> set ps) rows) (tb_records d),
      tb_heads := fmupd (h_Vault h) h (tb_heads d)\<rparr>"
  using assms that by (auto simp: AdvanceVault_def result_simps split: option.split_asm)

lemma AdvanceVault_db_ok:
  assumes "AdvanceVault h es ps d = Inr d'" and "db_ok d"
  shows "db_ok d'"
proof -
  from assms(1) obtain rows where rows: "put_records h es (rows_of (tb_records d) (h_Vault h)) = Inr rows"
    and d': "d' = d\<lparr>tb_records := fmupd (h_Vault h) (fmfilter (\<lambda>i. i \<notin> set ps) rows) (tb_records d),
      tb_heads := fmupd (h_Vault h) h (tb_heads d)\<rparr>" by (rule AdvanceVault_Inr)
  have "e_Record e = r \<and> e_Vault e = h_Vault h" if "fmlookup rows r = Some (e, t)" for r e t
    using put_records_origin [OF rows that] put_records_vault [OF rows] db_okD [OF assms(2)] by blast
  with assms(2) show ?thesis by (simp add: d' db_ok_def) blast
qed

section \<open>What a stored vault restores to\<close>

text \<open>The leaves of a state are those of the stored records.\<close>

definition mirrors :: "crypto \<Rightarrow> (ID, Envelope \<times> u64) go_map \<Rightarrow> (ID, Leaf) go_map \<Rightarrow> bool" where
  "mirrors cr rows leaves \<longleftrightarrow> (\<forall>r. rel_option (\<lambda>x l. LeafOf cr (fst x) = Inr l) (fmlookup rows r) (fmlookup leaves r))"

lemma mirrors_dom:
  assumes "mirrors cr rows leaves"
  shows "fmdom rows = fmdom leaves"
proof (rule fset_eqI)
  fix r
  from assms have "fmlookup rows r = None \<longleftrightarrow> fmlookup leaves r = None"
    by (auto simp: mirrors_def option.rel_sel Option.is_none_def split: option.splits dest: spec [of _ r])
  then show "r |\<in>| fmdom rows \<longleftrightarrow> r |\<in>| fmdom leaves" by (auto simp: fmlookup_dom_iff)
qed

lemma list_all2_partner: "list_all2 P xs ys \<Longrightarrow> x \<in> set xs \<Longrightarrow> \<exists>y \<in> set ys. P x y"
  by (induction xs ys rule: list_all2_induct) auto

lemma list_all2_swap: "list_all2 P xs ys \<Longrightarrow> list_all2 (\<lambda>y x. P x y) ys xs"
  by (induction xs ys rule: list_all2_induct) auto

lemma record_leaves_Inr:
  "record_leaves cr v es = Inr ls \<longleftrightarrow> list_all2 (\<lambda>e l. e_Vault e = v \<and> LeafOf cr e = Inr l) es ls"
  by (induction es arbitrary: ls) (auto simp: result_simps list_all2_Cons1)

lemma mirrors_leaves:
  assumes "mirrors cr (rows_of (tb_records d) v) (vs_leaves s)" and "db_ok d"
  shows "record_leaves cr v (map fst (in_order (rows_of (tb_records d) v))) = Inr (VaultState_Leaves s)"
proof -
  let ?rows = "rows_of (tb_records d) v"
  have "e_Vault (fst (the (fmlookup ?rows r))) = v \<and>
      LeafOf cr (fst (the (fmlookup ?rows r))) = Inr (the (fmlookup (vs_leaves s) r))" if "r |\<in>| fmdom ?rows" for r
  proof -
    from that obtain e t where e: "fmlookup ?rows r = Some (e, t)" by (auto simp: fmlookup_dom_iff)
    then have "e_Vault e = v" using db_okD [OF assms(2)] by blast
    moreover from assms(1) e obtain l where "fmlookup (vs_leaves s) r = Some l" "LeafOf cr e = Inr l"
      by (auto simp: mirrors_def option_rel_Some1 dest!: spec [of _ r])
    ultimately show ?thesis using e by simp
  qed
  then show ?thesis
    unfolding record_leaves_Inr in_order_def VaultState_Leaves_def mirrors_dom [OF assms(1), symmetric]
    unfolding map_map list.rel_map by (intro list.rel_refl_strong) (simp add: sorted_list_of_fset.rep_eq)
qed

lemma leaves_mirror:
  assumes "record_leaves cr v (map fst (in_order (rows_of (tb_records d) v))) = Inr ls" and "db_ok d"
    and "keyed s" and "mset (VaultState_Leaves s) = mset ls"
  shows "mirrors cr (rows_of (tb_records d) v) (vs_leaves s)"
proof -
  let ?rows = "rows_of (tb_records d) v"
  have pair: "list_all2 (\<lambda>e l. e_Vault e = v \<and> LeafOf cr e = Inr l) (map fst (in_order ?rows)) ls"
    using assms(1) by (simp add: record_leaves_Inr)
  have set_ls: "set ls = set (VaultState_Leaves s)" using assms(4) mset_eq_setD by metis
  have own: "e_Record e = r" if "fmlookup ?rows r = Some (e, t)" for r e t using db_okD [OF assms(2) that] by simp
  have rows: "\<exists>l. fmlookup (vs_leaves s) r = Some l \<and> LeafOf cr e = Inr l" if e: "fmlookup ?rows r = Some (e, t)" for r e t
  proof -
    have "e \<in> set (map fst (in_order ?rows))" using e by (force simp: in_order_set)
    from list_all2_partner [OF pair this] obtain l where "l \<in> set ls" "LeafOf cr e = Inr l" by blast
    then show ?thesis
      using Leaves_lookup [OF assms(3), of r l] set_ls LeafOf_Inr [of cr e l] own [OF e] by auto
  qed
  moreover have "fmlookup ?rows r \<noteq> None" if l: "fmlookup (vs_leaves s) r = Some l" for r l
  proof -
    have "l \<in> set ls" "l_Record l = r" using Leaves_lookup [OF assms(3)] l set_ls by auto
    with list_all2_partner [OF pair [THEN list_all2_swap], of l]
    obtain e where "e \<in> set (map fst (in_order ?rows))" "LeafOf cr e = Inr l" by auto
    then obtain t r' where "fmlookup ?rows r' = Some (e, t)" "e_Record e = r" by (auto simp: in_order_set \<open>l_Record l = r\<close> dest: LeafOf_Inr)
    with own show ?thesis by auto
  qed
  ultimately show ?thesis
    unfolding mirrors_def by (metis (mono_tags, lifting) fst_conv option.rel_intros option.exhaust surj_pair)
qed

definition verified :: "crypto \<Rightarrow> state_db \<Rightarrow> VaultState \<Rightarrow> bool" where
  "verified cr d s \<longleftrightarrow> RestoreVaultState cr (vs_vault s) (sto_Head (LoadVault d (vs_vault s))) (sto_Records (LoadVault d (vs_vault s))) = Inr s"

lemma verified_Some:
  assumes "db_ok d" and "fmlookup (tb_heads d) (vs_vault s) = Some h"
  shows "verified cr d s \<longleftrightarrow> mirrors cr (rows_of (tb_records d) (vs_vault s)) (vs_leaves s) \<and> keyed s \<and>
    MerkleRoot cr (VaultState_Leaves s) = Inr (h_MerkleRoot h) \<and> head_fits h \<and>
    vs_cursor s = \<lparr>cur_Seq = h_Seq h, cur_Hash = sha256 cr (head_preimage h), cur_MembershipSeq = h_MembershipSeq h\<rparr>"
  (is "_ \<longleftrightarrow> ?R")
proof -
  let ?v = "vs_vault s" let ?es = "map fst (in_order (rows_of (tb_records d) ?v))"
  have hv: "h_Vault h = ?v" using assms by (simp add: db_ok_def)
  have "verified cr d s \<longleftrightarrow> (\<exists>ls. record_leaves cr ?v ?es = Inr ls \<and> RestoreVaultStateFromLeaves cr ?v (Some h) ls = Inr s)"
    by (simp add: verified_def LoadVault_def assms(2) RestoreVaultState_def hv bind_res_Inr)
  also have "\<dots> \<longleftrightarrow> ?R"
  proof
    assume "\<exists>ls. record_leaves cr ?v ?es = Inr ls \<and> RestoreVaultStateFromLeaves cr ?v (Some h) ls = Inr s"
    then obtain ls where ls: "record_leaves cr ?v ?es = Inr ls" "RestoreVaultStateFromLeaves cr ?v (Some h) ls = Inr s" by blast
    then have s: "keyed s" "mset (VaultState_Leaves s) = mset ls" "MerkleRoot cr ls = Inr (h_MerkleRoot h)" "head_fits h"
      "vs_cursor s = \<lparr>cur_Seq = h_Seq h, cur_Hash = sha256 cr (head_preimage h), cur_MembershipSeq = h_MembershipSeq h\<rparr>"
      unfolding RestoreFromLeaves_Inr by blast+
    from leaves_mirror [OF ls(1) assms(1) s(1,2)] s MerkleRoot_perm [OF s(2), of cr] show ?R by simp
  next
    assume ?R
    with mirrors_leaves [of cr d ?v s] assms(1) hv
    show "\<exists>ls. record_leaves cr ?v ?es = Inr ls \<and> RestoreVaultStateFromLeaves cr ?v (Some h) ls = Inr s"
      by (auto simp: RestoreFromLeaves_Inr)
  qed
  finally show ?thesis .
qed

lemma verified_None:
  "fmlookup (tb_heads d) (vs_vault s) = None \<Longrightarrow> verified cr d s \<longleftrightarrow> NewVaultState cr (vs_vault s) = Inr s"
  by (auto simp: verified_def LoadVault_def RestoreVaultState_def RestoreVaultStateFromLeaves_def bind_res_Inr)

lemma verified_mirrors:
  assumes "db_ok d" and "verified cr d s"
  shows "mirrors cr (rows_of (tb_records d) (vs_vault s)) (vs_leaves s) \<and> keyed s"
proof (cases "fmlookup (tb_heads d) (vs_vault s)")
  case None
  then have "vs_leaves s = fmempty" using assms(2) verified_None [of d s cr] by (cases s) (auto simp: NewVaultState_Inr)
  moreover have "rows_of (tb_records d) (vs_vault s) = fmempty" using assms(1) None by (simp add: db_ok_def)
  ultimately show ?thesis by (simp add: mirrors_def keyed_def)
qed (use assms verified_Some in blast)

lemma verified_same:
  "tb_heads d' = tb_heads d \<Longrightarrow> tb_records d' = tb_records d \<Longrightarrow> verified cr d' s = verified cr d s"
  "tb_heads d' = tb_heads d \<Longrightarrow> tb_records d' = tb_records d \<Longrightarrow> db_ok d' = db_ok d"
  by (simp_all add: verified_def LoadVault_def db_ok_def split: option.split)

text \<open>Storing a commit the state accepted: what is stored then restores to the new state.\<close>

lemma verified_commit:
  assumes "db_ok d" and "verified cr d s" and "ApplyCommit cr s c m resolve = Inr t"
    and "AdvanceVault (cm_Head c) (cm_Records c) (cm_Purged c) d = Inr d'"
  shows "verified cr d' t"
proof -
  let ?v = "vs_vault s" let ?h = "cm_Head c"
  have step: "commit_step cr s (c, m, resolve) = Inr t" using assms(3) by (simp add: commit_step_def)
  note cur = commit_step_cursor [OF step, simplified]
  have hv: "h_Vault ?h = ?v" and tv: "vs_vault t = ?v" using cur by simp_all
  from assms(4) obtain rows where rows: "put_records ?h (cm_Records c) (rows_of (tb_records d) ?v) = Inr rows"
    and d': "d' = d\<lparr>tb_records := fmupd ?v (fmfilter (\<lambda>i. i \<notin> set (cm_Purged c)) rows) (tb_records d), tb_heads := fmupd ?v ?h (tb_heads d)\<rparr>"
    unfolding hv [symmetric] by (rule AdvanceVault_Inr)
  note E = ApplyCommit_effect [OF assms(3)]
  have old: "mirrors cr (rows_of (tb_records d) ?v) (vs_leaves s)" "keyed s"
    using verified_mirrors [OF assms(1,2)] by blast+
  have m: "rel_option (\<lambda>x l. LeafOf cr (fst x) = Inr l) (if r \<in> set (cm_Purged c) then None else fmlookup rows r) (fmlookup (vs_leaves t) r)" for r
  proof (cases "r \<in> e_Record ` set (cm_Records c)")
    case True
    then obtain e where "e \<in> set (cm_Records c)" "r = e_Record e" by blast
    with E(3) [of e] put_records_new [OF rows E(1), of e] show ?thesis by auto
  next
    case False
    with E(4) [of r] E(5) [of r] old(1) put_records_other [OF rows, of r] show ?thesis by (auto simp: mirrors_def)
  qed
  have "keyed t"
    unfolding keyed_def
  proof (intro allI impI)
    fix r l assume l: "fmlookup (vs_leaves t) r = Some l"
    show "l_Record l = r"
    proof (cases "r \<in> e_Record ` set (cm_Records c)")
      case True
      then obtain e where "e \<in> set (cm_Records c)" "r = e_Record e" by blast
      with E(3) [of e] l LeafOf_Inr [of cr e l] show ?thesis by auto
    next
      case False
      with E(4) [of r] E(5) [of r] l old(2) show ?thesis by (cases "r \<in> set (cm_Purged c)") (auto simp: keyed_def)
    qed
  qed
  moreover have "mirrors cr (rows_of (tb_records d') ?v) (vs_leaves t)"
    unfolding mirrors_def
  proof
    fix r
    show "rel_option (\<lambda>x l. LeafOf cr (fst x) = Inr l) (fmlookup (rows_of (tb_records d') ?v) r) (fmlookup (vs_leaves t) r)"
      using m [of r] by (cases "r \<in> set (cm_Purged c)") (simp_all add: d')
  qed
  moreover have "vs_cursor t = \<lparr>cur_Seq = h_Seq ?h, cur_Hash = sha256 cr (head_preimage ?h), cur_MembershipSeq = h_MembershipSeq ?h\<rparr>"
    "head_fits ?h" using cur by (auto simp: Advance_Inr)
  ultimately show ?thesis
    using verified_Some [OF AdvanceVault_db_ok [OF assms(4,1)], of t ?h cr] cur by (simp add: d' tv)
qed

lemma verified_other:
  assumes "AdvanceVault h es ps d = Inr d'" and "vs_vault s \<noteq> h_Vault h"
  shows "verified cr d' s = verified cr d s"
  using assms(1) by (rule AdvanceVault_Inr) (use assms(2) in \<open>simp add: verified_def LoadVault_def split: option.split\<close>)

section \<open>Logs without gaps\<close>

definition log_ok :: "'e log_row list \<Rightarrow> bool" where
  "log_ok rows \<longleftrightarrow> (\<forall>i. let own = filter (\<lambda>r. lg_owner r = i) rows in
    map (unat \<circ> lg_seq) own = [1..<Suc (length own)] \<and> (\<forall>r \<in> set own. lg_seq r < 2 ^ 63))"

lemma log_ok_Nil [simp]: "log_ok []"
  by (simp add: log_ok_def)

lemma log_ok_of: "log_ok rows \<Longrightarrow> log_of rows i = map lg_item (filter (\<lambda>r. lg_owner r = i) rows)"
  unfolding log_of_def log_ok_def Let_def by (metis sort_key_numbered)

lemma fold_max_upt: "fold max [1..<Suc n] (0 :: nat) = n"
proof (induction n)
  case (Suc n)
  have "[1..<Suc (Suc n)] = [1..<Suc n] @ [Suc n]" by simp
  with Suc show ?case by (simp del: upt_Suc)
qed simp

lemma unat_fold_max: "unat (fold max xs (a :: u64)) = fold max (map unat xs) (unat a)"
proof (induction xs arbitrary: a)
  case (Cons x xs)
  have "unat (max x a) = max (unat x) (unat a)" by (simp add: max_def word_le_nat_alt)
  with Cons show ?case by simp
qed simp

lemma last_seq_length:
  assumes "log_ok rows"
  shows "unat (last_seq rows i) = length (filter (\<lambda>r. lg_owner r = i) rows)"
proof -
  let ?own = "filter (\<lambda>r. lg_owner r = i) rows"
  have "unat (last_seq rows i) = fold max (map (unat \<circ> lg_seq) ?own) 0"
    unfolding last_seq_def unat_fold_max by simp
  also have "map (unat \<circ> lg_seq) ?own = [1..<Suc (length ?own)]" using assms by (simp add: log_ok_def Let_def del: upt_Suc)
  finally show ?thesis by (simp only: fold_max_upt)
qed

lemma append_rows_Inr:
  assumes "append_rows owner sq i n es rows = Inr rows'" and "log_ok rows" and "n = last_seq rows i"
  shows "log_ok rows' \<and> log_of rows' = (log_of rows)(i := log_of rows i @ es) \<and> (\<forall>e \<in> set es. owner e = i)"
  using assms
proof (induction es arbitrary: n rows)
  case (Cons e es)
  let ?row = "\<lparr>lg_owner = i, lg_seq = sq e, lg_item = e\<rparr>" let ?own = "\<lambda>j. filter (\<lambda>r. lg_owner r = j) rows"
  from Cons.prems(1) have e: "owner e = i" "sq e = n + 1" "sq e < 2 ^ 63"
    and rest: "append_rows owner sq i (sq e) es (rows @ [?row]) = Inr rows'"
    by (auto simp: sql_args_def split: if_split_asm)
  have len: "unat n = length (?own i)" using last_seq_length [OF Cons.prems(2)] Cons.prems(3) by simp
  have "unat n < 2 ^ 63"
  proof (cases "?own i = []")
    case False
    then have "unat (lg_seq (last (?own i))) = last (map (unat \<circ> lg_seq) (?own i))" by (simp add: last_map)
    also have "\<dots> = last [1..<Suc (length (?own i))]" using Cons.prems(2) by (simp add: log_ok_def Let_def del: upt_Suc)
    also have "\<dots> = unat n" using False len by (cases "?own i") simp_all
    finally have "lg_seq (last (?own i)) = n" by (simp add: word_unat_eq_iff)
    moreover have "last (?own i) \<in> set (?own i)" using False by (rule last_in_set)
    ultimately have "n < 2 ^ 63" using Cons.prems(2) unfolding log_ok_def Let_def by blast
    then show ?thesis by (simp add: word_less_nat_alt)
  qed (simp add: len)
  then have sq: "unat (sq e) = Suc (length (?own i))" using e(2) len by (simp add: unat_word_ariths)
  have ok: "log_ok (rows @ [?row])"
    unfolding log_ok_def Let_def
  proof (intro allI conjI)
    fix j
    have old: "map (unat \<circ> lg_seq) (?own j) = [1..<Suc (length (?own j))]" "\<forall>r \<in> set (?own j). lg_seq r < 2 ^ 63"
      using Cons.prems(2) by (simp_all add: log_ok_def Let_def del: upt_Suc)
    show "map (unat \<circ> lg_seq) (filter (\<lambda>r. lg_owner r = j) (rows @ [?row])) = [1..<Suc (length (filter (\<lambda>r. lg_owner r = j) (rows @ [?row])))]"
      using numbered_snoc [OF old(1), of ?row] old(1) sq by (cases "j = i") (simp_all del: upt_Suc)
    show "\<forall>r \<in> set (filter (\<lambda>r. lg_owner r = j) (rows @ [?row])). lg_seq r < 2 ^ 63" using old(2) e(3) by auto
  qed
  have "sq e = last_seq (rows @ [?row]) i" using last_seq_length [OF ok, of i] sq by (simp add: word_unat_eq_iff)
  from Cons.IH [OF rest ok this] have IH: "log_ok rows'" "log_of rows' = (log_of (rows @ [?row]))(i := log_of (rows @ [?row]) i @ es)"
    "\<forall>e \<in> set es. owner e = i" by blast+
  have "log_of (rows @ [?row]) = (log_of rows)(i := log_of rows i @ [e])"
    by (auto simp: fun_eq_iff log_ok_of [OF ok] log_ok_of [OF Cons.prems(2)])
  with IH e(1) show ?case by simp
qed (simp add: fun_upd_idem)

lemma appendLog_Inr:
  assumes "appendLog owner sq es rows = Inr rows'" and "log_ok rows"
  shows "log_ok rows' \<and> (\<forall>i. log_of rows' i = log_of rows i @ (if es \<noteq> [] \<and> owner (hd es) = i then es else []))"
proof (cases es)
  case (Cons e xs)
  then have "append_rows owner sq (owner e) (last_seq rows (owner e)) es rows = Inr rows'" using assms(1) by (simp add: appendLog_def)
  from append_rows_Inr [OF this assms(2) refl] Cons show ?thesis by auto
qed (use assms in \<open>simp add: appendLog_def\<close>)

end
