(* ===== verification/Sync_Logs.thy ===== *)
theory Sync_Logs
  imports Sync_State
begin

text \<open>
  How the sync engine trusts a vault's logs (\<open>usecase/sync_engine.go\<close>, \<open>sync_logs.go\<close>): the account's
  device log, another account's device log, the membership log, and the cursor that gives the membership at a head's
  position.

  The engine runs in a \<open>world\<close>: the number of requests sent so far, the state database and the local vault, whose
  content is of no concern here. The server is untrusted and may answer anything; it is a record of functions, and the
  answer to a request is a function of the request and of the number of requests before it. As the engine is
  deterministic, every behaviour of a server, an adaptive one too, is such a record. The keys of the
  device are a parameter (\<open>KeyRing\<close>); the context's cancellation appears as an error the server's reply may be.
\<close>

section \<open>Parameters\<close>

record RemoteCommit =
  rc_Seq :: u64
  rc_Commit :: Commit

record RemoteSnapshot =
  rs_Head :: "Head option"
  rs_Records :: "Envelope list"

record MemberLog =
  mlg_Suite :: SuiteID
  mlg_IdentityKey :: bytes
  mlg_EncryptionKey :: bytes
  mlg_Entries :: "DeviceEntry list"

record SyncServer =
  ss_Changes :: "nat \<Rightarrow> ID \<Rightarrow> u64 \<Rightarrow> nat \<Rightarrow> (RemoteCommit list \<times> bool) sync_result"
  ss_Snapshot :: "nat \<Rightarrow> ID \<Rightarrow> RemoteSnapshot sync_result"
  ss_Heads :: "nat \<Rightarrow> ID \<Rightarrow> u64 \<Rightarrow> u64 \<Rightarrow> Head list sync_result"
  ss_Commit :: "nat \<Rightarrow> Commit \<Rightarrow> u64 sync_result"
  ss_DeviceLog :: "nat \<Rightarrow> ID \<Rightarrow> u64 \<Rightarrow> DeviceEntry list sync_result"
  ss_Membership :: "nat \<Rightarrow> ID \<Rightarrow> u64 \<Rightarrow> MemberOp list sync_result"
  ss_Versions :: "nat \<Rightarrow> ID \<Rightarrow> ID \<Rightarrow> Envelope list sync_result"
  ss_MemberLog :: "nat \<Rightarrow> ID \<Rightarrow> MemberLog sync_result"
  ss_AppendMembership :: "nat \<Rightarrow> ID \<Rightarrow> MemberOp list \<Rightarrow> unit sync_result"

record KeyRing =
  kr_Account :: ID
  kr_Device :: ID
  kr_AccountKeys :: "SuiteID \<times> bytes \<times> bytes"
  kr_CurrentKeys :: "bytes \<times> bytes"
  kr_VaultKey :: "ID \<Rightarrow> u32 \<Rightarrow> MemberOp list \<Rightarrow> bytes sync_result"
  kr_Sign :: "bytes \<Rightarrow> bytes sync_result"

record 'd world =
  wd_tick :: nat
  wd_db :: state_db
  wd_data :: 'd
  wd_clock :: nat \<comment> \<open>how often the clock and the random source have been read\<close>

section \<open>Actions on a world\<close>

text \<open>An action on a state gives the state after it and a value or an error. A world may carry more fields, such as
  the working state of a pull.\<close>

type_synonym ('s, 'a) action = "'s \<Rightarrow> 's \<times> 'a sync_result"

definition bind_w :: "('s, 'a) action \<Rightarrow> ('a \<Rightarrow> ('s, 'b) action) \<Rightarrow> ('s, 'b) action" where
  "bind_w m f w = (case m w of (w', Inl err) \<Rightarrow> (w', Inl err) | (w', Inr x) \<Rightarrow> f x w')"

definition pure_w :: "'a sync_result \<Rightarrow> ('s, 'a) action" where
  "pure_w r w = (w, r)"

definition read_db :: "(state_db \<Rightarrow> 'a) \<Rightarrow> (('d, 'z) world_scheme, 'a) action" where
  "read_db f w = (w, Inr (f (wd_db w)))"

definition write_db :: "(state_db \<Rightarrow> state_db sync_result) \<Rightarrow> (('d, 'z) world_scheme, unit) action" where
  "write_db f w = (case f (wd_db w) of Inl err \<Rightarrow> (w, Inl err) | Inr d \<Rightarrow> (w\<lparr>wd_db := d\<rparr>, Inr ()))"

definition ask :: "(nat \<Rightarrow> 'a sync_result) \<Rightarrow> (('d, 'z) world_scheme, 'a) action" where
  "ask q w = (w\<lparr>wd_tick := Suc (wd_tick w)\<rparr>, q (wd_tick w))"

lemmas action_defs = bind_w_def pure_w_def read_db_def write_db_def ask_def

section \<open>Integrity\<close>

definition unavailable :: "sync_err \<Rightarrow> bool" where
  "unavailable err = list_ex (\<lambda>e. case e of RateLimitedError _ \<Rightarrow> True | NetError \<Rightarrow> True | ErrRemoteInternal \<Rightarrow> True
     | ContextCanceled \<Rightarrow> True | ContextDeadlineExceeded \<Rightarrow> True | _ \<Rightarrow> False) err"

definition integrity :: "sync_err \<Rightarrow> sync_err" where
  "integrity err = (if ErrSyncIntegrity \<in> set err \<or> unavailable err then err else ErrSyncIntegrity # err)"

definition integ_res :: "'a result \<Rightarrow> 'a sync_result" where
  "integ_res r = (case r of Inl err \<Rightarrow> Inl (integrity (map Domain err)) | Inr x \<Rightarrow> Inr x)"

lemma integ_res_Inr [result_simps]: "integ_res r = Inr x \<longleftrightarrow> r = Inr x"
  by (simp add: integ_res_def split: sum.splits)

section \<open>Device logs\<close>

definition verifiedDeviceLog :: "crypto \<Rightarrow> KeyRing \<Rightarrow> SyncServer \<Rightarrow> (('d, 'z) world_scheme, DeviceLogState \<times> DeviceEntry list) action" where
  "verifiedDeviceLog cr kr sv =
    (let account = kr_Account kr in
     case kr_AccountKeys kr of (suite, identity, encryption) \<Rightarrow>
     bind_w (pure_w (dom_res (NewDeviceLogState cr account suite identity encryption))) (\<lambda>dl.
     bind_w (read_db (\<lambda>d. StateStore_DeviceLog d account)) (\<lambda>stored.
     bind_w (pure_w (integ_res (replay (device_step cr) dl stored))) (\<lambda>dl.
     bind_w (ask (\<lambda>n. ss_DeviceLog sv n account (ds_seq dl))) (\<lambda>fresh.
     bind_w (pure_w (integ_res (replay (device_step cr) dl fresh))) (\<lambda>dl.
       if IsRevoked dl (kr_Device kr) then pure_w (Inl [ErrSyncDeviceRevoked])
       else if PendingSuccession dl then pure_w (Inl (integrity [ErrOther ''a revocation without its succession'']))
       else if ds_identityKey dl \<noteq> fst (kr_CurrentKeys kr) \<or> ds_encryptionKey dl \<noteq> snd (kr_CurrentKeys kr)
         then pure_w (Inl [ErrKeysRotated])
       else bind_w (write_db (AppendDeviceLog fresh)) (\<lambda>_. pure_w (Inr (dl, fresh)))))))))"

definition sameEntry :: "DeviceEntry \<Rightarrow> DeviceEntry \<Rightarrow> bool" where
  "sameEntry a b =
    (case (DeviceEntry_SigningBytes a, DeviceEntry_SigningBytes b) of
       (Inr am, Inr bm) \<Rightarrow> am = bm \<and> d_Sig a = d_Sig b \<and> d_SuccessorSig a = d_SuccessorSig b
     | _ \<Rightarrow> False)"

fun account_loop :: "crypto \<Rightarrow> DeviceEntry list \<Rightarrow> DeviceEntry list \<Rightarrow> DeviceLogState \<Rightarrow> DeviceLogState sync_result" where
  "account_loop cr stored [] log = Inr log"
| "account_loop cr stored (e # es) log =
    (if (case stored of [] \<Rightarrow> False | s # _ \<Rightarrow> \<not> sameEntry s e) then Inl (integrity [ErrLogRolledBack])
     else bind_res (integ_res (device_step cr log e)) (account_loop cr (tl stored) es))"

definition verifiedAccountLog :: "crypto \<Rightarrow> KeyRing \<Rightarrow> ID \<Rightarrow> MemberLog \<Rightarrow> (('d, 'z) world_scheme, DeviceLogState) action" where
  "verifiedAccountLog cr kr account ml =
    (if mlg_Entries ml = [] then pure_w (Inl (integrity [Domain ErrDeviceLog]))
     else bind_w (read_db (\<lambda>d. StateStore_DeviceLog d account)) (\<lambda>stored.
       if length (mlg_Entries ml) < length stored then pure_w (Inl (integrity [ErrLogRolledBack]))
       else bind_w (pure_w (integ_res (NewDeviceLogState cr account (mlg_Suite ml) (mlg_IdentityKey ml) (mlg_EncryptionKey ml)))) (\<lambda>log.
         bind_w (pure_w (account_loop cr stored (mlg_Entries ml) log)) (\<lambda>log.
           if PendingSuccession log then pure_w (Inl (integrity [ErrOther ''a revocation without its succession'']))
           else if account = kr_Account kr then pure_w (Inr log)
           else bind_w (write_db (AppendDeviceLog (drop (length stored) (mlg_Entries ml)))) (\<lambda>_. pure_w (Inr log))))))"

text \<open>How the devices of the personal vault resolve: through the account's own log alone.\<close>

definition resolver :: "KeyRing \<Rightarrow> DeviceLogState \<Rightarrow> DeviceResolver" where
  "resolver kr dl device =
    (case DeviceKey dl device of Inl err \<Rightarrow> Inl err | Inr key \<Rightarrow> Inr (kr_Account kr, key))"

definition resolver_check :: "crypto \<Rightarrow> DeviceResolver \<Rightarrow> SignatureCheck" where
  "resolver_check cr resolve account device alg msg sig =
    (case resolve device of
       Inl err \<Rightarrow> Some err
     | Inr (owner, key) \<Rightarrow> if owner \<noteq> account then Some [ErrBadSignature] else VerifySignature cr alg key msg sig)"

section \<open>Membership\<close>

definition verifiedMembership :: "crypto \<Rightarrow> SyncServer \<Rightarrow> ID \<Rightarrow> SignatureCheck \<Rightarrow> (('d, 'z) world_scheme, MemberOp list) action" where
  "verifiedMembership cr sv vault check =
    bind_w (pure_w (dom_res (NewMembershipState cr vault))) (\<lambda>ms.
    bind_w (read_db (\<lambda>d. StateStore_Membership d vault)) (\<lambda>ops.
    bind_w (pure_w (integ_res (replay (member_step cr check) ms ops))) (\<lambda>ms.
    bind_w (ask (\<lambda>n. ss_Membership sv n vault (ms_seq ms))) (\<lambda>fresh.
    bind_w (pure_w (integ_res (replay (member_step cr check) ms fresh))) (\<lambda>_.
    bind_w (write_db (AppendMembership fresh)) (\<lambda>_. pure_w (Inr (ops @ fresh))))))))"

record membershipCursor =
  mc_vault :: ID
  mc_ops :: "MemberOp list"
  mc_check :: SignatureCheck
  mc_state :: "MembershipState option"

text \<open>The loop of \<open>at\<close>: it applies the operation at the state's own position until the state reaches the wanted one.
  The state the cursor is left with is returned too, as the cursor keeps it even when an operation is refused.\<close>

function at_loop :: "crypto \<Rightarrow> SignatureCheck \<Rightarrow> MemberOp list \<Rightarrow> u64 \<Rightarrow> MembershipState \<Rightarrow> MembershipState \<times> go_error option" where
  "at_loop cr check ops seq s =
    (if ms_seq s < seq then
       (case member_step cr check s (ops ! unat (ms_seq s)) of
          Inl err \<Rightarrow> (s, Some err)
        | Inr s' \<Rightarrow> at_loop cr check ops seq s')
     else (s, None))"
  by pat_completeness auto
termination
proof (relation "measure (\<lambda>(cr, check, ops, seq, s). unat seq - unat (ms_seq s))", goal_cases)
  case (2 cr check ops seq s s')
  then have "ms_seq s' = ms_seq s + 1" by (auto simp: member_step_Inr)
  moreover have "unat (ms_seq s + 1) = Suc (unat (ms_seq s))"
    using 2(1) unat_u64_lt [of seq] by (simp add: unat_word_ariths word_less_nat_alt)
  ultimately show ?case using 2(1) by (simp add: word_less_nat_alt)
qed simp

declare at_loop.simps [simp del]

definition members_at :: "crypto \<Rightarrow> u64 \<Rightarrow> membershipCursor \<Rightarrow> membershipCursor \<times> MembershipState sync_result" where
  "members_at cr seq c =
    (case (case mc_state c of
             Some s \<Rightarrow> if seq < ms_seq s then dom_res (NewMembershipState cr (mc_vault c)) else Inr s
           | None \<Rightarrow> dom_res (NewMembershipState cr (mc_vault c))) of
       Inl err \<Rightarrow> (c, Inl err)
     | Inr s \<Rightarrow>
         if unat seq > length (mc_ops c)
         then (c\<lparr>mc_state := Some s\<rparr>, Inl (integrity [ErrOther ''membership position beyond the log'']))
         else (case at_loop cr (mc_check c) (mc_ops c) seq s of
             (s, Some err) \<Rightarrow> (c\<lparr>mc_state := Some s\<rparr>, Inl (integrity (map Domain err)))
           | (s, None) \<Rightarrow> (c\<lparr>mc_state := Some s\<rparr>, Inr s)))"

section \<open>The cursor is a replay\<close>

text \<open>The reference: the membership at a position is the replay of the operations up to it.\<close>

definition membership_at :: "crypto \<Rightarrow> membershipCursor \<Rightarrow> u64 \<Rightarrow> MembershipState sync_result" where
  "membership_at cr c seq =
    (if unat seq > length (mc_ops c) then Inl (integrity [ErrOther ''membership position beyond the log''])
     else bind_res (dom_res (NewMembershipState cr (mc_vault c))) (\<lambda>s.
       integ_res (replay (member_step cr (mc_check c)) s (take (unat seq) (mc_ops c)))))"

text \<open>A position of the log: the replay of so many operations from the start.\<close>

definition at_position :: "crypto \<Rightarrow> membershipCursor \<Rightarrow> MembershipState \<Rightarrow> bool" where
  "at_position cr c s \<longleftrightarrow> unat (ms_seq s) \<le> length (mc_ops c) \<and>
    (\<exists>s0. NewMembershipState cr (mc_vault c) = Inr s0 \<and>
      replay (member_step cr (mc_check c)) s0 (take (unat (ms_seq s)) (mc_ops c)) = Inr s)"

definition cursor_ok :: "crypto \<Rightarrow> membershipCursor \<Rightarrow> bool" where
  "cursor_ok cr c \<longleftrightarrow> (case mc_state c of None \<Rightarrow> True | Some s \<Rightarrow> at_position cr c s)"

lemma at_position_cong: "at_position cr (c\<lparr>mc_state := x\<rparr>) s = at_position cr c s"
  by (simp add: at_position_def)

lemma at_position_New: "NewMembershipState cr (mc_vault c) = Inr s \<Longrightarrow> at_position cr c s"
  by (auto simp: at_position_def NewMembershipState_Inr)

lemma at_loop_position:
  assumes "at_position cr c s" and "unat seq \<le> length (mc_ops c)"
  shows "at_position cr c (fst (at_loop cr (mc_check c) (mc_ops c) seq s)) \<and>
    (unat (ms_seq s) \<le> unat seq \<longrightarrow>
      (case at_loop cr (mc_check c) (mc_ops c) seq s of (s', None) \<Rightarrow> Inr s' | (_, Some err) \<Rightarrow> Inl err) =
      replay (member_step cr (mc_check c)) s (drop (unat (ms_seq s)) (take (unat seq) (mc_ops c))))"
  using assms
proof (induction cr "mc_check c" "mc_ops c" seq s rule: at_loop.induct)
  case (1 cr seq s)
  let ?n = "unat (ms_seq s)" let ?op = "mc_ops c ! ?n"
  note pos = 1(2) and seq = 1(3)
  show ?case
  proof (cases "ms_seq s < seq")
    case False
    then have "unat seq \<le> ?n" by (simp add: word_less_nat_alt)
    with False pos show ?thesis by (auto simp: at_loop.simps [of _ _ _ _ s])
  next
    case True
    then have lt: "?n < unat seq" by (simp add: word_less_nat_alt)
    then have drop: "drop ?n (take (unat seq) (mc_ops c)) = ?op # drop (Suc ?n) (take (unat seq) (mc_ops c))"
      using seq by (simp add: Cons_nth_drop_Suc [symmetric])
    show ?thesis
    proof (cases "member_step cr (mc_check c) s ?op")
      case (Inl err)
      with True pos drop show ?thesis by (simp add: at_loop.simps [of _ _ _ _ s])
    next
      case (Inr s')
      then have "ms_seq s' = ms_seq s + 1" by (auto simp: member_step_Inr)
      then have n': "unat (ms_seq s') = Suc ?n" using lt unat_u64_lt [of seq] by (simp add: unat_word_ariths)
      have pos': "at_position cr c s'"
        using pos Inr lt seq unfolding at_position_def n' by (auto simp: take_Suc_conv_app_nth replay_snoc)
      from 1(1) [OF True Inr pos' seq] n' lt True Inr drop show ?thesis by (simp add: at_loop.simps [of _ _ _ _ s])
    qed
  qed
qed

lemma at_loop_replay:
  assumes "at_position cr c s" and "unat (ms_seq s) \<le> unat seq" and "unat seq \<le> length (mc_ops c)"
    and "NewMembershipState cr (mc_vault c) = Inr s0"
  shows "(case at_loop cr (mc_check c) (mc_ops c) seq s of (s', None) \<Rightarrow> Inr s' | (_, Some err) \<Rightarrow> Inl err) =
    replay (member_step cr (mc_check c)) s0 (take (unat seq) (mc_ops c))"
proof -
  let ?n = "unat (ms_seq s)"
  have "take (unat seq) (mc_ops c) = take ?n (mc_ops c) @ drop ?n (take (unat seq) (mc_ops c))"
    using assms(2) append_take_drop_id [of ?n "take (unat seq) (mc_ops c)"] by (simp add: min_absorb1)
  moreover have "replay (member_step cr (mc_check c)) s0 (take ?n (mc_ops c)) = Inr s" using assms(1,4) by (auto simp: at_position_def)
  ultimately show ?thesis using at_loop_position [OF assms(1,3)] assms(2) by (metis bind_res_simps(2) replay_append)
qed

lemma members_at_exact:
  assumes "cursor_ok cr c"
  shows "snd (members_at cr seq c) = membership_at cr c seq" and "cursor_ok cr (fst (members_at cr seq c))"
    and "mc_vault (fst (members_at cr seq c)) = mc_vault c" "mc_ops (fst (members_at cr seq c)) = mc_ops c"
      "mc_check (fst (members_at cr seq c)) = mc_check c"
proof -
  obtain s0 where s0: "NewMembershipState cr (mc_vault c) = Inr s0" "unat (ms_seq s0) = 0" by (simp add: NewMembershipState_Inr)
  define s where "s = (case mc_state c of Some s \<Rightarrow> if seq < ms_seq s then s0 else s | None \<Rightarrow> s0)"
  have pos: "at_position cr c s" and le: "unat (ms_seq s) \<le> unat seq"
    using assms at_position_New [OF s0(1)] s0(2)
    by (auto simp: s_def cursor_ok_def word_less_nat_alt split: option.splits)
  have eq: "members_at cr seq c = (if unat seq > length (mc_ops c)
      then (c\<lparr>mc_state := Some s\<rparr>, Inl (integrity [ErrOther ''membership position beyond the log'']))
      else (case at_loop cr (mc_check c) (mc_ops c) seq s of
          (s, Some err) \<Rightarrow> (c\<lparr>mc_state := Some s\<rparr>, Inl (integrity (map Domain err)))
        | (s, None) \<Rightarrow> (c\<lparr>mc_state := Some s\<rparr>, Inr s)))"
    by (simp add: members_at_def s_def s0 split: option.splits)
  have ref: "membership_at cr c seq = (if unat seq > length (mc_ops c) then Inl (integrity [ErrOther ''membership position beyond the log''])
      else integ_res (replay (member_step cr (mc_check c)) s0 (take (unat seq) (mc_ops c))))"
    by (simp add: membership_at_def s0)
  show "snd (members_at cr seq c) = membership_at cr c seq"
    unfolding eq ref using at_loop_replay [OF pos le _ s0(1), symmetric]
    by (auto simp: integ_res_def split: prod.split option.split)
  show "cursor_ok cr (fst (members_at cr seq c))"
    unfolding eq using at_loop_position [OF pos, of seq] pos
    by (auto simp: cursor_ok_def at_position_cong split: prod.splits option.splits)
  show "mc_vault (fst (members_at cr seq c)) = mc_vault c" "mc_ops (fst (members_at cr seq c)) = mc_ops c"
    "mc_check (fst (members_at cr seq c)) = mc_check c"
    unfolding eq by (auto split: prod.splits option.splits)
qed

section \<open>Stored logs\<close>

definition logs_ok :: "state_db \<Rightarrow> bool" where
  "logs_ok d \<longleftrightarrow> log_ok (tb_device_entries d) \<and> log_ok (tb_member_ops d)"

text \<open>What a request may do to the stored logs: each keeps what it had and may grow.\<close>

definition logs_grow :: "state_db \<Rightarrow> state_db \<Rightarrow> bool" where
  "logs_grow d d' \<longleftrightarrow> (\<forall>i. \<exists>new. StateStore_DeviceLog d' i = StateStore_DeviceLog d i @ new) \<and>
    (\<forall>v. \<exists>new. StateStore_Membership d' v = StateStore_Membership d v @ new)"

lemma logs_grow_refl [simp]: "logs_grow d d"
  by (simp add: logs_grow_def)

lemma logs_grow_trans: "logs_grow d d' \<Longrightarrow> logs_grow d' d'' \<Longrightarrow> logs_grow d d''"
  unfolding logs_grow_def by (metis append.assoc)

lemma AppendDeviceLog_Inr:
  assumes "AppendDeviceLog es d = Inr d'" and "logs_ok d"
  shows "logs_ok d' \<and> logs_grow d d' \<and> tb_heads d' = tb_heads d \<and> tb_records d' = tb_records d" and
    "\<forall>e \<in> set es. d_Account e = i \<Longrightarrow> StateStore_DeviceLog d' i = StateStore_DeviceLog d i @ es"
proof -
  from assms(1) obtain rows where rows: "appendLog d_Account d_Seq es (tb_device_entries d) = Inr rows" "d' = d\<lparr>tb_device_entries := rows\<rparr>"
    by (auto simp: AppendDeviceLog_def bind_res_Inr)
  note a = appendLog_Inr [OF rows(1)]
  show "logs_ok d' \<and> logs_grow d d' \<and> tb_heads d' = tb_heads d \<and> tb_records d' = tb_records d"
    using a assms(2) by (auto simp: logs_ok_def logs_grow_def StateStore_DeviceLog_def StateStore_Membership_def rows(2))
  show "\<forall>e \<in> set es. d_Account e = i \<Longrightarrow> StateStore_DeviceLog d' i = StateStore_DeviceLog d i @ es"
    using a assms(2) by (cases es) (auto simp: logs_ok_def StateStore_DeviceLog_def rows(2))
qed

lemma sameEntry_eq: "sameEntry a b \<Longrightarrow> a = b"
  by (auto simp: sameEntry_def DeviceEntry_SigningBytes_fields canon_result_def split: if_split_asm
      dest: encode_fields_inj intro!: entry_fields_inj)

lemma account_loop_Inr:
  assumes "account_loop cr stored es log = Inr t" and "length stored \<le> length es"
  shows "take (length stored) es = stored \<and> replay (device_step cr) log es = Inr t"
  using assms
proof (induction cr stored es log rule: account_loop.induct)
  case (2 cr stored e es log)
  from "2.prems"(1) obtain log' where log': "device_step cr log e = Inr log'" "account_loop cr (tl stored) es log' = Inr t"
    and same: "\<not> (case stored of [] \<Rightarrow> False | s # _ \<Rightarrow> \<not> sameEntry s e)"
    by (auto simp: result_simps)
  have "integ_res (device_step cr log e) = Inr log'" using log'(1) by (simp add: integ_res_Inr)
  then have "take (length (tl stored)) es = tl stored \<and> replay (device_step cr) log' es = Inr t"
    using "2.IH" [OF same, of log'] log'(2) "2.prems"(2) by simp
  with log'(1) same show ?case by (cases stored) (auto dest: sameEntry_eq)
qed simp

lemma replay_account:
  assumes "replay (device_step cr) s es = Inr t"
  shows "\<forall>e \<in> set es. d_Account e = ds_account s"
proof -
  have "ds_account t = ds_account s \<and> (\<forall>e \<in> set es. d_Account e = ds_account s)"
    using assms
  proof (induction es arbitrary: s)
    case (Cons e es)
    then obtain s' where s': "device_step cr s e = Inr s'" "replay (device_step cr) s' es = Inr t" by (auto split: sum.splits)
    then have "ds_account s' = ds_account s" "d_Account e = ds_account s"
      by (auto simp: device_step_Inr elim!: applyOp_cases)
    with Cons.IH [OF s'(2)] show ?case by simp
  qed simp
  then show ?thesis by blast
qed

lemma bind_w_Inr: "bind_w m f w = (w', Inr y) \<longleftrightarrow> (\<exists>w1 x. m w = (w1, Inr x) \<and> f x w1 = (w', Inr y))"
  by (auto simp: bind_w_def split: prod.splits sum.splits)

lemma simple_actions:
  "pure_w r w = (w', Inr x) \<longleftrightarrow> w' = w \<and> r = Inr x"
  "read_db f w = (w', Inr x) \<longleftrightarrow> w' = w \<and> x = f (wd_db w)"
  "ask q w = (w', Inr x) \<longleftrightarrow> w' = w\<lparr>wd_tick := Suc (wd_tick w)\<rparr> \<and> q (wd_tick w) = Inr x"
  "write_db g w = (w', Inr u) \<longleftrightarrow> (\<exists>d. g (wd_db w) = Inr d \<and> w' = w\<lparr>wd_db := d\<rparr>)"
  by (auto simp: action_defs split: sum.splits)

lemma verifiedDeviceLog_Inr:
  assumes "verifiedDeviceLog cr kr sv w = (w', Inr (dl, news))" and "kr_AccountKeys kr = (suite, identity, encryption)"
  obtains dl0 d where "NewDeviceLogState cr (kr_Account kr) suite identity encryption = Inr dl0"
    "replay (device_step cr) dl0 (StateStore_DeviceLog (wd_db w) (kr_Account kr) @ news) = Inr dl"
    "\<not> IsRevoked dl (kr_Device kr)" "\<not> PendingSuccession dl" "(ds_identityKey dl, ds_encryptionKey dl) = kr_CurrentKeys kr"
    "AppendDeviceLog news (wd_db w) = Inr d" "w' = w\<lparr>wd_tick := Suc (wd_tick w), wd_db := d\<rparr>"
  using assms that
  by (auto simp: verifiedDeviceLog_def Let_def bind_w_Inr simple_actions result_simps replay_append split: if_split_asm)

text \<open>An action refused before its last write has changed nothing but the number of requests.\<close>

lemma bind_w_refused:
  "bind_w m f w = (w', Inl err) \<longleftrightarrow> m w = (w', Inl err) \<or> (\<exists>w1 x. m w = (w1, Inr x) \<and> f x w1 = (w', Inl err))"
  by (auto simp: bind_w_def split: prod.splits sum.splits)

lemma simple_refused:
  "pure_w r w = (w', Inl err) \<longleftrightarrow> w' = w \<and> r = Inl err"
  "read_db g w = (w', Inl err) \<longleftrightarrow> False"
  "ask q w = (w', Inl err) \<longleftrightarrow> w' = w\<lparr>wd_tick := Suc (wd_tick w)\<rparr> \<and> q (wd_tick w) = Inl err"
  "write_db u w = (w', Inl err) \<longleftrightarrow> w' = w \<and> u (wd_db w) = Inl err"
  by (auto simp: action_defs split: sum.splits)

lemmas refused_simps = bind_w_refused simple_refused simple_actions

lemma verifiedDeviceLog_refused:
  assumes "verifiedDeviceLog cr kr sv w = (w', Inl err)"
  shows "wd_db w' = wd_db w"
  using assms by (auto simp: verifiedDeviceLog_def Let_def refused_simps split: prod.split_asm if_split_asm)

lemma verifiedAccountLog_refused:
  assumes "verifiedAccountLog cr kr account ml w = (w', Inl err)"
  shows "w' = w"
  using assms by (auto simp: verifiedAccountLog_def refused_simps split: if_split_asm)

section \<open>A sample\<close>

text \<open>An account with one entry in its log, a succession; its server sends that entry.\<close>

definition lg_world :: "unit world" where
  "lg_world = \<lparr>wd_tick = 0, wd_db = empty_state, wd_data = (), wd_clock = 0\<rparr>"

definition lg_keys :: "ID \<Rightarrow> KeyRing" where
  "lg_keys account = \<lparr>kr_Account = account, kr_Device = 7, kr_AccountKeys = (Suite1, replicate 32 1, replicate 1216 0),
     kr_CurrentKeys = (replicate 32 2, replicate 1216 0), kr_VaultKey = (\<lambda>_ _ _. Inr []), kr_Sign = (\<lambda>_. Inr [])\<rparr>"

definition lg_server :: SyncServer where
  "lg_server = \<lparr>ss_Changes = (\<lambda>_ _ _ _. Inr ([], False)), ss_Snapshot = (\<lambda>_ _. Inr \<lparr>rs_Head = None, rs_Records = []\<rparr>),
     ss_Heads = (\<lambda>_ _ _ _. Inr []), ss_Commit = (\<lambda>_ _. Inl [NetError]), ss_DeviceLog = (\<lambda>_ _ _. Inr [dl_succession]),
     ss_Membership = (\<lambda>_ _ _. Inr []), ss_Versions = (\<lambda>_ _ _. Inr []), ss_MemberLog = (\<lambda>_ _. Inl [ErrRemoteNotFound]),
     ss_AppendMembership = (\<lambda>_ _ _. Inr ())\<rparr>"

definition lg_member :: MemberLog where
  "lg_member = \<lparr>mlg_Suite = Suite1, mlg_IdentityKey = replicate 32 1, mlg_EncryptionKey = replicate 1216 0, mlg_Entries = [dl_succession]\<rparr>"

definition lg_after :: state_db where
  "lg_after = empty_state\<lparr>tb_device_entries := [\<lparr>lg_owner = 4, lg_seq = 1, lg_item = dl_succession\<rparr>]\<rparr>"

lemma lg_append: "AppendDeviceLog [dl_succession] empty_state = Inr lg_after"
  by (simp add: AppendDeviceLog_def appendLog_def last_seq_def empty_state_def dl_succession_def sql_args_def lg_after_def)

lemma lg_logs_ok: "logs_ok (wd_db lg_world)"
  by (simp add: logs_ok_def lg_world_def empty_state_def)

lemma lg_empty: "StateStore_DeviceLog empty_state i = []"
  by (simp add: StateStore_DeviceLog_def log_of_def empty_state_def)

lemma lg_own_run: "verifiedDeviceLog dl_crypto (lg_keys 4) lg_server lg_world = (lg_world\<lparr>wd_tick := 1, wd_db := lg_after\<rparr>, Inr (dl_next, [dl_succession]))"
  by (simp add: verifiedDeviceLog_def action_defs lg_keys_def lg_world_def dl_start_New lg_empty integ_res_def lg_server_def
      dl_succession_step lg_append)
     (simp add: IsRevoked_def PendingSuccession_def dl_next_def dl_start_def)

lemma lg_member_run: "verifiedAccountLog dl_crypto (lg_keys 9) 4 lg_member lg_world = (lg_world\<lparr>wd_db := lg_after\<rparr>, Inr dl_next)"
  by (simp add: verifiedAccountLog_def action_defs lg_keys_def lg_member_def lg_world_def dl_start_New lg_empty integ_res_def
      dl_succession_step lg_append)
     (simp add: PendingSuccession_def dl_next_def dl_start_def)

section \<open>Properties\<close>

text \<open>A run of questions to one cursor, in any order of positions.\<close>

fun answers :: "crypto \<Rightarrow> u64 list \<Rightarrow> membershipCursor \<Rightarrow> MembershipState sync_result list" where
  "answers cr [] c = []"
| "answers cr (seq # seqs) c = (case members_at cr seq c of (c', r) \<Rightarrow> r # answers cr seqs c')"

lemma membership_at_cong:
  "mc_vault c' = mc_vault c \<Longrightarrow> mc_ops c' = mc_ops c \<Longrightarrow> mc_check c' = mc_check c \<Longrightarrow> membership_at cr c' = membership_at cr c"
  by (rule ext) (simp add: membership_at_def)

lemma answers_exact: "cursor_ok cr c \<Longrightarrow> answers cr seqs c = map (membership_at cr c) seqs"
proof (induction seqs arbitrary: c)
  case (Cons seq seqs)
  obtain c' r where at: "members_at cr seq c = (c', r)" by (cases "members_at cr seq c")
  note M = members_at_exact [OF Cons.prems, of seq, unfolded at, simplified]
  from Cons.IH [OF M(2)] M(1) membership_at_cong [OF M(3-5)] at show ?case by simp
qed simp

text \<open>The membership cursor of a pull keeps the state it last computed and moves it forward; when a head lies at
  an earlier position it starts again. Whatever positions are asked for, in whatever order, and whatever was asked
  before and refused, every answer is the replay of the log up to that position from its beginning, and a position beyond
  the log is an integrity failure.\<close>

theorem membership_cursor_exact:
  "answers cr seqs \<lparr>mc_vault = v, mc_ops = ops, mc_check = check, mc_state = None\<rparr> =
   map (membership_at cr \<lparr>mc_vault = v, mc_ops = ops, mc_check = check, mc_state = None\<rparr>) seqs"
  by (rule answers_exact) (simp add: cursor_ok_def)

lemma AppendDeviceLog_stored:
  assumes "AppendDeviceLog es d = Inr d'" and "logs_ok d" and "replay (device_step cr) dl0 (pre @ es) = Inr dl" and "ds_account dl0 = i"
  shows "StateStore_DeviceLog d' i = StateStore_DeviceLog d i @ es"
  using AppendDeviceLog_Inr(2) [OF assms(1,2)] replay_account [OF assms(3)] assms(4) by simp

lemma NewDeviceLogState_account: "NewDeviceLogState cr i suite ident enc = Inr dl \<Longrightarrow> ds_account dl = i"
  by (auto simp: NewDeviceLogState_Inr)

text \<open>The device log of the account is never rolled back: whatever the server sends, a round that goes on has
  extended the log this device had stored, replays it from its beginning under the account's pinned keys, and has found
  this device not revoked, no revocation without its succession and the keys the device holds to be the current
  ones. A round that stops has changed nothing in the state database.\<close>

theorem own_device_log_only_grows:
  assumes "logs_ok (wd_db w)" and "kr_AccountKeys kr = (suite, identity, encryption)"
    and "verifiedDeviceLog cr kr sv w = (w', r)"
  shows "case r of
      Inl err \<Rightarrow> wd_db w' = wd_db w
    | Inr (dl, news) \<Rightarrow>
        StateStore_DeviceLog (wd_db w') (kr_Account kr) = StateStore_DeviceLog (wd_db w) (kr_Account kr) @ news \<and>
        bind_res (NewDeviceLogState cr (kr_Account kr) suite identity encryption)
          (\<lambda>dl0. replay (device_step cr) dl0 (StateStore_DeviceLog (wd_db w') (kr_Account kr))) = Inr dl \<and>
        \<not> IsRevoked dl (kr_Device kr) \<and> \<not> PendingSuccession dl \<and> (ds_identityKey dl, ds_encryptionKey dl) = kr_CurrentKeys kr"
proof (cases r)
  case (Inl err)
  with assms(3) verifiedDeviceLog_refused show ?thesis by force
next
  case (Inr x)
  obtain dl news where x: "x = (dl, news)" by (cases x)
  from assms(3) have run: "verifiedDeviceLog cr kr sv w = (w', Inr (dl, news))" by (simp add: Inr x)
  from verifiedDeviceLog_Inr [OF run assms(2)] obtain dl0 d where
    dl0: "NewDeviceLogState cr (kr_Account kr) suite identity encryption = Inr dl0"
      "replay (device_step cr) dl0 (StateStore_DeviceLog (wd_db w) (kr_Account kr) @ news) = Inr dl"
    and ok: "\<not> IsRevoked dl (kr_Device kr)" "\<not> PendingSuccession dl" "(ds_identityKey dl, ds_encryptionKey dl) = kr_CurrentKeys kr"
    and d: "AppendDeviceLog news (wd_db w) = Inr d" "w' = w\<lparr>wd_tick := Suc (wd_tick w), wd_db := d\<rparr>" by metis
  from AppendDeviceLog_stored [OF d(1) assms(1) dl0(2) NewDeviceLogState_account [OF dl0(1)]] d(2) dl0 ok
  show ?thesis by (simp add: Inr x)
qed

theorem own_device_log_only_grows_witness:
  "StateStore_DeviceLog lg_after 4 = [dl_succession] \<and> \<not> IsRevoked dl_next 7"
  using own_device_log_only_grows [OF lg_logs_ok _ lg_own_run] by (simp add: lg_keys_def lg_empty lg_world_def)

lemma verifiedAccountLog_Inr:
  assumes "verifiedAccountLog cr kr account ml w = (w', Inr dl)"
  obtains dl0 where "NewDeviceLogState cr account (mlg_Suite ml) (mlg_IdentityKey ml) (mlg_EncryptionKey ml) = Inr dl0"
    "account_loop cr (StateStore_DeviceLog (wd_db w) account) (mlg_Entries ml) dl0 = Inr dl"
    "length (StateStore_DeviceLog (wd_db w) account) \<le> length (mlg_Entries ml)" "\<not> PendingSuccession dl"
    "account = kr_Account kr \<Longrightarrow> w' = w"
    "account \<noteq> kr_Account kr \<Longrightarrow> \<exists>d. AppendDeviceLog (drop (length (StateStore_DeviceLog (wd_db w) account)) (mlg_Entries ml)) (wd_db w) = Inr d \<and> w' = w\<lparr>wd_db := d\<rparr>"
  using assms that by (auto simp: verifiedAccountLog_def bind_w_Inr simple_actions result_simps split: if_split_asm)

text \<open>Nor is the log of another account: a log the server serves for a member is accepted only when it begins with
  the entries this device had stored for that account, signatures included, and replays from its beginning; what is
  stored afterwards is the log that was served. A log that is shorter, that rewrites an entry or that does not replay is
  refused and nothing changes.\<close>

theorem member_device_log_only_grows:
  assumes "logs_ok (wd_db w)" and "account \<noteq> kr_Account kr" and "verifiedAccountLog cr kr account ml w = (w', r)"
  shows "case r of
      Inl err \<Rightarrow> w' = w
    | Inr dl \<Rightarrow>
        take (length (StateStore_DeviceLog (wd_db w) account)) (mlg_Entries ml) = StateStore_DeviceLog (wd_db w) account \<and>
        StateStore_DeviceLog (wd_db w') account = mlg_Entries ml \<and>
        bind_res (NewDeviceLogState cr account (mlg_Suite ml) (mlg_IdentityKey ml) (mlg_EncryptionKey ml))
          (\<lambda>dl0. replay (device_step cr) dl0 (mlg_Entries ml)) = Inr dl \<and> \<not> PendingSuccession dl"
proof (cases r)
  case (Inl err)
  with assms(3) verifiedAccountLog_refused show ?thesis by force
next
  case (Inr dl)
  let ?stored = "StateStore_DeviceLog (wd_db w) account"
  from assms(3) have "verifiedAccountLog cr kr account ml w = (w', Inr dl)" by (simp add: Inr)
  from verifiedAccountLog_Inr [OF this] obtain dl0 d where
    dl0: "NewDeviceLogState cr account (mlg_Suite ml) (mlg_IdentityKey ml) (mlg_EncryptionKey ml) = Inr dl0"
      "account_loop cr ?stored (mlg_Entries ml) dl0 = Inr dl" "length ?stored \<le> length (mlg_Entries ml)" "\<not> PendingSuccession dl"
    and d: "AppendDeviceLog (drop (length ?stored) (mlg_Entries ml)) (wd_db w) = Inr d" "w' = w\<lparr>wd_db := d\<rparr>"
    using assms(2) by metis
  from account_loop_Inr [OF dl0(2,3)] have pre: "take (length ?stored) (mlg_Entries ml) = ?stored"
    and rep: "replay (device_step cr) dl0 (mlg_Entries ml) = Inr dl" by blast+
  have "replay (device_step cr) dl0 (take (length ?stored) (mlg_Entries ml) @ drop (length ?stored) (mlg_Entries ml)) = Inr dl"
    using rep by simp
  from AppendDeviceLog_stored [OF d(1) assms(1) this NewDeviceLogState_account [OF dl0(1)]]
  have "StateStore_DeviceLog d account = mlg_Entries ml" using pre append_take_drop_id [of "length ?stored" "mlg_Entries ml"] by simp
  with pre rep dl0 d(2) show ?thesis by (simp add: Inr)
qed

theorem member_device_log_only_grows_witness:
  "StateStore_DeviceLog lg_after 4 = [dl_succession] \<and> \<not> PendingSuccession dl_next"
  using member_device_log_only_grows [OF lg_logs_ok _ lg_member_run] by (simp add: lg_keys_def lg_member_def)

end
