(* ===== verification/Sync_Interpret.thy ===== *)
theory Sync_Interpret
  imports Sync_Logs Trust Resolve
begin

text \<open>
  What a verified commit means for the local vault (\<open>usecase/sync_interpret.go\<close>, \<open>sync_merge.go\<close>, and of
  \<open>domain/synctrust\<close> the bodies of \<open>registry.go\<close>, \<open>vaultmeta.go\<close>, \<open>merge.go\<close> and \<open>binding.go\<close> it needs): each record is
  opened, checked to be filed under its own item's id, merged with an unpushed local edit, and then applied, held for the
  master password or refused.

  The parameters of the engine are one record. The cipher, the JSON codecs and \<open>strconv.Quote\<close> are parameters, as is
  the mapping between the items of the local vault and record data (\<open>mapping.go\<close>, \<open>settings.go\<close>, \<open>scope.go\<close>:
  the natural key of a record, its validators, the snapshot of one vault's items and applying changes to them); every
  statement holds for any behaviour of them. \<open>'r\<close> is a record's raw data and \<open>'d\<close> the local vault. The clock may
  move between any two readings: the readings of a run are numbered.
\<close>

section \<open>Parameters\<close>

record 'r Body =
  bd_Type :: RecordType
  bd_Schema :: u16
  bd_Data :: 'r

record 'r SyncConflict =
  sc_ID :: string
  sc_RecordType :: string
  sc_ItemKey :: string
  sc_Path :: "string list"
  sc_Local :: 'r
  sc_Remote :: 'r
  sc_AtUnixMilli :: int
  sc_VaultID :: string

record ('r, 'd, 'h) engine =
  eg_cr :: crypto
  eg_Keys :: KeyRing
  eg_Server :: SyncServer
  eg_Open :: "bytes \<Rightarrow> Envelope \<Rightarrow> bytes sync_result" \<comment> \<open>\<open>RecordCipher.Open\<close>\<close>
  eg_Seal :: "nat \<Rightarrow> bytes \<Rightarrow> Envelope \<Rightarrow> bytes \<Rightarrow> (bytes \<times> bytes) sync_result" \<comment> \<open>the wrapped key and the body of \<open>RecordCipher.Seal\<close>\<close>
  eg_mac :: "bytes \<Rightarrow> bytes \<Rightarrow> bytes"
  eg_decodeBody :: "bytes \<Rightarrow> 'r Body option" \<comment> \<open>strict JSON decoding of exactly one value\<close>
  eg_encodeBody :: "'r Body \<Rightarrow> bytes option"
  eg_isObject :: "'r \<Rightarrow> bool" \<comment> \<open>the raw data begins with a brace\<close>
  eg_metaKey :: "'r \<Rightarrow> bytes option" \<comment> \<open>the naming key of decoded vault-meta data\<close>
  eg_json :: "'r \<Rightarrow> json option"
  eg_marshal :: "json \<Rightarrow> 'r"
  eg_Quote :: "string \<Rightarrow> string"
  eg_conflictJson :: "'r SyncConflict \<Rightarrow> 'r option"
  eg_address :: "'r \<Rightarrow> (string \<times> int \<times> 'h list) option" \<comment> \<open>host, port and jump hops of a decoded connection\<close>
  eg_decoders :: "'r decoders"
  eg_host :: host_crypto
  eg_NaturalKey :: "RecordType \<Rightarrow> 'r \<Rightarrow> string option"
  eg_Validate :: "'r Entry \<Rightarrow> bool" \<comment> \<open>\<open>Validate\<close> finds nothing wrong\<close>
  eg_SnapshotScope :: "bytes \<Rightarrow> 'd \<Rightarrow> string \<Rightarrow> (ID, 'r Entry) go_map sync_result"
  eg_ApplyScope :: "'d \<Rightarrow> string \<Rightarrow> 'r Entry list \<Rightarrow> 'd sync_result"
  eg_SuspendBindings :: "string \<Rightarrow> string \<Rightarrow> string \<Rightarrow> 'd \<Rightarrow> 'd"
  eg_GetData :: "'d \<Rightarrow> 'd sync_result"
  eg_UpdateData :: "('d \<Rightarrow> 'd sync_result) \<Rightarrow> 'd \<Rightarrow> 'd sync_result"
  eg_NowUnixMilli :: "nat \<Rightarrow> int"
  eg_rand :: "nat \<Rightarrow> bytes" \<comment> \<open>what \<open>crypto/rand\<close> gives to each reader\<close>
  eg_requireJoined :: "ID \<Rightarrow> 'd \<Rightarrow> state_db \<Rightarrow> unit sync_result" \<comment> \<open>for a team vault: whether this account joined it\<close>
  eg_teamTrust :: "ID \<Rightarrow> DeviceLogState \<Rightarrow> (DeviceResolver \<times> SignatureCheck \<times> MemberOp list) sync_result"
    \<comment> \<open>what trust in the members of a team vault yields (\<open>sync_members.go\<close>)\<close>
  eg_memberLog :: "ID \<Rightarrow> DeviceLogState sync_result" \<comment> \<open>the verified device log of a member of the team vault (\<open>memberTrust.logFor\<close>)\<close>
  eg_WrapVaultKey :: "nat \<Rightarrow> bytes \<Rightarrow> ID \<Rightarrow> u32 \<Rightarrow> ID \<Rightarrow> bytes \<Rightarrow> bytes sync_result" \<comment> \<open>\<open>AccountCrypto.WrapVaultKey\<close>\<close>

section \<open>Bodies\<close>

definition DecodeBody :: "('r, 'd, 'h) engine \<Rightarrow> bytes \<Rightarrow> 'r Body sync_result" where
  "DecodeBody eg raw =
    (case eg_decodeBody eg raw of
       None \<Rightarrow> Inl [ErrOther ''malformed record body'']
     | Some b \<Rightarrow>
         if bd_Type b = [] \<or> bd_Schema b = 0 \<or> \<not> eg_isObject eg (bd_Data b) then Inl [ErrOther ''malformed record body'']
         else Inr b)"

definition EncodeBody :: "('r, 'd, 'h) engine \<Rightarrow> 'r Body \<Rightarrow> bytes sync_result" where
  "EncodeBody eg b = (case eg_encodeBody eg b of None \<Rightarrow> Inl [ErrOther ''json''] | Some raw \<Rightarrow> Inr raw)"

definition VaultMetaID :: "crypto \<Rightarrow> ID \<Rightarrow> ID" where
  "VaultMetaID cr vault = id_of_bytes (take IDSize (be_bytes (sha256 cr (str_bytes labelVaultMeta @ be_bytes vault))))"

definition VaultMetaNamingKey :: "('r, 'd, 'h) engine \<Rightarrow> 'r Body \<Rightarrow> bytes sync_result" where
  "VaultMetaNamingKey eg b =
    (if bd_Type b \<noteq> TypeVaultMeta then Inl [ErrOther ''malformed record data'']
     else (case eg_metaKey eg (bd_Data b) of
         None \<Rightarrow> Inl [ErrOther ''malformed record data'']
       | Some key \<Rightarrow> if length key \<noteq> NamingKeySize then Inl [ErrOther ''record naming key must be 32 bytes''] else Inr key))"

definition ConflictID :: "('r, 'd, 'h) engine \<Rightarrow> string \<Rightarrow> string \<Rightarrow> string list \<Rightarrow> string" where
  "ConflictID eg recordType itemKey path =
    concat (case map (eg_Quote eg) (recordType # itemKey # path) of [] \<Rightarrow> [] | q # qs \<Rightarrow> q # map ((@) '','') qs)"

fun ConflictEntries :: "('r, 'd, 'h) engine \<Rightarrow> RecordType \<Rightarrow> string \<Rightarrow> 'r FieldConflict list \<Rightarrow> int \<Rightarrow> 'r Entry list option" where
  "ConflictEntries eg t itemKey [] at = Some []"
| "ConflictEntries eg t itemKey (c # cs) at =
    (let sc = \<lparr>sc_ID = ConflictID eg t itemKey (fc_Path c), sc_RecordType = t, sc_ItemKey = itemKey, sc_Path = fc_Path c,
         sc_Local = fc_Local c, sc_Remote = fc_Remote c, sc_AtUnixMilli = at, sc_VaultID = []\<rparr> in
     case eg_conflictJson eg sc of
       None \<Rightarrow> None
     | Some data \<Rightarrow> map_option (\<lambda>es. \<lparr>en_Type = TypeConflict, en_Key = sc_ID sc, en_Data = Some data\<rparr> # es) (ConflictEntries eg t itemKey cs at))"

definition sameJumps :: "'h list \<Rightarrow> 'h list \<Rightarrow> bool" where
  "sameJumps a b = (if a = [] \<and> b = [] then True else a = b)"

definition AddressChanged :: "('r, 'd, 'h) engine \<Rightarrow> 'r \<Rightarrow> 'r \<Rightarrow> bool" where
  "AddressChanged eg before after =
    (case (eg_address eg before, eg_address eg after) of
       (Some (ha, pa, ja), Some (hb, pb, jb)) \<Rightarrow> ha \<noteq> hb \<or> pa \<noteq> pb \<or> \<not> sameJumps ja jb
     | _ \<Rightarrow> True)"

definition teamTypes :: "RecordType list" where
  "teamTypes = [TypeFolder, TypeConnection, TypeIdentity, TypePassword, TypePluginSecret, TypeConflict]"

text \<open>A scope is its vault's name; the empty one is the personal vault.\<close>

definition Allows :: "string \<Rightarrow> RecordType \<Rightarrow> bool" where
  "Allows s t = (if s = [] then True else t \<in> set teamTypes)"

section \<open>The working state of a pull\<close>

record PullReport =
  rp_Commits :: nat
  rp_Applied :: nat
  rp_Held :: nat
  rp_Quarantined :: nat
  rp_MembershipSeq :: nat
  rp_NewDevices :: "DeviceCert list"

record 'r pullRun =
  pr_vault :: ID
  pr_ops :: "MemberOp list"
  pr_members :: membershipCursor
  pr_resolve :: DeviceResolver
  pr_state :: VaultState
  pr_base :: "(ID, Envelope) go_map"
  pr_names :: "(ID, RecordType \<times> string) go_map"
  pr_bodies :: "(ID, 'r Body) go_map"
  pr_namingKey :: "bytes option"
  pr_report :: PullReport
  pr_scope :: string
  pr_landed :: "(ID, u64) go_map"
  pr_preferRemote :: bool
  pr_heldDeletions :: "(ID, bool) go_map"
  pr_clock :: nat \<comment> \<open>how often the clock and the random source have been read\<close>

record 'r outcome = \<comment> \<open>the struct \<open>interpretation\<close>\<close>
  in_changes :: "'r Entry list"
  in_applied :: "ID list"
  in_quarantine :: "QuarantineItem list"
  in_suspend :: "(string \<times> string) list" \<comment> \<open>a connection and the account that repointed it\<close>

definition no_outcome :: "'r outcome" where
  "no_outcome = \<lparr>in_changes = [], in_applied = [], in_quarantine = [], in_suspend = []\<rparr>"

definition read_clock :: "('r, 'd, 'h) engine \<Rightarrow> 'r pullRun \<Rightarrow> 'r pullRun \<times> int" where
  "read_clock eg p = (p\<lparr>pr_clock := Suc (pr_clock p)\<rparr>, eg_NowUnixMilli eg (pr_clock p))"


section \<open>Opening records\<close>

definition open_env :: "('r, 'd, 'h) engine \<Rightarrow> 'r pullRun \<Rightarrow> Envelope \<Rightarrow> 'r Body sync_result" where
  "open_env eg p r =
    bind_res (kr_VaultKey (eg_Keys eg) (pr_vault p) (e_Epoch r) (pr_ops p)) (\<lambda>vk.
    bind_res (eg_Open eg vk r) (DecodeBody eg))"

definition learnMeta :: "('r, 'd, 'h) engine \<Rightarrow> Envelope \<Rightarrow> 'r pullRun \<Rightarrow> 'r pullRun sync_result" where
  "learnMeta eg r p =
    (if e_Deleted r then Inl (integrity [ErrOther ''deleted''])
     else (case open_env eg p r of
         Inl err \<Rightarrow> Inl (integrity err)
       | Inr body \<Rightarrow>
           (case VaultMetaNamingKey eg body of
              Inl err \<Rightarrow> Inl (integrity err)
            | Inr key \<Rightarrow>
                if pr_namingKey p \<noteq> None \<and> pr_namingKey p \<noteq> Some key then Inl (integrity [ErrOther ''the naming key changed''])
                else Inr (p\<lparr>pr_namingKey := Some key\<rparr>))))"

definition nameOf :: "('r, 'd, 'h) engine \<Rightarrow> 'r pullRun \<Rightarrow> ID \<Rightarrow> (RecordType \<times> string) option" where
  "nameOf eg p i =
    (case fmlookup (pr_names p) i of
       Some n \<Rightarrow> Some n
     | None \<Rightarrow>
         (case fmlookup (pr_base p) i of
            None \<Rightarrow> None
          | Some prev \<Rightarrow>
              if e_Deleted prev then None
              else (case open_env eg p prev of
                  Inl _ \<Rightarrow> None
                | Inr body \<Rightarrow> map_option (Pair (bd_Type body)) (eg_NaturalKey eg (bd_Type body) (bd_Data body)))))"

definition checkFiled :: "('r, 'd, 'h) engine \<Rightarrow> Envelope \<Rightarrow> 'r Body \<Rightarrow> 'r pullRun \<Rightarrow> ('r pullRun \<times> 'r Entry) sync_result" where
  "checkFiled eg r body p =
    (case eg_NaturalKey eg (bd_Type body) (bd_Data body) of
       None \<Rightarrow> Inl [ErrOther ''the record names no valid item'']
     | Some key \<Rightarrow>
         if (case pr_namingKey p of None \<Rightarrow> Inl ErrNamingKey | Some nk \<Rightarrow> RecordID (eg_mac eg) nk (bd_Type body) key) \<noteq> Inr (e_Record r)
         then Inl [ErrOther ''filed under another item's record'']
         else (let entry = \<lparr>en_Type = bd_Type body, en_Key = key, en_Data = Some (bd_Data body)\<rparr> in
           if \<not> eg_Validate eg entry then Inl [ErrOther ''the item fails validation'']
           else Inr (p\<lparr>pr_names := fmupd (e_Record r) (bd_Type body, key) (pr_names p)\<rparr>, entry)))"

definition decode :: "('r, 'd, 'h) engine \<Rightarrow> Envelope \<Rightarrow> 'r pullRun \<Rightarrow> ('r pullRun \<times> 'r Entry) sync_result" where
  "decode eg r p =
    (if pr_namingKey p = None then Inl [ErrOther ''arrived before the vault's naming key'']
     else if e_Deleted r then
       (case nameOf eg p (e_Record r) of
          None \<Rightarrow> Inl [ErrSkip]
        | Some (t, key) \<Rightarrow> Inr (p, \<lparr>en_Type = t, en_Key = key, en_Data = None\<rparr>))
     else (case open_env eg p r of
         Inl _ \<Rightarrow> Inl [ErrOther ''the record does not decrypt or decode'']
       | Inr body \<Rightarrow>
           (case RecordAccess KnownSchemas (bd_Type body) (bd_Schema body) of
              SchemaOpaque \<Rightarrow> Inl [ErrOther ''a record type this version does not know'']
            | SchemaReadOnly \<Rightarrow> Inl [ErrOther ''written by a newer version of xQuakShell'']
            | SchemaWritable \<Rightarrow> checkFiled eg r body p)))"

section \<open>Merging with a local edit\<close>

definition baseBody :: "('r, 'd, 'h) engine \<Rightarrow> ID \<Rightarrow> 'r pullRun \<Rightarrow> 'r pullRun \<times> 'r Body option" where
  "baseBody eg i p =
    (case fmlookup (pr_bodies p) i of
       Some b \<Rightarrow> (p, Some b)
     | None \<Rightarrow>
         (case fmlookup (pr_base p) i of
            None \<Rightarrow> (p, None)
          | Some env \<Rightarrow>
              if e_Deleted env then (p, None)
              else (case open_env eg p env of
                  Inl _ \<Rightarrow> (p, None)
                | Inr b \<Rightarrow> (p\<lparr>pr_bodies := fmupd i b (pr_bodies p)\<rparr>, Some b))))"

definition editedLocally :: "('r, 'd, 'h) engine \<Rightarrow> ID \<Rightarrow> 'r \<Rightarrow> 'r pullRun \<Rightarrow> 'r pullRun \<times> bool" where
  "editedLocally eg i loc p =
    (case baseBody eg i p of (p, b) \<Rightarrow> (p, case b of None \<Rightarrow> True | Some b \<Rightarrow> \<not> SameData (eg_json eg) (bd_Data b) loc))"

text \<open>The entry to go on with, or \<open>None\<close> when the local version stays; the outcome gains the conflict records.\<close>

definition mergeLocal ::
    "('r, 'd, 'h) engine \<Rightarrow> ID \<Rightarrow> 'r Entry \<Rightarrow> 'r option \<Rightarrow> 'r pullRun \<Rightarrow> 'r outcome \<Rightarrow> 'r pullRun \<times> 'r outcome \<times> 'r Entry option" where
  "mergeLocal eg i entry loc p out =
    (case loc of
       None \<Rightarrow> (p, out, Some entry)
     | Some l \<Rightarrow>
         if pr_preferRemote p \<or> fmlookup (pr_heldDeletions p) i = Some True then (p, out, Some entry)
         else (case editedLocally eg i l p of
             (p, False) \<Rightarrow> (p, out, Some entry)
           | (p, True) \<Rightarrow>
               (case en_Data entry of
                  None \<Rightarrow> (p, out, None)
                | Some data \<Rightarrow>
                    (case baseBody eg i p of (p, b) \<Rightarrow>
                     (case MergeData (eg_json eg) (eg_marshal eg) (en_Type entry) (map_option bd_Data b) l data of
                        Inl _ \<Rightarrow> (p, out, Some entry)
                      | Inr (merged, conflicts) \<Rightarrow>
                          (let candidate = entry\<lparr>en_Data := Some merged\<rparr> in
                           if \<not> eg_Validate eg candidate then (p, out, Some entry)
                           else (case read_clock eg p of (p, at) \<Rightarrow>
                             (case ConflictEntries eg (en_Type entry) (en_Key entry) conflicts at of
                                None \<Rightarrow> (p, out, None)
                              | Some ces \<Rightarrow> (p, out\<lparr>in_changes := in_changes out @ ces\<rparr>, Some candidate)))))))))"

section \<open>Routing\<close>

definition hold :: "('r, 'd, 'h) engine \<Rightarrow> Envelope \<Rightarrow> string \<Rightarrow> bool \<Rightarrow> 'r pullRun \<Rightarrow> 'r outcome \<Rightarrow> 'r pullRun \<times> 'r outcome" where
  "hold eg r reason pend p out =
    (case read_clock eg p of (p, at) \<Rightarrow>
       (p, out\<lparr>in_quarantine := in_quarantine out @
          [\<lparr>qi_Envelope = r, qi_Reason = reason, qi_AtUnixMilli = at, qi_Pending = pend\<rparr>]\<rparr>))"

definition repoints :: "('r, 'd, 'h) engine \<Rightarrow> 'r pullRun \<Rightarrow> ID \<Rightarrow> 'r Entry \<Rightarrow> 'r option \<Rightarrow> bool" where
  "repoints eg p i entry loc =
    (case en_Data entry of
       None \<Rightarrow> True
     | Some data \<Rightarrow>
         (case loc of
            None \<Rightarrow> (case fmlookup (pr_base p) i of None \<Rightarrow> False | Some prev \<Rightarrow> e_Deleted prev)
          | Some l \<Rightarrow> AddressChanged eg l data))"

definition noteRepointing :: "('r, 'd, 'h) engine \<Rightarrow> Envelope \<Rightarrow> 'r Entry \<Rightarrow> 'r option \<Rightarrow> 'r pullRun \<Rightarrow> 'r outcome \<Rightarrow> 'r outcome" where
  "noteRepointing eg r entry loc p out =
    (if pr_scope p = [] \<or> en_Type entry \<noteq> TypeConnection \<or> \<not> repoints eg p (e_Record r) entry loc then out
     else (case pr_resolve p (e_Author r) of
         Inl _ \<Rightarrow> out
       | Inr (account, _) \<Rightarrow>
           if account = kr_Account (eg_Keys eg) then out
           else out\<lparr>in_suspend := in_suspend out @ [(en_Key entry, ID_String account)]\<rparr>))"

definition classify_arrival :: "('r, 'd, 'h) engine \<Rightarrow> 'r Entry \<Rightarrow> 'r option \<Rightarrow> (ID, 'r Entry) go_map \<Rightarrow> trust_error + Verdict" where
  "classify_arrival eg entry loc held =
    bind_res (Classify (eg_decoders eg) (en_Type entry) loc (en_Data entry)) (\<lambda>v.
      if v_Action v = ActionApply \<and> loc = None
      then ClassifyAddition (eg_decoders eg) (eg_host eg) (en_Type entry) held (en_Data entry)
      else Inr v)"

definition local_data :: "(ID, 'r Entry) go_map \<Rightarrow> ID \<Rightarrow> 'r option" where
  "local_data held i = (case fmlookup held i of None \<Rightarrow> None | Some e \<Rightarrow> en_Data e)"

definition route ::
    "('r, 'd, 'h) engine \<Rightarrow> Envelope \<Rightarrow> 'r Entry \<Rightarrow> (ID, 'r Entry) go_map \<Rightarrow> 'r pullRun \<Rightarrow> 'r outcome \<Rightarrow> 'r pullRun \<times> 'r outcome" where
  "route eg r entry held p out =
    (let loc = local_data held (e_Record r) in
     case mergeLocal eg (e_Record r) entry loc p out of
       (p, out, None) \<Rightarrow> (p, out)
     | (p, out, Some entry) \<Rightarrow>
         (case classify_arrival eg entry loc held of
            Inl _ \<Rightarrow> hold eg r ''the record's data does not decode'' False p out
          | Inr v \<Rightarrow>
              (case v_Action v of
                 ActionApply \<Rightarrow>
                   (p, noteRepointing eg r entry loc p
                     (out\<lparr>in_changes := in_changes out @ [entry], in_applied := in_applied out @ [e_Record r]\<rparr>))
               | ActionPending \<Rightarrow> hold eg r (v_Reason v) True p out
               | ActionRefuse \<Rightarrow> hold eg r (v_Reason v) False p out)))"

fun error_text :: "sync_err \<Rightarrow> string" where
  "error_text [ErrOther msg] = msg"
| "error_text _ = []"

definition interpret_record :: "('r, 'd, 'h) engine \<Rightarrow> (ID, 'r Entry) go_map \<Rightarrow> Envelope \<Rightarrow> 'r pullRun \<times> 'r outcome \<Rightarrow> 'r pullRun \<times> 'r outcome" where
  "interpret_record eg local r = (\<lambda>(p, out).
    if e_Record r = VaultMetaID (eg_cr eg) (pr_vault p) then (p, out)
    else (case decode eg r p of
        Inl reason \<Rightarrow> if ErrSkip \<in> set reason then (p, out) else hold eg r (error_text reason) False p out
      | Inr (p, entry) \<Rightarrow>
          if \<not> Allows (pr_scope p) (en_Type entry) then hold eg r ''a record type a team vault may not hold'' False p out
          else route eg r entry local p out))"

fun learn_metas :: "('r, 'd, 'h) engine \<Rightarrow> Envelope list \<Rightarrow> 'r pullRun \<Rightarrow> 'r pullRun \<times> unit sync_result" where
  "learn_metas eg [] p = (p, Inr ())"
| "learn_metas eg (r # rs) p =
    (if e_Record r = VaultMetaID (eg_cr eg) (pr_vault p)
     then (case learnMeta eg r p of Inl err \<Rightarrow> (p, Inl err) | Inr p \<Rightarrow> learn_metas eg rs p)
     else learn_metas eg rs p)"

definition localSnapshot :: "('r, 'd, 'h) engine \<Rightarrow> 'd \<Rightarrow> 'r pullRun \<Rightarrow> (ID, 'r Entry) go_map sync_result" where
  "localSnapshot eg d p =
    (case pr_namingKey p of
       None \<Rightarrow> Inr fmempty
     | Some nk \<Rightarrow> bind_res (eg_GetData eg d) (\<lambda>data. eg_SnapshotScope eg nk data (pr_scope p)))"

definition interpret_commit :: "('r, 'd, 'h) engine \<Rightarrow> 'd \<Rightarrow> Commit \<Rightarrow> 'r pullRun \<Rightarrow> 'r pullRun \<times> 'r outcome sync_result" where
  "interpret_commit eg d c p =
    (case learn_metas eg (cm_Records c) p of
       (p, Inl err) \<Rightarrow> (p, Inl err)
     | (p, Inr _) \<Rightarrow>
         (case localSnapshot eg d p of
            Inl err \<Rightarrow> (p, Inl err)
          | Inr local \<Rightarrow> (case fold (interpret_record eg local) (cm_Records c) (p, no_outcome) of (p, out) \<Rightarrow> (p, Inr out))))"

section \<open>What interpreting leaves alone\<close>

text \<open>Interpreting a commit moves only the names, the cached bodies, the naming key and the clock of a run.\<close>

definition core :: "'r pullRun \<Rightarrow> ID \<times> MemberOp list \<times> membershipCursor \<times> DeviceResolver \<times> VaultState \<times> (ID, Envelope) go_map \<times> string" where
  "core p = (pr_vault p, pr_ops p, pr_members p, pr_resolve p, pr_state p, pr_base p, pr_scope p)"

lemma core_update [simp]:
  "core (p\<lparr>pr_names := x\<rparr>) = core p" "core (p\<lparr>pr_bodies := y\<rparr>) = core p" "core (p\<lparr>pr_namingKey := z\<rparr>) = core p"
  "core (p\<lparr>pr_clock := n\<rparr>) = core p" "core (p\<lparr>pr_heldDeletions := hds\<rparr>) = core p" "core (p\<lparr>pr_report := rp\<rparr>) = core p"
  by (simp_all add: core_def)

text \<open>Beside the core, the records of a commit leave the naming key, the held deletions and the choice between merging and
  adopting alone; only the vault-meta record sets the naming key.\<close>

definition frame :: "'r pullRun \<Rightarrow> _" where
  "frame p = (core p, pr_namingKey p, pr_heldDeletions p, pr_preferRemote p)"

lemma frame_update [simp]:
  "frame (p\<lparr>pr_names := x\<rparr>) = frame p" "frame (p\<lparr>pr_bodies := y\<rparr>) = frame p" "frame (p\<lparr>pr_clock := n\<rparr>) = frame p"
  by (simp_all add: frame_def)

lemma frame_core: "frame p = frame q \<Longrightarrow> core p = core q"
  by (simp add: frame_def)

lemma frame_read_clock: "read_clock eg p = (p', t) \<Longrightarrow> frame p' = frame p"
  by (auto simp: read_clock_def)

lemma frame_baseBody: "baseBody eg i p = (p', b) \<Longrightarrow> frame p' = frame p"
  by (auto simp: baseBody_def split: option.split_asm if_split_asm sum.split_asm)

lemma frame_editedLocally: "editedLocally eg i l p = (p', b) \<Longrightarrow> frame p' = frame p"
  by (auto simp: editedLocally_def split: prod.split_asm dest: frame_baseBody)

lemma frame_mergeLocal: "mergeLocal eg i entry loc p out = (p', out', x) \<Longrightarrow> frame p' = frame p"
  by (auto simp: mergeLocal_def Let_def split: option.split_asm if_split_asm sum.split_asm prod.split_asm bool.split_asm
      dest!: frame_read_clock frame_baseBody frame_editedLocally)

lemma frame_hold: "hold eg r reason pend p out = (p', out') \<Longrightarrow> frame p' = frame p"
  by (auto simp: hold_def split: prod.split_asm dest: frame_read_clock)

lemma frame_route: "route eg r entry held p out = (p', out') \<Longrightarrow> frame p' = frame p"
  by (auto simp: route_def Let_def split: prod.split_asm option.split_asm sum.split_asm Action.split_asm
      dest!: frame_mergeLocal frame_hold)

lemma frame_decode: "decode eg r p = Inr (p', entry) \<Longrightarrow> frame p' = frame p"
  by (auto simp: decode_def checkFiled_def Let_def split: option.split_asm if_split_asm sum.split_asm SchemaAccess.split_asm)

lemma frame_interpret_record: "interpret_record eg local r (p, out) = (p', out') \<Longrightarrow> frame p' = frame p"
  by (auto simp: interpret_record_def split: if_split_asm sum.split_asm prod.split_asm dest!: frame_hold frame_route frame_decode)

lemma frame_interpret_fold: "fold (interpret_record eg local) rs (p, out) = (p', out') \<Longrightarrow> frame p' = frame p"
proof (induction rs arbitrary: p out)
  case (Cons r rs)
  obtain p1 out1 where one: "interpret_record eg local r (p, out) = (p1, out1)" by force
  with Cons.prems Cons.IH [of p1 out1] frame_interpret_record [OF one] show ?case by simp
qed simp

lemma core_learn_metas: "learn_metas eg rs p = (p', x) \<Longrightarrow> core p' = core p"
  by (induction eg rs p rule: learn_metas.induct)
     (auto simp: learnMeta_def split: if_split_asm sum.split_asm)

lemma core_interpret_commit: "interpret_commit eg d c p = (p', x) \<Longrightarrow> core p' = core p"
  by (auto simp: interpret_commit_def split: prod.split_asm sum.split_asm dest!: core_learn_metas frame_interpret_fold frame_core)

section \<open>What reaches the local vault\<close>

text \<open>A change a record of a commit makes: under its own item's id, valid, and one the trust rules apply on arrival.\<close>

definition trusted_change :: "('r, 'd, 'h) engine \<Rightarrow> (ID, 'r Entry) go_map \<Rightarrow> bytes option \<Rightarrow> Envelope \<Rightarrow> 'r Entry \<Rightarrow> bool" where
  "trusted_change eg local nk r e \<longleftrightarrow> \<not> e_Deleted r \<and>
    (\<exists>key. nk = Some key \<and> RecordID (eg_mac eg) key (en_Type e) (en_Key e) = Inr (e_Record r)) \<and> eg_Validate eg e \<and>
    (\<exists>v. classify_arrival eg e (local_data local (e_Record r)) local = Inr v \<and> v_Action v = ActionApply)"

lemma ConflictEntries_type: "ConflictEntries eg t k cs at = Some es \<Longrightarrow> e \<in> set es \<Longrightarrow> en_Type e = TypeConflict"
  by (induction eg t k cs at arbitrary: es rule: ConflictEntries.induct) (auto simp: Let_def split: option.split_asm)

lemma mergeLocal_changes:
  assumes "mergeLocal eg i entry loc p out = (p', out', x)"
  shows "\<exists>new. in_changes out' = in_changes out @ new \<and> (\<forall>e \<in> set new. en_Type e = TypeConflict)"
    and "x = Some entry' \<Longrightarrow> entry' = entry \<or> eg_Validate eg entry' \<and> en_Type entry' = en_Type entry \<and> en_Key entry' = en_Key entry \<and> en_Data entry \<noteq> None"
  using assms
  by (auto simp: mergeLocal_def Let_def split: option.split_asm if_split_asm sum.split_asm prod.split_asm bool.split_asm dest: ConflictEntries_type)

lemma hold_changes: "hold eg r reason pend p out = (p', out') \<Longrightarrow> in_changes out' = in_changes out"
  by (auto simp: hold_def split: prod.split_asm)

lemma noteRepointing_changes: "in_changes (noteRepointing eg r entry loc p out) = in_changes out"
  by (simp add: noteRepointing_def split: sum.split)

lemma decode_Inr:
  assumes "decode eg r p = Inr (p', entry)"
  shows "en_Data entry = None \<and> e_Deleted r \<or>
    \<not> e_Deleted r \<and> eg_Validate eg entry \<and> (\<exists>key. pr_namingKey p = Some key \<and> RecordID (eg_mac eg) key (en_Type entry) (en_Key entry) = Inr (e_Record r))"
  using assms
  by (auto simp: decode_def checkFiled_def Let_def split: option.split_asm if_split_asm sum.split_asm SchemaAccess.split_asm)

lemma route_changes:
  assumes "route eg r entry local p out = (p', out')"
    and "en_Data entry = None \<or> \<not> e_Deleted r \<and> eg_Validate eg entry \<and> (\<exists>key. nk = Some key \<and> RecordID (eg_mac eg) key (en_Type entry) (en_Key entry) = Inr (e_Record r))"
  shows "\<exists>new. in_changes out' = in_changes out @ new \<and>
    (\<forall>e \<in> set new. en_Data e = None \<or> en_Type e = TypeConflict \<or> trusted_change eg local nk r e)"
proof -
  let ?loc = "local_data local (e_Record r)"
  obtain p1 out1 x where m: "mergeLocal eg (e_Record r) entry ?loc p out = (p1, out1, x)" by (metis prod_cases3)
  from mergeLocal_changes(1) [OF m] obtain new where new: "in_changes out1 = in_changes out @ new" "\<forall>e \<in> set new. en_Type e = TypeConflict" by blast
  show ?thesis
  proof (cases x)
    case None
    with assms(1) m new show ?thesis by (auto simp: route_def)
  next
    case (Some entry')
    note E = mergeLocal_changes(2) [OF m Some]
    show ?thesis
    proof (cases "\<exists>v. classify_arrival eg entry' ?loc local = Inr v \<and> v_Action v = ActionApply")
      case False
      then have "in_changes out' = in_changes out1"
        using assms(1) m Some by (auto simp: route_def Let_def dest: hold_changes split: sum.split_asm Action.split_asm)
      with new show ?thesis by auto
    next
      case True
      then have "in_changes out' = in_changes out1 @ [entry']"
        using assms(1) m Some by (auto simp: route_def Let_def noteRepointing_changes)
      moreover have "en_Data entry' = None \<or> trusted_change eg local nk r entry'"
        using E assms(2) True by (auto simp: trusted_change_def)
      ultimately show ?thesis using new by (intro exI [of _ "new @ [entry']"]) auto
    qed
  qed
qed

lemma interpret_record_changes:
  assumes "interpret_record eg local r (p, out) = (p', out')"
  shows "\<exists>new. in_changes out' = in_changes out @ new \<and>
    (\<forall>e \<in> set new. en_Data e = None \<or> en_Type e = TypeConflict \<or> trusted_change eg local (pr_namingKey p) r e)"
proof (cases "decode eg r p")
  case (Inl err)
  with assms have "in_changes out' = in_changes out" by (auto simp: interpret_record_def dest: hold_changes split: if_split_asm)
  then show ?thesis by simp
next
  case (Inr x)
  obtain p1 entry where x: "x = (p1, entry)" by force
  note D = decode_Inr [OF Inr [unfolded x]]
  show ?thesis
  proof (cases "e_Record r = VaultMetaID (eg_cr eg) (pr_vault p) \<or> \<not> Allows (pr_scope p1) (en_Type entry)")
    case True
    with assms Inr x have "in_changes out' = in_changes out" by (auto simp: interpret_record_def dest: hold_changes split: if_split_asm)
    then show ?thesis by simp
  next
    case False
    then have "route eg r entry local p1 out = (p', out')" using assms Inr x by (simp add: interpret_record_def)
    from route_changes [OF this, of "pr_namingKey p"] D show ?thesis by blast
  qed
qed

lemma interpret_fold_changes:
  assumes "fold (interpret_record eg local) rs (p, out) = (p', out')"
  shows "\<forall>e \<in> set (in_changes out'). e \<in> set (in_changes out) \<or> en_Data e = None \<or> en_Type e = TypeConflict \<or>
    (\<exists>r \<in> set rs. trusted_change eg local (pr_namingKey p) r e)"
  using assms
proof (induction rs arbitrary: p out)
  case (Cons r rs)
  obtain p1 out1 where one: "interpret_record eg local r (p, out) = (p1, out1)" by force
  have nk: "pr_namingKey p1 = pr_namingKey p" using frame_interpret_record [OF one] by (simp add: frame_def)
  from Cons.prems one have "fold (interpret_record eg local) rs (p1, out1) = (p', out')" by simp
  from Cons.IH [OF this] interpret_record_changes [OF one] nk show ?case by fastforce
qed simp

lemma classify_arrival_no_weaker:
  assumes "classify_arrival eg e loc held = Inr v" and "v_Action v = ActionApply"
  shows "no_weaker (eg_decoders eg) (en_Type e) loc (en_Data e)"
proof -
  from assms obtain v' where "Classify (eg_decoders eg) (en_Type e) loc (en_Data e) = Inr v'" "v_Action v' = ActionApply"
    by (auto simp: classify_arrival_def result_simps split: if_split_asm)
  then have "on_arrival (eg_decoders eg) (en_Type e) loc (en_Data e) = en_Data e" by (simp add: on_arrival_def)
  with no_weaker_step [of "eg_decoders eg" "en_Type e" loc "en_Data e"] show ?thesis by simp
qed

lemma localSnapshot_frame: "frame p = frame q \<Longrightarrow> localSnapshot eg d p = localSnapshot eg d q"
  by (simp add: localSnapshot_def frame_def core_def split: option.split)

lemmas type_name_defs = TypeVaultMeta_def TypeFolder_def TypeConnection_def TypeIdentity_def TypePassword_def TypePluginSecret_def
  TypeKnownHost_def TypePeerTrust_def TypeConflict_def TypeContact_def TypeTeam_def TypeCredentialBinding_def TypePluginInstall_def
  TypePluginData_def

lemma known_host_not_settings: "\<exists>s. IsSettingsType TypeKnownHost = (s, False)"
  by (simp add: IsSettingsType_def CutPrefix_def settingsPrefix_def TypeKnownHost_def)

section \<open>Properties\<close>

text \<open>C9. Every version a pull writes into the local vault came under its own name and weakens nothing: apart from the
  conflict records merging makes, each change that carries data belongs to a record of the commit filed under the id that the
  vault's naming key derives from the item's own type and key, passes the domain's validators - after merging with a local
  edit too - and leaves what this device holds of that item at least as strict as it was.\<close>

theorem arrivals_are_trusted:
  assumes "interpret_commit eg d c p = (p', Inr out)" and "e \<in> set (in_changes out)" and "en_Data e = Some data" and "en_Type e \<noteq> TypeConflict"
  shows "\<exists>r nk local. r \<in> set (cm_Records c) \<and> pr_namingKey p' = Some nk \<and> localSnapshot eg d p' = Inr local \<and>
    RecordID (eg_mac eg) nk (en_Type e) (en_Key e) = Inr (e_Record r) \<and> eg_Validate eg e \<and>
    no_weaker (eg_decoders eg) (en_Type e) (local_data local (e_Record r)) (Some data)"
proof -
  from assms(1) obtain p1 local where p1: "learn_metas eg (cm_Records c) p = (p1, Inr ())" "localSnapshot eg d p1 = Inr local"
    "fold (interpret_record eg local) (cm_Records c) (p1, no_outcome) = (p', out)"
    by (auto simp: interpret_commit_def split: prod.split_asm sum.split_asm)
  from interpret_fold_changes [OF p1(3)] assms(2-4) obtain r where r: "r \<in> set (cm_Records c)" "trusted_change eg local (pr_namingKey p1) r e"
    by (auto simp: no_outcome_def)
  note F = frame_interpret_fold [OF p1(3)]
  then have "pr_namingKey p' = pr_namingKey p1" "localSnapshot eg d p' = Inr local"
    using localSnapshot_frame [OF F, of eg d] p1(2) by (simp_all add: frame_def)
  with r classify_arrival_no_weaker [of eg e] assms(3) show ?thesis by (auto simp: trusted_change_def)
qed

text \<open>C21. Deletions are not held to that rule. A record that names another item is refused when it arrives, but it
  is part of the verified base all the same; when its tombstone follows, the item to delete is read from that base without
  asking whether it was filed there. The check whether this device holds the item looks under the tombstone's own id,
  finds nothing, and the deletion of a known host's key, which must wait for the master password, is applied on
  arrival.\<close>

theorem misfiled_tombstone_is_not_held:
  assumes "pr_namingKey p = Some nk" and "pr_scope p = []"
    and "RecordID (eg_mac eg) nk TypeKnownHost key = Inr own" and "fmlookup local own = Some \<lparr>en_Type = TypeKnownHost, en_Key = key, en_Data = Some stored\<rparr>"
    and "e_Record r \<noteq> own" and "e_Record r \<noteq> VaultMetaID (eg_cr eg) (pr_vault p)" and "fmlookup local (e_Record r) = None"
    and "fmlookup (pr_names p) (e_Record r) = None"
    and "\<not> e_Deleted r" and "open_env eg p r = Inr \<lparr>bd_Type = TypeKnownHost, bd_Schema = 1, bd_Data = data\<rparr>"
    and "eg_NaturalKey eg TypeKnownHost data = Some key" and "e_Deleted t" and "e_Record t = e_Record r"
  shows "in_changes (snd (interpret_record eg local r (p, out))) = in_changes out \<and>
    map qi_Envelope (in_quarantine (snd (interpret_record eg local r (p, out)))) = map qi_Envelope (in_quarantine out) @ [r] \<and>
    in_changes (snd (interpret_record eg local t (p\<lparr>pr_base := fmupd (e_Record r) r (pr_base p)\<rparr>, out))) =
      in_changes out @ [\<lparr>en_Type = TypeKnownHost, en_Key = key, en_Data = None\<rparr>] \<and>
    v_Reason (classifyDeletion TypeKnownHost (local_data local own)) = ''removes the stored key of a known host''"
proof -
  have access: "RecordAccess KnownSchemas TypeKnownHost 1 = SchemaWritable"
    by (simp add: RecordAccess_def KnownSchemas_def schemaV1_def type_name_defs)
  obtain s where no_section: "IsSettingsType TypeKnownHost = (s, False)" using known_host_not_settings by blast
  have deletion: "classify_arrival eg \<lparr>en_Type = TypeKnownHost, en_Key = key, en_Data = None\<rparr> None local = Inr applyVerdict"
    by (simp add: classify_arrival_def Classify_def no_section classifyDeletion_def ClassifyAddition_def applyVerdict_def anchorDeletions_def)
  have "decode eg r p = Inl [ErrOther ''filed under another item's record'']"
    using assms by (simp add: decode_def access checkFiled_def)
  then have refused: "in_changes (snd (interpret_record eg local r (p, out))) = in_changes out \<and>
      map qi_Envelope (in_quarantine (snd (interpret_record eg local r (p, out)))) = map qi_Envelope (in_quarantine out) @ [r]"
    using assms(6) by (simp add: interpret_record_def hold_def read_clock_def)
  let ?p = "p\<lparr>pr_base := fmupd (e_Record r) r (pr_base p)\<rparr>"
  have "open_env eg ?p r = open_env eg p r" by (simp add: open_env_def)
  then have "decode eg t ?p = Inr (?p, \<lparr>en_Type = TypeKnownHost, en_Key = key, en_Data = None\<rparr>)"
    using assms by (simp add: decode_def nameOf_def)
  then have "interpret_record eg local t (?p, out) = route eg t \<lparr>en_Type = TypeKnownHost, en_Key = key, en_Data = None\<rparr> local ?p out"
    using assms(2,6,13) by (simp add: interpret_record_def Allows_def)
  also have "in_changes (snd \<dots>) = in_changes out @ [\<lparr>en_Type = TypeKnownHost, en_Key = key, en_Data = None\<rparr>]"
    using assms(7,13) deletion by (simp add: route_def Let_def local_data_def mergeLocal_def noteRepointing_changes applyVerdict_def)
  finally show ?thesis
    using refused assms(4) by (simp add: classifyDeletion_def anchorDeletions_def local_data_def pending_def)
qed

end
