(* ===== verification/Sync_Pull.thy ===== *)
theory Sync_Pull
  imports Sync_Interpret
begin

text \<open>
  Pulling one vault (\<open>usecase/sync_pull.go\<close>, \<open>sync_snapshot.go\<close>): commits are verified and applied one at a time, a device
  that has verified nothing starts from a snapshot, and a device whose history the server pruned goes on from a snapshot
  that descends from what it verified.

  A run is an action on a world with the working state of the pull. Go walks a map in no particular order;
  \<open>snapshotDelta\<close> walks the base in the order of record ids. \<open>startPull\<close> is the personal vault's; for a team vault
  the trust in its members is a parameter.
\<close>

section \<open>Runs\<close>

record ('d, 'r) run_world = "'d world" +
  rw_run :: "'r pullRun"

definition on_run :: "('r pullRun \<Rightarrow> 'r pullRun \<times> 'a sync_result) \<Rightarrow> (('d, 'r) run_world, 'a) action" where
  "on_run f w = (case f (rw_run w) of (p, x) \<Rightarrow> (w\<lparr>rw_run := p\<rparr>, x))"

definition upd_run :: "('r pullRun \<Rightarrow> 'r pullRun) \<Rightarrow> (('d, 'r) run_world, unit) action" where
  "upd_run f w = (w\<lparr>rw_run := f (rw_run w)\<rparr>, Inr ())"

definition of_run :: "('r pullRun \<Rightarrow> 'a) \<Rightarrow> (('d, 'r) run_world, 'a) action" where
  "of_run f w = (w, Inr (f (rw_run w)))"

definition update_data :: "('r, 'd, 'h) engine \<Rightarrow> ('d \<Rightarrow> 'd sync_result) \<Rightarrow> (('d, 'z) world_scheme, unit) action" where
  "update_data eg f w = (case eg_UpdateData eg f (wd_data w) of Inl err \<Rightarrow> (w, Inl err) | Inr d \<Rightarrow> (w\<lparr>wd_data := d\<rparr>, Inr ()))"

definition members :: "('r, 'd, 'h) engine \<Rightarrow> u64 \<Rightarrow> (('d, 'r) run_world, MembershipState) action" where
  "members eg seq = on_run (\<lambda>p. case members_at (eg_cr eg) seq (pr_members p) of (c, x) \<Rightarrow> (p\<lparr>pr_members := c\<rparr>, x))"

definition interpret_in :: "('r, 'd, 'h) engine \<Rightarrow> Commit \<Rightarrow> (('d, 'r) run_world, 'r outcome) action" where
  "interpret_in eg c w = on_run (interpret_commit eg (wd_data w) c) w"

section \<open>Landing a commit\<close>

definition applyInterpretation :: "('r, 'd, 'h) engine \<Rightarrow> 'r pullRun \<Rightarrow> 'r outcome \<Rightarrow> 'd \<Rightarrow> 'd sync_result" where
  "applyInterpretation eg p out d =
    bind_res (eg_ApplyScope eg d (pr_scope p) (in_changes out)) (\<lambda>d.
      Inr (fold (\<lambda>(connection, account). eg_SuspendBindings eg (pr_scope p) connection account) (in_suspend out) d))"

definition settle_applied :: "ID \<Rightarrow> state_db \<times> 'r pullRun \<Rightarrow> state_db \<times> 'r pullRun" where
  "settle_applied i = (\<lambda>(d, p). (Release (pr_vault p) i d, p\<lparr>pr_heldDeletions := fmdrop i (pr_heldDeletions p)\<rparr>))"

definition settle_held :: "QuarantineItem \<Rightarrow> state_db \<times> 'r pullRun \<Rightarrow> state_db \<times> 'r pullRun" where
  "settle_held q = (\<lambda>(d, p).
    (Quarantine q d,
     p\<lparr>pr_heldDeletions := fmupd (e_Record (qi_Envelope q)) (qi_Pending q \<and> e_Deleted (qi_Envelope q)) (pr_heldDeletions p),
       pr_report := (if qi_Pending q then (pr_report p)\<lparr>rp_Held := Suc (rp_Held (pr_report p))\<rparr>
         else (pr_report p)\<lparr>rp_Quarantined := Suc (rp_Quarantined (pr_report p))\<rparr>)\<rparr>))"

definition settleQuarantine :: "'r outcome \<Rightarrow> (('d, 'r) run_world, unit) action" where
  "settleQuarantine out w =
    (case fold settle_held (in_quarantine out) (fold settle_applied (in_applied out) (wd_db w, rw_run w)) of
       (d, p) \<Rightarrow> (w\<lparr>wd_db := d, rw_run := p\<rparr>, Inr ()))"

definition advance :: "VaultState \<Rightarrow> Commit \<Rightarrow> 'r pullRun \<Rightarrow> 'r pullRun" where
  "advance vs c p =
    (let p1 = fold (\<lambda>r p. p\<lparr>pr_base := fmupd (e_Record r) r (pr_base p),
           pr_landed := fmupd (e_Record r) (h_ClientTimeUnixMilli (cm_Head c)) (pr_landed p),
           pr_bodies := fmdrop (e_Record r) (pr_bodies p)\<rparr>) (cm_Records c) (p\<lparr>pr_state := vs\<rparr>)
     in fold (\<lambda>i p. p\<lparr>pr_base := fmdrop i (pr_base p), pr_landed := fmdrop i (pr_landed p),
           pr_bodies := fmdrop i (pr_bodies p)\<rparr>) (cm_Purged c) p1)"

definition count_commit :: "'r pullRun \<Rightarrow> 'r pullRun" where
  "count_commit p = p\<lparr>pr_report := (pr_report p)\<lparr>rp_Commits := Suc (rp_Commits (pr_report p))\<rparr>\<rparr>"

definition count_applied :: "nat \<Rightarrow> 'r pullRun \<Rightarrow> 'r pullRun" where
  "count_applied n p = p\<lparr>pr_report := (pr_report p)\<lparr>rp_Applied := rp_Applied (pr_report p) + n\<rparr>\<rparr>"

definition landAs :: "('r, 'd, 'h) engine \<Rightarrow> Commit \<Rightarrow> Commit \<Rightarrow> VaultState \<Rightarrow> (('d, 'r) run_world, unit) action" where
  "landAs eg c meaning vs =
    bind_w (interpret_in eg meaning) (\<lambda>out.
    bind_w (of_run id) (\<lambda>p.
    bind_w (if in_changes out \<noteq> [] then update_data eg (applyInterpretation eg p out) else pure_w (Inr ())) (\<lambda>_.
    bind_w (settleQuarantine out) (\<lambda>_.
    bind_w (write_db (AdvanceVault (cm_Head c) (cm_Records c) (cm_Purged c))) (\<lambda>_.
    upd_run (\<lambda>p. count_applied (length (in_changes out)) (advance vs c p)))))))"

definition land :: "('r, 'd, 'h) engine \<Rightarrow> Commit \<Rightarrow> VaultState \<Rightarrow> (('d, 'r) run_world, unit) action" where
  "land eg c vs = landAs eg c c vs"

definition applyCommit :: "('r, 'd, 'h) engine \<Rightarrow> RemoteCommit \<Rightarrow> (('d, 'r) run_world, unit) action" where
  "applyCommit eg c =
    bind_w (members eg (h_MembershipSeq (cm_Head (rc_Commit c)))) (\<lambda>m.
    bind_w (of_run id) (\<lambda>p.
    bind_w (pure_w (integ_res (ApplyCommit (eg_cr eg) (pr_state p) (rc_Commit c) m (pr_resolve p)))) (\<lambda>vs.
    bind_w (land eg (rc_Commit c) vs) (\<lambda>_. upd_run count_commit))))"

fun apply_all :: "('r, 'd, 'h) engine \<Rightarrow> RemoteCommit list \<Rightarrow> (('d, 'r) run_world, unit) action" where
  "apply_all eg [] = pure_w (Inr ())"
| "apply_all eg (c # cs) = bind_w (applyCommit eg c) (\<lambda>_. apply_all eg cs)"

section \<open>Snapshots\<close>

definition verifySnapshotHead :: "crypto \<Rightarrow> ID \<Rightarrow> DeviceResolver \<Rightarrow> Head \<Rightarrow> MembershipState \<Rightarrow> go_error option" where
  "verifySnapshotHead cr vault resolve h m =
    (if h_Vault h \<noteq> vault \<or> h_MembershipHead h \<noteq> ms_hash m then Some [ErrMembershipMismatch]
     else (case resolve (h_Author h) of
         Inl err \<Rightarrow> Some err
       | Inr (account, key) \<Rightarrow>
           if IsDeviceRevoked m (h_Author h) then Some [ErrRevokedDevice]
           else if \<not> CanWrite (MembershipState_Role m account) then Some [ErrNotAuthorized]
           else if h_CurrentEpoch h \<noteq> ms_epoch m then Some [ErrEpochMismatch]
           else Head_Verify cr h key))"

fun verify_records :: "crypto \<Rightarrow> DeviceResolver \<Rightarrow> Envelope list \<Rightarrow> go_error option" where
  "verify_records cr resolve [] = None"
| "verify_records cr resolve (r # rs) =
    (case resolve (e_Author r) of
       Inl err \<Rightarrow> Some err
     | Inr (_, key) \<Rightarrow>
         (case Envelope_Verify cr r key of Some err \<Rightarrow> Some err | None \<Rightarrow> verify_records cr resolve rs))"

definition integ_opt :: "go_error option \<Rightarrow> unit sync_result" where
  "integ_opt r = (case r of None \<Rightarrow> Inr () | Some err \<Rightarrow> Inl (integrity (map Domain err)))"

definition verifySnapshot :: "('r, 'd, 'h) engine \<Rightarrow> Head \<Rightarrow> Envelope list \<Rightarrow> (('d, 'r) run_world, VaultState) action" where
  "verifySnapshot eg head records =
    bind_w (members eg (h_MembershipSeq head)) (\<lambda>m.
    bind_w (of_run id) (\<lambda>p.
    bind_w (pure_w (integ_opt (verifySnapshotHead (eg_cr eg) (pr_vault p) (pr_resolve p) head m))) (\<lambda>_.
    bind_w (pure_w (integ_opt (verify_records (eg_cr eg) (pr_resolve p) records))) (\<lambda>_.
    pure_w (integ_res (RestoreVaultState (eg_cr eg) (pr_vault p) (Some head) records))))))"

definition bootstrap :: "('r, 'd, 'h) engine \<Rightarrow> (('d, 'r) run_world, unit) action" where
  "bootstrap eg =
    bind_w (of_run pr_vault) (\<lambda>v.
    bind_w (ask (\<lambda>n. ss_Snapshot (eg_Server eg) n v)) (\<lambda>snap.
      case rs_Head snap of
        None \<Rightarrow> if rs_Records snap \<noteq> [] then pure_w (Inl (integrity [ErrOther ''records without a head''])) else pure_w (Inr ())
      | Some head \<Rightarrow>
          bind_w (verifySnapshot eg head (rs_Records snap)) (\<lambda>vs.
          bind_w (land eg \<lparr>cm_Head = head, cm_Records = rs_Records snap, cm_Purged = []\<rparr> vs) (\<lambda>_.
          upd_run count_commit))))"

text \<open>The loop over pages of heads. A page that takes the position past \<open>2 ^ 64\<close> and round to a lower one, which needs
  more heads than a reply can hold, counts as a fork; Go has no such branch.\<close>

function checkDescends :: "('r, 'd, 'h) engine \<Rightarrow> ID \<Rightarrow> ChainCursor \<Rightarrow> u64 \<Rightarrow> hash32 \<Rightarrow> (('d, 'z) world_scheme, unit) action" where
  "checkDescends eg v cur seq tip w =
    (if cur_Seq cur < seq then
       (case ask (\<lambda>n. ss_Heads (eg_Server eg) n v (cur_Seq cur) seq) w of
          (w, Inl err) \<Rightarrow> (w, Inl err)
        | (w, Inr heads) \<Rightarrow>
            if heads = [] then (w, Inl (integrity [Domain ErrFork]))
            else (case AdvanceAll (eg_cr eg) cur heads of
                Inl err \<Rightarrow> (w, Inl (integrity (Domain ErrFork # map Domain err)))
              | Inr cur' \<Rightarrow>
                  if cur_Seq cur' \<le> cur_Seq cur then (w, Inl (integrity [Domain ErrFork]))
                  else checkDescends eg v cur' seq tip w))
     else if cur_Seq cur \<noteq> seq \<or> cur_Hash cur \<noteq> tip then (w, Inl (integrity [Domain ErrFork]))
     else (w, Inr ()))"
  by pat_completeness auto
termination
  by (relation "measure (\<lambda>(eg, v, cur, seq, tip, w). unat seq - unat (cur_Seq cur))") (auto simp: word_less_nat_alt word_le_nat_alt)

declare checkDescends.simps [simp del]

definition zero_envelope :: "ID \<Rightarrow> ID \<Rightarrow> u64 \<Rightarrow> Envelope" where
  "zero_envelope v i n = \<lparr>e_Vault = v, e_Record = i, e_Version = n, e_Epoch = 0, e_Suite = 0, e_Deleted = True,
     e_WrappedDEK = [], e_Body = [], e_Author = 0, e_SigAlg = 0, e_Sig = []\<rparr>"

definition snapshotDelta :: "'r pullRun \<Rightarrow> Head \<Rightarrow> Envelope list \<Rightarrow> Commit \<times> Commit" where
  "snapshotDelta p head records =
    (let base = pr_base p;
         moved = filter (\<lambda>r. case fmlookup base (e_Record r) of None \<Rightarrow> True | Some b \<Rightarrow> e_Version b \<noteq> e_Version r) records;
         gone = filter (\<lambda>i. i \<notin> e_Record ` set records) (sorted_list_of_fset (fmdom base));
         deleted = map (\<lambda>i. zero_envelope (pr_vault p) i (e_Version (the (fmlookup base i)) + 1))
           (filter (\<lambda>i. \<not> e_Deleted (the (fmlookup base i))) gone)
     in (\<lparr>cm_Head = head, cm_Records = moved, cm_Purged = gone\<rparr>,
         \<lparr>cm_Head = head, cm_Records = moved @ deleted, cm_Purged = gone\<rparr>))"

definition resync :: "('r, 'd, 'h) engine \<Rightarrow> (('d, 'r) run_world, unit) action" where
  "resync eg =
    bind_w (of_run id) (\<lambda>p.
    bind_w (ask (\<lambda>n. ss_Snapshot (eg_Server eg) n (pr_vault p))) (\<lambda>snap.
      case rs_Head snap of
        None \<Rightarrow> pure_w (Inl (integrity [ErrOther ''no head after pruned history'']))
      | Some head \<Rightarrow>
          bind_w (pure_w (integ_res (Head_Hash (eg_cr eg) head))) (\<lambda>hash.
          let cur = vs_cursor (pr_state p) in
          bind_w (pure_w (integ_opt (CheckObserved cur (h_Seq head) hash))) (\<lambda>_.
            if h_Seq head = cur_Seq cur then pure_w (Inr ())
            else
              bind_w (checkDescends eg (pr_vault p) cur (h_Seq head) hash) (\<lambda>_.
              bind_w (verifySnapshot eg head (rs_Records snap)) (\<lambda>vs.
              bind_w (of_run id) (\<lambda>p.
              case snapshotDelta p head (rs_Records snap) of (c, meaning) \<Rightarrow>
                bind_w (landAs eg c meaning vs) (\<lambda>_. upd_run count_commit))))))))"

section \<open>What a step of a pull changes\<close>

definition stored_same :: "state_db \<Rightarrow> state_db \<Rightarrow> bool" where
  "stored_same d d' \<longleftrightarrow> tb_heads d' = tb_heads d \<and> tb_records d' = tb_records d \<and>
    tb_device_entries d' = tb_device_entries d \<and> tb_member_ops d' = tb_member_ops d \<and> tb_outbox d' = tb_outbox d"

lemma stored_same_refl [simp]: "stored_same d d"
  by (simp add: stored_same_def)

lemma settle_applied_fold: "fold settle_applied is (d, p) = (d', p') \<Longrightarrow> stored_same d d' \<and> core p' = core p"
proof (induction "is" arbitrary: d p)
  case (Cons i "is")
  then have "stored_same (Release (pr_vault p) i d) d' \<and> core p' = core p" by (auto simp: settle_applied_def)
  then show ?case by (simp add: stored_same_def Release_def)
qed simp

lemma settle_held_fold: "fold settle_held qs (d, p) = (d', p') \<Longrightarrow> stored_same d d' \<and> core p' = core p"
proof (induction qs arbitrary: d p)
  case (Cons q qs)
  obtain p1 where one: "settle_held q (d, p) = (Quarantine q d, p1)" "core p1 = core p" by (simp add: settle_held_def)
  with Cons have "stored_same (Quarantine q d) d' \<and> core p' = core p" by simp
  then show ?case by (simp add: stored_same_def Quarantine_def Let_def)
qed simp

lemma settleQuarantine_core:
  assumes "settleQuarantine out w = (w', x)"
  shows "x = Inr () \<and> stored_same (wd_db w) (wd_db w') \<and> core (rw_run w') = core (rw_run w)"
proof -
  obtain d1 p1 where a: "fold settle_applied (in_applied out) (wd_db w, rw_run w) = (d1, p1)" by force
  obtain d2 p2 where b: "fold settle_held (in_quarantine out) (d1, p1) = (d2, p2)" by force
  from settle_applied_fold [OF a] settle_held_fold [OF b] assms a b show ?thesis
    by (auto simp: settleQuarantine_def stored_same_def)
qed

lemma advance_core:
  "core (advance vs c p) = (pr_vault p, pr_ops p, pr_members p, pr_resolve p, vs,
    fmfilter (\<lambda>i. i \<notin> set (cm_Purged c)) (fold (\<lambda>r. fmupd (e_Record r) r) (cm_Records c) (pr_base p)), pr_scope p)"
proof -
  have rec: "core (fold (\<lambda>r p. p\<lparr>pr_base := fmupd (e_Record r) r (pr_base p), pr_landed := fmupd (e_Record r) t (pr_landed p),
      pr_bodies := fmdrop (e_Record r) (pr_bodies p)\<rparr>) rs q) =
    (pr_vault q, pr_ops q, pr_members q, pr_resolve q, pr_state q, fold (\<lambda>r. fmupd (e_Record r) r) rs (pr_base q), pr_scope q)" for rs t and q :: "'a pullRun"
    by (induction rs arbitrary: q) (simp_all add: core_def)
  have pur: "core (fold (\<lambda>i p. p\<lparr>pr_base := fmdrop i (pr_base p), pr_landed := fmdrop i (pr_landed p), pr_bodies := fmdrop i (pr_bodies p)\<rparr>) is q) =
    (pr_vault q, pr_ops q, pr_members q, pr_resolve q, pr_state q, fmfilter (\<lambda>i. i \<notin> set is) (pr_base q), pr_scope q)" for "is" and q :: "'a pullRun"
  proof (induction "is" arbitrary: q)
    case Nil
    have "fmfilter (\<lambda>i. True) (pr_base q) = pr_base q" by (rule fmap_ext) simp
    then show ?case by (simp add: core_def)
  next
    case (Cons i "is")
    then show ?case by (simp add: core_def) (rule fmap_ext, simp)
  qed
  define q where "q = fold (\<lambda>r p. p\<lparr>pr_base := fmupd (e_Record r) r (pr_base p),
      pr_landed := fmupd (e_Record r) (h_ClientTimeUnixMilli (cm_Head c)) (pr_landed p),
      pr_bodies := fmdrop (e_Record r) (pr_bodies p)\<rparr>) (cm_Records c) (p\<lparr>pr_state := vs\<rparr>)"
  have q: "pr_vault q = pr_vault p" "pr_ops q = pr_ops p" "pr_members q = pr_members p" "pr_resolve q = pr_resolve p"
    "pr_state q = vs" "pr_base q = fold (\<lambda>r. fmupd (e_Record r) r) (cm_Records c) (pr_base p)" "pr_scope q = pr_scope p"
    using rec [of "h_ClientTimeUnixMilli (cm_Head c)" "cm_Records c" "p\<lparr>pr_state := vs\<rparr>"] unfolding q_def [symmetric] by (simp_all add: core_def)
  show ?thesis unfolding advance_def Let_def q_def [symmetric] pur unfolding q by (rule refl)
qed

lemma fmmap_fmupd: "fmmap f (fmupd k v m) = fmupd k (f v) (fmmap f m)"
  by (rule fmap_ext) simp

lemma put_records_base: "put_records h es rows = Inr rows' \<Longrightarrow> fmmap fst rows' = fold (\<lambda>e. fmupd (e_Record e) e) es (fmmap fst rows)"
  by (induction es arbitrary: rows) (auto simp: put_records_Cons fmmap_fmupd simp del: put_records.simps(2))

lemma AdvanceVault_base:
  assumes "AdvanceVault h es ps d = Inr d'"
  shows "fmmap fst (rows_of (tb_records d') (h_Vault h)) =
    fmfilter (\<lambda>i. i \<notin> set ps) (fold (\<lambda>e. fmupd (e_Record e) e) es (fmmap fst (rows_of (tb_records d) (h_Vault h))))"
  using assms
proof (rule AdvanceVault_Inr)
  fix rows
  assume rows: "put_records h es (rows_of (tb_records d) (h_Vault h)) = Inr rows"
    and d': "d' = d\<lparr>tb_records := fmupd (h_Vault h) (fmfilter (\<lambda>i. i \<notin> set ps) rows) (tb_records d),
      tb_heads := fmupd (h_Vault h) h (tb_heads d)\<rparr>"
  have "fmmap fst (rows_of (tb_records d') (h_Vault h)) = fmmap fst (fmfilter (\<lambda>i. i \<notin> set ps) rows)" by (simp add: d')
  also have "\<dots> = fmfilter (\<lambda>i. i \<notin> set ps) (fmmap fst rows)" by (rule fmap_ext) simp
  finally show ?thesis unfolding put_records_base [OF rows] .
qed

lemma core_count [simp]: "core (count_commit p) = core p" "core (count_applied n p) = core p"
  by (simp_all add: count_commit_def count_applied_def)

lemma interpret_in_core:
  "interpret_in eg c w = (w', x) \<Longrightarrow> wd_db w' = wd_db w \<and> wd_tick w' = wd_tick w \<and> core (rw_run w') = core (rw_run w)"
  by (auto simp: interpret_in_def on_run_def split: prod.split_asm dest: core_interpret_commit)

lemma update_data_core:
  "update_data eg f w = (w', x) \<Longrightarrow> wd_db w' = wd_db w \<and> rw_run w' = rw_run w"
  by (auto simp: update_data_def split: sum.split_asm)

lemma core_advance_cong:
  assumes "core p = core q"
  shows "core (advance vs c p) = core (advance vs c q)"
proof -
  have "pr_vault p = pr_vault q" "pr_ops p = pr_ops q" "pr_members p = pr_members q" "pr_resolve p = pr_resolve q"
    "pr_base p = pr_base q" "pr_scope p = pr_scope q" using assms by (simp_all add: core_def)
  then show ?thesis unfolding advance_core by (simp only:)
qed

text \<open>Landing a commit: on success the state database is advanced to it and the run stands on it; a failure leaves the
  heads, the records and the position of the run as they were.\<close>

lemma landAs_effect:
  assumes "landAs eg c meaning vs w = (w', x)"
  shows "case x of
      Inl err \<Rightarrow> stored_same (wd_db w) (wd_db w') \<and> core (rw_run w') = core (rw_run w)
    | Inr _ \<Rightarrow> \<exists>d. stored_same (wd_db w) d \<and> AdvanceVault (cm_Head c) (cm_Records c) (cm_Purged c) d = Inr (wd_db w') \<and>
        core (rw_run w') = core (advance vs c (rw_run w))"
proof -
  obtain w1 x1 where i: "interpret_in eg meaning w = (w1, x1)" by force
  note I = interpret_in_core [OF i]
  show ?thesis
  proof (cases x1)
    case (Inl err)
    with assms i I show ?thesis by (auto simp: landAs_def bind_w_def)
  next
    case (Inr out)
    let ?upd = "if in_changes out \<noteq> [] then update_data eg (applyInterpretation eg (rw_run w1) out) else pure_w (Inr ())"
    obtain w2 x2 where u: "?upd w1 = (w2, x2)" by force
    have U: "wd_db w2 = wd_db w1 \<and> rw_run w2 = rw_run w1"
      using u by (auto simp: pure_w_def split: if_split_asm dest: update_data_core)
    show ?thesis
    proof (cases x2)
      case (Inl err)
      with assms i I u U Inr show ?thesis by (auto simp: landAs_def bind_w_def of_run_def)
    next
      case x2: (Inr y)
      obtain w3 x3 where s: "settleQuarantine out w2 = (w3, x3)" by force
      note S = settleQuarantine_core [OF s]
      have run: "landAs eg c meaning vs w =
        bind_w (write_db (AdvanceVault (cm_Head c) (cm_Records c) (cm_Purged c)))
          (\<lambda>_. upd_run (\<lambda>p. count_applied (length (in_changes out)) (advance vs c p))) w3"
        using i u s S x2 Inr by (simp add: landAs_def bind_w_def of_run_def)
      show ?thesis
        using assms unfolding run
        using I U S core_advance_cong [of "rw_run w3" "rw_run w" vs c]
        by (auto simp: bind_w_def write_db_def upd_run_def split: sum.split_asm)
    qed
  qed
qed

lemma members_core:
  assumes "members eg seq w = (w', x)" and "cursor_ok (eg_cr eg) (pr_members (rw_run w))"
  shows "wd_db w' = wd_db w \<and> (\<exists>c. rw_run w' = (rw_run w)\<lparr>pr_members := c\<rparr> \<and> cursor_ok (eg_cr eg) c) \<and>
    x = membership_at (eg_cr eg) (pr_members (rw_run w)) seq"
proof -
  obtain c y where at: "members_at (eg_cr eg) seq (pr_members (rw_run w)) = (c, y)" by force
  with members_at_exact(1,2) [OF assms(2), of seq] assms(1) show ?thesis by (auto simp: members_def on_run_def)
qed

section \<open>Positions in the chain of heads\<close>

text \<open>A position is a sequence number and the hash of the head there. Heads link positions; what \<open>AdvanceAll\<close> also
  checks of the membership position is left out.\<close>

inductive descends :: "crypto \<Rightarrow> u64 \<times> hash32 \<Rightarrow> u64 \<times> hash32 \<Rightarrow> bool" for cr where
  descends_refl: "descends cr a a"
| descends_step: "descends cr a (h_Seq h - 1, h_PrevHash h) \<Longrightarrow> head_fits h \<Longrightarrow>
    descends cr a (h_Seq h, sha256 cr (head_preimage h))"

lemma descends_trans: "descends cr b c \<Longrightarrow> descends cr a b \<Longrightarrow> descends cr a c"
  by (induction rule: descends.induct) (auto intro: descends.intros)

definition place :: "ChainCursor \<Rightarrow> u64 \<times> hash32" where
  "place c = (cur_Seq c, cur_Hash c)"

lemma Advance_descends: "Advance cr c h = Inr c' \<Longrightarrow> descends cr (place c) (place c')"
  using descends_step [of cr "place c" h] by (auto simp: Advance_Inr VerifyLink_None place_def intro: descends_refl)

lemma AdvanceAll_descends: "AdvanceAll cr c hs = Inr c' \<Longrightarrow> descends cr (place c) (place c')"
proof (induction cr c hs rule: AdvanceAll.induct)
  case (2 cr c h hs)
  then obtain c1 where c1: "Advance cr c h = Inr c1" "AdvanceAll cr c1 hs = Inr c'" by (auto split: sum.splits)
  with 2 show ?case by (blast intro: descends_trans Advance_descends)
qed (simp add: descends_refl)

lemma checkDescends_Inr:
  assumes "checkDescends eg v cur seq tip w = (w', x)"
  shows "wd_db w' = wd_db w \<and> world.more w' = world.more w \<and> wd_data w' = wd_data w \<and>
    (x = Inr () \<longrightarrow> descends (eg_cr eg) (place cur) (seq, tip))"
  using assms
proof (induction eg v cur seq tip w rule: checkDescends.induct)
  case (1 eg v cur seq tip w)
  obtain w1 y where a: "ask (\<lambda>n. ss_Heads (eg_Server eg) n v (cur_Seq cur) seq) w = (w1, y)" by force
  then have w1: "wd_db w1 = wd_db w" "world.more w1 = world.more w" "wd_data w1 = wd_data w" by (auto simp: ask_def)
  show ?case
  proof (cases "cur_Seq cur < seq")
    case False
    with 1(2) show ?thesis
      by (cases "cur_Seq cur \<noteq> seq \<or> cur_Hash cur \<noteq> tip") (auto simp: checkDescends.simps [of eg v cur] place_def descends_refl)
  next
    case True
    show ?thesis
    proof (cases y)
      case (Inl err)
      with 1(2) True a w1 show ?thesis by (auto simp: checkDescends.simps [of eg v cur])
    next
      case (Inr heads)
      show ?thesis
      proof (cases "heads = [] \<or> (case AdvanceAll (eg_cr eg) cur heads of Inl err \<Rightarrow> True | Inr cur' \<Rightarrow> cur_Seq cur' \<le> cur_Seq cur)")
        case bad: True
        with 1(2) True a w1 Inr show ?thesis by (auto simp: checkDescends.simps [of eg v cur] split: sum.split_asm if_split_asm)
      next
        case False
        then obtain cur' where cur': "heads \<noteq> []" "AdvanceAll (eg_cr eg) cur heads = Inr cur'" "\<not> cur_Seq cur' \<le> cur_Seq cur"
          by (auto split: sum.split_asm)
        have run: "checkDescends eg v cur' seq tip w1 = (w', x)"
          using 1(2) True a Inr cur' by (simp add: checkDescends.simps [of eg v cur])
        from 1(1) [OF True a [symmetric] Inr cur'(1,2,3) run] w1 descends_trans AdvanceAll_descends [OF cur'(2)]
        show ?thesis by metis
      qed
    qed
  qed
qed

definition position :: "crypto \<Rightarrow> state_db \<Rightarrow> ID \<Rightarrow> u64 \<times> hash32" where
  "position cr d v = (case fmlookup (tb_heads d) v of
     None \<Rightarrow> (0, sha256 cr (genesis_preimage v)) | Some h \<Rightarrow> (h_Seq h, sha256 cr (head_preimage h)))"

text \<open>How far a pull may move the stored position: forward along the chain, or anywhere from the very beginning.\<close>

definition reaches :: "crypto \<Rightarrow> u64 \<times> hash32 \<Rightarrow> u64 \<times> hash32 \<Rightarrow> bool" where
  "reaches cr a b \<longleftrightarrow> fst a \<le> fst b \<and> (descends cr a b \<or> fst a = 0)"

lemma reaches_refl [simp]: "reaches cr a a"
  by (simp add: reaches_def descends_refl)

lemma reaches_trans:
  assumes "reaches cr a b" and "reaches cr b c"
  shows "reaches cr a c"
proof (cases "fst a = 0")
  case False
  with assms have "fst b \<noteq> 0" by (auto simp: reaches_def)
  with False assms have "descends cr a b" "descends cr b c" "fst a \<le> fst b" "fst b \<le> fst c" by (auto simp: reaches_def)
  then show ?thesis unfolding reaches_def using descends_trans order.trans by blast
qed (simp add: reaches_def)

definition run_at :: "('r, 'd, 'h) engine \<Rightarrow> ('d, 'r) run_world \<Rightarrow> bool" where
  "run_at eg w \<longleftrightarrow> place (vs_cursor (pr_state (rw_run w))) = position (eg_cr eg) (wd_db w) (pr_vault (rw_run w)) \<and>
    vs_vault (pr_state (rw_run w)) = pr_vault (rw_run w) \<and> cursor_ok (eg_cr eg) (pr_members (rw_run w))"

definition forward :: "('r, 'd, 'h) engine \<Rightarrow> ('d, 'r) run_world \<Rightarrow> ('d, 'r) run_world \<Rightarrow> bool" where
  "forward eg w w' \<longleftrightarrow> pr_vault (rw_run w') = pr_vault (rw_run w) \<and> run_at eg w' \<and>
    (\<forall>u. u \<noteq> pr_vault (rw_run w) \<longrightarrow> LoadVault (wd_db w') u = LoadVault (wd_db w) u) \<and>
    tb_device_entries (wd_db w') = tb_device_entries (wd_db w) \<and> tb_member_ops (wd_db w') = tb_member_ops (wd_db w) \<and>
    reaches (eg_cr eg) (position (eg_cr eg) (wd_db w) (pr_vault (rw_run w))) (position (eg_cr eg) (wd_db w') (pr_vault (rw_run w)))"

lemma forward_trans: "forward eg w w1 \<Longrightarrow> forward eg w1 w2 \<Longrightarrow> forward eg w w2"
  unfolding forward_def by (auto intro: reaches_trans)

lemma stored_same_Load: "stored_same d d' \<Longrightarrow> LoadVault d' = LoadVault d \<and> position cr d' = position cr d"
  by (auto simp: stored_same_def LoadVault_def position_def landedAt_def fun_eq_iff split: option.split)

lemma forward_same:
  assumes "run_at eg w" and "stored_same (wd_db w) (wd_db w')" and "core (rw_run w') = core ((rw_run w)\<lparr>pr_members := c\<rparr>)"
    and "cursor_ok (eg_cr eg) c"
  shows "forward eg w w'"
proof -
  have "LoadVault (wd_db w') = LoadVault (wd_db w)" "position (eg_cr eg) (wd_db w') = position (eg_cr eg) (wd_db w)"
    using stored_same_Load [OF assms(2)] by blast+
  with assms show ?thesis by (simp add: forward_def run_at_def core_def stored_same_def)
qed

lemma forward_landAs:
  assumes "run_at eg w" and "landAs eg c meaning vs w = (w', x)"
    and "h_Vault (cm_Head c) = pr_vault (rw_run w)" and "vs_vault vs = pr_vault (rw_run w)"
    and "place (vs_cursor vs) = (h_Seq (cm_Head c), sha256 (eg_cr eg) (head_preimage (cm_Head c)))"
    and "descends (eg_cr eg) (place (vs_cursor (pr_state (rw_run w)))) (place (vs_cursor vs)) \<or> cur_Seq (vs_cursor (pr_state (rw_run w))) = 0"
  shows "forward eg w w'"
proof (cases x)
  case (Inl err)
  with landAs_effect [OF assms(2)] assms(1) show ?thesis by (intro forward_same [of _ _ _ "pr_members (rw_run w)"]) (auto simp: run_at_def)
next
  case (Inr u)
  let ?h = "cm_Head c" let ?v = "pr_vault (rw_run w)"
  from landAs_effect [OF assms(2)] Inr obtain d where d: "stored_same (wd_db w) d"
    "AdvanceVault ?h (cm_Records c) (cm_Purged c) d = Inr (wd_db w')" "core (rw_run w') = core (advance vs c (rw_run w))" by auto
  from d(2) obtain rows where lt: "\<And>cur. fmlookup (tb_heads d) ?v = Some cur \<Longrightarrow> h_Seq cur < h_Seq ?h"
    and d': "wd_db w' = d\<lparr>tb_records := fmupd ?v (fmfilter (\<lambda>i. i \<notin> set (cm_Purged c)) rows) (tb_records d), tb_heads := fmupd ?v ?h (tb_heads d)\<rparr>"
    unfolding assms(3) [symmetric] by (rule AdvanceVault_Inr) blast
  have pos: "position (eg_cr eg) (wd_db w') ?v = place (vs_cursor vs)" by (simp add: position_def d' assms(5))
  have old: "position (eg_cr eg) d ?v = place (vs_cursor (pr_state (rw_run w)))" "LoadVault d = LoadVault (wd_db w)"
    using stored_same_Load [OF d(1)] assms(1) by (simp_all add: run_at_def)
  have run: "pr_vault (rw_run w') = ?v" "pr_state (rw_run w') = vs" "pr_members (rw_run w') = pr_members (rw_run w)"
    using d(3) unfolding advance_core by (simp_all add: core_def)
  have "fst (position (eg_cr eg) d ?v) \<le> h_Seq ?h" using lt by (auto simp: position_def split: option.split)
  then have "reaches (eg_cr eg) (place (vs_cursor (pr_state (rw_run w)))) (place (vs_cursor vs))"
    using assms(5,6) old(1) by (auto simp: reaches_def place_def)
  moreover have "LoadVault (wd_db w') u = LoadVault (wd_db w) u" if "u \<noteq> ?v" for u
    using that old(2) [symmetric] by (simp add: d' LoadVault_def landedAt_def split: option.split)
  ultimately show ?thesis
    using pos run assms(1,4) d(1) by (auto simp: forward_def run_at_def d' stored_same_def)
qed

section \<open>Every step goes forward\<close>

lemma RestoreVaultState_head:
  "RestoreVaultState cr v (Some h) es = Inr s \<Longrightarrow> h_Vault h = v \<and> vs_vault s = v \<and> head_fits h \<and>
    place (vs_cursor s) = (h_Seq h, sha256 cr (head_preimage h))"
  by (auto simp: RestoreVaultState_def RestoreFromLeaves_Inr place_def result_simps split: if_split_asm)

lemma ApplyCommit_place:
  assumes "ApplyCommit cr s c m resolve = Inr t"
  shows "h_Vault (cm_Head c) = vs_vault s \<and> vs_vault t = vs_vault s \<and> descends cr (place (vs_cursor s)) (place (vs_cursor t)) \<and>
    cur_Seq (vs_cursor t) = cur_Seq (vs_cursor s) + 1 \<and> place (vs_cursor t) = (h_Seq (cm_Head c), sha256 cr (head_preimage (cm_Head c)))"
proof -
  from assms have "Advance cr (vs_cursor s) (cm_Head c) = Inr (vs_cursor t)" "h_Vault (cm_Head c) = vs_vault s"
    unfolding ApplyCommit_Inr by blast+
  moreover from assms have "vs_vault t = vs_vault s" unfolding ApplyCommit_Inr by (metis VaultState.select_convs(1))
  ultimately show ?thesis using Advance_descends by (auto simp: Advance_Inr VerifyLink_None place_def)
qed

lemma forward_members:
  assumes "run_at eg w" and "members eg seq w = (w', x)"
  shows "forward eg w w' \<and> pr_state (rw_run w') = pr_state (rw_run w) \<and> pr_resolve (rw_run w') = pr_resolve (rw_run w) \<and>
    pr_base (rw_run w') = pr_base (rw_run w) \<and> wd_db w' = wd_db w"
proof -
  have "cursor_ok (eg_cr eg) (pr_members (rw_run w))" using assms(1) by (simp add: run_at_def)
  from members_core [OF assms(2) this] obtain c where c: "wd_db w' = wd_db w" "rw_run w' = (rw_run w)\<lparr>pr_members := c\<rparr>" "cursor_ok (eg_cr eg) c"
    by blast
  with forward_same [OF assms(1), of w' c] show ?thesis by simp
qed

lemma forward_count: "forward eg w w1 \<Longrightarrow> forward eg w (w1\<lparr>rw_run := count_commit (rw_run w1)\<rparr>)"
  by (auto simp: forward_def run_at_def count_commit_def)

lemma members_run: "members eg seq w = (w', x) \<Longrightarrow> \<exists>c. rw_run w' = (rw_run w)\<lparr>pr_members := c\<rparr> \<and> wd_db w' = wd_db w"
  by (auto simp: members_def on_run_def split: prod.split_asm)

text \<open>The stages of an applied commit, and how a refused one ends.\<close>

lemma applyCommit_stages:
  assumes "applyCommit eg c w = (w', x)"
  obtains (membership) err where "members eg (h_MembershipSeq (cm_Head (rc_Commit c))) w = (w', Inl err)" "x = Inl err"
  | (commit) ms err where "members eg (h_MembershipSeq (cm_Head (rc_Commit c))) w = (w', Inr ms)" "x = Inl err"
  | (landing) w1 ms vs err where "members eg (h_MembershipSeq (cm_Head (rc_Commit c))) w = (w1, Inr ms)"
      "ApplyCommit (eg_cr eg) (pr_state (rw_run w1)) (rc_Commit c) ms (pr_resolve (rw_run w1)) = Inr vs"
      "landAs eg (rc_Commit c) (rc_Commit c) vs w1 = (w', Inl err)" "x = Inl err"
  | (landed) w1 ms vs w2 where "members eg (h_MembershipSeq (cm_Head (rc_Commit c))) w = (w1, Inr ms)"
      "ApplyCommit (eg_cr eg) (pr_state (rw_run w1)) (rc_Commit c) ms (pr_resolve (rw_run w1)) = Inr vs"
      "landAs eg (rc_Commit c) (rc_Commit c) vs w1 = (w2, Inr ())" "w' = w2\<lparr>rw_run := count_commit (rw_run w2)\<rparr>" "x = Inr ()"
proof -
  let ?c = "rc_Commit c"
  obtain w1 y where m: "members eg (h_MembershipSeq (cm_Head ?c)) w = (w1, y)" by force
  note defs = applyCommit_def bind_w_def of_run_def pure_w_def integ_res_def land_def upd_run_def
  show thesis
  proof (cases y)
    case (Inl err)
    with assms m have "w1 = w'" "x = Inl err" by (simp_all add: defs)
    with m Inl membership show thesis by simp
  next
    case ms: (Inr ms)
    show thesis
    proof (cases "ApplyCommit (eg_cr eg) (pr_state (rw_run w1)) ?c ms (pr_resolve (rw_run w1))")
      case (Inl err)
      with assms m ms have "w1 = w'" "x = Inl (integrity (map Domain err))" by (simp_all add: defs)
      with m ms commit show thesis by simp
    next
      case vs: (Inr vs)
      obtain w2 z where l: "landAs eg ?c ?c vs w1 = (w2, z)" by force
      show thesis
      proof (cases z)
        case (Inl err)
        with assms m ms vs l have "w2 = w'" "x = Inl err" by (simp_all add: defs)
        with landing [OF m [unfolded ms] vs] l Inl show thesis by simp
      next
        case (Inr u)
        with assms m ms vs l have "w' = w2\<lparr>rw_run := count_commit (rw_run w2)\<rparr>" "x = Inr ()" by (simp_all add: defs)
        with landed [OF m [unfolded ms] vs] l Inr show thesis by simp
      qed
    qed
  qed
qed

lemma landAs_state:
  assumes "landAs eg c meaning vs w = (w', Inr ())"
  shows "pr_state (rw_run w') = vs \<and> h_Seq (cm_Head c) < 2 ^ 63"
proof -
  from landAs_effect [OF assms] obtain d where "AdvanceVault (cm_Head c) (cm_Records c) (cm_Purged c) d = Inr (wd_db w')"
    "core (rw_run w') = core (advance vs c (rw_run w))" by auto
  then show ?thesis unfolding advance_core by (auto simp: core_def elim: AdvanceVault_Inr)
qed

lemma applyCommit_forward:
  assumes "run_at eg w" and "applyCommit eg c w = (w', x)"
  shows "forward eg w w'"
proof -
  have land: "forward eg w w2" if m: "members eg seq w = (w1, Inr ms)"
    and vs: "ApplyCommit (eg_cr eg) (pr_state (rw_run w1)) (rc_Commit c) ms (pr_resolve (rw_run w1)) = Inr vs"
    and l: "landAs eg (rc_Commit c) (rc_Commit c) vs w1 = (w2, z)" for seq w1 ms vs w2 z
  proof -
    note M = forward_members [OF assms(1) m]
    then have "run_at eg w1" "vs_vault (pr_state (rw_run w1)) = pr_vault (rw_run w1)" by (auto simp: forward_def run_at_def)
    with forward_landAs [OF _ l] ApplyCommit_place [OF vs] have "forward eg w1 w2" by auto
    with M forward_trans show ?thesis by blast
  qed
  from assms(2) show ?thesis
    by (cases rule: applyCommit_stages) (use assms(1) forward_members land forward_count in blast)+
qed

text \<open>How many commits may still follow: positions end below \<open>2 ^ 63\<close>.\<close>

definition run_seq :: "('d, 'r) run_world \<Rightarrow> u64" where
  "run_seq w = cur_Seq (vs_cursor (pr_state (rw_run w)))"

definition room :: "u64 \<Rightarrow> nat" where
  "room seq = (if seq < 2 ^ 63 then 2 ^ 63 - unat seq else 2 ^ 63 + 1)"

lemma room_step: "s + 1 < (2 ^ 63 :: u64) \<Longrightarrow> room (s + 1) < room s"
  by (cases "s < 2 ^ 63") (auto simp: room_def word_less_nat_alt unat_word_ariths)

lemma applyCommit_room:
  assumes "applyCommit eg c w = (w', Inr ())"
  shows "room (run_seq w') < room (run_seq w)"
  using assms
proof (cases rule: applyCommit_stages)
  case (landed w1 ms vs w2)
  have "run_seq w' = cur_Seq (vs_cursor vs)" "h_Seq (cm_Head (rc_Commit c)) < 2 ^ 63"
    using landAs_state [OF landed(3)] landed(4) by (simp_all add: run_seq_def count_commit_def)
  moreover have "cur_Seq (vs_cursor vs) = run_seq w + 1" "cur_Seq (vs_cursor vs) = h_Seq (cm_Head (rc_Commit c))"
    using ApplyCommit_place [OF landed(2)] members_run [OF landed(1)] unfolding run_seq_def place_def by auto
  ultimately show ?thesis using room_step [of "run_seq w"] by simp
qed simp_all

lemma apply_all_room:
  assumes "apply_all eg cs w = (w', Inr ())" and "cs \<noteq> []"
  shows "room (run_seq w') < room (run_seq w)"
  using assms
proof (induction cs arbitrary: w)
  case (Cons c cs)
  then obtain w1 where w1: "applyCommit eg c w = (w1, Inr ())" "apply_all eg cs w1 = (w', Inr ())" by (auto simp: bind_w_Inr)
  from applyCommit_room [OF w1(1)] Cons.IH [OF w1(2)] w1(2) show ?case by (cases "cs = []") (auto simp: pure_w_def)
qed simp

lemma apply_all_forward:
  assumes "run_at eg w" and "apply_all eg cs w = (w', x)"
  shows "forward eg w w'"
  using assms
proof (induction cs arbitrary: w)
  case Nil
  then show ?case by (auto simp: pure_w_def forward_def)
next
  case (Cons c cs)
  obtain w1 y where a: "applyCommit eg c w = (w1, y)" by force
  note A = applyCommit_forward [OF Cons.prems(1) a]
  then have at1: "run_at eg w1" by (simp add: forward_def)
  show ?case
    using Cons.prems(2) a A Cons.IH [OF at1] forward_trans [OF A] by (cases y) (auto simp: bind_w_def)
qed

section \<open>Pulling\<close>

definition pullPageSize :: nat where "pullPageSize = 100"

text \<open>The loop of \<open>pullAll\<close>: every page moves the position forward, so it ends.\<close>

function pull_loop :: "('r, 'd, 'h) engine \<Rightarrow> bool \<Rightarrow> (('d, 'r) run_world, unit) action" where
  "pull_loop eg resynced w =
    (case ask (\<lambda>n. ss_Changes (eg_Server eg) n (pr_vault (rw_run w)) (cur_Seq (vs_cursor (pr_state (rw_run w)))) pullPageSize) w of
       (w, Inl err) \<Rightarrow>
         if ErrHistoryPruned \<in> set err then
           (if resynced then (w, Inr ())
            else (case resync eg w of (w, Inl err) \<Rightarrow> (w, Inl err) | (w, Inr _) \<Rightarrow> pull_loop eg True w))
         else (w, Inl err)
     | (w, Inr (commits, again)) \<Rightarrow>
         (case apply_all eg commits w of
            (w, Inl err) \<Rightarrow> (w, Inl err)
          | (w, Inr _) \<Rightarrow> if \<not> again \<or> commits = [] then (w, Inr ()) else pull_loop eg resynced w))"
  by pat_completeness auto
termination
proof (relation "measures [\<lambda>(eg, resynced, w). if resynced then 0 else 1, \<lambda>(eg, resynced, w). room (run_seq w)]", goal_cases)
  case (3 eg resynced w w1 y commits_again commits again w2 z u)
  have "run_seq w1 = run_seq w" using 3(1) by (auto simp: ask_def run_seq_def)
  moreover have "room (run_seq w2) < room (run_seq w1)"
    using apply_all_room [of eg commits w1 w2] 3 by auto
  ultimately show ?case by simp
qed simp_all

declare pull_loop.simps [simp del]

definition pullAll :: "('r, 'd, 'h) engine \<Rightarrow> (('d, 'r) run_world, unit) action" where
  "pullAll eg w =
    bind_w (if cur_Seq (vs_cursor (pr_state (rw_run w))) = 0 then bootstrap eg else pure_w (Inr ())) (\<lambda>_. pull_loop eg False) w"

lemma verifySnapshot_effect:
  assumes "run_at eg w" and "verifySnapshot eg head records w = (w', x)"
  shows "forward eg w w' \<and> pr_state (rw_run w') = pr_state (rw_run w) \<and> pr_base (rw_run w') = pr_base (rw_run w) \<and> wd_db w' = wd_db w \<and>
    (\<forall>vs. x = Inr vs \<longrightarrow> RestoreVaultState (eg_cr eg) (pr_vault (rw_run w)) (Some head) records = Inr vs)"
proof -
  obtain w1 y where m: "members eg (h_MembershipSeq head) w = (w1, y)" by force
  note M = forward_members [OF assms(1) m]
  then have v: "pr_vault (rw_run w1) = pr_vault (rw_run w)" by (simp add: forward_def)
  have "w' = w1"
    using assms(2) m by (auto simp: verifySnapshot_def bind_w_def of_run_def pure_w_def split: sum.split_asm)
  moreover have "RestoreVaultState (eg_cr eg) (pr_vault (rw_run w)) (Some head) records = Inr vs" if "x = Inr vs" for vs
    using assms(2) m v that
    by (auto simp: verifySnapshot_def bind_w_def of_run_def pure_w_def integ_res_Inr split: sum.split_asm)
  ultimately show ?thesis using M by blast
qed

text \<open>Landing a snapshot the state was restored from.\<close>

lemma forward_snapshot:
  assumes "run_at eg w" and "verifySnapshot eg head records w = (w1, Inr vs)" and "landAs eg c meaning vs w1 = (w2, x)"
    and "cm_Head c = head"
    and "descends (eg_cr eg) (place (vs_cursor (pr_state (rw_run w)))) (h_Seq head, sha256 (eg_cr eg) (head_preimage head)) \<or> run_seq w = 0"
  shows "forward eg w w2"
proof -
  note V = verifySnapshot_effect [OF assms(1,2)]
  have R: "h_Vault head = pr_vault (rw_run w)" "vs_vault vs = pr_vault (rw_run w)"
    "place (vs_cursor vs) = (h_Seq head, sha256 (eg_cr eg) (head_preimage head))"
    using RestoreVaultState_head V by blast+
  have w1: "run_at eg w1" "pr_vault (rw_run w1) = pr_vault (rw_run w)" "pr_state (rw_run w1) = pr_state (rw_run w)"
    using V by (auto simp: forward_def)
  from forward_landAs [OF w1(1) assms(3)] have "forward eg w1 w2"
    using R w1 assms(4,5) by (simp add: run_seq_def)
  with V forward_trans show ?thesis by blast
qed

lemma forward_ask: "run_at eg w \<Longrightarrow> ask q w = (w', x) \<Longrightarrow> forward eg w w' \<and> rw_run w' = rw_run w \<and> wd_db w' = wd_db w"
  by (auto simp: ask_def forward_def run_at_def)

lemma bootstrap_forward:
  assumes "run_at eg w" and "bootstrap eg w = (w', x)" and "run_seq w = 0"
  shows "forward eg w w'"
proof -
  obtain w1 y where a: "ask (\<lambda>n. ss_Snapshot (eg_Server eg) n (pr_vault (rw_run w))) w = (w1, y)" by force
  note A = forward_ask [OF assms(1) a]
  then have at1: "run_at eg w1" "run_seq w1 = 0" using assms(3) by (auto simp: forward_def run_seq_def)
  note defs = bootstrap_def bind_w_def of_run_def pure_w_def land_def upd_run_def
  show ?thesis
  proof (cases "case y of Inl _ \<Rightarrow> None | Inr snap \<Rightarrow> rs_Head snap")
    case None
    then have "w' = w1" using assms(2) a by (auto simp: defs split: sum.split_asm if_split_asm)
    with A show ?thesis by blast
  next
    case (Some head)
    then obtain snap where snap: "y = Inr snap" "rs_Head snap = Some head" by (auto split: sum.split_asm)
    obtain w2 z where v: "verifySnapshot eg head (rs_Records snap) w1 = (w2, z)" by force
    let ?c = "\<lparr>cm_Head = head, cm_Records = rs_Records snap, cm_Purged = []\<rparr>"
    show ?thesis
    proof (cases z)
      case (Inl err)
      then have "w' = w2" using assms(2) a snap v by (auto simp: defs)
      with verifySnapshot_effect [OF at1(1) v] A forward_trans show ?thesis by blast
    next
      case (Inr vs)
      obtain w3 t where l: "landAs eg ?c ?c vs w2 = (w3, t)" by force
      have F: "forward eg w1 w3" using forward_snapshot [OF at1(1) v [unfolded Inr] l] at1(2) by simp
      have "w' = w3 \<or> w' = w3\<lparr>rw_run := count_commit (rw_run w3)\<rparr>"
        using assms(2) a snap v Inr l by (auto simp: defs split: sum.split_asm)
      with A F forward_count forward_trans show ?thesis by blast
    qed
  qed
qed

lemma more_run:
  fixes w w' :: "('d, 'r) run_world"
  shows "world.more w' = world.more w \<Longrightarrow> rw_run w' = rw_run w"
  by (cases w; cases w') simp

text \<open>The stages of a resync that lands.\<close>

lemma resync_stages:
  assumes "run_at eg w" and "resync eg w = (w', x)"
  obtains (early) "stored_same (wd_db w) (wd_db w')" "forward eg w w'" "pr_state (rw_run w') = pr_state (rw_run w)"
      "pr_base (rw_run w') = pr_base (rw_run w)"
  | (landing) w1 w2 snap head vs t where "forward eg w w1" "wd_db w1 = wd_db w" "rw_run w1 = rw_run w" "rs_Head snap = Some head"
      "descends (eg_cr eg) (place (vs_cursor (pr_state (rw_run w)))) (h_Seq head, sha256 (eg_cr eg) (head_preimage head))"
      "verifySnapshot eg head (rs_Records snap) w1 = (w2, Inr vs)"
      "landAs eg (fst (snapshotDelta (rw_run w2) head (rs_Records snap))) (snd (snapshotDelta (rw_run w2) head (rs_Records snap))) vs w2 =
        ((if x = Inr () then t else w'), x)"
      "x = Inr () \<Longrightarrow> w' = t\<lparr>rw_run := count_commit (rw_run t)\<rparr>"
      "\<exists>n. ss_Snapshot (eg_Server eg) n (pr_vault (rw_run w)) = Inr snap"
proof -
  obtain w1 y where a: "ask (\<lambda>n. ss_Snapshot (eg_Server eg) n (pr_vault (rw_run w))) w = (w1, y)" by force
  note A = forward_ask [OF assms(1) a]
  then have at1: "run_at eg w1" by (simp add: forward_def)
  note defs = resync_def bind_w_def of_run_def pure_w_def upd_run_def Let_def
  show thesis
  proof (cases "case y of Inl _ \<Rightarrow> None | Inr snap \<Rightarrow> rs_Head snap")
    case None
    then have "w' = w1" using assms(2) a by (auto simp: defs split: sum.split_asm)
    with A early show thesis by simp
  next
    case (Some head)
    then obtain snap where snap: "y = Inr snap" "rs_Head snap = Some head" by (auto split: sum.split_asm)
    let ?cur = "vs_cursor (pr_state (rw_run w))"
    show thesis
    proof (cases "integ_res (Head_Hash (eg_cr eg) head)")
      case (Inl err)
      then have "w' = w1" using assms(2) a snap by (simp add: defs)
      with A early show thesis by simp
    next
      case hash: (Inr hash)
      then have hash_eq: "hash = sha256 (eg_cr eg) (head_preimage head)" by (auto simp: integ_res_Inr Head_Hash_eq split: if_split_asm)
      show thesis
      proof (cases "integ_opt (CheckObserved ?cur (h_Seq head) hash) \<noteq> Inr () \<or> h_Seq head = cur_Seq ?cur")
        case True
        then have "w' = w1" using assms(2) a snap hash by (cases "integ_opt (CheckObserved ?cur (h_Seq head) hash)") (auto simp: defs split: if_split_asm)
        with A early show thesis by simp
      next
        case False
        obtain w2 z where d: "checkDescends eg (pr_vault (rw_run w)) ?cur (h_Seq head) hash w1 = (w2, z)" by force
        from checkDescends_Inr [OF d] have D: "wd_db w2 = wd_db w1" "rw_run w2 = rw_run w1"
          "z = Inr () \<longrightarrow> descends (eg_cr eg) (place ?cur) (h_Seq head, hash)"
          by (auto intro: more_run)
        have F2: "forward eg w1 w2" using at1 D by (auto simp: forward_def run_at_def)
        show thesis
        proof (cases z)
          case (Inl err)
          then have "w' = w2" using assms(2) a snap hash False d by (simp add: defs)
          with A D F2 forward_trans early show thesis by (metis stored_same_refl)
        next
          case z: (Inr u)
          have at2: "run_at eg w2" using F2 by (simp add: forward_def)
          obtain w3 vsr where v: "verifySnapshot eg head (rs_Records snap) w2 = (w3, vsr)" by force
          note V = verifySnapshot_effect [OF at2 v]
          show thesis
          proof (cases vsr)
            case (Inl err)
            then have "w' = w3" using assms(2) a snap hash False d z v by (simp add: defs)
            with A D F2 V forward_trans early show thesis by (metis stored_same_refl)
          next
            case (Inr vs)
            let ?dl = "snapshotDelta (rw_run w3) head (rs_Records snap)"
            obtain w4 t where l: "landAs eg (fst ?dl) (snd ?dl) vs w3 = (w4, t)" by force
            have x: "x = t" "t = Inr () \<Longrightarrow> w' = w4\<lparr>rw_run := count_commit (rw_run w4)\<rparr>" "t \<noteq> Inr () \<Longrightarrow> w' = w4"
              using assms(2) a snap hash False d z v Inr l by (cases t; auto simp: defs split: prod.split_asm)+
            have "\<exists>n. ss_Snapshot (eg_Server eg) n (pr_vault (rw_run w)) = Inr snap" using a snap(1) by (auto simp: ask_def)
            with landing [of w2 snap head w3 vs w4] A D F2 forward_trans snap(2) z hash_eq v Inr l x
            show thesis by (cases "t = Inr ()") auto
          qed
        qed
      qed
    qed
  qed
qed

lemma resync_forward:
  assumes "run_at eg w" and "resync eg w = (w', x)"
  shows "forward eg w w'"
  using assms
proof (cases rule: resync_stages)
  case (landing w1 w2 snap head vs t)
  have at1: "run_at eg w1" using landing(1) by (simp add: forward_def)
  from forward_snapshot [OF at1 landing(6,7)] landing(3,5)
  have "forward eg w1 (if x = Inr () then t else w')" by (simp add: snapshotDelta_def Let_def)
  with landing(1,8) forward_trans forward_count show ?thesis by (cases "x = Inr ()") (auto, blast+)
qed simp

lemma pull_loop_forward:
  assumes "run_at eg w" and "pull_loop eg resynced w = (w', x)"
  shows "forward eg w w'"
  using assms
proof (induction eg resynced w rule: pull_loop.induct)
  case (1 eg resynced w)
  let ?ask = "ask (\<lambda>n. ss_Changes (eg_Server eg) n (pr_vault (rw_run w)) (cur_Seq (vs_cursor (pr_state (rw_run w)))) pullPageSize) w"
  obtain w1 y where a: "?ask = (w1, y)" by force
  note A = forward_ask [OF 1(3) a]
  then have at1: "run_at eg w1" by (simp add: forward_def)
  show ?case
  proof (cases y)
    case (Inl err)
    show ?thesis
    proof (cases "ErrHistoryPruned \<in> set err \<and> \<not> resynced")
      case False
      then have "w' = w1" using 1(4) a Inl by (auto simp: pull_loop.simps [of _ _ w] split: if_split_asm)
      with A show ?thesis by blast
    next
      case True
      obtain w2 z where r: "resync eg w1 = (w2, z)" by force
      note R = resync_forward [OF at1 r]
      show ?thesis
      proof (cases z)
        case (Inl err')
        then have "w' = w2" using 1(4) a True r \<open>y = Inl err\<close> by (simp add: pull_loop.simps [of _ _ w])
        with A R forward_trans show ?thesis by blast
      next
        case (Inr u)
        then have "pull_loop eg True w2 = (w', x)" using 1(4) a True r \<open>y = Inl err\<close> by (simp add: pull_loop.simps [of _ _ w])
        from 1(1) [OF a [symmetric] Inl _ _ r [symmetric] Inr _ this] True R have "forward eg w2 w'" by (simp add: forward_def)
        with A R forward_trans show ?thesis by blast
      qed
    qed
  next
    case (Inr page)
    obtain commits again where page: "page = (commits, again)" by force
    obtain w2 z where r: "apply_all eg commits w1 = (w2, z)" by force
    note R = apply_all_forward [OF at1 r]
    show ?thesis
    proof (cases "z = Inr () \<and> again \<and> commits \<noteq> []")
      case False
      then have "w' = w2" using 1(4) a Inr page r by (auto simp: pull_loop.simps [of _ _ w] split: sum.split_asm if_split_asm)
      with A R forward_trans show ?thesis by blast
    next
      case True
      then have run: "pull_loop eg resynced w2 = (w', x)" using 1(4) a Inr page r by (simp add: pull_loop.simps [of _ _ w])
      from 1(2) [OF a [symmetric] Inr page [symmetric] r [symmetric] _ _ _ run] True R have "forward eg w2 w'" by (simp add: forward_def)
      with A R forward_trans show ?thesis by blast
    qed
  qed
qed

lemma pullAll_forward:
  assumes "run_at eg w" and "pullAll eg w = (w', x)"
  shows "forward eg w w'"
proof (cases "run_seq w = 0")
  case False
  with assms pull_loop_forward show ?thesis by (auto simp: pullAll_def bind_w_def pure_w_def run_seq_def)
next
  case True
  obtain w1 y where b: "bootstrap eg w = (w1, y)" by force
  note B = bootstrap_forward [OF assms(1) b True]
  then have "run_at eg w1" by (simp add: forward_def)
  with assms(2) True b B pull_loop_forward forward_trans show ?thesis
    by (cases y) (auto simp: pullAll_def bind_w_def run_seq_def, blast)
qed

section \<open>Starting a pull\<close>

definition labelPersonalVault :: string where "labelPersonalVault = ''xqs-sync/v1/personal-vault''"

definition PersonalVaultID :: "crypto \<Rightarrow> ID \<Rightarrow> ID" where
  "PersonalVaultID cr account = id_of_bytes (take IDSize (be_bytes (sha256 cr (str_bytes labelPersonalVault @ be_bytes account))))"

definition scopeOf :: "('r, 'd, 'h) engine \<Rightarrow> ID \<Rightarrow> string" where
  "scopeOf eg vault = (if vault = PersonalVaultID (eg_cr eg) (kr_Account (eg_Keys eg)) then [] else ID_String vault)"

definition requireJoined :: "('r, 'd, 'h) engine \<Rightarrow> ID \<Rightarrow> (('d, 'z) world_scheme, unit) action" where
  "requireJoined eg vault w = (w, if scopeOf eg vault = [] then Inr () else eg_requireJoined eg vault (wd_data w) (wd_db w))"

definition vaultTrust :: "('r, 'd, 'h) engine \<Rightarrow> ID \<Rightarrow> DeviceLogState \<Rightarrow>
    (('d, 'z) world_scheme, DeviceResolver \<times> SignatureCheck \<times> MemberOp list) action" where
  "vaultTrust eg vault own =
    (if scopeOf eg vault = []
     then (let resolve = resolver (eg_Keys eg) own; check = resolver_check (eg_cr eg) resolve in
       bind_w (verifiedMembership (eg_cr eg) (eg_Server eg) vault check) (\<lambda>ops. pure_w (Inr (resolve, check, ops))))
     else pure_w (eg_teamTrust eg vault own))"

definition indexEnvelopes :: "Envelope list \<Rightarrow> (ID, Envelope) go_map" where
  "indexEnvelopes records = fold (\<lambda>e. fmupd (e_Record e) e) records fmempty"

definition newDevices :: "DeviceEntry list \<Rightarrow> ID \<Rightarrow> DeviceCert list" where
  "newDevices news self =
    concat (map (\<lambda>e. if d_Op e = OpAddDevice then (case d_Cert e of None \<Rightarrow> [] | Some c \<Rightarrow> if c_Device c \<noteq> self then [c] else []) else []) news)"

definition heldDeletions :: "state_db \<Rightarrow> ID \<Rightarrow> (ID, bool) go_map" where
  "heldDeletions d vault = fold (\<lambda>q. if qi_Pending q \<and> e_Deleted (qi_Envelope q) then fmupd (e_Record (qi_Envelope q)) True else id)
     (Quarantined d vault) fmempty"

definition new_run :: "('r, 'd, 'h) engine \<Rightarrow> ID \<Rightarrow> DeviceEntry list \<Rightarrow> DeviceResolver \<Rightarrow> SignatureCheck \<Rightarrow> MemberOp list \<Rightarrow>
    StoredVault \<Rightarrow> VaultState \<Rightarrow> (ID, bool) go_map \<Rightarrow> nat \<Rightarrow> 'r pullRun" where
  "new_run eg vault news resolve check ops stored vs held clock =
    \<lparr>pr_vault = vault, pr_ops = ops, pr_members = \<lparr>mc_vault = vault, mc_ops = ops, mc_check = check, mc_state = None\<rparr>,
     pr_resolve = resolve, pr_state = vs, pr_base = indexEnvelopes (sto_Records stored), pr_names = fmempty,
     pr_bodies = fmempty, pr_namingKey = None,
     pr_report = \<lparr>rp_Commits = 0, rp_Applied = 0, rp_Held = 0, rp_Quarantined = 0, rp_MembershipSeq = length ops,
       rp_NewDevices = newDevices news (kr_Device (eg_Keys eg))\<rparr>,
     pr_scope = scopeOf eg vault, pr_landed = sto_LandedAt stored, pr_preferRemote = False, pr_heldDeletions = held, pr_clock = clock\<rparr>"

definition startPull :: "('r, 'd, 'h) engine \<Rightarrow> ID \<Rightarrow> (('d, 'z) world_scheme, 'r pullRun) action" where
  "startPull eg vault =
    bind_w (requireJoined eg vault) (\<lambda>_.
    bind_w (verifiedDeviceLog (eg_cr eg) (eg_Keys eg) (eg_Server eg)) (\<lambda>(dl, news).
    bind_w (vaultTrust eg vault dl) (\<lambda>(resolve, check, ops).
    bind_w (read_db (\<lambda>d. LoadVault d vault)) (\<lambda>stored.
    bind_w (pure_w (integ_res (RestoreVaultState (eg_cr eg) vault (sto_Head stored) (sto_Records stored)))) (\<lambda>vs.
    bind_w (read_db (\<lambda>d. heldDeletions d vault)) (\<lambda>held w.
      let p = new_run eg vault news resolve check ops stored vs held (wd_clock w) in
      pure_w (case fmlookup (pr_base p) (VaultMetaID (eg_cr eg) vault) of
           None \<Rightarrow> Inr p
         | Some meta \<Rightarrow> learnMeta eg meta p) w))))))"

definition no_report :: PullReport where
  "no_report = \<lparr>rp_Commits = 0, rp_Applied = 0, rp_Held = 0, rp_Quarantined = 0, rp_MembershipSeq = 0, rp_NewDevices = []\<rparr>"

definition with_run :: "'d world \<Rightarrow> 'r pullRun \<Rightarrow> ('d, 'r) run_world" where
  "with_run w p = \<lparr>wd_tick = wd_tick w, wd_db = wd_db w, wd_data = wd_data w, wd_clock = wd_clock w, rw_run = p\<rparr>"

definition world_of :: "('d, 'r) run_world \<Rightarrow> 'd world" where
  "world_of w = \<lparr>wd_tick = wd_tick w, wd_db = wd_db w, wd_data = wd_data w, wd_clock = pr_clock (rw_run w)\<rparr>"

definition run_pull :: "('r, 'd, 'h) engine \<Rightarrow> ID \<Rightarrow> bool \<Rightarrow> 'd world \<Rightarrow> 'd world \<times> PullReport \<times> unit sync_result" where
  "run_pull eg vault adopt w =
    (case startPull eg vault w of
       (w, Inl err) \<Rightarrow> (w, no_report, Inl err)
     | (w, Inr p) \<Rightarrow> (case pullAll eg (with_run w (p\<lparr>pr_preferRemote := adopt\<rparr>)) of (w, x) \<Rightarrow> (world_of w, pr_report (rw_run w), x)))"

definition Pull :: "('r, 'd, 'h) engine \<Rightarrow> ID \<Rightarrow> 'd world \<Rightarrow> 'd world \<times> PullReport \<times> unit sync_result" where
  "Pull eg vault = run_pull eg vault False"

definition AdoptRemote :: "('r, 'd, 'h) engine \<Rightarrow> ID \<Rightarrow> 'd world \<Rightarrow> 'd world \<times> PullReport \<times> unit sync_result" where
  "AdoptRemote eg vault = run_pull eg vault True"

section \<open>What starting a pull changes\<close>

text \<open>Before anything is pulled, the logs may have grown; the stored vaults are as they were.\<close>

definition only_logs :: "state_db \<Rightarrow> state_db \<Rightarrow> bool" where
  "only_logs d d' \<longleftrightarrow> tb_heads d' = tb_heads d \<and> tb_records d' = tb_records d \<and> tb_outbox d' = tb_outbox d \<and> tb_quarantine d' = tb_quarantine d"

lemma only_logs_refl [simp]: "only_logs d d"
  by (simp add: only_logs_def)

lemma only_logs_trans: "only_logs d d' \<Longrightarrow> only_logs d' d'' \<Longrightarrow> only_logs d d''"
  by (simp add: only_logs_def)

lemma Append_only_logs: "AppendDeviceLog es d = Inr d' \<Longrightarrow> only_logs d d'" "AppendMembership ops d = Inr d' \<Longrightarrow> only_logs d d'"
  by (auto simp: AppendDeviceLog_def AppendMembership_def result_simps only_logs_def)

lemma verifiedDeviceLog_only_logs:
  assumes "verifiedDeviceLog cr kr sv w = (w', x)"
  shows "only_logs (wd_db w) (wd_db w')"
proof (cases x)
  case (Inl err)
  with assms verifiedDeviceLog_refused show ?thesis by (metis only_logs_refl)
next
  case (Inr y)
  obtain dl news where y: "y = (dl, news)" by force
  obtain a b c where keys: "kr_AccountKeys kr = (a, b, c)" by (cases "kr_AccountKeys kr")
  obtain d where "AppendDeviceLog news (wd_db w) = Inr d" "w' = w\<lparr>wd_tick := Suc (wd_tick w), wd_db := d\<rparr>"
    using verifiedDeviceLog_Inr [OF assms [unfolded Inr y] keys] by blast
  then have "AppendDeviceLog news (wd_db w) = Inr (wd_db w')" by simp
  with Append_only_logs(1) show ?thesis by blast
qed

lemma verifiedMembership_only_logs:
  assumes "verifiedMembership cr sv v check w = (w', x)"
  shows "only_logs (wd_db w) (wd_db w')"
proof (cases x)
  case (Inl err)
  with assms have "wd_db w' = wd_db w" by (auto simp: verifiedMembership_def refused_simps)
  then show ?thesis by simp
next
  case (Inr y)
  with assms show ?thesis
    by (auto simp: verifiedMembership_def bind_w_Inr simple_actions dest: Append_only_logs(2))
qed

lemma startPull_Inr:
  assumes "startPull eg vault w = (w', Inr p)"
  obtains w1 dl news w2 resolve check ops vs where
    "verifiedDeviceLog (eg_cr eg) (eg_Keys eg) (eg_Server eg) w = (w1, Inr (dl, news))"
    "vaultTrust eg vault dl w1 = (w', Inr (resolve, check, ops))"
    "RestoreVaultState (eg_cr eg) vault (sto_Head (LoadVault (wd_db w') vault)) (sto_Records (LoadVault (wd_db w') vault)) = Inr vs"
    "core p = (vault, ops, \<lparr>mc_vault = vault, mc_ops = ops, mc_check = check, mc_state = None\<rparr>, resolve, vs,
      indexEnvelopes (sto_Records (LoadVault (wd_db w') vault)), scopeOf eg vault)"
    "pr_bodies p = fmempty"
proof -
  from assms obtain w1 dl news resolve check ops vs where
    steps: "verifiedDeviceLog (eg_cr eg) (eg_Keys eg) (eg_Server eg) w = (w1, Inr (dl, news))"
    "vaultTrust eg vault dl w1 = (w', Inr (resolve, check, ops))"
    "RestoreVaultState (eg_cr eg) vault (sto_Head (LoadVault (wd_db w') vault)) (sto_Records (LoadVault (wd_db w') vault)) = Inr vs"
    and p: "(let q = new_run eg vault news resolve check ops (LoadVault (wd_db w') vault) vs (heldDeletions (wd_db w') vault) (wd_clock w') in
      case fmlookup (pr_base q) (VaultMetaID (eg_cr eg) vault) of None \<Rightarrow> Inr q | Some meta \<Rightarrow> learnMeta eg meta q) = Inr p"
    unfolding startPull_def
    by (auto simp: bind_w_Inr simple_actions requireJoined_def integ_res_Inr Let_def split: prod.split_asm)
  have "core p = core (new_run eg vault news resolve check ops (LoadVault (wd_db w') vault) vs (heldDeletions (wd_db w') vault) (wd_clock w')) \<and> pr_bodies p = fmempty"
    using p by (auto simp: Let_def learnMeta_def new_run_def core_def split: option.split_asm if_split_asm sum.split_asm)
  with that steps show thesis by (simp add: core_def new_run_def)
qed

lemma vaultTrust_only_logs: "vaultTrust eg v dl w = (w', x) \<Longrightarrow> only_logs (wd_db w) (wd_db w')"
  by (auto simp: vaultTrust_def Let_def pure_w_def bind_w_def split: if_split_asm prod.split_asm sum.split_asm
      dest: verifiedMembership_only_logs)

lemma startPull_only_logs:
  assumes "startPull eg vault w = (w', x)"
  shows "only_logs (wd_db w) (wd_db w')"
proof -
  obtain w1 y where d: "verifiedDeviceLog (eg_cr eg) (eg_Keys eg) (eg_Server eg) w = (w1, y)" by force
  note D = verifiedDeviceLog_only_logs [OF d]
  note defs = startPull_def bind_w_def requireJoined_def read_db_def pure_w_def
  show ?thesis
  proof (cases "snd (requireJoined eg vault w)")
    case (Inl err)
    with assms have "w' = w" by (simp add: defs)
    then show ?thesis by simp
  next
    case joined: (Inr u)
    show ?thesis
    proof (cases y)
      case (Inl err)
      with assms joined d have "w' = w1" by (simp add: defs)
      with D show ?thesis by simp
    next
      case (Inr z)
      obtain dl news where z: "z = (dl, news)" by force
      obtain w2 t where v: "vaultTrust eg vault dl w1 = (w2, t)" by force
      have "w' = w2" using assms joined d v Inr z by (cases t) (auto simp: defs Let_def split: sum.split_asm)
      with D vaultTrust_only_logs [OF v] only_logs_trans show ?thesis by blast
    qed
  qed
qed

lemma run_at_start:
  assumes "startPull eg vault w = (w1, Inr p)"
  shows "run_at eg (with_run w1 (p\<lparr>pr_preferRemote := adopt\<rparr>)) \<and> pr_vault p = vault"
  using assms
proof (rule startPull_Inr)
  fix resolve check ops vs
  assume vs: "RestoreVaultState (eg_cr eg) vault (sto_Head (LoadVault (wd_db w1) vault)) (sto_Records (LoadVault (wd_db w1) vault)) = Inr vs"
    and p: "core p = (vault, ops, \<lparr>mc_vault = vault, mc_ops = ops, mc_check = check, mc_state = None\<rparr>, resolve, vs,
      indexEnvelopes (sto_Records (LoadVault (wd_db w1) vault)), scopeOf eg vault)"
  have "vs_vault vs = vault \<and> place (vs_cursor vs) = position (eg_cr eg) (wd_db w1) vault"
  proof (cases "fmlookup (tb_heads (wd_db w1)) vault")
    case None
    with vs show ?thesis
      by (auto simp: LoadVault_def RestoreVaultState_def RestoreVaultStateFromLeaves_def result_simps NewVaultState_Inr place_def position_def)
  next
    case (Some h)
    with vs RestoreVaultState_head [of "eg_cr eg" vault h] show ?thesis by (auto simp: LoadVault_def position_def)
  qed
  with p show ?thesis by (auto simp: run_at_def with_run_def core_def cursor_ok_def)
qed

lemma only_logs_Load: "only_logs d d' \<Longrightarrow> LoadVault d' = LoadVault d \<and> position cr d' = position cr d"
  by (auto simp: only_logs_def LoadVault_def position_def landedAt_def fun_eq_iff split: option.split)

section \<open>Properties\<close>

text \<open>No server can take a device back: whatever it answers to a pull of a vault, with whatever records and keys
  are in play, and whether the pull succeeds or fails half way, the head this device has stored afterwards lies at the
  same position or further on, reached from the one before by heads that each name the hash of the head before it -
  across a resync from a snapshot too. Only a device that has verified nothing yet may be started anywhere. The other
  vaults are not touched.\<close>

theorem pull_never_rolls_back:
  "case run_pull eg vault adopt w of (w', report, x) \<Rightarrow>
    reaches (eg_cr eg) (position (eg_cr eg) (wd_db w) vault) (position (eg_cr eg) (wd_db w') vault) \<and>
    (\<forall>u. u = vault \<or> LoadVault (wd_db w') u = LoadVault (wd_db w) u)"
proof -
  obtain w1 y where s: "startPull eg vault w = (w1, y)" by force
  note L = only_logs_Load [OF startPull_only_logs [OF s], of "eg_cr eg"]
  show ?thesis
  proof (cases y)
    case (Inl err)
    with s L show ?thesis by (simp add: run_pull_def)
  next
    case (Inr p)
    obtain w2 x where a: "pullAll eg (with_run w1 (p\<lparr>pr_preferRemote := adopt\<rparr>)) = (w2, x)" by force
    note R = run_at_start [OF s [unfolded Inr], of adopt]
    from pullAll_forward [OF _ a] R have "forward eg (with_run w1 (p\<lparr>pr_preferRemote := adopt\<rparr>)) w2" by blast
    with s L a Inr R show ?thesis by (auto simp: run_pull_def forward_def with_run_def world_of_def)
  qed
qed

end
