(* ===== verification/Sync_Verified.thy ===== *)
theory Sync_Verified
  imports Sync_Pull
begin

text \<open>
  What a device has stored of a vault can be read back: the stored records reproduce the root of the stored head, which
  is what \<open>startPull\<close> checks first of all (\<open>usecase/sync_pull.go\<close>). Applying commits and starting from a snapshot keep
  this; a resync keeps it only when no record of the snapshot has the version of a stored one and another content.
\<close>

definition restorable :: "crypto \<Rightarrow> state_db \<Rightarrow> ID \<Rightarrow> bool" where
  "restorable cr d v \<longleftrightarrow> is_ok (RestoreVaultState cr v (sto_Head (LoadVault d v)) (sto_Records (LoadVault d v)))"

section \<open>Runs on a verified vault\<close>

definition run_ok :: "('r, 'd, 'h) engine \<Rightarrow> ('d, 'r) run_world \<Rightarrow> bool" where
  "run_ok eg w \<longleftrightarrow> run_at eg w \<and> db_ok (wd_db w) \<and> verified (eg_cr eg) (wd_db w) (pr_state (rw_run w)) \<and>
    pr_base (rw_run w) = fmmap fst (rows_of (tb_records (wd_db w)) (pr_vault (rw_run w)))"

lemma run_ok_restorable: "run_ok eg w \<Longrightarrow> restorable (eg_cr eg) (wd_db w) (pr_vault (rw_run w))"
  by (auto simp: run_ok_def run_at_def restorable_def verified_def is_ok_def)

lemma stored_same_verified: "stored_same d d' \<Longrightarrow> verified cr d' s = verified cr d s \<and> db_ok d' = db_ok d"
  using verified_same [of d' d] by (simp add: stored_same_def)

lemma run_ok_same:
  assumes "run_ok eg w" and "forward eg w w'" and "stored_same (wd_db w) (wd_db w')"
    and "pr_state (rw_run w') = pr_state (rw_run w)" and "pr_base (rw_run w') = pr_base (rw_run w)"
  shows "run_ok eg w'"
  using assms stored_same_verified [OF assms(3)] by (simp add: run_ok_def forward_def stored_same_def)

text \<open>Landing what a state was reached by: the stored vault restores to that state.\<close>

lemma run_ok_landAs:
  assumes "run_ok eg w" and "landAs eg c meaning vs w = (w', x)" and "forward eg w w'"
    and "h_Vault (cm_Head c) = pr_vault (rw_run w)"
    and "\<And>d d'. stored_same (wd_db w) d \<Longrightarrow> AdvanceVault (cm_Head c) (cm_Records c) (cm_Purged c) d = Inr d' \<Longrightarrow> verified (eg_cr eg) d' vs"
  shows "run_ok eg w'"
proof (cases x)
  case (Inl err)
  with landAs_effect [OF assms(2)] have e: "stored_same (wd_db w) (wd_db w')" "core (rw_run w') = core (rw_run w)" by auto
  then show ?thesis using run_ok_same [OF assms(1,3) e(1)] by (simp add: core_def)
next
  case (Inr u)
  with landAs_effect [OF assms(2)] obtain d where d: "stored_same (wd_db w) d"
    "AdvanceVault (cm_Head c) (cm_Records c) (cm_Purged c) d = Inr (wd_db w')" "core (rw_run w') = core (advance vs c (rw_run w))" by auto
  have ok: "db_ok d" using assms(1) stored_same_verified [OF d(1)] by (simp add: run_ok_def)
  have run: "pr_state (rw_run w') = vs" "pr_vault (rw_run w') = pr_vault (rw_run w)"
    and base: "pr_base (rw_run w') = fmfilter (\<lambda>i. i \<notin> set (cm_Purged c)) (fold (\<lambda>r. fmupd (e_Record r) r) (cm_Records c) (pr_base (rw_run w)))"
    using d(3) [unfolded advance_core] unfolding core_def prod.inject by blast+
  have old: "pr_base (rw_run w) = fmmap fst (rows_of (tb_records d) (h_Vault (cm_Head c)))"
    using assms(1,4) d(1) by (simp add: run_ok_def stored_same_def)
  have "pr_base (rw_run w') = fmmap fst (rows_of (tb_records (wd_db w')) (pr_vault (rw_run w')))"
    using AdvanceVault_base [OF d(2)] unfolding base old run assms(4) by (rule sym)
  then show ?thesis
    using run AdvanceVault_db_ok [OF d(2) ok] assms(3,5) d(1,2) unfolding run_ok_def by (simp add: forward_def)
qed

lemma run_ok_count: "run_ok eg w \<Longrightarrow> run_ok eg (w\<lparr>rw_run := count_commit (rw_run w)\<rparr>)"
  by (simp add: run_ok_def run_at_def count_commit_def)

lemma run_ok_members:
  assumes "run_ok eg w" and "members eg seq w = (w', x)"
  shows "run_ok eg w'"
proof -
  have "run_at eg w" using assms(1) by (simp add: run_ok_def)
  from forward_members [OF this assms(2)] run_ok_same [OF assms(1), of w'] show ?thesis by auto
qed

lemma applyCommit_run_ok:
  assumes "run_ok eg w" and "applyCommit eg c w = (w', x)"
  shows "run_ok eg w'"
proof -
  have land: "run_ok eg w2" if m: "members eg seq w = (w1, Inr ms)"
    and vs: "ApplyCommit (eg_cr eg) (pr_state (rw_run w1)) (rc_Commit c) ms (pr_resolve (rw_run w1)) = Inr vs"
    and l: "landAs eg (rc_Commit c) (rc_Commit c) vs w1 = (w2, z)" for seq w1 ms vs w2 z
  proof (rule run_ok_landAs [OF _ l])
    show ok1: "run_ok eg w1" using run_ok_members [OF assms(1) m] .
    note P = ApplyCommit_place [OF vs]
    have v: "vs_vault (pr_state (rw_run w1)) = pr_vault (rw_run w1)" "run_at eg w1" using ok1 by (auto simp: run_ok_def run_at_def)
    with forward_landAs [OF _ l] P show "forward eg w1 w2" by auto
    show "h_Vault (cm_Head (rc_Commit c)) = pr_vault (rw_run w1)" using P v by simp
    show "verified (eg_cr eg) d' vs" if d: "stored_same (wd_db w1) d"
      "AdvanceVault (cm_Head (rc_Commit c)) (cm_Records (rc_Commit c)) (cm_Purged (rc_Commit c)) d = Inr d'" for d d'
      using verified_commit [OF _ _ vs d(2)] ok1 stored_same_verified [OF d(1)] by (simp add: run_ok_def)
  qed
  from assms(2) show ?thesis
    by (cases rule: applyCommit_stages) (use assms(1) run_ok_members land run_ok_count in blast)+
qed

lemma apply_all_run_ok: "run_ok eg w \<Longrightarrow> apply_all eg cs w = (w', x) \<Longrightarrow> run_ok eg w'"
proof (induction cs arbitrary: w)
  case (Cons c cs)
  obtain w1 y where a: "applyCommit eg c w = (w1, y)" by force
  with Cons applyCommit_run_ok [OF Cons.prems(1) a] show ?case by (cases y) (auto simp: bind_w_def)
qed (simp add: pure_w_def)

section \<open>Snapshots\<close>

text \<open>A stored vault restores to what a list of records restores to, when every stored row has the leaf of one of them and
  every one of them has a row.\<close>

lemma verified_restore:
  assumes "db_ok d" and "fmlookup (tb_heads d) v = Some h" and "RestoreVaultState cr v (Some h) es = Inr s"
    and "\<And>r x. fmlookup (rows_of (tb_records d) v) r = Some x \<Longrightarrow> \<exists>e \<in> set es. e_Record e = r \<and> LeafOf cr (fst x) = LeafOf cr e"
    and "\<And>e. e \<in> set es \<Longrightarrow> fmlookup (rows_of (tb_records d) v) (e_Record e) \<noteq> None"
  shows "verified cr d s"
proof -
  from assms(3) obtain ls where ls: "record_leaves cr v es = Inr ls" "RestoreVaultStateFromLeaves cr v (Some h) ls = Inr s"
    by (auto simp: RestoreVaultState_def result_simps split: if_split_asm)
  from ls(2) have s: "keyed s" "mset (VaultState_Leaves s) = mset ls" "MerkleRoot cr ls = Inr (h_MerkleRoot h)" "head_fits h" "vs_vault s = v"
    "vs_cursor s = \<lparr>cur_Seq = h_Seq h, cur_Hash = sha256 cr (head_preimage h), cur_MembershipSeq = h_MembershipSeq h\<rparr>"
    unfolding RestoreFromLeaves_Inr by blast+
  have pair: "list_all2 (\<lambda>e l. e_Vault e = v \<and> LeafOf cr e = Inr l) es ls" using ls(1) by (simp add: record_leaves_Inr)
  have set_ls: "set ls = set (VaultState_Leaves s)" using s(2) mset_eq_setD by metis
  have leaf: "\<exists>l. LeafOf cr e = Inr l \<and> fmlookup (vs_leaves s) (e_Record e) = Some l" if "e \<in> set es" for e
    using list_all2_partner [OF pair that] set_ls Leaves_lookup [OF s(1)] LeafOf_Inr [of cr e] by metis
  have "rel_option (\<lambda>x l. LeafOf cr (fst x) = Inr l) (fmlookup (rows_of (tb_records d) v) r) (fmlookup (vs_leaves s) r)" for r
  proof (cases "fmlookup (rows_of (tb_records d) v) r")
    case (Some x)
    from assms(4) [OF Some] obtain e where e: "e \<in> set es" "e_Record e = r" "LeafOf cr (fst x) = LeafOf cr e" by blast
    with leaf [OF e(1)] Some show ?thesis by auto
  next
    case None
    have "fmlookup (vs_leaves s) r = None"
    proof (rule ccontr)
      assume "fmlookup (vs_leaves s) r \<noteq> None"
      then obtain l where "l \<in> set ls" "l_Record l = r" using Leaves_lookup [OF s(1)] set_ls by auto
      with list_all2_partner [OF pair [THEN list_all2_swap]] obtain e where "e \<in> set es" "LeafOf cr e = Inr l" by blast
      with assms(5) [of e] LeafOf_Inr [of cr e l] None \<open>l_Record l = r\<close> show False by simp
    qed
    with None show ?thesis by simp
  qed
  then have "mirrors cr (rows_of (tb_records d) v) (vs_leaves s)" by (simp add: mirrors_def)
  then show ?thesis
    using verified_Some [of d s h cr] assms(1,2) s MerkleRoot_perm [OF s(2), of cr] by simp
qed

lemma RestoreVaultState_distinct: "RestoreVaultState cr v (Some h) es = Inr s \<Longrightarrow> distinct (map e_Record es)"
proof -
  assume "RestoreVaultState cr v (Some h) es = Inr s"
  then obtain ls where ls: "record_leaves cr v es = Inr ls" "RestoreVaultStateFromLeaves cr v (Some h) ls = Inr s"
    by (auto simp: RestoreVaultState_def result_simps split: if_split_asm)
  from ls(2) have "keyed s" "mset (VaultState_Leaves s) = mset ls" unfolding RestoreFromLeaves_Inr by blast+
  then have "distinct (map l_Record ls)"
    using Leaves_distinct [of s] mset_eq_imp_distinct_iff [of "map l_Record ls" "map l_Record (VaultState_Leaves s)"] by (metis mset_map)
  moreover have "list_all2 (\<lambda>e l. e_Record e = l_Record l) es ls"
    using ls(1) unfolding record_leaves_Inr by (rule list_all2_mono) (auto dest: LeafOf_Inr)
  then have "map e_Record es = map l_Record ls" by (induction rule: list_all2_induct) auto
  ultimately show ?thesis by simp
qed

text \<open>Starting from a snapshot: nothing was stored before.\<close>

lemma verified_bootstrap:
  assumes "db_ok d" and "fmlookup (tb_heads d) v = None" and "RestoreVaultState cr v (Some h) es = Inr s"
    and "AdvanceVault h es [] d = Inr d'"
  shows "verified cr d' s"
proof -
  have hv: "h_Vault h = v" using RestoreVaultState_head [OF assms(3)] by simp
  from assms(4) obtain rows where rows: "put_records h es (rows_of (tb_records d) v) = Inr rows"
    and d': "d' = d\<lparr>tb_records := fmupd v (fmfilter (\<lambda>i. i \<notin> set []) rows) (tb_records d), tb_heads := fmupd v h (tb_heads d)\<rparr>"
    unfolding hv [symmetric] by (rule AdvanceVault_Inr)
  have empty: "rows_of (tb_records d) v = fmempty" using assms(1,2) by (simp add: db_ok_def)
  note dist = RestoreVaultState_distinct [OF assms(3)]
  have look: "fmlookup (rows_of (tb_records d') v) r = fmlookup rows r" for r by (simp add: d')
  show ?thesis
  proof (rule verified_restore [OF AdvanceVault_db_ok [OF assms(4,1)] _ assms(3)])
    show "fmlookup (tb_heads d') v = Some h" by (simp add: d')
    show "\<exists>e \<in> set es. e_Record e = r \<and> LeafOf cr (fst x) = LeafOf cr e" if "fmlookup (rows_of (tb_records d') v) r = Some x" for r x
      using put_records_origin [OF rows, of r "fst x" "snd x"] that empty by (auto simp: look)
    show "fmlookup (rows_of (tb_records d') v) (e_Record e) \<noteq> None" if "e \<in> set es" for e
      using put_records_new [OF rows dist that] by (simp add: look)
  qed
qed

lemma bootstrap_run_ok:
  assumes "run_ok eg w" and "bootstrap eg w = (w', x)" and "run_seq w = 0" and "fmlookup (tb_heads (wd_db w)) (pr_vault (rw_run w)) = None"
  shows "run_ok eg w'"
proof -
  have at: "run_at eg w" using assms(1) by (simp add: run_ok_def)
  obtain w1 y where a: "ask (\<lambda>n. ss_Snapshot (eg_Server eg) n (pr_vault (rw_run w))) w = (w1, y)" by force
  note A = forward_ask [OF at a]
  then have ok1: "run_ok eg w1" using run_ok_same [OF assms(1), of w1] by auto
  then have at1: "run_at eg w1" "run_seq w1 = 0" using A assms(3) by (auto simp: run_ok_def run_seq_def)
  note defs = bootstrap_def bind_w_def of_run_def pure_w_def land_def upd_run_def
  show ?thesis
  proof (cases "case y of Inl _ \<Rightarrow> None | Inr snap \<Rightarrow> rs_Head snap")
    case None
    then have "w' = w1" using assms(2) a by (auto simp: defs split: sum.split_asm if_split_asm)
    with ok1 show ?thesis by simp
  next
    case (Some head)
    then obtain snap where snap: "y = Inr snap" "rs_Head snap = Some head" by (auto split: sum.split_asm)
    obtain w2 z where v: "verifySnapshot eg head (rs_Records snap) w1 = (w2, z)" by force
    note V = verifySnapshot_effect [OF at1(1) v]
    then have ok2: "run_ok eg w2" using run_ok_same [OF ok1, of w2] by auto
    let ?c = "\<lparr>cm_Head = head, cm_Records = rs_Records snap, cm_Purged = []\<rparr>"
    show ?thesis
    proof (cases z)
      case (Inl err)
      then have "w' = w2" using assms(2) a snap v by (auto simp: defs)
      with ok2 show ?thesis by simp
    next
      case (Inr vs)
      obtain w3 t where l: "landAs eg ?c ?c vs w2 = (w3, t)" by force
      have R: "RestoreVaultState (eg_cr eg) (pr_vault (rw_run w)) (Some head) (rs_Records snap) = Inr vs" using V Inr A by auto
      have v2: "pr_vault (rw_run w2) = pr_vault (rw_run w)" "wd_db w2 = wd_db w" "run_seq w2 = 0"
        using V A at1(2) by (auto simp: forward_def run_seq_def)
      have "run_ok eg w3"
      proof (rule run_ok_landAs [OF ok2 l])
        note H = RestoreVaultState_head [OF R]
        have at2: "run_at eg w2" using ok2 by (simp add: run_ok_def)
        show "forward eg w2 w3" using forward_landAs [OF at2 l] H v2 by (simp add: run_seq_def)
        show "h_Vault (cm_Head ?c) = pr_vault (rw_run w2)" using H v2 by simp
        show "verified (eg_cr eg) d' vs" if d: "stored_same (wd_db w2) d" "AdvanceVault (cm_Head ?c) (cm_Records ?c) (cm_Purged ?c) d = Inr d'" for d d'
          using verified_bootstrap [OF _ _ R, of d d'] d v2(2) assms(1,4) stored_same_verified [OF d(1)]
          by (simp add: run_ok_def stored_same_def)
      qed
      moreover have "w' = w3 \<or> w' = w3\<lparr>rw_run := count_commit (rw_run w3)\<rparr>"
        using assms(2) a snap v Inr l by (auto simp: defs split: sum.split_asm)
      ultimately show ?thesis using run_ok_count by blast
    qed
  qed
qed

section \<open>A resync\<close>

lemma snapshotDelta_records:
  assumes "snapshotDelta p head records = (c, meaning)"
  shows "cm_Head c = head" and "set (cm_Purged c) = fset (fmdom (pr_base p)) - e_Record ` set records"
    and "cm_Records c = filter (\<lambda>r. case fmlookup (pr_base p) (e_Record r) of None \<Rightarrow> True | Some b \<Rightarrow> e_Version b \<noteq> e_Version r) records"
  using assms by (auto simp: snapshotDelta_def Let_def sorted_list_of_fset.rep_eq)

text \<open>The rows a resync leaves: for every record of the snapshot its own envelope, or the stored one when the version
  is the same.\<close>

lemma verified_resync:
  assumes "db_ok d" and "RestoreVaultState cr v (Some h) es = Inr s" and "snapshotDelta p h es = (c, meaning)"
    and "pr_base p = fmmap fst (rows_of (tb_records d) v)" and "AdvanceVault (cm_Head c) (cm_Records c) (cm_Purged c) d = Inr d'"
    and "\<And>e b. e \<in> set es \<Longrightarrow> fmlookup (pr_base p) (e_Record e) = Some b \<Longrightarrow> e_Version b = e_Version e \<Longrightarrow> LeafOf cr b = LeafOf cr e"
  shows "verified cr d' s"
proof -
  note D = snapshotDelta_records [OF assms(3)]
  have hv: "h_Vault h = v" using RestoreVaultState_head [OF assms(2)] by simp
  let ?rows = "rows_of (tb_records d) v" let ?moved = "cm_Records c"
  from assms(5) obtain rows where rows: "put_records h ?moved ?rows = Inr rows"
    and d': "d' = d\<lparr>tb_records := fmupd v (fmfilter (\<lambda>i. i \<notin> set (cm_Purged c)) rows) (tb_records d), tb_heads := fmupd v h (tb_heads d)\<rparr>"
    unfolding D(1) hv [symmetric] by (rule AdvanceVault_Inr)
  have dist: "distinct (map e_Record ?moved)" using RestoreVaultState_distinct [OF assms(2)] by (simp add: D(3) distinct_map_filter)
  have sub: "set ?moved \<subseteq> set es" by (auto simp: D(3))
  have base: "fmlookup (pr_base p) i = map_option fst (fmlookup ?rows i)" for i by (simp add: assms(4))
  have look: "fmlookup (rows_of (tb_records d') v) i = (if i \<in> set (cm_Purged c) then None else fmlookup rows i)" for i by (simp add: d')
  have stay: "\<exists>t. fmlookup rows (e_Record e) = Some (e, t) \<or> (\<exists>b. fmlookup rows (e_Record e) = Some (b, t) \<and> LeafOf cr b = LeafOf cr e)" if e: "e \<in> set es" for e
  proof (cases "e \<in> set ?moved")
    case True
    with put_records_new [OF rows dist] show ?thesis by blast
  next
    case False
    then obtain b where b: "fmlookup (pr_base p) (e_Record e) = Some b" "e_Version b = e_Version e"
      using e by (auto simp: D(3) split: option.split_asm)
    then obtain t where t: "fmlookup ?rows (e_Record e) = Some (b, t)" by (auto simp: base)
    have "e_Record e \<notin> e_Record ` set ?moved"
      using False e sub RestoreVaultState_distinct [OF assms(2)] by (auto simp: distinct_map inj_on_def)
    with put_records_other [OF rows] t assms(6) [OF e b] show ?thesis by auto
  qed
  show ?thesis
  proof (rule verified_restore [OF AdvanceVault_db_ok [OF assms(5,1)] _ assms(2)])
    show "fmlookup (tb_heads d') v = Some h" by (simp add: d')
    show "\<exists>e \<in> set es. e_Record e = r \<and> LeafOf cr (fst x) = LeafOf cr e" if x: "fmlookup (rows_of (tb_records d') v) r = Some x" for r x
    proof -
      from x have r: "r \<notin> set (cm_Purged c)" "fmlookup rows r = Some x" by (auto simp: look split: if_split_asm)
      from put_records_origin [OF rows, of r "fst x" "snd x"] r(2)
      have "fmlookup ?rows r = Some x \<or> fst x \<in> set ?moved \<and> e_Record (fst x) = r" by simp
      then have "r \<in> e_Record ` set es" using r(1) sub unfolding D(2) by (cases x) (auto simp: base fmlookup_dom_iff)
      then obtain e where "e \<in> set es" "e_Record e = r" by blast
      with stay [of e] r(2) show ?thesis by auto
    qed
    show "fmlookup (rows_of (tb_records d') v) (e_Record e) \<noteq> None" if "e \<in> set es" for e
      using stay [OF that] that by (auto simp: look D(2))
  qed
qed

lemma resync_run_ok:
  assumes "run_ok eg w" and "resync eg w = (w', x)"
    and "\<And>n snap e b. ss_Snapshot (eg_Server eg) n (pr_vault (rw_run w)) = Inr snap \<Longrightarrow> e \<in> set (rs_Records snap) \<Longrightarrow>
      fmlookup (pr_base (rw_run w)) (e_Record e) = Some b \<Longrightarrow> e_Version b = e_Version e \<Longrightarrow> LeafOf (eg_cr eg) b = LeafOf (eg_cr eg) e"
  shows "run_ok eg w'"
proof -
  have at: "run_at eg w" using assms(1) by (simp add: run_ok_def)
  show ?thesis
    using at assms(2)
  proof (cases rule: resync_stages)
    case early
    with run_ok_same [OF assms(1), of w'] show ?thesis by simp
  next
    case (landing w1 w2 snap head vs t)
    let ?v = "pr_vault (rw_run w)" let ?c = "fst (snapshotDelta (rw_run w2) head (rs_Records snap))"
    have ok1: "run_ok eg w1" using run_ok_same [OF assms(1), of w1] landing(1-3) by simp
    then have at1: "run_at eg w1" by (simp add: run_ok_def)
    note V = verifySnapshot_effect [OF at1 landing(6)]
    then have ok2: "run_ok eg w2" using run_ok_same [OF ok1, of w2] by auto
    have w2: "pr_vault (rw_run w2) = ?v" "pr_base (rw_run w2) = pr_base (rw_run w)" "pr_state (rw_run w2) = pr_state (rw_run w)"
      using V landing(3) by (auto simp: forward_def)
    have R: "RestoreVaultState (eg_cr eg) ?v (Some head) (rs_Records snap) = Inr vs" using V landing(3) by auto
    note H = RestoreVaultState_head [OF R]
    have head: "cm_Head ?c = head" by (simp add: snapshotDelta_def Let_def)
    have "run_ok eg (if x = Inr () then t else w')"
    proof (rule run_ok_landAs [OF ok2 landing(7)])
      have at2: "run_at eg w2" using ok2 by (simp add: run_ok_def)
      show "forward eg w2 (if x = Inr () then t else w')"
        using forward_landAs [OF at2 landing(7)] H w2 landing(5) by (simp add: head)
      show "h_Vault (cm_Head ?c) = pr_vault (rw_run w2)" using H w2 by (simp add: head)
      show "verified (eg_cr eg) d' vs" if d: "stored_same (wd_db w2) d" "AdvanceVault (cm_Head ?c) (cm_Records ?c) (cm_Purged ?c) d = Inr d'" for d d'
      proof (rule verified_resync [OF _ R _ _ d(2)])
        show "db_ok d" using ok2 stored_same_verified [OF d(1)] by (simp add: run_ok_def)
        show "snapshotDelta (rw_run w2) head (rs_Records snap) = (?c, snd (snapshotDelta (rw_run w2) head (rs_Records snap)))" by simp
        show "pr_base (rw_run w2) = fmmap fst (rows_of (tb_records d) ?v)" using ok2 w2(1) d(1) by (simp add: run_ok_def stored_same_def)
        show "LeafOf (eg_cr eg) b = LeafOf (eg_cr eg) e" if "e \<in> set (rs_Records snap)" "fmlookup (pr_base (rw_run w2)) (e_Record e) = Some b"
          "e_Version b = e_Version e" for e b
          using assms(3) landing(9) that w2(2) by auto
      qed
    qed
    with landing(8) run_ok_count show ?thesis by (cases "x = Inr ()") auto
  qed
qed

section \<open>The whole pull\<close>

lemma pull_loop_run_ok:
  assumes "run_ok eg w" and "pull_loop eg resynced w = (w', x)"
    and "\<And>n v s k err. ss_Changes (eg_Server eg) n v s k = Inl err \<Longrightarrow> ErrHistoryPruned \<notin> set err"
  shows "run_ok eg w'"
  using assms
proof (induction eg resynced w rule: pull_loop.induct)
  case (1 eg resynced w)
  let ?q = "\<lambda>n. ss_Changes (eg_Server eg) n (pr_vault (rw_run w)) (cur_Seq (vs_cursor (pr_state (rw_run w)))) pullPageSize"
  obtain w1 y where a: "ask ?q w = (w1, y)" by force
  have at: "run_at eg w" using 1(3) by (simp add: run_ok_def)
  have ok1: "run_ok eg w1" using forward_ask [OF at a] run_ok_same [OF 1(3), of w1] by simp
  show ?case
  proof (cases y)
    case (Inl err)
    then have "ErrHistoryPruned \<notin> set err" using a 1(5) by (auto simp: ask_def)
    then have "w' = w1" using 1(4) a Inl by (simp add: pull_loop.simps [of _ _ w])
    with ok1 show ?thesis by simp
  next
    case (Inr page)
    obtain commits again where page: "page = (commits, again)" by force
    obtain w2 z where r: "apply_all eg commits w1 = (w2, z)" by force
    note R = apply_all_run_ok [OF ok1 r]
    show ?thesis
    proof (cases "z = Inr () \<and> again \<and> commits \<noteq> []")
      case False
      then have "w' = w2" using 1(4) a Inr page r by (auto simp: pull_loop.simps [of _ _ w] split: sum.split_asm if_split_asm)
      with R show ?thesis by simp
    next
      case True
      then have run: "pull_loop eg resynced w2 = (w', x)" using 1(4) a Inr page r by (simp add: pull_loop.simps [of _ _ w])
      from 1(2) [OF a [symmetric] Inr page [symmetric] r [symmetric] _ _ R run] True 1(5) show ?thesis by simp
    qed
  qed
qed

lemma pullAll_run_ok:
  assumes "run_ok eg w" and "pullAll eg w = (w', x)"
    and "\<And>n v s k err. ss_Changes (eg_Server eg) n v s k = Inl err \<Longrightarrow> ErrHistoryPruned \<notin> set err"
    and "\<And>h. fmlookup (tb_heads (wd_db w)) (pr_vault (rw_run w)) = Some h \<Longrightarrow> h_Seq h \<noteq> 0"
  shows "run_ok eg w'"
proof (cases "run_seq w = 0")
  case False
  with assms(2) have loop: "pull_loop eg False w = (w', x)" by (simp add: pullAll_def bind_w_def pure_w_def run_seq_def)
  show ?thesis by (rule pull_loop_run_ok [OF assms(1) loop]) (rule assms(3))
next
  case True
  then have "fmlookup (tb_heads (wd_db w)) (pr_vault (rw_run w)) = None"
    using assms(1,4) by (cases "fmlookup (tb_heads (wd_db w)) (pr_vault (rw_run w))") (auto simp: run_ok_def run_at_def position_def place_def run_seq_def)
  moreover obtain w1 y where b: "bootstrap eg w = (w1, y)" by force
  ultimately have ok1: "run_ok eg w1" using bootstrap_run_ok [OF assms(1) _ True] by blast
  show ?thesis
  proof (cases y)
    case (Inl err)
    with assms(2) b True ok1 show ?thesis by (simp add: pullAll_def bind_w_def run_seq_def)
  next
    case (Inr u)
    with assms(2) b True have loop: "pull_loop eg False w1 = (w', x)" by (simp add: pullAll_def bind_w_def run_seq_def)
    show ?thesis by (rule pull_loop_run_ok [OF ok1 loop]) (rule assms(3))
  qed
qed

lemma index_keys:
  "\<forall>k \<in> set ks. e_Record (f k) = k \<Longrightarrow>
    fmlookup (fold (\<lambda>e. fmupd (e_Record e) e) (map f ks) acc) i = (if i \<in> set ks then Some (f i) else fmlookup acc i)"
  by (induction ks arbitrary: acc) auto

lemma index_in_order:
  assumes "db_ok d"
  shows "indexEnvelopes (map fst (in_order (rows_of (tb_records d) v))) = fmmap fst (rows_of (tb_records d) v)"
proof (rule fmap_ext)
  fix i
  let ?m = "rows_of (tb_records d) v" let ?ks = "sorted_list_of_fset (fmdom ?m)" let ?f = "\<lambda>k. fst (the (fmlookup ?m k))"
  have "e_Record (?f k) = k" if "k \<in> set ?ks" for k
  proof -
    from that obtain e t where "fmlookup ?m k = Some (e, t)" by (auto simp: sorted_list_of_fset.rep_eq fmlookup_dom_iff)
    with db_okD [OF assms this] show ?thesis by simp
  qed
  then have "fmlookup (indexEnvelopes (map ?f ?ks)) i = (if i \<in> set ?ks then Some (?f i) else None)"
    unfolding indexEnvelopes_def by (subst index_keys) simp_all
  then show "fmlookup (indexEnvelopes (map fst (in_order ?m))) i = fmlookup (fmmap fst ?m) i"
    by (cases "fmlookup ?m i") (auto simp: in_order_def comp_def sorted_list_of_fset.rep_eq fmlookup_dom_iff)
qed

lemma run_ok_start:
  assumes "db_ok (wd_db w)" and "startPull eg vault w = (w1, Inr p)"
  shows "run_ok eg (with_run w1 (p\<lparr>pr_preferRemote := adopt\<rparr>))"
proof -
  have ok: "db_ok (wd_db w1)"
    using assms(1) startPull_only_logs [OF assms(2)] verified_same(2) [of "wd_db w1" "wd_db w"] by (simp add: only_logs_def)
  note A = run_at_start [OF assms(2), of adopt]
  from assms(2) show ?thesis
  proof (rule startPull_Inr)
    fix resolve check ops vs
    assume vs: "RestoreVaultState (eg_cr eg) vault (sto_Head (LoadVault (wd_db w1) vault)) (sto_Records (LoadVault (wd_db w1) vault)) = Inr vs"
      and p: "core p = (vault, ops, \<lparr>mc_vault = vault, mc_ops = ops, mc_check = check, mc_state = None\<rparr>, resolve, vs,
        indexEnvelopes (sto_Records (LoadVault (wd_db w1) vault)), scopeOf eg vault)"
    have "vs_vault vs = vault" using A p by (auto simp: run_at_def with_run_def core_def)
    then have "verified (eg_cr eg) (wd_db w1) vs" using vs by (simp add: verified_def)
    moreover have "indexEnvelopes (sto_Records (LoadVault (wd_db w1) vault)) = fmmap fst (rows_of (tb_records (wd_db w1)) vault)"
    proof (cases "fmlookup (tb_heads (wd_db w1)) vault")
      case None
      with ok have "rows_of (tb_records (wd_db w1)) vault = fmempty" by (simp add: db_ok_def)
      with None show ?thesis by (simp add: LoadVault_def indexEnvelopes_def)
    next
      case (Some h)
      with index_in_order [OF ok] show ?thesis by (simp add: LoadVault_def)
    qed
    ultimately show ?thesis using A ok p by (auto simp: run_ok_def with_run_def core_def)
  qed
qed

section \<open>Properties\<close>

text \<open>C17. What is stored stays readable: as long as the server never claims to have pruned history, a pull - of whatever
  commits and snapshot the server sends, complete or broken off by any error - leaves records that reproduce the root of
  the stored head, so the next pull can start from them. The first condition on the stored head excludes position 0,
  which no commit has.\<close>

theorem pull_leaves_restorable:
  assumes "db_ok (wd_db w)" and "restorable (eg_cr eg) (wd_db w) vault"
    and "\<forall>h. fmlookup (tb_heads (wd_db w)) vault = Some h \<longrightarrow> h_Seq h \<noteq> 0"
    and "\<forall>n v s k err. ss_Changes (eg_Server eg) n v s k = Inl err \<longrightarrow> ErrHistoryPruned \<notin> set err"
    and "run_pull eg vault adopt w = (w', report, x)"
  shows "db_ok (wd_db w') \<and> restorable (eg_cr eg) (wd_db w') vault"
proof -
  obtain w1 y where s: "startPull eg vault w = (w1, y)" by force
  have logs: "tb_heads (wd_db w1) = tb_heads (wd_db w)" "tb_records (wd_db w1) = tb_records (wd_db w)"
    using startPull_only_logs [OF s] by (simp_all add: only_logs_def)
  show ?thesis
  proof (cases y)
    case (Inl err)
    then have "w' = w1" using assms(5) s by (simp add: run_pull_def)
    with assms(1,2) logs verified_same(2) [of "wd_db w1" "wd_db w"] only_logs_Load [OF startPull_only_logs [OF s]]
    show ?thesis by (simp add: restorable_def)
  next
    case (Inr p)
    let ?w = "with_run w1 (p\<lparr>pr_preferRemote := adopt\<rparr>)"
    obtain w2 z where a: "pullAll eg ?w = (w2, z)" by force
    have v: "pr_vault p = vault" using run_at_start [OF s [unfolded Inr]] by blast
    have "run_ok eg w2"
    proof (rule pullAll_run_ok [OF run_ok_start [OF assms(1) s [unfolded Inr]] a])
      show "ErrHistoryPruned \<notin> set err" if "ss_Changes (eg_Server eg) n v s k = Inl err" for n v s k err
        using assms(4) that by blast
      show "h_Seq h \<noteq> 0" if "fmlookup (tb_heads (wd_db ?w)) (pr_vault (rw_run ?w)) = Some h" for h
        using assms(3) that logs v by (simp add: with_run_def)
    qed
    moreover have "pr_vault (rw_run w2) = vault" "wd_db w' = wd_db w2"
      using pullAll_forward [OF _ a] run_at_start [OF s [unfolded Inr], of adopt] v assms(5) s Inr a
      by (auto simp: forward_def with_run_def run_pull_def world_of_def)
    ultimately show ?thesis using run_ok_restorable [of eg w2] by (simp add: run_ok_def)
  qed
qed

end
