(* ===== verification/Sync_Crypto.thy ===== *)
theory Sync_Crypto
  imports Sync_Logs Padding
begin

text \<open>
  The cryptography of sync suite 1 (\<open>infra/synccrypto\<close>) and the key ring of a device (\<open>usecase/sync_keyring.go\<close>):
  sealing a record version under a fresh data key, the account's key bundle, wrapping a vault key to a member, and finding
  the vault key of an epoch in the membership log.

  XChaCha20-Poly1305, HKDF, HPKE with its hybrid KEM and Ed25519 are parameters (\<open>primitives\<close>). What is asked of
  them is stated where it is used: \<open>aead_ok\<close>, that opening inverts sealing, that a sealed text is sixteen bytes longer and
  that opening accepts only what sealing produces; \<open>hpke_ok\<close>, that a wrap to the public key of a seed opens
  with the seed. A reader of randomness is the bytes it will give.
\<close>

section \<open>Primitives\<close>

record primitives =
  px_Seal :: "bytes \<Rightarrow> bytes \<Rightarrow> bytes \<Rightarrow> bytes \<Rightarrow> bytes" \<comment> \<open>key, nonce, plaintext, additional data; the nonce is not part of the result\<close>
  px_Open :: "bytes \<Rightarrow> bytes \<Rightarrow> bytes \<Rightarrow> bytes \<Rightarrow> bytes option"
  px_hkdf :: "bytes \<Rightarrow> string \<Rightarrow> nat \<Rightarrow> bytes option"
  px_hpkeSeal :: "bytes \<Rightarrow> bytes \<Rightarrow> bytes \<Rightarrow> bytes \<Rightarrow> bytes option" \<comment> \<open>randomness, public key, info, plaintext\<close>
  px_hpkeOpen :: "bytes \<Rightarrow> bytes \<Rightarrow> bytes \<Rightarrow> bytes option" \<comment> \<open>seed, info, sealed\<close>
  px_kemPublic :: "bytes \<Rightarrow> bytes option" \<comment> \<open>the public key of a seed\<close>
  px_validPublic :: "bytes \<Rightarrow> bool"
  px_edPublic :: "bytes \<Rightarrow> bytes"
  px_edSign :: "bytes \<Rightarrow> bytes \<Rightarrow> bytes" \<comment> \<open>seed, message\<close>

definition keySize :: nat where "keySize = 32"
definition nonceSize :: nat where "nonceSize = 24" \<comment> \<open>\<open>chacha20poly1305.NonceSizeX\<close>\<close>
definition tagSize :: nat where "tagSize = 16" \<comment> \<open>\<open>chacha20poly1305.Overhead\<close>\<close>

definition ReadFull :: "nat \<Rightarrow> bytes \<Rightarrow> (bytes \<times> bytes) sync_result" where
  "ReadFull n r = (if length r < n then Inl [ErrOther ''unexpected EOF''] else Inr (take n r, drop n r))"

section \<open>Records\<close>

record RecordCoords =
  co_Vault :: ID
  co_Record :: ID
  co_Version :: u64
  co_Epoch :: u32
  co_Suite :: SuiteID

definition seal :: "primitives \<Rightarrow> bytes \<Rightarrow> bytes \<Rightarrow> bytes \<Rightarrow> bytes \<Rightarrow> (bytes \<times> bytes) sync_result" where
  "seal px rnd key plaintext aad =
    (if length key \<noteq> keySize then Inl [ErrOther ''bad key length'']
     else bind_res (ReadFull nonceSize rnd) (\<lambda>(nonce, rnd). Inr (nonce @ px_Seal px key nonce plaintext aad, rnd)))"

definition open_sealed :: "primitives \<Rightarrow> bytes \<Rightarrow> bytes \<Rightarrow> bytes \<Rightarrow> bytes sync_result" where
  "open_sealed px key sealed aad =
    (if length key \<noteq> keySize \<or> length sealed < nonceSize + tagSize then Inl [ErrOpen]
     else (case px_Open px key (take nonceSize sealed) (drop nonceSize sealed) aad of
         None \<Rightarrow> Inl [ErrOther ''message authentication failed'']
       | Some p \<Rightarrow> Inr p))"

definition SealRecord :: "primitives \<Rightarrow> bytes \<Rightarrow> bytes \<Rightarrow> RecordCoords \<Rightarrow> bytes \<Rightarrow> (bytes \<times> bytes) sync_result" where
  "SealRecord px rnd vk c plaintext =
    (if length vk \<noteq> keySize then Inl [ErrOther ''vault key size'']
     else bind_res (dom_res (Pad plaintext)) (\<lambda>padded.
       bind_res (ReadFull keySize rnd) (\<lambda>(dek, rnd).
       bind_res (dom_res (BodyAAD (co_Vault c) (co_Record c) (co_Version c) (co_Epoch c) (co_Suite c))) (\<lambda>bodyAAD.
       bind_res (seal px rnd dek padded bodyAAD) (\<lambda>(body, rnd).
       bind_res (dom_res (DEKWrapAAD (co_Vault c) (co_Record c) (co_Version c) (co_Epoch c))) (\<lambda>wrapAAD.
       bind_res (seal px rnd vk dek wrapAAD) (\<lambda>(wrappedDEK, _). Inr (wrappedDEK, body))))))))"

text \<open>Every failure of \<open>OpenRecord\<close> and \<open>OpenBundle\<close> is the one error.\<close>

definition or_ErrOpen :: "'a + 'b \<Rightarrow> 'b sync_result" where
  "or_ErrOpen r = (case r of Inl _ \<Rightarrow> Inl [ErrOpen] | Inr x \<Rightarrow> Inr x)"

definition OpenRecord :: "primitives \<Rightarrow> bytes \<Rightarrow> RecordCoords \<Rightarrow> bytes \<Rightarrow> bytes \<Rightarrow> bytes sync_result" where
  "OpenRecord px vk c wrappedDEK body =
    bind_res (or_ErrOpen (LookupSuite (co_Suite c) MinAcceptedSuite)) (\<lambda>params.
      if length vk \<noteq> keySize \<or> length wrappedDEK \<noteq> WrappedDEKSize params then Inl [ErrOpen]
      else
        bind_res (or_ErrOpen (DEKWrapAAD (co_Vault c) (co_Record c) (co_Version c) (co_Epoch c))) (\<lambda>wrapAAD.
        bind_res (or_ErrOpen (open_sealed px vk wrappedDEK wrapAAD)) (\<lambda>dek.
        bind_res (or_ErrOpen (BodyAAD (co_Vault c) (co_Record c) (co_Version c) (co_Epoch c) (co_Suite c))) (\<lambda>bodyAAD.
        bind_res (or_ErrOpen (open_sealed px dek body bodyAAD)) (\<lambda>padded.
        or_ErrOpen (Unpad padded))))))"

definition coordsOf :: "Envelope \<Rightarrow> RecordCoords" where
  "coordsOf e = \<lparr>co_Vault = e_Vault e, co_Record = e_Record e, co_Version = e_Version e, co_Epoch = e_Epoch e, co_Suite = e_Suite e\<rparr>"

definition Cipher_Seal :: "primitives \<Rightarrow> bytes \<Rightarrow> bytes \<Rightarrow> Envelope \<Rightarrow> bytes \<Rightarrow> Envelope sync_result" where
  "Cipher_Seal px rnd vaultKey e plaintext =
    bind_res (SealRecord px rnd vaultKey (coordsOf e) plaintext) (\<lambda>(dek, body). Inr (e\<lparr>e_WrappedDEK := dek, e_Body := body\<rparr>))"

definition Cipher_Open :: "primitives \<Rightarrow> bytes \<Rightarrow> Envelope \<Rightarrow> bytes sync_result" where
  "Cipher_Open px vaultKey e = OpenRecord px vaultKey (coordsOf e) (e_WrappedDEK e) (e_Body e)"

section \<open>Bundles\<close>

record AccountKeys =
  ak_IdentitySeed :: bytes
  ak_EncryptionSeed :: bytes

definition seedSize :: nat where "seedSize = 32"

definition bundleKey :: "primitives \<Rightarrow> bytes \<Rightarrow> bytes sync_result" where
  "bundleKey px exportKey =
    (if length exportKey = 0 then Inl [ErrOther ''empty export key'']
     else (case px_hkdf px exportKey LabelBundle keySize of None \<Rightarrow> Inl [ErrOther ''hkdf''] | Some k \<Rightarrow> Inr k))"

definition SealBundle :: "primitives \<Rightarrow> bytes \<Rightarrow> bytes \<Rightarrow> ID \<Rightarrow> AccountKeys \<Rightarrow> bytes sync_result" where
  "SealBundle px rnd exportKey account keys =
    (if length (ak_IdentitySeed keys) \<noteq> seedSize \<or> length (ak_EncryptionSeed keys) \<noteq> seedSize then Inl [ErrOther ''seed size'']
     else
       bind_res (bundleKey px exportKey) (\<lambda>key.
       bind_res (dom_res (canon_Encoded (canon_chain [canon_Bytes (ak_IdentitySeed keys), canon_Bytes (ak_EncryptionSeed keys)] (NewCanon LabelBundle)))) (\<lambda>plain.
       bind_res (dom_res (BundleAAD account Suite1)) (\<lambda>aad.
       bind_res (seal px rnd key plain aad) (\<lambda>(sealed, _). Inr sealed)))))"

text \<open>One round of the loop of \<open>decodeBundle\<close>: a big-endian length and so many bytes, and the rest.\<close>

definition next_field :: "bytes \<Rightarrow> (bytes \<times> bytes) option" where
  "next_field r =
    (if length r < 4 then None
     else (let n = of_be (take 4 r) in
       if n > length r - 4 then None else Some (take n (drop 4 r), drop n (drop 4 r))))"

definition decodeBundle :: "bytes \<Rightarrow> AccountKeys sync_result" where
  "decodeBundle plain =
    (case next_field plain of
       None \<Rightarrow> Inl [ErrOpen]
     | Some (f0, r) \<Rightarrow>
         (case next_field r of
            None \<Rightarrow> Inl [ErrOpen]
          | Some (f1, r) \<Rightarrow>
              (case next_field r of
                 None \<Rightarrow> Inl [ErrOpen]
               | Some (f2, r) \<Rightarrow>
                   if length r \<noteq> 0 \<or> f0 \<noteq> str_bytes LabelBundle \<or> length f1 \<noteq> seedSize \<or> length f2 \<noteq> seedSize then Inl [ErrOpen]
                   else Inr \<lparr>ak_IdentitySeed = f1, ak_EncryptionSeed = f2\<rparr>)))"

definition OpenBundle :: "primitives \<Rightarrow> bytes \<Rightarrow> ID \<Rightarrow> bytes \<Rightarrow> AccountKeys sync_result" where
  "OpenBundle px exportKey account sealed =
    bind_res (or_ErrOpen (bundleKey px exportKey)) (\<lambda>key.
    bind_res (or_ErrOpen (BundleAAD account Suite1)) (\<lambda>aad.
    bind_res (or_ErrOpen (open_sealed px key sealed aad)) decodeBundle))"

section \<open>Vault keys\<close>

definition WrapVaultKey :: "primitives \<Rightarrow> bytes \<Rightarrow> bytes \<Rightarrow> ID \<Rightarrow> u32 \<Rightarrow> ID \<Rightarrow> bytes \<Rightarrow> bytes sync_result" where
  "WrapVaultKey px rnd memberPublic vault epoch member vk =
    (if length vk \<noteq> keySize then Inl [ErrOther ''vault key size'']
     else if \<not> px_validPublic px memberPublic then Inl [ErrOther ''member encryption key'']
     else bind_res (dom_res (VKWrapInfo vault epoch member)) (\<lambda>info.
       case px_hpkeSeal px rnd memberPublic info vk of None \<Rightarrow> Inl [ErrOther ''hpke''] | Some w \<Rightarrow> Inr w))"

definition UnwrapVaultKey :: "primitives \<Rightarrow> bytes \<Rightarrow> ID \<Rightarrow> u32 \<Rightarrow> ID \<Rightarrow> bytes \<Rightarrow> bytes sync_result" where
  "UnwrapVaultKey px seed vault epoch member wrapped =
    bind_res (or_ErrOpen (LookupSuite Suite1 MinAcceptedSuite)) (\<lambda>p.
      if length wrapped \<noteq> VKWrapSize p then Inl [ErrOpen]
      else if px_kemPublic px seed = None then Inl [ErrOpen]
      else bind_res (or_ErrOpen (VKWrapInfo vault epoch member)) (\<lambda>info.
        case px_hpkeOpen px seed info wrapped of
          None \<Rightarrow> Inl [ErrOpen]
        | Some vk \<Rightarrow> if length vk \<noteq> keySize then Inl [ErrOpen] else Inr vk))"

definition EncryptionPublic :: "primitives \<Rightarrow> bytes \<Rightarrow> bytes sync_result" where
  "EncryptionPublic px seed = (case px_kemPublic px seed of None \<Rightarrow> Inl [ErrOther ''encryption seed''] | Some k \<Rightarrow> Inr k)"

definition synccrypto_Sign :: "primitives \<Rightarrow> bytes \<Rightarrow> bytes \<Rightarrow> bytes sync_result" where
  "synccrypto_Sign px seed message = (if length seed \<noteq> 32 then Inl [ErrOther ''signing seed size''] else Inr (px_edSign px seed message))"

section \<open>The key ring\<close>

record SyncPendingKeys =
  pk_IdentitySeed :: bytes
  pk_EncryptionSeed :: bytes
  pk_EncryptionKey :: bytes

record SyncAccount =
  ac_ServerURL :: string
  ac_ServerIdentity :: bytes
  ac_Username :: string
  ac_Account :: bytes
  ac_Device :: bytes
  ac_DeviceSeed :: bytes
  ac_IdentitySeed :: bytes
  ac_EncryptionSeed :: bytes
  ac_EncryptionKey :: bytes
  ac_GenesisIdentityKey :: bytes
  ac_GenesisEncryptionKey :: bytes
  ac_Pending :: "SyncPendingKeys option"
  ac_RekeyPending :: bool
  ac_JoinPending :: bool

definition wrapIn :: "ID \<Rightarrow> MemberOp \<Rightarrow> bytes option" where
  "wrapIn account op = map_option w_Ciphertext (find (\<lambda>w. w_Member w = account) (o_Wraps op))"

text \<open>The loop of \<open>VaultKey\<close> runs over the operations backwards.\<close>

fun vault_key_loop :: "primitives \<Rightarrow> ID \<Rightarrow> bytes \<Rightarrow> ID \<Rightarrow> u32 \<Rightarrow> MemberOp list \<Rightarrow> bytes sync_result" where
  "vault_key_loop px account seed vault epoch [] = Inl [ErrNoVaultKey]"
| "vault_key_loop px account seed vault epoch (op # ops) =
    (if o_Epoch op \<noteq> epoch then vault_key_loop px account seed vault epoch ops
     else (case wrapIn account op of
         Some wrapped \<Rightarrow> UnwrapVaultKey px seed vault epoch account wrapped
       | None \<Rightarrow> vault_key_loop px account seed vault epoch ops))"

definition VaultKey :: "primitives \<Rightarrow> ID \<Rightarrow> bytes \<Rightarrow> ID \<Rightarrow> u32 \<Rightarrow> MemberOp list \<Rightarrow> bytes sync_result" where
  "VaultKey px account seed vault epoch ops = vault_key_loop px account seed vault epoch (rev ops)"

definition NewSyncKeyRing :: "primitives \<Rightarrow> SyncAccount option \<Rightarrow> KeyRing sync_result" where
  "NewSyncKeyRing px stored =
    (case stored of
       None \<Rightarrow> Inl [ErrSyncAccount]
     | Some a \<Rightarrow>
         if length (ac_Account a) \<noteq> IDSize \<or> length (ac_Device a) \<noteq> IDSize \<or> length (ac_DeviceSeed a) \<noteq> 32 \<or>
           length (ac_IdentitySeed a) \<noteq> 32 \<or> length (ac_EncryptionSeed a) = 0 \<or> length (ac_EncryptionKey a) = 0 \<or>
           length (ac_GenesisIdentityKey a) \<noteq> 32 \<or> length (ac_GenesisEncryptionKey a) = 0
         then Inl [ErrSyncAccount]
         else (let account = id_of_bytes (ac_Account a) in
           Inr \<lparr>kr_Account = account, kr_Device = id_of_bytes (ac_Device a),
             kr_AccountKeys = (Suite1, ac_GenesisIdentityKey a, ac_GenesisEncryptionKey a),
             kr_CurrentKeys = (px_edPublic px (ac_IdentitySeed a), ac_EncryptionKey a),
             kr_VaultKey = VaultKey px account (ac_EncryptionSeed a),
             kr_Sign = (\<lambda>msg. Inr (px_edSign px (ac_DeviceSeed a) msg))\<rparr>))"

section \<open>Sealed texts\<close>

definition aead_ok :: "primitives \<Rightarrow> bool" where
  "aead_ok px \<longleftrightarrow>
    (\<forall>k n p a. px_Open px k n (px_Seal px k n p a) a = Some p \<and> length (px_Seal px k n p a) = length p + tagSize) \<and>
    (\<forall>k n c a p. px_Open px k n c a = Some p \<longrightarrow> c = px_Seal px k n p a)"

lemma ReadFull_Inr [result_simps]: "ReadFull n r = Inr (x, r') \<longleftrightarrow> n \<le> length r \<and> x = take n r \<and> r' = drop n r"
  by (auto simp: ReadFull_def)

lemma or_ErrOpen_Inr [result_simps]: "or_ErrOpen r = Inr x \<longleftrightarrow> r = Inr x"
  by (simp add: or_ErrOpen_def split: sum.split)

lemma seal_Inr:
  "seal px rnd key p a = Inr (s, r) \<longleftrightarrow> length key = keySize \<and> nonceSize \<le> length rnd \<and>
    s = take nonceSize rnd @ px_Seal px key (take nonceSize rnd) p a \<and> r = drop nonceSize rnd"
  by (auto simp: seal_def result_simps)

lemma open_seal:
  assumes "aead_ok px" and "seal px rnd key p a = Inr (s, r)"
  shows "open_sealed px key s a = Inr p" and "length s = nonceSize + length p + tagSize"
proof -
  from assms(2) have s: "length key = keySize" "nonceSize \<le> length rnd" "s = take nonceSize rnd @ px_Seal px key (take nonceSize rnd) p a"
    by (simp_all add: seal_Inr)
  show len: "length s = nonceSize + length p + tagSize"
    using assms(1) s by (simp add: aead_ok_def nonceSize_def)
  have "take nonceSize s = take nonceSize rnd" "drop nonceSize s = px_Seal px key (take nonceSize rnd) p a"
    using s(2,3) by (simp_all add: min_def)
  moreover have "px_Open px key (take nonceSize rnd) (px_Seal px key (take nonceSize rnd) p a) a = Some p"
    using assms(1) by (simp add: aead_ok_def)
  ultimately show "open_sealed px key s a = Inr p" using s(1) len by (simp add: open_sealed_def)
qed

lemma open_sealed_Inr:
  assumes "aead_ok px" and "open_sealed px key s a = Inr p"
  shows "drop nonceSize s = px_Seal px key (take nonceSize s) p a"
  using assms by (auto simp: open_sealed_def aead_ok_def split: if_split_asm option.split_asm)

section \<open>Record sizes\<close>

lemma bits_Len_mono: "n \<le> m \<Longrightarrow> bits_Len n \<le> bits_Len m"
proof (rule ccontr)
  assume "n \<le> m" "\<not> bits_Len n \<le> bits_Len m"
  then have "n \<noteq> 0" "bits_Len m \<le> bits_Len n - 1" by (auto intro: ccontr)
  with \<open>n \<le> m\<close> have "m < 2 ^ bits_Len m" "2 ^ (bits_Len n - 1) \<le> n" using bits_Len_bounds [of m] bits_Len_bounds [of n] by auto
  moreover have "(2 :: nat) ^ bits_Len m \<le> 2 ^ (bits_Len n - 1)" using \<open>bits_Len m \<le> bits_Len n - 1\<close> by simp
  ultimately show False using \<open>n \<le> m\<close> by linarith
qed

lemma padme_le_block:
  assumes "2 \<le> n"
  shows "padme n \<le> 2 ^ bits_Len n"
proof -
  define k where "k = bits_Len n - 1 - bits_Len (bits_Len n - 1)"
  define q :: nat where "q = 2 ^ (bits_Len n - k)"
  have "k \<le> bits_Len n" by (simp add: k_def)
  then have q: "2 ^ bits_Len n = q * 2 ^ k" by (simp add: q_def flip: power_add)
  have "n < q * 2 ^ k" using bits_Len_bounds [of n] assms by (simp flip: q)
  moreover have "(0 :: nat) < 2 ^ k" by simp
  ultimately have "n + (2 ^ k - 1) < (q + 1) * 2 ^ k" unfolding add_mult_distrib by linarith
  then have "(n + (2 ^ k - 1)) div 2 ^ k < q + 1" by (rule less_mult_imp_div_less)
  then have "(n + (2 ^ k - 1)) div 2 ^ k * 2 ^ k \<le> q * 2 ^ k" by simp
  then show ?thesis using assms by (simp add: padme_round Let_def k_def q)
qed

lemma padme_mono:
  assumes "n \<le> m"
  shows "padme n \<le> padme m"
proof (cases "n < 2")
  case True
  then have "padme n = n" by (simp add: padme_def)
  with assms padme_ge [of m] show ?thesis by linarith
next
  case n: False
  show ?thesis
  proof (cases "bits_Len n = bits_Len m")
    case True
    with n assms show ?thesis by (auto simp: padme_round Let_def intro!: mult_right_mono div_le_mono)
  next
    case False
    with bits_Len_mono [OF assms] have "bits_Len n \<le> bits_Len m - 1" by linarith
    then have "(2 :: nat) ^ bits_Len n \<le> 2 ^ (bits_Len m - 1)" by simp
    also have "\<dots> \<le> m" using bits_Len_bounds [of m] n assms by simp
    finally show ?thesis using padme_le_block [of n] n padme_ge [of m] by simp
  qed
qed

lemma PaddedSize_mono: "n \<le> m \<Longrightarrow> PaddedSize n \<le> PaddedSize m"
  using padme_mono [of "lengthPrefix + n" "lengthPrefix + m"] by (auto simp: PaddedSize_def)

section \<open>Records\<close>

definition body_aad :: "RecordCoords \<Rightarrow> bytes" where
  "body_aad c = encode_fields [str_bytes LabelBody, be_bytes (co_Vault c), be_bytes (co_Record c), be_bytes (co_Version c),
     be_bytes (co_Epoch c), be_bytes (co_Suite c)]"

definition wrap_aad :: "RecordCoords \<Rightarrow> bytes" where
  "wrap_aad c = encode_fields [str_bytes LabelDEKWrap, be_bytes (co_Vault c), be_bytes (co_Record c), be_bytes (co_Version c),
     be_bytes (co_Epoch c)]"

lemma record_aads:
  "BodyAAD (co_Vault c) (co_Record c) (co_Version c) (co_Epoch c) (co_Suite c) = Inr (body_aad c)"
  "DEKWrapAAD (co_Vault c) (co_Record c) (co_Version c) (co_Epoch c) = Inr (wrap_aad c)"
  by (simp_all add: message_fields canon_result_def body_aad_def wrap_aad_def)

lemma body_aad_inj: "body_aad c = body_aad c' \<Longrightarrow> c = c'"
proof -
  assume "body_aad c = body_aad c'"
  then have "[str_bytes LabelBody, be_bytes (co_Vault c), be_bytes (co_Record c), be_bytes (co_Version c), be_bytes (co_Epoch c), be_bytes (co_Suite c)] =
    [str_bytes LabelBody, be_bytes (co_Vault c'), be_bytes (co_Record c'), be_bytes (co_Version c'), be_bytes (co_Epoch c'), be_bytes (co_Suite c')]"
    unfolding body_aad_def by (rule encode_fields_inj) simp_all
  then show ?thesis by (cases c; cases c') (simp add: be_bytes_inj)
qed

lemma SealRecord_Inr:
  assumes "SealRecord px rnd vk c p = Inr (wrapped, body)"
  obtains dek r1 r2 r3 where "length vk = keySize" "length p \<le> MaxPlaintextSize" "length dek = keySize"
    "seal px r1 dek (pad_bytes p) (body_aad c) = Inr (body, r2)"
    "seal px r2 vk dek (wrap_aad c) = Inr (wrapped, r3)"
proof -
  from assms obtain r2 r3 where "length vk = keySize" "length p \<le> MaxPlaintextSize" "keySize \<le> length rnd"
    "seal px (drop keySize rnd) (take keySize rnd) (pad_bytes p) (body_aad c) = Inr (body, r2)"
    "seal px r2 vk (take keySize rnd) (wrap_aad c) = Inr (wrapped, r3)"
    by (auto simp: SealRecord_def Pad_eq record_aads result_simps split: if_split_asm prod.split_asm)
  then show thesis using that [of "take keySize rnd" "drop keySize rnd" r2 r3] by simp
qed

lemma OpenRecord_Inr:
  "OpenRecord px vk c wrapped body = Inr p \<longleftrightarrow>
    co_Suite c = Suite1 \<and> length vk = keySize \<and> length wrapped = 72 \<and>
    (\<exists>dek padded. open_sealed px vk wrapped (wrap_aad c) = Inr dek \<and>
      open_sealed px dek body (body_aad c) = Inr padded \<and> Unpad padded = Inr p)"
  by (auto simp: OpenRecord_def record_aads result_simps)

lemma Unpad_pad: "length p \<le> MaxPlaintextSize \<Longrightarrow> Unpad (pad_bytes p) = Inr p"
  by (simp add: Unpad_iff MaxPlaintextSize_def)

text \<open>The sizes of a sealed record are those an envelope must have.\<close>

lemma SealRecord_sizes:
  assumes "aead_ok px" and "SealRecord px rnd vk c p = Inr (wrapped, body)"
  shows "length wrapped = WrappedDEKSize suite1_params \<and> MinPaddedSize + AEADOverhead suite1_params \<le> length body \<and>
    length body \<le> PaddedSize MaxPlaintextSize + AEADOverhead suite1_params"
  using assms(2)
proof (rule SealRecord_Inr)
  fix dek r1 r2 r3
  assume p: "length p \<le> MaxPlaintextSize" and dek: "length dek = keySize"
    and b: "seal px r1 dek (pad_bytes p) (body_aad c) = Inr (body, r2)"
    and w: "seal px r2 vk dek (wrap_aad c) = Inr (wrapped, r3)"
  from open_seal(2) [OF assms(1) b] open_seal(2) [OF assms(1) w] dek
  have "length body = 40 + PaddedSize (length p)" "length wrapped = 72"
    by (simp_all add: length_pad_bytes nonceSize_def tagSize_def keySize_def)
  with PaddedSize_mono [OF p] PaddedSize_ge(2) [of "length p"] show ?thesis by simp
qed

section \<open>Bundles\<close>

lemma next_field_Some:
  "next_field r = Some (f, r') \<longleftrightarrow> fits f \<and> r = be 4 (length f) @ f @ r'"
proof
  assume "next_field r = Some (f, r')"
  then have n: "4 \<le> length r" "of_be (take 4 r) \<le> length r - 4" "f = take (of_be (take 4 r)) (drop 4 r)" "r' = drop (of_be (take 4 r)) (drop 4 r)"
    by (auto simp: next_field_def Let_def split: if_split_asm)
  then have len: "length f = of_be (take 4 r)" by simp
  have four: "length (take 4 r) = 4" using n(1) by simp
  have "of_be (take 4 r) < 256 ^ 4" using of_be_lt [of "take 4 r"] unfolding four .
  then have "fits f" by (simp add: fits_def MaxUint32_def len)
  moreover have "be 4 (length f) = take 4 r" unfolding len using be_of_be [of "take 4 r"] unfolding four .
  moreover have "f @ r' = drop 4 r" unfolding n(3,4) by (rule append_take_drop_id)
  ultimately show "fits f \<and> r = be 4 (length f) @ f @ r'" by simp
next
  assume r: "fits f \<and> r = be 4 (length f) @ f @ r'"
  then have "of_be (take 4 r) = length f" using of_be_be [of 4 "length f"] by (simp add: fits_def MaxUint32_def)
  with r show "next_field r = Some (f, r')" by (simp add: next_field_def Let_def)
qed

text \<open>What \<open>SealBundle\<close> seals.\<close>

definition bundle_plain :: "AccountKeys \<Rightarrow> bytes" where
  "bundle_plain ks = encode_fields [str_bytes LabelBundle, ak_IdentitySeed ks, ak_EncryptionSeed ks]"

lemma decodeBundle_Inr:
  "decodeBundle plain = Inr ks \<longleftrightarrow>
    length (ak_IdentitySeed ks) = seedSize \<and> length (ak_EncryptionSeed ks) = seedSize \<and> plain = bundle_plain ks"
proof
  assume "decodeBundle plain = Inr ks"
  then obtain r1 r2 where "next_field plain = Some (str_bytes LabelBundle, r1)" "next_field r1 = Some (ak_IdentitySeed ks, r2)"
    "next_field r2 = Some (ak_EncryptionSeed ks, [])" "length (ak_IdentitySeed ks) = seedSize" "length (ak_EncryptionSeed ks) = seedSize"
    by (auto simp: decodeBundle_def split: option.split_asm if_split_asm)
  then show "length (ak_IdentitySeed ks) = seedSize \<and> length (ak_EncryptionSeed ks) = seedSize \<and> plain = bundle_plain ks"
    by (simp add: next_field_Some bundle_plain_def encode_fields_def)
next
  assume ks: "length (ak_IdentitySeed ks) = seedSize \<and> length (ak_EncryptionSeed ks) = seedSize \<and> plain = bundle_plain ks"
  let ?r2 = "be 4 (length (ak_EncryptionSeed ks)) @ ak_EncryptionSeed ks"
  let ?r1 = "be 4 (length (ak_IdentitySeed ks)) @ ak_IdentitySeed ks @ ?r2"
  have fit: "fits (ak_IdentitySeed ks)" "fits (ak_EncryptionSeed ks)" using ks by (simp_all add: fits_def MaxUint32_def seedSize_def)
  have "next_field plain = Some (str_bytes LabelBundle, ?r1)" "next_field ?r1 = Some (ak_IdentitySeed ks, ?r2)"
    "next_field ?r2 = Some (ak_EncryptionSeed ks, [])"
    unfolding next_field_Some using ks fit by (simp_all add: bundle_plain_def encode_fields_def)
  with ks show "decodeBundle plain = Inr ks" by (simp add: decodeBundle_def)
qed

section \<open>Properties\<close>

text \<open>C16. What a device seals it and every other holder of the vault key opens again, and the envelope it fills passes the
  size checks every verifier applies: sealing succeeds exactly when the vault key has 32 bytes, the text is not over
  the limit and there is enough randomness, and then opening with the same key gives the text back.\<close>

theorem sealed_records_open:
  assumes "aead_ok px" and "e_Suite e = Suite1" and "\<not> e_Deleted e"
  shows "case Cipher_Seal px rnd vk e p of
      Inl _ \<Rightarrow> \<not> (length vk = 32 \<and> length p \<le> MaxPlaintextSize \<and> 80 \<le> length rnd)
    | Inr e' \<Rightarrow> length vk = 32 \<and> length p \<le> MaxPlaintextSize \<and> 80 \<le> length rnd \<and>
        Cipher_Open px vk e' = Inr p \<and> validateContent e' suite1_params = None"
proof (cases "Cipher_Seal px rnd vk e p")
  case (Inl err)
  have "\<not> (length vk = 32 \<and> length p \<le> MaxPlaintextSize \<and> 80 \<le> length rnd)"
  proof
    assume c: "length vk = 32 \<and> length p \<le> MaxPlaintextSize \<and> 80 \<le> length rnd"
    then have "\<not> length rnd < 32" "\<not> length rnd - 32 < 24" "\<not> length rnd - 32 - 24 < 24" by linarith+
    with c Inl show False
      by (simp add: Cipher_Seal_def SealRecord_def Pad_eq record_aads seal_def ReadFull_def keySize_def nonceSize_def)
  qed
  with Inl show ?thesis by simp
next
  case (Inr e')
  then obtain wrapped body where sealed: "SealRecord px rnd vk (coordsOf e) p = Inr (wrapped, body)"
    and e': "e' = e\<lparr>e_WrappedDEK := wrapped, e_Body := body\<rparr>"
    by (auto simp: Cipher_Seal_def result_simps)
  have room: "80 \<le> length rnd" using sealed
    by (auto simp: SealRecord_def Pad_eq record_aads seal_def result_simps keySize_def nonceSize_def split: if_split_asm)
  have coords: "coordsOf e' = coordsOf e" by (simp add: coordsOf_def e')
  have valid: "validateContent e' suite1_params = None"
    using SealRecord_sizes [OF assms(1) sealed] assms(3) by (auto simp: validateContent_def e' Let_def)
  show ?thesis using sealed
  proof (rule SealRecord_Inr)
    fix dek r1 r2 r3
    assume k: "length vk = keySize" "length p \<le> MaxPlaintextSize" "length dek = keySize"
      and b: "seal px r1 dek (pad_bytes p) (body_aad (coordsOf e)) = Inr (body, r2)"
      and w: "seal px r2 vk dek (wrap_aad (coordsOf e)) = Inr (wrapped, r3)"
    have "Cipher_Open px vk e' = Inr p"
      unfolding Cipher_Open_def OpenRecord_Inr coords
      using k assms(2) SealRecord_sizes [OF assms(1) sealed] open_seal(1) [OF assms(1) w] open_seal(1) [OF assms(1) b] Unpad_pad [OF k(2)]
      by (simp add: e' coordsOf_def)
    with Inr room valid k show ?thesis by (simp add: keySize_def)
  qed
qed

text \<open>A cipher that authenticates nothing but has the laws asked for, and one sealed record.\<close>

definition toy_primitives :: primitives where
  "toy_primitives = \<lparr>px_Seal = (\<lambda>k n p a. p @ replicate 16 0),
     px_Open = (\<lambda>k n c a. if 16 \<le> length c \<and> drop (length c - 16) c = replicate 16 0 then Some (take (length c - 16) c) else None),
     px_hkdf = (\<lambda>k label n. Some (replicate n 0)),
     px_hpkeSeal = (\<lambda>r key info p. Some (p @ replicate 1136 0)), px_hpkeOpen = (\<lambda>seed info w. Some (take (length w - 1136) w)),
     px_kemPublic = Some, px_validPublic = (\<lambda>_. True), px_edPublic = (\<lambda>_. replicate 32 0), px_edSign = (\<lambda>_ _. replicate 64 0)\<rparr>"

lemma toy_aead: "aead_ok toy_primitives"
  unfolding aead_ok_def
proof (intro conjI allI impI)
  fix k n c a p assume "px_Open toy_primitives k n c a = Some p"
  then have "16 \<le> length c" "drop (length c - 16) c = replicate 16 0" "p = take (length c - 16) c"
    by (auto simp: toy_primitives_def split: if_split_asm)
  then have "p @ replicate 16 0 = c" by (metis append_take_drop_id)
  then show "c = px_Seal toy_primitives k n p a" by (simp add: toy_primitives_def)
qed (simp_all add: toy_primitives_def tagSize_def)

definition toy_envelope :: Envelope where
  "toy_envelope = \<lparr>e_Vault = 1, e_Record = 8, e_Version = 1, e_Epoch = 0, e_Suite = Suite1, e_Deleted = False,
     e_WrappedDEK = [], e_Body = [], e_Author = 7, e_SigAlg = SigEd25519, e_Sig = []\<rparr>"

theorem sealed_records_open_witness:
  "case Cipher_Seal toy_primitives (replicate 80 0) (replicate 32 0) toy_envelope [1, 2] of
     Inl _ \<Rightarrow> False | Inr e' \<Rightarrow> Cipher_Open toy_primitives (replicate 32 0) e' = Inr [1, 2]"
proof -
  have "e_Suite toy_envelope = Suite1" "\<not> e_Deleted toy_envelope" by (simp_all add: toy_envelope_def)
  from sealed_records_open [OF toy_aead this, where rnd = "replicate 80 0" and vk = "replicate 32 0" and p = "[1, 2]"] show ?thesis
    by (cases "Cipher_Seal toy_primitives (replicate 80 0) (replicate 32 0) toy_envelope [1, 2]") (simp_all add: MaxPlaintextSize_def)
qed

text \<open>A server cannot move a ciphertext: when a record sealed at one place - vault, record, version, epoch and
  suite - opens at another place, under another vault key or to another text, the two openings exhibit two different
  inputs that the cipher seals to the same text under one nonce.\<close>

theorem records_open_only_where_sealed:
  assumes "aead_ok px" and "SealRecord px rnd vk c p = Inr (wrapped, body)" and "OpenRecord px vk' c' wrapped body = Inr q"
  shows "vk' = vk \<and> c' = c \<and> q = p \<or>
    (\<exists>n k a t k' a' t'. (k, a, t) \<noteq> (k', a', t') \<and> px_Seal px k n t a = px_Seal px k' n t' a')"
proof (rule ccontr)
  assume neg: "\<not> ?thesis"
  then have inj: "k = k' \<and> a = a' \<and> t = t'" if "px_Seal px k n t a = px_Seal px k' n t' a'" for n k a t k' a' t'
    using that by blast
  from assms(3) obtain dek' padded where
    w': "open_sealed px vk' wrapped (wrap_aad c') = Inr dek'" and b': "open_sealed px dek' body (body_aad c') = Inr padded" and q: "Unpad padded = Inr q"
    unfolding OpenRecord_Inr by blast
  show False using assms(2)
  proof (rule SealRecord_Inr)
    fix dek r1 r2 r3
    assume p: "length p \<le> MaxPlaintextSize"
      and b: "seal px r1 dek (pad_bytes p) (body_aad c) = Inr (body, r2)" and w: "seal px r2 vk dek (wrap_aad c) = Inr (wrapped, r3)"
    have "px_Seal px vk (take nonceSize wrapped) dek (wrap_aad c) = px_Seal px vk' (take nonceSize wrapped) dek' (wrap_aad c')"
      using open_sealed_Inr [OF assms(1) open_seal(1) [OF assms(1) w]] open_sealed_Inr [OF assms(1) w'] by simp
    from inj [OF this] have keys: "vk' = vk" "dek' = dek" by simp_all
    have "px_Seal px dek (take nonceSize body) (pad_bytes p) (body_aad c) = px_Seal px dek' (take nonceSize body) padded (body_aad c')"
      using open_sealed_Inr [OF assms(1) open_seal(1) [OF assms(1) b]] open_sealed_Inr [OF assms(1) b'] by simp
    from inj [OF this] have "body_aad c = body_aad c'" "padded = pad_bytes p" by simp_all
    with q Unpad_pad [OF p] body_aad_inj have "c' = c" "q = p" by auto
    with keys neg show False by blast
  qed
qed

theorem records_open_only_where_sealed_witness:
  "\<exists>wrapped body. SealRecord toy_primitives (replicate 80 0) (replicate 32 0) (coordsOf toy_envelope) [1, 2] = Inr (wrapped, body) \<and>
     OpenRecord toy_primitives (replicate 32 0) (coordsOf toy_envelope) wrapped body = Inr [1, 2] \<and>
     (replicate 32 (0::byte) = replicate 32 0 \<and> coordsOf toy_envelope = coordsOf toy_envelope \<and> [1, 2] = [1, 2::byte] \<or>
    (\<exists>n k a t k' a' t'. (k, a, t) \<noteq> (k', a', t') \<and> px_Seal toy_primitives k n t a = px_Seal toy_primitives k' n t' a'))"
proof -
  obtain wrapped body where s: "SealRecord toy_primitives (replicate 80 0) (replicate 32 0) (coordsOf toy_envelope) [1, 2] = Inr (wrapped, body)"
    by (simp add: SealRecord_def Pad_eq record_aads seal_def ReadFull_def keySize_def nonceSize_def MaxPlaintextSize_def)
  have "OpenRecord toy_primitives (replicate 32 0) (coordsOf toy_envelope) wrapped body = Inr [1, 2]"
    using s
  proof (rule SealRecord_Inr)
    fix dek r1 r2 r3
    assume b: "seal toy_primitives r1 dek (pad_bytes [1, 2]) (body_aad (coordsOf toy_envelope)) = Inr (body, r2)"
      and w: "seal toy_primitives r2 (replicate 32 0) dek (wrap_aad (coordsOf toy_envelope)) = Inr (wrapped, r3)"
    show ?thesis unfolding OpenRecord_Inr
      using SealRecord_sizes [OF toy_aead s] open_seal(1) [OF toy_aead w] open_seal(1) [OF toy_aead b] Unpad_pad [of "[1, 2]"]
      by (simp add: coordsOf_def toy_envelope_def keySize_def MaxPlaintextSize_def)
  qed
  with s records_open_only_where_sealed [OF toy_aead s this] show ?thesis by blast
qed

text \<open>The account's keys survive the server, and nothing else opens as keys: a bundle opens with the export key and the
  account it was sealed for and gives both seeds back, and an opened text is read as keys only when it is exactly the
  label and two 32-byte seeds, in one way.\<close>

theorem bundles_carry_the_keys:
  assumes "aead_ok px" and "SealBundle px rnd exportKey account keys = Inr sealed"
  shows "OpenBundle px exportKey account sealed = Inr keys \<and>
    (\<forall>plain ks. decodeBundle plain = Inr ks \<longleftrightarrow>
      length (ak_IdentitySeed ks) = 32 \<and> length (ak_EncryptionSeed ks) = 32 \<and>
      canon_Encoded (canon_chain [canon_Bytes (ak_IdentitySeed ks), canon_Bytes (ak_EncryptionSeed ks)] (NewCanon LabelBundle)) = Inr plain)"
proof -
  have plain: "canon_Encoded (canon_chain [canon_Bytes (ak_IdentitySeed ks), canon_Bytes (ak_EncryptionSeed ks)] (NewCanon LabelBundle)) =
      canon_result [str_bytes LabelBundle, ak_IdentitySeed ks, ak_EncryptionSeed ks]" for ks
    by (simp add: canon_unfold)
  from assms(2) obtain key aad r where s: "length (ak_IdentitySeed keys) = seedSize" "length (ak_EncryptionSeed keys) = seedSize"
    "bundleKey px exportKey = Inr key" "BundleAAD account Suite1 = Inr aad" "seal px rnd key (bundle_plain keys) aad = Inr (sealed, r)"
    by (auto simp: SealBundle_def plain result_simps bundle_plain_def split: if_split_asm)
  have "OpenBundle px exportKey account sealed = Inr keys"
    using s open_seal(1) [OF assms(1) s(5)] by (simp add: OpenBundle_def or_ErrOpen_def decodeBundle_Inr)
  moreover have "decodeBundle t = Inr ks \<longleftrightarrow> length (ak_IdentitySeed ks) = 32 \<and> length (ak_EncryptionSeed ks) = 32 \<and>
      canon_result [str_bytes LabelBundle, ak_IdentitySeed ks, ak_EncryptionSeed ks] = Inr t" for t ks
    by (auto simp: decodeBundle_Inr seedSize_def bundle_plain_def canon_result_def fits_def MaxUint32_def LabelBundle_def)
  ultimately show ?thesis unfolding plain by blast
qed

theorem bundles_carry_the_keys_witness:
  "\<exists>sealed. SealBundle toy_primitives (replicate 24 0) [1] 4 \<lparr>ak_IdentitySeed = replicate 32 5, ak_EncryptionSeed = replicate 32 6\<rparr> = Inr sealed \<and>
     OpenBundle toy_primitives [1] 4 sealed = Inr \<lparr>ak_IdentitySeed = replicate 32 5, ak_EncryptionSeed = replicate 32 6\<rparr>"
proof -
  obtain sealed where "SealBundle toy_primitives (replicate 24 0) [1] 4 \<lparr>ak_IdentitySeed = replicate 32 5, ak_EncryptionSeed = replicate 32 6\<rparr> = Inr sealed"
    by (simp add: SealBundle_def seedSize_def bundleKey_def toy_primitives_def canon_unfold canon_result_def message_fields seal_def ReadFull_def
        keySize_def nonceSize_def fits_def MaxUint32_def LabelBundle_def)
  with bundles_carry_the_keys [OF toy_aead this] show ?thesis by blast
qed

definition hpke_ok :: "primitives \<Rightarrow> bool" where
  "hpke_ok px \<longleftrightarrow> (\<forall>seed public r info p w. px_kemPublic px seed = Some public \<longrightarrow> px_hpkeSeal px r public info p = Some w \<longrightarrow>
     px_hpkeOpen px seed info w = Some p \<and> length w = 1136 + length p)"

lemma Wrap_Unwrap:
  assumes "hpke_ok px" and "px_kemPublic px seed = Some public" and "WrapVaultKey px rnd public vault epoch member vk = Inr w"
  shows "UnwrapVaultKey px seed vault epoch member w = Inr vk"
proof -
  from assms(3) obtain info where "length vk = keySize" "VKWrapInfo vault epoch member = Inr info" "px_hpkeSeal px rnd public info vk = Some w"
    by (auto simp: WrapVaultKey_def result_simps split: if_split_asm option.split_asm)
  with assms(1,2) show ?thesis by (auto simp: UnwrapVaultKey_def hpke_ok_def or_ErrOpen_def keySize_def)
qed

lemma vault_key_loop_skip:
  "\<forall>op \<in> set ops. o_Epoch op = epoch \<longrightarrow> wrapIn account op = None \<Longrightarrow>
    vault_key_loop px account seed vault epoch (ops @ rest) = vault_key_loop px account seed vault epoch rest"
  by (induction ops) auto

text \<open>The key of an epoch reaches its members: when an operation of the membership log wraps a vault key to the
  public key of a member's seed, and no later operation of that epoch wraps for the member again, the member's key ring
  finds exactly that key, however the operations of other epochs and other members' wraps lie around it.\<close>

theorem wrapped_vault_key_is_found:
  assumes "hpke_ok px" and "px_kemPublic px seed = Some public"
    and "WrapVaultKey px rnd public vault epoch account vk = Inr w"
    and "NewKeyWrap cr account public w = Inr kw" and "o_Epoch op = epoch" and "o_Wraps op = before @ kw # after"
    and "\<forall>b \<in> set before. w_Member b \<noteq> account"
    and "\<forall>later \<in> set ops'. o_Epoch later = epoch \<longrightarrow> account \<notin> w_Member ` set (o_Wraps later)"
  shows "VaultKey px account seed vault epoch (ops @ op # ops') = Inr vk"
proof -
  from assms(4) have kw: "w_Member kw = account" "w_Ciphertext kw = w"
    by (auto simp: NewKeyWrap_def split: if_split_asm sum.split_asm)
  have "find (\<lambda>w. w_Member w = account) (before @ kw # after) = Some kw"
    using assms(7) kw(1) by (induction before) auto
  then have "wrapIn account op = Some w" using kw(2) by (simp add: wrapIn_def assms(6))
  moreover have "\<forall>later \<in> set (rev ops'). o_Epoch later = epoch \<longrightarrow> wrapIn account later = None"
    using assms(8) by (auto simp: wrapIn_def find_None_iff image_iff)
  ultimately show ?thesis
    using Wrap_Unwrap [OF assms(1,2,3)] vault_key_loop_skip [of "rev ops'" epoch account px seed vault "op # rev ops"] assms(5)
    by (simp add: VaultKey_def)
qed

lemma toy_hpke: "hpke_ok toy_primitives"
  by (simp add: hpke_ok_def toy_primitives_def)

theorem wrapped_vault_key_is_found_witness:
  "\<exists>kw. VaultKey toy_primitives 4 [9] 1 0 [ml_create\<lparr>o_Epoch := 0, o_Wraps := [kw]\<rparr>] = Inr (replicate 32 3)"
proof -
  let ?w = "replicate 32 3 @ replicate 1136 0 :: bytes"
  have w: "WrapVaultKey toy_primitives [] [9] 1 0 4 (replicate 32 3) = Inr ?w"
    by (simp add: WrapVaultKey_def keySize_def toy_primitives_def message_fields canon_result_def fits_def MaxUint32_def label_defs)
  obtain kw where kw: "NewKeyWrap vc_crypto 4 [9] ?w = Inr kw"
    by (simp add: NewKeyWrap_def wrapDigest_def EncryptionDigest_def canon_unfold canon_digest_def fits_def MaxUint32_def label_defs)
  have public: "px_kemPublic toy_primitives [9] = Some [9]" by (simp add: toy_primitives_def)
  from wrapped_vault_key_is_found [OF toy_hpke public w kw, of "ml_create\<lparr>o_Epoch := 0, o_Wraps := [kw]\<rparr>" "[]" "[]" "[]" "[]"]
  show ?thesis by auto
qed

end
