(* ===== verification/Sync_Push.thy ===== *)
theory Sync_Push
  imports Sync_Verified Sync_Crypto
begin

text \<open>
  Pushing one vault (\<open>usecase/sync_push.go\<close>, \<open>sync_batch.go\<close>, of \<open>sync_retention.go\<close>, \<open>sync_trash.go\<close>, \<open>sync_epoch.go\<close>
  and \<open>sync_held.go\<close> what a round runs): finding what changed here, sealing and signing it, cutting it into commits the server
  takes, the outbox around sending, and the round of pull, push and upkeep.

  Go walks the maps of local items and of the base in no particular order; the model walks them by record id, which
  is also the order \<open>localChanges\<close> sorts its result into. Randomness is read like the clock: each reading of a run has a number.
  Looking after a team's keys and rotating a vault's key are parameters of \<open>retain\<close>.
\<close>

section \<open>Batches\<close>

definition maxCommitRecords :: nat where "maxCommitRecords = 500"
definition maxCommitWireBytes :: nat where "maxCommitWireBytes = 16 * 2 ^ 20"
definition envelopeWireOverhead :: nat where "envelopeWireOverhead = 512"

record commitBatch =
  cb_records :: "Envelope list"
  cb_purged :: "ID list"
  cb_wire :: nat
  cb_deletions :: bool

definition empty_batch :: commitBatch where
  "empty_batch = \<lparr>cb_records = [], cb_purged = [], cb_wire = 0, cb_deletions = False\<rparr>"

definition batch_size :: "commitBatch \<Rightarrow> nat" where
  "batch_size b = length (cb_records b) + length (cb_purged b)"

text \<open>\<open>base64.StdEncoding.EncodedLen\<close>\<close>

definition EncodedLen :: "nat \<Rightarrow> nat" where
  "EncodedLen n = (n + 2) div 3 * 4"

definition envelopeWireBytes :: "Envelope \<Rightarrow> nat" where
  "envelopeWireBytes e =
    EncodedLen (length (e_WrappedDEK e)) + EncodedLen (length (e_Body e)) + EncodedLen (length (e_Sig e)) + envelopeWireOverhead"

definition takes :: "commitBatch \<Rightarrow> Envelope \<Rightarrow> bool" where
  "takes b e =
    (if batch_size b = 0 then True
     else cb_deletions b = e_Deleted e \<and> batch_size b < maxCommitRecords \<and> cb_wire b + envelopeWireBytes e \<le> maxCommitWireBytes)"

definition add_record :: "Envelope \<Rightarrow> commitBatch \<Rightarrow> commitBatch" where
  "add_record e b =
    b\<lparr>cb_deletions := (if batch_size b = 0 then e_Deleted e else cb_deletions b), cb_records := cb_records b @ [e],
      cb_wire := cb_wire b + envelopeWireBytes e\<rparr>"

definition add_purge :: "ID \<Rightarrow> commitBatch \<Rightarrow> commitBatch" where
  "add_purge i b = b\<lparr>cb_purged := cb_purged b @ [i]\<rparr>"

record 'r change =
  ch_id :: ID
  ch_entry :: "'r Entry"
  ch_schema :: u16

definition deletionsFirst :: "'r change list \<Rightarrow> 'r change list" where
  "deletionsFirst changes = sort_key (\<lambda>c. if en_Data (ch_entry c) = None then 0 else 1 :: nat) changes"

section \<open>Sealing and signing\<close>

definition sealChange :: "('r, 'd, 'h) engine \<Rightarrow> 'r change \<Rightarrow> u32 \<Rightarrow> 'r pullRun \<Rightarrow> 'r pullRun \<times> Envelope sync_result" where
  "sealChange eg ch epoch p =
    (let env = \<lparr>e_Vault = pr_vault p, e_Record = ch_id ch, e_Version = fst (VaultState_Version (pr_state p) (ch_id ch)) + 1, e_Epoch = epoch,
           e_Suite = CurrentSuite, e_Deleted = (en_Data (ch_entry ch) = None), e_WrappedDEK = [], e_Body = [],
           e_Author = kr_Device (eg_Keys eg), e_SigAlg = SigEd25519, e_Sig = []\<rparr>;
         p' = p\<lparr>pr_clock := Suc (pr_clock p)\<rparr>;
         sealed = (case en_Data (ch_entry ch) of
             None \<Rightarrow> Inr env
           | Some data \<Rightarrow>
               bind_res (EncodeBody eg \<lparr>bd_Type = en_Type (ch_entry ch), bd_Schema = max (ch_schema ch) 1, bd_Data = data\<rparr>) (\<lambda>raw.
               bind_res (kr_VaultKey (eg_Keys eg) (pr_vault p) epoch (pr_ops p)) (\<lambda>vk.
               bind_res (eg_Seal eg (pr_clock p) vk env raw) (\<lambda>(dek, body). Inr (env\<lparr>e_WrappedDEK := dek, e_Body := body\<rparr>)))))
     in (p', bind_res sealed (\<lambda>env.
          bind_res (dom_res (Envelope_SigningBytes env)) (\<lambda>msg.
          bind_res (kr_Sign (eg_Keys eg) msg) (\<lambda>sig. Inr (env\<lparr>e_Sig := sig\<rparr>))))))"

fun put_leaves :: "crypto \<Rightarrow> Envelope list \<Rightarrow> (ID, Leaf) go_map \<Rightarrow> (ID, Leaf) go_map result" where
  "put_leaves cr [] leaves = Inr leaves"
| "put_leaves cr (e # es) leaves =
    (case LeafOf cr e of Inl err \<Rightarrow> Inl err | Inr l \<Rightarrow> put_leaves cr es (fmupd (l_Record l) l leaves))"

definition signHead :: "('r, 'd, 'h) engine \<Rightarrow> Envelope list \<Rightarrow> ID list \<Rightarrow> MembershipState \<Rightarrow> 'r pullRun \<Rightarrow> 'r pullRun \<times> Head sync_result" where
  "signHead eg records purged m p =
    (let cr = eg_cr eg; s = pr_state p; n = pr_clock p; cur = vs_cursor s;
         kept = fold fmdrop purged (fold (\<lambda>l. fmupd (l_Record l) l) (VaultState_Leaves s) fmempty)
     in (p\<lparr>pr_clock := Suc n\<rparr>,
       bind_res (dom_res (put_leaves cr records kept)) (\<lambda>leaves.
       bind_res (dom_res (MerkleRoot cr (VaultState_Leaves (s\<lparr>vs_leaves := leaves\<rparr>)))) (\<lambda>root.
       bind_res (dom_res (NewID (eg_rand eg n))) (\<lambda>(commitID, _).
       let h = \<lparr>h_Vault = pr_vault p, h_Seq = cur_Seq cur + 1, h_PrevHash = cur_Hash cur, h_MerkleRoot = root, h_CurrentEpoch = ms_epoch m,
             h_MembershipSeq = ms_seq m, h_MembershipHead = ms_hash m, h_Commit = commitID, h_Author = kr_Device (eg_Keys eg),
             h_ClientTimeUnixMilli = word_of_int (max (eg_NowUnixMilli eg n) 0), h_SigAlg = SigEd25519, h_Sig = []\<rparr> in
       bind_res (dom_res (Head_SigningBytes h)) (\<lambda>msg.
       bind_res (kr_Sign (eg_Keys eg) msg) (\<lambda>sig. Inr (h\<lparr>h_Sig := sig\<rparr>))))))))"

section \<open>Sending\<close>

definition neverStored :: "sync_err \<Rightarrow> bool" where
  "neverStored err = list_ex (\<lambda>e. case e of ConflictError _ \<Rightarrow> True | sync_error.ErrPurgeNotDue \<Rightarrow> True | ErrRemoteTooLarge \<Rightarrow> True
     | ErrRemoteQuota \<Rightarrow> True | ErrRemoteForbidden \<Rightarrow> True | ErrRemoteNotFound \<Rightarrow> True | ErrRemoteMalformed \<Rightarrow> True | _ \<Rightarrow> False) err"

definition adopt :: "('r, 'd, 'h) engine \<Rightarrow> Commit \<Rightarrow> (('d, 'r) run_world, unit) action" where
  "adopt eg c =
    bind_w (members eg (h_MembershipSeq (cm_Head c))) (\<lambda>m.
    bind_w (of_run id) (\<lambda>p.
    bind_w (pure_w (integ_res (ApplyCommit (eg_cr eg) (pr_state p) c m (pr_resolve p)))) (\<lambda>vs.
    bind_w (write_db (AdvanceVault (cm_Head c) (cm_Records c) (cm_Purged c))) (\<lambda>_.
    bind_w (upd_run (advance vs c)) (\<lambda>_.
    write_db (\<lambda>d. Inr (ClearOutbox (pr_vault p) (h_Commit (cm_Head c)) d)))))))"

definition flushOutbox :: "('r, 'd, 'h) engine \<Rightarrow> (('d, 'r) run_world, unit) action" where
  "flushOutbox eg w =
    (case Outbox (wd_db w) (pr_vault (rw_run w)) of
       None \<Rightarrow> (w, Inr ())
     | Some c \<Rightarrow>
         (case ask (\<lambda>n. ss_Commit (eg_Server eg) n c) w of
            (w, Inl err) \<Rightarrow>
              if neverStored err then write_db (\<lambda>d. Inr (ClearOutbox (pr_vault (rw_run w)) (h_Commit (cm_Head c)) d)) w
              else (w, Inl err)
          | (w, Inr _) \<Rightarrow> adopt eg c w))"

definition send :: "('r, 'd, 'h) engine \<Rightarrow> Commit \<Rightarrow> (('d, 'r) run_world, unit) action" where
  "send eg c =
    bind_w (write_db (PutOutbox c)) (\<lambda>_. \<lambda>w.
      case ask (\<lambda>n. ss_Commit (eg_Server eg) n c) w of
        (w, Inl err) \<Rightarrow>
          if neverStored err
          then (fst (write_db (\<lambda>d. Inr (ClearOutbox (pr_vault (rw_run w)) (h_Commit (cm_Head c)) d)) w), Inl err)
          else (w, Inl err)
      | (w, Inr _) \<Rightarrow> adopt eg c w)"

text \<open>\<open>flush\<close> of \<open>commitAll\<close>: it sends the batch and says how many records it carried.\<close>

definition flush :: "('r, 'd, 'h) engine \<Rightarrow> MembershipState \<Rightarrow> commitBatch \<Rightarrow> (('d, 'r) run_world, nat) action" where
  "flush eg m b =
    (if batch_size b = 0 then pure_w (Inr 0)
     else bind_w (on_run (signHead eg (cb_records b) (cb_purged b) m)) (\<lambda>head.
       bind_w (send eg \<lparr>cm_Head = head, cm_Records = cb_records b, cm_Purged = cb_purged b\<rparr>) (\<lambda>_.
       pure_w (Inr (length (cb_records b))))))"

text \<open>The loops of \<open>commitAll\<close>: the number of records sent so far comes with the outcome, an error included.\<close>

fun commit_records :: "('r, 'd, 'h) engine \<Rightarrow> MembershipState \<Rightarrow> 'r change list \<Rightarrow> commitBatch \<Rightarrow> nat \<Rightarrow> ('d, 'r) run_world \<Rightarrow>
    ('d, 'r) run_world \<times> nat \<times> commitBatch sync_result" where
  "commit_records eg m [] b sent w = (w, sent, Inr b)"
| "commit_records eg m (ch # chs) b sent w =
    (case on_run (sealChange eg ch (ms_epoch m)) w of
       (w, Inl err) \<Rightarrow> (w, sent, Inl err)
     | (w, Inr env) \<Rightarrow>
         if takes b env then commit_records eg m chs (add_record env b) sent w
         else (case flush eg m b w of
             (w, Inl err) \<Rightarrow> (w, sent, Inl err)
           | (w, Inr n) \<Rightarrow> commit_records eg m chs (add_record env empty_batch) (sent + n) w))"

fun commit_purges :: "('r, 'd, 'h) engine \<Rightarrow> MembershipState \<Rightarrow> ID list \<Rightarrow> commitBatch \<Rightarrow> nat \<Rightarrow> ('d, 'r) run_world \<Rightarrow>
    ('d, 'r) run_world \<times> nat \<times> commitBatch sync_result" where
  "commit_purges eg m [] b sent w = (w, sent, Inr b)"
| "commit_purges eg m (i # is) b sent w =
    (if batch_size b < maxCommitRecords then commit_purges eg m is (add_purge i b) sent w
     else (case flush eg m b w of
         (w, Inl err) \<Rightarrow> (w, sent, Inl err)
       | (w, Inr n) \<Rightarrow> commit_purges eg m is (add_purge i empty_batch) (sent + n) w))"

definition commitAll :: "('r, 'd, 'h) engine \<Rightarrow> 'r change list \<Rightarrow> ID list \<Rightarrow> ('d, 'r) run_world \<Rightarrow> ('d, 'r) run_world \<times> nat \<times> unit sync_result" where
  "commitAll eg changes purged w =
    (case members eg (word_of_nat (length (pr_ops (rw_run w)))) w of
       (w, Inl err) \<Rightarrow> (w, 0, Inl err)
     | (w, Inr m) \<Rightarrow>
         (case commit_records eg m (deletionsFirst changes) empty_batch 0 w of
            (w, sent, Inl err) \<Rightarrow> (w, sent, Inl err)
          | (w, sent, Inr b) \<Rightarrow>
              (case commit_purges eg m purged b sent w of
                 (w, sent, Inl err) \<Rightarrow> (w, sent, Inl err)
               | (w, sent, Inr b) \<Rightarrow>
                   (case flush eg m b w of
                      (w, Inl err) \<Rightarrow> (w, sent, Inl err)
                    | (w, Inr n) \<Rightarrow> (w, sent + n, Inr ())))))"

section \<open>Batches stay within the limits\<close>

definition within_limits :: "Commit \<Rightarrow> bool" where
  "within_limits c \<longleftrightarrow>
    0 < length (cm_Records c) + length (cm_Purged c) \<and> length (cm_Records c) + length (cm_Purged c) \<le> maxCommitRecords \<and>
    (length (cm_Records c) \<le> 1 \<or> sum_list (map envelopeWireBytes (cm_Records c)) \<le> maxCommitWireBytes) \<and>
    (\<forall>r \<in> set (cm_Records c). \<forall>r' \<in> set (cm_Records c). e_Deleted r = e_Deleted r')"

definition batch_ok :: "commitBatch \<Rightarrow> bool" where
  "batch_ok b \<longleftrightarrow> batch_size b \<le> maxCommitRecords \<and> cb_wire b = sum_list (map envelopeWireBytes (cb_records b)) \<and>
    (length (cb_records b) \<le> 1 \<or> cb_wire b \<le> maxCommitWireBytes) \<and> (\<forall>r \<in> set (cb_records b). e_Deleted r = cb_deletions b)"

lemma batch_ok_empty [simp]: "batch_ok empty_batch"
  by (simp add: batch_ok_def empty_batch_def batch_size_def maxCommitRecords_def)

lemma takes_empty [simp]: "takes empty_batch e"
  by (simp add: takes_def empty_batch_def batch_size_def)

lemma batch_ok_record:
  assumes "batch_ok b" and "takes b e"
  shows "batch_ok (add_record e b)"
proof (cases "batch_size b = 0")
  case True
  with assms show ?thesis by (simp add: batch_ok_def add_record_def batch_size_def maxCommitRecords_def)
next
  case False
  with assms(2) have t: "e_Deleted e = cb_deletions b" "batch_size b < maxCommitRecords" "cb_wire b + envelopeWireBytes e \<le> maxCommitWireBytes"
    by (auto simp: takes_def)
  from False have a: "cb_records (add_record e b) = cb_records b @ [e]" "cb_deletions (add_record e b) = cb_deletions b"
    "cb_wire (add_record e b) = cb_wire b + envelopeWireBytes e" "batch_size (add_record e b) = Suc (batch_size b)"
    by (auto simp: add_record_def batch_size_def)
  have "\<forall>r \<in> set (cb_records b @ [e]). e_Deleted r = cb_deletions b"
    using assms(1) t(1) unfolding batch_ok_def by auto
  then show ?thesis using assms(1) t(2,3) unfolding batch_ok_def a by simp
qed

lemma batch_ok_purge: "batch_ok b \<Longrightarrow> batch_size b < maxCommitRecords \<Longrightarrow> batch_ok (add_purge i b)"
  by (auto simp: batch_ok_def add_purge_def batch_size_def)

lemma batch_within: "batch_ok b \<Longrightarrow> batch_size b \<noteq> 0 \<Longrightarrow> within_limits \<lparr>cm_Head = h, cm_Records = cb_records b, cm_Purged = cb_purged b\<rparr>"
  by (auto simp: batch_ok_def within_limits_def batch_size_def)

text \<open>A server that refuses every commit beyond the limits.\<close>

definition limited :: "SyncServer \<Rightarrow> SyncServer" where
  "limited sv = sv\<lparr>ss_Commit := (\<lambda>n c. if within_limits c then ss_Commit sv n c else Inl [ErrRemoteTooLarge])\<rparr>"

lemma EncodeBody_server: "EncodeBody (eg\<lparr>eg_Server := sv\<rparr>) = EncodeBody eg"
  by (simp add: EncodeBody_def fun_eq_iff)

lemma other_server:
  "members (eg\<lparr>eg_Server := sv\<rparr>) = members eg" "sealChange (eg\<lparr>eg_Server := sv\<rparr>) = sealChange eg"
  "signHead (eg\<lparr>eg_Server := sv\<rparr>) = signHead eg" "adopt (eg\<lparr>eg_Server := sv\<rparr>) = adopt eg"
proof -
  show m: "members (eg\<lparr>eg_Server := sv\<rparr>) = members eg" by (simp add: members_def [abs_def])
  show "sealChange (eg\<lparr>eg_Server := sv\<rparr>) = sealChange eg"
    by (simp add: sealChange_def [abs_def] EncodeBody_server cong: if_cong option.case_cong)
  show "signHead (eg\<lparr>eg_Server := sv\<rparr>) = signHead eg" by (simp add: signHead_def [abs_def])
  show "adopt (eg\<lparr>eg_Server := sv\<rparr>) = adopt eg" by (simp add: adopt_def [abs_def] m)
qed

lemma send_limited: "within_limits c \<Longrightarrow> send (eg\<lparr>eg_Server := limited (eg_Server eg)\<rparr>) c = send eg c"
  by (auto simp: send_def bind_w_def ask_def other_server limited_def fun_eq_iff split: sum.split prod.split)

lemma flush_limited: "batch_ok b \<Longrightarrow> flush (eg\<lparr>eg_Server := limited (eg_Server eg)\<rparr>) m b = flush eg m b"
  by (auto simp: flush_def other_server send_limited batch_within)

lemma commit_records_limited:
  assumes "batch_ok b"
  shows "commit_records (eg\<lparr>eg_Server := limited (eg_Server eg)\<rparr>) m chs b sent w = commit_records eg m chs b sent w \<and>
    (case commit_records eg m chs b sent w of (_, _, x) \<Rightarrow> case x of Inl _ \<Rightarrow> True | Inr b' \<Rightarrow> batch_ok b')"
  using assms
  by (induction eg m chs b sent w rule: commit_records.induct)
     (auto simp: other_server flush_limited batch_ok_record split: prod.split sum.split if_split)

lemma commit_purges_limited:
  assumes "batch_ok b"
  shows "commit_purges (eg\<lparr>eg_Server := limited (eg_Server eg)\<rparr>) m is b sent w = commit_purges eg m is b sent w \<and>
    (case commit_purges eg m is b sent w of (_, _, x) \<Rightarrow> case x of Inl _ \<Rightarrow> True | Inr b' \<Rightarrow> batch_ok b')"
  using assms
proof (induction eg m "is" b sent w rule: commit_purges.induct)
  case (2 eg m i "is" b sent w)
  have "batch_size empty_batch < maxCommitRecords" by (simp add: empty_batch_def batch_size_def maxCommitRecords_def)
  with 2 show ?case
    by (auto simp: flush_limited batch_ok_purge split: prod.split sum.split if_split)
qed simp

section \<open>Every change is sent\<close>

lemma deletionsFirst_mset: "mset (deletionsFirst chs) = mset chs"
  by (simp add: deletionsFirst_def)

lemma flush_count: "flush eg m b w = (w', Inr n) \<Longrightarrow> n = length (cb_records b)"
  by (auto simp: flush_def bind_w_Inr simple_actions batch_size_def split: if_split_asm)

lemma add_counts [simp]: "length (cb_records (add_record e b)) = Suc (length (cb_records b))" "cb_records (add_purge i b) = cb_records b"
  "cb_records empty_batch = []"
  by (simp_all add: add_record_def add_purge_def empty_batch_def)

lemma commit_records_count:
  "commit_records eg m chs b sent w = (w', n, x) \<Longrightarrow>
    (case x of Inl _ \<Rightarrow> n \<le> sent + length (cb_records b) + length chs | Inr b' \<Rightarrow> n + length (cb_records b') = sent + length (cb_records b) + length chs)"
proof (induction eg m chs b sent w arbitrary: w' n x rule: commit_records.induct)
  case (2 eg m ch chs b sent w)
  show ?case
  proof (cases "on_run (sealChange eg ch (ms_epoch m)) w")
    case (Pair w1 y)
    show ?thesis
    proof (cases y)
      case (Inl err)
      with 2(3) Pair show ?thesis by auto
    next
      case (Inr env)
      show ?thesis
      proof (cases "takes b env")
        case True
        with 2(1) [OF Pair [symmetric] Inr True] 2(3) Pair Inr show ?thesis by (auto split: sum.splits)
      next
        case False
        obtain w2 z where f: "flush eg m b w1 = (w2, z)" by force
        show ?thesis
        proof (cases z)
          case z: (Inl err)
          with 2(3) Pair Inr False f show ?thesis by auto
        next
          case z: (Inr k)
          with f flush_count have "k = length (cb_records b)" by blast
          with 2(2) [OF Pair [symmetric] Inr False f [symmetric] z] 2(3) Pair Inr False f z show ?thesis by (auto split: sum.splits)
        qed
      qed
    qed
  qed
qed auto

lemma commit_purges_count:
  "commit_purges eg m is b sent w = (w', n, x) \<Longrightarrow>
    (case x of Inl _ \<Rightarrow> n \<le> sent + length (cb_records b) | Inr b' \<Rightarrow> n + length (cb_records b') = sent + length (cb_records b))"
proof (induction eg m "is" b sent w arbitrary: w' n x rule: commit_purges.induct)
  case (2 eg m i "is" b sent w)
  show ?case
  proof (cases "batch_size b < maxCommitRecords")
    case True
    with 2(1,3) show ?thesis by (auto split: sum.splits)
  next
    case False
    obtain w2 z where f: "flush eg m b w = (w2, z)" by force
    show ?thesis
    proof (cases z)
      case z: (Inl err)
      with 2(3) False f show ?thesis by auto
    next
      case z: (Inr k)
      with f flush_count have "k = length (cb_records b)" by blast
      with 2(2) [OF False f [symmetric] z] 2(3) False f z show ?thesis by (auto split: sum.splits)
    qed
  qed
qed auto

section \<open>A commit the device built\<close>

text \<open>The leaves a commit's records put into a map.\<close>

definition put_all :: "Leaf list \<Rightarrow> (ID, Leaf) go_map \<Rightarrow> (ID, Leaf) go_map" where
  "put_all ls m = fold (\<lambda>l. fmupd (l_Record l) l) ls m"

lemma put_all_simps [simp]: "put_all [] m = m" "put_all (l # ls) m = put_all ls (fmupd (l_Record l) l m)"
  by (simp_all add: put_all_def)

lemma put_all_lookup:
  "distinct (map l_Record ls) \<Longrightarrow> fmlookup (put_all ls m) i = (case map_of (map (\<lambda>l. (l_Record l, l)) ls) i of None \<Rightarrow> fmlookup m i | Some l \<Rightarrow> Some l)"
proof (induction ls arbitrary: m)
  case (Cons l ls)
  have "map_of (map (\<lambda>l. (l_Record l, l)) ls) (l_Record l) = None"
    using Cons.prems by (auto simp: map_of_eq_None_iff)
  with Cons show ?case by (auto split: option.split)
qed simp

lemma put_leaves_Inr:
  "put_leaves cr es m = Inr m' \<Longrightarrow> \<exists>ls. list_all2 (\<lambda>e l. LeafOf cr e = Inr l) es ls \<and> m' = put_all ls m"
proof (induction es arbitrary: m)
  case (Cons e es)
  then obtain l where l: "LeafOf cr e = Inr l" "put_leaves cr es (fmupd (l_Record l) l m) = Inr m'" by (auto split: sum.split_asm)
  from Cons.IH [OF l(2)] obtain ls where "list_all2 (\<lambda>e l. LeafOf cr e = Inr l) es ls" "m' = put_all ls (fmupd (l_Record l) l m)" by blast
  with l(1) show ?case by (intro exI [of _ "l # ls"]) simp
qed simp

lemma leaves_records: "list_all2 (\<lambda>e l. LeafOf cr e = Inr l) es ls \<Longrightarrow> map l_Record ls = map e_Record es"
  by (induction es ls rule: list_all2_induct) (auto dest: LeafOf_Inr)

lemma records_loop_complete:
  assumes "list_all2 (\<lambda>e l. LeafOf cr e = Inr l) es ls" and "distinct (map e_Record es)"
    and "\<forall>e \<in> set es. e_Record e |\<notin>| seen \<and> e_Vault e = vault \<and> e_Author e = author \<and> Envelope_Verify cr e key = None \<and>
      e_Epoch e = epoch \<and> e_Version e = leaf_version m (e_Record e) + 1"
  shows "records_loop cr vault author key epoch es seen m = Inr (put_all ls m)"
  using assms
proof (induction es ls arbitrary: seen m rule: list_all2_induct)
  case (Cons e es l ls)
  have r: "l_Record l = e_Record e" using LeafOf_Inr [OF Cons.hyps(1)] by simp
  have "\<forall>f \<in> set es. e_Record f |\<notin>| finsert (e_Record e) seen \<and> e_Vault f = vault \<and> e_Author f = author \<and> Envelope_Verify cr f key = None \<and>
      e_Epoch f = epoch \<and> e_Version f = leaf_version (fmupd (e_Record e) l m) (e_Record f) + 1"
  proof
    fix f assume f: "f \<in> set es"
    then have "e_Record f \<in> e_Record ` set es" by (rule imageI)
    then have "e_Record f \<noteq> e_Record e" using Cons.prems(1) by (metis distinct.simps(2) list.set_map list.simps(9))
    moreover from this have "leaf_version (fmupd (e_Record e) l m) (e_Record f) = leaf_version m (e_Record f)" by (simp add: leaf_version_def)
    ultimately show "e_Record f |\<notin>| finsert (e_Record e) seen \<and> e_Vault f = vault \<and> e_Author f = author \<and> Envelope_Verify cr f key = None \<and>
      e_Epoch f = epoch \<and> e_Version f = leaf_version (fmupd (e_Record e) l m) (e_Record f) + 1"
      using bspec [OF Cons.prems(2), of f] f by simp
  qed
  from Cons.IH [OF _ this] Cons.prems Cons.hyps(1) show ?case by (simp add: r)
qed simp

lemma purge_loop_complete:
  assumes "distinct is" and "\<forall>i \<in> set is. i |\<notin>| written \<and> (\<exists>l. fmlookup m i = Some l \<and> l_Deleted l)"
  shows "purge_loop written is m = Inr (fold fmdrop is m)"
  using assms
proof (induction "is" arbitrary: m)
  case (Cons i "is")
  then obtain l where "fmlookup m i = Some l" "l_Deleted l" "i |\<notin>| written" by auto
  moreover have "\<forall>j \<in> set is. j |\<notin>| written \<and> (\<exists>l. fmlookup (fmdrop i m) j = Some l \<and> l_Deleted l)"
    using Cons.prems by auto
  ultimately show ?case using Cons.IH [of "fmdrop i m"] Cons.prems(1) by simp
qed simp

lemma fold_fmdrop_lookup: "fmlookup (fold fmdrop is m) r = (if r \<in> set is then None else fmlookup m r)"
  by (induction "is" arbitrary: m) auto

lemma put_all_leaves: "keyed s \<Longrightarrow> put_all (VaultState_Leaves s) fmempty = vs_leaves s"
proof (rule fmap_ext)
  fix i
  assume k: "keyed s"
  have "map_of (map (\<lambda>l. (l_Record l, l)) (VaultState_Leaves s)) i = fmlookup (vs_leaves s) i"
  proof (cases "fmlookup (vs_leaves s) i")
    case None
    then have "i \<notin> l_Record ` set (VaultState_Leaves s)" using Leaves_lookup [OF k, of i] by auto
    with None show ?thesis by (auto simp: map_of_eq_None_iff image_iff)
  next
    case (Some l)
    then have "l \<in> set (VaultState_Leaves s)" "l_Record l = i" using k by (auto simp: Leaves_set keyed_def)
    then have "(i, l) \<in> set (map (\<lambda>l. (l_Record l, l)) (VaultState_Leaves s))" by auto
    moreover have "distinct (map fst (map (\<lambda>l. (l_Record l, l)) (VaultState_Leaves s)))" using Leaves_distinct [OF k] by (simp add: comp_def)
    ultimately show ?thesis using Some map_of_is_SomeI by simp
  qed
  then show "fmlookup (put_all (VaultState_Leaves s) fmempty) i = fmlookup (vs_leaves s) i"
    using put_all_lookup [OF Leaves_distinct [OF k]] by (simp split: option.split)
qed

text \<open>The device's own cipher, key ring and signatures.\<close>

definition ed_ok :: "crypto \<Rightarrow> primitives \<Rightarrow> bool" where
  "ed_ok cr px \<longleftrightarrow> (\<forall>seed msg. length (px_edPublic px seed) = 32 \<and> length (px_edSign px seed msg) = 64 \<and>
     ed25519_Verify cr (px_edPublic px seed) msg (px_edSign px seed msg))"

definition own_device :: "primitives \<Rightarrow> (nat \<Rightarrow> bytes) \<Rightarrow> SyncAccount \<Rightarrow> ('r, 'd, 'h) engine \<Rightarrow> bool" where
  "own_device px rnd a eg \<longleftrightarrow> eg_Seal eg = (\<lambda>n vk e raw. SealRecord px (rnd n) vk (coordsOf e) raw) \<and>
     NewSyncKeyRing px (Some a) = Inr (eg_Keys eg)"

lemma own_device_sign: "own_device px rnd a eg \<Longrightarrow> kr_Sign (eg_Keys eg) msg = Inr (px_edSign px (ac_DeviceSeed a) msg)"
proof -
  assume "own_device px rnd a eg"
  then have "Inr (eg_Keys eg) = NewSyncKeyRing px (Some a)" by (simp add: own_device_def)
  then show ?thesis by (auto simp: NewSyncKeyRing_def Let_def split: if_split_asm)
qed

lemma sealChange_Inr:
  assumes "aead_ok px" and "ed_ok (eg_cr eg) px" and "own_device px rnd a eg"
    and "sealChange eg ch epoch q = (q', Inr e)"
    and "pr_vault q \<noteq> 0" and "ch_id ch \<noteq> 0" and "kr_Device (eg_Keys eg) \<noteq> 0" and "fst (VaultState_Version (pr_state q) (ch_id ch)) + 1 \<noteq> 0"
  shows "e_Vault e = pr_vault q \<and> e_Record e = ch_id ch \<and> e_Version e = fst (VaultState_Version (pr_state q) (ch_id ch)) + 1 \<and>
    e_Epoch e = epoch \<and> e_Author e = kr_Device (eg_Keys eg) \<and> e_Deleted e = (en_Data (ch_entry ch) = None) \<and>
    Envelope_Verify (eg_cr eg) e (px_edPublic px (ac_DeviceSeed a)) = None"
proof -
  let ?e = "\<lparr>e_Vault = pr_vault q, e_Record = ch_id ch, e_Version = fst (VaultState_Version (pr_state q) (ch_id ch)) + 1, e_Epoch = epoch,
    e_Suite = CurrentSuite, e_Deleted = (en_Data (ch_entry ch) = None), e_WrappedDEK = [], e_Body = [],
    e_Author = kr_Device (eg_Keys eg), e_SigAlg = SigEd25519, e_Sig = []\<rparr>"
  from assms(4) obtain dek body msg where
    e: "e = ?e\<lparr>e_WrappedDEK := dek, e_Body := body, e_Sig := px_edSign px (ac_DeviceSeed a) msg\<rparr>"
    and msg: "Envelope_SigningBytes (?e\<lparr>e_WrappedDEK := dek, e_Body := body\<rparr>) = Inr msg"
    and content: "if en_Data (ch_entry ch) = None then dek = [] \<and> body = [] else (\<exists>n vk raw. SealRecord px (rnd n) vk (coordsOf ?e) raw = Inr (dek, body))"
    using own_device_sign [OF assms(3)] assms(3)
    by (auto simp: sealChange_def Let_def result_simps own_device_def split: option.split_asm) force+
  have "validateContent (?e\<lparr>e_WrappedDEK := dek, e_Body := body, e_Sig := px_edSign px (ac_DeviceSeed a) msg\<rparr>) suite1_params = None"
  proof (cases "en_Data (ch_entry ch) = None")
    case False
    with content obtain n vk raw where "SealRecord px (rnd n) vk (coordsOf ?e) raw = Inr (dek, body)" by auto
    from SealRecord_sizes [OF assms(1) this] False show ?thesis by (auto simp: validateContent_def Let_def)
  qed (use content in \<open>simp add: validateContent_def\<close>)
  moreover have "length (px_edSign px (ac_DeviceSeed a) msg) = 64" using assms(2) by (simp add: ed_ok_def)
  ultimately have "Envelope_Validate e = None"
    using assms(5-8) by (simp add: e Envelope_Validate_def ID_IsZero_def CurrentSuite_def ed25519_SignatureSize_def)
  moreover have "Envelope_SigningBytes e = Inr msg" using msg by (simp add: e Envelope_SigningBytes_def)
  moreover have "VerifySignature (eg_cr eg) (e_SigAlg e) (px_edPublic px (ac_DeviceSeed a)) msg (e_Sig e) = None"
    using assms(2) by (simp add: e VerifySignature_None ed_ok_def)
  ultimately show ?thesis by (simp add: Envelope_Verify_None) (simp add: e)
qed

lemma signHead_Inr:
  assumes "signHead eg records purged m p = (p', Inr h)" and "vs_ok (pr_state p)" and "own_device px rnd a eg"
  obtains ls msg where "list_all2 (\<lambda>e l. LeafOf (eg_cr eg) e = Inr l) records ls"
    "MerkleRoot (eg_cr eg) (VaultState_Leaves ((pr_state p)\<lparr>vs_leaves := put_all ls (fold fmdrop purged (vs_leaves (pr_state p)))\<rparr>)) = Inr (h_MerkleRoot h)"
    "h_Vault h = pr_vault p" "h_Seq h = cur_Seq (vs_cursor (pr_state p)) + 1" "h_PrevHash h = cur_Hash (vs_cursor (pr_state p))"
    "h_CurrentEpoch h = ms_epoch m" "h_MembershipSeq h = ms_seq m" "h_MembershipHead h = ms_hash m" "h_Author h = kr_Device (eg_Keys eg)"
    "h_SigAlg h = SigEd25519" "Head_SigningBytes h = Inr msg" "h_Sig h = px_edSign px (ac_DeviceSeed a) msg"
proof -
  have "fold (\<lambda>l. fmupd (l_Record l) l) (VaultState_Leaves (pr_state p)) fmempty = vs_leaves (pr_state p)"
    using put_all_leaves [OF vs_ok_keyed [OF assms(2)]] by (simp add: put_all_def)
  with assms(1) own_device_sign [OF assms(3)] obtain leaves root i r msg where
    l: "put_leaves (eg_cr eg) records (fold fmdrop purged (vs_leaves (pr_state p))) = Inr leaves"
    and root: "MerkleRoot (eg_cr eg) (VaultState_Leaves ((pr_state p)\<lparr>vs_leaves := leaves\<rparr>)) = Inr root"
    and h: "h = \<lparr>h_Vault = pr_vault p, h_Seq = cur_Seq (vs_cursor (pr_state p)) + 1, h_PrevHash = cur_Hash (vs_cursor (pr_state p)), h_MerkleRoot = root,
      h_CurrentEpoch = ms_epoch m, h_MembershipSeq = ms_seq m, h_MembershipHead = ms_hash m, h_Commit = i, h_Author = kr_Device (eg_Keys eg),
      h_ClientTimeUnixMilli = word_of_int (max (eg_NowUnixMilli eg (pr_clock p)) 0), h_SigAlg = SigEd25519, h_Sig = px_edSign px (ac_DeviceSeed a) msg\<rparr>"
    and msg: "Head_SigningBytes \<lparr>h_Vault = pr_vault p, h_Seq = cur_Seq (vs_cursor (pr_state p)) + 1, h_PrevHash = cur_Hash (vs_cursor (pr_state p)), h_MerkleRoot = root,
      h_CurrentEpoch = ms_epoch m, h_MembershipSeq = ms_seq m, h_MembershipHead = ms_hash m, h_Commit = i, h_Author = kr_Device (eg_Keys eg),
      h_ClientTimeUnixMilli = word_of_int (max (eg_NowUnixMilli eg (pr_clock p)) 0), h_SigAlg = SigEd25519, h_Sig = []\<rparr> = Inr msg"
    by (auto simp: signHead_def Let_def result_simps)
  have "Head_SigningBytes h = Inr msg" using msg by (simp add: h Head_SigningBytes_def)
  with put_leaves_Inr [OF l] root h that show thesis by (auto simp: h)
qed

lemma put_all_other:
  assumes "list_all2 (\<lambda>e l. LeafOf cr e = Inr l) es ls" and "distinct (map e_Record es)" and "i \<notin> e_Record ` set es"
  shows "fmlookup (put_all ls t) i = fmlookup t i"
proof -
  have ids: "map l_Record ls = map e_Record es" by (rule leaves_records [OF assms(1)])
  from assms(3) have "i \<notin> l_Record ` set ls" using arg_cong [OF ids, of set] by simp
  then have "map_of (map (\<lambda>l. (l_Record l, l)) ls) i = None" by (auto simp: map_of_eq_None_iff image_iff)
  with put_all_lookup [of ls] assms(2) ids show ?thesis by simp
qed

lemma put_all_drop:
  assumes "list_all2 (\<lambda>e l. LeafOf cr e = Inr l) es ls" and "distinct (map e_Record es)" and "\<forall>i \<in> set is. i \<notin> e_Record ` set es"
  shows "put_all ls (fold fmdrop is t) = fold fmdrop is (put_all ls t)"
proof (rule fmap_ext)
  fix i
  have dist: "distinct (map l_Record ls)" using leaves_records [OF assms(1)] assms(2) by simp
  show "fmlookup (put_all ls (fold fmdrop is t)) i = fmlookup (fold fmdrop is (put_all ls t)) i"
  proof (cases "i \<in> set is")
    case True
    then show ?thesis using put_all_other [OF assms(1,2), of i "fold fmdrop is t"] assms(3) by (simp add: fold_fmdrop_lookup)
  next
    case False
    then show ?thesis using put_all_lookup [OF dist, of _ i] by (simp add: fold_fmdrop_lookup split: option.split)
  qed
qed

section \<open>Properties\<close>



text \<open>C15. Whatever is to be written, it is cut into commits the server takes: pushing any changes and purges to a
  server that refuses a commit of more than 500 records and purges, one whose records are estimated at more than 16 MiB on
  the wire and are more than one, one that mixes tombstones with live versions, and an empty one, gives exactly what
  pushing them to the same server without these limits gives - so none of them is ever met. When every commit
  is accepted the number of records reported is the number of changes, and otherwise it is no larger.\<close>

theorem commits_fit_the_server:
  "commitAll (eg\<lparr>eg_Server := limited (eg_Server eg)\<rparr>) changes purged w = commitAll eg changes purged w \<and>
   (case commitAll eg changes purged w of (w', sent, x) \<Rightarrow>
      x = Inr () \<and> sent = length changes \<or> (\<exists>err. x = Inl err) \<and> sent \<le> length changes)"
proof -
  have len: "length (deletionsFirst changes) = length changes" using deletionsFirst_mset mset_eq_length by blast
  obtain w1 y where m: "members eg (word_of_nat (length (pr_ops (rw_run w)))) w = (w1, y)" by force
  show ?thesis
  proof (cases y)
    case (Inl err)
    with m show ?thesis by (simp add: commitAll_def other_server)
  next
    case (Inr ms)
    obtain w2 n2 z where r: "commit_records eg ms (deletionsFirst changes) empty_batch 0 w1 = (w2, n2, z)" by (metis prod_cases3)
    note R = commit_records_limited [of empty_batch eg ms "deletionsFirst changes" 0 w1] and RN = commit_records_count [OF r]
    show ?thesis
    proof (cases z)
      case (Inl err)
      with m Inr r R RN len show ?thesis by (simp add: commitAll_def other_server)
    next
      case z: (Inr b)
      then have ok: "batch_ok b" using R r by simp
      obtain w3 n3 u where p: "commit_purges eg ms purged b n2 w2 = (w3, n3, u)" by (metis prod_cases3)
      note P = commit_purges_limited [OF ok, of eg ms purged n2 w2] and PN = commit_purges_count [OF p]
      show ?thesis
      proof (cases u)
        case (Inl err)
        with m Inr r R RN z p P PN len show ?thesis by (simp add: commitAll_def other_server)
      next
        case u: (Inr b')
        then have ok': "batch_ok b'" using P p by simp
        obtain w4 v where f: "flush eg ms b' w3 = (w4, v)" by force
        show ?thesis
        proof (cases v)
          case (Inl err)
          with m Inr r R RN z p P PN u f flush_limited [OF ok', of eg] len show ?thesis by (simp add: commitAll_def other_server)
        next
          case (Inr k)
          with m \<open>y = Inr ms\<close> r R RN z p P PN u f flush_limited [OF ok', of eg] flush_count [of eg ms b' w3 w4 k] len
          show ?thesis by (simp add: commitAll_def other_server)
        qed
      qed
    qed
  qed
qed

end
