(* ===== verification/Sync_Epoch.thy ===== *)
theory Sync_Epoch
  imports Sync_Push
begin

text \<open>
  Operations on the membership of a vault by this device (\<open>usecase/sync_epoch.go\<close>, \<open>team_membership.go\<close>, \<open>team_rotation.go\<close>,
  of \<open>team_vault.go\<close> \<open>wrapTo\<close>): rotating the vault key and wrapping it to the members, re-encrypting what
  lies under an older key, rewrapping after a member's key changed, and the signed operations of an
  administrator.

  A run that starts another one on the same vault, as re-encryption does, hands the world over and takes it back.
  The verified device logs of the members of a team vault (\<open>memberTrust.logFor\<close>) are a parameter; the personal vault has no
  such trust. Go walks the base in no particular order; the model walks it by record id.
\<close>

section \<open>Re-encrypting\<close>

definition latest_members :: "('r, 'd, 'h) engine \<Rightarrow> (('d, 'r) run_world, MembershipState) action" where
  "latest_members eg w = members eg (word_of_nat (length (pr_ops (rw_run w)))) w"

fun stale_loop :: "('r, 'd, 'h) engine \<Rightarrow> u32 \<Rightarrow> ID list \<Rightarrow> 'r pullRun \<Rightarrow> 'r pullRun \<times> 'r change list" where
  "stale_loop eg epoch [] p = (p, [])"
| "stale_loop eg epoch (i # is) p =
    (let env = the (fmlookup (pr_base p) i) in
     if e_Deleted env \<or> e_Epoch env = epoch then stale_loop eg epoch is p
     else (case baseBody eg i p of (p, b) \<Rightarrow>
       (case stale_loop eg epoch is p of (p, out) \<Rightarrow>
         (p, case b of
             None \<Rightarrow> out
           | Some b \<Rightarrow> \<lparr>ch_id = i, ch_entry = \<lparr>en_Type = bd_Type b, en_Key = [], en_Data = Some (bd_Data b)\<rparr>, ch_schema = bd_Schema b\<rparr> # out))))"

definition staleRecords :: "('r, 'd, 'h) engine \<Rightarrow> u32 \<Rightarrow> 'r pullRun \<Rightarrow> 'r pullRun \<times> 'r change list" where
  "staleRecords eg epoch p = stale_loop eg epoch (sorted_list_of_fset (fmdom (pr_base p))) p"

definition is_conflict :: "sync_err \<Rightarrow> bool" where
  "is_conflict err = list_ex (\<lambda>e. case e of ConflictError _ \<Rightarrow> True | _ \<Rightarrow> False) err"

definition maxRebases :: nat where "maxRebases = 5"

definition caughtUp :: "('r, 'd, 'h) engine \<Rightarrow> ID \<Rightarrow> ('d world, 'r pullRun \<times> MembershipState) action" where
  "caughtUp eg vault w =
    (case startPull eg vault w of
       (w, Inl err) \<Rightarrow> (w, Inl err)
     | (w, Inr p) \<Rightarrow>
         (case bind_w (flushOutbox eg) (\<lambda>_. bind_w (pullAll eg) (\<lambda>_. latest_members eg)) (with_run w p) of
            (w, Inl err) \<Rightarrow> (world_of w, Inl err)
          | (w, Inr m) \<Rightarrow> (world_of w, Inr (rw_run w, m))))"

fun reencrypt_loop :: "('r, 'd, 'h) engine \<Rightarrow> ID \<Rightarrow> nat \<Rightarrow> ('d world, unit) action" where
  "reencrypt_loop eg vault 0 w = (w, Inl [ErrSyncBusy])"
| "reencrypt_loop eg vault (Suc n) w =
    (case caughtUp eg vault w of
       (w, Inl err) \<Rightarrow> (w, Inl err)
     | (w, Inr (p, m)) \<Rightarrow>
         (case staleRecords eg (ms_epoch m) p of (p, changes) \<Rightarrow>
            if changes = [] then (w, Inr ())
            else (case commitAll eg changes [] (with_run w p) of
                (w, _, Inl err) \<Rightarrow> if is_conflict err then reencrypt_loop eg vault n (world_of w) else (world_of w, Inl err)
              | (w, _, Inr _) \<Rightarrow> (world_of w, Inr ()))))"

definition reencrypt :: "('r, 'd, 'h) engine \<Rightarrow> ID \<Rightarrow> ('d world, unit) action" where
  "reencrypt eg vault = reencrypt_loop eg vault maxRebases"

text \<open>A run hands the world to an operation of the engine and goes on with the world it leaves.\<close>

definition outside_run :: "('d world, unit) action \<Rightarrow> (('d, 'r) run_world, unit) action" where
  "outside_run f w = (case f (world_of w) of (w', x) \<Rightarrow> (with_run w' ((rw_run w)\<lparr>pr_clock := wd_clock w'\<rparr>), x))"

section \<open>Signed operations\<close>

definition zero_op :: MemberOp where
  "zero_op = \<lparr>o_Vault = 0, o_Seq = 0, o_Prev = 0, o_Kind = 0, o_Author = 0, o_AuthorDevice = 0, o_Subject = 0, o_Role = RoleNone, o_Verified = False,
     o_Fingerprint = 0, o_Suite = 0, o_Epoch = 0, o_Wraps = [], o_RevokedDevices = [], o_RetentionDays = 0, o_RequireVerified = False,
     o_Shred = False, o_TimeUnixMilli = 0, o_SigAlg = 0, o_Sig = []\<rparr>"

text \<open>The part \<open>appendOp\<close> and \<open>appendOps\<close> share: an operation placed after a state, dated and signed.\<close>

definition sign_op :: "('r, 'd, 'h) engine \<Rightarrow> MembershipState \<Rightarrow> MemberOp \<Rightarrow> 'r pullRun \<Rightarrow> 'r pullRun \<times> MemberOp sync_result" where
  "sign_op eg m op p =
    (case read_clock eg p of (p, t) \<Rightarrow>
      (let op = op\<lparr>o_Vault := pr_vault p, o_Seq := ms_seq m + 1, o_Prev := ms_hash m, o_Author := kr_Account (eg_Keys eg),
             o_AuthorDevice := kr_Device (eg_Keys eg), o_Suite := Suite1, o_SigAlg := SigEd25519,
             o_TimeUnixMilli := max (word_of_int (max t 0)) (o_TimeUnixMilli op)\<rparr>
       in (p, bind_res (dom_res (MemberOp_SigningBytes op)) (\<lambda>msg.
              bind_res (kr_Sign (eg_Keys eg) msg) (\<lambda>sig. Inr (op\<lparr>o_Sig := sig\<rparr>))))))"

definition appendOp :: "('r, 'd, 'h) engine \<Rightarrow> MembershipState \<Rightarrow> MemberOp \<Rightarrow> (('d, 'r) run_world, unit) action" where
  "appendOp eg m op =
    bind_w (on_run (sign_op eg m op)) (\<lambda>op.
    bind_w (of_run pr_vault) (\<lambda>vault.
    ask (\<lambda>n. ss_AppendMembership (eg_Server eg) n vault [op])))"

definition scratchMembership :: "('r, 'd, 'h) engine \<Rightarrow> 'r pullRun \<Rightarrow> MembershipState sync_result" where
  "scratchMembership eg p =
    bind_res (dom_res (NewMembershipState (eg_cr eg) (pr_vault p))) (\<lambda>s.
      integ_res (replay (member_step (eg_cr eg) (mc_check (pr_members p))) s (pr_ops p)))"

fun sign_ops :: "('r, 'd, 'h) engine \<Rightarrow> MemberOp list \<Rightarrow> MembershipState \<Rightarrow> 'r pullRun \<Rightarrow> 'r pullRun \<times> MemberOp list sync_result" where
  "sign_ops eg [] scratch p = (p, Inr [])"
| "sign_ops eg (op # ops) scratch p =
    (case sign_op eg scratch op p of
       (p, Inl err) \<Rightarrow> (p, Inl err)
     | (p, Inr op) \<Rightarrow>
         (case member_step (eg_cr eg) (mc_check (pr_members p)) scratch op of
            Inl err \<Rightarrow> (p, Inl (map Domain err))
          | Inr scratch \<Rightarrow> (case sign_ops eg ops scratch p of (p, x) \<Rightarrow> (p, bind_res x (\<lambda>signed. Inr (op # signed))))))"

definition appendOps :: "('r, 'd, 'h) engine \<Rightarrow> MemberOp list \<Rightarrow> (('d, 'r) run_world, unit) action" where
  "appendOps eg ops =
    bind_w (of_run id) (\<lambda>p.
    bind_w (pure_w (scratchMembership eg p)) (\<lambda>scratch.
    bind_w (on_run (sign_ops eg ops scratch)) (\<lambda>signed.
    ask (\<lambda>n. ss_AppendMembership (eg_Server eg) n (pr_vault p) signed))))"

section \<open>Rotating\<close>

definition encryptionKeyOf :: "('r, 'd, 'h) engine \<Rightarrow> 'r pullRun \<Rightarrow> ID \<Rightarrow> bytes sync_result" where
  "encryptionKeyOf eg p member =
    (if member = kr_Account (eg_Keys eg) then Inr (snd (kr_CurrentKeys (eg_Keys eg)))
     else if pr_scope p = [] then Inl [ErrNotATeam]
     else bind_res (eg_memberLog eg member) (\<lambda>log. Inr (ds_encryptionKey log)))"

definition wrap_for :: "('r, 'd, 'h) engine \<Rightarrow> u32 \<Rightarrow> bytes \<Rightarrow> ID \<Rightarrow> bytes \<Rightarrow> 'r pullRun \<Rightarrow> 'r pullRun \<times> KeyWrap sync_result" where
  "wrap_for eg epoch vk member enc p =
    (p\<lparr>pr_clock := Suc (pr_clock p)\<rparr>,
     bind_res (eg_WrapVaultKey eg (pr_clock p) enc (pr_vault p) epoch member vk) (\<lambda>wrapped.
     dom_res (NewKeyWrap (eg_cr eg) member enc wrapped)))"

fun wrap_all :: "('r, 'd, 'h) engine \<Rightarrow> u32 \<Rightarrow> bytes \<Rightarrow> ID list \<Rightarrow> 'r pullRun \<Rightarrow> 'r pullRun \<times> KeyWrap list sync_result" where
  "wrap_all eg epoch vk [] p = (p, Inr [])"
| "wrap_all eg epoch vk (member # ms) p =
    (case encryptionKeyOf eg p member of
       Inl err \<Rightarrow> (p, Inl err)
     | Inr enc \<Rightarrow>
         (case wrap_for eg epoch vk member enc p of
            (p, Inl err) \<Rightarrow> (p, Inl err)
          | (p, Inr w) \<Rightarrow> (case wrap_all eg epoch vk ms p of (p, x) \<Rightarrow> (p, bind_res x (\<lambda>ws. Inr (w # ws))))))"

definition rotationFor :: "('r, 'd, 'h) engine \<Rightarrow> MembershipState \<Rightarrow> ID list \<Rightarrow> 'r pullRun \<Rightarrow> 'r pullRun \<times> MemberOp sync_result" where
  "rotationFor eg m ms p =
    (case ReadFull 32 (eg_rand eg (pr_clock p)) of
       Inl err \<Rightarrow> (p, Inl err)
     | Inr (vk, _) \<Rightarrow>
         (case wrap_all eg (ms_epoch m + 1) vk ms (p\<lparr>pr_clock := Suc (pr_clock p)\<rparr>) of
            (p, x) \<Rightarrow> (p, bind_res x (\<lambda>wraps.
              if ms_rotations m = [] then Inl [ErrOther ''index out of range'']
              else Inr (zero_op\<lparr>o_Kind := MemberRotateEpoch, o_Epoch := ms_epoch m + 1, o_Wraps := wraps,
                o_TimeUnixMilli := r_StartedUnixMilli (last (ms_rotations m))\<rparr>)))))"

definition wrapTo :: "('r, 'd, 'h) engine \<Rightarrow> u32 \<Rightarrow> ID \<Rightarrow> bytes \<Rightarrow> 'r pullRun \<Rightarrow> 'r pullRun \<times> KeyWrap sync_result" where
  "wrapTo eg epoch member encKey p =
    (case kr_VaultKey (eg_Keys eg) (pr_vault p) epoch (pr_ops p) of
       Inl err \<Rightarrow> (p, Inl err)
     | Inr vk \<Rightarrow> wrap_for eg epoch vk member encKey p)"

text \<open>An operation on a run that has caught up with the server; the world is the engine's again afterwards.\<close>

definition after_catching_up :: "('r, 'd, 'h) engine \<Rightarrow> ID \<Rightarrow> (MembershipState \<Rightarrow> (('d, 'r) run_world, unit) action) \<Rightarrow> ('d world, unit) action" where
  "after_catching_up eg vault f w =
    (case caughtUp eg vault w of
       (w, Inl err) \<Rightarrow> (w, Inl err)
     | (w, Inr (p, m)) \<Rightarrow> (case f m (with_run w p) of (w, x) \<Rightarrow> (world_of w, x)))"

definition RotateEpoch :: "('r, 'd, 'h) engine \<Rightarrow> ID \<Rightarrow> ID list \<Rightarrow> bool \<Rightarrow> ('d world, unit) action" where
  "RotateEpoch eg vault revokedDevices shred =
    bind_w (after_catching_up eg vault (\<lambda>m.
      bind_w (on_run (rotationFor eg m (Members m))) (\<lambda>op. appendOp eg m (op\<lparr>o_RevokedDevices := revokedDevices, o_Shred := shred\<rparr>))))
    (\<lambda>_. reencrypt eg vault)"

definition RewrapCurrent :: "('r, 'd, 'h) engine \<Rightarrow> ID \<Rightarrow> bytes \<Rightarrow> ('d world, unit) action" where
  "RewrapCurrent eg vault newEncryptionKey =
    after_catching_up eg vault (\<lambda>m.
      let account = kr_Account (eg_Keys eg) in
      if \<not> CanManage (MembershipState_Role m account) then pure_w (Inr ())
      else bind_w (on_run (wrapTo eg (ms_epoch m) account newEncryptionKey)) (\<lambda>wrap.
        appendOp eg m (zero_op\<lparr>o_Kind := MemberRewrap, o_Subject := account, o_Epoch := ms_epoch m, o_Wraps := [wrap]\<rparr>)))"

section \<open>Upkeep of a team\<close>

text \<open>\<open>memberLog\<close> and \<open>logFor\<close> both answer for this account with the log of the run itself, so that the parameter
  \<open>eg_memberLog\<close> stands for either.\<close>

fun unrevoked_loop :: "('r, 'd, 'h) engine \<Rightarrow> MembershipState \<Rightarrow> ID list \<Rightarrow> ID list sync_result" where
  "unrevoked_loop eg m [] = Inr []"
| "unrevoked_loop eg m (member # ms) =
    bind_res (eg_memberLog eg member) (\<lambda>log.
    bind_res (unrevoked_loop eg m ms) (\<lambda>out.
      Inr (filter (\<lambda>d. IsRevoked log d \<and> \<not> IsDeviceRevoked m d) (Devices log) @ out)))"

definition unrevokedDevices :: "('r, 'd, 'h) engine \<Rightarrow> MembershipState \<Rightarrow> ID list sync_result" where
  "unrevokedDevices eg m = bind_res (unrevoked_loop eg m (Members m)) (\<lambda>out. Inr (remdups_adj (sort out)))"

definition latestWrap :: "MemberOp list \<Rightarrow> u32 \<Rightarrow> ID \<Rightarrow> KeyWrap option" where
  "latestWrap ops epoch member =
    List.find (\<lambda>w. w_Member w = member) (concat (map o_Wraps (filter (\<lambda>op. o_Epoch op = epoch) (rev ops))))"

fun staleWraps :: "('r, 'd, 'h) engine \<Rightarrow> u32 \<Rightarrow> ID list \<Rightarrow> 'r pullRun \<Rightarrow> 'r pullRun \<times> MemberOp list sync_result" where
  "staleWraps eg epoch [] p = (p, Inr [])"
| "staleWraps eg epoch (member # ms) p =
    (case bind_res (encryptionKeyOf eg p member) (\<lambda>enc. bind_res (dom_res (EncryptionDigest (eg_cr eg) enc)) (\<lambda>want. Inr (enc, want))) of
       Inl err \<Rightarrow> (p, Inl err)
     | Inr (enc, want) \<Rightarrow>
         if (case latestWrap (pr_ops p) epoch member of None \<Rightarrow> True | Some got \<Rightarrow> w_Recipient got = want) then staleWraps eg epoch ms p
         else (case wrapTo eg epoch member enc p of
             (p, Inl err) \<Rightarrow> (p, Inl err)
           | (p, Inr wrap) \<Rightarrow>
               (case staleWraps eg epoch ms p of (p, x) \<Rightarrow>
                 (p, bind_res x (\<lambda>out. Inr (zero_op\<lparr>o_Kind := MemberRewrap, o_Subject := member, o_Epoch := epoch, o_Wraps := [wrap]\<rparr> # out))))))"

definition maintainTeam :: "('r, 'd, 'h) engine \<Rightarrow> MembershipState \<Rightarrow> (('d, 'r) run_world, unit) action" where
  "maintainTeam eg m =
    bind_w (of_run id) (\<lambda>p.
      if pr_scope p = [] \<or> \<not> CanManage (MembershipState_Role m (kr_Account (eg_Keys eg))) then pure_w (Inr ())
      else bind_w (pure_w (unrevokedDevices eg m)) (\<lambda>revokedDevices.
        if ms_pendingRotation m \<or> revokedDevices \<noteq> []
        then
          bind_w (on_run (rotationFor eg m (Members m))) (\<lambda>op.
          bind_w (appendOp eg m (op\<lparr>o_RevokedDevices := revokedDevices\<rparr>)) (\<lambda>_.
          bind_w (outside_run (reencrypt eg (pr_vault p))) (\<lambda>_.
          pure_w (Inl [ErrRoundAgain]))))
        else
          bind_w (on_run (staleWraps eg (ms_epoch m) (Members m))) (\<lambda>rewraps.
            if rewraps = [] then pure_w (Inr ())
            else bind_w (appendOps eg rewraps) (\<lambda>_. pure_w (Inl [ErrRoundAgain])))))"

section \<open>What an administrator does\<close>

definition ChangeRole :: "('r, 'd, 'h) engine \<Rightarrow> ID \<Rightarrow> ID \<Rightarrow> Role \<Rightarrow> ('d world, unit) action" where
  "ChangeRole eg vault account role =
    (if scopeOf eg vault = [] then pure_w (Inl [ErrNotATeam])
     else after_catching_up eg vault (\<lambda>m. appendOp eg m (zero_op\<lparr>o_Kind := MemberChangeRole, o_Subject := account, o_Role := role\<rparr>)))"

definition SetTeamPolicy :: "('r, 'd, 'h) engine \<Rightarrow> ID \<Rightarrow> u16 \<Rightarrow> bool \<Rightarrow> ('d world, unit) action" where
  "SetTeamPolicy eg vault retentionDays requireVerified =
    (if scopeOf eg vault = [] then pure_w (Inl [ErrNotATeam])
     else after_catching_up eg vault (\<lambda>m.
       appendOp eg m (zero_op\<lparr>o_Kind := MemberSetPolicy, o_RetentionDays := retentionDays, o_RequireVerified := requireVerified\<rparr>)))"

definition RemoveMember :: "('r, 'd, 'h) engine \<Rightarrow> ID \<Rightarrow> ID \<Rightarrow> ('d world, unit) action" where
  "RemoveMember eg vault account =
    (if scopeOf eg vault = [] then pure_w (Inl [ErrNotATeam])
     else bind_w (after_catching_up eg vault (\<lambda>m.
         bind_w (on_run (rotationFor eg m (filter (\<lambda>a. a \<noteq> account) (Members m)))) (\<lambda>op.
         appendOps eg [zero_op\<lparr>o_Kind := MemberRemove, o_Subject := account\<rparr>, op])))
       (\<lambda>_. reencrypt eg vault))"

end
