(* ===== verification/Sync_Round.thy ===== *)
theory Sync_Round
  imports Sync_Epoch
begin

text \<open>
  A round of the sync engine (\<open>usecase/sync_push.go\<close>, \<open>sync_retention.go\<close>, \<open>sync_epoch.go\<close>, \<open>sync_held.go\<close>,
  \<open>sync_trash.go\<close>, \<open>explainIntegrity\<close> of \<open>sync_logs.go\<close>): finding what this device changed, pushing it or putting it back, purging and
  re-encrypting, and the loop of pull, push and upkeep; deciding about held changes; and restoring deleted
  records.

  Go walks the maps of local items and of the base in no particular order; the model walks them by record id, the order
  \<open>localChanges\<close> sorts its result into.
\<close>

section \<open>What changed here\<close>

definition writable :: "'r Body \<Rightarrow> bool" where
  "writable b = (RecordAccess KnownSchemas (bd_Type b) (bd_Schema b) = SchemaWritable)"

definition heldIDs :: "state_db \<Rightarrow> ID \<Rightarrow> ID go_set" where
  "heldIDs d vault = fset_of_list (map (e_Record \<circ> qi_Envelope) (Quarantined d vault))"

definition same_as :: "('r, 'd, 'h) engine \<Rightarrow> 'r Body \<Rightarrow> 'r Entry \<Rightarrow> bool" where
  "same_as eg b le = (case en_Data le of None \<Rightarrow> False | Some data \<Rightarrow> SameData (eg_json eg) (bd_Data b) data)"

text \<open>The two loops of \<open>localChanges\<close>; reading a base version fills the run's cache of bodies.\<close>

fun changed_items :: "('r, 'd, 'h) engine \<Rightarrow> ID go_set \<Rightarrow> (ID, 'r Entry) go_map \<Rightarrow> ID list \<Rightarrow> 'r pullRun \<Rightarrow> 'r pullRun \<times> 'r change list" where
  "changed_items eg held local [] p = (p, [])"
| "changed_items eg held local (i # is) p =
    (case baseBody eg i p of (p, b) \<Rightarrow>
     (case changed_items eg held local is p of (p, out) \<Rightarrow>
       (p, let le = the (fmlookup local i) in
           if i |\<in>| held \<or> (case b of None \<Rightarrow> False | Some b \<Rightarrow> same_as eg b le \<or> \<not> writable b) then out
           else \<lparr>ch_id = i, ch_entry = le, ch_schema = 0\<rparr> # out)))"

fun deleted_items :: "('r, 'd, 'h) engine \<Rightarrow> ID go_set \<Rightarrow> (ID, 'r Entry) go_map \<Rightarrow> ID list \<Rightarrow> 'r pullRun \<Rightarrow> 'r pullRun \<times> 'r change list" where
  "deleted_items eg held local [] p = (p, [])"
| "deleted_items eg held local (i # is) p =
    (if i |\<in>| fmdom local \<or> i |\<in>| held \<or> e_Deleted (the (fmlookup (pr_base p) i)) \<or> i = VaultMetaID (eg_cr eg) (pr_vault p)
     then deleted_items eg held local is p
     else (case baseBody eg i p of (p, b) \<Rightarrow>
       (case deleted_items eg held local is p of (p, out) \<Rightarrow>
         (p, case b of
             None \<Rightarrow> out
           | Some b \<Rightarrow>
               if \<not> writable b then out
               else (case eg_NaturalKey eg (bd_Type b) (bd_Data b) of
                   None \<Rightarrow> out
                 | Some key \<Rightarrow> \<lparr>ch_id = i, ch_entry = \<lparr>en_Type = bd_Type b, en_Key = key, en_Data = None\<rparr>, ch_schema = 0\<rparr> # out)))))"

definition localChanges :: "('r, 'd, 'h) engine \<Rightarrow> (('d, 'r) run_world, 'r change list) action" where
  "localChanges eg w =
    (case pr_namingKey (rw_run w) of
       None \<Rightarrow> (w, Inl [ErrNoNamingKey])
     | Some nk \<Rightarrow>
         bind_w (pure_w (bind_res (eg_GetData eg (wd_data w)) (\<lambda>data. eg_SnapshotScope eg nk data (pr_scope (rw_run w))))) (\<lambda>local.
         bind_w (read_db (\<lambda>d. heldIDs d (pr_vault (rw_run w)))) (\<lambda>held.
         on_run (\<lambda>p.
           case changed_items eg held local (sorted_list_of_fset (fmdom local)) p of (p, written) \<Rightarrow>
           (case deleted_items eg held local (sorted_list_of_fset (fmdom (pr_base p))) p of (p, gone) \<Rightarrow>
             (p, Inr (sort_key ch_id (written @ gone))))))) w)"

section \<open>Pushing\<close>

fun base_entries :: "('r, 'd, 'h) engine \<Rightarrow> 'r change list \<Rightarrow> 'r pullRun \<Rightarrow> 'r pullRun \<times> 'r Entry list" where
  "base_entries eg [] p = (p, [])"
| "base_entries eg (c # cs) p =
    (case baseBody eg (ch_id c) p of (p, b) \<Rightarrow>
     (case base_entries eg cs p of (p, out) \<Rightarrow> (p, (ch_entry c)\<lparr>en_Data := map_option bd_Data b\<rparr> # out)))"

definition revertToBase :: "('r, 'd, 'h) engine \<Rightarrow> (('d, 'r) run_world, unit) action" where
  "revertToBase eg =
    bind_w (localChanges eg) (\<lambda>changes.
      if changes = [] then pure_w (Inr ())
      else
        bind_w (on_run (\<lambda>p. case base_entries eg changes p of (p, es) \<Rightarrow> (p, Inr es))) (\<lambda>entries.
        bind_w (of_run pr_scope) (\<lambda>scope.
        bind_w (update_data eg (\<lambda>d. eg_ApplyScope eg d scope entries)) (\<lambda>_.
        upd_run (count_applied (length entries))))))"

definition push :: "('r, 'd, 'h) engine \<Rightarrow> ('d, 'r) run_world \<Rightarrow> ('d, 'r) run_world \<times> nat \<times> unit sync_result" where
  "push eg w =
    (case latest_members eg w of
       (w, Inl err) \<Rightarrow> (w, 0, Inl err)
     | (w, Inr m) \<Rightarrow>
         if \<not> CanWrite (MembershipState_Role m (kr_Account (eg_Keys eg)))
         then (case revertToBase eg w of (w, x) \<Rightarrow> (w, 0, x))
         else (case localChanges eg w of
             (w, Inl err) \<Rightarrow> (w, 0, Inl err)
           | (w, Inr changes) \<Rightarrow> if changes = [] then (w, 0, Inr ()) else commitAll eg changes [] w))"

section \<open>Purging\<close>

definition tombstones :: "'r pullRun \<Rightarrow> ID list" where
  "tombstones p = filter (\<lambda>i. e_Deleted (the (fmlookup (pr_base p) i))) (sorted_list_of_fset (fmdom (pr_base p)))"

text \<open>A missing time reads as 0, as a missing key of a Go map does.\<close>

definition landed_at :: "'r pullRun \<Rightarrow> ID \<Rightarrow> u64" where
  "landed_at p i = (case fmlookup (pr_landed p) i of None \<Rightarrow> 0 | Some t \<Rightarrow> t)"

definition dueTombstones :: "u16 \<Rightarrow> Rotation \<Rightarrow> u64 \<Rightarrow> 'r pullRun \<Rightarrow> ID list" where
  "dueTombstones retentionDays last_rotation time p =
    filter (\<lambda>i. PurgeDue (landed_at p i) retentionDays time \<or> (r_Shred last_rotation \<and> landed_at p i \<le> r_StartedUnixMilli last_rotation)) (tombstones p)"

definition purge :: "('r, 'd, 'h) engine \<Rightarrow> ID list \<Rightarrow> (('d, 'r) run_world, unit) action" where
  "purge eg ids w = (case commitAll eg [] ids w of (w, _, x) \<Rightarrow> (w, x))"

definition purgeDue :: "('r, 'd, 'h) engine \<Rightarrow> MembershipState \<Rightarrow> Rotation \<Rightarrow> u64 \<Rightarrow> (('d, 'r) run_world, unit) action" where
  "purgeDue eg m last_rotation time w =
    (let due = dueTombstones (ms_retentionDays m) last_rotation time (rw_run w) in
     if due = [] then (w, Inr ())
     else (case purge eg due w of
         (w, Inl err) \<Rightarrow> if sync_error.ErrPurgeNotDue \<in> set err then (w, Inr ()) else (w, Inl err)
       | (w, Inr _) \<Rightarrow> (w, Inr ())))"

section \<open>A round\<close>

record SyncReport =
  sr_Pull :: PullReport
  sr_Pushed :: nat

definition addPull :: "PullReport \<Rightarrow> PullReport \<Rightarrow> PullReport" where
  "addPull a b = \<lparr>rp_Commits = rp_Commits a + rp_Commits b, rp_Applied = rp_Applied a + rp_Applied b, rp_Held = rp_Held a + rp_Held b,
     rp_Quarantined = rp_Quarantined a + rp_Quarantined b, rp_MembershipSeq = max (rp_MembershipSeq a) (rp_MembershipSeq b),
     rp_NewDevices = rp_NewDevices a @ rp_NewDevices b\<rparr>"

text \<open>Reading the last rotation of a state without one is an index out of range in Go; a state that lets this account manage has one.\<close>

definition retain :: "('r, 'd, 'h) engine \<Rightarrow> (('d, 'r) run_world, unit) action" where
  "retain eg =
    bind_w (latest_members eg) (\<lambda>m.
    bind_w (of_run pr_vault) (\<lambda>vault.
      let role = MembershipState_Role m (kr_Account (eg_Keys eg)) in
      if \<not> CanWrite role then pure_w (Inr ())
      else bind_w (on_run (\<lambda>p. case staleRecords eg (ms_epoch m) p of (p, chs) \<Rightarrow> (p, Inr chs))) (\<lambda>stale.
        if stale \<noteq> [] then bind_w (outside_run (reencrypt eg vault)) (\<lambda>_. pure_w (Inl [ErrRoundAgain]))
        else bind_w (maintainTeam eg m) (\<lambda>_.
          if \<not> CanManage role then pure_w (Inr ())
          else bind_w (on_run (\<lambda>p. case read_clock eg p of (p, t) \<Rightarrow> (p, Inr (word_of_int (max t 0))))) (\<lambda>time.
            if ms_rotations m = [] then pure_w (Inl [ErrOther ''index out of range''])
            else bind_w (purgeDue eg m (last (ms_rotations m)) time) (\<lambda>_.
              if \<not> RotationDue (r_StartedUnixMilli (last (ms_rotations m))) True (ms_retentionDays m) time then pure_w (Inr ())
              else outside_run (RotateEpoch eg vault [] False)))))))"

fun round_loop :: "('r, 'd, 'h) engine \<Rightarrow> ID \<Rightarrow> nat \<Rightarrow> SyncReport \<Rightarrow> 'd world \<Rightarrow> 'd world \<times> SyncReport \<times> unit sync_result" where
  "round_loop eg vault 0 report w = (w, report, Inl [ErrSyncBusy])"
| "round_loop eg vault (Suc n) report w =
    (case startPull eg vault w of
       (w, Inl err) \<Rightarrow> (w, report, Inl err)
     | (w, Inr p) \<Rightarrow>
         (case flushOutbox eg (with_run w p) of
            (w, Inl err) \<Rightarrow> (world_of w, report, Inl err)
          | (w, Inr _) \<Rightarrow>
              (case pullAll eg w of
                 (w, Inl err) \<Rightarrow> (world_of w, report\<lparr>sr_Pull := addPull (sr_Pull report) (pr_report (rw_run w))\<rparr>, Inl err)
               | (w, Inr _) \<Rightarrow>
                   (case push eg w of (w, pushed, x) \<Rightarrow>
                     (let report = report\<lparr>sr_Pull := addPull (sr_Pull report) (pr_report (rw_run w)), sr_Pushed := sr_Pushed report + pushed\<rparr> in
                      case (case x of Inl err \<Rightarrow> (w, Inl err) | Inr _ \<Rightarrow> retain eg w) of
                        (w, Inl err) \<Rightarrow>
                          if is_conflict err \<or> ErrRoundAgain \<in> set err then round_loop eg vault n report (world_of w)
                          else (world_of w, report, Inl err)
                      | (w, Inr _) \<Rightarrow> (world_of w, report, Inr ()))))))"

definition syncRound :: "('r, 'd, 'h) engine \<Rightarrow> ID \<Rightarrow> 'd world \<Rightarrow> 'd world \<times> SyncReport \<times> unit sync_result" where
  "syncRound eg vault = round_loop eg vault maxRebases \<lparr>sr_Pull = no_report, sr_Pushed = 0\<rparr>"

definition waiting :: "state_db \<Rightarrow> ID \<Rightarrow> nat \<times> nat" where
  "waiting d vault = (let items = Quarantined d vault in
     (length (filter qi_Pending items), length (filter (\<lambda>q. \<not> qi_Pending q) items)))"

definition explainIntegrity :: "('r, 'd, 'h) engine \<Rightarrow> sync_err \<Rightarrow> 'd world \<Rightarrow> 'd world \<times> sync_err" where
  "explainIntegrity eg err w =
    (if ErrSyncIntegrity \<notin> set err then (w, err)
     else (case verifiedDeviceLog (eg_cr eg) (eg_Keys eg) (eg_Server eg) w of
         (w, Inl lerr) \<Rightarrow> (w, if ErrSyncDeviceRevoked \<in> set lerr \<or> ErrKeysRotated \<in> set lerr then lerr @ err else err)
       | (w, Inr _) \<Rightarrow> (w, err)))"

definition Sync :: "('r, 'd, 'h) engine \<Rightarrow> ID \<Rightarrow> 'd world \<Rightarrow> 'd world \<times> SyncReport \<times> unit sync_result" where
  "Sync eg vault w =
    (case syncRound eg vault w of (w, r, x) \<Rightarrow>
       (let (held, refused) = waiting (wd_db w) vault;
            r = r\<lparr>sr_Pull := (sr_Pull r)\<lparr>rp_Held := held, rp_Quarantined := refused\<rparr>\<rparr>
        in case x of
             Inr _ \<Rightarrow> (w, r, Inr ())
           | Inl err \<Rightarrow> (case explainIntegrity eg err w of (w, err) \<Rightarrow> (w, r, Inl err))))"

section \<open>Held changes\<close>

definition heldItem :: "state_db \<Rightarrow> ID \<Rightarrow> ID \<Rightarrow> QuarantineItem sync_result" where
  "heldItem d vault i =
    (case find (\<lambda>q. e_Record (qi_Envelope q) = i) (Quarantined d vault) of None \<Rightarrow> Inl [ErrHeldNotFound] | Some q \<Rightarrow> Inr q)"

definition heldChange :: "('r, 'd, 'h) engine \<Rightarrow> Envelope \<Rightarrow> 'd \<Rightarrow> 'r pullRun \<Rightarrow> ('r pullRun \<times> 'r Entry) sync_result" where
  "heldChange eg env d p =
    (if \<not> e_Deleted env then decode eg env p
     else bind_res (localSnapshot eg d p) (\<lambda>local.
       case fmlookup local (e_Record env) of
         None \<Rightarrow> Inl [ErrSkip]
       | Some e \<Rightarrow> Inr (p, \<lparr>en_Type = en_Type e, en_Key = en_Key e, en_Data = None\<rparr>)))"

definition release_held :: "ID \<Rightarrow> ID \<Rightarrow> (('d, 'z) world_scheme, unit) action" where
  "release_held vault i = write_db (\<lambda>d. Inr (Release vault i d))"

definition ConfirmHeld :: "('r, 'd, 'h) engine \<Rightarrow> ID \<Rightarrow> ID \<Rightarrow> ('d world, unit) action" where
  "ConfirmHeld eg vault i =
    bind_w (startPull eg vault) (\<lambda>p.
    bind_w (read_db (\<lambda>d. heldItem d vault i)) (\<lambda>found.
    bind_w (pure_w found) (\<lambda>item.
      if \<not> qi_Pending item then pure_w (Inl [ErrHeldNotFound])
      else if (case fmlookup (pr_base p) i of None \<Rightarrow> True | Some base \<Rightarrow> e_Version base \<noteq> e_Version (qi_Envelope item))
      then bind_w (release_held vault i) (\<lambda>_. pure_w (Inl [ErrHeldStale]))
      else (\<lambda>w.
        case heldChange eg (qi_Envelope item) (wd_data w) p of
          Inl reason \<Rightarrow> if ErrSkip \<in> set reason then release_held vault i w else (w, Inl reason)
        | Inr (p, entry) \<Rightarrow>
            bind_w (update_data eg (\<lambda>d. eg_ApplyScope eg d (pr_scope p) [entry])) (\<lambda>_. release_held vault i) w))))"

definition RejectHeld :: "ID \<Rightarrow> ID \<Rightarrow> (('d, 'z) world_scheme, unit) action" where
  "RejectHeld vault i = bind_w (read_db (\<lambda>d. heldItem d vault i)) (\<lambda>found. bind_w (pure_w found) (\<lambda>_. release_held vault i))"

section \<open>Trash\<close>

definition live_epochs :: "'r pullRun \<Rightarrow> u32 set" where
  "live_epochs p = e_Epoch ` set (filter (\<lambda>e. \<not> e_Deleted e) (in_order (pr_base p)))"

definition run_retiredEpochs :: "('r, 'd, 'h) engine \<Rightarrow> MembershipState \<Rightarrow> 'r pullRun \<Rightarrow> 'r pullRun \<times> u32 list" where
  "run_retiredEpochs eg m p =
    (case read_clock eg p of (p, t) \<Rightarrow>
       (p, RetiredEpochs (ms_rotations m) (\<lambda>e. e \<in> live_epochs p) (ms_retentionDays m) (word_of_int (max t 0))))"

text \<open>The loop of \<open>lastReadable\<close>, over the versions from the newest.\<close>

fun readable_loop :: "('r, 'd, 'h) engine \<Rightarrow> 'r pullRun \<Rightarrow> ID \<Rightarrow> u64 \<Rightarrow> u32 list \<Rightarrow> Envelope list \<Rightarrow> 'r Body option" where
  "readable_loop eg p i tomb destroyed [] = None"
| "readable_loop eg p i tomb destroyed (v # vs) =
    (if e_Record v \<noteq> i \<or> e_Vault v \<noteq> pr_vault p \<or> e_Version v \<ge> tomb \<or> e_Epoch v \<in> set destroyed then readable_loop eg p i tomb destroyed vs
     else (case pr_resolve p (e_Author v) of
         Inl _ \<Rightarrow> readable_loop eg p i tomb destroyed vs
       | Inr (_, key) \<Rightarrow>
           if Envelope_Verify (eg_cr eg) v key \<noteq> None then readable_loop eg p i tomb destroyed vs
           else (case open_env eg p v of
               Inl _ \<Rightarrow> readable_loop eg p i tomb destroyed vs
             | Inr body \<Rightarrow> Some body)))"

definition lastReadable :: "('r, 'd, 'h) engine \<Rightarrow> ID \<Rightarrow> u32 list \<Rightarrow> (('d, 'r) run_world, 'r Body option) action" where
  "lastReadable eg i destroyed =
    bind_w (of_run id) (\<lambda>p.
    bind_w (ask (\<lambda>n. ss_Versions (eg_Server eg) n (pr_vault p) i)) (\<lambda>versions.
    pure_w (Inr (readable_loop eg p i (case fmlookup (pr_base p) i of None \<Rightarrow> 0 | Some e \<Rightarrow> e_Version e) destroyed (rev versions)))))"

definition restore_in_run :: "('r, 'd, 'h) engine \<Rightarrow> ID \<Rightarrow> (('d, 'r) run_world, unit) action" where
  "restore_in_run eg i =
    bind_w (latest_members eg) (\<lambda>m.
    bind_w (of_run id) (\<lambda>p.
      if (case fmlookup (pr_base p) i of None \<Rightarrow> True | Some env \<Rightarrow> \<not> e_Deleted env) then pure_w (Inl [ErrTrashNotFound])
      else
        bind_w (on_run (\<lambda>p. case run_retiredEpochs eg m p of (p, es) \<Rightarrow> (p, Inr es))) (\<lambda>destroyed.
        bind_w (lastReadable eg i destroyed) (\<lambda>found.
        case found of
          None \<Rightarrow> pure_w (Inl [ErrTrashNotFound])
        | Some body \<Rightarrow>
            (case eg_NaturalKey eg (bd_Type body) (bd_Data body) of
               None \<Rightarrow> pure_w (Inl [ErrTrashNotFound])
             | Some key \<Rightarrow>
                 (let entry = \<lparr>en_Type = bd_Type body, en_Key = key, en_Data = Some (bd_Data body)\<rparr> in
                  if \<not> eg_Validate eg entry then pure_w (Inl [ErrTrashNotFound])
                  else (case Classify (eg_decoders eg) (bd_Type body) None (Some (bd_Data body)) of
                      Inl _ \<Rightarrow> pure_w (Inl [ErrRestoreWeakens])
                    | Inr verdict \<Rightarrow>
                        if v_Action verdict \<noteq> ActionApply then pure_w (Inl [ErrRestoreWeakens])
                        else update_data eg (\<lambda>d. eg_ApplyScope eg d (pr_scope p) [entry]))))))))"

definition Restore :: "('r, 'd, 'h) engine \<Rightarrow> ID \<Rightarrow> ID \<Rightarrow> ('d world, unit) action" where
  "Restore eg vault i w =
    (case startPull eg vault w of
       (w, Inl err) \<Rightarrow> (w, Inl err)
     | (w, Inr p) \<Rightarrow> (case restore_in_run eg i (with_run w p) of (w, x) \<Rightarrow> (world_of w, x)))"

definition ShredNow :: "('r, 'd, 'h) engine \<Rightarrow> ID \<Rightarrow> ('d world, unit) action" where
  "ShredNow eg vault =
    bind_w (RotateEpoch eg vault [] True) (\<lambda>_ w. case Sync eg vault w of (w, _, x) \<Rightarrow> (w, x))"

section \<open>Devices\<close>

record DeviceInfo =
  di_Cert :: DeviceCert
  di_Revoked :: bool
  di_Current :: bool

definition SyncEngine_Devices :: "('r, 'd, 'h) engine \<Rightarrow> ('d world, DeviceInfo list) action" where
  "SyncEngine_Devices eg =
    bind_w (verifiedDeviceLog (eg_cr eg) (eg_Keys eg) (eg_Server eg)) (\<lambda>(dl, _).
    pure_w (Inr (map (\<lambda>i. \<lparr>di_Cert = the (Certificate dl i), di_Revoked = IsRevoked dl i,
      di_Current = (i = kr_Device (eg_Keys eg))\<rparr>) (Devices dl))))"

end
