(* ===== verification/Sync_Progress.thy ===== *)
theory Sync_Progress
  imports Sync_Round
begin

text \<open>
  What the operations of the sync engine do to the vaults a device has verified. Whatever the server answers, no
  operation takes a stored vault back or touches another one: this holds for the steps inside a run by the locale
  \<open>run_steps\<close>, for every operation, and for every sequence of operations. The theory also shows the state from which a round
  never recovers: a commit that was adopted but is still in the outbox.
\<close>

section \<open>Steps of a run\<close>

text \<open>The contract of the actions inside a run: from a good state, an action moves the state along to a good
  one (\<open>keeps\<close>), or to one that is good when the action succeeds (\<open>stays\<close>); the last action of a run need only move the
  state along (\<open>ends\<close>).\<close>

locale run_steps =
  fixes good :: "'s \<Rightarrow> bool" and along :: "'s \<Rightarrow> 's \<Rightarrow> bool"
  assumes along_refl: "along w w" and along_trans: "along a b \<Longrightarrow> along b c \<Longrightarrow> along a c"
begin

definition ends :: "('s, 'a) action \<Rightarrow> bool" where
  "ends m \<longleftrightarrow> (\<forall>w w' x. good w \<longrightarrow> m w = (w', x) \<longrightarrow> along w w')"

definition stays :: "('s, 'a) action \<Rightarrow> bool" where
  "stays m \<longleftrightarrow> (\<forall>w w' x. good w \<longrightarrow> m w = (w', x) \<longrightarrow> along w w' \<and> (isl x \<or> good w'))"

definition keeps :: "('s, 'a) action \<Rightarrow> bool" where
  "keeps m \<longleftrightarrow> (\<forall>w w' x. good w \<longrightarrow> m w = (w', x) \<longrightarrow> along w w' \<and> good w')"

lemma keeps_stays: "keeps m \<Longrightarrow> stays m"
  by (auto simp: stays_def keeps_def)

lemma stays_ends: "stays m \<Longrightarrow> ends m"
  by (simp add: stays_def ends_def)

lemma keeps_ends: "keeps m \<Longrightarrow> ends m"
  by (simp add: keeps_def ends_def)

lemma keeps_pure: "keeps (pure_w r)"
  by (simp add: keeps_def pure_w_def along_refl)

lemma keeps_bind:
  assumes "keeps m" and "\<And>x. keeps (f x)"
  shows "keeps (bind_w m f)"
  unfolding keeps_def
proof (intro allI impI)
  fix w w' x
  assume good: "good w" and run: "bind_w m f w = (w', x)"
  obtain w1 y where m: "m w = (w1, y)" by force
  from assms(1) good m have one: "along w w1" "good w1" by (auto simp: keeps_def)
  show "along w w' \<and> good w'"
  proof (cases y)
    case (Inl err)
    with run m one show ?thesis by (auto simp: bind_w_def)
  next
    case (Inr z)
    with run m have "f z w1 = (w', x)" by (simp add: bind_w_def)
    with assms(2) [of z] one(2) have "along w1 w' \<and> good w'" by (auto simp: keeps_def)
    with one(1) along_trans show ?thesis by blast
  qed
qed

lemma keeps_if: "keeps m \<Longrightarrow> keeps n \<Longrightarrow> keeps (if b then m else n)"
  by simp

lemma keeps_first: "keeps m \<Longrightarrow> good w \<Longrightarrow> m w = (w', x) \<Longrightarrow> along w w' \<and> good w'"
  unfolding keeps_def by blast

lemma stays_pure: "stays (pure_w r)"
  by (simp add: stays_def pure_w_def along_refl)

lemma ends_bind: "stays m \<Longrightarrow> (\<And>x. ends (f x)) \<Longrightarrow> ends (bind_w m f)"
  unfolding stays_def ends_def bind_w_def by (force split: prod.split_asm sum.split_asm intro: along_trans)

lemma stays_bind:
  assumes "stays m" and "\<And>x. stays (f x)"
  shows "stays (bind_w m f)"
  unfolding stays_def
proof (intro allI impI)
  fix w w' x
  assume good: "good w" and run: "bind_w m f w = (w', x)"
  obtain w1 y where m: "m w = (w1, y)" by force
  from assms(1) good m have one: "along w w1" "isl y \<or> good w1" by (auto simp: stays_def)
  show "along w w' \<and> (isl x \<or> good w')"
  proof (cases y)
    case (Inl err)
    with run m one show ?thesis by (auto simp: bind_w_def)
  next
    case (Inr z)
    with run m have "f z w1 = (w', x)" by (simp add: bind_w_def)
    moreover from one(2) Inr have "good w1" by simp
    ultimately have "along w1 w' \<and> (isl x \<or> good w')" using assms(2) [of z] by (auto simp: stays_def)
    with one(1) along_trans show ?thesis by blast
  qed
qed

lemma ends_then_error: "ends m \<Longrightarrow> stays (bind_w m (\<lambda>_. pure_w (Inl err)))"
  unfolding stays_def ends_def bind_w_def pure_w_def by (force split: prod.split_asm sum.split_asm)

lemma stays_if: "stays m \<Longrightarrow> stays n \<Longrightarrow> stays (if b then m else n)"
  by simp

lemma ends_if: "ends m \<Longrightarrow> ends n \<Longrightarrow> ends (if b then m else n)"
  by simp

lemma stays_first: "stays m \<Longrightarrow> good w \<Longrightarrow> m w = (w', x) \<Longrightarrow> along w w' \<and> (isl x \<or> good w')"
  unfolding stays_def by blast

lemma ends_first: "ends m \<Longrightarrow> good w \<Longrightarrow> m w = (w', x) \<Longrightarrow> along w w'"
  unfolding ends_def by blast

end

section \<open>Going onward\<close>

definition onward :: "crypto \<Rightarrow> ID \<Rightarrow> state_db \<Rightarrow> state_db \<Rightarrow> bool" where
  "onward cr v d d' \<longleftrightarrow> reaches cr (position cr d v) (position cr d' v) \<and> (\<forall>u. u = v \<or> LoadVault d' u = LoadVault d u)"

lemma onward_refl [simp]: "onward cr v d d"
  by (simp add: onward_def)

lemma onward_trans: "onward cr v a b \<Longrightarrow> onward cr v b c \<Longrightarrow> onward cr v a c"
  unfolding onward_def by (metis reaches_trans)

lemma only_logs_onward: "only_logs d d' \<Longrightarrow> onward cr v d d'"
  using only_logs_Load [of d d' cr] by (simp add: onward_def)

definition run_along :: "crypto \<Rightarrow> ID \<Rightarrow> ('d, 'r) run_world \<Rightarrow> ('d, 'r) run_world \<Rightarrow> bool" where
  "run_along cr v w w' \<longleftrightarrow> onward cr v (wd_db w) (wd_db w')"

text \<open>A run on a vault that stands where the database does.\<close>

definition run_of :: "crypto \<Rightarrow> ID \<Rightarrow> ('d, 'r) run_world \<Rightarrow> bool" where
  "run_of cr v w \<longleftrightarrow> pr_vault (rw_run w) = v \<and> place (vs_cursor (pr_state (rw_run w))) = position cr (wd_db w) v \<and>
    vs_vault (pr_state (rw_run w)) = v \<and> cursor_ok cr (pr_members (rw_run w))"

lemma run_of_at: "run_of (eg_cr eg) v w \<longleftrightarrow> run_at eg w \<and> pr_vault (rw_run w) = v"
  by (auto simp: run_of_def run_at_def)

interpretation fw: run_steps "run_of cr v" "run_along cr v" for cr :: crypto and v :: ID
  by unfold_locales (auto simp: run_along_def intro: onward_trans)

interpretation ww: run_steps "\<lambda>_. True" "\<lambda>w w'. onward cr v (wd_db w) (wd_db w')" for cr :: crypto and v :: ID
  by unfold_locales (auto intro: onward_trans)

lemma forward_run: "run_of (eg_cr eg) v w \<Longrightarrow> forward eg w w' \<Longrightarrow> run_along (eg_cr eg) v w w' \<and> run_of (eg_cr eg) v w'"
  by (auto simp: forward_def run_of_at run_along_def onward_def)

lemma keeps_forward: "(\<And>w w' x. run_at eg w \<Longrightarrow> m w = (w', x) \<Longrightarrow> forward eg w w') \<Longrightarrow> fw.keeps (eg_cr eg) v m"
  unfolding fw.keeps_def using forward_run by (metis run_of_at)

text \<open>An action that leaves the heads, the records and the run's place alone.\<close>

lemma keeps_quiet:
  assumes "\<And>w w' x. m w = (w', x) \<Longrightarrow> tb_heads (wd_db w') = tb_heads (wd_db w) \<and> tb_records (wd_db w') = tb_records (wd_db w) \<and>
    core (rw_run w') = core (rw_run w)"
  shows "fw.keeps cr v m"
  unfolding fw.keeps_def
proof (intro allI impI)
  fix w w' x
  assume run: "run_of cr v w" and m: "m w = (w', x)"
  have "LoadVault (wd_db w') = LoadVault (wd_db w)" "position cr (wd_db w') = position cr (wd_db w)"
    using assms [OF m] by (auto simp: LoadVault_def position_def landedAt_def fun_eq_iff split: option.split)
  with run assms [OF m] show "run_along cr v w w' \<and> run_of cr v w'"
    by (simp add: run_of_def run_along_def onward_def core_def)
qed

lemma keeps_on_run: "(\<And>p. core (fst (f p)) = core p) \<Longrightarrow> fw.keeps cr v (on_run f)"
  by (rule keeps_quiet) (auto simp: on_run_def split: prod.split_asm, metis fst_conv)

lemma keeps_of_run: "fw.keeps cr v (of_run f)"
  by (rule keeps_quiet) (auto simp: of_run_def)

lemma keeps_upd_run: "(\<And>p. core (f p) = core p) \<Longrightarrow> fw.keeps cr v (upd_run f)"
  by (rule keeps_quiet) (auto simp: upd_run_def)

lemma keeps_ask: "fw.keeps cr v (ask q)"
  by (rule keeps_quiet) (auto simp: ask_def)

lemma keeps_read: "fw.keeps cr v (read_db f)"
  by (rule keeps_quiet) (auto simp: read_db_def)

lemma keeps_update: "fw.keeps (eg_cr eg) v (update_data eg f)"
  by (rule keeps_quiet) (use update_data_core in force)

lemma keeps_members: "fw.keeps (eg_cr eg) v (members eg seq)"
  by (rule keeps_forward) (use forward_members in blast)

lemma keeps_latest: "fw.keeps (eg_cr eg) v (latest_members eg)"
  by (rule keeps_forward) (unfold latest_members_def, use forward_members in blast)

lemma keeps_pullAll: "fw.keeps (eg_cr eg) v (pullAll eg)"
  by (rule keeps_forward) (rule pullAll_forward)

lemmas keeps_intros = fw.keeps_pure fw.keeps_bind fw.keeps_if keeps_of_run keeps_upd_run keeps_ask keeps_read keeps_update
  keeps_members keeps_latest keeps_pullAll

section \<open>Pushing goes onward\<close>

lemma keeps_put: "fw.keeps cr v (write_db (PutOutbox c))"
  by (rule keeps_quiet) (auto simp: write_db_def PutOutbox_def split: sum.split_asm if_split_asm)

lemma keeps_clear: "fw.keeps cr v (write_db (\<lambda>d. Inr (ClearOutbox u i d)))"
  by (rule keeps_quiet) (auto simp: write_db_def ClearOutbox_def)

text \<open>Adopting a commit of this device's own: refused, it changes nothing; accepted, the database and the run move to it.\<close>

lemma adopt_stages:
  assumes "adopt eg c w = (w', x)"
  obtains (refused) w1 err y where "members eg (h_MembershipSeq (cm_Head c)) w = (w1, y)" "x = Inl err" "w' = w1"
  | (adopted) w1 m vs d where "members eg (h_MembershipSeq (cm_Head c)) w = (w1, Inr m)"
      "ApplyCommit (eg_cr eg) (pr_state (rw_run w1)) c m (pr_resolve (rw_run w1)) = Inr vs"
      "AdvanceVault (cm_Head c) (cm_Records c) (cm_Purged c) (wd_db w1) = Inr d" "x = Inr ()"
      "w' = w1\<lparr>rw_run := advance vs c (rw_run w1), wd_db := ClearOutbox (pr_vault (rw_run w1)) (h_Commit (cm_Head c)) d\<rparr>"
proof -
  obtain w1 y where m: "members eg (h_MembershipSeq (cm_Head c)) w = (w1, y)" by force
  note defs = adopt_def bind_w_def of_run_def pure_w_def integ_res_def write_db_def upd_run_def
  show thesis
  proof (cases y)
    case (Inl err)
    with assms m have "x = Inl err" "w' = w1" by (simp_all add: defs)
    with m refused show thesis by blast
  next
    case y: (Inr ms)
    show thesis
    proof (cases "ApplyCommit (eg_cr eg) (pr_state (rw_run w1)) c ms (pr_resolve (rw_run w1))")
      case (Inl err)
      with assms m y have "x = Inl (integrity (map Domain err))" "w' = w1" by (simp_all add: defs)
      with m refused show thesis by blast
    next
      case vs: (Inr vs)
      show thesis
      proof (cases "AdvanceVault (cm_Head c) (cm_Records c) (cm_Purged c) (wd_db w1)")
        case (Inl err)
        with assms m y vs have "x = Inl err" "w' = w1" by (simp_all add: defs)
        with m refused show thesis by blast
      next
        case (Inr d)
        with assms m y vs have "x = Inr ()"
          "w' = w1\<lparr>rw_run := advance vs c (rw_run w1), wd_db := ClearOutbox (pr_vault (rw_run w1)) (h_Commit (cm_Head c)) d\<rparr>"
          by (auto simp: defs)
        with adopted [OF m [unfolded y] vs Inr] show thesis by blast
      qed
    qed
  qed
qed

lemma keeps_adopt: "fw.keeps (eg_cr eg) v (adopt eg c)"
  unfolding fw.keeps_def
proof (intro allI impI)
  fix w w' x
  let ?cr = "eg_cr eg"
  assume run: "run_of ?cr v w" and a: "adopt eg c w = (w', x)"
  from a show "run_along ?cr v w w' \<and> run_of ?cr v w'"
  proof (cases rule: adopt_stages)
    case (refused w1 err y)
    with fw.keeps_first [OF keeps_members run refused(1)] show ?thesis by simp
  next
    case (adopted w1 m vs d)
    from fw.keeps_first [OF keeps_members run adopted(1)] have one: "run_along ?cr v w w1" "run_of ?cr v w1" by simp_all
    have place: "h_Vault (cm_Head c) = v" "vs_vault vs = v" "descends ?cr (position ?cr (wd_db w1) v) (place (vs_cursor vs))"
      "place (vs_cursor vs) = (h_Seq (cm_Head c), sha256 ?cr (head_preimage (cm_Head c)))"
      using ApplyCommit_place [OF adopted(2)] one(2) by (auto simp: run_of_def)
    from adopted(3) obtain rows where lt: "\<And>cur. fmlookup (tb_heads (wd_db w1)) v = Some cur \<Longrightarrow> h_Seq cur < h_Seq (cm_Head c)"
      and d: "d = (wd_db w1)\<lparr>tb_records := fmupd v (fmfilter (\<lambda>i. i \<notin> set (cm_Purged c)) rows) (tb_records (wd_db w1)),
        tb_heads := fmupd v (cm_Head c) (tb_heads (wd_db w1))\<rparr>"
      unfolding place(1) [symmetric] by (rule AdvanceVault_Inr) blast
    have pos: "position ?cr (wd_db w') v = place (vs_cursor vs)" by (simp add: adopted(5) position_def ClearOutbox_def d place(4))
    have "fst (position ?cr (wd_db w1) v) \<le> h_Seq (cm_Head c)" using lt by (auto simp: position_def split: option.split)
    with place(3,4) pos have "reaches ?cr (position ?cr (wd_db w1) v) (position ?cr (wd_db w') v)" by (simp add: reaches_def)
    moreover have "LoadVault (wd_db w') u = LoadVault (wd_db w1) u" if "u \<noteq> v" for u
      using that by (simp add: adopted(5) ClearOutbox_def d LoadVault_def landedAt_def split: option.split)
    ultimately have "run_along ?cr v w1 w'" by (auto simp: run_along_def onward_def)
    then have along: "run_along ?cr v w w'" using one(1) onward_trans by (auto simp: run_along_def)
    have "core (rw_run w') = core (advance vs c (rw_run w1))" by (simp add: adopted(5))
    then have "pr_vault (rw_run w') = v" "pr_state (rw_run w') = vs" "pr_members (rw_run w') = pr_members (rw_run w1)"
      using one(2) unfolding advance_core by (simp_all add: core_def run_of_def)
    with one(2) along pos place(2) show ?thesis by (simp add: run_of_def)
  qed
qed

lemma keeps_flushOutbox: "fw.keeps (eg_cr eg) v (flushOutbox eg)"
  unfolding fw.keeps_def
proof (intro allI impI)
  fix w w' x
  let ?cr = "eg_cr eg"
  assume run: "run_of ?cr v w" and f: "flushOutbox eg w = (w', x)"
  show "run_along ?cr v w w' \<and> run_of ?cr v w'"
  proof (cases "Outbox (wd_db w) (pr_vault (rw_run w))")
    case None
    with f run show ?thesis by (auto simp: flushOutbox_def run_along_def)
  next
    case (Some c)
    let ?q = "\<lambda>n. ss_Commit (eg_Server eg) n c" and ?clear = "write_db (\<lambda>d. Inr (ClearOutbox v (h_Commit (cm_Head c)) d))"
    let ?go = "\<lambda>y. if isl y then (if neverStored (projl y) then ?clear else pure_w (Inl (projl y))) else adopt eg c"
    obtain w1 y where a: "ask ?q w = (w1, y)" by force
    then have run1: "run_along ?cr v w w1" "run_of ?cr v w1" using run by (auto simp: ask_def run_of_def run_along_def)
    have go: "fw.keeps ?cr v (?go y)" by (intro fw.keeps_if keeps_clear fw.keeps_pure keeps_adopt)
    have "pr_vault (rw_run w) = v" "pr_vault (rw_run w1) = v" using run run1(2) by (simp_all add: run_of_def)
    then have "?go y w1 = (w', x)" using f Some a by (cases y) (simp_all add: flushOutbox_def pure_w_def split: if_split_asm)
    from fw.keeps_first [OF go run1(2) this] run1(1) fw.along_trans show ?thesis by blast
  qed
qed

lemma keeps_send: "fw.keeps (eg_cr eg) v (send eg c)"
proof -
  let ?q = "\<lambda>n. ss_Commit (eg_Server eg) n c"
  have "fw.keeps (eg_cr eg) v (\<lambda>w. case ask ?q w of
        (w, Inl err) \<Rightarrow>
          if neverStored err
          then (fst (write_db (\<lambda>d. Inr (ClearOutbox (pr_vault (rw_run w)) (h_Commit (cm_Head c)) d)) w), Inl err)
          else (w, Inl err)
      | (w, Inr _) \<Rightarrow> adopt eg c w)" (is "fw.keeps _ _ ?m")
    unfolding fw.keeps_def
  proof (intro allI impI)
    fix w w' x
    let ?cr = "eg_cr eg"
    assume run: "run_of ?cr v w" and m: "?m w = (w', x)"
    obtain w1 y where a: "ask ?q w = (w1, y)" by force
    then have run1: "run_along ?cr v w w1" "run_of ?cr v w1" using run by (auto simp: ask_def run_of_def run_along_def)
    show "run_along ?cr v w w' \<and> run_of ?cr v w'"
    proof (cases y)
      case (Inl err)
      let ?clear = "write_db (\<lambda>d. Inr (ClearOutbox (pr_vault (rw_run w1)) (h_Commit (cm_Head c)) d))"
      have "run_along ?cr v w1 (fst (?clear w1)) \<and> run_of ?cr v (fst (?clear w1))"
        using fw.keeps_first [OF keeps_clear run1(2), of "pr_vault (rw_run w1)" "h_Commit (cm_Head c)"] by (metis prod.collapse)
      with m a Inl run1 fw.along_trans show ?thesis by (auto split: if_split_asm)
    next
      case (Inr n)
      with m a have "adopt eg c w1 = (w', x)" by simp
      from fw.keeps_first [OF keeps_adopt run1(2) this] run1(1) fw.along_trans show ?thesis by blast
    qed
  qed
  then show ?thesis unfolding send_def by (intro fw.keeps_bind keeps_put) simp
qed

lemma keeps_flush: "fw.keeps (eg_cr eg) v (flush eg m b)"
  unfolding flush_def
  by (intro fw.keeps_if fw.keeps_bind fw.keeps_pure keeps_send keeps_on_run) (simp add: signHead_def Let_def)

text \<open>The loops of \<open>commitAll\<close> return a count besides their result.\<close>

lemma commit_records_keeps:
  assumes "run_of (eg_cr eg) v w" and "commit_records eg m chs b n w = (w', n', x)"
  shows "run_along (eg_cr eg) v w w' \<and> run_of (eg_cr eg) v w'"
  using assms
proof (induction chs arbitrary: b n w)
  case Nil
  then show ?case by (auto simp: run_along_def)
next
  case (Cons ch chs)
  let ?cr = "eg_cr eg"
  obtain w1 y where s: "on_run (sealChange eg ch (ms_epoch m)) w = (w1, y)" by force
  have "fw.keeps ?cr v (on_run (sealChange eg ch (ms_epoch m)))" by (rule keeps_on_run) (simp add: sealChange_def Let_def)
  from fw.keeps_first [OF this Cons.prems(1) s] have one: "run_along ?cr v w w1" "run_of ?cr v w1" by auto
  show ?case
  proof (cases y)
    case (Inl err)
    with Cons.prems(2) s one show ?thesis by auto
  next
    case y: (Inr env)
    with one have run1: "run_of ?cr v w1" by simp
    show ?thesis
    proof (cases "takes b env")
      case True
      with Cons.prems(2) s y have "commit_records eg m chs (add_record env b) n w1 = (w', n', x)" by simp
      from Cons.IH [OF run1 this] one(1) fw.along_trans show ?thesis by blast
    next
      case False
      obtain w2 z where f: "flush eg m b w1 = (w2, z)" by force
      from fw.keeps_first [OF keeps_flush run1 f] have two: "run_along ?cr v w1 w2" "run_of ?cr v w2" by auto
      show ?thesis
      proof (cases z)
        case (Inl err)
        with Cons.prems(2) s y False f one(1) two fw.along_trans show ?thesis by auto
      next
        case (Inr k)
        with Cons.prems(2) s y False f have "commit_records eg m chs (add_record env empty_batch) (n + k) w2 = (w', n', x)" by simp
        moreover from two(2) Inr have "run_of ?cr v w2" by simp
        ultimately show ?thesis using Cons.IH one(1) two(1) fw.along_trans by blast
      qed
    qed
  qed
qed

lemma commit_purges_keeps:
  assumes "run_of (eg_cr eg) v w" and "commit_purges eg m is b n w = (w', n', x)"
  shows "run_along (eg_cr eg) v w w' \<and> run_of (eg_cr eg) v w'"
  using assms
proof (induction "is" arbitrary: b n w)
  case Nil
  then show ?case by (auto simp: run_along_def)
next
  case (Cons i "is")
  let ?cr = "eg_cr eg"
  show ?case
  proof (cases "batch_size b < maxCommitRecords")
    case True
    with Cons show ?thesis by simp
  next
    case False
    obtain w2 z where f: "flush eg m b w = (w2, z)" by force
    from fw.keeps_first [OF keeps_flush Cons.prems(1) f] have two: "run_along ?cr v w w2" "run_of ?cr v w2" by auto
    show ?thesis
    proof (cases z)
      case (Inl err)
      with Cons.prems(2) False f two show ?thesis by auto
    next
      case (Inr k)
      with Cons.prems(2) False f have "commit_purges eg m is (add_purge i empty_batch) (n + k) w2 = (w', n', x)" by simp
      moreover from two(2) Inr have "run_of ?cr v w2" by simp
      ultimately show ?thesis using Cons.IH two(1) fw.along_trans by blast
    qed
  qed
qed

lemma commitAll_keeps:
  assumes "run_of (eg_cr eg) v w" and "commitAll eg chs is w = (w', n, x)"
  shows "run_along (eg_cr eg) v w w' \<and> run_of (eg_cr eg) v w'"
proof -
  let ?cr = "eg_cr eg"
  obtain w1 y where m: "members eg (word_of_nat (length (pr_ops (rw_run w)))) w = (w1, y)" by force
  from fw.keeps_first [OF keeps_members assms(1) m] have one: "run_along ?cr v w w1" "run_of ?cr v w1" by auto
  show ?thesis
  proof (cases y)
    case (Inl err)
    with assms(2) m one show ?thesis by (auto simp: commitAll_def)
  next
    case y: (Inr ms)
    with one(2) have run1: "run_of ?cr v w1" by simp
    obtain w2 n2 z where r: "commit_records eg ms (deletionsFirst chs) empty_batch 0 w1 = (w2, n2, z)" using prod_cases3 by blast
    from commit_records_keeps [OF run1 r] have two: "run_along ?cr v w w2" "run_of ?cr v w2"
      using one(1) fw.along_trans by blast+
    show ?thesis
    proof (cases z)
      case (Inl err)
      with assms(2) m y r two show ?thesis by (auto simp: commitAll_def)
    next
      case z: (Inr b)
      with two(2) have run2: "run_of ?cr v w2" by simp
      obtain w3 n3 u where q: "commit_purges eg ms is b n2 w2 = (w3, n3, u)" using prod_cases3 by blast
      from commit_purges_keeps [OF run2 q] have three: "run_along ?cr v w w3" "run_of ?cr v w3"
        using two(1) fw.along_trans by blast+
      show ?thesis
      proof (cases u)
        case (Inl err)
        with assms(2) m y r z q three show ?thesis by (auto simp: commitAll_def)
      next
        case u: (Inr b')
        with three(2) have run3: "run_of ?cr v w3" by simp
        obtain w4 t where f: "flush eg ms b' w3 = (w4, t)" by force
        from fw.keeps_first [OF keeps_flush run3 f] have "run_along ?cr v w w4" "run_of ?cr v w4"
          using three(1) fw.along_trans by blast+
        with assms(2) m y r z q u f show ?thesis by (cases t) (auto simp: commitAll_def)
      qed
    qed
  qed
qed

lemma keeps_purge: "fw.keeps (eg_cr eg) v (purge eg is)"
  unfolding fw.keeps_def purge_def using commitAll_keeps by (auto split: prod.split_asm; blast)

section \<open>Reading the base goes nowhere\<close>

lemma core_baseBody: "core (fst (baseBody eg i p)) = core p"
  by (simp add: baseBody_def split: option.split sum.split)

lemma core_changed: "core (fst (changed_items eg held local is p)) = core p"
proof (induction "is" arbitrary: p)
  case (Cons i "is")
  show ?case using Cons [of "fst (baseBody eg i p)"] core_baseBody [of eg i p] by (auto split: prod.split)
qed simp

lemma core_deleted: "core (fst (deleted_items eg held local is p)) = core p"
proof (induction "is" arbitrary: p)
  case (Cons i "is")
  show ?case using Cons [of p] Cons [of "fst (baseBody eg i p)"] core_baseBody [of eg i p] by (auto split: prod.split)
qed simp

lemma core_base_entries: "core (fst (base_entries eg cs p)) = core p"
proof (induction cs arbitrary: p)
  case (Cons c cs)
  show ?case using Cons [of "fst (baseBody eg (ch_id c) p)"] core_baseBody [of eg "ch_id c" p] by (auto split: prod.split)
qed simp

lemma core_stale: "core (fst (stale_loop eg epoch is p)) = core p"
proof (induction "is" arbitrary: p)
  case (Cons i "is")
  show ?case using Cons [of p] Cons [of "fst (baseBody eg i p)"] core_baseBody [of eg i p] by (auto simp: Let_def split: prod.split)
qed simp

lemma keeps_localChanges: "fw.keeps (eg_cr eg) v (localChanges eg)"
  unfolding fw.keeps_def
proof (intro allI impI)
  fix w w' x
  assume run: "run_of (eg_cr eg) v w" and l: "localChanges eg w = (w', x)"
  show "run_along (eg_cr eg) v w w' \<and> run_of (eg_cr eg) v w'"
  proof (cases "pr_namingKey (rw_run w)")
    case None
    with l run show ?thesis by (auto simp: localChanges_def run_along_def)
  next
    case (Some nk)
    let ?read = "\<lambda>held local p. case changed_items eg held local (sorted_list_of_fset (fmdom local)) p of (p, written) \<Rightarrow>
      (case deleted_items eg held local (sorted_list_of_fset (fmdom (pr_base p))) p of (p, gone) \<Rightarrow>
        (p, Inr (sort_key ch_id (written @ gone)) :: _ sync_result))"
    have "core (fst (?read held local p)) = core p" for held local p
      using core_changed [of eg held local "sorted_list_of_fset (fmdom local)" p]
        core_deleted [of eg held local "sorted_list_of_fset (fmdom (pr_base (fst (changed_items eg held local (sorted_list_of_fset (fmdom local)) p))))"
          "fst (changed_items eg held local (sorted_list_of_fset (fmdom local)) p)"]
      by (auto split: prod.split)
    then have "fw.keeps (eg_cr eg) v (bind_w (pure_w r) (\<lambda>local. bind_w (read_db f) (\<lambda>held. on_run (?read held local))))" for r f
      by (intro fw.keeps_bind fw.keeps_pure keeps_read keeps_on_run)
    from fw.keeps_first [OF this run] l Some show ?thesis unfolding localChanges_def by simp
  qed
qed

lemma keeps_revert: "fw.keeps (eg_cr eg) v (revertToBase eg)"
proof -
  have "core (fst (case base_entries eg chs p of (p, es) \<Rightarrow> (p, Inr es :: _ sync_result))) = core p" for chs p
    using core_base_entries [of eg chs p] by (auto split: prod.split)
  then show ?thesis
    unfolding revertToBase_def
    by (intro fw.keeps_bind fw.keeps_if fw.keeps_pure keeps_localChanges keeps_on_run keeps_of_run keeps_update keeps_upd_run core_count)
qed

lemma push_keeps:
  assumes "run_of (eg_cr eg) v w" and "push eg w = (w', n, x)"
  shows "run_along (eg_cr eg) v w w' \<and> run_of (eg_cr eg) v w'"
proof -
  let ?cr = "eg_cr eg"
  obtain w1 y where m: "latest_members eg w = (w1, y)" by force
  from fw.keeps_first [OF keeps_latest assms(1) m] have one: "run_along ?cr v w w1" "run_of ?cr v w1" by auto
  show ?thesis
  proof (cases y)
    case (Inl err)
    with assms(2) m one show ?thesis by (auto simp: push_def)
  next
    case y: (Inr ms)
    with one(2) have run1: "run_of ?cr v w1" by simp
    show ?thesis
    proof (cases "CanWrite (MembershipState_Role ms (kr_Account (eg_Keys eg)))")
      case False
      with assms(2) m y have "revertToBase eg w1 = (w', x)" by (auto simp: push_def split: prod.split_asm)
      from fw.keeps_first [OF keeps_revert run1 this] one(1) fw.along_trans show ?thesis by blast
    next
      case True
      obtain w2 z where l: "localChanges eg w1 = (w2, z)" by force
      from fw.keeps_first [OF keeps_localChanges run1 l] one(1) have two: "run_along ?cr v w w2" "run_of ?cr v w2"
        using fw.along_trans by blast+
      show ?thesis
      proof (cases "isl z \<or> projr z = []")
        case True
        with assms(2) m y \<open>CanWrite _\<close> l two show ?thesis by (cases z) (auto simp: push_def)
      next
        case False
        with assms(2) m y \<open>CanWrite _\<close> l have "commitAll eg (projr z) [] w2 = (w', n, x)" by (cases z) (auto simp: push_def)
        moreover from False two(2) have "run_of ?cr v w2" by simp
        ultimately show ?thesis using commitAll_keeps two(1) fw.along_trans by blast
      qed
    qed
  qed
qed

section \<open>Operations of the engine\<close>

lemma startPull_run:
  assumes "startPull eg v w = (w', x)"
  shows "onward (eg_cr eg) v (wd_db w) (wd_db w') \<and> (\<forall>p. x = Inr p \<longrightarrow> run_of (eg_cr eg) v (with_run w' p))"
proof -
  have "run_of (eg_cr eg) v (with_run w' p)" if "x = Inr p" for p
    using run_at_start [OF assms [unfolded that], of "pr_preferRemote p"] by (simp add: run_of_at with_run_def)
  with only_logs_onward [OF startPull_only_logs [OF assms]] show ?thesis by blast
qed

lemma with_run_db [simp]: "wd_db (with_run w p) = wd_db w" "rw_run (with_run w p) = p" "wd_db (world_of u) = wd_db u"
  by (simp_all add: with_run_def world_of_def)

lemma run_of_with [simp]: "run_of cr v (with_run (world_of w) (rw_run w)) = run_of cr v w"
  by (simp add: run_of_def)

lemma caughtUp_run:
  assumes "caughtUp eg v w = (w', x)"
  shows "onward (eg_cr eg) v (wd_db w) (wd_db w') \<and> (\<forall>p m. x = Inr (p, m) \<longrightarrow> run_of (eg_cr eg) v (with_run w' p))"
proof -
  obtain w1 y where s: "startPull eg v w = (w1, y)" by force
  note S = startPull_run [OF s]
  show ?thesis
  proof (cases y)
    case (Inl err)
    with assms s S show ?thesis by (auto simp: caughtUp_def)
  next
    case (Inr p)
    let ?go = "bind_w (flushOutbox eg) (\<lambda>_. bind_w (pullAll eg) (\<lambda>_. latest_members eg))"
    obtain w2 z where g: "?go (with_run w1 p) = (w2, z)" by force
    have "fw.keeps (eg_cr eg) v ?go" by (intro fw.keeps_bind keeps_flushOutbox keeps_pullAll keeps_latest)
    from fw.keeps_first [OF this _ g] S Inr have "run_along (eg_cr eg) v (with_run w1 p) w2" "run_of (eg_cr eg) v w2" by auto
    with assms s S Inr g show ?thesis by (cases z) (auto simp: caughtUp_def run_along_def intro: onward_trans)
  qed
qed

lemma reencrypt_loop_onward:
  assumes "reencrypt_loop eg v n w = (w', x)"
  shows "onward (eg_cr eg) v (wd_db w) (wd_db w')"
  using assms
proof (induction n arbitrary: w)
  case (Suc n)
  obtain w1 y where c: "caughtUp eg v w = (w1, y)" by force
  note C = caughtUp_run [OF c]
  show ?case
  proof (cases y)
    case (Inl err)
    with Suc.prems c C show ?thesis by auto
  next
    case (Inr pm)
    obtain p m where pm: "pm = (p, m)" by force
    obtain p' chs where st: "staleRecords eg (ms_epoch m) p = (p', chs)" by force
    have "core p' = core p" using core_stale [of eg "ms_epoch m" _ p] st by (metis fst_conv staleRecords_def)
    with C Inr pm have run: "run_of (eg_cr eg) v (with_run w1 p')" by (simp add: run_of_def core_def)
    show ?thesis
    proof (cases "chs = []")
      case True
      with Suc.prems c C Inr pm st show ?thesis by auto
    next
      case False
      obtain w2 k z where a: "commitAll eg chs [] (with_run w1 p') = (w2, k, z)" using prod_cases3 by blast
      have "onward (eg_cr eg) v (wd_db w1) (wd_db w2)" using commitAll_keeps [OF run a] by (simp add: run_along_def)
      with C have two: "onward (eg_cr eg) v (wd_db w) (wd_db w2)" using onward_trans by blast
      show ?thesis
      proof (cases "isl z \<and> is_conflict (projl z)")
        case True
        with Suc.prems c Inr pm st False a have "reencrypt_loop eg v n (world_of w2) = (w', x)" by (cases z) auto
        from Suc.IH [OF this] two onward_trans show ?thesis by simp
      next
        case no: False
        have "w' = world_of w2" using Suc.prems c Inr pm st False a no by (cases z) (auto split: if_split_asm)
        with two show ?thesis by simp
      qed
    qed
  qed
qed simp

lemma ends_reencrypt: "ww.ends (eg_cr eg) v (reencrypt eg v)"
  unfolding ww.ends_def reencrypt_def using reencrypt_loop_onward by blast

lemma ends_outside: "ww.ends cr v f \<Longrightarrow> fw.ends cr v (outside_run f)"
  unfolding ww.ends_def fw.ends_def outside_run_def run_along_def by (force split: prod.split_asm)

text \<open>Signing and wrapping read the clock and the random source and leave the run where it is.\<close>

lemma core_sign_op: "core (fst (sign_op eg m op p)) = core p"
  by (simp add: sign_op_def read_clock_def Let_def)

lemma core_sign_ops: "core (fst (sign_ops eg ops m p)) = core p"
proof (induction ops arbitrary: m p)
  case (Cons op ops)
  show ?case
    using core_sign_op [of eg m op p] Cons [of _ "fst (sign_op eg m op p)"] by (auto split: prod.split sum.split) (metis fst_conv)
qed simp

lemma core_wrap_for: "core (fst (wrap_for eg epoch vk member enc p)) = core p"
  by (simp add: wrap_for_def)

lemma core_wrap_all: "core (fst (wrap_all eg epoch vk ms p)) = core p"
proof (induction ms arbitrary: p)
  case (Cons member ms)
  show ?case
  proof (cases "encryptionKeyOf eg p member")
    case (Inr enc)
    obtain p1 y where w: "wrap_for eg epoch vk member enc p = (p1, y)" by force
    have "core p1 = core p" using core_wrap_for [of eg epoch vk member enc p] w by simp
    with Inr w Cons [of p1] show ?thesis by (auto split: sum.split prod.split)
  qed simp
qed simp

lemma core_rotationFor: "core (fst (rotationFor eg m ms p)) = core p"
  using core_wrap_all [of eg "ms_epoch m + 1" _ ms "p\<lparr>pr_clock := Suc (pr_clock p)\<rparr>"]
  by (auto simp: rotationFor_def split: prod.split sum.split) (metis core_update fst_conv)+

lemma core_wrapTo: "core (fst (wrapTo eg epoch member enc p)) = core p"
  using core_wrap_for [of eg epoch _ member enc p] by (auto simp: wrapTo_def split: sum.split)

lemma core_staleWraps: "core (fst (staleWraps eg epoch ms p)) = core p"
proof (induction ms arbitrary: p)
  case (Cons member ms)
  show ?case
  proof (cases "bind_res (encryptionKeyOf eg p member) (\<lambda>enc. bind_res (dom_res (EncryptionDigest (eg_cr eg) enc)) (\<lambda>want. Inr (enc, want)))")
    case (Inr ew)
    obtain enc want where ew: "ew = (enc, want)" by force
    obtain p1 y where w: "wrapTo eg epoch member enc p = (p1, y)" by force
    have "core p1 = core p" using core_wrapTo [of eg epoch member enc p] w by simp
    with Inr ew w Cons [of p1] Cons [of p] show ?thesis by (auto split: sum.split prod.split option.split)
  qed simp
qed simp

lemma keeps_appendOp: "fw.keeps (eg_cr eg) v (appendOp eg m op)"
  unfolding appendOp_def by (intro fw.keeps_bind keeps_on_run core_sign_op keeps_of_run keeps_ask)

lemma keeps_appendOps: "fw.keeps (eg_cr eg) v (appendOps eg ops)"
  unfolding appendOps_def by (intro fw.keeps_bind keeps_on_run core_sign_ops keeps_of_run keeps_ask fw.keeps_pure)

lemma after_catching_up_onward:
  assumes "\<And>m. fw.ends (eg_cr eg) v (f m)"
  shows "ww.stays (eg_cr eg) v (after_catching_up eg v f)"
  unfolding ww.stays_def
proof (intro allI impI conjI)
  fix w w' x
  assume a: "after_catching_up eg v f w = (w', x)"
  obtain w1 y where c: "caughtUp eg v w = (w1, y)" by force
  note C = caughtUp_run [OF c]
  show "onward (eg_cr eg) v (wd_db w) (wd_db w')"
  proof (cases y)
    case (Inl err)
    with a c C show ?thesis by (auto simp: after_catching_up_def)
  next
    case (Inr pm)
    obtain p m where pm: "pm = (p, m)" by force
    obtain w2 z where f: "f m (with_run w1 p) = (w2, z)" by force
    from fw.ends_first [OF assms _ f] C Inr pm have "onward (eg_cr eg) v (wd_db w1) (wd_db w2)" by (simp add: run_along_def)
    with a c C Inr pm f onward_trans show ?thesis by (auto simp: after_catching_up_def)
  qed
qed simp

lemma ends_RotateEpoch: "ww.ends (eg_cr eg) v (RotateEpoch eg v devs shred)"
  unfolding RotateEpoch_def
  by (intro ww.ends_bind ends_reencrypt after_catching_up_onward fw.keeps_ends fw.keeps_bind keeps_on_run core_rotationFor keeps_appendOp)

lemma ends_RewrapCurrent: "ww.ends (eg_cr eg) v (RewrapCurrent eg v key)"
  unfolding RewrapCurrent_def Let_def
  by (intro ww.stays_ends after_catching_up_onward fw.keeps_ends fw.keeps_if fw.keeps_pure fw.keeps_bind keeps_on_run core_wrapTo keeps_appendOp)

lemma ends_ChangeRole: "ww.ends (eg_cr eg) v (ChangeRole eg v account role)"
  unfolding ChangeRole_def by (intro ww.stays_ends ww.stays_if ww.stays_pure after_catching_up_onward fw.keeps_ends keeps_appendOp)

lemma ends_SetTeamPolicy: "ww.ends (eg_cr eg) v (SetTeamPolicy eg v days strict)"
  unfolding SetTeamPolicy_def by (intro ww.stays_ends ww.stays_if ww.stays_pure after_catching_up_onward fw.keeps_ends keeps_appendOp)

lemma ends_RemoveMember: "ww.ends (eg_cr eg) v (RemoveMember eg v account)"
  unfolding RemoveMember_def
  by (intro ww.ends_if ww.stays_ends [OF ww.stays_pure] ww.ends_bind ends_reencrypt after_catching_up_onward fw.keeps_ends fw.keeps_bind keeps_on_run
    core_rotationFor keeps_appendOps)

lemma stays_maintainTeam: "fw.stays (eg_cr eg) v (maintainTeam eg m)"
proof -
  have again: "fw.stays (eg_cr eg) v (bind_w (outside_run (reencrypt eg v)) (\<lambda>_. pure_w (Inl [ErrRoundAgain])))"
    by (intro fw.ends_then_error ends_outside ends_reencrypt)
  have rest: "fw.stays (eg_cr eg) v
      (if pr_scope p = [] \<or> \<not> CanManage (MembershipState_Role m (kr_Account (eg_Keys eg))) then pure_w (Inr ())
      else bind_w (pure_w (unrevokedDevices eg m)) (\<lambda>revokedDevices.
        if ms_pendingRotation m \<or> revokedDevices \<noteq> []
        then
          bind_w (on_run (rotationFor eg m (Members m))) (\<lambda>op.
          bind_w (appendOp eg m (op\<lparr>o_RevokedDevices := revokedDevices\<rparr>)) (\<lambda>_.
          bind_w (outside_run (reencrypt eg (pr_vault p))) (\<lambda>_.
          pure_w (Inl [ErrRoundAgain]))))
        else
          bind_w (on_run (staleWraps eg (ms_epoch m) (Members m))) (\<lambda>rewraps.
            if rewraps = [] then pure_w (Inr ())
            else bind_w (appendOps eg rewraps) (\<lambda>_. pure_w (Inl [ErrRoundAgain])))))" if "pr_vault p = v" for p
    unfolding that
    by (intro fw.stays_if fw.stays_pure again fw.stays_bind [OF fw.stays_pure] fw.stays_bind [OF fw.keeps_stays [OF keeps_on_run]]
      fw.stays_bind [OF fw.keeps_stays [OF keeps_appendOp]] fw.stays_bind [OF fw.keeps_stays [OF keeps_appendOps]] core_rotationFor core_staleWraps)
  show ?thesis
    unfolding fw.stays_def
  proof (intro allI impI)
    fix w w' x
    assume run: "run_of (eg_cr eg) v w" and m: "maintainTeam eg m w = (w', x)"
    then have "pr_vault (rw_run w) = v" by (simp add: run_of_def)
    from fw.stays_first [OF rest [OF this] run] m show "run_along (eg_cr eg) v w w' \<and> (isl x \<or> run_of (eg_cr eg) v w')"
      unfolding maintainTeam_def by (simp add: bind_w_def [of "of_run id"] of_run_def)
  qed
qed

lemma keeps_purgeDue: "fw.keeps (eg_cr eg) v (purgeDue eg m rot time)"
  unfolding fw.keeps_def
proof (intro allI impI)
  fix w w' x
  assume run: "run_of (eg_cr eg) v w" and d: "purgeDue eg m rot time w = (w', x)"
  let ?due = "dueTombstones (ms_retentionDays m) rot time (rw_run w)"
  obtain w1 y where q: "purge eg ?due w = (w1, y)" by force
  have "w' = (if ?due = [] then w else w1)" using d q by (cases y) (auto simp: purgeDue_def Let_def split: if_split_asm)
  with fw.keeps_first [OF keeps_purge run q] run show "run_along (eg_cr eg) v w w' \<and> run_of (eg_cr eg) v w'"
    by (auto simp: run_along_def)
qed

section \<open>A round goes onward\<close>

lemma ends_retain: "fw.ends (eg_cr eg) v (retain eg)"
proof -
  let ?cr = "eg_cr eg"
  have stale: "core (fst (case staleRecords eg e p of (p, chs) \<Rightarrow> (p, Inr chs :: _ sync_result))) = core p" for e p
    using core_stale [of eg e "sorted_list_of_fset (fmdom (pr_base p))" p] by (auto simp: staleRecords_def split: prod.split)
  have clock: "core (fst (case read_clock eg p of (p, t) \<Rightarrow> (p, Inr (word_of_int (max t 0)) :: u64 sync_result))) = core p" for p
    by (simp add: read_clock_def)
  have rest: "fw.ends ?cr v (let role = MembershipState_Role m (kr_Account (eg_Keys eg)) in
      if \<not> CanWrite role then pure_w (Inr ())
      else bind_w (on_run (\<lambda>p. case staleRecords eg (ms_epoch m) p of (p, chs) \<Rightarrow> (p, Inr chs))) (\<lambda>stale.
        if stale \<noteq> [] then bind_w (outside_run (reencrypt eg v)) (\<lambda>_. pure_w (Inl [ErrRoundAgain]))
        else bind_w (maintainTeam eg m) (\<lambda>_.
          if \<not> CanManage role then pure_w (Inr ())
          else bind_w (on_run (\<lambda>p. case read_clock eg p of (p, t) \<Rightarrow> (p, Inr (word_of_int (max t 0))))) (\<lambda>time.
            if ms_rotations m = [] then pure_w (Inl [ErrOther ''index out of range''])
            else bind_w (purgeDue eg m (last (ms_rotations m)) time) (\<lambda>_.
              if \<not> RotationDue (r_StartedUnixMilli (last (ms_rotations m))) True (ms_retentionDays m) time then pure_w (Inr ())
              else outside_run (RotateEpoch eg v [] False))))))" for m
    unfolding Let_def
    by (intro fw.ends_if fw.stays_ends [OF fw.stays_pure] fw.stays_ends [OF fw.ends_then_error] fw.ends_bind [OF fw.keeps_stays [OF keeps_on_run]]
      fw.ends_bind [OF stays_maintainTeam] fw.ends_bind [OF fw.keeps_stays [OF keeps_purgeDue]] ends_outside ends_reencrypt ends_RotateEpoch stale clock)
  show ?thesis
    unfolding fw.ends_def
  proof (intro allI impI)
    fix w w' x
    assume run: "run_of ?cr v w" and r: "retain eg w = (w', x)"
    obtain w1 y where l: "latest_members eg w = (w1, y)" by force
    from fw.keeps_first [OF keeps_latest run l] have one: "run_along ?cr v w w1" "run_of ?cr v w1" by auto
    then have v: "pr_vault (rw_run w1) = v" by (simp add: run_of_def)
    show "run_along ?cr v w w'"
    proof (cases y)
      case (Inl err)
      with r l one show ?thesis by (simp add: retain_def bind_w_def)
    next
      case (Inr m)
      from fw.ends_first [OF rest [of m] one(2)] r l Inr v have "run_along ?cr v w1 w'"
        unfolding retain_def by (simp add: bind_w_def [of "latest_members eg"] bind_w_def [of "of_run pr_vault"] of_run_def)
      with one(1) fw.along_trans show ?thesis by blast
    qed
  qed
qed

lemma round_loop_onward:
  assumes "round_loop eg v n r w = (w', r', x)"
  shows "onward (eg_cr eg) v (wd_db w) (wd_db w')"
  using assms
proof (induction n arbitrary: r w)
  case (Suc n)
  let ?cr = "eg_cr eg"
  obtain w1 y where s: "startPull eg v w = (w1, y)" by force
  note S = startPull_run [OF s]
  show ?case
  proof (cases y)
    case (Inl err)
    with Suc.prems s S show ?thesis by auto
  next
    case y: (Inr p)
    with S have run1: "run_of ?cr v (with_run w1 p)" by simp
    obtain w2 a where f: "flushOutbox eg (with_run w1 p) = (w2, a)" by force
    from fw.keeps_first [OF keeps_flushOutbox run1 f] S have two: "onward ?cr v (wd_db w) (wd_db w2)" "run_of ?cr v w2"
      using onward_trans by (auto simp: run_along_def)
    show ?thesis
    proof (cases a)
      case (Inl err)
      with Suc.prems s y f two show ?thesis by auto
    next
      case a: (Inr _)
      obtain w3 b where pl: "pullAll eg w2 = (w3, b)" by force
      from fw.keeps_first [OF keeps_pullAll two(2) pl] two(1) have three: "onward ?cr v (wd_db w) (wd_db w3)" "run_of ?cr v w3"
        using onward_trans by (auto simp: run_along_def)
      show ?thesis
      proof (cases b)
        case (Inl err)
        with Suc.prems s y f a pl three show ?thesis by auto
      next
        case b: (Inr _)
        obtain w4 k c where pu: "push eg w3 = (w4, k, c)" using prod_cases3 by blast
        from push_keeps [OF three(2) pu] three(1) have four: "onward ?cr v (wd_db w) (wd_db w4)" "run_of ?cr v w4"
          using onward_trans by (auto simp: run_along_def)
        obtain w5 e where re: "(case c of Inl err \<Rightarrow> (w4, Inl err) | Inr _ \<Rightarrow> retain eg w4) = (w5, e)" by force
        have five: "onward ?cr v (wd_db w) (wd_db w5)"
          using re four fw.ends_first [OF ends_retain four(2)] onward_trans by (auto simp: run_along_def split: sum.split_asm)
        show ?thesis
        proof (cases "isl e \<and> (is_conflict (projl e) \<or> ErrRoundAgain \<in> set (projl e))")
          case True
          then obtain r1 where "round_loop eg v n r1 (world_of w5) = (w', r', x)"
            using Suc.prems s y f a pl b pu re by (cases e) (auto simp: Let_def)
          from Suc.IH [OF this] five onward_trans show ?thesis by simp
        next
          case False
          have "w' = world_of w5" using Suc.prems s y f a pl b pu re False by (cases e) (auto simp: Let_def split: if_split_asm)
          with five show ?thesis by simp
        qed
      qed
    qed
  qed
qed simp

lemma explainIntegrity_only_logs: "explainIntegrity eg err w = (w', e) \<Longrightarrow> only_logs (wd_db w) (wd_db w')"
  by (auto simp: explainIntegrity_def split: if_split_asm prod.split_asm sum.split_asm dest: verifiedDeviceLog_only_logs)

lemma Sync_onward:
  assumes "Sync eg v w = (w', r, x)"
  shows "onward (eg_cr eg) v (wd_db w) (wd_db w')"
proof -
  obtain w1 r1 y where s: "syncRound eg v w = (w1, r1, y)" using prod_cases3 by blast
  then have one: "onward (eg_cr eg) v (wd_db w) (wd_db w1)" unfolding syncRound_def by (rule round_loop_onward)
  show ?thesis
  proof (cases y)
    case (Inl err)
    obtain w2 e where e: "explainIntegrity eg err w1 = (w2, e)" by force
    with assms s Inl have "w' = w2" by (auto simp: Sync_def Let_def split: prod.split_asm)
    with one only_logs_onward [OF explainIntegrity_only_logs [OF e]] onward_trans show ?thesis by blast
  next
    case (Inr u)
    with assms s one show ?thesis by (auto simp: Sync_def Let_def split: prod.split_asm)
  qed
qed

section \<open>Held changes and trash\<close>

lemma ww_quiet:
  assumes "\<And>w w' x. m w = (w', x) \<Longrightarrow> tb_heads (wd_db w') = tb_heads (wd_db w) \<and> tb_records (wd_db w') = tb_records (wd_db w)"
  shows "ww.stays cr v m"
  unfolding ww.stays_def
proof (intro allI impI)
  fix w w' x
  assume m: "m w = (w', x)"
  have "LoadVault (wd_db w') = LoadVault (wd_db w)" "position cr (wd_db w') = position cr (wd_db w)"
    using assms [OF m] by (auto simp: LoadVault_def position_def landedAt_def fun_eq_iff split: option.split)
  then show "onward cr v (wd_db w) (wd_db w') \<and> (isl x \<or> True)" by (simp add: onward_def)
qed

lemma ww_startPull: "ww.stays (eg_cr eg) v (startPull eg v :: (_ world, _) action)"
  unfolding ww.stays_def using startPull_run by fast

lemma ww_release: "ww.stays cr v (release_held u i)"
  by (rule ww_quiet) (auto simp: release_held_def write_db_def Release_def)

lemma ww_read: "ww.stays cr v (read_db f)"
  by (rule ww_quiet) (auto simp: read_db_def)

lemma ww_update: "ww.stays cr v (update_data eg f)"
  by (rule ww_quiet) (auto simp: update_data_def split: sum.split_asm)

lemma ww_confirm:
  "ww.stays cr v (\<lambda>w. case heldChange eg env (wd_data w) p of
     Inl reason \<Rightarrow> if ErrSkip \<in> set reason then release_held u i w else (w, Inl reason)
   | Inr (p, entry) \<Rightarrow> bind_w (update_data eg (\<lambda>d. eg_ApplyScope eg d (pr_scope p) [entry])) (\<lambda>_. release_held u i) w)"
  by (rule ww_quiet) (auto simp: release_held_def write_db_def Release_def bind_w_def update_data_def split: sum.split_asm if_split_asm prod.split_asm)

lemma ends_ConfirmHeld: "ww.ends (eg_cr eg) v (ConfirmHeld eg v i)"
  unfolding ConfirmHeld_def
  by (intro ww.stays_ends ww.stays_bind ww_startPull ww_read ww.stays_pure ww.stays_if ww_release ww_confirm)

lemma ends_RejectHeld: "ww.ends cr v (RejectHeld u i)"
  unfolding RejectHeld_def by (intro ww.stays_ends ww.stays_bind ww_read ww.stays_pure ww_release)

lemma keeps_restore: "fw.keeps (eg_cr eg) v (restore_in_run eg i)"
proof -
  have "core (fst (case run_retiredEpochs eg m p of (p, es) \<Rightarrow> (p, Inr es :: _ sync_result))) = core p" for m p
    by (simp add: run_retiredEpochs_def read_clock_def)
  then show ?thesis
    unfolding restore_in_run_def lastReadable_def Let_def
    by (intro fw.keeps_bind keeps_latest keeps_of_run fw.keeps_if fw.keeps_pure keeps_on_run keeps_ask)
      (auto intro!: fw.keeps_pure fw.keeps_if keeps_update split: option.split sum.split)
qed

lemma ends_Restore: "ww.ends (eg_cr eg) v (Restore eg v i)"
  unfolding ww.ends_def
proof (intro allI impI)
  fix w w' x
  assume r: "Restore eg v i w = (w', x)"
  obtain w1 y where s: "startPull eg v w = (w1, y)" by force
  note S = startPull_run [OF s]
  show "onward (eg_cr eg) v (wd_db w) (wd_db w')"
  proof (cases y)
    case (Inl err)
    with r s S show ?thesis by (auto simp: Restore_def)
  next
    case (Inr p)
    obtain w2 z where t: "restore_in_run eg i (with_run w1 p) = (w2, z)" by force
    from fw.keeps_first [OF keeps_restore _ t] S Inr have "onward (eg_cr eg) v (wd_db w1) (wd_db w2)" by (simp add: run_along_def)
    with r s S Inr t onward_trans show ?thesis by (auto simp: Restore_def)
  qed
qed

lemma ends_ShredNow: "ww.ends (eg_cr eg) v (ShredNow eg v)"
proof -
  have "ww.stays (eg_cr eg) v (RotateEpoch eg v [] True)"
    using ends_RotateEpoch [of eg v "[]" True] by (auto simp: ww.stays_def ww.ends_def)
  moreover have "ww.ends (eg_cr eg) v (\<lambda>w. case Sync eg v w of (w, _, x) \<Rightarrow> (w, x))"
    unfolding ww.ends_def using Sync_onward by (auto split: prod.split_asm; blast)
  ultimately show ?thesis unfolding ShredNow_def by (intro ww.ends_bind) auto
qed

section \<open>Any sequence of operations\<close>

text \<open>What may happen on a device: an operation of the engine on some vault, or an edit of the local vault.\<close>

inductive engine_step :: "('r, 'd, 'h) engine \<Rightarrow> 'd world \<Rightarrow> 'd world \<Rightarrow> bool" for eg where
  edit: "engine_step eg w (w\<lparr>wd_data := data\<rparr>)"
| pull: "engine_step eg w (fst (run_pull eg v remote w))"
| sync: "engine_step eg w (fst (Sync eg v w))"
| rotation: "engine_step eg w (fst (RotateEpoch eg v devs shred w))"
| rewrap: "engine_step eg w (fst (RewrapCurrent eg v key w))"
| role: "engine_step eg w (fst (ChangeRole eg v account r w))"
| policy: "engine_step eg w (fst (SetTeamPolicy eg v days strict w))"
| removal: "engine_step eg w (fst (RemoveMember eg v account w))"
| confirm: "engine_step eg w (fst (ConfirmHeld eg v i w))"
| reject: "engine_step eg w (fst (RejectHeld v i w))"
| restore: "engine_step eg w (fst (Restore eg v i w))"
| shred: "engine_step eg w (fst (ShredNow eg v w))"

lemma run_pull_onward:
  assumes "run_pull eg v remote w = (w', r, x)"
  shows "onward (eg_cr eg) v (wd_db w) (wd_db w')"
proof -
  obtain w1 y where s: "startPull eg v w = (w1, y)" by force
  note S = startPull_run [OF s]
  show ?thesis
  proof (cases y)
    case (Inl err)
    with assms s S show ?thesis by (auto simp: run_pull_def)
  next
    case (Inr p)
    let ?p = "p\<lparr>pr_preferRemote := remote\<rparr>"
    obtain w2 z where a: "pullAll eg (with_run w1 ?p) = (w2, z)" by force
    from S Inr have "run_of (eg_cr eg) v (with_run w1 ?p)" by (simp add: run_of_def)
    from fw.keeps_first [OF keeps_pullAll this a] have "onward (eg_cr eg) v (wd_db w1) (wd_db w2)" by (simp add: run_along_def)
    with assms s S Inr a onward_trans show ?thesis by (auto simp: run_pull_def)
  qed
qed

lemma ends_fst: "ww.ends cr v m \<Longrightarrow> onward cr v (wd_db w) (wd_db (fst (m w)))"
  using ww.ends_first [of cr v m w] by (metis prod.collapse)

lemmas ends_operations = ends_RotateEpoch ends_RewrapCurrent ends_ChangeRole ends_SetTeamPolicy ends_RemoveMember ends_ConfirmHeld ends_RejectHeld
  ends_Restore ends_ShredNow

lemma engine_step_onward: "engine_step eg w w' \<Longrightarrow> \<exists>v. onward (eg_cr eg) v (wd_db w) (wd_db w')"
proof (induction rule: engine_step.induct)
  case (edit w data)
  show ?case by simp
next
  case (pull w v remote)
  show ?case using run_pull_onward [of eg v remote w] by (metis prod.collapse)
next
  case (sync w v)
  show ?case using Sync_onward [of eg v w] by (metis prod.collapse)
qed (rule exI, rule ends_fst, rule ends_operations)+

lemma onward_reaches: "onward cr v d d' \<Longrightarrow> reaches cr (position cr d u) (position cr d' u)"
proof (cases "u = v")
  case False
  assume "onward cr v d d'"
  with False have "LoadVault d' u = LoadVault d u" by (auto simp: onward_def)
  then have "fmlookup (tb_heads d') u = fmlookup (tb_heads d) u" by (simp add: LoadVault_def split: option.split_asm)
  then show ?thesis by (simp add: position_def)
qed (simp add: onward_def)


section \<open>An adopted commit left in the outbox\<close>

text \<open>\<open>adopt\<close> advances the stored vault in one transaction and clears the outbox in another. When the program stops between
  the two, the commit is in the outbox although the vault stands on it.\<close>

definition adopted_in_outbox :: "ID \<Rightarrow> Commit \<Rightarrow> state_db \<Rightarrow> bool" where
  "adopted_in_outbox v c d \<longleftrightarrow> fmlookup (tb_heads d) v = Some (cm_Head c) \<and> Outbox d v = Some c"

lemma only_logs_adopted: "only_logs d d' \<Longrightarrow> adopted_in_outbox v c d' = adopted_in_outbox v c d"
  by (simp add: only_logs_def adopted_in_outbox_def Outbox_def)

lemma adopt_refused:
  assumes "run_of (eg_cr eg) v w" and "fmlookup (tb_heads (wd_db w)) v = Some (cm_Head c)" and "adopt eg c w = (w', x)"
  shows "wd_db w' = wd_db w \<and> isl x"
  using assms(3)
proof (cases rule: adopt_stages)
  case (refused w1 err y)
  with members_run [OF refused(1)] show ?thesis by auto
next
  case (adopted w1 m vs d)
  from members_run [OF adopted(1)] have "pr_state (rw_run w1) = pr_state (rw_run w)" by auto
  with ApplyCommit_place [OF adopted(2)] assms(1,2) have "h_Seq (cm_Head c) = h_Seq (cm_Head c) + 1"
    by (auto simp: run_of_def place_def position_def)
  then show ?thesis by simp
qed

lemma flushOutbox_refused:
  assumes "run_of (eg_cr eg) v w" and "adopted_in_outbox v c (wd_db w)" and "\<forall>n. \<not> isl (ss_Commit (eg_Server eg) n c)"
    and "flushOutbox eg w = (w', x)"
  shows "wd_db w' = wd_db w \<and> isl x"
proof -
  let ?w = "w\<lparr>wd_tick := Suc (wd_tick w)\<rparr>"
  have out: "Outbox (wd_db w) (pr_vault (rw_run w)) = Some c" using assms(1,2) by (simp add: run_of_def adopted_in_outbox_def)
  obtain k where k: "ss_Commit (eg_Server eg) (wd_tick w) c = Inr k"
    using spec [OF assms(3), of "wd_tick w"] by (cases "ss_Commit (eg_Server eg) (wd_tick w) c") auto
  have run: "run_of (eg_cr eg) v ?w" using assms(1) by (simp add: run_of_def)
  have "adopt eg c ?w = (w', x)" using assms(4) out k by (simp add: flushOutbox_def ask_def)
  from adopt_refused [OF run _ this] assms(2) show ?thesis by (simp add: adopted_in_outbox_def)
qed

lemma Sync_blocked:
  assumes "adopted_in_outbox v c (wd_db w)" and "\<forall>n. \<not> isl (ss_Commit (eg_Server eg) n c)" and "Sync eg v w = (w', r, x)"
  shows "only_logs (wd_db w) (wd_db w') \<and> isl x"
proof -
  obtain w1 y where s: "startPull eg v w = (w1, y)" by force
  note L = startPull_only_logs [OF s] and S = startPull_run [OF s]
  let ?r0 = "\<lparr>sr_Pull = no_report, sr_Pushed = 0\<rparr>"
  obtain w2 r2 z where sr: "syncRound eg v w = (w2, r2, z)" using prod_cases3 by blast
  have "only_logs (wd_db w) (wd_db w2) \<and> isl z"
  proof (cases y)
    case (Inl err)
    with s sr L show ?thesis by (auto simp: syncRound_def maxRebases_def eval_nat_numeral)
  next
    case (Inr p)
    obtain w3 a where f: "flushOutbox eg (with_run w1 p) = (w3, a)" by force
    have "adopted_in_outbox v c (wd_db (with_run w1 p))" using assms(1) only_logs_adopted [OF L] by simp
    from flushOutbox_refused [OF _ this assms(2) f] S Inr have F: "wd_db w3 = wd_db w1" "isl a" by auto
    with s Inr f sr L show ?thesis by (cases a) (auto simp: syncRound_def maxRebases_def eval_nat_numeral)
  qed
  moreover obtain err where z: "z = Inl err" using calculation by (meson isl_def)
  moreover obtain w4 e where e: "explainIntegrity eg err w2 = (w4, e)" by force
  moreover have "w' = w4" "x = Inl e" using assms(3) sr z e by (auto simp: Sync_def Let_def split: prod.split_asm)
  ultimately show ?thesis using explainIntegrity_only_logs [OF e] only_logs_trans by auto
qed

text \<open>C18. A commit of this device that the server acknowledged and the device adopted, but whose outbox entry was not
  cleared because the program stopped between the two transactions, ends the synchronisation of its vault: as long as the
  server acknowledges the resent commit, as it is meant to, every later round fails before it pulls, and leaves
  the stored vault and the outbox as they are.\<close>

theorem adopted_commit_blocks_the_vault:
  assumes "AdvanceVault (cm_Head c) (cm_Records c) (cm_Purged c) d = Inr (wd_db w)" and "Outbox d vault = Some c"
    and "h_Vault (cm_Head c) = vault" and "\<forall>n. \<not> isl (ss_Commit (eg_Server eg) n c)"
  shows "case ((\<lambda>w. fst (Sync eg vault w)) ^^ n) w of w' \<Rightarrow>
    isl (snd (snd (Sync eg vault w'))) \<and> LoadVault (wd_db w') vault = LoadVault (wd_db w) vault \<and> Outbox (wd_db w') vault = Some c"
proof -
  from assms(1,2,3) have start: "adopted_in_outbox vault c (wd_db w)"
    by (auto simp: adopted_in_outbox_def Outbox_def elim: AdvanceVault_Inr)
  let ?w = "\<lambda>n. ((\<lambda>w. fst (Sync eg vault w)) ^^ n) w"
  have inv: "only_logs (wd_db w) (wd_db (?w n)) \<and> adopted_in_outbox vault c (wd_db (?w n))" for n
  proof (induction n)
    case (Suc n)
    obtain w' r x where s: "Sync eg vault (?w n) = (w', r, x)" using prod_cases3 by blast
    from Sync_blocked [OF conjunct2 [OF Suc] assms(4) s] Suc s show ?case
      using only_logs_trans only_logs_adopted by auto
  qed (use start in simp)
  obtain w' r x where s: "Sync eg vault (?w n) = (w', r, x)" using prod_cases3 by blast
  from Sync_blocked [OF conjunct2 [OF inv] assms(4) s] s inv [of n] only_logs_Load [of "wd_db w" "wd_db (?w n)"] show ?thesis
    by (simp add: adopted_in_outbox_def)
qed

end
