(* ===== verification/Sync_Sample.thy ===== *)
theory Sync_Sample
  imports Sync_Verified
begin

text \<open>
  A sample vault for the sync engine: one record, a chain of four heads, a toy hash that only tells whether a marked byte
  occurs in what is hashed, and a server that hands it out. It carries the witnesses of the engine's properties and the run
  that shows what a resync does to a record that was purged and created again.
\<close>

section \<open>A toy hash\<close>

definition mark :: "bytes \<Rightarrow> bool" where
  "mark bs \<longleftrightarrow> 200 \<in> set bs"

definition sy_crypto :: crypto where
  "sy_crypto = \<lparr>sha256 = (\<lambda>bs. if mark bs then 200 else 0), sha512 = (\<lambda>_. replicate 64 0), ed25519_Verify = (\<lambda>_ _ _. True)\<rparr>"

lemma mark_Nil [simp]: "\<not> mark []" by (simp add: mark_def)
lemma mark_Cons [simp]: "mark (b # bs) \<longleftrightarrow> b = 200 \<or> mark bs" by (auto simp: mark_def)
lemma mark_append [simp]: "mark (xs @ ys) \<longleftrightarrow> mark xs \<or> mark ys" by (auto simp: mark_def)
lemma mark_replicate [simp]: "mark (replicate n b) \<longleftrightarrow> n \<noteq> 0 \<and> b = 200" by (auto simp: mark_def)
lemma mark_encode: "mark (encode_fields fs) \<longleftrightarrow> (\<exists>f \<in> set fs. mark (be 4 (length f)) \<or> mark f)" by (induction fs) (auto simp: encode_fields_def mark_def)

lemma mark_be_zero [simp]: "\<not> mark (be n 0)"
  by (induction n) simp_all

lemma byte_200: "x < 256 \<Longrightarrow> word_of_nat x = (200 :: byte) \<longleftrightarrow> x = 200"
  by (simp add: word_unat_eq_iff unat_of_nat)

lemma mark_be_small: "x < 256 \<Longrightarrow> mark (be n x) \<longleftrightarrow> n \<noteq> 0 \<and> x = 200"
proof (induction n)
  case (Suc n)
  with byte_200 [of x] show ?case by simp
qed simp

lemma mark_be_bytes: "unat (w :: 'a::len word) < 256 \<Longrightarrow> mark (be_bytes w) \<longleftrightarrow> LENGTH('a) div 8 \<noteq> 0 \<and> unat w = 200"
  by (simp add: be_bytes_def mark_be_small)

section \<open>A vault\<close>

text \<open>The two contents of record 8: the one this device stored, marked, and the one that was created after it had been
  deleted and purged, at version 1 again.\<close>

definition sy_env :: "byte \<Rightarrow> Envelope" where
  "sy_env b = \<lparr>e_Vault = 1, e_Record = 8, e_Version = 1, e_Epoch = 0, e_Suite = Suite1, e_Deleted = False,
     e_WrappedDEK = replicate 72 0, e_Body = b # replicate 295 0, e_Author = 7, e_SigAlg = SigEd25519, e_Sig = replicate 64 0\<rparr>"

definition sy_head :: "u64 \<Rightarrow> hash32 \<Rightarrow> hash32 \<Rightarrow> Head" where
  "sy_head n prev root = \<lparr>h_Vault = 1, h_Seq = n, h_PrevHash = prev, h_MerkleRoot = root, h_CurrentEpoch = 0,
     h_MembershipSeq = 1, h_MembershipHead = 0, h_Commit = 8, h_Author = 7, h_ClientTimeUnixMilli = 0,
     h_SigAlg = SigEd25519, h_Sig = replicate 64 0\<rparr>"

definition sy_leaf :: "hash32 \<Rightarrow> Leaf" where
  "sy_leaf digest = \<lparr>l_Record = 8, l_Version = 1, l_Digest = digest, l_Deleted = False\<rparr>"

definition sy_check :: SignatureCheck where
  "sy_check account device alg message sig = None"

definition sy_resolve :: DeviceResolver where
  "sy_resolve device = Inr (4, replicate 32 0)"

definition sy_members :: MembershipState where
  "sy_members = ml_s1\<lparr>ms_hash := 0\<rparr>"

lemma mark_be_length: "x < 65536 \<Longrightarrow> mark (be 4 x) \<longleftrightarrow> x mod 256 = 200 \<or> x div 256 = 200"
proof -
  assume x: "x < 65536"
  have four: "Suc 3 = 4" by simp
  have "be 4 x = be 3 (x div 256) @ [word_of_nat (x mod 256)]" by (rule be.simps(2) [of 3 x, unfolded four])
  moreover have "mark (be 3 (x div 256)) \<longleftrightarrow> x div 256 = 200" using x by (simp add: mark_be_small)
  moreover have "word_of_nat (x mod 256) = (200 :: byte) \<longleftrightarrow> x mod 256 = 200" by (rule byte_200) simp
  ultimately show ?thesis by (simp only: mark_append mark_Cons mark_Nil simp_thms) blast
qed

lemmas mark_eval = mark_encode mark_be_length mark_be_small be_bytes_def str_bytes_def label_defs bool_byte_def Suite1_def SigEd25519_def

lemma sy_genesis: "sha256 sy_crypto (genesis_preimage 1) = 0" "sha256 sy_crypto (member_genesis 1) = 0"
  by (simp_all add: sy_crypto_def genesis_preimage_def member_genesis_def mark_eval)

lemma sy_New: "NewMembershipState sy_crypto 1 = Inr ml_s0"
  unfolding NewMembershipState_Inr by (simp add: ml_s0_def sy_genesis)

lemma sy_op_hash: "sha256 sy_crypto (op_preimage ml_create) = 0"
  by (simp add: sy_crypto_def op_preimage_def op_fields_def op_head_def op_tail_def wrap_fields_def ml_create_def ml_op_def ml_wrap_def
      mark_eval MemberCreate_def)

lemma sy_create: "member_step sy_crypto sy_check ml_s0 ml_create = Inr sy_members"
proof -
  have "op_fits ml_create" unfolding ml_create_def by (rule ml_fits) simp
  moreover have "applyKind sy_crypto (ml_s0\<lparr>ms_params := suite1_params\<rparr>) ml_create =
      Inr (sy_members\<lparr>ms_seq := 0, ms_hash := 0\<rparr>)"
    by (simp add: ml_create_def ml_op_def ml_s0_def applyKind_def applyCreate_Inr MaxRetentionDays_def)
       (simp add: sy_members_def ml_state_defs)
  ultimately show ?thesis
    using sy_op_hash unfolding member_step_Inr by (simp add: sy_check_def) (simp add: ml_create_def ml_op_def ml_s0_def sy_members_def ml_state_defs)
qed

lemma sy_head_fits: "head_fits (sy_head n p r)"
  by (simp add: head_fits_def fits_def head_fields_def label_defs MaxUint32_def sy_head_def)

lemma sy_head_hash: "unat n < 100 \<Longrightarrow> p \<in> {0, 200} \<Longrightarrow> r \<in> {0, 200} \<Longrightarrow>
  sha256 sy_crypto (head_preimage (sy_head n p r)) = (if p = 200 \<or> r = 200 then 200 else 0)"
  by (auto simp: sy_crypto_def head_preimage_def head_fields_def sy_head_def mark_eval)

lemma sy_env_valid: "Envelope_Validate (sy_env b) = None"
  by (simp add: Envelope_Validate_def validateContent_def sy_env_def ID_IsZero_def ed25519_SignatureSize_def Let_def MinPaddedSize_def PaddedSize_def)

lemma sy_env_bytes: "Envelope_SigningBytes (sy_env b) = Inr (encode_fields (envelope_fields (sy_env b)))"
  using Envelope_Validate_fits(1) [OF sy_env_valid] by (simp add: Envelope_SigningBytes_fields canon_result_def)

lemma sy_env_verify: "Envelope_Verify sy_crypto (sy_env b) (replicate 32 0) = None"
  unfolding Envelope_Verify_None using sy_env_valid sy_env_bytes
  by (simp add: VerifySignature_None) (simp add: sy_env_def sy_crypto_def)

lemma sy_env_leaf: "LeafOf sy_crypto (sy_env b) = Inr (sy_leaf (if b = 200 then 200 else 0))"
proof -
  have "fits (encode_fields (envelope_fields (sy_env b)))"
    by (simp add: fits_def envelope_fields_def sy_env_def label_defs MaxUint32_def)
  moreover have "fits (e_Sig (sy_env b))" using Envelope_Validate_fits(2) [OF sy_env_valid] .
  ultimately have "Envelope_Digest sy_crypto (sy_env b) =
      Inr (sha256 sy_crypto (encode_fields [str_bytes LabelEnvelope, encode_fields (envelope_fields (sy_env b)), e_Sig (sy_env b)]))"
    by (simp add: Envelope_Digest_fields sy_env_bytes canon_digest_def fits_def MaxUint32_def label_defs)
  also have "\<dots> = Inr (if b = 200 then 200 else 0)"
    by (simp add: sy_crypto_def envelope_fields_def sy_env_def mark_eval)
  finally show ?thesis by (simp add: LeafOf_def sy_leaf_def sy_env_def)
qed

lemma sy_root: "MerkleRoot sy_crypto [sy_leaf d] = Inr (if d = 200 then 200 else 0)" if "d \<in> {0, 200}"
  using that by (auto simp: MerkleRoot_eq build.simps leaf_key_def sy_leaf_def sy_crypto_def leaf_fields_def mark_eval)

definition sy_state :: "u64 \<Rightarrow> hash32 \<Rightarrow> VaultState" where
  "sy_state n d = \<lparr>vs_vault = 1, vs_cursor = \<lparr>cur_Seq = n, cur_Hash = 200, cur_MembershipSeq = 1\<rparr>, vs_leaves = fmupd 8 (sy_leaf d) fmempty\<rparr>"

lemma sy_leaves: "VaultState_Leaves (sy_state n d) = [sy_leaf d]"
  by (simp add: VaultState_Leaves_def sy_state_def sorted_list_of_fset.rep_eq)

lemma sy_restore:
  assumes "unat n < 100" and "p \<in> {0, 200}" and "b \<in> {0, 200}" and "p = 200 \<or> b = 200"
  shows "RestoreVaultState sy_crypto 1 (Some (sy_head n p (if b = 200 then 200 else 0))) [sy_env b] = Inr (sy_state n (if b = 200 then 200 else 0))"
proof -
  let ?d = "if b = 200 then 200 else 0 :: hash32"
  have "RestoreVaultStateFromLeaves sy_crypto 1 (Some (sy_head n p ?d)) [sy_leaf ?d] = Inr (sy_state n ?d)"
    unfolding RestoreFromLeaves_Inr
    using sy_head_hash [OF assms(1), of p ?d] assms(2,4) sy_root [of ?d] sy_head_fits [of n p ?d] sy_leaves [of n ?d]
    by (auto simp: sy_head_def sy_state_def keyed_def sy_leaf_def)
  then show ?thesis by (simp add: RestoreVaultState_def sy_env_leaf) (simp add: sy_head_def sy_env_def)
qed

section \<open>A device and its server\<close>

definition sy_keys :: KeyRing where
  "sy_keys = \<lparr>kr_Account = 9, kr_Device = 7, kr_AccountKeys = (Suite1, replicate 32 1, replicate 1216 0),
     kr_CurrentKeys = (replicate 32 1, replicate 1216 0), kr_VaultKey = (\<lambda>_ _ _. Inr []), kr_Sign = (\<lambda>_. Inr (replicate 64 0))\<rparr>"

definition sy_server :: "(u64 \<Rightarrow> (RemoteCommit list \<times> bool) sync_result) \<Rightarrow> SyncServer" where
  "sy_server changes = \<lparr>ss_Changes = (\<lambda>_ _ since _. changes since),
     ss_Snapshot = (\<lambda>_ _. Inr \<lparr>rs_Head = Some (sy_head 4 200 0), rs_Records = [sy_env 0]\<rparr>),
     ss_Heads = (\<lambda>_ _ _ _. Inr [sy_head 2 200 200, sy_head 3 200 200, sy_head 4 200 0]), ss_Commit = (\<lambda>_ c. Inr (h_Seq (cm_Head c))),
     ss_DeviceLog = (\<lambda>_ _ _. Inr []), ss_Membership = (\<lambda>_ _ _. Inr []), ss_Versions = (\<lambda>_ _ _. Inr []), ss_MemberLog = (\<lambda>_ _. Inl [ErrRemoteNotFound]),
     ss_AppendMembership = (\<lambda>_ _ _. Inr ())\<rparr>"

definition sy_engine :: "(u64 \<Rightarrow> (RemoteCommit list \<times> bool) sync_result) \<Rightarrow> (unit, unit, unit) engine" where
  "sy_engine changes = \<lparr>eg_cr = sy_crypto, eg_Keys = sy_keys, eg_Server = sy_server changes, eg_Open = (\<lambda>_ _. Inl [ErrOther ''sealed'']),
     eg_Seal = (\<lambda>_ _ _ _. Inr (replicate 72 0, replicate 296 0)), eg_mac = (\<lambda>_ _. replicate 32 1), eg_decodeBody = (\<lambda>_. None), eg_encodeBody = (\<lambda>_. Some []),
     eg_isObject = (\<lambda>_. True), eg_metaKey = (\<lambda>_. None), eg_json = (\<lambda>_. None), eg_marshal = (\<lambda>_. ()), eg_Quote = id,
     eg_conflictJson = (\<lambda>_. None), eg_address = (\<lambda>_. None),
     eg_decoders = \<lparr>dec_plugins = (\<lambda>_. Inl ErrRecordData), dec_lockout = (\<lambda>_. Inl ErrRecordData), dec_identity = (\<lambda>_. Inl ErrRecordData),
       dec_connection = (\<lambda>_. Inl ErrRecordData), dec_knownHost = (\<lambda>_. Inl ErrRecordData), dec_peerTrust = (\<lambda>_. Inl ErrRecordData)\<rparr>,
     eg_host = shc, eg_NaturalKey = (\<lambda>_ _. None), eg_Validate = (\<lambda>_. True), eg_SnapshotScope = (\<lambda>_ _ _. Inr fmempty),
     eg_ApplyScope = (\<lambda>d _ _. Inr d), eg_SuspendBindings = (\<lambda>_ _ _ d. d), eg_GetData = Inr, eg_UpdateData = (\<lambda>f d. f d),
     eg_NowUnixMilli = (\<lambda>_. 0), eg_rand = (\<lambda>_. replicate 16 1), eg_requireJoined = (\<lambda>_ _ _. Inr ()),
     eg_teamTrust = (\<lambda>_ _. Inr (sy_resolve, sy_check, [ml_create])), eg_memberLog = (\<lambda>_. Inl [ErrRemoteNotFound]),
     eg_WrapVaultKey = (\<lambda>_ _ _ _ _ _. Inl [ErrOpen])\<rparr>"

definition sy_db :: "Head \<Rightarrow> state_db" where
  "sy_db h = empty_state\<lparr>tb_heads := fmupd 1 h fmempty, tb_records := fmupd 1 (fmupd 8 (sy_env 200, 0) fmempty) fmempty\<rparr>"

definition sy_world :: "unit world" where
  "sy_world = \<lparr>wd_tick = 0, wd_db = sy_db (sy_head 1 0 200), wd_data = (), wd_clock = 0\<rparr>"

definition sy_run :: "(unit) pullRun" where
  "sy_run = \<lparr>pr_vault = 1, pr_ops = [ml_create], pr_members = \<lparr>mc_vault = 1, mc_ops = [ml_create], mc_check = sy_check, mc_state = None\<rparr>,
     pr_resolve = sy_resolve, pr_state = sy_state 1 200, pr_base = fmupd 8 (sy_env 200) fmempty, pr_names = fmempty, pr_bodies = fmempty,
     pr_namingKey = None, pr_report = \<lparr>rp_Commits = 0, rp_Applied = 0, rp_Held = 0, rp_Quarantined = 0, rp_MembershipSeq = 1, rp_NewDevices = []\<rparr>,
     pr_scope = ID_String 1, pr_landed = fmupd 8 0 fmempty, pr_preferRemote = False, pr_heldDeletions = fmempty, pr_clock = 0\<rparr>"

lemma sy_load: "LoadVault (sy_db h) 1 = \<lparr>sto_Head = Some h, sto_Records = [sy_env 200], sto_LandedAt = fmupd 8 0 fmempty\<rparr>"
  by (simp add: LoadVault_def sy_db_def rows_of_def in_order_def landedAt_def fmmap_fmupd sorted_list_of_fset.rep_eq)

lemma sy_db_ok: "h_Vault h = 1 \<Longrightarrow> db_ok (sy_db h)"
  by (auto simp: db_ok_def sy_db_def rows_of_def empty_state_def sy_env_def split: if_split_asm)

lemma sy_stored: "RestoreVaultState sy_crypto 1 (Some (sy_head 1 0 200)) [sy_env 200] = Inr (sy_state 1 200)"
  using sy_restore [of 1 0 200] by simp

lemma sy_restorable: "restorable sy_crypto (wd_db sy_world) 1"
  by (simp add: restorable_def sy_world_def sy_load sy_stored is_ok_def)

lemma sy_device_log:
  "\<exists>dl. verifiedDeviceLog sy_crypto sy_keys (sy_server changes) w = (w\<lparr>wd_tick := Suc (wd_tick w)\<rparr>, Inr (dl, []))"
  if "tb_device_entries (wd_db w) = []"
proof -
  obtain dl where dl: "NewDeviceLogState sy_crypto 9 Suite1 (replicate 32 1) (replicate 1216 0) = Inr dl" "ds_identityKey dl = replicate 32 1"
    "ds_encryptionKey dl = replicate 1216 0" "ds_devices dl = fmempty" "\<not> ds_pendingSuccession dl"
    by (simp add: NewDeviceLogState_Inr)
  then show ?thesis
    using that by (simp add: verifiedDeviceLog_def action_defs sy_keys_def sy_server_def StateStore_DeviceLog_def log_of_def
      integ_res_def IsRevoked_def PendingSuccession_def AppendDeviceLog_def appendLog_def)
qed

lemma zero_id: "id_of_bytes (take IDSize (be_bytes (0 :: hash32))) = 0"
proof -
  have be: "be n 0 = replicate n 0" for n by (induction n) (simp_all add: replicate_append_same)
  have "of_be (replicate n 0) = 0" for n by (induction n) (simp_all add: of_be.simps)
  then show ?thesis by (simp add: be_bytes_def be id_of_bytes_def take_replicate)
qed

lemma sy_scope: "scopeOf (sy_engine changes) 1 = ID_String 1" "ID_String 1 \<noteq> []"
proof -
  have "sha256 sy_crypto (str_bytes labelPersonalVault @ be_bytes (9 :: ID)) = 0"
    by (simp add: sy_crypto_def labelPersonalVault_def mark_eval)
  then show "scopeOf (sy_engine changes) 1 = ID_String 1"
    by (simp add: scopeOf_def PersonalVaultID_def sy_engine_def sy_keys_def zero_id)
  have "be_bytes (1 :: ID) \<noteq> []" by (simp flip: length_0_conv)
  then show "ID_String 1 \<noteq> []" by (cases "be_bytes (1 :: ID)") (simp_all add: ID_String_def hex_encode_def hex_byte_def)
qed

lemma sy_meta: "VaultMetaID sy_crypto 1 = 0"
proof -
  have "sha256 sy_crypto (str_bytes labelVaultMeta @ be_bytes (1 :: ID)) = 0" by (simp add: sy_crypto_def labelVaultMeta_def mark_eval)
  then show ?thesis by (simp add: VaultMetaID_def zero_id)
qed

lemma sy_start: "startPull (sy_engine changes) 1 sy_world = (sy_world\<lparr>wd_tick := 1\<rparr>, Inr sy_run)"
proof -
  have "tb_device_entries (wd_db sy_world) = []" by (simp add: sy_world_def sy_db_def empty_state_def)
  from sy_device_log [OF this, of changes] obtain dl where
    dl: "verifiedDeviceLog sy_crypto sy_keys (sy_server changes) sy_world = (sy_world\<lparr>wd_tick := 1\<rparr>, Inr (dl, []))"
    by (auto simp: sy_world_def)
  have eg: "eg_cr (sy_engine changes) = sy_crypto" "eg_Keys (sy_engine changes) = sy_keys" "eg_Server (sy_engine changes) = sy_server changes"
    "eg_requireJoined (sy_engine changes) = (\<lambda>_ _ _. Inr ())" "eg_teamTrust (sy_engine changes) = (\<lambda>_ _. Inr (sy_resolve, sy_check, [ml_create]))"
    by (simp_all add: sy_engine_def)
  have held: "heldDeletions (sy_db h) 1 = fmempty" for h
    by (simp add: heldDeletions_def Quarantined_def in_order_def rows_of_def sy_db_def empty_state_def sorted_list_of_fset.rep_eq)
  have db: "wd_db sy_world = sy_db (sy_head 1 0 200)" by (simp add: sy_world_def)
  have rest: "RestoreVaultState sy_crypto 1 (sto_Head (LoadVault (wd_db sy_world) 1)) (sto_Records (LoadVault (wd_db sy_world) 1)) = Inr (sy_state 1 200)"
    by (simp add: db sy_load sy_stored)
  have "e_Record (sy_env 200) = 8" by (simp add: sy_env_def)
  then have run: "new_run (sy_engine changes) 1 [] sy_resolve sy_check [ml_create] (LoadVault (wd_db sy_world) 1) (sy_state 1 200) (heldDeletions (wd_db sy_world) 1) (wd_clock sy_world) = sy_run"
    by (simp add: new_run_def db sy_load held sy_scope indexEnvelopes_def newDevices_def sy_run_def) (simp add: sy_world_def)
  have meta: "fmlookup (pr_base sy_run) (VaultMetaID sy_crypto 1) = None" by (simp add: sy_run_def sy_meta)
  show ?thesis
    by (simp add: startPull_def bind_w_def requireJoined_def vaultTrust_def read_db_def pure_w_def Let_def sy_scope eg dl integ_res_def rest run meta)
qed

section \<open>Pulls\<close>

text \<open>A server with nothing new, and one that claims to have pruned what came before position 2.\<close>

definition sy_quiet :: "u64 \<Rightarrow> (RemoteCommit list \<times> bool) sync_result" where
  "sy_quiet since = Inr ([], False)"

definition sy_pruned :: "u64 \<Rightarrow> (RemoteCommit list \<times> bool) sync_result" where
  "sy_pruned since = (if since < 2 then Inl [ErrHistoryPruned] else Inr ([], False))"

lemma sy_quiet_run:
  "run_pull (sy_engine sy_quiet) 1 False sy_world = (sy_world\<lparr>wd_tick := 2\<rparr>, pr_report sy_run, Inr ())"
proof -
  have same: "sy_run\<lparr>pr_preferRemote := False\<rparr> = sy_run" by (simp add: sy_run_def)
  have seq: "cur_Seq (vs_cursor (pr_state sy_run)) = 1" by (simp add: sy_run_def sy_state_def)
  have clock: "pr_clock sy_run = 0" by (simp add: sy_run_def)
  show ?thesis
    by (simp add: run_pull_def sy_start same pullAll_def bind_w_def pure_w_def with_run_def seq)
       (simp add: pull_loop.simps ask_def sy_engine_def sy_server_def sy_quiet_def pure_w_def world_of_def sy_world_def clock)
qed

lemma sy_members_at:
  "members_at sy_crypto 1 \<lparr>mc_vault = 1, mc_ops = [ml_create], mc_check = sy_check, mc_state = None\<rparr> =
    (\<lparr>mc_vault = 1, mc_ops = [ml_create], mc_check = sy_check, mc_state = Some sy_members\<rparr>, Inr sy_members)"
proof -
  have "at_loop sy_crypto sy_check [ml_create] 1 ml_s0 = (sy_members, None)"
    by (subst at_loop.simps, simp add: ml_s0_def [of] sy_create [unfolded ml_s0_def])
       (subst at_loop.simps, simp add: sy_members_def ml_state_defs)
  then show ?thesis by (simp add: members_at_def sy_New)
qed

definition sy_run2 :: "unit pullRun" where
  "sy_run2 = sy_run\<lparr>pr_members := \<lparr>mc_vault = 1, mc_ops = [ml_create], mc_check = sy_check, mc_state = Some sy_members\<rparr>\<rparr>"

lemma sy_snapshot_ok:
  "verifySnapshot (sy_engine changes) (sy_head 4 200 0) [sy_env 0] (with_run w sy_run) = (with_run w sy_run2, Inr (sy_state 4 0))"
proof -
  have head: "verifySnapshotHead sy_crypto 1 sy_resolve (sy_head 4 200 0) sy_members = None"
    by (simp add: verifySnapshotHead_def sy_resolve_def Head_Verify_def Head_SigningBytes_eq VerifySignature_None)
       (simp add: sy_head_def sy_members_def ml_state_defs IsDeviceRevoked_def MembershipState_Role_def CanWrite_def role_defs sy_crypto_def)
  have recs: "verify_records sy_crypto sy_resolve [sy_env 0] = None"
    using sy_env_verify [of 0] by (simp add: sy_resolve_def)
  have "members (sy_engine changes) 1 (with_run w sy_run) = (with_run w sy_run2, Inr sy_members)"
    using sy_members_at by (simp add: members_def on_run_def sy_engine_def with_run_def sy_run2_def) (simp add: sy_run_def)
  moreover have "rw_run (with_run w sy_run2) = sy_run2" "pr_vault sy_run2 = 1" "pr_resolve sy_run2 = sy_resolve"
    by (simp_all add: with_run_def sy_run2_def sy_run_def)
  moreover have "h_MembershipSeq (sy_head 4 200 0) = 1" "eg_cr (sy_engine changes) = sy_crypto" by (simp_all add: sy_head_def sy_engine_def)
  moreover have "RestoreVaultState sy_crypto 1 (Some (sy_head 4 200 0)) [sy_env 0] = Inr (sy_state 4 0)" using sy_restore [of 4 200 0] by simp
  ultimately show ?thesis
    using head recs by (simp add: verifySnapshot_def bind_w_def of_run_def pure_w_def integ_opt_def integ_res_def del: verify_records.simps)
qed

lemma sy_delta:
  "snapshotDelta sy_run2 (sy_head 4 200 0) [sy_env 0] =
    (\<lparr>cm_Head = sy_head 4 200 0, cm_Records = [], cm_Purged = []\<rparr>, \<lparr>cm_Head = sy_head 4 200 0, cm_Records = [], cm_Purged = []\<rparr>)"
  by (simp add: snapshotDelta_def sy_run2_def sy_run_def Let_def sorted_list_of_fset.rep_eq) (simp add: sy_env_def)

definition sy_run3 :: "unit pullRun" where
  "sy_run3 = count_commit (count_applied 0 (sy_run2\<lparr>pr_state := sy_state 4 0\<rparr>))"

lemma sy_land:
  "landAs (sy_engine changes) \<lparr>cm_Head = sy_head 4 200 0, cm_Records = [], cm_Purged = []\<rparr>
    \<lparr>cm_Head = sy_head 4 200 0, cm_Records = [], cm_Purged = []\<rparr> (sy_state 4 0) (with_run (sy_world\<lparr>wd_tick := n\<rparr>) sy_run2) =
    (with_run (sy_world\<lparr>wd_tick := n, wd_db := sy_db (sy_head 4 200 0)\<rparr>) (count_applied 0 (sy_run2\<lparr>pr_state := sy_state 4 0\<rparr>)), Inr ())"
proof -
  have nk: "pr_namingKey sy_run2 = None" by (simp add: sy_run2_def sy_run_def)
  have all: "fmfilter (\<lambda>i. True) m = m" for m :: "(ID, Envelope \<times> u64) go_map" by (rule fmap_ext) simp
  have adv: "AdvanceVault (sy_head 4 200 0) [] [] (sy_db (sy_head 1 0 200)) = Inr (sy_db (sy_head 4 200 0))"
    by (simp add: AdvanceVault_def sy_db_def sql_args_def rows_of_def all) (simp add: sy_head_def fmupd_idem word_le_nat_alt)
  show ?thesis
    by (simp add: landAs_def bind_w_def interpret_in_def on_run_def interpret_commit_def localSnapshot_def with_run_def nk no_outcome_def of_run_def
        pure_w_def settleQuarantine_def write_db_def upd_run_def sy_world_def adv advance_def)
qed

lemma sy_descends:
  "checkDescends (sy_engine changes) 1 \<lparr>cur_Seq = 1, cur_Hash = 200, cur_MembershipSeq = 1\<rparr> 4 200 w = (w\<lparr>wd_tick := Suc (wd_tick w)\<rparr>, Inr ())"
proof -
  have step: "Advance sy_crypto \<lparr>cur_Seq = n, cur_Hash = 200, cur_MembershipSeq = 1\<rparr> (sy_head m 200 r) =
      Inr \<lparr>cur_Seq = m, cur_Hash = 200, cur_MembershipSeq = 1\<rparr>" if "m = n + 1" "unat m < 100" "r \<in> {0, 200}" for n m r
    using sy_head_hash [OF that(2), of 200 r] that(1,3) sy_head_fits [of m 200 r]
    by (simp add: Advance_Inr VerifyLink_None) (auto simp: sy_head_def)
  have "AdvanceAll sy_crypto \<lparr>cur_Seq = 1, cur_Hash = 200, cur_MembershipSeq = 1\<rparr> [sy_head 2 200 200, sy_head 3 200 200, sy_head 4 200 0] =
    Inr \<lparr>cur_Seq = 4, cur_Hash = 200, cur_MembershipSeq = 1\<rparr>"
    using step [of 2 1 200] step [of 3 2 200] step [of 4 3 0] by simp
  then show ?thesis
    by (subst checkDescends.simps, simp add: ask_def sy_engine_def sy_server_def word_le_nat_alt)
       (subst checkDescends.simps, simp)
qed

lemma sy_resync:
  "resync (sy_engine changes) (with_run (sy_world\<lparr>wd_tick := n\<rparr>) sy_run) =
    (with_run (sy_world\<lparr>wd_tick := Suc (Suc n), wd_db := sy_db (sy_head 4 200 0)\<rparr>) sy_run3, Inr ())"
proof -
  have hash: "Head_Hash sy_crypto (sy_head 4 200 0) = Inr 200"
    using sy_head_hash [of 4 200 0] sy_head_fits [of 4 200 0] by (simp add: Head_Hash_eq)
  have obs: "CheckObserved \<lparr>cur_Seq = 1, cur_Hash = 200, cur_MembershipSeq = 1\<rparr> 4 200 = None" by (simp add: CheckObserved_def)
  have run: "rw_run (with_run w p) = p" "pr_vault sy_run = 1" "vs_cursor (pr_state sy_run) = \<lparr>cur_Seq = 1, cur_Hash = 200, cur_MembershipSeq = 1\<rparr>"
    "h_Seq (sy_head 4 200 0) = 4" "with_run w p\<lparr>wd_tick := m\<rparr> = with_run (w\<lparr>wd_tick := m\<rparr>) p" "wd_tick (with_run w p) = wd_tick w"
    for w :: "unit world" and p :: "unit pullRun" and m
    by (simp_all add: with_run_def sy_run_def sy_state_def sy_head_def)
  have ask: "ask (\<lambda>n. ss_Snapshot (eg_Server (sy_engine changes)) n 1) (with_run w p) =
    (with_run (w\<lparr>wd_tick := Suc (wd_tick w)\<rparr>) p, Inr \<lparr>rs_Head = Some (sy_head 4 200 0), rs_Records = [sy_env 0]\<rparr>)"
    for w :: "unit world" and p :: "unit pullRun"
    by (simp add: ask_def sy_engine_def sy_server_def with_run_def)
  have eg: "eg_cr (sy_engine changes) = sy_crypto" by (simp add: sy_engine_def)
  have upd: "with_run w p\<lparr>rw_run := q\<rparr> = with_run w q" for w :: "unit world" and p q :: "unit pullRun" by (simp add: with_run_def)
  show ?thesis
    by (simp add: resync_def bind_w_def of_run_def pure_w_def run ask hash obs eg integ_res_def integ_opt_def Let_def sy_descends
        sy_snapshot_ok sy_delta sy_land upd_run_def upd sy_run3_def)
qed

lemma sy_pruned_run:
  "\<exists>report n. run_pull (sy_engine sy_pruned) 1 False sy_world = (sy_world\<lparr>wd_tick := n, wd_db := sy_db (sy_head 4 200 0)\<rparr>, report, Inr ())"
proof -
  have same: "sy_run\<lparr>pr_preferRemote := False\<rparr> = sy_run" by (simp add: sy_run_def)
  have seq: "cur_Seq (vs_cursor (pr_state sy_run)) = 1" "cur_Seq (vs_cursor (pr_state sy_run3)) = 4"
    by (simp_all add: sy_run_def sy_state_def sy_run3_def count_commit_def count_applied_def)
  have ask: "ask (\<lambda>n. ss_Changes (eg_Server (sy_engine sy_pruned)) n v s pullPageSize) w = (w\<lparr>wd_tick := Suc (wd_tick w)\<rparr>, sy_pruned s)" for v s
    and w :: "(unit, unit) run_world"
    by (simp add: ask_def sy_engine_def sy_server_def)
  have upd: "with_run w p\<lparr>wd_tick := m\<rparr> = with_run (w\<lparr>wd_tick := m\<rparr>) p" "rw_run (with_run w p) = p" "wd_tick (with_run w p) = wd_tick w"
    for w :: "unit world" and p :: "unit pullRun" and m by (simp_all add: with_run_def)
  have last: "pull_loop (sy_engine sy_pruned) True (with_run w sy_run3) = (with_run (w\<lparr>wd_tick := Suc (wd_tick w)\<rparr>) sy_run3, Inr ())" for w
    by (subst pull_loop.simps) (simp add: ask upd seq sy_pruned_def pure_w_def)
  have "pull_loop (sy_engine sy_pruned) False (with_run (sy_world\<lparr>wd_tick := 1\<rparr>) sy_run) =
    (with_run (sy_world\<lparr>wd_tick := Suc (Suc (Suc (Suc (Suc 0)))), wd_db := sy_db (sy_head 4 200 0)\<rparr>) sy_run3, Inr ())"
    by (subst pull_loop.simps) (simp add: ask upd seq sy_pruned_def sy_resync last, simp add: sy_world_def)
  then show ?thesis
    by (simp add: run_pull_def sy_start same pullAll_def bind_w_def pure_w_def upd seq world_of_def)
       (simp add: with_run_def sy_world_def sy_run3_def sy_run2_def count_commit_def count_applied_def sy_run_def)
qed

section \<open>Records that open\<close>

text \<open>An engine on which every live record opens to a body of one type that names the item \<open>h\<close>, whose id is 9.\<close>

definition kn_engine :: "RecordType \<Rightarrow> (unit, unit, unit) engine" where
  "kn_engine t = (sy_engine sy_quiet)\<lparr>eg_Open := (\<lambda>_ _. Inr []), eg_decodeBody := (\<lambda>_. Some \<lparr>bd_Type = t, bd_Schema = 1, bd_Data = ()\<rparr>),
     eg_mac := (\<lambda>_ _. [0, 0, 0, 0, 0, 0, 0, 0, 0, 0, 0, 0, 0, 0, 0, 9] @ replicate 16 0), eg_NaturalKey := (\<lambda>_ _. Some ''h'')\<rparr>"

definition kn_run :: "unit pullRun" where
  "kn_run = sy_run\<lparr>pr_namingKey := Some (replicate 32 0), pr_scope := []\<rparr>"

lemma kn_id: "length t \<le> 20 \<Longrightarrow> RecordID (eg_mac (kn_engine u)) (replicate 32 0) t ''h'' = Inr 9"
proof -
  assume t: "length t \<le> 20"
  have "of_be [0, 0, 0, 0, 0, 0, 0, 0, 0, 0, 0, 0, 0, 0, 0, 9] = 9" by (simp add: of_be.simps)
  then have "id_of_bytes (take IDSize ([0, 0, 0, 0, 0, 0, 0, 0, 0, 0, 0, 0, 0, 0, 0, 9] @ replicate 16 0)) = 9" by (simp add: id_of_bytes_def IDSize_def)
  moreover have "\<exists>msg. canon_Encoded (canon_chain [canon_String t, canon_String ''h''] (NewCanon labelRecordName)) = Inr msg"
    using t by (simp add: canon_unfold canon_result_def fits_def MaxUint32_def labelRecordName_def)
  ultimately show ?thesis by (auto simp: RecordID_def kn_engine_def NamingKeySize_def ID_IsZero_def)
qed

lemma kn_open: "t \<noteq> [] \<Longrightarrow> open_env (kn_engine t) p r = Inr \<lparr>bd_Type = t, bd_Schema = 1, bd_Data = ()\<rparr>"
  by (simp add: open_env_def kn_engine_def sy_engine_def sy_keys_def DecodeBody_def)

lemma kn_fields: "eg_cr (kn_engine t) = sy_crypto" "eg_NaturalKey (kn_engine t) = (\<lambda>_ _. Some ''h'')" "eg_Validate (kn_engine t) = (\<lambda>_. True)"
  "eg_SnapshotScope (kn_engine t) = (\<lambda>_ _ _. Inr fmempty)" "eg_GetData (kn_engine t) = Inr"
  by (simp_all add: kn_engine_def sy_engine_def)

definition kn_record :: Envelope where
  "kn_record = (sy_env 0)\<lparr>e_Record := 9\<rparr>"

lemma kn_interpret:
  "\<exists>p' out. interpret_commit (kn_engine TypeFolder) () \<lparr>cm_Head = sy_head 2 200 0, cm_Records = [kn_record], cm_Purged = []\<rparr> kn_run = (p', Inr out) \<and>
    in_changes out = [\<lparr>en_Type = TypeFolder, en_Key = ''h'', en_Data = Some ()\<rparr>]"
proof -
  have run: "pr_namingKey kn_run = Some (replicate 32 0)" "pr_scope kn_run = []" "pr_vault kn_run = 1" by (simp_all add: kn_run_def sy_run_def)
  have rec: "e_Record kn_record = 9" "\<not> e_Deleted kn_record" by (simp_all add: kn_record_def sy_env_def)
  have access: "RecordAccess KnownSchemas TypeFolder 1 = SchemaWritable"
    by (simp add: RecordAccess_def KnownSchemas_def schemaV1_def type_name_defs)
  have "TypeFolder \<noteq> []" "length TypeFolder \<le> 20" by (simp_all add: TypeFolder_def)
  then obtain q where dec: "decode (kn_engine TypeFolder) kn_record kn_run = Inr (q, \<lparr>en_Type = TypeFolder, en_Key = ''h'', en_Data = Some ()\<rparr>)"
    "pr_scope q = []"
    using kn_id [of TypeFolder TypeFolder] by (simp add: decode_def run rec kn_open access checkFiled_def kn_fields)
  have "classify_arrival (kn_engine TypeFolder) \<lparr>en_Type = TypeFolder, en_Key = ''h'', en_Data = Some ()\<rparr> None fmempty = Inr applyVerdict"
    by (simp add: classify_arrival_def Classify_def ClassifyAddition_def type_name_defs SettingsType_def settingsPrefix_def applyVerdict_def)
  then show ?thesis
    using dec by (simp add: interpret_commit_def run rec kn_fields sy_meta localSnapshot_def interpret_record_def Allows_def route_def Let_def
      local_data_def mergeLocal_def noteRepointing_changes applyVerdict_def no_outcome_def)
qed

section \<open>Properties\<close>

theorem arrivals_are_trusted_witness:
  "\<exists>nk local. RecordID (eg_mac (kn_engine TypeFolder)) nk TypeFolder ''h'' = Inr 9 \<and>
    no_weaker (eg_decoders (kn_engine TypeFolder)) TypeFolder (local_data local 9) (Some ())"
proof -
  obtain p' out where run: "interpret_commit (kn_engine TypeFolder) () \<lparr>cm_Head = sy_head 2 200 0, cm_Records = [kn_record], cm_Purged = []\<rparr> kn_run = (p', Inr out)"
    "in_changes out = [\<lparr>en_Type = TypeFolder, en_Key = ''h'', en_Data = Some ()\<rparr>]" using kn_interpret by blast
  have "TypeFolder \<noteq> TypeConflict" by (simp add: TypeFolder_def TypeConflict_def)
  with arrivals_are_trusted [OF run(1), of "\<lparr>en_Type = TypeFolder, en_Key = ''h'', en_Data = Some ()\<rparr>" "()"] run(2)
  show ?thesis by (auto simp: kn_record_def)
qed

theorem misfiled_tombstone_is_not_held_witness:
  "in_changes (snd (interpret_record (kn_engine TypeKnownHost) (fmupd 9 \<lparr>en_Type = TypeKnownHost, en_Key = ''h'', en_Data = Some ()\<rparr> fmempty)
     (zero_envelope 1 8 2) (kn_run\<lparr>pr_base := fmupd 8 (sy_env 0) (pr_base kn_run)\<rparr>, no_outcome))) =
   [\<lparr>en_Type = TypeKnownHost, en_Key = ''h'', en_Data = None\<rparr>]"
proof -
  have run: "pr_namingKey kn_run = Some (replicate 32 0)" "pr_scope kn_run = []" "pr_vault kn_run = 1" "pr_names kn_run = fmempty"
    by (simp_all add: kn_run_def sy_run_def)
  have "TypeKnownHost \<noteq> []" "length TypeKnownHost \<le> 20" by (simp_all add: TypeKnownHost_def)
  then show ?thesis
    using misfiled_tombstone_is_not_held [of kn_run "replicate 32 0" "kn_engine TypeKnownHost" "''h''" 9
        "fmupd 9 \<lparr>en_Type = TypeKnownHost, en_Key = ''h'', en_Data = Some ()\<rparr> fmempty" "()" "sy_env 0" "()" "zero_envelope 1 8 2" no_outcome]
      kn_id [of TypeKnownHost TypeKnownHost] kn_open [of TypeKnownHost kn_run "sy_env 0"] run
    by (simp add: kn_fields sy_meta zero_envelope_def sy_env_def no_outcome_def)
qed

theorem pull_leaves_restorable_witness:
  "restorable sy_crypto (wd_db (sy_world\<lparr>wd_tick := 2\<rparr>)) 1 \<and> db_ok (wd_db sy_world)"
proof -
  have ok: "db_ok (wd_db sy_world)" by (simp add: sy_world_def sy_db_ok sy_head_def)
  have eg: "eg_cr (sy_engine sy_quiet) = sy_crypto" by (simp add: sy_engine_def)
  have seq: "\<forall>h. fmlookup (tb_heads (wd_db sy_world)) 1 = Some h \<longrightarrow> h_Seq h \<noteq> 0"
    by (simp add: sy_world_def sy_db_def sy_head_def)
  have quiet: "\<forall>n v s k err. ss_Changes (eg_Server (sy_engine sy_quiet)) n v s k = Inl err \<longrightarrow> ErrHistoryPruned \<notin> set err"
    by (simp add: sy_engine_def sy_server_def sy_quiet_def)
  from pull_leaves_restorable [OF ok _ seq quiet sy_quiet_run] sy_restorable ok show ?thesis by (simp add: eg)
qed


end
