(* ===== verification/Sync_Changes.thy ===== *)
theory Sync_Changes
  imports Sync_Progress Sync_Sample
begin

text \<open>
  What the operations of the engine change: a rotation hands the new key to exactly the members it is made for
  (\<open>usecase/team_membership.go\<close>), a round pushes exactly what this device changed (\<open>sync_push.go\<close>), and a decision about a held
  change concerns the version that was held (\<open>sync_held.go\<close>). The theory closes with the witnesses of the engine's
  properties that need a sample vault.
\<close>

section \<open>Rotation\<close>

lemma encryptionKeyOf_scope: "pr_scope p' = pr_scope p \<Longrightarrow> encryptionKeyOf eg p' member = encryptionKeyOf eg p member"
  by (simp add: encryptionKeyOf_def)

text \<open>A wrap made for a member, by the vault, the scope and the epoch it was made in.\<close>

definition wrap_of :: "('r, 'd, 'h) engine \<Rightarrow> 'r pullRun \<Rightarrow> u32 \<Rightarrow> bytes \<Rightarrow> ID \<Rightarrow> KeyWrap \<Rightarrow> bool" where
  "wrap_of eg p epoch vk member kw \<longleftrightarrow> (\<exists>enc n w. encryptionKeyOf eg p member = Inr enc \<and>
     eg_WrapVaultKey eg n enc (pr_vault p) epoch member vk = Inr w \<and> NewKeyWrap (eg_cr eg) member enc w = Inr kw)"

lemma wrap_of_run: "pr_scope p' = pr_scope p \<Longrightarrow> pr_vault p' = pr_vault p \<Longrightarrow> wrap_of eg p' epoch vk = wrap_of eg p epoch vk"
  by (simp add: wrap_of_def fun_eq_iff encryptionKeyOf_scope [of p' p])

lemma wrap_all_Inr:
  assumes "wrap_all eg epoch vk ms p = (p', Inr kws)"
  shows "list_all2 (wrap_of eg p epoch vk) ms kws"
  using assms
proof (induction ms arbitrary: p p' kws)
  case (Cons member ms)
  from Cons.prems obtain enc where enc: "encryptionKeyOf eg p member = Inr enc" by (auto split: sum.split_asm)
  obtain p1 y where w: "wrap_for eg epoch vk member enc p = (p1, y)" by force
  with Cons.prems enc obtain kw where y: "y = Inr kw" by (cases y) auto
  obtain p2 z where ws: "wrap_all eg epoch vk ms p1 = (p2, z)" by force
  with Cons.prems enc w y obtain rest where z: "z = Inr rest" "kws = kw # rest" by (auto simp: result_simps)
  have p1: "pr_scope p1 = pr_scope p" "pr_vault p1 = pr_vault p" using w by (auto simp: wrap_for_def)
  have "wrap_of eg p epoch vk member kw" using w y enc by (auto simp: wrap_for_def wrap_of_def result_simps)
  with Cons.IH [OF ws [unfolded z(1)]] z(2) show ?case by (simp add: wrap_of_run [OF p1])
qed simp

lemma wrap_of_member: "wrap_of eg p epoch vk member kw \<Longrightarrow> w_Member kw = member"
  by (auto simp: wrap_of_def NewKeyWrap_def split: if_split_asm sum.split_asm)

lemma rotationFor_Inr:
  assumes "rotationFor eg m ms p = (p', Inr op)"
  obtains vk where "length vk = 32" "list_all2 (wrap_of eg p (ms_epoch m + 1) vk) ms (o_Wraps op)" "o_Epoch op = ms_epoch m + 1"
    "o_Kind op = MemberRotateEpoch"
proof -
  from assms obtain vk r where vk: "ReadFull 32 (eg_rand eg (pr_clock p)) = Inr (vk, r)"
    by (cases "ReadFull 32 (eg_rand eg (pr_clock p))") (auto simp: rotationFor_def)
  let ?p = "p\<lparr>pr_clock := Suc (pr_clock p)\<rparr>"
  obtain p1 x where w: "wrap_all eg (ms_epoch m + 1) vk ms ?p = (p1, x)" by force
  with assms vk obtain kws where x: "x = Inr kws" "op = zero_op\<lparr>o_Kind := MemberRotateEpoch, o_Epoch := ms_epoch m + 1, o_Wraps := kws,
      o_TimeUnixMilli := r_StartedUnixMilli (last (ms_rotations m))\<rparr>"
    by (auto simp: rotationFor_def result_simps split: if_split_asm)
  have "length vk = 32" using vk by (simp add: ReadFull_Inr)
  moreover from wrap_all_Inr [OF w [unfolded x(1)]] have "list_all2 (wrap_of eg p (ms_epoch m + 1) vk) ms kws"
    using wrap_of_run [of ?p p eg] by simp
  ultimately show thesis using that x(2) by simp
qed

lemma find_wrap:
  assumes "list_all2 P ms kws" and "\<And>member kw. P member kw \<Longrightarrow> w_Member kw = member" and "distinct ms" and "member \<in> set ms"
  shows "\<exists>kw. find (\<lambda>w. w_Member w = member) kws = Some kw \<and> P member kw"
  using assms(1,3,4)
proof (induction rule: list_all2_induct)
  case (Cons a as k ks)
  with assms(2) [OF Cons(1)] show ?case by (cases "a = member") auto
qed simp

lemma sign_op_wraps: "sign_op eg m op p = (p', Inr sop) \<Longrightarrow> o_Epoch sop = o_Epoch op \<and> o_Wraps sop = o_Wraps op \<and> o_Kind sop = o_Kind op"
  by (auto simp: sign_op_def read_clock_def Let_def result_simps)


section \<open>What is pushed\<close>

text \<open>The change a record asks for, by the local items, the verified base, and the records waiting for a decision:
  nothing for a record that waits or that this build may not write; the local item when it differs from the
  base; a deletion when the base holds a live item, other than the vault's own description, that is gone here.\<close>

definition change_for :: "('r, 'd, 'h) engine \<Rightarrow> ID go_set \<Rightarrow> (ID, 'r Entry) go_map \<Rightarrow> 'r pullRun \<Rightarrow> ID \<Rightarrow> 'r change option" where
  "change_for eg held local p i =
    (if i |\<in>| held then None
     else (case fmlookup local i of
         Some le \<Rightarrow>
           (case snd (baseBody eg i p) of
              None \<Rightarrow> Some \<lparr>ch_id = i, ch_entry = le, ch_schema = 0\<rparr>
            | Some b \<Rightarrow> if same_as eg b le \<or> \<not> writable b then None else Some \<lparr>ch_id = i, ch_entry = le, ch_schema = 0\<rparr>)
       | None \<Rightarrow>
           (case fmlookup (pr_base p) i of
              None \<Rightarrow> None
            | Some env \<Rightarrow>
                if e_Deleted env \<or> i = VaultMetaID (eg_cr eg) (pr_vault p) then None
                else (case snd (baseBody eg i p) of
                    None \<Rightarrow> None
                  | Some b \<Rightarrow>
                      if \<not> writable b then None
                      else map_option (\<lambda>key. \<lparr>ch_id = i, ch_entry = \<lparr>en_Type = bd_Type b, en_Key = key, en_Data = None\<rparr>, ch_schema = 0\<rparr>)
                        (eg_NaturalKey eg (bd_Type b) (bd_Data b))))))"

lemma change_for_id: "change_for eg held local p i = Some c \<Longrightarrow> ch_id c = i"
  by (auto simp: change_for_def split: if_split_asm option.split_asm)

text \<open>Reading one base version does not change what the others read as.\<close>

definition same_base :: "('r, 'd, 'h) engine \<Rightarrow> 'r pullRun \<Rightarrow> 'r pullRun \<Rightarrow> bool" where
  "same_base eg p p' \<longleftrightarrow> pr_base p' = pr_base p \<and> pr_vault p' = pr_vault p \<and> (\<forall>i. snd (baseBody eg i p') = snd (baseBody eg i p))"

lemma same_base_refl [simp]: "same_base eg p p"
  by (simp add: same_base_def)

lemma same_base_trans: "same_base eg p q \<Longrightarrow> same_base eg q r \<Longrightarrow> same_base eg p r"
  by (simp add: same_base_def)

lemma open_env_bodies: "open_env eg (p\<lparr>pr_bodies := m\<rparr>) = open_env eg p"
  by (simp add: open_env_def fun_eq_iff)

lemma baseBody_same_base:
  assumes "baseBody eg i p = (p', b)"
  shows "same_base eg p p' \<and> b = snd (baseBody eg i p)"
proof -
  have "same_base eg p p'"
  proof (cases "p' = p")
    case False
    have new: "fmlookup (pr_bodies p) i = None" using assms False by (cases "fmlookup (pr_bodies p) i") (auto simp: baseBody_def)
    obtain env where env: "fmlookup (pr_base p) i = Some env" "\<not> e_Deleted env"
      using assms False new by (cases "fmlookup (pr_base p) i") (auto simp: baseBody_def split: if_split_asm)
    obtain b0 where b0: "open_env eg p env = Inr b0"
      using assms False new env by (cases "open_env eg p env") (auto simp: baseBody_def)
    have p': "p' = p\<lparr>pr_bodies := fmupd i b0 (pr_bodies p)\<rparr>" using assms new env b0 by (simp add: baseBody_def)
    have "snd (baseBody eg j p') = snd (baseBody eg j p)" for j
      using new env b0 by (cases "j = i") (simp_all add: p' baseBody_def open_env_bodies split: option.split sum.split)
    then show ?thesis by (simp add: same_base_def p')
  qed simp
  with assms show ?thesis by simp
qed

lemma change_for_same: "same_base eg p p' \<Longrightarrow> change_for eg held local p' = change_for eg held local p"
  unfolding change_for_def same_base_def fun_eq_iff by (simp only: refl simp_thms)

lemma changed_items_exact:
  assumes "changed_items eg held local is p = (p', out)" and "\<forall>i \<in> set is. i |\<in>| fmdom local"
  shows "same_base eg p p' \<and> out = List.map_filter (change_for eg held local p) is"
  using assms
proof (induction "is" arbitrary: p p' out)
  case (Cons i "is")
  obtain p1 b where b: "baseBody eg i p = (p1, b)" by force
  note B = baseBody_same_base [OF b]
  obtain p2 rest where r: "changed_items eg held local is p1 = (p2, rest)" by force
  have C: "change_for eg held local p1 = change_for eg held local p" using change_for_same B by blast
  from Cons.IH [OF r] Cons.prems(2) have R: "same_base eg p1 p2" "rest = List.map_filter (change_for eg held local p) is" by (simp_all add: C)
  obtain le where le: "fmlookup local i = Some le" using Cons.prems(2) by auto
  have "p' = p2" using Cons.prems(1) b r by simp
  moreover have "out = List.map_filter (change_for eg held local p) (i # is)"
    using Cons.prems(1) b r R(2) le by (cases b) (auto simp: List.map_filter_simps change_for_def)
  ultimately show ?case using B R(1) same_base_trans by blast
qed (simp add: List.map_filter_def)

lemma deleted_items_exact:
  assumes "deleted_items eg held local is p = (p', out)" and "\<forall>i \<in> set is. i |\<in>| fmdom (pr_base p)"
  shows "out = List.map_filter (\<lambda>i. if i |\<in>| fmdom local then None else change_for eg held local p i) is"
  using assms
proof (induction "is" arbitrary: p p' out)
  case (Cons i "is")
  let ?f = "\<lambda>p i. if i |\<in>| fmdom local then None else change_for eg held local p i"
  obtain env where env: "fmlookup (pr_base p) i = Some env" using Cons.prems(2) by auto
  show ?case
  proof (cases "i |\<in>| fmdom local \<or> i |\<in>| held \<or> e_Deleted env \<or> i = VaultMetaID (eg_cr eg) (pr_vault p)")
    case True
    then have "?f p i = None" using env by (auto simp: change_for_def fmlookup_dom_iff split: option.split)
    with True Cons env show ?thesis by (auto simp: List.map_filter_simps)
  next
    case False
    obtain p1 b where b: "baseBody eg i p = (p1, b)" by force
    note B = baseBody_same_base [OF b]
    obtain p2 rest where r: "deleted_items eg held local is p1 = (p2, rest)" by force
    have "\<forall>i \<in> set is. i |\<in>| fmdom (pr_base p1)" using Cons.prems(2) B by (simp add: same_base_def)
    moreover have "change_for eg held local p1 = change_for eg held local p" using change_for_same B by blast
    ultimately have rest: "rest = List.map_filter (?f p) is" using Cons.IH [OF r] by (simp cong: if_cong)
    have "fmlookup local i = None" using False by auto
    with Cons.prems(1) b r rest False env show ?thesis
      by (cases b) (auto simp: List.map_filter_simps change_for_def split: option.split)
  qed
qed (simp add: List.map_filter_def)

lemma map_filter_ids:
  "(\<And>i c. f i = Some c \<Longrightarrow> ch_id c = i) \<Longrightarrow> map ch_id (List.map_filter f is) = filter (\<lambda>i. f i \<noteq> None) is"
  by (induction "is") (auto simp: List.map_filter_simps split: option.split)

lemma set_map_filter: "c \<in> set (List.map_filter f is) \<longleftrightarrow> (\<exists>i \<in> set is. f i = Some c)"
  by (induction "is") (auto simp: List.map_filter_simps split: option.split)

text \<open>C13. A round pushes exactly what this device changed: the changes it finds are those each record asks for, one
  for a record, in the order of the record ids. So a record waiting for a decision, or one this build cannot write, is
  never pushed over, and an edit or deletion made here is never left out.\<close>

theorem local_changes_exact:
  assumes "pr_namingKey (rw_run w) = Some nk" and "eg_GetData eg (wd_data w) = Inr data"
    and "eg_SnapshotScope eg nk data (pr_scope (rw_run w)) = Inr local"
  shows "\<exists>w' changes. localChanges eg w = (w', Inr changes) \<and> sorted (map ch_id changes) \<and> distinct (map ch_id changes) \<and>
    (\<forall>c. c \<in> set changes \<longleftrightarrow> (\<exists>i. change_for eg (heldIDs (wd_db w) (pr_vault (rw_run w))) local (rw_run w) i = Some c))"
proof -
  let ?held = "heldIDs (wd_db w) (pr_vault (rw_run w))" and ?p = "rw_run w"
  let ?f = "change_for eg ?held local ?p" and ?L = "sorted_list_of_fset (fmdom local)"
  let ?g = "\<lambda>i. if i |\<in>| fmdom local then None else ?f i"
  obtain p1 written where c: "changed_items eg ?held local ?L ?p = (p1, written)" by force
  from changed_items_exact [OF c] have W: "same_base eg ?p p1" "written = List.map_filter ?f ?L" by simp_all
  let ?B = "sorted_list_of_fset (fmdom (pr_base p1))"
  obtain p2 gone where d: "deleted_items eg ?held local ?B p1 = (p2, gone)" by force
  have G: "gone = List.map_filter ?g ?B"
    using deleted_items_exact [OF d] change_for_same [OF W(1), of ?held local] by (simp cong: if_cong)
  let ?chs = "sort_key ch_id (written @ gone)"
  have run: "localChanges eg w = (w\<lparr>rw_run := p2\<rparr>, Inr ?chs)"
    using c d by (simp add: localChanges_def assms bind_w_def pure_w_def read_db_def on_run_def)
  have "map ch_id written = filter (\<lambda>i. ?f i \<noteq> None) ?L" unfolding W(2) by (rule map_filter_ids) (rule change_for_id)
  moreover have "map ch_id gone = filter (\<lambda>i. ?g i \<noteq> None) ?B"
    unfolding G by (rule map_filter_ids) (auto dest: change_for_id split: if_split_asm)
  moreover have "distinct (sorted_list_of_fset A)" for A :: "ID fset" by (simp add: sorted_list_of_fset.rep_eq)
  ultimately have "distinct (map ch_id (written @ gone))" by (auto intro!: distinct_filter)
  then have "distinct (map ch_id ?chs)" by (simp only: distinct_map set_sort distinct_sort)
  moreover have "c \<in> set ?chs \<longleftrightarrow> (\<exists>i. ?f i = Some c)" for c
  proof -
    have base: "pr_base p1 = pr_base ?p" using W(1) by (simp add: same_base_def)
    have "i |\<in>| fmdom local \<or> i |\<in>| fmdom (pr_base ?p)" if "?f i = Some c" for i
      using that by (auto simp: change_for_def fmlookup_dom_iff split: if_split_asm option.split_asm)
    then show ?thesis by (auto simp: W(2) G set_map_filter base split: if_split_asm)
  qed
  ultimately show ?thesis using run sorted_sort_key by blast
qed

section \<open>Restoring from the trash\<close>

text \<open>C20. Restoring a known host from the trash does not look at what this device trusts now: the old line is applied to the
  local vault whatever it holds, although the same line arriving from another device would wait for the master password
  wherever a different line is stored under its record.\<close>

theorem restore_replaces_a_trusted_key:
  assumes "latest_members eg w = (w1, Inr m)" and "fmlookup (pr_base (rw_run w1)) i = Some tomb" and "e_Deleted tomb"
    and "run_retiredEpochs eg m (rw_run w1) = (p2, destroyed)"
    and "lastReadable eg i destroyed (w1\<lparr>rw_run := p2\<rparr>) = (w2, Inr (Some body))"
    and "bd_Type body = TypeKnownHost" and "dec_knownHost (eg_decoders eg) (bd_Data body) = Inr line"
    and "eg_NaturalKey eg TypeKnownHost (bd_Data body) = Some key"
    and "eg_Validate eg \<lparr>en_Type = TypeKnownHost, en_Key = key, en_Data = Some (bd_Data body)\<rparr>"
  shows "restore_in_run eg i w =
      update_data eg (\<lambda>d. eg_ApplyScope eg d (pr_scope (rw_run w1)) [\<lparr>en_Type = TypeKnownHost, en_Key = key, en_Data = Some (bd_Data body)\<rparr>]) w2 \<and>
    (\<forall>stored other. dec_knownHost (eg_decoders eg) stored = Inr other \<longrightarrow> other \<noteq> line \<longrightarrow>
      (\<exists>v. Classify (eg_decoders eg) TypeKnownHost (Some stored) (Some (bd_Data body)) = Inr v \<and> v_Action v = ActionPending))"
proof
  have classify: "Classify (eg_decoders eg) TypeKnownHost loc (Some x) =
      classifyReplacement (dec_knownHost (eg_decoders eg)) loc x hostAnchor ''replaces the stored key of a known host''" for loc x
    by (simp add: Classify_def type_name_defs SettingsType_def settingsPrefix_def)
  show "restore_in_run eg i w =
      update_data eg (\<lambda>d. eg_ApplyScope eg d (pr_scope (rw_run w1)) [\<lparr>en_Type = TypeKnownHost, en_Key = key, en_Data = Some (bd_Data body)\<rparr>]) w2"
    using assms by (simp add: restore_in_run_def bind_w_def of_run_def on_run_def classify classifyReplacement_def applyVerdict_def)
  show "\<forall>stored other. dec_knownHost (eg_decoders eg) stored = Inr other \<longrightarrow> other \<noteq> line \<longrightarrow>
      (\<exists>v. Classify (eg_decoders eg) TypeKnownHost (Some stored) (Some (bd_Data body)) = Inr v \<and> v_Action v = ActionPending)"
    using assms(7) by (simp add: classify classifyReplacement_def hostAnchor_def pending_def)
qed

section \<open>Witnesses\<close>


definition sy_commit :: Commit where
  "sy_commit = \<lparr>cm_Head = sy_head 1 0 200, cm_Records = [sy_env 200], cm_Purged = []\<rparr>"

theorem adopted_commit_blocks_the_vault_witness:
  "\<exists>d w. AdvanceVault (cm_Head sy_commit) (cm_Records sy_commit) (cm_Purged sy_commit) d = Inr (wd_db w) \<and> Outbox d 1 = Some sy_commit \<and>
    isl (snd (snd (Sync (sy_engine sy_quiet) 1 (((\<lambda>w. fst (Sync (sy_engine sy_quiet) 1 w)) ^^ 3) w))))"
proof -
  let ?d = "empty_state\<lparr>tb_outbox := fmupd 1 sy_commit fmempty\<rparr>"
  obtain d' where d': "AdvanceVault (cm_Head sy_commit) (cm_Records sy_commit) (cm_Purged sy_commit) ?d = Inr d'"
    by (simp add: AdvanceVault_def sy_commit_def sy_head_def sy_env_def empty_state_def rows_of_def putRecord_def sql_args_def)
  have out: "Outbox ?d 1 = Some sy_commit" by (simp add: Outbox_def)
  have vault: "h_Vault (cm_Head sy_commit) = 1" by (simp add: sy_commit_def sy_head_def)
  have ack: "\<forall>n. \<not> isl (ss_Commit (eg_Server (sy_engine sy_quiet)) n sy_commit)" by (simp add: sy_engine_def sy_server_def)
  let ?w = "sy_world\<lparr>wd_db := d'\<rparr>"
  from d' have adv: "AdvanceVault (cm_Head sy_commit) (cm_Records sy_commit) (cm_Purged sy_commit) ?d = Inr (wd_db ?w)" by simp
  from adopted_commit_blocks_the_vault [OF adv out vault ack, of 3] adv out show ?thesis by (intro exI [of _ ?d] exI [of _ ?w]) simp
qed

theorem local_changes_exact_witness:
  "\<exists>w' changes. localChanges (sy_engine sy_quiet) (with_run sy_world (sy_run\<lparr>pr_namingKey := Some [1]\<rparr>)) = (w', Inr changes) \<and>
    sorted (map ch_id changes) \<and> distinct (map ch_id changes)"
  using local_changes_exact [of "with_run sy_world (sy_run\<lparr>pr_namingKey := Some [1]\<rparr>)" "[1]" "sy_engine sy_quiet" "()" fmempty]
  by (auto simp: with_run_def sy_engine_def)

definition sy_rotor :: "(unit, unit, unit) engine" where
  "sy_rotor = (sy_engine sy_quiet)\<lparr>eg_WrapVaultKey := (\<lambda>n. WrapVaultKey toy_primitives []), eg_rand := (\<lambda>_. replicate 32 3)\<rparr>"


definition sy_account :: SyncAccount where
  "sy_account = \<lparr>ac_ServerURL = [], ac_ServerIdentity = [], ac_Username = [], ac_Account = be_bytes (4 :: ID), ac_Device = be_bytes (7 :: ID),
     ac_DeviceSeed = replicate 32 5, ac_IdentitySeed = replicate 32 6, ac_EncryptionSeed = [9], ac_EncryptionKey = [9],
     ac_GenesisIdentityKey = replicate 32 1, ac_GenesisEncryptionKey = [9], ac_Pending = None, ac_RekeyPending = False, ac_JoinPending = False\<rparr>"

definition sy_ring :: KeyRing where
  "sy_ring = projr (NewSyncKeyRing toy_primitives (Some sy_account))"

definition sy_pusher :: "(unit, unit, unit) engine" where
  "sy_pusher = (sy_engine sy_quiet)\<lparr>eg_Keys := sy_ring, eg_Seal := (\<lambda>n vk e raw. SealRecord toy_primitives [] vk (coordsOf e) raw)\<rparr>"

lemma sy_ring_new: "NewSyncKeyRing toy_primitives (Some sy_account) = Inr sy_ring"
  by (simp add: sy_ring_def) (simp add: NewSyncKeyRing_def sy_account_def IDSize_def)

lemma sy_ring_fields: "kr_Account sy_ring = 4" "kr_Device sy_ring = 7" "kr_Sign sy_ring msg = Inr (replicate 64 0)"
  by (simp_all add: sy_ring_def NewSyncKeyRing_def sy_account_def IDSize_def toy_primitives_def)

lemma sy_own: "own_device toy_primitives (\<lambda>_. []) sy_account sy_pusher"
  by (simp add: own_device_def sy_pusher_def sy_ring_new)

lemma sy_ed: "ed_ok (eg_cr sy_pusher) toy_primitives"
  by (simp add: ed_ok_def sy_pusher_def sy_engine_def sy_crypto_def toy_primitives_def)

text \<open>The deletion of record 8.\<close>

definition sy_tomb :: Envelope where
  "sy_tomb = \<lparr>e_Vault = 1, e_Record = 8, e_Version = 2, e_Epoch = 0, e_Suite = Suite1, e_Deleted = True, e_WrappedDEK = [], e_Body = [],
     e_Author = 7, e_SigAlg = SigEd25519, e_Sig = replicate 64 0\<rparr>"

lemma sy_tomb_sealed:
  "sealChange sy_pusher \<lparr>ch_id = 8, ch_entry = \<lparr>en_Type = TypeFolder, en_Key = [], en_Data = None\<rparr>, ch_schema = 0\<rparr> 0 sy_run =
    (sy_run\<lparr>pr_clock := 1\<rparr>, Inr sy_tomb)"
  by (simp add: sealChange_def Let_def sy_pusher_def sy_ring_fields Envelope_SigningBytes_fields canon_result_def)
     (simp add: envelope_fields_def fits_def MaxUint32_def label_defs sy_tomb_def sy_run_def sy_state_def VaultState_Version_def sy_leaf_def CurrentSuite_def)

lemma sy_tomb_leaf: "\<exists>l. LeafOf sy_crypto sy_tomb = Inr l \<and> l_Record l = 8"
  by (simp add: LeafOf_def Envelope_Digest_fields Envelope_SigningBytes_fields canon_result_def canon_digest_def)
     (simp add: envelope_fields_def fits_def MaxUint32_def label_defs sy_tomb_def)


text \<open>A vault in whose trash lies the known host line \<open>web k1\<close>.\<close>

definition rs_engine :: "(sample_raw, unit, unit) engine" where
  "rs_engine = \<lparr>eg_cr = sy_crypto, eg_Keys = sy_keys, eg_Server = (sy_server sy_quiet)\<lparr>ss_Versions := (\<lambda>_ _ _. Inr [sy_env 0])\<rparr>,
     eg_Open = (\<lambda>_ _. Inr []), eg_Seal = (\<lambda>_ _ _ _. Inl [ErrOpen]), eg_mac = (\<lambda>_ _. []),
     eg_decodeBody = (\<lambda>_. Some \<lparr>bd_Type = TypeKnownHost, bd_Schema = 1, bd_Data = (False, False, ''web k1'')\<rparr>), eg_encodeBody = (\<lambda>_. None),
     eg_isObject = (\<lambda>_. True), eg_metaKey = (\<lambda>_. None), eg_json = (\<lambda>_. None), eg_marshal = (\<lambda>_. (False, False, [])), eg_Quote = id,
     eg_conflictJson = (\<lambda>_. None), eg_address = (\<lambda>_. None), eg_decoders = sd, eg_host = shc, eg_NaturalKey = (\<lambda>_ _. Some ''web''),
     eg_Validate = (\<lambda>_. True), eg_SnapshotScope = (\<lambda>_ _ _. Inr fmempty), eg_ApplyScope = (\<lambda>d _ _. Inr d), eg_SuspendBindings = (\<lambda>_ _ _ d. d),
     eg_GetData = Inr, eg_UpdateData = (\<lambda>f d. f d), eg_NowUnixMilli = (\<lambda>_. 0), eg_rand = (\<lambda>_. []), eg_requireJoined = (\<lambda>_ _ _. Inr ()),
     eg_teamTrust = (\<lambda>_ _. Inl []), eg_memberLog = (\<lambda>_. Inl []), eg_WrapVaultKey = (\<lambda>_ _ _ _ _ _. Inl [])\<rparr>"

definition rs_run :: "sample_raw pullRun" where
  "rs_run = \<lparr>pr_vault = 1, pr_ops = [ml_create], pr_members = \<lparr>mc_vault = 1, mc_ops = [ml_create], mc_check = sy_check, mc_state = Some sy_members\<rparr>,
     pr_resolve = sy_resolve, pr_state = sy_state 1 200, pr_base = fmupd 8 sy_tomb fmempty, pr_names = fmempty, pr_bodies = fmempty,
     pr_namingKey = None, pr_report = no_report, pr_scope = [], pr_landed = fmempty, pr_preferRemote = False, pr_heldDeletions = fmempty, pr_clock = 0\<rparr>"

theorem restore_replaces_a_trusted_key_witness:
  "\<exists>w2. restore_in_run rs_engine 8 (with_run sy_world rs_run) = (w2, Inr ()) \<and>
    (\<exists>v. Classify sd TypeKnownHost (Some (False, False, ''web k2'')) (Some (False, False, ''web k1'')) = Inr v \<and> v_Action v = ActionPending)"
proof -
  let ?w = "with_run sy_world rs_run" and ?body = "\<lparr>bd_Type = TypeKnownHost, bd_Schema = 1, bd_Data = (False, False, ''web k1'')\<rparr>"
  let ?p2 = "rs_run\<lparr>pr_clock := 1\<rparr>" and ?w2 = "?w\<lparr>rw_run := rs_run\<lparr>pr_clock := 1\<rparr>, wd_tick := 1\<rparr>"
  have seq: "ms_seq sy_members = 1" by (simp add: sy_members_def ml_state_defs)
  have members: "latest_members rs_engine ?w = (?w, Inr sy_members)"
    by (simp add: latest_members_def members_def on_run_def with_run_def rs_run_def rs_engine_def members_at_def seq at_loop.simps [of _ _ _ _ sy_members])
  have rot: "ms_rotations sy_members = [\<lparr>r_Epoch = 0, r_StartedUnixMilli = 1, r_Shred = False\<rparr>]" by (simp add: sy_members_def ml_state_defs)
  have "RetiredEpochs (ms_rotations sy_members) used days time = []" for used days time
    unfolding rot by (simp add: RetiredEpochs_def EpochRetired_def)
  then have retired: "run_retiredEpochs rs_engine sy_members (rw_run ?w) = (?p2, [])"
    by (simp add: run_retiredEpochs_def read_clock_def with_run_def) (simp add: rs_run_def)
  have opens: "open_env rs_engine ?p2 (sy_env 0) = Inr ?body"
    by (simp add: open_env_def rs_engine_def sy_keys_def DecodeBody_def type_name_defs)
  have ver: "Envelope_Verify (eg_cr rs_engine) (sy_env 0) (replicate 32 0) = None" using sy_env_verify by (simp add: rs_engine_def)
  have read: "lastReadable rs_engine 8 [] (?w\<lparr>rw_run := ?p2\<rparr>) = (?w2, Inr (Some ?body))"
    using opens ver
    by (simp add: lastReadable_def bind_w_def of_run_def ask_def pure_w_def)
       (simp add: with_run_def sy_world_def rs_run_def rs_engine_def sy_server_def sy_env_def sy_tomb_def sy_resolve_def word_le_nat_alt)
  from restore_replaces_a_trusted_key [OF members _ _ retired read, of sy_tomb "''web k1''" "''web''"]
  show ?thesis
    by (simp add: update_data_def rs_engine_def rs_run_def with_run_def sy_tomb_def sd_def)
qed

end
