(* ===== verification/Member_Trust.thy ===== *)
theory Member_Trust
  imports Sync_Interpret
begin

text \<open>
  Trust in the members of a team vault (\<open>usecase/sync_members.go\<close>): the device log of a member is replayed from genesis
  keys the server returns, which are trusted only against an anchor: the fingerprint the membership log recorded when the
  account was added, or for the creator of the vault a contact, or nothing at all on first use.

  The logs are loaded while the membership log is replayed, one request for each account, and kept for the run: the
  state of trust is part of the world, and the signature check of an operation is an action on it. What the code reads of
  the local vault (the contacts) and the JSON form of a contact are parameters.
\<close>

section \<open>State\<close>

record SyncContact =
  con_Account :: string
  con_IdentityDigest :: string
  con_Username :: string
  con_Verified :: bool

record memberTrust =
  mt_own :: DeviceLogState
  mt_contacts :: "SyncContact list"
  mt_anchors :: "(ID, hash32) go_map"
  mt_creator :: ID
  mt_logs :: "(ID, DeviceLogState) go_map"
  mt_genesis :: "(ID, bytes) go_map"
  mt_firstUse :: "SyncContact option"

record 'd trust_world = "'d world" +
  tw_trust :: memberTrust

definition newMemberTrust :: "SyncContact list \<Rightarrow> DeviceLogState \<Rightarrow> memberTrust" where
  "newMemberTrust contacts own = \<lparr>mt_own = own, mt_contacts = contacts, mt_anchors = fmempty, mt_creator = 0, mt_logs = fmempty,
     mt_genesis = fmempty, mt_firstUse = None\<rparr>"

definition observe :: "MemberOp \<Rightarrow> memberTrust \<Rightarrow> memberTrust" where
  "observe op t =
    (if o_Kind op = MemberCreate then t\<lparr>mt_creator := o_Author op\<rparr>
     else if o_Kind op = MemberAdd then t\<lparr>mt_anchors := fmupd (o_Subject op) (o_Fingerprint op) (mt_anchors t)\<rparr>
     else t)"

definition on_trust :: "(memberTrust \<Rightarrow> memberTrust \<times> 'a sync_result) \<Rightarrow> ('d trust_world, 'a) action" where
  "on_trust f w = (case f (tw_trust w) of (t, x) \<Rightarrow> (w\<lparr>tw_trust := t\<rparr>, x))"

section \<open>Logs of members\<close>

definition hexDigest :: "hash32 \<Rightarrow> string" where
  "hexDigest d = hex_encode (be_bytes d)"

definition trustKey :: "crypto \<Rightarrow> ID \<Rightarrow> bytes \<Rightarrow> memberTrust \<Rightarrow> memberTrust \<times> unit sync_result" where
  "trustKey cr account identityKey t =
    (case IdentityDigest cr identityKey of
       Inl err \<Rightarrow> (t, Inl (integrity (map Domain err)))
     | Inr digest \<Rightarrow>
         (case fmlookup (mt_anchors t) account of
            Some want \<Rightarrow> (t, if want \<noteq> digest then Inl (integrity [ErrMemberKey]) else Inr ())
          | None \<Rightarrow>
              if account \<noteq> mt_creator t then (t, Inl (integrity [ErrOther ''not a member'']))
              else (case find (\<lambda>c. con_Account c = ID_String account) (mt_contacts t) of
                  Some c \<Rightarrow> (t, if con_IdentityDigest c \<noteq> hexDigest digest then Inl (integrity [ErrMemberKey]) else Inr ())
                | None \<Rightarrow>
                    (t\<lparr>mt_firstUse := Some \<lparr>con_Account = ID_String account, con_IdentityDigest = hexDigest digest, con_Username = [],
                       con_Verified = False\<rparr>\<rparr>, Inr ()))))"

definition logFor :: "crypto \<Rightarrow> KeyRing \<Rightarrow> SyncServer \<Rightarrow> ID \<Rightarrow> ('d trust_world, DeviceLogState) action" where
  "logFor cr kr sv account w =
    (if account = kr_Account kr then (w, Inr (mt_own (tw_trust w)))
     else (case fmlookup (mt_logs (tw_trust w)) account of
         Some log \<Rightarrow> (w, Inr log)
       | None \<Rightarrow>
           bind_w (ask (\<lambda>n. ss_MemberLog sv n account)) (\<lambda>ml.
           bind_w (on_trust (trustKey cr account (mlg_IdentityKey ml))) (\<lambda>_.
           bind_w (verifiedAccountLog cr kr account ml) (\<lambda>log.
           on_trust (\<lambda>t. (t\<lparr>mt_logs := fmupd account log (mt_logs t),
             mt_genesis := fmupd account (mlg_IdentityKey ml) (mt_genesis t)\<rparr>, Inr log))))) w))"

definition trust_check :: "crypto \<Rightarrow> KeyRing \<Rightarrow> SyncServer \<Rightarrow> ID \<Rightarrow> ID \<Rightarrow> SigAlg \<Rightarrow> bytes \<Rightarrow> bytes \<Rightarrow> ('d trust_world, unit) action" where
  "trust_check cr kr sv account device alg msg sig =
    bind_w (on_trust (\<lambda>t. (if ID_IsZero (mt_creator t) then t\<lparr>mt_creator := account\<rparr> else t, Inr ()))) (\<lambda>_.
    bind_w (logFor cr kr sv account) (\<lambda>log.
    bind_w (pure_w (dom_res (DeviceKey log device))) (\<lambda>key.
    pure_w (case VerifySignature cr alg key msg sig of None \<Rightarrow> Inr () | Some err \<Rightarrow> Inl (map Domain err)))))"

fun resolve_loop :: "crypto \<Rightarrow> KeyRing \<Rightarrow> SyncServer \<Rightarrow> ID \<Rightarrow> ID list \<Rightarrow> ('d trust_world, ID \<times> bytes) action" where
  "resolve_loop cr kr sv device [] w = (w, Inl [Domain ErrDeviceLog])"
| "resolve_loop cr kr sv device (a # as) w =
    (if ID_IsZero a then resolve_loop cr kr sv device as w
     else (case logFor cr kr sv a w of
         (w, Inl err) \<Rightarrow> (w, Inl err)
       | (w, Inr log) \<Rightarrow>
           (case DeviceKey log device of
              Inr key \<Rightarrow> (w, Inr (a, key))
            | Inl _ \<Rightarrow> resolve_loop cr kr sv device as w)))"

definition trust_resolve :: "crypto \<Rightarrow> KeyRing \<Rightarrow> SyncServer \<Rightarrow> ID \<Rightarrow> ('d trust_world, ID \<times> bytes) action" where
  "trust_resolve cr kr sv device w =
    resolve_loop cr kr sv device
      (remdups_adj (kr_Account kr # mt_creator (tw_trust w) # sorted_list_of_fset (fmdom (mt_anchors (tw_trust w))))) w"

section \<open>Verifying the membership log of a team\<close>

text \<open>\<open>MembershipState.Apply\<close> with a check that has effects: the check runs when the guards before it pass, and what comes
  after it runs when the check accepts.\<close>

definition accept_all :: SignatureCheck where
  "accept_all account device alg msg sig = None"

definition Apply_with :: "crypto \<Rightarrow> (ID \<Rightarrow> ID \<Rightarrow> SigAlg \<Rightarrow> bytes \<Rightarrow> bytes \<Rightarrow> ('s, unit) action) \<Rightarrow> MembershipState \<Rightarrow> MemberOp \<Rightarrow>
    ('s, MembershipState) action" where
  "Apply_with cr check s op =
    (case MemberOp_SigningBytes op of
       Inl _ \<Rightarrow> pure_w (dom_res (member_step cr accept_all s op))
     | Inr msg \<Rightarrow>
         if o_Vault op \<noteq> ms_vault s \<or> o_Seq op \<noteq> ms_seq s + 1 \<or> o_Prev op \<noteq> ms_hash s \<or> o_AuthorDevice op |\<in>| ms_revoked s
         then pure_w (dom_res (member_step cr accept_all s op))
         else bind_w (check (o_Author op) (o_AuthorDevice op) (o_SigAlg op) msg (o_Sig op)) (\<lambda>_.
           pure_w (dom_res (member_step cr accept_all s op))))"

definition integ_err :: "('s, 'a) action \<Rightarrow> ('s, 'a) action" where
  "integ_err m w = (case m w of (w, Inl err) \<Rightarrow> (w, Inl (integrity err)) | (w, Inr x) \<Rightarrow> (w, Inr x))"

fun apply_ops :: "crypto \<Rightarrow> KeyRing \<Rightarrow> SyncServer \<Rightarrow> MemberOp list \<Rightarrow> MembershipState \<Rightarrow> ('d trust_world, MembershipState) action" where
  "apply_ops cr kr sv [] s = pure_w (Inr s)"
| "apply_ops cr kr sv (op # ops) s =
    bind_w (integ_err (Apply_with cr (trust_check cr kr sv) s op)) (\<lambda>s.
    bind_w (on_trust (\<lambda>t. (observe op t, Inr ()))) (\<lambda>_.
    apply_ops cr kr sv ops s))"

definition verifiedTeamMembership :: "crypto \<Rightarrow> KeyRing \<Rightarrow> SyncServer \<Rightarrow> ID \<Rightarrow> ('d trust_world, MemberOp list) action" where
  "verifiedTeamMembership cr kr sv vault =
    bind_w (pure_w (dom_res (NewMembershipState cr vault))) (\<lambda>ms.
    bind_w (read_db (\<lambda>d. StateStore_Membership d vault)) (\<lambda>ops.
    bind_w (apply_ops cr kr sv ops ms) (\<lambda>ms.
    bind_w (ask (\<lambda>n. ss_Membership sv n vault (ms_seq ms))) (\<lambda>news.
    bind_w (apply_ops cr kr sv news ms) (\<lambda>_.
    bind_w (write_db (AppendMembership news)) (\<lambda>_. pure_w (Inr (ops @ news))))))))"

definition contactEntry :: "(SyncContact \<Rightarrow> 'r) \<Rightarrow> SyncContact \<Rightarrow> 'r Entry" where
  "contactEntry marshal c = \<lparr>en_Type = TypeContact, en_Key = con_Account c, en_Data = Some (marshal c)\<rparr>"

definition storeFirstUse :: "('r, 'd, 'h) engine \<Rightarrow> (SyncContact \<Rightarrow> 'r) \<Rightarrow> ('d trust_world, unit) action" where
  "storeFirstUse eg marshal w =
    (case mt_firstUse (tw_trust w) of
       None \<Rightarrow> (w, Inr ())
     | Some c \<Rightarrow>
         (case eg_UpdateData eg (\<lambda>d. eg_ApplyScope eg d [] [contactEntry marshal c]) (wd_data w) of
            Inl err \<Rightarrow> (w, Inl err)
          | Inr d \<Rightarrow> (w\<lparr>wd_data := d\<rparr>, Inr ())))"

definition teamTrust :: "('r, 'd, 'h) engine \<Rightarrow> (SyncContact \<Rightarrow> 'r) \<Rightarrow> ID \<Rightarrow> ('d trust_world, MemberOp list) action" where
  "teamTrust eg marshal vault =
    bind_w (verifiedTeamMembership (eg_cr eg) (eg_Keys eg) (eg_Server eg) vault) (\<lambda>ops.
    bind_w (storeFirstUse eg marshal) (\<lambda>_. pure_w (Inr ops)))"

section \<open>Anchored logs\<close>

text \<open>What roots a member's device log: a genesis key with the fingerprint an operation of the log recorded for the account; or, for the
  author of the operation that created the vault, the key of the contact for it, if there is one.\<close>

definition anchored :: "crypto \<Rightarrow> SyncContact list \<Rightarrow> MemberOp list \<Rightarrow> ID \<Rightarrow> bytes \<Rightarrow> bool" where
  "anchored cr contacts ops account key \<longleftrightarrow> (\<exists>digest. IdentityDigest cr key = Inr digest \<and>
    ((\<exists>op \<in> set ops. o_Kind op = MemberAdd \<and> o_Subject op = account \<and> o_Fingerprint op = digest) \<or>
     (\<exists>op \<in> set ops. o_Kind op = MemberCreate \<and> o_Author op = account) \<and>
       (case find (\<lambda>c. con_Account c = ID_String account) contacts of None \<Rightarrow> True | Some c \<Rightarrow> con_IdentityDigest c = hexDigest digest)))"

definition rooted_log :: "crypto \<Rightarrow> SyncContact list \<Rightarrow> MemberOp list \<Rightarrow> ID \<Rightarrow> DeviceLogState \<Rightarrow> bool" where
  "rooted_log cr contacts ops account dl \<longleftrightarrow> (\<exists>(ml :: MemberLog) dl0. anchored cr contacts ops account (mlg_IdentityKey ml) \<and>
    NewDeviceLogState cr account (mlg_Suite ml) (mlg_IdentityKey ml) (mlg_EncryptionKey ml) = Inr dl0 \<and>
    replay (device_step cr) dl0 (mlg_Entries ml) = Inr dl \<and> \<not> PendingSuccession dl)"

lemma anchored_mono: "anchored cr contacts ops a key \<Longrightarrow> set ops \<subseteq> set ops' \<Longrightarrow> anchored cr contacts ops' a key"
  unfolding anchored_def by (meson subsetD)

lemma rooted_log_mono: "rooted_log cr contacts ops a dl \<Longrightarrow> set ops \<subseteq> set ops' \<Longrightarrow> rooted_log cr contacts ops' a dl"
  unfolding rooted_log_def by (meson anchored_mono)

text \<open>The state of trust after some operations were accepted. The creator is left out: \<open>check\<close> lets the author of the
  first operation it sees count as the creator before anything is known of it.\<close>

definition trust_ok :: "crypto \<Rightarrow> SyncContact list \<Rightarrow> DeviceLogState \<Rightarrow> MemberOp list \<Rightarrow> memberTrust \<Rightarrow> bool" where
  "trust_ok cr contacts own ops t \<longleftrightarrow> mt_own t = own \<and> mt_contacts t = contacts \<and>
    (\<forall>a d. fmlookup (mt_anchors t) a = Some d \<longrightarrow> (\<exists>op \<in> set ops. o_Kind op = MemberAdd \<and> o_Subject op = a \<and> o_Fingerprint op = d)) \<and>
    (\<forall>a dl. fmlookup (mt_logs t) a = Some dl \<longrightarrow> rooted_log cr contacts ops a dl)"

lemma trust_ok_mono: "trust_ok cr contacts own ops t \<Longrightarrow> set ops \<subseteq> set ops' \<Longrightarrow> trust_ok cr contacts own ops' t"
  unfolding trust_ok_def by (meson rooted_log_mono subsetD)

lemma trustKey_ok:
  assumes "trust_ok cr contacts own ops t" and "trustKey cr account key t = (t', Inr ())"
    and "fmlookup (mt_anchors t) account = None \<longrightarrow> (\<exists>op \<in> set ops. o_Kind op = MemberCreate \<and> o_Author op = account)"
  shows "anchored cr contacts ops account key \<and> trust_ok cr contacts own ops t' \<and> mt_anchors t' = mt_anchors t"
proof -
  from assms(2) obtain digest where d: "IdentityDigest cr key = Inr digest"
    by (cases "IdentityDigest cr key") (auto simp: trustKey_def)
  have contacts: "mt_contacts t = contacts" using assms(1) by (simp add: trust_ok_def)
  have t': "t' = t \<or> (\<exists>c. t' = t\<lparr>mt_firstUse := c\<rparr>)"
    using assms(2) d by (auto simp: trustKey_def split: option.split_asm if_split_asm)
  then have "trust_ok cr contacts own ops t' \<and> mt_anchors t' = mt_anchors t" using assms(1) by (auto simp: trust_ok_def)
  moreover have "anchored cr contacts ops account key"
  proof (cases "fmlookup (mt_anchors t) account")
    case (Some want)
    with assms(2) d have "want = digest" by (auto simp: trustKey_def split: if_split_asm)
    with Some assms(1) d show ?thesis by (auto simp: trust_ok_def anchored_def)
  next
    case None
    with assms(2) d have creator: "mt_creator t = account" by (auto simp: trustKey_def split: if_split_asm)
    then have "\<exists>op \<in> set ops. o_Kind op = MemberCreate \<and> o_Author op = account" using assms(3) None by blast
    moreover have "case find (\<lambda>c. con_Account c = ID_String account) contacts of None \<Rightarrow> True | Some c \<Rightarrow> con_IdentityDigest c = hexDigest digest"
      using assms(2) d None creator contacts by (auto simp: trustKey_def split: option.split option.split_asm if_split_asm)
    ultimately show ?thesis using d by (auto simp: anchored_def)
  qed
  ultimately show ?thesis by blast
qed

lemma logFor_ok:
  assumes "trust_ok cr contacts own ops (tw_trust w)" and "logFor cr kr sv account w = (w', Inr dl)"
    and "fmlookup (mt_anchors (tw_trust w)) account = None \<longrightarrow> (\<exists>op \<in> set ops. o_Kind op = MemberCreate \<and> o_Author op = account)"
  shows "trust_ok cr contacts own ops (tw_trust w') \<and> mt_anchors (tw_trust w') = mt_anchors (tw_trust w) \<and> (account = kr_Account kr \<and> dl = own \<or> rooted_log cr contacts ops account dl)"
proof (cases "account = kr_Account kr")
  case True
  with assms show ?thesis by (auto simp: logFor_def trust_ok_def)
next
  case other: False
  show ?thesis
  proof (cases "fmlookup (mt_logs (tw_trust w)) account")
    case (Some log)
    with other assms(1,2) show ?thesis by (auto simp: logFor_def trust_ok_def)
  next
    case None
    let ?w1 = "w\<lparr>wd_tick := Suc (wd_tick w)\<rparr>"
    from assms(2) other None obtain ml where ml: "ss_MemberLog sv (wd_tick w) account = Inr ml"
      by (cases "ss_MemberLog sv (wd_tick w) account") (auto simp: logFor_def bind_w_def ask_def)
    obtain t1 x where k: "trustKey cr account (mlg_IdentityKey ml) (tw_trust w) = (t1, x)" by force
    with assms(2) other None ml have x: "x = Inr ()" by (cases x) (auto simp: logFor_def bind_w_def ask_def on_trust_def)
    from trustKey_ok [OF assms(1) k [unfolded x] assms(3)] have K: "anchored cr contacts ops account (mlg_IdentityKey ml)" "trust_ok cr contacts own ops t1"
      "mt_anchors t1 = mt_anchors (tw_trust w)"
      by blast+
    obtain w2 y where v: "verifiedAccountLog cr kr account ml (?w1\<lparr>tw_trust := t1\<rparr>) = (w2, y)" by force
    with assms(2) other None ml k x have y: "y = Inr dl"
      and w': "w' = w2\<lparr>tw_trust := (tw_trust w2)\<lparr>mt_logs := fmupd account dl (mt_logs (tw_trust w2)),
        mt_genesis := fmupd account (mlg_IdentityKey ml) (mt_genesis (tw_trust w2))\<rparr>\<rparr>"
      by (cases y; auto simp: logFor_def bind_w_def ask_def on_trust_def)+
    from verifiedAccountLog_Inr [OF v [unfolded y]] obtain dl0 d where dl0:
      "NewDeviceLogState cr account (mlg_Suite ml) (mlg_IdentityKey ml) (mlg_EncryptionKey ml) = Inr dl0"
      "account_loop cr (StateStore_DeviceLog (wd_db (?w1\<lparr>tw_trust := t1\<rparr>)) account) (mlg_Entries ml) dl0 = Inr dl"
      "length (StateStore_DeviceLog (wd_db (?w1\<lparr>tw_trust := t1\<rparr>)) account) \<le> length (mlg_Entries ml)" "\<not> PendingSuccession dl"
      "w2 = ?w1\<lparr>tw_trust := t1, wd_db := d\<rparr>" using other by metis
    have root: "rooted_log cr contacts ops account dl"
      using K(1) dl0(1,4) account_loop_Inr [OF dl0(2,3)] by (auto simp: rooted_log_def)
    have "tw_trust w2 = t1" using dl0(5) by simp
    with K(2,3) root have "trust_ok cr contacts own ops (tw_trust w') \<and> mt_anchors (tw_trust w') = mt_anchors (tw_trust w)" by (auto simp: w' trust_ok_def)
    with root show ?thesis by blast
  qed
qed

section \<open>Authors of accepted operations\<close>

lemma Role_member: "MembershipState_Role s i \<noteq> RoleNone \<Longrightarrow> i |\<in>| fmdom (ms_members s)"
  by (cases "fmlookup (ms_members s) i") (auto simp: MembershipState_Role_def fmdomI)

lemma manager_member: "requireManage s op = None \<Longrightarrow> o_Author op |\<in>| fmdom (ms_members s)"
  by (rule Role_member) (auto simp: requireManage_def split: if_split_asm)

lemma owner_member: "requireOwner s op = None \<Longrightarrow> o_Author op |\<in>| fmdom (ms_members s)"
  by (rule Role_member) (auto simp: requireOwner_def split: if_split_asm)

text \<open>An operation other than the one that creates the vault has an author who is a member, and the members after it
  were members before it, its author if it creates the vault, or its subject if it adds one.\<close>

lemma applyKind_members:
  assumes "applyKind cr s op = Inr n"
  shows "(o_Kind op = MemberCreate \<or> o_Author op |\<in>| fmdom (ms_members s)) \<and>
    (\<forall>i. i |\<in>| fmdom (ms_members n) \<longrightarrow> i |\<in>| fmdom (ms_members s) \<or>
      o_Kind op = MemberCreate \<and> i = o_Author op \<or> o_Kind op = MemberAdd \<and> i = o_Subject op)"
  using assms
  by (auto simp: applyKind_def applyCreate_def applyAdd_def applyChangeRole_def applyRemove_def applyRotate_def applyRewrap_def
      applySetPolicy_def applyTransfer_def applyDelete_def Let_def
      intro: manager_member owner_member Role_member split: if_split_asm option.split_asm)

section \<open>Replaying the log of a team\<close>

definition known_members :: "MemberOp list \<Rightarrow> memberTrust \<Rightarrow> MembershipState \<Rightarrow> bool" where
  "known_members ops t s \<longleftrightarrow> (\<forall>i. i |\<in>| fmdom (ms_members s) \<longrightarrow> i |\<in>| fmdom (mt_anchors t) \<or>
    (\<exists>op \<in> set ops. o_Kind op = MemberCreate \<and> o_Author op = i))"

text \<open>The signature of an operation is one of a device of its author: a device in this account's own log, or in a log
  rooted in an anchor that the operations up to it established.\<close>

definition op_anchored :: "crypto \<Rightarrow> KeyRing \<Rightarrow> SyncContact list \<Rightarrow> DeviceLogState \<Rightarrow> MemberOp list \<Rightarrow> MemberOp \<Rightarrow> bool" where
  "op_anchored cr kr contacts own ops op \<longleftrightarrow> (\<exists>dl key.
    (o_Author op = kr_Account kr \<and> dl = own \<or> rooted_log cr contacts ops (o_Author op) dl) \<and>
    DeviceKey dl (o_AuthorDevice op) = Inr key \<and> VerifySignature cr (o_SigAlg op) key (encode_fields (op_fields op)) (o_Sig op) = None)"

lemma Apply_with_Inr:
  assumes "Apply_with cr check s op w = (w', Inr s')"
  shows "check (o_Author op) (o_AuthorDevice op) (o_SigAlg op) (encode_fields (op_fields op)) (o_Sig op) w = (w', Inr ())"
    and "member_step cr accept_all s op = Inr s'"
proof -
  have inr: "member_step cr accept_all s op = Inr s'"
    using assms by (auto simp: Apply_with_def bind_w_Inr pure_w_def dom_res_Inr split: sum.split_asm if_split_asm)
  then show "member_step cr accept_all s op = Inr s'" .
  have guards: "\<not> (o_Vault op \<noteq> ms_vault s \<or> o_Seq op \<noteq> ms_seq s + 1 \<or> o_Prev op \<noteq> ms_hash s \<or> o_AuthorDevice op |\<in>| ms_revoked s)"
    "op_fits op" using inr unfolding member_step_Inr by blast+
  have "MemberOp_SigningBytes op = Inr (encode_fields (op_fields op))"
    using guards(2) by (simp add: MemberOp_SigningBytes_fields canon_result_def op_fits_def)
  with assms guards(1)
  show "check (o_Author op) (o_AuthorDevice op) (o_SigAlg op) (encode_fields (op_fields op)) (o_Sig op) w = (w', Inr ())"
    by (auto simp: Apply_with_def bind_w_Inr pure_w_def)
qed

lemma trust_check_Inr:
  assumes "trust_check cr kr sv account device alg msg sig w = (w', Inr ())"
  obtains c dl key where "logFor cr kr sv account (w\<lparr>tw_trust := (tw_trust w)\<lparr>mt_creator := c\<rparr>\<rparr>) = (w', Inr dl)"
    "DeviceKey dl device = Inr key" "VerifySignature cr alg key msg sig = None"
proof -
  let ?t = "if ID_IsZero (mt_creator (tw_trust w)) then (tw_trust w)\<lparr>mt_creator := account\<rparr> else tw_trust w"
  have t: "?t = (tw_trust w)\<lparr>mt_creator := if ID_IsZero (mt_creator (tw_trust w)) then account else mt_creator (tw_trust w)\<rparr>" by simp
  show ?thesis
    using assms that [of "if ID_IsZero (mt_creator (tw_trust w)) then account else mt_creator (tw_trust w)"] unfolding t [symmetric]
    by (auto simp: trust_check_def bind_w_Inr pure_w_def on_trust_def dom_res_Inr split: option.split_asm)
qed

lemma op_step:
  assumes ok: "trust_ok cr contacts own ops (tw_trust w)" and known: "known_members ops (tw_trust w) s"
    and run: "Apply_with cr (trust_check cr kr sv) s op w = (w', Inr s')"
  shows "op_anchored cr kr contacts own (ops @ [op]) op \<and> member_step cr accept_all s op = Inr s' \<and>
    trust_ok cr contacts own (ops @ [op]) (observe op (tw_trust w')) \<and> known_members (ops @ [op]) (observe op (tw_trust w')) s'"
proof -
  note step = Apply_with_Inr [OF run]
  from step(2) obtain n where n: "applyKind cr (s\<lparr>ms_params := suite1_params\<rparr>) op = Inr n" "ms_members s' = ms_members n"
    unfolding member_step_Inr by auto
  note m = applyKind_members [OF n(1), simplified]
  from trust_check_Inr [OF step(1)] obtain c dl key where
    l: "logFor cr kr sv (o_Author op) (w\<lparr>tw_trust := (tw_trust w)\<lparr>mt_creator := c\<rparr>\<rparr>) = (w', Inr dl)"
      "DeviceKey dl (o_AuthorDevice op) = Inr key" "VerifySignature cr (o_SigAlg op) key (encode_fields (op_fields op)) (o_Sig op) = None" .
  have before: "trust_ok cr contacts own (ops @ [op]) (tw_trust (w\<lparr>tw_trust := (tw_trust w)\<lparr>mt_creator := c\<rparr>\<rparr>))"
    using trust_ok_mono [OF ok, of "ops @ [op]"] by (auto simp: trust_ok_def)
  have author: "fmlookup (mt_anchors (tw_trust (w\<lparr>tw_trust := (tw_trust w)\<lparr>mt_creator := c\<rparr>\<rparr>))) (o_Author op) = None \<longrightarrow>
      (\<exists>x \<in> set (ops @ [op]). o_Kind x = MemberCreate \<and> o_Author x = o_Author op)"
    using m known unfolding known_members_def by (auto simp: fmdom_notI dest: fmdom_notI)
  have log: "trust_ok cr contacts own (ops @ [op]) (tw_trust w')"
    "o_Author op = kr_Account kr \<and> dl = own \<or> rooted_log cr contacts (ops @ [op]) (o_Author op) dl"
    and same: "mt_anchors (tw_trust w') = mt_anchors (tw_trust w)"
    using logFor_ok [OF before l(1) author] by simp_all
  have "op_anchored cr kr contacts own (ops @ [op]) op" using log(2) l(2,3) unfolding op_anchored_def by blast
  moreover have "trust_ok cr contacts own (ops @ [op]) (observe op (tw_trust w'))"
    using log(1) by (auto simp: trust_ok_def observe_def)
  moreover have "known_members (ops @ [op]) (observe op (tw_trust w')) s'"
    using m known n(2) same unfolding known_members_def by (auto simp: observe_def)
  ultimately show ?thesis using step(2) by blast
qed

lemma integ_err_Inr: "integ_err m w = (w', Inr x) \<longleftrightarrow> m w = (w', Inr x)"
  by (auto simp: integ_err_def split: prod.split sum.split)

lemma apply_ops_ok:
  assumes "apply_ops cr kr sv ops s w = (w', Inr s')" and "trust_ok cr contacts own done_ops (tw_trust w)"
    and "known_members done_ops (tw_trust w) s"
  shows "(\<forall>i < length ops. op_anchored cr kr contacts own (done_ops @ take (Suc i) ops) (ops ! i)) \<and>
    replay (member_step cr accept_all) s ops = Inr s' \<and>
    trust_ok cr contacts own (done_ops @ ops) (tw_trust w') \<and> known_members (done_ops @ ops) (tw_trust w') s'"
  using assms
proof (induction ops arbitrary: s w done_ops)
  case Nil
  then show ?case by (simp add: pure_w_def)
next
  case (Cons op ops)
  from Cons.prems(1) obtain s1 w1 where
    op: "Apply_with cr (trust_check cr kr sv) s op w = (w1, Inr s1)" and
    rest: "apply_ops cr kr sv ops s1 (w1\<lparr>tw_trust := observe op (tw_trust w1)\<rparr>) = (w', Inr s')"
    by (auto simp: bind_w_Inr integ_err_Inr on_trust_def)
  note step = op_step [OF Cons.prems(2,3) op]
  have "trust_ok cr contacts own (done_ops @ [op]) (tw_trust (w1\<lparr>tw_trust := observe op (tw_trust w1)\<rparr>))"
    "known_members (done_ops @ [op]) (tw_trust (w1\<lparr>tw_trust := observe op (tw_trust w1)\<rparr>)) s1" using step by simp_all
  note IH = Cons.IH [OF rest this]
  have "op_anchored cr kr contacts own (done_ops @ take (Suc i) (op # ops)) ((op # ops) ! i)" if "i < length (op # ops)" for i
    using that step IH by (cases i) simp_all
  then show ?case using step IH by simp
qed

text \<open>C6. What a team's membership log says is said by its members. When a device accepts the log of a team vault, every
  operation in it, stored or new, carries the signature of a device of its author; and unless the author is this account
  itself, that device is in a device log that replays from a genesis key with the fingerprint recorded when the author was
  added to the team, or, for the author who created the vault, with the one in this user's contacts if there is a contact
  for it. Only a creator nobody has as a contact is taken on first use. The operations also obey the rules of membership
  from the first one on. The server answers what it likes.\<close>

theorem team_operations_are_anchored:
  assumes "verifiedTeamMembership cr kr sv vault w = (w', Inr ops)" and "tw_trust w = newMemberTrust contacts own"
  shows "(\<forall>i < length ops. op_anchored cr kr contacts own (take (Suc i) ops) (ops ! i)) \<and>
    (\<exists>s0 s. NewMembershipState cr vault = Inr s0 \<and> replay (member_step cr accept_all) s0 ops = Inr s)"
proof -
  from assms(1) obtain s0 s1 s2 w1 w2 stored news where
    s0: "NewMembershipState cr vault = Inr s0" and ops: "ops = stored @ news" and
    one: "apply_ops cr kr sv stored s0 w = (w1, Inr s1)" and
    two: "apply_ops cr kr sv news s1 (w1\<lparr>wd_tick := Suc (wd_tick w1)\<rparr>) = (w2, Inr s2)"
    by (auto simp: verifiedTeamMembership_def bind_w_Inr simple_actions dom_res_Inr)
  have "trust_ok cr contacts own [] (tw_trust w)" by (simp add: assms(2) trust_ok_def newMemberTrust_def)
  moreover have "known_members [] (tw_trust w) s0"
    using s0 by (auto simp: known_members_def NewMembershipState_def split: sum.split_asm)
  ultimately have A: "\<forall>i < length stored. op_anchored cr kr contacts own (take (Suc i) stored) (stored ! i)"
    "replay (member_step cr accept_all) s0 stored = Inr s1"
    "trust_ok cr contacts own stored (tw_trust (w1\<lparr>wd_tick := Suc (wd_tick w1)\<rparr>))"
    "known_members stored (tw_trust (w1\<lparr>wd_tick := Suc (wd_tick w1)\<rparr>)) s1"
    using apply_ops_ok [OF one] by force+
  note B = apply_ops_ok [OF two A(3,4)]
  have "op_anchored cr kr contacts own (take (Suc i) ops) (ops ! i)" if "i < length ops" for i
  proof (cases "i < length stored")
    case True
    then show ?thesis using A(1) by (simp add: ops nth_append)
  next
    case False
    then have "i - length stored < length news" using that ops by simp
    then show ?thesis using B False by (simp add: ops nth_append Suc_diff_le)
  qed
  moreover have "replay (member_step cr accept_all) s0 ops = Inr s2" using A(2) B by (simp add: ops replay_append)
  ultimately show ?thesis using s0 by blast
qed

section \<open>A sample\<close>

text \<open>Account 4 created a team this device, of account 9, was invited to; account 4 has one device and is no contact yet.\<close>

definition tm_crypto :: crypto where
  "tm_crypto = \<lparr>sha256 = (\<lambda>_. 5), sha512 = (\<lambda>_. replicate 64 0), ed25519_Verify = (\<lambda>_ _ _. True)\<rparr>"

definition tm_entry :: DeviceEntry where
  "tm_entry = dl_add (replicate 64 1) 1 5"

definition tm_member :: MemberLog where
  "tm_member = \<lparr>mlg_Suite = Suite1, mlg_IdentityKey = replicate 32 1, mlg_EncryptionKey = replicate 1216 0, mlg_Entries = [tm_entry]\<rparr>"

definition tm_op :: MemberOp where
  "tm_op = (ml_op MemberCreate 1 5 0 0 0 [ml_wrap 4])\<lparr>o_Sig := replicate 64 1\<rparr>"

definition tm_server :: SyncServer where
  "tm_server = lg_server\<lparr>ss_Membership := \<lambda>_ _ _. Inr [tm_op], ss_MemberLog := \<lambda>_ _. Inr tm_member\<rparr>"

definition tm_world :: "unit trust_world" where
  "tm_world = \<lparr>wd_tick = 0, wd_db = empty_state, wd_data = (), wd_clock = 0, tw_trust = newMemberTrust [] dl_start\<rparr>"

definition tm_start :: DeviceLogState where
  "tm_start = dl_start\<lparr>ds_hash := 5\<rparr>"

definition tm_log :: DeviceLogState where
  "tm_log = tm_start\<lparr>ds_seq := 1, ds_devices := fmupd 7 \<lparr>st_cert = \<lparr>c_Device = 7, c_SigningKey = replicate 32 9, c_Name = ''laptop'',
     c_Platform = ''linux'', c_CreatedUnixMilli = 0\<rparr>, st_revoked = False\<rparr> fmempty\<rparr>"

lemma tm_start_New: "NewDeviceLogState tm_crypto 4 Suite1 (replicate 32 1) (replicate 1216 0) = Inr tm_start"
  unfolding NewDeviceLogState_Inr by (simp add: tm_start_def dl_start_def tm_crypto_def)

lemma tm_entry_step: "device_step tm_crypto tm_start tm_entry = Inr tm_log"
proof -
  have "validateCert (d_Cert tm_entry) (SigningKeySize (ds_params tm_start)) = None"
    by code_simp
  then show ?thesis
    by (simp add: device_step_Inr applyOp_def addDevice_None tm_entry_def dl_add_fits)
       (simp add: dl_add_def tm_start_def dl_start_def tm_crypto_def VerifySignature_None tm_log_def)
qed

lemma tm_digest: "IdentityDigest tm_crypto (replicate 32 1) = Inr 5"
  by (simp add: IdentityDigest_def canon_unfold canon_digest_def tm_crypto_def fits_def MaxUint32_def label_defs)

lemma tm_fits: "op_fits tm_op"
  by (simp add: op_fits_def op_fields_def op_head_def op_tail_def wrap_fields_def ml_op_def ml_wrap_def tm_op_def
      fits_def MaxUint32_def label_defs)

lemma tm_op_step: "\<exists>s. member_step tm_crypto accept_all (ml_s0\<lparr>ms_hash := 5\<rparr>) tm_op = Inr s"
  unfolding member_step_Inr
  by (simp add: tm_fits)
     (simp add: tm_op_def ml_op_def ml_s0_def accept_all_def applyKind_def applyCreate_def validRetention_def MaxRetentionDays_def)

lemma tm_log_run:
  assumes "mt_logs (tw_trust w) = fmempty" and "mt_anchors (tw_trust w) = fmempty" and "mt_contacts (tw_trust w) = []"
    and "mt_creator (tw_trust w) = 4" and "wd_db w = empty_state"
  shows "\<exists>w'. logFor tm_crypto (lg_keys 9) tm_server 4 w = (w', Inr tm_log) \<and> tb_member_ops (wd_db w') = []"
proof -
  have db: "AppendDeviceLog [tm_entry] empty_state = Inr (empty_state\<lparr>tb_device_entries := [\<lparr>lg_owner = 4, lg_seq = 1, lg_item = tm_entry\<rparr>]\<rparr>)"
    by (simp add: AppendDeviceLog_def appendLog_def last_seq_def empty_state_def tm_entry_def dl_add_def sql_args_def)
  have pending: "\<not> PendingSuccession tm_log" by (simp add: PendingSuccession_def tm_log_def tm_start_def dl_start_def)
  show ?thesis
    by (simp add: logFor_def assms lg_keys_def bind_w_def ask_def on_trust_def tm_server_def tm_member_def trustKey_def tm_digest
        verifiedAccountLog_def action_defs tm_start_New lg_empty integ_res_def tm_entry_step db pending)
       (simp add: empty_state_def)
qed

lemma tm_run: "\<exists>w'. verifiedTeamMembership tm_crypto (lg_keys 9) tm_server 1 tm_world = (w', Inr [tm_op])"
proof -
  have start: "NewMembershipState tm_crypto 1 = Inr (ml_s0\<lparr>ms_hash := 5\<rparr>)"
    unfolding NewMembershipState_Inr by (simp add: ml_s0_def tm_crypto_def)
  obtain s where s: "member_step tm_crypto accept_all (ml_s0\<lparr>ms_hash := 5\<rparr>) tm_op = Inr s" using tm_op_step by blast
  have bytes: "MemberOp_SigningBytes tm_op = Inr (encode_fields (op_fields tm_op))"
    using tm_fits by (simp add: MemberOp_SigningBytes_fields canon_result_def op_fits_def)
  let ?w = "tm_world\<lparr>wd_tick := Suc 0, tw_trust := (newMemberTrust [] dl_start)\<lparr>mt_creator := 4\<rparr>\<rparr>"
  obtain w1 where w1: "logFor tm_crypto (lg_keys 9) tm_server 4 ?w = (w1, Inr tm_log)" "tb_member_ops (wd_db w1) = []"
    using tm_log_run [of ?w] by (auto simp: newMemberTrust_def tm_world_def)
  have key: "DeviceKey tm_log 7 = Inr (replicate 32 9)" by (simp add: DeviceKey_def tm_log_def)
  have sig: "VerifySignature tm_crypto SigEd25519 (replicate 32 9) m (replicate 64 1) = None" for m
    by (simp add: VerifySignature_None tm_crypto_def)
  have check: "trust_check tm_crypto (lg_keys 9) tm_server 4 7 SigEd25519 m (replicate 64 1) (tm_world\<lparr>wd_tick := Suc 0\<rparr>) = (w1, Inr ())" for m
    using w1(1) by (simp add: trust_check_def bind_w_def on_trust_def pure_w_def dom_res_def key sig ID_IsZero_def tm_world_def newMemberTrust_def)
  have "Apply_with tm_crypto (trust_check tm_crypto (lg_keys 9) tm_server) (ml_s0\<lparr>ms_hash := 5\<rparr>) tm_op (tm_world\<lparr>wd_tick := Suc 0\<rparr>) = (w1, Inr s)"
    by (simp add: Apply_with_def bytes s dom_res_def bind_w_def pure_w_def check)
       (simp add: tm_op_def ml_op_def ml_s0_def bind_w_def check pure_w_def)
  moreover have "\<exists>d. AppendMembership [tm_op] (wd_db w1) = Inr d"
    by (simp add: AppendMembership_def appendLog_def last_seq_def w1(2) tm_op_def ml_op_def sql_args_def)
  moreover have "StateStore_Membership (wd_db tm_world) 1 = []"
    by (simp add: StateStore_Membership_def log_of_def tm_world_def empty_state_def)
  ultimately show ?thesis
    by (auto simp: verifiedTeamMembership_def bind_w_def action_defs start dom_res_def integ_err_def on_trust_def tm_server_def tm_world_def)
qed

theorem team_operations_are_anchored_witness:
  "op_anchored tm_crypto (lg_keys 9) [] dl_start [tm_op] tm_op"
proof -
  from tm_run obtain w' where "verifiedTeamMembership tm_crypto (lg_keys 9) tm_server 1 tm_world = (w', Inr [tm_op])" by blast
  from team_operations_are_anchored [OF this] show ?thesis by (simp add: tm_world_def)
qed

end
