(* ===== verification/Plugin_Network.thy ===== *)
theory Plugin_Network
  imports Go_Strings
begin

text \<open>
  What a plugin may reach over the network: the patterns of its manifest (\<open>domain/plugin/network_pattern.go\<close>), the addresses it must not reach
  unless it names them (\<open>net_dial_policy.go\<close>), the rule both are combined by (\<open>infra/plugin/capability/net_proxy_match.go\<close>), and the three
  places that apply it: \<open>NetProxy.Dial\<close> and the two relay backends of the channel bus.

  An address is a list of 4 or 16 bytes, as in Go's \<open>net.IP\<close>; \<open>None\<close> is the nil slice. The resolver, the dialer, the random source and Unicode case
  folding are parameters.
\<close>

unbundle bit_operations_syntax

section \<open>Errors\<close>

datatype plugin_error =
    ErrInvalidManifest
  | ErrCapabilityDenied
  | ErrRateLimited
  | ErrHandleNotFound
  | ErrNetworkDialFailed
  | ErrChannelBackendReused
  | ErrPluginNotFound
  | ErrRPC
  | ErrIncompatibleAPI
  | ErrMissingFeature
  | ErrSessionScopeRequired
  | PluginError string

type_synonym 'a plugin_result = "plugin_error + 'a"

section \<open>Patterns of the manifest\<close>

text \<open>\<open>strings.Cut\<close>, and \<open>strconv.Atoi\<close> with the range of a 64-bit \<open>int\<close>.\<close>

definition Cut :: "string \<Rightarrow> char \<Rightarrow> (string \<times> string) option" where
  "Cut s c = (if c \<in> set s then Some (takeWhile (\<lambda>x. x \<noteq> c) s, tl (dropWhile (\<lambda>x. x \<noteq> c) s)) else None)"

definition is_digit :: "char \<Rightarrow> bool" where
  "is_digit c \<longleftrightarrow> 48 \<le> (of_char c :: nat) \<and> (of_char c :: nat) \<le> 57"

definition digit_value :: "char \<Rightarrow> int" where
  "digit_value c = of_char c - 48"

definition decimal :: "string \<Rightarrow> int" where
  "decimal s = foldl (\<lambda>n c. 10 * n + digit_value c) 0 s"

definition Atoi :: "string \<Rightarrow> int option" where
  "Atoi s =
    (let (neg, ds) = (case s of [] \<Rightarrow> (False, []) | c # cs \<Rightarrow> if c = CHR ''-'' then (True, cs) else if c = CHR ''+'' then (False, cs) else (False, s));
         n = (if neg then - decimal ds else decimal ds)
     in if ds \<noteq> [] \<and> list_all is_digit ds \<and> - (2 ^ 63) \<le> n \<and> n < 2 ^ 63 then Some n else None)"

record NetworkPattern =
  np_Proto :: string
  np_Host :: string
  np_PortSpec :: string

definition isAllDigits :: "string \<Rightarrow> bool" where
  "isAllDigits s \<longleftrightarrow> s \<noteq> [] \<and> list_all is_digit s"

definition cutNetworkPatternProto :: "string \<Rightarrow> (string \<times> string) option" where
  "cutNetworkPatternProto pattern =
    (case CutPrefix pattern ''tcp:'' of
       (r, True) \<Rightarrow> Some (''tcp'', r)
     | (_, False) \<Rightarrow> (case CutPrefix pattern ''udp:'' of (r, True) \<Rightarrow> Some (''udp'', r) | (_, False) \<Rightarrow> None))"

definition validatePortSpec :: "string \<Rightarrow> plugin_error option" where
  "validatePortSpec spec =
    (if spec = [] \<or> CHR ''*'' \<in> set spec then Some ErrInvalidManifest
     else (case Cut spec CHR ''-'' of
         Some (lo, hi) \<Rightarrow>
           (case (Atoi (TrimSpace lo), Atoi (TrimSpace hi)) of
              (Some minPort, Some maxPort) \<Rightarrow> if minPort < 1 \<or> maxPort > 65535 \<or> minPort > maxPort then Some ErrInvalidManifest else None
            | _ \<Rightarrow> Some ErrInvalidManifest)
       | None \<Rightarrow>
           (case Atoi spec of
              Some port \<Rightarrow> if port < 1 \<or> port > 65535 then Some ErrInvalidManifest else None
            | None \<Rightarrow> Some ErrInvalidManifest)))"

definition ParseNetworkPattern :: "string \<Rightarrow> NetworkPattern plugin_result" where
  "ParseNetworkPattern pattern =
    (let pattern = TrimSpace pattern in
     if pattern = [] \<or> pattern = ''*'' then Inl ErrInvalidManifest
     else (case cutNetworkPatternProto pattern of
         None \<Rightarrow> Inl ErrInvalidManifest
       | Some (proto, rest) \<Rightarrow>
           if rest = [] \<or> CHR ''*'' \<in> set rest then Inl ErrInvalidManifest
           else (case Cut rest CHR '':'' of
               None \<Rightarrow> Inl ErrInvalidManifest
             | Some (host, portSpec) \<Rightarrow>
                 let host = TrimSpace host; portSpec = TrimSpace portSpec in
                 if host = [] \<or> portSpec = [] then Inl ErrInvalidManifest
                 else if Atoi portSpec \<noteq> None \<and> CHR ''-'' \<notin> set portSpec \<and> isAllDigits host then Inl ErrInvalidManifest
                 else (case validatePortSpec portSpec of
                     Some err \<Rightarrow> Inl err
                   | None \<Rightarrow> Inr \<lparr>np_Proto = proto, np_Host = host, np_PortSpec = portSpec\<rparr>))))"

section \<open>Addresses\<close>

definition v4InV6Prefix :: bytes where
  "v4InV6Prefix = replicate 10 0 @ [0xff, 0xff]"

definition To4 :: "bytes \<Rightarrow> bytes option" where
  "To4 ip =
    (if length ip = 4 then Some ip
     else if length ip = 16 \<and> take 12 ip = v4InV6Prefix then Some (drop 12 ip)
     else None)"

definition To16 :: "bytes \<Rightarrow> bytes option" where
  "To16 ip = (if length ip = 4 then Some (v4InV6Prefix @ ip) else if length ip = 16 then Some ip else None)"

definition net_IPv4 :: "byte \<Rightarrow> byte \<Rightarrow> byte \<Rightarrow> byte \<Rightarrow> bytes" where
  "net_IPv4 a b c d = v4InV6Prefix @ [a, b, c, d]"

definition IP_Equal :: "bytes \<Rightarrow> bytes \<Rightarrow> bool" where
  "IP_Equal ip x =
    (if length ip = length x then ip = x
     else if length ip = 4 \<and> length x = 16 then take 12 x = v4InV6Prefix \<and> ip = drop 12 x
     else if length ip = 16 \<and> length x = 4 then take 12 ip = v4InV6Prefix \<and> drop 12 ip = x
     else False)"

definition IsUnspecified :: "bytes \<Rightarrow> bool" where
  "IsUnspecified ip \<longleftrightarrow> IP_Equal ip (net_IPv4 0 0 0 0) \<or> IP_Equal ip (replicate 16 0)"

definition IsLoopback :: "bytes \<Rightarrow> bool" where
  "IsLoopback ip = (case To4 ip of Some ip4 \<Rightarrow> ip4 ! 0 = 127 | None \<Rightarrow> IP_Equal ip (replicate 15 0 @ [1]))"

definition IsPrivate :: "bytes \<Rightarrow> bool" where
  "IsPrivate ip =
    (case To4 ip of
       Some ip4 \<Rightarrow> ip4 ! 0 = 10 \<or> (ip4 ! 0 = 172 \<and> ip4 ! 1 AND 0xf0 = 16) \<or> (ip4 ! 0 = 192 \<and> ip4 ! 1 = 168)
     | None \<Rightarrow> length ip = 16 \<and> ip ! 0 AND 0xfe = 0xfc)"

definition IsMulticast :: "bytes \<Rightarrow> bool" where
  "IsMulticast ip = (case To4 ip of Some ip4 \<Rightarrow> ip4 ! 0 AND 0xf0 = 0xe0 | None \<Rightarrow> length ip = 16 \<and> ip ! 0 = 0xff)"

definition IsLinkLocalMulticast :: "bytes \<Rightarrow> bool" where
  "IsLinkLocalMulticast ip =
    (case To4 ip of
       Some ip4 \<Rightarrow> ip4 ! 0 = 224 \<and> ip4 ! 1 = 0 \<and> ip4 ! 2 = 0
     | None \<Rightarrow> length ip = 16 \<and> ip ! 0 = 0xff \<and> ip ! 1 AND 0x0f = 0x02)"

definition IsLinkLocalUnicast :: "bytes \<Rightarrow> bool" where
  "IsLinkLocalUnicast ip =
    (case To4 ip of
       Some ip4 \<Rightarrow> ip4 ! 0 = 169 \<and> ip4 ! 1 = 254
     | None \<Rightarrow> length ip = 16 \<and> ip ! 0 = 0xfe \<and> ip ! 1 AND 0xc0 = 0x80)"

definition isRestrictedIPv4 :: "bytes \<Rightarrow> bool" where
  "isRestrictedIPv4 ip4 =
    (if ip4 ! 0 = 100 \<and> ip4 ! 1 \<ge> 64 \<and> ip4 ! 1 \<le> 127 then True
     else if ip4 ! 0 = 0 then True
     else if ip4 ! 0 = 169 \<and> ip4 ! 1 = 254 then True
     else if ip4 ! 0 = 255 \<and> ip4 ! 1 = 255 \<and> ip4 ! 2 = 255 \<and> ip4 ! 3 = 255 then True
     else False)"

definition embeddedIPv4 :: "bytes \<Rightarrow> bytes option" where
  "embeddedIPv4 ip =
    (case To16 ip of
       None \<Rightarrow> None
     | Some ip16 \<Rightarrow>
         if ip16 ! 0 = 0x00 \<and> ip16 ! 1 = 0x64 \<and> ip16 ! 2 = 0xff \<and> ip16 ! 3 = 0x9b
         then Some (net_IPv4 (ip16 ! 12) (ip16 ! 13) (ip16 ! 14) (ip16 ! 15))
         else if ip16 ! 0 = 0x20 \<and> ip16 ! 1 = 0x02 then Some (net_IPv4 (ip16 ! 2) (ip16 ! 3) (ip16 ! 4) (ip16 ! 5))
         else None)"

lemma To4_net_IPv4 [simp]: "To4 (net_IPv4 a b c d) = Some [a, b, c, d]"
  by (simp add: To4_def net_IPv4_def v4InV6Prefix_def)

lemma embeddedIPv4_To4: "embeddedIPv4 ip = Some e \<Longrightarrow> To4 e \<noteq> None"
  by (auto simp: embeddedIPv4_def split: option.splits if_splits)

function IsRestrictedDialIP :: "bytes option \<Rightarrow> bool" where
  "IsRestrictedDialIP ip =
    (case ip of
       None \<Rightarrow> True
     | Some ip \<Rightarrow>
         if IsUnspecified ip \<or> IsLoopback ip \<or> IsPrivate ip \<or> IsLinkLocalUnicast ip \<or> IsLinkLocalMulticast ip \<or> IsMulticast ip then True
         else (case To4 ip of
             Some ip4 \<Rightarrow> isRestrictedIPv4 ip4
           | None \<Rightarrow> (case embeddedIPv4 ip of Some e \<Rightarrow> IsRestrictedDialIP (Some e) | None \<Rightarrow> False)))"
  by pat_completeness auto
termination
  by (relation "measure (\<lambda>ip. case ip of Some i \<Rightarrow> if To4 i = None then 1 else 0 | None \<Rightarrow> 0)")
     (use embeddedIPv4_To4 in force)+

declare IsRestrictedDialIP.simps [simp del]

section \<open>Addresses written out\<close>

text \<open>\<open>net.ParseIP\<close>: a dotted quad without leading zeros, or the textual form of IPv6; a zone is refused. Both come back as 16 bytes. The
  loop over the groups of an IPv6 address keeps the bytes read so far and where the ellipsis was.\<close>

definition quad_field :: "string \<Rightarrow> byte option" where
  "quad_field f =
    (if f \<noteq> [] \<and> list_all is_digit f \<and> length f \<le> 3 \<and> (length f > 1 \<longrightarrow> hd f \<noteq> CHR ''0'') \<and> decimal f \<le> 255
     then Some (word_of_int (decimal f)) else None)"

definition parseIPv4 :: "string \<Rightarrow> bytes option" where
  "parseIPv4 s =
    (case map quad_field (Split s CHR ''.'') of
       [Some a, Some b, Some c, Some d] \<Rightarrow> Some [a, b, c, d]
     | _ \<Rightarrow> None)"

definition hex_value :: "char \<Rightarrow> nat option" where
  "hex_value c =
    (let n = of_char c :: nat in
     if 48 \<le> n \<and> n \<le> 57 then Some (n - 48)
     else if 97 \<le> n \<and> n \<le> 102 then Some (n - 87)
     else if 65 \<le> n \<and> n \<le> 70 then Some (n - 55) else None)"

definition group_value :: "string \<Rightarrow> nat" where
  "group_value g = foldl (\<lambda>n c. 16 * n + the (hex_value c)) 0 g"

function ipv6_groups :: "string \<Rightarrow> bytes \<Rightarrow> nat option \<Rightarrow> (bytes \<times> nat option) option" where
  "ipv6_groups s ip ellipsis =
    (if length ip \<ge> 16 then (if s = [] then Some (ip, ellipsis) else None)
     else
      (let g = takeWhile (\<lambda>c. hex_value c \<noteq> None) s; rest = drop (length g) s in
       if g = [] \<or> length g > 4 then None
       else if rest \<noteq> [] \<and> hd rest = CHR ''.'' then
         (if ellipsis = None \<and> length ip \<noteq> 12 \<or> length ip + 4 > 16 then None
          else map_option (\<lambda>q. (ip @ q, ellipsis)) (parseIPv4 s))
       else
        (let v = group_value g; ip = ip @ [word_of_nat (v div 256), word_of_nat (v mod 256)] in
         if rest = [] then Some (ip, ellipsis)
         else if hd rest \<noteq> CHR '':'' \<or> length rest = 1 then None
         else (let s = tl rest in
           if hd s = CHR '':'' then
             (if ellipsis \<noteq> None then None
              else if tl s = [] then Some (ip, Some (length ip))
              else ipv6_groups (tl s) ip (Some (length ip)))
           else ipv6_groups s ip ellipsis))))"
  by pat_completeness auto
termination
proof (relation "measure (\<lambda>(s, ip, e). length s)", goal_cases)
  case 1
  then show ?case by simp
next
  case (2 s ip e g rest v ip' s')
  have "s' \<noteq> []" using 2 by (cases rest) auto
  then have "length (tl s') < length s'" by simp
  also have "\<dots> \<le> length s" using 2 by simp
  finally show ?case by simp
next
  case (3 s ip e g rest v ip' s')
  have "length s' < length rest" using 3 by (cases rest) auto
  then show ?case using 3 by simp
qed

declare ipv6_groups.simps [simp del]

definition parseIPv6 :: "string \<Rightarrow> bytes option" where
  "parseIPv6 s =
    (let (s, start) = (if take 2 s = ''::'' then (drop 2 s, Some 0) else (s, None)) in
     if start \<noteq> None \<and> s = [] then Some (replicate 16 0)
     else (case ipv6_groups s [] start of
         None \<Rightarrow> None
       | Some (ip, ellipsis) \<Rightarrow>
           if length ip < 16 then (case ellipsis of None \<Rightarrow> None | Some i \<Rightarrow> Some (take i ip @ replicate (16 - length ip) 0 @ drop i ip))
           else if ellipsis \<noteq> None then None else Some ip))"

definition ParseIP :: "string \<Rightarrow> bytes option" where
  "ParseIP s =
    (case find (\<lambda>c. c = CHR ''.'' \<or> c = CHR '':'' \<or> c = CHR ''%'') s of
       None \<Rightarrow> None
     | Some c \<Rightarrow>
         if c = CHR ''.'' then map_option (\<lambda>q. v4InV6Prefix @ q) (parseIPv4 s)
         else if c = CHR '':'' \<and> CHR ''%'' \<notin> set s then parseIPv6 s
         else None)"

section \<open>The dial policy\<close>

definition AllowResolvedDialIP :: "string \<Rightarrow> bytes option \<Rightarrow> bool" where
  "AllowResolvedDialIP patternHost resolved =
    (case resolved of
       None \<Rightarrow> False
     | Some ip \<Rightarrow>
         if \<not> IsRestrictedDialIP (Some ip) then True
         else (case ParseIP (TrimSpace patternHost) of None \<Rightarrow> False | Some explicit \<Rightarrow> IP_Equal explicit ip))"

definition shouldAllowResolvedIP :: "bool \<Rightarrow> bool \<Rightarrow> string \<Rightarrow> bytes option \<Rightarrow> bool" where
  "shouldAllowResolvedIP allowArbitrary allowPrivateNetworks patternHost ip =
    (if allowArbitrary \<and> (\<not> IsRestrictedDialIP ip \<or> allowPrivateNetworks) then True
     else AllowResolvedDialIP patternHost ip)"

definition matchPortSpec :: "string \<Rightarrow> int \<Rightarrow> bool" where
  "matchPortSpec spec port =
    (let spec = TrimSpace spec in
     if spec = [] \<or> CHR ''*'' \<in> set spec then False
     else (case Cut spec CHR ''-'' of
         Some (lo, hi) \<Rightarrow>
           (case (Atoi (TrimSpace lo), Atoi (TrimSpace hi)) of
              (Some minPort, Some maxPort) \<Rightarrow> port \<ge> minPort \<and> port \<le> maxPort
            | _ \<Rightarrow> False)
       | None \<Rightarrow> (case Atoi spec of None \<Rightarrow> False | Some want \<Rightarrow> port = want)))"

fun matchingPatternHost :: "(string \<Rightarrow> string \<Rightarrow> bool) \<Rightarrow> string list \<Rightarrow> string \<Rightarrow> int \<Rightarrow> string \<times> bool" where
  "matchingPatternHost EqualFold [] host port = ([], False)"
| "matchingPatternHost EqualFold (pattern # patterns) host port =
    (case ParseNetworkPattern pattern of
       Inl _ \<Rightarrow> matchingPatternHost EqualFold patterns host port
     | Inr parsed \<Rightarrow>
         if \<not> EqualFold (np_Host parsed) host \<or> \<not> matchPortSpec (np_PortSpec parsed) port
         then matchingPatternHost EqualFold patterns host port
         else (np_Host parsed, True))"

section \<open>Dialling\<close>

record NetworkCaps =
  nc_Outbound :: "string list"
  nc_AllowArbitraryOutbound :: bool
  nc_AllowPrivateNetworks :: bool

text \<open>A connection, with the address of its far end when it is a TCP connection. The dialer and the resolver are the operating system's.\<close>

record net_conn =
  conn_no :: nat
  conn_remote :: "bytes option"

record net_env =
  ne_EqualFold :: "string \<Rightarrow> string \<Rightarrow> bool"
  ne_Lookup :: "string \<Rightarrow> bytes list option"
  ne_Dial :: "bytes \<Rightarrow> int \<Rightarrow> net_conn option"

record NetProxy =
  px_patterns :: "string list"
  px_allowArbitrary :: bool
  px_allowPrivateNetworks :: bool
  px_handles :: "(string, net_conn) go_map"
  px_pendingDials :: int

definition MaxNetConnectionsPerPlugin :: int where
  "MaxNetConnectionsPerPlugin = 8"

definition NewNetProxy :: "NetworkCaps option \<Rightarrow> NetProxy" where
  "NewNetProxy caps =
    (case caps of
       None \<Rightarrow> \<lparr>px_patterns = [], px_allowArbitrary = False, px_allowPrivateNetworks = False, px_handles = fmempty, px_pendingDials = 0\<rparr>
     | Some c \<Rightarrow> \<lparr>px_patterns = nc_Outbound c, px_allowArbitrary = nc_AllowArbitraryOutbound c,
         px_allowPrivateNetworks = nc_AllowPrivateNetworks c, px_handles = fmempty, px_pendingDials = 0\<rparr>)"

record netDialParams =
  dp_Network :: string
  dp_Host :: string
  dp_Port :: int

text \<open>\<open>Dial\<close> in its three parts: the checks before the slot is reserved, which give the host of the pattern that matched; the attempts, which give the
  connection or the reason there is none; and the handle. The reservation and its end are steps of their own (theory \<open>Plugin_Channels\<close>).\<close>

definition dial_checks :: "net_env \<Rightarrow> NetProxy \<Rightarrow> netDialParams \<Rightarrow> string plugin_result" where
  "dial_checks env p req =
    (let network = (if dp_Network req = [] then ''tcp'' else dp_Network req) in
     if network \<noteq> ''tcp'' then Inl ErrCapabilityDenied
     else if dp_Host req = [] \<or> dp_Port req \<le> 0 \<or> dp_Port req > 65535 then Inl (PluginError ''invalid net.dial params'')
     else (case (if px_patterns p \<noteq> [] then matchingPatternHost (ne_EqualFold env) (px_patterns p) (dp_Host req) (dp_Port req) else ([], False)) of
         (patternHost, allowlistAllowsHost) \<Rightarrow>
           if \<not> px_allowArbitrary p \<and> \<not> allowlistAllowsHost then Inl ErrCapabilityDenied else Inr patternHost))"

definition px_shouldAllow :: "NetProxy \<Rightarrow> string \<Rightarrow> bytes option \<Rightarrow> bool" where
  "px_shouldAllow p patternHost ip = shouldAllowResolvedIP (px_allowArbitrary p) (px_allowPrivateNetworks p) patternHost ip"

fun dial_addrs :: "net_env \<Rightarrow> NetProxy \<Rightarrow> string \<Rightarrow> int \<Rightarrow> bytes list \<Rightarrow> bool \<Rightarrow> (bytes \<times> net_conn) plugin_result" where
  "dial_addrs env p patternHost port [] failed = Inl (if failed then ErrNetworkDialFailed else ErrCapabilityDenied)"
| "dial_addrs env p patternHost port (ip # ips) failed =
    (if \<not> px_shouldAllow p patternHost (Some ip) then dial_addrs env p patternHost port ips failed
     else (case ne_Dial env ip port of
         None \<Rightarrow> dial_addrs env p patternHost port ips True
       | Some conn \<Rightarrow>
           if conn_remote conn \<noteq> None \<and> \<not> px_shouldAllow p patternHost (conn_remote conn) then dial_addrs env p patternHost port ips failed
           else Inr (ip, conn)))"

definition dial_attempts :: "net_env \<Rightarrow> NetProxy \<Rightarrow> netDialParams \<Rightarrow> string \<Rightarrow> (bytes \<times> net_conn) plugin_result" where
  "dial_attempts env p req patternHost =
    (case ne_Lookup env (dp_Host req) of
       None \<Rightarrow> Inl ErrNetworkDialFailed
     | Some addrs \<Rightarrow> dial_addrs env p patternHost (dp_Port req) addrs False)"

section \<open>Relays\<close>

definition tcpOnlyPatterns :: "string list \<Rightarrow> string list" where
  "tcpOnlyPatterns patterns = filter (\<lambda>p. case ParseNetworkPattern p of Inl _ \<Rightarrow> False | Inr parsed \<Rightarrow> np_Proto parsed = ''tcp'') patterns"

definition udpOnlyPatterns :: "string list \<Rightarrow> string list" where
  "udpOnlyPatterns patterns = filter (\<lambda>p. case ParseNetworkPattern p of Inl _ \<Rightarrow> False | Inr parsed \<Rightarrow> np_Proto parsed = ''udp'') patterns"

text \<open>A relay backend, of either protocol: the address it was authorised to dial, once.\<close>

record relay_backend =
  rb_caps :: "NetworkCaps option"
  rb_authorized :: bool
  rb_target :: "(bytes \<times> int) option"

text \<open>\<open>net.SplitHostPort\<close>: the port follows the last colon; a host with colons stands in brackets.\<close>

definition SplitHostPort :: "string \<Rightarrow> (string \<times> string) option" where
  "SplitHostPort s =
    (if CHR '':'' \<notin> set s then None
     else
      (let port = rev (takeWhile (\<lambda>c. c \<noteq> CHR '':'') (rev s)); i = length s - length port - 1 in
       if hd s = CHR ''['' then
         (let e = length (takeWhile (\<lambda>c. c \<noteq> CHR '']'') s) in
          if e + 1 \<noteq> i \<or> CHR ''['' \<in> set (tl s) \<or> CHR '']'' \<in> set (drop (e + 1) s) then None
          else Some (take (e - 1) (tl s), port))
       else if CHR '':'' \<in> set (take i s) \<or> CHR ''['' \<in> set s \<or> CHR '']'' \<in> set s then None
       else Some (take i s, port)))"

definition relay_Authorize :: "(string list \<Rightarrow> string list) \<Rightarrow> string \<Rightarrow> net_env \<Rightarrow> string \<Rightarrow> string \<Rightarrow> relay_backend \<Rightarrow>
    relay_backend \<times> unit plugin_result" where
  "relay_Authorize onlyPatterns servedPurpose env purpose hint b =
    (if purpose \<noteq> servedPurpose then (b, Inl ErrCapabilityDenied)
     else (case SplitHostPort (TrimSpace hint) of
         None \<Rightarrow> (b, Inl ErrCapabilityDenied)
       | Some (host, portStr) \<Rightarrow>
           (case Atoi portStr of
              None \<Rightarrow> (b, Inl ErrCapabilityDenied)
            | Some port \<Rightarrow>
                if port \<le> 0 \<or> port > 65535 then (b, Inl ErrCapabilityDenied)
                else
                 (let (allowArbitrary, allowPrivate, patterns) =
                    (case rb_caps b of
                       None \<Rightarrow> (False, False, [])
                     | Some c \<Rightarrow> (nc_AllowArbitraryOutbound c, nc_AllowPrivateNetworks c, onlyPatterns (nc_Outbound c)));
                    (patternHost, allowlistAllowsHost) =
                      (if patterns \<noteq> [] then matchingPatternHost (ne_EqualFold env) patterns host port else ([], False))
                  in if \<not> allowArbitrary \<and> \<not> allowlistAllowsHost then (b, Inl ErrCapabilityDenied)
                     else (case ne_Lookup env host of
                         None \<Rightarrow> (b, Inl ErrNetworkDialFailed)
                       | Some addrs \<Rightarrow>
                           (case find (\<lambda>ip. shouldAllowResolvedIP allowArbitrary allowPrivate patternHost (Some ip)) addrs of
                              None \<Rightarrow> (b, Inl ErrCapabilityDenied)
                            | Some ip \<Rightarrow>
                                if rb_authorized b then (b, Inl ErrChannelBackendReused)
                                else (b\<lparr>rb_authorized := True, rb_target := Some (ip, port)\<rparr>, Inr ())))))))"

definition PurposeTCPRelay :: string where "PurposeTCPRelay = ''tcp-relay''"
definition PurposeUDPRelay :: string where "PurposeUDPRelay = ''udp-relay''"

definition ChannelRelayBackend_Authorize :: "net_env \<Rightarrow> string \<Rightarrow> string \<Rightarrow> relay_backend \<Rightarrow> relay_backend \<times> unit plugin_result" where
  "ChannelRelayBackend_Authorize = relay_Authorize tcpOnlyPatterns PurposeTCPRelay"

definition ChannelUDPRelayBackend_Authorize :: "net_env \<Rightarrow> string \<Rightarrow> string \<Rightarrow> relay_backend \<Rightarrow> relay_backend \<times> unit plugin_result" where
  "ChannelUDPRelayBackend_Authorize = relay_Authorize udpOnlyPatterns PurposeUDPRelay"

section \<open>Addresses that carry an address\<close>

text \<open>An IPv6 address that carries an IPv4 address is judged by the one it carries.\<close>

lemma net_IPv4_not_zero: "net_IPv4 a b c d \<noteq> replicate 16 0"
proof
  assume "net_IPv4 a b c d = replicate 16 0"
  then have "net_IPv4 a b c d ! 10 = replicate 16 0 ! 10" by simp
  then show False by (simp add: net_IPv4_def v4InV6Prefix_def nth_append)
qed

lemma v4_not_zero: "take 12 (replicate 16 0 :: bytes) \<noteq> v4InV6Prefix"
proof
  assume "take 12 (replicate 16 0 :: bytes) = v4InV6Prefix"
  then have "take 12 (replicate 16 0 :: bytes) ! 10 = v4InV6Prefix ! 10" by simp
  then show False by (simp add: v4InV6Prefix_def nth_append)
qed

lemma length_net_IPv4 [simp]: "length (net_IPv4 a b c d) = 16"
  by (simp add: net_IPv4_def v4InV6Prefix_def)

lemma net_IPv4_parts [simp]: "take 12 (net_IPv4 a b c d) = v4InV6Prefix" "drop 12 (net_IPv4 a b c d) = [a, b, c, d]"
  by (simp_all add: net_IPv4_def v4InV6Prefix_def)

lemma IsUnspecified_v4: "IsUnspecified (net_IPv4 a b c d) = IsUnspecified [a, b, c, d]"
proof -
  have "net_IPv4 a b c d = net_IPv4 0 0 0 0 \<longleftrightarrow> [a, b, c, d] = [0, 0, 0, 0]" by (simp add: net_IPv4_def)
  then show ?thesis using v4_not_zero net_IPv4_not_zero by (simp add: IsUnspecified_def IP_Equal_def)
qed

lemma IsRestricted_v4:
  "IsRestrictedDialIP (Some (net_IPv4 a b c d)) = IsRestrictedDialIP (Some [a, b, c, d])"
proof -
  have "To4 [a, b, c, d] = Some [a, b, c, d]" by (simp add: To4_def)
  then show ?thesis
    by (simp add: IsRestrictedDialIP.simps [of "Some _"] IsUnspecified_v4 IsLoopback_def IsPrivate_def IsLinkLocalUnicast_def
        IsLinkLocalMulticast_def IsMulticast_def)
qed

text \<open>Neither the NAT64 nor the 6to4 prefix is itself in a range the other checks know.\<close>

lemma IsRestricted_embedded:
  assumes "length ip = 16" and "To4 ip = None" and "embeddedIPv4 ip = Some e"
  shows "IsRestrictedDialIP (Some ip) = IsRestrictedDialIP (Some e)"
proof -
  have first: "ip ! 0 = 0 \<and> ip ! 1 = 0x64 \<or> ip ! 0 = 0x20 \<and> ip ! 1 = 0x02"
    using assms(1,3) by (auto simp: embeddedIPv4_def To16_def split: if_splits)
  have zero: "ip \<noteq> replicate 16 0" and one: "ip \<noteq> replicate 15 0 @ [1]" and v4: "ip \<noteq> net_IPv4 0 0 0 0"
    using first by (auto simp: nth_append net_IPv4_def v4InV6Prefix_def)
  then have "\<not> IsUnspecified ip" "\<not> IsLoopback ip" using assms(1,2) by (simp_all add: IsUnspecified_def IsLoopback_def IP_Equal_def)
  moreover have "\<not> IsPrivate ip" "\<not> IsLinkLocalUnicast ip" "\<not> IsLinkLocalMulticast ip" "\<not> IsMulticast ip"
    using first assms(2) by (auto simp: IsPrivate_def IsLinkLocalUnicast_def IsLinkLocalMulticast_def IsMulticast_def)
  ultimately show ?thesis using assms(2,3) by (simp add: IsRestrictedDialIP.simps [of "Some ip"])
qed

section \<open>What is dialled\<close>

definition pattern_names :: "net_env \<Rightarrow> NetProxy \<Rightarrow> netDialParams \<Rightarrow> NetworkPattern \<Rightarrow> bool" where
  "pattern_names env p req q \<longleftrightarrow> (\<exists>pattern \<in> set (px_patterns p). ParseNetworkPattern pattern = Inr q) \<and>
    ne_EqualFold env (np_Host q) (dp_Host req) \<and> matchPortSpec (np_PortSpec q) (dp_Port req)"

lemma matchingPatternHost_True:
  assumes "matchingPatternHost fold_eq patterns host port = (h, True)"
  shows "\<exists>q. (\<exists>pattern \<in> set patterns. ParseNetworkPattern pattern = Inr q) \<and> fold_eq (np_Host q) host \<and> matchPortSpec (np_PortSpec q) port \<and> h = np_Host q"
  using assms by (induction patterns) (auto split: sum.split_asm if_split_asm)

lemma matchingPatternHost_False: "matchingPatternHost fold_eq patterns host port = (h, False) \<Longrightarrow> h = []"
  by (induction patterns) (auto split: sum.split_asm if_split_asm)

lemma dial_checks_Inr:
  assumes "dial_checks env p req = Inr patternHost"
  shows "0 < dp_Port req" and "dp_Port req \<le> 65535"
    and "(\<exists>q. pattern_names env p req q \<and> patternHost = np_Host q) \<or> px_allowArbitrary p \<and> patternHost = []"
proof -
  let ?m = "if px_patterns p \<noteq> [] then matchingPatternHost (ne_EqualFold env) (px_patterns p) (dp_Host req) (dp_Port req) else ([], False)"
  obtain h ok where m: "?m = (h, ok)" by (cases ?m)
  with assms have g: "0 < dp_Port req" "dp_Port req \<le> 65535" "px_allowArbitrary p \<or> ok" "patternHost = h"
    by (auto simp: dial_checks_def Let_def split: if_split_asm)
  then show "0 < dp_Port req" "dp_Port req \<le> 65535" by blast+
  show "(\<exists>q. pattern_names env p req q \<and> patternHost = np_Host q) \<or> px_allowArbitrary p \<and> patternHost = []"
  proof (cases ok)
    case True
    with m have "matchingPatternHost (ne_EqualFold env) (px_patterns p) (dp_Host req) (dp_Port req) = (h, True)" by (simp split: if_split_asm)
    from matchingPatternHost_True [OF this] g(4) show ?thesis by (auto simp: pattern_names_def)
  next
    case False
    with m have "h = []" by (auto simp: matchingPatternHost_False split: if_split_asm)
    with False g show ?thesis by simp
  qed
qed

lemma dial_addrs_Inr:
  assumes "dial_addrs env p patternHost port ips failed = Inr (ip, conn)"
  shows "ip \<in> set ips \<and> px_shouldAllow p patternHost (Some ip) \<and> ne_Dial env ip port = Some conn \<and>
    (conn_remote conn \<noteq> None \<longrightarrow> px_shouldAllow p patternHost (conn_remote conn))"
  using assms
proof (induction ips arbitrary: failed)
  case (Cons x xs)
  show ?case
  proof (cases "px_shouldAllow p patternHost (Some x)")
    case allowed: True
    show ?thesis
    proof (cases "ne_Dial env x port")
      case None
      with Cons allowed show ?thesis by auto
    next
      case (Some c)
      with Cons allowed show ?thesis by (cases "conn_remote c \<noteq> None \<and> \<not> px_shouldAllow p patternHost (conn_remote c)") auto
    qed
  next
    case False
    with Cons show ?thesis by auto
  qed
qed simp

lemma shouldAllow_restricted:
  assumes "px_shouldAllow p patternHost (Some ip)" and "IsRestrictedDialIP (Some ip)"
  shows "px_allowArbitrary p \<and> px_allowPrivateNetworks p \<or> (\<exists>e. ParseIP (TrimSpace patternHost) = Some e \<and> IP_Equal e ip)"
  using assms by (auto simp: px_shouldAllow_def shouldAllowResolvedIP_def AllowResolvedDialIP_def split: if_split_asm option.split_asm)

lemma ParseIP_empty [simp]: "ParseIP (TrimSpace []) = None"
  by code_simp

text \<open>C23. A plugin's connection goes where the person agreed to at install time. When \<open>net.dial\<close> connects, the port is a port and either the manifest
  asked for arbitrary outbound connections or one of its patterns names the host and the port; and when the address dialled, or the one the connection turns out to have, is
  loopback, private, link-local or otherwise restricted, the manifest asked for private networks too, or the pattern that matched is that very address written out.
  Whatever the name resolves to, and whatever host the plugin asks for.\<close>

theorem dial_reaches_only_what_was_granted:
  assumes "dial_checks env p req = Inr patternHost" and "dial_attempts env p req patternHost = Inr (ip, conn)"
  shows "0 < dp_Port req \<and> dp_Port req \<le> 65535 \<and> (px_allowArbitrary p \<or> (\<exists>q. pattern_names env p req q)) \<and>
    (\<forall>a. Some a \<in> {Some ip, conn_remote conn} \<longrightarrow> IsRestrictedDialIP (Some a) \<longrightarrow>
      px_allowArbitrary p \<and> px_allowPrivateNetworks p \<or>
      (\<exists>q e. pattern_names env p req q \<and> ParseIP (TrimSpace (np_Host q)) = Some e \<and> IP_Equal e a))"
proof -
  note C = dial_checks_Inr [OF assms(1)]
  from assms(2) obtain addrs where "dial_addrs env p patternHost (dp_Port req) addrs False = Inr (ip, conn)"
    by (auto simp: dial_attempts_def split: option.split_asm)
  note D = dial_addrs_Inr [OF this]
  have "px_allowArbitrary p \<and> px_allowPrivateNetworks p \<or> (\<exists>q e. pattern_names env p req q \<and> ParseIP (TrimSpace (np_Host q)) = Some e \<and> IP_Equal e a)"
    if "Some a \<in> {Some ip, conn_remote conn}" and "IsRestrictedDialIP (Some a)" for a
  proof -
    have "px_shouldAllow p patternHost (Some a)" using D that(1) by (metis empty_iff insertE option.distinct(1))
    from shouldAllow_restricted [OF this that(2)] C(3) show ?thesis by auto
  qed
  then show ?thesis using C by blast
qed

text \<open>An IPv6 address that carries an IPv4 address is judged by the address it carries: an IPv4-mapped one, one behind the NAT64 prefix and
  a 6to4 one are restricted exactly when the IPv4 address is, so that loopback or a private network is not reached by writing it as IPv6.\<close>

theorem carried_address_decides:
  assumes "length mid = 8" and "length rest = 10"
  shows "IsRestrictedDialIP (Some (v4InV6Prefix @ [a, b, c, d])) = IsRestrictedDialIP (Some [a, b, c, d]) \<and>
    IsRestrictedDialIP (Some ([0x00, 0x64, 0xff, 0x9b] @ mid @ [a, b, c, d])) = IsRestrictedDialIP (Some [a, b, c, d]) \<and>
    IsRestrictedDialIP (Some ([0x20, 0x02, a, b, c, d] @ rest)) = IsRestrictedDialIP (Some [a, b, c, d])"
proof -
  let ?n = "[0x00, 0x64, 0xff, 0x9b] @ mid @ [a, b, c, d] :: bytes" and ?s = "[0x20, 0x02, a, b, c, d] @ rest :: bytes"
  have not_mapped: "To4 ip = None" if "length ip = 16" "ip ! 1 \<noteq> 0" for ip
  proof -
    have "take 12 ip ! 1 = ip ! 1" by simp
    moreover have "v4InV6Prefix ! 1 = 0" by (simp add: v4InV6Prefix_def nth_append)
    ultimately have "take 12 ip \<noteq> v4InV6Prefix" using that(2) by metis
    then show ?thesis using that(1) by (simp add: To4_def)
  qed
  have "length ?n = 16" "length ?s = 16" using assms by simp_all
  moreover have "embeddedIPv4 ?n = Some (net_IPv4 a b c d)"
    using assms by (simp add: embeddedIPv4_def To16_def nth_append nth_Cons')
  moreover have "embeddedIPv4 ?s = Some (net_IPv4 a b c d)" using assms by (simp add: embeddedIPv4_def To16_def)
  ultimately show ?thesis
    using IsRestricted_embedded [of ?n] IsRestricted_embedded [of ?s] not_mapped [of ?n] not_mapped [of ?s] IsRestricted_v4 [of a b c d]
    by (simp add: net_IPv4_def)
qed

text \<open>C35. \<open>net.dial\<close> opens TCP connections and does not look at the protocol of the pattern that lets it: a manifest whose only pattern is a UDP one lets the plugin
  connect to that host and port over TCP, which the TCP relay of the channel bus refuses under the same manifest.\<close>

theorem net_dial_ignores_the_protocol:
  assumes "ParseNetworkPattern pattern = Inr q" and "np_Proto q = ''udp''" and "ne_EqualFold env (np_Host q) host"
    and "matchPortSpec (np_PortSpec q) port" and "host \<noteq> []" and "0 < port" and "port \<le> 65535"
    and "caps = \<lparr>nc_Outbound = [pattern], nc_AllowArbitraryOutbound = False, nc_AllowPrivateNetworks = False\<rparr>"
  shows "dial_checks env (NewNetProxy (Some caps)) \<lparr>dp_Network = ''tcp'', dp_Host = host, dp_Port = port\<rparr> = Inr (np_Host q) \<and>
    snd (ChannelRelayBackend_Authorize env purpose hint \<lparr>rb_caps = Some caps, rb_authorized = False, rb_target = None\<rparr>) = Inl ErrCapabilityDenied"
  using assms
  by (simp add: dial_checks_def NewNetProxy_def ChannelRelayBackend_Authorize_def relay_Authorize_def tcpOnlyPatterns_def split: option.split)

section \<open>A sample\<close>

text \<open>A plugin that may ask a name server, and a network in which the name of the server leads to loopback.\<close>

definition nt_env :: net_env where
  "nt_env = \<lparr>ne_EqualFold = (\<lambda>a b. a = b), ne_Lookup = (\<lambda>_. Some [[127, 0, 0, 1], [9, 9, 9, 9]]),
     ne_Dial = (\<lambda>ip _. Some \<lparr>conn_no = 0, conn_remote = Some ip\<rparr>)\<rparr>"

definition nt_caps :: "string \<Rightarrow> NetworkCaps" where
  "nt_caps pattern = \<lparr>nc_Outbound = [pattern], nc_AllowArbitraryOutbound = False, nc_AllowPrivateNetworks = False\<rparr>"

definition nt_req :: netDialParams where
  "nt_req = \<lparr>dp_Network = ''tcp'', dp_Host = ''dns.example'', dp_Port = 53\<rparr>"

lemma nt_tcp: "ParseNetworkPattern ''tcp:dns.example:50-60'' = Inr \<lparr>np_Proto = ''tcp'', np_Host = ''dns.example'', np_PortSpec = ''50-60''\<rparr>"
  by code_simp

lemma nt_udp: "ParseNetworkPattern ''udp:dns.example:53'' = Inr \<lparr>np_Proto = ''udp'', np_Host = ''dns.example'', np_PortSpec = ''53''\<rparr>"
  by code_simp

lemma nt_port: "matchPortSpec ''53'' 53" "matchPortSpec ''50-60'' 53"
  by code_simp+

lemma nt_checks: "dial_checks nt_env (NewNetProxy (Some (nt_caps ''tcp:dns.example:50-60''))) nt_req = Inr ''dns.example''"
  by (simp add: dial_checks_def nt_req_def NewNetProxy_def nt_caps_def nt_tcp nt_port nt_env_def)

lemma nt_loopback: "IsRestrictedDialIP (Some [127, 0, 0, 1])" "\<not> IsRestrictedDialIP (Some [9, 9, 9, 9])" "ParseIP (TrimSpace ''dns.example'') = None"
  by code_simp+

lemma nt_dial: "dial_attempts nt_env (NewNetProxy (Some (nt_caps ''tcp:dns.example:50-60''))) nt_req ''dns.example'' =
    Inr ([9, 9, 9, 9], \<lparr>conn_no = 0, conn_remote = Some [9, 9, 9, 9]\<rparr>)"
  using nt_loopback
  by (simp add: dial_attempts_def nt_env_def NewNetProxy_def nt_caps_def px_shouldAllow_def shouldAllowResolvedIP_def AllowResolvedDialIP_def)

theorem dial_reaches_only_what_was_granted_witness:
  "\<exists>q. pattern_names nt_env (NewNetProxy (Some (nt_caps ''tcp:dns.example:50-60''))) nt_req q"
  using dial_reaches_only_what_was_granted [OF nt_checks nt_dial] by (simp add: NewNetProxy_def nt_caps_def)

theorem carried_address_decides_witness:
  "IsRestrictedDialIP (Some [0x00, 0x64, 0xff, 0x9b, 0, 0, 0, 0, 0, 0, 0, 0, 127, 0, 0, 1]) \<and>
   \<not> IsRestrictedDialIP (Some [0x20, 0x02, 9, 9, 9, 9, 0, 0, 0, 0, 0, 0, 0, 0, 0, 1])"
  using carried_address_decides [of "[0, 0, 0, 0, 0, 0, 0, 0]" "[0, 0, 0, 0, 0, 0, 0, 0, 0, 1]" 127 0 0 1]
    carried_address_decides [of "[0, 0, 0, 0, 0, 0, 0, 0]" "[0, 0, 0, 0, 0, 0, 0, 0, 0, 1]" 9 9 9 9] nt_loopback
  by simp

theorem net_dial_ignores_the_protocol_witness:
  "dial_checks nt_env (NewNetProxy (Some (nt_caps ''udp:dns.example:53''))) nt_req = Inr ''dns.example''"
  using net_dial_ignores_the_protocol [OF nt_udp, of nt_env "''dns.example''" 53 "nt_caps ''udp:dns.example:53''"]
  by (simp add: nt_env_def nt_port nt_caps_def nt_req_def)

end
