(* ===== verification/Plugin_Paths.thy ===== *)
theory Plugin_Paths
  imports Plugin_Network Device_Log
begin

text \<open>
  Which files a plugin reaches: the files it declares to follow the user to other devices (\<open>domain/plugin/sync_paths.go\<close>), and the roots its file
  system capability names (\<open>fs_scope.go\<close>, the file system rule of \<open>manifest_capabilities.go\<close>, \<open>infra/plugin/bundle/capabilities_validate.go\<close>,
  \<open>infra/plugin/capability/paths.go\<close>, \<open>pkg/pathsafe/pathsafe.go\<close> and the data directories of \<open>infra/plugin/data_dir.go\<close>).

  Paths are those of a Unix system: the separator is a slash, and an absolute path starts with one. What the code reads of the disk (symbolic links) is
  not modelled.
\<close>

section \<open>Strings\<close>

definition HasSuffix :: "string \<Rightarrow> string \<Rightarrow> bool" where
  "HasSuffix s p \<longleftrightarrow> length p \<le> length s \<and> drop (length s - length p) s = p"

fun Contains :: "string \<Rightarrow> string \<Rightarrow> bool" where
  "Contains [] p \<longleftrightarrow> p = []"
| "Contains (c # cs) p \<longleftrightarrow> HasPrefix (c # cs) p \<or> Contains cs p"

text \<open>\<open>strings.ReplaceAll\<close> of a string that is not empty.\<close>

function ReplaceAll :: "string \<Rightarrow> string \<Rightarrow> string \<Rightarrow> string" where
  "ReplaceAll s old new =
    (if s = [] \<or> old = [] then s
     else if HasPrefix s old then new @ ReplaceAll (drop (length old) s) old new
     else hd s # ReplaceAll (tl s) old new)"
  by pat_completeness auto
termination by (relation "measure (\<lambda>(s, old, new). length s)") auto

declare ReplaceAll.simps [simp del]

fun join_slash :: "string list \<Rightarrow> string" where
  "join_slash [] = []"
| "join_slash [x] = x"
| "join_slash (x # xs) = x @ CHR ''/'' # join_slash xs"

section \<open>Files that are synced\<close>

definition maxSyncPathLen :: nat where "maxSyncPathLen = 256"
definition MaxSyncPatterns :: nat where "MaxSyncPatterns = 32"

text \<open>No rune outside ASCII folds to a letter of these names, so lowering ASCII letters decides.\<close>

definition isWindowsDeviceName :: "string \<Rightarrow> bool" where
  "isWindowsDeviceName seg =
    (let base = Cut_before (ToLower seg) CHR ''.'' in
     base \<in> {''con'', ''prn'', ''aux'', ''nul''} \<or>
     length base = 4 \<and> (HasPrefix base ''com'' \<or> HasPrefix base ''lpt'') \<and> 49 \<le> (of_char (base ! 3) :: nat) \<and> (of_char (base ! 3) :: nat) \<le> 57)"

definition is_control :: "char \<Rightarrow> bool" where
  "is_control c \<longleftrightarrow> (of_char c :: nat) < 32 \<or> (of_char c :: nat) = 127"

definition checkSyncSegment :: "string \<Rightarrow> bool \<Rightarrow> string option" where
  "checkSyncSegment seg pattern =
    (if seg = [] \<or> seg = ''.'' \<or> seg = ''..'' then Some ''empty, dot or dot-dot segment''
     else if ToLower seg = ''tmp'' then Some ''tmp is never synced''
     else if HasSuffix seg ''.'' \<or> HasSuffix seg '' '' then Some ''a name ending in a dot or a space''
     else if isWindowsDeviceName seg then Some ''a reserved device name''
     else if list_ex is_control seg then Some ''a control character''
     else if \<not> pattern then None
     else if list_ex (\<lambda>c. c \<in> set ''?[]{}'') seg then Some ''only stars are supported''
     else if Contains seg ''**'' \<and> seg \<noteq> ''**'' then Some ''two stars must be a whole segment''
     else None)"

fun check_segments :: "string list \<Rightarrow> bool \<Rightarrow> string option" where
  "check_segments [] pattern = None"
| "check_segments (seg # segs) pattern = (case checkSyncSegment seg pattern of Some err \<Rightarrow> Some err | None \<Rightarrow> check_segments segs pattern)"

definition checkSyncSegments :: "string \<Rightarrow> bool \<Rightarrow> string option" where
  "checkSyncSegments p pattern =
    (if p = [] \<or> length p > maxSyncPathLen then Some ''empty or too long''
     else if CHR 0x5C \<in> set p \<or> CHR '':'' \<in> set p \<or> HasPrefix p ''/'' \<or> HasPrefix p ''~'' \<or> CHR ''$'' \<in> set p
     then Some ''not a relative slash-separated path''
     else check_segments (Split p CHR ''/'') pattern)"

definition ValidSyncFile :: "string \<Rightarrow> string option" where
  "ValidSyncFile rel = checkSyncSegments rel False"

text \<open>\<open>path.Match\<close> for a pattern whose only metacharacter is the star, which validation has made sure of: a star, the chunk up to the next star and the
  rest. The first place a chunk fits is taken; the last chunk must reach the end.\<close>

definition scan_star :: "string \<Rightarrow> bool \<times> string \<times> string" where
  "scan_star pattern =
    (let rest = dropWhile (\<lambda>c. c = CHR ''*'') pattern in
     (rest \<noteq> pattern, takeWhile (\<lambda>c. c \<noteq> CHR ''*'') rest, dropWhile (\<lambda>c. c \<noteq> CHR ''*'') rest))"

fun star_search :: "string \<Rightarrow> bool \<Rightarrow> string \<Rightarrow> string option" where
  "star_search chunk last_chunk [] = None"
| "star_search chunk last_chunk (x # name) =
    (if x = CHR ''/'' then None
     else (case CutPrefix name chunk of
         (t, True) \<Rightarrow> if last_chunk \<and> t \<noteq> [] then star_search chunk last_chunk name else Some t
       | (_, False) \<Rightarrow> star_search chunk last_chunk name))"

function path_Match :: "string \<Rightarrow> string \<Rightarrow> bool" where
  "path_Match pattern name =
    (if pattern = [] then name = []
     else (case scan_star pattern of (star, chunk, rest) \<Rightarrow>
       if star \<and> chunk = [] then CHR ''/'' \<notin> set name
       else (case CutPrefix name chunk of (t, ok) \<Rightarrow>
         if ok \<and> (t = [] \<or> rest \<noteq> []) then path_Match rest t
         else if star then (case star_search chunk (rest = []) name of None \<Rightarrow> False | Some t \<Rightarrow> path_Match rest t)
         else False)))"
  by pat_completeness auto
termination
proof -
  have less: "length rest < length pattern" if "pattern \<noteq> []" "(star, chunk, rest) = scan_star pattern" "\<not> (star \<and> chunk = [])" for pattern star chunk rest
  proof -
    let ?r = "dropWhile (\<lambda>c. c = CHR ''*'') pattern"
    have r: "rest = dropWhile (\<lambda>c. c \<noteq> CHR ''*'') ?r" "chunk = takeWhile (\<lambda>c. c \<noteq> CHR ''*'') ?r" "star = (?r \<noteq> pattern)"
      using that(2) by (simp_all add: scan_star_def Let_def)
    have "length chunk + length rest = length ?r" unfolding r by (metis length_append takeWhile_dropWhile_id)
    moreover have "length ?r \<le> length pattern" by (simp add: length_dropWhile_le)
    moreover have "chunk = [] \<Longrightarrow> False"
    proof -
      assume "chunk = []"
      with that(3) have "?r = pattern" using r(3) by simp
      with \<open>chunk = []\<close> r(2) that(1) have "hd pattern = CHR ''*''" by (cases pattern) (auto split: if_split_asm)
      with \<open>?r = pattern\<close> that(1) show False by (metis (mono_tags) hd_dropWhile)
    qed
    ultimately show ?thesis by (cases chunk) auto
  qed
  show ?thesis
    by (relation "measure (\<lambda>(pattern, name). length pattern)") (auto intro: less)
qed

declare path_Match.simps [simp del]

fun matchSegments :: "string list \<Rightarrow> string list \<Rightarrow> bool" where
  "matchSegments [] file = (file = [])"
| "matchSegments (seg # pat) file =
    (if seg = ''**'' then list_ex (\<lambda>i. matchSegments pat (drop i file)) [(if pat = [] then 1 else 0)..<Suc (length file)]
     else (case file of [] \<Rightarrow> False | f # fs \<Rightarrow> path_Match seg f \<and> matchSegments pat fs))"

datatype IsolationMode = IsolationPerPlugin | IsolationPerSession

record SyncSpec =
  sp_Paths :: "string list"

definition SyncSpec_Validate :: "SyncSpec option \<Rightarrow> IsolationMode \<Rightarrow> plugin_error option" where
  "SyncSpec_Validate spec isolation =
    (case spec of
       None \<Rightarrow> None
     | Some s \<Rightarrow>
         if isolation = IsolationPerSession \<and> sp_Paths s \<noteq> [] then Some ErrInvalidManifest
         else if length (sp_Paths s) > MaxSyncPatterns then Some ErrInvalidManifest
         else if list_ex (\<lambda>p. checkSyncSegments p True \<noteq> None) (sp_Paths s) then Some ErrInvalidManifest
         else None)"

definition SyncSpec_Matches :: "SyncSpec option \<Rightarrow> string \<Rightarrow> bool" where
  "SyncSpec_Matches spec rel =
    (case spec of
       None \<Rightarrow> False
     | Some s \<Rightarrow>
         if ValidSyncFile rel \<noteq> None then False
         else list_ex (\<lambda>p. matchSegments (Split p CHR ''/'') (Split rel CHR ''/'')) (sp_Paths s))"

section \<open>What a pattern means\<close>

text \<open>A star stands for any text within one segment, two stars for any number of segments, at least one at the end.\<close>

fun glob :: "string \<Rightarrow> string \<Rightarrow> bool" where
  "glob [] name \<longleftrightarrow> name = []"
| "glob (c # p) name \<longleftrightarrow>
    (if c = CHR ''*'' then \<exists>i \<le> length name. glob p (drop i name) else (case name of [] \<Rightarrow> False | x # xs \<Rightarrow> c = x \<and> glob p xs))"

fun glob_path :: "string list \<Rightarrow> string list \<Rightarrow> bool" where
  "glob_path [] file \<longleftrightarrow> file = []"
| "glob_path (seg # pat) file \<longleftrightarrow>
    (if seg = ''**'' then \<exists>dirs rest. file = dirs @ rest \<and> (pat = [] \<longrightarrow> dirs \<noteq> []) \<and> glob_path pat rest
     else \<exists>f rest. file = f # rest \<and> glob seg f \<and> glob_path pat rest)"

lemma glob_star: "glob (CHR ''*'' # p) name \<longleftrightarrow> (\<exists>i. glob p (drop i name))"
proof
  assume "\<exists>i. glob p (drop i name)"
  then obtain i where "glob p (drop i name)" ..
  then have "glob p (drop (min i (length name)) name)" by (cases "i \<le> length name") (auto simp: min_def)
  then show "glob (CHR ''*'' # p) name" by (auto intro: exI [of _ "min i (length name)"])
qed auto

declare glob.simps(2) [simp del]

lemma glob_char: "c \<noteq> CHR ''*'' \<Longrightarrow> glob (c # p) name \<longleftrightarrow> (\<exists>xs. name = c # xs \<and> glob p xs)"
  by (auto simp: glob.simps(2) split: list.split)

lemma glob_chunk: "CHR ''*'' \<notin> set chunk \<Longrightarrow> glob (chunk @ p) name \<longleftrightarrow> (\<exists>t. name = chunk @ t \<and> glob p t)"
  by (induction chunk arbitrary: name) (auto simp: glob_char)

lemma glob_star_star: "glob (CHR ''*'' # CHR ''*'' # p) name = glob (CHR ''*'' # p) name"
proof -
  have "(\<exists>i j. glob p (drop j (drop i name))) \<longleftrightarrow> (\<exists>i. glob p (drop i name))" by (metis add_0 drop_drop)
  then show ?thesis by (simp add: glob_star)
qed

lemma glob_stars: "glob (CHR ''*'' # p) name = glob (CHR ''*'' # dropWhile (\<lambda>c. c = CHR ''*'') p) name"
  by (induction p) (auto simp: glob_star_star)

lemma glob_star_later: "glob (CHR ''*'' # p) (drop i name) \<Longrightarrow> glob (CHR ''*'' # p) name"
  by (auto simp: glob_star)

text \<open>The search of a chunk finds the first place after the beginning at which it fits.\<close>

lemma star_search_Some:
  assumes "star_search chunk l name = Some t" and "CHR ''/'' \<notin> set name"
  shows "\<exists>i > 0. drop i name = chunk @ t \<and> (l \<longrightarrow> t = []) \<and> (\<forall>j t'. 0 < j \<longrightarrow> j < i \<longrightarrow> drop j name = chunk @ t' \<longrightarrow> l \<and> t' \<noteq> [])"
  using assms
proof (induction name)
  case (Cons x name)
  show ?case
  proof (cases "\<exists>t'. name = chunk @ t' \<and> (l \<longrightarrow> t' = [])")
    case True
    then obtain t' where t': "name = chunk @ t'" "l \<longrightarrow> t' = []" by blast
    then have "t = t'" using Cons.prems by (auto split: if_split_asm)
    then show ?thesis using t' by (intro exI [of _ "Suc 0"]) auto
  next
    case False
    have "star_search chunk l name = Some t"
    proof (cases "CutPrefix name chunk")
      case (Pair t' ok)
      with False Cons.prems show ?thesis by (cases ok) (auto simp: CutPrefix_True split: if_split_asm)
    qed
    with Cons obtain i where i: "i > 0" "drop i name = chunk @ t" "l \<longrightarrow> t = []"
      "\<forall>j t'. 0 < j \<longrightarrow> j < i \<longrightarrow> drop j name = chunk @ t' \<longrightarrow> l \<and> t' \<noteq> []" by auto
    have "l \<and> t' \<noteq> []" if j: "0 < j" "j < Suc i" "drop j (x # name) = chunk @ t'" for j t'
    proof (cases "j = 1")
      case True
      with j \<open>\<not> (\<exists>t'. name = chunk @ t' \<and> (l \<longrightarrow> t' = []))\<close> show ?thesis by auto
    next
      case False
      then obtain k where "j = Suc k" "0 < k" using j(1) by (cases j) auto
      then show ?thesis using i(4) j by auto
    qed
    then show ?thesis using i by (intro exI [of _ "Suc i"]) auto
  qed
qed simp

lemma star_search_None:
  assumes "star_search chunk l name = None" and "CHR ''/'' \<notin> set name" and "0 < j" and "drop j name = chunk @ t" and "chunk \<noteq> []"
  shows "l \<and> t \<noteq> []"
  using assms
proof (induction name arbitrary: j)
  case (Cons x name)
  obtain k where j: "j = Suc k" using Cons.prems(3) by (cases j) auto
  have rest: "star_search chunk l name = None \<or> (\<exists>t'. name = chunk @ t' \<and> (l \<longrightarrow> t' = []))"
    and this_one: "name = chunk @ t' \<Longrightarrow> l \<and> t' \<noteq> []" for t'
    using Cons.prems(1,2) by (auto split: prod.split_asm bool.split_asm if_split_asm)
  show ?case
  proof (cases "k = 0")
    case True
    then show ?thesis using this_one [of t] Cons.prems(4) j by simp
  next
    case False
    then show ?thesis using Cons.IH [of k] Cons.prems j rest this_one by auto
  qed
qed simp

text \<open>Taking the first place is enough: what follows starts with a star, or must reach the end.\<close>

lemma first_place_enough:
  assumes "drop i name = chunk @ t" and "drop i0 name = chunk @ t0" and "i0 \<le> i" and "glob rest t"
    and "rest = [] \<and> t0 = [] \<or> (\<exists>q. rest = CHR ''*'' # q)"
  shows "glob rest t0"
proof -
  have "chunk @ t = drop (i - i0) (chunk @ t0)" using assms(1-3) by (metis drop_drop le_add_diff_inverse2)
  then have "drop (length chunk) (chunk @ t) = drop (length chunk + (i - i0)) (chunk @ t0)" by (metis drop_drop add.commute)
  then have "t = drop (i - i0) t0" by simp
  with assms(4,5) show ?thesis by (auto intro: glob_star_later)
qed

lemma CutPrefix_False: "CutPrefix s p = (r, False) \<Longrightarrow> s \<noteq> p @ t"
  by (auto simp: CutPrefix_def split: if_split_asm)

lemma plain_chunk:
  assumes "CHR ''*'' \<notin> set chunk" and "CutPrefix name chunk = (t, ok)"
  shows "glob (chunk @ rest) name \<longleftrightarrow> ok \<and> (t = [] \<or> rest \<noteq> []) \<and> glob rest t"
  using assms by (cases ok) (auto simp: glob_chunk CutPrefix_True CutPrefix_False)

lemma star_chunk:
  assumes "CHR ''*'' \<notin> set chunk" and "chunk \<noteq> []" and "CHR ''/'' \<notin> set name" and "CutPrefix name chunk = (t, ok)"
    and rest: "rest = [] \<or> (\<exists>q. rest = CHR ''*'' # q)"
  shows "glob (CHR ''*'' # chunk @ rest) name \<longleftrightarrow>
    (if ok \<and> (t = [] \<or> rest \<noteq> []) then glob rest t
     else (case star_search chunk (rest = []) name of None \<Rightarrow> False | Some t \<Rightarrow> glob rest t))"
proof -
  have G: "glob (CHR ''*'' # chunk @ rest) name \<longleftrightarrow> (\<exists>i t. drop i name = chunk @ t \<and> glob rest t)"
    by (auto simp: glob_star glob_chunk assms(1))
  show ?thesis
  proof (cases "ok \<and> (t = [] \<or> rest \<noteq> [])")
    case True
    then have zero: "drop 0 name = chunk @ t" using assms(4) by (auto simp: CutPrefix_True)
    have "glob rest t" if "drop i name = chunk @ t'" "glob rest t'" for i t'
      using first_place_enough [OF that(1) zero _ that(2)] True rest by blast
    then show ?thesis using True G zero by metis
  next
    case False
    have late: "0 < i" if "drop i name = chunk @ t'" "glob rest t'" for i t'
      using that False assms(4) by (cases i; cases ok) (auto simp: CutPrefix_True CutPrefix_False)
    show ?thesis
    proof (cases "star_search chunk (rest = []) name")
      case None
      have "\<not> glob rest t'" if "drop i name = chunk @ t'" for i t'
        using star_search_None [OF None assms(3) _ that assms(2)] late [OF that] by auto
      then show ?thesis using False None G by auto
    next
      case (Some t0)
      from star_search_Some [OF Some assms(3)] obtain i0 where i0: "drop i0 name = chunk @ t0" "rest = [] \<longrightarrow> t0 = []"
        "\<forall>j t'. 0 < j \<longrightarrow> j < i0 \<longrightarrow> drop j name = chunk @ t' \<longrightarrow> rest = [] \<and> t' \<noteq> []" by blast
      have "glob rest t0" if g: "drop i name = chunk @ t'" "glob rest t'" for i t'
      proof -
        have "i0 \<le> i" using i0(3) late [OF g] g by (metis glob.simps(1) not_less)
        from first_place_enough [OF g(1) i0(1) this g(2)] i0(2) rest show ?thesis by blast
      qed
      then show ?thesis using False Some G i0(1) by auto
    qed
  qed
qed

lemma scan_star_glob:
  assumes "scan_star pattern = (star, chunk, rest)" and "pattern \<noteq> []"
  shows "CHR ''*'' \<notin> set chunk" and "rest = [] \<or> (\<exists>q. rest = CHR ''*'' # q)" and "chunk = [] \<Longrightarrow> star \<and> rest = []"
    and "glob pattern name = (if star then glob (CHR ''*'' # chunk @ rest) name else glob (chunk @ rest) name)"
    and "chunk \<noteq> [] \<Longrightarrow> length rest < length pattern"
proof -
  let ?r = "dropWhile (\<lambda>c. c = CHR ''*'') pattern"
  have d: "star = (?r \<noteq> pattern)" "chunk = takeWhile (\<lambda>c. c \<noteq> CHR ''*'') ?r" "rest = dropWhile (\<lambda>c. c \<noteq> CHR ''*'') ?r"
    using assms(1) by (simp_all add: scan_star_def Let_def)
  have r: "?r = chunk @ rest" by (simp add: d)
  have first: "?r \<noteq> [] \<Longrightarrow> hd ?r \<noteq> CHR ''*''" using hd_dropWhile [of "\<lambda>c. c = CHR ''*''" pattern] by simp
  show "CHR ''*'' \<notin> set chunk" unfolding d(2) using set_takeWhileD [of _ "\<lambda>c. c \<noteq> CHR ''*''"] by blast
  show starred: "rest = [] \<or> (\<exists>q. rest = CHR ''*'' # q)"
    using hd_dropWhile [of "\<lambda>c. c \<noteq> CHR ''*''" ?r] unfolding d(3) [symmetric] by (cases rest) auto
  show "star \<and> rest = []" if "chunk = []"
  proof -
    have "rest = []" using starred first r that by auto
    then show ?thesis using r that d(1) assms(2) by (metis append_Nil)
  qed
  show "glob pattern name = (if star then glob (CHR ''*'' # chunk @ rest) name else glob (chunk @ rest) name)"
  proof (cases star)
    case True
    then obtain q where q: "pattern = CHR ''*'' # q" using d(1) by (cases pattern) (auto split: if_split_asm)
    then have "dropWhile (\<lambda>c. c = CHR ''*'') q = chunk @ rest" using r by simp
    then show ?thesis using True q glob_stars [of q name] by simp
  next
    case False
    then have "pattern = chunk @ rest" using r d(1) by simp
    with False show ?thesis by simp
  qed
  show "length rest < length pattern" if "chunk \<noteq> []"
    using length_dropWhile_le [of "\<lambda>c. c = CHR ''*''" pattern] that unfolding r by (cases chunk) auto
qed

lemma path_Match_glob:
  assumes "CHR ''/'' \<notin> set name"
  shows "path_Match pattern name = glob pattern name"
  using assms
proof (induction pattern arbitrary: name rule: length_induct)
  case (1 pattern)
  show ?case
  proof (cases "pattern = []")
    case False
    obtain star chunk rest where scan: "scan_star pattern = (star, chunk, rest)" using prod_cases3 by blast
    obtain t ok where cut: "CutPrefix name chunk = (t, ok)" by force
    note S = scan_star_glob [OF scan False]
    show ?thesis
    proof (cases "chunk = []")
      case True
      then have "glob pattern name" using S(3,4) by (auto simp: glob_star intro: exI [of _ "length name"])
      then show ?thesis using True S(3) False scan 1(2) by (subst path_Match.simps) simp
    next
      case chunk: False
      have IH: "path_Match rest u = glob rest u" if "CHR ''/'' \<notin> set u" for u using 1(1) S(5) [OF chunk] that by blast
      have t: "CHR ''/'' \<notin> set t" if ok using that cut 1(2) by (auto simp: CutPrefix_True)
      have u: "CHR ''/'' \<notin> set u" if "star_search chunk (rest = []) name = Some u" for u
        using star_search_Some [OF that 1(2)] 1(2) by (metis in_set_dropD in_set_conv_decomp append_assoc set_append UnCI)
      show ?thesis
        using star_chunk [OF S(1) chunk 1(2) cut S(2)] plain_chunk [OF S(1) cut, of rest] S(4) [of name] scan cut chunk False IH t u
        by (subst path_Match.simps) (auto split: option.split)
    qed
  qed (simp add: path_Match.simps)
qed

lemma Split_no_sep: "seg \<in> set (Split s c) \<Longrightarrow> c \<notin> set seg"
  by (induction s arbitrary: seg) (auto split: list.split_asm if_split_asm)

lemma Split_not_Nil [simp]: "Split s c \<noteq> []"
  by (cases s) (auto split: list.split)

lemma matchSegments_glob:
  assumes "\<forall>f \<in> set names. CHR ''/'' \<notin> set f"
  shows "matchSegments pat names = glob_path pat names"
  using assms
proof (induction pat arbitrary: names)
  case (Cons seg pat)
  show ?case
  proof (cases "seg = ''**''")
    case True
    have "matchSegments pat (drop i names) = glob_path pat (drop i names)" for i using Cons by (meson in_set_dropD)
    then have "matchSegments (seg # pat) names \<longleftrightarrow> (\<exists>i. (if pat = [] then 1 else 0) \<le> i \<and> i < Suc (length names) \<and> glob_path pat (drop i names))"
      unfolding matchSegments.simps if_P [OF True] list_ex_iff set_upt Bex_def by auto
    also have "\<dots> \<longleftrightarrow> (\<exists>dirs rest. names = dirs @ rest \<and> (pat = [] \<longrightarrow> dirs \<noteq> []) \<and> glob_path pat rest)"
    proof
      assume "\<exists>i. (if pat = [] then 1 else 0) \<le> i \<and> i < Suc (length names) \<and> glob_path pat (drop i names)"
      then obtain i where i: "(if pat = [] then 1 else 0) \<le> i" "i < Suc (length names)" "glob_path pat (drop i names)" by blast
      then have "pat = [] \<longrightarrow> take i names \<noteq> []" by auto
      then show "\<exists>dirs rest. names = dirs @ rest \<and> (pat = [] \<longrightarrow> dirs \<noteq> []) \<and> glob_path pat rest"
        using i(3) by (metis append_take_drop_id)
    next
      assume "\<exists>dirs rest. names = dirs @ rest \<and> (pat = [] \<longrightarrow> dirs \<noteq> []) \<and> glob_path pat rest"
      then obtain dirs rest where "names = dirs @ rest" "pat = [] \<longrightarrow> dirs \<noteq> []" "glob_path pat rest" by blast
      then show "\<exists>i. (if pat = [] then 1 else 0) \<le> i \<and> i < Suc (length names) \<and> glob_path pat (drop i names)"
        by (intro exI [of _ "length dirs"]) (auto simp: Suc_le_eq)
    qed
    finally show ?thesis using True by simp
  next
    case False
    then show ?thesis using Cons path_Match_glob by (cases names) auto
  qed
qed simp

text \<open>C29. A plugin's declared patterns mean what the documentation says: a file is synced exactly when its path passes the path rules and one of the patterns matches it, a star standing for any text
  within one segment and two stars for any number of segments, at least one at the end of a pattern. The search for a place for each piece of a pattern, which takes the first
  place and never goes back, misses no match.\<close>

theorem sync_patterns_exact:
  "SyncSpec_Matches spec rel \<longleftrightarrow> (\<exists>s. spec = Some s \<and> ValidSyncFile rel = None \<and>
    (\<exists>p \<in> set (sp_Paths s). glob_path (Split p CHR ''/'') (Split rel CHR ''/'')))"
proof -
  have "matchSegments pat (Split rel CHR ''/'') = glob_path pat (Split rel CHR ''/'')" for pat
    by (rule matchSegments_glob) (use Split_no_sep in blast)
  then show ?thesis by (auto simp: SyncSpec_Matches_def list_ex_iff split: option.split if_split_asm)
qed

section \<open>Where a path leads\<close>

text \<open>Resolving the segments of a path from a directory: an empty segment and a dot stay, two dots go up, a name goes down.\<close>

fun walk :: "string list \<Rightarrow> string list \<Rightarrow> string list" where
  "walk dir [] = dir"
| "walk dir (seg # segs) = walk (if seg = [] \<or> seg = ''.'' then dir else if seg = ''..'' then butlast dir else dir @ [seg]) segs"

lemma walk_append: "walk dir (xs @ ys) = walk (walk dir xs) ys"
  by (induction dir xs rule: walk.induct) auto

definition plain_name :: "string \<Rightarrow> bool" where
  "plain_name seg \<longleftrightarrow> seg \<noteq> [] \<and> seg \<noteq> ''.'' \<and> seg \<noteq> ''..'' \<and> ToLower seg \<noteq> ''tmp'' \<and> \<not> isWindowsDeviceName seg \<and>
    (\<forall>c \<in> set seg. \<not> is_control c \<and> c \<notin> {CHR ''/'', CHR 0x5C, CHR '':'', CHR ''$''}) \<and> last seg \<noteq> CHR ''.'' \<and> last seg \<noteq> CHR '' ''"

lemma walk_plain: "\<forall>seg \<in> set segs. plain_name seg \<Longrightarrow> walk dir segs = dir @ segs"
  by (induction segs arbitrary: dir) (auto simp: plain_name_def)

lemma check_segments_None: "check_segments segs pattern = None \<longleftrightarrow> (\<forall>seg \<in> set segs. checkSyncSegment seg pattern = None)"
  by (induction segs) (auto split: option.split)

lemma Split_subset: "seg \<in> set (Split s c) \<Longrightarrow> set seg \<subseteq> set s"
  by (induction s arbitrary: seg) (fastforce split: list.split_asm if_split_asm)+

lemma HasSuffix_one: "seg \<noteq> [] \<Longrightarrow> HasSuffix seg [c] \<longleftrightarrow> last seg = c"
  by (cases seg rule: rev_cases) (auto simp: HasSuffix_def)

lemma ValidSyncFile_plain:
  assumes "ValidSyncFile rel = None" and "seg \<in> set (Split rel CHR ''/'')"
  shows "plain_name seg"
proof -
  have v: "checkSyncSegment seg False = None" "CHR 0x5C \<notin> set rel" "CHR '':'' \<notin> set rel" "CHR ''$'' \<notin> set rel"
    using assms by (auto simp: ValidSyncFile_def checkSyncSegments_def check_segments_None split: if_split_asm)
  moreover have "CHR ''/'' \<notin> set seg" using Split_no_sep [OF assms(2)] .
  moreover have "set seg \<subseteq> set rel" using Split_subset [OF assms(2)] .
  ultimately show ?thesis
    by (auto simp: plain_name_def checkSyncSegment_def HasSuffix_one list_ex_iff split: if_split_asm)
qed

text \<open>A synced file stays inside the plugin's data directory, whoever wrote the record: a path that passes leads, from any directory, to a place strictly below it, through exactly the names written
  in it. None of the names goes up, is reserved by Windows, carries a drive or a stream, a backslash, a variable or a control character, is the temporary directory, or ends in a character
  Windows drops.\<close>

theorem synced_files_stay_inside:
  assumes "ValidSyncFile rel = None"
  shows "walk root (Split rel CHR ''/'') = root @ Split rel CHR ''/'' \<and> Split rel CHR ''/'' \<noteq> [] \<and> length rel \<le> 256 \<and>
    (\<forall>seg \<in> set (Split rel CHR ''/''). plain_name seg)"
  using walk_plain [of "Split rel CHR ''/''" root] ValidSyncFile_plain [OF assms] assms
  by (auto simp: ValidSyncFile_def checkSyncSegments_def maxSyncPathLen_def split: if_split_asm)

theorem synced_files_stay_inside_witness:
  "walk [''plugins'', ''demo'', ''data''] (Split ''notes/a.json'' CHR ''/'') = [''plugins'', ''demo'', ''data'', ''notes'', ''a.json'']"
proof -
  have "ValidSyncFile ''notes/a.json'' = None" by code_simp
  moreover have "Split ''notes/a.json'' CHR ''/'' = [''notes'', ''a.json'']" by code_simp
  ultimately show ?thesis using synced_files_stay_inside [of "''notes/a.json''" "[''plugins'', ''demo'', ''data'']"] by simp
qed

section \<open>Roots of the file system capability\<close>

record FSCaps =
  fc_Read :: "string list"
  fc_Write :: "string list"

definition PluginDataPlaceholder :: string where
  "PluginDataPlaceholder = ''${pluginData}''"

definition hasTraversal :: "string \<Rightarrow> bool" where
  "hasTraversal unix \<longleftrightarrow> ''..'' \<in> set (Split unix CHR ''/'')"

definition IsBroadFilesystemPattern :: "string \<Rightarrow> bool" where
  "IsBroadFilesystemPattern pattern =
    (let trimmed = TrimSpace pattern in
     if trimmed = [] then False
     else if Contains trimmed PluginDataPlaceholder then False
     else
      (let unix = ReplaceAll trimmed [CHR 0x5C] ''/'' in
       if unix = ''/'' \<or> unix = ''//'' \<or> unix = ''~'' \<or> unix = ''~/'' then True
       else if hasTraversal unix then True
       else if length unix \<ge> 2 \<and> unix ! 1 = CHR '':'' \<and> (\<forall>c \<in> set (drop 2 unix). c = CHR ''/'') then True
       else False))"

fun keep_broad :: "string list \<Rightarrow> string list \<Rightarrow> string list" where
  "keep_broad [] seen = []"
| "keep_broad (p # ps) seen =
    (if \<not> IsBroadFilesystemPattern p \<or> p \<in> set seen then keep_broad ps seen else p # keep_broad ps (p # seen))"

definition BroadFilesystemPatterns :: "FSCaps option \<Rightarrow> string list" where
  "BroadFilesystemPatterns fs = (case fs of None \<Rightarrow> [] | Some c \<Rightarrow> keep_broad (fc_Read c @ fc_Write c) [])"

definition RequiresBroadFilesystemAccess :: "FSCaps option \<Rightarrow> bool" where
  "RequiresBroadFilesystemAccess fs \<longleftrightarrow> length (BroadFilesystemPatterns fs) > 0"

definition validateFSPatterns :: "FSCaps \<Rightarrow> plugin_error option" where
  "validateFSPatterns c =
    (if list_ex (\<lambda>p. let p = TrimSpace p in p = ''*'' \<or> \<not> HasPrefix p PluginDataPlaceholder) (fc_Read c @ fc_Write c)
     then Some ErrInvalidManifest else None)"

text \<open>\<open>filepath\<close> on absolute paths. \<open>cwd\<close> is the working directory.\<close>

definition path_segs :: "string \<Rightarrow> string list" where
  "path_segs s = walk [] (Split s CHR ''/'')"

definition Clean :: "string \<Rightarrow> string" where
  "Clean s = CHR ''/'' # join_slash (path_segs s)"

definition IsAbs :: "string \<Rightarrow> bool" where
  "IsAbs s \<longleftrightarrow> HasPrefix s ''/''"

definition Join2 :: "string \<Rightarrow> string \<Rightarrow> string" where
  "Join2 a b = Clean (a @ CHR ''/'' # b)"

definition filepath_Abs :: "string \<Rightarrow> string \<Rightarrow> string" where
  "filepath_Abs cwd s = (if IsAbs s then Clean s else Join2 cwd s)"

fun common :: "string list \<Rightarrow> string list \<Rightarrow> nat" where
  "common (a # as) (b # bs) = (if a = b then Suc (common as bs) else 0)"
| "common _ _ = 0"

text \<open>\<open>filepath.Rel\<close> of two absolute paths, as segments.\<close>

definition rel_segs :: "string list \<Rightarrow> string list \<Rightarrow> string list" where
  "rel_segs base target = replicate (length base - common base target) ''..'' @ drop (common base target) target"

definition UnderRoot :: "string \<Rightarrow> string \<Rightarrow> bool" where
  "UnderRoot root target =
    (if \<not> utf8_ValidString root \<or> \<not> utf8_ValidString target then False
     else let r = path_segs root; t = path_segs target in
       if r = t then True else hd (rel_segs r t) \<noteq> ''..'')"

definition validateFSRoots :: "string \<Rightarrow> FSCaps \<Rightarrow> string \<Rightarrow> plugin_error option" where
  "validateFSRoots cwd caps installDir =
    (let installAbs = filepath_Abs cwd installDir; pluginDataDir = Join2 installAbs ''data'' in
     if list_ex (\<lambda>p. let p = TrimSpace p in
          p \<noteq> [] \<and> \<not> UnderRoot installAbs (Clean (filepath_Abs cwd (ReplaceAll p PluginDataPlaceholder pluginDataDir))))
        (fc_Read caps @ fc_Write caps)
     then Some ErrInvalidManifest else None)"

fun resolve_roots_loop :: "string \<Rightarrow> string list \<Rightarrow> string \<Rightarrow> string list \<Rightarrow> string list" where
  "resolve_roots_loop cwd [] pluginDataDir seen = []"
| "resolve_roots_loop cwd (p # ps) pluginDataDir seen =
    (let p = TrimSpace p in
     if p = [] then resolve_roots_loop cwd ps pluginDataDir seen
     else
      (let abs = Clean (filepath_Abs cwd (ReplaceAll p PluginDataPlaceholder pluginDataDir)) in
       if abs \<in> set seen then resolve_roots_loop cwd ps pluginDataDir seen
       else abs # resolve_roots_loop cwd ps pluginDataDir (abs # seen)))"

definition resolveRoots :: "string \<Rightarrow> string list \<Rightarrow> string \<Rightarrow> string list" where
  "resolveRoots cwd patterns pluginDataDir = resolve_roots_loop cwd patterns pluginDataDir []"

record FSProxy =
  fp_pluginDataDir :: string
  fp_readRoots :: "string list"
  fp_writeRoots :: "string list"

definition NewFSProxy :: "string \<Rightarrow> FSCaps option \<Rightarrow> string \<Rightarrow> FSProxy" where
  "NewFSProxy cwd caps pluginDataDir =
    (let (r, w) = (case caps of None \<Rightarrow> ([], []) | Some c \<Rightarrow> (fc_Read c, fc_Write c)) in
     \<lparr>fp_pluginDataDir = pluginDataDir, fp_readRoots = resolveRoots cwd r pluginDataDir, fp_writeRoots = resolveRoots cwd w pluginDataDir\<rparr>)"

definition ResolvePath :: "string \<Rightarrow> FSProxy \<Rightarrow> string \<Rightarrow> bool \<Rightarrow> string plugin_result" where
  "ResolvePath cwd p requestPath write =
    (let roots = (if write then fp_writeRoots p else fp_readRoots p) in
     if roots = [] then Inl ErrCapabilityDenied
     else
      (let candidate = (if \<not> IsAbs requestPath then Join2 (fp_pluginDataDir p) requestPath else requestPath);
           abs = Clean (filepath_Abs cwd candidate)
       in if list_ex (\<lambda>root. UnderRoot root abs) roots then Inr abs else Inl ErrCapabilityDenied))"

definition PluginsRoot :: "string \<Rightarrow> string" where
  "PluginsRoot root = Join2 root ''plugins''"

definition PluginDataDir :: "string \<Rightarrow> string \<Rightarrow> string" where
  "PluginDataDir dataRoot pluginID = Join2 (Join2 (PluginsRoot dataRoot) (ReplaceAll pluginID ''/'' ''_'')) ''data''"

text \<open>A session id is valid UTF-8: the bytes after the first of a rune are skipped.\<close>

definition sanitizeSessionSegment :: "string \<Rightarrow> string" where
  "sanitizeSessionSegment sessionID =
    (let runes = filter (\<lambda>c. \<not> (128 \<le> (of_char c :: nat) \<and> (of_char c :: nat) < 192)) (TrimSpace sessionID);
         out = map (\<lambda>c. let n = of_char c :: nat in
           if 97 \<le> n \<and> n \<le> 122 \<or> 65 \<le> n \<and> n \<le> 90 \<or> 48 \<le> n \<and> n \<le> 57 \<or> c = CHR ''-'' \<or> c = CHR ''_'' then c else CHR ''_'') runes
     in if out = [] then ''session'' else out)"

definition instanceSessionScope :: "string \<Rightarrow> IsolationMode \<Rightarrow> string" where
  "instanceSessionScope sessionID isolation = (if isolation \<noteq> IsolationPerSession then [] else TrimSpace sessionID)"

definition PluginInstanceDataDir :: "string \<Rightarrow> string \<Rightarrow> string \<Rightarrow> IsolationMode \<Rightarrow> string" where
  "PluginInstanceDataDir dataRoot pluginID sessionID isolation =
    (let base = PluginDataDir dataRoot pluginID; scope = instanceSessionScope sessionID isolation in
     if scope \<noteq> [] then Join2 base (sanitizeSessionSegment scope) else base)"

section \<open>Clean paths\<close>

lemma Split_sep: "Split (a @ c # b) c = Split a c @ Split b c"
proof (induction a)
  case (Cons x a)
  show ?case using Cons by (cases "Split a c") (auto split: list.split)
qed simp

lemma Split_no_sep_id: "c \<notin> set s \<Longrightarrow> Split s c = [s]"
  by (induction s) auto

lemma Split_join: "segs \<noteq> [] \<Longrightarrow> \<forall>seg \<in> set segs. CHR ''/'' \<notin> set seg \<Longrightarrow> Split (join_slash segs) CHR ''/'' = segs"
  by (induction segs rule: join_slash.induct) (simp_all add: Split_no_sep_id Split_sep)

definition clean_name :: "string \<Rightarrow> bool" where
  "clean_name seg \<longleftrightarrow> seg \<noteq> [] \<and> seg \<noteq> ''.'' \<and> seg \<noteq> ''..'' \<and> CHR ''/'' \<notin> set seg"

lemma walk_clean: "\<forall>seg \<in> set segs. clean_name seg \<Longrightarrow> walk dir segs = dir @ segs"
  by (induction segs arbitrary: dir) (auto simp: clean_name_def)

lemma walk_names: "\<forall>seg \<in> set dir. clean_name seg \<Longrightarrow> \<forall>seg \<in> set segs. CHR ''/'' \<notin> set seg \<Longrightarrow> \<forall>seg \<in> set (walk dir segs). clean_name seg"
proof (induction segs arbitrary: dir)
  case (Cons seg segs)
  let ?dir = "if seg = [] \<or> seg = ''.'' then dir else if seg = ''..'' then butlast dir else dir @ [seg]"
  have "\<forall>s \<in> set ?dir. clean_name s"
  proof
    fix s
    assume "s \<in> set ?dir"
    then consider "s \<in> set dir" | "s = seg" "seg \<noteq> []" "seg \<noteq> ''.''" "seg \<noteq> ''..''"
      by (cases "seg = [] \<or> seg = ''.''"; cases "seg = ''..''") (auto dest: in_set_butlastD)
    then show "clean_name s"
    proof cases
      case 1
      then show ?thesis using Cons.prems(1) by blast
    next
      case 2
      then show ?thesis using Cons.prems(2) unfolding clean_name_def by simp
    qed
  qed
  then show ?case unfolding walk.simps by (rule Cons.IH) (use Cons.prems(2) in simp)
qed simp

lemma path_segs_names: "\<forall>seg \<in> set (path_segs s). clean_name seg"
  unfolding path_segs_def by (rule walk_names) (auto dest: Split_no_sep)

lemma path_segs_Clean [simp]: "path_segs (Clean s) = path_segs s"
proof (cases "path_segs s = []")
  case True
  then show ?thesis by (simp add: Clean_def path_segs_def)
next
  case False
  have "path_segs (Clean s) = walk [] ([] # path_segs s)"
    using Split_sep [of "[]" "CHR ''/''" "join_slash (path_segs s)"] Split_join [OF False] path_segs_names [of s]
    by (simp add: Clean_def path_segs_def clean_name_def)
  then show ?thesis using walk_clean [OF path_segs_names] by simp
qed

lemma Clean_Clean [simp]: "Clean (Clean s) = Clean s" "Clean (Join2 a b) = Join2 a b"
  by (simp_all add: Join2_def Clean_def [of "Clean _"]) (simp_all add: Clean_def)

lemma path_segs_append: "path_segs (a @ CHR ''/'' # b) = walk (path_segs a) (Split b CHR ''/'')"
  by (simp add: path_segs_def Split_sep walk_append)

lemma path_segs_Join2 [simp]: "path_segs (Join2 a b) = walk (path_segs a) (Split b CHR ''/'')"
  by (simp add: Join2_def path_segs_append)

lemma common_prefix: "length base \<le> common base target \<longleftrightarrow> (\<exists>rest. target = base @ rest)"
  by (induction base target rule: common.induct) auto

lemma common_append: "common base (base @ rest) = length base"
  by (induction base) auto

lemma UnderRoot_iff:
  "UnderRoot root target \<longleftrightarrow> utf8_ValidString root \<and> utf8_ValidString target \<and> (\<exists>rest. path_segs target = path_segs root @ rest)"
proof -
  let ?r = "path_segs root" and ?t = "path_segs target"
  have "hd (rel_segs ?r ?t) \<noteq> ''..'' \<longleftrightarrow> (\<exists>rest. ?t = ?r @ rest)" if "?r \<noteq> ?t"
  proof (cases "length ?r \<le> common ?r ?t")
    case True
    then obtain rest where rest: "?t = ?r @ rest" unfolding common_prefix by blast
    have "common ?r ?t = length ?r" unfolding rest by (rule common_append)
    then have "rel_segs ?r ?t = rest" using rest by (simp add: rel_segs_def)
    moreover have "rest \<noteq> []" "\<forall>seg \<in> set rest. clean_name seg" using that rest path_segs_names [of target] by auto
    ultimately have "hd (rel_segs ?r ?t) \<noteq> ''..''" by (cases rest) (auto simp: clean_name_def)
    then show ?thesis using rest by blast
  next
    case False
    then have "hd (rel_segs ?r ?t) = ''..''" by (cases "length ?r - common ?r ?t") (auto simp: rel_segs_def)
    then show ?thesis using False common_prefix by blast
  qed
  then show ?thesis by (auto simp: UnderRoot_def Let_def)
qed

lemma UnderRootI: "utf8_ValidString root \<Longrightarrow> utf8_ValidString target \<Longrightarrow> path_segs target = path_segs root @ rest \<Longrightarrow> UnderRoot root target"
  by (auto simp: UnderRoot_iff)

text \<open>C27. A path a plugin asks for is refused unless, with every dot and two-dot segment resolved, it lies below one of the roots of the capability the request needs: the path that is used names no directory
  upwards, and its segments continue those of such a root.\<close>

theorem resolved_paths_stay_under_roots:
  assumes "ResolvePath cwd p requestPath write = Inr out"
  shows "(\<exists>root \<in> set (if write then fp_writeRoots p else fp_readRoots p). \<exists>rest. path_segs out = path_segs root @ rest) \<and>
    ''..'' \<notin> set (Split out CHR ''/'')"
proof -
  from assms obtain s where c: "out = Clean s" and root: "\<exists>root \<in> set (if write then fp_writeRoots p else fp_readRoots p). UnderRoot root out"
    by (auto simp: ResolvePath_def Let_def list_ex_iff split: if_split_asm)
  have "Split out CHR ''/'' = [] # (if path_segs s = [] then [[]] else path_segs s)"
    using Split_sep [of "[]" "CHR ''/''" "join_slash (path_segs s)"] Split_join [of "path_segs s"] path_segs_names [of s]
    by (auto simp: c Clean_def clean_name_def)
  then have "''..'' \<notin> set (Split out CHR ''/'')" using path_segs_names [of s] by (auto simp: clean_name_def)
  then show ?thesis using root by (auto simp: UnderRoot_iff)
qed

theorem resolved_paths_stay_under_roots_witness:
  "ResolvePath ''/w'' \<lparr>fp_pluginDataDir = ''/d'', fp_readRoots = [''/d''], fp_writeRoots = []\<rparr> ''a/../b'' False = Inr ''/d/b'' \<and>
    (\<exists>root \<in> {''/d''}. \<exists>rest. path_segs ''/d/b'' = path_segs root @ rest) \<and> ''..'' \<notin> set (Split ''/d/b'' CHR ''/'')"
proof -
  let ?p = "\<lparr>fp_pluginDataDir = ''/d'', fp_readRoots = [''/d''], fp_writeRoots = []\<rparr>"
  have ok: "ResolvePath ''/w'' ?p ''a/../b'' False = Inr ''/d/b''" by code_simp
  show ?thesis using ok resolved_paths_stay_under_roots [OF ok] by simp
qed

section \<open>Sessions of a plugin\<close>

lemma TrimSpace_up: "TrimSpace ''${pluginData}/..'' = ''${pluginData}/..''"
  by code_simp

lemma replace_up: "ReplaceAll ''${pluginData}/..'' PluginDataPlaceholder d = d @ ''/..''"
  by (simp add: ReplaceAll.simps PluginDataPlaceholder_def HasPrefix_def)

lemma up_root:
  assumes "IsAbs d" and "path_segs d = base @ [seg]"
  shows "path_segs (Clean (filepath_Abs cwd (d @ ''/..''))) = base"
proof -
  have "IsAbs (d @ ''/..'')" using assms(1) by (cases d) (auto simp: IsAbs_def HasPrefix_def)
  moreover have "path_segs (d @ ''/..'') = base"
    using path_segs_append [of d "''..''"] assms(2) by (simp add: Split_no_sep_id)
  ultimately show ?thesis by (simp add: filepath_Abs_def)
qed

lemma IsAbs_Clean [simp]: "IsAbs (Clean s)" "IsAbs (Join2 a b)"
  by (simp_all add: Clean_def IsAbs_def HasPrefix_def Join2_def)

lemma sanitize_name: "clean_name (sanitizeSessionSegment s)"
proof -
  let ?out = "sanitizeSessionSegment s"
  have "c \<noteq> CHR ''/'' \<and> c \<noteq> CHR ''.''" if "c \<in> set ?out" for c
    using that by (auto simp: sanitizeSessionSegment_def Let_def split: if_split_asm)
  moreover have "?out \<noteq> []" by (simp add: sanitizeSessionSegment_def Let_def)
  ultimately show ?thesis by (cases ?out) (fastforce simp: clean_name_def)+
qed

lemma instance_dir:
  assumes "TrimSpace sid \<noteq> []"
  shows "IsAbs (PluginInstanceDataDir dataRoot pid sid IsolationPerSession)"
    "path_segs (PluginInstanceDataDir dataRoot pid sid IsolationPerSession) =
      path_segs (PluginDataDir dataRoot pid) @ [sanitizeSessionSegment (TrimSpace sid)]"
  using assms sanitize_name [of "TrimSpace sid"]
  by (auto simp: PluginInstanceDataDir_def instanceSessionScope_def Let_def clean_name_def Split_no_sep_id)

text \<open>C28. The data directories of a per-session plugin are not separated from each other by the file system capability: the pattern \<open>${pluginData}/..\<close> starts with the
  placeholder, is checked at install time against the plugin's own directory, where it leads no further than the install directory, and is never reported as broad; but for a process bound to one session it expands
  to the directory that holds the data of every session of the plugin, and the process may read and write there.\<close>

theorem session_directories_are_not_separated:
  fixes cwd dataRoot pid sid1 sid2 name :: string
  defines "caps \<equiv> \<lparr>fc_Read = [''${pluginData}/..''], fc_Write = [''${pluginData}/..'']\<rparr>"
    and "other \<equiv> PluginInstanceDataDir dataRoot pid sid2 IsolationPerSession"
    and "root \<equiv> Clean (PluginInstanceDataDir dataRoot pid sid1 IsolationPerSession @ ''/..'')"
  assumes "TrimSpace sid1 \<noteq> []" and "TrimSpace sid2 \<noteq> []" and "clean_name name" and "IsAbs installDir"
    and "utf8_ValidString (Clean installDir)" and "utf8_ValidString (Clean (Join2 (Clean installDir) ''data'' @ ''/..''))"
    and "utf8_ValidString root" and "utf8_ValidString (Join2 other name)"
  shows "validateFSPatterns caps = None \<and> validateFSRoots cwd caps installDir = None \<and> \<not> RequiresBroadFilesystemAccess (Some caps) \<and>
    ResolvePath cwd (NewFSProxy cwd (Some caps) (PluginInstanceDataDir dataRoot pid sid1 IsolationPerSession)) (Join2 other name) True = Inr (Join2 other name)"
proof -
  let ?d = "PluginInstanceDataDir dataRoot pid sid1 IsolationPerSession" and ?up = "''${pluginData}/..''"
  note d1 = instance_dir [OF assms(4), of dataRoot pid] and d2 = instance_dir [OF assms(5), of dataRoot pid]
  have "validateFSPatterns caps = None" unfolding caps_def by code_simp
  moreover have "\<not> IsBroadFilesystemPattern ?up" by code_simp
  then have "\<not> RequiresBroadFilesystemAccess (Some caps)" by (simp add: caps_def RequiresBroadFilesystemAccess_def BroadFilesystemPatterns_def)
  moreover have "validateFSRoots cwd caps installDir = None"
  proof -
    have "path_segs (Join2 (Clean installDir) ''data'') = path_segs installDir @ [''data'']" by (simp add: Split_no_sep_id)
    from up_root [OF IsAbs_Clean(2) this] have "path_segs (Clean (filepath_Abs cwd (Join2 (Clean installDir) ''data'' @ ''/..''))) = path_segs (Clean installDir) @ []" by simp
    moreover have "filepath_Abs cwd (Join2 (Clean installDir) ''data'' @ ''/..'') = Clean (Join2 (Clean installDir) ''data'' @ ''/..'')"
      by (simp add: filepath_Abs_def IsAbs_def Join2_def Clean_def HasPrefix_def)
    ultimately have "UnderRoot (Clean installDir) (Clean (filepath_Abs cwd (Join2 (Clean installDir) ''data'' @ ''/..'')))"
      using assms(8,9) by (intro UnderRootI [of _ _ "[]"]) simp_all
    moreover have "filepath_Abs cwd installDir = Clean installDir" using assms(7) by (simp add: filepath_Abs_def)
    ultimately show ?thesis by (simp add: validateFSRoots_def caps_def TrimSpace_up replace_up Let_def)
  qed
  moreover have "ResolvePath cwd (NewFSProxy cwd (Some caps) ?d) (Join2 other name) True = Inr (Join2 other name)"
  proof -
    have "IsAbs (?d @ ''/..'')" using d1(1) by (cases ?d) (auto simp: IsAbs_def HasPrefix_def)
    then have roots: "fp_writeRoots (NewFSProxy cwd (Some caps) ?d) = [root]"
      by (simp add: NewFSProxy_def caps_def resolveRoots_def TrimSpace_up replace_up filepath_Abs_def root_def)
    have "path_segs root = path_segs (PluginDataDir dataRoot pid)"
      using path_segs_append [of ?d "''..''"] d1(2) by (simp add: root_def Split_no_sep_id)
    moreover have "path_segs (Join2 other name) = path_segs (PluginDataDir dataRoot pid) @ [sanitizeSessionSegment (TrimSpace sid2), name]"
      using d2(2) assms(6) by (simp add: other_def Split_no_sep_id clean_name_def)
    ultimately have "UnderRoot root (Join2 other name)" using assms(10,11) by (intro UnderRootI) simp_all
    then show ?thesis using roots by (simp add: ResolvePath_def filepath_Abs_def IsAbs_Clean(2))
  qed
  ultimately show ?thesis by blast
qed

theorem session_directories_are_not_separated_witness:
  "ResolvePath ''/w'' (NewFSProxy ''/w'' (Some \<lparr>fc_Read = [''${pluginData}/..''], fc_Write = [''${pluginData}/..'']\<rparr>)
     (PluginInstanceDataDir ''/r'' ''demo'' ''s1'' IsolationPerSession)) ''/r/plugins/demo/data/s2/f'' True = Inr ''/r/plugins/demo/data/s2/f''"
proof -
  have "TrimSpace ''s1'' \<noteq> []" "TrimSpace ''s2'' \<noteq> []" "clean_name ''f''" "IsAbs ''/r/plugins/demo''" by code_simp+
  moreover have "utf8_ValidString (Clean ''/r/plugins/demo'')" by code_simp
  moreover have "utf8_ValidString (Clean (Join2 (Clean ''/r/plugins/demo'') ''data'' @ ''/..''))" by code_simp
  moreover have "utf8_ValidString (Clean (PluginInstanceDataDir ''/r'' ''demo'' ''s1'' IsolationPerSession @ ''/..''))" by code_simp
  moreover have "utf8_ValidString (Join2 (PluginInstanceDataDir ''/r'' ''demo'' ''s2'' IsolationPerSession) ''f'')" by code_simp
  moreover have "Join2 (PluginInstanceDataDir ''/r'' ''demo'' ''s2'' IsolationPerSession) ''f'' = ''/r/plugins/demo/data/s2/f''" by code_simp
  ultimately show ?thesis using session_directories_are_not_separated [of "''s1''" "''s2''" "''f''" "''/r/plugins/demo''" "''/r''" "''demo''" "''/w''"] by simp
qed

end
