(* ===== verification/Plugin_Events.thy ===== *)
theory Plugin_Events
  imports Plugin_Paths Canon
begin

text \<open>
  The event bus between the core and the plugins: the channels a manifest may name (\<open>domain/plugin/event_channel.go\<close> and the event rules of
  \<open>manifest_capabilities.go\<close>), and the bus itself (\<open>usecase/plugin_event_bus.go\<close>, \<open>usecase/plugin_channel_match.go\<close>).

  The bus is a record; each method is one operation, as its mutex makes it. The registry of installed plugins is the function from a plugin's id to its event
  capability. A payload is opaque: \<open>sid\<close> reads the session id out of it, empty when there is none. Times are nanoseconds.
\<close>

section \<open>Trimming\<close>

lemma HasPrefix_iff: "HasPrefix s p \<longleftrightarrow> (\<exists>r. s = p @ r)"
  unfolding HasPrefix_def by (metis append_eq_conv_conj append_take_drop_id)

lemma wide_spaces_prefix_free: "list_all (\<lambda>v. list_all (\<lambda>w. HasPrefix v w \<longrightarrow> v = w) wide_spaces) wide_spaces"
  by code_simp

lemma prefix_wide:
  assumes "HasPrefix s v" "HasPrefix s w" "v \<in> set wide_spaces" "w \<in> set wide_spaces"
  shows "v = w"
proof -
  from assms(1,2) obtain q r where "s = v @ q" "s = w @ r" unfolding HasPrefix_iff by blast
  then have "v @ q = w @ r" by simp
  then have "HasPrefix v w \<or> HasPrefix w v" unfolding HasPrefix_iff append_eq_append_conv2 by blast
  then show ?thesis using wide_spaces_prefix_free assms(3,4) unfolding list_all_iff by blast
qed

lemma space_len_append:
  assumes "space_len u > 0"
  shows "space_len (u @ x) = space_len u"
proof (cases u)
  case Nil
  then show ?thesis using assms by (simp add: space_len_def)
next
  case (Cons c cs)
  show ?thesis
  proof (cases "c \<in> set ascii_spaces")
    case True
    then show ?thesis using Cons by (simp add: space_len_def)
  next
    case False
    then obtain w where w: "find (\<lambda>w. HasPrefix u w) wide_spaces = Some w" using assms Cons by (auto simp: space_len_def split: option.split_asm)
    then have pre: "HasPrefix u w" "w \<in> set wide_spaces" by (auto simp: find_Some_iff)
    then have pre': "HasPrefix (u @ x) w" by (auto simp: HasPrefix_iff)
    have "find (\<lambda>w. HasPrefix (u @ x) w) wide_spaces \<noteq> None" using pre(2) pre' by (auto simp: find_None_iff)
    then obtain v where v: "find (\<lambda>w. HasPrefix (u @ x) w) wide_spaces = Some v" by blast
    then have "v = w" using prefix_wide [of "u @ x" v w] pre' pre(2) by (auto simp: find_Some_iff)
    then show ?thesis using v w False Cons by (simp add: space_len_def)
  qed
qed

lemma trim_left_append: "trim_left u = [] \<Longrightarrow> trim_left (u @ w) = trim_left w"
proof (induction u rule: trim_left.induct)
  case (1 u)
  show ?case
  proof (cases "space_len u = 0")
    case True
    then have "u = []" using 1(2) by (simp add: trim_left.simps [of u])
    then show ?thesis by simp
  next
    case False
    then have "trim_left (drop (space_len u) u) = []" using 1(2) by (simp add: trim_left.simps [of u])
    with 1(1) [OF False] have "trim_left (drop (space_len u) u @ w) = trim_left w" by blast
    then show ?thesis using False space_len_append [of u w] space_len_le [of u] by (simp add: trim_left.simps [of "u @ w"])
  qed
qed

lemma trim_left_stop: "space_len (trim_left s) = 0"
  by (induction s rule: trim_left.induct) (simp add: trim_left.simps)

lemma trim_left_still [simp]: "trim_left (trim_left s) = trim_left s"
  using trim_left_stop by (simp add: trim_left.simps [of "trim_left s"])

lemma trim_right_rest: "\<exists>w. s = trim_right s @ w \<and> trim_left w = []"
proof (induction s)
  case Nil
  then show ?case by (simp add: trim_left.simps space_len_def)
next
  case (Cons c cs)
  then obtain w where "cs = trim_right cs @ w" "trim_left w = []" by blast
  then show ?case by (cases "trim_left (c # cs) = []") auto
qed

lemma trim_right_blank: "trim_left (trim_right s) = [] \<longleftrightarrow> trim_left s = []"
proof
  assume blank: "trim_left (trim_right s) = []"
  obtain w where w: "s = trim_right s @ w" "trim_left w = []" using trim_right_rest by blast
  have "trim_left (trim_right s @ w) = []" using trim_left_append [OF blank] w(2) by simp
  then show "trim_left s = []" unfolding w(1) [symmetric] .
next
  assume "trim_left s = []"
  then have "trim_right s = []" by (cases s) simp_all
  then show "trim_left (trim_right s) = []" by (simp add: trim_left.simps [of "[]"] space_len_def)
qed

lemma trim_right_still [simp]: "trim_right (trim_right s) = trim_right s"
proof (induction s)
  case (Cons c cs)
  have "trim_left (c # trim_right cs) \<noteq> []" if "trim_left (c # cs) \<noteq> []"
    using that trim_right_blank [of "c # cs"] by simp
  then show ?case using Cons by simp
qed simp

lemma TrimSpace_TrimSpace [simp]: "TrimSpace (TrimSpace s) = TrimSpace s"
proof -
  let ?t = "trim_left s"
  obtain w where w: "?t = trim_right ?t @ w" using trim_right_rest by blast
  have "space_len (trim_right ?t) = 0"
  proof (rule ccontr)
    assume "space_len (trim_right ?t) \<noteq> 0"
    then have "space_len ?t \<noteq> 0" using space_len_append [of "trim_right ?t" w] w by simp
    then show False using trim_left_stop by simp
  qed
  then have "trim_left (trim_right ?t) = trim_right ?t" by (simp add: trim_left.simps [of "trim_right ?t"])
  then show ?thesis by (simp add: TrimSpace_def)
qed

section \<open>Channels\<close>

definition TrimSuffix :: "string \<Rightarrow> string \<Rightarrow> string" where
  "TrimSuffix s p = (if HasSuffix s p then take (length s - length p) s else s)"

record EventCaps =
  ec_Subscribe :: "string list"
  ec_Publish :: "string list"

definition ownsPluginNamespace :: "string \<Rightarrow> string \<Rightarrow> bool" where
  "ownsPluginNamespace pluginID channel =
    (let pluginID = TrimSpace pluginID; channel = TrimSpace channel in
     if pluginID = [] \<or> channel = [] then False
     else if \<not> HasPrefix channel ''plugin.'' then True
     else if HasSuffix channel ''*'' then
       (let prefix = TrimSuffix channel ''*'' in prefix = ''plugin.'' @ pluginID \<or> HasPrefix prefix (''plugin.'' @ pluginID @ ''.''))
     else if channel = ''plugin.'' @ pluginID then True
     else HasPrefix channel (''plugin.'' @ pluginID @ ''.''))"

definition MayPublishToEventChannel :: "string \<Rightarrow> string \<Rightarrow> bool" where
  "MayPublishToEventChannel pluginID channel =
    (let channel = TrimSpace channel in
     if channel = [] \<or> HasPrefix channel ''core.'' then False
     else if \<not> HasPrefix channel ''plugin.'' then False
     else ownsPluginNamespace pluginID channel)"

definition OwnsPluginEventChannel :: "string \<Rightarrow> string \<Rightarrow> bool" where
  "OwnsPluginEventChannel pluginID channel = ownsPluginNamespace pluginID channel"

definition ValidatePluginEventPattern :: "string \<Rightarrow> string \<Rightarrow> plugin_error option" where
  "ValidatePluginEventPattern pluginID pattern =
    (let pattern = TrimSpace pattern in
     if pattern = [] then Some ErrInvalidManifest
     else if \<not> HasPrefix pattern ''plugin.'' then None
     else if HasSuffix pattern ''*'' then
       (let prefix = TrimSuffix pattern ''*'' in
        if prefix = ''plugin.'' @ pluginID \<or> HasPrefix prefix (''plugin.'' @ pluginID @ ''.'') then None else Some ErrInvalidManifest)
     else if \<not> OwnsPluginEventChannel pluginID pattern then Some ErrInvalidManifest
     else None)"

definition allowedCoreEventChannels :: "string list" where
  "allowedCoreEventChannels = [''core.session.opened'', ''core.session.closed'', ''core.session.stateChanged'']"

definition validateSubscribeChannel :: "string \<Rightarrow> string \<Rightarrow> plugin_error option" where
  "validateSubscribeChannel pluginID channel =
    (let channel = TrimSpace channel in
     if channel = [] \<or> channel = ''*'' \<or> channel = ''core.*'' then Some ErrInvalidManifest
     else if HasSuffix channel ''*'' \<and> TrimSuffix channel ''*'' = ''core.'' then Some ErrInvalidManifest
     else if HasPrefix channel ''core.'' \<and> channel \<notin> set allowedCoreEventChannels then
       (if \<not> HasSuffix channel ''.*'' then Some ErrInvalidManifest
        else if channel = ''core.session.*'' then None
        else Some ErrInvalidManifest)
     else ValidatePluginEventPattern pluginID channel)"

definition validatePublishChannel :: "string \<Rightarrow> string \<Rightarrow> plugin_error option" where
  "validatePublishChannel pluginID channel =
    (let channel = TrimSpace channel in
     if channel = [] \<or> channel = ''*'' then Some ErrInvalidManifest
     else if HasPrefix channel ''core.'' then Some ErrInvalidManifest
     else if \<not> HasPrefix channel ''plugin.'' then Some ErrInvalidManifest
     else ValidatePluginEventPattern pluginID channel)"

text \<open>The event rules of \<open>ValidateCapabilities\<close>: the first channel that is refused decides.\<close>

definition first_error :: "('a \<Rightarrow> plugin_error option) \<Rightarrow> 'a list \<Rightarrow> plugin_error option" where
  "first_error check xs = (case find (\<lambda>x. check x \<noteq> None) xs of None \<Rightarrow> None | Some x \<Rightarrow> check x)"

definition validateEventCaps :: "string \<Rightarrow> EventCaps \<Rightarrow> plugin_error option" where
  "validateEventCaps pluginID c =
    (case first_error (validateSubscribeChannel pluginID) (ec_Subscribe c) of
       Some err \<Rightarrow> Some err
     | None \<Rightarrow> first_error (validatePublishChannel pluginID) (ec_Publish c))"

definition channelMatches :: "string \<Rightarrow> string \<Rightarrow> bool" where
  "channelMatches pattern channel =
    (let pattern = TrimSpace pattern in
     if pattern = [] then False
     else if HasSuffix pattern ''*'' then HasPrefix channel (TrimSuffix pattern ''*'')
     else pattern = channel)"

definition channelAllowed :: "string list \<Rightarrow> string \<Rightarrow> bool" where
  "channelAllowed allowed channel = list_ex (\<lambda>p. channelMatches p channel) allowed"

section \<open>The bus\<close>

definition defaultPublishRateLimit :: int where "defaultPublishRateLimit = 100"

definition time_Second :: int where "time_Second = 1000000000"

record PluginEventBus =
  eb_subscriptions :: "(string, string go_set) go_map"
  eb_publishCount :: "(string, int) go_map"
  eb_publishWindow :: int
  eb_sessionActive :: "(string \<Rightarrow> bool) option"
  eb_sessionOwner :: "(string \<Rightarrow> string \<Rightarrow> bool) option"

type_synonym plugin_registry = "string \<Rightarrow> EventCaps option option"

definition NewPluginEventBus :: "int \<Rightarrow> PluginEventBus" where
  "NewPluginEventBus now = \<lparr>eb_subscriptions = fmempty, eb_publishCount = fmempty, eb_publishWindow = now, eb_sessionActive = None, eb_sessionOwner = None\<rparr>"

definition bus_Subscribe :: "plugin_registry \<Rightarrow> string \<Rightarrow> string \<Rightarrow> PluginEventBus \<Rightarrow> PluginEventBus \<times> unit plugin_result" where
  "bus_Subscribe registry pluginID channel b =
    (let channel = TrimSpace channel in
     if channel = [] then (b, Inl ErrRPC)
     else (case registry pluginID of
         None \<Rightarrow> (b, Inl ErrPluginNotFound)
       | Some None \<Rightarrow> (b, Inl ErrCapabilityDenied)
       | Some (Some caps) \<Rightarrow>
           if \<not> channelAllowed (ec_Subscribe caps) channel then (b, Inl ErrCapabilityDenied)
           else if \<not> OwnsPluginEventChannel pluginID channel then (b, Inl ErrCapabilityDenied)
           else
            (let channels = (case fmlookup (eb_subscriptions b) pluginID of None \<Rightarrow> {||} | Some cs \<Rightarrow> cs) in
             (b\<lparr>eb_subscriptions := fmupd pluginID (finsert channel channels) (eb_subscriptions b)\<rparr>, Inr ()))))"

definition allowPublish :: "int \<Rightarrow> string \<Rightarrow> PluginEventBus \<Rightarrow> PluginEventBus \<times> bool" where
  "allowPublish now pluginID b =
    (let b = (if now - eb_publishWindow b \<ge> time_Second then b\<lparr>eb_publishWindow := now, eb_publishCount := fmempty\<rparr> else b);
         n = (case fmlookup (eb_publishCount b) pluginID of None \<Rightarrow> 0 | Some n \<Rightarrow> n) + 1
     in (b\<lparr>eb_publishCount := fmupd pluginID n (eb_publishCount b)\<rparr>, n \<le> defaultPublishRateLimit))"

definition subscribersFor :: "('p \<Rightarrow> string) \<Rightarrow> PluginEventBus \<Rightarrow> string \<Rightarrow> 'p \<Rightarrow> string go_set" where
  "subscribersFor sid b channel payload =
    (let requireActiveSession = HasPrefix channel ''core.session.''; sessionID = sid payload in
     ffilter (\<lambda>pluginID.
       \<not> (requireActiveSession \<and>
          (sessionID = [] \<or>
           (case eb_sessionActive b of None \<Rightarrow> False | Some f \<Rightarrow> \<not> f pluginID) \<or>
           (case eb_sessionOwner b of None \<Rightarrow> False | Some f \<Rightarrow> \<not> f pluginID sessionID))) \<and>
       (case fmlookup (eb_subscriptions b) pluginID of None \<Rightarrow> False | Some channels \<Rightarrow> fBex channels (\<lambda>sub. channelMatches sub channel)))
     (fmdom (eb_subscriptions b)))"

text \<open>A delivery: for each subscriber the session its process is found under.\<close>

definition deliver :: "('p \<Rightarrow> string) \<Rightarrow> PluginEventBus \<Rightarrow> string \<Rightarrow> 'p \<Rightarrow> (string \<times> string) go_set" where
  "deliver sid b channel payload =
    (\<lambda>pluginID. (pluginID, if HasPrefix channel ''core.session.'' then sid payload else [])) |`| subscribersFor sid b channel payload"

definition PublishFromPlugin :: "plugin_registry \<Rightarrow> ('p \<Rightarrow> string) \<Rightarrow> int \<Rightarrow> string \<Rightarrow> string \<Rightarrow> 'p \<Rightarrow> PluginEventBus \<Rightarrow>
    PluginEventBus \<times> (string \<times> string) go_set plugin_result" where
  "PublishFromPlugin registry sid now pluginID channel payload b =
    (let channel = TrimSpace channel in
     if channel = [] then (b, Inl ErrRPC)
     else (case registry pluginID of
         None \<Rightarrow> (b, Inl ErrPluginNotFound)
       | Some None \<Rightarrow> (b, Inl ErrCapabilityDenied)
       | Some (Some caps) \<Rightarrow>
           if \<not> channelAllowed (ec_Publish caps) channel then (b, Inl ErrCapabilityDenied)
           else if \<not> MayPublishToEventChannel pluginID channel then (b, Inl ErrCapabilityDenied)
           else (case allowPublish now pluginID b of
               (b, False) \<Rightarrow> (b, Inl ErrRateLimited)
             | (b, True) \<Rightarrow> (b, Inr (deliver sid b channel payload)))))"

definition PublishCore :: "('p \<Rightarrow> string) \<Rightarrow> string \<Rightarrow> 'p \<Rightarrow> PluginEventBus \<Rightarrow> (string \<times> string) go_set" where
  "PublishCore sid channel payload b = deliver sid b channel payload"

definition SetSessionActiveChecker :: "(string \<Rightarrow> bool) \<Rightarrow> PluginEventBus \<Rightarrow> PluginEventBus" where
  "SetSessionActiveChecker f b = b\<lparr>eb_sessionActive := Some f\<rparr>"

definition SetSessionOwnershipChecker :: "(string \<Rightarrow> string \<Rightarrow> bool) \<Rightarrow> PluginEventBus \<Rightarrow> PluginEventBus" where
  "SetSessionOwnershipChecker f b = b\<lparr>eb_sessionOwner := Some f\<rparr>"

definition ClearPlugin :: "string \<Rightarrow> PluginEventBus \<Rightarrow> PluginEventBus" where
  "ClearPlugin pluginID b = b\<lparr>eb_subscriptions := fmdrop pluginID (eb_subscriptions b), eb_publishCount := fmdrop pluginID (eb_publishCount b)\<rparr>"

section \<open>Names\<close>

lemma HasSuffix_star: "HasSuffix s ''*'' \<longleftrightarrow> (\<exists>r. s = r @ ''*'')"
  unfolding HasSuffix_def by (cases s rule: rev_cases) auto

lemma TrimSuffix_star [simp]: "TrimSuffix (r @ ''*'') ''*'' = r"
  by (simp add: TrimSuffix_def HasSuffix_def)

text \<open>A name in the namespace of a plugin: the plugin's own name, or one below it; a star may end it.\<close>

definition in_namespace :: "string \<Rightarrow> string \<Rightarrow> bool" where
  "in_namespace pluginID channel \<longleftrightarrow>
    (\<exists>rest. channel = ''plugin.'' @ pluginID @ rest \<and> (rest = [] \<or> rest = ''*'' \<or> hd rest = CHR ''.''))"

lemma owns_in_namespace:
  assumes "ownsPluginNamespace pluginID channel" and "HasPrefix (TrimSpace channel) ''plugin.''"
  shows "in_namespace (TrimSpace pluginID) (TrimSpace channel)"
proof (cases "HasSuffix (TrimSpace channel) ''*''")
  case True
  then obtain r where r: "TrimSpace channel = r @ ''*''" unfolding HasSuffix_star by blast
  from assms True consider "r = ''plugin.'' @ TrimSpace pluginID" | "HasPrefix r (''plugin.'' @ TrimSpace pluginID @ ''.'')"
    by (auto simp: ownsPluginNamespace_def Let_def r split: if_split_asm)
  then show ?thesis
  proof cases
    case 1
    then show ?thesis unfolding in_namespace_def r by (intro exI [of _ "''*''"]) simp
  next
    case 2
    then obtain u where "r = ''plugin.'' @ TrimSpace pluginID @ ''.'' @ u" by (auto simp: HasPrefix_iff)
    then show ?thesis unfolding in_namespace_def r by (intro exI [of _ "''.'' @ u @ ''*''"]) simp
  qed
next
  case False
  with assms consider "TrimSpace channel = ''plugin.'' @ TrimSpace pluginID" | "HasPrefix (TrimSpace channel) (''plugin.'' @ TrimSpace pluginID @ ''.'')"
    by (auto simp: ownsPluginNamespace_def Let_def split: if_split_asm)
  then show ?thesis
  proof cases
    case 1
    then show ?thesis unfolding in_namespace_def by (intro exI [of _ "[]"]) simp
  next
    case 2
    then obtain u where "TrimSpace channel = ''plugin.'' @ TrimSpace pluginID @ ''.'' @ u" by (auto simp: HasPrefix_iff)
    then show ?thesis unfolding in_namespace_def by (intro exI [of _ "''.'' @ u"]) simp
  qed
qed

lemma PublishFromPlugin_Inr:
  assumes "PublishFromPlugin registry sid now pluginID channel payload b = (b', Inr targets)"
  obtains caps where "registry pluginID = Some (Some caps)" "channelAllowed (ec_Publish caps) (TrimSpace channel)"
    "MayPublishToEventChannel pluginID (TrimSpace channel)" "allowPublish now pluginID b = (b', True)" "targets = deliver sid b' (TrimSpace channel) payload"
  using assms unfolding PublishFromPlugin_def Let_def
  by (auto split: if_split_asm option.split_asm prod.split_asm bool.split_asm)

lemma MayPublish_namespace:
  assumes "MayPublishToEventChannel pluginID channel"
  shows "in_namespace (TrimSpace pluginID) (TrimSpace channel)"
proof -
  have "ownsPluginNamespace pluginID (TrimSpace channel)" "HasPrefix (TrimSpace channel) ''plugin.''"
    using assms by (auto simp: MayPublishToEventChannel_def Let_def split: if_split_asm)
  then show ?thesis using owns_in_namespace [of pluginID "TrimSpace channel"] by simp
qed

section \<open>Who hears what\<close>

lemma deliver_iff:
  "(pluginID, scope) |\<in>| deliver sid b channel payload \<longleftrightarrow>
    (\<exists>channels sub. fmlookup (eb_subscriptions b) pluginID = Some channels \<and> sub |\<in>| channels \<and> channelMatches sub channel) \<and>
    (if HasPrefix channel ''core.session.'' then
       scope = sid payload \<and> scope \<noteq> [] \<and>
       (case eb_sessionActive b of None \<Rightarrow> True | Some f \<Rightarrow> f pluginID) \<and>
       (case eb_sessionOwner b of None \<Rightarrow> True | Some f \<Rightarrow> f pluginID scope)
     else scope = [])"
proof -
  have pair: "(q, t) |\<in>| (\<lambda>x. (x, c)) |`| A \<longleftrightarrow> t = c \<and> q |\<in>| A" for q t c :: string and A by auto
  show ?thesis
    unfolding deliver_def pair subscribersFor_def Let_def
    by (cases "HasPrefix channel ''core.session.''") (auto simp: fmdom_notI fmdomI split: option.split option.split_asm)
qed

lemma channel_below:
  assumes "in_namespace pluginID channel"
  shows "channelMatches ''plugin*'' channel"
proof -
  have "TrimSpace ''plugin*'' = ''plugin*''" by code_simp
  then show ?thesis using assms by (auto simp: channelMatches_def in_namespace_def HasSuffix_def HasPrefix_def TrimSuffix_def)
qed

lemma events_of:
  assumes "PublishFromPlugin registry sid now pluginID channel payload b = (b', Inr targets)"
  shows "in_namespace (TrimSpace pluginID) (TrimSpace channel)"
    and "\<not> HasPrefix (TrimSpace channel) ''core.''"
    and "\<exists>caps. registry pluginID = Some (Some caps) \<and> channelAllowed (ec_Publish caps) (TrimSpace channel)"
    and "(q, scope) |\<in>| targets \<longleftrightarrow> scope = [] \<and>
      (\<exists>channels sub. fmlookup (eb_subscriptions b) q = Some channels \<and> sub |\<in>| channels \<and> channelMatches sub (TrimSpace channel))"
proof -
  obtain caps where pub: "registry pluginID = Some (Some caps)" "channelAllowed (ec_Publish caps) (TrimSpace channel)"
    and may: "MayPublishToEventChannel pluginID (TrimSpace channel)"
    and rate: "allowPublish now pluginID b = (b', True)" and targets: "targets = deliver sid b' (TrimSpace channel) payload"
    using PublishFromPlugin_Inr [OF assms] by blast
  show "in_namespace (TrimSpace pluginID) (TrimSpace channel)" using MayPublish_namespace [OF may] by simp
  from may show core: "\<not> HasPrefix (TrimSpace channel) ''core.''" by (auto simp: MayPublishToEventChannel_def Let_def split: if_split_asm)
  then have "\<not> HasPrefix (TrimSpace channel) ''core.session.''" by (auto simp: HasPrefix_iff)
  moreover have "eb_subscriptions b' = eb_subscriptions b" using rate by (auto simp: allowPublish_def Let_def split: if_split_asm)
  ultimately show "(q, scope) |\<in>| targets \<longleftrightarrow> scope = [] \<and>
      (\<exists>channels sub. fmlookup (eb_subscriptions b) q = Some channels \<and> sub |\<in>| channels \<and> channelMatches sub (TrimSpace channel))"
    unfolding targets deliver_iff by auto
  show "\<exists>caps. registry pluginID = Some (Some caps) \<and> channelAllowed (ec_Publish caps) (TrimSpace channel)" using pub by blast
qed

text \<open>What a plugin publishes goes out under its own name only: an accepted event is on a channel that is the plugin's own name in the \<open>plugin.\<close>
  namespace or continues it with a dot, never on a core channel, and the plugin's manifest declares a pattern for it. It reaches exactly the
  plugins that subscribed to a pattern that matches the channel.\<close>

theorem events_carry_their_publisher:
  assumes "PublishFromPlugin registry sid now pluginID channel payload b = (b', Inr targets)"
  shows "in_namespace (TrimSpace pluginID) (TrimSpace channel) \<and> \<not> HasPrefix (TrimSpace channel) ''core.'' \<and>
    (\<exists>caps. registry pluginID = Some (Some caps) \<and> channelAllowed (ec_Publish caps) (TrimSpace channel)) \<and>
    (\<forall>q scope. (q, scope) |\<in>| targets \<longleftrightarrow> scope = [] \<and>
      (\<exists>channels sub. fmlookup (eb_subscriptions b) q = Some channels \<and> sub |\<in>| channels \<and> channelMatches sub (TrimSpace channel)))"
  using events_of [OF assms] by blast

text \<open>The state of a session is told only to its owner: when the ownership check is installed, a core event of the \<open>core.session.\<close> family reaches a
  plugin only under a session id that is not empty and that the plugin owns.\<close>

theorem session_events_reach_the_owner:
  assumes "eb_sessionOwner b = Some owns" and "HasPrefix channel ''core.session.''" and "(pluginID, scope) |\<in>| PublishCore sid channel payload b"
  shows "scope = sid payload \<and> scope \<noteq> [] \<and> owns pluginID scope"
  using assms unfolding PublishCore_def deliver_iff by auto

text \<open>C33. The rules for subscriptions do not confine a plugin to its own namespace: they look at patterns that start with \<open>core.\<close> or \<open>plugin.\<close>, and a
  pattern that breaks off before the dot is neither. The manifest that subscribes to \<open>plugin*\<close> is valid, the bus accepts the
  subscription, and the plugin hears every event every other plugin publishes.\<close>

theorem a_broken_off_pattern_hears_every_plugin:
  assumes "TrimSpace spy \<noteq> []" and "registry spy = Some (Some \<lparr>ec_Subscribe = [''plugin*''], ec_Publish = []\<rparr>)"
    and "bus_Subscribe registry spy ''plugin*'' b = (b1, r)"
    and "PublishFromPlugin registry sid now other channel payload b1 = (b2, Inr targets)"
  shows "validateEventCaps spy \<lparr>ec_Subscribe = [''plugin*''], ec_Publish = []\<rparr> = None \<and> r = Inr () \<and> (spy, []) |\<in>| targets"
proof -
  have trim: "TrimSpace ''plugin*'' = ''plugin*''" by code_simp
  have valid: "validateSubscribeChannel spy ''plugin*'' = None"
    by (simp add: validateSubscribeChannel_def ValidatePluginEventPattern_def trim HasPrefix_def HasSuffix_def TrimSuffix_def)
  have "channelAllowed [''plugin*''] ''plugin*''"
    by (simp add: channelAllowed_def channelMatches_def trim HasSuffix_def HasPrefix_def TrimSuffix_def)
  moreover have "OwnsPluginEventChannel spy ''plugin*''"
    using assms(1) by (simp add: OwnsPluginEventChannel_def ownsPluginNamespace_def trim HasPrefix_def Let_def)
  ultimately have r: "r = Inr ()" and sub: "\<exists>channels. fmlookup (eb_subscriptions b1) spy = Some channels \<and> ''plugin*'' |\<in>| channels"
    using assms(2,3) by (auto simp: bus_Subscribe_def trim Let_def)
  have "(spy, []) |\<in>| targets"
    unfolding events_of(4) [OF assms(4)] using sub channel_below [OF events_of(1) [OF assms(4)]] by blast
  then show ?thesis using r valid by (simp add: validateEventCaps_def first_error_def)
qed

section \<open>How much a plugin publishes\<close>

text \<open>Calls of \<open>events.publish\<close> in the order the bus takes them: the time, the plugin, the channel and the payload of each. \<open>publishes\<close> counts those of one plugin
  that are accepted.\<close>

fun publishes :: "plugin_registry \<Rightarrow> ('p \<Rightarrow> string) \<Rightarrow> string \<Rightarrow> PluginEventBus \<Rightarrow> (int \<times> string \<times> string \<times> 'p) list \<Rightarrow> nat" where
  "publishes registry sid q b [] = 0"
| "publishes registry sid q b ((now, pluginID, channel, payload) # calls) =
    (case PublishFromPlugin registry sid now pluginID channel payload b of
       (b', Inl _) \<Rightarrow> publishes registry sid q b' calls
     | (b', Inr _) \<Rightarrow> (if pluginID = q then 1 else 0) + publishes registry sid q b' calls)"

definition published :: "string \<Rightarrow> PluginEventBus \<Rightarrow> int" where
  "published q b = (case fmlookup (eb_publishCount b) q of None \<Rightarrow> 0 | Some n \<Rightarrow> n)"

lemma published_clear [simp]: "published q (b\<lparr>eb_publishWindow := w, eb_publishCount := fmempty\<rparr>) = 0"
  by (simp add: published_def)

lemma allowPublish_quiet:
  assumes "now - eb_publishWindow b < time_Second"
  shows "eb_publishWindow (fst (allowPublish now pluginID b)) = eb_publishWindow b"
    and "published q (fst (allowPublish now pluginID b)) = published q b + (if pluginID = q then 1 else 0)"
    and "snd (allowPublish now pluginID b) \<longleftrightarrow> published pluginID b < 100"
  using assms by (auto simp: allowPublish_def Let_def published_def defaultPublishRateLimit_def split: option.split)

lemma allowPublish_reset:
  assumes "now - eb_publishWindow b \<ge> time_Second"
  shows "allowPublish now pluginID b = allowPublish now pluginID (b\<lparr>eb_publishWindow := now, eb_publishCount := fmempty\<rparr>)"
  using assms by (simp add: allowPublish_def time_Second_def)


text \<open>The checks before the rate limit do not depend on the bus.\<close>

definition may_publish :: "plugin_registry \<Rightarrow> string \<Rightarrow> string \<Rightarrow> bool" where
  "may_publish registry pluginID channel \<longleftrightarrow> TrimSpace channel \<noteq> [] \<and>
    (\<exists>caps. registry pluginID = Some (Some caps) \<and> channelAllowed (ec_Publish caps) (TrimSpace channel) \<and> MayPublishToEventChannel pluginID (TrimSpace channel))"

lemma publish_refused:
  assumes "\<not> may_publish registry pluginID channel"
  shows "\<exists>err. PublishFromPlugin registry sid now pluginID channel payload b = (b, Inl err)"
  using assms unfolding may_publish_def PublishFromPlugin_def Let_def by (auto split: option.split)

lemma publish_counted:
  assumes "may_publish registry pluginID channel"
  shows "PublishFromPlugin registry sid now pluginID channel payload b =
      (fst (allowPublish now pluginID b),
       if snd (allowPublish now pluginID b) then Inr (deliver sid (fst (allowPublish now pluginID b)) (TrimSpace channel) payload) else Inl ErrRateLimited)"
proof -
  obtain b' ok where "allowPublish now pluginID b = (b', ok)" by (cases "allowPublish now pluginID b")
  then show ?thesis using assms by (cases ok) (auto simp: may_publish_def PublishFromPlugin_def Let_def)
qed

lemma publishes_Cons:
  "publishes registry sid q b ((now, pid, ch, pl) # calls) =
    (if may_publish registry pid ch
     then (if snd (allowPublish now pid b) \<and> pid = q then 1 else 0) + publishes registry sid q (fst (allowPublish now pid b)) calls
     else publishes registry sid q b calls)"
proof (cases "may_publish registry pid ch")
  case True
  then show ?thesis by (cases "pid = q") (auto simp: publish_counted)
next
  case False
  then obtain err where "PublishFromPlugin registry sid now pid ch pl b = (b, Inl err)" using publish_refused [OF False, of sid now pl b] by (elim exE)
  then show ?thesis using False by simp
qed

declare publishes.simps(2) [simp del]

lemma publishes_window:
  assumes "\<forall>call \<in> set calls. fst call - eb_publishWindow b < time_Second"
  shows "int (publishes registry sid q b calls) \<le> max 0 (100 - published q b)"
  using assms
proof (induction calls arbitrary: b)
  case (Cons call calls)
  obtain now pid ch pl where call: "call = (now, pid, ch, pl)" by (cases call)
  have quiet: "now - eb_publishWindow b < time_Second" using Cons.prems call by simp
  let ?b = "fst (allowPublish now pid b)"
  have "int (publishes registry sid q ?b calls) \<le> max 0 (100 - published q ?b)"
    using Cons by (simp add: allowPublish_quiet(1) [OF quiet])
  moreover have "int (publishes registry sid q b calls) \<le> max 0 (100 - published q b)" using Cons by simp
  ultimately show ?case
    using allowPublish_quiet(2) [OF quiet, of q pid] allowPublish_quiet(3) [OF quiet, of pid]
    by (cases "pid = q"; cases "snd (allowPublish now pid b)") (auto simp: call publishes_Cons)
qed simp

lemma publishes_second:
  assumes "sorted (map fst calls)" and "\<forall>call \<in> set calls. t0 \<le> fst call \<and> fst call < t0 + time_Second"
  shows "int (publishes registry sid q b calls) \<le> max 0 (100 - published q b) + 100"
  using assms
proof (induction calls arbitrary: b)
  case (Cons call calls)
  obtain now pid ch pl where call: "call = (now, pid, ch, pl)" by (cases call)
  have IH: "int (publishes registry sid q c calls) \<le> max 0 (100 - published q c) + 100" for c using Cons by simp
  show ?case
  proof (cases "now - eb_publishWindow b < time_Second")
    case True
    then show ?thesis
      using IH [of b] IH [of "fst (allowPublish now pid b)"] allowPublish_quiet(2) [OF True, of q pid] allowPublish_quiet(3) [OF True, of pid]
      by (cases "pid = q"; cases "snd (allowPublish now pid b)") (auto simp: call publishes_Cons)
  next
    case False
    let ?r = "b\<lparr>eb_publishWindow := now, eb_publishCount := fmempty\<rparr>"
    have "int (publishes registry sid q ?r (call # calls)) \<le> max 0 (100 - published q ?r)"
      using Cons.prems by (intro publishes_window) (auto simp: call)
    moreover have "allowPublish now pid ?r = allowPublish now pid b" using False allowPublish_reset [where b = b and now = now and pluginID = pid] by simp
    ultimately show ?thesis using IH [of b] by (cases "may_publish registry pid ch") (auto simp: call publishes_Cons)
  qed
qed simp


section \<open>Two plugins on a bus\<close>

definition ev_registry :: plugin_registry where
  "ev_registry = (\<lambda>i. if i = ''spy'' then Some (Some \<lparr>ec_Subscribe = [''plugin*''], ec_Publish = []\<rparr>)
    else if i = ''bank'' then Some (Some \<lparr>ec_Subscribe = [], ec_Publish = [''plugin.bank.*'']\<rparr>) else None)"

definition ev_bus :: PluginEventBus where
  "ev_bus = fst (bus_Subscribe ev_registry ''spy'' ''plugin*'' (NewPluginEventBus 0))"

lemma ev_trim: "TrimSpace ''plugin.bank.paid'' = ''plugin.bank.paid''" "TrimSpace ''bank'' = ''bank''" "TrimSpace ''spy'' = ''spy''"
    "TrimSpace ''plugin.bank.*'' = ''plugin.bank.*''" "TrimSpace ''plugin*'' = ''plugin*''"
  by code_simp+

lemma ev_may: "may_publish ev_registry ''bank'' ''plugin.bank.paid''"
  by (simp add: may_publish_def ev_registry_def ev_trim channelAllowed_def channelMatches_def MayPublishToEventChannel_def ownsPluginNamespace_def
      HasSuffix_def HasPrefix_def TrimSuffix_def Let_def)

lemma ev_subscribed: "bus_Subscribe ev_registry ''spy'' ''plugin*'' (NewPluginEventBus 0) = (ev_bus, Inr ())"
  "ev_bus = (NewPluginEventBus 0)\<lparr>eb_subscriptions := fmupd ''spy'' {|''plugin*''|} fmempty\<rparr>"
  by (simp_all add: ev_bus_def bus_Subscribe_def ev_registry_def ev_trim channelAllowed_def channelMatches_def OwnsPluginEventChannel_def ownsPluginNamespace_def
      HasSuffix_def HasPrefix_def TrimSuffix_def Let_def NewPluginEventBus_def)

lemma ev_publish:
  "\<exists>b targets. PublishFromPlugin ev_registry (\<lambda>_. []) 5 ''bank'' ''plugin.bank.paid'' () ev_bus = (b, Inr targets)"
  by (simp add: publish_counted [OF ev_may] allowPublish_def ev_subscribed NewPluginEventBus_def time_Second_def defaultPublishRateLimit_def Let_def)

theorem events_carry_their_publisher_witness:
  "\<exists>b targets. PublishFromPlugin ev_registry (\<lambda>_. []) 5 ''bank'' ''plugin.bank.paid'' () ev_bus = (b, Inr targets) \<and>
    in_namespace ''bank'' ''plugin.bank.paid'' \<and> (''spy'', []) |\<in>| targets"
proof -
  obtain b targets where run: "PublishFromPlugin ev_registry (\<lambda>_. []) 5 ''bank'' ''plugin.bank.paid'' () ev_bus = (b, Inr targets)" using ev_publish by blast
  have "channelMatches ''plugin*'' ''plugin.bank.paid''" by (simp add: channelMatches_def ev_trim HasSuffix_def HasPrefix_def TrimSuffix_def)
  then show ?thesis using run events_carry_their_publisher [OF run] by (auto simp: ev_trim ev_subscribed(2) intro!: exI [of _ b])
qed

theorem a_broken_off_pattern_hears_every_plugin_witness:
  "\<exists>b targets. PublishFromPlugin ev_registry (\<lambda>_. []) 5 ''bank'' ''plugin.bank.paid'' () ev_bus = (b, Inr targets) \<and> (''spy'', []) |\<in>| targets"
proof -
  obtain b targets where run: "PublishFromPlugin ev_registry (\<lambda>_. []) 5 ''bank'' ''plugin.bank.paid'' () ev_bus = (b, Inr targets)" using ev_publish by blast
  have "TrimSpace ''spy'' \<noteq> []" "ev_registry ''spy'' = Some (Some \<lparr>ec_Subscribe = [''plugin*''], ec_Publish = []\<rparr>)" by (simp_all add: ev_trim ev_registry_def)
  from a_broken_off_pattern_hears_every_plugin [OF this ev_subscribed(1) run] run show ?thesis by blast
qed

theorem session_events_reach_the_owner_witness:
  "(''spy'', ''s1'') |\<in>| PublishCore (\<lambda>_. ''s1'') ''core.session.opened'' ()
     (SetSessionOwnershipChecker (\<lambda>p s. p = ''spy'' \<and> s = ''s1'') ((NewPluginEventBus 0)\<lparr>eb_subscriptions := fmupd ''spy'' {|''core.session.opened''|} fmempty\<rparr>)) \<and>
   ''s1'' = (\<lambda>_. ''s1'') () \<and> ''s1'' \<noteq> [] \<and> (\<lambda>p s. p = ''spy'' \<and> s = ''s1'') ''spy'' ''s1''"
proof -
  let ?b = "SetSessionOwnershipChecker (\<lambda>p s. p = ''spy'' \<and> s = ''s1'') ((NewPluginEventBus 0)\<lparr>eb_subscriptions := fmupd ''spy'' {|''core.session.opened''|} fmempty\<rparr>)"
  have trim: "TrimSpace ''core.session.opened'' = ''core.session.opened''" by code_simp
  have owner: "eb_sessionOwner ?b = Some (\<lambda>p s. p = ''spy'' \<and> s = ''s1'')" and pre: "HasPrefix ''core.session.opened'' ''core.session.''"
    by (simp_all add: SetSessionOwnershipChecker_def HasPrefix_def)
  have told: "(''spy'', ''s1'') |\<in>| PublishCore (\<lambda>_. ''s1'') ''core.session.opened'' () ?b"
    unfolding PublishCore_def deliver_iff by (simp add: SetSessionOwnershipChecker_def NewPluginEventBus_def channelMatches_def trim HasSuffix_def HasPrefix_def)
  show ?thesis by (rule conjI [OF told session_events_reach_the_owner [OF owner pre told]])
qed


end
