(* ===== verification/Plugin_Channels.thy ===== *)
theory Plugin_Channels
  imports Plugin_Network Canon
begin

text \<open>
  The slots of a plugin process: open channels (\<open>infra/plugin/capability/channel_proxy.go\<close>), tunnels (\<open>tunnel_dial_proxy.go\<close>) and outbound
  connections (\<open>net_proxy.go\<close>). All three reserve a slot, act without the lock, and commit or give the slot back. The critical sections of their
  mutex are functions; a call in progress is a value between them, and a step relation interleaves the calls in every order. What the code outside
  (a purpose backend, the SSH connection, the network) answers is an argument of the step that asks.

  The locale \<open>slot_pool\<close> states what the reservation promises and proves the bound once; the three proxies interpret it.
\<close>

section \<open>Limits\<close>

definition clampDeclaredLimit :: "int \<Rightarrow> int \<Rightarrow> int \<Rightarrow> int" where
  "clampDeclaredLimit declared hostDefault most = (if declared \<le> 0 then hostDefault else if declared > most then most else declared)"

definition DefaultMaxConcurrentChannels :: int where "DefaultMaxConcurrentChannels = 4"
definition MaxAllowedConcurrentChannels :: int where "MaxAllowedConcurrentChannels = 64"
definition DefaultMaxTunnelChannels :: int where "DefaultMaxTunnelChannels = 16"
definition MaxAllowedTunnelChannels :: int where "MaxAllowedTunnelChannels = 64"

definition EffectiveMaxConcurrentChannels :: "int \<Rightarrow> int" where
  "EffectiveMaxConcurrentChannels declared = clampDeclaredLimit declared DefaultMaxConcurrentChannels MaxAllowedConcurrentChannels"

definition EffectiveMaxTunnelChannels :: "int \<Rightarrow> int" where
  "EffectiveMaxTunnelChannels declared = clampDeclaredLimit declared DefaultMaxTunnelChannels MaxAllowedTunnelChannels"

section \<open>Channels\<close>

record 'b channelEntry =
  ce_backend :: 'b
  ce_parentSessionID :: string

record 'b ChannelProxy =
  cp_purposes :: "string go_set"
  cp_max :: int
  cp_opener :: bool \<comment> \<open>whether a data path opener is attached\<close>
  cp_nextID :: u32
  cp_channels :: "(u32, 'b channelEntry) go_map"
  cp_pendingOpens :: int

record ChannelCaps =
  cc_Purposes :: "string list"
  cc_MaxConcurrent :: int

definition NewChannelProxy :: "ChannelCaps option \<Rightarrow> 'b ChannelProxy" where
  "NewChannelProxy caps =
    (let (declaredMax, purposes) = (case caps of None \<Rightarrow> (0, {||}) | Some c \<Rightarrow> (cc_MaxConcurrent c, fset_of_list (map TrimSpace (cc_Purposes c)))) in
     \<lparr>cp_purposes = purposes, cp_max = EffectiveMaxConcurrentChannels declaredMax, cp_opener = False, cp_nextID = 0,
      cp_channels = fmempty, cp_pendingOpens = 0\<rparr>)"

definition AttachDataPathOpener :: "'b ChannelProxy \<Rightarrow> 'b ChannelProxy" where
  "AttachDataPathOpener p = p\<lparr>cp_opener := True\<rparr>"

record channelOpenParams =
  cop_ParentSessionID :: string
  cop_Purpose :: string
  cop_Hint :: string

text \<open>A \<open>channel.open\<close> in progress: between reserving the slot and \<open>Authorize\<close>, between \<open>Authorize\<close> and taking the id, between the id and the end of \<open>Wire\<close>,
  and before the commit. \<open>open_step\<close> takes what the step's call outside returned, \<open>None\<close> for success.\<close>

datatype 'b open_call =
    Reserved channelOpenParams 'b
  | Authorized channelOpenParams 'b
  | Numbered channelOpenParams 'b u32 bool
  | Wired channelOpenParams 'b u32

datatype 'b open_state = Running "'b open_call" | Failed plugin_error | Opened u32

definition open_start :: "'b ChannelProxy \<Rightarrow> channelOpenParams \<Rightarrow> 'b option \<Rightarrow> 'b ChannelProxy \<times> 'b open_state" where
  "open_start p req resolved =
    (let req = req\<lparr>cop_Purpose := TrimSpace (cop_Purpose req), cop_ParentSessionID := TrimSpace (cop_ParentSessionID req)\<rparr> in
     if cop_Purpose req = [] \<or> cop_ParentSessionID req = [] then (p, Failed (PluginError ''invalid channel.open params''))
     else if cop_Purpose req |\<notin>| cp_purposes p then (p, Failed ErrCapabilityDenied)
     else (case resolved of
         None \<Rightarrow> (p, Failed ErrCapabilityDenied)
       | Some backend \<Rightarrow>
           if int (fcard (fmdom (cp_channels p))) + cp_pendingOpens p \<ge> cp_max p then (p, Failed ErrRateLimited)
           else (p\<lparr>cp_pendingOpens := cp_pendingOpens p + 1\<rparr>, Running (Reserved req backend))))"

definition give_back :: "'b ChannelProxy \<Rightarrow> 'b ChannelProxy" where
  "give_back p = p\<lparr>cp_pendingOpens := cp_pendingOpens p - 1\<rparr>"

fun open_step :: "'b ChannelProxy \<Rightarrow> 'b open_call \<Rightarrow> plugin_error option \<Rightarrow> 'b ChannelProxy \<times> 'b open_state" where
  "open_step p (Reserved req b) outcome = (case outcome of Some err \<Rightarrow> (give_back p, Failed err) | None \<Rightarrow> (p, Running (Authorized req b)))"
| "open_step p (Authorized req b) outcome =
    (let i = cp_nextID p + 1 in (p\<lparr>cp_nextID := i\<rparr>, Running (Numbered req b i (cp_opener p))))"
| "open_step p (Numbered req b i opener) outcome =
    (if \<not> opener then (give_back p, Failed ErrCapabilityDenied)
     else (case outcome of Some err \<Rightarrow> (give_back p, Failed err) | None \<Rightarrow> (p, Running (Wired req b i))))"
| "open_step p (Wired req b i) outcome =
    ((give_back p)\<lparr>cp_channels := fmupd i \<lparr>ce_backend = b, ce_parentSessionID = cop_ParentSessionID req\<rparr> (cp_channels p)\<rparr>, Opened i)"

text \<open>\<open>Close\<close> finds the entry, closes it without the lock and then drops it; \<open>CloseAll\<close> and \<open>CloseSession\<close> take their entries out of the map and
  return them to be closed.\<close>

definition requireChannel :: "'b ChannelProxy \<Rightarrow> u32 \<Rightarrow> 'b channelEntry plugin_result" where
  "requireChannel p i = (case fmlookup (cp_channels p) i of None \<Rightarrow> Inl ErrHandleNotFound | Some e \<Rightarrow> Inr e)"

definition drop_channel :: "u32 \<Rightarrow> 'b ChannelProxy \<Rightarrow> 'b ChannelProxy" where
  "drop_channel i p = p\<lparr>cp_channels := fmdrop i (cp_channels p)\<rparr>"

definition ChannelProxy_CloseAll :: "'b ChannelProxy \<Rightarrow> 'b ChannelProxy \<times> 'b channelEntry fset" where
  "ChannelProxy_CloseAll p = (p\<lparr>cp_channels := fmempty, cp_pendingOpens := 0\<rparr>, fmran (cp_channels p))"

definition ChannelProxy_CloseSession :: "string \<Rightarrow> 'b ChannelProxy \<Rightarrow> 'b ChannelProxy \<times> 'b channelEntry fset" where
  "ChannelProxy_CloseSession sessionID p =
    (let owned = fmfilter (\<lambda>i. ce_parentSessionID (the (fmlookup (cp_channels p) i)) = sessionID) (cp_channels p);
         others = fmfilter (\<lambda>i. ce_parentSessionID (the (fmlookup (cp_channels p) i)) \<noteq> sessionID) (cp_channels p)
     in (p\<lparr>cp_channels := others\<rparr>, fmran owned))"

text \<open>A proxy with its calls in progress, the closes between their two sections, and the entries closed so far.\<close>

record 'b channel_sys =
  csy_proxy :: "'b ChannelProxy"
  csy_calls :: "(nat, 'b open_call) go_map"
  csy_closing :: "u32 go_set"
  csy_closed :: "'b channelEntry go_set"

inductive channel_step :: "'b channel_sys \<Rightarrow> 'b channel_sys \<Rightarrow> bool" where
  start: "open_start (csy_proxy S) req resolved = (p, Running c) \<Longrightarrow> k |\<notin>| fmdom (csy_calls S) \<Longrightarrow>
    channel_step S (S\<lparr>csy_proxy := p, csy_calls := fmupd k c (csy_calls S)\<rparr>)"
| advance: "fmlookup (csy_calls S) k = Some c \<Longrightarrow> open_step (csy_proxy S) c outcome = (p, Running c') \<Longrightarrow>
    channel_step S (S\<lparr>csy_proxy := p, csy_calls := fmupd k c' (csy_calls S)\<rparr>)"
| fail: "fmlookup (csy_calls S) k = Some c \<Longrightarrow> open_step (csy_proxy S) c outcome = (p, Failed err) \<Longrightarrow>
    channel_step S (S\<lparr>csy_proxy := p, csy_calls := fmdrop k (csy_calls S)\<rparr>)"
| opened: "fmlookup (csy_calls S) k = Some c \<Longrightarrow> open_step (csy_proxy S) c outcome = (p, Opened i) \<Longrightarrow>
    channel_step S (S\<lparr>csy_proxy := p, csy_calls := fmdrop k (csy_calls S)\<rparr>)"
| close_found: "requireChannel (csy_proxy S) i = Inr e \<Longrightarrow>
    channel_step S (S\<lparr>csy_closing := finsert i (csy_closing S), csy_closed := finsert e (csy_closed S)\<rparr>)"
| close_dropped: "i |\<in>| csy_closing S \<Longrightarrow>
    channel_step S (S\<lparr>csy_proxy := drop_channel i (csy_proxy S), csy_closing := csy_closing S |-| {|i|}\<rparr>)"
| close_session: "ChannelProxy_CloseSession sessionID (csy_proxy S) = (p, owned) \<Longrightarrow>
    channel_step S (S\<lparr>csy_proxy := p, csy_closed := csy_closed S |\<union>| owned\<rparr>)"

inductive channel_teardown :: "'b channel_sys \<Rightarrow> 'b channel_sys \<Rightarrow> bool" where
  close_all: "ChannelProxy_CloseAll (csy_proxy S) = (p, owned) \<Longrightarrow>
    channel_teardown S (S\<lparr>csy_proxy := p, csy_closed := csy_closed S |\<union>| owned\<rparr>)"

definition new_channel_sys :: "ChannelCaps option \<Rightarrow> 'b channel_sys" where
  "new_channel_sys caps = \<lparr>csy_proxy = AttachDataPathOpener (NewChannelProxy caps), csy_calls = fmempty, csy_closing = {||}, csy_closed = {||}\<rparr>"

lemma new_channel_sys_empty [simp]:
  "cp_channels (csy_proxy (new_channel_sys caps)) = fmempty" "cp_nextID (csy_proxy (new_channel_sys caps)) = 0"
  "cp_pendingOpens (csy_proxy (new_channel_sys caps)) = 0" "csy_calls (new_channel_sys caps) = fmempty"
  by (cases caps; simp add: new_channel_sys_def AttachDataPathOpener_def NewChannelProxy_def)+

section \<open>Tunnels\<close>

record TunnelDialProxy =
  tp_max :: int
  tp_tunnels :: "string go_set"
  tp_pendingDials :: int

definition NewTunnelDialProxy :: "int option \<Rightarrow> TunnelDialProxy" where
  "NewTunnelDialProxy caps =
    \<lparr>tp_max = EffectiveMaxTunnelChannels (case caps of None \<Rightarrow> 0 | Some declared \<Rightarrow> declared), tp_tunnels = {||}, tp_pendingDials = 0\<rparr>"

definition tunnel_reserve :: "TunnelDialProxy \<Rightarrow> TunnelDialProxy plugin_result" where
  "tunnel_reserve p =
    (if int (fcard (tp_tunnels p)) + tp_pendingDials p \<ge> tp_max p then Inl ErrRateLimited
     else Inr (p\<lparr>tp_pendingDials := tp_pendingDials p + 1\<rparr>))"

text \<open>The end of a \<open>tunnel.dial\<close>: the tunnel id the dial returned, or none when it failed or returned no usable id.\<close>

definition tunnel_finish :: "string option \<Rightarrow> TunnelDialProxy \<Rightarrow> TunnelDialProxy" where
  "tunnel_finish result p =
    (let p' = p\<lparr>tp_pendingDials := tp_pendingDials p - 1\<rparr> in
     case result of
       None \<Rightarrow> p'
     | Some raw \<Rightarrow> let tunnelID = TrimSpace raw in if tunnelID = [] then p' else p'\<lparr>tp_tunnels := finsert tunnelID (tp_tunnels p)\<rparr>)"

definition requireTunnel :: "TunnelDialProxy \<Rightarrow> string \<Rightarrow> unit plugin_result" where
  "requireTunnel p tunnelID = (if tunnelID |\<notin>| tp_tunnels p then Inl ErrHandleNotFound else Inr ())"

definition takeTunnel :: "string \<Rightarrow> TunnelDialProxy \<Rightarrow> TunnelDialProxy" where
  "takeTunnel tunnelID p = p\<lparr>tp_tunnels := tp_tunnels p |-| {|tunnelID|}\<rparr>"

definition tunnel_Close :: "string \<Rightarrow> plugin_error option \<Rightarrow> TunnelDialProxy \<Rightarrow> TunnelDialProxy \<times> unit plugin_result" where
  "tunnel_Close raw outcome p =
    (let tunnelID = TrimSpace raw in
     if tunnelID = [] then (p, Inl (PluginError ''invalid tunnel.close params''))
     else (case requireTunnel p tunnelID of
         Inl err \<Rightarrow> (p, Inl err)
       | Inr _ \<Rightarrow> (case outcome of Some err \<Rightarrow> (p, Inl err) | None \<Rightarrow> (takeTunnel tunnelID p, Inr ()))))"

definition ReleaseTunnel :: "string \<Rightarrow> TunnelDialProxy \<Rightarrow> TunnelDialProxy" where
  "ReleaseTunnel raw p = (let tunnelID = TrimSpace raw in if tunnelID = [] then p else takeTunnel tunnelID p)"

definition TunnelDialProxy_CloseAll :: "TunnelDialProxy \<Rightarrow> TunnelDialProxy" where
  "TunnelDialProxy_CloseAll p = p\<lparr>tp_tunnels := {||}, tp_pendingDials := 0\<rparr>"

text \<open>A proxy with the number of its dials in progress.\<close>

inductive tunnel_step :: "TunnelDialProxy \<times> nat \<Rightarrow> TunnelDialProxy \<times> nat \<Rightarrow> bool" where
  tunnel_start: "tunnel_reserve p = Inr p' \<Longrightarrow> tunnel_step (p, n) (p', Suc n)"
| tunnel_end: "tunnel_step (p, Suc n) (tunnel_finish result p, n)"
| tunnel_close: "tunnel_step (p, n) (fst (tunnel_Close raw outcome p), n)"
| tunnel_release: "tunnel_step (p, n) (ReleaseTunnel raw p, n)"

section \<open>Connections\<close>

definition dial_reserve :: "NetProxy \<Rightarrow> NetProxy plugin_result" where
  "dial_reserve p =
    (if int (fcard (fmdom (px_handles p))) + px_pendingDials p \<ge> MaxNetConnectionsPerPlugin then Inl ErrRateLimited
     else Inr (p\<lparr>px_pendingDials := px_pendingDials p + 1\<rparr>))"

text \<open>The end of a dial: the handle and the connection, or none when the dial failed or there was no randomness for a handle.\<close>

definition dial_finish :: "(string \<times> net_conn) option \<Rightarrow> NetProxy \<Rightarrow> NetProxy" where
  "dial_finish result p =
    (let p' = p\<lparr>px_pendingDials := px_pendingDials p - 1\<rparr> in
     case result of None \<Rightarrow> p' | Some (handleID, conn) \<Rightarrow> p'\<lparr>px_handles := fmupd handleID conn (px_handles p)\<rparr>)"

text \<open>\<open>newNetHandleID\<close> of 16 random bytes.\<close>

definition newNetHandleID :: "bytes option \<Rightarrow> string option" where
  "newNetHandleID random = map_option hex_encode random"

definition NetProxy_Dial :: "net_env \<Rightarrow> bytes option \<Rightarrow> netDialParams \<Rightarrow> NetProxy \<Rightarrow> NetProxy \<times> string plugin_result" where
  "NetProxy_Dial env random req p =
    (case dial_checks env p req of
       Inl err \<Rightarrow> (p, Inl err)
     | Inr patternHost \<Rightarrow>
         (case dial_reserve p of
            Inl err \<Rightarrow> (p, Inl err)
          | Inr p \<Rightarrow>
              (case dial_attempts env p req patternHost of
                 Inl err \<Rightarrow> (dial_finish None p, Inl err)
               | Inr (_, conn) \<Rightarrow>
                   (case newNetHandleID random of
                      None \<Rightarrow> (dial_finish None p, Inl (PluginError ''rand''))
                    | Some handleID \<Rightarrow> (dial_finish (Some (handleID, conn)) p, Inr handleID)))))"

definition connForHandle :: "NetProxy \<Rightarrow> string \<Rightarrow> net_conn plugin_result" where
  "connForHandle p handleID = (case fmlookup (px_handles p) handleID of None \<Rightarrow> Inl ErrHandleNotFound | Some c \<Rightarrow> Inr c)"

definition takeHandle :: "string \<Rightarrow> NetProxy \<Rightarrow> NetProxy \<times> net_conn plugin_result" where
  "takeHandle handleID p =
    (case fmlookup (px_handles p) handleID of
       None \<Rightarrow> (p, Inl ErrHandleNotFound)
     | Some c \<Rightarrow> (p\<lparr>px_handles := fmdrop handleID (px_handles p)\<rparr>, Inr c))"

definition NetProxy_CloseAll :: "NetProxy \<Rightarrow> NetProxy" where
  "NetProxy_CloseAll p = p\<lparr>px_handles := fmempty\<rparr>"

inductive net_step :: "NetProxy \<times> nat \<Rightarrow> NetProxy \<times> nat \<Rightarrow> bool" where
  dial_start: "dial_checks env p req = Inr patternHost \<Longrightarrow> dial_reserve p = Inr p' \<Longrightarrow> net_step (p, n) (p', Suc n)"
| dial_end: "net_step (p, Suc n) (dial_finish result p, n)"
| net_close: "net_step (p, n) (fst (takeHandle handleID p), n)"
| net_close_all: "net_step (p, n) (NetProxy_CloseAll p, n)"

section \<open>What a reservation promises\<close>

text \<open>Every step takes a slot that is free and counts it as pending, ends a call and turns its pending slot into at most one used slot, or
  uses no more slots than before.\<close>

locale slot_pool =
  fixes used :: "'s \<Rightarrow> nat" and pending_slots :: "'s \<Rightarrow> int" and calls :: "'s \<Rightarrow> nat" and limit :: "'s \<Rightarrow> int" and step :: "'s \<Rightarrow> 's \<Rightarrow> bool"
  assumes limit_fixed: "step s t \<Longrightarrow> limit t = limit s"
    and one_slot: "step s t \<Longrightarrow>
      int (used s) + pending_slots s < limit s \<and> used t = used s \<and> pending_slots t = pending_slots s + 1 \<and> calls t = Suc (calls s) \<or>
      calls s = Suc (calls t) \<and> pending_slots t = pending_slots s - 1 \<and> used t \<le> Suc (used s) \<or>
      calls t = calls s \<and> pending_slots t = pending_slots s \<and> used t \<le> used s"
begin

definition slots_ok :: "'s \<Rightarrow> bool" where
  "slots_ok s \<longleftrightarrow> pending_slots s = int (calls s) \<and> int (used s) + pending_slots s \<le> limit s"

lemma slots_ok_step: "step s t \<Longrightarrow> slots_ok s \<Longrightarrow> slots_ok t"
  using one_slot [of s t] limit_fixed [of s t] by (auto simp: slots_ok_def)

lemma slots_ok_run: "step\<^sup>*\<^sup>* s t \<Longrightarrow> slots_ok s \<Longrightarrow> slots_ok t \<and> limit t = limit s"
  by (induction rule: rtranclp_induct) (auto simp: slots_ok_step limit_fixed)

lemma used_bounded:
  assumes "step\<^sup>*\<^sup>* s t" and "used s = 0" and "pending_slots s = 0" and "calls s = 0" and "0 \<le> limit s"
  shows "int (used t) \<le> limit s"
proof -
  have "slots_ok s" using assms(2-5) by (simp add: slots_ok_def)
  from slots_ok_run [OF assms(1) this] show ?thesis by (simp add: slots_ok_def)
qed

end

lemma fcard_fmdrop_le: "fcard (fmdom (fmdrop i m)) \<le> fcard (fmdom m)"
  by (rule fcard_mono) auto

lemma fcard_fmupd_le: "fcard (fmdom (fmupd i x m)) \<le> Suc (fcard (fmdom m))"
  by (simp add: fcard_finsert_if)

lemma fcard_fmdrop_in: "i |\<in>| fmdom m \<Longrightarrow> fcard (fmdom m) = Suc (fcard (fmdom (fmdrop i m)))"
  by (metis fcard_Suc_fminus1 fmdom_drop)

lemma open_start_Running:
  assumes "open_start p req resolved = (p', Running c)"
  shows "int (fcard (fmdom (cp_channels p))) + cp_pendingOpens p < cp_max p \<and> p' = p\<lparr>cp_pendingOpens := cp_pendingOpens p + 1\<rparr> \<and>
    (\<exists>b. resolved = Some b \<and> c = Reserved (req\<lparr>cop_Purpose := TrimSpace (cop_Purpose req), cop_ParentSessionID := TrimSpace (cop_ParentSessionID req)\<rparr>) b)"
  using assms by (auto simp: open_start_def Let_def split: if_split_asm option.split_asm)

lemma open_step_Running:
  assumes "open_step p c outcome = (p', Running c')"
  shows "cp_channels p' = cp_channels p \<and> cp_pendingOpens p' = cp_pendingOpens p \<and> cp_max p' = cp_max p"
  using assms by (cases c) (auto simp: Let_def split: option.split_asm if_split_asm)

lemma open_step_Failed: "open_step p c outcome = (p', Failed err) \<Longrightarrow> p' = give_back p"
  by (cases c) (auto simp: Let_def split: option.split_asm if_split_asm)

lemma open_step_Opened:
  assumes "open_step p c outcome = (p', Opened i)"
  shows "\<exists>req b. c = Wired req b i \<and>
    p' = (give_back p)\<lparr>cp_channels := fmupd i \<lparr>ce_backend = b, ce_parentSessionID = cop_ParentSessionID req\<rparr> (cp_channels p)\<rparr>"
  using assms by (cases c) (auto simp: Let_def split: option.split_asm if_split_asm)

abbreviation channels_used :: "'b channel_sys \<Rightarrow> nat" where
  "channels_used S \<equiv> fcard (fmdom (cp_channels (csy_proxy S)))"

abbreviation opens_running :: "'b channel_sys \<Rightarrow> nat" where
  "opens_running S \<equiv> fcard (fmdom (csy_calls S))"

lemma channel_slots:
  assumes "channel_step S T"
  shows "cp_max (csy_proxy T) = cp_max (csy_proxy S) \<and>
    (int (channels_used S) + cp_pendingOpens (csy_proxy S) < cp_max (csy_proxy S) \<and> channels_used T = channels_used S \<and> cp_pendingOpens (csy_proxy T) = cp_pendingOpens (csy_proxy S) + 1 \<and> opens_running T = Suc (opens_running S) \<or>
     opens_running S = Suc (opens_running T) \<and> cp_pendingOpens (csy_proxy T) = cp_pendingOpens (csy_proxy S) - 1 \<and> channels_used T \<le> Suc (channels_used S) \<or>
     opens_running T = opens_running S \<and> cp_pendingOpens (csy_proxy T) = cp_pendingOpens (csy_proxy S) \<and> channels_used T \<le> channels_used S)"
  using assms(1)
proof cases
  case (start req resolved p c k)
  then show ?thesis using open_start_Running [OF start(2)] by (auto simp: fcard_finsert_if)
next
  case (advance k c outcome p c')
  then show ?thesis using open_step_Running [OF advance(3)] by (auto simp: finsert_absorb fmdomI)
next
  case (fail k c outcome p err)
  then show ?thesis using open_step_Failed [OF fail(3)] fcard_fmdrop_in [of k "csy_calls S"]
    by (simp add: give_back_def fmdomI)
next
  case (opened k c outcome p i)
  from open_step_Opened [OF opened(3)] obtain req :: channelOpenParams and b where
    "p = (give_back (csy_proxy S))\<lparr>cp_channels := fmupd i \<lparr>ce_backend = b, ce_parentSessionID = cop_ParentSessionID req\<rparr> (cp_channels (csy_proxy S))\<rparr>"
    by blast
  then show ?thesis using opened(1,2) fcard_fmdrop_in [of k "csy_calls S"] fcard_fmupd_le [of i _ "cp_channels (csy_proxy S)"]
    by (simp add: give_back_def fmdomI)
next
  case (close_dropped i)
  then show ?thesis using fcard_fmdrop_le [of i "cp_channels (csy_proxy S)"] by (simp add: drop_channel_def)
next
  case (close_session sessionID p owned)
  then show ?thesis by (auto simp: ChannelProxy_CloseSession_def Let_def intro!: fcard_mono)
qed simp_all

interpretation channel_slots: slot_pool channels_used "\<lambda>S. cp_pendingOpens (csy_proxy S)" opens_running "\<lambda>S. cp_max (csy_proxy S)" channel_step
  using channel_slots by unfold_locales blast+

lemma tunnel_slots:
  assumes "tunnel_step S T"
  shows "tp_max (fst T) = tp_max (fst S) \<and>
    (int (fcard (tp_tunnels (fst S))) + tp_pendingDials (fst S) < tp_max (fst S) \<and> fcard (tp_tunnels (fst T)) = fcard (tp_tunnels (fst S)) \<and>
       tp_pendingDials (fst T) = tp_pendingDials (fst S) + 1 \<and> snd T = Suc (snd S) \<or>
     snd S = Suc (snd T) \<and> tp_pendingDials (fst T) = tp_pendingDials (fst S) - 1 \<and> fcard (tp_tunnels (fst T)) \<le> Suc (fcard (tp_tunnels (fst S))) \<or>
     snd T = snd S \<and> tp_pendingDials (fst T) = tp_pendingDials (fst S) \<and> fcard (tp_tunnels (fst T)) \<le> fcard (tp_tunnels (fst S)))"
proof -
  have less: "fcard (A |-| {|x|}) \<le> fcard A" for x :: string and A by (rule fcard_mono) auto
  show ?thesis using assms
  proof cases
    case (tunnel_start p p' n)
    then show ?thesis by (auto simp: tunnel_reserve_def split: if_split_asm)
  next
    case (tunnel_end p n result)
    then show ?thesis by (auto simp: tunnel_finish_def Let_def fcard_finsert_if split: option.split)
  next
    case (tunnel_close p n raw outcome)
    then show ?thesis by (auto simp: tunnel_Close_def Let_def takeTunnel_def less split: sum.split option.split)
  next
    case (tunnel_release p n raw)
    then show ?thesis by (auto simp: ReleaseTunnel_def Let_def takeTunnel_def less)
  qed
qed

interpretation tunnel_slots: slot_pool "\<lambda>S. fcard (tp_tunnels (fst S))" "\<lambda>S. tp_pendingDials (fst S)" snd "\<lambda>S. tp_max (fst S)" tunnel_step
  using tunnel_slots by unfold_locales blast+

lemma net_slots:
  assumes "net_step S T"
  shows "int (fcard (fmdom (px_handles (fst S)))) + px_pendingDials (fst S) < MaxNetConnectionsPerPlugin \<and>
      fcard (fmdom (px_handles (fst T))) = fcard (fmdom (px_handles (fst S))) \<and>
      px_pendingDials (fst T) = px_pendingDials (fst S) + 1 \<and> snd T = Suc (snd S) \<or>
    snd S = Suc (snd T) \<and> px_pendingDials (fst T) = px_pendingDials (fst S) - 1 \<and>
      fcard (fmdom (px_handles (fst T))) \<le> Suc (fcard (fmdom (px_handles (fst S)))) \<or>
    snd T = snd S \<and> px_pendingDials (fst T) = px_pendingDials (fst S) \<and> fcard (fmdom (px_handles (fst T))) \<le> fcard (fmdom (px_handles (fst S)))"
  using assms
proof cases
  case (dial_start env p req patternHost p' n)
  then show ?thesis by (auto simp: dial_reserve_def split: if_split_asm)
next
  case (dial_end p n result)
  then show ?thesis by (auto simp: dial_finish_def Let_def fcard_finsert_if split: option.split)
next
  case (net_close p n handleID)
  then show ?thesis using fcard_fmdrop_le [of handleID "px_handles p"] by (auto simp: takeHandle_def split: option.split)
next
  case (net_close_all p n)
  then show ?thesis by (auto simp: NetProxy_CloseAll_def intro!: fcard_mono)
qed

interpretation net_slots: slot_pool "\<lambda>S. fcard (fmdom (px_handles (fst S)))" "\<lambda>S. px_pendingDials (fst S)" snd
  "\<lambda>_. MaxNetConnectionsPerPlugin" net_step
  using net_slots by unfold_locales auto

section \<open>Properties\<close>

text \<open>C24. However its calls interleave, a plugin process never holds more channels than it may: no more than it declared, and never more than the host's ceiling
  whatever it declared, until the process is torn down.\<close>

theorem open_channels_are_bounded:
  fixes S :: "'b channel_sys"
  assumes "channel_step\<^sup>*\<^sup>* (new_channel_sys caps) S"
  shows "channels_used S \<le> 64 \<and> (\<forall>c. caps = Some c \<longrightarrow> cc_MaxConcurrent c > 0 \<longrightarrow> int (channels_used S) \<le> cc_MaxConcurrent c)"
proof -
  have "int (channels_used S) \<le> cp_max (csy_proxy (new_channel_sys caps :: 'b channel_sys))"
    by (rule channel_slots.used_bounded [OF assms]) (auto simp: new_channel_sys_def AttachDataPathOpener_def NewChannelProxy_def Let_def
      EffectiveMaxConcurrentChannels_def clampDeclaredLimit_def DefaultMaxConcurrentChannels_def MaxAllowedConcurrentChannels_def split: option.split)
  then show ?thesis
    by (auto simp: new_channel_sys_def AttachDataPathOpener_def NewChannelProxy_def Let_def
      EffectiveMaxConcurrentChannels_def clampDeclaredLimit_def DefaultMaxConcurrentChannels_def MaxAllowedConcurrentChannels_def split: option.split_asm if_split_asm)
qed

text \<open>The same holds of tunnels, and of connections even when the process is torn down while a dial is in progress.\<close>

theorem tunnels_are_bounded:
  assumes "tunnel_step\<^sup>*\<^sup>* (NewTunnelDialProxy caps, 0) S"
  shows "fcard (tp_tunnels (fst S)) \<le> 64"
proof -
  have "int (fcard (tp_tunnels (fst S))) \<le> tp_max (fst (NewTunnelDialProxy caps, 0 :: nat))"
    by (rule tunnel_slots.used_bounded [OF assms]) (auto simp: NewTunnelDialProxy_def EffectiveMaxTunnelChannels_def clampDeclaredLimit_def
      DefaultMaxTunnelChannels_def MaxAllowedTunnelChannels_def)
  also have "\<dots> \<le> 64"
    by (simp add: NewTunnelDialProxy_def EffectiveMaxTunnelChannels_def clampDeclaredLimit_def DefaultMaxTunnelChannels_def MaxAllowedTunnelChannels_def)
  finally show ?thesis by simp
qed

theorem connections_are_bounded:
  assumes "net_step\<^sup>*\<^sup>* (NewNetProxy caps, 0) S"
  shows "fcard (fmdom (px_handles (fst S))) \<le> 8"
proof -
  have "int (fcard (fmdom (px_handles (fst S)))) \<le> MaxNetConnectionsPerPlugin"
    by (rule net_slots.used_bounded [OF assms]) (auto simp: NewNetProxy_def MaxNetConnectionsPerPlugin_def split: option.split)
  then show ?thesis by (simp add: MaxNetConnectionsPerPlugin_def)
qed

section \<open>Sessions\<close>

lemma CloseSession_facts:
  assumes "ChannelProxy_CloseSession sid p = (p', owned)"
  shows "fmlookup (cp_channels p') i = (case fmlookup (cp_channels p) i of None \<Rightarrow> None | Some e \<Rightarrow> if ce_parentSessionID e = sid then None else Some e)"
    and "e |\<in>| owned \<longleftrightarrow> (\<exists>i. fmlookup (cp_channels p) i = Some e \<and> ce_parentSessionID e = sid)"
proof -
  have p': "cp_channels p' = fmfilter (\<lambda>i. ce_parentSessionID (the (fmlookup (cp_channels p) i)) \<noteq> sid) (cp_channels p)"
    and owned: "owned = fmran (fmfilter (\<lambda>i. ce_parentSessionID (the (fmlookup (cp_channels p) i)) = sid) (cp_channels p))"
    using assms unfolding ChannelProxy_CloseSession_def Let_def by auto
  show "fmlookup (cp_channels p') i = (case fmlookup (cp_channels p) i of None \<Rightarrow> None | Some e \<Rightarrow> if ce_parentSessionID e = sid then None else Some e)"
    by (simp add: p' split: option.split)
  show "e |\<in>| owned \<longleftrightarrow> (\<exists>i. fmlookup (cp_channels p) i = Some e \<and> ce_parentSessionID e = sid)"
    unfolding owned fmlookup_ran_iff by (auto split: if_split_asm)
qed

fun call_session :: "'b open_call \<Rightarrow> string" where
  "call_session (Reserved req b) = cop_ParentSessionID req"
| "call_session (Authorized req b) = cop_ParentSessionID req"
| "call_session (Numbered req b i opener) = cop_ParentSessionID req"
| "call_session (Wired req b i) = cop_ParentSessionID req"

definition session_gone :: "string \<Rightarrow> 'b channel_sys \<Rightarrow> bool" where
  "session_gone sid S \<longleftrightarrow> (\<forall>i e. fmlookup (cp_channels (csy_proxy S)) i = Some e \<longrightarrow> ce_parentSessionID e \<noteq> sid) \<and>
    (\<forall>k c. fmlookup (csy_calls S) k = Some c \<longrightarrow> call_session c \<noteq> sid)"

text \<open>A step that starts no \<open>channel.open\<close> for a session.\<close>

definition quiet_step :: "string \<Rightarrow> 'b channel_sys \<Rightarrow> 'b channel_sys \<Rightarrow> bool" where
  "quiet_step sid S T \<longleftrightarrow> channel_step S T \<and>
    (\<forall>k c. fmlookup (csy_calls T) k = Some c \<longrightarrow> call_session c = sid \<longrightarrow> k |\<in>| fmdom (csy_calls S))"

lemma open_step_session: "open_step p c outcome = (p', Running c') \<Longrightarrow> call_session c' = call_session c"
  by (cases c) (auto simp: Let_def split: option.split_asm if_split_asm)

lemma quiet_step_gone:
  assumes "quiet_step sid S T" and "session_gone sid S"
  shows "session_gone sid T"
proof -
  have step: "channel_step S T" and quiet: "\<And>k c. fmlookup (csy_calls T) k = Some c \<Longrightarrow> call_session c = sid \<Longrightarrow> k |\<in>| fmdom (csy_calls S)"
    using assms(1) by (auto simp: quiet_step_def)
  from step show ?thesis
  proof cases
    case (start req resolved p c k)
    then have "call_session c \<noteq> sid" using quiet [of k c] by auto
    then show ?thesis using start open_start_Running [OF start(2)] assms(2) by (auto simp: session_gone_def)
  next
    case (advance k c outcome p c')
    then show ?thesis using open_step_Running [OF advance(3)] open_step_session [OF advance(3)] assms(2) by (auto simp: session_gone_def)
  next
    case (fail k c outcome p err)
    then show ?thesis using open_step_Failed [OF fail(3)] assms(2) by (auto simp: session_gone_def give_back_def split: if_split_asm)
  next
    case (opened k c outcome p i)
    from open_step_Opened [OF opened(3)] obtain req :: channelOpenParams and b where c: "c = Wired req b i"
      and p: "cp_channels p = fmupd i \<lparr>ce_backend = b, ce_parentSessionID = cop_ParentSessionID req\<rparr> (cp_channels (csy_proxy S))" by auto
    have "cop_ParentSessionID req \<noteq> sid" using assms(2) opened(2) c unfolding session_gone_def by fastforce
    then show ?thesis using opened(1) p assms(2) by (auto simp: session_gone_def split: if_split_asm)
  next
    case (close_dropped i)
    then show ?thesis using assms(2) by (auto simp: session_gone_def drop_channel_def split: if_split_asm)
  next
    case (close_session sessionID p owned)
    note F = CloseSession_facts [OF close_session(2)]
    have sub: "fmlookup (cp_channels p) i = Some e \<Longrightarrow> fmlookup (cp_channels (csy_proxy S)) i = Some e" for i e
      by (simp add: F(1) split: option.split_asm if_split_asm)
    have T: "csy_proxy T = p" "csy_calls T = csy_calls S" using close_session(1) by simp_all
    show ?thesis using assms(2) unfolding session_gone_def T using sub by metis
  qed (use assms(2) in \<open>auto simp: session_gone_def\<close>)
qed

text \<open>Closing a session closes its channels for good, and no others, provided no \<open>channel.open\<close> of that session is in progress: the closed entries are exactly the channels bound to it, the
  channels of other sessions stay as they are, and as long as no new open is started for it no channel of the session ever appears again.\<close>

theorem closed_session_stays_closed:
  assumes "ChannelProxy_CloseSession sid (csy_proxy S) = (p, owned)"
    and "\<forall>k c. fmlookup (csy_calls S) k = Some c \<longrightarrow> call_session c \<noteq> sid"
    and "(quiet_step sid)\<^sup>*\<^sup>* (S\<lparr>csy_proxy := p, csy_closed := csy_closed S |\<union>| owned\<rparr>) T"
  shows "(\<forall>i e. fmlookup (cp_channels (csy_proxy T)) i = Some e \<longrightarrow> ce_parentSessionID e \<noteq> sid) \<and>
    (\<forall>i e. fmlookup (cp_channels (csy_proxy S)) i = Some e \<longrightarrow>
      (if ce_parentSessionID e = sid then e |\<in>| owned \<and> fmlookup (cp_channels p) i = None else fmlookup (cp_channels p) i = Some e)) \<and>
    (\<forall>e. e |\<in>| owned \<longrightarrow> ce_parentSessionID e = sid)"
proof -
  note F = CloseSession_facts [OF assms(1)]
  have "session_gone sid (S\<lparr>csy_proxy := p, csy_closed := csy_closed S |\<union>| owned\<rparr>)"
    using assms(2) by (auto simp: session_gone_def F(1) split: option.split_asm if_split_asm)
  with assms(3) have "session_gone sid T" by (induction rule: rtranclp_induct) (auto intro: quiet_step_gone)
  then show ?thesis by (auto simp: session_gone_def F)
qed

text \<open>C26. An open in progress is reached by neither: when the session is closed, or the plugin process is torn down, after \<open>Wire\<close> returned and before the commit, the commit still
  adds the channel, with its far end open, to a session that has ended or to a process that is gone. A torn down process is also left with minus one pending opens.\<close>

theorem late_open_survives:
  assumes "fmlookup (csy_calls S) k = Some (Wired req b i)"
  shows "(\<exists>S1 T. channel_step S S1 \<and> (\<forall>j e. fmlookup (cp_channels (csy_proxy S1)) j = Some e \<longrightarrow> ce_parentSessionID e \<noteq> cop_ParentSessionID req) \<and>
      channel_step S1 T \<and> fmlookup (cp_channels (csy_proxy T)) i = Some \<lparr>ce_backend = b, ce_parentSessionID = cop_ParentSessionID req\<rparr> \<and> csy_closed T = csy_closed S1) \<and>
    (\<exists>S1 T. channel_teardown S S1 \<and> cp_channels (csy_proxy S1) = fmempty \<and> channel_step S1 T \<and> csy_closed T = csy_closed S1 \<and>
      fmlookup (cp_channels (csy_proxy T)) i = Some \<lparr>ce_backend = b, ce_parentSessionID = cop_ParentSessionID req\<rparr> \<and> cp_pendingOpens (csy_proxy T) = - 1)"
proof -
  have commit: "channel_step S1 (S1\<lparr>csy_proxy := fst (open_step (csy_proxy S1) (Wired req b i) None), csy_calls := fmdrop k (csy_calls S1)\<rparr>)"
    if "csy_calls S1 = csy_calls S" for S1
    by (rule opened [of _ k "Wired req b i" None _ i]) (simp_all add: that assms)
  obtain p owned where s: "ChannelProxy_CloseSession (cop_ParentSessionID req) (csy_proxy S) = (p, owned)" by force
  obtain q all_owned where a: "ChannelProxy_CloseAll (csy_proxy S) = (q, all_owned)" by force
  let ?S1 = "S\<lparr>csy_proxy := p, csy_closed := csy_closed S |\<union>| owned\<rparr>" and ?S2 = "S\<lparr>csy_proxy := q, csy_closed := csy_closed S |\<union>| all_owned\<rparr>"
  have "\<forall>j e. fmlookup (cp_channels (csy_proxy ?S1)) j = Some e \<longrightarrow> ce_parentSessionID e \<noteq> cop_ParentSessionID req"
    by (auto simp: CloseSession_facts(1) [OF s] split: option.split_asm if_split_asm)
  then have one: "\<exists>S1 T. channel_step S S1 \<and> (\<forall>j e. fmlookup (cp_channels (csy_proxy S1)) j = Some e \<longrightarrow> ce_parentSessionID e \<noteq> cop_ParentSessionID req) \<and>
      channel_step S1 T \<and> fmlookup (cp_channels (csy_proxy T)) i = Some \<lparr>ce_backend = b, ce_parentSessionID = cop_ParentSessionID req\<rparr> \<and> csy_closed T = csy_closed S1"
    using channel_step.close_session [OF s] commit [of ?S1] by (intro exI [of _ ?S1] exI [of _ "?S1\<lparr>csy_proxy := fst (open_step (csy_proxy ?S1) (Wired req b i) None), csy_calls := fmdrop k (csy_calls ?S1)\<rparr>"] conjI) simp_all
  have "cp_channels q = fmempty" "cp_pendingOpens q = 0" using a by (auto simp: ChannelProxy_CloseAll_def)
  then have "\<exists>S1 T. channel_teardown S S1 \<and> cp_channels (csy_proxy S1) = fmempty \<and> channel_step S1 T \<and> csy_closed T = csy_closed S1 \<and>
      fmlookup (cp_channels (csy_proxy T)) i = Some \<lparr>ce_backend = b, ce_parentSessionID = cop_ParentSessionID req\<rparr> \<and> cp_pendingOpens (csy_proxy T) = - 1"
    using channel_teardown.close_all [OF a] commit [of ?S2] by (intro exI [of _ ?S2] exI [of _ "?S2\<lparr>csy_proxy := fst (open_step (csy_proxy ?S2) (Wired req b i) None), csy_calls := fmdrop k (csy_calls ?S2)\<rparr>"] conjI)
       (simp_all add: give_back_def)
  with one show ?thesis by blast
qed

section \<open>Channel ids\<close>

fun call_id :: "'b open_call \<Rightarrow> u32 option" where
  "call_id (Numbered req b i opener) = Some i"
| "call_id (Wired req b i) = Some i"
| "call_id _ = None"

text \<open>Every id in use was given out, and no two calls or channels have the same one.\<close>

definition ids_ok :: "'b channel_sys \<Rightarrow> bool" where
  "ids_ok S \<longleftrightarrow>
    (\<forall>i. i |\<in>| fmdom (cp_channels (csy_proxy S)) \<longrightarrow> 0 < i \<and> i \<le> cp_nextID (csy_proxy S)) \<and>
    (\<forall>k c i. fmlookup (csy_calls S) k = Some c \<and> call_id c = Some i \<longrightarrow>
      0 < i \<and> i \<le> cp_nextID (csy_proxy S) \<and> i |\<notin>| fmdom (cp_channels (csy_proxy S))) \<and>
    (\<forall>k k' c c' i. fmlookup (csy_calls S) k = Some c \<and> fmlookup (csy_calls S) k' = Some c' \<and> call_id c = Some i \<and> call_id c' = Some i \<longrightarrow> k = k')"

lemma ids_okI:
  assumes "ids_ok S" and "cp_nextID (csy_proxy T) = cp_nextID (csy_proxy S)"
    and "\<And>i. i |\<in>| fmdom (cp_channels (csy_proxy T)) \<Longrightarrow> i |\<in>| fmdom (cp_channels (csy_proxy S))"
    and "\<And>k c i. fmlookup (csy_calls T) k = Some c \<Longrightarrow> call_id c = Some i \<Longrightarrow> \<exists>c'. fmlookup (csy_calls S) k = Some c' \<and> call_id c' = Some i"
  shows "ids_ok T"
proof -
  have S: "\<And>i. i |\<in>| fmdom (cp_channels (csy_proxy S)) \<Longrightarrow> 0 < i \<and> i \<le> cp_nextID (csy_proxy S)"
    "\<And>k c i. fmlookup (csy_calls S) k = Some c \<Longrightarrow> call_id c = Some i \<Longrightarrow>
      0 < i \<and> i \<le> cp_nextID (csy_proxy S) \<and> i |\<notin>| fmdom (cp_channels (csy_proxy S))"
    "\<And>k k' c c' i. fmlookup (csy_calls S) k = Some c \<Longrightarrow> fmlookup (csy_calls S) k' = Some c' \<Longrightarrow> call_id c = Some i \<Longrightarrow> call_id c' = Some i \<Longrightarrow> k = k'"
    using assms(1) unfolding ids_ok_def by blast+
  show ?thesis unfolding ids_ok_def assms(2)
  proof (intro conjI allI impI)
    fix k k' c c' i
    assume "fmlookup (csy_calls T) k = Some c \<and> fmlookup (csy_calls T) k' = Some c' \<and> call_id c = Some i \<and> call_id c' = Some i"
    then show "k = k'" using assms(4) S(3) by metis
  qed (use S(1,2) assms(3,4) in blast)+
qed

lemma open_step_ids:
  assumes "open_step p c outcome = (p', Running c')"
  shows "cp_nextID p' = cp_nextID p \<and> call_id c' = call_id c \<or>
    cp_nextID p' = cp_nextID p + 1 \<and> call_id c = None \<and> call_id c' = Some (cp_nextID p + 1)
    \<or> cp_nextID p' = cp_nextID p \<and> call_id c' = None"
  using assms by (cases c) (auto simp: Let_def split: option.split_asm if_split_asm)

lemma next_id:
  assumes "unat (n :: u32) + 1 < 2 ^ 32"
  shows "0 < n + 1" "unat (n + 1) = unat n + 1" "i \<le> n \<Longrightarrow> i \<le> n + 1" "i \<le> n \<Longrightarrow> i \<noteq> n + 1"
proof -
  show u: "unat (n + 1) = unat n + 1" using assms by (simp add: unat_word_ariths)
  then show "0 < n + 1" by (simp add: word_less_nat_alt)
  show "i \<le> n + 1" "i \<noteq> n + 1" if "i \<le> n" using that u by (auto simp: word_le_nat_alt)
qed

lemma ids_ok_step:
  assumes "channel_step S T" and "ids_ok S" and "unat (cp_nextID (csy_proxy S)) + 1 < 2 ^ 32"
  shows "ids_ok T \<and> unat (cp_nextID (csy_proxy T)) \<le> unat (cp_nextID (csy_proxy S)) + 1"
  using assms(1)
proof cases
  case (start req resolved p c k)
  then show ?thesis using open_start_Running [OF start(2)] by (auto intro!: ids_okI [OF assms(2)] split: if_split_asm)
next
  case (advance k c outcome p c')
  note R = open_step_Running [OF advance(3)] and N = next_id [OF assms(3)]
  consider (same) "cp_nextID p = cp_nextID (csy_proxy S)" "call_id c' = call_id c \<or> call_id c' = None"
    | (issued) "cp_nextID p = cp_nextID (csy_proxy S) + 1" "call_id c' = Some (cp_nextID (csy_proxy S) + 1)"
    using open_step_ids [OF advance(3)] by (elim disjE conjE) simp_all
  then show ?thesis
  proof cases
    case same
    then show ?thesis using advance(1,2) R by (auto intro!: ids_okI [OF assms(2)] split: if_split_asm)
  next
    case issued
    let ?i = "cp_nextID (csy_proxy S) + 1"
    have S: "\<And>i. i |\<in>| fmdom (cp_channels (csy_proxy S)) \<Longrightarrow> 0 < i \<and> i \<le> cp_nextID (csy_proxy S)"
      "\<And>k c i. fmlookup (csy_calls S) k = Some c \<Longrightarrow> call_id c = Some i \<Longrightarrow>
        0 < i \<and> i \<le> cp_nextID (csy_proxy S) \<and> i |\<notin>| fmdom (cp_channels (csy_proxy S))"
      "\<And>k k' c c' i. fmlookup (csy_calls S) k = Some c \<Longrightarrow> fmlookup (csy_calls S) k' = Some c' \<Longrightarrow> call_id c = Some i \<Longrightarrow> call_id c' = Some i \<Longrightarrow> k = k'"
      using assms(2) unfolding ids_ok_def by blast+
    have unused: "?i |\<notin>| fmdom (cp_channels (csy_proxy S))" "\<And>j d. fmlookup (csy_calls S) j = Some d \<Longrightarrow> call_id d \<noteq> Some ?i"
      using S(1,2) N(4) by blast+
    have T: "cp_channels (csy_proxy T) = cp_channels (csy_proxy S)" "cp_nextID (csy_proxy T) = ?i" "csy_calls T = fmupd k c' (csy_calls S)"
      using advance(1) R issued(1) by simp_all
    have calls: "fmlookup (csy_calls T) j = Some d \<Longrightarrow> call_id d = Some i \<Longrightarrow> j = k \<and> i = ?i \<or> j \<noteq> k \<and> fmlookup (csy_calls S) j = Some d" for j d i
      using T(3) issued(2) by (auto split: if_split_asm)
    have "ids_ok T" unfolding ids_ok_def T(1,2)
    proof (intro conjI allI impI)
      fix j j' d d' i
      assume "fmlookup (csy_calls T) j = Some d \<and> fmlookup (csy_calls T) j' = Some d' \<and> call_id d = Some i \<and> call_id d' = Some i"
      then show "j = j'" using calls [of j d i] calls [of j' d' i] unused(2) S(3) by metis
    next
      fix j d i
      assume "fmlookup (csy_calls T) j = Some d \<and> call_id d = Some i"
      then have "j = k \<and> i = ?i \<or> fmlookup (csy_calls S) j = Some d \<and> call_id d = Some i" using calls by blast
      then show "0 < i" "i \<le> ?i" "i |\<notin>| fmdom (cp_channels (csy_proxy S))" using S(2) N(1,3) unused(1) by blast+
    qed (use S(1) N(3) in blast)+
    then show ?thesis using advance(1) issued N(2) by simp
  qed
next
  case (fail k c outcome p err)
  then show ?thesis using open_step_Failed [OF fail(3)] by (auto simp: give_back_def intro!: ids_okI [OF assms(2)] split: if_split_asm)
next
  case (opened k c outcome p i)
  from open_step_Opened [OF opened(3)] obtain req :: channelOpenParams and b where c: "c = Wired req b i"
    and p: "fmdom (cp_channels p) = finsert i (fmdom (cp_channels (csy_proxy S)))" "cp_nextID p = cp_nextID (csy_proxy S)"
    by (auto simp: give_back_def)
  have "ids_ok T"
    using assms(2) opened(1,2) c p unfolding ids_ok_def by (auto split: if_split_asm) (metis call_id.simps(2))+
  then show ?thesis using opened(1) p(2) by simp
next
  case (close_dropped i)
  then show ?thesis by (auto simp: drop_channel_def intro!: ids_okI [OF assms(2)])
next
  case (close_session sessionID p owned)
  have "cp_nextID p = cp_nextID (csy_proxy S)" using close_session(2) by (auto simp: ChannelProxy_CloseSession_def Let_def)
  then show ?thesis using close_session(1) CloseSession_facts(1) [OF close_session(2)]
    by (auto intro!: ids_okI [OF assms(2)] simp: fmlookup_dom_iff split: option.split_asm if_split_asm)
qed (auto intro!: ids_okI [OF assms(2)])


section \<open>A sample\<close>

text \<open>A plugin with the default limit opens one channel for the session \<open>s1\<close>.\<close>

definition ch_caps :: ChannelCaps where
  "ch_caps = \<lparr>cc_Purposes = [''exec''], cc_MaxConcurrent = 0\<rparr>"

definition ch_req :: channelOpenParams where
  "ch_req = \<lparr>cop_ParentSessionID = ''s1'', cop_Purpose = ''exec'', cop_Hint = []\<rparr>"

definition ch_new :: "unit channel_sys" where
  "ch_new = new_channel_sys (Some ch_caps)"

definition ch_at :: "int \<Rightarrow> u32 \<Rightarrow> unit open_call \<Rightarrow> unit channel_sys" where
  "ch_at n i c = ch_new\<lparr>csy_proxy := (csy_proxy ch_new)\<lparr>cp_pendingOpens := n, cp_nextID := i\<rparr>, csy_calls := fmupd 0 c fmempty\<rparr>"

definition ch_open :: "unit channel_sys" where
  "ch_open = ch_new\<lparr>csy_proxy := (csy_proxy ch_new)\<lparr>cp_nextID := 1, cp_channels := fmupd 1 \<lparr>ce_backend = (), ce_parentSessionID = ''s1''\<rparr> fmempty\<rparr>\<rparr>"

lemma ch_trim: "TrimSpace ''exec'' = ''exec''" "TrimSpace ''s1'' = ''s1''"
  by code_simp+

lemma ch_new_unfold: "csy_proxy ch_new = \<lparr>cp_purposes = {|''exec''|}, cp_max = 4, cp_opener = True, cp_nextID = 0, cp_channels = fmempty, cp_pendingOpens = 0\<rparr>"
  "csy_calls ch_new = fmempty" "csy_closing ch_new = {||}" "csy_closed ch_new = {||}"
  by (simp_all add: ch_new_def new_channel_sys_def AttachDataPathOpener_def NewChannelProxy_def ch_caps_def ch_trim EffectiveMaxConcurrentChannels_def
      clampDeclaredLimit_def DefaultMaxConcurrentChannels_def)

lemma ch_steps:
  "channel_step ch_new (ch_at 1 0 (Reserved ch_req ()))"
  "channel_step (ch_at 1 0 (Reserved ch_req ())) (ch_at 1 0 (Authorized ch_req ()))"
  "channel_step (ch_at 1 0 (Authorized ch_req ())) (ch_at 1 1 (Numbered ch_req () 1 True))"
  "channel_step (ch_at 1 1 (Numbered ch_req () 1 True)) (ch_at 1 1 (Wired ch_req () 1))"
  "channel_step (ch_at 1 1 (Wired ch_req () 1)) ch_open"
proof -
  have "open_start (csy_proxy ch_new) ch_req (Some ()) = ((csy_proxy ch_new)\<lparr>cp_pendingOpens := 1\<rparr>, Running (Reserved ch_req ()))"
    by (simp add: open_start_def ch_req_def ch_trim ch_new_unfold fcard.rep_eq)
  from channel_step.start [OF this, of 0] show "channel_step ch_new (ch_at 1 0 (Reserved ch_req ()))" by (simp add: ch_at_def ch_new_unfold)
  have adv: "channel_step (ch_at 1 i c) (ch_at 1 j c')"
    if "open_step (csy_proxy (ch_at 1 i c)) c None = (csy_proxy (ch_at 1 j c'), Running c')" for i j c c'
    using channel_step.advance [of "ch_at 1 i c" 0 c None "csy_proxy (ch_at 1 j c')" c'] that by (simp add: ch_at_def)
  show "channel_step (ch_at 1 0 (Reserved ch_req ())) (ch_at 1 0 (Authorized ch_req ()))"
    "channel_step (ch_at 1 0 (Authorized ch_req ())) (ch_at 1 1 (Numbered ch_req () 1 True))"
    "channel_step (ch_at 1 1 (Numbered ch_req () 1 True)) (ch_at 1 1 (Wired ch_req () 1))"
    by (rule adv; simp add: ch_at_def ch_new_unfold)+
  have "open_step (csy_proxy (ch_at 1 1 (Wired ch_req () 1))) (Wired ch_req () 1) None = (csy_proxy ch_open, Opened 1)"
    by (simp add: ch_at_def ch_open_def ch_new_unfold give_back_def ch_req_def)
  moreover have "fmdrop 0 (fmupd 0 (Wired ch_req () 1) fmempty) = (fmempty :: (nat, unit open_call) fmap)" by (simp add: fmap_ext)
  then have "(ch_at 1 1 (Wired ch_req () 1))\<lparr>csy_proxy := csy_proxy ch_open, csy_calls := fmdrop 0 (csy_calls (ch_at 1 1 (Wired ch_req () 1)))\<rparr> = ch_open"
    by (simp add: ch_at_def ch_open_def) (simp add: ch_new_def new_channel_sys_def)
  moreover have "fmlookup (csy_calls (ch_at 1 1 (Wired ch_req () 1))) 0 = Some (Wired ch_req () 1)" by (simp add: ch_at_def)
  ultimately show "channel_step (ch_at 1 1 (Wired ch_req () 1)) ch_open" using channel_step.opened by metis
qed

lemma ch_run: "channel_step\<^sup>*\<^sup>* ch_new ch_open" "(channel_step ^^ 4) ch_new (ch_at 1 1 (Wired ch_req () 1))"
proof -
  show "channel_step\<^sup>*\<^sup>* ch_new ch_open" using ch_steps by (meson converse_rtranclp_into_rtranclp rtranclp.rtrancl_refl)
  show "(channel_step ^^ 4) ch_new (ch_at 1 1 (Wired ch_req () 1))"
    using relpowp_Suc_I [where P = channel_step, OF relpowp_Suc_I [where P = channel_step, OF relpowp_Suc_I [where P = channel_step, OF
      relpowp_Suc_I [where P = channel_step and n = 0, OF _ ch_steps(1)] ch_steps(2)] ch_steps(3)] ch_steps(4)]
    by (simp add: eval_nat_numeral)
qed

theorem open_channels_are_bounded_witness: "fcard (fmdom (cp_channels (csy_proxy ch_open))) = 1 \<and> fcard (fmdom (cp_channels (csy_proxy ch_open))) \<le> 64"
  using open_channels_are_bounded [of "Some ch_caps" ch_open] ch_run(1) by (simp add: ch_new_def) (simp add: ch_open_def fcard.rep_eq)

theorem closed_session_stays_closed_witness:
  "\<not> (\<exists>e. fmlookup (cp_channels (fst (ChannelProxy_CloseSession ''s1'' (csy_proxy ch_open)))) 1 = Some e)"
proof -
  obtain p owned where c: "ChannelProxy_CloseSession ''s1'' (csy_proxy ch_open) = (p, owned)" by force
  have calls: "\<forall>k c. fmlookup (csy_calls ch_open) k = Some c \<longrightarrow> call_session c \<noteq> ''s1''" by (simp add: ch_open_def ch_new_unfold)
  have one: "fmlookup (cp_channels (csy_proxy ch_open)) 1 = Some \<lparr>ce_backend = (), ce_parentSessionID = ''s1''\<rparr>" by (simp add: ch_open_def)
  from closed_session_stays_closed [OF c calls rtranclp.rtrancl_refl] one show ?thesis unfolding c by fastforce
qed

theorem late_open_survives_witness:
  "\<exists>S1 T. channel_teardown (ch_at 1 1 (Wired ch_req () 1)) S1 \<and> channel_step S1 T \<and>
    fmlookup (cp_channels (csy_proxy T)) 1 = Some \<lparr>ce_backend = (), ce_parentSessionID = ''s1''\<rparr>"
proof -
  have "fmlookup (csy_calls (ch_at 1 1 (Wired ch_req () 1))) 0 = Some (Wired ch_req () 1)" by (simp add: ch_at_def)
  from late_open_survives [OF this] show ?thesis unfolding ch_req_def by auto
qed


end
