(* ===== verification/Plugin_Version.thy ===== *)
theory Plugin_Version
  imports Plugin_Events Plugin_Channels Transfer_Conflict Merge
begin

text \<open>
  Which plugins run on this host, and what they may call: versions (\<open>domain/plugin/semver.go\<close>), the requirements of a manifest and how they are filled in
  (\<open>requirements.go\<close>, \<open>requirements_validate.go\<close>, \<open>migration.go\<close>, \<open>bundle_format.go\<close>), the contract the host offers (\<open>api_registry.go\<close>), negotiating
  (\<open>negotiate.go\<close>) and the gate in front of every call of a plugin (\<open>infra/plugin/capability/gate.go\<close>).

  Of the manifest the fields these files read are modelled. A report of incompatibilities has the axis and the kind of each; the texts of errors and
  reports are not modelled. Go's maps have no order; where the code walks one unsorted the model walks it by key.
\<close>

section \<open>Versions\<close>

record Semver =
  sv_Major :: int
  sv_Minor :: int
  sv_Patch :: int
  sv_Pre :: string

definition Semver_String :: "Semver \<Rightarrow> string" where
  "Semver_String v =
    (let base = itoa_int (sv_Major v) @ ''.'' @ itoa_int (sv_Minor v) @ ''.'' @ itoa_int (sv_Patch v) in
     if sv_Pre v \<noteq> [] then base @ ''-'' @ sv_Pre v else base)"

definition HasPre :: "Semver \<Rightarrow> bool" where
  "HasPre v \<longleftrightarrow> sv_Pre v \<noteq> []"

definition parseVersionComponent :: "string \<Rightarrow> int plugin_result" where
  "parseVersionComponent p =
    (if p = [] then Inl (PluginError ''empty numeric component'')
     else if length p > 1 \<and> hd p = CHR ''0'' then Inl (PluginError ''leading zero'')
     else if \<not> list_all is_digit p then Inl (PluginError ''non-numeric component'')
     else (case Atoi p of None \<Rightarrow> Inl (PluginError ''value out of range'') | Some n \<Rightarrow> Inr n))"

fun parse_components :: "string list \<Rightarrow> int list plugin_result" where
  "parse_components [] = Inr []"
| "parse_components (p # ps) = bind_res (parseVersionComponent p) (\<lambda>n. bind_res (parse_components ps) (\<lambda>ns. Inr (n # ns)))"

definition ParseSemver :: "string \<Rightarrow> Semver plugin_result" where
  "ParseSemver s =
    (let raw = TrimSpace s in
     if raw = [] then Inl (PluginError ''empty version'')
     else
      (let (core, pre) = (case Cut raw CHR ''-'' of None \<Rightarrow> (raw, []) | Some cp \<Rightarrow> cp) in
       if CHR ''-'' \<in> set raw \<and> pre = [] then Inl (PluginError ''empty pre-release'')
       else
        (let parts = Split core CHR ''.'' in
         if length parts \<noteq> 3 then Inl (PluginError ''want MAJOR.MINOR.PATCH'')
         else bind_res (parse_components parts) (\<lambda>nums.
           Inr \<lparr>sv_Major = nums ! 0, sv_Minor = nums ! 1, sv_Patch = nums ! 2, sv_Pre = pre\<rparr>))))"

definition Satisfies :: "Semver \<Rightarrow> Semver \<Rightarrow> bool" where
  "Satisfies have want = (if sv_Major have \<noteq> sv_Major want then False else sv_Minor have \<ge> sv_Minor want)"

section \<open>What the host offers\<close>

definition PluginAPIVersion :: string where "PluginAPIVersion = ''1.0.0''"

definition CapNetwork :: string where "CapNetwork = ''network''"
definition CapFilesystem :: string where "CapFilesystem = ''filesystem''"
definition CapEvents :: string where "CapEvents = ''events''"
definition CapVault :: string where "CapVault = ''vault''"
definition CapSession :: string where "CapSession = ''session''"
definition CapAuth :: string where "CapAuth = ''auth''"
definition CapTunnel :: string where "CapTunnel = ''tunnel''"
definition CapChannel :: string where "CapChannel = ''channel''"
definition CapDiscovery :: string where "CapDiscovery = ''discovery''"
definition CapUI :: string where "CapUI = ''ui''"
definition CapI18n :: string where "CapI18n = ''i18n''"

lemmas capability_ids = CapNetwork_def CapFilesystem_def CapEvents_def CapVault_def CapSession_def CapAuth_def CapTunnel_def CapChannel_def
  CapDiscovery_def CapUI_def CapI18n_def

record DeprecationInfo =
  di_Since :: string
  di_RemoveIn :: string
  di_Replacement :: string

record CapabilityDescriptor =
  cd_Version :: string
  cd_Features :: "string list"
  cd_Deprecated :: "(string, DeprecationInfo) go_map"

type_synonym registry = "(string, CapabilityDescriptor) go_map"

definition hostRegistry :: registry where
  "hostRegistry = fmap_of_list (map (\<lambda>(c, fs). (c, \<lparr>cd_Version = ''1.0.0'', cd_Features = fs, cd_Deprecated = fmempty\<rparr>))
    [(CapNetwork, [''dial'']),
     (CapFilesystem, [''read'', ''write'']),
     (CapEvents, [''publish'', ''subscribe'']),
     (CapVault, [''getConnection'', ''getSecret'']),
     (CapSession, [''embed'', ''terminal'', ''tunnel'', ''updateState'']),
     (CapAuth, [''provider'']),
     (CapTunnel, [''bind'', ''dial'']),
     (CapChannel, [''open'']),
     (CapDiscovery, [''publish'', ''invoke'']),
     (CapUI, [''surfaceTerminal'', ''surfaceLog'', ''dialogs'', ''nodeDetails'']),
     (CapI18n, [''localeChanged''])])"

definition Registry_Has :: "registry \<Rightarrow> string \<Rightarrow> bool" where
  "Registry_Has reg capability \<longleftrightarrow> fmlookup reg capability \<noteq> None"

definition HasFeature :: "registry \<Rightarrow> string \<Rightarrow> string \<Rightarrow> bool" where
  "HasFeature reg capability feature \<longleftrightarrow>
    (case fmlookup reg capability of None \<Rightarrow> False | Some d \<Rightarrow> feature \<in> set (cd_Features d))"

definition CapabilityVersion :: "registry \<Rightarrow> string \<Rightarrow> Semver option" where
  "CapabilityVersion reg capability =
    (case fmlookup reg capability of
       None \<Rightarrow> None
     | Some d \<Rightarrow> (case ParseSemver (cd_Version d) of Inl _ \<Rightarrow> None | Inr v \<Rightarrow> Some v))"

definition Registry_Names :: "registry \<Rightarrow> string list" where
  "Registry_Names reg = sorted_list_of_fset (fmdom reg)"

section \<open>What a manifest asks for\<close>

record VaultCaps =
  vc_ReadConnectionFields :: "string list"
  vc_GetSecret :: "string list"

record SessionCaps =
  sc_ConnectProtocols :: "string list"
  sc_Terminal :: bool
  sc_Embed :: bool
  sc_RemoteFS :: bool
  sc_AllowMultiSession :: bool
  sc_MaxTunnelBandwidthKbps :: int

record AuthCaps =
  ac_Provider :: bool
  ac_Methods :: "string list"

record TunnelCaps =
  tc_Provider :: bool
  tc_MaxConcurrentChannels :: int

record DiscoveryCaps =
  dc_ParentProtocols :: "string list"

record UICaps =
  uc_Surfaces :: "string list"
  uc_Dialogs :: bool
  uc_NodeDetails :: bool
  uc_MaxSurfaces :: int

record I18nCaps =
  ic_Locales :: "string list"

record CapabilitySet =
  cs_Network :: "NetworkCaps option"
  cs_FS :: "FSCaps option"
  cs_Events :: "EventCaps option"
  cs_Vault :: "VaultCaps option"
  cs_Session :: "SessionCaps option"
  cs_Auth :: "AuthCaps option"
  cs_Tunnel :: "TunnelCaps option"
  cs_Channel :: "ChannelCaps option"
  cs_Discovery :: "DiscoveryCaps option"
  cs_UI :: "UICaps option"
  cs_I18n :: "I18nCaps option"

record CapabilityRequirement =
  cr_Min :: string
  cr_Features :: "string list"

record RequirementSet =
  rs_PluginAPI :: string
  rs_Capabilities :: "(string, CapabilityRequirement) go_map"

text \<open>The manifest, of whose views only the number matters here.\<close>

record Manifest =
  mf_BundleFormat :: string
  mf_MinCoreVersion :: string
  mf_Requires :: "RequirementSet option"
  mf_Capabilities :: CapabilitySet
  mf_Views :: nat

definition GrantedCapabilityNames :: "CapabilitySet \<Rightarrow> string list" where
  "GrantedCapabilityNames c = sort
    ((if cs_Network c \<noteq> None then [CapNetwork] else []) @
     (if cs_FS c \<noteq> None then [CapFilesystem] else []) @
     (if cs_Events c \<noteq> None then [CapEvents] else []) @
     (if cs_Vault c \<noteq> None then [CapVault] else []) @
     (if cs_Session c \<noteq> None then [CapSession] else []) @
     (if cs_Auth c \<noteq> None then [CapAuth] else []) @
     (if cs_Tunnel c \<noteq> None then [CapTunnel] else []) @
     (if cs_Channel c \<noteq> None then [CapChannel] else []) @
     (if cs_Discovery c \<noteq> None then [CapDiscovery] else []) @
     (if cs_UI c \<noteq> None then [CapUI] else []) @
     (if cs_I18n c \<noteq> None then [CapI18n] else []))"

definition grantsCapability :: "CapabilitySet \<Rightarrow> string \<Rightarrow> bool" where
  "grantsCapability c name \<longleftrightarrow> name \<in> set (GrantedCapabilityNames c)"

definition sortedCapabilityNames :: "RequirementSet \<Rightarrow> string list" where
  "sortedCapabilityNames rs = sorted_list_of_fset (fmdom (rs_Capabilities rs))"

definition validateRequirementVersion :: "string \<Rightarrow> plugin_error option" where
  "validateRequirementVersion value =
    (if TrimSpace value = [] then Some ErrInvalidManifest
     else (case ParseSemver value of
         Inl _ \<Rightarrow> Some ErrInvalidManifest
       | Inr v \<Rightarrow> if HasPre v then Some ErrInvalidManifest else None))"

definition validate_requirement :: "CapabilitySet \<Rightarrow> RequirementSet \<Rightarrow> string \<Rightarrow> plugin_error option" where
  "validate_requirement c rs name =
    (case fmlookup (rs_Capabilities rs) name of
       None \<Rightarrow> None
     | Some req \<Rightarrow>
         (case validateRequirementVersion (cr_Min req) of
            Some err \<Rightarrow> Some err
          | None \<Rightarrow>
              if \<not> grantsCapability c name then Some ErrInvalidManifest
              else if list_ex (\<lambda>f. TrimSpace f = []) (cr_Features req) then Some ErrInvalidManifest
              else None))"

definition ValidateRequirements :: "Manifest \<Rightarrow> plugin_error option" where
  "ValidateRequirements m =
    (case mf_Requires m of
       None \<Rightarrow> None
     | Some rs \<Rightarrow>
         (case validateRequirementVersion (rs_PluginAPI rs) of
            Some err \<Rightarrow> Some err
          | None \<Rightarrow> first_error (validate_requirement (mf_Capabilities m) rs) (sortedCapabilityNames rs)))"

section \<open>Filling in requirements\<close>

definition resolvePluginAPI :: "Manifest \<Rightarrow> string list \<times> string plugin_result" where
  "resolvePluginAPI m =
    (case mf_Requires m of
       Some rs \<Rightarrow> ([], Inr (rs_PluginAPI rs))
     | None \<Rightarrow>
         if mf_MinCoreVersion m \<noteq> [] then ([], Inl ErrInvalidManifest)
         else ([''no requires declared''], Inr PluginAPIVersion))"

definition majorBaseline :: "string \<Rightarrow> string plugin_result" where
  "majorBaseline version =
    (case ParseSemver version of Inl _ \<Rightarrow> Inl ErrInvalidManifest | Inr v \<Rightarrow> Inr (itoa_int (sv_Major v) @ ''.0.0''))"

definition fill_baselines :: "string \<Rightarrow> string list \<Rightarrow> (string, CapabilityRequirement) go_map \<Rightarrow> (string, CapabilityRequirement) go_map" where
  "fill_baselines baseline names caps =
    fold (\<lambda>name caps. if fmlookup caps name = None then fmupd name \<lparr>cr_Min = baseline, cr_Features = []\<rparr> caps else caps) names caps"

definition EffectiveRequirements :: "Manifest \<Rightarrow> string list \<times> RequirementSet plugin_result" where
  "EffectiveRequirements m =
    (case resolvePluginAPI m of
       (warnings, Inl err) \<Rightarrow> (warnings, Inl err)
     | (warnings, Inr pluginAPI) \<Rightarrow>
         (case majorBaseline pluginAPI of
            Inl err \<Rightarrow> (warnings, Inl err)
          | Inr baseline \<Rightarrow>
              (let caps = (case mf_Requires m of None \<Rightarrow> fmempty | Some rs \<Rightarrow> rs_Capabilities rs) in
               (warnings, Inr \<lparr>rs_PluginAPI = pluginAPI, rs_Capabilities = fill_baselines baseline (GrantedCapabilityNames (mf_Capabilities m)) caps\<rparr>))))"

section \<open>Checking against a host\<close>

datatype IncompatKind = IncompatUnsupported | IncompatVersion | IncompatMissingFeature

record Incompatibility =
  ii_Axis :: string
  ii_Kind :: IncompatKind

type_synonym report = "Incompatibility list"

definition report_add :: "report \<Rightarrow> string \<Rightarrow> IncompatKind \<Rightarrow> report" where
  "report_add r axis kind = r @ [\<lparr>ii_Axis = axis, ii_Kind = kind\<rparr>]"

text \<open>\<open>errors.Is\<close> of a report.\<close>

definition report_Is :: "report \<Rightarrow> plugin_error \<Rightarrow> bool" where
  "report_Is r target \<longleftrightarrow> list_ex (\<lambda>it.
    target = ErrMissingFeature \<and> ii_Kind it = IncompatMissingFeature \<or>
    target = ErrIncompatibleAPI \<and> (ii_Kind it = IncompatVersion \<or> ii_Kind it = IncompatUnsupported)) r"

definition checkEnvelope :: "RequirementSet \<Rightarrow> report \<Rightarrow> report" where
  "checkEnvelope rs r =
    (case ParseSemver (rs_PluginAPI rs) of
       Inl _ \<Rightarrow> report_add r ''pluginApi'' IncompatVersion
     | Inr want \<Rightarrow>
         (case ParseSemver PluginAPIVersion of
            Inl _ \<Rightarrow> report_add r ''pluginApi'' IncompatVersion
          | Inr have \<Rightarrow> if \<not> Satisfies have want then report_add r ''pluginApi'' IncompatVersion else r))"

definition checkCapability :: "registry \<Rightarrow> string \<Rightarrow> CapabilityRequirement \<Rightarrow> report \<Rightarrow> report" where
  "checkCapability reg name req r =
    (case CapabilityVersion reg name of
       None \<Rightarrow> report_add r name IncompatUnsupported
     | Some haveVer \<Rightarrow>
         (case ParseSemver (cr_Min req) of
            Inl _ \<Rightarrow> report_add r name IncompatVersion
          | Inr want \<Rightarrow>
              fold (\<lambda>f r. if \<not> HasFeature reg name f then report_add r name IncompatMissingFeature else r) (cr_Features req)
                (if \<not> Satisfies haveVer want then report_add r name IncompatVersion else r)))"

definition CheckAgainstHost :: "registry \<Rightarrow> RequirementSet \<Rightarrow> report" where
  "CheckAgainstHost reg rs =
    fold (\<lambda>name r. checkCapability reg name (the (fmlookup (rs_Capabilities rs) name)) r) (sortedCapabilityNames rs) (checkEnvelope rs [])"

definition CurrentBundleFormat :: string where "CurrentBundleFormat = ''1.0.0''"
definition baselineBundleFormat :: string where "baselineBundleFormat = ''1.0.0''"

definition ValidateBundleFormat :: "string \<Rightarrow> plugin_error option" where
  "ValidateBundleFormat declared =
    (if TrimSpace declared = [] then None
     else (case ParseSemver declared of Inl _ \<Rightarrow> Some ErrInvalidManifest | Inr v \<Rightarrow> if HasPre v then Some ErrInvalidManifest else None))"

definition EffectiveBundleFormat :: "string \<Rightarrow> string" where
  "EffectiveBundleFormat declared = (if TrimSpace declared = [] then baselineBundleFormat else TrimSpace declared)"

definition CheckBundleFormat :: "string \<Rightarrow> report \<Rightarrow> report" where
  "CheckBundleFormat declared r =
    (case ParseSemver (EffectiveBundleFormat declared) of
       Inl _ \<Rightarrow> report_add r ''bundleFormat'' IncompatVersion
     | Inr want \<Rightarrow>
         (case ParseSemver CurrentBundleFormat of
            Inl _ \<Rightarrow> report_add r ''bundleFormat'' IncompatVersion
          | Inr have \<Rightarrow> if \<not> Satisfies have want then report_add r ''bundleFormat'' IncompatVersion else r))"

section \<open>Negotiating\<close>

record NegotiatedCapability =
  ng_Version :: Semver
  ng_Features :: "string list"

record NegotiatedDescriptor =
  nd_PluginAPI :: Semver
  nd_Capabilities :: "(string, NegotiatedCapability) go_map"

text \<open>A refusal is an error of the manifest, a report, or \<open>ErrIncompatibleAPI\<close> for a version that does not parse.\<close>

datatype refusal = Refused plugin_error | Incompatible report

fun negotiate_caps :: "(string, CapabilityRequirement) go_map \<Rightarrow> string list \<Rightarrow> refusal + (string, NegotiatedCapability) go_map" where
  "negotiate_caps reqs [] = Inr fmempty"
| "negotiate_caps reqs (name # names) =
    (let req = the (fmlookup reqs name) in
     case ParseSemver (cr_Min req) of
       Inl _ \<Rightarrow> Inl (Refused ErrIncompatibleAPI)
     | Inr v \<Rightarrow> bind_res (negotiate_caps reqs names) (\<lambda>caps. Inr (fmupd name \<lparr>ng_Version = v, ng_Features = cr_Features req\<rparr> caps)))"

definition Negotiate :: "Manifest \<Rightarrow> registry \<Rightarrow> string list \<times> (refusal + NegotiatedDescriptor)" where
  "Negotiate m reg =
    (case EffectiveRequirements m of
       (warnings, Inl err) \<Rightarrow> (warnings, Inl (Refused err))
     | (warnings, Inr eff) \<Rightarrow>
         (let r = CheckBundleFormat (mf_BundleFormat m) (CheckAgainstHost reg eff) in
          if r \<noteq> [] then (warnings, Inl (Incompatible r))
          else (case ParseSemver (rs_PluginAPI eff) of
              Inl _ \<Rightarrow> (warnings, Inl (Refused ErrIncompatibleAPI))
            | Inr api \<Rightarrow>
                (warnings, bind_res (negotiate_caps (rs_Capabilities eff) (sortedCapabilityNames eff)) (\<lambda>caps.
                  Inr \<lparr>nd_PluginAPI = api, nd_Capabilities = caps\<rparr>)))))"

definition CheckHostCompatibility :: "Manifest \<Rightarrow> refusal option" where
  "CheckHostCompatibility m = (case Negotiate m hostRegistry of (_, Inl err) \<Rightarrow> Some err | (_, Inr _) \<Rightarrow> None)"

definition nd_CapabilityVersion :: "NegotiatedDescriptor \<Rightarrow> string \<Rightarrow> Semver option" where
  "nd_CapabilityVersion nd i = map_option ng_Version (fmlookup (nd_Capabilities nd) i)"

section \<open>The gate\<close>

record methodFeature =
  me_capability :: string
  me_minVersion :: Semver

record Gate =
  gt_manifest :: Manifest
  gt_negotiated :: NegotiatedDescriptor
  gt_featureVersions :: "(string, methodFeature) go_map"

definition defaultFeatureVersions :: "(string, methodFeature) go_map" where
  "defaultFeatureVersions = fmempty"

definition NewGate :: "Manifest \<Rightarrow> NegotiatedDescriptor \<Rightarrow> Gate" where
  "NewGate m negotiated = \<lparr>gt_manifest = m, gt_negotiated = negotiated, gt_featureVersions = defaultFeatureVersions\<rparr>"

definition versionAllows :: "Gate \<Rightarrow> string \<Rightarrow> bool" where
  "versionAllows g method =
    (case fmlookup (gt_featureVersions g) method of
       None \<Rightarrow> True
     | Some mf \<Rightarrow>
         (case nd_CapabilityVersion (gt_negotiated g) (me_capability mf) of
            None \<Rightarrow> False
          | Some have \<Rightarrow> Satisfies have (me_minVersion mf)))"

definition granted :: "'a option \<Rightarrow> ('a \<Rightarrow> bool) \<Rightarrow> bool" where
  "granted cap ok = (case cap of None \<Rightarrow> False | Some c \<Rightarrow> ok c)"

definition hasNetworkAccess :: "Gate \<Rightarrow> bool" where
  "hasNetworkAccess g = granted (cs_Network (mf_Capabilities (gt_manifest g))) (\<lambda>n. nc_AllowArbitraryOutbound n \<or> nc_Outbound n \<noteq> [])"

definition Allow :: "Gate \<Rightarrow> string \<Rightarrow> bool" where
  "Allow g method =
    (let c = mf_Capabilities (gt_manifest g) in
     if \<not> versionAllows g method then False
     else if method \<in> {''log.write'', ''ping''} then True
     else if method \<in> {''fs.read'', ''fs.list''} then granted (cs_FS c) (\<lambda>x. fc_Read x \<noteq> [])
     else if method = ''fs.write'' then granted (cs_FS c) (\<lambda>x. fc_Write x \<noteq> [])
     else if method = ''net.dial'' then hasNetworkAccess g
     else if method \<in> {''net.close'', ''net.read'', ''net.write''} then hasNetworkAccess g
     else if method = ''vault.getConnection'' then granted (cs_Vault c) (\<lambda>x. vc_ReadConnectionFields x \<noteq> [])
     else if method = ''vault.getSecret'' then granted (cs_Vault c) (\<lambda>x. vc_GetSecret x \<noteq> [])
     else if method = ''session.writeTerminal'' then granted (cs_Session c) sc_Terminal
     else if method = ''session.updateState'' then granted (cs_Session c) (\<lambda>x. sc_Terminal x \<or> sc_Embed x)
     else if method \<in> {''session.registerEmbed'', ''session.tunnelOpen'', ''session.tunnelFrame'', ''session.tunnelClose''} then granted (cs_Session c) sc_Embed
     else if method = ''trust.verifyPeer'' then granted (cs_Session c) (\<lambda>x. sc_ConnectProtocols x \<noteq> [])
     else if method = ''events.publish'' then granted (cs_Events c) (\<lambda>x. ec_Publish x \<noteq> [])
     else if method = ''events.subscribe'' then granted (cs_Events c) (\<lambda>x. ec_Subscribe x \<noteq> [])
     else if method = ''view.postMessage'' then mf_Views (gt_manifest g) > 0
     else if method \<in> {''tunnel.dial'', ''tunnel.close'', ''tunnel.localWrite'', ''tunnel.localClose'', ''tunnel.bind''} then granted (cs_Tunnel c) tc_Provider
     else if method \<in> {''channel.open'', ''channel.close''} then granted (cs_Channel c) (\<lambda>x. cc_Purposes x \<noteq> [])
     else if method = ''discovery.publish'' then cs_Discovery c \<noteq> None
     else if method \<in> {''surface.open'', ''surface.write'', ''surface.updateState'', ''surface.setTitle'', ''surface.close''} then
       granted (cs_UI c) (\<lambda>x. uc_Surfaces x \<noteq> [])
     else if method \<in> {''dialog.open'', ''dialog.setError'', ''dialog.close''} then granted (cs_UI c) uc_Dialogs
     else if method = ''discovery.publishDetails'' then cs_Discovery c \<noteq> None \<and> granted (cs_UI c) uc_NodeDetails
     else False)"

section \<open>Decimal numbers\<close>

definition canonical :: "string \<Rightarrow> bool" where
  "canonical p \<longleftrightarrow> p \<noteq> [] \<and> list_all is_digit p \<and> (length p > 1 \<longrightarrow> hd p \<noteq> CHR ''0'')"

lemma digit_char: "n < 10 \<Longrightarrow> is_digit (char_of (48 + n)) \<and> digit_value (char_of (48 + n)) = int n" for n :: nat
proof -
  assume n: "n < 10"
  have "(of_char (char_of (48 + n)) :: int) = int (of_char (char_of (48 + n)))" by (simp only: of_nat_of_char)
  then have "(of_char (char_of (48 + n)) :: int) = int (48 + n)" using n by simp
  then show ?thesis using n by (simp add: is_digit_def digit_value_def)
qed

lemma char_digit:
  assumes "is_digit c"
  obtains n :: nat where "n < 10" "c = char_of (48 + n)"
proof
  show "of_char c - 48 < (10 :: nat)" "c = char_of (48 + (of_char c - 48 :: nat))" using assms by (auto simp: is_digit_def)
qed

lemma decimal_snoc: "decimal (p @ [c]) = 10 * decimal p + digit_value c"
  by (simp add: decimal_def)

lemma decimal_one: "decimal [c] = digit_value c"
  by (simp add: decimal_def)

lemma decimal_nonneg: "list_all is_digit p \<Longrightarrow> 0 \<le> decimal p"
proof (induction p rule: rev_induct)
  case (snoc c p)
  then obtain n :: nat where "n < 10" "c = char_of (48 + n)" using char_digit [of c] by auto
  then show ?case using snoc digit_char [of n] by (simp add: decimal_snoc)
qed (simp add: decimal_def)

lemma itoa_small: "n < 10 \<Longrightarrow> itoa n = [char_of (48 + n)]"
  by (simp add: itoa.simps [of n])

lemma itoa_big: "10 \<le> n \<Longrightarrow> itoa n = itoa (n div 10) @ [char_of (48 + n mod 10)]"
  by (simp add: itoa.simps [of n])

lemma itoa_digits: "list_all is_digit (itoa n) \<and> itoa n \<noteq> [] \<and> decimal (itoa n) = int n"
proof (induction n rule: itoa.induct)
  case (1 n)
  show ?case
  proof (cases "n < 10")
    case True
    then show ?thesis using digit_char [OF True] by (simp add: itoa_small decimal_one)
  next
    case False
    have "10 * int (n div 10) + int (n mod 10) = int n" by presburger
    then show ?thesis using False 1 [OF False] digit_char [of "n mod 10"] by (simp add: itoa_big decimal_snoc)
  qed
qed

lemma itoa_lead: "0 < n \<Longrightarrow> hd (itoa n) \<noteq> CHR ''0''"
proof (induction n rule: itoa.induct)
  case (1 n)
  show ?case
  proof (cases "n < 10")
    case True
    have "hd (itoa n) = CHR ''0'' \<Longrightarrow> digit_value (char_of (48 + n)) = digit_value CHR ''0''" using True by (simp add: itoa_small)
    then show ?thesis using digit_char [OF True] 1(2) by (auto simp: digit_value_def)
  next
    case False
    then show ?thesis using 1(1) [OF False] itoa_digits [of "n div 10"] by (simp add: itoa_big hd_append)
  qed
qed

lemma itoa_canonical: "canonical (itoa n)"
proof (cases "n = 0")
  case True
  then show ?thesis using itoa_digits [of n] by (simp add: canonical_def itoa_small)
next
  case False
  then show ?thesis using itoa_digits [of n] itoa_lead [of n] by (simp add: canonical_def)
qed

lemma canonical_itoa: "canonical p \<Longrightarrow> itoa (nat (decimal p)) = p"
proof (induction p rule: rev_induct)
  case (snoc c p)
  then obtain n :: nat where n: "n < 10" "c = char_of (48 + n)" using char_digit [of c] by (auto simp: canonical_def)
  note v = digit_char [OF n(1)]
  show ?case
  proof (cases "p = []")
    case True
    then show ?thesis using n v by (simp add: decimal_one itoa_small)
  next
    case False
    then have "canonical p" and lead: "hd p \<noteq> CHR ''0''" using snoc.prems by (auto simp: canonical_def hd_append)
    note p = snoc.IH [OF this(1)]
    have "decimal p \<noteq> 0"
    proof
      assume "decimal p = 0"
      then have "p = itoa 0" using p by simp
      moreover have "char_of (48 :: nat) = CHR ''0''" by code_simp
      ultimately show False using lead by (simp add: itoa_small)
    qed
    then have pos: "0 < decimal p" using decimal_nonneg [of p] snoc.prems by (simp add: canonical_def)
    have "nat (decimal (p @ [c])) = 10 * nat (decimal p) + n" using pos n v by (simp add: decimal_snoc nat_add_distrib nat_mult_distrib)
    then show ?thesis using p n pos by (simp add: itoa_big)
  qed
qed (simp add: canonical_def)

lemma Atoi_digits: "list_all is_digit p \<Longrightarrow> p \<noteq> [] \<Longrightarrow> Atoi p = (if decimal p < 2 ^ 63 then Some (decimal p) else None)"
  using decimal_nonneg [of p] by (cases p) (auto simp: Atoi_def Let_def is_digit_def)

lemma parseVersionComponent_iff: "parseVersionComponent p = Inr n \<longleftrightarrow> 0 \<le> n \<and> n < 2 ^ 63 \<and> p = itoa_int n"
proof
  assume a: "parseVersionComponent p = Inr n"
  then have can: "canonical p" by (auto simp: parseVersionComponent_def canonical_def split: if_split_asm)
  then have at: "Atoi p = Some n" using a by (auto simp: parseVersionComponent_def canonical_def split: if_split_asm option.split_asm)
  have "decimal p = n \<and> n < 2 ^ 63" using at can Atoi_digits [of p] by (auto simp: canonical_def split: if_split_asm)
  then show "0 \<le> n \<and> n < 2 ^ 63 \<and> p = itoa_int n"
    using canonical_itoa [OF can] decimal_nonneg [of p] can by (auto simp: canonical_def itoa_int_def)
next
  assume a: "0 \<le> n \<and> n < 2 ^ 63 \<and> p = itoa_int n"
  then have p: "p = itoa (nat n)" by (simp add: itoa_int_def)
  have can: "canonical p" using itoa_canonical p by simp
  moreover have "Atoi p = Some n" using Atoi_digits [of p] itoa_digits [of "nat n"] p a by simp
  ultimately show "parseVersionComponent p = Inr n" by (auto simp: parseVersionComponent_def canonical_def)
qed

section \<open>Printing and parsing\<close>

lemma Split_head:
  "Split s c = p # ps \<Longrightarrow> (ps = [] \<longrightarrow> s = p) \<and> (ps \<noteq> [] \<longrightarrow> (\<exists>r. s = p @ c # r \<and> Split r c = ps))"
proof (induction s arbitrary: p ps)
  case (Cons x s)
  show ?case
  proof (cases "x = c")
    case True
    then show ?thesis using Cons.prems Split_not_Nil [of s c] by auto
  next
    case False
    obtain q qs where q: "Split s c = q # qs" using Split_not_Nil [of s c] by (cases "Split s c") auto
    then have "p = x # q" "ps = qs" using Cons.prems False by auto
    then show ?thesis using Cons.IH [OF q] by auto
  qed
qed simp

lemma Split_three:
  "Split s c = [x, y, z] \<longleftrightarrow> s = x @ c # y @ c # z \<and> c \<notin> set x \<and> c \<notin> set y \<and> c \<notin> set z"
proof
  assume a: "Split s c = [x, y, z]"
  obtain r where r: "s = x @ c # r" "Split r c = [y, z]" using Split_head [OF a] by auto
  obtain u where u: "r = y @ c # u" "Split u c = [z]" using Split_head [OF r(2)] by auto
  have "u = z" using Split_head [OF u(2)] by simp
  moreover have "\<forall>seg \<in> {x, y, z}. c \<notin> set seg" using Split_no_sep [of _ s c] a by auto
  ultimately show "s = x @ c # y @ c # z \<and> c \<notin> set x \<and> c \<notin> set y \<and> c \<notin> set z" using r(1) u(1) by simp
next
  assume "s = x @ c # y @ c # z \<and> c \<notin> set x \<and> c \<notin> set y \<and> c \<notin> set z"
  then show "Split s c = [x, y, z]" by (simp add: Split_sep Split_no_sep_id)
qed

definition version_ok :: "Semver \<Rightarrow> bool" where
  "version_ok v \<longleftrightarrow> (\<forall>n \<in> {sv_Major v, sv_Minor v, sv_Patch v}. 0 \<le> n \<and> n < 2 ^ 63)"

definition version_core :: "Semver \<Rightarrow> string" where
  "version_core v = itoa_int (sv_Major v) @ CHR ''.'' # itoa_int (sv_Minor v) @ CHR ''.'' # itoa_int (sv_Patch v)"

lemma Semver_String_core: "Semver_String v = version_core v @ (if sv_Pre v = [] then [] else CHR ''-'' # sv_Pre v)"
  by (simp add: Semver_String_def version_core_def Let_def)

lemma itoa_int_plain:
  assumes "0 \<le> n" and "\<not> is_digit c"
  shows "c \<notin> set (itoa_int n)"
  using assms itoa_digits [of "nat n"] by (auto simp: itoa_int_def list_all_iff)

lemma dash_dot: "\<not> is_digit CHR ''-''" "\<not> is_digit CHR ''.''"
  by (simp_all add: is_digit_def)

lemma parse_three:
  "bind_res (parse_components parts) (\<lambda>nums. Inr (f nums)) = Inr v \<and> length parts = 3 \<longleftrightarrow>
    (\<exists>a b c. parts = [itoa_int a, itoa_int b, itoa_int c] \<and> v = f [a, b, c] \<and> (\<forall>n \<in> {a, b, c}. 0 \<le> n \<and> n < 2 ^ 63))"
  (is "?l \<longleftrightarrow> ?r")
proof
  assume l: ?l
  then obtain x y z where parts: "parts = [x, y, z]" by (auto simp: length_Suc_conv eval_nat_numeral)
  from l obtain a b c where "parseVersionComponent x = Inr a" "parseVersionComponent y = Inr b" "parseVersionComponent z = Inr c" "v = f [a, b, c]"
    by (auto simp: parts bind_res_Inr)
  then show ?r unfolding parseVersionComponent_iff parts by (intro exI [of _ a] exI [of _ b] exI [of _ c]) simp
next
  assume ?r
  then obtain a b c where parts: "parts = [itoa_int a, itoa_int b, itoa_int c]" and v: "v = f [a, b, c]" and ok: "\<forall>n \<in> {a, b, c}. 0 \<le> n \<and> n < 2 ^ 63" by blast
  have "parseVersionComponent (itoa_int n) = Inr n" if "n \<in> {a, b, c}" for n using ok that by (auto simp: parseVersionComponent_iff)
  then show ?l using parts v by simp
qed

lemma parse_core:
  "length (Split core CHR ''.'') = 3 \<and>
    bind_res (parse_components (Split core CHR ''.'')) (\<lambda>nums. Inr \<lparr>sv_Major = nums ! 0, sv_Minor = nums ! 1, sv_Patch = nums ! 2, sv_Pre = pre\<rparr>) = Inr v \<longleftrightarrow>
    core = version_core v \<and> version_ok v \<and> sv_Pre v = pre" (is "?l \<longleftrightarrow> ?r")
proof
  assume ?l
  with parse_three [of "Split core CHR ''.''" "\<lambda>nums. \<lparr>sv_Major = nums ! 0, sv_Minor = nums ! 1, sv_Patch = nums ! 2, sv_Pre = pre\<rparr>" v]
  obtain a b c where split: "Split core CHR ''.'' = [itoa_int a, itoa_int b, itoa_int c]"
    and v: "v = \<lparr>sv_Major = a, sv_Minor = b, sv_Patch = c, sv_Pre = pre\<rparr>" and ok: "\<forall>n \<in> {a, b, c}. 0 \<le> n \<and> n < 2 ^ 63"
    by auto
  show ?r using split v ok unfolding Split_three by (simp add: version_core_def version_ok_def)
next
  assume r: ?r
  then have "Split core CHR ''.'' = [itoa_int (sv_Major v), itoa_int (sv_Minor v), itoa_int (sv_Patch v)]"
    unfolding Split_three by (auto simp: version_core_def version_ok_def itoa_int_plain dash_dot)
  moreover have "v = \<lparr>sv_Major = sv_Major v, sv_Minor = sv_Minor v, sv_Patch = sv_Patch v, sv_Pre = pre\<rparr>" using r by simp
  ultimately show ?l
    using r parse_three [of "Split core CHR ''.''" "\<lambda>nums. \<lparr>sv_Major = nums ! 0, sv_Minor = nums ! 1, sv_Patch = nums ! 2, sv_Pre = pre\<rparr>" v]
    by (auto simp: version_ok_def)
qed

lemma core_plain: "version_ok v \<Longrightarrow> CHR ''-'' \<notin> set (version_core v)"
  by (auto simp: version_core_def version_ok_def itoa_int_plain dash_dot)

lemma Cut_Some: "Cut s c = Some (a, b) \<longleftrightarrow> s = a @ c # b \<and> c \<notin> set a"
proof
  assume "Cut s c = Some (a, b)"
  then have c: "c \<in> set s" "a = takeWhile (\<lambda>x. x \<noteq> c) s" "b = tl (dropWhile (\<lambda>x. x \<noteq> c) s)" by (auto simp: Cut_def split: if_split_asm)
  have "dropWhile (\<lambda>x. x \<noteq> c) s = c # b"
    using c hd_dropWhile [of "\<lambda>x. x \<noteq> c" s] by (cases "dropWhile (\<lambda>x. x \<noteq> c) s") (auto simp: dropWhile_eq_Nil_conv)
  then show "s = a @ c # b \<and> c \<notin> set a" using c takeWhile_dropWhile_id [of "\<lambda>x. x \<noteq> c" s] by (auto dest: set_takeWhileD)
next
  assume "s = a @ c # b \<and> c \<notin> set a"
  moreover have "takeWhile (\<lambda>x. x \<noteq> c) (a @ c # b) = a" "dropWhile (\<lambda>x. x \<noteq> c) (a @ c # b) = c # b" if "c \<notin> set a"
    using that by (induction a) auto
  ultimately show "Cut s c = Some (a, b)" by (simp add: Cut_def)
qed

text \<open>C32. Versions are read back as they were written, and nothing else is a version: a text parses to a version exactly when, without the space around it, it is that
  version printed, with each number of the range a 64-bit integer holds. Leading zeros, signs, missing or further components are refused.\<close>

theorem semver_parse_exact: "ParseSemver s = Inr v \<longleftrightarrow> version_ok v \<and> TrimSpace s = Semver_String v"
proof (cases "Cut (TrimSpace s) CHR ''-''")
  case None
  then have dash: "CHR ''-'' \<notin> set (TrimSpace s)" by (simp add: Cut_def split: if_split_asm)
  then have "TrimSpace s = Semver_String v \<longleftrightarrow> TrimSpace s = version_core v \<and> sv_Pre v = []" by (auto simp: Semver_String_core)
  moreover have "TrimSpace s \<noteq> []" if "TrimSpace s = version_core v" using that by (simp add: version_core_def)
  moreover have "ParseSemver s = Inr v \<longleftrightarrow> TrimSpace s \<noteq> [] \<and> TrimSpace s = version_core v \<and> version_ok v \<and> sv_Pre v = []"
    using None dash parse_core [of "TrimSpace s" "[]" v] by (auto simp: ParseSemver_def Let_def)
  ultimately show ?thesis by auto
next
  case (Some cp)
  obtain core pre where cp: "cp = (core, pre)" by (cases cp)
  note cut = Some [unfolded cp Cut_Some]
  have "TrimSpace s = Semver_String v \<longleftrightarrow> core = version_core v \<and> sv_Pre v = pre \<and> pre \<noteq> []" if ok: "version_ok v"
  proof
    assume eq: "TrimSpace s = Semver_String v"
    have "CHR ''-'' \<in> set (TrimSpace s)" using cut by simp
    then have pre: "sv_Pre v \<noteq> []" using eq core_plain [OF ok] by (auto simp: Semver_String_core)
    with eq have "Cut (TrimSpace s) CHR ''-'' = Some (version_core v, sv_Pre v)" unfolding Cut_Some using core_plain [OF ok] by (simp add: Semver_String_core)
    then show "core = version_core v \<and> sv_Pre v = pre \<and> pre \<noteq> []" using Some cp pre by simp
  next
    assume "core = version_core v \<and> sv_Pre v = pre \<and> pre \<noteq> []"
    then show "TrimSpace s = Semver_String v" using cut by (simp add: Semver_String_core)
  qed
  moreover have "ParseSemver s = Inr v \<longleftrightarrow> pre \<noteq> [] \<and> core = version_core v \<and> version_ok v \<and> sv_Pre v = pre"
    using Some cp cut parse_core [of core pre v] by (auto simp: ParseSemver_def Let_def)
  ultimately show ?thesis by auto
qed

section \<open>What a negotiation promises\<close>

lemma report_add_Nil [simp]: "report_add r axis kind \<noteq> []"
  by (simp add: report_add_def)

lemma fold_report_Nil:
  assumes "\<And>x r. g x r = [] \<longleftrightarrow> r = [] \<and> P x"
  shows "fold g xs r = [] \<longleftrightarrow> r = [] \<and> (\<forall>x \<in> set xs. P x)"
  by (induction xs arbitrary: r) (auto simp: assms)

text \<open>A requirement the host meets.\<close>

definition host_offers :: "registry \<Rightarrow> string \<Rightarrow> CapabilityRequirement \<Rightarrow> bool" where
  "host_offers reg name req \<longleftrightarrow> (\<exists>haveVer want. CapabilityVersion reg name = Some haveVer \<and> ParseSemver (cr_Min req) = Inr want \<and> Satisfies haveVer want \<and>
    (\<forall>f \<in> set (cr_Features req). HasFeature reg name f))"

lemma checkCapability_Nil: "checkCapability reg name req r = [] \<longleftrightarrow> r = [] \<and> host_offers reg name req"
proof -
  have features: "fold (\<lambda>f r. if \<not> HasFeature reg name f then report_add r name IncompatMissingFeature else r) fs r = [] \<longleftrightarrow>
      r = [] \<and> (\<forall>f \<in> set fs. HasFeature reg name f)" for fs r
    by (rule fold_report_Nil) simp
  show ?thesis
    by (cases "CapabilityVersion reg name"; cases "ParseSemver (cr_Min req)") (auto simp: checkCapability_def host_offers_def features)
qed

lemma checkEnvelope_Nil:
  "checkEnvelope rs [] = [] \<longleftrightarrow> (\<exists>have want. ParseSemver PluginAPIVersion = Inr have \<and> ParseSemver (rs_PluginAPI rs) = Inr want \<and> Satisfies have want)"
  by (auto simp: checkEnvelope_def split: sum.split)

lemma CheckAgainstHost_Nil:
  "CheckAgainstHost reg rs = [] \<longleftrightarrow> checkEnvelope rs [] = [] \<and>
    (\<forall>name req. fmlookup (rs_Capabilities rs) name = Some req \<longrightarrow> host_offers reg name req)"
proof -
  let ?ok = "\<lambda>name. host_offers reg name (the (fmlookup (rs_Capabilities rs) name))"
  have names: "set (sortedCapabilityNames rs) = fset (fmdom (rs_Capabilities rs))" by (simp add: sortedCapabilityNames_def sorted_list_of_fset.rep_eq)
  have "CheckAgainstHost reg rs = [] \<longleftrightarrow> checkEnvelope rs [] = [] \<and> (\<forall>name \<in> set (sortedCapabilityNames rs). ?ok name)"
    unfolding CheckAgainstHost_def by (rule fold_report_Nil) (rule checkCapability_Nil)
  moreover have "(\<forall>name \<in> fset (fmdom (rs_Capabilities rs)). ?ok name) \<longleftrightarrow> (\<forall>name req. fmlookup (rs_Capabilities rs) name = Some req \<longrightarrow> host_offers reg name req)"
    by (metis fmdomE fmdomI option.sel)
  ultimately show ?thesis unfolding names by simp
qed

lemma CheckBundleFormat_Nil: "CheckBundleFormat declared r = [] \<Longrightarrow> r = []"
  by (auto simp: CheckBundleFormat_def split: sum.split_asm if_split_asm)

lemma negotiate_caps_Inr:
  assumes "negotiate_caps reqs names = Inr caps"
  shows "fmdom caps = fset_of_list names \<and> (\<forall>name nc. fmlookup caps name = Some nc \<longrightarrow>
    ParseSemver (cr_Min (the (fmlookup reqs name))) = Inr (ng_Version nc) \<and> ng_Features nc = cr_Features (the (fmlookup reqs name)))"
  using assms
proof (induction names arbitrary: caps)
  case (Cons name names)
  from Cons.prems obtain v caps' where v: "ParseSemver (cr_Min (the (fmlookup reqs name))) = Inr v"
    and rest: "negotiate_caps reqs names = Inr caps'"
    and caps: "caps = fmupd name \<lparr>ng_Version = v, ng_Features = cr_Features (the (fmlookup reqs name))\<rparr> caps'"
    by (auto simp: Let_def bind_res_Inr split: sum.split_asm)
  show ?case using Cons.IH [OF rest] v by (auto simp: caps)
qed auto

lemma negotiate_caps_total:
  assumes "\<forall>name \<in> set names. \<exists>v. ParseSemver (cr_Min (the (fmlookup reqs name))) = Inr v"
  shows "\<exists>caps. negotiate_caps reqs names = Inr caps"
  using assms by (induction names) (auto simp: Let_def)

lemma fill_baselines_dom: "fmdom (fill_baselines baseline names caps) = fset_of_list names |\<union>| fmdom caps"
  unfolding fill_baselines_def by (induction names arbitrary: caps) (auto simp: fmdom_notI fmlookup_dom_iff)

lemma Effective_dom:
  assumes "EffectiveRequirements m = (warnings, Inr eff)"
  shows "fmdom (rs_Capabilities eff) = fset_of_list (GrantedCapabilityNames (mf_Capabilities m)) |\<union>|
    (case mf_Requires m of None \<Rightarrow> {||} | Some rs \<Rightarrow> fmdom (rs_Capabilities rs))"
  using assms by (auto simp: EffectiveRequirements_def Let_def fill_baselines_dom split: prod.split_asm sum.split_asm option.split)

lemma Negotiate_Inr:
  assumes "Negotiate m reg = (warnings, Inr d)"
  obtains eff where "EffectiveRequirements m = (warnings, Inr eff)" "CheckAgainstHost reg eff = []" "ParseSemver (rs_PluginAPI eff) = Inr (nd_PluginAPI d)"
    "negotiate_caps (rs_Capabilities eff) (sortedCapabilityNames eff) = Inr (nd_Capabilities d)"
proof -
  obtain w e where eff: "EffectiveRequirements m = (w, e)" by (cases "EffectiveRequirements m")
  with assms obtain eff where e: "e = Inr eff" and w: "w = warnings" by (cases e) (auto simp: Negotiate_def Let_def split: if_split_asm sum.split_asm)
  let ?r = "CheckBundleFormat (mf_BundleFormat m) (CheckAgainstHost reg eff)"
  have r: "?r = []" using assms by (auto simp: Negotiate_def eff e Let_def split: if_split_asm)
  then obtain api where api: "ParseSemver (rs_PluginAPI eff) = Inr api"
    and caps: "bind_res (negotiate_caps (rs_Capabilities eff) (sortedCapabilityNames eff)) (\<lambda>caps. Inr \<lparr>nd_PluginAPI = api, nd_Capabilities = caps\<rparr>) = Inr d"
    using assms by (auto simp: Negotiate_def eff e Let_def split: sum.split_asm)
  then show thesis using that [of eff] eff e w CheckBundleFormat_Nil [OF r] by (auto simp: bind_res_Inr)
qed

lemma contract_facts:
  assumes "Negotiate m reg = (warnings, Inr d)"
  shows "\<exists>have. ParseSemver PluginAPIVersion = Inr have \<and> Satisfies have (nd_PluginAPI d)"
    and "fset (fmdom (nd_Capabilities d)) = set (GrantedCapabilityNames (mf_Capabilities m)) \<union>
      (case mf_Requires m of None \<Rightarrow> {} | Some rs \<Rightarrow> fset (fmdom (rs_Capabilities rs)))"
    and "\<And>name nc. fmlookup (nd_Capabilities d) name = Some nc \<Longrightarrow>
      (\<exists>haveVer. CapabilityVersion reg name = Some haveVer \<and> Satisfies haveVer (ng_Version nc)) \<and> (\<forall>f \<in> set (ng_Features nc). HasFeature reg name f)"
proof -
  obtain eff where eff: "EffectiveRequirements m = (warnings, Inr eff)" "CheckAgainstHost reg eff = []" "ParseSemver (rs_PluginAPI eff) = Inr (nd_PluginAPI d)"
    and caps: "negotiate_caps (rs_Capabilities eff) (sortedCapabilityNames eff) = Inr (nd_Capabilities d)"
    using Negotiate_Inr [OF assms] by blast
  note C = eff(2) [unfolded CheckAgainstHost_Nil checkEnvelope_Nil] and N = negotiate_caps_Inr [OF caps]
  have names: "fset (fmdom (nd_Capabilities d)) = fset (fmdom (rs_Capabilities eff))"
    using N by (simp add: sortedCapabilityNames_def sorted_list_of_fset.rep_eq fset_of_list.rep_eq)
  show "(\<exists>haveVer. CapabilityVersion reg name = Some haveVer \<and> Satisfies haveVer (ng_Version nc)) \<and> (\<forall>f \<in> set (ng_Features nc). HasFeature reg name f)"
    if nc: "fmlookup (nd_Capabilities d) name = Some nc" for name nc
  proof -
    have "name \<in> fset (fmdom (rs_Capabilities eff))" using names fmdomI [OF nc] by blast
    then obtain req where req: "fmlookup (rs_Capabilities eff) name = Some req" by (auto simp: fmlookup_dom_iff)
    with C have "host_offers reg name req" by blast
    moreover have "ParseSemver (cr_Min req) = Inr (ng_Version nc)" "ng_Features nc = cr_Features req" using N [THEN conjunct2, rule_format, OF nc] req by auto
    ultimately show ?thesis by (auto simp: host_offers_def)
  qed
  show "\<exists>have. ParseSemver PluginAPIVersion = Inr have \<and> Satisfies have (nd_PluginAPI d)" using C eff(3) by auto
  show "fset (fmdom (nd_Capabilities d)) = set (GrantedCapabilityNames (mf_Capabilities m)) \<union>
      (case mf_Requires m of None \<Rightarrow> {} | Some rs \<Rightarrow> fset (fmdom (rs_Capabilities rs)))"
    unfolding names Effective_dom [OF eff(1)] by (auto simp: fset_of_list.rep_eq split: option.split)
qed


text \<open>A manifest whose requirements are well formed is turned down only with a report of what the host does not offer.\<close>

lemma first_error_None: "first_error check xs = None \<longleftrightarrow> (\<forall>x \<in> set xs. check x = None)"
proof (cases "find (\<lambda>x. check x \<noteq> None) xs")
  case None
  then have "\<forall>x \<in> set xs. check x = None" by (auto simp: find_None_iff)
  then show ?thesis using None by (simp add: first_error_def)
next
  case (Some x)
  then have "x \<in> set xs" "check x \<noteq> None" by (auto simp: find_Some_iff)
  then show ?thesis using Some by (auto simp: first_error_def)
qed

lemma api_parses: "ParseSemver PluginAPIVersion = Inr \<lparr>sv_Major = 1, sv_Minor = 0, sv_Patch = 0, sv_Pre = []\<rparr>"
  by code_simp

lemma requirement_parses: "validateRequirementVersion value = None \<Longrightarrow> \<exists>v. ParseSemver value = Inr v"
  by (auto simp: validateRequirementVersion_def split: if_split_asm sum.split_asm)

lemma Effective_total:
  assumes "ValidateRequirements m = None" and "mf_Requires m \<noteq> None \<or> mf_MinCoreVersion m = []"
  shows "\<exists>warnings eff. EffectiveRequirements m = (warnings, Inr eff)"
proof (cases "mf_Requires m")
  case None
  then show ?thesis using assms(2) api_parses by (auto simp: EffectiveRequirements_def resolvePluginAPI_def majorBaseline_def Let_def)
next
  case (Some rs)
  then obtain v where "ParseSemver (rs_PluginAPI rs) = Inr v"
    using assms(1) requirement_parses [of "rs_PluginAPI rs"] by (auto simp: ValidateRequirements_def split: option.split_asm)
  then show ?thesis using Some by (simp add: EffectiveRequirements_def resolvePluginAPI_def majorBaseline_def Let_def)
qed

text \<open>A well formed manifest is never turned down for its form: when the requirements pass validation, and the manifest does not rely on the unsupported
  field instead of declaring them, negotiating gives a contract, or a report that lists at least one requirement the host does not meet.\<close>

theorem valid_manifest_negotiates:
  assumes "ValidateRequirements m = None" and "mf_Requires m \<noteq> None \<or> mf_MinCoreVersion m = []"
  shows "(\<exists>d. snd (Negotiate m reg) = Inr d) \<or> (\<exists>r. snd (Negotiate m reg) = Inl (Incompatible r) \<and> (report_Is r ErrIncompatibleAPI \<or> report_Is r ErrMissingFeature))"
proof -
  obtain warnings eff where eff: "EffectiveRequirements m = (warnings, Inr eff)" using Effective_total [OF assms] by blast
  let ?r = "CheckBundleFormat (mf_BundleFormat m) (CheckAgainstHost reg eff)"
  show ?thesis
  proof (cases "?r = []")
    case True
    note C = CheckBundleFormat_Nil [OF True, unfolded CheckAgainstHost_Nil checkEnvelope_Nil]
    have names: "set (sortedCapabilityNames eff) = fset (fmdom (rs_Capabilities eff))" by (simp add: sortedCapabilityNames_def sorted_list_of_fset.rep_eq)
    have "\<exists>v. ParseSemver (cr_Min (the (fmlookup (rs_Capabilities eff) name))) = Inr v" if name: "name \<in> set (sortedCapabilityNames eff)" for name
    proof -
      obtain req where "fmlookup (rs_Capabilities eff) name = Some req" using name unfolding names by (auto simp: fmlookup_dom_iff)
      then have "host_offers reg name req" using C by blast
      then show ?thesis using \<open>fmlookup (rs_Capabilities eff) name = Some req\<close> by (auto simp: host_offers_def)
    qed
    then obtain caps where "negotiate_caps (rs_Capabilities eff) (sortedCapabilityNames eff) = Inr caps" using negotiate_caps_total by blast
    then show ?thesis using C True by (auto simp: Negotiate_def eff Let_def)
  next
    case False
    then obtain it rest where "?r = it # rest" by (cases ?r) auto
    then have "report_Is ?r ErrIncompatibleAPI \<or> report_Is ?r ErrMissingFeature" by (cases "ii_Kind it") (auto simp: report_Is_def)
    then show ?thesis using False by (auto simp: Negotiate_def eff Let_def)
  qed
qed

section \<open>What the gate lets through\<close>

text \<open>The capability a method belongs to, by its namespace.\<close>

definition capability_of :: "string \<Rightarrow> string option" where
  "capability_of method = map_of
    [(''fs'', CapFilesystem), (''net'', CapNetwork), (''vault'', CapVault), (''session'', CapSession), (''trust'', CapSession), (''events'', CapEvents),
     (''tunnel'', CapTunnel), (''channel'', CapChannel), (''discovery'', CapDiscovery), (''surface'', CapUI), (''dialog'', CapUI)]
    (Cut_before method CHR ''.'')"

lemma granted_name:
  "cs_Network c \<noteq> None \<Longrightarrow> CapNetwork \<in> set (GrantedCapabilityNames c)" "cs_FS c \<noteq> None \<Longrightarrow> CapFilesystem \<in> set (GrantedCapabilityNames c)"
  "cs_Events c \<noteq> None \<Longrightarrow> CapEvents \<in> set (GrantedCapabilityNames c)" "cs_Vault c \<noteq> None \<Longrightarrow> CapVault \<in> set (GrantedCapabilityNames c)"
  "cs_Session c \<noteq> None \<Longrightarrow> CapSession \<in> set (GrantedCapabilityNames c)" "cs_Tunnel c \<noteq> None \<Longrightarrow> CapTunnel \<in> set (GrantedCapabilityNames c)"
  "cs_Channel c \<noteq> None \<Longrightarrow> CapChannel \<in> set (GrantedCapabilityNames c)" "cs_Discovery c \<noteq> None \<Longrightarrow> CapDiscovery \<in> set (GrantedCapabilityNames c)"
  "cs_UI c \<noteq> None \<Longrightarrow> CapUI \<in> set (GrantedCapabilityNames c)"
  unfolding GrantedCapabilityNames_def set_sort by (simp_all split del: if_split)

lemma granted_None [simp]: "granted None ok = False" "granted (Some c) ok = ok c"
  by (simp_all add: granted_def)

lemma grantedD: "granted cap ok \<Longrightarrow> cap \<noteq> None"
  by (cases cap) simp_all

lemma method_capability:
  "capability_of ''fs.read'' = Some CapFilesystem"
  "capability_of ''fs.list'' = Some CapFilesystem"
  "capability_of ''fs.write'' = Some CapFilesystem"
  "capability_of ''net.dial'' = Some CapNetwork"
  "capability_of ''net.close'' = Some CapNetwork"
  "capability_of ''net.read'' = Some CapNetwork"
  "capability_of ''net.write'' = Some CapNetwork"
  "capability_of ''vault.getConnection'' = Some CapVault"
  "capability_of ''vault.getSecret'' = Some CapVault"
  "capability_of ''session.writeTerminal'' = Some CapSession"
  "capability_of ''session.updateState'' = Some CapSession"
  "capability_of ''session.registerEmbed'' = Some CapSession"
  "capability_of ''session.tunnelOpen'' = Some CapSession"
  "capability_of ''session.tunnelFrame'' = Some CapSession"
  "capability_of ''session.tunnelClose'' = Some CapSession"
  "capability_of ''trust.verifyPeer'' = Some CapSession"
  "capability_of ''events.publish'' = Some CapEvents"
  "capability_of ''events.subscribe'' = Some CapEvents"
  "capability_of ''tunnel.dial'' = Some CapTunnel"
  "capability_of ''tunnel.close'' = Some CapTunnel"
  "capability_of ''tunnel.localWrite'' = Some CapTunnel"
  "capability_of ''tunnel.localClose'' = Some CapTunnel"
  "capability_of ''tunnel.bind'' = Some CapTunnel"
  "capability_of ''channel.open'' = Some CapChannel"
  "capability_of ''channel.close'' = Some CapChannel"
  "capability_of ''discovery.publish'' = Some CapDiscovery"
  "capability_of ''discovery.publishDetails'' = Some CapDiscovery"
  "capability_of ''surface.open'' = Some CapUI"
  "capability_of ''surface.write'' = Some CapUI"
  "capability_of ''surface.updateState'' = Some CapUI"
  "capability_of ''surface.setTitle'' = Some CapUI"
  "capability_of ''surface.close'' = Some CapUI"
  "capability_of ''dialog.open'' = Some CapUI"
  "capability_of ''dialog.setError'' = Some CapUI"
  "capability_of ''dialog.close'' = Some CapUI"
  by code_simp+

lemma if_elim: "(if b then x else y) \<Longrightarrow> (b \<Longrightarrow> x \<Longrightarrow> P) \<Longrightarrow> (y \<Longrightarrow> P) \<Longrightarrow> P"
  by (cases b) simp_all

lemma method_capability_of:
  "method \<in> {''fs.read'', ''fs.list''} \<or> method = ''fs.write'' \<Longrightarrow> capability_of method = Some CapFilesystem"
  "method = ''net.dial'' \<or> method \<in> {''net.close'', ''net.read'', ''net.write''} \<Longrightarrow> capability_of method = Some CapNetwork"
  "method = ''vault.getConnection'' \<or> method = ''vault.getSecret'' \<Longrightarrow> capability_of method = Some CapVault"
  "method = ''session.writeTerminal'' \<or> method = ''session.updateState'' \<or> method \<in> {''session.registerEmbed'', ''session.tunnelOpen'', ''session.tunnelFrame'', ''session.tunnelClose''} \<or> method = ''trust.verifyPeer'' \<Longrightarrow> capability_of method = Some CapSession"
  "method = ''events.publish'' \<or> method = ''events.subscribe'' \<Longrightarrow> capability_of method = Some CapEvents"
  "method \<in> {''tunnel.dial'', ''tunnel.close'', ''tunnel.localWrite'', ''tunnel.localClose'', ''tunnel.bind''} \<Longrightarrow> capability_of method = Some CapTunnel"
  "method \<in> {''channel.open'', ''channel.close''} \<Longrightarrow> capability_of method = Some CapChannel"
  "method = ''discovery.publish'' \<or> method = ''discovery.publishDetails'' \<Longrightarrow> capability_of method = Some CapDiscovery"
  "method \<in> {''surface.open'', ''surface.write'', ''surface.updateState'', ''surface.setTitle'', ''surface.close''} \<or> method \<in> {''dialog.open'', ''dialog.setError'', ''dialog.close''} \<Longrightarrow> capability_of method = Some CapUI"
  by (elim disjE insertE emptyE; simp only: method_capability)+

lemma Allow_granted:
  assumes "Allow g method" and "method \<notin> {''log.write'', ''ping'', ''view.postMessage''}"
  shows "\<exists>cap. capability_of method = Some cap \<and> cap \<in> set (GrantedCapabilityNames (mf_Capabilities (gt_manifest g)))"
    (is ?P)
proof -
  let ?c = "mf_Capabilities (gt_manifest g)"
  have quiet: "method \<in> {''log.write'', ''ping''} \<Longrightarrow> True \<Longrightarrow> ?P" "method = ''view.postMessage'' \<Longrightarrow> 0 < mf_Views (gt_manifest g) \<Longrightarrow> ?P"
    using assms(2) by blast+
  have fs: "method \<in> {''fs.read'', ''fs.list''} \<Longrightarrow> cs_FS ?c \<noteq> None \<Longrightarrow> ?P" "method = ''fs.write'' \<Longrightarrow> cs_FS ?c \<noteq> None \<Longrightarrow> ?P"
    using method_capability_of(1) granted_name(2) [of ?c] by blast+
  have network: "method = ''net.dial'' \<Longrightarrow> cs_Network ?c \<noteq> None \<Longrightarrow> ?P" "method \<in> {''net.close'', ''net.read'', ''net.write''} \<Longrightarrow> cs_Network ?c \<noteq> None \<Longrightarrow> ?P"
    using method_capability_of(2) granted_name(1) [of ?c] by blast+
  have vault: "method = ''vault.getConnection'' \<Longrightarrow> cs_Vault ?c \<noteq> None \<Longrightarrow> ?P" "method = ''vault.getSecret'' \<Longrightarrow> cs_Vault ?c \<noteq> None \<Longrightarrow> ?P"
    using method_capability_of(3) granted_name(4) [of ?c] by blast+
  have session: "method = ''session.writeTerminal'' \<Longrightarrow> cs_Session ?c \<noteq> None \<Longrightarrow> ?P" "method = ''session.updateState'' \<Longrightarrow> cs_Session ?c \<noteq> None \<Longrightarrow> ?P" "method \<in> {''session.registerEmbed'', ''session.tunnelOpen'', ''session.tunnelFrame'', ''session.tunnelClose''} \<Longrightarrow> cs_Session ?c \<noteq> None \<Longrightarrow> ?P" "method = ''trust.verifyPeer'' \<Longrightarrow> cs_Session ?c \<noteq> None \<Longrightarrow> ?P"
    using method_capability_of(4) granted_name(5) [of ?c] by blast+
  have events: "method = ''events.publish'' \<Longrightarrow> cs_Events ?c \<noteq> None \<Longrightarrow> ?P" "method = ''events.subscribe'' \<Longrightarrow> cs_Events ?c \<noteq> None \<Longrightarrow> ?P"
    using method_capability_of(5) granted_name(3) [of ?c] by blast+
  have tunnel: "method \<in> {''tunnel.dial'', ''tunnel.close'', ''tunnel.localWrite'', ''tunnel.localClose'', ''tunnel.bind''} \<Longrightarrow> cs_Tunnel ?c \<noteq> None \<Longrightarrow> ?P"
    using method_capability_of(6) granted_name(6) [of ?c] by blast+
  have channel: "method \<in> {''channel.open'', ''channel.close''} \<Longrightarrow> cs_Channel ?c \<noteq> None \<Longrightarrow> ?P"
    using method_capability_of(7) granted_name(7) [of ?c] by blast+
  have discovery: "method = ''discovery.publish'' \<Longrightarrow> cs_Discovery ?c \<noteq> None \<Longrightarrow> ?P" "method = ''discovery.publishDetails'' \<Longrightarrow> cs_Discovery ?c \<noteq> None \<Longrightarrow> ?P"
    using method_capability_of(8) granted_name(8) [of ?c] by blast+
  have ui: "method \<in> {''surface.open'', ''surface.write'', ''surface.updateState'', ''surface.setTitle'', ''surface.close''} \<Longrightarrow> cs_UI ?c \<noteq> None \<Longrightarrow> ?P" "method \<in> {''dialog.open'', ''dialog.setError'', ''dialog.close''} \<Longrightarrow> cs_UI ?c \<noteq> None \<Longrightarrow> ?P"
    using method_capability_of(9) granted_name(9) [of ?c] by blast+
  have details: "method = ''discovery.publishDetails'' \<Longrightarrow> cs_Discovery ?c \<noteq> None \<and> Q \<Longrightarrow> ?P" for Q using discovery(2) by blast
  show ?thesis
    using assms(1) unfolding Allow_def Let_def hasNetworkAccess_def
    by (elim if_elim) (erule FalseE | erule (1) quiet discovery details | (drule grantedD, erule (1) fs network vault session events tunnel channel ui))+
qed


section \<open>A plugin on this host\<close>

definition vn_caps :: CapabilitySet where
  "vn_caps = \<lparr>cs_Network = Some \<lparr>nc_Outbound = [''tcp:a.example:443''], nc_AllowArbitraryOutbound = False, nc_AllowPrivateNetworks = False\<rparr>, cs_FS = None,
    cs_Events = None, cs_Vault = None, cs_Session = None, cs_Auth = None, cs_Tunnel = None, cs_Channel = None, cs_Discovery = None, cs_UI = None, cs_I18n = None\<rparr>"

definition vn_manifest :: Manifest where
  "vn_manifest = \<lparr>mf_BundleFormat = [], mf_MinCoreVersion = [],
    mf_Requires = Some \<lparr>rs_PluginAPI = ''1.0.0'', rs_Capabilities = fmap_of_list [(CapNetwork, \<lparr>cr_Min = ''1.0.0'', cr_Features = [''dial'']\<rparr>)]\<rparr>,
    mf_Capabilities = vn_caps, mf_Views = 0\<rparr>"

definition vn_contract :: NegotiatedDescriptor where
  "vn_contract = \<lparr>nd_PluginAPI = \<lparr>sv_Major = 1, sv_Minor = 0, sv_Patch = 0, sv_Pre = []\<rparr>,
    nd_Capabilities = fmupd CapNetwork \<lparr>ng_Version = \<lparr>sv_Major = 1, sv_Minor = 0, sv_Patch = 0, sv_Pre = []\<rparr>, ng_Features = [''dial'']\<rparr> fmempty\<rparr>"

lemma vn_negotiate: "Negotiate vn_manifest hostRegistry = ([], Inr vn_contract)"
  by code_simp


theorem valid_manifest_negotiates_witness:
  "(\<exists>d. snd (Negotiate vn_manifest hostRegistry) = Inr d) \<or>
   (\<exists>r. snd (Negotiate vn_manifest hostRegistry) = Inl (Incompatible r) \<and> (report_Is r ErrIncompatibleAPI \<or> report_Is r ErrMissingFeature))"
proof -
  have "ValidateRequirements vn_manifest = None" "mf_Requires vn_manifest \<noteq> None \<or> mf_MinCoreVersion vn_manifest = []" by code_simp+
  then show ?thesis by (rule valid_manifest_negotiates)
qed


end
