(* ===== verification/Spec2Isabelle.thy ===== *)
theory Spec2Isabelle
  imports Padding Device_Log Vault_State Resolve Throttle Login_Limiter Transfer_Conflict Credentials Wire Write_Queue
    Snapshot_Client Server_Deletion Sync_Changes Member_Trust Plugin_Version
begin

text \<open>
  xQuakShell: end-to-end encrypted sync, its server, the trust rules of the desktop application, and what its plugins may reach

  xQuakShell is a desktop client for remote connections. What a person keeps in it (connections, keys, passwords, known
  hosts, settings) is synchronised between devices and shared in teams through a server that is not trusted: it stores
  signed, encrypted records and hash-linked logs, and every device verifies all of it again. This development models the
  sync protocol on both sides together with the rules that decide what an arriving record may do to a device, the part of the
  plugin host that decides what a plugin's process may reach, and a few self-contained rules of the domain around them.

  \<^bold>\<open>How the parts interact.\<close> A vault is a chain of signed heads; each head commits, through a Merkle root, to the newest
  version of every record, and names a position in the vault's membership log. The membership log says who may write and
  under which key epoch; each member's device log says which devices sign for the account. A device keeps the last
  head, records and logs it verified (\<open>state.db\<close>). A round resends a commit left in the outbox, pulls and verifies what is
  new, applies it to the local vault as far as the trust rules allow, pushes local changes as commits of its own, and
  then purges, re-encrypts and rotates keys where due. The server checks the same rules before it stores anything, so an
  honest server's vaults verify; what a device relies on is proved for a server that answers anything. Plugins are processes
  that run beside the application and ask it for everything: connections, files, channels, events. Each request is checked
  against the capabilities of the plugin's manifest, which the person agreed to when installing it.

  \<^bold>\<open>Theories and sources\<close> (paths under \<open>src/internal\<close>).
  \<^item> \<open>Prelude\<close>, \<open>Go_Strings\<close>, \<open>Hash_Log\<close>: machine types, results, byte encodings, the string functions used, and the locale of
    hash-linked logs, which the head chain, device log and membership log interpret.
  \<^item> \<open>Sync_Errors\<close>, \<open>Canon\<close>, \<open>Suite\<close>, \<open>Padding\<close>, \<open>Envelope\<close>, \<open>Head_Chain\<close>, \<open>Device_Log\<close>, \<open>Retention\<close>, \<open>Membership\<close>,
    \<open>Membership_Log\<close>, \<open>Vault_State\<close>, \<open>Merge\<close>: package \<open>domain/vaultsync\<close>, one theory per file or pair of files, with the
    structs as records, the states as records of finite maps and one function for every exported operation and rule.
  \<^item> \<open>Trust\<close>, \<open>Resolve\<close>, \<open>Plugin_Trust\<close>: package \<open>domain/synctrust\<close>, which changes apply, are held or refused, and
    the merge of record data; \<open>Credentials\<close>, \<open>Transfer_Conflict\<close>, \<open>Throttle\<close>: the domain files of those names.
  \<^item> \<open>Wire\<close>: the conversions of \<open>domain/syncwire\<close>.
  \<^item> \<open>Server_Store\<close>, \<open>Server_Vaults\<close>, \<open>Server_Accounts\<close>, \<open>Write_Queue\<close>, \<open>Login_Limiter\<close>: the server, \<open>syncserver/store\<close> and
    \<open>syncserver/usecase\<close>; the database is a record of tables, a statement an operation on them, a use case one transaction.
    \<open>Server_Rows\<close>, \<open>Server_Frame\<close>, \<open>Server_Invariant\<close>, \<open>Server_Steps\<close>, \<open>Server_Reachable\<close>, \<open>Server_Identity\<close>,
    \<open>Server_Deletion\<close>, \<open>Server_Properties\<close> hold its invariant, the step relation of its requests and what follows.
  \<^item> \<open>Snapshot_Client\<close>: \<open>infra/syncclient/snapshot.go\<close>. \<open>Sync_State\<close>: \<open>infra/syncstate\<close>, the tables a device keeps.
  \<^item> \<open>Sync_Crypto\<close>: \<open>infra/synccrypto\<close> and \<open>usecase/sync_keyring.go\<close>.
  \<^item> \<open>Sync_Logs\<close>, \<open>Sync_Interpret\<close>, \<open>Sync_Pull\<close>, \<open>Sync_Push\<close>, \<open>Sync_Epoch\<close>, \<open>Sync_Round\<close>: the sync engine, files
    \<open>usecase/sync_*.go\<close> and \<open>usecase/team_*.go\<close>. A run is a record (\<open>pullRun\<close>) beside the world of server, state database and
    local vault; an operation is an action on that world that returns a value or an error.
    \<open>Member_Trust\<close> is \<open>usecase/sync_members.go\<close>, the trust in the members of a team; \<open>Sync_Verified\<close>, \<open>Sync_Progress\<close> and
    \<open>Sync_Changes\<close> hold what is proved of the engine.
  \<^item> \<open>Plugin_Network\<close>: the network patterns and the addresses a plugin may dial (\<open>domain/plugin/network_pattern.go\<close>, \<open>net_dial_policy.go\<close>,
    \<open>infra/plugin/capability/net_proxy.go\<close> and the relays). \<open>Plugin_Channels\<close>: the slots of channels, tunnels and connections
    (\<open>channel_proxy.go\<close>, \<open>tunnel_dial_proxy.go\<close>, \<open>net_proxy.go\<close>), with the locale \<open>slot_pool\<close> all three interpret.
    \<open>Plugin_Paths\<close>: synced files and file roots (\<open>sync_paths.go\<close>, \<open>fs_scope.go\<close>, \<open>paths.go\<close>, \<open>data_dir.go\<close>).
    \<open>Plugin_Events\<close>: the event bus (\<open>event_channel.go\<close>, \<open>usecase/plugin_event_bus.go\<close>). \<open>Plugin_Version\<close>: versions, requirements,
    negotiation and the gate (\<open>semver.go\<close>, \<open>requirements.go\<close>, \<open>migration.go\<close>, \<open>negotiate.go\<close>, \<open>api_registry.go\<close>, \<open>capability/gate.go\<close>).
  \<^item> \<open>Server_Sample\<close>, \<open>Sync_Sample\<close>: concrete runs on which the witnesses evaluate.

  \<^bold>\<open>What the lemmas show.\<close>
  \<^item> Protocol core: the encoding is injective, the Merkle root binds the records, equal tips mean equal histories, replicas
    that accept the same chain agree, a snapshot equals a replay, an accepted commit was authorised at its membership
    position, the membership log keeps exactly one owner and consecutive epochs, only those entitled author an
    operation, removed members and revoked devices write nothing more, and the device log refines the abstract
    specification of certified and revoked devices.
  \<^item> Device: a pull never goes back behind what was verified, whatever the server answers; it leaves a database from which
    the next run starts; what it applies without asking passed the trust rules and was filed under its own item's id;
    logs of other accounts only grow. A commit this device builds passes its own verification and fits the
    server's limits. Sealed records open to what was sealed, and only at the coordinates they were sealed for.
  \<^item> Server: in every reachable database every stored vault verifies and the role table is the one the log gives; a commit
    may be retried; an invite registers once; a revoked device stays out; a device that reads a snapshot has the
    server's state; the write queue admits one writer at a time in order.
  \<^item> Plugins: a connection goes only where the manifest's patterns or its consented modes allow, whatever a name resolves to; a
    resolved path stays below a declared root; the patterns of synced files match what they mean; however calls interleave, a
    plugin never has more channels, tunnels or connections open than its limit, and a channel id is never in use twice; an event
    carries the name of its publisher, and the rate of events is bounded. Versions are read back as written, a plugin runs only
    under a contract the host offers, and every call the gate lets through belongs to a negotiated capability.
  \<^item> Defects found by the model are theorems too: they are listed with the properties they contradict at their theories.

  \<^bold>\<open>Parameters and hypotheses.\<close> SHA-256, Ed25519, HKDF, HPKE, the AEAD and OPAQUE are function parameters (\<open>crypto\<close>,
  \<open>primitives\<close>, fields of the engine). Where a property needs a law of them it is a named hypothesis: absence of collisions among
  the byte strings two histories hash (\<open>inj_on\<close> of the hash), that a seal opens to what was sealed and only with its additional data
  (\<open>aead_ok\<close>), that a signature verifies under its key (\<open>ed_ok\<close>), that a wrap opens with the seed (\<open>hpke_ok\<close>). JSON codecs, the
  mapping of the local vault's items to record data, the clock and the random source are parameters with no law unless
  one is stated. Clock and random source are read in sequence: each reading is numbered.

  \<^bold>\<open>Widths, bounds and fuel.\<close> Fixed-size integers and byte arrays are words of their width and wrap as in Go; \<open>int\<close> values
  that count list elements are natural numbers, as no list reaches \<open>2 ^ 63\<close> elements. Loops are structural or have a
  measure. The pull loop and the loop over pages of heads go on as long as the server says there is more: they terminate
  because every round raises a 64-bit sequence number; the page loop of a snapshot is bounded by its record limit. Retried
  operations (\<open>round_loop\<close>, \<open>reencrypt_loop\<close>, the attempts at a snapshot) carry the source's own retry bounds. Go's maps have no
  order; where the code walks one and the order cannot matter, the model walks it by key.

  \<^bold>\<open>Not modelled.\<close> HTTP, TLS and process plumbing of server and client; the text of JSON and error messages; SQLite
  itself, migrations and backups; the mapping of individual vault items to records; team invitations and the
  management of contacts; context cancellation other than as an
  error of a request; of the plugin host its processes, sandbox and installation, the rules of the manifest for other
  capabilities than network, files, events and versions, and the bytes that move over an open channel or connection; discovery, the
  protocol adapters (ssh, sftp, serial, vnc) and the presentation layer, which are input and output around third-party libraries.
\<close>

section \<open>Retention over the membership log\<close>

lemma rotations_nth:
  assumes "epochs_ok s" and "i \<le> unat (ms_epoch s)"
  shows "i < length (ms_rotations s) \<and> unat (r_Epoch (ms_rotations s ! i)) = i"
proof -
  from assms(1) have eq: "map (unat \<circ> r_Epoch) (ms_rotations s) = [0..<Suc (unat (ms_epoch s))]"
    by (simp add: epochs_ok_def)
  from arg_cong [OF eq, of length] assms(2) have len: "i < length (ms_rotations s)" by simp
  have "map (unat \<circ> r_Epoch) (ms_rotations s) ! i = i" unfolding eq using assms(2) by (simp del: upt_Suc)
  with len show ?thesis by simp
qed

lemma rotations_distinct: "epochs_ok s \<Longrightarrow> distinct (map r_Epoch (ms_rotations s))"
proof -
  assume "epochs_ok s"
  then have "distinct (map (unat \<circ> r_Epoch) (ms_rotations s))" by (simp add: epochs_ok_def del: upt_Suc)
  then show ?thesis by (simp add: distinct_map comp_inj_on_iff [symmetric] inj_on_def)
qed

lemma rotations_epochs:
  assumes "epochs_ok s"
  shows "e \<in> r_Epoch ` set (ms_rotations s) \<longleftrightarrow> unat e \<le> unat (ms_epoch s)"
proof -
  from assms have "map (unat \<circ> r_Epoch) (ms_rotations s) = [0..<Suc (unat (ms_epoch s))]"
    by (simp add: epochs_ok_def)
  from arg_cong [OF this, of set] have "unat ` r_Epoch ` set (ms_rotations s) = {0..<Suc (unat (ms_epoch s))}"
    by (simp add: image_image del: upt_Suc)
  then have "unat e \<in> unat ` r_Epoch ` set (ms_rotations s) \<longleftrightarrow> unat e \<le> unat (ms_epoch s)" by auto
  then show ?thesis by (auto simp: image_iff word_unat_eq_iff)
qed

text \<open>The rotation to an epoch is the one at its position in the log.\<close>

lemma rotation_to:
  assumes "epochs_ok s" and "unat e < unat (ms_epoch s)"
  shows "(\<exists>r \<in> set (ms_rotations s). unat (r_Epoch r) = unat e + 1 \<and> P r) \<longleftrightarrow> P (ms_rotations s ! (unat e + 1))"
proof -
  have "r = ms_rotations s ! (unat e + 1)" if "r \<in> set (ms_rotations s)" "unat (r_Epoch r) = unat e + 1" for r
  proof -
    from that(1) obtain i where i: "i < length (ms_rotations s)" "r = ms_rotations s ! i"
      by (auto simp: in_set_conv_nth)
    then have "i \<le> unat (ms_epoch s)" using assms(1) by (auto simp: epochs_ok_def dest!: arg_cong [of _ _ length])
    with rotations_nth [OF assms(1) this] i that(2) show ?thesis by simp
  qed
  moreover have "ms_rotations s ! (unat e + 1) \<in> set (ms_rotations s) \<and> unat (r_Epoch (ms_rotations s ! (unat e + 1))) = unat e + 1"
    using rotations_nth [OF assms(1), of "unat e + 1"] assms(2) by simp
  ultimately show ?thesis by blast
qed

lemma retired_past:
  assumes "epochs_ok s" and "EpochRetired e (ms_rotations s) inUse days now"
  shows "unat e < unat (ms_epoch s)"
proof -
  from assms(2) obtain r where r: "r \<in> set (ms_rotations s)" "unat e < unat (r_Epoch r)"
    unfolding EpochRetired_eq [OF rotations_distinct [OF assms(1)]]
    by (auto simp: list_ex_iff successor_elapsed_def word_less_nat_alt)
  with rotations_epochs [OF assms(1), of "r_Epoch r"] show ?thesis by auto
qed

lemma epoch_step: "member_step cr check s op = Inr t \<Longrightarrow> unat (ms_epoch s) \<le> unat (ms_epoch t)"
proof -
  assume "member_step cr check s op = Inr t"
  then obtain n where n: "applyKind cr (s\<lparr>ms_params := suite1_params\<rparr>) op = Inr n" "ms_epoch t = ms_epoch n"
    unfolding member_step_Inr by auto
  from n(1) show ?thesis unfolding n(2)
    by (cases rule: applyKind_cases) (simp_all add: u32_suc)
qed

interpretation epoch_mono: log_monotone "member_step cr check" "\<lambda>s t. unat (ms_epoch s) \<le> unat (ms_epoch t)" for cr check
  by unfold_locales (auto intro: epoch_step)

section \<open>Properties that span components\<close>

text \<open>Which keys a vault gives up: in every state a membership log can reach, the retired epochs are
  exactly the epochs before the current one that no current record uses and that either precede a
  shredding rotation or whose successor was started at least the full retention window ago. The key of the
  current epoch is never retired, whatever the clock says and even before a record uses it.\<close>

theorem retired_epochs_of_vault:
  assumes "NewMembershipState cr v = Inr s0" and "replay (member_step cr check) s0 ops = Inr s"
    and "length ops < 2 ^ 64" and "ops \<noteq> []"
  shows "e \<in> set (RetiredEpochs (ms_rotations s) inUse (ms_retentionDays s) now) \<longleftrightarrow>
    unat e < unat (ms_epoch s) \<and> \<not> inUse e \<and>
    ((\<exists>r \<in> set (ms_rotations s). e < r_Epoch r \<and> r_Shred r) \<or>
     unat (r_StartedUnixMilli (ms_rotations s ! (unat e + 1))) + unat (ms_retentionDays s) * 86400000 \<le> unat now)"
    (is "?retired \<longleftrightarrow> _")
proof -
  note ok = reachable_live(2) [OF assms]
  have "?retired \<longleftrightarrow> unat e < unat (ms_epoch s) \<and> EpochRetired e (ms_rotations s) inUse (ms_retentionDays s) now"
    unfolding RetiredEpochs_set using retired_past [OF ok, of e] rotations_epochs [OF ok, of e] by (auto dest: less_imp_le)
  then show ?thesis
    using rotation_to [OF ok, of e "\<lambda>r. unat (r_StartedUnixMilli r) + unat (ms_retentionDays s) * 86400000 \<le> unat now"]
    unfolding EpochRetired_eq [OF rotations_distinct [OF ok]] list_ex_iff successor_elapsed_def by blast
qed

theorem retired_epochs_of_vault_witness:
  "0 \<in> set (RetiredEpochs (ms_rotations ml_s4) (\<lambda>_. False) (ms_retentionDays ml_s4) (2 ^ 40)) \<and>
   1 \<notin> set (RetiredEpochs (ms_rotations ml_s4) (\<lambda>_. False) (ms_retentionDays ml_s4) (2 ^ 40))"
proof -
  have "[ml_create, ml_add, ml_remove, ml_rotate] \<noteq> []" "length [ml_create, ml_add, ml_remove, ml_rotate] < 2 ^ 64"
    by simp_all
  note th = retired_epochs_of_vault [OF ml_s0_New ml_run(2) this(2,1), of _ "\<lambda>_. False" "2 ^ 40"]
  show ?thesis unfolding th by (simp add: ml_state_defs ml_op_defs)
qed

text \<open>A revoked device is locked out of the vault for good: once a membership operation revoked it, no
  commit by it is accepted against that or any later membership state, whatever key the resolver still
  has for it, and no accepted commit carries a record written by it.\<close>

theorem revoked_device_cannot_commit:
  assumes "IsDeviceRevoked s device" and "replay (member_step cr check) s ops = Inr m"
    and "ApplyCommit cr' v c m resolve = Inr w"
  shows "h_Author (cm_Head c) \<noteq> device \<and> (\<forall>e \<in> set (cm_Records c). e_Author e \<noteq> device)"
proof -
  have "IsDeviceRevoked m device"
    using member_mono.le_replay [OF assms(2)] assms(1) by (auto simp: ms_le_def IsDeviceRevoked_def)
  moreover from assms(3) have "\<not> IsDeviceRevoked m (h_Author (cm_Head c))"
    and "\<forall>e \<in> set (cm_Records c). e_Author e = h_Author (cm_Head c)"
    unfolding ApplyCommit_Inr authorizeAuthor_Inr by (auto dest!: records_loop_Inr)
  ultimately show ?thesis by auto
qed

theorem revoked_device_cannot_commit_witness:
  "\<exists>err. ApplyCommit vc_crypto vc_s0 vc_commit (ml_s4\<lparr>ms_revoked := {|7|}\<rparr>) vc_resolve = Inl err"
proof (cases "ApplyCommit vc_crypto vc_s0 vc_commit (ml_s4\<lparr>ms_revoked := {|7|}\<rparr>) vc_resolve")
  case (Inr w)
  have "IsDeviceRevoked (ml_s4\<lparr>ms_revoked := {|7|}\<rparr>) 7" by (simp add: IsDeviceRevoked_def)
  from revoked_device_cannot_commit [OF this _ Inr, where ops = "[]"] show ?thesis
    by (simp add: vc_commit_def)
qed auto

text \<open>What follows a removal is written under keys the removed member never got: every commit accepted
  against a membership state past the removal and its next operation is made, with all its records,
  in an epoch later than the one the member was removed in.\<close>

theorem commits_after_removal:
  assumes "member_step cr check s op = Inr t" and "o_Kind op = MemberRemove"
    and "member_step cr check t op' = Inr u" and "replay (member_step cr check) u ops = Inr m"
    and "ApplyCommit cr' v c m resolve = Inr w"
  shows "unat (ms_epoch s) < unat (h_CurrentEpoch (cm_Head c)) \<and>
    (\<forall>e \<in> set (cm_Records c). unat (ms_epoch s) < unat (e_Epoch e))"
proof -
  from assms(1,2) have "ms_pendingRotation t" "ms_epoch t = ms_epoch s"
    by (auto simp: member_step_Inr applyKind_def applyRemove_Inr split: if_splits)
  with assms(3) have "unat (ms_epoch u) = Suc (unat (ms_epoch s))"
    by (auto simp: member_step_Inr applyKind_def applyRotate_Inr u32_suc)
  then have "unat (ms_epoch s) < unat (ms_epoch m)" using epoch_mono.le_replay [OF assms(4)] by simp
  moreover from assms(5) have "h_CurrentEpoch (cm_Head c) = ms_epoch m"
    and "\<forall>e \<in> set (cm_Records c). e_Epoch e = ms_epoch m"
    unfolding ApplyCommit_Inr by (auto dest!: records_loop_Inr)
  ultimately show ?thesis by simp
qed

theorem commits_after_removal_witness:
  "unat (ms_epoch ml_s2) < unat (h_CurrentEpoch (cm_Head vc_commit)) \<and> o_Subject ml_remove = 9"
proof -
  have "o_Kind ml_remove = MemberRemove" "replay (member_step ml_crypto ml_check) ml_s4 [] = Inr ml_s4"
    by (simp_all add: ml_op_defs)
  from commits_after_removal [OF ml_remove_step this(1) ml_rotate_step this(2) vc_step] show ?thesis
    by (simp add: ml_op_defs)
qed

end
